(* ===== verification/RoPrelude.thy ===== *)
theory RoPrelude
  imports Main "HOL-Library.Word" "HOL-Library.Sublist" "HOL-Library.Multiset"
begin

text \<open>
  Shared vocabulary of the development: Rust's integer widths, the operations of Rust's \<open>str\<close>,
  slices and integers that the launcher's crates use, and the lemmas about them that the component
  theories share.

  A Rust string is a HOL \<^typ>\<open>string\<close>: one \<^typ>\<open>char\<close> per Unicode scalar value,
  restricted to the scalar values below 256.  White space and control characters are those that
  Unicode assigns in that range, so \<open>trim\<close> and \<open>is_control\<close> are Rust's functions there.
  A byte string, where the source works on bytes, is a list of \<open>8 word\<close>.
\<close>

section \<open>Types and collections\<close>

type_synonym u8 = "8 word"
type_synonym u16 = "16 word"
type_synonym u32 = "32 word"
type_synonym u64 = "64 word"

text \<open>Rust's \<open>Result\<close>: \<open>Inl\<close> is \<open>Err\<close>, \<open>Inr\<close> is \<open>Ok\<close>.\<close>

type_synonym ('e, 'a) result = "'e + 'a"

named_theorems inv_intros "preservation of component invariants"

definition is_ok :: "('e, 'a) result \<Rightarrow> bool" where
  "is_ok r \<longleftrightarrow> (case r of Inl _ \<Rightarrow> False | Inr _ \<Rightarrow> True)"

definition and_then :: "('e, 'a) result \<Rightarrow> ('a \<Rightarrow> ('e, 'b) result) \<Rightarrow> ('e, 'b) result" where
  "and_then r f = (case r of Inl e \<Rightarrow> Inl e | Inr a \<Rightarrow> f a)"

definition map_err :: "('e \<Rightarrow> 'f) \<Rightarrow> ('e, 'a) result \<Rightarrow> ('f, 'a) result" where
  "map_err f r = (case r of Inl e \<Rightarrow> Inl (f e) | Inr a \<Rightarrow> Inr a)"

definition ok_option :: "('e, 'a) result \<Rightarrow> 'a option" where
  "ok_option r = (case r of Inl _ \<Rightarrow> None | Inr a \<Rightarrow> Some a)"

text \<open>\<open>iter().map(f).collect::<Result<Vec<_>, _>>()\<close>: the first error ends the iteration.\<close>

fun collect_results :: "('a \<Rightarrow> ('e, 'b) result) \<Rightarrow> 'a list \<Rightarrow> ('e, 'b list) result" where
  "collect_results f [] = Inr []"
| "collect_results f (x # xs) =
     (case f x of Inl e \<Rightarrow> Inl e
      | Inr y \<Rightarrow> (case collect_results f xs of Inl e \<Rightarrow> Inl e | Inr ys \<Rightarrow> Inr (y # ys)))"

section \<open>Integers\<close>

definition clamp :: "'a::linorder \<Rightarrow> 'a \<Rightarrow> 'a \<Rightarrow> 'a" where
  "clamp lo hi x = (if x < lo then lo else if hi < x then hi else x)"

definition checked_sub :: "'a::len word \<Rightarrow> 'a word \<Rightarrow> 'a word option" where
  "checked_sub a b = (if b \<le> a then Some (a - b) else None)"

definition saturating_add :: "'a::len word \<Rightarrow> 'a word \<Rightarrow> 'a word" where
  "saturating_add a b = (if unat a + unat b < 2 ^ LENGTH('a) then a + b else - 1)"

section \<open>Strings\<close>

definition is_whitespace :: "char \<Rightarrow> bool" where
  "is_whitespace c \<longleftrightarrow>
     (let n = (of_char c :: nat) in 9 \<le> n \<and> n \<le> 13 \<or> n = 32 \<or> n = 133 \<or> n = 160)"

definition is_control :: "char \<Rightarrow> bool" where
  "is_control c \<longleftrightarrow> (let n = (of_char c :: nat) in n < 32 \<or> 127 \<le> n \<and> n < 160)"

definition is_ascii_alphanumeric :: "char \<Rightarrow> bool" where
  "is_ascii_alphanumeric c \<longleftrightarrow>
     (let n = (of_char c :: nat)
      in 48 \<le> n \<and> n \<le> 57 \<or> 65 \<le> n \<and> n \<le> 90 \<or> 97 \<le> n \<and> n \<le> 122)"

definition ascii_upper :: "char \<Rightarrow> char" where
  "ascii_upper c =
     (let n = (of_char c :: nat) in if 97 \<le> n \<and> n \<le> 122 then char_of (n - 32) else c)"

definition ascii_lower :: "char \<Rightarrow> char" where
  "ascii_lower c =
     (let n = (of_char c :: nat) in if 65 \<le> n \<and> n \<le> 90 then char_of (n + 32) else c)"

definition to_ascii_uppercase :: "string \<Rightarrow> string" where
  "to_ascii_uppercase s = map ascii_upper s"

definition to_ascii_lowercase :: "string \<Rightarrow> string" where
  "to_ascii_lowercase s = map ascii_lower s"

definition eq_ignore_ascii_case :: "string \<Rightarrow> string \<Rightarrow> bool" where
  "eq_ignore_ascii_case a b \<longleftrightarrow> to_ascii_lowercase a = to_ascii_lowercase b"

definition trim_start :: "string \<Rightarrow> string" where
  "trim_start s = dropWhile is_whitespace s"

definition trim_end :: "string \<Rightarrow> string" where
  "trim_end s = rev (dropWhile is_whitespace (rev s))"

definition trim :: "string \<Rightarrow> string" where
  "trim s = trim_end (trim_start s)"

definition strip_prefix :: "'a list \<Rightarrow> 'a list \<Rightarrow> 'a list option" where
  "strip_prefix p s = (if prefix p s then Some (drop (length p) s) else None)"

definition strip_suffix :: "'a list \<Rightarrow> 'a list \<Rightarrow> 'a list option" where
  "strip_suffix p s = (if suffix p s then Some (take (length s - length p) s) else None)"

text \<open>\<open>str::len\<close>, in bytes.\<close>

definition byte_length :: "string \<Rightarrow> nat" where
  "byte_length v = sum_list (map (\<lambda>c. if of_char c < (128 :: nat) then 1 else 2) v)"

text \<open>\<open>str::find\<close> with a string needle, \<open>str::split\<close> with a character, and
  \<open>str::split_once\<close>.\<close>

fun find_sub :: "'a list \<Rightarrow> 'a list \<Rightarrow> nat option" where
  "find_sub p [] = (if p = [] then Some 0 else None)"
| "find_sub p (x # xs) = (if prefix p (x # xs) then Some 0 else map_option Suc (find_sub p xs))"

fun split_on :: "'a \<Rightarrow> 'a list \<Rightarrow> 'a list list" where
  "split_on d [] = [[]]"
| "split_on d (c # cs) =
     (if c = d then [] # split_on d cs
      else (case split_on d cs of [] \<Rightarrow> [[c]] | p # ps \<Rightarrow> (c # p) # ps))"

fun split_once :: "'a \<Rightarrow> 'a list \<Rightarrow> ('a list \<times> 'a list) option" where
  "split_once d [] = None"
| "split_once d (c # cs) =
     (if c = d then Some ([], cs) else map_option (\<lambda>(a, b). (c # a, b)) (split_once d cs))"

text \<open>\<open>str::lines\<close>: split at line feeds, a final line feed ends the last line, and a carriage
  return before a line feed is dropped.\<close>

definition strip_cr :: "string \<Rightarrow> string" where
  "strip_cr s = (case strip_suffix [CHR 13] s of Some t \<Rightarrow> t | None \<Rightarrow> s)"

fun lines_of :: "string list \<Rightarrow> string list" where
  "lines_of [] = []"
| "lines_of [s] = (if s = [] then [] else [s])"
| "lines_of (s # t # ts) = strip_cr s # lines_of (t # ts)"

definition lines :: "string \<Rightarrow> string list" where
  "lines s = lines_of (split_on (CHR 10) s)"

definition concat_with :: "'a \<Rightarrow> 'a list list \<Rightarrow> 'a list" where
  "concat_with d ps = (case ps of [] \<Rightarrow> [] | p # qs \<Rightarrow> p @ concat (map (\<lambda>q. d # q) qs))"

section \<open>Lists\<close>

text \<open>\<open>slice.sort_by_key\<close> is stable: a stable insertion sort by a key into a linear order, and
  \<open>Vec::dedup\<close>, which removes consecutive repeated elements.\<close>

definition sort_by_key :: "('a \<Rightarrow> 'k::linorder) \<Rightarrow> 'a list \<Rightarrow> 'a list" where
  "sort_by_key f xs = sort_key f xs"

definition dedup :: "'a list \<Rightarrow> 'a list" where
  "dedup xs = remdups_adj xs"

text \<open>\<open>iter().position(p)\<close>.\<close>

fun position :: "('a \<Rightarrow> bool) \<Rightarrow> 'a list \<Rightarrow> nat option" where
  "position p [] = None"
| "position p (x # xs) = (if p x then Some 0 else map_option Suc (position p xs))"

text \<open>\<open>filter(|x| seen.insert(key(x)))\<close>: keep the first element of each key.\<close>

fun first_by_key :: "('a \<Rightarrow> 'k) \<Rightarrow> 'k list \<Rightarrow> 'a list \<Rightarrow> 'a list" where
  "first_by_key f seen [] = []"
| "first_by_key f seen (x # xs) =
     (if f x \<in> set seen then first_by_key f seen xs
      else x # first_by_key f (f x # seen) xs)"

text \<open>\<open>for x in xs { check(x)?; if !seen.insert(key(x)) { return Err(..) } }\<close>\<close>

fun check_unique :: "('a \<Rightarrow> ('e, unit) result) \<Rightarrow> ('a \<Rightarrow> 'k) \<Rightarrow> ('a \<Rightarrow> 'e) \<Rightarrow> 'k set \<Rightarrow> 'a list \<Rightarrow> ('e, unit) result" where
  "check_unique f key dup seen [] = Inr ()"
| "check_unique f key dup seen (x # xs) =
     and_then (f x) (\<lambda>_. if key x \<in> seen then Inl (dup x) else check_unique f key dup (insert (key x) seen) xs)"

lemma check_unique_ok:
  "check_unique f key dup seen xs = Inr () \<longleftrightarrow> (\<forall>x \<in> set xs. f x = Inr () \<and> key x \<notin> seen) \<and> distinct (map key xs)"
  by (induction xs arbitrary: seen) (auto simp: and_then_def image_iff split: sum.split)

definition check :: "bool \<Rightarrow> 'e \<Rightarrow> ('e, unit) result" where
  "check ok e = (if ok then Inr () else Inl e)"

definition optional :: "'a option \<Rightarrow> ('a \<Rightarrow> ('e, unit) result) \<Rightarrow> ('e, unit) result" where
  "optional v f = (case v of None \<Rightarrow> Inr () | Some x \<Rightarrow> f x)"

lemma check_ok [simp]: "check b e = Inr x \<longleftrightarrow> b"
  by (simp add: check_def)

section \<open>Printing numbers\<close>

text \<open>\<open>format!("{}", n)\<close> for an unsigned number.\<close>

fun show_nat :: "nat \<Rightarrow> string" where
  "show_nat n = (if n < 10 then [char_of (48 + n)] else show_nat (n div 10) @ [char_of (48 + n mod 10)])"

declare show_nat.simps [simp del]

section \<open>Facts about strings\<close>

lemma sorted_remdups_adj_distinct: "sorted xs \<Longrightarrow> distinct (remdups_adj xs)"
  by (induction xs rule: remdups_adj.induct) auto

lemma dedup_sort: "dedup (sort xs) = sorted_list_of_set (set xs)"
  by (rule sorted_distinct_set_unique) (simp_all add: dedup_def sorted_remdups_adj_distinct)

lemma dropWhile_hd_id: "s = [] \<or> \<not> P (hd s) \<Longrightarrow> dropWhile P s = s"
  by (cases s) auto

lemma trim_id:
  "s = [] \<or> \<not> is_whitespace (hd s) \<and> \<not> is_whitespace (last s) \<Longrightarrow> trim s = s"
  by (auto simp: trim_def trim_start_def trim_end_def dropWhile_hd_id hd_rev)

lemma ascii_lower_idem [simp]: "ascii_lower (ascii_lower c) = ascii_lower c"
  by (auto simp: ascii_lower_def Let_def)

lemma lowercase_idem [simp]: "to_ascii_lowercase (to_ascii_lowercase s) = to_ascii_lowercase s"
  by (simp add: to_ascii_lowercase_def)

lemma ascii_upper_idem [simp]: "ascii_upper (ascii_upper c) = ascii_upper c"
  by (auto simp: ascii_upper_def Let_def)

lemma uppercase_idem [simp]: "to_ascii_uppercase (to_ascii_uppercase s) = to_ascii_uppercase s"
  by (simp add: to_ascii_uppercase_def)

lemma is_whitespace_upper [simp]: "is_whitespace (ascii_upper c) = is_whitespace c"
  by (auto simp: ascii_upper_def is_whitespace_def Let_def)

lemma hd_dropWhile_not: "dropWhile P xs \<noteq> [] \<Longrightarrow> \<not> P (hd (dropWhile P xs))"
  by (induction xs) auto

lemma trim_endpoints:
  "trim s \<noteq> [] \<Longrightarrow> \<not> is_whitespace (hd (trim s)) \<and> \<not> is_whitespace (last (trim s))"
proof -
  let ?t = "trim_start s"
  assume ne: "trim s \<noteq> []"
  then have "dropWhile is_whitespace (rev ?t) \<noteq> []" by (simp add: trim_def trim_end_def)
  from hd_dropWhile_not [OF this] ne have "\<not> is_whitespace (last (trim s))"
    by (simp add: trim_def trim_end_def last_rev)
  moreover have "prefix (trim s) ?t"
    unfolding trim_def trim_end_def
    by (metis rev_rev_ident suffix_dropWhile suffix_to_prefix)
  with ne have "hd (trim s) = hd ?t" "?t \<noteq> []" by (auto simp: prefix_def)
  with hd_dropWhile_not [of is_whitespace s] have "\<not> is_whitespace (hd (trim s))"
    by (simp add: trim_start_def)
  ultimately show ?thesis by simp
qed

lemma trim_idem [simp]: "trim (trim s) = trim s"
  using trim_endpoints [of s] by (intro trim_id) blast

lemma trim_uppercase: "trim (to_ascii_uppercase s) = to_ascii_uppercase (trim s)"
  by (simp add: trim_def trim_start_def trim_end_def to_ascii_uppercase_def dropWhile_map
      rev_map comp_def)

lemma clamp_bounds [simp]: "lo \<le> hi \<Longrightarrow> lo \<le> clamp lo hi x" "lo \<le> hi \<Longrightarrow> clamp lo hi x \<le> hi"
  by (auto simp: clamp_def)

lemma clamp_id [simp]: "lo \<le> x \<Longrightarrow> x \<le> hi \<Longrightarrow> clamp lo hi x = x"
  by (auto simp: clamp_def)

lemma split_on_not_Nil [simp]: "split_on d s \<noteq> []"
  by (induction s) (auto split: list.splits)

lemma split_on_no_sep: "d \<notin> set s \<Longrightarrow> split_on d s = [s]"
  by (induction s) auto

section \<open>The contract of a normalised configuration\<close>

text \<open>
  Every tool stores its configuration after \<open>clamped()\<close>.  The contract: the result is within the
  tool's bounds, and a configuration within the bounds is left alone.
\<close>

locale clamped_config =
  fixes clamp_cfg :: "'c \<Rightarrow> 'c" and within :: "'c \<Rightarrow> bool"
  assumes clamped_within: "within (clamp_cfg c)"
    and within_fixed: "within c \<Longrightarrow> clamp_cfg c = c"
begin

lemma clamped_idem: "clamp_cfg (clamp_cfg c) = clamp_cfg c"
  by (rule within_fixed [OF clamped_within])

lemma fixed_iff: "clamp_cfg c = c \<longleftrightarrow> within c"
  using clamped_within [of c] within_fixed by auto

end

section \<open>The contracts of a state machine\<close>

text \<open>
  A component with a step relation promises that its reachable states satisfy its invariant and that
  steps stay among them; a machine may also promise that a rank of its states never goes back.
\<close>

locale guarded_machine =
  fixes reach :: "'s \<Rightarrow> bool" and step :: "'s \<Rightarrow> 's \<Rightarrow> bool" and inv :: "'s \<Rightarrow> bool"
  assumes reach_inv: "reach s \<Longrightarrow> inv s"
    and reach_step: "reach s \<Longrightarrow> step s t \<Longrightarrow> reach t"
begin

lemma run_reach: "step\<^sup>*\<^sup>* s t \<Longrightarrow> reach s \<Longrightarrow> reach t"
  by (induction rule: rtranclp_induct) (auto intro: reach_step)

lemma run_inv: "reach s \<Longrightarrow> step\<^sup>*\<^sup>* s t \<Longrightarrow> inv t"
  by (rule reach_inv [OF run_reach])

end

text \<open>A guarded machine that implements a specification: each of its steps is a step of the specification
  or changes nothing the specification sees.\<close>

locale refined_machine = guarded_machine reach step inv
  for reach :: "'s \<Rightarrow> bool" and step :: "'s \<Rightarrow> 's \<Rightarrow> bool" and inv :: "'s \<Rightarrow> bool" +
  fixes spec :: "'a \<Rightarrow> 'a \<Rightarrow> bool" and view :: "'s \<Rightarrow> 'a"
  assumes step_spec: "reach s \<Longrightarrow> step s t \<Longrightarrow> view t = view s \<or> spec (view s) (view t)"
begin

lemma run_spec: "step\<^sup>*\<^sup>* s t \<Longrightarrow> reach s \<Longrightarrow> spec\<^sup>*\<^sup>* (view s) (view t)"
proof (induction rule: rtranclp_induct)
  case (step t u)
  then have "reach t" by (blast intro: run_reach)
  from step_spec [OF this step.hyps(2)] step show ?case
    by (metis rtranclp.rtrancl_into_rtrancl)
qed simp

end

locale forward_machine =
  fixes step :: "'s \<Rightarrow> 's \<Rightarrow> bool" and rank :: "'s \<Rightarrow> 'r::order"
  assumes step_forward: "step s t \<Longrightarrow> rank s \<le> rank t"
begin

lemma run_forward: "step\<^sup>*\<^sup>* s t \<Longrightarrow> rank s \<le> rank t"
  by (induction rule: rtranclp_induct) (auto intro: order_trans step_forward)

lemma run_between: "step\<^sup>*\<^sup>* s t \<Longrightarrow> step\<^sup>*\<^sup>* t u \<Longrightarrow> rank u = rank s \<Longrightarrow> rank t = rank s"
  using run_forward by (metis antisym)

end

end
