(* ===== verification/Ports.thy ===== *)
theory Ports
  imports RoPrelude
begin

text \<open>
  The error type and the ports of \<open>ro-tools-core\<close> (\<open>error.rs\<close>, \<open>ports.rs\<close>).

  A \<open>MemoryReader\<close> adapter is the record of the answers it gives; a new record stands for a
  later state of the client's memory.  A \<open>KeyPressWriter\<close> or \<open>SpamCycleWriter\<close> adapter is its
  answers, indexed by the number of calls made so far, and the log of the calls: nothing is assumed
  about which calls fail.
\<close>

section \<open>Errors\<close>

datatype tools_error = MemoryRead u32 string | Input string string | Other string

section \<open>Memory reader\<close>

record memory_reader =
  read_u32 :: "u32 \<Rightarrow> (tools_error, u32) result"
  read_u32_slice :: "u32 \<Rightarrow> nat \<Rightarrow> (tools_error, u32 list) result"
  read_string :: "u32 \<Rightarrow> nat \<Rightarrow> (tools_error, string) result"

text \<open>The provided method: one \<open>read_u32\<close> per slot, at wrapping 32-bit addresses.\<close>

definition default_read_u32_slice ::
  "(u32 \<Rightarrow> (tools_error, u32) result) \<Rightarrow> u32 \<Rightarrow> nat \<Rightarrow> (tools_error, u32 list) result" where
  "default_read_u32_slice rd address len =
     collect_results (\<lambda>index. rd (address + of_nat index * 4)) [0..<len]"

section \<open>Key presses\<close>

record key_port =
  kp_answer :: "nat \<Rightarrow> string \<Rightarrow> tools_error option"
  kp_log :: "string list"

definition press_key :: "string \<Rightarrow> key_port \<Rightarrow> (tools_error, unit) result \<times> key_port" where
  "press_key key p =
     (case kp_answer p (length (kp_log p)) key of Some e \<Rightarrow> Inl e | None \<Rightarrow> Inr (),
      p\<lparr>kp_log := kp_log p @ [key]\<rparr>)"

section \<open>Spam cycles\<close>

datatype spam_modifier = Shift

datatype spam_call = SpamCycle string "spam_modifier option" "nat option" | ReleaseSpam

record spam_port =
  sp_cycle_answer :: "nat \<Rightarrow> spam_call \<Rightarrow> (tools_error, bool) result"
  sp_release_answer :: "nat \<Rightarrow> (tools_error, unit) result"
  sp_log :: "spam_call list"

definition spam_cycle ::
  "string \<Rightarrow> spam_modifier option \<Rightarrow> nat option \<Rightarrow> spam_port
     \<Rightarrow> (tools_error, bool) result \<times> spam_port" where
  "spam_cycle key modifier deadline p =
     (let call = SpamCycle key modifier deadline
      in (sp_cycle_answer p (length (sp_log p)) call, p\<lparr>sp_log := sp_log p @ [call]\<rparr>))"

definition release_spam :: "spam_port \<Rightarrow> (tools_error, unit) result \<times> spam_port" where
  "release_spam p =
     (sp_release_answer p (length (sp_log p)), p\<lparr>sp_log := sp_log p @ [ReleaseSpam]\<rparr>)"

section \<open>Facts shared by the engines\<close>

lemma press_key_log [simp]:
  "kp_log (snd (press_key key p)) = kp_log p @ [key]"
  "kp_answer (snd (press_key key p)) = kp_answer p"
  by (simp_all add: press_key_def)

lemma press_keyD:
  assumes "press_key key p = (r, p')"
  shows "kp_log p' = kp_log p @ [key]" "kp_answer p' = kp_answer p"
  using assms by (auto simp: press_key_def)

lemma collect_results_length:
  "collect_results f xs = Inr ys \<Longrightarrow> length ys = length xs"
  by (induction xs arbitrary: ys) (auto split: sum.splits)

lemma collect_results_nth:
  "collect_results f xs = Inr ys \<Longrightarrow> i < length xs \<Longrightarrow> f (xs ! i) = Inr (ys ! i)"
  by (induction xs arbitrary: ys i) (auto split: sum.splits simp: nth_Cons')

lemma collect_results_Inr_iff:
  "(\<exists>ys. collect_results f xs = Inr ys) \<longleftrightarrow> (\<forall>x \<in> set xs. is_ok (f x))"
proof (induction xs)
  case (Cons x xs)
  then show ?case
    by (cases "f x"; cases "collect_results f xs") (auto simp: is_ok_def)
qed simp

lemma default_read_u32_slice_length:
  "default_read_u32_slice rd address len = Inr vs \<Longrightarrow> length vs = len"
  unfolding default_read_u32_slice_def by (drule collect_results_length) simp

section \<open>Concrete adapters\<close>

text \<open>A client memory that answers every slice read with a prefix of the given values, and a key
  writer that always succeeds: the inputs of the engines' witnesses.\<close>

definition example_memory :: "u32 list \<Rightarrow> memory_reader" where
  "example_memory vs =
     \<lparr>read_u32 = (\<lambda>_. Inr 0), read_u32_slice = (\<lambda>_ n. Inr (take n vs)), read_string = (\<lambda>_ _. Inr ''Hero'')\<rparr>"

definition example_port :: key_port where
  "example_port = \<lparr>kp_answer = (\<lambda>_ _. None), kp_log = []\<rparr>"

end
