(* ===== verification/Glob.thy ===== *)
theory Glob
  imports RoPrelude
begin

text \<open>
  Executable-name globs: the greedy matcher that \<open>domain.rs\<close> and \<open>presence.rs\<close> each carry, the
  declarative meaning of a pattern, and the proof that the greedy matcher decides it.
\<close>

section \<open>The matcher of the source\<close>

text \<open>
  The loop over the parts of \<open>pattern.split('*')\<close>.  \<open>norm\<close> is the case folding applied
  before \<open>find\<close>; \<open>starts\<close> and \<open>ends\<close> say whether the pattern starts or ends with a star;
  \<open>n\<close> is the number of parts and \<open>i\<close> the index of the current one.
\<close>

fun glob_loop ::
  "(string \<Rightarrow> string) \<Rightarrow> bool \<Rightarrow> bool \<Rightarrow> nat \<Rightarrow> nat \<Rightarrow> string list \<Rightarrow> string \<Rightarrow> bool" where
  "glob_loop norm starts ends n i [] rest = True"
| "glob_loop norm starts ends n i (part # parts) rest =
     (if part = [] then glob_loop norm starts ends n (Suc i) parts rest
      else if i = 0 \<and> \<not> starts then
        (if \<not> prefix part rest then False
         else glob_loop norm starts ends n (Suc i) parts (drop (length part) rest))
      else if i = n - 1 \<and> \<not> ends then suffix part rest
      else (case find_sub (norm part) (norm rest) of
              None \<Rightarrow> False
            | Some pos \<Rightarrow>
                glob_loop norm starts ends n (Suc i) parts (drop (pos + length part) rest)))"

definition glob_parts :: "(string \<Rightarrow> string) \<Rightarrow> string \<Rightarrow> string \<Rightarrow> bool" where
  "glob_parts norm pattern subject =
     (let parts = split_on (CHR ''*'') pattern
      in glob_loop norm (prefix [CHR ''*''] pattern) (suffix [CHR ''*''] pattern)
           (length parts) 0 parts subject)"

definition glob_match :: "string \<Rightarrow> string \<Rightarrow> bool" where
  "glob_match pattern subject =
     (if CHR ''*'' \<notin> set pattern then eq_ignore_ascii_case pattern subject
      else glob_parts to_ascii_lowercase pattern subject)"

definition presence_glob_match :: "string \<Rightarrow> string \<Rightarrow> bool" where
  "presence_glob_match pattern subject =
     (if CHR ''*'' \<notin> set pattern then pattern = subject
      else glob_parts (\<lambda>s. s) pattern subject)"

section \<open>What a pattern means\<close>

text \<open>A star matches any text, every other character matches itself.\<close>

fun glob_spec :: "string \<Rightarrow> string \<Rightarrow> bool" where
  "glob_spec [] t = (t = [])"
| "glob_spec (p # ps) t =
     (if p = CHR ''*''
      then glob_spec ps t \<or> (case t of [] \<Rightarrow> False | _ # cs \<Rightarrow> glob_spec (p # ps) cs)
      else (case t of [] \<Rightarrow> False | c # cs \<Rightarrow> p = c \<and> glob_spec ps cs))"

declare glob_spec.simps [simp del]

text \<open>The same in terms of the parts between the stars.\<close>

fun parts_match :: "'a list list \<Rightarrow> 'a list \<Rightarrow> bool" where
  "parts_match [] t = False"
| "parts_match [p] t = (t = p)"
| "parts_match (p # q # ps) t = (\<exists>g r. t = p @ g @ r \<and> parts_match (q # ps) r)"

definition float_match :: "'a list list \<Rightarrow> 'a list \<Rightarrow> bool" where
  "float_match ps t \<longleftrightarrow> (\<exists>g r. t = g @ r \<and> parts_match ps r)"

fun greedy :: "'a list list \<Rightarrow> 'a list \<Rightarrow> bool" where
  "greedy [] t = True"
| "greedy [p] t = suffix p t"
| "greedy (p # q # ps) t =
     (case find_sub p t of None \<Rightarrow> False | Some k \<Rightarrow> greedy (q # ps) (drop (k + length p) t))"

section \<open>Searching and splitting\<close>

lemma find_sub_SomeD:
  "find_sub p s = Some k \<Longrightarrow> s = take k s @ p @ drop (k + length p) s \<and> k + length p \<le> length s"
proof (induction s arbitrary: k)
  case (Cons x xs)
  show ?case
  proof (cases "prefix p (x # xs)")
    case True
    with Cons.prems prefix_length_le [OF True] show ?thesis by (auto simp: prefix_def)
  next
    case False
    with Cons.prems obtain j where "find_sub p xs = Some j" "k = Suc j" by auto
    with Cons.IH [of j] show ?thesis by auto
  qed
qed (auto split: if_splits)

lemma find_sub_least:
  "s = g @ p @ r \<Longrightarrow> \<exists>k. find_sub p s = Some k \<and> k \<le> length g"
proof (induction s arbitrary: g)
  case (Cons x xs)
  show ?case
  proof (cases "prefix p (x # xs)")
    case False
    with Cons.prems obtain y g' where g: "g = y # g'" by (cases g) (auto simp: prefix_def)
    with Cons.prems have "xs = g' @ p @ r" by simp
    from Cons.IH [OF this] False g show ?thesis by auto
  qed auto
qed auto

lemma find_sub_Nil [simp]: "find_sub [] s = Some 0"
  by (cases s) auto

lemma split_on_hd_Nil: "hd (split_on d s) = [] \<longleftrightarrow> s = [] \<or> hd s = d"
  by (cases s) (auto split: list.splits)

lemma split_on_single: "split_on d s = [p] \<Longrightarrow> p = s \<and> d \<notin> set s"
  by (induction s arbitrary: p) (auto split: list.splits if_splits)

lemma split_on_last_Nil: "last (split_on d s) = [] \<longleftrightarrow> s = [] \<or> last s = d"
proof (induction s)
  case (Cons c cs)
  then show ?case
    by (cases "split_on d cs") (auto split: list.splits dest: split_on_single)
qed simp

lemma split_on_length: "d \<in> set s \<Longrightarrow> 2 \<le> length (split_on d s)"
proof (induction s)
  case (Cons c cs)
  then show ?case
    by (cases "split_on d cs") (auto split: list.splits simp: Suc_le_eq)
qed simp

section \<open>Greedy search is complete\<close>

lemma float_match_mono: "float_match ps r \<Longrightarrow> float_match ps (g @ r)"
  unfolding float_match_def by (metis append.assoc)

lemma float_match_Cons2:
  "float_match (p # q # ps) t \<longleftrightarrow> (\<exists>g r. t = g @ p @ r \<and> float_match (q # ps) r)"
  unfolding float_match_def by (simp, metis)

lemma greedy_iff: "ps \<noteq> [] \<Longrightarrow> greedy ps t \<longleftrightarrow> float_match ps t"
proof (induction ps t rule: greedy.induct)
  case (2 p t)
  then show ?case by (auto simp: float_match_def suffix_def)
next
  case (3 p q ps t)
  show ?case
  proof
    assume "greedy (p # q # ps) t"
    then obtain k where k: "find_sub p t = Some k" "greedy (q # ps) (drop (k + length p) t)"
      by (auto split: option.splits)
    with 3 have "float_match (q # ps) (drop (k + length p) t)" by simp
    with find_sub_SomeD [OF k(1)] show "float_match (p # q # ps) t"
      unfolding float_match_Cons2 by blast
  next
    assume "float_match (p # q # ps) t"
    then obtain g r where t: "t = g @ p @ r" and r: "float_match (q # ps) r"
      unfolding float_match_Cons2 by blast
    from find_sub_least [OF t] obtain k where k: "find_sub p t = Some k" "k \<le> length g" by blast
    from t k(2) have "drop (k + length p) t = drop (k + length p) (g @ p) @ r" by simp
    with r have "float_match (q # ps) (drop (k + length p) t)"
      by (simp only: float_match_mono)
    with 3 k show "greedy (p # q # ps) t" by simp
  qed
qed simp

lemma parts_match_Cons:
  "ps \<noteq> [] \<Longrightarrow> parts_match (p # ps) t \<longleftrightarrow> prefix p t \<and> float_match ps (drop (length p) t)"
  by (cases ps) (fastforce simp: float_match_def prefix_def)+

section \<open>The loop of the source is the greedy search\<close>

lemma glob_loop_greedy:
  assumes "0 < i" "n = i + length parts" "parts \<noteq> []" "last parts \<noteq> [] \<longrightarrow> \<not> ends"
    and "\<And>k. norm (drop k rest) = drop k rest" "\<And>p. p \<in> set parts \<Longrightarrow> norm p = p"
  shows "glob_loop norm starts ends n i parts rest \<longleftrightarrow> greedy parts rest"
  using assms
proof (induction parts arbitrary: i rest)
  case (Cons p ps)
  have norm_rest: "norm rest = rest" using Cons.prems(5) [of 0] by simp
  have rec: "glob_loop norm starts ends n (Suc i) ps r \<longleftrightarrow> greedy ps r"
    if "ps \<noteq> []" "\<And>k. norm (drop k r) = drop k r" for r
    using that Cons.prems by (intro Cons.IH) auto
  show ?case
  proof (cases ps)
    case Nil
    with Cons.prems show ?thesis by auto
  next
    case (Cons q qs)
    have "norm (drop k (drop m rest)) = drop k (drop m rest)" for k m
      using Cons.prems(5) [of "k + m"] by simp
    with rec Cons.prems Cons norm_rest show ?thesis
      by (cases "p = []") (simp_all split: option.splits del: glob_loop.simps
            add: glob_loop.simps(2) [of norm starts ends _ i _ "q # qs" rest])
  qed
qed simp

lemma glob_parts_spec:
  assumes star: "CHR ''*'' \<in> set pattern"
    and norm_t: "\<And>k. norm (drop k subject) = drop k subject"
    and norm_p: "\<And>p. p \<in> set (split_on (CHR ''*'') pattern) \<Longrightarrow> norm p = p"
  shows "glob_parts norm pattern subject \<longleftrightarrow> parts_match (split_on (CHR ''*'') pattern) subject"
proof -
  from split_on_length [OF star] obtain p ps where parts: "split_on (CHR ''*'') pattern = p # ps"
    and ps: "ps \<noteq> []"
    by (cases "split_on (CHR ''*'') pattern") (auto simp: Suc_le_eq)
  let ?ends = "suffix [CHR ''*''] pattern"
  have hd_p: "p \<noteq> [] \<longrightarrow> \<not> prefix [CHR ''*''] pattern"
    using split_on_hd_Nil [of "CHR ''*''" pattern] parts by (auto simp: prefix_def)
  have last_p: "last ps \<noteq> [] \<longrightarrow> \<not> ?ends"
    using split_on_last_Nil [of "CHR ''*''" pattern] parts ps by (auto simp: suffix_def)
  have main: "glob_loop norm s ?ends (length (p # ps)) (Suc 0) ps r \<longleftrightarrow> float_match ps r"
    if "\<And>k. norm (drop k r) = drop k r" for s r
    using glob_loop_greedy [of "Suc 0" "length (p # ps)" ps ?ends norm r s] that ps last_p norm_p
    by (simp add: parts greedy_iff)
  have drop_t: "norm (drop k (drop m subject)) = drop k (drop m subject)" for k m
    using norm_t [of "k + m"] by simp
  show ?thesis
    using main [of subject] main [of "drop (length p) subject"] hd_p norm_t drop_t ps
    by (auto simp: glob_parts_def parts parts_match_Cons)
qed

section \<open>The declarative pattern is its parts\<close>

lemma glob_spec_star: "glob_spec (CHR ''*'' # ps) t \<longleftrightarrow> (\<exists>g r. t = g @ r \<and> glob_spec ps r)"
proof (induction t)
  case Nil
  show ?case by (subst glob_spec.simps) simp
next
  case (Cons c cs)
  have "(\<exists>g r. c # cs = g @ r \<and> glob_spec ps r) \<longleftrightarrow>
    glob_spec ps (c # cs) \<or> (\<exists>g r. cs = g @ r \<and> glob_spec ps r)"
    by (auto simp: Cons_eq_append_conv)
  with Cons show ?case by (subst glob_spec.simps) simp
qed

lemma glob_spec_parts: "glob_spec pattern t \<longleftrightarrow> parts_match (split_on (CHR ''*'') pattern) t"
proof (induction pattern arbitrary: t)
  case Nil
  show ?case by (simp add: glob_spec.simps)
next
  case (Cons c cs)
  obtain q qs where qs: "split_on (CHR ''*'') cs = q # qs"
    by (cases "split_on (CHR ''*'') cs") auto
  show ?case
  proof (cases "c = CHR ''*''")
    case True
    with Cons qs show ?thesis by (simp add: glob_spec_star)
  next
    case False
    have "parts_match ((c # q) # qs) t \<longleftrightarrow> (\<exists>r. t = c # r \<and> parts_match (q # qs) r)"
      by (cases qs) auto
    with False Cons qs show ?thesis
      by (subst glob_spec.simps) (auto split: list.splits)
  qed
qed

section \<open>The contract of a matcher\<close>

text \<open>Both callers fold the case of pattern and name first and only then ask the matcher.\<close>

locale glob_matcher =
  fixes gm :: "string \<Rightarrow> string \<Rightarrow> bool"
  assumes gm_spec: "CHR ''*'' \<in> set (to_ascii_lowercase p) \<Longrightarrow>
    gm (to_ascii_lowercase p) (to_ascii_lowercase t)
      \<longleftrightarrow> glob_spec (to_ascii_lowercase p) (to_ascii_lowercase t)"
begin

lemma matches_any:
  "list_ex (\<lambda>p. if CHR ''*'' \<in> set (to_ascii_lowercase p)
       then gm (to_ascii_lowercase p) (to_ascii_lowercase t)
       else to_ascii_lowercase p = to_ascii_lowercase t) ps
     \<longleftrightarrow> (\<exists>p \<in> set ps. glob_spec (to_ascii_lowercase p) (to_ascii_lowercase t))"
proof -
  have "glob_spec q u \<longleftrightarrow> q = u" if "CHR ''*'' \<notin> set q" for q u
    using that by (auto simp: glob_spec_parts split_on_no_sep)
  then show ?thesis by (auto simp: list_ex_iff gm_spec)
qed

end

lemma split_on_elem_subset: "p \<in> set (split_on d s) \<Longrightarrow> set p \<subseteq> set s"
proof (induction s arbitrary: p)
  case (Cons c cs)
  then show ?case by (cases "split_on d cs") (fastforce split: if_splits)+
qed simp

lemma lowercase_id_iff: "to_ascii_lowercase s = s \<longleftrightarrow> (\<forall>c \<in> set s. ascii_lower c = c)"
  unfolding to_ascii_lowercase_def by (induction s) auto

lemma lowercase_drop: "to_ascii_lowercase (drop k (to_ascii_lowercase t)) = drop k (to_ascii_lowercase t)"
  by (simp add: to_ascii_lowercase_def drop_map)

interpretation domain_glob: glob_matcher glob_match
proof
  fix p t
  assume "CHR ''*'' \<in> set (to_ascii_lowercase p)"
  moreover have "to_ascii_lowercase q = q" if "q \<in> set (split_on (CHR ''*'') (to_ascii_lowercase p))" for q
    using split_on_elem_subset [OF that]
    by (auto simp: lowercase_id_iff) (auto simp: to_ascii_lowercase_def)
  ultimately show "glob_match (to_ascii_lowercase p) (to_ascii_lowercase t)
      \<longleftrightarrow> glob_spec (to_ascii_lowercase p) (to_ascii_lowercase t)"
    by (simp add: glob_match_def glob_parts_spec lowercase_drop glob_spec_parts)
qed

interpretation presence_glob: glob_matcher presence_glob_match
  by unfold_locales (simp add: presence_glob_match_def glob_parts_spec glob_spec_parts)

end
