(* ===== verification/Domain.thy ===== *)
theory Domain
  imports Ports Glob
begin

text \<open>
  The client profile of \<open>domain.rs\<close>, the hexadecimal address parser of \<open>profiles.rs\<close> and the
  address printer of the memory scanner (\<open>scanner.rs\<close>).
\<close>

section \<open>Client profiles\<close>

record client_profile =
  cp_id :: string
  cp_label :: string
  cp_exe_names :: "string list"
  cp_hp_base :: u32
  cp_name_address :: u32

text \<open>The field offsets; a release build adds with wrap-around.\<close>

definition max_hp_address :: "client_profile \<Rightarrow> u32" where
  "max_hp_address p = cp_hp_base p + 4"

definition cur_sp_address :: "client_profile \<Rightarrow> u32" where
  "cur_sp_address p = cp_hp_base p + 8"

definition max_sp_address :: "client_profile \<Rightarrow> u32" where
  "max_sp_address p = cp_hp_base p + 12"

definition status_buffer_address :: "client_profile \<Rightarrow> u32" where
  "status_buffer_address p = cp_hp_base p + 0x474"

definition matches_exe :: "client_profile \<Rightarrow> string \<Rightarrow> bool" where
  "matches_exe p exe_name =
     (let exe_lower = to_ascii_lowercase exe_name
      in list_ex (\<lambda>pattern.
           let pat = to_ascii_lowercase pattern
           in if CHR ''*'' \<in> set pat then glob_match pat exe_lower else pat = exe_lower)
         (cp_exe_names p))"

definition default_profile :: client_profile where
  "default_profile =
     \<lparr>cp_id = ''rathena-default'', cp_label = ''rAthena / OSRO default'',
      cp_exe_names = [''OsRO Midrate.exe'', ''HoneyRO.exe'', ''*RO*.exe''],
      cp_hp_base = 0x10DCE10, cp_name_address = 0x10DF5D8\<rparr>"

section \<open>Hexadecimal addresses\<close>

datatype int_error = EmptyInput | InvalidDigit | PosOverflow

fun int_error_message :: "int_error \<Rightarrow> string" where
  "int_error_message EmptyInput = ''cannot parse integer from empty string''"
| "int_error_message InvalidDigit = ''invalid digit found in string''"
| "int_error_message PosOverflow = ''number too large to fit in target type''"

definition hex_digit :: "char \<Rightarrow> nat option" where
  "hex_digit c =
     (let n = (of_char c :: nat)
      in if 48 \<le> n \<and> n \<le> 57 then Some (n - 48)
         else if 97 \<le> n \<and> n \<le> 102 then Some (n - 87)
         else if 65 \<le> n \<and> n \<le> 70 then Some (n - 55)
         else None)"

text \<open>\<open>u32::from_str_radix(_, 16)\<close>: the digits are checked before the overflow, left to right.\<close>

fun radix16 :: "nat \<Rightarrow> string \<Rightarrow> (int_error, nat) result" where
  "radix16 acc [] = Inr acc"
| "radix16 acc (c # cs) =
     (case hex_digit c of
        None \<Rightarrow> Inl InvalidDigit
      | Some d \<Rightarrow> if 2 ^ 32 \<le> acc * 16 + d then Inl PosOverflow else radix16 (acc * 16 + d) cs)"

definition from_str_radix16 :: "string \<Rightarrow> (int_error, u32) result" where
  "from_str_radix16 src =
     (if src = [] then Inl EmptyInput
      else if src = ''+'' \<or> src = ''-'' then Inl InvalidDigit
      else case radix16 0 (if hd src = CHR ''+'' then tl src else src) of
             Inl e \<Rightarrow> Inl e
           | Inr n \<Rightarrow> Inr (of_nat n))"

definition parse_hex :: "string \<Rightarrow> (string, u32) result" where
  "parse_hex value =
     (let trimmed = trim value;
          hex = (case strip_prefix ''0x'' trimmed of
                   Some h \<Rightarrow> h
                 | None \<Rightarrow> (case strip_prefix ''0X'' trimmed of Some h \<Rightarrow> h | None \<Rightarrow> trimmed))
      in map_err (\<lambda>e. ''invalid hex '' @ [CHR 39] @ value @ [CHR 39] @ '': '' @ int_error_message e)
           (from_str_radix16 hex))"

definition hex_char :: "nat \<Rightarrow> char" where
  "hex_char d = (if d < 10 then char_of (48 + d) else char_of (55 + d))"

text \<open>\<open>format!("0x{address:08X}")\<close>: a 32-bit value has at most eight digits.\<close>

definition hex_digits8 :: "nat \<Rightarrow> string" where
  "hex_digits8 n =
     [hex_char (n div 16 ^ 7 mod 16), hex_char (n div 16 ^ 6 mod 16),
      hex_char (n div 16 ^ 5 mod 16), hex_char (n div 16 ^ 4 mod 16),
      hex_char (n div 16 ^ 3 mod 16), hex_char (n div 16 ^ 2 mod 16),
      hex_char (n div 16 ^ 1 mod 16), hex_char (n div 16 ^ 0 mod 16)]"

definition format_address :: "u32 \<Rightarrow> string" where
  "format_address address = ''0x'' @ hex_digits8 (unat address)"

definition parse_address :: "string \<Rightarrow> u32 option" where
  "parse_address address =
     (case strip_prefix ''0x'' address of
        None \<Rightarrow> None
      | Some h \<Rightarrow> ok_option (from_str_radix16 h))"

section \<open>Digits\<close>

lemma hex_digit_bound: "hex_digit c = Some d \<Longrightarrow> d < 16"
  by (auto simp: hex_digit_def Let_def split: if_splits)

lemma hex_digit_char [simp]: "d < 16 \<Longrightarrow> hex_digit (hex_char d) = Some d"
  by (auto simp: hex_digit_def hex_char_def Let_def)

lemma hex_char_not_special:
  "d < 16 \<Longrightarrow> hex_char d \<noteq> CHR ''+'' \<and> hex_char d \<noteq> CHR ''-'' \<and> \<not> is_whitespace (hex_char d)"
  by (auto simp: hex_char_def is_whitespace_def Let_def dest: arg_cong [of _ _ "of_char :: _ \<Rightarrow> nat"])

text \<open>The value of a digit string, most significant digit first.\<close>

definition hex_value :: "nat \<Rightarrow> string \<Rightarrow> nat" where
  "hex_value acc cs = foldl (\<lambda>a c. a * 16 + the (hex_digit c)) acc cs"

lemma hex_value_Cons [simp]: "hex_value acc (c # cs) = hex_value (acc * 16 + the (hex_digit c)) cs"
  and hex_value_Nil [simp]: "hex_value acc [] = acc"
  by (simp_all add: hex_value_def)

lemma hex_value_ge: "acc \<le> hex_value acc cs"
proof (induction cs arbitrary: acc)
  case (Cons c cs)
  have "acc \<le> acc * 16 + the (hex_digit c)" by simp
  also have "\<dots> \<le> hex_value acc (c # cs)" using Cons.IH by simp
  finally show ?case .
qed simp

lemma radix16_Inr_iff:
  "acc < 2 ^ 32 \<Longrightarrow>
   radix16 acc cs = Inr n \<longleftrightarrow>
     (\<forall>c \<in> set cs. hex_digit c \<noteq> None) \<and> hex_value acc cs = n \<and> n < 2 ^ 32"
proof (induction cs arbitrary: acc)
  case (Cons c cs)
  show ?case
  proof (cases "hex_digit c")
    case (Some d)
    show ?thesis
    proof (cases "acc * 16 + d < 2 ^ 32")
      case True
      with Cons.IH [OF this] Some show ?thesis by simp
    next
      case False
      with Some hex_value_ge [of "acc * 16 + d" cs] show ?thesis by auto
    qed
  qed simp
qed auto

lemma radix16_digit_step:
  assumes "n < 2 ^ 32"
  shows "radix16 (n div 16 ^ Suc k) (hex_char (n div 16 ^ k mod 16) # cs) = radix16 (n div 16 ^ k) cs"
proof -
  have "n div 16 ^ Suc k = n div 16 ^ k div 16"
    by (simp only: power_Suc2 div_mult2_eq)
  then have "n div 16 ^ Suc k * 16 + n div 16 ^ k mod 16 = n div 16 ^ k"
    by (simp only: div_mult_mod_eq)
  moreover have "n div 16 ^ k \<le> n" by simp
  then have "n div 16 ^ k < 2 ^ 32" using assms by linarith
  ultimately show ?thesis by simp
qed

lemma radix16_digits8: "n < 2 ^ 32 \<Longrightarrow> radix16 0 (hex_digits8 n) = Inr n"
  using radix16_digit_step [of n 7] radix16_digit_step [of n 6] radix16_digit_step [of n 5]
    radix16_digit_step [of n 4] radix16_digit_step [of n 3] radix16_digit_step [of n 2]
    radix16_digit_step [of n 1] radix16_digit_step [of n 0]
  by (simp add: hex_digits8_def del: radix16.simps(2))

lemma from_str_radix16_digits8: "from_str_radix16 (hex_digits8 (unat a)) = Inr a"
proof -
  have "unat a < 2 ^ 32" using unsigned_less [of a] by simp
  from radix16_digits8 [OF this] show ?thesis
    using hex_char_not_special [of "unat a div 16 ^ 7 mod 16"]
    by (simp add: from_str_radix16_def hex_digits8_def del: radix16.simps)
qed

lemma trim_format_address: "trim (format_address a) = format_address a"
  using hex_char_not_special [of "unat a div 16 ^ 0 mod 16"]
  by (intro trim_id) (simp add: format_address_def hex_digits8_def is_whitespace_def)

end
