(* ===== verification/Autopot.thy ===== *)
theory Autopot
  imports Domain
begin

text \<open>
  AutoPot: the configuration (\<open>autopot/config.rs\<close>) and the recovery engine
  (\<open>autopot/engine.rs\<close>).  Arithmetic is on 32- and 64-bit words with wrap-around, as in a
  release build.
\<close>

section \<open>Configuration\<close>

record autopot_config =
  ac_enabled :: bool
  ac_hp_key :: string
  ac_sp_key :: string
  ac_hp_percent :: u32
  ac_sp_percent :: u32
  ac_delay_ms :: u64
  ac_proactive_mode :: bool
  ac_profile_id :: "string option"
  ac_hp_base_override :: "string option"
  ac_name_address_override :: "string option"
  ac_level_address_override :: "string option"
  ac_job_level_address_override :: "string option"
  ac_map_address_override :: "string option"

definition autopot_default_config :: autopot_config where
  "autopot_default_config =
     \<lparr>ac_enabled = False, ac_hp_key = ''F8'', ac_sp_key = ''F9'', ac_hp_percent = 80,
      ac_sp_percent = 50, ac_delay_ms = 100, ac_proactive_mode = False, ac_profile_id = None,
      ac_hp_base_override = None, ac_name_address_override = None,
      ac_level_address_override = None, ac_job_level_address_override = None,
      ac_map_address_override = None\<rparr>"

definition autopot_clamped :: "autopot_config \<Rightarrow> autopot_config" where
  "autopot_clamped c =
     c\<lparr>ac_hp_percent := clamp 1 99 (ac_hp_percent c),
       ac_sp_percent := clamp 1 99 (ac_sp_percent c),
       ac_delay_ms := clamp 10 2000 (ac_delay_ms c)\<rparr>"

definition autopot_within :: "autopot_config \<Rightarrow> bool" where
  "autopot_within c \<longleftrightarrow>
     1 \<le> ac_hp_percent c \<and> ac_hp_percent c \<le> 99 \<and> 1 \<le> ac_sp_percent c \<and> ac_sp_percent c \<le> 99 \<and>
     10 \<le> ac_delay_ms c \<and> ac_delay_ms c \<le> 2000"

text \<open>An override is checked with \<open>parse_hex(address).map_err(ToolsError::Other)?\<close>.\<close>

definition check_override :: "string option \<Rightarrow> (tools_error, unit) result" where
  "check_override o_addr =
     (case o_addr of
        None \<Rightarrow> Inr ()
      | Some address \<Rightarrow> (case parse_hex address of Inl m \<Rightarrow> Inl (Other m) | Inr _ \<Rightarrow> Inr ()))"

definition autopot_validate :: "autopot_config \<Rightarrow> (tools_error, unit) result" where
  "autopot_validate c =
     (if trim (ac_hp_key c) = [] \<or> trim (ac_sp_key c) = []
      then Inl (Other (''AutoPot: las teclas de HP y SP no pueden estar vac'' @ [CHR 0xED] @ ''as''))
      else if (case ac_profile_id c of None \<Rightarrow> False | Some i \<Rightarrow> trim i = [])
      then Inl (Other (''AutoPot: el perfil no puede estar vac'' @ [CHR 0xED] @ ''o''))
      else and_then (check_override (ac_hp_base_override c)) (\<lambda>_.
           and_then (check_override (ac_name_address_override c)) (\<lambda>_.
           and_then (check_override (ac_level_address_override c)) (\<lambda>_.
           and_then (check_override (ac_job_level_address_override c)) (\<lambda>_.
           check_override (ac_map_address_override c))))))"

section \<open>Engine\<close>

record autopot_tick_report =
  at_cur_hp :: u32
  at_max_hp :: u32
  at_cur_sp :: u32
  at_max_sp :: u32
  at_character_name :: string
  at_potted_hp :: bool
  at_potted_sp :: bool
  at_proactive_hp_pulse :: bool

record autopot_engine =
  ap_memory :: memory_reader
  ap_input :: key_port
  ap_config :: autopot_config
  ap_profile :: client_profile
  ap_hp_pot_count :: u32
  ap_tick_count :: u64
  ap_cached_name :: string

definition autopot_new ::
  "memory_reader \<Rightarrow> key_port \<Rightarrow> autopot_config \<Rightarrow> client_profile \<Rightarrow> autopot_engine" where
  "autopot_new memory input config profile =
     \<lparr>ap_memory = memory, ap_input = input, ap_config = autopot_clamped config,
      ap_profile = profile, ap_hp_pot_count = 0, ap_tick_count = 0, ap_cached_name = []\<rparr>"

definition autopot_update_config :: "autopot_config \<Rightarrow> autopot_engine \<Rightarrow> autopot_engine" where
  "autopot_update_config config e = e\<lparr>ap_config := autopot_clamped config, ap_hp_pot_count := 0\<rparr>"

definition autopot_replace_memory :: "memory_reader \<Rightarrow> autopot_engine \<Rightarrow> autopot_engine" where
  "autopot_replace_memory memory e = e\<lparr>ap_memory := memory, ap_cached_name := [], ap_tick_count := 0\<rparr>"

definition is_hp_below :: "autopot_config \<Rightarrow> u32 \<Rightarrow> u32 \<Rightarrow> bool" where
  "is_hp_below c cur mx \<longleftrightarrow> 0 < mx \<and> cur * 100 < ac_hp_percent c * mx"

definition is_sp_below :: "autopot_config \<Rightarrow> u32 \<Rightarrow> u32 \<Rightarrow> bool" where
  "is_sp_below c cur mx \<longleftrightarrow> 0 < mx \<and> cur * 100 < ac_sp_percent c * mx"

definition pot_hp :: "autopot_engine \<Rightarrow> (tools_error, unit) result \<times> autopot_engine" where
  "pot_hp e =
     (case press_key (ac_hp_key (ap_config e)) (ap_input e) of (r, p) \<Rightarrow> (r, e\<lparr>ap_input := p\<rparr>))"

definition pot_sp :: "autopot_engine \<Rightarrow> (tools_error, unit) result \<times> autopot_engine" where
  "pot_sp e =
     (case press_key (ac_sp_key (ap_config e)) (ap_input e) of (r, p) \<Rightarrow> (r, e\<lparr>ap_input := p\<rparr>))"

text \<open>The three stages of a cycle: HP recovery, SP recovery, proactive pulse.\<close>

definition recover_hp ::
  "autopot_tick_report \<Rightarrow> autopot_engine \<Rightarrow> (tools_error, autopot_tick_report) result \<times> autopot_engine" where
  "recover_hp tick e =
     (if is_hp_below (ap_config e) (at_cur_hp tick) (at_max_hp tick) then
        (case pot_hp e of
           (Inl err, e1) \<Rightarrow> (Inl err, e1)
         | (Inr _, e1) \<Rightarrow>
             let tick1 = tick\<lparr>at_potted_hp := True\<rparr>;
                 e2 = e1\<lparr>ap_hp_pot_count := ap_hp_pot_count e1 + 1\<rparr>
             in if ap_hp_pot_count e2 = 3 then
                  let e3 = e2\<lparr>ap_hp_pot_count := 0\<rparr>
                  in if is_sp_below (ap_config e3) (at_cur_sp tick) (at_max_sp tick) then
                       (case pot_sp e3 of
                          (Inl err, e4) \<Rightarrow> (Inl err, e4)
                        | (Inr _, e4) \<Rightarrow> (Inr (tick1\<lparr>at_potted_sp := True\<rparr>), e4))
                     else (Inr tick1, e3)
                else (Inr tick1, e2))
      else (Inr tick, e))"

definition recover_sp ::
  "autopot_tick_report \<Rightarrow> autopot_engine \<Rightarrow> (tools_error, autopot_tick_report) result \<times> autopot_engine" where
  "recover_sp tick e =
     (if is_sp_below (ap_config e) (at_cur_sp tick) (at_max_sp tick) \<and> \<not> at_potted_sp tick then
        (case pot_sp e of
           (Inl err, e1) \<Rightarrow> (Inl err, e1)
         | (Inr _, e1) \<Rightarrow> (Inr (tick\<lparr>at_potted_sp := True\<rparr>), e1))
      else (Inr tick, e))"

definition proactive_pulse ::
  "autopot_tick_report \<Rightarrow> autopot_engine \<Rightarrow> (tools_error, autopot_tick_report) result \<times> autopot_engine" where
  "proactive_pulse tick e =
     (if ac_proactive_mode (ap_config e) \<and> \<not> at_potted_hp tick \<and> \<not> at_potted_sp tick then
        (case pot_hp e of
           (Inl err, e1) \<Rightarrow> (Inl err, e1)
         | (Inr _, e1) \<Rightarrow> (Inr (tick\<lparr>at_proactive_hp_pulse := True\<rparr>), e1))
      else (Inr tick, e))"

definition refresh_name :: "autopot_engine \<Rightarrow> autopot_engine" where
  "refresh_name e =
     (if ap_tick_count e = 1 \<or> ap_tick_count e mod 20 = 0
      then e\<lparr>ap_cached_name :=
               (case read_string (ap_memory e) (cp_name_address (ap_profile e)) 40 of
                  Inl _ \<Rightarrow> [] | Inr s \<Rightarrow> s)\<rparr>
      else e)"

definition autopot_act ::
  "u32 \<Rightarrow> u32 \<Rightarrow> u32 \<Rightarrow> u32 \<Rightarrow> autopot_engine \<Rightarrow> (tools_error, autopot_tick_report) result \<times> autopot_engine" where
  "autopot_act cur_hp max_hp cur_sp max_sp e0 =
     (let e = refresh_name e0;
          tick = \<lparr>at_cur_hp = cur_hp, at_max_hp = max_hp, at_cur_sp = cur_sp, at_max_sp = max_sp,
                  at_character_name = ap_cached_name e, at_potted_hp = False, at_potted_sp = False,
                  at_proactive_hp_pulse = False\<rparr>
      in case recover_hp tick e of
           (Inl err, e1) \<Rightarrow> (Inl err, e1)
         | (Inr tick1, e1) \<Rightarrow>
             (case recover_sp tick1 e1 of
                (Inl err, e2) \<Rightarrow> (Inl err, e2)
              | (Inr tick2, e2) \<Rightarrow> proactive_pulse tick2 e2))"

definition autopot_tick :: "autopot_engine \<Rightarrow> (tools_error, autopot_tick_report) result \<times> autopot_engine" where
  "autopot_tick e0 =
     (let e = e0\<lparr>ap_tick_count := ap_tick_count e0 + 1\<rparr>
      in case read_u32_slice (ap_memory e) (cp_hp_base (ap_profile e)) 4 of
           Inl err \<Rightarrow> (Inl err, e)
         | Inr values \<Rightarrow>
             (case values of
                [cur_hp, max_hp, cur_sp, max_sp] \<Rightarrow> autopot_act cur_hp max_hp cur_sp max_sp e
              | _ \<Rightarrow> (Inl (Other (''AutoPot: lectura HP/SP incompleta ('' @ show_nat (length values)
                                 @ '' de 4)'')), e)))"

section \<open>The reference behaviour of a cycle\<close>

text \<open>The keys a cycle should press, in order, and pressing a list of keys up to the first failure.\<close>

definition planned_keys :: "autopot_config \<Rightarrow> bool \<Rightarrow> bool \<Rightarrow> string list" where
  "planned_keys c hp_low sp_low =
     (if hp_low then [ac_hp_key c] else []) @ (if sp_low then [ac_sp_key c] else []) @
     (if ac_proactive_mode c \<and> \<not> hp_low \<and> \<not> sp_low then [ac_hp_key c] else [])"

fun press_all :: "string list \<Rightarrow> key_port \<Rightarrow> (tools_error, unit) result \<times> key_port" where
  "press_all [] p = (Inr (), p)"
| "press_all (k # ks) p =
     (case press_key k p of (Inl err, p1) \<Rightarrow> (Inl err, p1) | (Inr _, p1) \<Rightarrow> press_all ks p1)"

lemma press_all_log_prefix: "\<exists>done. prefix done ks \<and> kp_log (snd (press_all ks p)) = kp_log p @ done"
proof (induction ks arbitrary: p)
  case (Cons k ks)
  obtain r p1 where pk: "press_key k p = (r, p1)" by fastforce
  note log = press_keyD [OF pk]
  show ?case
  proof (cases r)
    case (Inl err)
    with pk log show ?thesis by (intro exI [of _ "[k]"]) auto
  next
    case (Inr u)
    from Cons.IH [of p1] obtain d where "prefix d ks"
      "kp_log (snd (press_all ks p1)) = kp_log p1 @ d" by blast
    with Inr pk log show ?thesis by (intro exI [of _ "k # d"]) auto
  qed
qed auto

lemma press_all_ok: "(\<And>n k. kp_answer p n k = None) \<Longrightarrow> fst (press_all ks p) = Inr ()"
proof (induction ks arbitrary: p)
  case (Cons k ks)
  have "fst (press_all ks (snd (press_key k p))) = Inr ()"
    using Cons by (intro Cons.IH) simp
  moreover have "fst (press_key k p) = Inr ()" by (simp add: press_key_def Cons.prems)
  ultimately show ?case by (cases "press_key k p") auto
qed simp

section \<open>Configuration and engine invariants\<close>

interpretation autopot_cfg: clamped_config autopot_clamped autopot_within
  by unfold_locales (auto simp: autopot_clamped_def autopot_within_def)

text \<open>The stored configuration is clamped and the pot counter stays below three.\<close>

definition autopot_inv :: "autopot_engine \<Rightarrow> bool" where
  "autopot_inv e \<longleftrightarrow> autopot_within (ap_config e) \<and> ap_hp_pot_count e < 3"

lemma autopot_new_inv: "autopot_inv (autopot_new m i c p)"
  by (simp add: autopot_inv_def autopot_new_def autopot_cfg.clamped_within)

lemma autopot_update_config_inv: "autopot_inv e \<Longrightarrow> autopot_inv (autopot_update_config c e)"
  by (simp add: autopot_inv_def autopot_update_config_def autopot_cfg.clamped_within)

lemma autopot_replace_memory_inv: "autopot_inv e \<Longrightarrow> autopot_inv (autopot_replace_memory m e)"
  by (simp add: autopot_inv_def autopot_replace_memory_def)

lemma pot_count_step:
  fixes n :: u32
  shows "n < 3 \<Longrightarrow> n + 1 \<noteq> 3 \<Longrightarrow> n + 1 < 3"
  by unat_arith

lemmas autopot_stage_defs =
  recover_hp_def recover_sp_def proactive_pulse_def pot_hp_def pot_sp_def

lemma recover_hp_inv: "autopot_inv e \<Longrightarrow> autopot_inv (snd (recover_hp t e))"
  by (auto simp: autopot_stage_defs autopot_inv_def Let_def pot_count_step
      split: prod.splits sum.splits)

lemma recover_sp_inv: "autopot_inv e \<Longrightarrow> autopot_inv (snd (recover_sp t e))"
  by (auto simp: autopot_stage_defs autopot_inv_def split: prod.splits sum.splits)

lemma proactive_pulse_inv: "autopot_inv e \<Longrightarrow> autopot_inv (snd (proactive_pulse t e))"
  by (auto simp: autopot_stage_defs autopot_inv_def split: prod.splits sum.splits)

lemma refresh_name_inv: "autopot_inv (refresh_name e) = autopot_inv e"
  by (simp add: autopot_inv_def refresh_name_def)

lemma autopot_act_inv: "autopot_inv e \<Longrightarrow> autopot_inv (snd (autopot_act a b c d e))"
  by (auto simp: autopot_act_def Let_def split: prod.splits sum.splits
      dest!: arg_cong [of "recover_hp _ _" _ snd] arg_cong [of "recover_sp _ _" _ snd]
      intro!: proactive_pulse_inv)
    (metis recover_hp_inv recover_sp_inv refresh_name_inv)+

lemma autopot_tick_inv: "autopot_inv e \<Longrightarrow> autopot_inv (snd (autopot_tick e))"
proof -
  assume "autopot_inv e"
  then have "autopot_inv (e\<lparr>ap_tick_count := ap_tick_count e + 1\<rparr>)" by (simp add: autopot_inv_def)
  with autopot_act_inv show ?thesis
    by (auto simp: autopot_tick_def Let_def split: sum.splits list.splits)
qed

section \<open>Runs of the engine\<close>

text \<open>
  What the loop runner does to an engine over time.  \<open>MemoryChanged\<close> is the client writing its
  own memory between two cycles.
\<close>

datatype autopot_op =
  Tick | UpdateConfig autopot_config | ReplaceMemory memory_reader | MemoryChanged memory_reader

fun autopot_step :: "autopot_engine \<Rightarrow> autopot_op \<Rightarrow> autopot_engine" where
  "autopot_step e Tick = snd (autopot_tick e)"
| "autopot_step e (UpdateConfig c) = autopot_update_config c e"
| "autopot_step e (ReplaceMemory m) = autopot_replace_memory m e"
| "autopot_step e (MemoryChanged m) = e\<lparr>ap_memory := m\<rparr>"

lemma autopot_step_inv: "autopot_inv e \<Longrightarrow> autopot_inv (autopot_step e opn)"
  by (cases opn)
    (auto simp: autopot_tick_inv autopot_update_config_inv autopot_replace_memory_inv,
     simp add: autopot_inv_def)

lemma autopot_run_inv: "autopot_inv e \<Longrightarrow> autopot_inv (foldl autopot_step e ops)"
  by (induction ops arbitrary: e) (auto intro: autopot_step_inv)

section \<open>Properties\<close>

lemma pot_hp_press: "pot_hp e = (fst (press_key (ac_hp_key (ap_config e)) (ap_input e)),
    e\<lparr>ap_input := snd (press_key (ac_hp_key (ap_config e)) (ap_input e))\<rparr>)"
  and pot_sp_press: "pot_sp e = (fst (press_key (ac_sp_key (ap_config e)) (ap_input e)),
    e\<lparr>ap_input := snd (press_key (ac_sp_key (ap_config e)) (ap_input e))\<rparr>)"
  by (simp_all add: pot_hp_def pot_sp_def split: prod.splits)

lemma refresh_name_frame [simp]:
  "ap_config (refresh_name e) = ap_config e" "ap_input (refresh_name e) = ap_input e"
  by (simp_all add: refresh_name_def)

text \<open>C30: One AutoPot cycle presses exactly the planned keys, in order and up to the first press that
  fails: the HP key when HP is below its threshold, then the SP key once when SP is below its own,
  or a single HP pulse in proactive mode when neither is; the report's flags say which of them were
  pressed, and a failed press is the cycle's error.  In particular the third-pot SP press never adds
  a key.\<close>

theorem autopot_tick_plan:
  assumes rd: "read_u32_slice (ap_memory e) (cp_hp_base (ap_profile e)) 4
                 = Inr [cur_hp, max_hp, cur_sp, max_sp]"
    and hp: "hp_low \<longleftrightarrow> is_hp_below (ap_config e) cur_hp max_hp"
    and sp: "sp_low \<longleftrightarrow> is_sp_below (ap_config e) cur_sp max_sp"
  shows "case press_all (planned_keys (ap_config e) hp_low sp_low) (ap_input e) of
      (Inl err, p) \<Rightarrow> fst (autopot_tick e) = Inl err \<and> ap_input (snd (autopot_tick e)) = p
    | (Inr _, p) \<Rightarrow> ap_input (snd (autopot_tick e)) = p \<and>
        (\<exists>name. fst (autopot_tick e) = Inr
          \<lparr>at_cur_hp = cur_hp, at_max_hp = max_hp, at_cur_sp = cur_sp, at_max_sp = max_sp,
           at_character_name = name, at_potted_hp = hp_low, at_potted_sp = sp_low,
           at_proactive_hp_pulse = (ac_proactive_mode (ap_config e) \<and> \<not> hp_low \<and> \<not> sp_low)\<rparr>)"
  using rd hp sp
  by (cases hp_low; cases sp_low)
    (auto simp: autopot_tick_def autopot_act_def Let_def planned_keys_def recover_hp_def
      recover_sp_def proactive_pulse_def pot_hp_press pot_sp_press
      split: prod.splits sum.splits if_splits)

text \<open>An engine whose client is low on both pools, for the witnesses.\<close>

definition example_autopot :: autopot_engine where
  "example_autopot =
     autopot_new (example_memory [700, 1000, 200, 500]) example_port autopot_default_config default_profile"

theorem autopot_tick_plan_witness:
  "kp_log (ap_input (snd (autopot_tick example_autopot))) = [''F8'', ''F9''] \<and>
   (\<exists>t. fst (autopot_tick example_autopot) = Inr t \<and> at_potted_hp t \<and> at_potted_sp t
        \<and> \<not> at_proactive_hp_pulse t)"
proof -
  have rd: "read_u32_slice (ap_memory example_autopot) (cp_hp_base (ap_profile example_autopot)) 4
      = Inr [700, 1000, 200, 500]"
    by (simp add: example_autopot_def autopot_new_def example_memory_def)
  have hp: "True \<longleftrightarrow> is_hp_below (ap_config example_autopot) 700 1000"
    and sp: "True \<longleftrightarrow> is_sp_below (ap_config example_autopot) 200 500"
    by (simp_all add: example_autopot_def autopot_new_def is_hp_below_def is_sp_below_def
        autopot_clamped_def autopot_default_config_def clamp_def)
  show ?thesis
    using autopot_tick_plan [OF rd hp sp]
    by (auto simp: planned_keys_def example_autopot_def autopot_new_def autopot_clamped_def
        autopot_default_config_def example_port_def press_key_def)
qed

text \<open>The threshold comparison is the exact one as long as the pools stay below 42949673: with a
  clamped configuration, HP (SP) counts as low precisely when the maximum is positive and
  \<open>100 * cur < percent * max\<close> over the natural numbers.\<close>

theorem autopot_threshold_exact:
  assumes "autopot_within c" "unat cur \<le> 42949672" "unat mx \<le> 42949672"
  shows "(is_hp_below c cur mx \<longleftrightarrow> 0 < unat mx \<and> unat cur * 100 < unat (ac_hp_percent c) * unat mx) \<and>
    (is_sp_below c cur mx \<longleftrightarrow> 0 < unat mx \<and> unat cur * 100 < unat (ac_sp_percent c) * unat mx)"
proof -
  have prod: "unat (p * mx) = unat p * unat mx" if "unat p \<le> 99" for p :: u32
  proof -
    have "unat p * unat mx \<le> 99 * 42949672" using that assms(3) by (intro mult_le_mono)
    then show ?thesis by (intro unat_mult_lem [THEN iffD1]) simp
  qed
  have cur: "unat (cur * 100) = unat cur * 100"
    using assms(2) by (subst unat_mult_lem [THEN iffD1]) auto
  have "unat (ac_hp_percent c) \<le> 99" "unat (ac_sp_percent c) \<le> 99"
    using assms(1) by (auto simp: autopot_within_def word_le_nat_alt)
  with prod cur show ?thesis
    by (auto simp: is_hp_below_def is_sp_below_def word_less_nat_alt)
qed

text \<open>Beyond that bound the 32-bit product wraps: a character at full health is potted.\<close>

lemma autopot_threshold_wraps: "is_hp_below autopot_default_config 42949673 42949673"
  by (simp add: is_hp_below_def autopot_default_config_def)

text \<open>In every run of an AutoPot engine (cycles that may fail, configuration changes, memory
  replacements, arbitrary client memory) the stored configuration is within the clamped ranges and
  the HP pot counter stays below three, so its equality test with three cannot be stepped over.\<close>

theorem autopot_run_invariant:
  "let e = foldl autopot_step (autopot_new m i c p) ops
   in autopot_within (ap_config e) \<and> ap_hp_pot_count e < 3"
  using autopot_run_inv [OF autopot_new_inv, of m i c p ops] by (simp add: autopot_inv_def Let_def)

lemma check_override_ok:
  "check_override a = Inr () \<longleftrightarrow> (\<forall>s. a = Some s \<longrightarrow> is_ok (parse_hex s))"
  by (auto simp: check_override_def is_ok_def split: option.splits sum.splits)

text \<open>AutoPot accepts a configuration precisely when both keys are non-blank, a configured profile
  id is non-blank and each of the five optional addresses parses as a hexadecimal 32-bit value.\<close>

theorem autopot_validate_iff:
  "autopot_validate c = Inr () \<longleftrightarrow>
     trim (ac_hp_key c) \<noteq> [] \<and> trim (ac_sp_key c) \<noteq> [] \<and>
     (\<forall>i. ac_profile_id c = Some i \<longrightarrow> trim i \<noteq> []) \<and>
     (\<forall>a \<in> {ac_hp_base_override c, ac_name_address_override c, ac_level_address_override c,
             ac_job_level_address_override c, ac_map_address_override c}.
        \<forall>s. a = Some s \<longrightarrow> is_ok (parse_hex s))"
  by (auto simp: autopot_validate_def and_then_def check_override_ok [symmetric]
      split: option.splits sum.splits)

end
