(* ===== verification/Profiles.thy ===== *)
theory Profiles
  imports Autopot
begin

text \<open>
  The client-profile registry of \<open>profiles.rs\<close>: loading the bundled JSON and resolving the profile
  of a client.  \<open>serde_json\<close> is the parameter \<open>from_str\<close>.
\<close>

section \<open>Loading\<close>

record profile_json_entry =
  pj_id :: string
  pj_label :: string
  pj_exe_names :: "string list"
  pj_hp_base :: string
  pj_name_address :: string

definition profile_of_entry :: "profile_json_entry \<Rightarrow> (string, client_profile) result" where
  "profile_of_entry entry =
     and_then (parse_hex (pj_hp_base entry)) (\<lambda>hp.
     and_then (parse_hex (pj_name_address entry)) (\<lambda>name.
       Inr \<lparr>cp_id = pj_id entry, cp_label = pj_label entry, cp_exe_names = pj_exe_names entry,
            cp_hp_base = hp, cp_name_address = name\<rparr>))"

definition parse_profiles_json ::
  "(string \<Rightarrow> (string, profile_json_entry list) result) \<Rightarrow> string
     \<Rightarrow> (string, client_profile list) result" where
  "parse_profiles_json from_str raw =
     and_then (map_err (\<lambda>e. ''client_profiles.json: '' @ e) (from_str raw))
       (collect_results profile_of_entry)"

section \<open>Resolving\<close>

text \<open>\<open>Path::file_name\<close>: the last component, unless it is \<open>..\<close> or there is none.\<close>

definition path_components :: "string \<Rightarrow> string list" where
  "path_components path = filter (\<lambda>c. c \<noteq> [] \<and> c \<noteq> ''.'') (split_on (CHR 47) path)"

definition file_name :: "string \<Rightarrow> string option" where
  "file_name path =
     (let cs = path_components path
      in if cs = [] \<or> last cs = ''..'' then None else Some (last cs))"

definition apply_override :: "string option \<Rightarrow> u32 \<Rightarrow> u32" where
  "apply_override o_addr current =
     (case o_addr of
        None \<Rightarrow> current
      | Some address \<Rightarrow> (case parse_hex address of Inl _ \<Rightarrow> current | Inr a \<Rightarrow> a))"

definition resolve_profile ::
  "client_profile list \<Rightarrow> string \<Rightarrow> autopot_config \<Rightarrow> client_profile" where
  "resolve_profile profiles exe_path config =
     (let exe_name = (case file_name exe_path of None \<Rightarrow> exe_path | Some n \<Rightarrow> n);
          by_id = (case ac_profile_id config of
                     None \<Rightarrow> None | Some i \<Rightarrow> find (\<lambda>p. cp_id p = i) profiles);
          chosen = (case by_id of
                      Some p \<Rightarrow> Some p | None \<Rightarrow> find (\<lambda>p. matches_exe p exe_name) profiles);
          base = (case chosen of Some p \<Rightarrow> p | None \<Rightarrow> default_profile)
      in base\<lparr>cp_hp_base := apply_override (ac_hp_base_override config) (cp_hp_base base),
              cp_name_address := apply_override (ac_name_address_override config) (cp_name_address base)\<rparr>)"

section \<open>Properties\<close>

text \<open>A client profile matches an executable precisely when one of its patterns does, read as
  globs over the case-folded names: a star stands for any text and every other character for
  itself.\<close>

theorem matches_exe_spec:
  "matches_exe p exe \<longleftrightarrow>
     (\<exists>pat \<in> set (cp_exe_names p). glob_spec (to_ascii_lowercase pat) (to_ascii_lowercase exe))"
  unfolding matches_exe_def Let_def by (rule domain_glob.matches_any)

lemma parse_hex_format: "parse_hex (format_address a) = Inr a"
  by (simp add: parse_hex_def trim_format_address map_err_def)
    (simp add: format_address_def strip_prefix_def from_str_radix16_digits8)

text \<open>An address printed by the memory scanner reads back as the same address, both by the
  scanner's own parser and by the override parser, so a detected HP base stored as the server's
  override is the HP base of the resolved profile, whatever profile the client selects.\<close>

theorem scanned_address_roundtrip:
  "parse_hex (format_address a) = Inr a \<and> parse_address (format_address a) = Some a \<and>
   cp_hp_base (resolve_profile profiles exe (c\<lparr>ac_hp_base_override := Some (format_address a)\<rparr>)) = a"
  by (simp add: parse_hex_format resolve_profile_def Let_def apply_override_def)
    (simp add: parse_address_def format_address_def strip_prefix_def from_str_radix16_digits8
      ok_option_def)

lemma find_SomeD: "find P xs = Some x \<Longrightarrow> P x \<and> x \<in> set xs"
  by (auto simp: find_Some_iff)

text \<open>Profile resolution follows its precedence: a configured id that exists in the registry is
  the resolved id; otherwise the resolved profile's patterns match the executable's file name, or no
  registered profile matches and the built-in default is used.\<close>

theorem resolve_profile_precedence:
  fixes profiles exe_path config
  defines "r \<equiv> resolve_profile profiles exe_path config"
    and "exe \<equiv> (case file_name exe_path of None \<Rightarrow> exe_path | Some n \<Rightarrow> n)"
  shows "(\<exists>i. ac_profile_id config = Some i \<and> i \<in> cp_id ` set profiles \<and> cp_id r = i) \<or>
     (\<forall>i. ac_profile_id config = Some i \<longrightarrow> i \<notin> cp_id ` set profiles) \<and>
     (if \<exists>p \<in> set profiles. matches_exe p exe
      then \<exists>p \<in> set profiles. matches_exe p exe \<and> cp_id r = cp_id p \<and> cp_exe_names r = cp_exe_names p
      else cp_id r = cp_id default_profile \<and> cp_exe_names r = cp_exe_names default_profile)"
proof (cases "\<exists>i. ac_profile_id config = Some i \<and> i \<in> cp_id ` set profiles")
  case True
  then obtain i where i: "ac_profile_id config = Some i" "i \<in> cp_id ` set profiles" by blast
  then have "find (\<lambda>p. cp_id p = i) profiles \<noteq> None" by (auto simp: find_None_iff)
  then obtain p where "find (\<lambda>p. cp_id p = i) profiles = Some p" by blast
  with i have "cp_id r = i"
    by (auto simp: r_def resolve_profile_def Let_def dest: find_SomeD)
  with i show ?thesis by blast
next
  case False
  then have by_id: "(case ac_profile_id config of None \<Rightarrow> None | Some i \<Rightarrow> find (\<lambda>p. cp_id p = i) profiles) = None"
    by (auto simp: find_None_iff split: option.splits)
  show ?thesis
  proof (cases "find (\<lambda>p. matches_exe p exe) profiles")
    case None
    then have "\<not> (\<exists>p \<in> set profiles. matches_exe p exe)" by (auto simp: find_None_iff)
    moreover have "cp_id r = cp_id default_profile" "cp_exe_names r = cp_exe_names default_profile"
      using None by_id by (simp_all add: r_def exe_def resolve_profile_def Let_def)
    ultimately show ?thesis using False by auto
  next
    case (Some p)
    then have "cp_id r = cp_id p" "cp_exe_names r = cp_exe_names p"
      using by_id by (simp_all add: r_def exe_def resolve_profile_def Let_def)
    with find_SomeD [OF Some] False show ?thesis by auto
  qed
qed

end
