(* ===== verification/Spammer.thy ===== *)
theory Spammer
  imports Ports
begin

text \<open>
  The spammer: key labels (\<open>spammer/keys.rs\<close>), configuration with gear switching, Shift mode and the
  migration of the old shared-gear schema (\<open>spammer/config.rs\<close>), and the cycle engine
  (\<open>spammer/engine.rs\<close>).
\<close>

section \<open>Key labels\<close>

definition SPAMMER_KEY_LABELS :: "string list" where
  "SPAMMER_KEY_LABELS =
     [''F1'', ''F2'', ''F3'', ''F4'', ''F5'', ''F6'', ''F7'', ''F8'', ''F9'',
      ''1'', ''2'', ''3'', ''4'', ''5'', ''6'', ''7'', ''8'', ''9'', ''0'',
      ''Q'', ''W'', ''E'', ''R'', ''T'', ''Y'', ''U'', ''I'', ''O'', ''P'',
      ''A'', ''S'', ''D'', ''F'', ''G'', ''H'', ''J'', ''K'', ''L'',
      ''Z'', ''X'', ''C'', ''V'', ''B'', ''N'', ''M'']"

definition normal_label :: "string \<Rightarrow> string" where
  "normal_label label = to_ascii_uppercase (trim label)"

definition is_valid_spammer_key :: "string \<Rightarrow> bool" where
  "is_valid_spammer_key label \<longleftrightarrow> normal_label label \<in> set SPAMMER_KEY_LABELS"

definition spammer_key_order :: "string \<Rightarrow> u8" where
  "spammer_key_order label =
     (case position (\<lambda>k. k = label) SPAMMER_KEY_LABELS of Some i \<Rightarrow> of_nat i | None \<Rightarrow> 255)"

definition normalize_spammer_keys :: "string list \<Rightarrow> string list" where
  "normalize_spammer_keys keys =
     dedup (sort_by_key spammer_key_order (filter is_valid_spammer_key (map normal_label keys)))"

section \<open>Configuration\<close>

record gear_switch_rule =
  gr_trigger :: string
  gr_atk_keys :: "string list"
  gr_def_keys :: "string list"

definition gear_rule_clamped :: "gear_switch_rule \<Rightarrow> gear_switch_rule option" where
  "gear_rule_clamped r =
     (let trigger = normal_label (gr_trigger r)
      in if \<not> is_valid_spammer_key trigger then None
         else Some \<lparr>gr_trigger = trigger, gr_atk_keys = normalize_spammer_keys (gr_atk_keys r),
                    gr_def_keys = normalize_spammer_keys (gr_def_keys r)\<rparr>)"

record gear_switch_config =
  gc_enabled :: bool
  gc_switch_delay_ms :: u64
  gc_rules :: "gear_switch_rule list"

definition gear_default_config :: gear_switch_config where
  "gear_default_config = \<lparr>gc_enabled = False, gc_switch_delay_ms = 50, gc_rules = []\<rparr>"

text \<open>A trigger cannot repeat between rules: the first one wins.\<close>

definition gear_clamped :: "gear_switch_config \<Rightarrow> gear_switch_config" where
  "gear_clamped g =
     \<lparr>gc_enabled = gc_enabled g,
      gc_switch_delay_ms = clamp 10 300 (gc_switch_delay_ms g),
      gc_rules = first_by_key gr_trigger [] (List.map_filter gear_rule_clamped (gc_rules g))\<rparr>"

definition rule_for :: "gear_switch_config \<Rightarrow> string \<Rightarrow> gear_switch_rule option" where
  "rule_for g key = find (\<lambda>r. gr_trigger r = key) (gc_rules g)"

record shift_mode_config =
  sm_enabled :: bool
  sm_trigger_keys :: "string list"

definition shift_default_config :: shift_mode_config where
  "shift_default_config = \<lparr>sm_enabled = False, sm_trigger_keys = []\<rparr>"

definition shift_normalized :: "shift_mode_config \<Rightarrow> shift_mode_config" where
  "shift_normalized s = s\<lparr>sm_trigger_keys := normalize_spammer_keys (sm_trigger_keys s)\<rparr>"

definition uses_trigger :: "shift_mode_config \<Rightarrow> string \<Rightarrow> bool" where
  "uses_trigger s key \<longleftrightarrow> sm_enabled s \<and> list_ex (\<lambda>t. t = key) (sm_trigger_keys s)"

record spammer_config =
  sc_enabled :: bool
  sc_delay_ms :: u64
  sc_keys :: "string list"
  sc_shift_mode :: shift_mode_config
  sc_gear_switch :: gear_switch_config

definition spammer_default_config :: spammer_config where
  "spammer_default_config =
     \<lparr>sc_enabled = False, sc_delay_ms = 16, sc_keys = [''F1''],
      sc_shift_mode = shift_default_config, sc_gear_switch = gear_default_config\<rparr>"

definition spammer_normalized :: "spammer_config \<Rightarrow> spammer_config" where
  "spammer_normalized c =
     (let keys = normalize_spammer_keys (sc_keys c);
          sm = shift_normalized (sc_shift_mode c);
          gs = gear_clamped (sc_gear_switch c)
      in c\<lparr>sc_keys := keys,
           sc_shift_mode := sm\<lparr>sm_trigger_keys := filter (\<lambda>t. t \<in> set keys) (sm_trigger_keys sm)\<rparr>,
           sc_gear_switch := gs\<lparr>gc_rules := filter (\<lambda>r. gr_trigger r \<in> set keys) (gc_rules gs)\<rparr>\<rparr>)"

definition spammer_clamped :: "spammer_config \<Rightarrow> spammer_config" where
  "spammer_clamped c =
     (let n = spammer_normalized c in n\<lparr>sc_delay_ms := clamp 16 100 (sc_delay_ms n)\<rparr>)"

definition uses_shift_for :: "spammer_config \<Rightarrow> string \<Rightarrow> bool" where
  "uses_shift_for c key = uses_trigger (sc_shift_mode c) key"

definition validate_for_start :: "spammer_config \<Rightarrow> (tools_error, unit) result" where
  "validate_for_start c =
     (let n = spammer_normalized c
      in if sc_enabled n \<and> sc_keys n = []
         then Inl (Other ''Spammer: selecciona al menos una tecla'') else Inr ())"

section \<open>The stored schema\<close>

text \<open>The wire types keep the old shared-gear fields; a document without a field takes its default.\<close>

record gear_switch_config_wire =
  gw_enabled :: bool
  gw_switch_delay_ms :: u64
  gw_rules :: "gear_switch_rule list"
  gw_trigger_keys :: "string list"
  gw_atk_keys :: "string list"
  gw_def_keys :: "string list"

definition gear_wire_default :: gear_switch_config_wire where
  "gear_wire_default =
     \<lparr>gw_enabled = False, gw_switch_delay_ms = 50, gw_rules = [], gw_trigger_keys = [],
      gw_atk_keys = [], gw_def_keys = []\<rparr>"

record spammer_config_wire =
  sw_enabled :: bool
  sw_delay_ms :: u64
  sw_keys :: "string list"
  sw_shift_mode :: shift_mode_config
  sw_gear_switch :: gear_switch_config_wire

definition gear_wire_into_config :: "gear_switch_config_wire \<Rightarrow> string list \<Rightarrow> gear_switch_config" where
  "gear_wire_into_config w spammer_keys =
     (let has_legacy_config = (gw_trigger_keys w \<noteq> [] \<or> gw_atk_keys w \<noteq> [] \<or> gw_def_keys w \<noteq> []);
          rules = (if gw_rules w = [] \<and> has_legacy_config then
                     (let triggers = (if gw_trigger_keys w = [] then spammer_keys else gw_trigger_keys w)
                      in map (\<lambda>t. \<lparr>gr_trigger = t, gr_atk_keys = gw_atk_keys w, gr_def_keys = gw_def_keys w\<rparr>)
                           triggers)
                   else gw_rules w)
      in \<lparr>gc_enabled = gw_enabled w, gc_switch_delay_ms = gw_switch_delay_ms w, gc_rules = rules\<rparr>)"

definition spammer_of_wire :: "spammer_config_wire \<Rightarrow> spammer_config" where
  "spammer_of_wire w =
     \<lparr>sc_enabled = sw_enabled w, sc_delay_ms = sw_delay_ms w, sc_keys = sw_keys w,
      sc_shift_mode = sw_shift_mode w,
      sc_gear_switch = gear_wire_into_config (sw_gear_switch w) (sw_keys w)\<rparr>"

section \<open>Engine\<close>

record spammer_tick_report = st_cycled :: bool

record spammer_engine =
  se_input :: spam_port
  se_config :: spammer_config

definition spammer_new :: "spam_port \<Rightarrow> spammer_config \<Rightarrow> spammer_engine" where
  "spammer_new input config = \<lparr>se_input = input, se_config = spammer_clamped config\<rparr>"

definition spammer_update_config :: "spammer_config \<Rightarrow> spammer_engine \<Rightarrow> spammer_engine" where
  "spammer_update_config config e = e\<lparr>se_config := spammer_clamped config\<rparr>"

definition spammer_release :: "spammer_engine \<Rightarrow> (tools_error, unit) result \<times> spammer_engine" where
  "spammer_release e = (case release_spam (se_input e) of (r, p) \<Rightarrow> (r, e\<lparr>se_input := p\<rparr>))"

definition spammer_tick_with_deadline ::
  "string \<Rightarrow> nat option \<Rightarrow> spammer_engine \<Rightarrow> (tools_error, spammer_tick_report) result \<times> spammer_engine" where
  "spammer_tick_with_deadline key0 deadline e =
     (let key = trim key0
      in if \<not> is_valid_spammer_key key then (Inl (Input key ''tecla spammer no soportada''), e)
         else let modifier = (if uses_shift_for (se_config e) key then Some Shift else None)
              in case spam_cycle key modifier deadline (se_input e) of
                   (Inl err, p) \<Rightarrow> (Inl err, e\<lparr>se_input := p\<rparr>)
                 | (Inr cycled, p) \<Rightarrow> (Inr \<lparr>st_cycled = cycled\<rparr>, e\<lparr>se_input := p\<rparr>))"

definition spammer_tick ::
  "string \<Rightarrow> spammer_engine \<Rightarrow> (tools_error, spammer_tick_report) result \<times> spammer_engine" where
  "spammer_tick key e = spammer_tick_with_deadline key None e"

section \<open>Normalised key lists\<close>

lemma distinct_labels: "distinct SPAMMER_KEY_LABELS"
  by (simp add: SPAMMER_KEY_LABELS_def)

lemma normal_label_idem [simp]: "normal_label (normal_label s) = normal_label s"
  by (simp add: normal_label_def trim_uppercase)

lemma label_normal: "l \<in> set SPAMMER_KEY_LABELS \<Longrightarrow> normal_label l = l"
  by (auto simp: SPAMMER_KEY_LABELS_def normal_label_def trim_def trim_start_def trim_end_def
      is_whitespace_def to_ascii_uppercase_def ascii_upper_def)

lemma is_valid_label: "l \<in> set SPAMMER_KEY_LABELS \<Longrightarrow> is_valid_spammer_key l"
  by (simp add: is_valid_spammer_key_def label_normal)

lemma position_nth: "distinct xs \<Longrightarrow> i < length xs \<Longrightarrow> position (\<lambda>k. k = xs ! i) xs = Some i"
proof (induction xs arbitrary: i)
  case (Cons x xs)
  then show ?case by (cases i) (auto simp: nth_mem)
qed simp

lemma order_nth:
  "i < length SPAMMER_KEY_LABELS \<Longrightarrow> spammer_key_order (SPAMMER_KEY_LABELS ! i) = of_nat i"
  by (simp add: spammer_key_order_def position_nth distinct_labels)

lemma unat_of_index: "i < length SPAMMER_KEY_LABELS \<Longrightarrow> unat (of_nat i :: u8) = i"
  by (simp add: SPAMMER_KEY_LABELS_def unat_of_nat)

lemma order_inj: "inj_on spammer_key_order (set SPAMMER_KEY_LABELS)"
  by (rule inj_onI) (metis in_set_conv_nth order_nth unat_of_index)

lemma sorted_labels: "sorted (map spammer_key_order SPAMMER_KEY_LABELS)"
  by (rule sorted_iff_nth_mono [THEN iffD2])
    (auto simp: order_nth word_le_nat_alt unat_of_index)

lemma sorted_distinct_key_unique:
  assumes "inj_on f (set xs \<union> set ys)" "sorted (map f xs)" "sorted (map f ys)"
    "distinct xs" "distinct ys" "set xs = set ys"
  shows "xs = ys"
  using assms by (intro map_sorted_distinct_set_unique [of f xs ys])
    (auto simp: distinct_map intro: inj_on_subset)

lemma remdups_adj_map_inj_on:
  "inj_on f (set xs) \<Longrightarrow> map f (remdups_adj xs) = remdups_adj (map f xs)"
  by (induction xs rule: remdups_adj.induct) (auto simp: inj_on_eq_iff)

lemma remdups_adj_sorted_key:
  assumes "inj_on f (set xs)" "sorted (map f xs)"
  shows "distinct (remdups_adj xs)" "sorted (map f (remdups_adj xs))"
proof -
  have map_eq: "map f (remdups_adj xs) = remdups_adj (map f xs)"
    using assms(1) by (rule remdups_adj_map_inj_on)
  show "sorted (map f (remdups_adj xs))"
    using assms(2) by (simp add: map_eq sorted_remdups_adj)
  have "distinct (remdups_adj (map f xs))" using assms(2) by (rule sorted_remdups_adj_distinct)
  then show "distinct (remdups_adj xs)" by (metis distinct_map map_eq)
qed

text \<open>The normal form of a key list: the labels it mentions, in the order of the label table.\<close>

lemma normalize_eq_filter:
  "normalize_spammer_keys keys = filter (\<lambda>l. l \<in> normal_label ` set keys) SPAMMER_KEY_LABELS"
proof -
  let ?ks = "sort_by_key spammer_key_order (filter is_valid_spammer_key (map normal_label keys))"
  let ?out = "filter (\<lambda>l. l \<in> normal_label ` set keys) SPAMMER_KEY_LABELS"
  have ks: "set ?ks = set SPAMMER_KEY_LABELS \<inter> normal_label ` set keys"
    by (auto simp: sort_by_key_def is_valid_spammer_key_def)
  have inj: "inj_on spammer_key_order (set ?ks)"
    using order_inj by (rule inj_on_subset) (simp add: ks)
  have "dedup ?ks = ?out"
  proof (rule sorted_distinct_key_unique [of spammer_key_order])
    show "inj_on spammer_key_order (set (dedup ?ks) \<union> set ?out)"
      using order_inj by (rule inj_on_subset) (auto simp: dedup_def ks)
    show "sorted (map spammer_key_order (dedup ?ks))" "distinct (dedup ?ks)"
      using remdups_adj_sorted_key [OF inj] by (auto simp: dedup_def sort_by_key_def)
    show "sorted (map spammer_key_order ?out)"
      by (rule sorted_filter [OF sorted_labels])
    show "distinct ?out" by (simp add: distinct_labels)
    show "set (dedup ?ks) = set ?out" by (auto simp: dedup_def ks)
  qed
  then show ?thesis by (simp add: normalize_spammer_keys_def)
qed

lemma set_normalize: "set (normalize_spammer_keys keys) = set SPAMMER_KEY_LABELS \<inter> normal_label ` set keys"
  by (auto simp: normalize_eq_filter)

lemma normalize_fixed:
  assumes "set keys \<subseteq> set SPAMMER_KEY_LABELS"
  shows "normalize_spammer_keys keys = filter (\<lambda>l. l \<in> set keys) SPAMMER_KEY_LABELS"
proof -
  have "normal_label ` set keys = set keys" using assms label_normal by force
  then show ?thesis by (simp add: normalize_eq_filter)
qed

lemma normalize_subset: "set (normalize_spammer_keys keys) \<subseteq> set SPAMMER_KEY_LABELS"
  by (simp add: set_normalize)

lemma normalize_idem [simp]: "normalize_spammer_keys (normalize_spammer_keys keys) = normalize_spammer_keys keys"
  by (simp add: normalize_fixed [OF normalize_subset])
    (simp add: normalize_eq_filter cong: filter_cong)

lemma normalize_filter:
  "normalize_spammer_keys keys = keys \<Longrightarrow> normalize_spammer_keys (filter P keys) = filter P keys"
proof -
  assume eq: "normalize_spammer_keys keys = keys"
  then have sub: "set keys \<subseteq> set SPAMMER_KEY_LABELS" using normalize_subset [of keys] by simp
  have keys: "keys = filter (\<lambda>l. l \<in> set keys) SPAMMER_KEY_LABELS"
    using normalize_fixed [OF sub] eq by simp
  have "normalize_spammer_keys (filter P keys) = filter (\<lambda>l. l \<in> set (filter P keys)) SPAMMER_KEY_LABELS"
    using sub by (intro normalize_fixed) auto
  also have "\<dots> = filter P (filter (\<lambda>l. l \<in> set keys) SPAMMER_KEY_LABELS)"
    by (auto intro: filter_cong)
  finally show ?thesis using keys by simp
qed

section \<open>Gear rules\<close>

lemma set_first_by_key: "set (first_by_key f seen xs) \<subseteq> set xs"
  by (induction xs arbitrary: seen) auto

lemma first_by_key_distinct:
  "distinct (map f (first_by_key f seen xs)) \<and> set seen \<inter> f ` set (first_by_key f seen xs) = {}"
proof (induction xs arbitrary: seen)
  case (Cons x xs)
  show ?case using Cons.IH [of seen] Cons.IH [of "f x # seen"] by auto
qed simp

lemma first_by_key_fixed:
  "distinct (map f xs) \<Longrightarrow> set seen \<inter> f ` set xs = {} \<Longrightarrow> first_by_key f seen xs = xs"
  by (induction xs arbitrary: seen) auto

lemma find_first_by_key:
  "k \<notin> set seen \<Longrightarrow> find (\<lambda>x. f x = k) (first_by_key f seen xs) = find (\<lambda>x. f x = k) xs"
  by (induction xs arbitrary: seen) auto

definition gear_rule_normal :: "gear_switch_rule \<Rightarrow> bool" where
  "gear_rule_normal r \<longleftrightarrow>
     gr_trigger r \<in> set SPAMMER_KEY_LABELS \<and>
     normalize_spammer_keys (gr_atk_keys r) = gr_atk_keys r \<and>
     normalize_spammer_keys (gr_def_keys r) = gr_def_keys r"

lemma gear_rule_clamped_normal: "gear_rule_clamped r = Some r' \<Longrightarrow> gear_rule_normal r'"
  by (auto simp: gear_rule_clamped_def gear_rule_normal_def Let_def is_valid_spammer_key_def
      split: if_splits)

lemma gear_rule_clamped_id: "gear_rule_normal r \<Longrightarrow> gear_rule_clamped r = Some r"
  by (simp add: gear_rule_normal_def gear_rule_clamped_def label_normal is_valid_label)

lemma map_filter_id: "(\<And>x. x \<in> set xs \<Longrightarrow> f x = Some x) \<Longrightarrow> List.map_filter f xs = xs"
  by (induction xs) (auto simp: List.map_filter_simps)

section \<open>Configurations within their bounds\<close>

definition spammer_within :: "spammer_config \<Rightarrow> bool" where
  "spammer_within c \<longleftrightarrow>
     16 \<le> sc_delay_ms c \<and> sc_delay_ms c \<le> 100 \<and>
     normalize_spammer_keys (sc_keys c) = sc_keys c \<and>
     normalize_spammer_keys (sm_trigger_keys (sc_shift_mode c)) = sm_trigger_keys (sc_shift_mode c) \<and>
     set (sm_trigger_keys (sc_shift_mode c)) \<subseteq> set (sc_keys c) \<and>
     10 \<le> gc_switch_delay_ms (sc_gear_switch c) \<and> gc_switch_delay_ms (sc_gear_switch c) \<le> 300 \<and>
     distinct (map gr_trigger (gc_rules (sc_gear_switch c))) \<and>
     (\<forall>r \<in> set (gc_rules (sc_gear_switch c)). gear_rule_normal r \<and> gr_trigger r \<in> set (sc_keys c))"

lemma gear_clamped_rules_normal: "r \<in> set (gc_rules (gear_clamped g)) \<Longrightarrow> gear_rule_normal r"
proof -
  assume "r \<in> set (gc_rules (gear_clamped g))"
  with set_first_by_key [of gr_trigger "[]" "List.map_filter gear_rule_clamped (gc_rules g)"]
  have "r \<in> set (List.map_filter gear_rule_clamped (gc_rules g))" by (auto simp: gear_clamped_def)
  then show ?thesis by (auto simp: List.map_filter_def dest: gear_rule_clamped_normal)
qed

lemma spammer_clamped_within: "spammer_within (spammer_clamped c)"
  using first_by_key_distinct [of gr_trigger "[]" "List.map_filter gear_rule_clamped (gc_rules (sc_gear_switch c))"]
  by (auto simp: spammer_within_def spammer_clamped_def spammer_normalized_def Let_def
      shift_normalized_def normalize_filter distinct_map_filter gear_clamped_rules_normal)
    (auto simp: gear_clamped_def distinct_map_filter)

lemma spammer_within_fixed: "spammer_within c \<Longrightarrow> spammer_clamped c = c"
proof -
  assume w: "spammer_within c"
  let ?g = "sc_gear_switch c"
  from w have "List.map_filter gear_rule_clamped (gc_rules ?g) = gc_rules ?g"
    by (intro map_filter_id gear_rule_clamped_id) (simp add: spammer_within_def)
  with w have "gear_clamped ?g = ?g"
    by (simp add: gear_clamped_def spammer_within_def first_by_key_fixed)
  moreover from w have "shift_normalized (sc_shift_mode c) = sc_shift_mode c"
    by (simp add: shift_normalized_def spammer_within_def)
  moreover from w have "filter (\<lambda>t. t \<in> set (sc_keys c)) (sm_trigger_keys (sc_shift_mode c))
      = sm_trigger_keys (sc_shift_mode c)"
    "filter (\<lambda>r. gr_trigger r \<in> set (sc_keys c)) (gc_rules ?g) = gc_rules ?g"
    by (auto simp: spammer_within_def filter_id_conv)
  ultimately show ?thesis using w
    by (simp add: spammer_clamped_def spammer_normalized_def Let_def spammer_within_def)
qed

interpretation spammer_cfg: clamped_config spammer_clamped spammer_within
  by unfold_locales (rule spammer_clamped_within, rule spammer_within_fixed)

section \<open>Properties\<close>

text \<open>Normalising a key selection yields the supported labels it mentions, after trimming and
  uppercasing, each once and in the order of the label table; unsupported labels disappear.\<close>

theorem normalize_spammer_keys_table:
  "normalize_spammer_keys keys =
     filter (\<lambda>l. \<exists>k \<in> set keys. normal_label k = l) SPAMMER_KEY_LABELS"
  by (auto simp: normalize_eq_filter intro: filter_cong)

text \<open>The configuration an engine stores is within bounds (delays clamped, key lists normal,
  Shift triggers and gear triggers among the spammer's keys, one gear rule per trigger), and clamping
  it again changes nothing, whatever configuration was supplied.\<close>

theorem spammer_clamped_canonical:
  "spammer_within (spammer_clamped c) \<and> spammer_clamped (spammer_clamped c) = spammer_clamped c \<and>
   (spammer_clamped c = c \<longleftrightarrow> spammer_within c)"
  by (simp add: spammer_cfg.clamped_within spammer_cfg.clamped_idem spammer_cfg.fixed_iff)

lemma find_filter_const:
  "(\<And>x. f x = k \<Longrightarrow> P x = b) \<Longrightarrow> find (\<lambda>x. f x = k) (filter P xs) = (if b then find (\<lambda>x. f x = k) xs else None)"
  by (induction xs) auto

lemma gear_rule_clamped_trigger:
  "gear_rule_clamped r = Some r' \<Longrightarrow> gr_trigger r' = normal_label (gr_trigger r)"
  by (auto simp: gear_rule_clamped_def Let_def split: if_splits)

lemma find_map_filter_rules:
  assumes "key \<in> set SPAMMER_KEY_LABELS"
  shows "find (\<lambda>r. gr_trigger r = key) (List.map_filter gear_rule_clamped rs)
    = Option.bind (find (\<lambda>r. normal_label (gr_trigger r) = key) rs) gear_rule_clamped"
proof (induction rs)
  case (Cons r rs)
  show ?case
  proof (cases "gear_rule_clamped r")
    case None
    then have "normal_label (gr_trigger r) \<noteq> key"
      using assms is_valid_label by (auto simp: gear_rule_clamped_def Let_def split: if_splits)
    with None Cons show ?thesis by (simp add: List.map_filter_simps)
  next
    case (Some r')
    with Cons gear_rule_clamped_trigger [OF Some] show ?thesis
      by (simp add: List.map_filter_simps)
  qed
qed (simp add: List.map_filter_simps)

text \<open>After normalisation the gear rule of a key is the first configured rule whose trigger names
  that key, with its key sets normalised; a key the spammer does not use has no rule.\<close>

theorem gear_rule_lookup:
  "rule_for (sc_gear_switch (spammer_normalized c)) key =
     (if key \<in> set (normalize_spammer_keys (sc_keys c))
      then Option.bind (find (\<lambda>r. normal_label (gr_trigger r) = key) (gc_rules (sc_gear_switch c)))
             gear_rule_clamped
      else None)"
proof -
  have "rule_for (sc_gear_switch (spammer_normalized c)) key =
      (if key \<in> set (normalize_spammer_keys (sc_keys c))
       then find (\<lambda>r. gr_trigger r = key) (List.map_filter gear_rule_clamped (gc_rules (sc_gear_switch c)))
       else None)"
    by (simp add: rule_for_def spammer_normalized_def gear_clamped_def Let_def find_first_by_key
        find_filter_const [where f = gr_trigger and k = key
          and b = "key \<in> set (normalize_spammer_keys (sc_keys c))"])
  then show ?thesis
    using normalize_subset [of "sc_keys c"] find_map_filter_rules [of key] by auto
qed

text \<open>A document of the old schema (no rules, shared gear keys) migrates to one rule per trigger:
  after normalisation every active spammer key among the old triggers (among all keys, when no
  trigger was stored) has a rule with the shared ATK and DEF sets, and no other key has one.\<close>

theorem legacy_gear_migration:
  assumes "gw_rules (sw_gear_switch w) = []"
    and "gw_trigger_keys (sw_gear_switch w) \<noteq> [] \<or> gw_atk_keys (sw_gear_switch w) \<noteq> [] \<or>
         gw_def_keys (sw_gear_switch w) \<noteq> []"
    and "triggers = (if gw_trigger_keys (sw_gear_switch w) = [] then sw_keys w
                     else gw_trigger_keys (sw_gear_switch w))"
  shows "rule_for (sc_gear_switch (spammer_normalized (spammer_of_wire w))) key =
     (if key \<in> set (normalize_spammer_keys (sw_keys w)) \<and> key \<in> normal_label ` set triggers
      then Some \<lparr>gr_trigger = key,
                 gr_atk_keys = normalize_spammer_keys (gw_atk_keys (sw_gear_switch w)),
                 gr_def_keys = normalize_spammer_keys (gw_def_keys (sw_gear_switch w))\<rparr>
      else None)"
proof -
  let ?mk = "\<lambda>t. \<lparr>gr_trigger = t, gr_atk_keys = gw_atk_keys (sw_gear_switch w),
                   gr_def_keys = gw_def_keys (sw_gear_switch w)\<rparr>"
  have rules: "gc_rules (sc_gear_switch (spammer_of_wire w)) = map ?mk triggers"
    using assms by (simp add: spammer_of_wire_def gear_wire_into_config_def Let_def)
  have found: "find (\<lambda>r. normal_label (gr_trigger r) = key) (map ?mk ts)
      = map_option ?mk (find (\<lambda>t. normal_label t = key) ts)" for ts
    by (induction ts) auto
  have keys: "sc_keys (spammer_of_wire w) = sw_keys w" by (simp add: spammer_of_wire_def)
  have valid: "key \<in> set SPAMMER_KEY_LABELS" if "key \<in> set (normalize_spammer_keys (sw_keys w))"
    using that normalize_subset by blast
  show ?thesis
  proof (cases "find (\<lambda>t. normal_label t = key) triggers")
    case None
    then have "key \<notin> normal_label ` set triggers" by (auto simp: find_None_iff)
    with None show ?thesis by (simp add: gear_rule_lookup rules found keys)
  next
    case (Some t)
    then have "normal_label t = key" "t \<in> set triggers" by (auto simp: find_Some_iff)
    with Some valid show ?thesis
      by (auto simp: gear_rule_lookup rules found keys gear_rule_clamped_def is_valid_label)
  qed
qed

text \<open>A spammer cycle on an unsupported key fails without touching the input backend; on a
  supported key it issues exactly one backend cycle, for the trimmed key and with the given deadline,
  holding Shift precisely when Shift mode is enabled and lists that key, and reports the backend's
  answer.\<close>

theorem spammer_tick_single_cycle:
  "spammer_tick_with_deadline key deadline e =
     (if is_valid_spammer_key key
      then let call = SpamCycle (trim key)
                 (if sm_enabled (sc_shift_mode (se_config e))
                     \<and> trim key \<in> set (sm_trigger_keys (sc_shift_mode (se_config e)))
                  then Some Shift else None) deadline
           in (map_sum id (\<lambda>b. \<lparr>st_cycled = b\<rparr>)
                 (sp_cycle_answer (se_input e) (length (sp_log (se_input e))) call),
               e\<lparr>se_input := (se_input e)\<lparr>sp_log := sp_log (se_input e) @ [call]\<rparr>\<rparr>)
      else (Inl (Input (trim key) ''tecla spammer no soportada''), e))"
  by (auto simp: spammer_tick_with_deadline_def is_valid_spammer_key_def normal_label_def Let_def
      spam_cycle_def uses_shift_for_def uses_trigger_def list_ex_iff split: sum.splits)

text \<open>The trigger list holds uppercase labels while the key is only trimmed: a lower-case label is a
  supported key that never takes the Shift modifier.\<close>

lemma lowercase_key_ignores_shift:
  "\<not> uses_shift_for (spammer_clamped c) ''f2'' \<and> is_valid_spammer_key ''f2''"
proof -
  have "set (sm_trigger_keys (sc_shift_mode (spammer_clamped c))) \<subseteq> set SPAMMER_KEY_LABELS"
    using spammer_clamped_within [of c] normalize_subset [of "sm_trigger_keys (sc_shift_mode (spammer_clamped c))"]
    by (simp add: spammer_within_def)
  moreover have "''f2'' \<notin> set SPAMMER_KEY_LABELS" by (simp add: SPAMMER_KEY_LABELS_def)
  moreover have "normal_label ''f2'' = ''F2''" by code_simp
  ultimately show ?thesis
    by (auto simp: uses_shift_for_def uses_trigger_def list_ex_iff is_valid_spammer_key_def
        SPAMMER_KEY_LABELS_def)
qed

end
