(* ===== verification/Autobuff.thy ===== *)
theory Autobuff
  imports Domain Spammer
begin

text \<open>
  AutoBuff: the rules (\<open>autobuff/config.rs\<close>) and the buffing engine (\<open>autobuff/engine.rs\<close>).  An
  \<open>Instant\<close> is a number of nanoseconds, and the current one is an argument of a cycle.
\<close>

section \<open>Configuration\<close>

record autobuff_rule =
  ar_id :: string
  ar_label :: string
  ar_status_id :: u32
  ar_key :: string
  ar_cooldown_ms :: u64
  ar_priority :: u32
  ar_enabled :: bool

record autobuff_config =
  bc_enabled :: bool
  bc_delay_ms :: u64
  bc_rules :: "autobuff_rule list"

definition autobuff_default_config :: autobuff_config where
  "autobuff_default_config = \<lparr>bc_enabled = False, bc_delay_ms = 300, bc_rules = []\<rparr>"

definition autobuff_normalized :: "autobuff_config \<Rightarrow> autobuff_config" where
  "autobuff_normalized c = c\<lparr>bc_rules := map (\<lambda>r. r\<lparr>ar_key := normal_label (ar_key r)\<rparr>) (bc_rules c)\<rparr>"

definition autobuff_clamped :: "autobuff_config \<Rightarrow> autobuff_config" where
  "autobuff_clamped c =
     (let n = autobuff_normalized c
      in n\<lparr>bc_delay_ms := clamp 100 2000 (bc_delay_ms n),
           bc_rules := map (\<lambda>r. r\<lparr>ar_cooldown_ms := clamp 100 60000 (ar_cooldown_ms r)\<rparr>) (bc_rules n)\<rparr>)"

fun autobuff_check_rules :: "u32 set \<Rightarrow> autobuff_rule list \<Rightarrow> (tools_error, unit) result" where
  "autobuff_check_rules status_ids [] = Inr ()"
| "autobuff_check_rules status_ids (r # rs) =
     (if trim (ar_id r) = [] \<or> trim (ar_label r) = [] \<or> trim (ar_key r) = []
      then Inl (Other ''AutoBuff: cada regla necesita identificador, nombre y tecla'')
      else if ar_status_id r = 0
      then Inl (Other ''AutoBuff: el status ID debe ser mayor que cero'')
      else if \<not> is_valid_spammer_key (ar_key r)
      then Inl (Other (''AutoBuff: tecla no soportada para '' @ [CHR 39] @ ar_label r @ [CHR 39]
                       @ '': '' @ ar_key r))
      else if ar_status_id r \<in> status_ids
      then Inl (Other (''AutoBuff: el status ID '' @ show_nat (unat (ar_status_id r)) @ '' est''
                       @ [CHR 0xE1] @ '' repetido''))
      else autobuff_check_rules (insert (ar_status_id r) status_ids) rs)"

definition autobuff_validate :: "autobuff_config \<Rightarrow> (tools_error, unit) result" where
  "autobuff_validate c = autobuff_check_rules {} (bc_rules (autobuff_normalized c))"

section \<open>Engine\<close>

definition STATUS_SLOTS :: nat where "STATUS_SLOTS = 100"
definition QUAGMIRE :: u32 where "QUAGMIRE = 8"
definition OVERTHRUST :: u32 where "OVERTHRUST = 25"
definition OVERTHRUST_MAX :: u32 where "OVERTHRUST_MAX = 188"
definition QUAGMIRE_BLOCKED :: "u32 list" where "QUAGMIRE_BLOCKED = [3, 23, 68, 115, 116]"

record autobuff_tick_report =
  bt_active_statuses :: nat
  bt_applied_rule :: "string option"

definition autobuff_tick_default :: autobuff_tick_report where
  "autobuff_tick_default = \<lparr>bt_active_statuses = 0, bt_applied_rule = None\<rparr>"

record autobuff_engine =
  ab_memory :: memory_reader
  ab_input :: key_port
  ab_config :: autobuff_config
  ab_profile :: client_profile
  ab_last_used :: "string \<rightharpoonup> nat"

definition autobuff_new ::
  "memory_reader \<Rightarrow> key_port \<Rightarrow> autobuff_config \<Rightarrow> client_profile \<Rightarrow> autobuff_engine" where
  "autobuff_new memory input config profile =
     \<lparr>ab_memory = memory, ab_input = input, ab_config = autobuff_clamped config,
      ab_profile = profile, ab_last_used = Map.empty\<rparr>"

definition autobuff_update_config :: "autobuff_config \<Rightarrow> autobuff_engine \<Rightarrow> autobuff_engine" where
  "autobuff_update_config config e = e\<lparr>ab_config := autobuff_clamped config\<rparr>"

definition autobuff_replace_memory :: "memory_reader \<Rightarrow> autobuff_engine \<Rightarrow> autobuff_engine" where
  "autobuff_replace_memory memory e = e\<lparr>ab_memory := memory, ab_last_used := Map.empty\<rparr>"

text \<open>The set of active statuses, as the distinct values of the buffer that are not fillers.\<close>

definition active_statuses :: "u32 list \<Rightarrow> u32 list" where
  "active_statuses statuses =
     remdups (filter (\<lambda>i. i \<noteq> 0 \<and> i \<noteq> 0xFFFFFFFF \<and> i \<noteq> 210803216) statuses)"

definition rule_present :: "u32 list \<Rightarrow> autobuff_rule \<Rightarrow> bool" where
  "rule_present active r \<longleftrightarrow>
     ar_status_id r \<in> set active \<or> (ar_status_id r = OVERTHRUST \<and> OVERTHRUST_MAX \<in> set active)"

definition rule_cooling_down :: "(string \<rightharpoonup> nat) \<Rightarrow> nat \<Rightarrow> autobuff_rule \<Rightarrow> bool" where
  "rule_cooling_down last_used now r \<longleftrightarrow>
     (case last_used (ar_id r) of
        None \<Rightarrow> False
      | Some used \<Rightarrow> now - used < unat (ar_cooldown_ms r) * 1000000)"

definition rule_blocked :: "u32 list \<Rightarrow> autobuff_rule \<Rightarrow> bool" where
  "rule_blocked active r \<longleftrightarrow> QUAGMIRE \<in> set active \<and> ar_status_id r \<in> set QUAGMIRE_BLOCKED"

fun autobuff_try ::
  "nat \<Rightarrow> u32 list \<Rightarrow> autobuff_rule list \<Rightarrow> autobuff_engine
     \<Rightarrow> (tools_error, autobuff_tick_report) result \<times> autobuff_engine" where
  "autobuff_try now active [] e =
     (Inr \<lparr>bt_active_statuses = length active, bt_applied_rule = None\<rparr>, e)"
| "autobuff_try now active (r # rs) e =
     (if rule_present active r \<or> rule_cooling_down (ab_last_used e) now r \<or> rule_blocked active r
      then autobuff_try now active rs e
      else (case press_key (ar_key r) (ab_input e) of
              (Inl err, p) \<Rightarrow> (Inl err, e\<lparr>ab_input := p\<rparr>)
            | (Inr _, p) \<Rightarrow>
                (Inr \<lparr>bt_active_statuses = length active, bt_applied_rule = Some (ar_label r)\<rparr>,
                 e\<lparr>ab_input := p, ab_last_used := (ab_last_used e)(ar_id r \<mapsto> now)\<rparr>)))"

definition autobuff_queue :: "autobuff_config \<Rightarrow> autobuff_rule list" where
  "autobuff_queue c = sort_by_key ar_priority (filter ar_enabled (bc_rules c))"

definition autobuff_tick ::
  "nat \<Rightarrow> autobuff_engine \<Rightarrow> (tools_error, autobuff_tick_report) result \<times> autobuff_engine" where
  "autobuff_tick now e =
     (case read_u32_slice (ab_memory e) (cp_hp_base (ab_profile e)) 2 of
        Inl err \<Rightarrow> (Inl err, e)
      | Inr hp \<Rightarrow>
          (case hp of
             [current_hp, max_hp] \<Rightarrow>
               if current_hp = 0 \<or> max_hp = 0 \<or> max_hp < current_hp
               then (Inr autobuff_tick_default, e)
               else (case read_u32_slice (ab_memory e) (status_buffer_address (ab_profile e)) STATUS_SLOTS of
                       Inl err \<Rightarrow> (Inl err, e)
                     | Inr statuses \<Rightarrow>
                         autobuff_try now (active_statuses statuses) (autobuff_queue (ab_config e)) e)
           | _ \<Rightarrow> (Inl (Other (''AutoBuff: lectura HP incompleta ('' @ show_nat (length hp) @ '' de 2)'')), e)))"

section \<open>Configurations within their bounds\<close>

definition autobuff_within :: "autobuff_config \<Rightarrow> bool" where
  "autobuff_within c \<longleftrightarrow>
     100 \<le> bc_delay_ms c \<and> bc_delay_ms c \<le> 2000 \<and>
     (\<forall>r \<in> set (bc_rules c). 100 \<le> ar_cooldown_ms r \<and> ar_cooldown_ms r \<le> 60000 \<and>
        normal_label (ar_key r) = ar_key r)"

interpretation autobuff_cfg: clamped_config autobuff_clamped autobuff_within
proof
  show "autobuff_within (autobuff_clamped c)" for c
    by (auto simp: autobuff_within_def autobuff_clamped_def autobuff_normalized_def Let_def)
  show "autobuff_clamped c = c" if "autobuff_within c" for c
    using that by (simp add: autobuff_within_def autobuff_clamped_def autobuff_normalized_def
        Let_def map_idI)
qed

section \<open>The chosen rule\<close>

definition rule_eligible :: "nat \<Rightarrow> u32 list \<Rightarrow> (string \<rightharpoonup> nat) \<Rightarrow> autobuff_rule \<Rightarrow> bool" where
  "rule_eligible now active last_used r \<longleftrightarrow>
     \<not> rule_present active r \<and> \<not> rule_cooling_down last_used now r \<and> \<not> rule_blocked active r"

lemma autobuff_try_find:
  "autobuff_try now active rs e =
     (case find (rule_eligible now active (ab_last_used e)) rs of
        None \<Rightarrow> (Inr \<lparr>bt_active_statuses = length active, bt_applied_rule = None\<rparr>, e)
      | Some r \<Rightarrow>
          (case press_key (ar_key r) (ab_input e) of
             (Inl err, p) \<Rightarrow> (Inl err, e\<lparr>ab_input := p\<rparr>)
           | (Inr _, p) \<Rightarrow>
               (Inr \<lparr>bt_active_statuses = length active, bt_applied_rule = Some (ar_label r)\<rparr>,
                e\<lparr>ab_input := p, ab_last_used := (ab_last_used e)(ar_id r \<mapsto> now)\<rparr>)))"
  by (induction rs) (auto simp: rule_eligible_def)

lemma find_sorted_least:
  assumes "sorted (map f xs)" "find P xs = Some x" "y \<in> set xs" "P y"
  shows "f x \<le> f y"
proof -
  from assms(2) obtain i where i: "i < length xs" "x = xs ! i" "\<forall>j<i. \<not> P (xs ! j)"
    by (auto simp: find_Some_iff)
  from assms(3) obtain j where j: "j < length xs" "y = xs ! j" by (auto simp: in_set_conv_nth)
  with i assms(4) have "i \<le> j" using leI by blast
  then show ?thesis using sorted_nth_mono [OF assms(1), of i j] i j by simp
qed

section \<open>Runs of the engine\<close>

datatype autobuff_op =
  BuffTick nat | BuffUpdateConfig autobuff_config | BuffReplaceMemory memory_reader
  | BuffMemoryChanged memory_reader

fun autobuff_step :: "autobuff_engine \<Rightarrow> autobuff_op \<Rightarrow> autobuff_engine" where
  "autobuff_step e (BuffTick now) = snd (autobuff_tick now e)"
| "autobuff_step e (BuffUpdateConfig c) = autobuff_update_config c e"
| "autobuff_step e (BuffReplaceMemory m) = autobuff_replace_memory m e"
| "autobuff_step e (BuffMemoryChanged m) = e\<lparr>ab_memory := m\<rparr>"

text \<open>The rule a cycle applies, if its key press succeeds.\<close>

definition pressed_rule :: "nat \<Rightarrow> autobuff_engine \<Rightarrow> autobuff_rule option" where
  "pressed_rule now e =
     (case (read_u32_slice (ab_memory e) (cp_hp_base (ab_profile e)) 2,
            read_u32_slice (ab_memory e) (status_buffer_address (ab_profile e)) STATUS_SLOTS) of
        (Inr [current_hp, max_hp], Inr statuses) \<Rightarrow>
          if current_hp = 0 \<or> max_hp = 0 \<or> max_hp < current_hp then None
          else (case find (rule_eligible now (active_statuses statuses) (ab_last_used e))
                       (autobuff_queue (ab_config e)) of
                  None \<Rightarrow> None
                | Some r \<Rightarrow> (case press_key (ar_key r) (ab_input e) of
                                (Inl _, _) \<Rightarrow> None | (Inr _, _) \<Rightarrow> Some r))
      | _ \<Rightarrow> None)"

fun autobuff_history :: "autobuff_engine \<Rightarrow> autobuff_op list \<Rightarrow> (nat \<times> autobuff_rule) list" where
  "autobuff_history e [] = []"
| "autobuff_history e (opn # ops) =
     (case opn of
        BuffTick now \<Rightarrow> (case pressed_rule now e of None \<Rightarrow> [] | Some r \<Rightarrow> [(now, r)])
      | _ \<Rightarrow> []) @ autobuff_history (autobuff_step e opn) ops"

lemma autobuff_tick_last_used:
  "ab_last_used (snd (autobuff_tick now e)) =
     (case pressed_rule now e of None \<Rightarrow> ab_last_used e | Some r \<Rightarrow> (ab_last_used e)(ar_id r \<mapsto> now))"
  by (auto simp: autobuff_tick_def pressed_rule_def autobuff_try_find
      split: sum.splits list.splits option.splits prod.splits)

lemma autobuff_tick_config [simp]: "ab_config (snd (autobuff_tick now e)) = ab_config e"
  by (auto simp: autobuff_tick_def autobuff_try_find
      split: sum.splits list.splits option.splits prod.splits)

lemma pressed_rule_props:
  assumes "pressed_rule now e = Some r"
  shows "r \<in> set (bc_rules (ab_config e))" "\<not> rule_cooling_down (ab_last_used e) now r"
proof -
  from assms obtain active where
    "find (rule_eligible now active (ab_last_used e)) (autobuff_queue (ab_config e)) = Some r"
    by (auto simp: pressed_rule_def split: sum.splits list.splits option.splits if_splits prod.splits)
  then have "r \<in> set (autobuff_queue (ab_config e))" "rule_eligible now active (ab_last_used e) r"
    by (auto simp: find_Some_iff)
  then show "r \<in> set (bc_rules (ab_config e))" "\<not> rule_cooling_down (ab_last_used e) now r"
    by (auto simp: autobuff_queue_def sort_by_key_def rule_eligible_def)
qed

lemma pressed_rule_elapsed:
  assumes "autobuff_within (ab_config e)" "pressed_rule now e = Some r"
    "ab_last_used e (ar_id r) = Some t"
  shows "t + unat (ar_cooldown_ms r) * 1000000 \<le> now"
proof -
  have "100 \<le> ar_cooldown_ms r"
    using assms(1) pressed_rule_props(1) [OF assms(2)] by (simp add: autobuff_within_def)
  then have "0 < unat (ar_cooldown_ms r) * 1000000" by (simp add: word_le_nat_alt)
  moreover have "\<not> now - t < unat (ar_cooldown_ms r) * 1000000"
    using pressed_rule_props(2) [OF assms(2)] assms(3) by (simp add: rule_cooling_down_def)
  ultimately show ?thesis by linarith
qed

lemma autobuff_step_within:
  "autobuff_within (ab_config e) \<Longrightarrow> autobuff_within (ab_config (autobuff_step e opn))"
  by (cases opn)
    (simp_all add: autobuff_update_config_def autobuff_replace_memory_def autobuff_cfg.clamped_within)

lemma history_after_last_use:
  assumes "autobuff_within (ab_config e)" "\<forall>m. BuffReplaceMemory m \<notin> set ops"
    "(t', r) \<in> set (autobuff_history e ops)" "ab_last_used e (ar_id r) = Some t"
  shows "t + unat (ar_cooldown_ms r) * 1000000 \<le> t'"
  using assms
proof (induction ops arbitrary: e t)
  case (Cons opn ops)
  let ?e = "autobuff_step e opn"
  have rest: "t1 + unat (ar_cooldown_ms r) * 1000000 \<le> t'"
    if "(t', r) \<in> set (autobuff_history ?e ops)" "ab_last_used ?e (ar_id r) = Some t1" for t1
    using Cons.IH [OF autobuff_step_within] Cons.prems that by simp
  show ?case
  proof (cases opn)
    case (BuffTick now)
    show ?thesis
    proof (cases "pressed_rule now e")
      case None
      with BuffTick Cons.prems rest show ?thesis by (simp add: autobuff_tick_last_used)
    next
      case (Some r1)
      note elapsed = pressed_rule_elapsed [OF Cons.prems(1) Some]
      from BuffTick Some have lu: "ab_last_used ?e = (ab_last_used e)(ar_id r1 \<mapsto> now)"
        by (simp add: autobuff_tick_last_used)
      from Cons.prems(3) BuffTick Some
      consider "t' = now" "r = r1" | "(t', r) \<in> set (autobuff_history ?e ops)" by auto
      then show ?thesis
      proof cases
        case 1
        with elapsed Cons.prems(4) show ?thesis by simp
      next
        case 2
        show ?thesis
        proof (cases "ar_id r = ar_id r1")
          case True
          with elapsed Cons.prems(4) have "t \<le> now" by fastforce
          with True lu rest [OF 2, of now] show ?thesis by simp
        next
          case False
          with lu rest [OF 2] Cons.prems(4) show ?thesis by simp
        qed
      qed
    qed
  next
    case (BuffUpdateConfig c)
    with Cons.prems rest show ?thesis by (simp add: autobuff_update_config_def)
  next
    case (BuffReplaceMemory m)
    with Cons.prems(2) show ?thesis by auto
  next
    case (BuffMemoryChanged m)
    with Cons.prems rest show ?thesis by simp
  qed
qed simp

lemma history_spaced:
  assumes "autobuff_within (ab_config e)" "\<forall>m. BuffReplaceMemory m \<notin> set ops"
  shows "sorted_wrt (\<lambda>(t, r) (t', r'). ar_id r = ar_id r'
             \<longrightarrow> t + unat (ar_cooldown_ms r') * 1000000 \<le> t') (autobuff_history e ops)"
  using assms
proof (induction ops arbitrary: e)
  case (Cons opn ops)
  have IH: "sorted_wrt (\<lambda>(t, r) (t', r'). ar_id r = ar_id r'
      \<longrightarrow> t + unat (ar_cooldown_ms r') * 1000000 \<le> t') (autobuff_history (autobuff_step e opn) ops)"
    using Cons by (intro Cons.IH autobuff_step_within) auto
  show ?case
  proof (cases "\<exists>now r. opn = BuffTick now \<and> pressed_rule now e = Some r")
    case True
    then obtain now r where opn: "opn = BuffTick now" "pressed_rule now e = Some r" by blast
    have "now + unat (ar_cooldown_ms r') * 1000000 \<le> t'"
      if "(t', r') \<in> set (autobuff_history (autobuff_step e opn) ops)" "ar_id r = ar_id r'" for t' r'
      using history_after_last_use [OF autobuff_step_within [OF Cons.prems(1)] _ that(1)] Cons.prems(2) opn that(2)
      by (simp add: autobuff_tick_last_used)
    with IH opn show ?thesis by auto
  next
    case False
    with IH show ?thesis by (auto split: autobuff_op.splits option.splits)
  qed
qed simp

section \<open>Properties\<close>

text \<open>An AutoBuff cycle on a logged-in client presses at most one key: that of an enabled rule
  which is not active, not cooling down and not blocked by Quagmire and whose priority value is least
  among such rules; it starts that rule's cooldown.  When no rule qualifies nothing is pressed, and a
  failed press starts no cooldown.\<close>

theorem autobuff_tick_choice:
  assumes "read_u32_slice (ab_memory e) (cp_hp_base (ab_profile e)) 2 = Inr [hp, mx]"
    and "hp \<noteq> 0" "mx \<noteq> 0" "hp \<le> mx"
    and "read_u32_slice (ab_memory e) (status_buffer_address (ab_profile e)) STATUS_SLOTS = Inr ss"
    and "elig = rule_eligible now (active_statuses ss) (ab_last_used e)"
    and "autobuff_tick now e = (res, e')"
  shows "(\<nexists>r. r \<in> set (bc_rules (ab_config e)) \<and> ar_enabled r \<and> elig r) \<and> e' = e \<and>
       res = Inr \<lparr>bt_active_statuses = length (active_statuses ss), bt_applied_rule = None\<rparr>
     \<or> (\<exists>r \<in> set (bc_rules (ab_config e)). ar_enabled r \<and> elig r \<and>
          (\<forall>r' \<in> set (bc_rules (ab_config e)). ar_enabled r' \<and> elig r' \<longrightarrow> ar_priority r \<le> ar_priority r') \<and>
          ab_input e' = snd (press_key (ar_key r) (ab_input e)) \<and>
          (case fst (press_key (ar_key r) (ab_input e)) of
             Inl err \<Rightarrow> res = Inl err \<and> ab_last_used e' = ab_last_used e
           | Inr _ \<Rightarrow> res = Inr \<lparr>bt_active_statuses = length (active_statuses ss),
                                 bt_applied_rule = Some (ar_label r)\<rparr> \<and>
                      ab_last_used e' = (ab_last_used e)(ar_id r \<mapsto> now)))"
proof -
  let ?q = "autobuff_queue (ab_config e)"
  have tick: "autobuff_tick now e = autobuff_try now (active_statuses ss) ?q e"
    using assms(1-5) by (simp add: autobuff_tick_def not_less [symmetric])
  have run: "(case find elig ?q of
        None \<Rightarrow> (Inr \<lparr>bt_active_statuses = length (active_statuses ss), bt_applied_rule = None\<rparr>, e)
      | Some r \<Rightarrow>
          (case press_key (ar_key r) (ab_input e) of
             (Inl err, p) \<Rightarrow> (Inl err, e\<lparr>ab_input := p\<rparr>)
           | (Inr _, p) \<Rightarrow>
               (Inr \<lparr>bt_active_statuses = length (active_statuses ss), bt_applied_rule = Some (ar_label r)\<rparr>,
                e\<lparr>ab_input := p, ab_last_used := (ab_last_used e)(ar_id r \<mapsto> now)\<rparr>))) = (res, e')"
    using tick assms(6,7) by (simp add: autobuff_try_find)
  have q: "set ?q = {r \<in> set (bc_rules (ab_config e)). ar_enabled r}"
    and sorted_q: "sorted (map ar_priority ?q)"
    by (auto simp: autobuff_queue_def sort_by_key_def)
  show ?thesis
  proof (cases "find elig ?q")
    case None
    with q have "\<nexists>r. r \<in> set (bc_rules (ab_config e)) \<and> ar_enabled r \<and> elig r"
      by (auto simp: find_None_iff)
    with None run show ?thesis by simp
  next
    case (Some r)
    then have r: "r \<in> set ?q" "elig r" by (auto simp: find_Some_iff)
    with find_sorted_least [OF sorted_q Some] q run Some show ?thesis
      by (intro disjI2 bexI [of _ r]) (auto split: prod.splits sum.splits)
  qed
qed

text \<open>Cooldowns hold across a whole run on one client (configuration changes and memory changes
  included, in any clock order): two successful presses of rules with the same id are at least the
  later rule's cooldown apart.\<close>

theorem autobuff_cooldown_respected:
  assumes "\<forall>m. BuffReplaceMemory m \<notin> set ops"
    and "i < j" "j < length (autobuff_history (autobuff_new m p c pr) ops)"
    and "autobuff_history (autobuff_new m p c pr) ops ! i = (t, r)"
    and "autobuff_history (autobuff_new m p c pr) ops ! j = (t', r')"
    and "ar_id r = ar_id r'"
  shows "t + unat (ar_cooldown_ms r') * 1000000 \<le> t'"
proof -
  have "autobuff_within (ab_config (autobuff_new m p c pr))"
    by (simp add: autobuff_new_def autobuff_cfg.clamped_within)
  from sorted_wrt_nth_less [OF history_spaced [OF this assms(1)] assms(2,3)] assms(4-6)
  show ?thesis by simp
qed

lemma autobuff_check_rules_iff:
  "autobuff_check_rules S rs = Inr () \<longleftrightarrow>
     (\<forall>r \<in> set rs. trim (ar_id r) \<noteq> [] \<and> trim (ar_label r) \<noteq> [] \<and> trim (ar_key r) \<noteq> [] \<and>
        ar_status_id r \<noteq> 0 \<and> is_valid_spammer_key (ar_key r) \<and> ar_status_id r \<notin> S) \<and>
     distinct (map ar_status_id rs)"
proof (induction rs arbitrary: S)
  case (Cons r rs)
  have sym: "(\<forall>x \<in> set rs. ar_status_id x \<noteq> ar_status_id r) =
      (\<forall>x \<in> set rs. ar_status_id r \<noteq> ar_status_id x)" by metis
  show ?case by (simp add: Cons.IH image_iff ball_conj_distrib sym conj_ac)
qed simp

lemma valid_key_not_blank: "is_valid_spammer_key k \<Longrightarrow> trim k \<noteq> []"
  by (auto simp: is_valid_spammer_key_def normal_label_def to_ascii_uppercase_def SPAMMER_KEY_LABELS_def)

text \<open>AutoBuff accepts a configuration precisely when every rule has a non-blank id and label, a
  non-zero status id and a supported key (in any case and spacing), and no two rules share a status
  id.\<close>

theorem autobuff_validate_iff:
  "autobuff_validate c = Inr () \<longleftrightarrow>
     list_all (\<lambda>r. trim (ar_id r) \<noteq> [] \<and> trim (ar_label r) \<noteq> [] \<and> ar_status_id r \<noteq> 0 \<and>
        is_valid_spammer_key (ar_key r)) (bc_rules c) \<and>
     distinct (map ar_status_id (bc_rules c))"
proof -
  have "is_valid_spammer_key (normal_label k) = is_valid_spammer_key k" for k
    by (simp add: is_valid_spammer_key_def)
  then show ?thesis
    by (auto simp: autobuff_validate_def autobuff_normalized_def autobuff_check_rules_iff
        list_all_iff comp_def dest: valid_key_not_blank)
qed

section \<open>Witnesses\<close>

definition example_rule :: autobuff_rule where
  "example_rule = \<lparr>ar_id = ''agi'', ar_label = ''AGI'', ar_status_id = 3, ar_key = ''F1'',
     ar_cooldown_ms = 100, ar_priority = 0, ar_enabled = True\<rparr>"

definition example_autobuff :: autobuff_engine where
  "example_autobuff =
     autobuff_new (example_memory [100, 100, 0, 7]) example_port
       \<lparr>bc_enabled = True, bc_delay_ms = 300, bc_rules = [example_rule]\<rparr> default_profile"

lemma example_rule_clamped:
  "autobuff_clamped \<lparr>bc_enabled = True, bc_delay_ms = 300, bc_rules = [example_rule]\<rparr>
     = \<lparr>bc_enabled = True, bc_delay_ms = 300, bc_rules = [example_rule]\<rparr>"
  by (rule autobuff_cfg.within_fixed)
    (simp add: autobuff_within_def example_rule_def label_normal SPAMMER_KEY_LABELS_def)

lemmas example_autobuff_simps =
  example_autobuff_def autobuff_new_def example_rule_clamped example_memory_def example_port_def
  active_statuses_def autobuff_queue_def sort_by_key_def rule_present_def rule_cooling_down_def
  rule_blocked_def press_key_def STATUS_SLOTS_def OVERTHRUST_def QUAGMIRE_def

definition example_state :: "string list \<Rightarrow> (string \<rightharpoonup> nat) \<Rightarrow> autobuff_engine" where
  "example_state keys used =
     example_autobuff\<lparr>ab_input := example_port\<lparr>kp_log := keys\<rparr>, ab_last_used := used\<rparr>"

lemma example_state_start: "example_autobuff = example_state [] Map.empty"
  by (simp add: example_state_def example_autobuff_def autobuff_new_def example_port_def)

lemma example_queue: "autobuff_queue (ab_config (example_state keys used)) = [example_rule]"
  by (simp add: example_state_def example_autobuff_def autobuff_new_def example_rule_clamped
      autobuff_queue_def sort_by_key_def) (simp add: example_rule_def)

lemma example_eligible:
  "rule_eligible now (active_statuses [100, 100, 0, 7]) used example_rule
     \<longleftrightarrow> \<not> rule_cooling_down used now example_rule"
  by (simp add: rule_eligible_def active_statuses_def rule_present_def rule_blocked_def
      QUAGMIRE_def OVERTHRUST_def) (simp add: example_rule_def)

lemma example_reads:
  "read_u32_slice (ab_memory (example_state keys used)) a n = Inr (take n [100, 100, 0, 7])"
  by (simp add: example_state_def example_autobuff_def autobuff_new_def example_memory_def)

lemma example_pressed:
  "pressed_rule now (example_state keys used) =
     (if rule_cooling_down used now example_rule then None else Some example_rule)"
  by (simp add: pressed_rule_def example_reads example_queue example_eligible STATUS_SLOTS_def press_key_def)
    (simp add: example_state_def example_port_def)

lemma example_tick:
  "snd (autobuff_tick now (example_state keys used)) =
     (if rule_cooling_down used now example_rule then example_state keys used
      else example_state (keys @ [''F1'']) (used(''agi'' \<mapsto> now)))"
  by (simp add: autobuff_tick_def autobuff_try_find example_reads example_queue example_eligible
      STATUS_SLOTS_def press_key_def)
    (simp add: example_state_def example_port_def example_rule_def)

lemma example_history:
  "autobuff_history example_autobuff [BuffTick 0, BuffTick 50000000, BuffTick 200000000]
     = [(0, example_rule), (200000000, example_rule)]"
  by (simp add: example_state_start example_pressed example_tick)
    (simp add: rule_cooling_down_def example_rule_def)

end
