(* ===== verification/Presence.thy ===== *)
theory Presence
  imports Domain
begin

text \<open>
  Discord presence data (\<open>presence.rs\<close>): memory profiles derived from layout families or explicit
  addresses, and the character snapshot read through them.  \<open>serde_json\<close> is the parameter
  \<open>from_str\<close>; the sampling instant is an argument.
\<close>

section \<open>Profiles\<close>

definition MAX_TEXT_LEN :: nat where "MAX_TEXT_LEN = 40"
definition MAX_LEVEL :: u32 where "MAX_LEVEL = 300"
definition MODULE_BASE :: u32 where "MODULE_BASE = 0x00400000"
definition RATHENA_NAME_FROM_HP :: u32 where "RATHENA_NAME_FROM_HP = 0x27C8"
definition INFINITY_NAME_MINUS_HP :: u32 where "INFINITY_NAME_MINUS_HP = 0x2A4C"

record presence_memory_profile =
  pm_id :: string
  pm_exe_names :: "string list"
  pm_executable_sha256 :: string
  pm_pe_build_timestamp :: string
  pm_image_size :: u64
  pm_module_base :: u32
  pm_name_address :: u32
  pm_level_address :: u32
  pm_job_level_address :: u32
  pm_map_address :: u32

record presence_layout_family =
  lf_id :: string
  lf_name_minus_hp :: "u32 option"
  lf_name_minus_level :: u32
  lf_name_minus_job :: u32
  lf_name_minus_map :: u32

definition RATHENA_2018_FAMILY :: presence_layout_family where
  "RATHENA_2018_FAMILY =
     \<lparr>lf_id = ''derived-rathena-2018'', lf_name_minus_hp = Some RATHENA_NAME_FROM_HP,
      lf_name_minus_level = 0x61D8, lf_name_minus_job = 0x61D0, lf_name_minus_map = 0x706C\<rparr>"

definition SAKURA_2025_FAMILY :: presence_layout_family where
  "SAKURA_2025_FAMILY =
     \<lparr>lf_id = ''derived-sakura-2025'', lf_name_minus_hp = None,
      lf_name_minus_level = 0x6B78, lf_name_minus_job = 0x6B70, lf_name_minus_map = 0x6BBC\<rparr>"

definition LAYOUT_FAMILIES :: "presence_layout_family list" where
  "LAYOUT_FAMILIES = [RATHENA_2018_FAMILY, SAKURA_2025_FAMILY]"

definition family_apply :: "presence_layout_family \<Rightarrow> u32 \<Rightarrow> presence_memory_profile option" where
  "family_apply f name_address =
     (case checked_sub name_address (lf_name_minus_level f) of None \<Rightarrow> None | Some level \<Rightarrow>
      case checked_sub name_address (lf_name_minus_job f) of None \<Rightarrow> None | Some job \<Rightarrow>
      case checked_sub name_address (lf_name_minus_map f) of None \<Rightarrow> None | Some mp \<Rightarrow>
      Some \<lparr>pm_id = lf_id f, pm_exe_names = [], pm_executable_sha256 = [],
            pm_pe_build_timestamp = [], pm_image_size = 0, pm_module_base = MODULE_BASE,
            pm_name_address = name_address, pm_level_address = level,
            pm_job_level_address = job, pm_map_address = mp\<rparr>)"

definition presence_matches_exe :: "presence_memory_profile \<Rightarrow> string \<Rightarrow> bool" where
  "presence_matches_exe p exe_name =
     (let exe_lower = to_ascii_lowercase exe_name
      in list_ex (\<lambda>pattern.
           let pat = to_ascii_lowercase pattern
           in if CHR ''*'' \<in> set pat then presence_glob_match pat exe_lower else pat = exe_lower)
         (pm_exe_names p))"

record presence_profile_json =
  pp_id :: string
  pp_exe_names :: "string list"
  pp_executable_sha256 :: string
  pp_pe_build_timestamp :: string
  pp_image_size :: u64
  pp_module_base :: string
  pp_name_address :: string
  pp_level_address :: string
  pp_job_level_address :: string
  pp_map_address :: string

definition presence_profile_of_entry ::
  "presence_profile_json \<Rightarrow> (string, presence_memory_profile) result" where
  "presence_profile_of_entry entry =
     and_then (parse_hex (pp_module_base entry)) (\<lambda>base.
     and_then (parse_hex (pp_name_address entry)) (\<lambda>name.
     and_then (parse_hex (pp_level_address entry)) (\<lambda>level.
     and_then (parse_hex (pp_job_level_address entry)) (\<lambda>job.
     and_then (parse_hex (pp_map_address entry)) (\<lambda>mp.
       Inr \<lparr>pm_id = pp_id entry, pm_exe_names = pp_exe_names entry,
            pm_executable_sha256 = pp_executable_sha256 entry,
            pm_pe_build_timestamp = pp_pe_build_timestamp entry,
            pm_image_size = pp_image_size entry, pm_module_base = base, pm_name_address = name,
            pm_level_address = level, pm_job_level_address = job, pm_map_address = mp\<rparr>)))))"

definition parse_presence_profiles_json ::
  "(string \<Rightarrow> (string, presence_profile_json list) result) \<Rightarrow> string
     \<Rightarrow> (string, presence_memory_profile list) result" where
  "parse_presence_profiles_json from_str raw =
     and_then (map_err (\<lambda>e. ''presence_profiles.json: '' @ e) (from_str raw))
       (collect_results presence_profile_of_entry)"

definition derive_presence_profiles ::
  "u32 option \<Rightarrow> u32 option \<Rightarrow> presence_memory_profile list" where
  "derive_presence_profiles name hp_base =
     (case name of
        None \<Rightarrow> []
      | Some name_address \<Rightarrow>
          (case hp_base of
             Some hp \<Rightarrow>
               (case checked_sub name_address hp of
                  None \<Rightarrow> []
                | Some delta \<Rightarrow>
                    if delta = INFINITY_NAME_MINUS_HP then []
                    else (case Option.bind (find (\<lambda>f. lf_name_minus_hp f = Some delta) LAYOUT_FAMILIES)
                                 (\<lambda>f. family_apply f name_address) of
                            None \<Rightarrow> [] | Some p \<Rightarrow> [p]))
           | None \<Rightarrow> List.map_filter (\<lambda>f. family_apply f name_address) LAYOUT_FAMILIES))"

definition derive_presence_profile ::
  "u32 option \<Rightarrow> u32 option \<Rightarrow> presence_memory_profile option" where
  "derive_presence_profile name hp_base =
     (case derive_presence_profiles name hp_base of [p] \<Rightarrow> Some p | _ \<Rightarrow> None)"

record presence_address_overrides =
  ov_name :: "u32 option"
  ov_hp :: "u32 option"
  ov_level :: "u32 option"
  ov_job :: "u32 option"
  ov_map :: "u32 option"

definition explicit_presence_profile ::
  "presence_address_overrides \<Rightarrow> presence_memory_profile option" where
  "explicit_presence_profile ov =
     (case ov_name ov of None \<Rightarrow> None | Some name_address \<Rightarrow>
      case ov_level ov of None \<Rightarrow> None | Some level_address \<Rightarrow>
      case ov_map ov of None \<Rightarrow> None | Some map_address \<Rightarrow>
      Some \<lparr>pm_id = ''scanned'', pm_exe_names = [], pm_executable_sha256 = [],
            pm_pe_build_timestamp = [], pm_image_size = 0, pm_module_base = MODULE_BASE,
            pm_name_address = name_address, pm_level_address = level_address,
            pm_job_level_address =
              (case ov_job ov of Some j \<Rightarrow> j | None \<Rightarrow> saturating_add level_address 8),
            pm_map_address = map_address\<rparr>)"

definition resolve_presence_memory_profiles ::
  "presence_memory_profile option \<Rightarrow> presence_address_overrides
     \<Rightarrow> presence_memory_profile option \<times> presence_memory_profile list" where
  "resolve_presence_memory_profiles hash_profile ov =
     (case hash_profile of
        Some profile \<Rightarrow> (Some profile, [])
      | None \<Rightarrow>
          (case explicit_presence_profile ov of
             Some profile \<Rightarrow> (None, [profile])
           | None \<Rightarrow> (None, derive_presence_profiles (ov_name ov) (ov_hp ov))))"

section \<open>Text and levels\<close>

definition valid_level :: "u32 \<Rightarrow> u32 option" where
  "valid_level value = (if 1 \<le> value \<and> value \<le> MAX_LEVEL then Some value else None)"

definition sanitize_text :: "string \<Rightarrow> string option" where
  "sanitize_text value =
     (let v = trim (take MAX_TEXT_LEN (filter (\<lambda>c. \<not> is_control c) value))
      in if v = [] then None else Some v)"

definition is_map_char :: "char \<Rightarrow> bool" where
  "is_map_char c \<longleftrightarrow> is_ascii_alphanumeric c \<or> c \<in> set ''_@-''"

definition normalize_map_name :: "string \<Rightarrow> string option" where
  "normalize_map_name value =
     (case sanitize_text value of
        None \<Rightarrow> None
      | Some s \<Rightarrow>
          let v = to_ascii_lowercase s;
              m = (case strip_suffix ''.rsw'' v of
                     Some t \<Rightarrow> t
                   | None \<Rightarrow> (case strip_suffix ''.gat'' v of Some t \<Rightarrow> t | None \<Rightarrow> v))
          in if m = [] \<or> \<not> list_all is_map_char m then None else Some m)"

definition map_scan_needles :: "string \<Rightarrow> string list option" where
  "map_scan_needles raw =
     (case normalize_map_name raw of
        None \<Rightarrow> None
      | Some name \<Rightarrow> Some [name @ [CHR 0x00], name @ ''.rsw'' @ [CHR 0x00]])"

definition map_label_matches :: "string \<Rightarrow> string \<Rightarrow> bool" where
  "map_label_matches raw expected \<longleftrightarrow> normalize_map_name raw = Some expected"

section \<open>Snapshots\<close>

datatype character_state = Unknown | InGame

record character_snapshot =
  cs_character_name :: "string option"
  cs_level :: "u32 option"
  cs_job_level :: "u32 option"
  cs_map_name :: "string option"
  cs_state :: character_state
  cs_sampled_at :: nat

text \<open>One guarded read: the field, whether the read succeeded, and the last error.\<close>

definition sample_field ::
  "(tools_error, 'a) result \<Rightarrow> ('a \<Rightarrow> 'b option) \<Rightarrow> nat \<times> tools_error option
     \<Rightarrow> 'b option \<times> nat \<times> tools_error option" where
  "sample_field r f acc =
     (case acc of (successful_reads, last_error) \<Rightarrow>
       (case r of
          Inr value \<Rightarrow> (f value, Suc successful_reads, last_error)
        | Inl err \<Rightarrow> (None, successful_reads, Some err)))"

definition read_character_snapshot ::
  "memory_reader \<Rightarrow> presence_memory_profile \<Rightarrow> nat \<Rightarrow> (tools_error, character_snapshot) result" where
  "read_character_snapshot reader profile now =
     (case sample_field (read_string reader (pm_name_address profile) MAX_TEXT_LEN) sanitize_text (0, None)
        of (character_name, acc1) \<Rightarrow>
      case sample_field (read_u32 reader (pm_level_address profile)) valid_level acc1
        of (level, acc2) \<Rightarrow>
      case sample_field (read_u32 reader (pm_job_level_address profile)) valid_level acc2
        of (job_level, acc3) \<Rightarrow>
      case sample_field (read_string reader (pm_map_address profile) MAX_TEXT_LEN) normalize_map_name acc3
        of (map_name, successful_reads, last_error) \<Rightarrow>
      if successful_reads = 0
      then Inl (case last_error of
                  Some e \<Rightarrow> e
                | None \<Rightarrow> Other (''no se pudo leer ning'' @ [CHR 0xFA] @ ''n campo del personaje''))
      else Inr \<lparr>cs_character_name = character_name, cs_level = level, cs_job_level = job_level,
                cs_map_name = map_name,
                cs_state = (if character_name \<noteq> None \<and> level \<noteq> None \<and> map_name \<noteq> None
                            then InGame else Unknown),
                cs_sampled_at = now\<rparr>)"

section \<open>Facts about text\<close>

lemma set_trim: "set (trim s) \<subseteq> set s"
  unfolding trim_def trim_start_def trim_end_def by (auto dest!: set_dropWhileD)

lemma length_trim: "length (trim s) \<le> length s"
  unfolding trim_def trim_start_def trim_end_def
  by (metis length_dropWhile_le length_rev order_trans)

lemma sanitize_textD:
  assumes "sanitize_text s = Some t"
  shows "t \<noteq> []" "length t \<le> 40" "\<forall>c \<in> set t. \<not> is_control c" "trim t = t" "set t \<subseteq> set s"
proof -
  let ?u = "take MAX_TEXT_LEN (filter (\<lambda>c. \<not> is_control c) s)"
  from assms have t: "t = trim ?u" "t \<noteq> []" by (auto simp: sanitize_text_def Let_def split: if_splits)
  show "t \<noteq> []" "trim t = t" using t by auto
  show "length t \<le> 40" using length_trim [of ?u] t by (simp add: MAX_TEXT_LEN_def)
  have "set ?u \<subseteq> {c \<in> set s. \<not> is_control c}" by (auto dest: in_set_takeD)
  with set_trim [of ?u] t show "\<forall>c \<in> set t. \<not> is_control c" "set t \<subseteq> set s" by auto
qed

lemma map_char_clean: "is_map_char c \<Longrightarrow> \<not> is_control c \<and> \<not> is_whitespace c \<and> c \<noteq> CHR ''.''"
  by (auto simp: is_map_char_def is_ascii_alphanumeric_def is_control_def is_whitespace_def Let_def)

lemma sanitize_clean:
  assumes "list_all (\<lambda>c. \<not> is_control c \<and> \<not> is_whitespace c) m" "m \<noteq> []" "length m \<le> 40"
  shows "sanitize_text m = Some m"
proof -
  have "filter (\<lambda>c. \<not> is_control c) m = m" using assms by (auto simp: list_all_iff filter_id_conv)
  moreover have "trim m = m" using assms by (intro trim_id) (auto simp: list_all_iff)
  ultimately show ?thesis using assms by (simp add: sanitize_text_def Let_def MAX_TEXT_LEN_def)
qed

lemma strip_suffixD: "strip_suffix p s = Some t \<Longrightarrow> s = t @ p"
  by (auto simp: strip_suffix_def suffix_def split: if_splits)

lemma strip_suffix_append [simp]: "strip_suffix p (t @ p) = Some t"
  by (simp add: strip_suffix_def suffix_def)

lemma normalize_map_nameD:
  assumes "normalize_map_name s = Some m"
  shows "m \<noteq> []" "list_all is_map_char m" "to_ascii_lowercase m = m" "length m \<le> 40"
proof -
  from assms obtain t where t: "sanitize_text s = Some t" and m: "m \<noteq> []" "list_all is_map_char m"
    and "\<exists>q. to_ascii_lowercase t = m @ q"
    by (auto simp: normalize_map_name_def Let_def split: option.splits if_splits dest!: strip_suffixD)
  then obtain q where q: "to_ascii_lowercase t = m @ q" by blast
  show "m \<noteq> []" "list_all is_map_char m" by fact+
  have "to_ascii_lowercase (m @ q) = m @ q" using q by (metis lowercase_idem)
  then show "to_ascii_lowercase m = m" by (simp add: to_ascii_lowercase_def)
  have "length (m @ q) = length t" using arg_cong [OF q, of length] by (simp add: to_ascii_lowercase_def)
  then show "length m \<le> 40" using sanitize_textD(2) [OF t] by simp
qed

lemma no_dot_no_suffix: "CHR ''.'' \<notin> set m \<Longrightarrow> CHR ''.'' \<in> set p \<Longrightarrow> strip_suffix p m = None"
  by (auto simp: strip_suffix_def suffix_def split: if_splits)

lemma normalize_map_clean:
  assumes "m \<noteq> []" "list_all is_map_char m" "to_ascii_lowercase m = m" "length m \<le> 40"
  shows "normalize_map_name m = Some m"
proof -
  have "sanitize_text m = Some m"
    using assms map_char_clean by (intro sanitize_clean) (auto simp: list_all_iff)
  moreover have "CHR ''.'' \<notin> set m" using assms map_char_clean by (auto simp: list_all_iff)
  ultimately show ?thesis
    using assms by (simp add: normalize_map_name_def no_dot_no_suffix)
qed

lemma normalize_map_rsw:
  assumes "m \<noteq> []" "list_all is_map_char m" "to_ascii_lowercase m = m" "length m \<le> 36"
  shows "normalize_map_name (m @ ''.rsw'') = Some m"
proof -
  have "sanitize_text (m @ ''.rsw'') = Some (m @ ''.rsw'')"
    using assms map_char_clean
    by (intro sanitize_clean) (auto simp: list_all_iff is_control_def is_whitespace_def)
  moreover have "to_ascii_lowercase (m @ ''.rsw'') = m @ ''.rsw''"
    using assms(3) by (simp add: to_ascii_lowercase_def ascii_lower_def)
  ultimately show ?thesis using assms by (simp add: normalize_map_name_def)
qed

section \<open>Properties\<close>

text \<open>Reading a character snapshot fails precisely when all four reads fail.  Otherwise every
  published field is clean: the name is trimmed, free of control characters and at most 40
  characters, the levels are between 1 and 300, the map name is a non-empty lower-case map label;
  and the state is in-game precisely when name, level and map are all published.\<close>

theorem presence_snapshot_clean:
  "case read_character_snapshot reader profile now of
     Inl _ \<Rightarrow>
       \<not> is_ok (read_string reader (pm_name_address profile) 40) \<and>
       \<not> is_ok (read_u32 reader (pm_level_address profile)) \<and>
       \<not> is_ok (read_u32 reader (pm_job_level_address profile)) \<and>
       \<not> is_ok (read_string reader (pm_map_address profile) 40)
   | Inr s \<Rightarrow>
       pred_option (\<lambda>n. n \<noteq> [] \<and> trim n = n \<and> length n \<le> 40 \<and> (\<forall>c \<in> set n. \<not> is_control c))
         (cs_character_name s) \<and>
       pred_option (\<lambda>l. 1 \<le> l \<and> l \<le> 300) (cs_level s) \<and>
       pred_option (\<lambda>l. 1 \<le> l \<and> l \<le> 300) (cs_job_level s) \<and>
       pred_option (\<lambda>m. m \<noteq> [] \<and> list_all is_map_char m \<and> to_ascii_lowercase m = m) (cs_map_name s) \<and>
       (cs_state s = InGame \<longleftrightarrow>
          cs_character_name s \<noteq> None \<and> cs_level s \<noteq> None \<and> cs_map_name s \<noteq> None)"
proof -
  have level: "pred_option (\<lambda>l. 1 \<le> l \<and> l \<le> 300) (valid_level v)" for v
    by (simp add: valid_level_def MAX_LEVEL_def)
  have name: "pred_option (\<lambda>n. n \<noteq> [] \<and> trim n = n \<and> length n \<le> 40 \<and> (\<forall>c \<in> set n. \<not> is_control c))
      (sanitize_text v)" for v
    using sanitize_textD [of v] by (cases "sanitize_text v") auto
  have mp: "pred_option (\<lambda>m. m \<noteq> [] \<and> list_all is_map_char m \<and> to_ascii_lowercase m = m)
      (normalize_map_name v)" for v
    using normalize_map_nameD [of v] by (cases "normalize_map_name v") auto
  show ?thesis
    using level name mp
    by (auto simp: read_character_snapshot_def sample_field_def is_ok_def MAX_TEXT_LEN_def
        split: sum.splits if_splits)
qed

text \<open>Map names have one normal form: a normalised name normalises to itself, both plain and with
  the \<open>.rsw\<close> suffix (for names of at most 36 characters), so every needle of a map scan, read
  back without its terminator, matches the scanned map.\<close>

theorem map_needles_match:
  assumes "normalize_map_name raw = Some m" and "length m \<le> 36"
    and "map_scan_needles raw = Some needles"
  shows "normalize_map_name m = Some m \<and> needles \<noteq> [] \<and>
     list_all (\<lambda>n. last n = CHR 0x00 \<and> map_label_matches (butlast n) m) needles"
proof -
  note clean = normalize_map_nameD [OF assms(1)]
  from assms(1,3) have needles: "needles = [m @ [CHR 0x00], (m @ ''.rsw'') @ [CHR 0x00]]"
    by (simp add: map_scan_needles_def)
  have "normalize_map_name m = Some m" using clean by (rule normalize_map_clean)
  moreover have "normalize_map_name (m @ ''.rsw'') = Some m"
    using clean(1-3) assms(2) by (rule normalize_map_rsw)
  ultimately show ?thesis by (simp only: needles map_label_matches_def list.pred_inject butlast_snoc last_snoc) simp
qed

lemma checked_sub_Some: "checked_sub a b = Some c \<longleftrightarrow> b \<le> a \<and> c = a - b"
  by (auto simp: checked_sub_def)

text \<open>A name address with a known HP base publishes a derived profile only for the confirmed
  fingerprint: the distance is the rAthena one, exactly one profile comes out, and its level, job and
  map addresses lie at the confirmed offsets below the name without wrapping around; the Infinity
  layout in particular derives nothing.\<close>

theorem derived_profile_fingerprint:
  assumes "p \<in> set (derive_presence_profiles (Some name) (Some hp))"
  shows "derive_presence_profiles (Some name) (Some hp) = [p] \<and> hp \<le> name \<and> name - hp = 0x27C8 \<and>
     pm_name_address p = name \<and> unat (pm_level_address p) + 0x61D8 = unat name \<and>
     unat (pm_job_level_address p) + 0x61D0 = unat name \<and> unat (pm_map_address p) + 0x706C = unat name"
proof -
  from assms obtain delta where delta: "checked_sub name hp = Some delta"
    by (auto simp: derive_presence_profiles_def split: option.splits)
  have found: "find (\<lambda>f. lf_name_minus_hp f = Some d) LAYOUT_FAMILIES
      = (if d = 0x27C8 then Some RATHENA_2018_FAMILY else None)" for d
    by (simp add: LAYOUT_FAMILIES_def RATHENA_2018_FAMILY_def SAKURA_2025_FAMILY_def
        RATHENA_NAME_FROM_HP_def)
  from assms delta have d: "delta = 0x27C8"
    by (auto simp: derive_presence_profiles_def found split: if_splits)
  have derived: "derive_presence_profiles (Some name) (Some hp) =
      (case family_apply RATHENA_2018_FAMILY name of None \<Rightarrow> [] | Some q \<Rightarrow> [q])"
    using delta d by (simp add: derive_presence_profiles_def found INFINITY_NAME_MINUS_HP_def)
  with assms obtain p' where p': "family_apply RATHENA_2018_FAMILY name = Some p'"
    by (cases "family_apply RATHENA_2018_FAMILY name") auto
  with derived have all: "derive_presence_profiles (Some name) (Some hp) = [p']" by simp
  from delta d have hp: "hp \<le> name" "name - hp = 0x27C8" by (auto simp: checked_sub_Some)
  from all assms have "p = p'" by simp
  moreover have sub: "unat (name - d) + unat d = unat name" if "d \<le> name" for d
    using that by (simp add: unat_sub word_le_nat_alt)
  ultimately show ?thesis
    using p' hp all sub [of "0x61D8"] sub [of "0x61D0"] sub [of "0x706C"]
    by (auto simp: family_apply_def RATHENA_2018_FAMILY_def checked_sub_Some split: option.splits)
qed

end
