(* ===== verification/DgVoodoo.thy ===== *)
theory DgVoodoo
  imports RoPrelude
begin

text \<open>
  The dgVoodoo configuration rules embedded in the launcher (\<open>dgvoodoo.rs\<close>).  The four messages
  pushed to the issue list are the constructors of \<open>conf_issue\<close>.
\<close>

section \<open>The source's functions\<close>

definition TEMPLATE_FILES :: "string list" where
  "TEMPLATE_FILES = [''D3DImm.dll'', ''DDraw.dll'', ''dgVoodoo.conf'', ''dgVoodooCpl.exe'']"

definition REQUIRED_FILES :: "string list" where
  "REQUIRED_FILES = [''D3DImm.dll'', ''DDraw.dll'', ''dgVoodoo.conf'']"

datatype conf_issue = MissingVersion | OutputApiNotConfigured | OutputApiUndefined | PassThruActive

fun conf_value_anywhere_loop :: "string list \<Rightarrow> string \<Rightarrow> string option" where
  "conf_value_anywhere_loop [] key = None"
| "conf_value_anywhere_loop (l # ls) key =
     (let line = trim l
      in if line = [] \<or> prefix '';'' line \<or> prefix ''['' line then conf_value_anywhere_loop ls key
         else (case split_once (CHR ''='') line of
                 None \<Rightarrow> conf_value_anywhere_loop ls key
               | Some (k, v) \<Rightarrow>
                   if eq_ignore_ascii_case (trim k) key then Some (trim v)
                   else conf_value_anywhere_loop ls key))"

definition conf_value_anywhere :: "string \<Rightarrow> string \<Rightarrow> string option" where
  "conf_value_anywhere content key = conf_value_anywhere_loop (lines content) key"

fun conf_value_loop :: "bool \<Rightarrow> string list \<Rightarrow> string \<Rightarrow> string \<Rightarrow> string option" where
  "conf_value_loop in_section [] sect key = None"
| "conf_value_loop in_section (l # ls) sect key =
     (let line = trim l
      in if line = [] \<or> prefix '';'' line then conf_value_loop in_section ls sect key
         else if prefix ''['' line \<and> suffix '']'' line then
           conf_value_loop (eq_ignore_ascii_case (take (length line - 2) (drop 1 line)) sect) ls sect key
         else if in_section then
           (case split_once (CHR ''='') line of
              None \<Rightarrow> conf_value_loop in_section ls sect key
            | Some (k, v) \<Rightarrow>
                if eq_ignore_ascii_case (trim k) key then Some (trim v)
                else conf_value_loop in_section ls sect key)
         else conf_value_loop in_section ls sect key)"

definition conf_value :: "string \<Rightarrow> string \<Rightarrow> string \<Rightarrow> string option" where
  "conf_value content sect key = conf_value_loop False (lines content) sect key"

definition validate_conf :: "string \<Rightarrow> conf_issue list \<Rightarrow> conf_issue list" where
  "validate_conf content issues =
     (let i1 = (if conf_value_anywhere content ''Version'' = None then issues @ [MissingVersion] else issues);
          i2 = (case conf_value content ''General'' ''OutputAPI'' of
                  Some output_api \<Rightarrow>
                    (let api = to_ascii_lowercase output_api
                     in if api = [] \<or> api = ''disabled'' then i1 @ [OutputApiNotConfigured] else i1)
                | None \<Rightarrow> i1 @ [OutputApiUndefined])
      in (case conf_value content ''DirectX'' ''DisableAndPassThru'' of
            Some pass_through \<Rightarrow>
              if eq_ignore_ascii_case pass_through ''true'' then i2 @ [PassThruActive] else i2
          | None \<Rightarrow> i2))"

section \<open>The file as a list of entries\<close>

text \<open>A reference reading: the whole file parsed into (section, key, value) entries, in order.\<close>

fun conf_entries :: "string option \<Rightarrow> string list \<Rightarrow> (string option \<times> string \<times> string) list" where
  "conf_entries sect [] = []"
| "conf_entries sect (l # ls) =
     (let line = trim l
      in if line = [] \<or> prefix '';'' line then conf_entries sect ls
         else if prefix ''['' line \<and> suffix '']'' line
           then conf_entries (Some (take (length line - 2) (drop 1 line))) ls
         else (case split_once (CHR ''='') line of
                 None \<Rightarrow> conf_entries sect ls
               | Some (k, v) \<Rightarrow> (sect, trim k, trim v) # conf_entries sect ls))"

definition under :: "string \<Rightarrow> string option \<Rightarrow> bool" where
  "under sect cur \<longleftrightarrow> (case cur of None \<Rightarrow> False | Some s \<Rightarrow> eq_ignore_ascii_case s sect)"

definition entry_named :: "string \<Rightarrow> string \<Rightarrow> string option \<times> string \<times> string \<Rightarrow> bool" where
  "entry_named sect key en \<longleftrightarrow>
     (case en of (s, k, v) \<Rightarrow> under sect s \<and> eq_ignore_ascii_case k key)"

lemma under_simps [simp]: "\<not> under sect None" "under sect (Some s) = eq_ignore_ascii_case s sect"
  by (simp_all add: under_def)

lemma entry_named_simp [simp]:
  "entry_named sect key (s, k, v) \<longleftrightarrow> under sect s \<and> eq_ignore_ascii_case k key"
  by (simp add: entry_named_def)

lemma conf_value_loop_entries:
  "conf_value_loop (under sect cur) ls sect key =
     map_option (\<lambda>en. snd (snd en)) (find (entry_named sect key) (conf_entries cur ls))"
proof (induction ls arbitrary: cur)
  case (Cons l ls)
  have header: "conf_value_loop (eq_ignore_ascii_case s sect) ls sect key =
      map_option (\<lambda>en. snd (snd en)) (find (entry_named sect key) (conf_entries (Some s) ls))" for s
    using Cons.IH [of "Some s"] by simp
  show ?case
  proof (cases "split_once (CHR ''='') (trim l)")
    case None
    with Cons.IH [of cur] header show ?thesis
      by (cases "under sect cur") (simp_all add: Let_def)
  next
    case (Some kv)
    obtain k v where "kv = (k, v)" by fastforce
    with Some Cons.IH [of cur] header show ?thesis
      by (cases "under sect cur") (simp_all add: Let_def)
  qed
qed simp

section \<open>Properties\<close>

text \<open>Looking a setting up in a section returns the value of the first entry of the parsed file that
  lies under that section header and has that key, both compared without regard to ASCII case.\<close>

theorem conf_value_first_entry:
  "conf_value content sect key =
     map_option (\<lambda>en. snd (snd en)) (find (entry_named sect key) (conf_entries None (lines content)))"
  using conf_value_loop_entries [of sect None] by (simp add: conf_value_def)

text \<open>A dgVoodoo configuration raises no issue precisely when it has a version entry, its
  \<open>OutputAPI\<close> in the general section is set to something other than disabled, and pass-through is
  not switched on in the DirectX section; issues already found are kept.\<close>

theorem validate_conf_accepts:
  "(\<exists>new. validate_conf content issues = issues @ new) \<and>
   (validate_conf content issues = issues \<longleftrightarrow>
      conf_value_anywhere content ''Version'' \<noteq> None \<and>
      (\<exists>api. conf_value content ''General'' ''OutputAPI'' = Some api \<and> api \<noteq> [] \<and>
         \<not> eq_ignore_ascii_case api ''disabled'') \<and>
      (\<nexists>v. conf_value content ''DirectX'' ''DisableAndPassThru'' = Some v \<and>
         eq_ignore_ascii_case v ''true''))"
proof -
  have "to_ascii_lowercase ''disabled'' = ''disabled''" by code_simp
  then have "to_ascii_lowercase api = ''disabled'' \<longleftrightarrow> eq_ignore_ascii_case api ''disabled''" for api
    by (simp add: eq_ignore_ascii_case_def)
  moreover have "to_ascii_lowercase api = [] \<longleftrightarrow> api = []" for api
    by (simp add: to_ascii_lowercase_def)
  ultimately show ?thesis
    by (simp add: validate_conf_def Let_def split: option.splits)
qed

end
