(* ===== verification/SessionProtocol.thy ===== *)
theory SessionProtocol
  imports RoPrelude
begin

text \<open>
  The protocol shared by the launcher and \<open>ro-sessiond\<close> (\<open>ro-session-protocol/src/lib.rs\<close>) and the
  launch checks of the sidecar (\<open>ro-sessiond/src/process.rs\<close>): messages, structural validation of a
  process specification, canonical prefix paths and the environment merge.

  A \<open>Path\<close> is the list of its components, which is what Rust compares.  The file system is a
  record of answers to the system calls the code makes; nothing is assumed about them.
\<close>

section \<open>Paths and the file system\<close>

datatype path_component = RootDir | CurDir | ParentDir | Normal string

type_synonym path = "path_component list"

fun component_of :: "string \<Rightarrow> path_component" where
  "component_of s = (if s = ''..'' then ParentDir else Normal s)"

text \<open>\<open>Path::components\<close>: repeated separators and inner \<open>.\<close> components disappear.\<close>

definition path_of :: "string \<Rightarrow> path" where
  "path_of s =
     (let parts = split_on (CHR 47) s;
          names = map component_of (filter (\<lambda>c. c \<noteq> [] \<and> c \<noteq> ''.'') parts)
      in if prefix [CHR 47] s then RootDir # names
         else if hd parts = ''.'' then CurDir # names else names)"

definition is_absolute :: "path \<Rightarrow> bool" where
  "is_absolute p \<longleftrightarrow> (case p of RootDir # _ \<Rightarrow> True | _ \<Rightarrow> False)"

text \<open>\<open>Path::parent\<close>.\<close>

definition parent_dir :: "path \<Rightarrow> path option" where
  "parent_dir p = (if p = [] \<or> last p = RootDir then None else Some (butlast p))"

text \<open>\<open>Path::display\<close> of a path built from components.\<close>

fun component_text :: "path_component \<Rightarrow> string" where
  "component_text RootDir = []"
| "component_text CurDir = ''.''"
| "component_text ParentDir = ''..''"
| "component_text (Normal name) = name"

definition path_display :: "path \<Rightarrow> string" where
  "path_display p =
     (if p = [RootDir] then ''/'' else concat_with (CHR 47) (map component_text p))"

datatype io_error_kind = NotFound | OtherIo

record file_meta =
  fm_is_dir :: bool
  fm_is_file :: bool
  fm_mode :: u32

record file_system =
  fs_canonicalize :: "path \<Rightarrow> (io_error_kind, path) result"
  fs_metadata :: "path \<Rightarrow> (string, file_meta) result"
  fs_symlink_metadata_ok :: "path \<Rightarrow> bool"

definition path_is_dir :: "file_system \<Rightarrow> path \<Rightarrow> bool" where
  "path_is_dir fs p = (case fs_metadata fs p of Inl _ \<Rightarrow> False | Inr md \<Rightarrow> fm_is_dir md)"

text \<open>The loop of \<open>canonicalize_prefix_path\<close>: \<open>missing\<close> holds the names below \<open>ancestor\<close>,
  deepest first.\<close>

function canonicalize_loop :: "file_system \<Rightarrow> path \<Rightarrow> string list \<Rightarrow> path option" where
  "canonicalize_loop fs ancestor missing =
     (case fs_canonicalize fs ancestor of
        Inr canonical \<Rightarrow>
          if \<not> path_is_dir fs canonical then None else Some (canonical @ map Normal (rev missing))
      | Inl NotFound \<Rightarrow>
          if fs_symlink_metadata_ok fs ancestor then None
          else if ancestor = [] then None
          else (case last ancestor of
                  Normal name \<Rightarrow> canonicalize_loop fs (butlast ancestor) (missing @ [name])
                | _ \<Rightarrow> None)
      | Inl OtherIo \<Rightarrow> None)"
  by pat_completeness auto
termination
  by (relation "measure (\<lambda>(fs, ancestor, missing). length ancestor)") auto

declare canonicalize_loop.simps [simp del]

definition canonicalize_prefix_path :: "file_system \<Rightarrow> path \<Rightarrow> path option" where
  "canonicalize_prefix_path fs p =
     (if \<not> is_absolute p then None else canonicalize_loop fs p [])"

text \<open>A path of ordinary names is read back from what it displays as.\<close>

definition plain_name :: "string \<Rightarrow> bool" where
  "plain_name name \<longleftrightarrow> name \<noteq> [] \<and> CHR 47 \<notin> set name \<and> name \<noteq> ''.'' \<and> name \<noteq> ''..''"

definition clean_path :: "path \<Rightarrow> bool" where
  "clean_path p \<longleftrightarrow> (\<exists>names. p = RootDir # map Normal names \<and> list_all plain_name names)"

lemma split_on_concat:
  "d \<notin> set p \<Longrightarrow> list_all (\<lambda>q. d \<notin> set q) qs \<Longrightarrow> split_on d (p @ concat (map (\<lambda>q. d # q) qs)) = p # qs"
proof (induction qs arbitrary: p)
  case Nil
  then show ?case by (simp add: split_on_no_sep)
next
  case (Cons q qs)
  have "split_on d (p @ d # r) = p # split_on d r" for r
    using Cons.prems(1) by (induction p) auto
  with Cons show ?case by simp
qed

lemma path_of_display:
  assumes "clean_path p"
  shows "path_of (path_display p) = p"
proof -
  obtain names where p: "p = RootDir # map Normal names" "list_all plain_name names"
    using assms by (auto simp: clean_path_def)
  show ?thesis
  proof (cases names)
    case Nil
    then show ?thesis by (simp add: p path_display_def path_of_def)
  next
    case (Cons n ns)
    have names: "map component_text (map Normal names) = names" by (simp add: comp_def)
    have disp: "path_display p = [] @ concat (map (\<lambda>q. CHR 47 # q) names)"
      using Cons names by (simp add: p path_display_def concat_with_def)
    have parted: "split_on (CHR 47) (path_display p) = [] # names"
      unfolding disp by (rule split_on_concat) (use p(2) in \<open>auto simp: list_all_iff plain_name_def\<close>)
    have "filter (\<lambda>c. c \<noteq> [] \<and> c \<noteq> ''.'') names = names" "map component_of names = map Normal names"
      using p(2) by (auto simp: list_all_iff plain_name_def filter_id_conv)
    moreover have "prefix [CHR 47] (path_display p)" using Cons by (simp add: disp)
    ultimately show ?thesis unfolding path_of_def Let_def parted by (simp add: p(1))
  qed
qed

section \<open>Messages\<close>

definition PROTOCOL_VERSION :: u16 where "PROTOCOL_VERSION = 1"
definition MAX_MESSAGE_BYTES :: nat where "MAX_MESSAGE_BYTES = 1048576"
definition MAX_LAUNCH_ARGS :: nat where "MAX_LAUNCH_ARGS = 4096"
definition MAX_IN_FLIGHT_LAUNCHES :: nat where "MAX_IN_FLIGHT_LAUNCHES = 32"

definition ERROR_STAGES :: "string list" where
  "ERROR_STAGES = [''handshake'', ''validation'', ''launch'', ''reap'', ''shutdown'', ''protocol'', ''internal'']"

record environment_change =
  ec_key :: string
  ec_value :: "string option"

record process_spec =
  ps_program :: string
  ps_args :: "string list"
  ps_cwd :: string
  ps_env :: "environment_change list"

datatype session_request =
  Hello u16 | Launch string process_spec | Shutdown string process_spec u64

datatype session_event =
    Ready u16 u32 string bool
  | LaunchAccepted string u32 u64
  | ShutdownAccepted string
  | ControllerExited string u32 "int option" "int option"
  | Idle
  | Error "string option" string "int option" string
  | Stopped

section \<open>Validation\<close>

datatype validation_error =
    EmptyEnvKey | InvalidEnvKey | DuplicateEnvKey | EnvValueContainsNul | TooManyArgs
  | MissingWinePrefix | MultipleWinePrefix | WinePrefixUnset

fun validation_message :: "validation_error \<Rightarrow> string" where
  "validation_message EmptyEnvKey = ''env key must not be empty''"
| "validation_message InvalidEnvKey = ''env key must not contain NUL or '' @ [CHR 39] @ ''='' @ [CHR 39]"
| "validation_message DuplicateEnvKey = ''duplicate env keys in ProcessSpec''"
| "validation_message EnvValueContainsNul = ''env value must not contain NUL''"
| "validation_message TooManyArgs = ''too many arguments in ProcessSpec''"
| "validation_message MissingWinePrefix = ''ProcessSpec must include WINEPREFIX''"
| "validation_message MultipleWinePrefix = ''ProcessSpec must include exactly one WINEPREFIX change''"
| "validation_message WinePrefixUnset = ''WINEPREFIX must be set, not unset''"

definition validate_env_key :: "string \<Rightarrow> (validation_error, unit) result" where
  "validate_env_key key =
     (if key = [] then Inl EmptyEnvKey
      else if CHR 0x00 \<in> set key \<or> CHR ''='' \<in> set key then Inl InvalidEnvKey
      else Inr ())"

text \<open>The loop over the changes, with the keys seen and the \<open>WINEPREFIX\<close> count.\<close>

fun validate_changes ::
  "string set \<Rightarrow> nat \<Rightarrow> environment_change list \<Rightarrow> (validation_error, nat) result" where
  "validate_changes keys wineprefix_count [] = Inr wineprefix_count"
| "validate_changes keys wineprefix_count (ch # chs) =
     (case validate_env_key (ec_key ch) of
        Inl e \<Rightarrow> Inl e
      | Inr _ \<Rightarrow>
          if ec_key ch \<in> keys then Inl DuplicateEnvKey
          else if (case ec_value ch of None \<Rightarrow> False | Some v \<Rightarrow> CHR 0x00 \<in> set v)
            then Inl EnvValueContainsNul
          else if ec_key ch = ''WINEPREFIX'' then
            (if ec_value ch = None then Inl WinePrefixUnset
             else validate_changes (insert (ec_key ch) keys) (Suc wineprefix_count) chs)
          else validate_changes (insert (ec_key ch) keys) wineprefix_count chs)"

definition validate_process_spec_structure :: "process_spec \<Rightarrow> (validation_error, unit) result" where
  "validate_process_spec_structure spec =
     (if MAX_LAUNCH_ARGS < length (ps_args spec) then Inl TooManyArgs
      else case validate_changes {} 0 (ps_env spec) of
             Inl e \<Rightarrow> Inl e
           | Inr wineprefix_count \<Rightarrow>
               if wineprefix_count = 0 then Inl MissingWinePrefix
               else if 1 < wineprefix_count then Inl MultipleWinePrefix
               else Inr ())"

definition clamp_grace_ms :: "u64 \<Rightarrow> u64" where
  "clamp_grace_ms grace_ms = clamp 1000 10000 grace_ms"

section \<open>Launch checks of the sidecar\<close>

type_synonym environment = "string \<rightharpoonup> string"

unbundle bit_operations_syntax

definition is_executable :: "file_system \<Rightarrow> path \<Rightarrow> bool" where
  "is_executable fs p =
     (case fs_metadata fs p of
        Inl _ \<Rightarrow> False
      | Inr md \<Rightarrow> fm_is_file md \<and> fm_mode md AND 0x49 \<noteq> 0)"

definition apply_change :: "environment_change \<Rightarrow> environment \<Rightarrow> environment" where
  "apply_change ch env = env(ec_key ch := ec_value ch)"

definition merge_env :: "environment \<Rightarrow> environment_change list \<Rightarrow> environment" where
  "merge_env base_env changes =
     fold apply_change changes (base_env(''WINEPREFIX'' := None, ''STEAM_COMPAT_DATA_PATH'' := None))"

definition validate_spec_for_launch ::
  "file_system \<Rightarrow> process_spec \<Rightarrow> path \<Rightarrow> environment \<Rightarrow> (string, environment) result" where
  "validate_spec_for_launch fs spec owned_prefix base_env =
     (case validate_process_spec_structure spec of
        Inl e \<Rightarrow> Inl (validation_message e)
      | Inr _ \<Rightarrow>
     if \<not> is_absolute (path_of (ps_program spec)) then Inl ''program must be an absolute path''
     else if \<not> is_executable fs (path_of (ps_program spec))
       then Inl (''program is not executable: '' @ ps_program spec)
     else if \<not> is_absolute (path_of (ps_cwd spec)) then Inl ''cwd must be an absolute path''
     else case fs_metadata fs (path_of (ps_cwd spec)) of
        Inl e \<Rightarrow> Inl (''cwd inaccessible: '' @ e)
      | Inr md \<Rightarrow>
     if \<not> fm_is_dir md then Inl ''cwd must be a directory''
     else let env = merge_env base_env (ps_env spec)
     in case env ''WINEPREFIX'' of
        None \<Rightarrow> Inl ''WINEPREFIX missing after merge''
      | Some wineprefix \<Rightarrow>
     case canonicalize_prefix_path fs (path_of wineprefix) of
        None \<Rightarrow> Inl ''WINEPREFIX path could not be canonicalized''
      | Some canon_spec_prefix \<Rightarrow>
     if canon_spec_prefix \<noteq> owned_prefix then Inl ''WINEPREFIX does not match owned prefix''
     else case env ''STEAM_COMPAT_DATA_PATH'' of
        None \<Rightarrow> Inr env
      | Some steam_data \<Rightarrow>
     case canonicalize_prefix_path fs (path_of steam_data) of
        None \<Rightarrow> Inl ''STEAM_COMPAT_DATA_PATH could not be canonicalized''
      | Some canon_steam \<Rightarrow>
     if canon_steam \<noteq> owned_prefix then Inl ''STEAM_COMPAT_DATA_PATH does not match owned prefix''
     else Inr env)"

section \<open>Structure of accepted specifications\<close>

text \<open>What the structural check promises of a list of changes.\<close>

definition change_ok :: "environment_change \<Rightarrow> bool" where
  "change_ok ch \<longleftrightarrow>
     ec_key ch \<noteq> [] \<and> CHR 0x00 \<notin> set (ec_key ch) \<and> CHR ''='' \<notin> set (ec_key ch) \<and>
     (case ec_value ch of None \<Rightarrow> ec_key ch \<noteq> ''WINEPREFIX'' | Some v \<Rightarrow> CHR 0x00 \<notin> set v)"

lemma validate_changes_iff:
  "validate_changes keys n chs = Inr k \<longleftrightarrow>
     (\<forall>ch \<in> set chs. change_ok ch) \<and> distinct (map ec_key chs) \<and> keys \<inter> ec_key ` set chs = {} \<and>
     k = n + length (filter (\<lambda>ch. ec_key ch = ''WINEPREFIX'') chs)"
proof (induction chs arbitrary: keys n)
  case (Cons ch chs)
  have ok: "validate_env_key (ec_key ch) = Inr () \<longleftrightarrow>
      ec_key ch \<noteq> [] \<and> CHR 0x00 \<notin> set (ec_key ch) \<and> CHR ''='' \<notin> set (ec_key ch)"
    by (simp add: validate_env_key_def)
  show ?case
  proof (cases "change_ok ch \<and> ec_key ch \<notin> keys")
    case True
    then have "validate_env_key (ec_key ch) = Inr ()"
      and "\<not> (case ec_value ch of None \<Rightarrow> False | Some v \<Rightarrow> CHR 0x00 \<in> set v)"
      and "ec_key ch = ''WINEPREFIX'' \<Longrightarrow> ec_value ch \<noteq> None"
      by (auto simp: ok change_ok_def split: option.splits)
    with True show ?thesis by (auto simp: Cons.IH)
  next
    case False
    then have "validate_changes keys n (ch # chs) \<noteq> Inr k"
      using ok by (auto simp: change_ok_def split: sum.splits option.splits)
    with False show ?thesis by auto
  qed
qed auto

lemma distinct_key_count:
  "distinct (map f xs) \<Longrightarrow> length (filter (\<lambda>x. f x = k) xs) = (if k \<in> f ` set xs then 1 else 0)"
  by (induction xs) (auto simp: filter_empty_conv image_iff)

lemma fold_apply_change:
  "distinct (map ec_key chs) \<Longrightarrow>
   fold apply_change chs env k =
     (if k \<in> ec_key ` set chs then the (map_of (map (\<lambda>c. (ec_key c, ec_value c)) chs) k) else env k)"
  by (induction chs arbitrary: env) (auto simp: apply_change_def)

section \<open>Canonical prefixes\<close>

text \<open>The deepest existing ancestor, in one equation.\<close>

definition prefix_identity :: "file_system \<Rightarrow> path \<Rightarrow> path \<Rightarrow> string list \<Rightarrow> path \<Rightarrow> bool" where
  "prefix_identity fs p base names canonical \<longleftrightarrow>
     p = base @ map Normal names \<and> fs_canonicalize fs base = Inr canonical \<and> path_is_dir fs canonical \<and>
     (\<forall>i < length names.
        fs_canonicalize fs (base @ map Normal (take (Suc i) names)) = Inl NotFound \<and>
        \<not> fs_symlink_metadata_ok fs (base @ map Normal (take (Suc i) names)))"

lemma canonicalize_loop_sound:
  "canonicalize_loop fs p missing = Some q \<Longrightarrow>
     \<exists>base names canonical. prefix_identity fs p base names canonical \<and>
       q = canonical @ map Normal (names @ rev missing)"
proof (induction fs p missing rule: canonicalize_loop.induct)
  case (1 fs p missing)
  show ?case
  proof (cases "fs_canonicalize fs p")
    case (Inr canonical)
    with "1.prems" have "prefix_identity fs p p [] canonical \<and> q = canonical @ map Normal ([] @ rev missing)"
      by (subst (asm) canonicalize_loop.simps) (auto simp: prefix_identity_def split: if_splits)
    then show ?thesis by blast
  next
    case (Inl e)
    from "1.prems" Inl obtain name where e: "e = NotFound" "\<not> fs_symlink_metadata_ok fs p" "p \<noteq> []"
      "last p = Normal name" and rec: "canonicalize_loop fs (butlast p) (missing @ [name]) = Some q"
      by (subst (asm) canonicalize_loop.simps)
        (auto split: io_error_kind.splits if_splits path_component.splits)
    from "1.IH" [OF Inl e(1,2,3,4) rec] obtain base names canonical
      where id: "prefix_identity fs (butlast p) base names canonical"
        and q: "q = canonical @ map Normal (names @ rev (missing @ [name]))" by blast
    have p: "p = butlast p @ [Normal name]" using e(3,4) append_butlast_last_id by metis
    have "prefix_identity fs p base (names @ [name]) canonical"
      unfolding prefix_identity_def
    proof (intro conjI allI impI)
      show pp: "p = base @ map Normal (names @ [name])"
        using p id by (simp add: prefix_identity_def)
      fix i assume i: "i < length (names @ [name])"
      show "fs_canonicalize fs (base @ map Normal (take (Suc i) (names @ [name]))) = Inl NotFound"
        "\<not> fs_symlink_metadata_ok fs (base @ map Normal (take (Suc i) (names @ [name])))"
        using i id pp Inl e(1,2) by (cases "i < length names"; simp add: prefix_identity_def)+
    qed (use id in \<open>auto simp: prefix_identity_def\<close>)
    with q show ?thesis by (intro exI conjI) auto
  qed
qed

lemma canonicalize_loop_complete:
  "prefix_identity fs p base names canonical \<Longrightarrow>
     canonicalize_loop fs p missing = Some (canonical @ map Normal (names @ rev missing))"
proof (induction names arbitrary: p missing rule: rev_induct)
  case Nil
  then show ?case by (subst canonicalize_loop.simps) (simp add: prefix_identity_def)
next
  case (snoc name names)
  let ?b = "base @ map Normal names"
  have p: "p = ?b @ [Normal name]" using snoc.prems by (simp add: prefix_identity_def)
  have nf: "fs_canonicalize fs p = Inl NotFound" "\<not> fs_symlink_metadata_ok fs p"
    using snoc.prems p by (auto simp: prefix_identity_def dest!: spec [of _ "length names"])
  have "prefix_identity fs ?b base names canonical"
    using snoc.prems unfolding prefix_identity_def
    by (auto simp: less_Suc_eq)
  from snoc.IH [OF this, of "missing @ [name]"] p nf show ?case
    by (subst canonicalize_loop.simps) (simp add: butlast_append)
qed

section \<open>Properties\<close>

text \<open>The structural check accepts a process specification precisely when it has at most 4096
  arguments, every environment change has a usable key and a NUL-free value, no key repeats, and
  \<open>WINEPREFIX\<close> is among the keys and set.  The error for several \<open>WINEPREFIX\<close> changes is
  never the answer, since a repeated key is reported first.\<close>

lemma spec_structure_iff:
  "(validate_process_spec_structure spec = Inr () \<longleftrightarrow>
      length (ps_args spec) \<le> 4096 \<and> list_all change_ok (ps_env spec) \<and>
      distinct (map ec_key (ps_env spec)) \<and> ''WINEPREFIX'' \<in> ec_key ` set (ps_env spec)) \<and>
   validate_process_spec_structure spec \<noteq> Inl MultipleWinePrefix"
proof (cases "validate_changes {} 0 (ps_env spec)")
  case (Inl e)
  then have "\<not> (list_all change_ok (ps_env spec) \<and> distinct (map ec_key (ps_env spec)))"
    using validate_changes_iff [of "{}" 0 "ps_env spec"] by (auto simp: list_all_iff)
  moreover have "e \<noteq> MultipleWinePrefix"
  proof -
    have "validate_changes ks n chs \<noteq> Inl MultipleWinePrefix" for ks n chs
      by (induction chs arbitrary: ks n) (auto simp: validate_env_key_def)
    with Inl show ?thesis by auto
  qed
  ultimately show ?thesis using Inl by (auto simp: validate_process_spec_structure_def)
next
  case (Inr k)
  then have ok: "\<forall>ch \<in> set (ps_env spec). change_ok ch" "distinct (map ec_key (ps_env spec))"
    and k: "k = (if ''WINEPREFIX'' \<in> ec_key ` set (ps_env spec) then 1 else 0)"
    using validate_changes_iff [of "{}" 0 "ps_env spec" k] distinct_key_count [of ec_key "ps_env spec"]
    by auto
  then show ?thesis
    using Inr by (auto simp: validate_process_spec_structure_def MAX_LAUNCH_ARGS_def list_all_iff)
qed

text \<open>The canonical identity of a prefix is defined precisely for an absolute path whose deepest
  existing ancestor canonicalises to a directory while every component below it is plainly missing (no
  dangling link, no \<open>..\<close>): it is that directory followed by the missing names.\<close>

theorem canonical_prefix_iff:
  "canonicalize_prefix_path fs p = Some q \<longleftrightarrow>
     is_absolute p \<and>
     (\<exists>base names canonical. prefix_identity fs p base names canonical \<and> q = canonical @ map Normal names)"
proof
  assume "canonicalize_prefix_path fs p = Some q"
  then have "is_absolute p" "canonicalize_loop fs p [] = Some q"
    by (auto simp: canonicalize_prefix_path_def split: if_splits)
  with canonicalize_loop_sound [of fs p "[]" q]
  show "is_absolute p \<and>
     (\<exists>base names canonical. prefix_identity fs p base names canonical \<and> q = canonical @ map Normal names)"
    by simp
next
  assume "is_absolute p \<and>
     (\<exists>base names canonical. prefix_identity fs p base names canonical \<and> q = canonical @ map Normal names)"
  then show "canonicalize_prefix_path fs p = Some q"
    using canonicalize_loop_complete [of fs p _ _ _ "[]"] by (auto simp: canonicalize_prefix_path_def)
qed

lemma merge_env_lookup:
  assumes "distinct (map ec_key chs)"
  shows "merge_env base chs k =
     (case map_of (map (\<lambda>c. (ec_key c, ec_value c)) chs) k of
        Some v \<Rightarrow> v
      | None \<Rightarrow> if k = ''WINEPREFIX'' \<or> k = ''STEAM_COMPAT_DATA_PATH'' then None else base k)"
proof (cases "map_of (map (\<lambda>c. (ec_key c, ec_value c)) chs) k")
  case None
  then have "k \<notin> ec_key ` set chs" by (auto simp: map_of_eq_None_iff image_image)
  with None show ?thesis by (simp add: merge_env_def fold_apply_change [OF assms])
next
  case (Some v)
  then have "k \<in> ec_key ` set chs" by (force dest: map_of_SomeD)
  with Some show ?thesis by (simp add: merge_env_def fold_apply_change [OF assms])
qed

text \<open>A specification accepted for launch stays inside the session's prefix: the program is an
  absolute executable file, the working directory exists, the merged \<open>WINEPREFIX\<close> (and
  \<open>STEAM_COMPAT_DATA_PATH\<close>, if set) canonicalises to the owned prefix and comes from the request,
  never from the inherited environment; every other variable is the requested change or else the
  inherited value.\<close>

theorem launch_env_owned:
  assumes "validate_spec_for_launch fs spec owned base = Inr env"
  defines "requested \<equiv> map_of (map (\<lambda>c. (ec_key c, ec_value c)) (ps_env spec))"
  shows "validate_process_spec_structure spec = Inr () \<and>
     is_absolute (path_of (ps_program spec)) \<and> is_executable fs (path_of (ps_program spec)) \<and>
     is_absolute (path_of (ps_cwd spec)) \<and> path_is_dir fs (path_of (ps_cwd spec)) \<and>
     (\<exists>w. requested ''WINEPREFIX'' = Some (Some w) \<and> env ''WINEPREFIX'' = Some w \<and>
        canonicalize_prefix_path fs (path_of w) = Some owned) \<and>
     pred_option (\<lambda>d. requested ''STEAM_COMPAT_DATA_PATH'' = Some (Some d) \<and>
        canonicalize_prefix_path fs (path_of d) = Some owned) (env ''STEAM_COMPAT_DATA_PATH'') \<and>
     (\<forall>k. k \<notin> {''WINEPREFIX'', ''STEAM_COMPAT_DATA_PATH''} \<longrightarrow>
        env k = (case requested k of Some v \<Rightarrow> v | None \<Rightarrow> base k))"
proof -
  from assms(1) have st: "validate_process_spec_structure spec = Inr ()"
    and env: "env = merge_env base (ps_env spec)"
    by (auto simp: validate_spec_for_launch_def Let_def split: sum.splits option.splits if_splits)
  from st spec_structure_iff have "distinct (map ec_key (ps_env spec))" by blast
  from merge_env_lookup [OF this] env
  have look: "env k = (case requested k of Some v \<Rightarrow> v
      | None \<Rightarrow> if k = ''WINEPREFIX'' \<or> k = ''STEAM_COMPAT_DATA_PATH'' then None else base k)" for k
    by (simp add: requested_def)
  show ?thesis
    using assms(1) st look env
    by (auto simp: validate_spec_for_launch_def Let_def path_is_dir_def
        split: sum.splits option.splits if_splits)
qed

section \<open>Witnesses\<close>

text \<open>A file system in which every absolute path is an executable directory-like node.\<close>

definition example_fs :: file_system where
  "example_fs =
     \<lparr>fs_canonicalize = (\<lambda>p. Inr p),
      fs_metadata = (\<lambda>p. Inr \<lparr>fm_is_dir = True, fm_is_file = True, fm_mode = 0x1ED\<rparr>),
      fs_symlink_metadata_ok = (\<lambda>_. True)\<rparr>"

definition example_spec :: process_spec where
  "example_spec =
     \<lparr>ps_program = ''/usr/bin/wine'', ps_args = [''a.exe''], ps_cwd = ''/game'',
      ps_env = [\<lparr>ec_key = ''WINEPREFIX'', ec_value = Some ''/pfx''\<rparr>]\<rparr>"

lemma example_paths [simp]:
  "path_of ''/usr/bin/wine'' = [RootDir, Normal ''usr'', Normal ''bin'', Normal ''wine'']"
  "path_of ''/game'' = [RootDir, Normal ''game'']" "path_of ''/pfx'' = [RootDir, Normal ''pfx'']"
  by (simp_all add: path_of_def)

lemma example_spec_structure: "validate_process_spec_structure example_spec = Inr ()"
  by (simp add: spec_structure_iff example_spec_def change_ok_def)

lemma example_fs_answers [simp]:
  "fs_canonicalize example_fs p = Inr p" "path_is_dir example_fs p" "is_executable example_fs p"
  "fs_metadata example_fs p = Inr \<lparr>fm_is_dir = True, fm_is_file = True, fm_mode = 0x1ED\<rparr>"
  by (simp_all add: example_fs_def path_is_dir_def is_executable_def)

lemma example_canonical [simp]:
  "canonicalize_prefix_path example_fs (RootDir # p) = Some (RootDir # p)"
  by (simp add: canonicalize_prefix_path_def is_absolute_def canonicalize_loop.simps [of example_fs])

lemma example_merge:
  "merge_env [''WINEPREFIX'' \<mapsto> ''/other'', ''LANG'' \<mapsto> ''C''] (ps_env example_spec)
     = [''LANG'' \<mapsto> ''C'', ''WINEPREFIX'' \<mapsto> ''/pfx'']"
  by (auto simp: merge_env_def apply_change_def example_spec_def)

lemma example_launch:
  "validate_spec_for_launch example_fs example_spec [RootDir, Normal ''pfx'']
     [''WINEPREFIX'' \<mapsto> ''/other'', ''LANG'' \<mapsto> ''C'']
   = Inr [''LANG'' \<mapsto> ''C'', ''WINEPREFIX'' \<mapsto> ''/pfx'']"
  by (simp add: validate_spec_for_launch_def example_spec_structure example_merge)
    (simp add: example_spec_def is_absolute_def)

end
