(* ===== verification/Utf8.thy ===== *)
theory Utf8
  imports RoPrelude
begin

text \<open>
  Bytes and text where the source mixes them.  A byte string is a \<^typ>\<open>u8 list\<close>; text that came from
  bytes is the list of its code points, because such text is not confined to the characters of the
  string model of the prelude.  Holds Rust's \<open>String::from_utf8\<close>, \<open>String::from_utf8_lossy\<close> and the
  \<open>str\<close> operations the process code applies to such text.
\<close>

section \<open>Validity\<close>

definition cont :: "u8 \<Rightarrow> bool" where "cont b \<longleftrightarrow> 0x80 \<le> b \<and> b \<le> 0xBF"

text \<open>\<open>String::from_utf8\<close> accepts exactly the well-formed byte sequences.\<close>

fun utf8_valid :: "u8 list \<Rightarrow> bool" where
  "utf8_valid [] = True"
| "utf8_valid (b0 # bs) =
     (if b0 \<le> 0x7F then utf8_valid bs
      else if 0xC2 \<le> b0 \<and> b0 \<le> 0xDF then
        (case bs of b1 # r \<Rightarrow> cont b1 \<and> utf8_valid r | _ \<Rightarrow> False)
      else if 0xE0 \<le> b0 \<and> b0 \<le> 0xEF then
        (case bs of
           b1 # b2 # r \<Rightarrow>
             cont b1 \<and> (b0 = 0xE0 \<longrightarrow> 0xA0 \<le> b1) \<and> (b0 = 0xED \<longrightarrow> b1 \<le> 0x9F) \<and> cont b2 \<and> utf8_valid r
         | _ \<Rightarrow> False)
      else if 0xF0 \<le> b0 \<and> b0 \<le> 0xF4 then
        (case bs of
           b1 # b2 # b3 # r \<Rightarrow>
             cont b1 \<and> (b0 = 0xF0 \<longrightarrow> 0x90 \<le> b1) \<and> (b0 = 0xF4 \<longrightarrow> b1 \<le> 0x8F) \<and>
             cont b2 \<and> cont b3 \<and> utf8_valid r
         | _ \<Rightarrow> False)
      else False)"

section \<open>Decoding and encoding\<close>

type_synonym text_points = "nat list"

text \<open>The values of two, three and four byte sequences.\<close>

definition point2 :: "u8 \<Rightarrow> u8 \<Rightarrow> nat" where
  "point2 b0 b1 = (unat b0 - 0xC0) * 64 + (unat b1 - 0x80)"

definition point3 :: "u8 \<Rightarrow> u8 \<Rightarrow> u8 \<Rightarrow> nat" where
  "point3 b0 b1 b2 = (unat b0 - 0xE0) * 4096 + (unat b1 - 0x80) * 64 + (unat b2 - 0x80)"

definition point4 :: "u8 \<Rightarrow> u8 \<Rightarrow> u8 \<Rightarrow> u8 \<Rightarrow> nat" where
  "point4 b0 b1 b2 b3 =
     (unat b0 - 0xF0) * 262144 + (unat b1 - 0x80) * 4096 + (unat b2 - 0x80) * 64 + (unat b3 - 0x80)"

definition second3 :: "u8 \<Rightarrow> u8 \<Rightarrow> bool" where
  "second3 b0 b1 \<longleftrightarrow> cont b1 \<and> (b0 = 0xE0 \<longrightarrow> 0xA0 \<le> b1) \<and> (b0 = 0xED \<longrightarrow> b1 \<le> 0x9F)"

definition second4 :: "u8 \<Rightarrow> u8 \<Rightarrow> bool" where
  "second4 b0 b1 \<longleftrightarrow> cont b1 \<and> (b0 = 0xF0 \<longrightarrow> 0x90 \<le> b1) \<and> (b0 = 0xF4 \<longrightarrow> b1 \<le> 0x8F)"

text \<open>\<open>from_utf8_lossy\<close>: each maximal invalid part becomes one U+FFFD.\<close>

definition REPLACEMENT :: nat where "REPLACEMENT = 0xFFFD"

fun decode_lossy :: "u8 list \<Rightarrow> text_points" where
  "decode_lossy [] = []"
| "decode_lossy (b0 # bs) =
     (if b0 \<le> 0x7F then unat b0 # decode_lossy bs
      else if 0xC2 \<le> b0 \<and> b0 \<le> 0xDF then
        (case bs of
           b1 # r \<Rightarrow> if cont b1 then point2 b0 b1 # decode_lossy r else REPLACEMENT # decode_lossy (b1 # r)
         | [] \<Rightarrow> [REPLACEMENT])
      else if 0xE0 \<le> b0 \<and> b0 \<le> 0xEF then
        (case bs of
           b1 # r \<Rightarrow>
             if \<not> second3 b0 b1 then REPLACEMENT # decode_lossy (b1 # r)
             else (case r of
                     b2 # r2 \<Rightarrow> if cont b2 then point3 b0 b1 b2 # decode_lossy r2
                                else REPLACEMENT # decode_lossy (b2 # r2)
                   | [] \<Rightarrow> [REPLACEMENT])
         | [] \<Rightarrow> [REPLACEMENT])
      else if 0xF0 \<le> b0 \<and> b0 \<le> 0xF4 then
        (case bs of
           b1 # r \<Rightarrow>
             if \<not> second4 b0 b1 then REPLACEMENT # decode_lossy (b1 # r)
             else (case r of
                     b2 # r2 \<Rightarrow>
                       if \<not> cont b2 then REPLACEMENT # decode_lossy (b2 # r2)
                       else (case r2 of
                               b3 # r3 \<Rightarrow> if cont b3 then point4 b0 b1 b2 b3 # decode_lossy r3
                                          else REPLACEMENT # decode_lossy (b3 # r3)
                             | [] \<Rightarrow> [REPLACEMENT])
                   | [] \<Rightarrow> [REPLACEMENT])
         | [] \<Rightarrow> [REPLACEMENT])
      else REPLACEMENT # decode_lossy bs)"

definition byte :: "nat \<Rightarrow> u8" where "byte n = of_nat n"

definition encode_point :: "nat \<Rightarrow> u8 list" where
  "encode_point n =
     (if n < 0x80 then [byte n]
      else if n < 0x800 then [byte (0xC0 + n div 64), byte (0x80 + n mod 64)]
      else if n < 0x10000 then
        [byte (0xE0 + n div 4096), byte (0x80 + n div 64 mod 64), byte (0x80 + n mod 64)]
      else
        [byte (0xF0 + n div 262144), byte (0x80 + n div 4096 mod 64),
         byte (0x80 + n div 64 mod 64), byte (0x80 + n mod 64)])"

definition encode :: "text_points \<Rightarrow> u8 list" where
  "encode ns = concat (map encode_point ns)"

text \<open>\<open>String::from_utf8\<close> and \<open>fs::read_to_string\<close> of a file with these bytes.\<close>

definition from_utf8 :: "u8 list \<Rightarrow> text_points option" where
  "from_utf8 bs = (if utf8_valid bs then Some (decode_lossy bs) else None)"

lemma encode_Nil [simp]: "encode [] = []"
  by (simp add: encode_def)

lemma encode_Cons: "encode (n # ns) = encode_point n @ encode ns"
  by (simp add: encode_def)

section \<open>Encoding inverts decoding of valid text\<close>

lemma cont_nat: "cont b \<longleftrightarrow> 0x80 \<le> unat b \<and> unat b < 0x80 + 64"
  by (auto simp: cont_def word_le_nat_alt)

lemma byte_eq: "unat b = n \<Longrightarrow> byte n = b"
  by (auto simp: byte_def)

lemma encode_point1: "b0 \<le> 0x7F \<Longrightarrow> encode_point (unat b0) = [b0]"
  by (auto simp: encode_point_def word_le_nat_alt byte_def)

lemma encode_point2:
  assumes "0xC2 \<le> b0" "b0 \<le> 0xDF" "cont b1"
  shows "encode_point (point2 b0 b1) = [b0, b1]"
proof -
  obtain x y where xy: "unat b0 = 0xC0 + x" "2 \<le> x" "x < 32" "unat b1 = 0x80 + y" "y < 64"
    using assms by (intro that [of "unat b0 - 0xC0" "unat b1 - 0x80"]) (auto simp: cont_nat word_le_nat_alt)
  then have "point2 b0 b1 = 64 * x + y" by (simp add: point2_def)
  with xy show ?thesis by (auto simp: encode_point_def intro!: byte_eq)
qed

lemma base64_digits: "r < 64 \<Longrightarrow> (64 * q + r) div 64 = q" "r < 64 \<Longrightarrow> (64 * q + r) mod 64 = (r :: nat)"
  by simp_all

lemma encode_point3:
  assumes "0xE0 \<le> b0" "b0 \<le> 0xEF" "second3 b0 b1" "cont b2"
  shows "encode_point (point3 b0 b1 b2) = [b0, b1, b2]"
proof -
  obtain x y z where xyz: "unat b0 = 0xE0 + x" "x < 16" "unat b1 = 0x80 + y" "y < 64"
      "unat b2 = 0x80 + z" "z < 64"
    using assms by (intro that [of "unat b0 - 0xE0" "unat b1 - 0x80" "unat b2 - 0x80"])
      (auto simp: second3_def cont_nat word_le_nat_alt)
  have "x = 0 \<longrightarrow> 32 \<le> y"
    using assms(3) xyz by (auto simp: second3_def word_le_nat_alt word_unat_eq_iff)
  then have large: "2048 \<le> 4096 * x + 64 * y" by (cases x) auto
  let ?n = "64 * (64 * x + y) + z"
  from xyz have p: "point3 b0 b1 b2 = ?n" by (simp add: point3_def)
  have "?n div 4096 = ?n div 64 div 64" by (simp add: div_mult2_eq [symmetric])
  with xyz have digits: "?n div 64 mod 64 = y" "?n mod 64 = z" "?n div 4096 = x"
    by (simp_all only: base64_digits)
  have "\<not> ?n < 0x80" "\<not> ?n < 0x800" "?n < 0x10000" using xyz large by auto
  then show ?thesis using xyz
    unfolding encode_point_def p digits by (auto intro!: byte_eq)
qed

lemma encode_point4:
  assumes "0xF0 \<le> b0" "b0 \<le> 0xF4" "second4 b0 b1" "cont b2" "cont b3"
  shows "encode_point (point4 b0 b1 b2 b3) = [b0, b1, b2, b3]"
proof -
  obtain x y z w where xyz: "unat b0 = 0xF0 + x" "x < 5" "unat b1 = 0x80 + y" "y < 64"
      "unat b2 = 0x80 + z" "z < 64" "unat b3 = 0x80 + w" "w < 64"
    using assms by (intro that [of "unat b0 - 0xF0" "unat b1 - 0x80" "unat b2 - 0x80" "unat b3 - 0x80"])
      (auto simp: second4_def cont_nat word_le_nat_alt)
  have "x = 0 \<longrightarrow> 16 \<le> y"
    using assms(3) xyz by (auto simp: second4_def word_le_nat_alt word_unat_eq_iff)
  then have large: "65536 \<le> 262144 * x + 4096 * y" by (cases x) auto
  let ?n = "64 * (64 * (64 * x + y) + z) + w"
  from xyz have p: "point4 b0 b1 b2 b3 = ?n" by (simp add: point4_def)
  have "?n div 4096 = ?n div 64 div 64" "?n div 262144 = ?n div 64 div 64 div 64"
    by (simp_all add: div_mult2_eq [symmetric])
  with xyz have digits: "?n div 64 mod 64 = z" "?n mod 64 = w" "?n div 4096 mod 64 = y" "?n div 262144 = x"
    by (simp_all only: base64_digits)
  have "\<not> ?n < 0x80" "\<not> ?n < 0x800" "\<not> ?n < 0x10000" using large by auto
  then show ?thesis using xyz
    unfolding encode_point_def p digits by (auto intro!: byte_eq)
qed

text \<open>The four shapes of a valid first character.\<close>

lemma utf8_valid_Cons_cases:
  assumes "utf8_valid (b0 # bs)"
  obtains (one) "b0 \<le> 0x7F" "utf8_valid bs"
  | (two) b1 r where "bs = b1 # r" "\<not> b0 \<le> 0x7F" "0xC2 \<le> b0" "b0 \<le> 0xDF" "cont b1" "utf8_valid r"
  | (three) b1 b2 r where "bs = b1 # b2 # r" "\<not> b0 \<le> 0xDF" "0xE0 \<le> b0" "b0 \<le> 0xEF" "second3 b0 b1"
      "cont b2" "utf8_valid r"
  | (four) b1 b2 b3 r where "bs = b1 # b2 # b3 # r" "\<not> b0 \<le> 0xEF" "0xF0 \<le> b0" "b0 \<le> 0xF4"
      "second4 b0 b1" "cont b2" "cont b3" "utf8_valid r"
proof -
  have gap: "0xE0 \<le> b0 \<Longrightarrow> \<not> b0 \<le> 0xDF" "0xF0 \<le> b0 \<Longrightarrow> \<not> b0 \<le> 0xEF"
    by (auto simp: word_le_nat_alt)
  consider "b0 \<le> 0x7F" | "\<not> b0 \<le> 0x7F" "0xC2 \<le> b0 \<and> b0 \<le> 0xDF"
    | "\<not> b0 \<le> 0x7F" "\<not> (0xC2 \<le> b0 \<and> b0 \<le> 0xDF)" "0xE0 \<le> b0 \<and> b0 \<le> 0xEF"
    | "\<not> b0 \<le> 0x7F" "\<not> (0xC2 \<le> b0 \<and> b0 \<le> 0xDF)" "\<not> (0xE0 \<le> b0 \<and> b0 \<le> 0xEF)" "0xF0 \<le> b0 \<and> b0 \<le> 0xF4"
  proof -
    have "b0 \<le> 0x7F \<or> 0xC2 \<le> b0 \<and> b0 \<le> 0xDF \<or> 0xE0 \<le> b0 \<and> b0 \<le> 0xEF \<or> 0xF0 \<le> b0 \<and> b0 \<le> 0xF4"
      using assms by (rule contrapos_pp) auto
    then show thesis using that by blast
  qed
  then show thesis
  proof cases
    case 1
    with assms one show thesis by simp
  next
    case 2
    with assms two show thesis by (simp split: list.splits)
  next
    case 3
    with assms three gap show thesis by (simp add: second3_def split: list.splits)
  next
    case 4
    with assms four gap show thesis by (simp add: second4_def split: list.splits)
  qed
qed

lemma decode_one: "b0 \<le> 0x7F \<Longrightarrow> decode_lossy (b0 # bs) = unat b0 # decode_lossy bs"
  by simp

lemma decode_two:
  "\<not> b0 \<le> 0x7F \<Longrightarrow> 0xC2 \<le> b0 \<Longrightarrow> b0 \<le> 0xDF \<Longrightarrow> cont b1 \<Longrightarrow>
   decode_lossy (b0 # b1 # r) = point2 b0 b1 # decode_lossy r"
  by simp

lemma decode_three:
  assumes "\<not> b0 \<le> 0xDF" "0xE0 \<le> b0" "b0 \<le> 0xEF" "second3 b0 b1" "cont b2"
  shows "decode_lossy (b0 # b1 # b2 # r) = point3 b0 b1 b2 # decode_lossy r"
proof -
  have "\<not> b0 \<le> 0x7F" using assms(2) by (auto simp: word_le_nat_alt)
  with assms show ?thesis by simp
qed

lemma decode_four:
  assumes "\<not> b0 \<le> 0xEF" "0xF0 \<le> b0" "b0 \<le> 0xF4" "second4 b0 b1" "cont b2" "cont b3"
  shows "decode_lossy (b0 # b1 # b2 # b3 # r) = point4 b0 b1 b2 b3 # decode_lossy r"
proof -
  have "\<not> b0 \<le> 0x7F" "\<not> b0 \<le> 0xDF" using assms(2) by (auto simp: word_le_nat_alt)
  with assms show ?thesis by simp
qed

lemma encode_decode: "utf8_valid bs \<Longrightarrow> encode (decode_lossy bs) = bs"
proof (induction "length bs" arbitrary: bs rule: less_induct)
  case less
  show ?case
  proof (cases bs)
    case (Cons b0 r0)
    with less.prems have "utf8_valid (b0 # r0)" by simp
    then show ?thesis
      by (cases rule: utf8_valid_Cons_cases)
        (simp_all add: Cons less.hyps encode_Cons encode_point1 encode_point2 encode_point3 encode_point4
          decode_one decode_two decode_three decode_four del: decode_lossy.simps)
  qed (simp add: encode_def)
qed

text \<open>A replacement character has three bytes and takes the place of at least one.\<close>

lemma encode_point_length: "length (encode_point n) \<le> 4" "length (encode_point REPLACEMENT) = 3"
  by (simp_all add: encode_point_def REPLACEMENT_def)

lemma lossy_step: "4 \<le> c \<Longrightarrow> length (encode r) \<le> j \<Longrightarrow> length (encode (n # r)) \<le> c + j"
  using encode_point_length(1) [of n] by (simp add: encode_Cons)

lemma encode_lossy_length: "length (encode (decode_lossy bs)) \<le> 3 * length bs"
proof (induction "length bs" arbitrary: bs rule: less_induct)
  case less
  show ?case
  proof (cases bs)
    case (Cons b0 t)
    have tl: "length (encode (decode_lossy r)) \<le> 3 * length r" if "length r \<le> length t" for r using less that Cons by simp
    have bad: "length (encode (REPLACEMENT # decode_lossy r)) \<le> 3 * length (b0 # t)" if "length r \<le> length t" for r
      using tl [OF that] that by (simp add: encode_Cons encode_point_length(2))
    have good: "length (encode (n # decode_lossy r)) \<le> 3 * length (b0 # t)" if "length r < length t" for r n
      using lossy_step [OF _ tl [of r], of 6 n] that by simp
    have ascii: "length (encode (unat b0 # decode_lossy t)) \<le> 3 * length (b0 # t)" if "b0 \<le> 0x7F"
      using tl [of t] that by (simp add: encode_Cons encode_point1)
    have stop: "length (encode [REPLACEMENT]) \<le> 3 * length (b0 # t)" by (simp add: encode_Cons encode_point_length(2))
    have "length (encode (decode_lossy (b0 # t))) \<le> 3 * length (b0 # t)"
    proof (cases t)
      case Nil
      then show ?thesis using bad [of t] ascii stop by (subst decode_lossy.simps(2)) simp
    next
      case t: (Cons b1 r)
      show ?thesis
      proof (cases r)
        case Nil
        then show ?thesis using t bad [of t] bad [of r] good [of r] ascii stop
          by (subst decode_lossy.simps(2)) (simp del: decode_lossy.simps(2) split: if_split)
      next
        case r: (Cons b2 r2)
        show ?thesis
          using t r bad [of t] bad [of r] bad [of r2] good [of r] good [of r2] good [of "tl r2"] ascii stop
          by (subst decode_lossy.simps(2)) (cases r2; simp del: decode_lossy.simps(2) split: if_split)
      qed
    qed
    then show ?thesis by (simp only: Cons)
  qed simp
qed

section \<open>Operations on text\<close>

definition points :: "string \<Rightarrow> text_points" where
  "points s = map of_char s"

definition white_point :: "nat \<Rightarrow> bool" where
  "white_point n \<longleftrightarrow> 9 \<le> n \<and> n \<le> 13 \<or> 0x2000 \<le> n \<and> n \<le> 0x200A \<or>
     n \<in> {32, 0x85, 0xA0, 0x1680, 0x2028, 0x2029, 0x202F, 0x205F, 0x3000}"

text \<open>\<open>trim\<close>, \<open>trim_matches(c)\<close> and \<open>trim_end_matches(c)\<close>.\<close>

definition trim_by :: "(nat \<Rightarrow> bool) \<Rightarrow> text_points \<Rightarrow> text_points" where
  "trim_by P t = rev (dropWhile P (rev (dropWhile P t)))"

definition trim_end_by :: "(nat \<Rightarrow> bool) \<Rightarrow> text_points \<Rightarrow> text_points" where
  "trim_end_by P t = rev (dropWhile P (rev t))"

fun split_by :: "('a \<Rightarrow> bool) \<Rightarrow> 'a list \<Rightarrow> 'a list list" where
  "split_by P [] = [[]]"
| "split_by P (c # cs) =
     (if P c then [] # split_by P cs
      else (case split_by P cs of [] \<Rightarrow> [[c]] | p # ps \<Rightarrow> (c # p) # ps))"

definition split_whitespace :: "text_points \<Rightarrow> text_points list" where
  "split_whitespace t = filter (\<lambda>w. w \<noteq> []) (split_by white_point t)"

text \<open>The part after the last element that satisfies \<open>P\<close>, as \<open>rsplit(P).next()\<close> gives it.\<close>

definition after_last :: "('a \<Rightarrow> bool) \<Rightarrow> 'a list \<Rightarrow> 'a list" where
  "after_last P t = rev (takeWhile (\<lambda>c. \<not> P c) (rev t))"

definition lower_point :: "nat \<Rightarrow> nat" where
  "lower_point n = (if 65 \<le> n \<and> n \<le> 90 then n + 32 else n)"

definition same_ignoring_case :: "text_points \<Rightarrow> text_points \<Rightarrow> bool" where
  "same_ignoring_case a b \<longleftrightarrow> map lower_point a = map lower_point b"

text \<open>\<open>str::parse\<close> for an unsigned type with values below \<open>bound\<close>: one optional \<open>+\<close>, then digits.\<close>

definition digits_value :: "text_points \<Rightarrow> nat" where
  "digits_value ds = foldl (\<lambda>v d. 10 * v + (d - 48)) 0 ds"

definition parse_uint :: "nat \<Rightarrow> text_points \<Rightarrow> nat option" where
  "parse_uint bound t =
     (let ds = (if t \<noteq> [] \<and> hd t = 43 then tl t else t)
      in if ds \<noteq> [] \<and> list_all (\<lambda>d. 48 \<le> d \<and> d \<le> 57) ds \<and> digits_value ds < bound
         then Some (digits_value ds) else None)"

definition parse_u32 :: "text_points \<Rightarrow> u32 option" where
  "parse_u32 t = map_option of_nat (parse_uint (2 ^ 32) t)"

definition parse_u64 :: "text_points \<Rightarrow> u64 option" where
  "parse_u64 t = map_option of_nat (parse_uint (2 ^ 64) t)"

lemma split_by_not_Nil [simp]: "split_by P xs \<noteq> []"
  by (induction xs) (auto split: list.splits)

lemma after_last_no_sep: "c \<in> set (after_last P t) \<Longrightarrow> \<not> P c"
  by (auto simp: after_last_def dest: set_takeWhileD)

lemma after_last_split: "P c \<Longrightarrow> list_all (\<lambda>d. \<not> P d) t \<Longrightarrow> after_last P (s @ c # t) = t"
  by (simp add: after_last_def list_all_iff takeWhile_append)

lemma after_last_none: "list_all (\<lambda>d. \<not> P d) t \<Longrightarrow> after_last P t = t"
  by (simp add: after_last_def list_all_iff takeWhile_eq_all_conv [THEN iffD2])

end
