(* ===== verification/LineReader.thy ===== *)
theory LineReader
  imports SessionProtocol Utf8
begin

text \<open>
  The bounded NDJSON line reader of \<open>ro-sessiond/src/protocol.rs\<close>.

  The underlying \<open>Read\<close> is the list of what its calls will find: bytes that have arrived, a call
  that would block, or a failure; the end of the list is the end of the stream.  A call asks for at
  most \<open>n\<close> bytes and gets the first of them that have arrived together.  The size limit is an
  argument \<open>mx\<close> of the loops, which \<open>read_line\<close> sets to \<open>MAX_MESSAGE_BYTES\<close>.
\<close>

section \<open>The byte source\<close>

datatype chunk = Data "u8 list" | Blocks | Fails

datatype read_result = ReadBytes "u8 list" | ReadWouldBlock | ReadFailed

fun do_read :: "nat \<Rightarrow> chunk list \<Rightarrow> read_result \<times> chunk list" where
  "do_read n [] = (ReadBytes [], [])"
| "do_read n (Data bs # cs) =
     (ReadBytes (take n bs), if length bs \<le> n then cs else Data (drop n bs) # cs)"
| "do_read n (Blocks # cs) = (ReadWouldBlock, cs)"
| "do_read n (Fails # cs) = (ReadFailed, cs)"

fun source_size :: "chunk list \<Rightarrow> nat" where
  "source_size [] = 0"
| "source_size (Data bs # cs) = Suc (length bs) + source_size cs"
| "source_size (_ # cs) = Suc (source_size cs)"

lemma do_read_size:
  "do_read n cs = (ReadBytes bs, cs') \<Longrightarrow> bs \<noteq> [] \<Longrightarrow> source_size cs' + length bs \<le> source_size cs"
  by (cases "(n, cs)" rule: do_read.cases) (auto split: if_splits)

lemma do_read_progress:
  assumes "(ReadBytes bs, cs') = do_read n cs" "bs \<noteq> []"
  shows "source_size cs' < source_size cs" "2 * source_size cs' + length bs < 2 * source_size cs"
proof -
  have "0 < length bs" using assms(2) by simp
  with do_read_size [OF assms(1) [symmetric] assms(2)]
  show "source_size cs' < source_size cs" "2 * source_size cs' + length bs < 2 * source_size cs"
    by linarith+
qed

lemma position_less: "position P xs = Some i \<Longrightarrow> i < length xs"
  by (induction xs arbitrary: i) (auto split: if_splits)

section \<open>The reader\<close>

definition NL :: u8 where "NL = 10"

datatype read_error = InvalidUtf8 | MessageTooLong | IncompleteLine | ReadIoError

datatype line_outcome = EndOfInput | Line "u8 list" | ReadErr read_error

text \<open>\<open>discard_oversized_line\<close>: the error, if any, with the remaining buffer and source.\<close>

function discard_oversized_line ::
  "u8 list \<Rightarrow> chunk list \<Rightarrow> read_error option \<times> u8 list \<times> chunk list" where
  "discard_oversized_line buf src =
     (case position (\<lambda>b. b = NL) buf of
        Some pos \<Rightarrow> (None, drop (Suc pos) buf, src)
      | None \<Rightarrow>
          (case do_read 4096 src of
             (ReadWouldBlock, src1) \<Rightarrow> (Some IncompleteLine, [], src1)
           | (ReadFailed, src1) \<Rightarrow> (Some ReadIoError, [], src1)
           | (ReadBytes scratch, src1) \<Rightarrow>
               if scratch = [] then (None, [], src1)
               else (case position (\<lambda>b. b = NL) scratch of
                       Some pos \<Rightarrow> (None, drop (Suc pos) scratch, src1)
                     | None \<Rightarrow> discard_oversized_line [] src1)))"
  by pat_completeness auto
termination
  by (relation "measure (\<lambda>(buf, src). source_size src)") (auto dest: do_read_progress)

declare discard_oversized_line.simps [simp del]

definition too_long :: "u8 list \<Rightarrow> chunk list \<Rightarrow> line_outcome \<times> u8 list \<times> chunk list" where
  "too_long buf src =
     (case discard_oversized_line buf src of
        (Some e, buf1, src1) \<Rightarrow> (ReadErr e, buf1, src1)
      | (None, buf1, src1) \<Rightarrow> (ReadErr MessageTooLong, buf1, src1))"

function read_line_loop ::
  "nat \<Rightarrow> u8 list \<Rightarrow> chunk list \<Rightarrow> line_outcome \<times> u8 list \<times> chunk list" where
  "read_line_loop mx buf src =
     (case position (\<lambda>b. b = NL) buf of
        Some pos \<Rightarrow>
          let line = take pos buf; buf1 = drop (Suc pos) buf
          in if \<not> utf8_valid line then (ReadErr InvalidUtf8, buf1, src)
             else if line = [] then read_line_loop mx buf1 src
             else if mx < length line then (ReadErr MessageTooLong, buf1, src)
             else (Line line, buf1, src)
      | None \<Rightarrow>
          let max_buf = mx + 1
          in if max_buf < length buf then too_long buf src
             else let room = max_buf - length buf
             in if room = 0 then too_long buf src
                else (case do_read (min 4096 room) src of
                        (ReadWouldBlock, src1) \<Rightarrow> (ReadErr IncompleteLine, buf, src1)
                      | (ReadFailed, src1) \<Rightarrow> (ReadErr ReadIoError, buf, src1)
                      | (ReadBytes bs, src1) \<Rightarrow>
                          if bs = [] then (EndOfInput, buf, src1)
                          else if max_buf < length (buf @ bs) \<and> NL \<notin> set (buf @ bs)
                            then too_long (buf @ bs) src1
                          else read_line_loop mx (buf @ bs) src1))"
  by pat_completeness auto
termination
  by (relation "measure (\<lambda>(mx, buf, src). 2 * source_size src + length buf)")
    (auto dest: do_read_progress(2) position_less)

declare read_line_loop.simps [simp del]

record line_reader =
  lr_source :: "chunk list"
  lr_buf :: "u8 list"

definition reader_new :: "chunk list \<Rightarrow> line_reader" where
  "reader_new src = \<lparr>lr_source = src, lr_buf = []\<rparr>"

definition has_buffered_line :: "line_reader \<Rightarrow> bool" where
  "has_buffered_line r \<longleftrightarrow> NL \<in> set (lr_buf r)"

definition read_line :: "line_reader \<Rightarrow> line_outcome \<times> line_reader" where
  "read_line r =
     (case read_line_loop MAX_MESSAGE_BYTES (lr_buf r) (lr_source r) of
        (out, buf, src) \<Rightarrow> (out, r\<lparr>lr_buf := buf, lr_source := src\<rparr>))"

section \<open>Framing of a byte stream\<close>

text \<open>
  The abstract reader: the next frame of a whole byte stream, and the bytes after it.  Empty lines are
  skipped; a line over the limit is one error, and the stream continues after its line feed; an
  unterminated tail within the limit stays.
\<close>

definition after_newline :: "u8 list \<Rightarrow> u8 list" where
  "after_newline s = (case position (\<lambda>b. b = NL) s of None \<Rightarrow> [] | Some pos \<Rightarrow> drop (Suc pos) s)"

function next_frame :: "nat \<Rightarrow> u8 list \<Rightarrow> line_outcome \<times> u8 list" where
  "next_frame mx s =
     (case position (\<lambda>b. b = NL) s of
        None \<Rightarrow> if mx < length s then (ReadErr MessageTooLong, []) else (EndOfInput, s)
      | Some pos \<Rightarrow>
          if mx < pos then (ReadErr MessageTooLong, drop (Suc pos) s)
          else if \<not> utf8_valid (take pos s) then (ReadErr InvalidUtf8, drop (Suc pos) s)
          else if pos = 0 then next_frame mx (drop (Suc pos) s)
          else (Line (take pos s), drop (Suc pos) s))"
  by pat_completeness auto
termination
  by (relation "measure (\<lambda>(mx, s). length s)") (auto dest: position_less)

declare next_frame.simps [simp del]

text \<open>The bytes a source will deliver, and sources that neither block nor fail.\<close>

fun arrived :: "chunk list \<Rightarrow> u8 list" where
  "arrived [] = []"
| "arrived (Data bs # cs) = bs @ arrived cs"
| "arrived (_ # cs) = arrived cs"

definition flowing :: "chunk list \<Rightarrow> bool" where
  "flowing cs \<longleftrightarrow> list_all (\<lambda>c. case c of Data bs \<Rightarrow> bs \<noteq> [] | _ \<Rightarrow> False) cs"

lemma position_append:
  "position P (xs @ ys) =
     (case position P xs of Some i \<Rightarrow> Some i | None \<Rightarrow> map_option ((+) (length xs)) (position P ys))"
  by (induction xs; cases "position P ys") (auto split: option.splits)

lemma position_None_iff: "position P xs = None \<longleftrightarrow> (\<forall>x \<in> set xs. \<not> P x)"
  by (induction xs) auto

lemma after_newline_append:
  "after_newline (xs @ ys) =
     (case position (\<lambda>b. b = NL) xs of Some i \<Rightarrow> drop (Suc i) xs @ ys | None \<Rightarrow> after_newline ys)"
  by (auto simp: after_newline_def position_append dest: position_less split: option.splits)

lemma do_read_flowing:
  assumes "flowing src" "0 < n"
  obtains bs src1 where "do_read n src = (ReadBytes bs, src1)" "arrived src = bs @ arrived src1"
    "flowing src1" "length bs \<le> n" "bs = [] \<longleftrightarrow> src = []"
proof (cases src)
  case (Cons c cs)
  with assms obtain b where "c = Data b" "b \<noteq> []" by (cases c) (auto simp: flowing_def)
  with assms Cons that show ?thesis by (auto simp: flowing_def split: if_splits)
qed (use assms that in \<open>auto simp: flowing_def\<close>)

lemma discard_flowing:
  "flowing src \<Longrightarrow> \<exists>buf1 src1. discard_oversized_line buf src = (None, buf1, src1) \<and> flowing src1 \<and>
     length buf1 \<le> max (length buf) 4096 \<and> buf1 @ arrived src1 = after_newline (buf @ arrived src)"
proof (induction buf src rule: discard_oversized_line.induct)
  case (1 buf src)
  show ?case
  proof (cases "position (\<lambda>b. b = NL) buf")
    case (Some pos)
    with "1.prems" show ?thesis
      by (subst discard_oversized_line.simps) (auto simp: after_newline_append)
  next
    case None
    obtain bs src1 where rd: "do_read 4096 src = (ReadBytes bs, src1)" "arrived src = bs @ arrived src1"
      "flowing src1" "length bs \<le> 4096" "bs = [] \<longleftrightarrow> src = []"
      using do_read_flowing [OF "1.prems", of 4096] by auto
    consider "bs = []" | pos where "bs \<noteq> []" "position (\<lambda>b. b = NL) bs = Some pos"
      | "bs \<noteq> []" "position (\<lambda>b. b = NL) bs = None" by blast
    then show ?thesis
    proof cases
      case 1
      with None rd show ?thesis
        by (subst discard_oversized_line.simps) (auto simp: after_newline_append after_newline_def flowing_def)
    next
      case 2
      with None rd show ?thesis
        by (subst discard_oversized_line.simps) (auto simp: after_newline_append)
    next
      case False: 3
      from "1.IH" [OF None rd(1) [symmetric] refl] False rd obtain buf2 src2 where
        "discard_oversized_line [] src1 = (None, buf2, src2)" "flowing src2" "length buf2 \<le> 4096"
        "buf2 @ arrived src2 = after_newline (arrived src1)" by auto
      with None rd False show ?thesis
        by (subst discard_oversized_line.simps) (auto simp: after_newline_append)
    qed
  qed
qed

lemma next_frame_too_long:
  assumes "position (\<lambda>b. b = NL) buf = None" "mx < length buf"
  shows "next_frame mx (buf @ rest) = (ReadErr MessageTooLong, after_newline (buf @ rest))"
  using assms by (subst next_frame.simps)
    (auto simp: after_newline_def position_append split: option.splits)

lemma too_long_flowing:
  assumes "flowing src" "position (\<lambda>b. b = NL) buf = None" "mx < length buf"
    "length buf \<le> mx + 1" "4096 \<le> mx + 1"
  shows "\<exists>buf1 src1. too_long buf src = (ReadErr MessageTooLong, buf1, src1) \<and>
     next_frame mx (buf @ arrived src) = (ReadErr MessageTooLong, buf1 @ arrived src1) \<and>
     flowing src1 \<and> length buf1 \<le> mx + 1"
proof -
  from discard_flowing [OF assms(1), of buf] obtain buf1 src1 where
    "discard_oversized_line buf src = (None, buf1, src1)" "flowing src1"
    "length buf1 \<le> max (length buf) 4096" "buf1 @ arrived src1 = after_newline (buf @ arrived src)"
    by blast
  with assms show ?thesis by (simp add: too_long_def next_frame_too_long)
qed

lemma read_line_loop_flowing:
  assumes "4096 \<le> mx + 1" "flowing src" "length buf \<le> mx + 1"
  shows "\<exists>out buf1 src1. read_line_loop mx buf src = (out, buf1, src1) \<and>
     next_frame mx (buf @ arrived src) = (out, buf1 @ arrived src1) \<and> flowing src1 \<and> length buf1 \<le> mx + 1"
  using assms
proof (induction mx buf src rule: read_line_loop.induct)
  case (1 mx buf src)
  note prems = "1.prems"
  show ?case
  proof (cases "position (\<lambda>b. b = NL) buf")
    case (Some pos)
    then have pos: "pos < length buf" by (rule position_less)
    have frame: "next_frame mx (buf @ arrived src) =
        (if \<not> utf8_valid (take pos buf) then (ReadErr InvalidUtf8, drop (Suc pos) buf @ arrived src)
         else if pos = 0 then next_frame mx (drop (Suc pos) buf @ arrived src)
         else (Line (take pos buf), drop (Suc pos) buf @ arrived src))"
      using Some pos prems by (subst next_frame.simps) (simp add: position_append)
    show ?thesis
    proof (cases "utf8_valid (take pos buf) \<and> pos = 0")
      case True
      from "1.IH"(2) [OF Some refl refl] True prems Some pos
      have "\<exists>out buf1 src1. read_line_loop mx (drop (Suc pos) buf) src = (out, buf1, src1) \<and>
         next_frame mx (drop (Suc pos) buf @ arrived src) = (out, buf1 @ arrived src1) \<and> flowing src1 \<and>
         length buf1 \<le> mx + 1" by simp
      with True Some frame show ?thesis by (subst read_line_loop.simps) simp
    next
      case False
      with Some frame pos prems show ?thesis by (subst read_line_loop.simps) (auto simp: Let_def)
    qed
  next
    case None
    show ?thesis
    proof (cases "length buf = mx + 1")
      case True
      with None prems too_long_flowing [of src buf mx] show ?thesis
        by (subst read_line_loop.simps) auto
    next
      case False
      let ?room = "mx + 1 - length buf"
      from False prems have room: "0 < ?room" "0 < min 4096 ?room" "\<not> mx + 1 < length buf" by auto
      obtain bs src1 where rd: "do_read (min 4096 ?room) src = (ReadBytes bs, src1)"
        "arrived src = bs @ arrived src1" "flowing src1" "length bs \<le> min 4096 ?room" "bs = [] \<longleftrightarrow> src = []"
        using do_read_flowing [OF prems(2) room(2)] by auto
      show ?thesis
      proof (cases "bs = []")
        case True
        with rd None False prems show ?thesis
          by (subst read_line_loop.simps, subst next_frame.simps) auto
      next
        case ne: False
        have len: "length (buf @ bs) \<le> mx + 1" using rd(4) prems(3) by (simp, linarith)
        from "1.IH"(1) [OF None refl room(3) refl _ rd(1) [symmetric] refl ne] room len prems rd(3)
        have "\<exists>out buf1 src2. read_line_loop mx (buf @ bs) src1 = (out, buf1, src2) \<and>
           next_frame mx ((buf @ bs) @ arrived src1) = (out, buf1 @ arrived src2) \<and> flowing src2 \<and>
           length buf1 \<le> mx + 1" by auto
        with ne rd None room len show ?thesis by (subst read_line_loop.simps) auto
      qed
    qed
  qed
qed

section \<open>A reader refines the framing of its stream\<close>

text \<open>The outcomes of \<open>n\<close> successive calls.\<close>

fun outputs :: "nat \<Rightarrow> ('s \<Rightarrow> 'o \<times> 's) \<Rightarrow> 's \<Rightarrow> 'o list" where
  "outputs 0 f s = []"
| "outputs (Suc n) f s = (case f s of (r, s') \<Rightarrow> r # outputs n f s')"

locale framed_reader =
  fixes next_line :: "'s \<Rightarrow> 'o \<times> 's" and frame :: "'b \<Rightarrow> 'o \<times> 'b"
    and stream :: "'s \<Rightarrow> 'b" and ok :: "'s \<Rightarrow> bool"
  assumes ok_next: "ok s \<Longrightarrow> ok (snd (next_line s))"
    and next_refines: "ok s \<Longrightarrow> frame (stream s) = map_prod id stream (next_line s)"
begin

lemma outputs_refine: "ok s \<Longrightarrow> outputs n next_line s = outputs n frame (stream s)"
proof (induction n arbitrary: s)
  case (Suc n)
  then show ?case
    using ok_next [OF Suc.prems] next_refines [OF Suc.prems] by (cases "next_line s") simp
qed simp

lemma outputs_same_stream:
  "ok s \<Longrightarrow> ok t \<Longrightarrow> stream s = stream t \<Longrightarrow> outputs n next_line s = outputs n next_line t"
  by (simp add: outputs_refine)

end

definition reader_stream :: "line_reader \<Rightarrow> u8 list" where
  "reader_stream r = lr_buf r @ arrived (lr_source r)"

definition reader_ok :: "line_reader \<Rightarrow> bool" where
  "reader_ok r \<longleftrightarrow> flowing (lr_source r) \<and> length (lr_buf r) \<le> MAX_MESSAGE_BYTES + 1"

lemma read_line_flowing:
  assumes "reader_ok r"
  shows "reader_ok (snd (read_line r)) \<and>
    next_frame MAX_MESSAGE_BYTES (reader_stream r) = map_prod id reader_stream (read_line r)"
proof -
  have "4096 \<le> MAX_MESSAGE_BYTES + 1" by (simp add: MAX_MESSAGE_BYTES_def)
  from read_line_loop_flowing [OF this] assms show ?thesis
    by (fastforce simp: reader_ok_def reader_stream_def read_line_def)
qed

interpretation session_reader:
  framed_reader read_line "next_frame MAX_MESSAGE_BYTES" reader_stream reader_ok
  by unfold_locales (use read_line_flowing in blast)+

lemma position_terminated: "NL \<notin> set l \<Longrightarrow> position (\<lambda>b. b = NL) (l @ NL # rest) = Some (length l)"
  using position_None_iff [of "\<lambda>b. b = NL" l] by (auto simp: position_append)

text \<open>What a terminated, non-empty line of the stream becomes.\<close>

definition outcome_of :: "u8 list \<Rightarrow> line_outcome" where
  "outcome_of l =
     (if MAX_MESSAGE_BYTES < length l then ReadErr MessageTooLong
      else if \<not> utf8_valid l then ReadErr InvalidUtf8 else Line l)"

lemma next_frame_terminated:
  "NL \<notin> set l \<Longrightarrow> l \<noteq> [] \<Longrightarrow> next_frame MAX_MESSAGE_BYTES (l @ NL # rest) = (outcome_of l, rest)"
  by (subst next_frame.simps) (simp add: position_terminated outcome_of_def)

lemma outputs_terminated:
  "list_all (\<lambda>l. NL \<notin> set l \<and> l \<noteq> []) ls \<Longrightarrow>
   outputs (length ls) (next_frame MAX_MESSAGE_BYTES) (concat (map (\<lambda>l. l @ [NL]) ls)) = map outcome_of ls"
  by (induction ls) (simp_all add: next_frame_terminated)

subsection \<open>Sources that pause\<close>

text \<open>A non-blocking source that never fails, and the number of its reads that find nothing yet.\<close>

definition pausing :: "chunk list \<Rightarrow> bool" where
  "pausing cs \<longleftrightarrow> list_all (\<lambda>c. case c of Data bs \<Rightarrow> bs \<noteq> [] | Blocks \<Rightarrow> True | Fails \<Rightarrow> False) cs"

definition pauses :: "chunk list \<Rightarrow> nat" where
  "pauses cs = length (filter (\<lambda>c. c = Blocks) cs)"

lemma pausing_simps [simp]:
  "pausing []" "pausing (Data bs # cs) \<longleftrightarrow> bs \<noteq> [] \<and> pausing cs" "pausing (Blocks # cs) \<longleftrightarrow> pausing cs" "\<not> pausing (Fails # cs)"
  "pauses [] = 0" "pauses (Data bs # cs) = pauses cs" "pauses (Blocks # cs) = Suc (pauses cs)"
  by (simp_all add: pausing_def pauses_def)

lemma do_read_pausing:
  assumes "pausing src" "0 < n" "src \<noteq> []"
  obtains (now) bs src1 where "do_read n src = (ReadBytes bs, src1)" "arrived src = bs @ arrived src1" "bs \<noteq> []"
      "pausing src1" "pauses src1 = pauses src"
  | (later) src1 where "do_read n src = (ReadWouldBlock, src1)" "arrived src1 = arrived src" "pausing src1"
      "Suc (pauses src1) = pauses src"
proof (cases src)
  case (Cons c cs)
  show ?thesis
  proof (cases c)
    case (Data b)
    with Cons assms show ?thesis by (intro now [of "take n b" "if length b \<le> n then cs else Data (drop n b) # cs"]) auto
  next
    case Blocks
    with Cons assms show ?thesis by (intro later [of cs]) auto
  qed (use Cons assms in simp)
qed (use assms in simp)

lemma read_line_loop_pausing:
  assumes "pausing src" "buf @ arrived src = l @ NL # rest" "NL \<notin> set l" "l \<noteq> []" "length l \<le> mx"
  shows "\<exists>out buf1 src1. read_line_loop mx buf src = (out, buf1, src1) \<and> pausing src1 \<and>
     (out = (if utf8_valid l then Line l else ReadErr InvalidUtf8) \<and> buf1 @ arrived src1 = rest \<and> pauses src1 = pauses src \<or>
      out = ReadErr IncompleteLine \<and> buf1 @ arrived src1 = l @ NL # rest \<and> Suc (pauses src1) = pauses src)"
  using assms
proof (induction mx buf src rule: read_line_loop.induct)
  case (1 mx buf src)
  note prems = "1.prems"
  have "position (\<lambda>b. b = NL) (l @ NL # rest) = Some (length l)"
    using prems(3) position_None_iff [of "\<lambda>b. b = NL" l] by (auto simp: position_append)
  then have pos: "position (\<lambda>b. b = NL) (buf @ arrived src) = Some (length l)" using prems(2) by simp
  show ?case
  proof (cases "position (\<lambda>b. b = NL) buf")
    case (Some k)
    then have k: "k = length l" "k < length buf" using pos position_less [OF Some] by (simp_all add: position_append)
    have "take k buf = take k (buf @ arrived src)" "drop (Suc k) buf @ arrived src = drop (Suc k) (buf @ arrived src)"
      using k(2) by simp_all
    then have "take k buf = l" "drop (Suc k) buf @ arrived src = rest" using k(1) prems(2) by simp_all
    with Some prems show ?thesis by (subst read_line_loop.simps) (auto simp: Let_def)
  next
    case None
    then have short: "length buf \<le> length l" using pos by (auto simp: position_append split: option.splits)
    then have room: "0 < min 4096 (mx + 1 - length buf)" "\<not> mx + 1 < length buf" "mx + 1 - length buf \<noteq> 0" using prems(5) by auto
    have more: "src \<noteq> []" using None pos by (auto simp: position_append split: option.splits)
    show ?thesis
    proof (rule do_read_pausing [OF prems(1) room(1) more])
      fix bs src1
      assume rd: "do_read (min 4096 (mx + 1 - length buf)) src = (ReadBytes bs, src1)" "arrived src = bs @ arrived src1" "bs \<noteq> []"
        "pausing src1" "pauses src1 = pauses src"
      have "length (buf @ bs) \<le> length l" if "NL \<notin> set (buf @ bs)"
      proof -
        have none: "position (\<lambda>b. b = NL) (buf @ bs) = None" using that by (auto simp: position_None_iff)
        then have "position (\<lambda>b. b = NL) ((buf @ bs) @ arrived src1) = Some (length l)" using pos rd(2) by simp
        then show ?thesis unfolding position_append [of _ "buf @ bs"] none by (auto split: option.splits)
      qed
      then have cont: "\<not> (mx + 1 < length (buf @ bs) \<and> NL \<notin> set (buf @ bs))" using prems(5) by fastforce
      from "1.IH"(1) [OF None refl room(2) refl room(3) rd(1) [symmetric] refl rd(3) cont rd(4)] prems rd(2)
      have "\<exists>out buf1 src2. read_line_loop mx (buf @ bs) src1 = (out, buf1, src2) \<and> pausing src2 \<and>
         (out = (if utf8_valid l then Line l else ReadErr InvalidUtf8) \<and> buf1 @ arrived src2 = rest \<and> pauses src2 = pauses src1 \<or>
          out = ReadErr IncompleteLine \<and> buf1 @ arrived src2 = l @ NL # rest \<and> Suc (pauses src2) = pauses src1)" by simp
      moreover have "read_line_loop mx buf src = read_line_loop mx (buf @ bs) src1"
        using None room rd cont by (subst read_line_loop.simps) (auto simp: Let_def)
      ultimately show ?thesis using rd(5) by simp
    next
      fix src1
      assume "do_read (min 4096 (mx + 1 - length buf)) src = (ReadWouldBlock, src1)" "arrived src1 = arrived src" "pausing src1"
        "Suc (pauses src1) = pauses src"
      with None room prems show ?thesis by (subst read_line_loop.simps) (simp add: Let_def)
    qed
  qed
qed

lemma paused_empty: "pausing src \<Longrightarrow> arrived src = [] \<Longrightarrow> pauses src = Suc n \<Longrightarrow> \<exists>cs. src = Blocks # cs \<and> pausing cs \<and> arrived cs = [] \<and> pauses cs = n"
  by (cases src rule: arrived.cases) auto

lemma outputs_pausing:
  assumes "pausing (lr_source r)" "reader_stream r = concat (map (\<lambda>l. l @ [NL]) ls)"
    "list_all (\<lambda>l. NL \<notin> set l \<and> l \<noteq> [] \<and> length l \<le> MAX_MESSAGE_BYTES) ls"
  shows "filter (\<lambda>x. x \<noteq> ReadErr IncompleteLine) (outputs (length ls + pauses (lr_source r)) read_line r) = map outcome_of ls"
  using assms
proof (induction "length ls + pauses (lr_source r)" arbitrary: r ls)
  case (Suc n)
  show ?case
  proof (cases ls)
    case Nil
    then have e: "lr_buf r = []" "arrived (lr_source r) = []" "pauses (lr_source r) = Suc n"
      using Suc.prems(2) Suc.hyps(2) by (simp_all add: reader_stream_def)
    from paused_empty [OF Suc.prems(1) e(2,3)] obtain cs where
      cs: "lr_source r = Blocks # cs" "pausing cs" "arrived cs = []" "pauses cs = n" by blast
    have step: "read_line r = (ReadErr IncompleteLine, r\<lparr>lr_buf := [], lr_source := cs\<rparr>)"
      using e(1) cs(1) by (simp add: read_line_def read_line_loop.simps)
    have "filter (\<lambda>x. x \<noteq> ReadErr IncompleteLine) (outputs (length ([] :: u8 list list) + pauses (lr_source (r\<lparr>lr_buf := [], lr_source := cs\<rparr>)))
        read_line (r\<lparr>lr_buf := [], lr_source := cs\<rparr>)) = map outcome_of []"
      by (rule Suc.hyps(1)) (use cs in \<open>simp_all add: reader_stream_def\<close>)
    with Nil step cs e(3) show ?thesis by simp
  next
    case (Cons l ls')
    have stream: "lr_buf r @ arrived (lr_source r) = l @ NL # concat (map (\<lambda>l. l @ [NL]) ls')"
      using Suc.prems(2) Cons by (simp add: reader_stream_def)
    have l: "NL \<notin> set l" "l \<noteq> []" "length l \<le> MAX_MESSAGE_BYTES" using Suc.prems(3) Cons by simp_all
    from read_line_loop_pausing [OF Suc.prems(1) stream l] obtain out buf1 src1 where
      run: "read_line_loop MAX_MESSAGE_BYTES (lr_buf r) (lr_source r) = (out, buf1, src1)" "pausing src1" and
      cases: "out = outcome_of l \<and> buf1 @ arrived src1 = concat (map (\<lambda>l. l @ [NL]) ls') \<and> pauses src1 = pauses (lr_source r) \<or>
        out = ReadErr IncompleteLine \<and> buf1 @ arrived src1 = l @ NL # concat (map (\<lambda>l. l @ [NL]) ls') \<and> Suc (pauses src1) = pauses (lr_source r)"
      using l(3) by (auto simp: outcome_of_def)
    let ?r = "r\<lparr>lr_buf := buf1, lr_source := src1\<rparr>"
    have step: "read_line r = (out, ?r)" using run(1) by (simp add: read_line_def)
    have not_paused: "outcome_of l \<noteq> ReadErr IncompleteLine" by (simp add: outcome_of_def)
    from cases show ?thesis
    proof
      assume got: "out = outcome_of l \<and> buf1 @ arrived src1 = concat (map (\<lambda>l. l @ [NL]) ls') \<and> pauses src1 = pauses (lr_source r)"
      have "filter (\<lambda>x. x \<noteq> ReadErr IncompleteLine) (outputs (length ls' + pauses (lr_source ?r)) read_line ?r) = map outcome_of ls'"
        by (rule Suc.hyps(1)) (use Suc.hyps(2) Suc.prems(3) Cons got run(2) in \<open>simp_all add: reader_stream_def\<close>)
      with Cons step got not_paused show ?thesis by simp
    next
      assume paused: "out = ReadErr IncompleteLine \<and> buf1 @ arrived src1 = l @ NL # concat (map (\<lambda>l. l @ [NL]) ls') \<and> Suc (pauses src1) = pauses (lr_source r)"
      have "filter (\<lambda>x. x \<noteq> ReadErr IncompleteLine) (outputs (length ls + pauses (lr_source ?r)) read_line ?r) = map outcome_of ls"
        by (rule Suc.hyps(1)) (use Suc.hyps(2) Suc.prems(3) Cons paused run(2) in \<open>simp_all add: reader_stream_def\<close>)
      moreover have more: "length ls + pauses (lr_source r) = Suc (length ls + pauses (lr_source ?r))" using paused by simp
      ultimately show ?thesis unfolding more using step paused by simp
    qed
  qed
qed simp

text \<open>C27: \<open>read_line\<close> frames a sequence of newline-terminated, non-empty messages independently of how the source splits their
  bytes, in two cases.  (1) On a source whose reads neither block nor fail, one outcome per message, in order: the message itself, or
  an error for exactly the messages that are over \<open>MAX_MESSAGE_BYTES\<close> or not UTF-8; an oversized message never swallows
  or corrupts the messages after it.  (2) On a non-blocking source, as the standard input of the session is, whose reads may block
  anywhere but do not fail, when no message is over the limit: a read that blocks makes the call answer an incomplete line and
  loses nothing, and the other outcomes are those of (1).  (Oversized messages on a source that blocks are C32.)\<close>

theorem read_line_frames:
  assumes "arrived cs = concat (map (\<lambda>l. l @ [NL]) ls)" "list_all (\<lambda>l. NL \<notin> set l \<and> l \<noteq> []) ls"
  shows "(flowing cs \<longrightarrow> outputs (length ls) read_line (reader_new cs) = map outcome_of ls) \<and>
    (pausing cs \<and> list_all (\<lambda>l. length l \<le> MAX_MESSAGE_BYTES) ls \<longrightarrow>
       filter (\<lambda>x. x \<noteq> ReadErr IncompleteLine) (outputs (length ls + pauses cs) read_line (reader_new cs)) = map outcome_of ls)"
proof (intro conjI impI)
  assume "flowing cs"
  then have "reader_ok (reader_new cs)" by (simp add: reader_ok_def reader_new_def)
  from session_reader.outputs_refine [OF this] assms show "outputs (length ls) read_line (reader_new cs) = map outcome_of ls"
    by (simp add: reader_stream_def reader_new_def outputs_terminated)
next
  assume "pausing cs \<and> list_all (\<lambda>l. length l \<le> MAX_MESSAGE_BYTES) ls"
  then show "filter (\<lambda>x. x \<noteq> ReadErr IncompleteLine) (outputs (length ls + pauses cs) read_line (reader_new cs)) = map outcome_of ls"
    using outputs_pausing [of "reader_new cs" ls] assms by (simp add: reader_new_def reader_stream_def list_all_iff)
qed

theorem read_line_frames_witness:
  "outputs 3 read_line (reader_new [Data [65], Data (10 # replicate 1100000 66), Data [66, 10, 67, 10]])
     = [Line [65], ReadErr MessageTooLong, Line [67]] \<and>
   filter (\<lambda>x. x \<noteq> ReadErr IncompleteLine) (outputs 4 read_line (reader_new [Data [65], Blocks, Data [10, 66], Blocks, Data [10]]))
     = [Line [65], Line [66]]"
proof
  define n :: nat where "n = 1100000"
  let ?cs = "[Data [65], Data (10 # replicate n 66), Data [66, 10, 67, 10]]"
  let ?ls = "[[65], replicate n 66 @ [66], [67]] :: u8 list list"
  have "arrived ?cs = concat (map (\<lambda>l. l @ [NL]) ?ls)" by (simp add: NL_def)
  from read_line_frames [OF this]
  have "outputs 3 read_line (reader_new ?cs) = map outcome_of ?ls"
    by (simp add: flowing_def NL_def numeral_3_eq_3)
  also have "\<dots> = [Line [65], ReadErr MessageTooLong, Line [67]]"
    by (simp add: outcome_of_def n_def MAX_MESSAGE_BYTES_def)
  finally show "outputs 3 read_line (reader_new [Data [65], Data (10 # replicate 1100000 66), Data [66, 10, 67, 10]])
     = [Line [65], ReadErr MessageTooLong, Line [67]]" unfolding n_def .
next
  let ?cs = "[Data [65], Blocks, Data [10, 66], Blocks, Data [10]]"
  let ?ls = "[[65], [66]] :: u8 list list"
  have "arrived ?cs = concat (map (\<lambda>l. l @ [NL]) ?ls)" by (simp add: NL_def)
  from read_line_frames [OF this]
  have "filter (\<lambda>x. x \<noteq> ReadErr IncompleteLine) (outputs (length ?ls + pauses ?cs) read_line (reader_new ?cs)) = map outcome_of ?ls"
    by (simp add: NL_def MAX_MESSAGE_BYTES_def)
  moreover have "length ?ls + pauses ?cs = 4" by simp
  moreover have "map outcome_of ?ls = [Line [65], Line [66]]" by (simp add: outcome_of_def MAX_MESSAGE_BYTES_def)
  ultimately show "filter (\<lambda>x. x \<noteq> ReadErr IncompleteLine) (outputs 4 read_line (reader_new ?cs)) = [Line [65], Line [66]]" by (simp only:)
qed

section \<open>An oversized line on a non-blocking source\<close>

lemma discard_blocks:
  "NL \<notin> set (buf @ g) \<Longrightarrow> g \<noteq> [] \<Longrightarrow>
   discard_oversized_line buf (Data g # Blocks # cs) = (Some IncompleteLine, [], cs)"
proof (induction "length g" arbitrary: g buf rule: less_induct)
  case less
  from less.prems have none: "position (\<lambda>b. b = NL) buf = None" "position (\<lambda>b. b = NL) (take 4096 g) = None"
    by (auto simp: position_None_iff dest: in_set_takeD)
  show ?case
  proof (cases "length g \<le> 4096")
    case True
    with none less.prems show ?thesis
      by (subst discard_oversized_line.simps) (simp add: discard_oversized_line.simps [of "[]" "Blocks # cs"])
  next
    case False
    then have "discard_oversized_line [] (Data (drop 4096 g) # Blocks # cs) = (Some IncompleteLine, [], cs)"
      using less.prems by (intro less.hyps) (auto dest: in_set_dropD)
    with False none less.prems show ?thesis by (subst discard_oversized_line.simps) simp
  qed
qed

lemma read_line_loop_blocks:
  "NL \<notin> set (buf @ g) \<Longrightarrow> g \<noteq> [] \<Longrightarrow> length buf \<le> mx + 1 \<Longrightarrow> mx < length (buf @ g) \<Longrightarrow>
   read_line_loop mx buf (Data g # Blocks # cs) = (ReadErr IncompleteLine, [], cs)"
proof (induction "length g" arbitrary: g buf rule: less_induct)
  case less
  let ?k = "min 4096 (mx + 1 - length buf)"
  from less.prems have none: "position (\<lambda>b. b = NL) buf = None" by (auto simp: position_None_iff)
  show ?case
  proof (cases "length buf = mx + 1")
    case True
    with none less.prems show ?thesis
      by (subst read_line_loop.simps) (simp add: too_long_def discard_blocks)
  next
    case room: False
    show ?thesis
    proof (cases "length g \<le> ?k")
      case True
      with less.prems have full: "length (buf @ g) = mx + 1" by (simp, linarith)
      with less.prems have "position (\<lambda>b. b = NL) (buf @ g) = None" by (auto simp: position_None_iff)
      with full have "read_line_loop mx (buf @ g) (Blocks # cs) = (ReadErr IncompleteLine, [], cs)"
        by (simp add: read_line_loop.simps [of mx "buf @ g"] too_long_def
            discard_oversized_line.simps [of "buf @ g" "Blocks # cs"])
      with True full room none less.prems show ?thesis by (subst read_line_loop.simps) (simp add: Let_def)
    next
      case False
      have "read_line_loop mx (buf @ take ?k g) (Data (drop ?k g) # Blocks # cs) = (ReadErr IncompleteLine, [], cs)"
        using less.prems False room by (intro less.hyps) (auto dest: in_set_takeD in_set_dropD)
      moreover have "\<not> mx + 1 < length buf + ?k" "mx + 1 - length buf \<noteq> 0" "?k \<noteq> 0"
        using room less.prems by auto
      ultimately show ?thesis using False none less.prems
        by (subst read_line_loop.simps) (auto simp: Let_def simp del: min_less_iff_conj)
    qed
  qed
qed

text \<open>C32: When the bytes of an oversized line have not all arrived on the non-blocking standard input,
  \<open>read_line\<close> forgets that it is inside an oversized line: it reports an incomplete line, and the
  next call returns the rest of the oversized line as if it were a message.\<close>

theorem oversized_tail_becomes_message:
  assumes "NL \<notin> set g" "MAX_MESSAGE_BYTES < length g"
    "NL \<notin> set l" "l \<noteq> []" "utf8_valid l" "length l \<le> MAX_MESSAGE_BYTES"
  shows "outputs 2 read_line (reader_new [Data g, Blocks, Data (l @ [NL])])
           = [ReadErr IncompleteLine, Line l]"
proof -
  have "read_line (reader_new [Data g, Blocks, Data (l @ [NL])])
      = (ReadErr IncompleteLine, reader_new [Data (l @ [NL])])"
    using assms(1,2) read_line_loop_blocks [of "[]" g MAX_MESSAGE_BYTES "[Data (l @ [NL])]"]
    by (cases "g = []") (simp_all add: read_line_def reader_new_def)
  moreover have "outputs 1 read_line (reader_new [Data (l @ [NL])]) = map outcome_of [l]"
    using assms(3,4) session_reader.outputs_refine [of "reader_new [Data (l @ [NL])]" 1]
      outputs_terminated [of "[l]"]
    by (simp add: reader_ok_def reader_new_def reader_stream_def flowing_def)
  ultimately show ?thesis using assms(5,6) by (simp add: numeral_2_eq_2 outcome_of_def)
qed

theorem oversized_tail_becomes_message_witness:
  "outputs 2 read_line (reader_new [Data (replicate 1100000 66), Blocks, Data ([123, 125] @ [NL])])
     = [ReadErr IncompleteLine, Line [123, 125]]"
proof -
  define n :: nat where "n = 1100000"
  have "outputs 2 read_line (reader_new [Data (replicate n 66), Blocks, Data ([123, 125] @ [NL])])
     = [ReadErr IncompleteLine, Line [123, 125]]"
    by (rule oversized_tail_becomes_message) (simp_all add: NL_def n_def MAX_MESSAGE_BYTES_def)
  then show ?thesis unfolding n_def .
qed

end
