(* ===== verification/ProcInfo.thy ===== *)
theory ProcInfo
  imports Utf8
begin

text \<open>
  Identification of Linux processes (\<open>ro-tools-linux/src/wine_process.rs\<close>): parsing
  \<open>/proc/<pid>/stat\<close>, process identities that survive PID reuse, signalling through a pidfd, the
  descendant test, and the search for the game client and for the processes of a prefix.

  A snapshot of \<open>/proc\<close> is a record of the bytes its files hold at one moment (\<^const>\<open>None\<close> when a file
  cannot be read).  Where the code reads \<open>/proc\<close> again to confirm an identity, the definitions take
  the later snapshot as a separate argument: nothing ties the two together.  Signalling runs against a kernel
  whose processes change at every call: opening the pidfd, verifying and sending each happen at a moment of their own.
\<close>

section \<open>Snapshots and identities\<close>

record proc_fs =
  pr_names :: "u8 list list option"
  pr_stat :: "u32 \<Rightarrow> u8 list option"
  pr_comm :: "u32 \<Rightarrow> u8 list option"
  pr_cmdline :: "u32 \<Rightarrow> u8 list option"
  pr_environ :: "u32 \<Rightarrow> u8 list option"

record process_identity =
  pi_pid :: u32
  pi_start_time :: u64

definition parse_proc_stat :: "text_points \<Rightarrow> (u32 \<times> u64) option" where
  "parse_proc_stat stat =
     (if 41 \<notin> set stat then None
      else let fields = split_whitespace (after_last (\<lambda>c. c = 41) stat)
           in if length fields \<le> 1 then None
              else (case parse_u32 (fields ! 1) of
                      None \<Rightarrow> None
                    | Some ppid \<Rightarrow>
                        if length fields \<le> 19 then None
                        else (case parse_u64 (fields ! 19) of
                                None \<Rightarrow> None
                              | Some start_time \<Rightarrow> Some (ppid, start_time))))"

definition read_stat :: "proc_fs \<Rightarrow> u32 \<Rightarrow> text_points option" where
  "read_stat p pid = Option.bind (pr_stat p pid) from_utf8"

definition capture_process_identity :: "proc_fs \<Rightarrow> u32 \<Rightarrow> process_identity option" where
  "capture_process_identity p pid =
     (case Option.bind (read_stat p pid) parse_proc_stat of
        None \<Rightarrow> None
      | Some (_, start_time) \<Rightarrow> Some \<lparr>pi_pid = pid, pi_start_time = start_time\<rparr>)"

definition verify_process_identity :: "proc_fs \<Rightarrow> process_identity \<Rightarrow> bool" where
  "verify_process_identity p identity \<longleftrightarrow> capture_process_identity p (pi_pid identity) = Some identity"

definition read_ppid :: "proc_fs \<Rightarrow> u32 \<Rightarrow> u32 option" where
  "read_ppid p pid = map_option fst (Option.bind (read_stat p pid) parse_proc_stat)"

section \<open>Descendants\<close>

text \<open>The loop of \<open>is_descendant_of\<close>, with the number of remaining iterations.\<close>

fun descendant_loop :: "(u32 \<Rightarrow> u32 option) \<Rightarrow> u32 \<Rightarrow> nat \<Rightarrow> u32 \<Rightarrow> bool" where
  "descendant_loop ppid_of ancestor 0 current = False"
| "descendant_loop ppid_of ancestor (Suc n) current =
     (case ppid_of current of
        None \<Rightarrow> False
      | Some ppid \<Rightarrow>
          if ppid = ancestor then True
          else if ppid \<le> 1 \<or> ppid = current then False
          else descendant_loop ppid_of ancestor n ppid)"

definition is_descendant_of :: "proc_fs \<Rightarrow> u32 \<Rightarrow> u32 \<Rightarrow> bool" where
  "is_descendant_of p pid ancestor \<longleftrightarrow>
     pid = ancestor \<or> descendant_loop (read_ppid p) ancestor 64 pid"

section \<open>Signalling an identity\<close>

text \<open>
  Every system call and every reading of \<open>/proc\<close> is made at a moment of its own, and anything may happen to the other
  processes between two of them: \<open>sk_occupant\<close> is the process that has a PID at each moment, given by its start time (a
  process instance is its PID with its start time), \<open>sk_proc\<close> what \<open>/proc\<close> holds at each moment, and the last two fields are the
  error numbers with which the kernel refuses a call, other than that the process is gone.  \<open>sg_sent\<close>: the instances that
  were sent the signal, the last first, and the call it went through.
\<close>

record signal_kernel =
  sk_occupant :: "nat \<Rightarrow> u32 \<Rightarrow> u64 option"
  sk_proc :: "nat \<Rightarrow> proc_fs"
  sk_open_errno :: "nat \<Rightarrow> int option"
  sk_send_errno :: "nat \<Rightarrow> int option"

datatype delivery = ViaPidFd | ViaKill

record signal_state =
  sg_clock :: nat
  sg_sent :: "(process_identity \<times> delivery) list"

type_synonym 'a signal_run = "signal_state \<Rightarrow> 'a \<times> signal_state"

definition moment :: "signal_state \<Rightarrow> signal_state" where
  "moment s = s\<lparr>sg_clock := Suc (sg_clock s)\<rparr>"

text \<open>A descriptor refers to one instance for its whole lifetime.\<close>

datatype pidfd_answer = PidFd process_identity | PidFdNoProcess | PidFdError int

definition ESRCH :: int where "ESRCH = 3"
definition ENOSYS :: int where "ENOSYS = 38"
definition EPERM :: int where "EPERM = 1"
definition EINVAL :: int where "EINVAL = 22"

definition SYS_pidfd_open :: "signal_kernel \<Rightarrow> u32 \<Rightarrow> nat \<Rightarrow> (int, process_identity) result" where
  "SYS_pidfd_open k pid t =
     (case sk_open_errno k t of
        Some e \<Rightarrow> Inl e
      | None \<Rightarrow> (case sk_occupant k t pid of None \<Rightarrow> Inl ESRCH | Some st \<Rightarrow> Inr \<lparr>pi_pid = pid, pi_start_time = st\<rparr>))"

text \<open>\<open>PidFd::open\<close>\<close>

definition pidfd_open :: "signal_kernel \<Rightarrow> u32 \<Rightarrow> pidfd_answer signal_run" where
  "pidfd_open k pid s =
     ((case SYS_pidfd_open k pid (sg_clock s) of
         Inr i \<Rightarrow> PidFd i
       | Inl e \<Rightarrow> if e = ESRCH then PidFdNoProcess else PidFdError e), moment s)"

definition verify_now :: "signal_kernel \<Rightarrow> process_identity \<Rightarrow> bool signal_run" where
  "verify_now k identity s = (verify_process_identity (sk_proc k (sg_clock s)) identity, moment s)"

definition signal_result :: "int option \<Rightarrow> (int, bool) result" where
  "signal_result errno =
     (case errno of None \<Rightarrow> Inr True | Some e \<Rightarrow> if e = ESRCH then Inr False else Inl e)"

text \<open>A signalling call: the target, if it still exists, is sent the signal.\<close>

definition deliver :: "signal_kernel \<Rightarrow> delivery \<Rightarrow> process_identity option \<Rightarrow> (int, bool) result signal_run" where
  "deliver k via target s =
     (case sk_send_errno k (sg_clock s) of
        Some e \<Rightarrow> (signal_result (Some e), moment s)
      | None \<Rightarrow>
          (case target of
             None \<Rightarrow> (signal_result (Some ESRCH), moment s)
           | Some i \<Rightarrow> (signal_result None, moment (s\<lparr>sg_sent := (i, via) # sg_sent s\<rparr>))))"

text \<open>\<open>PidFd::send\<close>, to the instance of the descriptor; \<open>kill\<close>, to whoever has the PID now.\<close>

definition pidfd_send :: "signal_kernel \<Rightarrow> process_identity \<Rightarrow> (int, bool) result signal_run" where
  "pidfd_send k i s =
     deliver k ViaPidFd (if sk_occupant k (sg_clock s) (pi_pid i) = Some (pi_start_time i) then Some i else None) s"

definition kill_pid :: "signal_kernel \<Rightarrow> u32 \<Rightarrow> (int, bool) result signal_run" where
  "kill_pid k pid s =
     deliver k ViaKill (map_option (\<lambda>st. \<lparr>pi_pid = pid, pi_start_time = st\<rparr>) (sk_occupant k (sg_clock s) pid)) s"

definition signal_if_identity :: "signal_kernel \<Rightarrow> process_identity \<Rightarrow> process_identity \<Rightarrow> (int, bool) result signal_run" where
  "signal_if_identity k pidfd identity s =
     (case verify_now k identity s of
        (same, s1) \<Rightarrow> if \<not> same then (Inr False, s1) else pidfd_send k pidfd s1)"

definition legacy_signal_process_identity :: "signal_kernel \<Rightarrow> process_identity \<Rightarrow> (int, bool) result signal_run" where
  "legacy_signal_process_identity k identity s =
     (case verify_now k identity s of
        (same, s1) \<Rightarrow> if \<not> same then (Inr False, s1) else kill_pid k (pi_pid identity) s1)"

definition signal_process_identity :: "signal_kernel \<Rightarrow> process_identity \<Rightarrow> (int, bool) result signal_run" where
  "signal_process_identity k identity s =
     (case pidfd_open k (pi_pid identity) s of
        (PidFd i, s1) \<Rightarrow> signal_if_identity k i identity s1
      | (PidFdNoProcess, s1) \<Rightarrow> (Inr False, s1)
      | (PidFdError e, s1) \<Rightarrow>
          if e = ENOSYS \<or> e = EPERM \<or> e = EINVAL then legacy_signal_process_identity k identity s1
          else (Inl e, s1))"

section \<open>Matching a process\<close>

definition parse_nul_fields :: "u8 list \<Rightarrow> u8 list list" where
  "parse_nul_fields bytes = filter (\<lambda>field. field \<noteq> []) (split_on 0 bytes)"

definition windows_basename :: "text_points \<Rightarrow> text_points" where
  "windows_basename path = after_last (\<lambda>c. c = 47 \<or> c = 92) path"

text \<open>\<open>fs::canonicalize\<close> of a path text, \<^const>\<open>None\<close> on error, is the argument \<open>canon\<close>.\<close>

definition normalize_prefix :: "(text_points \<Rightarrow> text_points option) \<Rightarrow> text_points \<Rightarrow> text_points" where
  "normalize_prefix canon prefix_path =
     (if prefix_path = [] then []
      else (case canon prefix_path of Some p \<Rightarrow> p | None \<Rightarrow> prefix_path))"

definition split_once_byte :: "u8 list \<Rightarrow> u8 \<Rightarrow> (u8 list \<times> u8 list) option" where
  "split_once_byte bytes separator =
     (case position (\<lambda>b. b = separator) bytes of
        None \<Rightarrow> None | Some i \<Rightarrow> Some (take i bytes, drop (i + 1) bytes))"

definition ascii_bytes :: "string \<Rightarrow> u8 list" where
  "ascii_bytes s = map of_char s"

definition prefix_matches ::
  "(text_points \<Rightarrow> text_points option) \<Rightarrow> u8 list list \<Rightarrow> text_points \<Rightarrow> bool" where
  "prefix_matches canon environ prefix_norm \<longleftrightarrow>
     prefix_norm = [] \<or>
     list_ex (\<lambda>entry. case split_once_byte entry 61 of
                None \<Rightarrow> False
              | Some (key, v) \<Rightarrow> key = ascii_bytes ''WINEPREFIX'' \<and>
                  normalize_prefix canon (decode_lossy v) = prefix_norm) environ"

definition is_quote :: "nat \<Rightarrow> bool" where "is_quote c \<longleftrightarrow> c = 34"

definition cmdline_matches_prefix :: "u8 list list \<Rightarrow> text_points \<Rightarrow> bool" where
  "cmdline_matches_prefix cmdline prefix_norm \<longleftrightarrow>
     list_ex (\<lambda>arg.
       let t = trim_by is_quote (decode_lossy arg);
           v = (case split_once 61 t of Some (_, v) \<Rightarrow> v | None \<Rightarrow> t);
           candidate = trim_end_by (\<lambda>c. c = 47) v
       in candidate = prefix_norm \<or>
          (case strip_prefix prefix_norm candidate of
             None \<Rightarrow> False | Some rest \<Rightarrow> prefix [47] rest)) cmdline"

definition process_name_matches_exe :: "text_points \<Rightarrow> text_points \<Rightarrow> bool" where
  "process_name_matches_exe process_name exe_name \<longleftrightarrow>
     same_ignoring_case process_name exe_name \<or>
     15 < length exe_name \<and> same_ignoring_case process_name (take 15 exe_name)"

definition process_matches_exe :: "proc_fs \<Rightarrow> u32 \<Rightarrow> u8 list list \<Rightarrow> text_points \<Rightarrow> bool" where
  "process_matches_exe p pid cmdline exe_name \<longleftrightarrow>
     (case cmdline of
        [] \<Rightarrow> False
      | arg # _ \<Rightarrow> same_ignoring_case (windows_basename (trim_by is_quote (decode_lossy arg))) exe_name) \<or>
     process_name_matches_exe
       (trim_by white_point (case Option.bind (pr_comm p pid) from_utf8 of Some c \<Rightarrow> c | None \<Rightarrow> []))
       exe_name"

text \<open>The reasons joined by \<open>+\<close>.\<close>

datatype reason = RCmdline | RPrefix | RLauncher | RChild

fun reason_text :: "reason \<Rightarrow> string" where
  "reason_text RCmdline = ''cmdline''"
| "reason_text RPrefix = ''prefix''"
| "reason_text RLauncher = ''launcher''"
| "reason_text RChild = ''child''"

definition join_reasons :: "reason list \<Rightarrow> string" where
  "join_reasons rs = concat_with (CHR ''+'') (map reason_text rs)"

definition match_reasons :: "bool \<Rightarrow> bool \<Rightarrow> bool \<Rightarrow> reason list" where
  "match_reasons prefix_matched is_launcher is_child =
     [RCmdline] @ (if prefix_matched then [RPrefix] else []) @
     (if is_launcher then [RLauncher] else if is_child then [RChild] else [])"

definition match_process_fields ::
  "(text_points \<Rightarrow> text_points option) \<Rightarrow> u8 list list \<Rightarrow> u8 list list \<Rightarrow> text_points \<Rightarrow> bool \<Rightarrow> bool
     \<Rightarrow> string option" where
  "match_process_fields canon cmdline environ prefix_norm is_launcher is_child =
     (let prefix_matched = prefix_norm \<noteq> [] \<and>
            (prefix_matches canon environ prefix_norm \<or> cmdline_matches_prefix cmdline prefix_norm)
      in if prefix_norm \<noteq> [] \<and> \<not> prefix_matched \<and> \<not> is_launcher \<and> \<not> is_child then None
         else Some (join_reasons (match_reasons prefix_matched is_launcher is_child)))"

section \<open>The game client and the processes of a prefix\<close>

record game_process_candidate =
  gc_pid :: u32
  gc_identity :: process_identity
  gc_reason :: string

definition fields_or_default :: "u8 list option \<Rightarrow> u8 list list" where
  "fields_or_default bytes = (case bytes of None \<Rightarrow> [] | Some b \<Rightarrow> parse_nul_fields b)"

definition match_stable_process ::
  "(text_points \<Rightarrow> text_points option) \<Rightarrow> proc_fs \<Rightarrow> proc_fs \<Rightarrow> u32 \<Rightarrow> text_points \<Rightarrow> text_points \<Rightarrow> u32
     \<Rightarrow> game_process_candidate option" where
  "match_stable_process canon p later pid exe_name prefix_norm launcher_pid =
     (case capture_process_identity p pid of
        None \<Rightarrow> None
      | Some identity \<Rightarrow>
          (case map_option parse_nul_fields (pr_cmdline p pid) of
             None \<Rightarrow> None
           | Some cmdline \<Rightarrow>
               if \<not> process_matches_exe p pid cmdline exe_name then None
               else
                 let environ = fields_or_default (pr_environ p pid);
                     is_launcher = (pid = launcher_pid);
                     is_child = (\<not> is_launcher \<and> is_descendant_of p pid launcher_pid)
                 in (case match_process_fields canon cmdline environ prefix_norm is_launcher is_child of
                       None \<Rightarrow> None
                     | Some why \<Rightarrow>
                         if verify_process_identity later identity
                         then Some \<lparr>gc_pid = pid, gc_identity = identity, gc_reason = why\<rparr>
                         else None)))"

text \<open>The numeric entries of \<open>/proc\<close>.\<close>

definition proc_pid :: "u8 list \<Rightarrow> u32 option" where
  "proc_pid name =
     (case from_utf8 name of
        None \<Rightarrow> None
      | Some t \<Rightarrow> if list_all (\<lambda>c. 48 \<le> c \<and> c \<le> 57) t then parse_u32 t else None)"

definition proc_pids :: "proc_fs \<Rightarrow> u32 list" where
  "proc_pids p = (case pr_names p of None \<Rightarrow> [] | Some names \<Rightarrow> List.map_filter proc_pid names)"

definition contains_sub :: "string \<Rightarrow> string \<Rightarrow> bool" where
  "contains_sub s needle \<longleftrightarrow> find_sub needle s \<noteq> None"

definition score_candidate :: "game_process_candidate \<Rightarrow> u32 \<Rightarrow> u32" where
  "score_candidate c launcher_pid =
     (let score = (if gc_pid c = launcher_pid then 100 else 0) +
                  (if contains_sub (gc_reason c) ''child'' then 50 else 0) +
                  (if contains_sub (gc_reason c) ''prefix'' then 10 else 0) +
                  (if contains_sub (gc_reason c) ''cmdline'' then 5 else 0)
      in - 1 - score)"

definition find_game_processes ::
  "(text_points \<Rightarrow> text_points option) \<Rightarrow> proc_fs \<Rightarrow> (u32 \<Rightarrow> proc_fs) \<Rightarrow> u32 \<Rightarrow> text_points \<Rightarrow> text_points
     \<Rightarrow> game_process_candidate list" where
  "find_game_processes canon p later launcher_pid exe_path wine_prefix =
     (let exe_name = windows_basename exe_path;
          prefix_norm = normalize_prefix canon wine_prefix;
          try_pid = (\<lambda>pid. match_stable_process canon p (later pid) pid exe_name prefix_norm launcher_pid)
      in sort_by_key (\<lambda>c. score_candidate c launcher_pid)
           (List.map_filter try_pid (launcher_pid # filter (\<lambda>pid. pid \<noteq> launcher_pid) (proc_pids p))))"

definition resolve_game_pid ::
  "(text_points \<Rightarrow> text_points option) \<Rightarrow> proc_fs \<Rightarrow> (u32 \<Rightarrow> proc_fs) \<Rightarrow> u32 \<Rightarrow> text_points \<Rightarrow> text_points
     \<Rightarrow> u32 option" where
  "resolve_game_pid canon p later launcher_pid exe_path wine_prefix =
     (case find_game_processes canon p later launcher_pid exe_path wine_prefix of
        [] \<Rightarrow> None | c # _ \<Rightarrow> Some (gc_pid c))"

definition prefix_process ::
  "(text_points \<Rightarrow> text_points option) \<Rightarrow> proc_fs \<Rightarrow> proc_fs \<Rightarrow> text_points \<Rightarrow> u32 \<Rightarrow> process_identity option" where
  "prefix_process canon p later prefix_norm pid =
     (case capture_process_identity p pid of
        None \<Rightarrow> None
      | Some identity \<Rightarrow>
          (case map_option parse_nul_fields (pr_environ p pid) of
             None \<Rightarrow> None
           | Some environment \<Rightarrow>
               if prefix_matches canon environment prefix_norm \<and> verify_process_identity later identity
               then Some identity else None))"

definition find_prefix_processes ::
  "(text_points \<Rightarrow> text_points option) \<Rightarrow> proc_fs \<Rightarrow> (u32 \<Rightarrow> proc_fs) \<Rightarrow> text_points
     \<Rightarrow> process_identity list" where
  "find_prefix_processes canon p later wine_prefix =
     (let prefix_norm = normalize_prefix canon wine_prefix
      in if prefix_norm = [] then []
         else sort_by_key pi_pid
                (List.map_filter (\<lambda>pid. prefix_process canon p (later pid) prefix_norm pid) (proc_pids p)))"

section \<open>Left-over Wine daemons\<close>

definition PREFIX_LEFTOVER_EXECUTABLES :: "text_points list" where
  "PREFIX_LEFTOVER_EXECUTABLES =
     map points [''wineserver'', ''winedevice.exe'', ''plugplay.exe'', ''services.exe'', ''rpcss.exe'',
       ''svchost.exe'', ''explorer.exe'', ''wineboot.exe'', ''start.exe'']"

definition is_prefix_leftover_executable :: "text_points \<Rightarrow> bool" where
  "is_prefix_leftover_executable name \<longleftrightarrow>
     list_ex (\<lambda>allowed. same_ignoring_case name allowed) PREFIX_LEFTOVER_EXECUTABLES"

definition is_leftover_from_comm_and_argv0 :: "text_points \<Rightarrow> text_points option \<Rightarrow> bool" where
  "is_leftover_from_comm_and_argv0 comm argv0_basename \<longleftrightarrow>
     is_prefix_leftover_executable comm \<and>
     (case argv0_basename of None \<Rightarrow> True | Some argv0 \<Rightarrow> is_prefix_leftover_executable argv0)"

definition argv0_basename_from_cmdline :: "proc_fs \<Rightarrow> u32 \<Rightarrow> text_points option" where
  "argv0_basename_from_cmdline p pid =
     (case map_option parse_nul_fields (pr_cmdline p pid) of
        Some (arg # _) \<Rightarrow> Some (windows_basename (trim_by is_quote (decode_lossy arg)))
      | _ \<Rightarrow> None)"

definition read_comm :: "proc_fs \<Rightarrow> u32 \<Rightarrow> text_points option" where
  "read_comm p pid = map_option (trim_by white_point) (Option.bind (pr_comm p pid) from_utf8)"

definition process_executable_label :: "proc_fs \<Rightarrow> u32 \<Rightarrow> text_points option" where
  "process_executable_label p pid =
     (case read_comm p pid of
        None \<Rightarrow> None
      | Some comm \<Rightarrow>
          let argv0_base = argv0_basename_from_cmdline p pid
          in if is_leftover_from_comm_and_argv0 comm argv0_base then Some comm
             else (case argv0_base of Some a \<Rightarrow> Some a | None \<Rightarrow> Some comm))"

definition is_prefix_leftover_process :: "proc_fs \<Rightarrow> u32 \<Rightarrow> bool" where
  "is_prefix_leftover_process p pid \<longleftrightarrow>
     (case read_comm p pid of
        Some comm \<Rightarrow> is_leftover_from_comm_and_argv0 comm (argv0_basename_from_cmdline p pid)
      | None \<Rightarrow> False)"

section \<open>The descendant test decides the parent relation\<close>

text \<open>\<open>descends f a n pid\<close>: \<open>n\<close> steps of the parent function lead from \<open>pid\<close> to \<open>a\<close>, and no process
  strictly between them is init or the kernel.\<close>

inductive descends :: "(u32 \<Rightarrow> u32 option) \<Rightarrow> u32 \<Rightarrow> nat \<Rightarrow> u32 \<Rightarrow> bool" for f a where
  here: "descends f a 0 a"
| up: "f pid = Some q \<Longrightarrow> q = a \<or> 1 < q \<Longrightarrow> descends f a n q \<Longrightarrow> descends f a (Suc n) pid"

inductive_cases descends_SucE: "descends f a (Suc n) pid"
inductive_simps descends_0 [simp]: "descends f a 0 pid"

lemma descends_self_loop: "descends f a n c \<Longrightarrow> f c = Some c \<Longrightarrow> c = a"
  by (induction rule: descends.induct) auto

lemma descendant_loop_sound: "descendant_loop f a n c \<Longrightarrow> \<exists>k\<le>n. descends f a k c"
proof (induction n arbitrary: c)
  case (Suc n)
  from Suc.prems obtain q where q: "f c = Some q" "q = a \<or> 1 < q \<and> descendant_loop f a n q"
    by (auto split: option.splits if_splits simp: not_le)
  from q(2) have "\<exists>k\<le>n. descends f a k q" using Suc.IH descends.here by blast
  with q show ?case by (meson Suc_le_mono descends.up)
qed simp

lemma descendant_loop_complete: "descends f a k c \<Longrightarrow> c \<noteq> a \<Longrightarrow> k \<le> n \<Longrightarrow> descendant_loop f a n c"
proof (induction arbitrary: n rule: descends.induct)
  case (up c q k)
  then obtain m where m: "n = Suc m" "k \<le> m" by (cases n) auto
  have "q \<noteq> c" if "q \<noteq> a" using up.hyps that descends_self_loop by blast
  then have "\<not> (q \<le> 1 \<or> q = c)" if "q \<noteq> a" using that up.hyps(2) by auto
  with m up show ?case by auto
qed simp

text \<open>\<open>is_descendant_of\<close> decides exactly whether the ancestor is reached from the process by at most
  64 parent steps that do not pass through init: it terminates on parent cycles and never mistakes
  one for descent.\<close>

theorem is_descendant_of_iff:
  "is_descendant_of p pid ancestor \<longleftrightarrow> (\<exists>n\<le>64. descends (read_ppid p) ancestor n pid)"
proof
  assume "is_descendant_of p pid ancestor"
  then show "\<exists>n\<le>64. descends (read_ppid p) ancestor n pid"
    unfolding is_descendant_of_def
    using descendant_loop_sound [of "read_ppid p" ancestor 64 pid] by (auto intro: exI [of _ 0] here)
next
  assume "\<exists>n\<le>64. descends (read_ppid p) ancestor n pid"
  then show "is_descendant_of p pid ancestor"
    unfolding is_descendant_of_def by (meson descendant_loop_complete)
qed

section \<open>A pidfd never signals a reused PID\<close>

text \<open>
  The kernel's history: the start time of the process that holds a PID at each moment.  A process
  instance holds its PID without interruption.
\<close>

definition uninterrupted :: "(nat \<Rightarrow> u32 \<Rightarrow> u64 option) \<Rightarrow> bool" where
  "uninterrupted occupant \<longleftrightarrow>
     (\<forall>pid st r s t. r \<le> s \<longrightarrow> s \<le> t \<longrightarrow> occupant r pid = Some st \<longrightarrow> occupant t pid = Some st \<longrightarrow>
        occupant s pid = Some st)"

definition shows_history :: "(nat \<Rightarrow> u32 \<Rightarrow> u64 option) \<Rightarrow> nat \<Rightarrow> proc_fs \<Rightarrow> bool" where
  "shows_history occupant t p \<longleftrightarrow>
     (\<forall>pid identity. capture_process_identity p pid = Some identity \<longrightarrow>
        occupant t pid = Some (pi_start_time identity))"

lemma capture_pid: "capture_process_identity p pid = Some identity \<Longrightarrow> pi_pid identity = pid"
  by (auto simp: capture_process_identity_def split: option.splits)

lemma moment_simps [simp]: "sg_clock (moment s) = Suc (sg_clock s)" "sg_sent (moment s) = sg_sent s"
  by (simp_all add: moment_def)

lemma signal_result_True: "signal_result e = Inr True \<longleftrightarrow> e = None"
  by (simp add: signal_result_def split: option.split)

lemma deliver_sent:
  assumes "deliver k via target s = (r, s')"
  shows "if r = Inr True then target \<noteq> None \<and> sg_sent s' = (the target, via) # sg_sent s else sg_sent s' = sg_sent s"
  using assms by (auto simp: deliver_def signal_result_def split: option.splits if_splits)

text \<open>C31: The order of \<open>signal_process_identity\<close> (open the pidfd, verify the identity, signal) is what makes it safe when the
  PID may be reused at any moment.  For an identity that was captured at an earlier moment: an answer other than \<open>Ok(true)\<close> means
  that nobody was signalled; with \<open>Ok(true)\<close> one process was, and when the signal went through the pidfd it was the captured
  instance.  Only when the kernel refuses pidfds (ENOSYS, EPERM, EINVAL) does the signal go through \<open>kill\<close>.  The hypotheses are what
  the kernel documents: an instance has its PID without interruption, and \<open>/proc\<close> shows the start time of the one that has the PID.\<close>

theorem pidfd_signal_hits_identity:
  assumes "uninterrupted (sk_occupant k)" "\<forall>t. shows_history (sk_occupant k) t (sk_proc k t)"
    and "captured \<le> sg_clock s" "capture_process_identity (sk_proc k captured) pid = Some identity"
    and "signal_process_identity k identity s = (r, s')"
  shows "if r = Inr True
    then \<exists>target via. sg_sent s' = (target, via) # sg_sent s \<and>
      (case via of ViaPidFd \<Rightarrow> target = identity
       | ViaKill \<Rightarrow> sk_open_errno k (sg_clock s) \<in> {Some ENOSYS, Some EPERM, Some EINVAL})
    else sg_sent s' = sg_sent s"
proof -
  have pid: "pi_pid identity = pid" using assms(4) by (rule capture_pid)
  obtain a s1 where open_now: "pidfd_open k pid s = (a, s1)" by fastforce
  then have s1: "s1 = moment s" by (simp add: pidfd_open_def)
  note run = assms(5) [unfolded signal_process_identity_def pid open_now prod.case]
  show ?thesis
  proof (cases a)
    case (PidFd i)
    with open_now have i: "pi_pid i = pid" "sk_occupant k (sg_clock s) pid = Some (pi_start_time i)"
      by (auto simp: pidfd_open_def SYS_pidfd_open_def split: option.splits if_splits)
    show ?thesis
    proof (cases "verify_process_identity (sk_proc k (Suc (sg_clock s))) identity")
      case False
      with run PidFd s1 show ?thesis by (auto simp: signal_if_identity_def verify_now_def)
    next
      case True
      then have "sk_occupant k (Suc (sg_clock s)) pid = Some (pi_start_time identity)"
        using assms(2) pid by (simp add: verify_process_identity_def shows_history_def)
      moreover have "sk_occupant k captured pid = Some (pi_start_time identity)" using assms(2,4) by (simp add: shows_history_def)
      ultimately have "sk_occupant k (sg_clock s) pid = Some (pi_start_time identity)"
        using assms(1,3) unfolding uninterrupted_def by (metis le_SucI order_refl)
      with i pid have "i = identity" by simp
      with run PidFd s1 True deliver_sent [of k ViaPidFd _ "moment (moment s)" r s'] show ?thesis
        by (fastforce simp: signal_if_identity_def verify_now_def pidfd_send_def split: if_splits)
    qed
  next
    case PidFdNoProcess
    with run s1 show ?thesis by auto
  next
    case (PidFdError e)
    with open_now have e: "sk_open_errno k (sg_clock s) = Some e"
      by (auto simp: pidfd_open_def SYS_pidfd_open_def split: option.splits if_splits)
    show ?thesis
    proof (cases "(e = ENOSYS \<or> e = EPERM \<or> e = EINVAL) \<and> verify_process_identity (sk_proc k (Suc (sg_clock s))) identity")
      case True
      with run PidFdError s1 e deliver_sent [of k ViaKill _ "moment (moment s)" r s'] show ?thesis
        by (fastforce simp: legacy_signal_process_identity_def verify_now_def kill_pid_def split: if_splits)
    next
      case False
      with run PidFdError s1 show ?thesis
        by (auto simp: legacy_signal_process_identity_def verify_now_def split: if_splits)
    qed
  qed
qed

section \<open>Candidates for the game client\<close>

lemma map_filter_set: "set (List.map_filter f xs) = {y. \<exists>x \<in> set xs. f x = Some y}"
  by (induction xs) (auto split: option.splits)

lemma match_stable_process_Some:
  assumes "match_stable_process canon p later pid exe_name prefix_norm launcher_pid = Some c"
  obtains cmdline environ where
    "gc_pid c = pid" "capture_process_identity p pid = Some (gc_identity c)"
    "verify_process_identity later (gc_identity c)"
    "map_option parse_nul_fields (pr_cmdline p pid) = Some cmdline"
    "process_matches_exe p pid cmdline exe_name"
    "match_process_fields canon cmdline environ prefix_norm (pid = launcher_pid)
       (pid \<noteq> launcher_pid \<and> is_descendant_of p pid launcher_pid) = Some (gc_reason c)"
    "environ = fields_or_default (pr_environ p pid)"
  using assms by (auto simp: match_stable_process_def Let_def split: option.splits if_splits)

text \<open>The preference among candidates: the launched process itself, then its descendants, then
  processes of the prefix.\<close>

definition candidate_rank :: "(text_points \<Rightarrow> text_points option) \<Rightarrow> proc_fs \<Rightarrow> text_points \<Rightarrow> u32 \<Rightarrow> u32 \<Rightarrow> nat" where
  "candidate_rank canon p prefix_norm launcher_pid pid =
     (if pid = launcher_pid then 4 else if is_descendant_of p pid launcher_pid then 2 else 0) +
     (if prefix_norm \<noteq> [] \<and> (prefix_matches canon (fields_or_default (pr_environ p pid)) prefix_norm \<or>
           cmdline_matches_prefix (fields_or_default (pr_cmdline p pid)) prefix_norm) then 1 else 0)"

lemma score_of_reasons:
  assumes "gc_pid c = pid" "gc_reason c = join_reasons (match_reasons pm (pid = l) ch)" "pid = l \<longrightarrow> \<not> ch"
  shows "unat (score_candidate c l) =
    4294967290 - (if pid = l then 100 else if ch then 50 else 0) - (if pm then 10 else 0)"
proof (cases pm; cases ch; cases "pid = l")
qed (use assms in \<open>simp_all add: score_candidate_def match_reasons_def join_reasons_def concat_with_def contains_sub_def\<close>)

text \<open>The score, as a function of the rank.\<close>

definition rank_bonus :: "nat \<Rightarrow> nat" where
  "rank_bonus r = (if 4 \<le> r then 100 else if 2 \<le> r then 50 else 0) + (if odd r then 10 else 0)"

lemma rank_bonus_mono: "r < 6 \<Longrightarrow> s < 6 \<Longrightarrow> rank_bonus s \<le> rank_bonus r \<Longrightarrow> s \<le> r"
  by (auto simp: rank_bonus_def split: if_splits elim!: oddE)

lemma candidate_score:
  assumes "match_stable_process canon p later pid exe_name prefix_norm l = Some c"
  shows "unat (score_candidate c l) = 4294967290 - rank_bonus (candidate_rank canon p prefix_norm l pid)"
    "candidate_rank canon p prefix_norm l pid < 6"
    "prefix_norm \<noteq> [] \<Longrightarrow> 0 < candidate_rank canon p prefix_norm l pid"
proof -
  from assms obtain cmdline environ where c: "gc_pid c = pid"
    "map_option parse_nul_fields (pr_cmdline p pid) = Some cmdline"
    "match_process_fields canon cmdline environ prefix_norm (pid = l)
       (pid \<noteq> l \<and> is_descendant_of p pid l) = Some (gc_reason c)"
    "environ = fields_or_default (pr_environ p pid)"
    by (rule match_stable_process_Some)
  define pm where "pm \<longleftrightarrow> prefix_norm \<noteq> [] \<and>
      (prefix_matches canon environ prefix_norm \<or> cmdline_matches_prefix cmdline prefix_norm)"
  have reason: "gc_reason c = join_reasons (match_reasons pm (pid = l) (pid \<noteq> l \<and> is_descendant_of p pid l))"
    and some: "prefix_norm = [] \<or> pm \<or> pid = l \<or> is_descendant_of p pid l"
    using c(3) by (auto simp: match_process_fields_def pm_def Let_def split: if_splits)
  have rank: "candidate_rank canon p prefix_norm l pid =
      (if pid = l then 4 else if is_descendant_of p pid l then 2 else 0) + (if pm then 1 else 0)"
    using c(2,4) by (auto simp: candidate_rank_def pm_def fields_or_default_def)
  show "unat (score_candidate c l) = 4294967290 - rank_bonus (candidate_rank canon p prefix_norm l pid)"
    using score_of_reasons [OF c(1) reason] by (simp add: rank rank_bonus_def)
  show "candidate_rank canon p prefix_norm l pid < 6" by (simp add: rank)
  show "0 < candidate_rank canon p prefix_norm l pid" if "prefix_norm \<noteq> []"
    using that some by (auto simp: rank)
qed

lemma sort_by_key_hd:
  assumes "sort_by_key f xs = y # ys" "x \<in> set (y # ys)"
  shows "f y \<le> f x"
proof -
  have "sorted (map f (y # ys))" using assms(1) by (metis sort_by_key_def sorted_sort_key)
  with assms(2) show ?thesis by auto
qed

text \<open>Every candidate for the game client was alive with the same identity before and after its files
  were read, runs the wanted executable, and (when a prefix is given) is the launched process, one of
  its descendants or a process of that prefix; and the resolved process is a candidate that no
  other candidate outranks.\<close>

theorem game_candidates_sound:
  assumes "c \<in> set (find_game_processes canon p later l exe_path wine_prefix)"
  shows "gc_pid c \<in> insert l (set (proc_pids p)) \<and>
    capture_process_identity p (gc_pid c) = Some (gc_identity c) \<and>
    verify_process_identity (later (gc_pid c)) (gc_identity c) \<and>
    (\<exists>cmdline. map_option parse_nul_fields (pr_cmdline p (gc_pid c)) = Some cmdline \<and>
       process_matches_exe p (gc_pid c) cmdline (windows_basename exe_path)) \<and>
    (let prefix_norm = normalize_prefix canon wine_prefix; rank = candidate_rank canon p prefix_norm l
     in (prefix_norm = [] \<or> 0 < rank (gc_pid c)) \<and>
        (\<exists>best. resolve_game_pid canon p later l exe_path wine_prefix = Some best \<and>
           rank (gc_pid c) \<le> rank best))"
proof -
  let ?pn = "normalize_prefix canon wine_prefix"
  let ?cand = "\<lambda>pid. match_stable_process canon p (later pid) pid (windows_basename exe_path) ?pn l"
  let ?cs = "find_game_processes canon p later l exe_path wine_prefix"
  have found: "x \<in> set ?cs \<longleftrightarrow> (\<exists>pid \<in> insert l (set (proc_pids p)). ?cand pid = Some x)" for x
    unfolding find_game_processes_def Let_def sort_by_key_def set_sort map_filter_set by auto
  from assms found obtain pid where pid: "pid \<in> insert l (set (proc_pids p))" "?cand pid = Some c" by blast
  from pid(2) obtain cmdline where c: "gc_pid c = pid" "capture_process_identity p pid = Some (gc_identity c)"
    "verify_process_identity (later pid) (gc_identity c)"
    "map_option parse_nul_fields (pr_cmdline p pid) = Some cmdline"
    "process_matches_exe p pid cmdline (windows_basename exe_path)"
    by (rule match_stable_process_Some)
  obtain b bs where cs: "?cs = b # bs" using assms by (cases ?cs) auto
  with found obtain q where q: "?cand q = Some b" by (metis list.set_intros(1))
  then have b: "gc_pid b = q" by (rule match_stable_process_Some)
  have "score_candidate b l \<le> score_candidate c l"
    using sort_by_key_hd [OF cs [unfolded find_game_processes_def Let_def]] assms cs by simp
  then have "rank_bonus (candidate_rank canon p ?pn l pid) \<le> rank_bonus (candidate_rank canon p ?pn l q)"
    using candidate_score(1) [OF pid(2)] candidate_score(1) [OF q]
    by (simp add: word_le_nat_alt rank_bonus_def split: if_splits)
  then have "candidate_rank canon p ?pn l pid \<le> candidate_rank canon p ?pn l q"
    by (rule rank_bonus_mono [OF candidate_score(2) [OF q] candidate_score(2) [OF pid(2)]])
  moreover have "?pn = [] \<or> 0 < candidate_rank canon p ?pn l pid"
    by (cases "?pn = []") (simp_all add: candidate_score(3) [OF pid(2)] del: neq0_conv)
  ultimately show ?thesis using pid(1) c b cs by (auto simp: resolve_game_pid_def)
qed

section \<open>Witnesses\<close>

text \<open>A process 7, started at tick 99 by process 5, that runs \<open>ro.exe\<close>.\<close>

definition example_proc :: proc_fs where
  "example_proc =
     \<lparr>pr_names = Some [ascii_bytes ''7'', ascii_bytes ''self''],
      pr_stat = (\<lambda>pid. if pid = 7 then Some (ascii_bytes ''7 (a) S 5 0 0 0 0 0 0 0 0 0 0 0 0 0 0 0 0 0 99'')
                       else None),
      pr_comm = (\<lambda>_. None),
      pr_cmdline = (\<lambda>pid. if pid = 7 then Some (ascii_bytes ''C:/ro.exe'') else None),
      pr_environ = (\<lambda>_. None)\<rparr>"

lemma example_capture:
  "capture_process_identity example_proc pid =
     (if pid = 7 then Some \<lparr>pi_pid = 7, pi_start_time = 99\<rparr> else None)"
proof (cases "pid = 7")
  case True
  have "capture_process_identity example_proc 7 = Some \<lparr>pi_pid = 7, pi_start_time = 99\<rparr>"
    by (simp add: capture_process_identity_def read_stat_def example_proc_def from_utf8_def ascii_bytes_def
        parse_proc_stat_def split_whitespace_def after_last_def white_point_def parse_u32_def parse_u64_def
        parse_uint_def digits_value_def Let_def)
  with True show ?thesis by simp
qed (simp add: capture_process_identity_def read_stat_def example_proc_def)

text \<open>The PID 7 is reused after the moment 3 by a process that started at 120.\<close>

definition example_reused :: proc_fs where
  "example_reused = example_proc\<lparr>pr_stat := (\<lambda>pid. if pid = 7 then Some (ascii_bytes ''7 (b) S 5 0 0 0 0 0 0 0 0 0 0 0 0 0 0 0 0 0 120'')
     else None)\<rparr>"

definition example_kernel :: signal_kernel where
  "example_kernel = \<lparr>sk_occupant = (\<lambda>t pid. if pid = 7 then Some (if t \<le> 3 then 99 else 120) else None),
     sk_proc = (\<lambda>t. if t \<le> 3 then example_proc else example_reused), sk_open_errno = (\<lambda>_. None), sk_send_errno = (\<lambda>_. None)\<rparr>"

lemma example_recapture:
  "capture_process_identity example_reused pid =
     (if pid = 7 then Some \<lparr>pi_pid = 7, pi_start_time = 120\<rparr> else None)"
proof (cases "pid = 7")
  case True
  have "capture_process_identity example_reused 7 = Some \<lparr>pi_pid = 7, pi_start_time = 120\<rparr>"
    by (simp add: capture_process_identity_def read_stat_def example_reused_def from_utf8_def ascii_bytes_def
        parse_proc_stat_def split_whitespace_def after_last_def white_point_def parse_u32_def parse_u64_def
        parse_uint_def digits_value_def Let_def)
  with True show ?thesis by simp
qed (simp add: capture_process_identity_def read_stat_def example_reused_def)

lemma example_kernel_lawful: "uninterrupted (sk_occupant example_kernel)" "\<forall>t. shows_history (sk_occupant example_kernel) t (sk_proc example_kernel t)"
  by (auto simp: uninterrupted_def shows_history_def example_kernel_def example_capture example_recapture)

definition example_signal :: "nat \<Rightarrow> (int, bool) result \<times> signal_state" where
  "example_signal t = signal_process_identity example_kernel \<lparr>pi_pid = 7, pi_start_time = 99\<rparr> \<lparr>sg_clock = t, sg_sent = []\<rparr>"

text \<open>Opened at 1 the pidfd is of the captured process, which gets the signal; opened at 3, the PID is reused before the identity
  is verified, and nobody does.\<close>

lemma example_signals:
  "fst (example_signal 1) = Inr True" "example_signal 3 = (Inr False, \<lparr>sg_clock = 5, sg_sent = []\<rparr>)"
  by (simp_all add: example_signal_def signal_process_identity_def pidfd_open_def SYS_pidfd_open_def signal_if_identity_def verify_now_def
      verify_process_identity_def pidfd_send_def deliver_def signal_result_def moment_def example_kernel_def example_capture example_recapture)

theorem pidfd_signal_hits_identity_witness:
  "sg_sent (snd (example_signal 1)) = [(\<lparr>pi_pid = 7, pi_start_time = 99\<rparr>, ViaPidFd)]"
proof -
  let ?s = "\<lparr>sg_clock = 1, sg_sent = []\<rparr>"
  have "capture_process_identity (sk_proc example_kernel 0) 7 = Some \<lparr>pi_pid = 7, pi_start_time = 99\<rparr>"
    by (simp add: example_kernel_def example_capture)
  from pidfd_signal_hits_identity [OF example_kernel_lawful _ this, of ?s "fst (example_signal 1)" "snd (example_signal 1)"]
  obtain target via where sent: "sg_sent (snd (example_signal 1)) = [(target, via)]"
    "case via of ViaPidFd \<Rightarrow> target = \<lparr>pi_pid = 7, pi_start_time = 99\<rparr>
       | ViaKill \<Rightarrow> sk_open_errno example_kernel (sg_clock ?s) \<in> {Some ENOSYS, Some EPERM, Some EINVAL}"
    using example_signals(1) by (simp add: example_signal_def) blast
  then show ?thesis by (cases via) (simp_all add: example_kernel_def)
qed

text \<open>The path through \<open>kill\<close> has no such guarantee: the PID may be reused between the verification and the call.\<close>

lemma legacy_signal_may_hit_another:
  "sg_sent (snd (legacy_signal_process_identity example_kernel \<lparr>pi_pid = 7, pi_start_time = 99\<rparr> \<lparr>sg_clock = 3, sg_sent = []\<rparr>))
     = [(\<lparr>pi_pid = 7, pi_start_time = 120\<rparr>, ViaKill)]"
  by (simp add: legacy_signal_process_identity_def verify_now_def verify_process_identity_def kill_pid_def deliver_def signal_result_def
      moment_def example_kernel_def example_capture)

lemma example_candidate:
  "find_game_processes (\<lambda>_. None) example_proc (\<lambda>_. example_proc) 7 (points ''Z:/RO.exe'') []
     = [\<lparr>gc_pid = 7, gc_identity = \<lparr>pi_pid = 7, pi_start_time = 99\<rparr>, gc_reason = ''cmdline+launcher''\<rparr>]"
proof -
  have pids: "proc_pids example_proc = [7]"
    by (simp add: proc_pids_def example_proc_def proc_pid_def from_utf8_def ascii_bytes_def parse_u32_def
        parse_uint_def digits_value_def)
  have cmd: "pr_cmdline example_proc 7 = Some (ascii_bytes ''C:/ro.exe'')" by (simp add: example_proc_def)
  have exe: "process_matches_exe example_proc 7 (parse_nul_fields (ascii_bytes ''C:/ro.exe''))
      (windows_basename (points ''Z:/RO.exe''))"
    by (simp add: process_matches_exe_def parse_nul_fields_def ascii_bytes_def windows_basename_def points_def
        after_last_def trim_by_def is_quote_def same_ignoring_case_def lower_point_def)
  show ?thesis
    by (simp add: find_game_processes_def match_stable_process_def example_capture cmd exe pids
        match_process_fields_def match_reasons_def join_reasons_def concat_with_def
        normalize_prefix_def verify_process_identity_def sort_by_key_def)
qed

end
