(* ===== verification/SessionProcess.thy ===== *)
theory SessionProcess
  imports SessionProtocol LineReader ProcInfo
begin

text \<open>
  The process side of the sidecar (\<open>ro-sessiond/src/process.rs\<close>): launching a controller with its pipes,
  forwarding what it prints (to the text that is written), the descendants that a shutdown signals, and the decoding of
  \<open>waitpid\<close>.  The answers of the system calls are arguments.  File descriptors are numbers, and the
  set of open ones is passed through \<open>launch_controller\<close>, so that every path shows what it leaves open.
\<close>

section \<open>Forwarding the output of a runner\<close>

definition RUNNER_LINE_MAX :: nat where "RUNNER_LINE_MAX = 64 * 1024"

text \<open>The calls of \<open>emit_runner_line\<close>: the continuation flag and the bytes; and what a call writes.\<close>

type_synonym runner_entry = "bool \<times> u8 list"

definition emit_runner_line :: "string \<Rightarrow> runner_entry \<Rightarrow> u8 list" where
  "emit_runner_line label_prefix entry =
     (let line_text = encode (decode_lossy (snd entry));
          label = (if fst entry then label_prefix @ ''[cont] '' else label_prefix @ '' '')
      in ascii_bytes label @ line_text @ [NL])"

function flush_lines :: "u8 list \<Rightarrow> bool \<Rightarrow> runner_entry list \<times> u8 list \<times> bool" where
  "flush_lines carry continuation =
     (case position (\<lambda>b. b = NL) carry of
        None \<Rightarrow> ([], carry, continuation)
      | Some pos \<Rightarrow>
          (case flush_lines (drop (Suc pos) carry) False of
             (es, carry', c') \<Rightarrow> ((continuation, take pos carry) # es, carry', c')))"
  by pat_completeness auto
termination
  by (relation "measure (\<lambda>(carry, c). length carry)") (auto dest: position_less)

declare flush_lines.simps [simp del]

function flush_long :: "u8 list \<Rightarrow> bool \<Rightarrow> runner_entry list \<times> u8 list \<times> bool" where
  "flush_long carry continuation =
     (if RUNNER_LINE_MAX < length carry
      then (case flush_long (drop RUNNER_LINE_MAX carry) True of
              (es, carry', c') \<Rightarrow> ((continuation, take RUNNER_LINE_MAX carry) # es, carry', c'))
      else ([], carry, continuation))"
  by pat_completeness auto
termination
  by (relation "measure (\<lambda>(carry, c). length carry)") (auto simp: RUNNER_LINE_MAX_def)

declare flush_long.simps [simp del]

definition flush_runner_carry :: "u8 list \<Rightarrow> bool \<Rightarrow> runner_entry list \<times> u8 list \<times> bool" where
  "flush_runner_carry carry continuation =
     (case flush_lines carry continuation of
        (es1, carry1, c1) \<Rightarrow>
          (case flush_long carry1 c1 of (es2, carry2, c2) \<Rightarrow> (es1 @ es2, carry2, c2)))"

text \<open>The thread of \<open>spawn_stream_forwarder\<close>: it ends at the end of the stream or at an error.\<close>

function forward_loop :: "chunk list \<Rightarrow> u8 list \<Rightarrow> bool \<Rightarrow> runner_entry list" where
  "forward_loop src carry continuation =
     (case do_read 8192 src of
        (ReadBytes bs, src1) \<Rightarrow>
          if bs = [] then (if carry \<noteq> [] then [(continuation, carry)] else [])
          else (case flush_runner_carry (carry @ bs) continuation of
                  (es, carry', c') \<Rightarrow> es @ forward_loop src1 carry' c')
      | (_, src1) \<Rightarrow> if carry \<noteq> [] then [(continuation, carry)] else [])"
  by pat_completeness auto
termination
  by (relation "measure (\<lambda>(src, carry, c). source_size src)") (auto dest: do_read_progress)

declare forward_loop.simps [simp del]

definition runner_entries :: "chunk list \<Rightarrow> runner_entry list" where
  "runner_entries src = forward_loop src [] False"

text \<open>What the thread writes to the standard error of the sidecar.\<close>

definition spawn_stream_forwarder :: "string \<Rightarrow> chunk list \<Rightarrow> u8 list" where
  "spawn_stream_forwarder label_prefix src = concat (map (emit_runner_line label_prefix) (runner_entries src))"

section \<open>Launching a controller\<close>

type_synonym fd = nat

record launch_controller_error =
  le_message :: string
  le_errno :: "int option"

record launch_outcome =
  lo_controller_pid :: u32
  lo_stream_threads :: "fd list"

text \<open>The answers to the calls \<open>launch_controller\<close> makes, in order; a thread is named by the descriptor
  it reads.\<close>

record launch_sys =
  ls_strerror :: "int \<Rightarrow> string"
  ls_pipe_stdout :: "(int, fd \<times> fd) result"
  ls_pipe_stderr :: "(int, fd \<times> fd) result"
  ls_open_null :: "(int, fd) result"
  ls_fork :: "(int, u32) result"

definition syscall_error :: "launch_sys \<Rightarrow> string \<Rightarrow> int \<Rightarrow> launch_controller_error" where
  "syscall_error sys what errno =
     \<lparr>le_message = what @ '': '' @ ls_strerror sys errno, le_errno = Some errno\<rparr>"

definition plain_error :: "string \<Rightarrow> launch_controller_error" where
  "plain_error message = \<lparr>le_message = message, le_errno = None\<rparr>"

definition has_nul :: "string \<Rightarrow> bool" where "has_nul s \<longleftrightarrow> CHR 0x00 \<in> set s"

text \<open>The conversions to C strings; \<open>envp\<close> lists the entries of the merged environment in the iteration
  order of the hash map.\<close>

definition launch_strings ::
  "process_spec \<Rightarrow> (string \<times> string) list \<Rightarrow> (launch_controller_error, string list \<times> string list) result" where
  "launch_strings spec envp =
     (if has_nul (ps_program spec) then Inl (plain_error ''program contains NUL'')
      else if list_ex has_nul (ps_args spec) then Inl (plain_error ''arg contains NUL'')
      else if has_nul (ps_cwd spec) then Inl (plain_error ''cwd contains NUL'')
      else if list_ex (\<lambda>(k, v). has_nul (k @ ''='' @ v)) envp then Inl (plain_error ''env contains NUL'')
      else Inr (ps_program spec # ps_args spec, map (\<lambda>(k, v). k @ ''='' @ v) envp))"

definition launch_controller ::
  "launch_sys \<Rightarrow> process_spec \<Rightarrow> (string \<times> string) list \<Rightarrow> fd set
     \<Rightarrow> (launch_controller_error, launch_outcome) result \<times> fd set" where
  "launch_controller sys spec envp fds =
     (case launch_strings spec envp of
        Inl e \<Rightarrow> (Inl e, fds)
      | Inr _ \<Rightarrow>
          (case ls_pipe_stdout sys of
             Inl e \<Rightarrow> (Inl (syscall_error sys ''pipe2 failed'' e), fds)
           | Inr (stdout_r, stdout_w) \<Rightarrow>
               let fds1 = fds \<union> {stdout_r, stdout_w} in
               (case ls_pipe_stderr sys of
                  Inl e \<Rightarrow> (Inl (syscall_error sys ''pipe2 failed'' e), fds1)
                | Inr (stderr_r, stderr_w) \<Rightarrow>
                    let fds2 = fds1 \<union> {stderr_r, stderr_w} in
                    (case ls_open_null sys of
                       Inl e \<Rightarrow> (Inl (syscall_error sys ''open /dev/null failed'' e), fds2)
                     | Inr null_fd \<Rightarrow>
                         let fds3 = insert null_fd fds2 in
                         (case ls_fork sys of
                            Inl e \<Rightarrow> (Inl (syscall_error sys ''fork failed'' e),
                                      fds3 - {stdout_w, stderr_w, null_fd, stdout_r, stderr_r})
                          | Inr pid \<Rightarrow>
                              (Inr \<lparr>lo_controller_pid = pid, lo_stream_threads = [stdout_r, stderr_r]\<rparr>,
                               fds3 - {stdout_w, stderr_w, null_fd}))))))"

text \<open>
  The forked child: standard descriptors, working directory, parent check, \<open>execve\<close>.  Its descriptor table
  tells what each descriptor refers to.
\<close>

type_synonym fd_table = "fd \<Rightarrow> nat option"

definition dup2 :: "fd \<Rightarrow> fd \<Rightarrow> fd_table \<Rightarrow> fd_table" where
  "dup2 old new t = t(new := t old)"

definition close_fd :: "fd \<Rightarrow> fd_table \<Rightarrow> fd_table" where
  "close_fd d t = t(d := None)"

definition child_fds :: "fd \<Rightarrow> fd \<Rightarrow> fd \<Rightarrow> fd \<Rightarrow> fd \<Rightarrow> fd_table \<Rightarrow> fd_table" where
  "child_fds null_fd stdout_w stderr_w stdout_r stderr_r t =
     close_fd stderr_r (close_fd stdout_r (close_fd stderr_w (close_fd stdout_w (close_fd null_fd
       (dup2 stderr_w 2 (dup2 stdout_w 1 (dup2 null_fd 0 t)))))))"

datatype child_end = ChildRuns fd_table | ChildExits string nat

definition child_exec ::
  "bool \<Rightarrow> u32 \<Rightarrow> u32 \<Rightarrow> bool \<Rightarrow> fd \<Rightarrow> fd \<Rightarrow> fd \<Rightarrow> fd \<Rightarrow> fd \<Rightarrow> fd_table \<Rightarrow> child_end" where
  "child_exec chdir_ok ppid expected_parent execve_ok null_fd stdout_w stderr_w stdout_r stderr_r t =
     (let t' = child_fds null_fd stdout_w stderr_w stdout_r stderr_r t
      in if \<not> chdir_ok then ChildExits (''chdir failed'' @ [CHR 10]) 127
         else if ppid \<noteq> expected_parent then ChildExits (''parent changed before exec'' @ [CHR 10]) 127
         else if execve_ok then ChildRuns t'
         else ChildExits (''execve failed'' @ [CHR 10]) 127)"

section \<open>Stream threads\<close>

definition join_finished_stream_handles :: "(fd \<Rightarrow> bool) \<Rightarrow> fd list \<Rightarrow> fd list" where
  "join_finished_stream_handles is_finished handles = filter (\<lambda>h. \<not> is_finished h) handles"

definition join_all_stream_handles :: "fd list \<Rightarrow> fd list" where
  "join_all_stream_handles handles = []"

section \<open>Descendants\<close>

text \<open>The sidecar's own \<open>read_ppid\<close> needs only the first fields of the line.\<close>

definition sd_parse_ppid :: "text_points \<Rightarrow> u32 option" where
  "sd_parse_ppid stat =
     (if 41 \<notin> set stat then None
      else let fields = split_whitespace (after_last (\<lambda>c. c = 41) stat)
           in if length fields \<le> 1 then None else parse_u32 (fields ! 1))"

definition sd_read_ppid :: "proc_fs \<Rightarrow> u32 \<Rightarrow> u32 option" where
  "sd_read_ppid p pid = Option.bind (read_stat p pid) sd_parse_ppid"

definition sd_is_descendant_of :: "proc_fs \<Rightarrow> u32 \<Rightarrow> u32 \<Rightarrow> bool" where
  "sd_is_descendant_of p pid ancestor \<longleftrightarrow>
     pid = ancestor \<or> descendant_loop (sd_read_ppid p) ancestor 64 pid"

definition all_pids :: "proc_fs \<Rightarrow> u32 list" where
  "all_pids p =
     (case pr_names p of
        None \<Rightarrow> []
      | Some names \<Rightarrow> List.map_filter (\<lambda>name. Option.bind (from_utf8 name) parse_u32) names)"

definition descendants_of :: "proc_fs \<Rightarrow> u32 \<Rightarrow> process_identity list" where
  "descendants_of p root =
     List.map_filter (capture_process_identity p)
       (filter (\<lambda>pid. pid \<noteq> root \<and> sd_is_descendant_of p pid root) (all_pids p))"

text \<open>The identities that \<open>signal_descendants\<close> passes to \<open>signal_process_identity\<close>; \<open>later\<close> gives the
  snapshot in which each is checked again.\<close>

definition signal_descendants :: "proc_fs \<Rightarrow> (process_identity \<Rightarrow> proc_fs) \<Rightarrow> u32 \<Rightarrow> process_identity list" where
  "signal_descendants p later root =
     filter (\<lambda>i. sd_is_descendant_of (later i) (pi_pid i) root \<and> verify_process_identity (later i) i)
       (descendants_of p root)"

section \<open>Reaping\<close>

datatype wait_answer = WaitStatus u32 u32 | WaitNone | WaitError int

definition ECHILD :: int where "ECHILD = 10"
definition EINTR :: int where "EINTR = 4"

definition exit_code_of :: "u32 \<Rightarrow> int option" where
  "exit_code_of status =
     (if unat status mod 128 = 0 then Some (int (unat status div 256 mod 256)) else None)"

definition term_signal_of :: "u32 \<Rightarrow> int option" where
  "term_signal_of status =
     (let t = unat status mod 128 in if 0 < t \<and> t < 127 then Some (int t) else None)"

datatype reap_result = ReapErr | ReapNone | Reaped u32 "int option" "int option"

text \<open>The answers that successive \<open>waitpid\<close> calls will give; after them, no child has changed state.\<close>

fun waitpid_reap_with_signal :: "wait_answer list \<Rightarrow> reap_result \<times> wait_answer list" where
  "waitpid_reap_with_signal [] = (ReapNone, [])"
| "waitpid_reap_with_signal (WaitNone # ws) = (ReapNone, ws)"
| "waitpid_reap_with_signal (WaitError e # ws) =
     (if e = ECHILD then (ReapErr, ws)
      else if e = EINTR then waitpid_reap_with_signal ws
      else (ReapNone, ws))"
| "waitpid_reap_with_signal (WaitStatus pid status # ws) =
     (Reaped pid (exit_code_of status) (term_signal_of status), ws)"

section \<open>Nothing of a runner's output is lost\<close>

text \<open>Putting the entries back together: a continuation extends the line before it.\<close>

definition append_entry :: "u8 list list \<Rightarrow> runner_entry \<Rightarrow> u8 list list" where
  "append_entry ls e =
     (if fst e \<and> ls \<noteq> [] then butlast ls @ [last ls @ snd e] else ls @ [snd e])"

definition reassemble :: "u8 list list \<Rightarrow> runner_entry list \<Rightarrow> u8 list list" where
  "reassemble ls es = foldl append_entry ls es"

text \<open>The lines of a byte stream; an empty rest after the last line feed is no line.\<close>

definition stream_lines :: "u8 list \<Rightarrow> u8 list list" where
  "stream_lines s = (let ls = split_on NL s in if last ls = [] then butlast ls else ls)"

text \<open>The lines emitted so far, followed by those in the buffer.\<close>

definition with_carry :: "u8 list list \<Rightarrow> bool \<Rightarrow> u8 list \<Rightarrow> u8 list list" where
  "with_carry ls c carry = append_entry ls (c, hd (split_on NL carry)) @ tl (split_on NL carry)"

lemma split_on_at:
  "position (\<lambda>b. b = d) xs = Some pos \<Longrightarrow> split_on d xs = take pos xs # split_on d (drop (Suc pos) xs)"
  by (induction xs arbitrary: pos) (auto split: if_splits)

lemma split_on_none: "d \<notin> set xs \<Longrightarrow> split_on d xs = [xs]"
  by (induction xs) auto

lemma split_on_append:
  "split_on d (xs @ ys) =
     butlast (split_on d xs) @ [last (split_on d xs) @ hd (split_on d ys)] @ tl (split_on d ys)"
proof (induction xs)
  case (Cons x xs)
  obtain p ps where "split_on d xs = p # ps" by (cases "split_on d xs") auto
  with Cons show ?case by (cases ps) auto
qed simp

lemma append_entry_not_Nil [simp]: "append_entry ls e \<noteq> []"
  by (simp add: append_entry_def)

lemma reassemble_simps [simp]:
  "reassemble ls [] = ls" "reassemble ls (e # es) = reassemble (append_entry ls e) es"
  "reassemble ls (es @ fs) = reassemble (reassemble ls es) fs"
  by (simp_all add: reassemble_def)

text \<open>A buffer state: what has been emitted, the pending bytes and the continuation flag.\<close>

definition carry_ok :: "u8 list list \<Rightarrow> u8 list \<Rightarrow> bool \<Rightarrow> bool" where
  "carry_ok ls carry c \<longleftrightarrow> (c \<longrightarrow> ls \<noteq> [] \<and> carry \<noteq> [])"

lemma with_carry_line:
  assumes "position (\<lambda>b. b = NL) carry = Some pos"
  shows "with_carry (append_entry ls (c, take pos carry)) False (drop (Suc pos) carry) = with_carry ls c carry"
  using hd_Cons_tl [of "split_on NL (drop (Suc pos) carry)"]
  by (simp add: with_carry_def split_on_at [OF assms]) (simp add: append_entry_def)

lemma flush_lines_correct:
  "flush_lines carry c = (es, carry', c') \<Longrightarrow> carry_ok ls carry c \<Longrightarrow>
   with_carry (reassemble ls es) c' carry' = with_carry ls c carry \<and> NL \<notin> set carry' \<and>
   length carry' \<le> length carry \<and> carry_ok (reassemble ls es) carry' c' \<and>
   list_all (\<lambda>e. length (snd e) < length carry) es"
proof (induction carry c arbitrary: ls es carry' c' rule: flush_lines.induct)
  case (1 carry c)
  show ?case
  proof (cases "position (\<lambda>b. b = NL) carry")
    case None
    with "1.prems" show ?thesis
      by (subst (asm) flush_lines.simps) (auto simp: position_None_iff)
  next
    case (Some pos)
    then have pos: "pos < length carry" by (rule position_less)
    obtain es1 where rec: "flush_lines (drop (Suc pos) carry) False = (es1, carry', c')"
      and es: "es = (c, take pos carry) # es1"
      using "1.prems"(1) Some by (subst (asm) flush_lines.simps) (auto split: prod.splits)
    have "carry_ok (append_entry ls (c, take pos carry)) (drop (Suc pos) carry) False"
      by (simp add: carry_ok_def)
    from "1.IH" [OF Some rec this] with_carry_line [OF Some] pos show ?thesis
      by (auto simp: es list_all_iff)
  qed
qed

lemma with_carry_split:
  assumes "NL \<notin> set carry" "n < length carry" "carry_ok ls carry c"
  shows "with_carry (append_entry ls (c, take n carry)) True (drop n carry) = with_carry ls c carry"
proof -
  have "NL \<notin> set (drop n carry)" using assms(1) by (auto dest: in_set_dropD)
  with assms(1,3) show ?thesis
    by (auto simp: with_carry_def split_on_none append_entry_def)
qed

lemma flush_long_correct:
  "flush_long carry c = (es, carry', c') \<Longrightarrow> carry_ok ls carry c \<Longrightarrow> NL \<notin> set carry \<Longrightarrow>
   with_carry (reassemble ls es) c' carry' = with_carry ls c carry \<and> NL \<notin> set carry' \<and>
   length carry' \<le> RUNNER_LINE_MAX \<and> carry_ok (reassemble ls es) carry' c' \<and>
   list_all (\<lambda>e. length (snd e) \<le> RUNNER_LINE_MAX) es"
proof (induction carry c arbitrary: ls es carry' c' rule: flush_long.induct)
  case (1 carry c)
  show ?case
  proof (cases "RUNNER_LINE_MAX < length carry")
    case False
    with "1.prems" show ?thesis by (subst (asm) flush_long.simps) auto
  next
    case True
    obtain es1 where rec: "flush_long (drop RUNNER_LINE_MAX carry) True = (es1, carry', c')"
      and es: "es = (c, take RUNNER_LINE_MAX carry) # es1"
      using "1.prems"(1) True by (subst (asm) flush_long.simps) (auto split: prod.splits)
    have "carry_ok (append_entry ls (c, take RUNNER_LINE_MAX carry)) (drop RUNNER_LINE_MAX carry) True"
      using True by (simp add: carry_ok_def)
    moreover have "NL \<notin> set (drop RUNNER_LINE_MAX carry)" using "1.prems"(3) by (auto dest: in_set_dropD)
    ultimately show ?thesis
      using "1.IH" [OF True rec] with_carry_split [OF "1.prems"(3) True "1.prems"(2)] by (simp add: es)
  qed
qed

lemma flush_runner_carry_correct:
  assumes "flush_runner_carry carry c = (es, carry', c')" "carry_ok ls carry c"
  shows "with_carry (reassemble ls es) c' carry' = with_carry ls c carry \<and> NL \<notin> set carry' \<and>
   length carry' \<le> RUNNER_LINE_MAX \<and> carry_ok (reassemble ls es) carry' c' \<and>
   list_all (\<lambda>e. length (snd e) \<le> max (length carry - 1) RUNNER_LINE_MAX) es"
proof -
  obtain es1 carry1 c1 es2 where f1: "flush_lines carry c = (es1, carry1, c1)"
    and f2: "flush_long carry1 c1 = (es2, carry', c')" and es: "es = es1 @ es2"
    using assms(1) by (auto simp: flush_runner_carry_def split: prod.splits)
  from flush_lines_correct [OF f1 assms(2)] have r1:
    "with_carry (reassemble ls es1) c1 carry1 = with_carry ls c carry" "NL \<notin> set carry1"
    "carry_ok (reassemble ls es1) carry1 c1" "list_all (\<lambda>e. length (snd e) < length carry) es1" by blast+
  from flush_long_correct [OF f2 r1(3,2)] r1 show ?thesis
    by (auto simp: es list_all_iff)
qed

lemma with_carry_append:
  assumes "NL \<notin> set carry" "carry_ok ls carry c" "with_carry ls c carry = split_on NL s"
  shows "with_carry ls c (carry @ bs) = split_on NL (s @ bs)"
  using assms by (auto simp: with_carry_def split_on_none split_on_append [of NL carry bs]
      split_on_append [of NL s bs] append_entry_def carry_ok_def
      simp flip: assms(3))

lemma forward_loop_correct:
  "flowing src \<Longrightarrow> NL \<notin> set carry \<Longrightarrow> length carry \<le> RUNNER_LINE_MAX \<Longrightarrow> carry_ok ls carry c \<Longrightarrow>
   with_carry ls c carry = split_on NL s \<Longrightarrow>
   reassemble ls (forward_loop src carry c) = stream_lines (s @ arrived src) \<and>
   list_all (\<lambda>e. length (snd e) \<le> RUNNER_LINE_MAX + 8191) (forward_loop src carry c)"
proof (induction src carry c arbitrary: ls s rule: forward_loop.induct)
  case (1 src carry c)
  obtain bs src1 where rd: "do_read 8192 src = (ReadBytes bs, src1)" "arrived src = bs @ arrived src1"
    "flowing src1" "length bs \<le> 8192" "bs = [] \<longleftrightarrow> src = []"
    using do_read_flowing [OF "1.prems"(1), of 8192] by auto
  show ?case
  proof (cases "bs = []")
    case True
    with rd have "arrived src = []" by simp
    moreover have "reassemble ls (if carry \<noteq> [] then [(c, carry)] else []) = stream_lines s"
      using "1.prems"(2,4) unfolding stream_lines_def "1.prems"(5) [symmetric]
      by (auto simp: with_carry_def split_on_none append_entry_def carry_ok_def)
    ultimately show ?thesis using True rd(1) "1.prems"(3) by (subst (1 2) forward_loop.simps) auto
  next
    case False
    obtain es carry' c' where fl: "flush_runner_carry (carry @ bs) c = (es, carry', c')"
      using prod_cases3 by blast
    have "carry_ok ls (carry @ bs) c" using False "1.prems"(4) by (auto simp: carry_ok_def)
    note fc = flush_runner_carry_correct [OF fl this]
    have "with_carry (reassemble ls es) c' carry' = split_on NL (s @ bs)"
      using fc with_carry_append [OF "1.prems"(2,4,5)] by simp
    with "1.IH" [OF rd(1) [symmetric] refl False fl [symmetric] refl rd(3)] fc
    have IH: "reassemble (reassemble ls es) (forward_loop src1 carry' c') = stream_lines ((s @ bs) @ arrived src1)"
      "list_all (\<lambda>e. length (snd e) \<le> RUNNER_LINE_MAX + 8191) (forward_loop src1 carry' c')"
      by blast+
    have loop: "forward_loop src carry c = es @ forward_loop src1 carry' c'"
      using rd(1) False fl by (subst forward_loop.simps) simp
    have "max (length (carry @ bs) - 1) RUNNER_LINE_MAX \<le> RUNNER_LINE_MAX + 8191"
      using "1.prems"(3) rd(4) by simp
    with fc have "list_all (\<lambda>e. length (snd e) \<le> RUNNER_LINE_MAX + 8191) es"
      by (auto simp: list_all_iff intro: order_trans)
    with IH loop rd(2) show ?thesis by simp
  qed
qed

subsection \<open>A source that ends, blocks or fails\<close>

text \<open>The part of a source before the first read that finds nothing: the end, an error, or a read that blocks, which a pipe that
  is read in blocking mode does not have.\<close>

definition flowing_part :: "chunk list \<Rightarrow> chunk list" where
  "flowing_part src = takeWhile (\<lambda>c. case c of Data bs \<Rightarrow> bs \<noteq> [] | _ \<Rightarrow> False) src"

definition delivered :: "chunk list \<Rightarrow> u8 list" where
  "delivered src = arrived (flowing_part src)"

lemma flowing_part_flows: "flowing (flowing_part src)"
  unfolding flowing_def flowing_part_def list_all_iff by (auto dest: set_takeWhileD)

lemma do_read_part:
  assumes "0 < n" "do_read n (flowing_part src) = (ReadBytes bs, src1)" "bs \<noteq> []"
  shows "\<exists>src2. do_read n src = (ReadBytes bs, src2) \<and> flowing_part src2 = src1"
  using assms by (cases "(n, src)" rule: do_read.cases) (auto simp: flowing_part_def split: if_splits)

lemma do_read_stops:
  "0 < n \<Longrightarrow> flowing_part src = [] \<Longrightarrow> fst (do_read n src) \<in> {ReadBytes [], ReadWouldBlock, ReadFailed}"
  by (cases "(n, src)" rule: do_read.cases) (auto simp: flowing_part_def split: if_splits)

lemma forward_loop_part: "forward_loop src carry c = forward_loop (flowing_part src) carry c"
proof (induction src carry c rule: forward_loop.induct)
  case (1 src carry c)
  obtain bs src1 where rd: "do_read 8192 (flowing_part src) = (ReadBytes bs, src1)" "bs = [] \<longleftrightarrow> flowing_part src = []"
    using do_read_flowing [OF flowing_part_flows, of 8192] by (metis zero_less_numeral)
  show ?case
  proof (cases "bs = []")
    case True
    then have "flowing_part src = []" using rd(2) by simp
    with do_read_stops [of 8192 src] True rd(1) show ?thesis
      by (subst (1 2) forward_loop.simps) (cases "do_read 8192 src"; auto)
  next
    case False
    obtain src2 where src2: "do_read 8192 src = (ReadBytes bs, src2)" "flowing_part src2 = src1"
      using do_read_part [OF _ rd(1) False] by auto
    obtain es carry' c' where fl: "flush_runner_carry (carry @ bs) c = (es, carry', c')" using prod_cases3 by blast
    from "1.IH" [OF src2(1) [symmetric] refl False fl [symmetric] refl] have
      "forward_loop src2 carry' c' = forward_loop src1 carry' c'" by (simp add: src2(2))
    then show ?thesis using src2(1) rd(1) False fl by (subst (1 2) forward_loop.simps) simp
  qed
qed

subsection \<open>Only long lines are cut\<close>

text \<open>There is a line over the limit.\<close>

definition has_long :: "u8 list list \<Rightarrow> bool" where
  "has_long ls \<longleftrightarrow> (\<exists>l \<in> set ls. RUNNER_LINE_MAX < length l)"

text \<open>A cut line can be continued: it is the last one so far, and its pieces fill the limit.\<close>

definition cut_ok :: "u8 list list \<Rightarrow> bool \<Rightarrow> bool" where
  "cut_ok ls c \<longleftrightarrow> (c \<longrightarrow> ls \<noteq> [] \<and> RUNNER_LINE_MAX \<le> length (last ls))"

lemma long_append: "has_long ls \<Longrightarrow> has_long (append_entry ls e)"
  by (cases ls rule: rev_cases) (fastforce simp: has_long_def append_entry_def)+

lemma long_reassemble: "has_long ls \<Longrightarrow> has_long (reassemble ls es)"
  by (induction es arbitrary: ls) (simp_all add: long_append)

lemma long_continued: "cut_ok ls True \<Longrightarrow> x \<noteq> [] \<Longrightarrow> has_long (append_entry ls (True, x))"
  by (cases x) (auto simp: cut_ok_def has_long_def append_entry_def)

lemma flush_lines_pieces:
  "flush_lines carry c = (es, carry', c') \<Longrightarrow> cut_ok ls c \<Longrightarrow> (c \<Longrightarrow> carry \<noteq> [] \<and> hd carry \<noteq> NL) \<Longrightarrow>
   ((\<exists>e\<in>set es. fst e) \<longrightarrow> has_long (reassemble ls es)) \<and> cut_ok (reassemble ls es) c' \<and> (c' \<longrightarrow> carry' = carry \<and> c)"
proof (induction carry c arbitrary: ls es carry' c' rule: flush_lines.induct)
  case (1 carry c)
  show ?case
  proof (cases "position (\<lambda>b. b = NL) carry")
    case None
    with "1.prems" show ?thesis by (subst (asm) flush_lines.simps) auto
  next
    case (Some pos)
    obtain es1 where rec: "flush_lines (drop (Suc pos) carry) False = (es1, carry', c')" and es: "es = (c, take pos carry) # es1"
      using "1.prems"(1) Some by (subst (asm) flush_lines.simps) (auto split: prod.splits)
    let ?ls = "append_entry ls (c, take pos carry)"
    have IH: "((\<exists>e\<in>set es1. fst e) \<longrightarrow> has_long (reassemble ?ls es1)) \<and> cut_ok (reassemble ?ls es1) c' \<and> \<not> c'"
      using "1.IH" [OF Some rec, of ?ls] by (auto simp: cut_ok_def)
    have "has_long (reassemble ?ls es1)" if c: c
    proof -
      have "pos \<noteq> 0" using Some "1.prems"(3) [OF c] by (cases carry) auto
      then have "take pos carry \<noteq> []" using "1.prems"(3) [OF c] by simp
      with c "1.prems"(2) show ?thesis by (intro long_reassemble) (simp add: long_continued)
    qed
    with IH show ?thesis by (auto simp: es)
  qed
qed

lemma flush_long_pieces:
  "flush_long carry c = (es, carry', c') \<Longrightarrow> cut_ok ls c \<Longrightarrow>
   ((\<exists>e\<in>set es. fst e) \<longrightarrow> has_long (reassemble ls es)) \<and> cut_ok (reassemble ls es) c' \<and> (c' \<longrightarrow> es = [] \<and> c \<or> carry' \<noteq> [])"
proof (induction carry c arbitrary: ls es carry' c' rule: flush_long.induct)
  case (1 carry c)
  show ?case
  proof (cases "RUNNER_LINE_MAX < length carry")
    case False
    with "1.prems" show ?thesis by (subst (asm) flush_long.simps) auto
  next
    case True
    obtain es1 where rec: "flush_long (drop RUNNER_LINE_MAX carry) True = (es1, carry', c')"
      and es: "es = (c, take RUNNER_LINE_MAX carry) # es1"
      using "1.prems"(1) True by (subst (asm) flush_long.simps) (auto split: prod.splits)
    let ?ls = "append_entry ls (c, take RUNNER_LINE_MAX carry)"
    have "cut_ok ?ls True" using True by (auto simp: cut_ok_def append_entry_def)
    note IH = "1.IH" [OF True rec this]
    have "take RUNNER_LINE_MAX carry \<noteq> []" using True by (auto simp: RUNNER_LINE_MAX_def)
    then have "has_long (reassemble ?ls es1)" if c using that "1.prems"(2) by (intro long_reassemble) (simp add: long_continued)
    moreover have "carry' \<noteq> []" if "es1 = []"
      using rec that True by (subst (asm) flush_long.simps) (auto split: if_splits prod.splits)
    ultimately show ?thesis using IH by (auto simp: es)
  qed
qed

lemma forward_loop_pieces:
  "flowing src \<Longrightarrow> NL \<notin> set carry \<Longrightarrow> (c \<Longrightarrow> carry \<noteq> []) \<Longrightarrow> cut_ok ls c \<Longrightarrow>
   (\<exists>e\<in>set (forward_loop src carry c). fst e) \<longrightarrow> has_long (reassemble ls (forward_loop src carry c))"
proof (induction src carry c arbitrary: ls rule: forward_loop.induct)
  case (1 src carry c)
  obtain bs src1 where rd: "do_read 8192 src = (ReadBytes bs, src1)" "flowing src1"
    using do_read_flowing [OF "1.prems"(1), of 8192] by (metis zero_less_numeral)
  show ?case
  proof (cases "bs = []")
    case True
    have end_loop: "forward_loop src carry c = (if carry \<noteq> [] then [(c, carry)] else [])"
      using rd(1) True by (subst forward_loop.simps) simp
    have "has_long (append_entry ls (c, carry))" if c "carry \<noteq> []" using long_continued [of ls carry] that "1.prems"(4) by simp
    then show ?thesis unfolding end_loop by auto
  next
    case False
    obtain es1 carry1 c1 es2 carry2 c2 where f1: "flush_lines (carry @ bs) c = (es1, carry1, c1)"
      and f2: "flush_long carry1 c1 = (es2, carry2, c2)" by (metis prod_cases3)
    have fl: "flush_runner_carry (carry @ bs) c = (es1 @ es2, carry2, c2)" by (simp add: flush_runner_carry_def f1 f2)
    have first: "carry @ bs \<noteq> [] \<and> hd (carry @ bs) \<noteq> NL" if c using "1.prems"(2,3) that by (cases carry) auto
    note p1 = flush_lines_pieces [OF f1 "1.prems"(4) first]
    note p2 = flush_long_pieces [OF f2 p1 [THEN conjunct2, THEN conjunct1]]
    have ok: "carry_ok ls (carry @ bs) c" using first "1.prems"(4) by (auto simp: carry_ok_def cut_ok_def)
    note fc = flush_runner_carry_correct [OF fl ok]
    from "1.IH" [OF rd(1) [symmetric] refl False fl [symmetric] refl rd(2)] fc p2
    have IH: "(\<exists>e\<in>set (forward_loop src1 carry2 c2). fst e) \<longrightarrow>
      has_long (reassemble (reassemble ls (es1 @ es2)) (forward_loop src1 carry2 c2))"
      by (auto simp: carry_ok_def)
    have loop: "forward_loop src carry c = (es1 @ es2) @ forward_loop src1 carry2 c2"
      using rd(1) False fl by (subst forward_loop.simps) simp
    show ?thesis using IH p1 p2 long_reassemble unfolding loop by (auto simp: ball_Un)
  qed
qed

lemma whole_reassemble: "\<forall>e\<in>set es. \<not> fst e \<Longrightarrow> reassemble ls es = ls @ map snd es"
  by (induction es arbitrary: ls) (auto simp: append_entry_def)

text \<open>C29: What the forwarder of a runner's output writes, for every source (a pipe that ends, or whose reading fails
  somewhere; \<open>delivered\<close> are the bytes before that).  (1) It makes entries of them that lose nothing: put back together at the
  continuation marks they are the lines of the output, in order, and no entry is longer than \<open>RUNNER_LINE_MAX\<close> plus one read
  buffer.  (2) Each entry is written as one label, its text and a line feed.  The text is the bytes of the entry when these are
  UTF-8; otherwise it is their lossy decoding, in which what is not UTF-8 (also a character that is cut at the limit) is replaced, and it
  is at most three times as long.  (3) Hence, when all lines of the output are UTF-8 and within the limit, the forwarder
  writes exactly these lines, each after the label.\<close>

theorem runner_output_complete:
  "reassemble [] (runner_entries src) = stream_lines (delivered src) \<and>
   list_all (\<lambda>(_, bs). length bs \<le> RUNNER_LINE_MAX + 8191) (runner_entries src) \<and>
   spawn_stream_forwarder p src =
     concat (map (\<lambda>(more, bs). ascii_bytes (p @ (if more then ''[cont] '' else '' '')) @ encode (decode_lossy bs) @ [NL]) (runner_entries src)) \<and>
   list_all (\<lambda>(_, bs). (utf8_valid bs \<longrightarrow> encode (decode_lossy bs) = bs) \<and>
     length (encode (decode_lossy bs)) \<le> 3 * (RUNNER_LINE_MAX + 8191)) (runner_entries src) \<and>
   (list_all (\<lambda>l. utf8_valid l \<and> length l \<le> RUNNER_LINE_MAX) (stream_lines (delivered src)) \<longrightarrow>
     spawn_stream_forwarder p src = concat (map (\<lambda>l. ascii_bytes (p @ '' '') @ l @ [NL]) (stream_lines (delivered src))))"
proof -
  let ?es = "runner_entries src"
  have es: "?es = forward_loop (flowing_part src) [] False" unfolding runner_entries_def by (rule forward_loop_part)
  have whole: "reassemble [] ?es = stream_lines (delivered src)" "list_all (\<lambda>e. length (snd e) \<le> RUNNER_LINE_MAX + 8191) ?es"
    using forward_loop_correct [OF flowing_part_flows, of "[]" "[]" False "[]" src] unfolding es
    by (simp_all add: delivered_def carry_ok_def with_carry_def append_entry_def)
  have bound: "length (encode (decode_lossy bs)) \<le> 3 * (RUNNER_LINE_MAX + 8191)" if "length bs \<le> RUNNER_LINE_MAX + 8191" for bs
    by (rule order_trans [OF encode_lossy_length]) (use that in simp)
  have written: "emit_runner_line p = (\<lambda>(more, bs). ascii_bytes (p @ (if more then ''[cont] '' else '' '')) @ encode (decode_lossy bs) @ [NL])"
    by (auto simp: emit_runner_line_def Let_def)
  have exact: "spawn_stream_forwarder p src = concat (map (\<lambda>l. ascii_bytes (p @ '' '') @ l @ [NL]) (stream_lines (delivered src)))"
    if good: "list_all (\<lambda>l. utf8_valid l \<and> length l \<le> RUNNER_LINE_MAX) (stream_lines (delivered src))"
  proof -
    have "\<not> has_long (reassemble [] ?es)" using good unfolding whole(1) by (auto simp: has_long_def list_all_iff)
    then have none: "\<forall>e\<in>set ?es. \<not> fst e"
      using forward_loop_pieces [OF flowing_part_flows, of "[]" False "[]" src] unfolding es by (auto simp: cut_ok_def)
    have lines: "stream_lines (delivered src) = map snd ?es" using whole_reassemble [OF none, of "[]"] whole(1) by simp
    have "emit_runner_line p e = ascii_bytes (p @ '' '') @ snd e @ [NL]" if "e \<in> set ?es" for e
      using that none good unfolding lines by (cases e) (auto simp: emit_runner_line_def Let_def list_all_iff encode_decode)
    then show ?thesis unfolding spawn_stream_forwarder_def lines by (simp cong: map_cong)
  qed
  show ?thesis using whole bound exact
    by (auto simp: list_all_iff encode_decode spawn_stream_forwarder_def written case_prod_beta)
qed

theorem runner_output_complete_witness:
  "spawn_stream_forwarder ''r'' [Data [65, 10, 66], Data [67, 10, 68], Fails, Data [69]]
     = ascii_bytes ''r A'' @ [10] @ ascii_bytes ''r BC'' @ [10] @ ascii_bytes ''r D'' @ [10]"
proof -
  let ?src = "[Data [65, 10, 66], Data [67, 10, 68], Fails, Data [69]]"
  have ls: "stream_lines (delivered ?src) = [[65], [66, 67], [68]]"
    by (simp add: delivered_def flowing_part_def stream_lines_def NL_def)
  then have "list_all (\<lambda>l. utf8_valid l \<and> length l \<le> RUNNER_LINE_MAX) (stream_lines (delivered ?src))" by (simp add: RUNNER_LINE_MAX_def)
  with runner_output_complete [of ?src "''r''"]
  have "spawn_stream_forwarder ''r'' ?src = concat (map (\<lambda>l. ascii_bytes (''r'' @ '' '') @ l @ [NL]) (stream_lines (delivered ?src)))" by blast
  then show ?thesis unfolding ls by (simp add: NL_def ascii_bytes_def)
qed

text \<open>Text is lost where a character is cut or bytes are not UTF-8: the byte 0xFF is written as U+FFFD.\<close>

lemma runner_output_replaced: "emit_runner_line ''r'' (False, [0xFF]) = ascii_bytes ''r '' @ [0xEF, 0xBF, 0xBD, 10]"
  by (simp add: emit_runner_line_def encode_Cons encode_point_def REPLACEMENT_def byte_def NL_def)

section \<open>Descriptors of a launch\<close>

text \<open>New descriptors: pairwise different and none of them open before.\<close>

definition fresh_fds :: "launch_sys \<Rightarrow> fd set \<Rightarrow> bool" where
  "fresh_fds sys fds \<longleftrightarrow>
     (case (ls_pipe_stdout sys, ls_pipe_stderr sys, ls_open_null sys) of
        (Inr (r1, w1), Inr (r2, w2), Inr n) \<Rightarrow> distinct [r1, w1, r2, w2, n] \<and> fds \<inter> {r1, w1, r2, w2, n} = {}
      | (Inr (r1, w1), Inr (r2, w2), _) \<Rightarrow> distinct [r1, w1, r2, w2] \<and> fds \<inter> {r1, w1, r2, w2} = {}
      | (Inr (r1, w1), _) \<Rightarrow> distinct [r1, w1] \<and> fds \<inter> {r1, w1} = {}
      | _ \<Rightarrow> True)"

text \<open>C33: A launch that succeeds leaves open exactly the two read ends, each handed to a forwarding thread,
  and a launch that fails before the pipes or at \<open>fork\<close> leaves nothing open; but when the second pipe
  or \<open>/dev/null\<close> cannot be opened, the descriptors opened before stay open for the life of the sidecar.\<close>

theorem launch_descriptors:
  assumes "fresh_fds sys fds" "launch_controller sys spec envp fds = (res, fds')"
  shows "(case res of
       Inr out \<Rightarrow> fds' = fds \<union> set (lo_stream_threads out) \<and> length (lo_stream_threads out) = 2 \<and>
         ls_fork sys = Inr (lo_controller_pid out)
     | Inl e \<Rightarrow>
         (case (launch_strings spec envp, ls_pipe_stdout sys, ls_pipe_stderr sys, ls_open_null sys) of
            (Inr _, Inr (r1, w1), Inl _, _) \<Rightarrow> fds' = fds \<union> {r1, w1}
          | (Inr _, Inr (r1, w1), Inr (r2, w2), Inl _) \<Rightarrow> fds' = fds \<union> {r1, w1, r2, w2}
          | _ \<Rightarrow> fds' = fds))"
proof -
  consider e where "launch_strings spec envp = Inl e"
    | strs e where "launch_strings spec envp = Inr strs" "ls_pipe_stdout sys = Inl e"
    | strs r1 w1 e where "launch_strings spec envp = Inr strs" "ls_pipe_stdout sys = Inr (r1, w1)"
        "ls_pipe_stderr sys = Inl e"
    | strs r1 w1 r2 w2 e where "launch_strings spec envp = Inr strs" "ls_pipe_stdout sys = Inr (r1, w1)"
        "ls_pipe_stderr sys = Inr (r2, w2)" "ls_open_null sys = Inl e"
    | strs r1 w1 r2 w2 n where "launch_strings spec envp = Inr strs" "ls_pipe_stdout sys = Inr (r1, w1)"
        "ls_pipe_stderr sys = Inr (r2, w2)" "ls_open_null sys = Inr n"
    by (metis sum.exhaust surj_pair)
  then show ?thesis
  proof cases
    case 5
    with assms show ?thesis
      by (cases "ls_fork sys") (auto simp: launch_controller_def fresh_fds_def Let_def)
  qed (use assms in \<open>auto simp: launch_controller_def Let_def\<close>)
qed

definition example_sys :: launch_sys where
  "example_sys = \<lparr>ls_strerror = (\<lambda>_. ''Too many open files''), ls_pipe_stdout = Inr (3, 4),
     ls_pipe_stderr = Inr (5, 6), ls_open_null = Inl 24, ls_fork = Inr 77\<rparr>"

theorem launch_descriptors_witness:
  "snd (launch_controller example_sys example_spec [] {}) = {3, 4, 5, 6}"
proof -
  have strs: "launch_strings example_spec [] = Inr ([''/usr/bin/wine'', ''a.exe''], [])"
    by (simp add: launch_strings_def example_spec_def has_nul_def)
  have run: "launch_controller example_sys example_spec [] {} =
      (Inl (syscall_error example_sys ''open /dev/null failed'' 24), {3, 4, 5, 6})"
    by (simp add: launch_controller_def strs) (auto simp: example_sys_def)
  have "fresh_fds example_sys {}" by (simp add: fresh_fds_def example_sys_def)
  from launch_descriptors [OF this run] show ?thesis by (simp add: run)
qed

text \<open>A controller starts with \<open>/dev/null\<close> and the two pipes as its standard descriptors and without the
  descriptors they were made from.\<close>

lemma child_descriptors:
  assumes "child_exec c p e x null_fd stdout_w stderr_w stdout_r stderr_r t = ChildRuns t'"
    "distinct [null_fd, stdout_w, stderr_w, stdout_r, stderr_r]"
    "list_all (\<lambda>d. 2 < d) [null_fd, stdout_w, stderr_w, stdout_r, stderr_r]"
  shows "t' 0 = t null_fd \<and> t' 1 = t stdout_w \<and> t' 2 = t stderr_w \<and> p = e \<and>
    list_all (\<lambda>d. t' d = None) [null_fd, stdout_w, stderr_w, stdout_r, stderr_r]"
proof -
  have t': "t' = child_fds null_fd stdout_w stderr_w stdout_r stderr_r t" and pe: "p = e"
    using assms(1) by (simp_all add: child_exec_def Let_def split: if_splits)
  have high: "d \<noteq> 0" "d \<noteq> 1" "d \<noteq> 2" if "d \<in> {null_fd, stdout_w, stderr_w, stdout_r, stderr_r}" for d
    using assms(3) that by auto
  show ?thesis
    using assms(2) pe high [of null_fd] high [of stdout_w] high [of stderr_w] high [of stdout_r] high [of stderr_r]
    unfolding t' child_fds_def dup2_def close_fd_def by simp
qed

section \<open>Targets of a shutdown signal\<close>

text \<open>A process that \<open>signal_descendants\<close> signals was a proper descendant of the sidecar when it was
  listed and is one, under the same identity, when it is checked again: neither the sidecar itself
  nor a process that was reparented away or reuses a PID is ever signalled.\<close>

theorem signal_targets_descend:
  assumes "i \<in> set (signal_descendants p later root)"
  shows "pi_pid i \<noteq> root \<and>
    (\<exists>n\<le>64. descends (sd_read_ppid p) root n (pi_pid i)) \<and>
    (\<exists>n\<le>64. descends (sd_read_ppid (later i)) root n (pi_pid i)) \<and>
    capture_process_identity p (pi_pid i) = Some i \<and>
    capture_process_identity (later i) (pi_pid i) = Some i"
proof -
  have chain: "\<exists>n\<le>64. descends (sd_read_ppid q) root n pid" if "sd_is_descendant_of q pid root" for q pid
    using that descendant_loop_sound [of "sd_read_ppid q" root 64 pid]
    by (auto simp: sd_is_descendant_of_def intro: exI [of _ 0] descends.here)
  from assms have "i \<in> set (descendants_of p root)" "sd_is_descendant_of (later i) (pi_pid i) root"
    "verify_process_identity (later i) i" by (auto simp: signal_descendants_def)
  then show ?thesis
    using chain by (auto simp: descendants_of_def map_filter_set verify_process_identity_def dest: capture_pid)
qed

lemma example_sd_ppid: "sd_read_ppid example_proc 7 = Some 5"
  by (simp add: sd_read_ppid_def read_stat_def example_proc_def from_utf8_def ascii_bytes_def
      sd_parse_ppid_def split_whitespace_def after_last_def white_point_def parse_u32_def
      parse_uint_def digits_value_def Let_def)

lemma example_signal_targets:
  "signal_descendants example_proc (\<lambda>_. example_proc) 5 = [\<lparr>pi_pid = 7, pi_start_time = 99\<rparr>]"
proof -
  have "all_pids example_proc = [7]"
    by (simp add: all_pids_def example_proc_def from_utf8_def ascii_bytes_def parse_u32_def
        parse_uint_def digits_value_def)
  moreover have "sd_is_descendant_of example_proc 7 5"
    by (simp add: sd_is_descendant_of_def eval_nat_numeral example_sd_ppid)
  ultimately show ?thesis
    by (simp add: signal_descendants_def descendants_of_def example_capture verify_process_identity_def)
qed

section \<open>Wait statuses\<close>

lemma wait_status_exclusive: "exit_code_of st = None \<or> term_signal_of st = None"
  by (auto simp: exit_code_of_def term_signal_of_def Let_def)

lemma wait_exit_bounds: "exit_code_of st = Some c \<Longrightarrow> 0 \<le> c \<and> c \<le> 255"
  by (auto simp: exit_code_of_def split: if_splits)

lemma waitpid_shorter: "snd (waitpid_reap_with_signal ws) = [] \<or>
   length (snd (waitpid_reap_with_signal ws)) < length ws"
  by (induction ws rule: waitpid_reap_with_signal.induct) auto

lemma waitpid_reaped_shorter:
  "waitpid_reap_with_signal ws = (Reaped pid c s, ws') \<Longrightarrow> length ws' < length ws"
  by (induction ws rule: waitpid_reap_with_signal.induct) (auto split: if_splits)

end
