(* ===== verification/Supervisor.thy ===== *)
theory Supervisor
  imports SessionProcess
begin

text \<open>
  The supervisor of a runner session (\<open>ro-sessiond/src/supervisor.rs\<close>): its phases, the tables of
  controllers, the handlers of the three requests, reaping and the escalation of a shutdown.

  Every handler is a function from the supervisor and the answers of the system to the new supervisor
  and the handler's result.  Instants are milliseconds.  The event writer holds the events written to
  standard output and, once its output is gone, the text of the error with which \<open>emit\<close> fails.  The
  JSON decoder is an argument.
\<close>

section \<open>State\<close>

datatype session_phase = PhReady | PhStopping | PhStopped

text \<open>The order in which a session goes through its phases.\<close>

instantiation session_phase :: linorder
begin

fun phase_rank :: "session_phase \<Rightarrow> nat" where
  "phase_rank PhReady = 0"
| "phase_rank PhStopping = 1"
| "phase_rank PhStopped = 2"

definition less_eq_session_phase :: "session_phase \<Rightarrow> session_phase \<Rightarrow> bool" where
  "less_eq_session_phase p q \<longleftrightarrow> phase_rank p \<le> phase_rank q"

definition less_session_phase :: "session_phase \<Rightarrow> session_phase \<Rightarrow> bool" where
  "less_session_phase p q \<longleftrightarrow> phase_rank p < phase_rank q"

instance
proof
  fix p q :: session_phase
  show "p \<le> q \<Longrightarrow> q \<le> p \<Longrightarrow> p = q" by (cases p; cases q) (auto simp: less_eq_session_phase_def)
qed (auto simp: less_eq_session_phase_def less_session_phase_def)

end

record event_writer =
  ew_events :: "session_event list"
  ew_failure :: "string option"

record controller_record =
  cr_request_id :: string
  cr_controller_pid :: u32
  cr_is_shutdown_controller :: bool
  cr_streams :: "launch_outcome option"

type_synonym env_map = "string \<Rightarrow> string option"

record supervisor =
  sv_phase :: session_phase
  sv_owned_prefix :: path
  sv_base_env :: env_map
  sv_writer :: event_writer
  sv_request_ids :: "string set"
  sv_in_flight :: nat
  sv_pid_to_request :: "u32 \<Rightarrow> string option"
  sv_controllers :: "string \<Rightarrow> controller_record option"
  sv_shutdown_request_id :: "string option"
  sv_shutdown_deadline :: "nat option"
  sv_shutdown_grace_ms :: u64
  sv_forced_shutdown :: bool
  sv_term_sent_at :: "nat option"
  sv_kill_sent :: bool
  sv_last_wait_echild :: bool
  sv_pending_streams :: "fd list"

definition supervisor_new :: "path \<Rightarrow> env_map \<Rightarrow> event_writer \<Rightarrow> supervisor" where
  "supervisor_new owned_prefix base_env writer =
     \<lparr>sv_phase = PhReady, sv_owned_prefix = owned_prefix, sv_base_env = base_env, sv_writer = writer,
      sv_request_ids = {}, sv_in_flight = 0, sv_pid_to_request = Map.empty, sv_controllers = Map.empty,
      sv_shutdown_request_id = None, sv_shutdown_deadline = None, sv_shutdown_grace_ms = 2000,
      sv_forced_shutdown = False, sv_term_sent_at = None, sv_kill_sent = False,
      sv_last_wait_echild = False, sv_pending_streams = []\<rparr>"

section \<open>Events\<close>

definition emit :: "event_writer \<Rightarrow> session_event \<Rightarrow> (string, unit) result \<times> event_writer" where
  "emit w e =
     (case ew_failure w of
        Some text \<Rightarrow> (Inl text, w)
      | None \<Rightarrow> (Inr (), w\<lparr>ew_events := ew_events w @ [e]\<rparr>))"

text \<open>\<open>let _ = self.writer.emit(..)\<close>.\<close>

definition emit_ignored :: "supervisor \<Rightarrow> session_event \<Rightarrow> supervisor" where
  "emit_ignored s e = s\<lparr>sv_writer := snd (emit (sv_writer s) e)\<rparr>"

definition emit_validation_error :: "supervisor \<Rightarrow> string option \<Rightarrow> string \<Rightarrow> supervisor" where
  "emit_validation_error s rid message = emit_ignored s (Error rid ''validation'' None message)"

definition emit_launch_error :: "supervisor \<Rightarrow> string option \<Rightarrow> launch_controller_error \<Rightarrow> supervisor" where
  "emit_launch_error s rid err = emit_ignored s (Error rid ''launch'' (le_errno err) (le_message err))"

definition emit_stage_error ::
  "supervisor \<Rightarrow> string option \<Rightarrow> string \<Rightarrow> string \<Rightarrow> int option \<Rightarrow> supervisor" where
  "emit_stage_error s rid stage message errno = emit_ignored s (Error rid stage errno message)"

section \<open>Handlers\<close>

text \<open>The answers of the system while one request is handled; \<open>so_fs2\<close> is the file system at the second
  validation of a shutdown specification.\<close>

record session_os =
  so_fs :: file_system
  so_fs2 :: file_system
  so_sys :: launch_sys
  so_env_entries :: "env_map \<Rightarrow> (string \<times> string) list"
  so_fds :: "fd set"
  so_proc :: proc_fs
  so_now :: nat

definition begin_forced_shutdown :: "supervisor \<Rightarrow> nat \<Rightarrow> supervisor" where
  "begin_forced_shutdown s now =
     (if sv_phase s = PhStopped then s
      else s\<lparr>sv_forced_shutdown := True, sv_phase := PhStopping,
             sv_shutdown_deadline := (case sv_shutdown_deadline s of
                None \<Rightarrow> Some (now + 2000) | Some d \<Rightarrow> Some d)\<rparr>)"

definition handle_launch ::
  "session_os \<Rightarrow> supervisor \<Rightarrow> string \<Rightarrow> process_spec \<Rightarrow> (string, unit) result \<times> supervisor" where
  "handle_launch os s rid spec =
     (if sv_phase s \<noteq> PhReady then
        (Inr (), emit_validation_error s (Some rid) ''Launch rejected while not Ready'')
      else if rid \<in> sv_request_ids s then
        (Inr (), emit_validation_error s (Some rid) ''duplicate request_id'')
      else
        let s1 = s\<lparr>sv_request_ids := insert rid (sv_request_ids s)\<rparr> in
        if MAX_IN_FLIGHT_LAUNCHES \<le> sv_in_flight s1 then
          (Inr (), emit_validation_error s1 (Some rid) ''too many in-flight launches'')
        else
          (case validate_spec_for_launch (so_fs os) spec (sv_owned_prefix s1) (sv_base_env s1) of
             Inl message \<Rightarrow> (Inr (), emit_validation_error s1 (Some rid) message)
           | Inr merged \<Rightarrow>
               (case fst (launch_controller (so_sys os) spec (so_env_entries os merged) (so_fds os)) of
                  Inl err \<Rightarrow> (Inr (), emit_launch_error s1 (Some rid) err)
                | Inr outcome \<Rightarrow>
                    let pid = lo_controller_pid outcome;
                        s2 = s1\<lparr>sv_pid_to_request := (sv_pid_to_request s1)(pid \<mapsto> rid),
                                sv_in_flight := sv_in_flight s1 + 1,
                                sv_controllers := (sv_controllers s1)(rid \<mapsto>
                                  \<lparr>cr_request_id = rid, cr_controller_pid = pid,
                                   cr_is_shutdown_controller = False, cr_streams = Some outcome\<rparr>)\<rparr>
                    in (case capture_process_identity (so_proc os) pid of
                          None \<Rightarrow> (Inl ''failed to capture unreaped controller identity'', s2)
                        | Some identity \<Rightarrow>
                            (case emit (sv_writer s2) (LaunchAccepted rid pid (pi_start_time identity)) of
                               (r, w) \<Rightarrow> (r, s2\<lparr>sv_writer := w\<rparr>))))))"

definition handle_shutdown ::
  "session_os \<Rightarrow> supervisor \<Rightarrow> string \<Rightarrow> process_spec \<Rightarrow> u64 \<Rightarrow> (string, unit) result \<times> supervisor" where
  "handle_shutdown os s rid spec grace_ms =
     (if sv_phase s = PhStopping then
        (Inr (), emit_validation_error s (Some rid) ''second Shutdown rejected'')
      else if sv_phase s \<noteq> PhReady then
        (Inr (), emit_validation_error s (Some rid) ''Shutdown rejected'')
      else if rid \<in> sv_request_ids s then
        (Inr (), emit_validation_error s (Some rid) ''duplicate request_id'')
      else
        let s1 = s\<lparr>sv_request_ids := insert rid (sv_request_ids s), sv_phase := PhStopping,
                   sv_shutdown_request_id := Some rid, sv_shutdown_grace_ms := clamp_grace_ms grace_ms\<rparr>
        in (case validate_spec_for_launch (so_fs os) spec (sv_owned_prefix s1) (sv_base_env s1) of
              Inl message \<Rightarrow>
                (Inr (), begin_forced_shutdown
                   (emit_stage_error s1 (Some rid) ''shutdown'' message None) (so_now os))
            | Inr _ \<Rightarrow>
                (case validate_spec_for_launch (so_fs2 os) spec (sv_owned_prefix s1) (sv_base_env s1) of
                   Inl message \<Rightarrow> (Inl message, s1)
                 | Inr merged \<Rightarrow>
                     (case fst (launch_controller (so_sys os) spec (so_env_entries os merged) (so_fds os)) of
                        Inr outcome \<Rightarrow>
                          let pid = lo_controller_pid outcome;
                              s2 = s1\<lparr>sv_pid_to_request := (sv_pid_to_request s1)(pid \<mapsto> rid),
                                      sv_controllers := (sv_controllers s1)(rid \<mapsto>
                                        \<lparr>cr_request_id = rid, cr_controller_pid = pid,
                                         cr_is_shutdown_controller = True, cr_streams = Some outcome\<rparr>),
                                      sv_shutdown_deadline :=
                                        Some (so_now os + unat (sv_shutdown_grace_ms s1))\<rparr>
                          in (case emit (sv_writer s2) (ShutdownAccepted rid) of
                                (r, w) \<Rightarrow> (r, s2\<lparr>sv_writer := w\<rparr>))
                      | Inl err \<Rightarrow>
                          (Inr (), begin_forced_shutdown
                             (emit_stage_error s1 (Some rid) ''shutdown'' (le_message err) (le_errno err))
                             (so_now os))))))"

text \<open>\<open>decode\<close> is the JSON decoder of requests, with the text of its error.\<close>

definition handle_line ::
  "(u8 list \<Rightarrow> (string, session_request) result) \<Rightarrow> session_os \<Rightarrow> supervisor \<Rightarrow> u8 list
     \<Rightarrow> (string, unit) result \<times> supervisor" where
  "handle_line decode os s line =
     (case decode line of
        Inl e \<Rightarrow> (Inl (''invalid JSON: '' @ e), s)
      | Inr (Hello _) \<Rightarrow>
          (Inr (), begin_forced_shutdown (emit_validation_error s None ''second Hello rejected'') (so_now os))
      | Inr (Launch rid spec) \<Rightarrow> handle_launch os s rid spec
      | Inr (Shutdown rid spec grace_ms) \<Rightarrow> handle_shutdown os s rid spec grace_ms)"

section \<open>Reaping\<close>

definition reap_one :: "supervisor \<Rightarrow> u32 \<Rightarrow> int option \<Rightarrow> int option \<Rightarrow> supervisor" where
  "reap_one s pid exit_code signal =
     (let s0 = s\<lparr>sv_last_wait_echild := False, sv_pid_to_request := (sv_pid_to_request s)(pid := None)\<rparr>
      in (case sv_pid_to_request s pid of
            None \<Rightarrow> s0
          | Some rid \<Rightarrow>
              let is_shutdown = (case sv_controllers s0 rid of
                                   None \<Rightarrow> False | Some r \<Rightarrow> cr_is_shutdown_controller r);
                  s1 = (if is_shutdown then s0
                        else emit_ignored (s0\<lparr>sv_in_flight := sv_in_flight s0 - 1\<rparr>)
                               (ControllerExited rid pid exit_code signal));
                  s2 = (case sv_controllers s1 rid of
                          Some r \<Rightarrow> (case cr_streams r of
                             Some streams \<Rightarrow>
                               s1\<lparr>sv_pending_streams := sv_pending_streams s1 @ lo_stream_threads streams\<rparr>
                           | None \<Rightarrow> s1)
                        | None \<Rightarrow> s1)
              in s2\<lparr>sv_controllers := (sv_controllers s2)(rid := None)\<rparr>))"

function drain_reap_events :: "supervisor \<Rightarrow> wait_answer list \<Rightarrow> supervisor \<times> wait_answer list" where
  "drain_reap_events s ws =
     (case waitpid_reap_with_signal ws of
        (Reaped pid c sg, ws') \<Rightarrow> drain_reap_events (reap_one s pid c sg) ws'
      | (ReapNone, ws') \<Rightarrow> (s\<lparr>sv_last_wait_echild := False\<rparr>, ws')
      | (ReapErr, ws') \<Rightarrow> (s\<lparr>sv_last_wait_echild := True\<rparr>, ws'))"
  by pat_completeness auto
termination
  by (relation "measure (\<lambda>(s, ws). length ws)") (auto dest: waitpid_reaped_shorter sym)

declare drain_reap_events.simps [simp del]

definition join_finished_streams :: "supervisor \<Rightarrow> (fd \<Rightarrow> bool) \<Rightarrow> supervisor" where
  "join_finished_streams s is_finished =
     s\<lparr>sv_pending_streams := join_finished_stream_handles is_finished (sv_pending_streams s)\<rparr>"

definition join_all_pending_streams :: "supervisor \<Rightarrow> supervisor" where
  "join_all_pending_streams s = s\<lparr>sv_pending_streams := join_all_stream_handles (sv_pending_streams s)\<rparr>"

section \<open>Escalation\<close>

definition SIGTERM :: int where "SIGTERM = 15"
definition SIGKILL :: int where "SIGKILL = 9"

text \<open>
  \<open>advance_shutdown\<close> with the answers of its two drains, the two readings of the clock (\<open>now\<close> and
  the one inside \<open>elapsed\<close>), and the signals it sends to all descendants.
\<close>

record advance_os =
  av_wait1 :: "wait_answer list"
  av_now :: nat
  av_later :: nat
  av_wait2 :: "wait_answer list"

definition stop_session :: "supervisor \<Rightarrow> supervisor" where
  "stop_session s = (join_all_pending_streams s)\<lparr>sv_phase := PhStopped\<rparr>"

definition escalate_term :: "supervisor \<Rightarrow> nat \<Rightarrow> supervisor \<times> int list" where
  "escalate_term s now =
     (let deadline = (case sv_shutdown_deadline s of Some d \<Rightarrow> d | None \<Rightarrow> now)
      in if sv_forced_shutdown s \<or> deadline \<le> now
         then ((if sv_term_sent_at s = None then s\<lparr>sv_term_sent_at := Some now\<rparr> else s), [SIGTERM])
         else (s, []))"

definition escalate_kill :: "supervisor \<Rightarrow> nat \<Rightarrow> supervisor \<times> int list" where
  "escalate_kill s now =
     (case sv_term_sent_at s of
        Some term_at \<Rightarrow> if 2000 \<le> now - term_at then (s\<lparr>sv_kill_sent := True\<rparr>, [SIGKILL]) else (s, [])
      | None \<Rightarrow> (s, []))"

definition advance_shutdown :: "supervisor \<Rightarrow> advance_os \<Rightarrow> supervisor \<times> int list" where
  "advance_shutdown s os =
     (if sv_phase s \<noteq> PhStopping then (s, [])
      else
        let s1 = fst (drain_reap_events s (av_wait1 os)) in
        if sv_last_wait_echild s1 then (stop_session s1, [])
        else
          (case escalate_term s1 (av_now os) of
             (s2, sig1) \<Rightarrow>
               (case escalate_kill s2 (av_later os) of
                  (s3, sig2) \<Rightarrow>
                    let s4 = fst (drain_reap_events s3 (av_wait2 os))
                    in (if sv_term_sent_at s4 \<noteq> None \<and> sv_last_wait_echild s4 then stop_session s4 else s4,
                        sig1 @ sig2))))"

section \<open>The tables\<close>

text \<open>The launches in flight: controllers that do not belong to the shutdown.\<close>

definition live :: "(string \<Rightarrow> controller_record option) \<Rightarrow> string set" where
  "live cs = {rid. \<exists>r. cs rid = Some r \<and> \<not> cr_is_shutdown_controller r}"

definition tables ::
  "string set \<Rightarrow> nat \<Rightarrow> (u32 \<Rightarrow> string option) \<Rightarrow> (string \<Rightarrow> controller_record option) \<Rightarrow> bool" where
  "tables ids n pids cs \<longleftrightarrow>
     finite (dom cs) \<and> dom cs \<subseteq> ids \<and> n = card (live cs) \<and> n \<le> MAX_IN_FLIGHT_LAUNCHES \<and>
     (\<forall>rid r. cs rid = Some r \<longrightarrow>
        cr_request_id r = rid \<and> pids (cr_controller_pid r) = Some rid \<and> cr_streams r \<noteq> None) \<and>
     (\<forall>pid rid. pids pid = Some rid \<longrightarrow> (\<exists>r. cs rid = Some r \<and> cr_controller_pid r = pid))"

definition tables_ok :: "supervisor \<Rightarrow> bool" where
  "tables_ok s \<longleftrightarrow> tables (sv_request_ids s) (sv_in_flight s) (sv_pid_to_request s) (sv_controllers s)"

definition phase_ok :: "supervisor \<Rightarrow> bool" where
  "phase_ok s \<longleftrightarrow>
     (sv_phase s = PhReady \<longrightarrow> sv_shutdown_request_id s = None \<and> sv_shutdown_deadline s = None \<and>
        \<not> sv_forced_shutdown s \<and> sv_term_sent_at s = None) \<and>
     (\<forall>rid r. sv_controllers s rid = Some r \<longrightarrow> cr_is_shutdown_controller r \<longrightarrow>
        sv_shutdown_request_id s = Some rid) \<and>
     (sv_kill_sent s \<longrightarrow> sv_term_sent_at s \<noteq> None)"

text \<open>What may follow what on standard output.\<close>

fun may_follow :: "session_event \<Rightarrow> session_event \<Rightarrow> bool" where
  "may_follow (LaunchAccepted r p _) (LaunchAccepted r' p' _) \<longleftrightarrow> r \<noteq> r'"
| "may_follow (LaunchAccepted r p _) (ControllerExited r' p' _ _) \<longleftrightarrow> r = r' \<longrightarrow> p = p'"
| "may_follow (ControllerExited r p _ _) (LaunchAccepted r' p' _) \<longleftrightarrow> r \<noteq> r'"
| "may_follow (ControllerExited r p _ _) (ControllerExited r' p' _ _) \<longleftrightarrow> r \<noteq> r'"
| "may_follow _ _ \<longleftrightarrow> True"

fun event_ok :: "string set \<Rightarrow> (string \<Rightarrow> controller_record option) \<Rightarrow> session_event \<Rightarrow> bool" where
  "event_ok ids cs (LaunchAccepted r p _) \<longleftrightarrow>
     r \<in> ids \<and> (case cs r of None \<Rightarrow> True | Some c \<Rightarrow> cr_controller_pid c = p)"
| "event_ok ids cs (ControllerExited r p _ _) \<longleftrightarrow> r \<in> ids \<and> cs r = None"
| "event_ok ids cs _ \<longleftrightarrow> True"

definition trace :: "string set \<Rightarrow> (string \<Rightarrow> controller_record option) \<Rightarrow> session_event list \<Rightarrow> bool" where
  "trace ids cs es \<longleftrightarrow> sorted_wrt may_follow es \<and> list_all (event_ok ids cs) es"

definition trace_ok :: "supervisor \<Rightarrow> bool" where
  "trace_ok s \<longleftrightarrow> trace (sv_request_ids s) (sv_controllers s) (ew_events (sv_writer s))"

definition sup_inv :: "supervisor \<Rightarrow> bool" where
  "sup_inv s \<longleftrightarrow> tables_ok s \<and> phase_ok s \<and> trace_ok s"

text \<open>Events that are neither the start nor the end of a launch.\<close>

fun plain_event :: "session_event \<Rightarrow> bool" where
  "plain_event (LaunchAccepted _ _ _) = False"
| "plain_event (ControllerExited _ _ _ _) = False"
| "plain_event _ = True"

lemma plain_follow: "plain_event e \<Longrightarrow> may_follow d e" "plain_event e \<Longrightarrow> event_ok ids cs e"
  by (cases e; cases d; simp) (cases e; simp)

lemma finite_live: "finite (dom cs) \<Longrightarrow> finite (live cs)"
  by (rule finite_subset [of _ "dom cs"]) (auto simp: live_def)

lemma live_insert:
  "live (cs(rid \<mapsto> r)) = (if cr_is_shutdown_controller r then live cs - {rid} else insert rid (live cs))"
  by (auto simp: live_def)

lemma live_remove: "live (cs(rid := None)) = live cs - {rid}"
  by (auto simp: live_def)

lemma tables_new_id: "tables ids n pids cs \<Longrightarrow> tables (insert rid ids) n pids cs"
  by (auto simp: tables_def)

lemma tables_pidD:
  "tables ids n pids cs \<Longrightarrow> pids pid = Some rid \<Longrightarrow> \<exists>r. cs rid = Some r \<and> cr_controller_pid r = pid"
  by (simp add: tables_def)

lemma tables_ctrlD:
  "tables ids n pids cs \<Longrightarrow> cs rid = Some r \<Longrightarrow>
   rid \<in> ids \<and> pids (cr_controller_pid r) = Some rid \<and> (\<exists>out. cr_streams r = Some out)"
  unfolding tables_def by blast

lemma tables_insert:
  assumes "tables ids n pids cs" "rid \<notin> ids" "pids pid = None"
    "cr_request_id r = rid" "cr_controller_pid r = pid" "cr_streams r \<noteq> None"
    "n' = (if cr_is_shutdown_controller r then n else n + 1)" "n' \<le> MAX_IN_FLIGHT_LAUNCHES"
  shows "tables (insert rid ids) n' (pids(pid \<mapsto> rid)) (cs(rid \<mapsto> r))"
proof -
  have new: "cs rid = None" using assms(1,2) by (auto simp: tables_def)
  then have nl: "rid \<notin> live cs" by (auto simp: live_def)
  have fin: "finite (live cs)" using assms(1) by (auto simp: tables_def intro: finite_live)
  have "n' = card (live (cs(rid \<mapsto> r)))"
    using assms(1,7) nl fin by (auto simp: tables_def live_insert)
  moreover have "\<forall>x c. cs x = Some c \<longrightarrow> cr_controller_pid c \<noteq> pid"
    using assms(1,3) by (auto simp: tables_def)
  moreover have "\<forall>q. pids q \<noteq> Some rid" using tables_pidD [OF assms(1)] new by fastforce
  ultimately show ?thesis using assms new unfolding tables_def by (auto split: if_splits)
qed

lemma tables_remove:
  assumes "tables ids n pids cs" "pids pid = Some rid" "cs rid = Some r"
    "n' = (if cr_is_shutdown_controller r then n else n - 1)"
  shows "tables ids n' (pids(pid := None)) (cs(rid := None))"
proof -
  have fin: "finite (live cs)" using assms(1) by (auto simp: tables_def intro: finite_live)
  have pid: "cr_controller_pid r = pid" "\<forall>q. pids q = Some rid \<longrightarrow> q = pid"
    using tables_pidD [OF assms(1)] assms(2,3) by (metis option.inject)+
  have "rid \<in> live cs \<longleftrightarrow> \<not> cr_is_shutdown_controller r" using assms(3) by (auto simp: live_def)
  with assms(1,4) fin have "n' = card (live (cs(rid := None)))" "n' \<le> n"
    by (auto simp: tables_def live_remove)
  moreover have "\<forall>x c. x \<noteq> rid \<longrightarrow> cs x = Some c \<longrightarrow> cr_controller_pid c \<noteq> pid"
    using assms(1,2) by (auto simp: tables_def)
  ultimately show ?thesis using assms(1) pid unfolding tables_def by (auto intro: finite_subset)
qed

lemma trace_new_id: "trace ids cs es \<Longrightarrow> trace (insert rid ids) cs es"
proof -
  have "event_ok ids cs e \<Longrightarrow> event_ok (insert rid ids) cs e" for e by (cases e) auto
  then show "trace ids cs es \<Longrightarrow> ?thesis" by (auto simp: trace_def list_all_iff)
qed

lemma trace_plain: "trace ids cs es \<Longrightarrow> plain_event e \<Longrightarrow> trace ids cs (es @ [e])"
  by (auto simp: trace_def sorted_wrt_append plain_follow)

lemma trace_controller:
  assumes "trace ids cs es" "rid \<notin> ids" "cr_controller_pid r = pid"
  shows "trace (insert rid ids) (cs(rid \<mapsto> r)) es"
    "trace (insert rid ids) (cs(rid \<mapsto> r)) (es @ [LaunchAccepted rid pid t])"
proof -
  have step: "event_ok (insert rid ids) (cs(rid \<mapsto> r)) e \<and> may_follow e (LaunchAccepted rid pid t)"
    if "event_ok ids cs e" for e using that assms(2) by (cases e) auto
  with assms show "trace (insert rid ids) (cs(rid \<mapsto> r)) es"
    "trace (insert rid ids) (cs(rid \<mapsto> r)) (es @ [LaunchAccepted rid pid t])"
    by (auto simp: trace_def list_all_iff sorted_wrt_append)
qed

lemma trace_exit:
  assumes "trace ids cs es" "cs rid = Some r" "cr_controller_pid r = pid" "rid \<in> ids"
  shows "trace ids (cs(rid := None)) es"
    "trace ids (cs(rid := None)) (es @ [ControllerExited rid pid c sg])"
proof -
  have step: "event_ok ids (cs(rid := None)) e \<and> may_follow e (ControllerExited rid pid c sg)"
    if "event_ok ids cs e" for e using that assms(2,3) by (cases e) auto
  with assms show "trace ids (cs(rid := None)) es"
    "trace ids (cs(rid := None)) (es @ [ControllerExited rid pid c sg])"
    by (auto simp: trace_def list_all_iff sorted_wrt_append)
qed

lemmas sup_inv_defs = sup_inv_def tables_ok_def phase_ok_def trace_ok_def

section \<open>The invariant is kept\<close>

lemma emit_ignored_fields [simp]:
  "sv_phase (emit_ignored s e) = sv_phase s" "sv_request_ids (emit_ignored s e) = sv_request_ids s"
  "sv_controllers (emit_ignored s e) = sv_controllers s" "sv_in_flight (emit_ignored s e) = sv_in_flight s"
  "sv_pid_to_request (emit_ignored s e) = sv_pid_to_request s"
  "sv_shutdown_request_id (emit_ignored s e) = sv_shutdown_request_id s"
  "sv_shutdown_deadline (emit_ignored s e) = sv_shutdown_deadline s"
  "sv_forced_shutdown (emit_ignored s e) = sv_forced_shutdown s"
  "sv_term_sent_at (emit_ignored s e) = sv_term_sent_at s" "sv_kill_sent (emit_ignored s e) = sv_kill_sent s"
  "sv_last_wait_echild (emit_ignored s e) = sv_last_wait_echild s"
  "sv_pending_streams (emit_ignored s e) = sv_pending_streams s"
  by (simp_all add: emit_ignored_def)

lemma emit_events:
  "ew_events (snd (emit w e)) = ew_events w \<or> ew_events (snd (emit w e)) = ew_events w @ [e]"
  by (simp add: emit_def split: option.splits)

lemma emit_ignored_events:
  "ew_events (sv_writer (emit_ignored s e)) = ew_events (sv_writer s) \<or>
   ew_events (sv_writer (emit_ignored s e)) = ew_events (sv_writer s) @ [e]"
  using emit_events by (simp add: emit_ignored_def)

lemma inv_plain [inv_intros]: "sup_inv s \<Longrightarrow> plain_event e \<Longrightarrow> sup_inv (emit_ignored s e)"
  using emit_ignored_events [of s e] by (auto simp: sup_inv_defs trace_plain)

lemma inv_errors [inv_intros]:
  "sup_inv s \<Longrightarrow> sup_inv (emit_validation_error s rid m)"
  "sup_inv s \<Longrightarrow> sup_inv (emit_launch_error s rid err)"
  "sup_inv s \<Longrightarrow> sup_inv (emit_stage_error s rid st m en)"
  by (simp_all add: emit_validation_error_def emit_launch_error_def emit_stage_error_def inv_plain)

lemma trace_plain_events: "list_all plain_event es \<Longrightarrow> trace ids cs es"
  by (induction es rule: rev_induct) (simp_all add: trace_plain, simp add: trace_def)

lemma inv_new:
  "list_all plain_event es \<Longrightarrow> sup_inv (supervisor_new prefix_path env \<lparr>ew_events = es, ew_failure = f\<rparr>)"
  by (simp add: sup_inv_defs tables_def trace_plain_events supervisor_new_def live_def)

lemma inv_forced [inv_intros]: "sup_inv s \<Longrightarrow> sup_inv (begin_forced_shutdown s now)"
  by (auto simp: sup_inv_defs begin_forced_shutdown_def split: option.splits)

lemma inv_join [inv_intros]:
  "sup_inv s \<Longrightarrow> sup_inv (join_finished_streams s f)" "sup_inv s \<Longrightarrow> sup_inv (join_all_pending_streams s)"
  "sup_inv s \<Longrightarrow> sup_inv (stop_session s)" "sup_inv s \<Longrightarrow> sup_inv (s\<lparr>sv_last_wait_echild := b\<rparr>)"
  by (auto simp: sup_inv_defs join_finished_streams_def join_all_pending_streams_def stop_session_def)

lemma inv_new_id: "sup_inv s \<Longrightarrow> sup_inv (s\<lparr>sv_request_ids := insert rid (sv_request_ids s)\<rparr>)"
  by (simp add: sup_inv_defs tables_new_id trace_new_id)

lemma reap_one_unknown:
  "sv_pid_to_request s pid = None \<Longrightarrow> reap_one s pid c sg = s\<lparr>sv_last_wait_echild := False\<rparr>"
  by (simp add: reap_one_def fun_upd_idem)

text \<open>The fields of the supervisor after a known controller has been reaped.\<close>

lemma reap_one_known:
  assumes "sv_pid_to_request s pid = Some rid" "sv_controllers s rid = Some r" "cr_streams r = Some out"
  shows "reap_one s pid c sg =
    (if cr_is_shutdown_controller r then s
     else emit_ignored (s\<lparr>sv_in_flight := sv_in_flight s - 1\<rparr>) (ControllerExited rid pid c sg))
       \<lparr>sv_last_wait_echild := False, sv_pid_to_request := (sv_pid_to_request s)(pid := None),
        sv_pending_streams := sv_pending_streams s @ lo_stream_threads out,
        sv_controllers := (sv_controllers s)(rid := None)\<rparr>"
  using assms by (simp add: reap_one_def Let_def emit_ignored_def)

lemma inv_reap_one [inv_intros]:
  assumes "sup_inv s"
  shows "sup_inv (reap_one s pid c sg)"
proof (cases "sv_pid_to_request s pid")
  case None
  with assms show ?thesis by (simp add: reap_one_unknown inv_join)
next
  case (Some rid)
  have t: "tables (sv_request_ids s) (sv_in_flight s) (sv_pid_to_request s) (sv_controllers s)"
    and tr: "trace (sv_request_ids s) (sv_controllers s) (ew_events (sv_writer s))"
    using assms by (simp_all add: sup_inv_defs)
  from tables_pidD [OF t Some] obtain r where r: "sv_controllers s rid = Some r" "cr_controller_pid r = pid"
    by blast
  from tables_ctrlD [OF t r(1)] obtain out where out: "cr_streams r = Some out" and rid: "rid \<in> sv_request_ids s"
    by blast
  note known = reap_one_known [OF Some r(1) out]
  have "tables_ok (reap_one s pid c sg)"
    using tables_remove [OF t Some r(1) refl] by (auto simp: tables_ok_def known)
  moreover have "phase_ok (reap_one s pid c sg)"
    using assms by (auto simp: sup_inv_def phase_ok_def known)
  moreover have "trace_ok (reap_one s pid c sg)"
    using trace_exit [OF tr r rid]
      emit_ignored_events [of "s\<lparr>sv_in_flight := sv_in_flight s - 1\<rparr>" "ControllerExited rid pid c sg"]
    by (auto simp: trace_ok_def known)
  ultimately show ?thesis by (simp add: sup_inv_def)
qed

lemma inv_drain [inv_intros]: "sup_inv s \<Longrightarrow> sup_inv (fst (drain_reap_events s ws))"
proof (induction s ws rule: drain_reap_events.induct)
  case (1 s ws)
  then show ?case
    by (subst drain_reap_events.simps) (auto simp: inv_join inv_reap_one split: prod.splits reap_result.splits)
qed

text \<open>Reaping leaves the state of the shutdown alone.\<close>

definition same_shutdown :: "supervisor \<Rightarrow> supervisor \<Rightarrow> bool" where
  "same_shutdown s t \<longleftrightarrow>
     sv_phase t = sv_phase s \<and> sv_shutdown_deadline t = sv_shutdown_deadline s \<and>
     sv_forced_shutdown t = sv_forced_shutdown s \<and> sv_term_sent_at t = sv_term_sent_at s \<and>
     sv_kill_sent t = sv_kill_sent s \<and> sv_request_ids t = sv_request_ids s \<and>
     sv_shutdown_request_id t = sv_shutdown_request_id s"

lemma same_shutdown_reap_one: "same_shutdown s (reap_one s pid c sg)"
  by (auto simp: same_shutdown_def reap_one_def Let_def split: option.splits)

lemma same_shutdown_drain: "same_shutdown s (fst (drain_reap_events s ws))"
proof (induction s ws rule: drain_reap_events.induct)
  case (1 s ws)
  then show ?case
    using same_shutdown_reap_one [of s]
    by (subst drain_reap_events.simps)
      (force simp: same_shutdown_def split: prod.splits reap_result.splits)
qed

lemma drain_shutdown_fields [simp]:
  "sv_phase (fst (drain_reap_events s ws)) = sv_phase s"
  "sv_shutdown_deadline (fst (drain_reap_events s ws)) = sv_shutdown_deadline s"
  "sv_forced_shutdown (fst (drain_reap_events s ws)) = sv_forced_shutdown s"
  "sv_term_sent_at (fst (drain_reap_events s ws)) = sv_term_sent_at s"
  "sv_kill_sent (fst (drain_reap_events s ws)) = sv_kill_sent s"
  "sv_request_ids (fst (drain_reap_events s ws)) = sv_request_ids s"
  "sv_shutdown_request_id (fst (drain_reap_events s ws)) = sv_shutdown_request_id s"
  using same_shutdown_drain [of s ws] by (simp_all add: same_shutdown_def)

lemma inv_escalate [inv_intros]:
  "sup_inv s \<Longrightarrow> sv_phase s = PhStopping \<Longrightarrow> sup_inv (fst (escalate_term s now))"
  "sup_inv s \<Longrightarrow> sup_inv (fst (escalate_kill s now))"
  by (auto simp: escalate_term_def escalate_kill_def sup_inv_defs Let_def split: option.splits)

lemma inv_advance [inv_intros]: "sup_inv s \<Longrightarrow> sup_inv (fst (advance_shutdown s os))"
  unfolding advance_shutdown_def Let_def
  using inv_escalate(1) [OF inv_drain, of s "av_wait1 os" "av_now os"]
    inv_escalate(2) [of "fst (escalate_term (fst (drain_reap_events s (av_wait1 os))) (av_now os))" "av_later os"]
  by (auto simp: inv_join inv_drain split: prod.splits)

text \<open>The kernel does not give a new child the PID of a child that has not been waited for.\<close>

definition fork_fresh :: "session_os \<Rightarrow> supervisor \<Rightarrow> bool" where
  "fork_fresh os s \<longleftrightarrow>
     (case ls_fork (so_sys os) of Inr pid \<Rightarrow> sv_pid_to_request s pid = None | Inl _ \<Rightarrow> True)"

lemma launch_forked: "fst (launch_controller sys spec envp fds) = Inr out \<Longrightarrow> ls_fork sys = Inr (lo_controller_pid out)"
  by (auto simp: launch_controller_def Let_def split: sum.splits prod.splits)

text \<open>The supervisor after a controller has been entered into the tables.\<close>

definition registered :: "supervisor \<Rightarrow> string \<Rightarrow> launch_outcome \<Rightarrow> bool \<Rightarrow> supervisor" where
  "registered s rid out sh =
     s\<lparr>sv_request_ids := insert rid (sv_request_ids s),
       sv_pid_to_request := (sv_pid_to_request s)(lo_controller_pid out \<mapsto> rid),
       sv_in_flight := (if sh then sv_in_flight s else sv_in_flight s + 1),
       sv_controllers := (sv_controllers s)(rid \<mapsto>
         \<lparr>cr_request_id = rid, cr_controller_pid = lo_controller_pid out,
          cr_is_shutdown_controller = sh, cr_streams = Some out\<rparr>)\<rparr>"

lemma handle_launch_cases:
  obtains (ignored) m where "sv_phase s \<noteq> PhReady \<or> rid \<in> sv_request_ids s"
      "handle_launch os s rid spec = (Inr (), emit_validation_error s (Some rid) m)"
  | (refused) e where "plain_event e" "rid \<notin> sv_request_ids s" "sv_phase s = PhReady"
      "handle_launch os s rid spec =
        (Inr (), emit_ignored (s\<lparr>sv_request_ids := insert rid (sv_request_ids s)\<rparr>) e)"
  | (lost) out where "rid \<notin> sv_request_ids s" "sv_phase s = PhReady"
      "sv_in_flight s < MAX_IN_FLIGHT_LAUNCHES" "ls_fork (so_sys os) = Inr (lo_controller_pid out)"
      "handle_launch os s rid spec =
        (Inl ''failed to capture unreaped controller identity'', registered s rid out False)"
  | (accepted) out t where "rid \<notin> sv_request_ids s" "sv_phase s = PhReady"
      "sv_in_flight s < MAX_IN_FLIGHT_LAUNCHES" "ls_fork (so_sys os) = Inr (lo_controller_pid out)"
      "handle_launch os s rid spec =
        (fst (emit (sv_writer s) (LaunchAccepted rid (lo_controller_pid out) t)),
         (registered s rid out False)
           \<lparr>sv_writer := snd (emit (sv_writer s) (LaunchAccepted rid (lo_controller_pid out) t))\<rparr>)"
proof -
  let ?s1 = "s\<lparr>sv_request_ids := insert rid (sv_request_ids s)\<rparr>"
  show thesis
  proof (cases "sv_phase s \<noteq> PhReady \<or> rid \<in> sv_request_ids s")
    case True
    then show thesis using ignored by (cases "sv_phase s = PhReady") (auto simp: handle_launch_def)
  next
    case new: False
    show thesis
    proof (cases "MAX_IN_FLIGHT_LAUNCHES \<le> sv_in_flight s")
      case True
      with new refused [of "Error (Some rid) ''validation'' None ''too many in-flight launches''"]
      show thesis by (simp add: handle_launch_def emit_validation_error_def)
    next
      case room: False
      show thesis
      proof (cases "validate_spec_for_launch (so_fs os) spec (sv_owned_prefix s) (sv_base_env s)")
        case (Inl m)
        with new room refused [of "Error (Some rid) ''validation'' None m"]
        show thesis by (simp add: handle_launch_def emit_validation_error_def)
      next
        case merged: (Inr merged)
        show thesis
        proof (cases "fst (launch_controller (so_sys os) spec (so_env_entries os merged) (so_fds os))")
          case (Inl err)
          with new room merged refused [of "Error (Some rid) ''launch'' (le_errno err) (le_message err)"]
          show thesis by (simp add: handle_launch_def emit_launch_error_def)
        next
          case out: (Inr out)
          note forked = launch_forked [OF out]
          show thesis
          proof (cases "capture_process_identity (so_proc os) (lo_controller_pid out)")
            case None
            with new room merged out forked lost [of out] show thesis
              by (simp add: handle_launch_def registered_def Let_def)
          next
            case (Some identity)
            with new room merged out forked accepted [of out "pi_start_time identity"] show thesis
              by (simp add: handle_launch_def registered_def case_prod_beta Let_def)
          qed
        qed
      qed
    qed
  qed
qed

lemma inv_registered:
  assumes "sup_inv s" "rid \<notin> sv_request_ids s" "sv_pid_to_request s (lo_controller_pid out) = None"
    "sv_in_flight s < MAX_IN_FLIGHT_LAUNCHES"
  shows "sup_inv (registered s rid out False)"
    "sup_inv ((registered s rid out False)
       \<lparr>sv_writer := snd (emit (sv_writer s) (LaunchAccepted rid (lo_controller_pid out) t))\<rparr>)"
proof -
  let ?r = "\<lparr>cr_request_id = rid, cr_controller_pid = lo_controller_pid out,
          cr_is_shutdown_controller = False, cr_streams = Some out\<rparr>"
  from assms have t: "tables (insert rid (sv_request_ids s)) (sv_in_flight s + 1)
      ((sv_pid_to_request s)(lo_controller_pid out \<mapsto> rid)) ((sv_controllers s)(rid \<mapsto> ?r))"
    by (intro tables_insert) (auto simp: sup_inv_defs)
  from assms(1,2) have tr: "trace (insert rid (sv_request_ids s)) ((sv_controllers s)(rid \<mapsto> ?r)) (ew_events (sv_writer s))"
    "trace (insert rid (sv_request_ids s)) ((sv_controllers s)(rid \<mapsto> ?r))
       (ew_events (sv_writer s) @ [LaunchAccepted rid (lo_controller_pid out) t])"
    by (auto simp: sup_inv_defs intro!: trace_controller)
  have ph: "phase_ok (registered s rid out False)"
    using assms(1) by (auto simp: sup_inv_def phase_ok_def registered_def)
  show "sup_inv (registered s rid out False)"
    using t tr(1) ph by (simp add: sup_inv_def tables_ok_def trace_ok_def registered_def)
  show "sup_inv ((registered s rid out False)
       \<lparr>sv_writer := snd (emit (sv_writer s) (LaunchAccepted rid (lo_controller_pid out) t))\<rparr>)"
    using t tr ph emit_events [of "sv_writer s" "LaunchAccepted rid (lo_controller_pid out) t"]
    by (auto simp: sup_inv_def tables_ok_def trace_ok_def registered_def phase_ok_def)
qed

lemma inv_handle_launch [inv_intros]:
  assumes "sup_inv s" "fork_fresh os s"
  shows "sup_inv (snd (handle_launch os s rid spec))"
  by (cases rule: handle_launch_cases [where os = os and s = s and rid = rid and spec = spec])
    (use assms in \<open>auto simp: inv_errors inv_plain inv_new_id inv_registered fork_fresh_def\<close>)

lemma inv_stopping:
  assumes "sup_inv s" "sv_phase s = PhReady"
  shows "sup_inv (s\<lparr>sv_request_ids := insert rid (sv_request_ids s), sv_phase := PhStopping,
     sv_shutdown_request_id := Some rid, sv_shutdown_grace_ms := g\<rparr>)"
  using assms by (force simp: sup_inv_defs tables_new_id trace_new_id)

lemma inv_shutdown_controller:
  assumes "sup_inv s" "rid \<notin> sv_request_ids s" "sv_pid_to_request s (lo_controller_pid out) = None"
    "sv_phase s = PhReady"
  shows "sup_inv ((registered s rid out True)\<lparr>sv_phase := PhStopping, sv_shutdown_request_id := Some rid,
     sv_shutdown_grace_ms := g, sv_shutdown_deadline := d,
     sv_writer := snd (emit (sv_writer s) (ShutdownAccepted rid))\<rparr>)"
proof -
  let ?r = "\<lparr>cr_request_id = rid, cr_controller_pid = lo_controller_pid out,
          cr_is_shutdown_controller = True, cr_streams = Some out\<rparr>"
  from assms(1-3) have t: "tables (insert rid (sv_request_ids s)) (sv_in_flight s)
      ((sv_pid_to_request s)(lo_controller_pid out \<mapsto> rid)) ((sv_controllers s)(rid \<mapsto> ?r))"
    by (intro tables_insert) (auto simp: sup_inv_defs tables_def)
  have tr: "trace (insert rid (sv_request_ids s)) ((sv_controllers s)(rid \<mapsto> ?r)) (ew_events (sv_writer s))"
    using assms(1,2) by (auto simp: sup_inv_defs intro!: trace_controller(1))
  have "cr_is_shutdown_controller c \<Longrightarrow> sv_controllers s x = Some c \<Longrightarrow> False" for x c
    using assms(1,4) by (auto simp: sup_inv_def phase_ok_def)
  with t tr trace_plain [OF tr, of "ShutdownAccepted rid"] assms(1,4)
    emit_events [of "sv_writer s" "ShutdownAccepted rid"]
  show ?thesis
    by (auto simp: sup_inv_def tables_ok_def trace_ok_def phase_ok_def registered_def)
qed

lemma inv_handle_shutdown [inv_intros]:
  assumes "sup_inv s" "fork_fresh os s"
  shows "sup_inv (snd (handle_shutdown os s rid spec grace))"
proof (cases "sv_phase s \<noteq> PhReady \<or> rid \<in> sv_request_ids s")
  case True
  then show ?thesis
    using assms(1) by (cases "sv_phase s") (auto simp: handle_shutdown_def inv_errors)
next
  case new: False
  let ?s1 = "s\<lparr>sv_request_ids := insert rid (sv_request_ids s), sv_phase := PhStopping,
     sv_shutdown_request_id := Some rid, sv_shutdown_grace_ms := clamp_grace_ms grace\<rparr>"
  have s1: "sup_inv ?s1" using new assms(1) by (intro inv_stopping) auto
  let ?v1 = "validate_spec_for_launch (so_fs os) spec (sv_owned_prefix s) (sv_base_env s)"
  let ?v2 = "validate_spec_for_launch (so_fs2 os) spec (sv_owned_prefix s) (sv_base_env s)"
  show ?thesis
  proof (cases ?v1)
    case (Inl m)
    with new s1 show ?thesis by (simp add: handle_shutdown_def inv_forced inv_errors)
  next
    case ok1: (Inr e)
    show ?thesis
    proof (cases ?v2)
      case (Inl m)
      with new s1 ok1 show ?thesis by (simp add: handle_shutdown_def)
    next
      case merged: (Inr merged)
      show ?thesis
      proof (cases "fst (launch_controller (so_sys os) spec (so_env_entries os merged) (so_fds os))")
        case (Inl err)
        with new s1 ok1 merged show ?thesis by (simp add: handle_shutdown_def inv_forced inv_errors)
      next
        case out: (Inr out)
        have "sv_pid_to_request s (lo_controller_pid out) = None"
          using launch_forked [OF out] assms(2) by (simp add: fork_fresh_def)
        with new assms(1) have "sup_inv ((registered s rid out True)\<lparr>sv_phase := PhStopping,
            sv_shutdown_request_id := Some rid, sv_shutdown_grace_ms := clamp_grace_ms grace,
            sv_shutdown_deadline := Some (so_now os + unat (clamp_grace_ms grace)),
            sv_writer := snd (emit (sv_writer s) (ShutdownAccepted rid))\<rparr>)"
          by (intro inv_shutdown_controller) auto
        with new ok1 merged out show ?thesis
          by (simp add: handle_shutdown_def registered_def case_prod_beta Let_def sup_inv_defs)
      qed
    qed
  qed
qed

lemma inv_handle_line [inv_intros]:
  "sup_inv s \<Longrightarrow> fork_fresh os s \<Longrightarrow> sup_inv (snd (handle_line decode os s line))"
  by (auto simp: handle_line_def inv_forced inv_errors inv_handle_launch inv_handle_shutdown
      split: sum.splits session_request.splits)

section \<open>Runs of the supervisor\<close>

text \<open>
  The steps of a session: the calls the main loop makes, in any order and with any answers of the
  system, the loop's own messages on the shared writer, and the loss of standard output.
\<close>

inductive sup_step ::
  "(u8 list \<Rightarrow> (string, session_request) result) \<Rightarrow> supervisor \<Rightarrow> supervisor \<Rightarrow> bool" for decode where
  line: "fork_fresh os s \<Longrightarrow> sup_step decode s (snd (handle_line decode os s line))"
| forced: "sup_step decode s (begin_forced_shutdown s now)"
| drain: "sup_step decode s (fst (drain_reap_events s ws))"
| join_finished: "sup_step decode s (join_finished_streams s f)"
| join_all: "sup_step decode s (join_all_pending_streams s)"
| advance: "sup_step decode s (fst (advance_shutdown s os))"
| message: "plain_event e \<Longrightarrow> sup_step decode s (emit_ignored s e)"
| broken: "sup_step decode s (s\<lparr>sv_writer := (sv_writer s)\<lparr>ew_failure := Some text\<rparr>\<rparr>)"

inductive_cases sup_stepE: "sup_step decode s t"

inductive sup_reachable ::
  "(u8 list \<Rightarrow> (string, session_request) result) \<Rightarrow> supervisor \<Rightarrow> bool" for decode where
  start: "list_all plain_event es \<Longrightarrow>
     sup_reachable decode (supervisor_new prefix_path env \<lparr>ew_events = es, ew_failure = None\<rparr>)"
| step: "sup_reachable decode s \<Longrightarrow> sup_step decode s t \<Longrightarrow> sup_reachable decode t"

lemma inv_broken [inv_intros]: "sup_inv s \<Longrightarrow> sup_inv (s\<lparr>sv_writer := (sv_writer s)\<lparr>ew_failure := x\<rparr>\<rparr>)"
  by (simp add: sup_inv_defs)

lemma inv_step: "sup_step decode s t \<Longrightarrow> sup_inv s \<Longrightarrow> sup_inv t"
  by (induction rule: sup_step.induct) (rule inv_intros; assumption)+

lemma reachable_inv: "sup_reachable decode s \<Longrightarrow> sup_inv s"
  by (induction rule: sup_reachable.induct) (rule inv_new, assumption, rule inv_step)

interpretation supervised: guarded_machine "sup_reachable decode" "sup_step decode" sup_inv for decode
  by unfold_locales (auto intro: reachable_inv sup_reachable.step)

text \<open>C1: In every reachable state the launch counter is the number of launches whose controller has not
  been reaped and never exceeds 32, every such controller's PID maps back to its request and every
  recorded PID belongs to a controller, and at most one controller is the shutdown's.\<close>

theorem supervisor_tables_consistent:
  assumes "sup_reachable decode s"
  shows "sv_in_flight s = card {rid. \<exists>r. sv_controllers s rid = Some r \<and> \<not> cr_is_shutdown_controller r} \<and>
    sv_in_flight s \<le> MAX_IN_FLIGHT_LAUNCHES \<and>
    (\<forall>pid rid. sv_pid_to_request s pid = Some rid \<longleftrightarrow>
       (\<exists>r. sv_controllers s rid = Some r \<and> cr_controller_pid r = pid)) \<and>
    dom (sv_controllers s) \<subseteq> sv_request_ids s \<and>
    (\<forall>a b x y. sv_controllers s a = Some x \<longrightarrow> sv_controllers s b = Some y \<longrightarrow>
       cr_is_shutdown_controller x \<longrightarrow> cr_is_shutdown_controller y \<longrightarrow> a = b)"
proof -
  from supervised.reach_inv [OF assms] have
    t: "tables (sv_request_ids s) (sv_in_flight s) (sv_pid_to_request s) (sv_controllers s)"
    and p: "phase_ok s" by (simp_all add: sup_inv_def tables_ok_def)
  have "sv_pid_to_request s pid = Some rid \<longleftrightarrow> (\<exists>r. sv_controllers s rid = Some r \<and> cr_controller_pid r = pid)"
    for pid rid using tables_pidD [OF t] tables_ctrlD [OF t] by blast
  moreover have "sv_in_flight s = card (live (sv_controllers s))" "sv_in_flight s \<le> MAX_IN_FLIGHT_LAUNCHES"
    "dom (sv_controllers s) \<subseteq> sv_request_ids s" using t by (simp_all add: tables_def)
  moreover have "a = b" if "sv_controllers s a = Some x" "sv_controllers s b = Some y"
      "cr_is_shutdown_controller x" "cr_is_shutdown_controller y" for a b x y
    using p that by (metis option.inject phase_ok_def)
  ultimately show ?thesis unfolding live_def by blast
qed

text \<open>C4: On standard output a request is accepted at most once and reported as exited at most once, never
  accepted after it exited, and both events name the same controller PID.\<close>

theorem launch_events_paired:
  assumes "sup_reachable decode s" "i < j" "j < length (ew_events (sv_writer s))"
  shows "may_follow (ew_events (sv_writer s) ! i) (ew_events (sv_writer s) ! j)"
  using supervised.reach_inv [OF assms(1)] assms(2,3)
  by (auto simp: sup_inv_def trace_ok_def trace_def intro: sorted_wrt_nth_less)

section \<open>Phases and escalation\<close>

lemma phase_ready_least [simp]: "PhReady \<le> p"
  by (cases p) (simp_all add: less_eq_session_phase_def)

lemma phase_stopped_greatest [simp]: "p \<le> PhStopped"
  by (cases p) (simp_all add: less_eq_session_phase_def)

lemma handle_launch_phase: "sv_phase (snd (handle_launch os s rid spec)) = sv_phase s"
  by (cases rule: handle_launch_cases [where os = os and s = s and rid = rid and spec = spec])
    (simp_all add: emit_validation_error_def registered_def)

lemma forced_phase: "sv_phase s \<le> sv_phase (begin_forced_shutdown s now)"
  by (cases "sv_phase s") (simp_all add: begin_forced_shutdown_def)

lemma handle_shutdown_phase: "sv_phase s \<le> sv_phase (snd (handle_shutdown os s rid spec g))"
proof (cases "sv_phase s = PhReady")
  case False
  then show ?thesis by (cases "sv_phase s") (simp_all add: handle_shutdown_def emit_validation_error_def)
qed simp

lemma handle_line_phase: "sv_phase s \<le> sv_phase (snd (handle_line decode os s line))"
  using forced_phase [of "emit_validation_error s None ''second Hello rejected''" "so_now os"]
  by (auto simp: handle_line_def handle_launch_phase handle_shutdown_phase emit_validation_error_def
      split: sum.splits session_request.splits)

lemma escalate_phase [simp]:
  "sv_phase (fst (escalate_term s n)) = sv_phase s" "sv_phase (fst (escalate_kill s n)) = sv_phase s"
  by (auto simp: escalate_term_def escalate_kill_def Let_def split: option.splits)

lemma advance_phase: "sv_phase s \<le> sv_phase (fst (advance_shutdown s os))"
  by (simp add: advance_shutdown_def stop_session_def Let_def case_prod_beta)

lemma step_phase: "sup_step decode s t \<Longrightarrow> sv_phase s \<le> sv_phase t"
  by (induction rule: sup_step.induct)
    (simp_all add: handle_line_phase forced_phase advance_phase join_finished_streams_def join_all_pending_streams_def)

interpretation phases: forward_machine "sup_step decode" sv_phase for decode
  by unfold_locales (rule step_phase)

text \<open>A session's phase only moves forward, from Ready to Stopping to Stopped: over any sequence of
  requests, signals and reaped children, a stopping session never becomes ready and a stopped one stays stopped.\<close>

theorem session_phase_monotone:
  assumes "(sup_step decode)\<^sup>*\<^sup>* s t"
  shows "sv_phase s \<le> sv_phase t \<and> (sv_phase s = PhStopped \<longrightarrow> sv_phase t = PhStopped)"
  using phases.run_forward [OF assms] by (auto intro: antisym)

text \<open>When a shutdown is due: it was forced, or its deadline has passed.\<close>

definition shutdown_due :: "supervisor \<Rightarrow> nat \<Rightarrow> bool" where
  "shutdown_due s now \<longleftrightarrow>
     sv_forced_shutdown s \<or> (case sv_shutdown_deadline s of None \<Rightarrow> True | Some d \<Rightarrow> d \<le> now)"

lemma escalate_term_due:
  "escalate_term s now =
     (if shutdown_due s now
      then ((if sv_term_sent_at s = None then s\<lparr>sv_term_sent_at := Some now\<rparr> else s), [SIGTERM]) else (s, []))"
  by (simp add: escalate_term_def shutdown_due_def split: option.splits)

lemma shutdown_due_drain [simp]: "shutdown_due (fst (drain_reap_events s ws)) now = shutdown_due s now"
  by (simp add: shutdown_due_def)

lemma escalate_kill_fields [simp]:
  "sv_term_sent_at (fst (escalate_kill s n)) = sv_term_sent_at s"
  "sv_shutdown_deadline (fst (escalate_kill s n)) = sv_shutdown_deadline s"
  "sv_forced_shutdown (fst (escalate_kill s n)) = sv_forced_shutdown s"
  by (auto simp: escalate_kill_def split: option.splits)

lemma stop_session_fields [simp]:
  "sv_phase (stop_session s) = PhStopped" "sv_term_sent_at (stop_session s) = sv_term_sent_at s"
  "sv_shutdown_deadline (stop_session s) = sv_shutdown_deadline s"
  "sv_forced_shutdown (stop_session s) = sv_forced_shutdown s" "sv_kill_sent (stop_session s) = sv_kill_sent s"
  "sv_last_wait_echild (stop_session s) = sv_last_wait_echild s" "sv_pending_streams (stop_session s) = []"
  by (simp_all add: stop_session_def join_all_pending_streams_def join_all_stream_handles_def)

text \<open>C2: One call of \<open>advance_shutdown\<close> on a stopping session sends SIGTERM only when the shutdown was forced
  or its grace period is over, sends SIGKILL only two seconds or more after the first SIGTERM, keeps
  the time of that first SIGTERM, and stops the session only when the kernel reported that no child
  is left, with every output thread joined.\<close>

theorem shutdown_escalation:
  assumes "sv_phase s = PhStopping" "advance_shutdown s os = (t, sigs)"
  shows "set sigs \<subseteq> {SIGTERM, SIGKILL} \<and>
    (SIGTERM \<in> set sigs \<longrightarrow> shutdown_due s (av_now os)) \<and>
    (SIGKILL \<in> set sigs \<longrightarrow> (\<exists>first. sv_term_sent_at t = Some first \<and> first + 2000 \<le> av_later os)) \<and>
    (sv_term_sent_at s \<noteq> None \<longrightarrow> sv_term_sent_at t = sv_term_sent_at s) \<and>
    (sv_phase t = PhStopped \<longrightarrow> sv_last_wait_echild t \<and> sv_pending_streams t = [])"
proof -
  let ?s1 = "fst (drain_reap_events s (av_wait1 os))"
  let ?s2 = "fst (escalate_term ?s1 (av_now os))"
  let ?s3 = "fst (escalate_kill ?s2 (av_later os))"
  let ?s4 = "fst (drain_reap_events ?s3 (av_wait2 os))"
  have sig1: "snd (escalate_term ?s1 (av_now os)) = (if shutdown_due s (av_now os) then [SIGTERM] else [])"
    by (simp add: escalate_term_due)
  have sig2: "SIGKILL \<in> set (snd (escalate_kill ?s2 (av_later os))) \<Longrightarrow>
      \<exists>first. sv_term_sent_at ?s2 = Some first \<and> first + 2000 \<le> av_later os"
    "set (snd (escalate_kill ?s2 (av_later os))) \<subseteq> {SIGKILL}"
    by (auto simp: escalate_kill_def split: option.splits if_splits)
  have keep: "sv_term_sent_at s \<noteq> None \<Longrightarrow> sv_term_sent_at ?s2 = sv_term_sent_at s"
    by (auto simp: escalate_term_due)
  have ph: "sv_phase ?s4 = PhStopping" using assms(1) by simp
  have neq: "SIGTERM \<noteq> SIGKILL" by (simp add: SIGTERM_def SIGKILL_def)
  show ?thesis
  proof (cases "sv_last_wait_echild ?s1")
    case True
    with assms show ?thesis by (auto simp: advance_shutdown_def Let_def)
  next
    case False
    with assms have t: "t = (if sv_term_sent_at ?s4 \<noteq> None \<and> sv_last_wait_echild ?s4 then stop_session ?s4 else ?s4)"
      "sigs = snd (escalate_term ?s1 (av_now os)) @ snd (escalate_kill ?s2 (av_later os))"
      by (auto simp: advance_shutdown_def Let_def case_prod_beta)
    then have "sv_term_sent_at t = sv_term_sent_at ?s2" by simp
    with t sig1 sig2 keep ph neq show ?thesis by (auto split: if_splits)
  qed
qed

section \<open>A shutdown comes to an end\<close>

text \<open>The answers end with the report that there are no children.\<close>

fun no_children :: "wait_answer list \<Rightarrow> bool" where
  "no_children [] = False"
| "no_children (WaitNone # ws) = False"
| "no_children (WaitError e # ws) = (e = ECHILD \<or> e = EINTR \<and> no_children ws)"
| "no_children (WaitStatus pid st # ws) = no_children ws"

lemma waitpid_no_children:
  "no_children ws \<longleftrightarrow>
     (case waitpid_reap_with_signal ws of
        (ReapErr, _) \<Rightarrow> True | (ReapNone, _) \<Rightarrow> False | (Reaped _ _ _, ws') \<Rightarrow> no_children ws')"
  by (induction ws rule: waitpid_reap_with_signal.induct) auto

lemma drain_echild: "sv_last_wait_echild (fst (drain_reap_events s ws)) = no_children ws"
proof (induction s ws rule: drain_reap_events.induct)
  case (1 s ws)
  show ?case
  proof (cases "waitpid_reap_with_signal ws")
    case (Pair r ws')
    then show ?thesis
      using 1 [OF Pair [symmetric]] waitpid_no_children [of ws]
      by (subst drain_reap_events.simps) (cases r; simp)
  qed
qed

definition run_advance :: "supervisor \<Rightarrow> advance_os list \<Rightarrow> supervisor" where
  "run_advance s oss = foldl (\<lambda>t os. fst (advance_shutdown t os)) s oss"

lemma run_advance_simps [simp]:
  "run_advance s [] = s" "run_advance s (os # oss) = run_advance (fst (advance_shutdown s os)) oss"
  "run_advance s (xs @ ys) = run_advance (run_advance s xs) ys"
  by (simp_all add: run_advance_def)

lemma advance_stopped: "sv_phase s = PhStopped \<Longrightarrow> advance_shutdown s os = (s, [])"
  by (simp add: advance_shutdown_def)

text \<open>The stages of a shutdown, each of them kept by every further call: due at time \<open>n\<close>, SIGTERM sent by
  time \<open>n\<close>, SIGKILL sent.\<close>

definition stage_due :: "nat \<Rightarrow> supervisor \<Rightarrow> bool" where
  "stage_due n s \<longleftrightarrow> sv_phase s = PhStopped \<or> sv_phase s = PhStopping \<and> shutdown_due s n \<and>
     (\<forall>first. sv_term_sent_at s = Some first \<longrightarrow> first \<le> n)"

definition stage_term :: "nat \<Rightarrow> supervisor \<Rightarrow> bool" where
  "stage_term n s \<longleftrightarrow> sv_phase s = PhStopped \<or> sv_phase s = PhStopping \<and>
     (\<exists>first. sv_term_sent_at s = Some first \<and> first \<le> n)"

definition stage_kill :: "supervisor \<Rightarrow> bool" where
  "stage_kill s \<longleftrightarrow> sv_phase s = PhStopped \<or> sv_phase s = PhStopping \<and> sv_kill_sent s"

lemma advance_unfold:
  fixes s :: supervisor and os :: advance_os
  assumes "sv_phase s = PhStopping"
  defines "s1 \<equiv> fst (drain_reap_events s (av_wait1 os))"
  defines "s3 \<equiv> fst (escalate_kill (fst (escalate_term s1 (av_now os))) (av_later os))"
  shows "fst (advance_shutdown s os) = stop_session s1 \<and> no_children (av_wait1 os) \<or>
    \<not> no_children (av_wait1 os) \<and>
    (fst (advance_shutdown s os) = stop_session (fst (drain_reap_events s3 (av_wait2 os))) \<or>
     fst (advance_shutdown s os) = fst (drain_reap_events s3 (av_wait2 os)))"
  using assms by (auto simp: advance_shutdown_def Let_def case_prod_beta drain_echild)

lemma escalate_term_fields [simp]:
  "sv_shutdown_deadline (fst (escalate_term s n)) = sv_shutdown_deadline s"
  "sv_forced_shutdown (fst (escalate_term s n)) = sv_forced_shutdown s"
  "sv_kill_sent (fst (escalate_term s n)) = sv_kill_sent s"
  by (simp_all add: escalate_term_due)

lemma escalate_kill_sent:
  "sv_kill_sent (fst (escalate_kill s n)) \<longleftrightarrow>
     sv_kill_sent s \<or> (\<exists>first. sv_term_sent_at s = Some first \<and> first + 2000 \<le> n)"
  by (auto simp: escalate_kill_def split: option.splits)

lemma escalate_term_sent:
  "sv_term_sent_at (fst (escalate_term s n)) =
     (case sv_term_sent_at s of Some f \<Rightarrow> Some f | None \<Rightarrow> if shutdown_due s n then Some n else None)"
  by (simp add: escalate_term_due split: option.splits)

lemma shutdown_due_fields [simp]:
  "shutdown_due (fst (escalate_term s m)) n = shutdown_due s n"
  "shutdown_due (fst (escalate_kill s m)) n = shutdown_due s n" "shutdown_due (stop_session s) n = shutdown_due s n"
  by (simp_all add: shutdown_due_def)

lemmas stage_simps = advance_stopped escalate_term_sent escalate_kill_sent

lemma stage_due_keeps: "stage_due n s \<Longrightarrow> av_now os \<le> n \<Longrightarrow> stage_due n (fst (advance_shutdown s os))"
  using advance_unfold [of s os]
  by (cases "sv_phase s") (auto simp: stage_due_def stage_simps split: option.splits if_splits)

lemma stage_term_starts:
  "stage_due n s \<Longrightarrow> av_now os = n \<Longrightarrow> stage_term n (fst (advance_shutdown s os))"
  using advance_unfold [of s os]
  by (cases "sv_phase s") (auto simp: stage_due_def stage_term_def stage_simps split: option.splits)

lemma stage_term_keeps: "stage_term n s \<Longrightarrow> stage_term n (fst (advance_shutdown s os))"
  using advance_unfold [of s os]
  by (cases "sv_phase s") (auto simp: stage_term_def stage_simps)

lemma stage_kill_starts:
  "stage_term n s \<Longrightarrow> n + 2000 \<le> av_later os \<Longrightarrow> stage_kill (fst (advance_shutdown s os))"
  using advance_unfold [of s os]
  by (cases "sv_phase s") (auto simp: stage_term_def stage_kill_def stage_simps)

lemma stage_kill_keeps: "stage_kill s \<Longrightarrow> stage_kill (fst (advance_shutdown s os))"
  using advance_unfold [of s os]
  by (cases "sv_phase s") (auto simp: stage_kill_def stage_simps)

lemma run_keeps: "(\<And>t os. os \<in> set oss \<Longrightarrow> P t \<Longrightarrow> P (fst (advance_shutdown t os))) \<Longrightarrow> P s \<Longrightarrow> P (run_advance s oss)"
  by (induction oss arbitrary: s) auto

text \<open>C3: A stopping session ends: once a call finds the shutdown due at time \<open>n\<close>, and a later call is made two
  seconds after that, every descendant has been sent SIGKILL (unless the session stopped before);
  and the first call after that for which the kernel reports no children stops the session.  The
  clock must not run backwards.\<close>

theorem shutdown_terminates:
  assumes "sv_phase s = PhStopping" "sv_term_sent_at s = None" "shutdown_due s (av_now a)"
    "list_all (\<lambda>os. av_now os \<le> av_now a) xs" "av_now a + 2000 \<le> av_later b" "no_children (av_wait1 c)"
  shows "(let killed = run_advance s (xs @ [a] @ ys @ [b])
          in sv_phase killed = PhStopped \<or> sv_kill_sent killed) \<and>
    sv_phase (run_advance s (xs @ [a] @ ys @ [b] @ zs @ [c])) = PhStopped"
proof -
  let ?n = "av_now a"
  have "stage_due ?n s" using assms(1-3) by (simp add: stage_due_def)
  then have "stage_due ?n (run_advance s xs)"
    by (rule run_keeps [rotated]) (use assms(4) in \<open>auto simp: list_all_iff intro: stage_due_keeps\<close>)
  then have "stage_term ?n (run_advance s (xs @ [a]))" by (simp add: stage_term_starts)
  then have "stage_term ?n (run_advance (run_advance s (xs @ [a])) ys)"
    by (rule run_keeps [rotated]) (rule stage_term_keeps)
  then have kill: "stage_kill (run_advance s (xs @ [a] @ ys @ [b]))"
    using assms(5) by (simp add: stage_kill_starts)
  then have "stage_kill (run_advance (run_advance s (xs @ [a] @ ys @ [b])) zs)"
    by (rule run_keeps [rotated]) (rule stage_kill_keeps)
  moreover have "stage_kill t \<Longrightarrow> sv_phase (fst (advance_shutdown t c)) = PhStopped" for t
    using advance_unfold [of t c] assms(6) by (auto simp: stage_kill_def advance_stopped)
  ultimately show ?thesis using kill by (auto simp: stage_kill_def Let_def)
qed

section \<open>Witnesses\<close>

text \<open>A session that launches one controller, PID 7, which then exits with code 0.\<close>

definition example_os :: session_os where
  "example_os = \<lparr>so_fs = example_fs, so_fs2 = example_fs,
     so_sys = \<lparr>ls_strerror = (\<lambda>_. []), ls_pipe_stdout = Inr (3, 4), ls_pipe_stderr = Inr (5, 6),
               ls_open_null = Inr 8, ls_fork = Inr 7\<rparr>,
     so_env_entries = (\<lambda>_. []), so_fds = {}, so_proc = example_proc, so_now = 0\<rparr>"

definition example_decode :: "u8 list \<Rightarrow> (string, session_request) result" where
  "example_decode line = (if line = [] then Inl ''EOF'' else Inr (Launch ''r1'' example_spec))"

definition example_sup :: supervisor where
  "example_sup = supervisor_new [RootDir, Normal ''pfx''] [''WINEPREFIX'' \<mapsto> ''/other'', ''LANG'' \<mapsto> ''C'']
     \<lparr>ew_events = [], ew_failure = None\<rparr>"

definition example_running :: supervisor where
  "example_running = snd (handle_line example_decode example_os example_sup [1])"

definition example_exited :: supervisor where
  "example_exited = fst (drain_reap_events example_running [WaitStatus 7 0])"

lemma example_launch_ok:
  "fst (launch_controller (so_sys example_os) example_spec [] {}) =
     Inr \<lparr>lo_controller_pid = 7, lo_stream_threads = [3, 5]\<rparr>"
  by (simp add: launch_controller_def launch_strings_def example_spec_def has_nul_def example_os_def)

lemma example_running_eq:
  "example_running = (registered example_sup ''r1'' \<lparr>lo_controller_pid = 7, lo_stream_threads = [3, 5]\<rparr> False)
     \<lparr>sv_writer := \<lparr>ew_events = [LaunchAccepted ''r1'' 7 99], ew_failure = None\<rparr>\<rparr>"
proof -
  have os: "so_fs example_os = example_fs" "so_env_entries example_os m = []" "so_fds example_os = {}"
    "so_proc example_os = example_proc" for m by (simp_all add: example_os_def)
  have sup: "sv_phase example_sup = PhReady" "sv_request_ids example_sup = {}" "sv_in_flight example_sup = 0"
    "sv_owned_prefix example_sup = [RootDir, Normal ''pfx'']"
    "sv_base_env example_sup = [''WINEPREFIX'' \<mapsto> ''/other'', ''LANG'' \<mapsto> ''C'']"
    "sv_writer example_sup = \<lparr>ew_events = [], ew_failure = None\<rparr>"
    by (simp_all add: example_sup_def supervisor_new_def)
  show ?thesis
    by (simp add: example_running_def handle_line_def example_decode_def handle_launch_def sup os
        MAX_IN_FLIGHT_LAUNCHES_def example_launch example_launch_ok example_capture emit_def
        registered_def Let_def del: fun_upd_apply)
qed

lemma example_reachable: "sup_reachable example_decode example_sup" "sup_reachable example_decode example_running"
  "sup_reachable example_decode example_exited"
proof -
  show r0: "sup_reachable example_decode example_sup" unfolding example_sup_def by (rule sup_reachable.start) simp
  have "fork_fresh example_os example_sup"
    by (simp add: fork_fresh_def example_os_def example_sup_def supervisor_new_def)
  with r0 show r1: "sup_reachable example_decode example_running"
    unfolding example_running_def by (blast intro: sup_reachable.step sup_step.line)
  then show "sup_reachable example_decode example_exited"
    unfolding example_exited_def by (blast intro: sup_reachable.step sup_step.drain)
qed

theorem supervisor_tables_consistent_witness:
  "card {rid. \<exists>r. sv_controllers example_running rid = Some r \<and> \<not> cr_is_shutdown_controller r} = 1"
proof -
  have "sv_in_flight example_running = 1"
    by (simp add: example_running_eq registered_def example_sup_def supervisor_new_def)
  with conjunct1 [OF supervisor_tables_consistent [OF example_reachable(2)]] show ?thesis by (simp only:)
qed

lemma example_exited_events:
  "ew_events (sv_writer example_exited) = [LaunchAccepted ''r1'' 7 99, ControllerExited ''r1'' 7 (Some 0) None]"
proof -
  have "sv_pid_to_request example_running 7 = Some ''r1''"
    "sv_controllers example_running ''r1'' = Some \<lparr>cr_request_id = ''r1'', cr_controller_pid = 7,
       cr_is_shutdown_controller = False,
       cr_streams = Some \<lparr>lo_controller_pid = 7, lo_stream_threads = [3, 5]\<rparr>\<rparr>"
    "sv_writer example_running = \<lparr>ew_events = [LaunchAccepted ''r1'' 7 99], ew_failure = None\<rparr>"
    by (simp_all add: example_running_eq registered_def)
  then show ?thesis
    by (simp add: example_exited_def drain_reap_events.simps [of _ "[WaitStatus 7 0]"]
        drain_reap_events.simps [of _ "[]"] reap_one_known emit_ignored_def emit_def
        exit_code_of_def term_signal_of_def)
qed

theorem launch_events_paired_witness:
  "may_follow (LaunchAccepted ''r1'' 7 99) (ControllerExited ''r1'' 7 (Some 0) None)"
  using launch_events_paired [OF example_reachable(3), of 0 1] by (simp add: example_exited_events)

definition example_stopping :: supervisor where
  "example_stopping = begin_forced_shutdown example_running 0"

lemma example_stopping_fields [simp]:
  "sv_phase example_stopping = PhStopping" "sv_term_sent_at example_stopping = None"
  "shutdown_due example_stopping n"
  by (simp_all add: example_stopping_def begin_forced_shutdown_def example_running_eq registered_def
      example_sup_def supervisor_new_def shutdown_due_def)

definition alive_at :: "nat \<Rightarrow> advance_os" where
  "alive_at n = \<lparr>av_wait1 = [WaitNone], av_now = n, av_later = n, av_wait2 = [WaitNone]\<rparr>"

definition reaped_at :: "nat \<Rightarrow> advance_os" where
  "reaped_at n = \<lparr>av_wait1 = [WaitStatus 7 9, WaitError ECHILD], av_now = n, av_later = n, av_wait2 = []\<rparr>"

theorem shutdown_escalation_witness:
  "SIGKILL \<notin> set (snd (advance_shutdown example_stopping (alive_at 100)))"
proof -
  obtain t sigs where run: "advance_shutdown example_stopping (alive_at 100) = (t, sigs)" by fastforce
  have "\<not> (\<exists>first. sv_term_sent_at t = Some first \<and> first + 2000 \<le> 100)" by simp
  with shutdown_escalation [OF _ run] have "SIGKILL \<notin> set sigs" by (simp add: alive_at_def)
  with run show ?thesis by simp
qed

theorem shutdown_terminates_witness:
  "sv_phase (run_advance example_stopping [alive_at 100, alive_at 2100, reaped_at 2200]) = PhStopped"
  using shutdown_terminates [of example_stopping "alive_at 100" "[]" "alive_at 2100" "reaped_at 2200" "[]" "[]"]
  by (simp add: alive_at_def reaped_at_def)

end
