(* ===== verification/SessionMain.thy ===== *)
theory SessionMain
  imports Supervisor
begin

text \<open>
  The main program of the sidecar (\<open>ro-sessiond/src/main.rs\<close>): arguments, handshake, and one iteration of
  the session loop, which composes the line reader and the supervisor.  The answers of the system
  during an iteration (parent check, pending SIGTERM, polls, clock, \<open>waitpid\<close>) are its argument.
\<close>

section \<open>Arguments\<close>

record session_config =
  cfg_prefix :: path
  cfg_parent_pid :: u32

text \<open>The loop over the arguments after the program name.\<close>

fun parse_args_loop ::
  "string option \<Rightarrow> u32 option \<Rightarrow> string list \<Rightarrow> (string, string option \<times> u32 option) result" where
  "parse_args_loop pfx parent [] = Inr (pfx, parent)"
| "parse_args_loop pfx parent [a] = Inl (''unknown argument: '' @ a)"
| "parse_args_loop pfx parent (a # v # rest) =
     (if a = ''--prefix'' then parse_args_loop (Some v) parent rest
      else if a = ''--parent-pid'' then
        (case parse_u32 (points v) of
           None \<Rightarrow> Inl ''invalid parent pid''
         | Some pid \<Rightarrow> parse_args_loop pfx (Some pid) rest)
      else Inl (''unknown argument: '' @ a))"

definition parse_args :: "file_system \<Rightarrow> string list \<Rightarrow> (string, session_config) result" where
  "parse_args fs args =
     (case parse_args_loop None None args of
        Inl e \<Rightarrow> Inl e
      | Inr (None, _) \<Rightarrow> Inl ''missing --prefix''
      | Inr (Some _, None) \<Rightarrow> Inl ''missing --parent-pid''
      | Inr (Some pfx, Some parent) \<Rightarrow>
          (case canonicalize_prefix_path fs (path_of pfx) of
             None \<Rightarrow> Inl ''prefix path could not be canonicalized''
           | Some canonical \<Rightarrow> Inr \<lparr>cfg_prefix = canonical, cfg_parent_pid = parent\<rparr>))"

section \<open>Handshake\<close>

definition main_emit_error :: "event_writer \<Rightarrow> string option \<Rightarrow> string \<Rightarrow> string \<Rightarrow> int option \<Rightarrow> event_writer" where
  "main_emit_error w rid stage message errno = snd (emit w (Error rid stage errno message))"

text \<open>The texts of the reader's errors; that of a failing read comes from the system.\<close>

fun read_error_text :: "string \<Rightarrow> read_error \<Rightarrow> string" where
  "read_error_text io InvalidUtf8 = ''invalid utf-8''"
| "read_error_text io MessageTooLong = ''message exceeds MAX_MESSAGE_BYTES''"
| "read_error_text io IncompleteLine = ''incomplete line''"
| "read_error_text io ReadIoError = io"

definition answer_hello ::
  "u32 \<Rightarrow> string \<Rightarrow> session_request \<Rightarrow> event_writer \<Rightarrow> (int, unit) result \<times> event_writer" where
  "answer_hello self_pid prefix_text request w =
     (case request of
        Hello version \<Rightarrow>
          if version \<noteq> PROTOCOL_VERSION then
            (Inl 1, main_emit_error w None ''handshake''
               (''unsupported protocol version '' @ show_nat (unat version)) None)
          else (case emit w (Ready PROTOCOL_VERSION self_pid prefix_text True) of
                  (Inl _, w') \<Rightarrow> (Inl 1, w')
                | (Inr _, w') \<Rightarrow> (Inr (), w'))
      | _ \<Rightarrow> (Inl 1, main_emit_error w None ''handshake'' ''first request must be Hello'' None))"

text \<open>One iteration per element: the clock reading and whether standard input is ready.  \<^const>\<open>None\<close>: the
  handshake is still waiting after these iterations.\<close>

fun handshake ::
  "(u8 list \<Rightarrow> (string, session_request) result) \<Rightarrow> string \<Rightarrow> u32 \<Rightarrow> string \<Rightarrow> nat \<Rightarrow> (nat \<times> bool) list
     \<Rightarrow> line_reader \<Rightarrow> event_writer \<Rightarrow> ((int, unit) result \<times> line_reader \<times> event_writer) option" where
  "handshake decode io self_pid prefix_text deadline [] r w = None"
| "handshake decode io self_pid prefix_text deadline ((now, ready) # ticks) r w =
     (if deadline \<le> now then
        Some (Inl 1, r, main_emit_error w None ''handshake'' ''timed out waiting for Hello'' None)
      else if \<not> ready then handshake decode io self_pid prefix_text deadline ticks r w
      else
        (case read_line r of
           (EndOfInput, r') \<Rightarrow>
             Some (Inl 1, r', main_emit_error w None ''handshake'' ''unexpected EOF before Hello'' None)
         | (ReadErr e, r') \<Rightarrow>
             Some (Inl 1, r', main_emit_error w None ''protocol''
               (''invalid handshake message: '' @ read_error_text io e) None)
         | (Line line, r') \<Rightarrow>
             (case decode line of
                Inl e \<Rightarrow> Some (Inl 1, r', main_emit_error w None ''handshake'' (''invalid JSON: '' @ e) None)
              | Inr request \<Rightarrow>
                  (case answer_hello self_pid prefix_text request w of (res, w') \<Rightarrow> Some (res, r', w')))))"

section \<open>The session loop\<close>

record session_loop =
  sl_sup :: supervisor
  sl_reader :: line_reader
  sl_stdin_eof :: bool
  sl_idle_streak :: u32
  sl_idle_emitted :: bool
  sl_exit :: "int option"

text \<open>\<open>poll\<close>'s return value and the returned events.\<close>

definition POLLIN :: u16 where "POLLIN = 1"
definition POLLERR :: u16 where "POLLERR = 8"
definition POLLHUP :: u16 where "POLLHUP = 16"

definition poll_stdin :: "int \<times> u16 \<Rightarrow> bool" where
  "poll_stdin answer \<longleftrightarrow> 0 < fst answer \<and> and (snd answer) (or (or POLLIN POLLHUP) POLLERR) \<noteq> 0"

definition stdin_poll_hup_or_err :: "int \<times> u16 \<Rightarrow> bool" where
  "stdin_poll_hup_or_err answer \<longleftrightarrow> 0 < fst answer \<and> and (snd answer) (or POLLHUP POLLERR) \<noteq> 0"

record loop_os =
  lp_parent_ok :: bool
  lp_sigterm :: bool
  lp_poll :: "int \<times> u16"
  lp_poll_hup :: "int \<times> u16"
  lp_io_text :: string
  lp_session :: session_os
  lp_wait :: "wait_answer list"
  lp_finished :: "fd \<Rightarrow> bool"
  lp_advance :: advance_os

definition run_session_start :: "supervisor \<Rightarrow> line_reader \<Rightarrow> session_loop" where
  "run_session_start s r =
     \<lparr>sl_sup = s, sl_reader = r, sl_stdin_eof = False, sl_idle_streak = 0, sl_idle_emitted = False,
      sl_exit = None\<rparr>"

definition check_parent_and_signal :: "loop_os \<Rightarrow> supervisor \<Rightarrow> supervisor" where
  "check_parent_and_signal os s =
     (let s1 = (if \<not> lp_parent_ok os then begin_forced_shutdown s (so_now (lp_session os)) else s)
      in if lp_sigterm os then begin_forced_shutdown s1 (so_now (lp_session os)) else s1)"

definition sup_error :: "supervisor \<Rightarrow> string \<Rightarrow> supervisor" where
  "sup_error s message = s\<lparr>sv_writer := main_emit_error (sv_writer s) None ''protocol'' message None\<rparr>"

definition serve_stdin ::
  "(u8 list \<Rightarrow> (string, session_request) result) \<Rightarrow> loop_os \<Rightarrow> session_loop \<Rightarrow> session_loop" where
  "serve_stdin decode os st =
     (if \<not> sl_stdin_eof st \<and>
         (has_buffered_line (sl_reader st) \<or> poll_stdin (lp_poll os) \<or> stdin_poll_hup_or_err (lp_poll_hup os)) then
        (case read_line (sl_reader st) of
           (Line line, r) \<Rightarrow>
             (case handle_line decode (lp_session os) (sl_sup st) line of
                (Inl e, s) \<Rightarrow> st\<lparr>sl_reader := r, sl_sup := sup_error s (''invalid request: '' @ e)\<rparr>
              | (Inr _, s) \<Rightarrow> st\<lparr>sl_reader := r, sl_sup := s\<rparr>)
         | (EndOfInput, r) \<Rightarrow>
             st\<lparr>sl_reader := r, sl_stdin_eof := True,
                sl_sup := begin_forced_shutdown (sl_sup st) (so_now (lp_session os))\<rparr>
         | (ReadErr IncompleteLine, r) \<Rightarrow> st\<lparr>sl_reader := r\<rparr>
         | (ReadErr e, r) \<Rightarrow>
             st\<lparr>sl_reader := r, sl_sup := sup_error (sl_sup st) (read_error_text (lp_io_text os) e)\<rparr>)
      else st)"

definition note_idle :: "session_loop \<Rightarrow> session_loop" where
  "note_idle st =
     (if sv_phase (sl_sup st) = PhReady then
        (if sv_last_wait_echild (sl_sup st) then
           let st1 = st\<lparr>sl_idle_streak := sl_idle_streak st + 1\<rparr>
           in if 2 \<le> sl_idle_streak st1 \<and> \<not> sl_idle_emitted st1
              then st1\<lparr>sl_sup := emit_ignored (sl_sup st1) Idle, sl_idle_emitted := True\<rparr>
              else st1
         else st\<lparr>sl_idle_streak := 0, sl_idle_emitted := False\<rparr>)
      else st)"

definition finish_if_stopped :: "session_loop \<Rightarrow> session_loop" where
  "finish_if_stopped st =
     (if sv_phase (sl_sup st) = PhStopped
      then st\<lparr>sl_sup := emit_ignored (join_all_pending_streams (sl_sup st)) Stopped, sl_exit := Some 0\<rparr>
      else st)"

definition session_iteration ::
  "(u8 list \<Rightarrow> (string, session_request) result) \<Rightarrow> session_loop \<Rightarrow> loop_os \<Rightarrow> session_loop" where
  "session_iteration decode st os =
     (if sl_exit st \<noteq> None then st
      else
        let st1 = st\<lparr>sl_sup := check_parent_and_signal os (sl_sup st)\<rparr>;
            st2 = serve_stdin decode os st1;
            s3 = join_finished_streams (fst (drain_reap_events (sl_sup st2) (lp_wait os))) (lp_finished os);
            s4 = (if sv_phase s3 = PhStopping then fst (advance_shutdown s3 (lp_advance os)) else s3)
        in finish_if_stopped (note_idle (st2\<lparr>sl_sup := s4\<rparr>)))"

text \<open>
  \<open>run_session\<close>: the checks before the loop, each of which ends the program with code 1, and the loop on
  the answers it gets.  \<^const>\<open>None\<close>: the handshake is still waiting.
\<close>

record start_os =
  st_parent_ok :: bool
  st_subreaper_ok :: bool
  st_parent_still_ok :: bool
  st_hello :: "(nat \<times> bool) list"
  st_started :: nat
  st_io_text :: string
  st_nonblocking_ok :: bool
  st_self_pid :: u32
  st_prefix_text :: string
  st_base_env :: env_map

definition run_session ::
  "(u8 list \<Rightarrow> (string, session_request) result) \<Rightarrow> session_config \<Rightarrow> start_os \<Rightarrow> chunk list \<Rightarrow> loop_os list
     \<Rightarrow> (int + session_loop) option" where
  "run_session decode cfg os stdin ticks =
     (if \<not> st_parent_ok os then Some (Inl 1)
      else if \<not> st_subreaper_ok os then Some (Inl 1)
      else if \<not> st_parent_still_ok os then Some (Inl 1)
      else
        (case handshake decode (st_io_text os) (st_self_pid os) (st_prefix_text os) (st_started os + 5000)
                (st_hello os) (reader_new stdin) \<lparr>ew_events = [], ew_failure = None\<rparr> of
           None \<Rightarrow> None
         | Some (Inl _, _, _) \<Rightarrow> Some (Inl 1)
         | Some (Inr _, r, w) \<Rightarrow>
             if \<not> st_nonblocking_ok os then Some (Inl 1)
             else Some (Inr (foldl (session_iteration decode)
                    (run_session_start (supervisor_new (cfg_prefix cfg) (st_base_env os) w) r) ticks))))"

section \<open>The loop keeps to the supervisor's steps\<close>

text \<open>The states of the loop, from any reader and any supervisor that has written only the handshake.\<close>

inductive session_runs ::
  "(u8 list \<Rightarrow> (string, session_request) result) \<Rightarrow> session_loop \<Rightarrow> bool" for decode where
  start: "list_all plain_event es \<Longrightarrow>
     session_runs decode (run_session_start
       (supervisor_new prefix_path env \<lparr>ew_events = es, ew_failure = None\<rparr>) r)"
| iterate: "session_runs decode st \<Longrightarrow> fork_fresh (lp_session os) (sl_sup st) \<Longrightarrow>
     session_runs decode (session_iteration decode st os)"

lemma reach_check: "sup_reachable decode s \<Longrightarrow> sup_reachable decode (check_parent_and_signal os s)"
  unfolding check_parent_and_signal_def Let_def by (auto intro: sup_reachable.step sup_step.forced)

lemma sup_error_emit: "sup_error s m = emit_ignored s (Error None ''protocol'' None m)"
  by (simp add: sup_error_def emit_ignored_def main_emit_error_def)

lemma reach_error: "sup_reachable decode s \<Longrightarrow> sup_reachable decode (sup_error s m)"
  unfolding sup_error_emit by (rule sup_reachable.step, assumption, rule sup_step.message) simp

lemma reach_line:
  "sup_reachable decode s \<Longrightarrow> fork_fresh os s \<Longrightarrow> handle_line decode os s l = (r, t) \<Longrightarrow> sup_reachable decode t"
  by (metis snd_conv sup_reachable.step sup_step.line)

lemma fork_fresh_check [simp]: "fork_fresh os (check_parent_and_signal p s) = fork_fresh os s"
  by (auto simp: fork_fresh_def check_parent_and_signal_def begin_forced_shutdown_def Let_def split: sum.splits)

lemma reach_serve:
  assumes "sup_reachable decode (sl_sup st)" "fork_fresh (lp_session os) (sl_sup st)"
  shows "sup_reachable decode (sl_sup (serve_stdin decode os st))"
  using assms unfolding serve_stdin_def
  by (auto intro: reach_line reach_error sup_reachable.step [OF _ sup_step.forced]
      split: prod.splits line_outcome.splits sum.splits read_error.splits)

lemma reach_idle: "sup_reachable decode (sl_sup st) \<Longrightarrow> sup_reachable decode (sl_sup (note_idle st))"
  by (auto simp: note_idle_def Let_def intro: sup_reachable.step [OF _ sup_step.message])

lemma reach_finish: "sup_reachable decode (sl_sup st) \<Longrightarrow> sup_reachable decode (sl_sup (finish_if_stopped st))"
  by (auto simp: finish_if_stopped_def
      intro!: sup_reachable.step [OF _ sup_step.message] sup_reachable.step [OF _ sup_step.join_all])

lemma reach_iteration:
  assumes "sup_reachable decode (sl_sup st)" "fork_fresh (lp_session os) (sl_sup st)"
  shows "sup_reachable decode (sl_sup (session_iteration decode st os))"
  using assms unfolding session_iteration_def Let_def
  by (auto intro!: reach_finish reach_idle reach_serve reach_check sup_reachable.step [OF _ sup_step.advance]
      sup_reachable.step [OF _ sup_step.join_finished] sup_reachable.step [OF _ sup_step.drain])

text \<open>The handshake writes one plain event at most, so that the loop starts in a state of \<open>session_runs\<close>.\<close>

lemma emit_plain:
  "plain_event e \<Longrightarrow> list_all plain_event (ew_events w) \<Longrightarrow> list_all plain_event (ew_events (snd (emit w e)))"
  by (simp add: emit_def split: option.splits)

lemma answer_hello_plain:
  "answer_hello pid t req w = (res, w') \<Longrightarrow> list_all plain_event (ew_events w) \<Longrightarrow>
   list_all plain_event (ew_events w') \<and> ew_failure w' = ew_failure w"
  by (auto simp: answer_hello_def main_emit_error_def emit_def
      split: session_request.splits if_splits option.splits)

lemma handshake_plain:
  "handshake decode io pid t d ticks r w = Some (res, r', w') \<Longrightarrow> list_all plain_event (ew_events w) \<Longrightarrow>
   list_all plain_event (ew_events w') \<and> ew_failure w' = ew_failure w"
  by (induction decode io pid t d ticks r w rule: handshake.induct)
    (auto simp: main_emit_error_def emit_def dest: answer_hello_plain
      split: if_splits prod.splits line_outcome.splits sum.splits option.splits)

lemma run_session_runs:
  assumes "run_session decode cfg os stdin [] = Some (Inr st)"
  shows "session_runs decode st"
proof -
  from assms obtain r w u where
    h: "handshake decode (st_io_text os) (st_self_pid os) (st_prefix_text os) (st_started os + 5000)
        (st_hello os) (reader_new stdin) \<lparr>ew_events = [], ew_failure = None\<rparr> = Some (Inr u, r, w)"
    and st: "st = run_session_start (supervisor_new (cfg_prefix cfg) (st_base_env os) w) r"
    by (auto simp: run_session_def split: if_splits option.splits prod.splits sum.splits)
  from handshake_plain [OF h] have "list_all plain_event (ew_events w)" "w = \<lparr>ew_events = ew_events w, ew_failure = None\<rparr>"
    by simp_all
  with st show ?thesis by (metis session_runs.start)
qed

section \<open>How a session ends\<close>

lemma check_not_stopped:
  "sv_phase s \<noteq> PhStopped \<Longrightarrow> sv_phase (check_parent_and_signal os s) \<noteq> PhStopped"
  by (simp add: check_parent_and_signal_def begin_forced_shutdown_def Let_def)

lemma handle_line_not_stopped:
  "sv_phase s \<noteq> PhStopped \<Longrightarrow> sv_phase (snd (handle_line decode os s l)) \<noteq> PhStopped"
  by (auto simp: handle_line_def handle_launch_phase handle_shutdown_def begin_forced_shutdown_def
      emit_validation_error_def emit_stage_error_def Let_def case_prod_beta
      split: sum.splits session_request.splits)

lemma serve_not_stopped:
  assumes "sv_phase (sl_sup st) \<noteq> PhStopped"
  shows "sv_phase (sl_sup (serve_stdin decode os st)) \<noteq> PhStopped"
proof -
  have "handle_line decode (lp_session os) (sl_sup st) l = (r, t) \<Longrightarrow> sv_phase t \<noteq> PhStopped" for l r t
    using handle_line_not_stopped [OF assms, of decode "lp_session os" l] by simp
  with assms show ?thesis unfolding serve_stdin_def
    by (auto simp: sup_error_emit begin_forced_shutdown_def
        split: prod.splits line_outcome.splits sum.splits read_error.splits)
qed

lemma advance_stop:
  "sv_phase s = PhStopping \<Longrightarrow> sv_phase (fst (advance_shutdown s os)) = PhStopped \<Longrightarrow>
   sv_last_wait_echild (fst (advance_shutdown s os)) \<and> sv_pending_streams (fst (advance_shutdown s os)) = []"
  by (auto simp: advance_shutdown_def Let_def case_prod_beta split: if_splits)

lemma note_idle_fields [simp]:
  "sv_phase (sl_sup (note_idle st)) = sv_phase (sl_sup st)"
  "sv_last_wait_echild (sl_sup (note_idle st)) = sv_last_wait_echild (sl_sup st)"
  "sl_exit (note_idle st) = sl_exit st"
  by (auto simp: note_idle_def Let_def)

lemma serve_exit [simp]: "sl_exit (serve_stdin decode os st) = sl_exit st"
  by (auto simp: serve_stdin_def split: prod.splits line_outcome.splits sum.splits read_error.splits)

text \<open>Either the loop runs and its supervisor has not stopped, or it has returned 0 after the kernel
  reported no children, every output thread was joined and the last event, if it could be written, is Stopped.\<close>

definition session_end_ok :: "session_loop \<Rightarrow> bool" where
  "session_end_ok st \<longleftrightarrow>
     (case sl_exit st of
        None \<Rightarrow> sv_phase (sl_sup st) \<noteq> PhStopped
      | Some code \<Rightarrow> code = 0 \<and> sv_phase (sl_sup st) = PhStopped \<and> sv_last_wait_echild (sl_sup st) \<and>
          sv_pending_streams (sl_sup st) = [] \<and>
          (ew_failure (sv_writer (sl_sup st)) = None \<longrightarrow>
             (\<exists>before. ew_events (sv_writer (sl_sup st)) = before @ [Stopped])))"

lemma finish_ok:
  assumes "sl_exit st = None" "sv_phase (sl_sup st) = PhStopped \<Longrightarrow> sv_last_wait_echild (sl_sup st)"
  shows "session_end_ok (finish_if_stopped st)"
  using assms by (auto simp: session_end_ok_def finish_if_stopped_def emit_ignored_def emit_def
      join_all_pending_streams_def join_all_stream_handles_def split: option.splits)

lemma end_ok_iteration:
  assumes "session_end_ok st"
  shows "session_end_ok (session_iteration decode st os)"
proof (cases "sl_exit st")
  case None
  let ?st2 = "serve_stdin decode os (st\<lparr>sl_sup := check_parent_and_signal os (sl_sup st)\<rparr>)"
  let ?s3 = "join_finished_streams (fst (drain_reap_events (sl_sup ?st2) (lp_wait os))) (lp_finished os)"
  have "sv_phase (sl_sup ?st2) \<noteq> PhStopped"
    using assms None by (intro serve_not_stopped) (simp add: session_end_ok_def check_not_stopped)
  then have "sv_phase ?s3 \<noteq> PhStopped" by (simp add: join_finished_streams_def)
  with None show ?thesis
    using advance_stop [of ?s3 "lp_advance os"]
    unfolding session_iteration_def Let_def by (auto intro!: finish_ok)
qed (use assms in \<open>simp add: session_iteration_def\<close>)

text \<open>C26: Every state of the sidecar's main loop holds a supervisor that its step relation reaches, so that all
  invariants of the supervisor hold for the running program; and the loop returns only with exit code
  0, with all children reaped, all output threads joined and \<open>Stopped\<close> as the last event written.\<close>

theorem session_loop_safe:
  assumes "session_runs decode st"
  shows "sup_reachable decode (sl_sup st) \<and> session_end_ok st"
  using assms
proof (induction rule: session_runs.induct)
  case (start es prefix_path env r)
  then show ?case
    by (auto simp: run_session_start_def session_end_ok_def supervisor_new_def
        intro: sup_reachable.start [unfolded supervisor_new_def])
next
  case (iterate st os)
  then show ?case by (blast intro: reach_iteration end_ok_iteration)
qed

section \<open>Witness\<close>

text \<open>The launcher dies while no child runs: one iteration ends the session.\<close>

definition example_loop_os :: loop_os where
  "example_loop_os = \<lparr>lp_parent_ok = False, lp_sigterm = False, lp_poll = (0, 0), lp_poll_hup = (0, 0), lp_io_text = [],
     lp_session = example_os, lp_wait = [WaitError ECHILD], lp_finished = (\<lambda>_. True),
     lp_advance = \<lparr>av_wait1 = [WaitError ECHILD], av_now = 0, av_later = 0, av_wait2 = []\<rparr>\<rparr>"

definition example_start :: session_loop where
  "example_start = run_session_start example_sup (reader_new [])"

lemma example_iteration_exit: "sl_exit (session_iteration example_decode example_start example_loop_os) = Some 0"
proof -
  let ?s1 = "check_parent_and_signal example_loop_os example_sup"
  have serve: "serve_stdin example_decode example_loop_os (example_start\<lparr>sl_sup := ?s1\<rparr>) = example_start\<lparr>sl_sup := ?s1\<rparr>"
    by (simp add: serve_stdin_def example_start_def run_session_start_def reader_new_def
        has_buffered_line_def example_loop_os_def poll_stdin_def stdin_poll_hup_or_err_def)
  have ph: "sv_phase ?s1 = PhStopping"
    by (simp add: check_parent_and_signal_def example_loop_os_def begin_forced_shutdown_def
        example_sup_def supervisor_new_def)
  have "sv_phase (fst (advance_shutdown t (lp_advance example_loop_os))) = PhStopped" if "sv_phase t = PhStopping" for t
    using that by (simp add: advance_shutdown_def drain_echild example_loop_os_def ECHILD_def Let_def)
  with ph serve show ?thesis
    by (simp add: session_iteration_def example_start_def run_session_start_def Let_def
        join_finished_streams_def finish_if_stopped_def)
qed

theorem session_loop_safe_witness:
  "sv_last_wait_echild (sl_sup (session_iteration example_decode example_start example_loop_os))"
proof -
  have "session_runs example_decode example_start"
    unfolding example_start_def example_sup_def by (rule session_runs.start) simp
  moreover have "fork_fresh (lp_session example_loop_os) (sl_sup example_start)"
    by (simp add: fork_fresh_def example_loop_os_def example_os_def example_start_def run_session_start_def
        example_sup_def supervisor_new_def)
  ultimately have "session_runs example_decode (session_iteration example_decode example_start example_loop_os)"
    by (rule session_runs.iterate)
  from session_loop_safe [OF this] show ?thesis by (simp add: session_end_ok_def example_iteration_exit)
qed

end
