(* ===== verification/Keyboard.thy ===== *)
theory Keyboard
  imports Spammer
begin

text \<open>
  Keys and virtual devices of \<open>ro-tools-linux\<close>: the table from labels to key codes and the splitting of
  trigger events (\<open>keyboard.rs\<close>), and the combined keyboard and mouse device of the combat tools
  (\<open>combat_uinput.rs\<close>).  A key code is its Linux number.  A virtual device accepts or refuses each event
  that is written to it; the events it accepted are its log.
\<close>

section \<open>Labels\<close>

type_synonym key_code = nat

definition KEY_LEFTSHIFT :: key_code where "KEY_LEFTSHIFT = 42"
definition KEY_LEFTALT :: key_code where "KEY_LEFTALT = 56"
definition KEY_RIGHTALT :: key_code where "KEY_RIGHTALT = 100"
definition BTN_LEFT :: key_code where "BTN_LEFT = 272"

definition key_table :: "(string \<times> key_code) list" where
  "key_table =
     [(''F1'', 59), (''F2'', 60), (''F3'', 61), (''F4'', 62), (''F5'', 63), (''F6'', 64),
      (''F7'', 65), (''F8'', 66), (''F9'', 67), (''F10'', 68), (''F11'', 87), (''F12'', 88),
      (''1'', 2), (''2'', 3), (''3'', 4), (''4'', 5), (''5'', 6), (''6'', 7), (''7'', 8),
      (''8'', 9), (''9'', 10), (''0'', 11), (''Q'', 16), (''W'', 17), (''E'', 18), (''R'', 19),
      (''T'', 20), (''Y'', 21), (''U'', 22), (''I'', 23), (''O'', 24), (''P'', 25), (''A'', 30),
      (''S'', 31), (''D'', 32), (''F'', 33), (''G'', 34), (''H'', 35), (''J'', 36), (''K'', 37),
      (''L'', 38), (''Z'', 44), (''X'', 45), (''C'', 46), (''V'', 47), (''B'', 48), (''N'', 49),
      (''M'', 50)]"

definition label_to_keycode :: "string \<Rightarrow> key_code option" where
  "label_to_keycode label = map_of key_table (to_ascii_uppercase label)"

definition key_label_to_keycode :: "string \<Rightarrow> key_code option" where
  "key_label_to_keycode label = label_to_keycode label"

section \<open>Input events\<close>

datatype input_event = KeyEvent key_code int | OtherEvent nat nat int

text \<open>\<open>KeyboardMonitor::read_and_split\<close> on the events fetched from all devices.\<close>

fun split_events ::
  "key_code option \<Rightarrow> input_event list \<Rightarrow> bool \<Rightarrow> bool \<Rightarrow> input_event list \<Rightarrow> bool \<times> bool \<times> input_event list" where
  "split_events trigger [] down up buf = (down, up, buf)"
| "split_events trigger (KeyEvent code v # es) down up buf =
     (if trigger = Some code
      then split_events trigger es (down \<or> v = 1) (up \<or> v = 0) buf
      else split_events trigger es down up (buf @ [KeyEvent code v]))"
| "split_events trigger (OtherEvent t c v # es) down up buf =
     split_events trigger es down up (buf @ [OtherEvent t c v])"

definition read_and_split :: "string \<Rightarrow> input_event list list \<Rightarrow> bool \<times> bool \<times> input_event list" where
  "read_and_split trigger_key per_device =
     split_events (label_to_keycode trigger_key) (concat per_device) False False []"

section \<open>The combat device\<close>

text \<open>\<open>cu_accepts\<close> tells whether the device takes an event (\<open>emit\<close> succeeds) after the events it has taken.\<close>

record combat_uinput =
  cu_log :: "(key_code \<times> int) list"
  cu_accepts :: "(key_code \<times> int) list \<Rightarrow> (key_code \<times> int) \<Rightarrow> bool"
  cu_pressed_keys :: "key_code set"
  cu_mouse_left_pressed :: bool

definition combat_create :: "((key_code \<times> int) list \<Rightarrow> (key_code \<times> int) \<Rightarrow> bool) \<Rightarrow> combat_uinput" where
  "combat_create accepts =
     \<lparr>cu_log = [], cu_accepts = accepts, cu_pressed_keys = {}, cu_mouse_left_pressed = False\<rparr>"

definition update_key_state :: "key_code set \<Rightarrow> key_code \<Rightarrow> int \<Rightarrow> key_code set" where
  "update_key_state pressed code v =
     (if v = 0 then pressed - {code} else if v = 1 then insert code pressed else pressed)"

definition device_emit :: "combat_uinput \<Rightarrow> key_code \<Rightarrow> int \<Rightarrow> bool \<times> combat_uinput" where
  "device_emit d code v =
     (if cu_accepts d (cu_log d) (code, v) then (True, d\<lparr>cu_log := cu_log d @ [(code, v)]\<rparr>) else (False, d))"

definition keycode_event :: "combat_uinput \<Rightarrow> key_code \<Rightarrow> int \<Rightarrow> bool \<times> combat_uinput" where
  "keycode_event d code v =
     (case device_emit d code v of
        (True, d1) \<Rightarrow> (True, d1\<lparr>cu_pressed_keys := update_key_state (cu_pressed_keys d1) code v\<rparr>)
      | (False, d1) \<Rightarrow> (False, d1))"

definition key_event :: "combat_uinput \<Rightarrow> string \<Rightarrow> int \<Rightarrow> bool \<times> combat_uinput" where
  "key_event d key v =
     (case key_label_to_keycode key of None \<Rightarrow> (False, d) | Some code \<Rightarrow> keycode_event d code v)"

definition modifier_event :: "combat_uinput \<Rightarrow> spam_modifier \<Rightarrow> int \<Rightarrow> bool \<times> combat_uinput" where
  "modifier_event d modifier v = keycode_event d (case modifier of Shift \<Rightarrow> KEY_LEFTSHIFT) v"

definition mouse_left_event :: "combat_uinput \<Rightarrow> int \<Rightarrow> bool \<times> combat_uinput" where
  "mouse_left_event d v =
     (case device_emit d BTN_LEFT v of
        (True, d1) \<Rightarrow> (True, d1\<lparr>cu_mouse_left_pressed := (v \<noteq> 0)\<rparr>)
      | (False, d1) \<Rightarrow> (False, d1))"

text \<open>The loop over a copy of the pressed keys; \<open>order\<close> is the iteration order of the hash set.\<close>

fun release_codes :: "combat_uinput \<Rightarrow> key_code list \<Rightarrow> combat_uinput" where
  "release_codes d [] = d"
| "release_codes d (code # codes) =
     (case device_emit d code 0 of
        (True, d1) \<Rightarrow> release_codes (d1\<lparr>cu_pressed_keys := cu_pressed_keys d1 - {code}\<rparr>) codes
      | (False, d1) \<Rightarrow> release_codes d1 codes)"

definition combat_release ::
  "(key_code set \<Rightarrow> key_code list) \<Rightarrow> combat_uinput \<Rightarrow> string option \<Rightarrow> bool \<Rightarrow> combat_uinput" where
  "combat_release order d key mouse_left =
     (let d1 = (if mouse_left \<or> cu_mouse_left_pressed d then snd (mouse_left_event d 0) else d)
      in (case key of
            Some k \<Rightarrow> snd (key_event d1 k 0)
          | None \<Rightarrow> release_codes d1 (order (cu_pressed_keys d1))))"

definition combat_drop :: "(key_code set \<Rightarrow> key_code list) \<Rightarrow> combat_uinput \<Rightarrow> combat_uinput" where
  "combat_drop order d = combat_release order d None True"

definition supported_combat_keys :: "key_code list" where
  "supported_combat_keys =
     List.map_filter key_label_to_keycode
       [''F1'', ''F2'', ''F3'', ''F4'', ''F5'', ''F6'', ''F7'', ''F8'', ''F9'', ''F10'', ''F11'', ''F12'',
        ''1'', ''2'', ''3'', ''4'', ''5'', ''6'', ''7'', ''8'', ''9'', ''0'', ''Q'', ''W'', ''E'', ''R'', ''T'',
        ''Y'', ''U'', ''I'', ''O'', ''P'', ''A'', ''S'', ''D'', ''F'', ''G'', ''H'', ''J'', ''K'', ''L'', ''Z'',
        ''X'', ''C'', ''V'', ''B'', ''N'', ''M''] @ [KEY_LEFTSHIFT]"

section \<open>The label table\<close>

lemma key_table_distinct: "distinct (map fst key_table)" "distinct (map snd key_table)"
  by (simp_all add: key_table_def)

lemma key_table_codes: "list_all (\<lambda>(_, c). c \<noteq> BTN_LEFT \<and> c \<noteq> KEY_LEFTALT \<and> c \<noteq> KEY_RIGHTALT) key_table"
  by (simp add: key_table_def BTN_LEFT_def KEY_LEFTALT_def KEY_RIGHTALT_def)

lemma key_code_table: "key_label_to_keycode l = Some c \<Longrightarrow> (to_ascii_uppercase l, c) \<in> set key_table"
  by (simp add: key_label_to_keycode_def label_to_keycode_def map_of_SomeD)

lemma key_code_not_button: "key_label_to_keycode l = Some c \<Longrightarrow> c \<noteq> BTN_LEFT"
  using key_code_table key_table_codes by (fastforce simp: list_all_iff)

lemma key_code_inj:
  "key_label_to_keycode l = Some c \<Longrightarrow> key_label_to_keycode k = Some c \<Longrightarrow>
   to_ascii_uppercase l = to_ascii_uppercase k"
proof -
  have "inj_on snd (set key_table)" using key_table_distinct(2) by (simp add: distinct_map)
  moreover assume "key_label_to_keycode l = Some c" "key_label_to_keycode k = Some c"
  ultimately have "(to_ascii_uppercase l, c) = (to_ascii_uppercase k, c)"
    by (intro inj_onD [of snd "set key_table"] key_code_table) simp_all
  then show ?thesis by simp
qed

lemma spammer_labels_have_codes: "list_all (\<lambda>l. label_to_keycode l \<noteq> None) SPAMMER_KEY_LABELS"
  by (simp add: SPAMMER_KEY_LABELS_def label_to_keycode_def key_table_def to_ascii_uppercase_def ascii_upper_def Let_def)

section \<open>No key stays pressed\<close>

text \<open>The keys that the log of accepted events leaves pressed.\<close>

definition log_down :: "(key_code \<times> int) list \<Rightarrow> key_code set" where
  "log_down log = foldl (\<lambda>pressed (code, v). update_key_state pressed code v) {} log"

lemma log_down_simps [simp]:
  "log_down [] = {}" "log_down (log @ [(code, v)]) = update_key_state (log_down log) code v"
  by (simp_all add: log_down_def)

lemma finite_log_down [simp]: "finite (log_down log)"
  by (induction log rule: rev_induct) (auto simp: update_key_state_def)

text \<open>An iteration order of finite sets lists their elements.\<close>

definition iterates :: "(key_code set \<Rightarrow> key_code list) \<Rightarrow> bool" where
  "iterates order \<longleftrightarrow> (\<forall>pressed. finite pressed \<longrightarrow> set (order pressed) = pressed)"

text \<open>The operations of the worker on the device, with the two values it uses.\<close>

inductive combat_runs :: "combat_uinput \<Rightarrow> bool" where
  create: "combat_runs (combat_create accepts)"
| key: "combat_runs d \<Longrightarrow> v \<in> {0, 1} \<Longrightarrow> combat_runs (snd (key_event d k v))"
| modifier: "combat_runs d \<Longrightarrow> v \<in> {0, 1} \<Longrightarrow> combat_runs (snd (modifier_event d mo v))"
| mouse: "combat_runs d \<Longrightarrow> v \<in> {0, 1} \<Longrightarrow> combat_runs (snd (mouse_left_event d v))"
| release: "combat_runs d \<Longrightarrow> iterates order \<Longrightarrow> combat_runs (combat_release order d k ml)"

definition combat_inv :: "combat_uinput \<Rightarrow> bool" where
  "combat_inv d \<longleftrightarrow> cu_pressed_keys d = log_down (cu_log d) - {BTN_LEFT} \<and>
     (cu_mouse_left_pressed d \<longleftrightarrow> BTN_LEFT \<in> log_down (cu_log d))"

lemma combat_keycode_inv: "combat_inv d \<Longrightarrow> code \<noteq> BTN_LEFT \<Longrightarrow> combat_inv (snd (keycode_event d code v))"
  by (auto simp: combat_inv_def keycode_event_def device_emit_def update_key_state_def)

lemma combat_key_inv: "combat_inv d \<Longrightarrow> combat_inv (snd (key_event d k v))"
  by (auto simp: key_event_def intro: combat_keycode_inv dest: key_code_not_button split: option.splits)

lemma combat_modifier_inv: "combat_inv d \<Longrightarrow> combat_inv (snd (modifier_event d mo v))"
  unfolding modifier_event_def
  by (rule combat_keycode_inv, assumption) (simp add: KEY_LEFTSHIFT_def BTN_LEFT_def split: spam_modifier.splits)

lemma combat_mouse_inv: "combat_inv d \<Longrightarrow> v \<in> {0, 1} \<Longrightarrow> combat_inv (snd (mouse_left_event d v))"
  by (auto simp: combat_inv_def mouse_left_event_def device_emit_def update_key_state_def)

lemma combat_release_codes_inv:
  "combat_inv d \<Longrightarrow> BTN_LEFT \<notin> set codes \<Longrightarrow> combat_inv (release_codes d codes)"
proof (induction d codes rule: release_codes.induct)
  case (2 d code codes)
  show ?case
  proof (cases "cu_accepts d (cu_log d) (code, 0)")
    case True
    let ?d1 = "d\<lparr>cu_log := cu_log d @ [(code, 0)]\<rparr>"
    have e: "device_emit d code 0 = (True, ?d1)" using True by (simp add: device_emit_def)
    have "combat_inv (?d1\<lparr>cu_pressed_keys := cu_pressed_keys ?d1 - {code}\<rparr>)"
      using "2.prems" by (auto simp: combat_inv_def update_key_state_def)
    then show ?thesis using "2.IH"(1) [OF e [symmetric]] "2.prems"(2) e by simp
  next
    case False
    then have e: "device_emit d code 0 = (False, d)" by (simp add: device_emit_def)
    then show ?thesis using "2.IH"(2) [OF e [symmetric]] "2.prems" by simp
  qed
qed simp

lemma combat_inv_iterates:
  "combat_inv d \<Longrightarrow> iterates order \<Longrightarrow> set (order (cu_pressed_keys d)) = log_down (cu_log d) - {BTN_LEFT}"
  by (simp add: combat_inv_def iterates_def)

lemma combat_release_inv:
  assumes "combat_inv d" "iterates order"
  shows "combat_inv (combat_release order d k ml)"
proof -
  let ?d1 = "if ml \<or> cu_mouse_left_pressed d then snd (mouse_left_event d 0) else d"
  have d1: "combat_inv ?d1" using assms(1) by (simp add: combat_mouse_inv)
  show ?thesis
    unfolding combat_release_def Let_def
    using d1 combat_inv_iterates [OF d1 assms(2)]
    by (cases k) (simp_all only: option.case combat_key_inv, rule combat_release_codes_inv, simp_all)
qed

lemma combat_runs_inv: "combat_runs d \<Longrightarrow> combat_inv d"
  by (induction rule: combat_runs.induct)
    (auto intro: combat_key_inv combat_modifier_inv combat_mouse_inv combat_release_inv,
     simp add: combat_inv_def combat_create_def)

lemma release_codes_down:
  "(\<And>log c. cu_accepts d log (c, 0)) \<Longrightarrow> log_down (cu_log (release_codes d codes)) = log_down (cu_log d) - set codes"
  by (induction d codes rule: release_codes.induct) (auto simp: device_emit_def update_key_state_def)

lemma combat_drop_down:
  assumes "combat_inv d" "iterates order" "\<And>log c. cu_accepts d log (c, 0)"
  shows "log_down (cu_log (combat_drop order d)) = {}"
proof -
  let ?d1 = "snd (mouse_left_event d 0)"
  have "combat_inv ?d1" by (rule combat_mouse_inv) (simp_all add: assms(1))
  moreover have "BTN_LEFT \<notin> log_down (cu_log ?d1)" "\<And>log c. cu_accepts ?d1 log (c, 0)"
    using assms(3) by (simp_all add: mouse_left_event_def device_emit_def update_key_state_def)
  ultimately show ?thesis
    using combat_inv_iterates [OF \<open>combat_inv ?d1\<close> assms(2)]
    by (simp add: combat_drop_def combat_release_def release_codes_down Let_def)
qed

text \<open>However the worker used the combat device, dropping it (the last release) leaves no key and no
  button pressed on it, provided the device still takes release events.\<close>

theorem combat_drop_releases_all:
  assumes "combat_runs d" "iterates order"
    "\<And>log c. cu_accepts d log (c, 0)"
  shows "log_down (cu_log (combat_drop order d)) = {}"
  by (rule combat_drop_down [OF combat_runs_inv [OF assms(1)] assms(2,3)])

end
