(* ===== verification/Inputd.thy ===== *)
theory Inputd
  imports Keyboard
begin

text \<open>
  The input sidecar (\<open>ro-inputd/src/main.rs\<close>): it grabs the keyboards, reports when a trigger key is held,
  and passes every other key on through a virtual keyboard.  Modelled: the arguments, the choice of
  devices, and the event loop with its poll, its per-device batches and its JSON messages.  The
  answers of \<open>evdev\<close> (names, axes, supported keys, fetched events, whether the virtual keyboard takes a batch) are arguments.
\<close>

section \<open>Arguments\<close>

definition BLACKLIST :: "string list" where
  "BLACKLIST = [''mouse'', ''ro-launcher'', ''uinput'', ''power'', ''mic'', ''headset'', ''speakerphone'',
     ''volume'', ''webcam'', ''camera'']"

record trigger_set =
  ts_labels :: "string list"
  ts_code_to_label :: "key_code \<Rightarrow> string option"

record inputd_config =
  ic_triggers :: trigger_set
  ic_json :: bool

fun inputd_args_loop :: "string list \<Rightarrow> bool \<Rightarrow> string list \<Rightarrow> string list \<times> bool" where
  "inputd_args_loop labels json [] = (labels, json)"
| "inputd_args_loop labels json [a] = (labels, json \<or> a = ''--json'')"
| "inputd_args_loop labels json (a # v # rest) =
     (if a = ''--trigger'' then inputd_args_loop (labels @ [v]) json rest
      else if a = ''--triggers'' then inputd_args_loop (labels @ map trim (split_on (CHR '','') v)) json rest
      else inputd_args_loop labels (json \<or> a = ''--json'') (v # rest))"

text \<open>The insertions into the hash map from codes to labels.\<close>

definition code_to_label :: "string list \<Rightarrow> key_code \<Rightarrow> string option" where
  "code_to_label labels =
     foldl (\<lambda>m label. case key_label_to_keycode label of Some code \<Rightarrow> m(code \<mapsto> label) | None \<Rightarrow> m)
       Map.empty labels"

definition inputd_parse_args :: "string list \<Rightarrow> inputd_config" where
  "inputd_parse_args args =
     (case inputd_args_loop [] False args of
        (given, json) \<Rightarrow>
          let labels = normalize_spammer_keys (if given = [] then [''F1''] else given)
          in \<lparr>ic_triggers = \<lparr>ts_labels = labels, ts_code_to_label = code_to_label labels\<rparr>, ic_json = json\<rparr>)"

section \<open>Choosing devices\<close>

text \<open>What \<open>evdev\<close> tells about a device.  The lower-case conversion of names is ASCII in this string model's
  range except for the Latin-1 letters, which no entry of the blacklist contains.\<close>

record evdev_device =
  ed_path :: string
  ed_name :: "string option"
  ed_phys :: "string option"
  ed_keys :: "key_code list option"
  ed_rel_axes :: "nat list option"
  ed_abs_axes :: "nat list option"

definition is_excluded :: "evdev_device \<Rightarrow> bool" where
  "is_excluded dev \<longleftrightarrow>
     (let name = to_ascii_lowercase (case ed_name dev of Some n \<Rightarrow> n | None \<Rightarrow> [])
      in list_ex (\<lambda>b. find_sub b name \<noteq> None) BLACKLIST)"

definition is_mouse_handler :: "string \<Rightarrow> bool" where
  "is_mouse_handler path \<longleftrightarrow> find_sub ''mouse'' (to_ascii_lowercase path) \<noteq> None"

definition has_rel_axes :: "evdev_device \<Rightarrow> bool" where
  "has_rel_axes dev \<longleftrightarrow> (case ed_rel_axes dev of Some a \<Rightarrow> a \<noteq> [] | None \<Rightarrow> False)"

definition has_abs_axes :: "evdev_device \<Rightarrow> bool" where
  "has_abs_axes dev \<longleftrightarrow> (case ed_abs_axes dev of Some a \<Rightarrow> a \<noteq> [] | None \<Rightarrow> False)"

definition phys_group_key :: "evdev_device \<Rightarrow> string" where
  "phys_group_key dev =
     (case ed_phys dev of Some s \<Rightarrow> if s \<noteq> [] then s else ed_path dev | None \<Rightarrow> ed_path dev)"

definition is_candidate :: "(key_code \<Rightarrow> string option) \<Rightarrow> evdev_device \<Rightarrow> bool" where
  "is_candidate triggers dev \<longleftrightarrow>
     (case ed_keys dev of
        None \<Rightarrow> False
      | Some keys \<Rightarrow>
          list_ex (\<lambda>code. triggers code \<noteq> None) keys \<and> \<not> (has_rel_axes dev \<or> has_abs_axes dev) \<and>
          \<not> (is_mouse_handler (ed_path dev) \<or> is_excluded dev))"

text \<open>Grouping by physical path and flattening the groups: \<open>group_order\<close> is the iteration order of the
  hash map over the keys of the groups.\<close>

definition discover_keyboards ::
  "(string list \<Rightarrow> string list) \<Rightarrow> (key_code \<Rightarrow> string option) \<Rightarrow> evdev_device list \<Rightarrow> evdev_device list" where
  "discover_keyboards group_order triggers devs =
     (let candidates = filter (is_candidate triggers) devs
      in concat (map (\<lambda>k. filter (\<lambda>d. phys_group_key d = k) candidates)
           (group_order (remdups (map phys_group_key candidates)))))"

section \<open>The event filter\<close>

datatype inputd_message = Trigger string bool | Fatal string | ReadyMsg "string list" | ShutdownMsg

record filter_state =
  fs_left_alt :: bool
  fs_right_alt :: bool
  fs_alt_held :: bool
  fs_alt_passthrough :: "key_code set"

definition trigger_uses_alt_passthrough ::
  "key_code \<Rightarrow> int \<Rightarrow> bool \<Rightarrow> key_code set \<Rightarrow> bool \<times> key_code set" where
  "trigger_uses_alt_passthrough code v alt_held keys =
     (if v = 1 \<and> alt_held then (code \<notin> keys, insert code keys)
      else if v = 2 then (code \<in> keys, keys)
      else if v = 0 then (code \<in> keys, keys - {code})
      else (False, keys))"

definition track_alt :: "filter_state \<Rightarrow> key_code \<Rightarrow> int \<Rightarrow> filter_state" where
  "track_alt st code v =
     (if code = KEY_LEFTALT \<or> code = KEY_RIGHTALT then
        let st1 = (if code = KEY_LEFTALT then st\<lparr>fs_left_alt := (v \<noteq> 0)\<rparr> else st\<lparr>fs_right_alt := (v \<noteq> 0)\<rparr>)
        in st1\<lparr>fs_alt_held := (fs_left_alt st1 \<or> fs_right_alt st1)\<rparr>
      else st)"

text \<open>One event: the new state, the messages written, and whether the event goes to the virtual keyboard.\<close>

fun filter_event ::
  "inputd_config \<Rightarrow> filter_state \<Rightarrow> input_event \<Rightarrow> filter_state \<times> inputd_message list \<times> bool" where
  "filter_event cfg st (OtherEvent t c v) = (st, [], True)"
| "filter_event cfg st (KeyEvent code v) =
     (let st1 = track_alt st code v in
      (case ts_code_to_label (ic_triggers cfg) code of
         None \<Rightarrow> (st1, [], True)
       | Some label \<Rightarrow>
           (case trigger_uses_alt_passthrough code v (fs_alt_held st1) (fs_alt_passthrough st1) of
              (uses, keys) \<Rightarrow>
                let st2 = st1\<lparr>fs_alt_passthrough := keys\<rparr> in
                if uses then
                  (st2, if v = 1 \<and> ic_json cfg then [Trigger label False] else [], True)
                else
                  (st2,
                   if v = 1 \<and> ic_json cfg then [Trigger label (\<not> fs_alt_held st1)]
                   else if v = 0 \<and> ic_json cfg then [Trigger label False]
                   else [],
                   False))))"

fun filter_events ::
  "inputd_config \<Rightarrow> filter_state \<Rightarrow> input_event list \<Rightarrow> filter_state \<times> inputd_message list \<times> input_event list" where
  "filter_events cfg st [] = (st, [], [])"
| "filter_events cfg st (e # es) =
     (case filter_event cfg st e of
        (st1, ms, fwd) \<Rightarrow>
          (case filter_events cfg st1 es of
             (st2, ms2, buf) \<Rightarrow> (st2, ms @ ms2, if fwd then e # buf else buf)))"

section \<open>The event loop\<close>

text \<open>Whether the virtual keyboard takes a batch: after a failure only some first events of it have reached
  the device.\<close>

datatype emit_answer = EmitOk | EmitErr nat

definition passthrough_emit :: "input_event list \<Rightarrow> emit_answer \<Rightarrow> input_event list" where
  "passthrough_emit buf a = (case a of EmitOk \<Rightarrow> buf | EmitErr n \<Rightarrow> take n buf)"

text \<open>What a keyboard yields, with the answer to the batch that is then passed on.\<close>

datatype fetch_answer = Fetched "input_event list" emit_answer | FetchWouldBlock | FetchFailed string

text \<open>\<open>wait_for_events\<close> on the answers of successive \<open>poll\<close> calls: whether the shutdown descriptor is
  readable, or an error number and text; interrupted calls are repeated.\<close>

datatype raw_poll = PollOk bool | PollErr int string

definition EINTR_CODE :: int where "EINTR_CODE = 4"

fun wait_for_events :: "raw_poll list \<Rightarrow> (string, bool) result option" where
  "wait_for_events [] = None"
| "wait_for_events (PollOk shutdown # ps) = Some (Inr (\<not> shutdown))"
| "wait_for_events (PollErr e why # ps) =
     (if e = EINTR_CODE then wait_for_events ps else Some (Inl why))"

text \<open>The outcome of the wait with, for input, what each device then yields.\<close>

datatype poll_answer = PollInput "fetch_answer list" | PollShutdown | PollFailed string

text \<open>One pass over the devices, in their fixed order: the messages, the events that reach the virtual keyboard (the result
  of \<open>emit\<close> is ignored), and whether a device failed.\<close>

fun serve_devices ::
  "inputd_config \<Rightarrow> filter_state \<Rightarrow> fetch_answer list \<Rightarrow> filter_state \<times> inputd_message list \<times> input_event list \<times> bool" where
  "serve_devices cfg st [] = (st, [], [], False)"
| "serve_devices cfg st (FetchWouldBlock # as) = serve_devices cfg st as"
| "serve_devices cfg st (FetchFailed e # as) = (st, if ic_json cfg then [Fatal e] else [], [], True)"
| "serve_devices cfg st (Fetched es a # as) =
     (case filter_events cfg st es of
        (st1, ms, buf) \<Rightarrow>
          (case serve_devices cfg st1 as of
             (st2, ms2, buf2, err) \<Rightarrow> (st2, ms @ ms2, passthrough_emit buf a @ buf2, err)))"

text \<open>The loop on the answers of its polls, with what follows it: the messages and the events that reach the virtual
  keyboard.\<close>

fun inputd_loop ::
  "inputd_config \<Rightarrow> filter_state \<Rightarrow> poll_answer list \<Rightarrow> inputd_message list \<times> input_event list" where
  "inputd_loop cfg st [] = ([], [])"
| "inputd_loop cfg st (PollShutdown # ps) = (if ic_json cfg then [ShutdownMsg] else [], [])"
| "inputd_loop cfg st (PollFailed e # ps) =
     (if ic_json cfg then [Fatal (''poll evdev: '' @ e), ShutdownMsg] else [], [])"
| "inputd_loop cfg st (PollInput as # ps) =
     (case serve_devices cfg st as of
        (st1, ms, buf, err) \<Rightarrow>
          if err then (ms @ (if ic_json cfg then [ShutdownMsg] else []), buf)
          else (case inputd_loop cfg st1 ps of (ms2, buf2) \<Rightarrow> (ms @ ms2, buf @ buf2)))"

text \<open>The devices whose grab is released when a later grab fails.\<close>

fun grab_devices :: "bool list \<Rightarrow> nat \<Rightarrow> nat option" where
  "grab_devices [] grabbed = None"
| "grab_devices (ok # oks) grabbed = (if ok then grab_devices oks (grabbed + 1) else Some grabbed)"

section \<open>The loop is the filter of the events it served\<close>

text \<open>The events that the filter saw, each with the number of its keyboard: the position of the keyboard in
  the list of devices.\<close>

fun served :: "nat \<Rightarrow> fetch_answer list \<Rightarrow> (nat \<times> input_event) list" where
  "served d [] = []"
| "served d (Fetched es a # as) = map (Pair d) es @ served (Suc d) as"
| "served d (FetchWouldBlock # as) = served (Suc d) as"
| "served d (FetchFailed e # as) = []"

fun device_failed :: "fetch_answer list \<Rightarrow> bool" where
  "device_failed [] = False"
| "device_failed (FetchFailed e # as) = True"
| "device_failed (_ # as) = device_failed as"

fun loop_events :: "poll_answer list \<Rightarrow> (nat \<times> input_event) list" where
  "loop_events (PollInput as # ps) = served 0 as @ (if device_failed as then [] else loop_events ps)"
| "loop_events _ = []"

text \<open>The virtual keyboard took every batch.\<close>

fun batch_taken :: "fetch_answer \<Rightarrow> bool" where
  "batch_taken (Fetched es a) = (a = EmitOk)"
| "batch_taken _ = True"

fun all_taken :: "poll_answer list \<Rightarrow> bool" where
  "all_taken (PollInput as # ps) = (list_all batch_taken as \<and> all_taken ps)"
| "all_taken (p # ps) = all_taken ps"
| "all_taken [] = True"

lemma passthrough_emit_ok [simp]: "passthrough_emit buf EmitOk = buf"
  by (simp add: passthrough_emit_def)

fun is_trigger :: "inputd_message \<Rightarrow> bool" where
  "is_trigger (Trigger l h) = True"
| "is_trigger _ = False"

lemma filter_events_append:
  "filter_events cfg st (xs @ ys) =
     (case filter_events cfg st xs of (st1, ms, buf) \<Rightarrow>
        (case filter_events cfg st1 ys of (st2, ms2, buf2) \<Rightarrow> (st2, ms @ ms2, buf @ buf2)))"
  by (induction xs arbitrary: st) (auto split: prod.splits)

lemma serve_devices_filter:
  "filter_events cfg st (map snd (served d as)) = (st1, ms, buf) \<Longrightarrow> list_all batch_taken as \<Longrightarrow>
   \<exists>ms'. serve_devices cfg st as = (st1, ms', buf, device_failed as) \<and> filter is_trigger ms' = filter is_trigger ms"
proof (induction cfg st as arbitrary: d ms buf rule: serve_devices.induct)
  case (4 cfg st es a as)
  obtain t m b where f: "filter_events cfg st es = (t, m, b)" using prod_cases3 by blast
  obtain t2 m2 b2 where f2: "filter_events cfg t (map snd (served (Suc d) as)) = (t2, m2, b2)"
    using prod_cases3 by blast
  from 4(1) [OF f [symmetric] refl, of "Suc d"] f2 4(2,3) f f2 show ?case
    by (fastforce simp: filter_events_append o_def)
qed auto

lemma inputd_loop_filter:
  "filter_events cfg st (map snd (loop_events ps)) = (st1, ms, buf) \<Longrightarrow> inputd_loop cfg st ps = (ms', buf') \<Longrightarrow>
   all_taken ps \<Longrightarrow> buf' = buf \<and> filter is_trigger ms' = filter is_trigger ms"
proof (induction cfg st ps arbitrary: st1 ms buf ms' buf' rule: inputd_loop.induct)
  case (4 cfg st as ps)
  obtain t m b where f: "filter_events cfg st (map snd (served 0 as)) = (t, m, b)" using prod_cases3 by blast
  from 4(4) have taken: "list_all batch_taken as" "all_taken ps" by simp_all
  from serve_devices_filter [OF f taken(1)] obtain m' where sd:
    "serve_devices cfg st as = (t, m', b, device_failed as)" "filter is_trigger m' = filter is_trigger m" by blast
  show ?case
  proof (cases "device_failed as")
    case True
    with 4 f sd show ?thesis by auto
  next
    case False
    obtain ms2 buf2 where rest: "inputd_loop cfg t ps = (ms2, buf2)" by fastforce
    obtain t2 m2 b2 where f2: "filter_events cfg t (map snd (loop_events ps)) = (t2, m2, b2)" using prod_cases3 by blast
    from 4(1) [OF sd(1) [symmetric] refl refl False f2 rest taken(2)] False 4(2,3) f f2 sd rest
    show ?thesis by (auto simp: filter_events_append)
  qed
qed auto

section \<open>The virtual keyboard follows the physical one\<close>

definition key_step :: "key_code set \<Rightarrow> input_event \<Rightarrow> key_code set" where
  "key_step down e = (case e of KeyEvent code v \<Rightarrow> update_key_state down code v | OtherEvent _ _ _ \<Rightarrow> down)"

definition keys_down :: "input_event list \<Rightarrow> key_code set" where
  "keys_down es = foldl key_step {} es"

definition triggers_of :: "inputd_config \<Rightarrow> key_code set" where
  "triggers_of cfg = dom (ts_code_to_label (ic_triggers cfg))"

text \<open>Physical keys \<open>P\<close>, virtual keys \<open>V\<close> and the filter's own set agree.\<close>

definition filter_ok :: "inputd_config \<Rightarrow> filter_state \<Rightarrow> key_code set \<Rightarrow> key_code set \<Rightarrow> bool" where
  "filter_ok cfg st P V \<longleftrightarrow>
     V \<inter> triggers_of cfg = fs_alt_passthrough st \<and> V \<subseteq> P \<and> P - triggers_of cfg \<subseteq> V"

lemma track_alt_passthrough [simp]: "fs_alt_passthrough (track_alt st code v) = fs_alt_passthrough st"
  by (simp add: track_alt_def Let_def)

lemma filter_event_ok:
  assumes "filter_ok cfg st P V" "filter_event cfg st e = (st1, ms, fwd)"
  shows "filter_ok cfg st1 (key_step P e) (if fwd then key_step V e else V)"
proof (cases e)
  case (KeyEvent code v)
  show ?thesis
  proof (cases "code \<in> triggers_of cfg")
    case True
    then obtain label where "ts_code_to_label (ic_triggers cfg) code = Some label" by (auto simp: triggers_of_def)
    with True assms KeyEvent show ?thesis
      by (auto simp: filter_ok_def Let_def trigger_uses_alt_passthrough_def key_step_def update_key_state_def
          split: if_splits prod.splits)
  next
    case False
    then have "ts_code_to_label (ic_triggers cfg) code = None" by (auto simp: triggers_of_def)
    with False assms KeyEvent show ?thesis
      by (auto simp: filter_ok_def Let_def key_step_def update_key_state_def)
  qed
qed (use assms in \<open>auto simp: filter_ok_def key_step_def\<close>)

lemma filter_events_ok:
  "filter_ok cfg st P V \<Longrightarrow> filter_events cfg st es = (st1, ms, buf) \<Longrightarrow>
   filter_ok cfg st1 (foldl key_step P es) (foldl key_step V buf)"
proof (induction es arbitrary: st P V ms buf)
  case (Cons e es)
  obtain st0 ms0 fwd where e: "filter_event cfg st e = (st0, ms0, fwd)" using prod_cases3 by blast
  obtain ms2 buf2 where r: "filter_events cfg st0 es = (st1, ms2, buf2)" "buf = (if fwd then e # buf2 else buf2)"
    using Cons.prems(2) e by (auto split: prod.splits)
  from Cons.IH [OF filter_event_ok [OF Cons.prems(1) e] r(1)] r(2) show ?case by (cases fwd) simp_all
qed simp

text \<open>The keys that are physically held: on which keyboard, and which.  \<open>unshared\<close> holds of a history in which
  a key moves on a keyboard only while no other keyboard holds it.\<close>

fun press_step :: "(nat \<times> key_code) set \<Rightarrow> nat \<times> input_event \<Rightarrow> (nat \<times> key_code) set" where
  "press_step P (d, KeyEvent code v) =
     (if v = 0 then P - {(d, code)} else if v = 1 then insert (d, code) P else P)"
| "press_step P (d, OtherEvent t c v) = P"

fun unshared :: "(nat \<times> key_code) set \<Rightarrow> (nat \<times> input_event) list \<Rightarrow> bool" where
  "unshared P [] = True"
| "unshared P ((d, KeyEvent code v) # es) =
     ((\<forall>(d', c) \<in> P. c = code \<longrightarrow> d' = d) \<and> unshared (press_step P (d, KeyEvent code v)) es)"
| "unshared P ((d, OtherEvent t c v) # es) = unshared P es"

lemma one_keyboard_unshared:
  "(\<forall>(d, e) \<in> set es. d = k) \<Longrightarrow> (\<forall>(d, c) \<in> P. d = k) \<Longrightarrow> unshared P es"
proof (induction es arbitrary: P)
  case (Cons x es)
  obtain d e where x: "x = (d, e)" by fastforce
  from Cons.prems x have "\<forall>(d, c) \<in> press_step P x. d = k" by (cases e) (auto split: if_splits)
  with Cons x show ?case by (cases e) auto
qed simp

lemma unshared_subset:
  "unshared P es \<Longrightarrow> Q \<subseteq> P \<Longrightarrow> unshared Q es \<and> foldl press_step Q es \<subseteq> foldl press_step P es"
proof (induction P es arbitrary: Q rule: unshared.induct)
  case (2 P d code v es)
  from 2(3) have "press_step Q (d, KeyEvent code v) \<subseteq> press_step P (d, KeyEvent code v)" by auto
  from 2(1) [OF _ this] 2(2,3) show ?case by auto
qed auto

lemma press_step_snd:
  assumes "unshared P ((d, e) # es)"
  shows "snd ` press_step P (d, e) = key_step (snd ` P) e"
proof (cases e)
  case (KeyEvent code v)
  with assms have own: "\<And>d'. (d', code) \<in> P \<Longrightarrow> d' = d" by fastforce
  show ?thesis
  proof (cases "v = 0")
    case True
    have "snd ` (P - {(d, code)}) = snd ` P - {code}" using own by (force simp: image_iff)
    with True KeyEvent show ?thesis by (simp add: key_step_def update_key_state_def)
  qed (simp add: KeyEvent key_step_def update_key_state_def)
qed (simp add: key_step_def)

lemma presses_snd: "unshared P es \<Longrightarrow> snd ` foldl press_step P es = foldl key_step (snd ` P) (map snd es)"
proof (induction es arbitrary: P)
  case (Cons x es)
  obtain d e where x: "x = (d, e)" by fastforce
  with Cons.prems have "unshared (press_step P x) es" by (cases e) simp_all
  from Cons.IH [OF this] press_step_snd [of P d e es] Cons.prems x show ?case by simp
qed simp

text \<open>C28: Let \<open>P\<close> be the keys that the keyboards hold when the sidecar grabs them, let the virtual keyboard take
  every batch it is given, and let no key be held on two keyboards at once (one keyboard never does).
  Then after every pass over the keyboards each key pressed on the virtual keyboard is physically
  pressed on some keyboard, so that no key gets stuck in the game or in the desktop, and each key that
  was pressed since the grab, is still held and is no trigger is pressed there, so that none is lost,
  whatever the order of events.\<close>

theorem inputd_virtual_keyboard:
  assumes "fs_alt_passthrough st = {}" "all_taken ps" "unshared P (loop_events ps)"
    "inputd_loop cfg st ps = (ms, buf)"
  shows "keys_down buf \<subseteq> snd ` foldl press_step P (loop_events ps) \<and>
    snd ` foldl press_step {} (loop_events ps) - triggers_of cfg = keys_down buf - triggers_of cfg"
proof -
  let ?es = "loop_events ps"
  obtain st1 ms1 buf1 where f: "filter_events cfg st (map snd ?es) = (st1, ms1, buf1)" using prod_cases3 by blast
  have "filter_ok cfg st {} {}" using assms(1) by (simp add: filter_ok_def)
  from filter_events_ok [OF this f] inputd_loop_filter [OF f assms(4,2)]
  have ok: "filter_ok cfg st1 (foldl key_step {} (map snd ?es)) (keys_down buf)" by (simp add: keys_down_def)
  from unshared_subset [OF assms(3), of "{}"] have sub:
    "unshared {} ?es" "foldl press_step {} ?es \<subseteq> foldl press_step P ?es" by simp_all
  have "snd ` foldl press_step {} ?es = foldl key_step {} (map snd ?es)" using presses_snd [OF sub(1)] by simp
  with ok have "keys_down buf \<subseteq> snd ` foldl press_step {} ?es"
    "snd ` foldl press_step {} ?es - triggers_of cfg \<subseteq> keys_down buf" by (simp_all add: filter_ok_def)
  then show ?thesis using image_mono [OF sub(2), of snd] by blast
qed

section \<open>What the launcher is told\<close>

text \<open>The labels that the trigger messages leave held.\<close>

fun held_step :: "string set \<Rightarrow> inputd_message \<Rightarrow> string set" where
  "held_step H (Trigger l h) = (if h then insert l H else H - {l})"
| "held_step H _ = H"

definition labels_held :: "inputd_message list \<Rightarrow> string set" where
  "labels_held ms = foldl held_step {} ms"

text \<open>Presses and releases of each key alternate, as on a single keyboard.\<close>

fun alternating :: "key_code set \<Rightarrow> input_event list \<Rightarrow> bool" where
  "alternating P [] = True"
| "alternating P (KeyEvent code v # es) =
     ((v = 1 \<longrightarrow> code \<notin> P) \<and> (v = 0 \<longrightarrow> code \<in> P) \<and> alternating (key_step P (KeyEvent code v)) es)"
| "alternating P (OtherEvent t c v # es) = alternating P es"

definition held_ok :: "inputd_config \<Rightarrow> key_code set \<Rightarrow> key_code set \<Rightarrow> string set \<Rightarrow> bool" where
  "held_ok cfg P K H \<longleftrightarrow>
     H \<subseteq> {l. \<exists>code \<in> P - K. ts_code_to_label (ic_triggers cfg) code = Some l} \<and>
     K \<subseteq> P \<inter> triggers_of cfg"

lemma held_step_ok:
  assumes "held_ok cfg P (fs_alt_passthrough st) H" "filter_event cfg st e = (st1, ms, fwd)"
    "alternating P (e # es)" "ic_json cfg"
  shows "held_ok cfg (key_step P e) (fs_alt_passthrough st1) (foldl held_step H ms)"
proof (cases e)
  case (KeyEvent code v)
  note step = key_step_def update_key_state_def
  show ?thesis
  proof (cases "ts_code_to_label (ic_triggers cfg) code")
    case None
    with assms KeyEvent show ?thesis
      by (fastforce simp: held_ok_def step triggers_of_def Let_def)
  next
    case (Some label)
    let ?K = "fs_alt_passthrough st"
    consider (alt) "v = 1" "fs_alt_held (track_alt st code v)" | (press) "v = 1" "\<not> fs_alt_held (track_alt st code v)"
      | (release) "v = 0" | (other) "v \<noteq> 0" "v \<noteq> 1" by auto
    then show ?thesis
    proof cases
      case alt
      with assms Some KeyEvent have "fs_alt_passthrough st1 = insert code ?K" "foldl held_step H ms = H - {label}"
        by (auto simp: Let_def trigger_uses_alt_passthrough_def split: if_splits)
      with alt assms(1,3) Some KeyEvent show ?thesis by (fastforce simp: held_ok_def step triggers_of_def)
    next
      case press
      with assms Some KeyEvent have "fs_alt_passthrough st1 = ?K" "foldl held_step H ms = insert label H"
        by (auto simp: Let_def trigger_uses_alt_passthrough_def split: if_splits)
      with press assms(1,3) Some KeyEvent show ?thesis by (fastforce simp: held_ok_def step triggers_of_def)
    next
      case release
      with assms Some KeyEvent have "fs_alt_passthrough st1 = ?K - {code}"
        "foldl held_step H ms = (if code \<in> ?K then H else H - {label})"
        by (auto simp: Let_def trigger_uses_alt_passthrough_def split: if_splits)
      with release assms(1) Some KeyEvent show ?thesis
        by (cases "code \<in> ?K") (fastforce simp: held_ok_def step triggers_of_def)+
    next
      case other
      with assms Some KeyEvent have "fs_alt_passthrough st1 = ?K" "foldl held_step H ms = H"
        by (auto simp: Let_def trigger_uses_alt_passthrough_def split: if_splits)
      with other assms(1) KeyEvent show ?thesis by (simp add: held_ok_def step)
    qed
  qed
qed (use assms in \<open>auto simp: key_step_def\<close>)

lemma alternating_tail: "alternating P (e # es) \<Longrightarrow> alternating (key_step P e) es"
  by (cases e) (auto simp: key_step_def)

lemma held_events_ok:
  "held_ok cfg P (fs_alt_passthrough st) H \<Longrightarrow> filter_events cfg st es = (st1, ms, buf) \<Longrightarrow>
   alternating P es \<Longrightarrow> ic_json cfg \<Longrightarrow>
   held_ok cfg (foldl key_step P es) (fs_alt_passthrough st1) (foldl held_step H ms)"
proof (induction es arbitrary: st P H ms buf)
  case (Cons e es)
  obtain st0 ms0 fwd where e: "filter_event cfg st e = (st0, ms0, fwd)" using prod_cases3 by blast
  obtain ms2 buf2 where r: "filter_events cfg st0 es = (st1, ms2, buf2)" "ms = ms0 @ ms2"
    using Cons.prems(2) e by (auto split: prod.splits)
  from Cons.IH [OF held_step_ok [OF Cons.prems(1) e Cons.prems(3,4)] r(1) alternating_tail [OF Cons.prems(3)] Cons.prems(4)] r(2)
  show ?case by simp
qed simp

lemma held_filter: "foldl held_step H (filter is_trigger ms) = foldl held_step H ms"
proof (induction ms arbitrary: H)
  case (Cons x ms)
  then show ?case by (cases x) auto
qed simp

text \<open>A trigger label that the messages leave held belongs to a trigger key that is physically pressed and is
  not being passed on to the virtual keyboard: the spammer never goes on after its key was released,
  and never runs for a press that went to the desktop as an Alt combination.\<close>

theorem inputd_held_reports:
  assumes "fs_alt_passthrough st = {}" "ic_json cfg" "alternating {} (map snd (loop_events ps))" "all_taken ps"
    "inputd_loop cfg st ps = (ms, buf)" "l \<in> labels_held ms"
  shows "\<exists>code. ts_code_to_label (ic_triggers cfg) code = Some l \<and> code \<in> keys_down (map snd (loop_events ps)) \<and>
    code \<notin> keys_down buf"
proof -
  obtain st1 ms1 buf1 where f: "filter_events cfg st (map snd (loop_events ps)) = (st1, ms1, buf1)" using prod_cases3 by blast
  have same: "buf = buf1" "filter is_trigger ms = filter is_trigger ms1"
    using inputd_loop_filter [OF f assms(5,4)] by auto
  then have H: "labels_held ms = foldl held_step {} ms1" by (metis labels_held_def held_filter)
  have "filter_ok cfg st {} {}" "held_ok cfg {} (fs_alt_passthrough st) {}"
    using assms(1) by (simp_all add: filter_ok_def held_ok_def)
  from filter_events_ok [OF this(1) f] held_events_ok [OF this(2) f assms(3,2)] assms(6) same H
  show ?thesis by (force simp: filter_ok_def held_ok_def keys_down_def triggers_of_def)
qed

section \<open>Witnesses\<close>

definition example_inputd :: inputd_config where
  "example_inputd = \<lparr>ic_triggers = \<lparr>ts_labels = [''F1''], ts_code_to_label = [59 \<mapsto> ''F1'']\<rparr>, ic_json = True\<rparr>"

definition no_alt :: filter_state where
  "no_alt = \<lparr>fs_left_alt = False, fs_right_alt = False, fs_alt_held = False, fs_alt_passthrough = {}\<rparr>"

lemmas run_simps = example_inputd_def no_alt_def track_alt_def trigger_uses_alt_passthrough_def Let_def
  KEY_LEFTALT_def KEY_RIGHTALT_def passthrough_emit_def

text \<open>F1 is pressed, then A, and on a second keyboard B: the trigger is reported and kept back, the others pass.
  The key 31 was held on the first keyboard before the grab.\<close>

lemma example_inputd_run:
  "inputd_loop example_inputd no_alt [PollInput [Fetched [KeyEvent 59 1, KeyEvent 30 1] EmitOk, Fetched [KeyEvent 48 1] EmitOk]]
     = ([Trigger ''F1'' True], [KeyEvent 30 1, KeyEvent 48 1])"
  by (simp add: run_simps)

theorem inputd_virtual_keyboard_witness:
  "keys_down [KeyEvent 30 1, KeyEvent 48 1] \<subseteq> {31, 59, 30, 48} \<and> keys_down [KeyEvent 30 1, KeyEvent 48 1] - {59} = {30, 48}"
  using inputd_virtual_keyboard [OF _ _ _ example_inputd_run, of "{(0, 31)}"]
  by (auto simp: no_alt_def example_inputd_def triggers_of_def)

text \<open>Both hypotheses are needed.  A key held on two keyboards is released for the game when either of them
  releases it; and the failure of \<open>emit\<close> is ignored, so that a release can be lost and the key stays
  pressed.\<close>

lemma release_on_one_keyboard_lifts_both:
  "\<exists>ms buf. inputd_loop example_inputd no_alt
       [PollInput [Fetched [KeyEvent 30 1] EmitOk, Fetched [KeyEvent 30 1, KeyEvent 30 0] EmitOk]] = (ms, buf) \<and>
     keys_down buf = {} \<and>
     foldl press_step {} (loop_events
       [PollInput [Fetched [KeyEvent 30 1] EmitOk, Fetched [KeyEvent 30 1, KeyEvent 30 0] EmitOk]]) = {(0, 30)}"
  by (auto simp: run_simps keys_down_def key_step_def update_key_state_def)

lemma failed_emit_leaves_key_pressed:
  "\<exists>ms buf. inputd_loop example_inputd no_alt
       [PollInput [Fetched [KeyEvent 30 1] EmitOk], PollInput [Fetched [KeyEvent 30 0] (EmitErr 0)]] = (ms, buf) \<and>
     keys_down buf = {30} \<and>
     foldl press_step {} (loop_events
       [PollInput [Fetched [KeyEvent 30 1] EmitOk], PollInput [Fetched [KeyEvent 30 0] (EmitErr 0)]]) = {}"
  by (simp add: run_simps keys_down_def key_step_def update_key_state_def)

end
