(* ===== verification/ProcMemory.thy ===== *)
theory ProcMemory
  imports Ports ProcInfo Domain
begin

text \<open>
  Memory of a client (\<open>ro-tools-linux/src/proc_memory.rs\<close>): the regions of \<open>/proc/<pid>/maps\<close>, reads
  through \<open>process_vm_readv\<close> and \<open>/proc/<pid>/mem\<close> guarded by the identity of the process, and the
  searches for values and byte strings.

  The answers of the system are a function of the address and the size asked for: the snapshots
  of \<open>/proc\<close> seen by the two identity checks, the bytes or the error of each backend.  A backend may return
  fewer bytes than asked for.  Addresses are numbers inside the loops, as the \<open>u64\<close> of the source, and
  words at the interface.
\<close>

section \<open>Texts\<close>

definition show_int :: "int \<Rightarrow> string" where
  "show_int n = (if n < 0 then ''-'' @ show_nat (nat (- n)) else show_nat (nat n))"

fun show_hex :: "nat \<Rightarrow> string" where
  "show_hex n =
     (if n < 16 then [ascii_lower (hex_char n)] else show_hex (n div 16) @ [ascii_lower (hex_char (n mod 16))])"

declare show_hex.simps [simp del]

definition tools_error_text :: "tools_error \<Rightarrow> string" where
  "tools_error_text e =
     (case e of
        MemoryRead address message \<Rightarrow> ''memory read failed at 0x'' @ show_hex (unat address) @ '': '' @ message
      | Input key message \<Rightarrow> ''input failed for key '' @ [CHR 39] @ key @ [CHR 39] @ '': '' @ message
      | Other message \<Rightarrow> message)"

definition format_errno :: "int option \<Rightarrow> string" where
  "format_errno errno = (case errno of None \<Rightarrow> ''none'' | Some value \<Rightarrow> show_int value)"

definition opt_u32 :: "u32 option \<Rightarrow> string" where
  "opt_u32 value = (case value of None \<Rightarrow> ''none'' | Some v \<Rightarrow> show_nat (unat v))"

text \<open>\<open>u64::from_str_radix(_, 16).ok()\<close> and \<open>str::split_whitespace\<close>.\<close>

definition hex_u64 :: "string \<Rightarrow> nat option" where
  "hex_u64 src =
     (let ds = (if src \<noteq> [] \<and> hd src = CHR ''+'' then tl src else src)
      in if ds \<noteq> [] \<and> list_all (\<lambda>c. hex_digit c \<noteq> None) ds \<and> hex_value 0 ds < 2 ^ 64
         then Some (hex_value 0 ds) else None)"

definition words :: "string \<Rightarrow> string list" where
  "words s = filter (\<lambda>w. w \<noteq> []) (split_by is_whitespace s)"

section \<open>Regions\<close>

definition region_of_line :: "string \<Rightarrow> (nat \<times> nat) option" where
  "region_of_line line =
     (case words line of
        bounds # permissions # _ \<Rightarrow>
          if \<not> prefix ''rw'' permissions then None
          else (case split_once (CHR ''-'') bounds of
                  None \<Rightarrow> None
                | Some (start, stop) \<Rightarrow>
                    (case (hex_u64 start, hex_u64 stop) of
                       (Some start, Some stop) \<Rightarrow>
                         let clipped_end = min stop (2 ^ 32)
                         in if clipped_end \<le> start \<or> 2 ^ 32 - 1 < start then None else Some (start, clipped_end)
                     | _ \<Rightarrow> None))
      | _ \<Rightarrow> None)"

definition parse_writable_regions :: "string \<Rightarrow> (nat \<times> nat) list" where
  "parse_writable_regions maps = List.map_filter region_of_line (lines maps)"

definition first_rw_u32_region :: "string \<Rightarrow> (u32 \<times> u32) option" where
  "first_rw_u32_region maps =
     (case find (\<lambda>(start, stop). 4 \<le> stop - start \<and> start \<le> 2 ^ 32 - 1) (parse_writable_regions maps) of
        None \<Rightarrow> None
      | Some (start, stop) \<Rightarrow> Some (of_nat start, of_nat (min (stop - start) (2 ^ 32 - 1))))"

definition line_contains :: "nat \<Rightarrow> string \<Rightarrow> bool" where
  "line_contains addr line =
     (case split_once (CHR '' '') line of
        None \<Rightarrow> False
      | Some (bounds, _) \<Rightarrow>
          (case split_once (CHR ''-'') bounds of
             None \<Rightarrow> False
           | Some (start, stop) \<Rightarrow>
               (case (hex_u64 start, hex_u64 stop) of
                  (Some start, Some stop) \<Rightarrow> start \<le> addr \<and> addr < stop
                | _ \<Rightarrow> False)))"

definition address_in_maps :: "string option \<Rightarrow> u32 \<Rightarrow> bool" where
  "address_in_maps maps address =
     (case maps of None \<Rightarrow> False | Some maps \<Rightarrow> list_ex (line_contains (unat address)) (lines maps))"

section \<open>Reads\<close>

record mem_answer =
  ma_first :: proc_fs
  ma_vm :: "(int, u8 list) result"
  ma_poisoned :: bool
  ma_second :: proc_fs
  ma_read_at :: "(string, u8 list) result"

type_synonym mem_world = "u32 \<Rightarrow> nat \<Rightarrow> mem_answer"

datatype proc_memory_error = OpenError u32 string

record proc_memory_reader =
  pm_pid :: u32
  pm_identity :: process_identity
  pm_file :: bool
  pm_mem_open_errno :: "int option"

definition stale_text :: string where "stale_text = ''identidad de proceso desactualizada''"

text \<open>\<open>File::open\<close> answers \<^const>\<open>None\<close>, or its error code when it has one.\<close>

definition open_for_identity ::
  "proc_fs \<Rightarrow> int option option \<Rightarrow> proc_fs \<Rightarrow> process_identity \<Rightarrow> (proc_memory_error, proc_memory_reader) result" where
  "open_for_identity before opened after identity =
     (let pid = pi_pid identity
      in if \<not> verify_process_identity before identity then Inl (OpenError pid stale_text)
         else if \<not> verify_process_identity after identity then Inl (OpenError pid stale_text)
         else Inr \<lparr>pm_pid = pid, pm_identity = identity, pm_file = (opened = None),
                   pm_mem_open_errno = (case opened of None \<Rightarrow> None | Some errno \<Rightarrow> errno)\<rparr>)"

definition pm_open ::
  "proc_fs \<Rightarrow> proc_fs \<Rightarrow> int option option \<Rightarrow> proc_fs \<Rightarrow> u32 \<Rightarrow> (proc_memory_error, proc_memory_reader) result" where
  "pm_open p before opened after pid =
     (case capture_process_identity p pid of
        None \<Rightarrow> Inl (OpenError pid ''proceso no encontrado'')
      | Some identity \<Rightarrow> open_for_identity before opened after identity)"

definition read_via_vm :: "mem_answer \<Rightarrow> nat \<Rightarrow> (int, u8 list) result" where
  "read_via_vm a wanted = (case ma_vm a of Inl errno \<Rightarrow> Inl errno | Inr bytes \<Rightarrow> Inr (take wanted bytes))"

definition try_vm_read :: "mem_world \<Rightarrow> proc_memory_reader \<Rightarrow> u32 \<Rightarrow> nat \<Rightarrow> (int, u8 list) result" where
  "try_vm_read w r address wanted =
     (let a = w address wanted
      in if \<not> verify_process_identity (ma_first a) (pm_identity r) then Inl ESRCH else read_via_vm a wanted)"

definition try_proc_mem_read ::
  "mem_world \<Rightarrow> proc_memory_reader \<Rightarrow> (string \<Rightarrow> int option) \<Rightarrow> u32 \<Rightarrow> nat \<Rightarrow> (int, u8 list) result" where
  "try_proc_mem_read w r raw_os_error address wanted =
     (let a = w address wanted
      in if ma_poisoned a then Inl (- 1)
         else if \<not> verify_process_identity (ma_second a) (pm_identity r) then Inl ESRCH
         else if \<not> pm_file r then Inl (case pm_mem_open_errno r of Some e \<Rightarrow> e | None \<Rightarrow> 13)
         else (case ma_read_at a of
                 Inr bytes \<Rightarrow> Inr (take wanted bytes)
               | Inl e \<Rightarrow> Inl (case raw_os_error e of Some n \<Rightarrow> n | None \<Rightarrow> - 1)))"

definition read_bytes_at ::
  "mem_world \<Rightarrow> proc_memory_reader \<Rightarrow> u32 \<Rightarrow> nat \<Rightarrow> (tools_error, u8 list) result" where
  "read_bytes_at w r address wanted =
     (let a = w address wanted;
          open_errno = '' (mem_open_errno='' @ format_errno (pm_mem_open_errno r) @ '')''
      in if \<not> verify_process_identity (ma_first a) (pm_identity r) then Inl (MemoryRead address stale_text)
         else case read_via_vm a wanted of
                Inr bytes \<Rightarrow> Inr bytes
              | Inl vm_errno \<Rightarrow>
             if ma_poisoned a then Inl (Other ''memory lock poisoned'')
             else if \<not> verify_process_identity (ma_second a) (pm_identity r)
             then Inl (MemoryRead address stale_text)
             else if \<not> pm_file r
             then Inl (MemoryRead address
                    (''process_vm_readv errno='' @ show_int vm_errno @ ''; /proc/mem no abierto'' @ open_errno))
             else case ma_read_at a of
                Inr bytes \<Rightarrow> Inr (take wanted bytes)
              | Inl e \<Rightarrow> Inl (MemoryRead address
                    (''process_vm_readv errno='' @ show_int vm_errno @ ''; /proc/mem: '' @ e @ open_errno)))"

text \<open>A read into a zeroed buffer of four bytes; the number of bytes read is not looked at.\<close>

definition from_le_bytes :: "u8 list \<Rightarrow> u32" where
  "from_le_bytes bs = of_nat (foldr (\<lambda>b v. unat b + 256 * v) bs 0)"

definition to_le_bytes :: "u32 \<Rightarrow> u8 list" where
  "to_le_bytes v = map (\<lambda>i. of_nat (unat v div 256 ^ i)) [0..<4]"

definition fill_buffer :: "nat \<Rightarrow> u8 list \<Rightarrow> u8 list" where
  "fill_buffer wanted bytes = bytes @ replicate (wanted - length bytes) 0"

definition read_u32_at :: "mem_world \<Rightarrow> proc_memory_reader \<Rightarrow> u32 \<Rightarrow> (tools_error, u32) result" where
  "read_u32_at w r address =
     and_then (read_bytes_at w r address 4) (\<lambda>bytes. Inr (from_le_bytes (fill_buffer 4 bytes)))"

definition pm_read_string :: "mem_world \<Rightarrow> proc_memory_reader \<Rightarrow> u32 \<Rightarrow> nat \<Rightarrow> (tools_error, text_points) result" where
  "pm_read_string w r address max_len =
     and_then (read_bytes_at w r address max_len) (\<lambda>bytes.
       Inr (decode_lossy (case position (\<lambda>b. b = 0) bytes of Some stop \<Rightarrow> take stop bytes | None \<Rightarrow> bytes)))"

fun chunks4 :: "u8 list \<Rightarrow> u8 list list" where
  "chunks4 (a # b # c # d # rest) = [a, b, c, d] # chunks4 rest"
| "chunks4 _ = []"

definition pm_read_u32_slice :: "mem_world \<Rightarrow> proc_memory_reader \<Rightarrow> u32 \<Rightarrow> nat \<Rightarrow> (tools_error, u32 list) result" where
  "pm_read_u32_slice w r address len =
     and_then (read_bytes_at w r address (len * 4)) (\<lambda>bytes.
       if length bytes \<noteq> len * 4
       then Inl (MemoryRead address (''lectura HP/SP incompleta: '' @ show_nat (length bytes) @ '' de ''
              @ show_nat (len * 4) @ '' bytes''))
       else Inr (map from_le_bytes (chunks4 bytes)))"

text \<open>The adapter as a port; the decoded text of \<open>read_string\<close> is passed on as the engines take it.\<close>

definition proc_memory_port :: "(text_points \<Rightarrow> string) \<Rightarrow> mem_world \<Rightarrow> proc_memory_reader \<Rightarrow> memory_reader" where
  "proc_memory_port text w r =
     \<lparr>read_u32 = read_u32_at w r, read_u32_slice = pm_read_u32_slice w r,
      read_string = (\<lambda>address max_len. and_then (pm_read_string w r address max_len) (\<lambda>t. Inr (text t)))\<rparr>"

definition probe_stats :: "mem_world \<Rightarrow> proc_memory_reader \<Rightarrow> u32 \<Rightarrow> (tools_error, u32 \<times> u32 \<times> u32 \<times> u32) result" where
  "probe_stats w r hp_base =
     and_then (read_u32_at w r hp_base) (\<lambda>cur_hp.
     and_then (read_u32_at w r (hp_base + 4)) (\<lambda>max_hp.
     and_then (read_u32_at w r (hp_base + 8)) (\<lambda>cur_sp.
     and_then (read_u32_at w r (hp_base + 12)) (\<lambda>max_sp. Inr (cur_hp, max_hp, cur_sp, max_sp)))))"

definition refine_u32_candidates :: "mem_world \<Rightarrow> proc_memory_reader \<Rightarrow> u32 list \<Rightarrow> u32 \<Rightarrow> u32 list" where
  "refine_u32_candidates w r candidates value =
     filter (\<lambda>address. ok_option (read_u32_at w r address) = Some value) candidates"

definition vm_read_errno :: "mem_answer \<Rightarrow> nat \<Rightarrow> (int, unit) result" where
  "vm_read_errno a wanted =
     (case read_via_vm a wanted of
        Inr bytes \<Rightarrow> if length bytes = wanted then Inr () else Inl 14
      | Inl errno \<Rightarrow> Inl errno)"

definition address_mapped :: "proc_fs \<Rightarrow> string option \<Rightarrow> proc_memory_reader \<Rightarrow> u32 \<Rightarrow> bool" where
  "address_mapped p maps r address \<longleftrightarrow>
     verify_process_identity p (pm_identity r) \<and> address_in_maps maps address"

section \<open>Searches\<close>

definition SCAN_CHUNK_SIZE :: nat where "SCAN_CHUNK_SIZE = 1048576"
definition MAX_SCAN_CANDIDATES :: nat where "MAX_SCAN_CANDIDATES = 2000000"

record scan_state =
  ss_overlap :: "u8 list"
  ss_reads :: nat
  ss_error :: "string option"
  ss_matches :: "u32 list"

definition scan_start :: scan_state where
  "scan_start = \<lparr>ss_overlap = [], ss_reads = 0, ss_error = None, ss_matches = []\<rparr>"

text \<open>The loop over one region, a chunk at a time; \<open>step\<close> is its body.\<close>

function scan_region ::
  "(nat \<Rightarrow> nat \<Rightarrow> scan_state \<Rightarrow> (tools_error, scan_state) result) \<Rightarrow> nat \<Rightarrow> nat \<Rightarrow> scan_state
     \<Rightarrow> (tools_error, scan_state) result" where
  "scan_region step address stop st =
     (if stop \<le> address then Inr st
      else let requested = min (stop - address) SCAN_CHUNK_SIZE
           in and_then (step address requested st) (scan_region step (address + requested) stop))"
  by pat_completeness auto
termination
  by (relation "measure (\<lambda>(step, address, stop, st). stop - address)") (auto simp: SCAN_CHUNK_SIZE_def)

declare scan_region.simps [simp del]

fun scan_regions ::
  "(scan_state \<Rightarrow> scan_state) \<Rightarrow> (nat \<Rightarrow> nat \<Rightarrow> scan_state \<Rightarrow> (tools_error, scan_state) result)
     \<Rightarrow> (nat \<times> nat) list \<Rightarrow> scan_state \<Rightarrow> (tools_error, scan_state) result" where
  "scan_regions enter step [] st = Inr st"
| "scan_regions enter step ((start, stop) # regions) st =
     and_then (scan_region step start stop (enter st)) (scan_regions enter step regions)"

definition scan_aligned_chunk :: "u32 \<Rightarrow> u8 list \<Rightarrow> u8 list \<Rightarrow> u32 list \<Rightarrow> u32 list" where
  "scan_aligned_chunk start bytes needle output =
     (let alignment = (4 - unat start mod 4) mod 4
      in if length bytes < alignment + 4 then output
         else output @ map (\<lambda>offset. start + of_nat offset)
                (filter (\<lambda>offset. (offset - alignment) mod 4 = 0 \<and> take 4 (drop offset bytes) = needle \<and>
                           unat start + offset < 2 ^ 32)
                   [alignment..<length bytes - 3]))"

definition too_many_values :: tools_error where
  "too_many_values = Other (''el valor aparece en m'' @ [CHR 0xE1] @ ''s de '' @ show_nat MAX_SCAN_CANDIDATES
     @ '' direcciones; usa un HP actual distinto de cero'')"

definition u32_chunk ::
  "mem_world \<Rightarrow> proc_memory_reader \<Rightarrow> u8 list \<Rightarrow> nat \<Rightarrow> nat \<Rightarrow> scan_state \<Rightarrow> (tools_error, scan_state) result" where
  "u32_chunk w r needle address requested st =
     (let address_u32 = of_nat address
      in case read_bytes_at w r address_u32 requested of
           Inl error \<Rightarrow> Inr (st\<lparr>ss_error := Some (tools_error_text error)\<rparr>)
         | Inr bytes \<Rightarrow>
             if length bytes < 4 then Inr st
             else let candidates = scan_aligned_chunk address_u32 bytes needle (ss_matches st)
                  in if MAX_SCAN_CANDIDATES < length candidates
                     then Inl too_many_values
                     else Inr (st\<lparr>ss_reads := ss_reads st + 1, ss_matches := candidates\<rparr>))"

definition no_regions_text :: string where
  "no_regions_text = ''el proceso no expone regiones de memoria legibles y escribibles''"

definition scan_failed :: "scan_state \<Rightarrow> tools_error" where
  "scan_failed st =
     Other (case ss_error st of
              Some e \<Rightarrow> e
            | None \<Rightarrow> ''no se pudo leer ninguna regi'' @ [CHR 0xF3] @ ''n escribible del cliente'')"

definition read_regions :: "u32 \<Rightarrow> (string, string) result \<Rightarrow> (tools_error, (nat \<times> nat) list) result" where
  "read_regions pid maps =
     (case maps of
        Inl e \<Rightarrow> Inl (Other (''no se pudo leer /proc/'' @ show_nat (unat pid) @ ''/maps: '' @ e))
      | Inr maps \<Rightarrow>
          let regions = parse_writable_regions maps
          in if regions = [] then Inl (Other no_regions_text) else Inr regions)"

definition scan_writable_u32_with_reader ::
  "mem_world \<Rightarrow> (string, string) result \<Rightarrow> proc_memory_reader \<Rightarrow> u32 \<Rightarrow> (tools_error, u32 list) result" where
  "scan_writable_u32_with_reader w maps r value =
     and_then (read_regions (pm_pid r) maps) (\<lambda>regions.
     and_then (scan_regions (\<lambda>st. st) (u32_chunk w r (to_le_bytes value)) regions scan_start) (\<lambda>st.
       if ss_reads st = 0 then Inl (scan_failed st) else Inr (ss_matches st)))"

definition find_all_subslices :: "u8 list \<Rightarrow> u8 list \<Rightarrow> nat list" where
  "find_all_subslices haystack needle =
     (if needle = [] \<or> length haystack < length needle then []
      else filter (\<lambda>offset. take (length needle) (drop offset haystack) = needle)
             [0..<length haystack - length needle + 1])"

definition too_many_matches :: tools_error where
  "too_many_matches = Other (''la cadena aparece en m'' @ [CHR 0xE1] @ ''s de ''
     @ show_nat MAX_SCAN_CANDIDATES @ '' direcciones'')"

fun push_matches :: "nat \<Rightarrow> nat list \<Rightarrow> u32 list \<Rightarrow> (tools_error, u32 list) result" where
  "push_matches base [] matches = Inr matches"
| "push_matches base (offset # offsets) matches =
     (if base + offset < 2 ^ 32 then
        let matches1 = matches @ [of_nat (base + offset)]
        in if MAX_SCAN_CANDIDATES < length matches1
           then Inl too_many_matches
           else push_matches base offsets matches1
      else push_matches base offsets matches)"

definition bytes_chunk ::
  "mem_world \<Rightarrow> proc_memory_reader \<Rightarrow> u8 list \<Rightarrow> nat \<Rightarrow> nat \<Rightarrow> scan_state \<Rightarrow> (tools_error, scan_state) result" where
  "bytes_chunk w r needle address requested st =
     (case read_bytes_at w r (of_nat address) requested of
        Inl error \<Rightarrow> Inr (st\<lparr>ss_overlap := [], ss_error := Some (tools_error_text error)\<rparr>)
      | Inr bytes \<Rightarrow>
          if bytes = [] then Inr (st\<lparr>ss_overlap := []\<rparr>)
          else let overlap_len = length (ss_overlap st);
                   combined = ss_overlap st @ bytes;
                   keep = min (length needle - 1) (length combined)
               in and_then (push_matches (address - overlap_len) (find_all_subslices combined needle) (ss_matches st))
                    (\<lambda>matches. Inr (st\<lparr>ss_reads := ss_reads st + 1, ss_matches := matches,
                       ss_overlap := drop (length combined - keep) combined\<rparr>)))"

definition find_all_writable_bytes_with_reader ::
  "mem_world \<Rightarrow> (string, string) result \<Rightarrow> proc_memory_reader \<Rightarrow> u8 list \<Rightarrow> (tools_error, u32 list) result" where
  "find_all_writable_bytes_with_reader w maps r needle =
     (if needle = [] then Inl (Other (''la cadena buscada no puede estar vac'' @ [CHR 0xED] @ ''a''))
      else and_then (read_regions (pm_pid r) maps) (\<lambda>regions.
       and_then (scan_regions (\<lambda>st. st\<lparr>ss_overlap := []\<rparr>) (bytes_chunk w r needle) regions scan_start) (\<lambda>st.
         if ss_reads st = 0 then Inl (scan_failed st) else Inr (dedup (sort (ss_matches st))))))"

definition open_error_text :: "proc_memory_error \<Rightarrow> string" where
  "open_error_text e =
     (case e of OpenError pid message \<Rightarrow> ''failed to open /proc/'' @ show_nat (unat pid) @ ''/mem: '' @ message)"

definition scan_writable_u32 ::
  "(proc_memory_error, proc_memory_reader) result \<Rightarrow> mem_world \<Rightarrow> (string, string) result \<Rightarrow> u32
     \<Rightarrow> (tools_error, u32 list) result" where
  "scan_writable_u32 opened w maps value =
     and_then (map_err (\<lambda>e. Other (open_error_text e)) opened) (\<lambda>r. scan_writable_u32_with_reader w maps r value)"

definition find_all_writable_bytes ::
  "(proc_memory_error, proc_memory_reader) result \<Rightarrow> mem_world \<Rightarrow> (string, string) result \<Rightarrow> u8 list
     \<Rightarrow> (tools_error, u32 list) result" where
  "find_all_writable_bytes opened w maps needle =
     and_then (map_err (\<lambda>e. Other (open_error_text e)) opened) (\<lambda>r. find_all_writable_bytes_with_reader w maps r needle)"

definition find_first_writable_bytes ::
  "(proc_memory_error, proc_memory_reader) result \<Rightarrow> mem_world \<Rightarrow> (string, string) result \<Rightarrow> u8 list
     \<Rightarrow> (tools_error, u32 option) result" where
  "find_first_writable_bytes opened w maps needle =
     and_then (find_all_writable_bytes opened w maps needle)
       (\<lambda>xs. Inr (case xs of [] \<Rightarrow> None | x # _ \<Rightarrow> Some x))"

section \<open>What a search means\<close>

text \<open>The memory as an image, a system that answers every read in full, and the addresses below \<open>stop\<close> at
  which a byte string stands.\<close>

definition image_at :: "(nat \<Rightarrow> u8) \<Rightarrow> nat \<Rightarrow> nat \<Rightarrow> u8 list" where
  "image_at mem a n = map mem [a..<a + n]"

definition reads_image :: "mem_world \<Rightarrow> proc_memory_reader \<Rightarrow> (nat \<Rightarrow> u8) \<Rightarrow> bool" where
  "reads_image w r mem \<longleftrightarrow>
     (\<forall>a n. a + n \<le> 2 ^ 32 \<longrightarrow> read_bytes_at w r (of_nat a) n = Inr (image_at mem a n))"

definition occurrences :: "(nat \<Rightarrow> u8) \<Rightarrow> u8 list \<Rightarrow> nat \<Rightarrow> nat \<Rightarrow> nat list" where
  "occurrences mem needle start stop =
     filter (\<lambda>a. image_at mem a (length needle) = needle) [start..<stop + 1 - length needle]"

definition region_ok :: "nat \<times> nat \<Rightarrow> bool" where
  "region_ok = (\<lambda>(start, stop). start < stop \<and> stop \<le> 2 ^ 32)"

lemma parse_regions_ok: "list_all region_ok (parse_writable_regions maps)"
  by (auto simp: parse_writable_regions_def list_all_iff List.map_filter_def region_ok_def region_of_line_def
      Let_def split: list.splits option.splits if_splits prod.splits)

lemma length_image_at [simp]: "length (image_at mem a n) = n"
  by (simp add: image_at_def)

lemma upt_join: "i \<le> j \<Longrightarrow> j \<le> k \<Longrightarrow> [i..<j] @ [j..<k] = [i..<k]"
  using upt_add_eq_append [of i j "k - j"] by simp

lemma image_at_append: "image_at mem a n @ image_at mem (a + n) k = image_at mem a (n + k)"
  by (simp add: image_at_def add.assoc upt_join flip: map_append)

lemma image_at_slice: "offset + k \<le> n \<Longrightarrow> take k (drop offset (image_at mem a n)) = image_at mem (a + offset) k"
  by (simp add: image_at_def drop_map take_map add.assoc)

lemma upt_shift: "[b..<b + m] = map (\<lambda>i. b + i) [0..<m]"
  by (simp add: map_add_upt add.commute)

lemma find_all_subslices_image:
  assumes "needle \<noteq> []"
  shows "find_all_subslices (image_at mem b m) needle = map (\<lambda>a. a - b) (occurrences mem needle b (b + m))"
proof (cases "m < length needle")
  case True then show ?thesis by (simp add: find_all_subslices_def occurrences_def)
next
  case False
  then have "b + m + 1 - length needle = b + (m - length needle + 1)" by simp
  then have "occurrences mem needle b (b + m) =
      filter (\<lambda>a. image_at mem a (length needle) = needle) (map (\<lambda>i. b + i) [0..<m - length needle + 1])"
    unfolding occurrences_def upt_shift [symmetric] by simp
  also have "map (\<lambda>a. a - b) \<dots> = filter (\<lambda>i. image_at mem (b + i) (length needle) = needle) [0..<m - length needle + 1]"
    by (simp add: filter_map comp_def del: upt_Suc)
  also have "\<dots> = find_all_subslices (image_at mem b m) needle"
    using False assms unfolding find_all_subslices_def
    by (auto intro!: filter_cong simp: image_at_slice simp del: upt_Suc)
  finally show ?thesis ..
qed

lemma push_matches_eq:
  assumes "\<And>offset. offset \<in> set offsets \<Longrightarrow> base + offset < 2 ^ 32" "length matches \<le> MAX_SCAN_CANDIDATES"
  shows "push_matches base offsets matches =
    (if MAX_SCAN_CANDIDATES < length matches + length offsets then Inl too_many_matches
     else Inr (matches @ map (\<lambda>offset. of_nat (base + offset)) offsets))"
  using assms
proof (induction offsets arbitrary: matches)
  case (Cons x xs)
  have "\<And>offset. offset \<in> set xs \<Longrightarrow> base + offset < 2 ^ 32" using Cons.prems(1) by simp
  from Cons.IH [OF this, where matches = "matches @ [of_nat (base + x)]"] Cons.prems
  show ?case by (auto simp: Let_def)
qed simp

lemma occurrences_bound: "a \<in> set (occurrences mem needle b stop) \<Longrightarrow> needle \<noteq> [] \<Longrightarrow> b \<le> a \<and> a < stop"
  by (cases needle) (auto simp: occurrences_def)

text \<open>The occurrences up to a point and those that end behind it: the overlap of \<open>k\<close> bytes keeps exactly
  those that cross it.\<close>

lemma occurrences_split:
  assumes "needle \<noteq> []" "b \<le> m" "m \<le> stop" "k = min (length needle - 1) (m - b)"
  shows "occurrences mem needle b stop = occurrences mem needle b m @ occurrences mem needle (m - k) stop"
proof (cases "length needle \<le> Suc (m - b)")
  case True
  with assms have mk: "m - k = m + 1 - length needle" by (cases needle) auto
  have "[b..<stop + 1 - length needle] = [b..<m + 1 - length needle] @ [m + 1 - length needle..<stop + 1 - length needle]"
    using True assms(1-3) by (intro upt_join [symmetric]) (auto simp: neq_Nil_conv)
  then show ?thesis by (simp add: occurrences_def mk)
next
  case False
  with assms have "m - k = b" "m + 1 - length needle \<le> b" by auto
  then show ?thesis by (simp add: occurrences_def)
qed

section \<open>The byte search\<close>

text \<open>One chunk at \<open>a\<close>, with the last \<open>k\<close> bytes before it as overlap.\<close>

lemma bytes_chunk_image:
  assumes "reads_image w r mem" "needle \<noteq> []" "0 < m" "a + m \<le> 2 ^ 32" "k \<le> a"
    and "ss_overlap st = image_at mem (a - k) k" "length (ss_matches st) \<le> MAX_SCAN_CANDIDATES"
    and "found = occurrences mem needle (a - k) (a + m)" "k' = min (length needle - 1) (k + m)"
  shows "bytes_chunk w r needle a m st =
    (if MAX_SCAN_CANDIDATES < length (ss_matches st) + length found then Inl too_many_matches
     else Inr (st\<lparr>ss_reads := ss_reads st + 1, ss_matches := ss_matches st @ map of_nat found,
                 ss_overlap := image_at mem (a + m - k') k'\<rparr>))"
proof -
  have rd: "read_bytes_at w r (of_nat a) m = Inr (image_at mem a m)"
    using assms(1,4) by (simp add: reads_image_def)
  have comb: "image_at mem (a - k) k @ image_at mem a m = image_at mem (a - k) (k + m)"
    using image_at_append [of mem "a - k" k m] assms(5) by simp
  have subs: "find_all_subslices (image_at mem (a - k) (k + m)) needle = map (\<lambda>x. x - (a - k)) found"
    using assms(5) by (simp add: find_all_subslices_image [OF assms(2)] assms(8))
  have fb: "x \<in> set found \<Longrightarrow> a - k \<le> x \<and> x < 2 ^ 32" for x
    using occurrences_bound [of x mem needle "a - k" "a + m"] assms(2,4,8) by auto
  have push: "push_matches (a - k) (map (\<lambda>x. x - (a - k)) found) (ss_matches st) =
      (if MAX_SCAN_CANDIDATES < length (ss_matches st) + length found then Inl too_many_matches
       else Inr (ss_matches st @ map of_nat found))"
    using push_matches_eq [of "map (\<lambda>x. x - (a - k)) found" "a - k" "ss_matches st"] fb assms(7)
    by (force intro!: arg_cong [where f = Inr])
  have ne: "image_at mem a m \<noteq> []" using assms(3) by (simp flip: length_greater_0_conv)
  have keep: "drop (k + m - k') (image_at mem (a - k) (k + m)) = image_at mem (a + m - k') k'"
    using assms(5,9) image_at_slice [of "k + m - k'" k' "k + m" mem "a - k"] by simp
  show ?thesis
    using keep by (simp add: bytes_chunk_def rd ne assms(6) comb subs push Let_def and_then_def assms(9))
qed

lemma scan_region_bytes:
  assumes "reads_image w r mem" "needle \<noteq> []" "stop \<le> 2 ^ 32"
    and "a \<le> stop" "k \<le> a" "k \<le> length needle - 1" "ss_overlap st = image_at mem (a - k) k"
    and "length (ss_matches st) \<le> MAX_SCAN_CANDIDATES" "found = occurrences mem needle (a - k) stop"
  shows "if MAX_SCAN_CANDIDATES < length (ss_matches st) + length found
    then scan_region (bytes_chunk w r needle) a stop st = Inl too_many_matches
    else \<exists>st'. scan_region (bytes_chunk w r needle) a stop st = Inr st' \<and>
           ss_matches st' = ss_matches st @ map of_nat found \<and> ss_reads st + of_bool (a < stop) \<le> ss_reads st'"
  using assms(4-9)
proof (induction "stop - a" arbitrary: a k st found rule: less_induct)
  case less
  show ?case
  proof (cases "a < stop")
    case False
    with less.prems have "stop + 1 - length needle \<le> a - k" using assms(2) by (cases needle) auto
    with less.prems have "found = []" by (simp add: occurrences_def)
    with False less.prems show ?thesis by (simp add: scan_region.simps)
  next
    case True
    define m where "m = min (stop - a) SCAN_CHUNK_SIZE"
    define k' where "k' = min (length needle - 1) (k + m)"
    define here where "here = occurrences mem needle (a - k) (a + m)"
    define later where "later = occurrences mem needle (a + m - k') stop"
    have m: "0 < m" "a + m \<le> stop" using True by (auto simp: m_def SCAN_CHUNK_SIZE_def)
    have split: "found = here @ later"
      unfolding less.prems(6) here_def later_def
      using m less.prems(2) by (intro occurrences_split [OF assms(2)]) (auto simp: k'_def)
    have body: "bytes_chunk w r needle a m st =
        (if MAX_SCAN_CANDIDATES < length (ss_matches st) + length here then Inl too_many_matches
         else Inr (st\<lparr>ss_reads := ss_reads st + 1, ss_matches := ss_matches st @ map of_nat here,
                     ss_overlap := image_at mem (a + m - k') k'\<rparr>))"
      using assms(1-3) m less.prems by (intro bytes_chunk_image) (auto simp: here_def k'_def)
    have unf: "scan_region (bytes_chunk w r needle) a stop st =
        and_then (bytes_chunk w r needle a m st) (scan_region (bytes_chunk w r needle) (a + m) stop)"
      using True by (subst scan_region.simps) (simp add: m_def Let_def)
    show ?thesis
    proof (cases "MAX_SCAN_CANDIDATES < length (ss_matches st) + length here")
      case True then show ?thesis by (simp add: unf body split and_then_def)
    next
      case False
      let ?st = "st\<lparr>ss_reads := ss_reads st + 1, ss_matches := ss_matches st @ map of_nat here,
                     ss_overlap := image_at mem (a + m - k') k'\<rparr>"
      have "if MAX_SCAN_CANDIDATES < length (ss_matches ?st) + length later
        then scan_region (bytes_chunk w r needle) (a + m) stop ?st = Inl too_many_matches
        else \<exists>st'. scan_region (bytes_chunk w r needle) (a + m) stop ?st = Inr st' \<and>
           ss_matches st' = ss_matches ?st @ map of_nat later \<and> ss_reads ?st + of_bool (a + m < stop) \<le> ss_reads st'"
        using m True False less.prems by (intro less.hyps [where k = k']) (auto simp: k'_def later_def)
      with False show ?thesis by (auto simp: unf body split and_then_def split: if_splits)
    qed
  qed
qed

lemma scan_regions_bytes:
  assumes "reads_image w r mem" "needle \<noteq> []" "list_all region_ok regions"
    and "length (ss_matches st) \<le> MAX_SCAN_CANDIDATES"
    and "found = concat (map (\<lambda>(start, stop). occurrences mem needle start stop) regions)"
  shows "if MAX_SCAN_CANDIDATES < length (ss_matches st) + length found
    then scan_regions (\<lambda>st. st\<lparr>ss_overlap := []\<rparr>) (bytes_chunk w r needle) regions st = Inl too_many_matches
    else \<exists>st'. scan_regions (\<lambda>st. st\<lparr>ss_overlap := []\<rparr>) (bytes_chunk w r needle) regions st = Inr st' \<and>
           ss_matches st' = ss_matches st @ map of_nat found \<and> ss_reads st + length regions \<le> ss_reads st'"
  using assms(3-5)
proof (induction regions arbitrary: st found)
  case Nil then show ?case by simp
next
  case (Cons region regions)
  obtain start stop where reg: "region = (start, stop)" by force
  let ?here = "occurrences mem needle start stop"
  let ?later = "concat (map (\<lambda>(start, stop). occurrences mem needle start stop) regions)"
  let ?scan = "scan_region (bytes_chunk w r needle) start stop (st\<lparr>ss_overlap := []\<rparr>)"
  have first: "if MAX_SCAN_CANDIDATES < length (ss_matches st) + length ?here then ?scan = Inl too_many_matches
      else \<exists>st'. ?scan = Inr st' \<and> ss_matches st' = ss_matches st @ map of_nat ?here \<and> ss_reads st + 1 \<le> ss_reads st'"
    using scan_region_bytes [OF assms(1,2), of stop start 0 "st\<lparr>ss_overlap := []\<rparr>" ?here] Cons.prems(1,2)
    by (auto simp: reg region_ok_def image_at_def split: if_splits)
  show ?case
  proof (cases "MAX_SCAN_CANDIDATES < length (ss_matches st) + length ?here")
    case True with first Cons.prems(3) show ?thesis by (simp add: reg and_then_def)
  next
    case False
    with first obtain st' where st': "?scan = Inr st'" "ss_matches st' = ss_matches st @ map of_nat ?here"
      "ss_reads st + 1 \<le> ss_reads st'" by auto
    with False Cons.prems Cons.IH [of st' ?later] show ?thesis
      by (auto simp: reg and_then_def split: if_splits)
  qed
qed

lemma set_occurrences:
  "needle \<noteq> [] \<Longrightarrow> a \<in> set (occurrences mem needle start stop) \<longleftrightarrow>
     start \<le> a \<and> a + length needle \<le> stop \<and> image_at mem a (length needle) = needle"
  by (auto simp: occurrences_def)

text \<open>When every read is answered in full, the byte search is exact: it returns, sorted and without
  repetitions, the addresses at which the byte string stands completely inside one writable region,
  also across the boundaries of its chunks; it refuses only when the regions together hold more than two
  million occurrences.\<close>

theorem byte_search_exact:
  assumes "reads_image w r mem" "needle \<noteq> []" "parse_writable_regions maps = regions" "regions \<noteq> []"
  shows "find_all_writable_bytes_with_reader w (Inr maps) r needle =
    (if MAX_SCAN_CANDIDATES < (\<Sum>(start, stop)\<leftarrow>regions. length (occurrences mem needle start stop))
     then Inl too_many_matches
     else Inr (sorted_list_of_set {of_nat a | a. \<exists>(start, stop)\<in>set regions.
            start \<le> a \<and> a + length needle \<le> stop \<and> image_at mem a (length needle) = needle}))"
proof -
  let ?found = "concat (map (\<lambda>(start, stop). occurrences mem needle start stop) regions)"
  have len: "length ?found = (\<Sum>(start, stop)\<leftarrow>regions. length (occurrences mem needle start stop))"
    by (simp add: length_concat comp_def split_def)
  have set: "set (map of_nat ?found :: u32 list) = {of_nat a | a. \<exists>(start, stop)\<in>set regions.
            start \<le> a \<and> a + length needle \<le> stop \<and> image_at mem a (length needle) = needle}"
    by (auto simp: set_occurrences [OF assms(2)] image_iff split: prod.splits) (use set_occurrences [OF assms(2)] in fastforce)+
  have ok: "list_all region_ok regions" using parse_regions_ok assms(3) by blast
  have rd: "read_regions (pm_pid r) (Inr maps) = Inr regions" using assms(3,4) by (simp add: read_regions_def)
  have pos: "length regions \<le> n \<Longrightarrow> 0 < n" for n using assms(4) by (cases regions) auto
  from scan_regions_bytes [OF assms(1,2) ok, of scan_start ?found]
  show ?thesis
    unfolding find_all_writable_bytes_with_reader_def rd len [symmetric] set [symmetric]
    using assms(2) by (auto simp: and_then_def scan_start_def dedup_sort dest: pos simp del: set_map split: if_splits)
qed

section \<open>The value search\<close>

lemma unat_byte: "unat (b :: u8) < 256"
  using unsigned_less [of b, where ?'a = nat] by simp

lemma u8_of_nat_unat: "unat (of_nat x :: u8) = x mod 256"
  by (simp add: unsigned_of_nat take_bit_eq_mod)

lemma u32_of_nat_unat: "unat (of_nat x :: u32) = x mod 2 ^ 32"
  by (simp add: unsigned_of_nat take_bit_eq_mod)

lemma to_le_bytes_eq:
  "to_le_bytes v = [of_nat (unat v), of_nat (unat v div 256), of_nat (unat v div 65536), of_nat (unat v div 16777216)]"
proof -
  have "[0..<4] = [0, 1, 2, 3 :: nat]" by (simp add: upt_rec)
  then show ?thesis by (simp add: to_le_bytes_def)
qed

lemma from_le_bytes_eq:
  "from_le_bytes [a, b, c, d] = of_nat (unat a + 256 * (unat b + 256 * (unat c + 256 * unat d)))"
  by (simp add: from_le_bytes_def)

lemma unat_to_le_bytes:
  "map unat (to_le_bytes v) =
     [unat v mod 256, unat v div 256 mod 256, unat v div 65536 mod 256, unat v div 16777216 mod 256]"
  by (simp only: to_le_bytes_eq list.map u8_of_nat_unat)

lemma base256:
  "n div 65536 = n div 256 div (256 :: nat)" "n div 16777216 = n div 256 div 256 div (256 :: nat)"
  using div_mult2_eq [of n 256 256] div_mult2_eq [of n 65536 256] by simp_all

lemma from_to_le: "from_le_bytes (to_le_bytes v) = v"
proof -
  define n where "n = unat v"
  have "n < 256 * 16777216" using unsigned_less [of v, where ?'a = nat] by (simp add: n_def)
  then have "n div 16777216 < 256" by (rule less_mult_imp_div_less)
  then have "n mod 256 + 256 * (n div 256 mod 256 + 256 * (n div 65536 mod 256 + 256 * (n div 16777216 mod 256))) = n"
    by (simp only: mod_less) (simp only: base256 mod_mult_div_eq)
  then have "from_le_bytes (to_le_bytes v) = of_nat n"
    by (simp only: to_le_bytes_eq from_le_bytes_eq u8_of_nat_unat n_def)
  then show ?thesis by (simp add: n_def)
qed

lemma to_from_le: "length bs = 4 \<Longrightarrow> to_le_bytes (from_le_bytes bs) = bs"
proof -
  assume "length bs = 4"
  then obtain a b c d where bs: "bs = [a, b, c, d]"
    by (auto simp: numeral_eq_Suc length_Suc_conv)
  define n where "n = unat a + 256 * (unat b + 256 * (unat c + 256 * unat d))"
  have bounds: "unat a < 256" "unat b < 256" "unat c < 256" "unat d < 256" by (rule unat_byte)+
  then have "n < 2 ^ 32" by (simp add: n_def)
  moreover have "from_le_bytes bs = of_nat n" by (simp only: from_le_bytes_eq bs n_def)
  ultimately have v: "unat (from_le_bytes bs) = n" by (simp only: u32_of_nat_unat mod_less)
  have digit: "(x + 256 * y) mod 256 = x" "(x + 256 * y) div 256 = y" if "x < 256" for x y :: nat
    using that by simp_all
  have "n mod 256 = unat a" "n div 256 mod 256 = unat b" "n div 65536 mod 256 = unat c"
    "n div 16777216 mod 256 = unat d"
    unfolding base256 n_def by (simp_all only: digit bounds mod_less)
  then have "map unat (to_le_bytes (from_le_bytes bs)) = map unat bs"
    unfolding unat_to_le_bytes v by (simp only: bs list.map)
  then show ?thesis by (metis inj_map_eq_map inj_def unsigned_word_eqI)
qed

lemma le_bytes_iff: "length bs = 4 \<Longrightarrow> bs = to_le_bytes v \<longleftrightarrow> from_le_bytes bs = v"
  using from_to_le to_from_le by metis

text \<open>The aligned addresses below \<open>stop\<close> whose word has the value.\<close>

definition aligned_values :: "(nat \<Rightarrow> u8) \<Rightarrow> u32 \<Rightarrow> nat \<Rightarrow> nat \<Rightarrow> nat list" where
  "aligned_values mem value start stop =
     filter (\<lambda>a. 4 dvd a \<and> from_le_bytes (image_at mem a 4) = value) [start..<stop - 3]"

lemma scan_aligned_image:
  assumes "4 dvd a" "4 \<le> m" "a + m \<le> 2 ^ 32"
  shows "scan_aligned_chunk (of_nat a) (image_at mem a m) (to_le_bytes value) out =
    out @ map of_nat (aligned_values mem value a (a + m))"
proof -
  have un: "unat (of_nat a :: u32) = a" using assms(2,3) by (simp add: u32_of_nat_unat)
  have "map of_nat (aligned_values mem value a (a + m)) = map (\<lambda>i. of_nat (a + i) :: u32)
      (filter (\<lambda>i. 4 dvd a + i \<and> from_le_bytes (image_at mem (a + i) 4) = value) [0..<m - 3])"
    using assms(2) upt_shift [of a "m - 3"] by (simp add: aligned_values_def filter_map comp_def)
  also have "\<dots> = map (\<lambda>i. of_nat a + of_nat i) (filter (\<lambda>i. i mod 4 = 0 \<and>
      take 4 (drop i (image_at mem a m)) = to_le_bytes value \<and> a + i < 2 ^ 32) [0..<m - 3])"
    using assms by (intro map_cong filter_cong)
      (auto simp: image_at_slice le_bytes_iff dvd_add_right_iff mod_eq_0_iff_dvd)
  finally show ?thesis using assms(1,2) by (simp add: scan_aligned_chunk_def un Let_def)
qed

lemma aligned_gap:
  assumes "4 dvd e" "e - 3 \<le> b"
  shows "aligned_values mem value (e - 3) (b + 3) = aligned_values mem value e (b + 3)"
proof -
  have no: "\<not> 4 dvd x" if "e - 3 \<le> x" "x < e" for x
    using that assms(1) by presburger
  show ?thesis
  proof (cases "e \<le> b")
    case True
    then have "[e - 3..<b] = [e - 3..<e] @ [e..<b]" by (simp add: upt_join)
    moreover have "filter (\<lambda>a. 4 dvd a \<and> from_le_bytes (image_at mem a 4) = value) [e - 3..<e] = []"
      using no by (auto simp: filter_empty_conv)
    ultimately show ?thesis by (simp add: aligned_values_def)
  next
    case False
    with no show ?thesis by (auto simp: aligned_values_def filter_empty_conv)
  qed
qed

lemma aligned_values_split:
  assumes "4 dvd a" "0 < m" "a + m \<le> stop" "a + m = stop \<or> 4 dvd m"
  shows "aligned_values mem value a stop = aligned_values mem value a (a + m) @ aligned_values mem value (a + m) stop"
proof (cases "a + m = stop")
  case True then show ?thesis by (simp add: aligned_values_def)
next
  case False
  with assms have m: "4 dvd m" "4 \<le> m" by (auto dest: dvd_imp_le)
  then have "[a..<stop - 3] = [a..<a + m - 3] @ [a + m - 3..<stop - 3]" using assms(3) by (simp add: upt_join)
  moreover have "aligned_values mem value (a + m - 3) stop = aligned_values mem value (a + m) stop"
    using aligned_gap [of "a + m" "stop - 3" mem] m assms(1,3) by simp
  ultimately show ?thesis by (simp add: aligned_values_def)
qed

lemma u32_chunk_image:
  assumes "reads_image w r mem" "4 dvd a" "0 < m" "a + m \<le> 2 ^ 32"
    and "length (ss_matches st) \<le> MAX_SCAN_CANDIDATES" "found = aligned_values mem v a (a + m)"
  shows "u32_chunk w r (to_le_bytes v) a m st =
    (if MAX_SCAN_CANDIDATES < length (ss_matches st) + length found then Inl too_many_values
     else Inr (st\<lparr>ss_reads := ss_reads st + of_bool (4 \<le> m), ss_matches := ss_matches st @ map of_nat found\<rparr>))"
proof -
  have rd: "read_bytes_at w r (of_nat a) m = Inr (image_at mem a m)"
    using assms(1,4) by (simp add: reads_image_def)
  show ?thesis
  proof (cases "4 \<le> m")
    case True
    then show ?thesis
      by (simp add: u32_chunk_def rd Let_def scan_aligned_image [OF assms(2) True assms(4)] assms(6))
  next
    case False
    then have "found = []" by (simp add: assms(6) aligned_values_def)
    with False assms(5) show ?thesis by (simp add: u32_chunk_def rd Let_def)
  qed
qed

lemma scan_region_u32:
  assumes "reads_image w r mem" "stop \<le> 2 ^ 32"
    and "a \<le> stop" "4 dvd a \<or> a = stop"
    and "length (ss_matches st) \<le> MAX_SCAN_CANDIDATES" "found = aligned_values mem v a stop"
  shows "if MAX_SCAN_CANDIDATES < length (ss_matches st) + length found
    then scan_region (u32_chunk w r (to_le_bytes v)) a stop st = Inl too_many_values
    else \<exists>st'. scan_region (u32_chunk w r (to_le_bytes v)) a stop st = Inr st' \<and>
           ss_matches st' = ss_matches st @ map of_nat found \<and> ss_reads st + of_bool (a + 4 \<le> stop) \<le> ss_reads st'"
  using assms(3-6)
proof (induction "stop - a" arbitrary: a st found rule: less_induct)
  case less
  show ?case
  proof (cases "a < stop")
    case False
    with less.prems have "found = []" by (simp add: aligned_values_def)
    with False less.prems show ?thesis by (simp add: scan_region.simps)
  next
    case True
    define m where "m = min (stop - a) SCAN_CHUNK_SIZE"
    define here where "here = aligned_values mem v a (a + m)"
    define later where "later = aligned_values mem v (a + m) stop"
    have m: "0 < m" "a + m \<le> stop" "a + m = stop \<or> 4 dvd m" "a + 4 \<le> stop \<Longrightarrow> 4 \<le> m"
      using True by (auto simp: m_def SCAN_CHUNK_SIZE_def min_def)
    have a: "4 dvd a" using less.prems True by simp
    have split: "found = here @ later"
      unfolding less.prems(4) here_def later_def by (rule aligned_values_split [OF a m(1-3)])
    have body: "u32_chunk w r (to_le_bytes v) a m st =
        (if MAX_SCAN_CANDIDATES < length (ss_matches st) + length here then Inl too_many_values
         else Inr (st\<lparr>ss_reads := ss_reads st + of_bool (4 \<le> m), ss_matches := ss_matches st @ map of_nat here\<rparr>))"
      using assms(1,2) m a less.prems by (intro u32_chunk_image) (auto simp: here_def)
    have unf: "scan_region (u32_chunk w r (to_le_bytes v)) a stop st =
        and_then (u32_chunk w r (to_le_bytes v) a m st) (scan_region (u32_chunk w r (to_le_bytes v)) (a + m) stop)"
      using True by (subst scan_region.simps) (simp add: m_def Let_def)
    show ?thesis
    proof (cases "MAX_SCAN_CANDIDATES < length (ss_matches st) + length here")
      case True then show ?thesis by (simp add: unf body split and_then_def)
    next
      case False
      let ?st = "st\<lparr>ss_reads := ss_reads st + of_bool (4 \<le> m), ss_matches := ss_matches st @ map of_nat here\<rparr>"
      have "if MAX_SCAN_CANDIDATES < length (ss_matches ?st) + length later
        then scan_region (u32_chunk w r (to_le_bytes v)) (a + m) stop ?st = Inl too_many_values
        else \<exists>st'. scan_region (u32_chunk w r (to_le_bytes v)) (a + m) stop ?st = Inr st' \<and>
           ss_matches st' = ss_matches ?st @ map of_nat later \<and> ss_reads ?st + of_bool (a + m + 4 \<le> stop) \<le> ss_reads st'"
        using m a True False less.prems by (intro less.hyps) (auto simp: later_def)
      with False m(4) show ?thesis by (auto simp: unf body split and_then_def split: if_splits)
    qed
  qed
qed

lemma scan_regions_u32:
  assumes "reads_image w r mem" "list_all region_ok regions" "list_all (\<lambda>(start, _). 4 dvd start) regions"
    and "length (ss_matches st) \<le> MAX_SCAN_CANDIDATES"
    and "found = concat (map (\<lambda>(start, stop). aligned_values mem v start stop) regions)"
  shows "if MAX_SCAN_CANDIDATES < length (ss_matches st) + length found
    then scan_regions (\<lambda>st. st) (u32_chunk w r (to_le_bytes v)) regions st = Inl too_many_values
    else \<exists>st'. scan_regions (\<lambda>st. st) (u32_chunk w r (to_le_bytes v)) regions st = Inr st' \<and>
           ss_matches st' = ss_matches st @ map of_nat found \<and> ss_reads st \<le> ss_reads st' \<and>
           (\<forall>start stop. (start, stop) \<in> set regions \<longrightarrow> start + 4 \<le> stop \<longrightarrow> ss_reads st < ss_reads st')"
  using assms(2-5)
proof (induction regions arbitrary: st found)
  case Nil then show ?case by simp
next
  case (Cons region regions)
  obtain start stop where reg: "region = (start, stop)" by force
  let ?here = "aligned_values mem v start stop"
  let ?later = "concat (map (\<lambda>(start, stop). aligned_values mem v start stop) regions)"
  let ?scan = "scan_region (u32_chunk w r (to_le_bytes v)) start stop st"
  have first: "if MAX_SCAN_CANDIDATES < length (ss_matches st) + length ?here then ?scan = Inl too_many_values
      else \<exists>st'. ?scan = Inr st' \<and> ss_matches st' = ss_matches st @ map of_nat ?here \<and>
             ss_reads st + of_bool (start + 4 \<le> stop) \<le> ss_reads st'"
    using Cons.prems(1-3) by (intro scan_region_u32 [OF assms(1)]) (auto simp: reg region_ok_def)
  show ?case
  proof (cases "MAX_SCAN_CANDIDATES < length (ss_matches st) + length ?here")
    case True with first Cons.prems(4) show ?thesis by (simp add: reg and_then_def)
  next
    case False
    with first obtain st' where st': "?scan = Inr st'" "ss_matches st' = ss_matches st @ map of_nat ?here"
      "ss_reads st + of_bool (start + 4 \<le> stop) \<le> ss_reads st'" by auto
    have rest: "if MAX_SCAN_CANDIDATES < length (ss_matches st') + length ?later
      then scan_regions (\<lambda>st. st) (u32_chunk w r (to_le_bytes v)) regions st' = Inl too_many_values
      else \<exists>st''. scan_regions (\<lambda>st. st) (u32_chunk w r (to_le_bytes v)) regions st' = Inr st'' \<and>
           ss_matches st'' = ss_matches st' @ map of_nat ?later \<and> ss_reads st' \<le> ss_reads st'' \<and>
           (\<forall>start stop. (start, stop) \<in> set regions \<longrightarrow> start + 4 \<le> stop \<longrightarrow> ss_reads st' < ss_reads st'')"
      using Cons.prems False st' by (intro Cons.IH) auto
    have "ss_reads st' \<le> n \<Longrightarrow> ss_reads st \<le> n" "ss_reads st' < n \<Longrightarrow> ss_reads st < n"
      "start + 4 \<le> stop \<Longrightarrow> ss_reads st' \<le> n \<Longrightarrow> ss_reads st < n" for n
      using st'(3) by auto
    with rest st'(1,2) Cons.prems(4) show ?thesis
      by (auto simp: reg and_then_def split: if_splits)
  qed
qed

lemma image_word: "reads_image w r mem \<Longrightarrow> a + 4 \<le> 2 ^ 32 \<Longrightarrow>
    read_u32_at w r (of_nat a) = Inr (from_le_bytes (image_at mem a 4))"
  by (simp add: read_u32_at_def reads_image_def and_then_def fill_buffer_def)

text \<open>When every read is answered in full and the writable regions start at multiples of four, the
  value search is exact: the result lists, region by region, the aligned addresses whose word has
  the value, it refuses only more than two million of them, and refining the candidates with the same
  value and memory keeps them all.\<close>

theorem value_search_exact:
  assumes "reads_image w r mem" "parse_writable_regions maps = regions"
    and "list_all (\<lambda>(start, _). 4 dvd start) regions" "\<exists>(start, stop)\<in>set regions. start + 4 \<le> stop"
    and "found = concat (map (\<lambda>(start, stop). filter (\<lambda>a. 4 dvd a \<and> from_le_bytes (image_at mem a 4) = v)
           [start..<stop - 3]) regions)"
  shows "scan_writable_u32_with_reader w (Inr maps) r v =
      (if MAX_SCAN_CANDIDATES < length found then Inl too_many_values else Inr (map of_nat found)) \<and>
    refine_u32_candidates w r (map of_nat found) v = map of_nat found"
proof
  have ok: "list_all region_ok regions" using parse_regions_ok assms(2) by blast
  have found: "found = concat (map (\<lambda>(start, stop). aligned_values mem v start stop) regions)"
    by (simp add: assms(5) aligned_values_def)
  have "regions \<noteq> []" using assms(4) by auto
  then have rd: "read_regions (pm_pid r) (Inr maps) = Inr regions" using assms(2) by (simp add: read_regions_def)
  from scan_regions_u32 [OF assms(1) ok assms(3), of scan_start found v] assms(4) found
  show "scan_writable_u32_with_reader w (Inr maps) r v =
      (if MAX_SCAN_CANDIDATES < length found then Inl too_many_values else Inr (map of_nat found))"
    unfolding scan_writable_u32_with_reader_def rd
    by (fastforce simp: and_then_def scan_start_def split: if_splits)
  show "refine_u32_candidates w r (map of_nat found) v = map of_nat found"
    unfolding refine_u32_candidates_def
  proof (rule filter_True, rule ballI)
    fix x assume "x \<in> set (map of_nat found :: u32 list)"
    then obtain a start stop where a: "x = of_nat a" "(start, stop) \<in> set regions" "a + 4 \<le> stop"
      "from_le_bytes (image_at mem a 4) = v"
      by (auto simp: assms(5))
    moreover from ok a(2) have "stop \<le> 2 ^ 32" by (auto simp: list_all_iff region_ok_def)
    ultimately show "ok_option (read_u32_at w r x) = Some v"
      using image_word [OF assms(1), of a] by (simp add: ok_option_def)
  qed
qed

section \<open>Reads of words, slices and stale readers\<close>

lemma upt4: "[0..<4] = [0, 1, 2, 3 :: nat]"
  by (simp add: upt_rec)

lemma image_at_4: "image_at mem a 4 = [mem a, mem (a + 1), mem (a + 2), mem (a + 3)]"
  by (simp only: image_at_def upt_shift [of a 4] upt4 list.map add_0_right)

lemma image_at_2: "image_at mem a 2 = [mem a, mem (a + 1)]"
proof -
  have "[0..<2] = [0, 1 :: nat]" by (simp add: upt_rec)
  then show ?thesis by (simp only: image_at_def upt_shift [of a 2] list.map add_0_right)
qed

lemma chunks4_image: "chunks4 (image_at mem a (len * 4)) = map (\<lambda>i. image_at mem (a + i * 4) 4) [0..<len]"
proof (induction len arbitrary: a)
  case (Suc len)
  have "image_at mem a (Suc len * 4) = image_at mem a 4 @ image_at mem (a + 4) (len * 4)"
    using image_at_append [of mem a 4 "len * 4"] by (simp add: add.commute)
  then have "chunks4 (image_at mem a (Suc len * 4)) = image_at mem a 4 # chunks4 (image_at mem (a + 4) (len * 4))"
    by (simp add: image_at_4)
  then show ?case by (simp add: Suc.IH map_upt_Suc add.assoc del: upt_Suc)
qed (simp add: image_at_def)

lemma collect_results_ok: "(\<And>x. x \<in> set xs \<Longrightarrow> g x = Inr (h x)) \<Longrightarrow> collect_results g xs = Inr (map h xs)"
  by (induction xs) auto

text \<open>The single read of a slice agrees with the provided method of the port, which reads word by
  word, on every range inside the 32-bit address space that is answered in full.\<close>

theorem slice_read_agrees:
  assumes "reads_image w r mem" "unat address + len * 4 \<le> 2 ^ 32"
  shows "pm_read_u32_slice w r address len = default_read_u32_slice (read_u32_at w r) address len"
proof -
  have "read_bytes_at w r address (len * 4) = Inr (image_at mem (unat address) (len * 4))"
    using assms(1) [unfolded reads_image_def, rule_format, OF assms(2)] by simp
  then have "pm_read_u32_slice w r address len
      = Inr (map (\<lambda>i. from_le_bytes (image_at mem (unat address + i * 4) 4)) [0..<len])"
    by (simp add: pm_read_u32_slice_def and_then_def chunks4_image comp_def)
  moreover have word: "read_u32_at w r (address + of_nat i * 4) = Inr (from_le_bytes (image_at mem (unat address + i * 4) 4))"
    if "i \<in> set [0..<len]" for i
  proof -
    have "address + of_nat i * 4 = of_nat (unat address + i * 4)" by simp
    moreover have "unat address + i * 4 + 4 \<le> 2 ^ 32" using that assms(2) by simp
    ultimately show ?thesis using image_word [OF assms(1)] by metis
  qed
  moreover have "collect_results (\<lambda>index. read_u32_at w r (address + of_nat index * 4)) [0..<len]
      = Inr (map (\<lambda>i. from_le_bytes (image_at mem (unat address + i * 4) 4)) [0..<len])"
    by (rule collect_results_ok) (rule word)
  ultimately show ?thesis by (simp only: default_read_u32_slice_def)
qed

text \<open>Once the process of a reader has gone or its PID belongs to another instance, no backend
  answers: opening, both raw reads, the port's reads and the probe fail, refining drops every candidate,
  and no address counts as mapped.\<close>

theorem stale_reader_rejects:
  assumes "\<And>address n. \<not> verify_process_identity (ma_first (w address n)) (pm_identity r)"
    and "\<And>address n. \<not> verify_process_identity (ma_second (w address n)) (pm_identity r)"
    and "\<not> verify_process_identity p (pm_identity r)"
  shows "\<not> is_ok (open_for_identity p opened after (pm_identity r)) \<and>
    \<not> is_ok (open_for_identity before opened p (pm_identity r)) \<and>
    try_vm_read w r address n = Inl ESRCH \<and>
    \<not> is_ok (try_proc_mem_read w r raw address n) \<and>
    read_u32 (proc_memory_port text w r) address = Inl (MemoryRead address stale_text) \<and>
    read_u32_slice (proc_memory_port text w r) address n = Inl (MemoryRead address stale_text) \<and>
    read_string (proc_memory_port text w r) address n = Inl (MemoryRead address stale_text) \<and>
    \<not> is_ok (probe_stats w r address) \<and> refine_u32_candidates w r candidates v = [] \<and>
    \<not> address_mapped p maps r address"
proof -
  have rd: "read_bytes_at w r a k = Inl (MemoryRead a stale_text)" for a k
    using assms(1) by (simp add: read_bytes_at_def Let_def)
  have "read_u32_at w r a = Inl (MemoryRead a stale_text)" for a
    by (simp add: read_u32_at_def rd and_then_def)
  with rd assms show ?thesis
    by (simp add: open_for_identity_def is_ok_def Let_def try_vm_read_def try_proc_mem_read_def proc_memory_port_def
        pm_read_u32_slice_def pm_read_string_def probe_stats_def refine_u32_candidates_def address_mapped_def
        and_then_def ok_option_def)
qed

section \<open>Short reads\<close>

lemma scan_region_two_chunks:
  assumes "step a SCAN_CHUNK_SIZE st = Inr st1" "step (a + SCAN_CHUNK_SIZE) 1 st1 = Inr st2"
  shows "scan_region step a (a + SCAN_CHUNK_SIZE + 1) st = Inr st2"
proof -
  let ?stop = "a + SCAN_CHUNK_SIZE + 1"
  have "scan_region step a ?stop st = scan_region step (a + SCAN_CHUNK_SIZE) ?stop st1"
    using assms(1) by (subst scan_region.simps) (simp add: and_then_def)
  also have "\<dots> = scan_region step ?stop ?stop st2"
    using assms(2) by (subst scan_region.simps) (simp add: and_then_def SCAN_CHUNK_SIZE_def)
  also have "\<dots> = Inr st2" by (subst scan_region.simps) simp
  finally show ?thesis .
qed

text \<open>A word read that the system answers with fewer than four bytes is not an error: the missing
  bytes read as zero, while a slice read over the same answer is refused.\<close>

theorem short_word_read_succeeds:
  assumes "read_bytes_at w r address 4 = Inr bytes" "length bytes < 4"
  shows "read_u32_at w r address = Inr (from_le_bytes (bytes @ replicate (4 - length bytes) 0)) \<and>
    \<not> is_ok (pm_read_u32_slice w r address 1)"
  using assms by (simp add: read_u32_at_def pm_read_u32_slice_def fill_buffer_def and_then_def is_ok_def)

text \<open>The byte search keeps the tail of a chunk as overlap without regard to how much of the chunk was
  read.  When the first chunk of a region is cut short and the needle is split between the last byte
  that was read and the first bytes of the next chunk, the search reports the address just before the
  second chunk, which was never read.\<close>

theorem short_chunk_false_match:
  assumes "parse_writable_regions maps = [(start, stop)]"
    and "stop = start + SCAN_CHUNK_SIZE + 1"
    and "read_bytes_at w r (of_nat start) SCAN_CHUNK_SIZE = Inr [b]"
    and "read_bytes_at w r (of_nat (start + SCAN_CHUNK_SIZE)) 1 = Inr [c]"
  shows "find_all_writable_bytes_with_reader w (Inr maps) r [b, c] = Inr [of_nat (start + SCAN_CHUNK_SIZE - 1)]"
proof -
  have bound: "start + SCAN_CHUNK_SIZE < 2 ^ 32"
    using parse_regions_ok [of maps] assms(1,2) by (simp add: region_ok_def)
  have first: "bytes_chunk w r [b, c] start SCAN_CHUNK_SIZE scan_start
      = Inr (scan_start\<lparr>ss_reads := 1, ss_overlap := [b]\<rparr>)"
    by (simp add: bytes_chunk_def assms(3) Let_def find_all_subslices_def and_then_def scan_start_def)
  have "bytes_chunk w r [b, c] a 1 (scan_start\<lparr>ss_reads := 1, ss_overlap := [b]\<rparr>)
      = Inr (scan_start\<lparr>ss_reads := 2, ss_overlap := [c], ss_matches := [of_nat (a - 1)]\<rparr>)"
    if "read_bytes_at w r (of_nat a) 1 = Inr [c]" "a < 2 ^ 32" for a
    using that by (simp add: bytes_chunk_def Let_def find_all_subslices_def and_then_def scan_start_def
        MAX_SCAN_CANDIDATES_def)
  note second = this [OF assms(4) bound]
  have "scan_region (bytes_chunk w r [b, c]) start stop scan_start
      = Inr (scan_start\<lparr>ss_reads := 2, ss_overlap := [c], ss_matches := [of_nat (start + SCAN_CHUNK_SIZE - 1)]\<rparr>)"
    unfolding assms(2) by (rule scan_region_two_chunks [OF first second])
  moreover have "scan_start\<lparr>ss_overlap := []\<rparr> = scan_start" by (simp add: scan_start_def)
  ultimately show ?thesis
    by (simp add: find_all_writable_bytes_with_reader_def read_regions_def assms(1) and_then_def dedup_def)
qed

section \<open>Witnesses\<close>

definition example_reader :: proc_memory_reader where
  "example_reader = \<lparr>pm_pid = 7, pm_identity = \<lparr>pi_pid = 7, pi_start_time = 99\<rparr>, pm_file = True, pm_mem_open_errno = None\<rparr>"

definition answer_with :: "u8 list \<Rightarrow> mem_answer" where
  "answer_with bytes = \<lparr>ma_first = example_proc, ma_vm = Inr bytes, ma_poisoned = False, ma_second = example_proc,
     ma_read_at = Inl []\<rparr>"

definition image_world :: "(nat \<Rightarrow> u8) \<Rightarrow> mem_world" where
  "image_world mem = (\<lambda>address n. answer_with (image_at mem (unat address) n))"

lemma read_answer_with:
  "w address n = answer_with bytes \<Longrightarrow> read_bytes_at w example_reader address n = Inr (take n bytes)"
  by (simp add: read_bytes_at_def answer_with_def example_reader_def verify_process_identity_def example_capture
      read_via_vm_def Let_def)

lemma image_world_reads: "reads_image (image_world mem) example_reader mem"
proof (unfold reads_image_def, intro allI impI)
  fix a n :: nat assume le: "a + n \<le> 2 ^ 32"
  have "read_bytes_at (image_world mem) example_reader (of_nat a) n = Inr (take n (image_at mem (unat (of_nat a :: u32)) n))"
    by (rule read_answer_with) (simp add: image_world_def)
  also have "\<dots> = Inr (image_at mem a n)"
  proof (cases "n = 0")
    case False with le have "unat (of_nat a :: u32) = a" by (simp only: u32_of_nat_unat) simp
    then show ?thesis by simp
  qed (simp add: image_at_def)
  finally show "read_bytes_at (image_world mem) example_reader (of_nat a) n = Inr (image_at mem a n)" .
qed

lemma example_regions:
  "parse_writable_regions ''1000-1004 rw-p'' = [(4096, 4100)]"
  "parse_writable_regions ''1000-101001 rw-p'' = [(4096, 4096 + SCAN_CHUNK_SIZE + 1)]"
  by (simp_all add: parse_writable_regions_def lines_def List.map_filter_def region_of_line_def words_def is_whitespace_def
      hex_u64_def hex_digit_def hex_value_def Let_def SCAN_CHUNK_SIZE_def)

definition example_bytes :: "nat \<Rightarrow> u8" where
  "example_bytes a = (if a = 4096 then 1 else 0)"

lemma example_image: "image_at example_bytes 4096 4 = [1, 0, 0, 0]" "image_at example_bytes 4096 2 = [1, 0]"
  "[4096..<4099] = [4096, 4097, 4098 :: nat]" "[4096..<4097] = [4096 :: nat]"
  by (simp_all add: image_at_4 image_at_2 example_bytes_def upt_rec)

end
