(* ===== verification/ClientSelection.thy ===== *)
theory ClientSelection
  imports ProcMemory
begin

text \<open>
  The choice of the game client by its memory (\<open>ro-tools-linux/src/resolve_pid.rs\<close>) and the input
  permissions (\<open>input_perms.rs\<close>).

  For every candidate process the outside world is what opening its memory, its maps and the reads answer;
  the last identity check has its own snapshots.
\<close>

section \<open>The best game process\<close>

record probe_world =
  pw_before :: proc_fs
  pw_opened :: "int option option"
  pw_after :: proc_fs
  pw_maps :: "string option"
  pw_memory :: mem_world

definition looks_like_stats :: "u32 \<Rightarrow> u32 \<Rightarrow> bool" where
  "looks_like_stats max_hp max_sp \<longleftrightarrow>
     1000 \<le> max_hp \<and> max_hp \<le> 500000 \<and> 0 < max_sp \<and> max_sp \<le> 100000"

definition show_u32 :: "u32 \<Rightarrow> string" where "show_u32 v = show_nat (unat v)"

definition show_bool :: "bool \<Rightarrow> string" where "show_bool b = (if b then ''true'' else ''false'')"

text \<open>The verdict on one candidate: the reason it is taken for, or \<^const>\<open>None\<close> to go on.\<close>

definition judge_candidate :: "probe_world \<Rightarrow> client_profile \<Rightarrow> game_process_candidate \<Rightarrow> string option" where
  "judge_candidate w profile c =
     (case open_for_identity (pw_before w) (pw_opened w) (pw_after w) (gc_identity c) of
        Inl _ \<Rightarrow> None
      | Inr reader \<Rightarrow>
          let mapped = address_in_maps (pw_maps w) (cp_hp_base profile)
          in case probe_stats (pw_memory w) reader (cp_hp_base profile) of
               Inr (cur_hp, max_hp, cur_sp, max_sp) \<Rightarrow>
                 if looks_like_stats max_hp max_sp then
                   Some (gc_reason c @ '' | map='' @ show_bool mapped @ '' HP='' @ show_u32 cur_hp @ ''/''
                           @ show_u32 max_hp @ '' SP='' @ show_u32 cur_sp @ ''/'' @ show_u32 max_sp)
                 else if 0 < max_hp \<or> 0 < cur_hp then
                   Some (gc_reason c @ '' | map='' @ show_bool mapped @ '' HP='' @ show_u32 cur_hp @ ''/''
                           @ show_u32 max_hp @ '' (parcial)'')
                 else None
             | Inl _ \<Rightarrow>
                 if mapped then
                   Some (gc_reason c @ '' | map=true (lectura fall'' @ [CHR 0xF3] @ '', reintentando)'')
                 else None)"

fun first_judged ::
  "(u32 \<Rightarrow> probe_world) \<Rightarrow> client_profile \<Rightarrow> game_process_candidate list \<Rightarrow> (u32 \<times> string) option" where
  "first_judged worlds profile [] = None"
| "first_judged worlds profile (c # cs) =
     (case judge_candidate (worlds (gc_pid c)) profile c of
        Some reason \<Rightarrow> Some (gc_pid c, reason)
      | None \<Rightarrow> first_judged worlds profile cs)"

definition resolve_best_game_pid ::
  "(text_points \<Rightarrow> text_points option) \<Rightarrow> proc_fs \<Rightarrow> (u32 \<Rightarrow> proc_fs) \<Rightarrow> (u32 \<Rightarrow> probe_world) \<Rightarrow> (u32 \<Rightarrow> proc_fs)
     \<Rightarrow> u32 \<Rightarrow> text_points \<Rightarrow> text_points \<Rightarrow> client_profile \<Rightarrow> (u32 \<times> string) option" where
  "resolve_best_game_pid canon p later worlds final launcher_pid exe_path wine_prefix profile =
     (let candidates = find_game_processes canon p later launcher_pid exe_path (normalize_prefix canon wine_prefix)
      in case first_judged worlds profile candidates of
           Some r \<Rightarrow> Some r
         | None \<Rightarrow>
             map_option (\<lambda>c. (gc_pid c, gc_reason c @ '' (sin validar memoria)''))
               (find (\<lambda>c. verify_process_identity (final (gc_pid c)) (gc_identity c)) candidates))"

section \<open>Input permissions\<close>

record input_perm_status =
  ip_ok :: bool
  ip_warning :: "string option"

definition INPUT_GROUP_HINT :: string where
  "INPUT_GROUP_HINT = ''sudo usermod -aG input $USER y reinicia sesi'' @ [CHR 0xF3] @ ''n''"

definition RELOGIN_HINT :: string where
  "RELOGIN_HINT = ''Est'' @ [CHR 0xE1] @ ''s en el grupo input pero los permisos no aplicaron. Cierra sesi''
     @ [CHR 0xF3] @ ''n y vuelve a entrar.''"

definition current_username :: "string option \<Rightarrow> string option \<Rightarrow> string option" where
  "current_username user logname =
     (case (case user of Some u \<Rightarrow> Some u | None \<Rightarrow> logname) of
        Some name \<Rightarrow> if name = [] then None else Some name
      | None \<Rightarrow> None)"

fun group_lines :: "string \<Rightarrow> string \<Rightarrow> u32 \<Rightarrow> string list \<Rightarrow> bool" where
  "group_lines group_name username primary_gid [] = False"
| "group_lines group_name username primary_gid (line # rest) =
     (let parts = split_on (CHR '':'') line
      in if length parts < 4 \<or> parts ! 0 \<noteq> group_name then group_lines group_name username primary_gid rest
         else if parse_u32 (points (parts ! 2)) = Some primary_gid then True
         else list_ex (\<lambda>member. member \<noteq> [] \<and> member = username) (split_on (CHR '','') (parts ! 3)))"

definition is_member_of_group ::
  "string option \<Rightarrow> string option \<Rightarrow> u32 \<Rightarrow> string \<Rightarrow> bool" where
  "is_member_of_group content username primary_gid group_name =
     (case content of
        None \<Rightarrow> False
      | Some content \<Rightarrow>
          (case username of None \<Rightarrow> False | Some u \<Rightarrow> group_lines group_name u primary_gid (lines content)))"

text \<open>The entries of \<open>/dev/input\<close> come with whether opening them for reading succeeds.\<close>

definition evdev_accessible :: "(string option \<times> bool) list option \<Rightarrow> bool" where
  "evdev_accessible entries =
     (case entries of
        None \<Rightarrow> False
      | Some es \<Rightarrow> list_ex (\<lambda>(name, readable).
          case name of None \<Rightarrow> False | Some n \<Rightarrow> prefix ''event'' n \<and> readable) es)"

definition detect_input_permissions :: "bool \<Rightarrow> bool \<Rightarrow> bool \<Rightarrow> input_perm_status" where
  "detect_input_permissions member uinput evdev =
     (if \<not> member then \<lparr>ip_ok = False, ip_warning = Some INPUT_GROUP_HINT\<rparr>
      else if uinput \<and> evdev then \<lparr>ip_ok = True, ip_warning = None\<rparr>
      else \<lparr>ip_ok = True, ip_warning = Some RELOGIN_HINT\<rparr>)"

definition missing_permissions :: "bool \<Rightarrow> bool \<Rightarrow> string list" where
  "missing_permissions uinput evdev =
     (if uinput then [] else [''/dev/uinput no es escribible'']) @
     (if evdev then [] else [''/dev/input/event* no es legible''])"

definition join_semicolon :: "string list \<Rightarrow> string" where
  "join_semicolon parts = (case parts of [] \<Rightarrow> [] | p # qs \<Rightarrow> p @ concat (map (\<lambda>q. ''; '' @ q) qs))"

definition detect_uinput_permissions :: "bool \<Rightarrow> bool \<Rightarrow> input_perm_status" where
  "detect_uinput_permissions uinput evdev =
     (if uinput \<and> evdev then \<lparr>ip_ok = True, ip_warning = None\<rparr>
      else \<lparr>ip_ok = False,
            ip_warning = Some (''uinput no disponible: '' @ join_semicolon (missing_permissions uinput evdev) @ ''. ''
              @ INPUT_GROUP_HINT)\<rparr>)"

section \<open>Facts\<close>

lemma first_judged_Some:
  "first_judged worlds profile cs = Some (pid, reason) \<Longrightarrow>
     \<exists>ds c es. cs = ds @ c # es \<and> gc_pid c = pid \<and> judge_candidate (worlds pid) profile c = Some reason \<and>
        (\<forall>d\<in>set ds. judge_candidate (worlds (gc_pid d)) profile d = None)"
proof (induction cs)
  case (Cons x xs)
  show ?case
  proof (cases "judge_candidate (worlds (gc_pid x)) profile x")
    case None
    with Cons obtain ds c es where "xs = ds @ c # es" "gc_pid c = pid" "judge_candidate (worlds pid) profile c = Some reason"
      "\<forall>d\<in>set ds. judge_candidate (worlds (gc_pid d)) profile d = None" by auto
    with None show ?thesis by (intro exI [of _ "x # ds"] exI [of _ c] exI [of _ es]) simp
  next
    case (Some r)
    with Cons.prems show ?thesis by (intro exI [of _ "[]"]) simp
  qed
qed simp

lemma find_split:
  "find P xs = Some x \<Longrightarrow> \<exists>ds es. xs = ds @ x # es \<and> P x \<and> (\<forall>d\<in>set ds. \<not> P d)"
proof (induction xs)
  case (Cons y ys)
  show ?case
  proof (cases "P y")
    case True with Cons.prems show ?thesis by (intro exI [of _ "[]"] exI [of _ ys]) simp
  next
    case False
    with Cons obtain ds es where "ys = ds @ x # es" "P x" "\<forall>d\<in>set ds. \<not> P d" by auto
    with False show ?thesis by (intro exI [of _ "y # ds"] exI [of _ es]) simp
  qed
qed simp

lemma judged_verified:
  "judge_candidate w profile c = Some reason \<Longrightarrow>
     verify_process_identity (pw_before w) (gc_identity c) \<and> verify_process_identity (pw_after w) (gc_identity c)"
  by (auto simp: judge_candidate_def open_for_identity_def Let_def split: if_splits sum.splits)

text \<open>The client chosen is a candidate of the process search whose identity was verified around the
  opening of its memory, the first one whose memory speaks for it, or, when none does, the first one
  that still is the process that was found; and there is no choice only when none is.\<close>

theorem best_game_pid_verified:
  assumes "candidates = find_game_processes canon p later launcher exe (normalize_prefix canon wine)"
    and "result = resolve_best_game_pid canon p later worlds final launcher exe wine profile"
  shows "(case result of
      None \<Rightarrow> \<forall>c\<in>set candidates. judge_candidate (worlds (gc_pid c)) profile c = None \<and>
                \<not> verify_process_identity (final (gc_pid c)) (gc_identity c)
    | Some (pid, why) \<Rightarrow> \<exists>ds c es. candidates = ds @ c # es \<and> gc_pid c = pid \<and>
        (judge_candidate (worlds pid) profile c = Some why \<and>
           verify_process_identity (pw_after (worlds pid)) (gc_identity c) \<and>
           (\<forall>d\<in>set ds. judge_candidate (worlds (gc_pid d)) profile d = None) \<or>
         verify_process_identity (final pid) (gc_identity c) \<and>
           (\<forall>d\<in>set candidates. judge_candidate (worlds (gc_pid d)) profile d = None) \<and>
           (\<forall>d\<in>set ds. \<not> verify_process_identity (final (gc_pid d)) (gc_identity d))))"
proof (cases "first_judged worlds profile candidates")
  case (Some r)
  obtain pid why where r: "r = (pid, why)" by force
  with Some have "result = Some (pid, why)" by (simp add: assms resolve_best_game_pid_def)
  moreover from first_judged_Some [OF Some [unfolded r]] obtain ds c es where "candidates = ds @ c # es" "gc_pid c = pid"
    "judge_candidate (worlds pid) profile c = Some why"
    "\<forall>d\<in>set ds. judge_candidate (worlds (gc_pid d)) profile d = None" by auto
  ultimately show ?thesis using judged_verified by (simp, intro exI [of _ ds] exI [of _ c]) auto
next
  case None
  have none: "\<forall>c\<in>set candidates. judge_candidate (worlds (gc_pid c)) profile c = None"
    using None by (induction candidates) (auto split: option.splits)
  let ?found = "find (\<lambda>c. verify_process_identity (final (gc_pid c)) (gc_identity c)) candidates"
  have res: "result = map_option (\<lambda>c. (gc_pid c, gc_reason c @ '' (sin validar memoria)'')) ?found"
    using None by (simp add: assms resolve_best_game_pid_def)
  show ?thesis
  proof (cases ?found)
    case None with none res show ?thesis by (auto simp: find_None_iff)
  next
    case (Some c)
    from find_split [OF Some] obtain ds es where "candidates = ds @ c # es"
      "verify_process_identity (final (gc_pid c)) (gc_identity c)"
      "\<forall>d\<in>set ds. \<not> verify_process_identity (final (gc_pid d)) (gc_identity d)" by auto
    with none res Some show ?thesis by (simp, intro exI [of _ ds] exI [of _ c]) auto
  qed
qed

section \<open>Witness\<close>

definition example_probe :: probe_world where
  "example_probe = \<lparr>pw_before = example_proc, pw_opened = Some None, pw_after = example_proc, pw_maps = None,
     pw_memory = (\<lambda>_ _. answer_with [])\<rparr>"

end
