(* ===== verification/OperationLock.thy ===== *)
theory OperationLock
  imports SessionProtocol Domain
begin

text \<open>
  Operation guards (\<open>src-tauri/src/utils/operation_lock.rs\<close>): exclusive and shared use of a path, within
  one process through a registry behind a mutex and between processes through POSIX record locks.

  The registry and the table of record locks are explicit state.  The answers of the system calls are
  arguments; that a record lock is granted only when no other process holds a conflicting one is a
  premise of the step relation.  Closing a file releases every lock the process has on it, as
  \<open>fcntl\<close> documents.  SHA-256 is an argument; the step relation is that of a set \<open>K\<close> of keys in use.
\<close>

section \<open>State\<close>

record lock_state =
  ls_readers :: nat
  ls_writer :: bool
  ls_cross_process :: "nat option"

record operation_guard =
  og_key :: string
  og_shared :: bool

datatype operation_lock_error = OpBusy string | OpIo string | RegistryPoisoned

datatype cross_process_lock_error = CrossBusy | CrossIo string

datatype lock_type = F_RDLCK | F_WRLCK

type_synonym registry = "string \<rightharpoonup> lock_state"

text \<open>The record locks of the system: for a lock file, what each process holds on it.\<close>

type_synonym record_locks = "string \<Rightarrow> nat \<rightharpoonup> lock_type"

record lock_env =
  le_fs :: file_system
  le_directory :: string
  le_sha256 :: "string \<Rightarrow> u8 list"

text \<open>The answers to one admission: the creation of the lock directory, the descriptor of the opened
  file, and the error codes \<open>fcntl\<close> returns before it returns 0.\<close>

record lock_os =
  lo_create_dir :: "string option"
  lo_open :: "(string, nat) result"
  lo_setlk :: "int list"
  lo_strerror :: "int \<Rightarrow> string"

definition lock_default :: lock_state where
  "lock_default = \<lparr>ls_readers = 0, ls_writer = False, ls_cross_process = None\<rparr>"

definition lock_error_text :: "operation_lock_error \<Rightarrow> string" where
  "lock_error_text e =
     (case e of OpBusy message \<Rightarrow> message | OpIo message \<Rightarrow> message
      | RegistryPoisoned \<Rightarrow> ''El registro de operaciones est'' @ [CHR 0xE1] @ '' bloqueado'')"

section \<open>Keys and lock files\<close>

definition normalize_path :: "file_system \<Rightarrow> string \<Rightarrow> string" where
  "normalize_path fs path =
     (case canonicalize_prefix_path fs (path_of path) of Some p \<Rightarrow> path_display p | None \<Rightarrow> path)"

definition lock_key :: "lock_env \<Rightarrow> string \<Rightarrow> string \<Rightarrow> string" where
  "lock_key env namespace path = namespace @ '':'' @ normalize_path (le_fs env) path"

definition byte_hex :: "u8 \<Rightarrow> string" where
  "byte_hex b = map ascii_lower [hex_char (unat b div 16), hex_char (unat b mod 16)]"

definition lock_file_path :: "lock_env \<Rightarrow> string \<Rightarrow> string" where
  "lock_file_path env key =
     le_directory env @ ''/'' @ concat (map byte_hex (le_sha256 env key)) @ ''.lock''"

section \<open>Record locks\<close>

definition EINTR :: int where "EINTR = 4"
definition EAGAIN :: int where "EAGAIN = 11"
definition EACCES :: int where "EACCES = 13"

definition lock_type_of :: "bool \<Rightarrow> lock_type" where
  "lock_type_of shared = (if shared then F_RDLCK else F_WRLCK)"

text \<open>The retry loop around \<open>fcntl(F_SETLK)\<close>; \<^const>\<open>None\<close> when the lock is granted.\<close>

fun setlk_loop :: "(int \<Rightarrow> string) \<Rightarrow> int list \<Rightarrow> cross_process_lock_error option" where
  "setlk_loop strerror [] = None"
| "setlk_loop strerror (errno # answers) =
     (if errno = EINTR then setlk_loop strerror answers
      else if errno = EACCES \<or> errno = EAGAIN then Some CrossBusy
      else Some (CrossIo (strerror errno)))"

definition close_file :: "nat \<Rightarrow> string \<Rightarrow> record_locks \<Rightarrow> record_locks" where
  "close_file pid file locks = locks(file := (locks file)(pid := None))"

definition grant_lock :: "nat \<Rightarrow> string \<Rightarrow> lock_type \<Rightarrow> record_locks \<Rightarrow> record_locks" where
  "grant_lock pid file t locks = locks(file := (locks file)(pid \<mapsto> t))"

definition lock_across_processes ::
  "lock_env \<Rightarrow> lock_os \<Rightarrow> nat \<Rightarrow> string \<Rightarrow> bool \<Rightarrow> record_locks
     \<Rightarrow> (cross_process_lock_error, nat) result \<times> record_locks" where
  "lock_across_processes env os pid key shared locks =
     (let path = lock_file_path env key
      in case lo_create_dir os of
           Some e \<Rightarrow> (Inl (CrossIo e), locks)
         | None \<Rightarrow>
        case lo_open os of
           Inl e \<Rightarrow> (Inl (CrossIo e), locks)
         | Inr file \<Rightarrow>
        case setlk_loop (lo_strerror os) (lo_setlk os) of
           None \<Rightarrow> (Inr file, grant_lock pid path (lock_type_of shared) locks)
         | Some e \<Rightarrow> (Inl e, close_file pid path locks))"

section \<open>Guards\<close>

definition busy_text :: "string \<Rightarrow> string \<Rightarrow> string" where
  "busy_text namespace path =
     ''Ya hay una operaci'' @ [CHR 0xF3] @ ''n '' @ namespace @ '' en curso para '' @ path"

definition cross_error_of :: "string \<Rightarrow> string \<Rightarrow> cross_process_lock_error \<Rightarrow> operation_lock_error" where
  "cross_error_of namespace path e =
     (case e of
        CrossBusy \<Rightarrow> OpBusy (busy_text namespace path @ '' en otro proceso de RO-Launcher'')
      | CrossIo message \<Rightarrow>
          OpIo (''No se pudo bloquear la operaci'' @ [CHR 0xF3] @ ''n '' @ namespace @ '' para '' @ path
                  @ '': '' @ message))"

text \<open>Removing an entry of the registry drops its file.\<close>

definition remove_entry ::
  "lock_env \<Rightarrow> nat \<Rightarrow> string \<Rightarrow> registry \<times> record_locks \<Rightarrow> registry \<times> record_locks" where
  "remove_entry env pid key = (\<lambda>(operations, locks).
     (operations(key := None),
      case operations key of
        None \<Rightarrow> locks
      | Some active \<Rightarrow>
          if ls_cross_process active = None then locks
          else close_file pid (lock_file_path env key) locks))"

definition admit :: "bool \<Rightarrow> lock_state \<Rightarrow> lock_state" where
  "admit shared active =
     (if shared then active\<lparr>ls_readers := ls_readers active + 1\<rparr> else active\<lparr>ls_writer := True\<rparr>)"

definition acquire_with_mode ::
  "lock_env \<Rightarrow> lock_os \<Rightarrow> nat \<Rightarrow> bool \<Rightarrow> string \<Rightarrow> string \<Rightarrow> bool \<Rightarrow> registry \<times> record_locks
     \<Rightarrow> (operation_lock_error, operation_guard) result \<times> registry \<times> record_locks" where
  "acquire_with_mode env os pid poisoned namespace path shared = (\<lambda>(operations, locks).
     let normalized = normalize_path (le_fs env) path;
         key = lock_key env namespace path;
         active = (case operations key of Some st \<Rightarrow> st | None \<Rightarrow> lock_default);
         operations1 = operations(key \<mapsto> active);
         unavailable = (if shared then ls_writer active else ls_writer active \<or> ls_readers active > 0);
         guard = \<lparr>og_key = key, og_shared = shared\<rparr>
     in if poisoned then (Inl RegistryPoisoned, operations, locks)
        else if unavailable then (Inl (OpBusy (busy_text namespace normalized)), operations1, locks)
        else if ls_cross_process active = None then
          (case lock_across_processes env os pid key shared locks of
             (Inr file, locks1) \<Rightarrow>
               (Inr guard, operations1(key \<mapsto> admit shared (active\<lparr>ls_cross_process := Some file\<rparr>)), locks1)
           | (Inl error, locks1) \<Rightarrow>
               (Inl (cross_error_of namespace normalized error), remove_entry env pid key (operations1, locks1)))
        else (Inr guard, operations1(key \<mapsto> admit shared active), locks))"

definition op_acquire ::
  "lock_env \<Rightarrow> lock_os \<Rightarrow> nat \<Rightarrow> bool \<Rightarrow> string \<Rightarrow> string \<Rightarrow> registry \<times> record_locks
     \<Rightarrow> (string, operation_guard) result \<times> registry \<times> record_locks" where
  "op_acquire env os pid poisoned namespace path st =
     (case acquire_with_mode env os pid poisoned namespace path False st of
        (r, st') \<Rightarrow> (map_err lock_error_text r, st'))"

definition op_acquire_shared ::
  "lock_env \<Rightarrow> lock_os \<Rightarrow> nat \<Rightarrow> bool \<Rightarrow> string \<Rightarrow> string \<Rightarrow> registry \<times> record_locks
     \<Rightarrow> (string, operation_guard) result \<times> registry \<times> record_locks" where
  "op_acquire_shared env os pid poisoned namespace path st =
     (case acquire_with_mode env os pid poisoned namespace path True st of
        (r, st') \<Rightarrow> (map_err lock_error_text r, st'))"

definition op_drop ::
  "lock_env \<Rightarrow> nat \<Rightarrow> bool \<Rightarrow> operation_guard \<Rightarrow> registry \<times> record_locks \<Rightarrow> registry \<times> record_locks" where
  "op_drop env pid poisoned g = (\<lambda>(operations, locks).
     if poisoned then (operations, locks)
     else case operations (og_key g) of
            None \<Rightarrow> (operations, locks)
          | Some active \<Rightarrow>
              let active1 = (if og_shared g then active\<lparr>ls_readers := ls_readers active - 1\<rparr>
                             else active\<lparr>ls_writer := False\<rparr>);
                  operations1 = operations(og_key g \<mapsto> active1)
              in if ls_readers active1 = 0 \<and> \<not> ls_writer active1
                 then remove_entry env pid (og_key g) (operations1, locks)
                 else (operations1, locks))"

text \<open>The bounded wait of \<open>acquire_for\<close>.  Each round comes with the registry and the locks other
  threads and processes have left, the answers of its system calls and the milliseconds elapsed after
  it; the result holds the sleeps made so far, and is \<^const>\<open>None\<close> while the loop still waits.\<close>

record op_round =
  or_os :: lock_os
  or_poisoned :: bool
  or_state :: "registry \<times> record_locks"
  or_elapsed :: nat

fun acquire_for_loop ::
  "lock_env \<Rightarrow> nat \<Rightarrow> string \<Rightarrow> string \<Rightarrow> nat \<Rightarrow> op_round list
     \<Rightarrow> nat list \<times> ((operation_lock_error, operation_guard) result \<times> registry \<times> record_locks) option" where
  "acquire_for_loop env pid namespace path timeout [] = ([], None)"
| "acquire_for_loop env pid namespace path timeout (round # rounds) =
     (case acquire_with_mode env (or_os round) pid (or_poisoned round) namespace path False (or_state round) of
        (Inl (OpBusy message), st) \<Rightarrow>
          let remaining = timeout - or_elapsed round
          in if remaining = 0 then ([], Some (Inl (OpBusy message), st))
             else (case acquire_for_loop env pid namespace path timeout rounds of
                     (sleeps, r) \<Rightarrow> (min remaining 25 # sleeps, r))
      | r \<Rightarrow> ([], Some r))"

section \<open>Several processes\<close>

record op_process =
  opp_registry :: registry
  opp_poisoned :: bool
  opp_guards :: "operation_guard list"

record op_system =
  sy_process :: "nat \<Rightarrow> op_process"
  sy_locks :: record_locks

definition fresh_process :: op_process where
  "fresh_process = \<lparr>opp_registry = Map.empty, opp_poisoned = False, opp_guards = []\<rparr>"

definition op_initial :: op_system where
  "op_initial = \<lparr>sy_process = \<lambda>_. fresh_process, sy_locks = \<lambda>_ _. None\<rparr>"

definition conflicting :: "lock_type \<Rightarrow> lock_type option \<Rightarrow> bool" where
  "conflicting t held \<longleftrightarrow> (case held of None \<Rightarrow> False | Some u \<Rightarrow> t = F_WRLCK \<or> u = F_WRLCK)"

text \<open>What \<open>fcntl\<close> promises: a lock is granted only when no other process holds a conflicting one.\<close>

definition posix_answer :: "lock_env \<Rightarrow> lock_os \<Rightarrow> nat \<Rightarrow> string \<Rightarrow> bool \<Rightarrow> record_locks \<Rightarrow> bool" where
  "posix_answer env os pid key shared locks \<longleftrightarrow>
     (setlk_loop (lo_strerror os) (lo_setlk os) = None \<longrightarrow>
        (\<forall>q. q \<noteq> pid \<longrightarrow> \<not> conflicting (lock_type_of shared) (locks (lock_file_path env key) q)))"

definition after_acquire ::
  "nat \<Rightarrow> (operation_lock_error, operation_guard) result \<times> registry \<times> record_locks \<Rightarrow> op_system \<Rightarrow> op_system" where
  "after_acquire pid = (\<lambda>(r, operations, locks) S.
     let p = sy_process S pid
     in S\<lparr>sy_process := (sy_process S)(pid := p\<lparr>opp_registry := operations,
            opp_guards := (case r of Inl _ \<Rightarrow> opp_guards p | Inr g \<Rightarrow> g # opp_guards p)\<rparr>),
          sy_locks := locks\<rparr>)"

definition after_drop ::
  "nat \<Rightarrow> operation_guard \<Rightarrow> registry \<times> record_locks \<Rightarrow> op_system \<Rightarrow> op_system" where
  "after_drop pid g = (\<lambda>(operations, locks) S.
     let p = sy_process S pid
     in S\<lparr>sy_process := (sy_process S)(pid := p\<lparr>opp_registry := operations,
            opp_guards := remove1 g (opp_guards p)\<rparr>),
          sy_locks := locks\<rparr>)"

text \<open>A panic may poison the mutex, and a process may end at any time: the kernel then releases all
  its record locks.  \<open>K\<close>: the keys that the processes use.\<close>

inductive op_step :: "lock_env \<Rightarrow> string set \<Rightarrow> op_system \<Rightarrow> op_system \<Rightarrow> bool" for env K where
  step_acquire:
    "posix_answer env os pid (lock_key env namespace path) shared (sy_locks S) \<Longrightarrow> lock_key env namespace path \<in> K \<Longrightarrow>
     op_step env K S (after_acquire pid
       (acquire_with_mode env os pid (opp_poisoned (sy_process S pid)) namespace path shared
          (opp_registry (sy_process S pid), sy_locks S)) S)"
| step_drop:
    "g \<in> set (opp_guards (sy_process S pid)) \<Longrightarrow>
     op_step env K S (after_drop pid g
       (op_drop env pid (opp_poisoned (sy_process S pid)) g
          (opp_registry (sy_process S pid), sy_locks S)) S)"
| step_poison:
    "op_step env K S
       (S\<lparr>sy_process := (sy_process S)(pid := (sy_process S pid)\<lparr>opp_poisoned := True\<rparr>)\<rparr>)"
| step_exit:
    "op_step env K S
       (S\<lparr>sy_process := (sy_process S)(pid := fresh_process),
          sy_locks := \<lambda>file. (sy_locks S file)(pid := None)\<rparr>)"

definition op_reachable :: "lock_env \<Rightarrow> string set \<Rightarrow> op_system \<Rightarrow> bool" where
  "op_reachable env K = (op_step env K)\<^sup>*\<^sup>* op_initial"

section \<open>The invariant\<close>

definition live :: "string \<Rightarrow> bool \<Rightarrow> operation_guard list \<Rightarrow> nat" where
  "live key shared gs = length (filter (\<lambda>g. og_key g = key \<and> og_shared g = shared) gs)"

text \<open>An entry counts the live guards of its key (at least them, once the mutex is poisoned), and the
  record lock held is the one these guards need.\<close>

definition entry_ok :: "bool \<Rightarrow> nat \<Rightarrow> nat \<Rightarrow> lock_state option \<Rightarrow> lock_type option \<Rightarrow> bool" where
  "entry_ok poisoned shared exclusive entry held \<longleftrightarrow>
     (case entry of
        None \<Rightarrow> shared = 0 \<and> exclusive = 0 \<and> held = None
      | Some st \<Rightarrow>
          ls_cross_process st \<noteq> None \<and>
          (if ls_writer st then ls_readers st = 0 \<and> held = Some F_WRLCK
           else 0 < ls_readers st \<and> held = Some F_RDLCK) \<and>
          shared \<le> ls_readers st \<and> exclusive \<le> of_bool (ls_writer st) \<and>
          (\<not> poisoned \<longrightarrow> shared = ls_readers st \<and> exclusive = of_bool (ls_writer st)))"

definition process_ok :: "lock_env \<Rightarrow> string set \<Rightarrow> nat \<Rightarrow> op_process \<Rightarrow> record_locks \<Rightarrow> bool" where
  "process_ok env K pid p locks \<longleftrightarrow>
     (\<forall>k\<in>K. entry_ok (opp_poisoned p) (live k True (opp_guards p)) (live k False (opp_guards p))
            (opp_registry p k) (locks (lock_file_path env k) pid)) \<and>
     (\<forall>k. k \<notin> K \<longrightarrow> opp_registry p k = None) \<and> og_key ` set (opp_guards p) \<subseteq> K"

definition locks_compatible :: "record_locks \<Rightarrow> bool" where
  "locks_compatible locks \<longleftrightarrow>
     (\<forall>file p q t. p \<noteq> q \<longrightarrow> locks file p = Some t \<longrightarrow> \<not> conflicting t (locks file q))"

definition op_inv :: "lock_env \<Rightarrow> string set \<Rightarrow> op_system \<Rightarrow> bool" where
  "op_inv env K S \<longleftrightarrow>
     (inj_on (lock_file_path env) K \<longrightarrow>
        (\<forall>pid. process_ok env K pid (sy_process S pid) (sy_locks S)) \<and> locks_compatible (sy_locks S))"

lemma live_simps [simp]:
  "live k sh [] = 0"
  "live k sh (g # gs) = of_bool (og_key g = k \<and> og_shared g = sh) + live k sh gs"
  by (simp_all add: live_def)

lemma live_remove1:
  "g \<in> set gs \<Longrightarrow> live k sh (remove1 g gs) = live k sh gs - of_bool (og_key g = k \<and> og_shared g = sh)"
  by (induction gs) (auto simp: live_def length_remove1 filter_remove1)

lemma live_pos: "g \<in> set gs \<Longrightarrow> 0 < live (og_key g) (og_shared g) gs"
  by (auto simp: live_def filter_empty_conv)

lemma file_frame [simp]:
  "close_file pid file locks f q = (if f = file \<and> q = pid then None else locks f q)"
  "grant_lock pid file t locks f q = (if f = file \<and> q = pid then Some t else locks f q)"
  by (simp_all add: close_file_def grant_lock_def)

lemmas acquire_defs = acquire_with_mode_def lock_across_processes_def remove_entry_def Let_def

lemma acquire_frame:
  assumes "acquire_with_mode env os pid poisoned ns path shared (ops, locks) = (r, ops', locks')"
  shows "k \<noteq> lock_key env ns path \<Longrightarrow> ops' k = ops k"
    and "f \<noteq> lock_file_path env (lock_key env ns path) \<or> q \<noteq> pid \<Longrightarrow> locks' f q = locks f q"
    and "r = Inr g \<Longrightarrow> g = \<lparr>og_key = lock_key env ns path, og_shared = shared\<rparr>"
  using assms by (auto simp: acquire_defs split: if_splits option.splits sum.splits)

text \<open>Admission at its own key.\<close>

lemma acquire_entry:
  assumes "acquire_with_mode env os pid poisoned ns path shared (ops, locks) = (r, ops', locks')"
    and "entry_ok poisoned s x (ops key) (locks (lock_file_path env key) pid)"
    and "key = lock_key env ns path"
  shows "entry_ok poisoned (s + of_bool (is_ok r \<and> shared)) (x + of_bool (is_ok r \<and> \<not> shared))
      (ops' key) (locks' (lock_file_path env key) pid)"
  using assms
  by (cases "ops key")
    (auto simp: acquire_defs entry_ok_def is_ok_def lock_default_def admit_def lock_type_of_def
      split: if_splits option.splits sum.splits)

lemma drop_frame:
  assumes "op_drop env pid poisoned g (ops, locks) = (ops', locks')"
  shows "k \<noteq> og_key g \<Longrightarrow> ops' k = ops k"
    and "f \<noteq> lock_file_path env (og_key g) \<or> q \<noteq> pid \<Longrightarrow> locks' f q = locks f q"
    and "locks' f q = locks f q \<or> locks' f q = None"
  using assms by (auto simp: op_drop_def remove_entry_def Let_def split: if_splits option.splits)

lemma drop_entry:
  assumes "op_drop env pid poisoned g (ops, locks) = (ops', locks')"
    and "entry_ok poisoned s x (ops (og_key g)) (locks (lock_file_path env (og_key g)) pid)"
    and "if og_shared g then 0 < s else 0 < x"
  shows "entry_ok poisoned (s - of_bool (og_shared g)) (x - of_bool (\<not> og_shared g))
      (ops' (og_key g)) (locks' (lock_file_path env (og_key g)) pid)"
  using assms
  by (cases "ops (og_key g)")
    (auto simp: op_drop_def remove_entry_def entry_ok_def Let_def split: if_splits)

section \<open>Preservation\<close>

lemma conflicting_sym: "conflicting t (Some u) \<longleftrightarrow> conflicting u (Some t)"
  by (auto simp: conflicting_def)

lemma locks_compatible_update:
  assumes "locks_compatible locks"
    and "\<And>f q. f \<noteq> file \<or> q \<noteq> pid \<Longrightarrow> locks' f q = locks f q"
    and "locks' file pid = locks file pid \<or> locks' file pid = None \<or>
      (\<exists>t. locks' file pid = Some t \<and> (\<forall>q. q \<noteq> pid \<longrightarrow> \<not> conflicting t (locks file q)))"
  shows "locks_compatible locks'"
proof (unfold locks_compatible_def, intro allI impI)
  fix f p q t assume *: "p \<noteq> q" "locks' f p = Some t"
  show "\<not> conflicting t (locks' f q)"
  proof (cases "f = file \<and> (p = pid \<or> q = pid)")
    case False
    with * assms show ?thesis by (metis locks_compatible_def)
  next
    case True
    then have f: "f = file" by simp
    show ?thesis
    proof (cases "locks' f q")
      case None then show ?thesis by (simp add: conflicting_def)
    next
      case (Some u)
      with * True assms show ?thesis
        unfolding f locks_compatible_def by (metis conflicting_sym option.distinct(1) option.inject)
    qed
  qed
qed

lemma acquire_lock_change:
  assumes "acquire_with_mode env os pid poisoned ns path shared (ops, locks) = (r, ops', locks')"
    and "posix_answer env os pid (lock_key env ns path) shared locks"
    and "file = lock_file_path env (lock_key env ns path)"
  shows "locks' file pid = locks file pid \<or> locks' file pid = None \<or>
      (\<exists>t. locks' file pid = Some t \<and> (\<forall>q. q \<noteq> pid \<longrightarrow> \<not> conflicting t (locks file q)))"
  using assms by (auto simp: acquire_defs posix_answer_def split: if_splits option.splits sum.splits)

lemma process_ok_frame:
  assumes "\<And>f. locks' f pid = locks f pid"
  shows "process_ok env K pid p locks' = process_ok env K pid p locks"
  by (simp add: process_ok_def assms)

lemma process_ok_update:
  assumes "process_ok env K pid p locks" and "inj_on (lock_file_path env) K" and "key \<in> K"
    and "\<And>k. k \<noteq> key \<Longrightarrow> ops' k = opp_registry p k"
    and "\<And>f. f \<noteq> lock_file_path env key \<Longrightarrow> locks' f pid = locks f pid"
    and "\<And>k sh. k \<noteq> key \<Longrightarrow> live k sh gs' = live k sh (opp_guards p)"
    and "og_key ` set gs' \<subseteq> K"
    and "entry_ok (opp_poisoned p) (live key True gs') (live key False gs') (ops' key)
           (locks' (lock_file_path env key) pid)"
  shows "process_ok env K pid (p\<lparr>opp_registry := ops', opp_guards := gs'\<rparr>) locks'"
proof -
  have "entry_ok (opp_poisoned p) (live k True gs') (live k False gs') (ops' k) (locks' (lock_file_path env k) pid)" if "k \<in> K" for k
  proof (cases "k = key")
    case True with assms(8) show ?thesis by simp
  next
    case False
    with assms(2,3) that have "lock_file_path env k \<noteq> lock_file_path env key" by (metis inj_onD)
    with False that assms(1,4-6) show ?thesis by (simp add: process_ok_def)
  qed
  moreover have "ops' k = None" if "k \<notin> K" for k
    using that assms(1,3) assms(4) [of k] by (auto simp: process_ok_def)
  ultimately show ?thesis using assms(7) by (simp add: process_ok_def)
qed

lemma step_acquire_ok:
  assumes "inj_on (lock_file_path env) K" and "process_ok env K pid p locks" and "lock_key env ns path \<in> K"
    and "acquire_with_mode env os pid (opp_poisoned p) ns path shared (opp_registry p, locks) = (r, ops', locks')"
  shows "process_ok env K pid
    (p\<lparr>opp_registry := ops', opp_guards := (case r of Inl _ \<Rightarrow> opp_guards p | Inr g \<Rightarrow> g # opp_guards p)\<rparr>) locks'"
proof (rule process_ok_update [OF assms(2,1,3)])
  show "ops' k = opp_registry p k" if "k \<noteq> lock_key env ns path" for k
    using acquire_frame(1) [OF assms(4)] that .
  show "locks' f pid = locks f pid" if "f \<noteq> lock_file_path env (lock_key env ns path)" for f
    using acquire_frame(2) [OF assms(4)] that by blast
  show "live k sh (case r of Inl _ \<Rightarrow> opp_guards p | Inr g \<Rightarrow> g # opp_guards p) = live k sh (opp_guards p)"
    if "k \<noteq> lock_key env ns path" for k sh
    using acquire_frame(3) [OF assms(4)] that by (auto split: sum.splits)
  show "og_key ` set (case r of Inl _ \<Rightarrow> opp_guards p | Inr g \<Rightarrow> g # opp_guards p) \<subseteq> K"
    using acquire_frame(3) [OF assms(4)] assms(2,3) by (auto simp: process_ok_def split: sum.splits)
  from assms(2,3) have "entry_ok (opp_poisoned p) (live k True (opp_guards p)) (live k False (opp_guards p))
      (opp_registry p k) (locks (lock_file_path env k) pid)" if "k = lock_key env ns path" for k
    using that by (simp add: process_ok_def)
  from acquire_entry [OF assms(4) this [OF refl] refl]
  show "entry_ok (opp_poisoned p)
      (live (lock_key env ns path) True (case r of Inl _ \<Rightarrow> opp_guards p | Inr g \<Rightarrow> g # opp_guards p))
      (live (lock_key env ns path) False (case r of Inl _ \<Rightarrow> opp_guards p | Inr g \<Rightarrow> g # opp_guards p))
      (ops' (lock_key env ns path)) (locks' (lock_file_path env (lock_key env ns path)) pid)"
    using acquire_frame(3) [OF assms(4)] by (cases r) (auto simp: is_ok_def add.commute)
qed

lemma step_drop_ok:
  assumes "inj_on (lock_file_path env) K" and "process_ok env K pid p locks" and "g \<in> set (opp_guards p)"
    and "op_drop env pid (opp_poisoned p) g (opp_registry p, locks) = (ops', locks')"
  shows "process_ok env K pid (p\<lparr>opp_registry := ops', opp_guards := remove1 g (opp_guards p)\<rparr>) locks'"
proof (rule process_ok_update [OF assms(2,1), where key = "og_key g"])
  show key: "og_key g \<in> K" using assms(2,3) by (auto simp: process_ok_def)
  show "og_key ` set (remove1 g (opp_guards p)) \<subseteq> K" 
  proof -
    have "og_key ` set (opp_guards p) \<subseteq> K" using assms(2) by (simp add: process_ok_def)
    then show ?thesis using set_remove1_subset [of g "opp_guards p"] by blast
  qed
  show "ops' k = opp_registry p k" if "k \<noteq> og_key g" for k
    using drop_frame(1) [OF assms(4)] that .
  show "locks' f pid = locks f pid" if "f \<noteq> lock_file_path env (og_key g)" for f
    using drop_frame(2) [OF assms(4)] that by blast
  show "live k sh (remove1 g (opp_guards p)) = live k sh (opp_guards p)" if "k \<noteq> og_key g" for k sh
    using that by (simp add: live_remove1 [OF assms(3)])
  from assms(2,3) have "entry_ok (opp_poisoned p) (live k True (opp_guards p)) (live k False (opp_guards p))
      (opp_registry p k) (locks (lock_file_path env k) pid)" if "k = og_key g" for k
    using that by (auto simp: process_ok_def)
  from drop_entry [OF assms(4) this [OF refl]] live_pos [OF assms(3)]
  show "entry_ok (opp_poisoned p) (live (og_key g) True (remove1 g (opp_guards p)))
      (live (og_key g) False (remove1 g (opp_guards p))) (ops' (og_key g))
      (locks' (lock_file_path env (og_key g)) pid)"
    by (cases "og_shared g") (simp_all add: live_remove1 [OF assms(3)])
qed

lemma entry_ok_poison: "entry_ok poisoned s x entry held \<Longrightarrow> entry_ok True s x entry held"
  by (auto simp: entry_ok_def split: option.splits)

lemma fresh_ok: "entry_ok (opp_poisoned fresh_process) (live k True (opp_guards fresh_process))
    (live k False (opp_guards fresh_process)) (opp_registry fresh_process k) None"
  by (simp add: entry_ok_def fresh_process_def)

lemma step_inv:
  assumes "op_step env K S T" and "op_inv env K S"
  shows "op_inv env K T"
  unfolding op_inv_def
proof
  assume inj: "inj_on (lock_file_path env) K"
  with assms(2) have ok: "process_ok env K q (sy_process S q) (sy_locks S)" and lc: "locks_compatible (sy_locks S)" for q
    by (auto simp: op_inv_def)
  from assms(1)
  show "(\<forall>pid. process_ok env K pid (sy_process T pid) (sy_locks T)) \<and> locks_compatible (sy_locks T)"
  proof cases
    case (step_acquire os pid namespace path shared)
    obtain r ops' locks' where acq: "acquire_with_mode env os pid (opp_poisoned (sy_process S pid)) namespace path shared
        (opp_registry (sy_process S pid), sy_locks S) = (r, ops', locks')"
      by (metis prod_cases3)
    from step_acquire_ok [OF inj ok step_acquire(3) acq] process_ok_frame acquire_frame(2) [OF acq] ok
    have "process_ok env K q (sy_process T q) locks'" for q
      unfolding step_acquire(1) acq by (auto simp: after_acquire_def Let_def process_ok_def)
    moreover have "locks_compatible locks'"
      using locks_compatible_update [OF lc acquire_frame(2) [OF acq] acquire_lock_change [OF acq step_acquire(2) refl]] .
    ultimately show ?thesis unfolding step_acquire(1) acq by (simp add: after_acquire_def Let_def)
  next
    case (step_drop g pid)
    obtain ops' locks' where drop: "op_drop env pid (opp_poisoned (sy_process S pid)) g
        (opp_registry (sy_process S pid), sy_locks S) = (ops', locks')"
      by (metis prod.exhaust)
    from step_drop_ok [OF inj ok step_drop(2) drop] drop_frame(2) [OF drop] ok
    have "process_ok env K q (sy_process T q) locks'" for q
      unfolding step_drop(1) drop by (auto simp: after_drop_def Let_def process_ok_def)
    moreover have "locks_compatible locks'"
      using locks_compatible_update [OF lc drop_frame(2) [OF drop]] drop_frame(3) [OF drop] by blast
    ultimately show ?thesis unfolding step_drop(1) drop by (simp add: after_drop_def Let_def)
  next
    case (step_poison pid)
    have e: "entry_ok (opp_poisoned (sy_process S q)) (live k True (opp_guards (sy_process S q)))
        (live k False (opp_guards (sy_process S q))) (opp_registry (sy_process S q) k)
        (sy_locks S (lock_file_path env k) q)" if "k \<in> K" for q k
      using ok that by (simp add: process_ok_def)
    with lc ok show ?thesis unfolding step_poison by (auto simp: process_ok_def intro: entry_ok_poison [OF e])
  next
    case (step_exit pid)
    have "locks_compatible (sy_locks T)"
      using lc unfolding step_exit by (auto simp: locks_compatible_def conflicting_def split: option.splits)
    with ok fresh_ok show ?thesis unfolding step_exit by (auto simp: process_ok_def fresh_process_def)
  qed
qed

lemma op_inv_initial: "op_inv env K op_initial"
  by (simp add: op_inv_def op_initial_def process_ok_def entry_ok_def fresh_process_def
      locks_compatible_def)

interpretation op_locks: guarded_machine "op_reachable env K" "op_step env K" "op_inv env K" for env K
proof
  show "op_inv env K S" if "op_reachable env K S" for S
    using that unfolding op_reachable_def
    by (induction rule: rtranclp_induct) (auto intro: op_inv_initial step_inv)
  show "op_reachable env K T" if "op_reachable env K S" "op_step env K S T" for S T
    using that unfolding op_reachable_def by (rule rtranclp.rtrancl_into_rtrancl)
qed

section \<open>A readers-writer lock over processes\<close>

text \<open>What the guards promise, without registry or record locks: a guard is given only when it conflicts
  with no live guard of any process.\<close>

inductive rw_step :: "(nat \<Rightarrow> operation_guard list) \<Rightarrow> (nat \<Rightarrow> operation_guard list) \<Rightarrow> bool" where
  rw_acquire:
    "(\<And>q h. h \<in> set (G q) \<Longrightarrow> og_key h = og_key g \<Longrightarrow> og_shared h \<and> og_shared g) \<Longrightarrow>
     rw_step G (G(p := g # G p))"
| rw_release: "g \<in> set (G p) \<Longrightarrow> rw_step G (G(p := remove1 g (G p)))"
| rw_exit: "rw_step G (G(p := []))"

definition guards_of :: "op_system \<Rightarrow> nat \<Rightarrow> operation_guard list" where
  "guards_of S pid = opp_guards (sy_process S pid)"

definition rw_exclusive :: "(nat \<Rightarrow> operation_guard list) \<Rightarrow> bool" where
  "rw_exclusive G \<longleftrightarrow>
     (\<forall>p q g. g \<in> set (G p) \<longrightarrow> \<not> og_shared g \<longrightarrow>
        filter (\<lambda>h. og_key h = og_key g) (G q) = (if q = p then [g] else []))"

lemma filter_single:
  assumes "filter P (g # gs) = [h]" and "P g" shows "filter P gs = []" "h = g"
  using assms by simp_all

lemma rw_step_exclusive:
  assumes "rw_step G H" and "rw_exclusive G"
  shows "rw_exclusive H"
  using assms
proof cases
  case (rw_acquire g p)
  show ?thesis unfolding rw_exclusive_def
  proof (intro allI impI)
    fix p' q x assume x: "x \<in> set (H p')" "\<not> og_shared x"
    show "filter (\<lambda>h. og_key h = og_key x) (H q) = (if q = p' then [x] else [])"
    proof (cases "x \<in> set (G p')")
      case True
      with rw_acquire(2) x have "og_key x \<noteq> og_key g" by blast
      with True x assms(2) show ?thesis by (auto simp: rw_acquire(1) rw_exclusive_def)
    next
      case False
      with x rw_acquire(1) have "x = g" "p' = p" by (auto split: if_splits)
      with x rw_acquire(2) have "filter (\<lambda>h. og_key h = og_key x) (G q) = []" for q
        by (fastforce simp: filter_empty_conv)
      then show ?thesis using \<open>x = g\<close> \<open>p' = p\<close> by (simp add: rw_acquire(1))
    qed
  qed
next
  case (rw_release g p)
  show ?thesis unfolding rw_exclusive_def
  proof (intro allI impI)
    fix p' q x assume x: "x \<in> set (H p')" "\<not> og_shared x"
    then have "x \<in> set (G p')" by (auto simp: rw_release(1) split: if_splits dest: subsetD [OF set_remove1_subset])
    with x assms(2) have ex: "filter (\<lambda>h. og_key h = og_key x) (G q) = (if q = p' then [x] else [])" for q
      by (simp add: rw_exclusive_def)
    have "og_key g \<noteq> og_key x" if "p' = p"
    proof
      assume k: "og_key g = og_key x"
      with rw_release(2) that have "g \<in> set (filter (\<lambda>h. og_key h = og_key x) (G p'))" by simp
      with ex have "g = x" by (simp split: if_splits)
      with x that rw_release(1) have "x \<in> set (filter (\<lambda>h. og_key h = og_key x) (remove1 x (G p')))" by simp
      then show False by (simp add: filter_remove1 ex)
    qed
    then have "p' = p \<Longrightarrow> x \<noteq> g" by auto
    then show "filter (\<lambda>h. og_key h = og_key x) (H q) = (if q = p' then [x] else [])"
      by (auto simp: rw_release(1) filter_remove1 ex)
  qed
next
  case (rw_exit p)
  with assms(2) show ?thesis by (auto simp: rw_exclusive_def)
qed

text \<open>In the implementation, conflicting guards are excluded by the entry of the registry within a process
  and by the record locks between processes.\<close>

lemma inv_no_conflict:
  assumes "op_inv env K S" "inj_on (lock_file_path env) K"
    and "g \<in> set (guards_of S p)" "h \<in> set (guards_of S q)" "og_key h = og_key g" "\<not> og_shared g"
  shows "p = q" "live (og_key g) True (guards_of S p) = 0" "live (og_key g) False (guards_of S p) = 1"
proof -
  let ?e = "\<lambda>r. entry_ok (opp_poisoned (sy_process S r)) (live (og_key g) True (guards_of S r))
      (live (og_key g) False (guards_of S r)) (opp_registry (sy_process S r) (og_key g))
      (sy_locks S (lock_file_path env (og_key g)) r)"
  have "og_key g \<in> K" using assms(1-3) by (auto simp: op_inv_def process_ok_def guards_of_def)
  then have e: "?e r" for r using assms(1,2) by (simp add: op_inv_def process_ok_def guards_of_def)
  have lg: "0 < live (og_key g) False (guards_of S p)" using live_pos [OF assms(3)] assms(6) by simp
  with e [of p] show "live (og_key g) True (guards_of S p) = 0" "live (og_key g) False (guards_of S p) = 1"
    by (auto simp: entry_ok_def split: option.splits if_splits)
  from e [of p] lg have "sy_locks S (lock_file_path env (og_key g)) p = Some F_WRLCK"
    by (auto simp: entry_ok_def split: option.splits if_splits)
  moreover have "sy_locks S (lock_file_path env (og_key g)) q \<noteq> None"
    using e [of q] live_pos [OF assms(4)] assms(5)
    by (cases "og_shared h") (auto simp: entry_ok_def split: option.splits if_splits)
  moreover have "locks_compatible (sy_locks S)" using assms(1,2) by (simp add: op_inv_def)
  ultimately have "p \<noteq> q \<Longrightarrow> \<not> conflicting F_WRLCK (sy_locks S (lock_file_path env (og_key g)) q)"
    by (simp add: locks_compatible_def)
  with \<open>sy_locks S (lock_file_path env (og_key g)) q \<noteq> None\<close> show "p = q"
    by (cases "p = q") (auto simp: conflicting_def)
qed

lemma guards_of_after [simp]:
  "guards_of (after_acquire pid (r, ops, locks) S) =
     (guards_of S)(pid := (case r of Inl _ \<Rightarrow> guards_of S pid | Inr g \<Rightarrow> g # guards_of S pid))"
  "guards_of (after_drop pid g (ops, locks) S) = (guards_of S)(pid := remove1 g (guards_of S pid))"
  "guards_of (S\<lparr>sy_process := (sy_process S)(pid := p)\<rparr>) = (guards_of S)(pid := opp_guards p)"
  "guards_of (S\<lparr>sy_locks := locks\<rparr>) = guards_of S"
  by (auto simp: fun_eq_iff guards_of_def after_acquire_def after_drop_def Let_def split: sum.splits)

lemma step_refines:
  assumes "op_inv env K S" "inj_on (lock_file_path env) K" "op_step env K S T"
  shows "guards_of T = guards_of S \<or> rw_step (guards_of S) (guards_of T)"
  using assms(3)
proof cases
  case (step_acquire os pid namespace path shared)
  have inv: "op_inv env K T" by (rule step_inv [OF assms(3,1)])
  obtain r ops' locks' where acq: "acquire_with_mode env os pid (opp_poisoned (sy_process S pid)) namespace path shared
      (opp_registry (sy_process S pid), sy_locks S) = (r, ops', locks')"
    by (metis prod_cases3)
  show ?thesis
  proof (cases r)
    case Inl then show ?thesis unfolding step_acquire(1) acq by simp
  next
    case (Inr g)
    with step_acquire(1) acq have T: "guards_of T = (guards_of S)(pid := g # guards_of S pid)" by simp
    then have g: "g \<in> set (guards_of T pid)" by simp
    have "rw_step (guards_of S) ((guards_of S)(pid := g # guards_of S pid))"
    proof (rule rw_acquire)
      fix q h assume h: "h \<in> set (guards_of S q)" "og_key h = og_key g"
      with T have hT: "h \<in> set (guards_of T q)" by auto
      show "og_shared h \<and> og_shared g"
      proof (rule ccontr)
        assume "\<not> (og_shared h \<and> og_shared g)"
        then have "q = pid \<and> live (og_key g) True (guards_of T pid) = 0 \<and> live (og_key g) False (guards_of T pid) = 1"
          using inv_no_conflict [OF inv assms(2) g hT h(2)] inv_no_conflict [OF inv assms(2) hT g h(2) [symmetric]] h(2)
          by (cases "og_shared g") auto
        moreover from this h have "0 < live (og_key g) (og_shared h) (guards_of S pid)"
          using live_pos [of h "guards_of S pid"] by simp
        ultimately show False
          using T by (cases "og_shared h"; cases "og_shared g") simp_all
      qed
    qed
    with T show ?thesis by simp
  qed
next
  case (step_drop g pid)
  then show ?thesis
    using rw_release [of g "guards_of S" pid]
    by (cases "op_drop env pid (opp_poisoned (sy_process S pid)) g (opp_registry (sy_process S pid), sy_locks S)")
      (simp add: guards_of_def)
next
  case (step_poison pid)
  then show ?thesis by (auto simp: guards_of_def fun_eq_iff)
next
  case (step_exit pid)
  then show ?thesis using rw_exit [of "guards_of S" pid] by (simp add: fresh_process_def)
qed

interpretation op_rw: refined_machine
  "\<lambda>S. inj_on (lock_file_path env) K \<and> op_reachable env K S" "op_step env K" "op_inv env K" rw_step guards_of for env K
  by unfold_locales (use op_locks.reach_inv op_locks.reach_step step_refines in blast)+

section \<open>Lock files of different keys differ\<close>

lemma hex_digit_lower [simp]: "d < 16 \<Longrightarrow> hex_digit (ascii_lower (hex_char d)) = Some d"
  by (auto simp: hex_digit_def hex_char_def ascii_lower_def Let_def)

lemma byte_hex_inj: "byte_hex b = byte_hex c \<Longrightarrow> b = c"
proof -
  assume "byte_hex b = byte_hex c"
  then have "hex_digit (ascii_lower (hex_char (unat b div 16))) = hex_digit (ascii_lower (hex_char (unat c div 16)))"
    "hex_digit (ascii_lower (hex_char (unat b mod 16))) = hex_digit (ascii_lower (hex_char (unat c mod 16)))"
    by (simp_all add: byte_hex_def)
  moreover have "unat b div 16 < 16" "unat c div 16 < 16"
    using unsigned_less [of b, where ?'a = nat] unsigned_less [of c, where ?'a = nat] by auto
  ultimately have "unat b div 16 = unat c div 16" "unat b mod 16 = unat c mod 16" by simp_all
  then have "unat b = unat c" by (metis div_mult_mod_eq)
  then show ?thesis by (simp add: word_unat_eq_iff)
qed

lemma concat_byte_hex_inj: "concat (map byte_hex xs) = concat (map byte_hex ys) \<Longrightarrow> xs = ys"
proof (induction xs arbitrary: ys)
  case Nil then show ?case by (cases ys) (auto simp: byte_hex_def)
next
  case (Cons x xs)
  then obtain y zs where "ys = y # zs" by (cases ys) (auto simp: byte_hex_def)
  with Cons show ?case using byte_hex_inj [of x y] by (auto simp: byte_hex_def)
qed

lemma lock_file_path_inj: "inj_on (le_sha256 env) K \<Longrightarrow> inj_on (lock_file_path env) K"
  by (rule inj_onI) (auto simp: lock_file_path_def dest: concat_byte_hex_inj inj_onD)

section \<open>Guarantees\<close>

lemma initial_reachable: "op_reachable env K op_initial"
  by (simp add: op_reachable_def)

lemma guards_of_initial: "guards_of op_initial = (\<lambda>_. [])"
  by (simp add: fun_eq_iff guards_of_def op_initial_def fresh_process_def)

lemma reachable_guards:
  assumes "inj_on (le_sha256 env) K" "op_reachable env K S"
  shows "rw_step\<^sup>*\<^sup>* (\<lambda>_. []) (guards_of S)"
  using op_rw.run_spec [of env K op_initial S] assms lock_file_path_inj initial_reachable
  by (simp add: op_reachable_def guards_of_initial)

lemma rw_run_exclusive: "rw_step\<^sup>*\<^sup>* (\<lambda>_. []) G \<Longrightarrow> rw_exclusive G"
proof (induction rule: rtranclp_induct)
  case base show ?case by (simp add: rw_exclusive_def)
next
  case step then show ?case by (blast intro: rw_step_exclusive)
qed

lemma close_file_idem: "locks file pid = None \<Longrightarrow> close_file pid file locks = locks"
  by (simp add: close_file_def fun_upd_idem)

lemma reachable_entry:
  assumes "inj_on (le_sha256 env) K" "op_reachable env K S" "k \<in> K"
  shows "entry_ok (opp_poisoned (sy_process S pid)) (live k True (guards_of S pid)) (live k False (guards_of S pid))
    (opp_registry (sy_process S pid) k) (sy_locks S (lock_file_path env k) pid)"
  using op_locks.reach_inv [OF assms(2)] lock_file_path_inj [OF assms(1)] assms(3)
  by (simp add: op_inv_def process_ok_def guards_of_def)

text \<open>C5: the registries and record locks of all launcher processes together implement one
  readers-writer lock per key, provided that the SHA-256 digests of the keys in use (the set \<open>K\<close>) differ: every run of
  admissions of keys in \<open>K\<close>, drops, poisonings and process exits gives guards only as the specification \<open>rw_step\<close>
  allows; and a live exclusive guard is the only guard of its key in any process.\<close>

theorem operation_guards_exclusive:
  assumes "inj_on (le_sha256 env) K" "op_reachable env K S"
  shows "rw_step\<^sup>*\<^sup>* (\<lambda>_. []) (guards_of S) \<and>
    (\<forall>p q. \<forall>g\<in>set (guards_of S p). \<not> og_shared g \<longrightarrow>
      filter (\<lambda>h. og_key h = og_key g) (guards_of S q) = (if q = p then [g] else []))"
  using reachable_guards [OF assms] rw_run_exclusive [OF reachable_guards [OF assms]]
  by (simp add: rw_exclusive_def)

text \<open>While its mutex is not poisoned, a process has an entry, an open lock file and a record lock for
  exactly the keys with a live guard: the entry counts the readers, marks the writer, and the record
  lock is a write lock for the writer and a read lock for readers.  In particular a released guard
  blocks nobody.\<close>

theorem operation_registry_exact:
  assumes "inj_on (le_sha256 env) K" "op_reachable env K S" "k \<in> K" "\<not> opp_poisoned (sy_process S pid)"
  shows "case opp_registry (sy_process S pid) k of
      None \<Rightarrow> filter (\<lambda>g. og_key g = k) (guards_of S pid) = [] \<and> sy_locks S (lock_file_path env k) pid = None
    | Some st \<Rightarrow>
        ls_cross_process st \<noteq> None \<and> ls_readers st = live k True (guards_of S pid) \<and>
        live k False (guards_of S pid) = of_bool (ls_writer st) \<and> (ls_writer st \<longleftrightarrow> ls_readers st = 0) \<and>
        sy_locks S (lock_file_path env k) pid = Some (if ls_writer st then F_WRLCK else F_RDLCK)"
  using reachable_entry [OF assms(1,2,3), of pid] assms(4)
  by (fastforce simp: entry_ok_def live_def filter_empty_conv split: option.splits if_splits)

definition os_grants :: "lock_os \<Rightarrow> bool" where
  "os_grants os \<longleftrightarrow> lo_create_dir os = None \<and> is_ok (lo_open os) \<and> setlk_loop (lo_strerror os) (lo_setlk os) = None"

lemma lock_across_ok: "is_ok (fst (lock_across_processes env os pid key shared locks)) = os_grants os"
  by (auto simp: lock_across_processes_def os_grants_def is_ok_def Let_def split: option.splits sum.splits)

text \<open>An admission succeeds exactly when the mutex is sound, no live guard of the process conflicts,
  and either the process already has a guard of the key or the lock file is granted; a failed admission
  leaves the registry and the record locks as they were.\<close>

theorem operation_admission:
  assumes "inj_on (le_sha256 env) K" "op_reachable env K S" "\<not> opp_poisoned (sy_process S pid)"
    and "key = lock_key env ns path" "key \<in> K"
    and "acquire_with_mode env os pid False ns path shared (opp_registry (sy_process S pid), sy_locks S)
           = (r, ops', locks')"
  shows "(is_ok r \<longleftrightarrow>
      (\<forall>g\<in>set (guards_of S pid). og_key g = key \<longrightarrow> og_shared g \<and> shared) \<and>
      ((\<exists>g\<in>set (guards_of S pid). og_key g = key) \<or> os_grants os)) \<and>
    (\<not> is_ok r \<longrightarrow> ops' = opp_registry (sy_process S pid) \<and> locks' = sy_locks S)"
proof -
  have live0: "live k sh gs = 0 \<longleftrightarrow> (\<forall>g\<in>set gs. og_key g = k \<longrightarrow> og_shared g \<noteq> sh)" for k sh gs
    by (auto simp: live_def filter_empty_conv)
  have e: "entry_ok False (live key True (guards_of S pid)) (live key False (guards_of S pid))
      (opp_registry (sy_process S pid) key) (sy_locks S (lock_file_path env key) pid)"
    using reachable_entry [OF assms(1,2,5), of pid] assms(3) by simp
  have "\<not> is_ok r \<longrightarrow> ops' = opp_registry (sy_process S pid) \<and> locks' = sy_locks S"
    using e assms(4,6)
    by (cases "opp_registry (sy_process S pid) key")
      (auto simp: acquire_defs entry_ok_def is_ok_def lock_default_def close_file_idem
          fun_upd_idem split: if_splits option.splits sum.splits)
  moreover have "is_ok r \<longleftrightarrow>
      (\<forall>g\<in>set (guards_of S pid). og_key g = key \<longrightarrow> og_shared g \<and> shared) \<and>
      ((\<exists>g\<in>set (guards_of S pid). og_key g = key) \<or> os_grants os)"
  proof (cases "opp_registry (sy_process S pid) key")
    case None
    with e have "\<forall>g\<in>set (guards_of S pid). og_key g \<noteq> key" by (auto simp: entry_ok_def live0)
    with None assms(4,6) lock_across_ok [of env os pid key shared "sy_locks S"] show ?thesis
      by (cases "lock_across_processes env os pid key shared (sy_locks S)")
        (auto simp: acquire_with_mode_def Let_def is_ok_def lock_default_def split: if_splits sum.splits)
  next
    case (Some st)
    with e live0 [of key True "guards_of S pid"] live0 [of key False "guards_of S pid"] assms(4,6) show ?thesis
      by (cases "ls_writer st") (auto simp: acquire_defs is_ok_def entry_ok_def split: if_splits)
  qed
  ultimately show ?thesis by blast
qed


definition is_busy :: "(operation_lock_error, operation_guard) result \<Rightarrow> bool" where
  "is_busy r \<longleftrightarrow> (case r of Inl (OpBusy _) \<Rightarrow> True | _ \<Rightarrow> False)"

text \<open>C34: the bounded wait returns: as soon as a round ends with the timeout elapsed, the loop has
  returned the answer of one of its rounds, and it slept once after each earlier one, for at most 25 ms
  and never past the timeout.  Only contention is retried, and contention is reported only when the
  timeout has elapsed.\<close>

theorem acquire_for_returns:
  assumes "\<exists>round\<in>set rounds. timeout \<le> or_elapsed round"
  shows "\<exists>n<length rounds. \<exists>sleeps r st.
    acquire_for_loop env pid ns path timeout rounds = (sleeps, Some (r, st)) \<and>
    (let attempt = (\<lambda>i. acquire_with_mode env (or_os (rounds ! i)) pid (or_poisoned (rounds ! i)) ns path False
                         (or_state (rounds ! i)))
     in attempt n = (r, st) \<and> (is_busy r \<longrightarrow> timeout \<le> or_elapsed (rounds ! n)) \<and>
        (\<forall>i<n. is_busy (fst (attempt i)) \<and> or_elapsed (rounds ! i) < timeout) \<and>
        sleeps = map (\<lambda>i. min (timeout - or_elapsed (rounds ! i)) 25) [0..<n])"
  using assms
proof (induction rounds)
  case (Cons round rounds)
  obtain r st where a: "acquire_with_mode env (or_os round) pid (or_poisoned round) ns path False (or_state round) = (r, st)"
    by (metis prod.exhaust)
  show ?case
  proof (cases "is_busy r \<and> or_elapsed round < timeout")
    case False
    with a show ?thesis
      by (intro exI [of _ 0])
        (auto simp: is_busy_def Let_def split: sum.splits operation_lock_error.splits)
  next
    case True
    then obtain message where m: "r = Inl (OpBusy message)"
      by (auto simp: is_busy_def split: sum.splits operation_lock_error.splits)
    from True Cons.prems have "\<exists>round\<in>set rounds. timeout \<le> or_elapsed round" by auto
    from Cons.IH [OF this] obtain n sleeps r' st' where n: "n < length rounds"
      "acquire_for_loop env pid ns path timeout rounds = (sleeps, Some (r', st'))"
      "acquire_with_mode env (or_os (rounds ! n)) pid (or_poisoned (rounds ! n)) ns path False (or_state (rounds ! n)) = (r', st')"
      "is_busy r' \<longrightarrow> timeout \<le> or_elapsed (rounds ! n)"
      "\<forall>i<n. is_busy (fst (acquire_with_mode env (or_os (rounds ! i)) pid (or_poisoned (rounds ! i)) ns path False
                         (or_state (rounds ! i)))) \<and> or_elapsed (rounds ! i) < timeout"
      "sleeps = map (\<lambda>i. min (timeout - or_elapsed (rounds ! i)) 25) [0..<n]"
      by (auto simp: Let_def)
    have "map (\<lambda>i. min (timeout - or_elapsed ((round # rounds) ! i)) 25) [0..<Suc n]
        = min (timeout - or_elapsed round) 25 # sleeps"
      by (simp add: n(6) map_upt_Suc del: upt_Suc)
    with n a m True show ?thesis
      by (intro exI [of _ "Suc n"]) (auto simp: Let_def less_Suc_eq_0_disj simp del: upt_Suc)
  qed
qed simp

section \<open>Witnesses\<close>

text \<open>A digest of one byte, the sum of the characters: like every digest it is not injective.\<close>

definition example_lock_env :: lock_env where
  "example_lock_env = \<lparr>le_fs = example_fs, le_directory = ''/locks'',
     le_sha256 = (\<lambda>key. [of_nat (sum_list (map of_char key))])\<rparr>"

definition example_keys :: "string set" where
  "example_keys = {''prefix:/pfx'', ''prefix:/other''}"

definition example_lock_os :: lock_os where
  "example_lock_os = \<lparr>lo_create_dir = None, lo_open = Inr 7, lo_setlk = [EINTR], lo_strerror = \<lambda>_. []\<rparr>"

definition example_locked :: op_system where
  "example_locked = after_acquire 1
     (acquire_with_mode example_lock_env example_lock_os 1 False ''prefix'' ''/pfx'' False (Map.empty, \<lambda>_ _. None))
     op_initial"

lemma example_digest_inj: "inj_on (le_sha256 example_lock_env) example_keys"
  by (simp add: example_lock_env_def example_keys_def)

lemma example_digest_collides: "\<not> inj (le_sha256 example_lock_env)"
proof
  assume "inj (le_sha256 example_lock_env)"
  then have "''ab'' = ''ba''" by (rule injD) (simp add: example_lock_env_def)
  then show False by simp
qed

lemma example_key: "lock_key example_lock_env ''prefix'' ''/pfx'' = ''prefix:/pfx''"
  by (simp add: lock_key_def normalize_path_def example_lock_env_def path_of_def path_display_def concat_with_def
      Let_def)

lemma example_ops_reachable: "op_reachable example_lock_env example_keys example_locked"
proof -
  have "op_step example_lock_env example_keys op_initial example_locked"
    using step_acquire [where env = example_lock_env and K = example_keys and os = example_lock_os and pid = 1 and namespace = "''prefix''"
        and path = "''/pfx''" and shared = False and S = op_initial]
    by (simp add: posix_answer_def op_initial_def conflicting_def example_locked_def fresh_process_def example_key example_keys_def)
  then show ?thesis by (simp add: op_reachable_def)
qed

lemma example_guards:
  "guards_of example_locked = (\<lambda>_. [])(1 := [\<lparr>og_key = ''prefix:/pfx'', og_shared = False\<rparr>])"
  by (simp add: example_locked_def acquire_defs example_key lock_default_def example_lock_os_def EINTR_def
      guards_of_initial)

theorem operation_guards_exclusive_witness:
  "filter (\<lambda>h. og_key h = ''prefix:/pfx'') (guards_of example_locked 2) = [] \<and> length (guards_of example_locked 1) = 1"
  using conjunct2 [OF operation_guards_exclusive [OF example_digest_inj example_ops_reachable]]
  by (simp add: example_guards)

definition example_round :: "nat \<Rightarrow> op_round" where
  "example_round t = \<lparr>or_os = example_lock_os\<lparr>lo_setlk := [EAGAIN]\<rparr>, or_poisoned = False,
     or_state = (Map.empty, \<lambda>_ _. None), or_elapsed = t\<rparr>"

theorem acquire_for_returns_witness:
  "\<exists>sleeps answer. acquire_for_loop example_lock_env 1 ''prefix'' ''/pfx'' 30 [example_round 0, example_round 31]
     = (sleeps, Some answer) \<and> length sleeps \<le> 1"
  using acquire_for_returns [of "[example_round 0, example_round 31]" 30 example_lock_env 1 "''prefix''" "''/pfx''"]
  by (auto simp: example_round_def Let_def)

end
