(* ===== verification/SessionClient.thy ===== *)
theory SessionClient
  imports SessionProtocol LineReader ProcInfo
begin

text \<open>
  The launcher's end of a session (\<open>src-tauri/src/tools/runner_sessions/protocol.rs\<close>): building process
  specifications, reading and dispatching events, and the requests that wait for them.

  Every critical section of the source is one atomic action on the state of the client.  The reader and
  the tasks that run requests are agents with a queue of actions still to perform and a position in
  their code; the step relation interleaves them in any order.  A one-shot channel is a number, and its
  answer is recorded once it is sent or its sender is dropped.
\<close>

section \<open>Process specifications\<close>

type_synonym os_string = string

record runner_invocation =
  ri_program :: os_string
  ri_args :: "os_string list"
  ri_cwd :: os_string
  ri_env :: "(os_string \<times> os_string option) list"

definition utf8_os :: "string \<Rightarrow> os_string \<Rightarrow> (string, string) result" where
  "utf8_os field v =
     (if utf8_valid (ascii_bytes v) then Inr v else Inl (field @ '' is not valid UTF-8''))"

definition utf8_value :: "os_string option \<Rightarrow> (string, string option) result" where
  "utf8_value v = (case v of None \<Rightarrow> Inr None | Some v \<Rightarrow> and_then (utf8_os ''env value'' v) (\<lambda>v. Inr (Some v)))"

fun env_map_of ::
  "(string \<times> string option) list \<Rightarrow> (os_string \<times> os_string option) list \<Rightarrow> (string, (string \<times> string option) list) result" where
  "env_map_of env_map [] = Inr env_map"
| "env_map_of env_map ((key, v) # rest) =
     and_then (utf8_os ''env key'' key) (\<lambda>key.
       if key \<in> fst ` set env_map then Inl ''duplicate env keys in invocation''
       else and_then (utf8_value v) (\<lambda>v. env_map_of (env_map @ [(key, v)]) rest))"

definition require_owned :: "file_system \<Rightarrow> path \<Rightarrow> string \<Rightarrow> string \<Rightarrow> (string, unit) result" where
  "require_owned fs owned_prefix name v =
     (case canonicalize_prefix_path fs (path_of v) of
        None \<Rightarrow> Inl (name @ '' could not be canonicalized'')
      | Some canon \<Rightarrow> if canon \<noteq> owned_prefix then Inl (name @ '' does not match owned prefix'') else Inr ())"

definition with_wineprefix ::
  "file_system \<Rightarrow> path \<Rightarrow> (string \<times> string option) list \<Rightarrow> (string, (string \<times> string option) list) result" where
  "with_wineprefix fs owned_prefix env_map =
     (case map_of env_map ''WINEPREFIX'' of
        None \<Rightarrow> Inr (env_map @ [(''WINEPREFIX'', Some (path_display owned_prefix))])
      | Some (Some existing) \<Rightarrow>
          and_then (require_owned fs owned_prefix ''WINEPREFIX'' existing) (\<lambda>_. Inr env_map)
      | Some None \<Rightarrow> Inl ''WINEPREFIX must be set, not unset'')"

definition check_steam_path :: "file_system \<Rightarrow> path \<Rightarrow> (string \<times> string option) list \<Rightarrow> (string, unit) result" where
  "check_steam_path fs owned_prefix env_map =
     (case map_of env_map ''STEAM_COMPAT_DATA_PATH'' of
        Some (Some steam) \<Rightarrow> require_owned fs owned_prefix ''STEAM_COMPAT_DATA_PATH'' steam
      | _ \<Rightarrow> Inr ())"

text \<open>\<open>order\<close> is the iteration order of the hash map.\<close>

definition invocation_to_spec ::
  "file_system \<Rightarrow> ((string \<times> string option) list \<Rightarrow> (string \<times> string option) list)
     \<Rightarrow> runner_invocation \<Rightarrow> path \<Rightarrow> (string, process_spec) result" where
  "invocation_to_spec fs order invocation owned_prefix =
     and_then (utf8_os ''program'' (ri_program invocation)) (\<lambda>program.
     if \<not> is_absolute (path_of program) then Inl ''program must be an absolute path''
     else and_then (utf8_os ''cwd'' (ri_cwd invocation)) (\<lambda>cwd.
     if \<not> is_absolute (path_of cwd) then Inl ''cwd must be an absolute path''
     else and_then (env_map_of [] (ri_env invocation)) (\<lambda>env_map0.
     and_then (with_wineprefix fs owned_prefix env_map0) (\<lambda>env_map.
     and_then (check_steam_path fs owned_prefix env_map) (\<lambda>_.
     let env = map (\<lambda>(key, v). \<lparr>ec_key = key, ec_value = v\<rparr>) (order env_map)
     in and_then (collect_results (utf8_os ''arg'') (ri_args invocation)) (\<lambda>args.
     Inr \<lparr>ps_program = program, ps_args = args, ps_cwd = cwd, ps_env = env\<rparr>))))))"

section \<open>The state of the client\<close>

record controller_exit =
  ce_exit_code :: "int option"
  ce_signal :: "int option"

record ready_info =
  rd_protocol_version :: u16
  rd_supervisor_pid :: u32
  rd_prefix :: string
  rd_subreaper :: bool

datatype answer =
    AnsLaunch process_identity | AnsExit controller_exit | AnsUnit | AnsReady ready_info
  | AnsErr string | AnsDropped

datatype waiter_kind = WLaunch | WShutdown | WExit

text \<open>The hooks the registry sets are called by the reader; the log has their calls in order.\<close>

datatype hook_call = HookAccepted | HookExited string

record session_client =
  sc_waiters :: "waiter_kind \<Rightarrow> (string \<times> nat) list"
  sc_ready_waiter :: "nat option"
  sc_completed :: "string \<rightharpoonup> controller_exit"
  sc_stopped :: bool
  sc_fatal :: "string option"
  sc_answers :: "nat \<rightharpoonup> answer"
  sc_hooks :: "hook_call list"

definition client_new :: session_client where
  "client_new = \<lparr>sc_waiters = \<lambda>_. [], sc_ready_waiter = None, sc_completed = Map.empty, sc_stopped = False,
     sc_fatal = None, sc_answers = Map.empty, sc_hooks = []\<rparr>"

definition send_answer :: "nat \<Rightarrow> answer \<Rightarrow> session_client \<Rightarrow> session_client" where
  "send_answer ch a c = (if sc_answers c ch = None then c\<lparr>sc_answers := (sc_answers c)(ch \<mapsto> a)\<rparr> else c)"

definition drop_key :: "string \<Rightarrow> (string \<times> nat) list \<Rightarrow> (string \<times> nat) list" where
  "drop_key rid ws = filter (\<lambda>(k, _). k \<noteq> rid) ws"

definition set_waiters :: "waiter_kind \<Rightarrow> (string \<times> nat) list \<Rightarrow> session_client \<Rightarrow> session_client" where
  "set_waiters kind ws c = c\<lparr>sc_waiters := (sc_waiters c)(kind := ws)\<rparr>"

text \<open>\<open>insert\<close> drops the sender it replaces, \<open>remove\<close> the one it removes; \<open>remove\<close> followed by
  \<open>send\<close> answers it.\<close>

definition insert_waiter :: "waiter_kind \<Rightarrow> string \<Rightarrow> nat \<Rightarrow> session_client \<Rightarrow> session_client" where
  "insert_waiter kind rid ch c =
     (let c1 = (case map_of (sc_waiters c kind) rid of None \<Rightarrow> c | Some old \<Rightarrow> send_answer old AnsDropped c)
      in set_waiters kind ((rid, ch) # drop_key rid (sc_waiters c kind)) c1)"

definition remove_waiter :: "waiter_kind \<Rightarrow> string \<Rightarrow> answer \<Rightarrow> session_client \<Rightarrow> session_client" where
  "remove_waiter kind rid a c =
     (case map_of (sc_waiters c kind) rid of
        None \<Rightarrow> c
      | Some ch \<Rightarrow> send_answer ch a (set_waiters kind (drop_key rid (sc_waiters c kind)) c))"

section \<open>Atomic actions\<close>

datatype client_action =
    StoreFatal string
  | FailWaiters waiter_kind string
  | FailReady string
  | MarkStopped
  | CallHook hook_call
  | StoreExit string controller_exit
  | AnswerWaiter waiter_kind string answer
  | AnswerReady answer

fun perform :: "client_action \<Rightarrow> session_client \<Rightarrow> session_client" where
  "perform (StoreFatal e) c = (if sc_fatal c = None then c\<lparr>sc_fatal := Some e\<rparr> else c)"
| "perform (FailWaiters kind e) c =
     set_waiters kind [] (fold (\<lambda>(_, ch). send_answer ch (AnsErr e)) (sc_waiters c kind) c)"
| "perform (FailReady e) c =
     (case sc_ready_waiter c of None \<Rightarrow> c | Some ch \<Rightarrow> send_answer ch (AnsErr e) (c\<lparr>sc_ready_waiter := None\<rparr>))"
| "perform MarkStopped c = c\<lparr>sc_stopped := True\<rparr>"
| "perform (CallHook h) c = c\<lparr>sc_hooks := sc_hooks c @ [h]\<rparr>"
| "perform (StoreExit rid exit) c = c\<lparr>sc_completed := (sc_completed c)(rid \<mapsto> exit)\<rparr>"
| "perform (AnswerWaiter kind rid a) c = remove_waiter kind rid a c"
| "perform (AnswerReady a) c =
     (case sc_ready_waiter c of None \<Rightarrow> c | Some ch \<Rightarrow> send_answer ch a (c\<lparr>sc_ready_waiter := None\<rparr>))"

definition fail_pending_waiters :: "string \<Rightarrow> client_action list" where
  "fail_pending_waiters e = [FailWaiters WLaunch e, FailWaiters WShutdown e, FailWaiters WExit e, FailReady e]"

definition set_fatal :: "string \<Rightarrow> client_action list" where
  "set_fatal e = StoreFatal e # fail_pending_waiters e @ [MarkStopped]"

fun dispatch :: "session_event \<Rightarrow> client_action list" where
  "dispatch (LaunchAccepted rid pid start) =
     [CallHook HookAccepted, AnswerWaiter WLaunch rid (AnsLaunch \<lparr>pi_pid = pid, pi_start_time = start\<rparr>)]"
| "dispatch (ControllerExited rid _ exit_code signal) =
     (let exit = \<lparr>ce_exit_code = exit_code, ce_signal = signal\<rparr>
      in [CallHook (HookExited rid), StoreExit rid exit, AnswerWaiter WExit rid (AnsExit exit)])"
| "dispatch (ShutdownAccepted rid) = [AnswerWaiter WShutdown rid AnsUnit]"
| "dispatch (Error (Some rid) _ _ message) =
     [AnswerWaiter WLaunch rid (AnsErr message), AnswerWaiter WShutdown rid (AnsErr message),
      AnswerWaiter WExit rid (AnsErr message)]"
| "dispatch (Error None _ _ message) = AnswerReady (AnsErr message) # set_fatal message"
| "dispatch Stopped = [MarkStopped]"
| "dispatch (Ready version pid owned subreaper) =
     [AnswerReady (AnsReady \<lparr>rd_protocol_version = version, rd_supervisor_pid = pid, rd_prefix = owned,
        rd_subreaper = subreaper\<rparr>)]"
| "dispatch Idle = []"

section \<open>Reading events\<close>

text \<open>\<open>read_bounded_line\<close> over the bytes that arrive and the way the stream ends.\<close>

datatype stream_end = Eof | ReadFailed string

fun read_bounded_line ::
  "u8 list \<Rightarrow> u8 list \<Rightarrow> stream_end \<Rightarrow> (string, text_points option) result \<times> u8 list" where
  "read_bounded_line buf [] stop =
     (if MAX_MESSAGE_BYTES < length buf then (Inl ''event line exceeds MAX_MESSAGE_BYTES'', [])
      else case stop of
             Eof \<Rightarrow> (Inr (if buf = [] then None else Some (decode_lossy buf)), [])
           | ReadFailed e \<Rightarrow> (Inl (''read stdout: '' @ e), []))"
| "read_bounded_line buf (b # bs) stop =
     (if MAX_MESSAGE_BYTES < length buf then (Inl ''event line exceeds MAX_MESSAGE_BYTES'', b # bs)
      else if b = 10 then (Inr (Some (decode_lossy buf)), bs)
      else read_bounded_line (buf @ [b]) bs stop)"

datatype reader_outcome = GotEvent session_event | SkipLine | StreamClosed | StreamFailed string

text \<open>One round of the reader; \<open>parse\<close> is the JSON decoder.\<close>

definition reader_round ::
  "(text_points \<Rightarrow> (string, session_event) result) \<Rightarrow> (string, text_points option) result \<Rightarrow> reader_outcome" where
  "reader_round parse line =
     (case line of
        Inl e \<Rightarrow> StreamFailed e
      | Inr None \<Rightarrow> StreamClosed
      | Inr (Some l) \<Rightarrow>
          if l = [] then SkipLine
          else (case parse l of Inr event \<Rightarrow> GotEvent event | Inl e \<Rightarrow> StreamFailed (''invalid event JSON: '' @ e)))"

definition closed_text :: string where "closed_text = ''supervisor stdout closed''"

definition reader_end :: "session_client \<Rightarrow> client_action list" where
  "reader_end c =
     (if \<not> sc_stopped c then set_fatal closed_text else fail_pending_waiters closed_text @ [MarkStopped])"

section \<open>Waiting\<close>

definition take_completed_exit :: "string \<Rightarrow> session_client \<Rightarrow> controller_exit option \<times> session_client" where
  "take_completed_exit rid c = (sc_completed c rid, c\<lparr>sc_completed := (sc_completed c)(rid := None)\<rparr>)"

definition try_fatal :: "session_client \<Rightarrow> string option" where
  "try_fatal c = sc_fatal c"

definition try_controller_exit :: "string \<Rightarrow> session_client \<Rightarrow> controller_exit option \<times> session_client" where
  "try_controller_exit rid c =
     (case take_completed_exit rid c of
        (Some exit, c1) \<Rightarrow> (Some exit, c1)
      | (None, c1) \<Rightarrow>
          (if try_fatal c1 \<noteq> None then Some \<lparr>ce_exit_code = None, ce_signal = None\<rparr> else None, c1))"

definition stopped_result :: "session_client \<Rightarrow> (string, unit) result" where
  "stopped_result c = (case sc_fatal c of Some e \<Rightarrow> Inl e | None \<Rightarrow> Inr ())"

text \<open>\<open>wait_stopped\<close>: \<^const>\<open>None\<close> while the flag is not set.\<close>

definition poll_stopped :: "session_client \<Rightarrow> (string, unit) result option" where
  "poll_stopped c = (if sc_stopped c then Some (stopped_result c) else None)"

section \<open>Agents\<close>

text \<open>Where an agent stands: the reader; a launch or shutdown request (waiter registered and request being
  written, writing failed, waiting); a wait for a controller's exit (the two looks at the completed
  exits and at the fatal error around the registration, the removal after a late result, waiting,
  given up); or finished.\<close>

datatype position =
    Unused
  | Reading | Ending | ReaderDone
  | Writing waiter_kind string nat
  | WriteFailed waiter_kind string nat string
  | Awaiting waiter_kind string nat
  | ExitTake1 string | ExitFatal1 string | ExitInsert string
  | ExitTake2 string nat | ExitFatal2 string nat
  | ExitLeave string nat answer
  | ExitCancelled string
  | Finished answer

record agent =
  ag_position :: position
  ag_queue :: "client_action list"

record client_system =
  cy_client :: session_client
  cy_agents :: "nat \<Rightarrow> agent"
  cy_fresh :: nat
  cy_used :: "(waiter_kind \<times> string) set"
  cy_exited :: "string set"
  cy_reported :: "string set"

definition client_start :: client_system where
  "client_start =
     \<lparr>cy_client = client_new,
      cy_agents = (\<lambda>n. \<lparr>ag_position = (if n = 0 then Reading else Unused), ag_queue = []\<rparr>),
      cy_fresh = 0, cy_used = {}, cy_exited = {}, cy_reported = {}\<rparr>"

definition move :: "nat \<Rightarrow> position \<Rightarrow> client_action list \<Rightarrow> client_system \<Rightarrow> client_system" where
  "move n pos q S = S\<lparr>cy_agents := (cy_agents S)(n := \<lparr>ag_position = pos, ag_queue = q\<rparr>)\<rparr>"

definition on_client :: "(session_client \<Rightarrow> session_client) \<Rightarrow> client_system \<Rightarrow> client_system" where
  "on_client f S = S\<lparr>cy_client := f (cy_client S)\<rparr>"

definition note_exit :: "client_action \<Rightarrow> client_system \<Rightarrow> client_system" where
  "note_exit a S = (case a of StoreExit rid _ \<Rightarrow> S\<lparr>cy_exited := insert rid (cy_exited S)\<rparr> | _ \<Rightarrow> S)"

definition note_report :: "session_event \<Rightarrow> client_system \<Rightarrow> client_system" where
  "note_report event S =
     (case event of ControllerExited rid _ _ _ \<Rightarrow> S\<lparr>cy_reported := insert rid (cy_reported S)\<rparr> | _ \<Rightarrow> S)"

definition register :: "waiter_kind \<Rightarrow> string \<Rightarrow> client_system \<Rightarrow> client_system" where
  "register kind rid S =
     S\<lparr>cy_client := insert_waiter kind rid (cy_fresh S) (cy_client S), cy_fresh := Suc (cy_fresh S)\<rparr>"

text \<open>Request identifiers are fresh (\<open>Uuid::new_v4\<close>), and the exit of a controller is awaited through its
  one handle.\<close>

inductive client_step :: "client_system \<Rightarrow> client_system \<Rightarrow> bool" where
  act:
    "cy_agents S n = \<lparr>ag_position = pos, ag_queue = a # q\<rparr> \<Longrightarrow>
     client_step S (move n pos q (note_exit a (on_client (perform a) S)))"
| read_event:
    "cy_agents S n = \<lparr>ag_position = Reading, ag_queue = []\<rparr> \<Longrightarrow>
     client_step S (move n Reading (dispatch event) (note_report event S))"
| read_failed:
    "cy_agents S n = \<lparr>ag_position = Reading, ag_queue = []\<rparr> \<Longrightarrow>
     client_step S (move n Ending (set_fatal e) S)"
| read_closed:
    "cy_agents S n = \<lparr>ag_position = Reading, ag_queue = []\<rparr> \<Longrightarrow>
     client_step S (move n Ending [] S)"
| read_end:
    "cy_agents S n = \<lparr>ag_position = Ending, ag_queue = []\<rparr> \<Longrightarrow>
     client_step S (move n ReaderDone (reader_end (cy_client S)) S)"
| start_request:
    "cy_agents S n = \<lparr>ag_position = Unused, ag_queue = []\<rparr> \<Longrightarrow> kind \<noteq> WExit \<Longrightarrow> (kind, rid) \<notin> cy_used S \<Longrightarrow>
     client_step S (move n (Writing kind rid (cy_fresh S)) [] (register kind rid
       (S\<lparr>cy_used := insert (kind, rid) (cy_used S)\<rparr>)))"
| write_done:
    "cy_agents S n = \<lparr>ag_position = Writing kind rid ch, ag_queue = []\<rparr> \<Longrightarrow> kind \<noteq> WExit \<Longrightarrow>
     sc_fatal (cy_client S) = None \<Longrightarrow>
     client_step S (move n (Awaiting kind rid ch) [] S)"
| write_refused:
    "cy_agents S n = \<lparr>ag_position = Writing kind rid ch, ag_queue = []\<rparr> \<Longrightarrow>
     client_step S (move n (WriteFailed kind rid ch e) [] S)"
| write_error:
    "cy_agents S n = \<lparr>ag_position = Writing kind rid ch, ag_queue = []\<rparr> \<Longrightarrow>
     client_step S (move n (WriteFailed kind rid ch e) (set_fatal e) S)"
| write_failed:
    "cy_agents S n = \<lparr>ag_position = WriteFailed kind rid ch e, ag_queue = []\<rparr> \<Longrightarrow>
     client_step S (move n (Finished (AnsErr e)) [] (on_client (remove_waiter kind rid AnsDropped) S))"
| receive:
    "cy_agents S n = \<lparr>ag_position = Awaiting kind rid ch, ag_queue = []\<rparr> \<Longrightarrow> sc_answers (cy_client S) ch = Some a \<Longrightarrow>
     client_step S (move n (Finished a) []
       (if kind = WExit \<and> (\<exists>exit. a = AnsExit exit) then on_client (snd \<circ> take_completed_exit rid) S else S))"
| start_wait:
    "cy_agents S n = \<lparr>ag_position = Unused, ag_queue = []\<rparr> \<Longrightarrow> (WExit, rid) \<notin> cy_used S \<Longrightarrow>
     client_step S (move n (ExitTake1 rid) [] (S\<lparr>cy_used := insert (WExit, rid) (cy_used S)\<rparr>))"
| take1:
    "cy_agents S n = \<lparr>ag_position = ExitTake1 rid, ag_queue = []\<rparr> \<Longrightarrow>
     take_completed_exit rid (cy_client S) = (r, c) \<Longrightarrow>
     client_step S (move n (case r of Some exit \<Rightarrow> Finished (AnsExit exit) | None \<Rightarrow> ExitFatal1 rid) []
       (S\<lparr>cy_client := c\<rparr>))"
| fatal1:
    "cy_agents S n = \<lparr>ag_position = ExitFatal1 rid, ag_queue = []\<rparr> \<Longrightarrow>
     client_step S (move n (case try_fatal (cy_client S) of Some e \<Rightarrow> Finished (AnsErr e) | None \<Rightarrow> ExitInsert rid) [] S)"
| insert:
    "cy_agents S n = \<lparr>ag_position = ExitInsert rid, ag_queue = []\<rparr> \<Longrightarrow>
     client_step S (move n (ExitTake2 rid (cy_fresh S)) [] (register WExit rid S))"
| take2:
    "cy_agents S n = \<lparr>ag_position = ExitTake2 rid ch, ag_queue = []\<rparr> \<Longrightarrow>
     take_completed_exit rid (cy_client S) = (r, c) \<Longrightarrow>
     client_step S (move n (case r of Some exit \<Rightarrow> ExitLeave rid ch (AnsExit exit) | None \<Rightarrow> ExitFatal2 rid ch) []
       (S\<lparr>cy_client := c\<rparr>))"
| fatal2:
    "cy_agents S n = \<lparr>ag_position = ExitFatal2 rid ch, ag_queue = []\<rparr> \<Longrightarrow>
     client_step S (move n (case try_fatal (cy_client S) of
         Some e \<Rightarrow> ExitLeave rid ch (AnsErr e) | None \<Rightarrow> Awaiting WExit rid ch) [] S)"
| leave:
    "cy_agents S n = \<lparr>ag_position = ExitLeave rid ch a, ag_queue = []\<rparr> \<Longrightarrow>
     client_step S (move n (Finished a) [] (on_client (remove_waiter WExit rid AnsDropped) S))"
| cancel:
    "cy_agents S n = \<lparr>ag_position = Awaiting WExit rid ch, ag_queue = []\<rparr> \<Longrightarrow>
     client_step S (move n (ExitCancelled rid) [] S)"
| abandon:
    "cy_agents S n = \<lparr>ag_position = Awaiting kind rid ch, ag_queue = []\<rparr> \<Longrightarrow> kind \<noteq> WExit \<Longrightarrow>
     client_step S (move n (Finished AnsDropped) [] S)"
| wait_again:
    "cy_agents S n = \<lparr>ag_position = ExitCancelled rid, ag_queue = []\<rparr> \<Longrightarrow>
     client_step S (move n (ExitTake1 rid) [] S)"

definition client_reachable :: "client_system \<Rightarrow> bool" where
  "client_reachable = client_step\<^sup>*\<^sup>* client_start"

section \<open>The invariant\<close>

text \<open>The request an agent owns, the channel it holds, and the controller whose exit it has not consumed.\<close>

fun request_of :: "position \<Rightarrow> (waiter_kind \<times> string) option" where
  "request_of (Writing kind rid ch) = Some (kind, rid)"
| "request_of (WriteFailed kind rid ch e) = Some (kind, rid)"
| "request_of (Awaiting kind rid ch) = Some (kind, rid)"
| "request_of (ExitTake1 rid) = Some (WExit, rid)"
| "request_of (ExitFatal1 rid) = Some (WExit, rid)"
| "request_of (ExitInsert rid) = Some (WExit, rid)"
| "request_of (ExitTake2 rid ch) = Some (WExit, rid)"
| "request_of (ExitFatal2 rid ch) = Some (WExit, rid)"
| "request_of (ExitLeave rid ch a) = Some (WExit, rid)"
| "request_of (ExitCancelled rid) = Some (WExit, rid)"
| "request_of _ = None"

fun seat :: "position \<Rightarrow> (waiter_kind \<times> string \<times> nat) option" where
  "seat (Writing kind rid ch) = Some (kind, rid, ch)"
| "seat (WriteFailed kind rid ch e) = Some (kind, rid, ch)"
| "seat (Awaiting kind rid ch) = Some (kind, rid, ch)"
| "seat (ExitTake2 rid ch) = Some (WExit, rid, ch)"
| "seat (ExitFatal2 rid ch) = Some (WExit, rid, ch)"
| "seat (ExitLeave rid ch a) = Some (WExit, rid, ch)"
| "seat _ = None"

fun unconsumed :: "position \<Rightarrow> string option" where
  "unconsumed (Awaiting kind rid ch) = (if kind = WExit then Some rid else None)"
| "unconsumed (ExitTake1 rid) = Some rid"
| "unconsumed (ExitFatal1 rid) = Some rid"
| "unconsumed (ExitInsert rid) = Some rid"
| "unconsumed (ExitTake2 rid ch) = Some rid"
| "unconsumed (ExitFatal2 rid ch) = Some rid"
| "unconsumed (ExitCancelled rid) = Some rid"
| "unconsumed _ = None"

fun exit_seat :: "position \<Rightarrow> (string \<times> nat) option" where
  "exit_seat (ExitFatal2 rid ch) = Some (rid, ch)"
| "exit_seat (Awaiting kind rid ch) = (if kind = WExit then Some (rid, ch) else None)"
| "exit_seat _ = None"

fun awaited :: "position \<Rightarrow> (waiter_kind \<times> nat) option" where
  "awaited (Awaiting kind rid ch) = Some (kind, ch)"
| "awaited _ = None"

text \<open>What is already in a queue when its first action is performed: a stored fatal error is followed by the
  failure of every waiter, a stored exit by the answer to its waiter.\<close>

fun queue_ok :: "client_action list \<Rightarrow> bool" where
  "queue_ok [] = True"
| "queue_ok (StoreFatal e # q) = ((\<forall>kind. \<exists>e'. FailWaiters kind e' \<in> set q) \<and> queue_ok q)"
| "queue_ok (StoreExit rid exit # q) = ((\<exists>a. AnswerWaiter WExit rid a \<in> set q) \<and> queue_ok q)"
| "queue_ok (_ # q) = queue_ok q"

definition answered :: "session_client \<Rightarrow> nat \<Rightarrow> bool" where
  "answered c ch \<longleftrightarrow> sc_answers c ch \<noteq> None"

definition registered :: "session_client \<Rightarrow> waiter_kind \<Rightarrow> string \<Rightarrow> nat \<Rightarrow> bool" where
  "registered c kind rid ch \<longleftrightarrow> (rid, ch) \<in> set (sc_waiters c kind)"

definition keys_distinct :: "session_client \<Rightarrow> bool" where
  "keys_distinct c \<longleftrightarrow> (\<forall>kind. distinct (map fst (sc_waiters c kind)))"

definition queued :: "client_action \<Rightarrow> client_system \<Rightarrow> bool" where
  "queued a S \<longleftrightarrow> (\<exists>n. a \<in> set (ag_queue (cy_agents S n)))"

abbreviation position_of :: "client_system \<Rightarrow> nat \<Rightarrow> position" where
  "position_of S n \<equiv> ag_position (cy_agents S n)"

definition owners_ok :: "client_system \<Rightarrow> bool" where
  "owners_ok S \<longleftrightarrow>
     (\<forall>i x. request_of (position_of S i) = Some x \<longrightarrow>
        x \<in> cy_used S \<and> (\<forall>j. request_of (position_of S j) = Some x \<longrightarrow> j = i))"

definition seats_ok :: "client_system \<Rightarrow> bool" where
  "seats_ok S \<longleftrightarrow>
     (\<forall>i kind rid ch. seat (position_of S i) = Some (kind, rid, ch) \<longrightarrow>
        answered (cy_client S) ch \<or> registered (cy_client S) kind rid ch)"

definition fatal_ok :: "client_system \<Rightarrow> bool" where
  "fatal_ok S \<longleftrightarrow>
     (\<forall>i kind ch. awaited (position_of S i) = Some (kind, ch) \<longrightarrow> sc_fatal (cy_client S) \<noteq> None \<longrightarrow>
        answered (cy_client S) ch \<or> (\<exists>e. queued (FailWaiters kind e) S))"

definition exits_ok :: "client_system \<Rightarrow> bool" where
  "exits_ok S \<longleftrightarrow>
     (\<forall>i rid ch. exit_seat (position_of S i) = Some (rid, ch) \<longrightarrow> rid \<in> cy_exited S \<longrightarrow>
        answered (cy_client S) ch \<or> (\<exists>a. queued (AnswerWaiter WExit rid a) S))"

definition completed_ok :: "client_system \<Rightarrow> bool" where
  "completed_ok S \<longleftrightarrow>
     (\<forall>rid. rid \<in> cy_exited S \<longrightarrow> sc_completed (cy_client S) rid = None \<longrightarrow>
        (WExit, rid) \<in> cy_used S \<and> (\<forall>i. unconsumed (position_of S i) \<noteq> Some rid))"

definition reader_end_ok :: "client_system \<Rightarrow> bool" where
  "reader_end_ok S \<longleftrightarrow>
     (\<forall>i. position_of S i = ReaderDone \<longrightarrow>
        sc_stopped (cy_client S) \<or> MarkStopped \<in> set (ag_queue (cy_agents S i)))"

definition client_inv :: "client_system \<Rightarrow> bool" where
  "client_inv S \<longleftrightarrow>
     keys_distinct (cy_client S) \<and> (\<forall>i. queue_ok (ag_queue (cy_agents S i))) \<and> owners_ok S \<and> seats_ok S \<and>
     fatal_ok S \<and> exits_ok S \<and> completed_ok S \<and> reader_end_ok S"

lemmas client_inv_defs = client_inv_def owners_ok_def seats_ok_def fatal_ok_def exits_ok_def completed_ok_def
  reader_end_ok_def

section \<open>Progress of the client's state\<close>

text \<open>No operation loses a waiter: it stays registered or its channel is answered, and answers stay.\<close>

definition progress :: "session_client \<Rightarrow> session_client \<Rightarrow> bool" where
  "progress c c' \<longleftrightarrow>
     (\<forall>ch. answered c ch \<longrightarrow> answered c' ch) \<and>
     (\<forall>kind rid ch. registered c kind rid ch \<longrightarrow> answered c' ch \<or> registered c' kind rid ch) \<and>
     (sc_stopped c \<longrightarrow> sc_stopped c')"

lemma progress_refl [simp]: "progress c c"
  by (simp add: progress_def)

lemma send_answer_simps [simp]:
  "answered (send_answer ch a c) ch' \<longleftrightarrow> ch' = ch \<or> answered c ch'"
  "sc_waiters (send_answer ch a c) = sc_waiters c" "sc_fatal (send_answer ch a c) = sc_fatal c"
  "sc_completed (send_answer ch a c) = sc_completed c" "sc_stopped (send_answer ch a c) = sc_stopped c"
  by (auto simp: send_answer_def answered_def)

lemma set_waiters_simps [simp]:
  "answered (set_waiters kind ws c) ch \<longleftrightarrow> answered c ch"
  "sc_waiters (set_waiters kind ws c) = (sc_waiters c)(kind := ws)" "sc_fatal (set_waiters kind ws c) = sc_fatal c"
  "sc_completed (set_waiters kind ws c) = sc_completed c" "sc_stopped (set_waiters kind ws c) = sc_stopped c"
  by (auto simp: set_waiters_def answered_def)

lemma set_drop_key [simp]: "(k, ch) \<in> set (drop_key rid ws) \<longleftrightarrow> k \<noteq> rid \<and> (k, ch) \<in> set ws"
  by (auto simp: drop_key_def)

lemma distinct_drop_key: "distinct (map fst ws) \<Longrightarrow> distinct (map fst (drop_key rid ws))"
  by (induction ws) (auto simp: drop_key_def)

lemma key_drop_key: "rid \<notin> fst ` set (drop_key rid ws)"
  by (auto simp: drop_key_def)

lemma registered_lookup:
  "keys_distinct c \<Longrightarrow> registered c kind rid ch \<longleftrightarrow> map_of (sc_waiters c kind) rid = Some ch"
  by (auto simp: keys_distinct_def registered_def)

lemma map_of_drop_key: "map_of (drop_key rid ws) k = (if k = rid then None else map_of ws k)"
  by (induction ws) (auto simp: drop_key_def)

lemma insert_waiter_facts:
  assumes "keys_distinct c"
  shows "keys_distinct (insert_waiter kind rid ch c)"
    "progress c (insert_waiter kind rid ch c)"
    "registered (insert_waiter kind rid ch c) kind rid ch"
    "sc_fatal (insert_waiter kind rid ch c) = sc_fatal c" "sc_completed (insert_waiter kind rid ch c) = sc_completed c"
proof -
  show kd: "keys_distinct (insert_waiter kind rid ch c)"
    using assms
    by (auto simp: keys_distinct_def insert_waiter_def Let_def distinct_drop_key key_drop_key split: option.splits)
  show "registered (insert_waiter kind rid ch c) kind rid ch"
    by (simp add: registered_def insert_waiter_def Let_def)
  show "sc_fatal (insert_waiter kind rid ch c) = sc_fatal c" "sc_completed (insert_waiter kind rid ch c) = sc_completed c"
    by (simp_all add: insert_waiter_def Let_def split: option.splits)
  show "progress c (insert_waiter kind rid ch c)"
    unfolding progress_def registered_lookup [OF assms] registered_lookup [OF kd]
    by (auto simp: insert_waiter_def Let_def map_of_drop_key split: option.splits)
qed

lemma remove_waiter_facts:
  assumes "keys_distinct c"
  shows "keys_distinct (remove_waiter kind rid a c)"
    "progress c (remove_waiter kind rid a c)"
    "registered c kind rid ch \<Longrightarrow> answered (remove_waiter kind rid a c) ch"
    "sc_fatal (remove_waiter kind rid a c) = sc_fatal c" "sc_completed (remove_waiter kind rid a c) = sc_completed c"
proof -
  show kd: "keys_distinct (remove_waiter kind rid a c)"
    using assms
    by (auto simp: keys_distinct_def remove_waiter_def distinct_drop_key split: option.splits)
  show "registered c kind rid ch \<Longrightarrow> answered (remove_waiter kind rid a c) ch"
    by (simp add: registered_lookup [OF assms] remove_waiter_def)
  show "sc_fatal (remove_waiter kind rid a c) = sc_fatal c" "sc_completed (remove_waiter kind rid a c) = sc_completed c"
    by (simp_all add: remove_waiter_def split: option.splits)
  show "progress c (remove_waiter kind rid a c)"
    unfolding progress_def registered_lookup [OF assms] registered_lookup [OF kd]
    by (auto simp: remove_waiter_def map_of_drop_key split: option.splits)
qed

lemma fold_send:
  "answered (fold (\<lambda>(_, ch). send_answer ch a) ws c) ch \<longleftrightarrow> ch \<in> snd ` set ws \<or> answered c ch"
  "sc_waiters (fold (\<lambda>(_, ch). send_answer ch a) ws c) = sc_waiters c"
  "sc_fatal (fold (\<lambda>(_, ch). send_answer ch a) ws c) = sc_fatal c"
  "sc_completed (fold (\<lambda>(_, ch). send_answer ch a) ws c) = sc_completed c"
  "sc_stopped (fold (\<lambda>(_, ch). send_answer ch a) ws c) = sc_stopped c"
  by (induction ws arbitrary: c) auto

lemma progress_updates [simp]:
  "progress c (c\<lparr>sc_fatal := x\<rparr>)" "progress c (c\<lparr>sc_hooks := h\<rparr>)" "progress c (c\<lparr>sc_completed := m\<rparr>)"
  "progress c (c\<lparr>sc_stopped := True\<rparr>)" "progress c (send_answer ch a (c\<lparr>sc_ready_waiter := w\<rparr>))"
  by (auto simp: progress_def registered_def answered_def send_answer_def)

lemma progress_fail: "progress c (set_waiters kind [] (fold (\<lambda>(_, ch). send_answer ch a) (sc_waiters c kind) c))"
  by (force simp: progress_def registered_def fold_send)

lemma perform_facts:
  assumes "keys_distinct c"
  shows "keys_distinct (perform a c)" "progress c (perform a c)"
    "sc_fatal (perform a c) = (case a of StoreFatal e \<Rightarrow> if sc_fatal c = None then Some e else sc_fatal c | _ \<Rightarrow> sc_fatal c)"
    "sc_completed (perform a c) = (case a of StoreExit rid exit \<Rightarrow> (sc_completed c)(rid \<mapsto> exit) | _ \<Rightarrow> sc_completed c)"
    "a = FailWaiters kind e \<Longrightarrow> registered c kind rid ch \<Longrightarrow> answered (perform a c) ch"
    "a = AnswerWaiter kind rid x \<Longrightarrow> registered c kind rid ch \<Longrightarrow> answered (perform a c) ch"
    "a = MarkStopped \<Longrightarrow> sc_stopped (perform a c)"
proof -
  note rw = remove_waiter_facts [OF assms]
  show "keys_distinct (perform a c)"
    using assms rw(1) by (cases a) (auto simp: keys_distinct_def fold_send send_answer_simps split: option.splits)
  show "progress c (perform a c)"
    using rw(2) by (cases a) (simp_all add: progress_fail split: option.splits)
  show "sc_fatal (perform a c) = (case a of StoreFatal e \<Rightarrow> if sc_fatal c = None then Some e else sc_fatal c | _ \<Rightarrow> sc_fatal c)"
    using rw(4) by (cases a) (auto simp: fold_send split: option.splits)
  show "sc_completed (perform a c) = (case a of StoreExit rid exit \<Rightarrow> (sc_completed c)(rid \<mapsto> exit) | _ \<Rightarrow> sc_completed c)"
    using rw(5) by (cases a) (auto simp: fold_send split: option.splits)
  show "a = FailWaiters kind e \<Longrightarrow> registered c kind rid ch \<Longrightarrow> answered (perform a c) ch"
    by (force simp: fold_send registered_def)
  show "a = AnswerWaiter kind rid x \<Longrightarrow> registered c kind rid ch \<Longrightarrow> answered (perform a c) ch"
    using rw(3) by simp
  show "a = MarkStopped \<Longrightarrow> sc_stopped (perform a c)" by simp
qed

section \<open>Preservation\<close>

lemma move_simps [simp]:
  "position_of (move n pos q S) i = (if i = n then pos else position_of S i)"
  "ag_queue (cy_agents (move n pos q S) i) = (if i = n then q else ag_queue (cy_agents S i))"
  "cy_client (move n pos q S) = cy_client S" "cy_used (move n pos q S) = cy_used S"
  "cy_exited (move n pos q S) = cy_exited S" "cy_fresh (move n pos q S) = cy_fresh S"
  "cy_reported (move n pos q S) = cy_reported S"
  by (simp_all add: move_def)

lemma note_report_simps [simp]:
  "cy_client (note_report event S) = cy_client S" "cy_agents (note_report event S) = cy_agents S"
  "cy_used (note_report event S) = cy_used S" "cy_exited (note_report event S) = cy_exited S"
  by (simp_all add: note_report_def split: session_event.splits)

text \<open>A step of an agent with an empty queue: its new position and queue, the new state of the client
  and the identifiers in use.\<close>

lemma inv_move:
  assumes inv: "client_inv S" and empty: "ag_queue (cy_agents S n) = []"
    and T: "cy_client T = c" "cy_used T = used" "cy_exited T = cy_exited S"
      "\<And>i. position_of T i = (if i = n then pos else position_of S i)"
      "\<And>i. ag_queue (cy_agents T i) = (if i = n then q else ag_queue (cy_agents S i))"
    and c: "progress (cy_client S) c" "keys_distinct c" "sc_fatal c = sc_fatal (cy_client S)"
    and q: "queue_ok q" and used: "cy_used S \<subseteq> used"
    and req: "\<And>x. request_of pos = Some x \<Longrightarrow>
      request_of (position_of S n) = Some x \<or> x \<notin> cy_used S \<and> x \<in> used"
    and seat: "\<And>kind rid ch. seat pos = Some (kind, rid, ch) \<Longrightarrow> answered c ch \<or> registered c kind rid ch"
    and await: "\<And>kind ch. awaited pos = Some (kind, ch) \<Longrightarrow> sc_fatal (cy_client S) = None"
    and exit: "\<And>rid ch. exit_seat pos = Some (rid, ch) \<Longrightarrow>
      exit_seat (position_of S n) = Some (rid, ch) \<or> rid \<notin> cy_exited S"
    and compl: "\<And>rid. rid \<in> cy_exited S \<Longrightarrow> sc_completed c rid = None \<Longrightarrow>
      (WExit, rid) \<in> used \<and> unconsumed pos \<noteq> Some rid \<and> (\<forall>i. i \<noteq> n \<longrightarrow> unconsumed (position_of S i) \<noteq> Some rid)"
    and rd: "pos = ReaderDone \<Longrightarrow> sc_stopped c \<or> MarkStopped \<in> set q"
  shows "client_inv T"
proof -
  have queued: "queued a S \<Longrightarrow> queued a T" for a
    using empty by (auto simp: queued_def T) (metis empty_iff list.set(1))
  have ans: "answered (cy_client S) ch \<Longrightarrow> answered c ch" for ch using c(1) by (simp add: progress_def)
  have own: "request_of (position_of S i) = Some x \<Longrightarrow> x \<in> cy_used S"
    "request_of (position_of S i) = Some x \<Longrightarrow> request_of (position_of S j) = Some x \<Longrightarrow> j = i" for i j x
    using inv unfolding client_inv_def owners_ok_def by blast+
  have new: "x \<in> used" "request_of (position_of S i) = Some x \<Longrightarrow> i = n" if "request_of pos = Some x" for i x
    using req [OF that] own used by blast+
  have "owners_ok T"
    unfolding owners_ok_def T
  proof (intro allI impI conjI)
    fix i x assume i: "request_of (if i = n then pos else position_of S i) = Some x"
    show "x \<in> used" using i new(1) subsetD [OF used own(1)] by (metis (full_types))
    fix j assume "request_of (if j = n then pos else position_of S j) = Some x"
    with i new(2) own(2) show "j = i" by (auto split: if_splits)
  qed
  moreover have "seats_ok T"
    using inv seat c(1) unfolding client_inv_defs T progress_def by (auto split: if_splits; metis)
  moreover have "fatal_ok T"
    using inv await queued ans unfolding client_inv_defs T c(3) by (auto split: if_splits; metis)
  moreover have "exits_ok T"
    using inv exit queued ans unfolding client_inv_defs T by (auto split: if_splits; metis)
  moreover have "completed_ok T"
    using compl unfolding completed_ok_def T by auto
  moreover have "reader_end_ok T"
    using inv rd c(1) unfolding client_inv_defs T progress_def by (auto split: if_splits)
  moreover have "queue_ok (ag_queue (cy_agents T i))" for i
    using inv q unfolding client_inv_def T by simp
  ultimately show ?thesis unfolding client_inv_def T(1) using c(2) by simp
qed

text \<open>The usual case: the completed exits stay, and the new position consumes or keeps what the old one had.\<close>

lemma inv_move_keep:
  assumes inv: "client_inv S" and empty: "ag_queue (cy_agents S n) = []"
    and T: "cy_client T = c" "cy_used T = used" "cy_exited T = cy_exited S"
      "\<And>i. position_of T i = (if i = n then pos else position_of S i)"
      "\<And>i. ag_queue (cy_agents T i) = (if i = n then q else ag_queue (cy_agents S i))"
    and c: "progress (cy_client S) c" "keys_distinct c" "sc_fatal c = sc_fatal (cy_client S)"
      "sc_completed c = sc_completed (cy_client S)"
    and q: "queue_ok q" and used: "cy_used S \<subseteq> used"
    and req: "\<And>x. request_of pos = Some x \<Longrightarrow>
      request_of (position_of S n) = Some x \<or> x \<notin> cy_used S \<and> x \<in> used"
    and seat: "\<And>kind rid ch. seat pos = Some (kind, rid, ch) \<Longrightarrow> answered c ch \<or> registered c kind rid ch"
    and await: "\<And>kind ch. awaited pos = Some (kind, ch) \<Longrightarrow> sc_fatal (cy_client S) = None"
    and exit: "\<And>rid ch. exit_seat pos = Some (rid, ch) \<Longrightarrow>
      exit_seat (position_of S n) = Some (rid, ch) \<or> rid \<notin> cy_exited S"
    and keep: "\<And>rid. unconsumed pos = Some rid \<Longrightarrow>
      unconsumed (position_of S n) = Some rid \<or> (WExit, rid) \<notin> cy_used S"
    and rd: "pos = ReaderDone \<Longrightarrow> sc_stopped c \<or> MarkStopped \<in> set q"
  shows "client_inv T"
proof (rule inv_move [OF inv empty T c(1-3) q used req seat await exit _ rd])
  fix rid assume "rid \<in> cy_exited S" "sc_completed c rid = None"
  with inv c(4) have "(WExit, rid) \<in> cy_used S" "\<And>i. unconsumed (position_of S i) \<noteq> Some rid"
    by (auto simp: client_inv_def completed_ok_def)
  with keep used show "(WExit, rid) \<in> used \<and> unconsumed pos \<noteq> Some rid \<and>
      (\<forall>i. i \<noteq> n \<longrightarrow> unconsumed (position_of S i) \<noteq> Some rid)" by blast
qed auto

lemma seat_of_awaited: "awaited pos = Some (kind, ch) \<Longrightarrow> \<exists>rid. seat pos = Some (kind, rid, ch)"
  by (cases pos) auto

lemma seat_of_exit_seat: "exit_seat pos = Some (rid, ch) \<Longrightarrow> seat pos = Some (WExit, rid, ch)"
  by (cases pos) (auto split: if_splits)

lemma queue_ok_Cons: "queue_ok (a # q) \<Longrightarrow> queue_ok q"
  by (cases a) auto

lemma inv_act:
  assumes inv: "client_inv S" and ag: "cy_agents S n = \<lparr>ag_position = pos, ag_queue = a # q\<rparr>"
    and T: "T = move n pos q (note_exit a (on_client (perform a) S))"
  shows "client_inv T"
proof -
  let ?c = "cy_client S"
  have kd: "keys_distinct ?c" and qok: "queue_ok (a # q)"
    using inv ag by (auto simp: client_inv_def dest!: spec [where x = n])
  note pf = perform_facts [OF kd]
  have cl: "cy_client T = perform a ?c" "cy_used T = cy_used S"
    "cy_exited T = (case a of StoreExit rid _ \<Rightarrow> insert rid (cy_exited S) | _ \<Rightarrow> cy_exited S)"
    by (cases a; simp add: T note_exit_def on_client_def)+
  have ags: "cy_agents (note_exit a (on_client (perform a) S)) = cy_agents S"
    by (cases a) (simp_all add: note_exit_def on_client_def)
  have pos: "position_of T i = position_of S i" for i using ag by (simp add: T ags)
  have que: "ag_queue (cy_agents T i) = (if i = n then q else ag_queue (cy_agents S i))" for i by (simp add: T ags)
  have queued: "queued b S \<Longrightarrow> queued b T \<or> b = a" for b
    using ag by (auto simp: queued_def que) (metis agent.select_convs(2) set_ConsD)
  have inq: "b \<in> set q \<Longrightarrow> queued b T" for b by (auto simp: queued_def que)
  have ans: "answered ?c ch \<Longrightarrow> answered (perform a ?c) ch" for ch using pf(2) by (simp add: progress_def)
  have reg: "answered ?c ch \<or> registered ?c kind rid ch" if "seat (position_of S i) = Some (kind, rid, ch)" for i kind rid ch
    using inv that unfolding client_inv_def seats_ok_def by blast
  have "owners_ok T" using inv unfolding client_inv_def owners_ok_def pos cl by blast
  moreover have "seats_ok T"
    unfolding seats_ok_def pos cl using reg pf(2) unfolding progress_def by blast
  moreover have "fatal_ok T"
    unfolding fatal_ok_def pos cl
  proof (intro allI impI)
    fix i kind ch assume aw: "awaited (position_of S i) = Some (kind, ch)" and fatal: "sc_fatal (perform a ?c) \<noteq> None"
    show "answered (perform a ?c) ch \<or> (\<exists>e. queued (FailWaiters kind e) T)"
    proof (cases "sc_fatal ?c")
      case None
      with fatal [unfolded pf(3)] obtain e where "a = StoreFatal e" by (cases a) auto
      with qok inq show ?thesis by auto
    next
      case (Some f)
      with inv aw consider "answered ?c ch" | e where "queued (FailWaiters kind e) S"
        unfolding client_inv_def fatal_ok_def by blast
      then show ?thesis
      proof cases
        case 2
        from seat_of_awaited [OF aw] reg obtain rid where "answered ?c ch \<or> registered ?c kind rid ch" by blast
        with 2 queued pf(5) ans show ?thesis by blast
      qed (use ans in blast)
    qed
  qed
  moreover have "exits_ok T"
    unfolding exits_ok_def pos
  proof (intro allI impI)
    fix i rid ch assume ex: "exit_seat (position_of S i) = Some (rid, ch)" and rid: "rid \<in> cy_exited T"
    show "answered (cy_client T) ch \<or> (\<exists>x. queued (AnswerWaiter WExit rid x) T)"
    proof (cases "rid \<in> cy_exited S")
      case False
      with rid obtain exit where "a = StoreExit rid exit" by (cases a) (auto simp: cl)
      with qok inq show ?thesis by auto
    next
      case True
      with inv ex consider "answered ?c ch" | x where "queued (AnswerWaiter WExit rid x) S"
        unfolding client_inv_def exits_ok_def by blast
      then show ?thesis unfolding cl
      proof cases
        case 2
        from reg [OF seat_of_exit_seat [OF ex]] 2 queued pf(6) ans
        show "answered (perform a ?c) ch \<or> (\<exists>x. queued (AnswerWaiter WExit rid x) T)" by blast
      qed (use ans in blast)
    qed
  qed
  moreover have "completed_ok T"
    using inv unfolding client_inv_def completed_ok_def pos cl pf(4) by (cases a) (auto split: if_splits)
  moreover have "reader_end_ok T"
    unfolding reader_end_ok_def pos
  proof (intro allI impI)
    fix i assume i: "position_of S i = ReaderDone"
    with inv have "sc_stopped ?c \<or> MarkStopped \<in> set (ag_queue (cy_agents S i))"
      unfolding client_inv_def reader_end_ok_def by blast
    then show "sc_stopped (cy_client T) \<or> MarkStopped \<in> set (ag_queue (cy_agents T i))"
      using pf(2,7) ag by (auto simp: cl que progress_def)
  qed
  moreover have "queue_ok (ag_queue (cy_agents T i))" for i
    using inv qok queue_ok_Cons unfolding client_inv_def que by auto
  ultimately show ?thesis unfolding client_inv_def cl(1) using pf(1) by simp
qed

lemma take_completed_facts:
  assumes "take_completed_exit rid c = (r, c')"
  shows "progress c c'" "keys_distinct c' = keys_distinct c" "sc_fatal c' = sc_fatal c"
    "sc_completed c' = (sc_completed c)(rid := None)" "r = sc_completed c rid"
    "answered c' ch = answered c ch" "registered c' kind x ch = registered c kind x ch"
  using assms by (auto simp: take_completed_exit_def keys_distinct_def answered_def registered_def)

lemma register_simps [simp]:
  "cy_client (register kind rid S) = insert_waiter kind rid (cy_fresh S) (cy_client S)"
  "cy_agents (register kind rid S) = cy_agents S" "cy_used (register kind rid S) = cy_used S"
  "cy_exited (register kind rid S) = cy_exited S" "cy_reported (register kind rid S) = cy_reported S"
  by (simp_all add: register_def)

lemma on_client_simps [simp]:
  "cy_client (on_client f S) = f (cy_client S)" "cy_agents (on_client f S) = cy_agents S"
  "cy_used (on_client f S) = cy_used S" "cy_exited (on_client f S) = cy_exited S"
  "cy_reported (on_client f S) = cy_reported S"
  by (simp_all add: on_client_def)

lemma queue_ok_set_fatal [simp]: "queue_ok (set_fatal e)" "queue_ok (fail_pending_waiters e @ [MarkStopped])"
proof -
  have "\<exists>e'. FailWaiters kind e' \<in> set (fail_pending_waiters e)" for kind
    by (cases kind) (auto simp: fail_pending_waiters_def)
  then show "queue_ok (set_fatal e)" "queue_ok (fail_pending_waiters e @ [MarkStopped])"
    by (auto simp: set_fatal_def fail_pending_waiters_def)
qed

lemma mark_in_set_fatal [simp]: "MarkStopped \<in> set (set_fatal e)"
  by (simp add: set_fatal_def)

lemma queue_ok_dispatch: "queue_ok (dispatch event)"
  by (cases event rule: dispatch.cases) (auto simp: Let_def)

text \<open>A taken exit consumes it for its only owner.\<close>

lemma consumed_elsewhere:
  assumes "client_inv S" "request_of (position_of S n) = Some (WExit, rid)" "i \<noteq> n"
  shows "unconsumed (position_of S i) \<noteq> Some rid"
proof
  assume "unconsumed (position_of S i) = Some rid"
  then have "request_of (position_of S i) = Some (WExit, rid)" by (cases "position_of S i") (auto split: if_splits)
  with assms show False unfolding client_inv_def owners_ok_def by blast
qed

text \<open>Taking the completed exit of a controller, by the agent that owns it.\<close>

lemma inv_take:
  assumes inv: "client_inv S" and ag: "cy_agents S n = \<lparr>ag_position = old, ag_queue = []\<rparr>"
    and old: "request_of old = Some (WExit, rid)" "unconsumed old = Some rid"
    and r: "take_completed_exit rid (cy_client S) = (r, c)"
    and T: "T = move n pos [] (S\<lparr>cy_client := c\<rparr>)"
    and pos: "request_of pos = None \<or> request_of pos = Some (WExit, rid)" "seat pos = None \<or> seat pos = seat old"
      "awaited pos = None" "pos \<noteq> ReaderDone"
      "r \<noteq> None \<Longrightarrow> unconsumed pos = None \<and> exit_seat pos = None"
      "r = None \<Longrightarrow> unconsumed pos = Some rid \<and> (\<forall>x ch. exit_seat pos = Some (x, ch) \<longrightarrow> x = rid)"
  shows "client_inv T"
proof -
  note tf = take_completed_facts [OF r]
  have oldpos: "position_of S n = old" using ag by simp
  have used: "(WExit, rid) \<in> cy_used S"
    using inv old(1) oldpos unfolding client_inv_def owners_ok_def by metis
  have noexit: "r = None \<Longrightarrow> rid \<notin> cy_exited S"
    using inv old(2) oldpos tf(5) unfolding client_inv_def completed_ok_def by metis
  show ?thesis
  proof (rule inv_move [OF inv, where n = n and pos = pos and c = c and q = "[]" and used = "cy_used S"])
    show "answered c ch \<or> registered c kind x ch" if "seat pos = Some (kind, x, ch)" for kind x ch
      using that pos(2) inv oldpos tf(6,7) unfolding client_inv_def seats_ok_def by (metis option.distinct(1))
    show "exit_seat (position_of S n) = Some (x, ch) \<or> x \<notin> cy_exited S" if "exit_seat pos = Some (x, ch)" for x ch
      using that pos(5,6) noexit by (cases r) auto
    show "(WExit, x) \<in> cy_used S \<and> unconsumed pos \<noteq> Some x \<and> (\<forall>i. i \<noteq> n \<longrightarrow> unconsumed (position_of S i) \<noteq> Some x)"
      if x: "x \<in> cy_exited S" "sc_completed c x = None" for x
    proof (cases "x = rid")
      case True
      then have "r \<noteq> None" using noexit x(1) by blast
      with True used pos(5) consumed_elsewhere [OF inv, of n rid] old(1) oldpos show ?thesis by simp
    next
      case False
      with x tf(4) have "sc_completed (cy_client S) x = None" by simp
      with inv x(1) have "(WExit, x) \<in> cy_used S" "\<And>i. unconsumed (position_of S i) \<noteq> Some x"
        unfolding client_inv_def completed_ok_def by blast+
      with False pos(5,6) show ?thesis by (cases r) auto
    qed
  qed (use inv ag T tf pos old oldpos in \<open>auto simp: client_inv_def\<close>)
qed

lemma step_preserves:
  assumes "client_step S T" and inv: "client_inv S"
  shows "client_inv T"
proof -
  have kd: "keys_distinct (cy_client S)" using inv by (simp add: client_inv_def)
  have seat: "answered (cy_client S) ch \<or> registered (cy_client S) kind rid ch"
    if "seat (position_of S n) = Some (kind, rid, ch)" for n kind rid ch
    using inv that unfolding client_inv_def seats_ok_def by blast
  note keep = inv_move_keep [OF inv]
  from assms(1) show ?thesis
  proof cases
  case (act n pos a q)
  then show ?thesis using inv_act [OF inv] by blast
next
  case (read_event n event)
  show ?thesis
    by (rule keep [where n = n and pos = Reading and c = "cy_client S" and q = "dispatch event"])
      (use inv read_event in \<open>auto simp: client_inv_def queue_ok_dispatch\<close>)
next
  case (read_failed n e)
  show ?thesis
    by (rule keep [where n = n and pos = Ending and c = "cy_client S" and q = "set_fatal e"])
      (use inv read_failed in \<open>auto simp: client_inv_def\<close>)
next
  case (read_closed n)
  show ?thesis
    by (rule keep [where n = n and pos = Ending and c = "cy_client S" and q = "[]"])
      (use inv read_closed in \<open>auto simp: client_inv_def\<close>)
next
  case (read_end n)
  show ?thesis
    by (rule keep [where n = n and pos = ReaderDone and c = "cy_client S"
          and q = "reader_end (cy_client S)"])
      (use inv read_end in \<open>auto simp: client_inv_def reader_end_def\<close>)
next
  case (start_request n kind rid)
  show ?thesis
    by (rule keep [where n = n and pos = "Writing kind rid (cy_fresh S)" and q = "[]"
          and c = "insert_waiter kind rid (cy_fresh S) (cy_client S)" and used = "insert (kind, rid) (cy_used S)"])
      (use start_request insert_waiter_facts [OF kd] in auto)
next
  case (write_done n kind rid ch)
  show ?thesis
    by (rule keep [where n = n and pos = "Awaiting kind rid ch" and q = "[]" and c = "cy_client S"])
      (use write_done kd seat [of n] in auto)
next
  case (write_refused n kind rid ch e)
  show ?thesis
    by (rule keep [where n = n and pos = "WriteFailed kind rid ch e" and q = "[]" and c = "cy_client S"])
      (use write_refused kd seat [of n] in auto)
next
  case (write_error n kind rid ch e)
  show ?thesis
    by (rule keep [where n = n and pos = "WriteFailed kind rid ch e" and q = "set_fatal e" and c = "cy_client S"])
      (use write_error kd seat [of n] in auto)
next
  case (write_failed n kind rid ch e)
  show ?thesis
    by (rule keep [where n = n and pos = "Finished (AnsErr e)" and q = "[]" and c = "remove_waiter kind rid AnsDropped (cy_client S)"])
      (use write_failed remove_waiter_facts [OF kd] in auto)
next
  case (receive n kind rid ch a)
  show ?thesis
  proof (cases "kind = WExit \<and> (\<exists>exit. a = AnsExit exit)")
    case False
    then have T: "T = move n (Finished a) [] S" using receive(1) by (simp only: if_False)
    show ?thesis
      by (rule keep [where n = n and pos = "Finished a" and q = "[]" and c = "cy_client S"])
        (use receive(2) kd T in auto)
  next
    case True
    obtain r c where r: "take_completed_exit rid (cy_client S) = (r, c)" by force
    with True have T: "T = move n (Finished a) [] (S\<lparr>cy_client := c\<rparr>)" using receive(1) by (simp add: on_client_def)
    note tf = take_completed_facts [OF r]
    show ?thesis
    proof (cases r)
      case None
      then have "sc_completed c = sc_completed (cy_client S)" using tf(4,5) by (simp add: fun_upd_idem)
      then show ?thesis
        by (intro keep [where n = n and pos = "Finished a" and q = "[]" and c = c])
          (use receive(2) kd T tf in auto)
    next
      case (Some exit)
      then show ?thesis
        by (intro inv_take [OF inv receive(2) _ _ r T]) (use True in auto)
    qed
  qed
next
  case (start_wait n rid)
  show ?thesis
    by (rule keep [where n = n and pos = "ExitTake1 rid" and q = "[]" and c = "cy_client S" and used = "insert (WExit, rid) (cy_used S)"])
      (use start_wait kd in auto)
next
  case (take1 n rid r c)
  show ?thesis
    by (rule inv_take [OF inv take1(2) _ _ take1(3,1)]) (auto split: option.splits)
next
  case (fatal1 n rid)
  show ?thesis
    by (rule keep [where n = n and pos = "case try_fatal (cy_client S) of Some e \<Rightarrow> Finished (AnsErr e) | None \<Rightarrow> ExitInsert rid" and q = "[]" and c = "cy_client S"])
      (use fatal1 kd in \<open>auto split: option.splits\<close>)
next
  case (insert n rid)
  show ?thesis
    by (rule keep [where n = n and pos = "ExitTake2 rid (cy_fresh S)" and q = "[]" and c = "insert_waiter WExit rid (cy_fresh S) (cy_client S)"])
      (use insert insert_waiter_facts [OF kd] in auto)
next
  case (take2 n rid ch r c)
  show ?thesis
    by (rule inv_take [OF inv take2(2) _ _ take2(3,1)]) (auto split: option.splits)
next
  case (fatal2 n rid ch)
  show ?thesis
    by (rule keep [where n = n and pos = "case try_fatal (cy_client S) of Some e \<Rightarrow> ExitLeave rid ch (AnsErr e) | None \<Rightarrow> Awaiting WExit rid ch" and q = "[]" and c = "cy_client S"])
      (use fatal2 kd seat [of n] in \<open>auto simp: try_fatal_def split: option.splits\<close>)
next
  case (leave n rid ch a)
  show ?thesis
    by (rule keep [where n = n and pos = "Finished a" and q = "[]" and c = "remove_waiter WExit rid AnsDropped (cy_client S)"])
      (use leave remove_waiter_facts [OF kd] in auto)
next
  case (cancel n rid ch)
  show ?thesis
    by (rule keep [where n = n and pos = "ExitCancelled rid" and q = "[]" and c = "cy_client S"])
      (use cancel kd in auto)
next
  case (abandon n kind rid ch)
  show ?thesis
    by (rule keep [where n = n and pos = "Finished AnsDropped" and q = "[]" and c = "cy_client S"])
      (use abandon kd in auto)
next
  case (wait_again n rid)
  show ?thesis
    by (rule keep [where n = n and pos = "ExitTake1 rid" and q = "[]" and c = "cy_client S"])
      (use wait_again kd in auto)
qed
qed

text \<open>An exit that the sidecar reported is stored, or the reader is about to store it.\<close>

definition reported_ok :: "client_system \<Rightarrow> bool" where
  "reported_ok S \<longleftrightarrow> (\<forall>rid \<in> cy_reported S. rid \<in> cy_exited S \<or> (\<exists>exit. queued (StoreExit rid exit) S))"

lemma queued_move:
  assumes "queued b S" "ag_queue (cy_agents S n) = [] \<or> (ag_queue (cy_agents S n) = a # q \<and> b \<noteq> a)"
    "cy_agents S' = cy_agents S"
  shows "queued b (move n pos q S')"
proof -
  from assms(1) obtain m where m: "b \<in> set (ag_queue (cy_agents S m))" by (auto simp: queued_def)
  then have "b \<in> set (ag_queue (cy_agents (move n pos q S') m))" using assms(2,3) by (cases "m = n") auto
  then show ?thesis unfolding queued_def by blast
qed

lemma reported_keep:
  assumes "reported_ok S" "ag_queue (cy_agents S n) = []" "cy_agents S' = cy_agents S"
    "cy_reported S' = cy_reported S" "cy_exited S' = cy_exited S"
  shows "reported_ok (move n pos q S')"
  using assms queued_move [of _ S n undefined q S' pos] unfolding reported_ok_def by fastforce

lemma reported_step:
  assumes "client_step S T" and ok: "reported_ok S"
  shows "reported_ok T"
  using assms(1)
proof cases
  case (act n pos a q)
  let ?S = "note_exit a (on_client (perform a) S)"
  have S: "cy_agents ?S = cy_agents S" "cy_reported ?S = cy_reported S"
    "cy_exited S \<subseteq> cy_exited ?S" "\<And>rid exit. a = StoreExit rid exit \<Longrightarrow> rid \<in> cy_exited ?S"
    by (auto simp: note_exit_def on_client_def split: client_action.splits)
  show ?thesis unfolding reported_ok_def
  proof
    fix rid assume "rid \<in> cy_reported T"
    then have "rid \<in> cy_exited S \<or> (\<exists>exit. queued (StoreExit rid exit) S)"
      using ok act(1) S(2) by (simp add: reported_ok_def)
    then show "rid \<in> cy_exited T \<or> (\<exists>exit. queued (StoreExit rid exit) T)"
    proof (elim disjE exE)
      fix exit assume q: "queued (StoreExit rid exit) S"
      show ?thesis
      proof (cases "StoreExit rid exit = a")
        case False
        then have "queued (StoreExit rid exit) T" unfolding act(1) using q act(2) S(1) by (intro queued_move) auto
        then show ?thesis by blast
      qed (use S(4) act(1) in auto)
    qed (use S(3) act(1) in auto)
  qed
next
  case (read_event n event)
  have keep: "reported_ok (move n Reading (dispatch event) S)" using ok read_event by (intro reported_keep) simp_all
  show ?thesis
  proof (cases event)
    case (ControllerExited rid pid code signal)
    have same: "queued a T = queued a (move n Reading (dispatch event) S)" for a
      by (simp add: queued_def read_event(1))
    have "queued (StoreExit rid \<lparr>ce_exit_code = code, ce_signal = signal\<rparr>) T"
      by (auto simp: queued_def ControllerExited Let_def read_event(1) intro!: exI [of _ n])
    moreover have "cy_reported T = insert rid (cy_reported S)" "cy_exited T = cy_exited S"
      by (simp_all add: read_event(1) ControllerExited note_report_def)
    ultimately show ?thesis using keep unfolding reported_ok_def same by auto
  qed (use keep read_event(1) in \<open>simp_all add: note_report_def\<close>)
qed (use ok in \<open>auto intro!: reported_keep\<close>)

lemma client_inv_start: "client_inv client_start"
  by (auto simp: client_inv_defs client_start_def client_new_def keys_distinct_def split: if_splits)

interpretation clients: guarded_machine client_reachable client_step client_inv
proof
  show "client_inv S" if "client_reachable S" for S
    using that unfolding client_reachable_def
    by (induction rule: rtranclp_induct) (auto intro: client_inv_start step_preserves)
  show "client_reachable T" if "client_reachable S" "client_step S T" for S T
    using that unfolding client_reachable_def by (rule rtranclp.rtrancl_into_rtrancl)
qed

interpretation client_reports: guarded_machine client_reachable client_step reported_ok
proof
  show "reported_ok S" if "client_reachable S" for S
    using that unfolding client_reachable_def
  proof (induction rule: rtranclp_induct)
    case base then show ?case by (simp add: reported_ok_def client_start_def)
  qed (rule reported_step)
qed (rule clients.reach_step)

section \<open>Guarantees\<close>

text \<open>C20: no answer is lost, however requests, waits, cancellations, events and failures interleave.  When all
  actions begun have been performed, a task that still waits is registered for its answer, the
  session has no fatal error, the exit it waits for has not been reported, and if the reader has ended,
  it was after the supervisor announced that it stopped.\<close>

theorem no_lost_answer:
  assumes "client_reachable S" "\<And>j. ag_queue (cy_agents S j) = []"
    and "ag_position (cy_agents S i) = Awaiting kind rid ch" "sc_answers (cy_client S) ch = None"
  shows "(rid, ch) \<in> set (sc_waiters (cy_client S) kind) \<and> sc_fatal (cy_client S) = None \<and>
    (kind = WExit \<longrightarrow> rid \<notin> cy_reported S) \<and>
    (\<forall>j. ag_position (cy_agents S j) = ReaderDone \<longrightarrow> sc_stopped (cy_client S))"
proof -
  have inv: "client_inv S" by (rule clients.reach_inv [OF assms(1)])
  have empty: "\<not> queued a S" for a using assms(2) by (simp add: queued_def)
  have open_: "\<not> answered (cy_client S) ch" using assms(4) by (simp add: answered_def)
  have "registered (cy_client S) kind rid ch"
    using inv assms(3) open_ unfolding client_inv_def seats_ok_def by (metis seat.simps(3))
  moreover have "sc_fatal (cy_client S) = None"
    using inv assms(3) open_ empty unfolding client_inv_def fatal_ok_def by (metis awaited.simps(1))
  moreover have "rid \<notin> cy_reported S" if "kind = WExit"
    using client_reports.reach_inv [OF assms(1)] inv assms(3) open_ empty that unfolding client_inv_def exits_ok_def reported_ok_def
    by (metis exit_seat.simps(2))
  moreover have "sc_stopped (cy_client S)" if "ag_position (cy_agents S j) = ReaderDone" for j
    using inv assms(2) that unfolding client_inv_def reader_end_ok_def by (metis empty_iff list.set(1))
  ultimately show ?thesis by (auto simp: registered_def)
qed

lemma env_map_of_distinct:
  "env_map_of acc env = Inr m \<Longrightarrow> distinct (map fst acc) \<Longrightarrow> distinct (map fst m)"
proof (induction acc env arbitrary: m rule: env_map_of.induct)
  case (2 acc key v rest)
  then show ?case by (auto simp: and_then_def utf8_os_def split: if_splits sum.splits)
qed simp

lemma with_wineprefix_facts:
  assumes "with_wineprefix fs owned m0 = Inr m" "distinct (map fst m0)"
    and "canonicalize_prefix_path fs (path_of (path_display owned)) = Some owned"
  shows "distinct (map fst m) \<and>
    (\<exists>w. map_of m ''WINEPREFIX'' = Some (Some w) \<and> canonicalize_prefix_path fs (path_of w) = Some owned)"
proof (cases "map_of m0 ''WINEPREFIX''")
  case None
  then have "''WINEPREFIX'' \<notin> fst ` set m0" by (simp add: map_of_eq_None_iff)
  with None assms show ?thesis by (auto simp: with_wineprefix_def map_add_def)
next
  case (Some v)
  with assms show ?thesis
    by (auto simp: with_wineprefix_def and_then_def require_owned_def split: option.splits if_splits sum.splits)
qed

text \<open>C35: a specification the launcher builds for a prefix it owns never fails the sidecar's checks of the
  prefix: whatever order the environment comes in, the sidecar refuses it only for too many arguments, an
  unusable key or value, a program that is not executable or a directory that is not there; and then
  the process runs in exactly the merged environment.\<close>

theorem built_spec_accepted:
  assumes "invocation_to_spec fs order invocation owned = Inr spec"
    and "\<And>xs. mset (order xs) = mset xs"
    and "canonicalize_prefix_path fs (path_of (path_display owned)) = Some owned"
  shows "(validate_process_spec_structure spec = Inr () \<longleftrightarrow>
      length (ps_args spec) \<le> 4096 \<and> list_all change_ok (ps_env spec)) \<and>
    (validate_process_spec_structure spec = Inr () \<and> is_executable fs (path_of (ps_program spec)) \<and>
       path_is_dir fs (path_of (ps_cwd spec)) \<longrightarrow>
     validate_spec_for_launch fs spec owned base = Inr (merge_env base (ps_env spec)))"
proof -
  from assms(1) obtain m0 m where m: "env_map_of [] (ri_env invocation) = Inr m0" "with_wineprefix fs owned m0 = Inr m"
    "check_steam_path fs owned m = Inr ()" "is_absolute (path_of (ps_program spec))" "is_absolute (path_of (ps_cwd spec))"
    "ps_env spec = map (\<lambda>(key, v). \<lparr>ec_key = key, ec_value = v\<rparr>) (order m)"
    by (auto simp: invocation_to_spec_def and_then_def Let_def split: sum.splits if_splits)
  from env_map_of_distinct [OF m(1)] with_wineprefix_facts [OF m(2) _ assms(3)]
  obtain w where w: "distinct (map fst m)" "map_of m ''WINEPREFIX'' = Some (Some w)"
    "canonicalize_prefix_path fs (path_of w) = Some owned" by auto
  have dk: "distinct (map fst (order m))"
    using w(1) assms(2) [of m] by (metis mset_map mset_eq_imp_distinct_iff)
  have look: "map_of (order m) = map_of m"
    by (rule iffD2 [OF map_of_inject_set [OF dk w(1)] mset_eq_setD [OF assms(2)]])
  have keys: "map ec_key (ps_env spec) = map fst (order m)"
    "map (\<lambda>c. (ec_key c, ec_value c)) (ps_env spec) = order m"
    by (simp_all add: m(6) comp_def case_prod_beta)
  have wk: "''WINEPREFIX'' \<in> ec_key ` set (ps_env spec)"
  proof -
    from w(2) look have "map_of (order m) ''WINEPREFIX'' = Some (Some w)" by simp
    then have "''WINEPREFIX'' \<in> set (map fst (order m))" by (force dest: map_of_SomeD)
    then show ?thesis unfolding keys(1) [symmetric] by simp
  qed
  have iff: "validate_process_spec_structure spec = Inr () \<longleftrightarrow>
      length (ps_args spec) \<le> 4096 \<and> list_all change_ok (ps_env spec)"
    using spec_structure_iff [of spec] dk wk by (simp add: keys(1))
  let ?env = "merge_env base (ps_env spec)"
  have env: "?env k = (case map_of m k of Some v \<Rightarrow> v
      | None \<Rightarrow> if k = ''WINEPREFIX'' \<or> k = ''STEAM_COMPAT_DATA_PATH'' then None else base k)" for k
    using merge_env_lookup [of "ps_env spec" base k] dk by (simp add: keys look)
  have wp: "?env ''WINEPREFIX'' = Some w" by (simp add: env w(2))
  have st: "?env ''STEAM_COMPAT_DATA_PATH'' = Some d \<Longrightarrow> canonicalize_prefix_path fs (path_of d) = Some owned" for d
    using m(3) by (auto simp: env check_steam_path_def require_owned_def split: option.splits if_splits)
  have "validate_spec_for_launch fs spec owned base = Inr ?env"
    if "validate_process_spec_structure spec = Inr ()" "is_executable fs (path_of (ps_program spec))"
      "path_is_dir fs (path_of (ps_cwd spec))"
    using that m(4,5) wp w(3) st
    by (cases "fs_metadata fs (path_of (ps_cwd spec))"; cases "?env ''STEAM_COMPAT_DATA_PATH''")
      (auto simp: validate_spec_for_launch_def Let_def path_is_dir_def)
  with iff show ?thesis by blast
qed

section \<open>Witnesses\<close>

definition example_waiting :: client_system where
  "example_waiting = move 1 (Awaiting WLaunch ''r'' 0) []
     (move 1 (Writing WLaunch ''r'' 0) [] (register WLaunch ''r''
        (client_start\<lparr>cy_used := insert (WLaunch, ''r'') (cy_used client_start)\<rparr>)))"

lemma example_waiting_reachable: "client_reachable example_waiting"
proof -
  let ?W = "move 1 (Writing WLaunch ''r'' 0) [] (register WLaunch ''r''
        (client_start\<lparr>cy_used := insert (WLaunch, ''r'') (cy_used client_start)\<rparr>))"
  have "client_step client_start ?W"
    using start_request [of client_start 1 WLaunch "''r''"] by (simp add: client_start_def)
  moreover have "client_step ?W example_waiting"
    unfolding example_waiting_def
    by (rule write_done) (simp_all add: client_start_def client_new_def move_def insert_waiter_def Let_def)
  ultimately show ?thesis unfolding client_reachable_def by (meson rtranclp.rtrancl_into_rtrancl rtranclp.rtrancl_refl)
qed

theorem no_lost_answer_witness:
  "(''r'', 0) \<in> set (sc_waiters (cy_client example_waiting) WLaunch) \<and> sc_fatal (cy_client example_waiting) = None"
proof -
  have q: "ag_queue (cy_agents example_waiting j) = []" for j
    by (simp add: example_waiting_def client_start_def)
  have "ag_position (cy_agents example_waiting 1) = Awaiting WLaunch ''r'' 0"
    "sc_answers (cy_client example_waiting) 0 = None"
    by (simp_all add: example_waiting_def client_start_def client_new_def insert_waiter_def Let_def set_waiters_def)
  from no_lost_answer [OF example_waiting_reachable q this] show ?thesis by blast
qed

definition example_invocation :: runner_invocation where
  "example_invocation = \<lparr>ri_program = ''/bin/wine'', ri_args = [''game.exe''], ri_cwd = ''/pfx'',
     ri_env = [(''LANG'', Some ''C'')]\<rparr>"

theorem built_spec_accepted_witness:
  "\<exists>spec. invocation_to_spec example_fs id example_invocation (path_of ''/pfx'') = Inr spec \<and>
     validate_process_spec_structure spec = Inr ()"
proof -
  have p: "path_of ''/pfx'' = [RootDir, Normal ''pfx'']" "path_of ''/bin/wine'' = [RootDir, Normal ''bin'', Normal ''wine'']"
    by (simp_all add: path_of_def Let_def)
  have d: "path_display [RootDir, Normal ''pfx''] = ''/pfx''" by (simp add: path_display_def concat_with_def)
  let ?spec = "\<lparr>ps_program = ''/bin/wine'', ps_args = [''game.exe''], ps_cwd = ''/pfx'',
      ps_env = [\<lparr>ec_key = ''LANG'', ec_value = Some ''C''\<rparr>, \<lparr>ec_key = ''WINEPREFIX'', ec_value = Some ''/pfx''\<rparr>]\<rparr>"
  have spec: "invocation_to_spec example_fs id example_invocation (path_of ''/pfx'') = Inr ?spec"
    by (simp add: invocation_to_spec_def example_invocation_def utf8_os_def ascii_bytes_def and_then_def is_absolute_def
        p d utf8_value_def with_wineprefix_def check_steam_path_def)
  have "canonicalize_prefix_path example_fs (path_of (path_display (path_of ''/pfx''))) = Some (path_of ''/pfx'')"
    by (simp add: p d)
  from built_spec_accepted [OF spec _ this] have "validate_process_spec_structure ?spec = Inr ()"
    by (simp add: change_ok_def)
  with spec show ?thesis by blast
qed

end
