(* ===== verification/RunnerRegistry.thy ===== *)
theory RunnerRegistry
  imports SessionProtocol ProcInfo
begin

text \<open>
  The launcher's runner sessions (\<open>src-tauri/src/tools/runner_sessions/registry.rs\<close>): one supervisor per
  prefix, the leases that keep it alive, its idle shutdown, and the shutdown of everything when the
  launcher closes.

  A task is a position in its code; a step is one access to what tasks share: an atomic, a section
  under a mutex that reads or writes once, or the outcome of something awaited.  The per-prefix startup lock and the
  mutex around a session's state are explicit, as they are held across several accesses.  An \<open>Arc\<close> of
  a session is a number.  The answers of the sidecar, of timers and of the runtime are arguments.
\<close>

section \<open>Sessions\<close>

datatype runner_kind = Wine | Proton

record runner_anchor =
  ra_kind :: runner_kind
  ra_path :: string

datatype session_state = SsReady | SsStopping | SsStopped | SsFailed

datatype shutdown_cause = IdleCause u64 | Quiescent | Forced

record runner_session =
  rs_prefix :: string
  rs_runner :: runner_anchor
  rs_plan_id :: string
  rs_state :: session_state
  rs_guard :: "nat option"
  rs_child :: bool
  rs_redactions :: "string list"
  rs_active_requests :: u32
  rs_operation_leases :: u32
  rs_client_leases :: u32
  rs_idle_generation :: u64

definition new_session :: "string \<Rightarrow> runner_anchor \<Rightarrow> string \<Rightarrow> runner_session" where
  "new_session key runner plan_id =
     \<lparr>rs_prefix = key, rs_runner = runner, rs_plan_id = plan_id, rs_state = SsReady, rs_guard = None,
      rs_child = True, rs_redactions = [], rs_active_requests = 0, rs_operation_leases = 1,
      rs_client_leases = 0, rs_idle_generation = 0\<rparr>"

text \<open>The three loads of \<open>is_quiet\<close>, in their order; the conjunction stops at the first counter that is not
  zero.\<close>

datatype quiet_load = LoadOperations | LoadClients | LoadRequests

fun quiet_counter :: "quiet_load \<Rightarrow> runner_session \<Rightarrow> u32" where
  "quiet_counter LoadOperations s = rs_operation_leases s"
| "quiet_counter LoadClients s = rs_client_leases s"
| "quiet_counter LoadRequests s = rs_active_requests s"

fun next_load :: "quiet_load \<Rightarrow> quiet_load option" where
  "next_load LoadOperations = Some LoadClients"
| "next_load LoadClients = Some LoadRequests"
| "next_load LoadRequests = None"

fun merge_redactions :: "string list \<Rightarrow> string list \<Rightarrow> string list" where
  "merge_redactions current [] = current"
| "merge_redactions current (v # incoming) =
     merge_redactions (if v \<noteq> [] \<and> v \<notin> set current then current @ [v] else current) incoming"

section \<open>Positions\<close>

record begin_request =
  bq_key :: string
  bq_runner :: runner_anchor
  bq_plan_id :: string

text \<open>\<open>begin_operation_opt\<close>, \<open>shutdown_session\<close>, \<open>shutdown_session_locked\<close>, \<open>fail_session\<close>, the workers of
  \<open>shutdown_all_owned\<close> and \<open>shutdown_all\<close> itself, \<open>shutdown_prefix\<close>, the idle timer with
  \<open>idle_shutdown_if_quiet\<close>, \<open>schedule_idle_shutdown\<close> and \<open>on_controller_exited\<close>.\<close>

datatype begin_pc =
    BgEnter | BgWait | BgCheck | BgLook | BgJudge nat | BgQuiet nat quiet_load | BgGeneration nat
  | BgBump nat | BgLease nat | BgRemove nat | BgBoot | BgRecheck nat | BgInsert nat | BgAwait nat

datatype shut_pc = ShEnter | ShWait | ShLook

datatype close_pc =
    LkStart | LkQuiescent quiet_load | LkState | LkGeneration u64 | LkIdle quiet_load | LkCommit
  | LkRequest | LkAwait | LkChild | LkReap | LkMark | LkRemove

datatype fail_pc = FlStart | FlTake | FlReap | FlMark | FlRemove

datatype worker_pc = WkEnter | WkWait | WkLook | WkForce

datatype all_pc = AlClose | AlCensus | AlJoin "nat list" | AlRemaining | AlCleanup "nat list"

datatype timer_pc = TmSleep | TmLook | TmGeneration | TmQuiet quiet_load | TmState

datatype closer = ByTask shutdown_cause | ByWorker | ByBegin | ByForce

datatype outcome = Leased nat | Refused string | Done | Cancelled

datatype task_position =
    Unused
  | Begin begin_request begin_pc
  | Shut string nat shutdown_cause shut_pc
  | Close closer string nat close_pc
  | Fail closer string nat string fail_pc
  | Worker string worker_pc
  | CloseAll all_pc
  | PrefixLook string | PrefixAwait nat
  | Timer string nat u64 timer_pc
  | Schedule nat quiet_load | Arm nat
  | Bump nat
  | Exited nat "u32 option"
  | Finished outcome

record system =
  sy_heap :: "nat \<Rightarrow> runner_session"
  sy_fresh :: nat
  sy_sessions :: "string \<rightharpoonup> nat"
  sy_startup_locks :: "string set"
  sy_holder :: "string \<rightharpoonup> nat"
  sy_closing :: bool
  sy_tasks :: "nat \<Rightarrow> task_position"
  sy_next :: nat
  sy_aborted :: "nat set"
  sy_disposed :: "nat set"
  sy_operations :: "nat \<Rightarrow> nat"
  sy_clients :: "nat \<Rightarrow> nat"
  sy_census :: "string set option"
  sy_cleared :: "string set"

text \<open>The last five fields record the history and do not steer the program: the supervisors whose exit was awaited or that
  were sent SIGKILL (the child is spawned with \<open>kill_on_drop\<close>), the leases alive, the prefixes of the
  first census and the prefixes a worker has finished with.  (\<open>sy_aborted\<close> names the tasks whose abort was requested.)\<close>

datatype reply = Good | Bad string | TimedOut | Keys "string list"

definition upd :: "nat \<Rightarrow> (runner_session \<Rightarrow> runner_session) \<Rightarrow> system \<Rightarrow> system" where
  "upd x f S = S\<lparr>sy_heap := (sy_heap S)(x := f (sy_heap S x))\<rparr>"

definition spawn :: "task_position \<Rightarrow> system \<Rightarrow> system" where
  "spawn pos S = S\<lparr>sy_tasks := (sy_tasks S)(sy_next S := pos), sy_next := Suc (sy_next S)\<rparr>"

definition release :: "string \<Rightarrow> system \<Rightarrow> system" where
  "release k S = S\<lparr>sy_holder := (sy_holder S)(k := None)\<rparr>"

definition guard_by :: "nat option \<Rightarrow> nat \<Rightarrow> system \<Rightarrow> system" where
  "guard_by g x = upd x (\<lambda>s. s\<lparr>rs_guard := g\<rparr>)"

definition dispose :: "nat \<Rightarrow> system \<Rightarrow> system" where
  "dispose x S = S\<lparr>sy_disposed := insert x (sy_disposed S)\<rparr>"

definition startup_entry :: "string \<Rightarrow> system \<Rightarrow> system" where
  "startup_entry k S = S\<lparr>sy_startup_locks := insert k (sy_startup_locks S)\<rparr>"

definition remove_session_if_same :: "string \<Rightarrow> nat \<Rightarrow> system \<Rightarrow> system" where
  "remove_session_if_same k x S =
     (if sy_sessions S k = Some x then S\<lparr>sy_sessions := (sy_sessions S)(k := None)\<rparr> else S)"

section \<open>The operations\<close>

definition closing_text :: string where "closing_text = ''El launcher se est'' @ [CHR 0xE1] @ '' cerrando''"
definition runner_conflict_text :: string where
  "runner_conflict_text = ''El prefix ya est'' @ [CHR 0xE1] @
     '' activo con otro runner; ci'' @ [CHR 0xE9] @ ''rralo antes de cambiarlo.''"
definition plan_conflict_text :: string where
  "plan_conflict_text = ''El entorno todav'' @ [CHR 0xED] @ ''a est'' @ [CHR 0xE1] @ '' en uso con otra configuraci'' @
     [CHR 0xF3] @ ''n. Espera a que termine la preparaci'' @ [CHR 0xF3] @
     ''n o cierra el juego y las herramientas de ese servidor.''"

fun outcome_of :: "task_position \<Rightarrow> outcome option" where
  "outcome_of (Finished out) = Some out"
| "outcome_of _ = None"

fun begin_operation :: "nat \<Rightarrow> reply \<Rightarrow> begin_request \<Rightarrow> begin_pc \<Rightarrow> system \<Rightarrow> (task_position \<times> system) option" where
  "begin_operation n r q BgEnter S = Some (Begin q BgWait, startup_entry (bq_key q) S)"
| "begin_operation n r q BgWait S =
     (if sy_holder S (bq_key q) = None
      then Some (Begin q BgCheck, S\<lparr>sy_holder := (sy_holder S)(bq_key q \<mapsto> n)\<rparr>) else None)"
| "begin_operation n r q BgCheck S =
     Some (if sy_closing S then (Finished (Refused closing_text), release (bq_key q) S) else (Begin q BgLook, S))"
| "begin_operation n r q BgLook S =
     Some (case sy_sessions S (bq_key q) of None \<Rightarrow> (Begin q BgBoot, S) | Some x \<Rightarrow> (Begin q (BgJudge x), S))"
| "begin_operation n r q (BgJudge x) S =
     (if rs_guard (sy_heap S x) \<noteq> None then None
      else Some (case rs_state (sy_heap S x) of
          SsReady \<Rightarrow>
            if rs_runner (sy_heap S x) \<noteq> bq_runner q then
              (Finished (Refused runner_conflict_text), release (bq_key q) S)
            else if rs_plan_id (sy_heap S x) \<noteq> bq_plan_id q then
              (Begin q (BgQuiet x LoadOperations), guard_by (Some n) x S)
            else (Begin q (BgBump x), guard_by (Some n) x S)
        | SsStopping \<Rightarrow>
            (Begin q (BgAwait (sy_next S)), spawn (Shut (bq_key q) x Forced ShEnter) (release (bq_key q) S))
        | _ \<Rightarrow> (Begin q (BgRemove x), guard_by (Some n) x S)))"
| "begin_operation n r q (BgQuiet x l) S =
     Some (if quiet_counter l (sy_heap S x) \<noteq> 0 then
        (Finished (Refused plan_conflict_text), release (bq_key q) (guard_by None x S))
      else (case next_load l of
               Some l' \<Rightarrow> (Begin q (BgQuiet x l'), S) | None \<Rightarrow> (Begin q (BgGeneration x), S)))"
| "begin_operation n r q (BgGeneration x) S =
     Some (Begin q (BgAwait (sy_next S)),
       spawn (Shut (bq_key q) x (IdleCause (rs_idle_generation (sy_heap S x))) ShEnter)
         (release (bq_key q) (guard_by None x S)))"
| "begin_operation n r q (BgBump x) S =
     Some (Begin q (BgLease x), upd x (\<lambda>s. s\<lparr>rs_idle_generation := rs_idle_generation s + 1\<rparr>) S)"
| "begin_operation n r q (BgLease x) S =
     Some (Finished (Leased x),
       release (bq_key q) (guard_by None x (upd x (\<lambda>s. s\<lparr>rs_operation_leases := rs_operation_leases s + 1\<rparr>)
         (S\<lparr>sy_operations := (sy_operations S)(x := Suc (sy_operations S x))\<rparr>))))"
| "begin_operation n r q (BgRemove x) S =
     Some (Begin q BgBoot, guard_by None x (remove_session_if_same (bq_key q) x S))"
| "begin_operation n r q BgBoot S =
     (case r of
        Good \<Rightarrow> Some (Begin q (BgRecheck (sy_fresh S)),
          S\<lparr>sy_heap := (sy_heap S)(sy_fresh S := new_session (bq_key q) (bq_runner q) (bq_plan_id q)),
             sy_operations := (sy_operations S)(sy_fresh S := 1), sy_clients := (sy_clients S)(sy_fresh S := 0),
             sy_fresh := Suc (sy_fresh S)\<rparr>)
      | Bad e \<Rightarrow> Some (Finished (Refused e), release (bq_key q) S)
      | _ \<Rightarrow> None)"
| "begin_operation n r q (BgRecheck x) S =
     Some (if sy_closing S then (Close ByBegin (bq_key q) x LkStart, S) else (Begin q (BgInsert x), S))"
| "begin_operation n r q (BgInsert x) S =
     Some (Finished (Leased x), release (bq_key q) (S\<lparr>sy_sessions := (sy_sessions S)(bq_key q \<mapsto> x)\<rparr>))"
| "begin_operation n r q (BgAwait m) S =
     (case outcome_of (sy_tasks S m) of
        Some Done \<Rightarrow> Some (Begin q BgEnter, S)
      | Some (Refused e) \<Rightarrow> Some (Finished (Refused e), S)
      | _ \<Rightarrow> None)"

fun shutdown_session :: "nat \<Rightarrow> string \<Rightarrow> nat \<Rightarrow> shutdown_cause \<Rightarrow> shut_pc \<Rightarrow> system \<Rightarrow> (task_position \<times> system) option" where
  "shutdown_session n k x cause ShEnter S = Some (Shut k x cause ShWait, startup_entry k S)"
| "shutdown_session n k x cause ShWait S =
     (if sy_holder S k = None
      then Some (Shut k x cause ShLook, S\<lparr>sy_holder := (sy_holder S)(k \<mapsto> n)\<rparr>) else None)"
| "shutdown_session n k x cause ShLook S =
     Some (if sy_sessions S k \<noteq> Some x then (Finished Done, release k S) else (Close (ByTask cause) k x LkStart, S))"

text \<open>How \<open>shutdown_session_locked\<close> and \<open>fail_session\<close> return to their callers.\<close>

fun cause_of :: "closer \<Rightarrow> shutdown_cause" where
  "cause_of (ByTask cause) = cause"
| "cause_of _ = Forced"

definition returns :: "closer \<Rightarrow> string \<Rightarrow> (string, unit) result \<Rightarrow> system \<Rightarrow> task_position \<times> system" where
  "returns who k res S =
     (case who of
        ByTask _ \<Rightarrow> (Finished (case res of Inr _ \<Rightarrow> Done | Inl e \<Rightarrow> Refused e), release k S)
      | ByWorker \<Rightarrow> (Finished (case res of Inr _ \<Rightarrow> Done | Inl e \<Rightarrow> Refused e),
          (release k S)\<lparr>sy_cleared := insert k (sy_cleared S)\<rparr>)
      | ByBegin \<Rightarrow> (Finished (Refused (case res of Inr _ \<Rightarrow> closing_text | Inl e \<Rightarrow> e)), release k S)
      | ByForce \<Rightarrow> (Finished (Refused ''session shutdown timed out''), S))"

fun shutdown_session_locked ::
  "nat \<Rightarrow> reply \<Rightarrow> closer \<Rightarrow> string \<Rightarrow> nat \<Rightarrow> close_pc \<Rightarrow> system \<Rightarrow> (task_position \<times> system) option" where
  "shutdown_session_locked n r who k x LkStart S =
     (if rs_guard (sy_heap S x) \<noteq> None then None
      else Some (Close who k x (if cause_of who = Quiescent then LkQuiescent LoadOperations else LkState),
        guard_by (Some n) x S))"
| "shutdown_session_locked n r who k x (LkQuiescent l) S =
     Some (if quiet_counter l (sy_heap S x) \<noteq> 0 then
         returns who k (Inl ''cannot shutdown prefix while leases or requests are active'') (guard_by None x S)
       else (case next_load l of
               Some l' \<Rightarrow> (Close who k x (LkQuiescent l'), S) | None \<Rightarrow> (Close who k x LkState, S)))"
| "shutdown_session_locked n r who k x LkState S =
     Some (case rs_state (sy_heap S x) of
        SsStopping \<Rightarrow> (Close who k x LkAwait, guard_by None x S)
      | SsReady \<Rightarrow> (Close who k x (case cause_of who of IdleCause g \<Rightarrow> LkGeneration g | _ \<Rightarrow> LkCommit), S)
      | _ \<Rightarrow> returns who k (Inr ()) (guard_by None x S))"
| "shutdown_session_locked n r who k x (LkGeneration g) S =
     Some (if rs_idle_generation (sy_heap S x) \<noteq> g then returns who k (Inr ()) (guard_by None x S)
       else (Close who k x (LkIdle LoadOperations), S))"
| "shutdown_session_locked n r who k x (LkIdle l) S =
     Some (if quiet_counter l (sy_heap S x) \<noteq> 0 then returns who k (Inr ()) (guard_by None x S)
       else (case next_load l of
               Some l' \<Rightarrow> (Close who k x (LkIdle l'), S) | None \<Rightarrow> (Close who k x LkCommit, S)))"
| "shutdown_session_locked n r who k x LkCommit S =
     Some (Close who k x LkRequest, guard_by None x (upd x (\<lambda>s. s\<lparr>rs_state := SsStopping\<rparr>) S))"
| "shutdown_session_locked n r who k x LkRequest S =
     (case r of
        Good \<Rightarrow> Some (Close who k x LkAwait, S)
      | Bad e \<Rightarrow> Some (Fail who k x e FlStart, S)
      | TimedOut \<Rightarrow> Some (Fail who k x ''wait Stopped timed out'' FlStart, S)
      | Keys _ \<Rightarrow> None)"
| "shutdown_session_locked n r who k x LkAwait S =
     (case r of
        Good \<Rightarrow> Some (Close who k x LkChild, S)
      | Bad e \<Rightarrow> Some (Fail who k x e FlStart, S)
      | TimedOut \<Rightarrow> Some (Fail who k x ''wait Stopped timed out'' FlStart, S)
      | Keys _ \<Rightarrow> None)"
| "shutdown_session_locked n r who k x LkChild S =
     Some (if rs_child (sy_heap S x) then (Close who k x LkReap, upd x (\<lambda>s. s\<lparr>rs_child := False\<rparr>) S)
       else (Close who k x LkMark, S))"
| "shutdown_session_locked n r who k x LkReap S =
     (case r of
        Good \<Rightarrow> Some (Close who k x LkMark, dispose x S)
      | _ \<Rightarrow> Some (Fail who k x ''supervisor did not exit after Stopped'' FlStart, dispose x S))"
| "shutdown_session_locked n r who k x LkMark S =
     (if rs_guard (sy_heap S x) \<noteq> None then None
      else Some (Close who k x LkRemove, upd x (\<lambda>s. s\<lparr>rs_state := SsStopped\<rparr>) S))"
| "shutdown_session_locked n r who k x LkRemove S =
     Some (returns who k (Inr ()) (remove_session_if_same k x S))"

fun fail_session ::
  "nat \<Rightarrow> reply \<Rightarrow> closer \<Rightarrow> string \<Rightarrow> nat \<Rightarrow> string \<Rightarrow> fail_pc \<Rightarrow> system \<Rightarrow> (task_position \<times> system) option" where
  "fail_session n r who k x e FlStart S = Some (Fail who k x e FlTake, S)"
| "fail_session n r who k x e FlTake S =
     Some (if rs_child (sy_heap S x) then (Fail who k x e FlReap, upd x (\<lambda>s. s\<lparr>rs_child := False\<rparr>) S)
       else (Fail who k x e FlMark, S))"
| "fail_session n r who k x e FlReap S = Some (Fail who k x e FlMark, dispose x S)"
| "fail_session n r who k x e FlMark S =
     (if rs_guard (sy_heap S x) \<noteq> None then None
      else Some (Fail who k x e FlRemove, upd x (\<lambda>s. s\<lparr>rs_state := SsFailed\<rparr>) S))"
| "fail_session n r who k x e FlRemove S = Some (returns who k (Inl e) (remove_session_if_same k x S))"

fun shutdown_worker :: "nat \<Rightarrow> string \<Rightarrow> worker_pc \<Rightarrow> system \<Rightarrow> (task_position \<times> system) option" where
  "shutdown_worker n k WkEnter S = Some (Worker k WkWait, startup_entry k S)"
| "shutdown_worker n k WkWait S =
     (if sy_holder S k = None then Some (Worker k WkLook, S\<lparr>sy_holder := (sy_holder S)(k \<mapsto> n)\<rparr>) else None)"
| "shutdown_worker n k WkLook S =
     Some (case sy_sessions S k of
        Some x \<Rightarrow> (Close ByWorker k x LkStart, S)
      | None \<Rightarrow> (Finished Done, (release k S)\<lparr>sy_cleared := insert k (sy_cleared S)\<rparr>))"
| "shutdown_worker n k WkForce S =
     Some (case sy_sessions S k of
        Some x \<Rightarrow> (Fail ByForce k x ''forced supervisor shutdown'' FlStart, S)
      | None \<Rightarrow> (Finished (Refused ''session shutdown timed out''), S))"

fun shutdown_all :: "reply \<Rightarrow> all_pc \<Rightarrow> system \<Rightarrow> (task_position \<times> system) option" where
  "shutdown_all r AlClose S = Some (CloseAll AlCensus, S\<lparr>sy_closing := True\<rparr>)"
| "shutdown_all r AlCensus S =
     (case r of
        Keys ks \<Rightarrow>
          if distinct ks \<and> set ks = sy_startup_locks S then
            let S1 = (if sy_census S = None then S\<lparr>sy_census := Some (set ks)\<rparr> else S)
            in if ks = [] then Some (Finished Done, S1)
               else Some (CloseAll (AlJoin [sy_next S ..< sy_next S + length ks]),
                      fold (\<lambda>k. spawn (Worker k WkEnter)) ks S1)
          else None
      | _ \<Rightarrow> None)"
| "shutdown_all r (AlJoin ms) S =
     (case r of
        Good \<Rightarrow> if list_all (\<lambda>m. outcome_of (sy_tasks S m) \<noteq> None) ms then Some (Finished Done, S) else None
      | TimedOut \<Rightarrow> Some (CloseAll AlRemaining, S\<lparr>sy_aborted := sy_aborted S \<union> set ms\<rparr>)
      | _ \<Rightarrow> None)"
| "shutdown_all r AlRemaining S =
     (case r of
        Keys ks \<Rightarrow>
          if distinct ks \<and> set ks = dom (sy_sessions S) then
            Some (CloseAll (AlCleanup [sy_next S ..< sy_next S + length ks]), fold (\<lambda>k. spawn (Worker k WkForce)) ks S)
          else None
      | _ \<Rightarrow> None)"
| "shutdown_all r (AlCleanup ms) S =
     (if list_all (\<lambda>m. outcome_of (sy_tasks S m) \<noteq> None) ms
      then Some (Finished (Refused ''shutdown_all global timeout''), S) else None)"

text \<open>The idle timer: it sleeps, finds the registry and the session still there or not, and then runs
  \<open>idle_shutdown_if_quiet\<close>.\<close>

fun idle_timer :: "reply \<Rightarrow> string \<Rightarrow> nat \<Rightarrow> u64 \<Rightarrow> timer_pc \<Rightarrow> system \<Rightarrow> (task_position \<times> system) option" where
  "idle_timer r k x g TmSleep S = Some (if r = Good then Timer k x g TmLook else Finished Done, S)"
| "idle_timer r k x g TmLook S =
     Some (if sy_sessions S k \<noteq> Some x then Finished Done else Timer k x g TmGeneration, S)"
| "idle_timer r k x g TmGeneration S =
     Some (if rs_idle_generation (sy_heap S x) \<noteq> g then Finished Done else Timer k x g (TmQuiet LoadOperations), S)"
| "idle_timer r k x g (TmQuiet l) S =
     Some (if quiet_counter l (sy_heap S x) > 0 then Finished Done
       else (case next_load l of Some l' \<Rightarrow> Timer k x g (TmQuiet l') | None \<Rightarrow> Timer k x g TmState), S)"
| "idle_timer r k x g TmState S =
     (if rs_guard (sy_heap S x) \<noteq> None then None
      else if rs_state (sy_heap S x) \<noteq> SsReady then Some (Finished Done, S)
      else Some (Finished Done, spawn (Shut k x (IdleCause g) ShEnter) S))"

definition schedule_idle_shutdown :: "nat \<Rightarrow> quiet_load \<Rightarrow> system \<Rightarrow> task_position \<times> system" where
  "schedule_idle_shutdown x l S =
     (if quiet_counter l (sy_heap S x) > 0 then (Finished Done, S)
      else (case next_load l of Some l' \<Rightarrow> (Schedule x l', S) | None \<Rightarrow> (Arm x, S)))"

definition arm_timer :: "nat \<Rightarrow> system \<Rightarrow> task_position \<times> system" where
  "arm_timer x S =
     (let g = rs_idle_generation (sy_heap S x) + 1
      in (Finished Done, spawn (Timer (rs_prefix (sy_heap S x)) x g TmSleep)
            (upd x (\<lambda>s. s\<lparr>rs_idle_generation := g\<rparr>) S)))"

text \<open>\<open>on_controller_exited\<close>: the loop of \<open>saturating_decrement\<close>, in which a weak exchange may fail although the
  counter has the expected value, and then \<open>schedule_idle_shutdown\<close>.\<close>

fun controller_exited :: "reply \<Rightarrow> nat \<Rightarrow> u32 option \<Rightarrow> system \<Rightarrow> task_position \<times> system" where
  "controller_exited r x None S = (Exited x (Some (rs_active_requests (sy_heap S x))), S)"
| "controller_exited r x (Some current) S =
     (if current = 0 then (Schedule x LoadOperations, S)
      else if r = Good \<and> rs_active_requests (sy_heap S x) = current then
        (Schedule x LoadOperations, upd x (\<lambda>s. s\<lparr>rs_active_requests := current - 1\<rparr>) S)
      else (Exited x (Some (rs_active_requests (sy_heap S x))), S))"

definition shutdown_prefix :: "string \<Rightarrow> system \<Rightarrow> task_position \<times> system" where
  "shutdown_prefix k S =
     (case sy_sessions S k of
        None \<Rightarrow> (Finished (Refused ''no active session for prefix''), S)
      | Some x \<Rightarrow> (PrefixAwait (sy_next S), spawn (Shut k x Quiescent ShEnter) S))"

fun act :: "nat \<Rightarrow> reply \<Rightarrow> task_position \<Rightarrow> system \<Rightarrow> (task_position \<times> system) option" where
  "act n r (Begin q pc) S = begin_operation n r q pc S"
| "act n r (Shut k x cause pc) S = shutdown_session n k x cause pc S"
| "act n r (Close who k x pc) S = shutdown_session_locked n r who k x pc S"
| "act n r (Fail who k x e pc) S = fail_session n r who k x e pc S"
| "act n r (Worker k pc) S = shutdown_worker n k pc S"
| "act n r (CloseAll pc) S = shutdown_all r pc S"
| "act n r (PrefixLook k) S = Some (shutdown_prefix k S)"
| "act n r (PrefixAwait m) S = map_option (\<lambda>out. (Finished out, S)) (outcome_of (sy_tasks S m))"
| "act n r (Timer k x g pc) S = idle_timer r k x g pc S"
| "act n r (Schedule x l) S = Some (schedule_idle_shutdown x l S)"
| "act n r (Arm x) S = Some (arm_timer x S)"
| "act n r (Bump x) S = Some (Finished Done, upd x (\<lambda>s. s\<lparr>rs_idle_generation := rs_idle_generation s + 1\<rparr>) S)"
| "act n r (Exited x c) S = Some (controller_exited r x c S)"
| "act n r Unused S = None"
| "act n r (Finished out) S = None"

section \<open>Tasks\<close>

definition set_task :: "nat \<Rightarrow> task_position \<Rightarrow> system \<Rightarrow> system" where
  "set_task n pos S = S\<lparr>sy_tasks := (sy_tasks S)(n := pos)\<rparr>"

text \<open>The startup lock a task holds, the state mutex it holds, the session it works on and its prefix, the
  session it read from the registry, the session it created and has not registered, the child it
  has taken out.\<close>

fun locked_key :: "task_position \<Rightarrow> string option" where
  "locked_key (Begin q pc) = (case pc of BgEnter \<Rightarrow> None | BgWait \<Rightarrow> None | BgAwait _ \<Rightarrow> None | _ \<Rightarrow> Some (bq_key q))"
| "locked_key (Shut k x cause pc) = (if pc = ShLook then Some k else None)"
| "locked_key (Close who k x pc) = Some k"
| "locked_key (Fail who k x e pc) = (if who = ByForce then None else Some k)"
| "locked_key (Worker k pc) = (if pc = WkLook then Some k else None)"
| "locked_key _ = None"

fun guarded :: "task_position \<Rightarrow> nat option" where
  "guarded (Begin q pc) =
     (case pc of BgQuiet x _ \<Rightarrow> Some x | BgGeneration x \<Rightarrow> Some x | BgBump x \<Rightarrow> Some x | BgLease x \<Rightarrow> Some x
      | BgRemove x \<Rightarrow> Some x | _ \<Rightarrow> None)"
| "guarded (Close who k x pc) =
     (case pc of LkQuiescent _ \<Rightarrow> Some x | LkState \<Rightarrow> Some x | LkGeneration _ \<Rightarrow> Some x | LkIdle _ \<Rightarrow> Some x
      | LkCommit \<Rightarrow> Some x | _ \<Rightarrow> None)"
| "guarded _ = None"

fun read_session :: "task_position \<Rightarrow> (string \<times> nat) option" where
  "read_session (Begin q pc) =
     (case pc of BgJudge x \<Rightarrow> Some (bq_key q, x) | BgQuiet x _ \<Rightarrow> Some (bq_key q, x)
      | BgGeneration x \<Rightarrow> Some (bq_key q, x) | BgBump x \<Rightarrow> Some (bq_key q, x) | BgLease x \<Rightarrow> Some (bq_key q, x)
      | BgRemove x \<Rightarrow> Some (bq_key q, x) | _ \<Rightarrow> None)"
| "read_session (Close who k x pc) = (if who = ByBegin then None else Some (k, x))"
| "read_session (Fail who k x e pc) = (if who = ByBegin \<or> who = ByForce then None else Some (k, x))"
| "read_session _ = None"

fun created :: "task_position \<Rightarrow> (string \<times> nat) option" where
  "created (Begin q pc) = (case pc of BgRecheck x \<Rightarrow> Some (bq_key q, x) | BgInsert x \<Rightarrow> Some (bq_key q, x) | _ \<Rightarrow> None)"
| "created (Close who k x pc) = (if who = ByBegin then Some (k, x) else None)"
| "created (Fail who k x e pc) = (if who = ByBegin then Some (k, x) else None)"
| "created _ = None"

fun works_on :: "task_position \<Rightarrow> (string option \<times> nat) option" where
  "works_on (Shut k x cause pc) = Some (Some k, x)"
| "works_on (Close who k x pc) = Some (Some k, x)"
| "works_on (Fail who k x e pc) = Some (Some k, x)"
| "works_on (Timer k x g pc) = Some (Some k, x)"
| "works_on (Schedule x l) = Some (None, x)"
| "works_on (Arm x) = Some (None, x)"
| "works_on (Bump x) = Some (None, x)"
| "works_on (Exited x c) = Some (None, x)"
| "works_on (Begin q pc) =
     map_option (\<lambda>(k, x). (Some k, x)) (case read_session (Begin q pc) of None \<Rightarrow> created (Begin q pc) | Some y \<Rightarrow> Some y)"
| "works_on _ = None"

fun holds_child :: "task_position \<Rightarrow> nat option" where
  "holds_child (Close who k x pc) = (if pc = LkReap then Some x else None)"
| "holds_child (Fail who k x e pc) = (if pc = FlReap then Some x else None)"
| "holds_child _ = None"

text \<open>Dropping a task at an \<open>await\<close>: its lock guard is dropped, and so is a child it has taken or that belongs to a session
  only it knows.\<close>

fun awaiting :: "task_position \<Rightarrow> bool" where
  "awaiting (Begin q pc) = (case pc of BgWait \<Rightarrow> True | BgBoot \<Rightarrow> True | BgAwait _ \<Rightarrow> True | _ \<Rightarrow> False)"
| "awaiting (Close who k x pc) = (pc = LkRequest \<or> pc = LkAwait \<or> pc = LkReap)"
| "awaiting (Fail who k x e pc) = (pc = FlReap)"
| "awaiting (Worker k pc) = (pc = WkWait)"
| "awaiting _ = False"

definition abandon :: "task_position \<Rightarrow> system \<Rightarrow> system" where
  "abandon pos S =
     (let S1 = (case locked_key pos of Some k \<Rightarrow> release k S | None \<Rightarrow> S);
          S2 = (case holds_child pos of Some x \<Rightarrow> dispose x S1 | None \<Rightarrow> S1)
      in case created pos of
           Some (_, x) \<Rightarrow> dispose x (upd x (\<lambda>s. s\<lparr>rs_child := False\<rparr>) S2)
         | None \<Rightarrow> S2)"

fun of_begin :: "task_position \<Rightarrow> bool" where
  "of_begin (Begin q pc) = True"
| "of_begin (Close who k x pc) = (who = ByBegin)"
| "of_begin (Fail who k x e pc) = (who = ByBegin)"
| "of_begin _ = False"

fun of_worker :: "task_position \<Rightarrow> string option" where
  "of_worker (Worker k pc) = Some k"
| "of_worker (Close who k x pc) = (if who = ByWorker then Some k else None)"
| "of_worker (Fail who k x e pc) = (if who = ByWorker then Some k else None)"
| "of_worker _ = None"

fun of_force :: "task_position \<Rightarrow> bool" where
  "of_force (Fail who k x e pc) = (who = ByForce)"
| "of_force _ = False"

text \<open>Leases are values: an operation lease can be lent to \<open>attach_client\<close> and \<open>launch\<close> while it exists, and is dropped
  once.  Fewer than \<open>2\<^sup>3\<^sup>2\<close> leases of a session exist at a time.\<close>

inductive reg_step :: "system \<Rightarrow> system \<Rightarrow> bool" where
  run: "act n r (sy_tasks S n) S = Some (pos, S') \<Longrightarrow> (\<And>x. x < sy_fresh S' \<Longrightarrow> sy_operations S' x < 2 ^ 32) \<Longrightarrow>
    reg_step S (set_task n pos S')"
| start: "pos \<in> {Begin q BgEnter, CloseAll AlClose, PrefixLook k} \<Longrightarrow> reg_step S (spawn pos S)"
| cancel: "awaiting (sy_tasks S n) \<Longrightarrow> of_begin (sy_tasks S n) \<Longrightarrow>
    reg_step S (set_task n (Finished Cancelled) (abandon (sy_tasks S n) S))"
| expire: "awaiting (sy_tasks S n) \<Longrightarrow> of_worker (sy_tasks S n) = Some k \<Longrightarrow>
    reg_step S (set_task n (Worker k WkForce) (abandon (sy_tasks S n) S))"
| abort: "awaiting (sy_tasks S n) \<Longrightarrow> n \<in> sy_aborted S \<Longrightarrow>
    of_worker (sy_tasks S n) \<noteq> None \<or> of_force (sy_tasks S n) \<Longrightarrow>
    reg_step S (set_task n (Finished Cancelled) (abandon (sy_tasks S n) S))"
| attach: "0 < sy_operations S x \<Longrightarrow> x < sy_fresh S \<Longrightarrow> Suc (sy_clients S x) < 2 ^ 32 \<Longrightarrow>
    reg_step S (spawn (Bump x) (upd x (\<lambda>s. s\<lparr>rs_client_leases := rs_client_leases s + 1\<rparr>)
      (S\<lparr>sy_clients := (sy_clients S)(x := Suc (sy_clients S x))\<rparr>)))"
| drop_operation: "0 < sy_operations S x \<Longrightarrow> x < sy_fresh S \<Longrightarrow>
    reg_step S (spawn (Schedule x LoadOperations) (upd x (\<lambda>s. s\<lparr>rs_operation_leases := rs_operation_leases s - 1\<rparr>)
      (S\<lparr>sy_operations := (sy_operations S)(x := sy_operations S x - 1)\<rparr>)))"
| drop_client: "0 < sy_clients S x \<Longrightarrow> x < sy_fresh S \<Longrightarrow>
    reg_step S (spawn (Schedule x LoadOperations) (upd x (\<lambda>s. s\<lparr>rs_client_leases := rs_client_leases s - 1\<rparr>)
      (S\<lparr>sy_clients := (sy_clients S)(x := sy_clients S x - 1)\<rparr>)))"
| launch: "0 < sy_operations S x \<Longrightarrow> x < sy_fresh S \<Longrightarrow> rs_guard (sy_heap S x) = None \<Longrightarrow> rs_state (sy_heap S x) = SsReady \<Longrightarrow>
    reg_step S (upd x (\<lambda>s. s\<lparr>rs_redactions := merge_redactions (rs_redactions s) incoming\<rparr>) S)"
| launch_accepted: "x < sy_fresh S \<Longrightarrow>
    reg_step S (upd x (\<lambda>s. s\<lparr>rs_active_requests := rs_active_requests s + 1\<rparr>) S)"
| controller_exited: "x < sy_fresh S \<Longrightarrow> reg_step S (spawn (Exited x None) S)"

definition registry_new :: system where
  "registry_new =
     \<lparr>sy_heap = (\<lambda>_. new_session [] \<lparr>ra_kind = Wine, ra_path = []\<rparr> []), sy_fresh = 0, sy_sessions = Map.empty,
      sy_startup_locks = {}, sy_holder = Map.empty, sy_closing = False, sy_tasks = (\<lambda>_. Unused), sy_next = 0,
      sy_aborted = {}, sy_disposed = {}, sy_operations = (\<lambda>_. 0), sy_clients = (\<lambda>_. 0), sy_census = None,
      sy_cleared = {}\<rparr>"

text \<open>\<open>plan_id_for_prefix\<close>, for a prefix with canonical text \<open>key\<close>.\<close>

definition plan_id_for_prefix :: "string option \<Rightarrow> system \<Rightarrow> string option" where
  "plan_id_for_prefix key S =
     (case key of None \<Rightarrow> None | Some k \<Rightarrow> map_option (\<lambda>x. rs_plan_id (sy_heap S x)) (sy_sessions S k))"

definition registry_reachable :: "system \<Rightarrow> bool" where
  "registry_reachable = reg_step\<^sup>*\<^sup>* registry_new"

end
