(* ===== verification/RegistryInvariant.thy ===== *)
theory RegistryInvariant
  imports RunnerRegistry
begin

text \<open>
  The invariant of the runner-session registry, in the rely-guarantee style: an assertion for each position
  of a task, a relation that bounds what a step of a task may change, the stability of every assertion
  under the steps of other tasks, and what a step does to the shared state.
\<close>

section \<open>Assertions\<close>

fun needs_closing :: "task_position \<Rightarrow> bool" where
  "needs_closing (Close who k x pc) = (who = ByWorker \<or> who = ByBegin)"
| "needs_closing (Fail who k x e pc) = (who = ByWorker \<or> who = ByBegin \<or> who = ByForce)"
| "needs_closing (Worker k pc) = True"
| "needs_closing (CloseAll pc) = (pc \<noteq> AlClose)"
| "needs_closing _ = False"

fun found_ready :: "task_position \<Rightarrow> nat option" where
  "found_ready (Begin q pc) =
     (case pc of BgQuiet x _ \<Rightarrow> Some x | BgGeneration x \<Rightarrow> Some x | BgBump x \<Rightarrow> Some x | BgLease x \<Rightarrow> Some x | _ \<Rightarrow> None)"
| "found_ready (Close who k x pc) =
     (case pc of LkGeneration _ \<Rightarrow> Some x | LkIdle _ \<Rightarrow> Some x | LkCommit \<Rightarrow> Some x | _ \<Rightarrow> None)"
| "found_ready _ = None"

fun found_over :: "task_position \<Rightarrow> nat option" where
  "found_over (Begin q pc) = (case pc of BgRemove x \<Rightarrow> Some x | _ \<Rightarrow> None)"
| "found_over _ = None"

fun emptied :: "task_position \<Rightarrow> nat option" where
  "emptied (Close who k x pc) = (if pc = LkReap \<or> pc = LkMark \<or> pc = LkRemove then Some x else None)"
| "emptied (Fail who k x e pc) = (if pc = FlReap \<or> pc = FlMark \<or> pc = FlRemove then Some x else None)"
| "emptied _ = None"

fun past_ready :: "task_position \<Rightarrow> nat option" where
  "past_ready (Shut k x cause pc) = (if cause = Forced then Some x else None)"
| "past_ready (Close who k x pc) =
     (if who = ByTask Forced \<or> pc = LkRequest \<or> pc = LkAwait \<or> pc = LkChild \<or> pc = LkReap \<or> pc = LkMark \<or> pc = LkRemove
      then Some x else None)"
| "past_ready (Fail who k x e pc) = (if who = ByForce then None else Some x)"
| "past_ready _ = None"

fun saw_no_operations :: "task_position \<Rightarrow> nat option" where
  "saw_no_operations (Close who k x pc) =
     (case pc of LkQuiescent l \<Rightarrow> if l = LoadOperations then None else Some x
      | LkIdle l \<Rightarrow> if l = LoadOperations then None else Some x
      | LkState \<Rightarrow> if cause_of who = Quiescent then Some x else None
      | LkCommit \<Rightarrow> if cause_of who = Forced then None else Some x
      | _ \<Rightarrow> None)"
| "saw_no_operations _ = None"

fun saw_no_clients :: "task_position \<Rightarrow> nat option" where
  "saw_no_clients (Close who k x pc) =
     (case pc of LkQuiescent l \<Rightarrow> if l = LoadRequests then Some x else None
      | LkIdle l \<Rightarrow> if l = LoadRequests then Some x else None
      | LkState \<Rightarrow> if cause_of who = Quiescent then Some x else None
      | LkCommit \<Rightarrow> if cause_of who = Forced then None else Some x
      | _ \<Rightarrow> None)"
| "saw_no_clients _ = None"

fun pc_matches :: "task_position \<Rightarrow> bool" where
  "pc_matches (Close who k x pc) =
     (who \<noteq> ByForce \<and>
      (case pc of LkQuiescent l \<Rightarrow> cause_of who = Quiescent | LkGeneration g \<Rightarrow> cause_of who = IdleCause g
       | LkIdle l \<Rightarrow> (\<exists>g. cause_of who = IdleCause g) | _ \<Rightarrow> True))"
| "pc_matches _ = True"

fun request_of :: "task_position \<Rightarrow> (begin_request \<times> nat) option" where
  "request_of (Begin q pc) =
     (case pc of BgBump x \<Rightarrow> Some (q, x) | BgLease x \<Rightarrow> Some (q, x) | BgRecheck x \<Rightarrow> Some (q, x) | BgInsert x \<Rightarrow> Some (q, x)
      | _ \<Rightarrow> None)"
| "request_of _ = None"

text \<open>The prefixes whose startup entry exists, and those for which a task was admitted and may still register a session.\<close>

fun entered :: "task_position \<Rightarrow> string option" where
  "entered (Begin q pc) = (if pc = BgEnter then None else Some (bq_key q))"
| "entered _ = None"

fun admitted :: "task_position \<Rightarrow> string option" where
  "admitted (Begin q pc) =
     (case pc of BgEnter \<Rightarrow> None | BgWait \<Rightarrow> None | BgCheck \<Rightarrow> None | BgAwait _ \<Rightarrow> None | _ \<Rightarrow> Some (bq_key q))"
| "admitted _ = None"

fun finds_none :: "task_position \<Rightarrow> string option" where
  "finds_none (Begin q pc) = (if pc = BgBoot then Some (bq_key q) else map_option fst (created (Begin q pc)))"
| "finds_none (Close who k x pc) = map_option fst (created (Close who k x pc))"
| "finds_none (Fail who k x e pc) = map_option fst (created (Fail who k x e pc))"
| "finds_none _ = None"

abbreviation over :: "session_state \<Rightarrow> bool" where
  "over st \<equiv> st = SsStopped \<or> st = SsFailed"

definition locks_ok :: "system \<Rightarrow> nat \<Rightarrow> task_position \<Rightarrow> bool" where
  "locks_ok S n pos \<longleftrightarrow>
     (\<forall>k. sy_holder S k = Some n \<longleftrightarrow> locked_key pos = Some k) \<and>
     (\<forall>x < sy_fresh S. rs_guard (sy_heap S x) = Some n \<longleftrightarrow> guarded pos = Some x)"

definition sees_ok :: "system \<Rightarrow> task_position \<Rightarrow> bool" where
  "sees_ok S pos \<longleftrightarrow>
     (\<forall>k x. works_on pos = Some (k, x) \<longrightarrow> x < sy_fresh S \<and> (\<forall>key. k = Some key \<longrightarrow> rs_prefix (sy_heap S x) = key)) \<and>
     (\<forall>k x. read_session pos = Some (k, x) \<longrightarrow> sy_sessions S k = Some x \<or> sy_sessions S k = None) \<and>
     (\<forall>k. finds_none pos = Some k \<longrightarrow> sy_sessions S k = None) \<and>
     (\<forall>x. emptied pos = Some x \<longrightarrow> \<not> rs_child (sy_heap S x)) \<and>
     (\<forall>x. found_ready pos = Some x \<longrightarrow> rs_state (sy_heap S x) = SsReady) \<and>
     (\<forall>x. found_over pos = Some x \<longrightarrow> over (rs_state (sy_heap S x))) \<and>
     (\<forall>q x. request_of pos = Some (q, x) \<longrightarrow>
        rs_runner (sy_heap S x) = bq_runner q \<and> rs_plan_id (sy_heap S x) = bq_plan_id q)"

definition ends_ok :: "system \<Rightarrow> task_position \<Rightarrow> bool" where
  "ends_ok S pos \<longleftrightarrow>
     pc_matches pos \<and> (needs_closing pos \<longrightarrow> sy_closing S) \<and>
     (\<forall>x. past_ready pos = Some x \<longrightarrow> rs_state (sy_heap S x) \<noteq> SsReady) \<and>
     (\<forall>x. saw_no_operations pos = Some x \<longrightarrow> sy_operations S x = 0) \<and>
     (\<forall>x. saw_no_clients pos = Some x \<longrightarrow> sy_clients S x = 0) \<and>
     (\<forall>k. entered pos = Some k \<longrightarrow> k \<in> sy_startup_locks S) \<and>
     (\<forall>k. admitted pos = Some k \<longrightarrow> k \<notin> sy_cleared S \<and> (\<forall>C. sy_census S = Some C \<longrightarrow> k \<in> C))"

definition task_ok :: "system \<Rightarrow> nat \<Rightarrow> task_position \<Rightarrow> bool" where
  "task_ok S n pos \<longleftrightarrow> locks_ok S n pos \<and> sees_ok S pos \<and> ends_ok S pos"

text \<open>What holds of the shared state: registered sessions; a child still in its session; a child taken
  out; the lease counters; the census and the prefixes that are done.\<close>

definition table_ok :: "system \<Rightarrow> bool" where
  "table_ok S \<longleftrightarrow>
     (\<forall>k x. sy_sessions S k = Some x \<longrightarrow> x < sy_fresh S \<and> rs_prefix (sy_heap S x) = k \<and> k \<in> sy_startup_locks S) \<and>
     (\<forall>x < sy_fresh S. rs_child (sy_heap S x) \<longrightarrow> \<not> over (rs_state (sy_heap S x)))"

definition children_ok :: "system \<Rightarrow> bool" where
  "children_ok S \<longleftrightarrow>
     (\<forall>x < sy_fresh S.
        (rs_child (sy_heap S x) \<longrightarrow> sy_sessions S (rs_prefix (sy_heap S x)) = Some x \<or>
           (\<exists>n k. created (sy_tasks S n) = Some (k, x))) \<and>
        (\<not> rs_child (sy_heap S x) \<longrightarrow> x \<in> sy_disposed S \<or> (\<exists>n. holds_child (sy_tasks S n) = Some x)))"

definition leases_ok :: "system \<Rightarrow> bool" where
  "leases_ok S \<longleftrightarrow>
     (\<forall>x < sy_fresh S.
        rs_operation_leases (sy_heap S x) = of_nat (sy_operations S x) \<and> sy_operations S x < 2 ^ 32 \<and>
        rs_client_leases (sy_heap S x) = of_nat (sy_clients S x) \<and> sy_clients S x < 2 ^ 32)"

definition census_ok :: "system \<Rightarrow> bool" where
  "census_ok S \<longleftrightarrow>
     (\<forall>C. sy_census S = Some C \<longrightarrow> sy_closing S \<and> dom (sy_sessions S) \<subseteq> C) \<and>
     (\<forall>k x. k \<in> sy_cleared S \<longrightarrow> sy_closing S \<and> (sy_sessions S k = Some x \<longrightarrow> over (rs_state (sy_heap S x))))"

definition registry_inv :: "system \<Rightarrow> bool" where
  "registry_inv S \<longleftrightarrow>
     (\<forall>n. task_ok S n (sy_tasks S n)) \<and> (\<forall>n \<ge> sy_next S. sy_tasks S n = Unused) \<and>
     table_ok S \<and> children_ok S \<and> leases_ok S \<and> census_ok S"

section \<open>Interference\<close>

text \<open>What a step of task \<open>n\<close> may change.  Locks of other tasks stay; a session enters the registry only under its
  startup lock; a session's state changes only while no other task holds its mutex and never back; new
  operation leases come only under the startup lock, new client leases only while there is an operation lease.\<close>

definition session_kept :: "nat \<Rightarrow> runner_session \<Rightarrow> runner_session \<Rightarrow> bool" where
  "session_kept n s t \<longleftrightarrow>
     rs_prefix t = rs_prefix s \<and> rs_runner t = rs_runner s \<and> rs_plan_id t = rs_plan_id s \<and>
     (rs_child t \<longrightarrow> rs_child s) \<and>
     (\<forall>m. m \<noteq> n \<longrightarrow> (rs_guard t = Some m \<longleftrightarrow> rs_guard s = Some m)) \<and>
     (rs_state t \<noteq> rs_state s \<longrightarrow> (rs_guard s = None \<or> rs_guard s = Some n) \<and> rs_state t \<noteq> SsReady \<and>
        (over (rs_state s) \<longrightarrow> over (rs_state t)))"

definition keeps :: "nat \<Rightarrow> system \<Rightarrow> system \<Rightarrow> bool" where
  "keeps n S T \<longleftrightarrow>
     sy_fresh S \<le> sy_fresh T \<and> sy_startup_locks S \<subseteq> sy_startup_locks T \<and> (sy_closing S \<longrightarrow> sy_closing T) \<and>
     (\<forall>k m. m \<noteq> n \<longrightarrow> (sy_holder T k = Some m \<longleftrightarrow> sy_holder S k = Some m)) \<and>
     (\<forall>k. sy_sessions T k = sy_sessions S k \<or> sy_sessions T k = None \<or> sy_holder S k = Some n) \<and>
     (\<forall>x < sy_fresh S. session_kept n (sy_heap S x) (sy_heap T x)) \<and>
     (\<forall>x. sy_fresh S \<le> x \<longrightarrow> x < sy_fresh T \<longrightarrow> rs_guard (sy_heap T x) = None) \<and>
     (\<forall>x < sy_fresh S. sy_operations T x \<le> sy_operations S x \<or> sy_holder S (rs_prefix (sy_heap S x)) = Some n) \<and>
     (\<forall>x < sy_fresh S. sy_clients T x \<le> sy_clients S x \<or> 0 < sy_operations S x) \<and>
     (\<forall>C. sy_census T = Some C \<longrightarrow> sy_census S = Some C \<or> sy_startup_locks S \<subseteq> C) \<and>
     (\<forall>k \<in> sy_cleared T. k \<in> sy_cleared S \<or> sy_holder S k = Some n)"

lemma session_kept_refl [simp]: "session_kept n s s"
  by (simp add: session_kept_def)

lemma set_task_fields [simp]:
  "sy_heap (set_task n pos S) = sy_heap S" "sy_fresh (set_task n pos S) = sy_fresh S"
  "sy_sessions (set_task n pos S) = sy_sessions S" "sy_startup_locks (set_task n pos S) = sy_startup_locks S"
  "sy_holder (set_task n pos S) = sy_holder S" "sy_closing (set_task n pos S) = sy_closing S"
  "sy_tasks (set_task n pos S) = (sy_tasks S)(n := pos)" "sy_next (set_task n pos S) = sy_next S"
  "sy_disposed (set_task n pos S) = sy_disposed S" "sy_operations (set_task n pos S) = sy_operations S"
  "sy_clients (set_task n pos S) = sy_clients S" "sy_census (set_task n pos S) = sy_census S"
  "sy_cleared (set_task n pos S) = sy_cleared S"
  by (simp_all add: set_task_def)

lemma spawn_fields [simp]:
  "sy_heap (spawn pos S) = sy_heap S" "sy_fresh (spawn pos S) = sy_fresh S"
  "sy_sessions (spawn pos S) = sy_sessions S" "sy_startup_locks (spawn pos S) = sy_startup_locks S"
  "sy_holder (spawn pos S) = sy_holder S" "sy_closing (spawn pos S) = sy_closing S"
  "sy_tasks (spawn pos S) = (sy_tasks S)(sy_next S := pos)" "sy_next (spawn pos S) = Suc (sy_next S)"
  "sy_disposed (spawn pos S) = sy_disposed S" "sy_operations (spawn pos S) = sy_operations S"
  "sy_clients (spawn pos S) = sy_clients S" "sy_census (spawn pos S) = sy_census S"
  "sy_cleared (spawn pos S) = sy_cleared S"
  by (simp_all add: spawn_def)

lemma spawn_all_fields [simp]:
  "sy_heap (fold (\<lambda>k. spawn (f k)) ks S) = sy_heap S" "sy_fresh (fold (\<lambda>k. spawn (f k)) ks S) = sy_fresh S"
  "sy_sessions (fold (\<lambda>k. spawn (f k)) ks S) = sy_sessions S"
  "sy_startup_locks (fold (\<lambda>k. spawn (f k)) ks S) = sy_startup_locks S"
  "sy_holder (fold (\<lambda>k. spawn (f k)) ks S) = sy_holder S" "sy_closing (fold (\<lambda>k. spawn (f k)) ks S) = sy_closing S"
  "sy_disposed (fold (\<lambda>k. spawn (f k)) ks S) = sy_disposed S"
  "sy_operations (fold (\<lambda>k. spawn (f k)) ks S) = sy_operations S"
  "sy_clients (fold (\<lambda>k. spawn (f k)) ks S) = sy_clients S" "sy_census (fold (\<lambda>k. spawn (f k)) ks S) = sy_census S"
  "sy_cleared (fold (\<lambda>k. spawn (f k)) ks S) = sy_cleared S"
  "sy_next (fold (\<lambda>k. spawn (f k)) ks S) = sy_next S + length ks"
  by (induction ks arbitrary: S) simp_all

lemma spawn_all_tasks:
  "sy_tasks (fold (\<lambda>k. spawn (f k)) ks S) m =
     (if sy_next S \<le> m \<and> m < sy_next S + length ks then f (ks ! (m - sy_next S)) else sy_tasks S m)"
  by (induction ks arbitrary: S) (auto simp: nth_Cons' not_less_eq_eq)

lemmas system_defs = upd_def release_def guard_by_def dispose_def startup_entry_def remove_session_if_same_def

lemma quiet_counter_guard: "quiet_counter l (s\<lparr>rs_guard := g\<rparr>) = quiet_counter l s"
  by (cases l) simp_all

lemma keeps_refl [simp]: "keeps n S S"
  by (simp add: keeps_def)

lemma keeps_task [simp]: "keeps n S (set_task m pos T) = keeps n S T" "keeps n S (spawn pos T) = keeps n S T"
  by (simp_all add: keeps_def)

lemma keeps_spawn_all [simp]: "keeps n S (fold (\<lambda>k. spawn (f k)) ks T) = keeps n S T"
  by (simp add: keeps_def)

text \<open>The elementary changes.\<close>

lemma keeps_release: "keeps n S T \<Longrightarrow> sy_holder S k = Some n \<Longrightarrow> keeps n S (release k T)"
  by (auto simp: keeps_def release_def)

lemma keeps_upd:
  "keeps n S T \<Longrightarrow> (x < sy_fresh S \<Longrightarrow> session_kept n (sy_heap S x) (f (sy_heap T x))) \<Longrightarrow>
   (sy_fresh S \<le> x \<Longrightarrow> rs_guard (f (sy_heap T x)) = rs_guard (sy_heap T x)) \<Longrightarrow> keeps n S (upd x f T)"
  by (auto simp: keeps_def upd_def)

lemma keeps_guard:
  "keeps n S T \<Longrightarrow> x < sy_fresh S \<Longrightarrow> rs_guard (sy_heap S x) \<in> {None, Some n} \<Longrightarrow> g \<in> {None, Some n} \<Longrightarrow>
   keeps n S (guard_by g x T)"
  unfolding guard_by_def by (rule keeps_upd) (auto simp: keeps_def session_kept_def)

lemma keeps_dispose: "keeps n S T \<Longrightarrow> keeps n S (dispose x T)"
  by (simp add: keeps_def dispose_def)

lemma keeps_entry: "keeps n S T \<Longrightarrow> keeps n S (startup_entry k T)"
  by (auto simp: keeps_def startup_entry_def)

lemma keeps_remove: "keeps n S T \<Longrightarrow> keeps n S (remove_session_if_same k x T)"
  by (auto simp: keeps_def remove_session_if_same_def)

lemma keeps_lock: "sy_holder S k = None \<Longrightarrow> keeps n S (S\<lparr>sy_holder := (sy_holder S)(k \<mapsto> n)\<rparr>)"
  by (auto simp: keeps_def)

lemma keeps_cleared: "keeps n S T \<Longrightarrow> sy_holder S k = Some n \<Longrightarrow> A \<subseteq> sy_cleared T \<Longrightarrow> keeps n S (T\<lparr>sy_cleared := insert k A\<rparr>)"
  by (auto simp: keeps_def)

lemma release_cleared [simp]: "sy_cleared (release k S) = sy_cleared S"
  by (simp add: release_def)

lemma keeps_operations:
  "sy_holder S (rs_prefix (sy_heap S x)) = Some n \<Longrightarrow> keeps n S (S\<lparr>sy_operations := (sy_operations S)(x := v)\<rparr>)"
  by (auto simp: keeps_def)

lemma keeps_insert: "sy_holder S k = Some n \<Longrightarrow> keeps n S (S\<lparr>sy_sessions := (sy_sessions S)(k \<mapsto> x)\<rparr>)"
  by (auto simp: keeps_def)

lemma keeps_boot:
  "keeps n S (S\<lparr>sy_heap := (sy_heap S)(sy_fresh S := new_session k r p), sy_operations := (sy_operations S)(sy_fresh S := a),
     sy_clients := (sy_clients S)(sy_fresh S := b), sy_fresh := Suc (sy_fresh S)\<rparr>)"
  by (auto simp: keeps_def new_session_def less_Suc_eq)

lemma session_kept_counters [simp]:
  "session_kept n s (s\<lparr>rs_idle_generation := g\<rparr>)" "session_kept n s (s\<lparr>rs_operation_leases := a\<rparr>)"
  "session_kept n s (s\<lparr>rs_client_leases := a\<rparr>)" "session_kept n s (s\<lparr>rs_active_requests := a\<rparr>)"
  "session_kept n s (s\<lparr>rs_redactions := rs\<rparr>)" "session_kept n s (s\<lparr>rs_child := False\<rparr>)"
  by (simp_all add: session_kept_def)

lemma session_kept_state:
  "rs_guard s = None \<or> rs_guard s = Some n \<Longrightarrow> st \<noteq> SsReady \<Longrightarrow> over (rs_state s) \<longrightarrow> over st \<Longrightarrow>
   session_kept n s (s\<lparr>rs_state := st\<rparr>)"
  by (simp add: session_kept_def)

lemmas keeps_intros = keeps_release keeps_guard keeps_dispose keeps_entry keeps_remove keeps_lock keeps_operations
  keeps_insert keeps_boot [simplified] keeps_upd keeps_cleared session_kept_state

lemmas reply_splits = if_splits option.splits session_state.splits reply.splits outcome.splits

text \<open>What the assertion of a task says of its locks and its session.\<close>

lemma task_okD:
  assumes "task_ok S n pos"
  shows "locked_key pos = Some k \<Longrightarrow> sy_holder S k = Some n"
    "works_on pos = Some (Some k, x) \<Longrightarrow> x < sy_fresh S \<and> rs_prefix (sy_heap S x) = k"
    "works_on pos = Some (None, x) \<Longrightarrow> x < sy_fresh S"
    "guarded pos = Some x \<Longrightarrow> x < sy_fresh S \<Longrightarrow> rs_guard (sy_heap S x) = Some n"
    "found_ready pos = Some x \<Longrightarrow> rs_state (sy_heap S x) = SsReady"
    "pc_matches pos"
  using assms by (auto simp: task_ok_def locks_ok_def sees_ok_def ends_ok_def)

lemma begin_keeps:
  assumes "task_ok S n (Begin q pc)" "begin_operation n r q pc S = Some (pos, T)"
  shows "keeps n S T"
  using assms(2) task_okD [OF assms(1)]
  by (cases pc) (auto intro!: keeps_intros split: reply_splits)

lemma returns_keeps:
  assumes "keeps n S T" "who \<noteq> ByForce \<Longrightarrow> sy_holder S k = Some n" "(pos, U) = returns who k res T"
  shows "keeps n S U"
  using assms by (cases who) (auto simp: returns_def intro!: keeps_release keeps_cleared)

lemma close_keeps:
  assumes "task_ok S n (Close who k x pc)" "shutdown_session_locked n r who k x pc S = Some (pos, T)"
  shows "keeps n S T"
  using assms(2) task_okD [OF assms(1)]
  by (cases pc) (auto intro!: keeps_intros dest!: sym [of "returns _ _ _ _"] returns_keeps [rotated 2] split: reply_splits)

lemma fail_keeps:
  assumes "task_ok S n (Fail who k x e pc)" "fail_session n r who k x e pc S = Some (pos, T)"
  shows "keeps n S T"
  using assms(2) task_okD [OF assms(1)]
  by (cases pc) (auto intro!: keeps_intros dest!: sym [of "returns _ _ _ _"] returns_keeps [rotated 2] split: reply_splits)

lemma act_keeps:
  assumes "task_ok S n (sy_tasks S n)" "act n r (sy_tasks S n) S = Some (pos, T)"
  shows "keeps n S T"
proof (cases "sy_tasks S n")
  case (Begin q pc) then show ?thesis using assms begin_keeps by simp
next
  case (Close who k x pc) then show ?thesis using assms close_keeps by simp
next
  case (Fail who k x e pc) then show ?thesis using assms fail_keeps by simp
next
  case (Shut k x cause pc)
  then show ?thesis using assms(2) task_okD [OF assms(1)] by (cases pc) (auto intro!: keeps_intros split: reply_splits)
next
  case (Worker k pc)
  then show ?thesis using assms(2) task_okD [OF assms(1)] by (cases pc) (auto intro!: keeps_intros split: reply_splits)
next
  case (CloseAll pc)
  then show ?thesis using assms(2)
    by (cases pc) (auto simp: Let_def keeps_def split: reply_splits)
next
  case (Timer k x g pc)
  then show ?thesis using assms(2) by (cases pc) (auto split: reply_splits)
next
  case (Exited x c)
  then show ?thesis using assms(2) task_okD [OF assms(1)] by (cases c) (auto intro!: keeps_intros split: reply_splits)
qed (use assms task_okD [OF assms(1)] in \<open>auto simp: shutdown_prefix_def schedule_idle_shutdown_def arm_timer_def Let_def
    intro!: keeps_intros split: reply_splits\<close>)

text \<open>Assertions of other tasks are stable.\<close>

lemma positions_consistent:
  "(read_session pos = Some (k, x) \<longrightarrow> locked_key pos = Some k) \<and> (finds_none pos = Some k \<longrightarrow> locked_key pos = Some k) \<and>
   (admitted pos = Some k \<longrightarrow> locked_key pos = Some k \<and> entered pos = Some k) \<and>
   (found_ready pos = Some x \<longrightarrow> guarded pos = Some x) \<and> (found_over pos = Some x \<longrightarrow> guarded pos = Some x) \<and>
   (guarded pos = Some x \<or> emptied pos = Some x \<or> past_ready pos = Some x \<or> (\<exists>q. request_of pos = Some (q, x)) \<longrightarrow>
      (\<exists>key. works_on pos = Some (Some key, x))) \<and>
   (saw_no_operations pos = Some x \<longrightarrow> (\<exists>key. works_on pos = Some (Some key, x) \<and> locked_key pos = Some key)) \<and>
   (saw_no_clients pos = Some x \<longrightarrow> saw_no_operations pos = Some x)"
proof (cases pos)
  case (Begin q pc) then show ?thesis by (cases pc) simp_all
next
  case (Close who key y pc) then show ?thesis by (cases pc) simp_all
qed simp_all

lemma positionsD:
  "read_session pos = Some (k, x) \<Longrightarrow> locked_key pos = Some k" "finds_none pos = Some k \<Longrightarrow> locked_key pos = Some k"
  "admitted pos = Some k \<Longrightarrow> locked_key pos = Some k" "admitted pos = Some k \<Longrightarrow> entered pos = Some k"
  "found_ready pos = Some x \<Longrightarrow> guarded pos = Some x" "found_over pos = Some x \<Longrightarrow> guarded pos = Some x"
  "guarded pos = Some x \<Longrightarrow> \<exists>key. works_on pos = Some (Some key, x)"
  "emptied pos = Some x \<Longrightarrow> \<exists>key. works_on pos = Some (Some key, x)"
  "past_ready pos = Some x \<Longrightarrow> \<exists>key. works_on pos = Some (Some key, x)"
  "request_of pos = Some (q, x) \<Longrightarrow> \<exists>key. works_on pos = Some (Some key, x)"
  "saw_no_operations pos = Some x \<Longrightarrow> \<exists>key. works_on pos = Some (Some key, x) \<and> locked_key pos = Some key"
  "saw_no_clients pos = Some x \<Longrightarrow> saw_no_operations pos = Some x"
  using positions_consistent [of pos k x] by blast+

lemma stable_locks:
  assumes ok: "locks_ok S m pos" "sees_ok S pos" and k: "keeps n S T" "m \<noteq> n"
  shows "locks_ok T m pos"
proof -
  have "rs_guard (sy_heap T x) = Some m \<longleftrightarrow> guarded pos = Some x" if x: "x < sy_fresh T" for x
  proof (cases "x < sy_fresh S")
    case True
    with k(1) have "session_kept n (sy_heap S x) (sy_heap T x)" by (simp add: keeps_def)
    with k(2) have "rs_guard (sy_heap T x) = Some m \<longleftrightarrow> rs_guard (sy_heap S x) = Some m" by (simp add: session_kept_def)
    with ok(1) True show ?thesis by (simp add: locks_ok_def)
  next
    case False
    with k x have "rs_guard (sy_heap T x) = None" by (simp add: keeps_def)
    moreover have "guarded pos \<noteq> Some x"
      using ok(2) False positionsD(7) [of pos x] unfolding sees_ok_def by blast
    ultimately show ?thesis by simp
  qed
  moreover have "sy_holder T key = Some m \<longleftrightarrow> locked_key pos = Some key" for key
    using ok(1) k unfolding locks_ok_def keeps_def by blast
  ultimately show ?thesis by (simp add: locks_ok_def)
qed

lemma keepsD:
  assumes "keeps n S T"
  shows "x < sy_fresh S \<Longrightarrow> session_kept n (sy_heap S x) (sy_heap T x)" "x < sy_fresh S \<Longrightarrow> x < sy_fresh T"
    "sy_holder S k \<noteq> Some n \<Longrightarrow> sy_sessions T k = sy_sessions S k \<or> sy_sessions T k = None"
    "sy_closing S \<Longrightarrow> sy_closing T" "k \<in> sy_startup_locks S \<Longrightarrow> k \<in> sy_startup_locks T"
    "x < sy_fresh S \<Longrightarrow> sy_operations S x = 0 \<Longrightarrow> sy_holder S (rs_prefix (sy_heap S x)) \<noteq> Some n \<Longrightarrow> sy_operations T x = 0"
    "x < sy_fresh S \<Longrightarrow> sy_operations S x = 0 \<Longrightarrow> sy_clients S x = 0 \<Longrightarrow> sy_clients T x = 0"
    "k \<in> sy_cleared T \<Longrightarrow> sy_holder S k \<noteq> Some n \<Longrightarrow> k \<in> sy_cleared S"
    "sy_census T = Some C \<Longrightarrow> k \<in> sy_startup_locks S \<Longrightarrow> (\<And>D. sy_census S = Some D \<Longrightarrow> k \<in> D) \<Longrightarrow> k \<in> C"
proof -
  from assms [unfolded keeps_def] have le: "sy_fresh S \<le> sy_fresh T" and entries: "sy_startup_locks S \<subseteq> sy_startup_locks T"
    and closing: "sy_closing S \<longrightarrow> sy_closing T"
    and sessions: "\<forall>k. sy_sessions T k = sy_sessions S k \<or> sy_sessions T k = None \<or> sy_holder S k = Some n"
    and kept: "\<forall>x < sy_fresh S. session_kept n (sy_heap S x) (sy_heap T x)"
    and ops: "\<forall>x < sy_fresh S. sy_operations T x \<le> sy_operations S x \<or> sy_holder S (rs_prefix (sy_heap S x)) = Some n"
    and clients: "\<forall>x < sy_fresh S. sy_clients T x \<le> sy_clients S x \<or> 0 < sy_operations S x"
    and census: "\<forall>C. sy_census T = Some C \<longrightarrow> sy_census S = Some C \<or> sy_startup_locks S \<subseteq> C"
    and cleared: "\<forall>k \<in> sy_cleared T. k \<in> sy_cleared S \<or> sy_holder S k = Some n"
    by - (elim conjE, assumption)+
  show "x < sy_fresh S \<Longrightarrow> session_kept n (sy_heap S x) (sy_heap T x)" using kept by blast
  show "x < sy_fresh S \<Longrightarrow> x < sy_fresh T" using le by linarith
  show "sy_holder S k \<noteq> Some n \<Longrightarrow> sy_sessions T k = sy_sessions S k \<or> sy_sessions T k = None"
    using spec [OF sessions, of k] by auto
  show "sy_closing S \<Longrightarrow> sy_closing T" "k \<in> sy_startup_locks S \<Longrightarrow> k \<in> sy_startup_locks T"
    using closing entries by blast+
  show "x < sy_fresh S \<Longrightarrow> sy_operations S x = 0 \<Longrightarrow> sy_holder S (rs_prefix (sy_heap S x)) \<noteq> Some n \<Longrightarrow> sy_operations T x = 0"
    using ops by fastforce
  show "x < sy_fresh S \<Longrightarrow> sy_operations S x = 0 \<Longrightarrow> sy_clients S x = 0 \<Longrightarrow> sy_clients T x = 0" using clients by fastforce
  show "k \<in> sy_cleared T \<Longrightarrow> sy_holder S k \<noteq> Some n \<Longrightarrow> k \<in> sy_cleared S" using cleared by blast
  show "sy_census T = Some C \<Longrightarrow> k \<in> sy_startup_locks S \<Longrightarrow> (\<And>D. sy_census S = Some D \<Longrightarrow> k \<in> D) \<Longrightarrow> k \<in> C"
    using census by blast
qed

lemma sees_okD:
  assumes "sees_ok S pos"
  shows "works_on pos = Some (k', x) \<Longrightarrow> x < sy_fresh S"
    "works_on pos = Some (Some key, x) \<Longrightarrow> rs_prefix (sy_heap S x) = key"
    "read_session pos = Some (key, x) \<Longrightarrow> sy_sessions S key = Some x \<or> sy_sessions S key = None"
    "finds_none pos = Some key \<Longrightarrow> sy_sessions S key = None" "emptied pos = Some x \<Longrightarrow> \<not> rs_child (sy_heap S x)"
    "found_ready pos = Some x \<Longrightarrow> rs_state (sy_heap S x) = SsReady" "found_over pos = Some x \<Longrightarrow> over (rs_state (sy_heap S x))"
    "request_of pos = Some (q, x) \<Longrightarrow> rs_runner (sy_heap S x) = bq_runner q"
    "request_of pos = Some (q, x) \<Longrightarrow> rs_plan_id (sy_heap S x) = bq_plan_id q"
  using assms by (auto simp: sees_ok_def)

lemma ends_okD:
  assumes "ends_ok S pos"
  shows "pc_matches pos" "needs_closing pos \<Longrightarrow> sy_closing S" "past_ready pos = Some x \<Longrightarrow> rs_state (sy_heap S x) \<noteq> SsReady"
    "saw_no_operations pos = Some x \<Longrightarrow> sy_operations S x = 0" "saw_no_clients pos = Some x \<Longrightarrow> sy_clients S x = 0"
    "entered pos = Some k \<Longrightarrow> k \<in> sy_startup_locks S" "admitted pos = Some k \<Longrightarrow> k \<notin> sy_cleared S"
    "admitted pos = Some k \<Longrightarrow> sy_census S = Some C \<Longrightarrow> k \<in> C"
  using assms by (auto simp: ends_ok_def)

lemma session_keptD:
  assumes "session_kept n s t"
  shows "rs_prefix t = rs_prefix s" "rs_runner t = rs_runner s" "rs_plan_id t = rs_plan_id s" "rs_child t \<Longrightarrow> rs_child s"
    "rs_guard s = Some m \<Longrightarrow> m \<noteq> n \<Longrightarrow> rs_state t = rs_state s" "rs_state s \<noteq> SsReady \<Longrightarrow> rs_state t \<noteq> SsReady"
    "over (rs_state s) \<Longrightarrow> over (rs_state t)"
  using assms by (auto simp: session_kept_def)

lemma stable_task:
  assumes ok: "task_ok S m pos" and k: "keeps n S T" "m \<noteq> n"
  shows "task_ok T m pos"
proof -
  have l: "locks_ok S m pos" and s: "sees_ok S pos" and e: "ends_ok S pos" using ok by (auto simp: task_ok_def)
  note sees = sees_okD [OF s] and ends = ends_okD [OF e]
  have kept: "session_kept n (sy_heap S x) (sy_heap T x)" if "works_on pos = Some (key, x)" for key x
    using keepsD(1) [OF k(1)] sees(1) [OF that] .
  have holder: "sy_holder S key \<noteq> Some n" if "locked_key pos = Some key" for key
    using task_okD(1) [OF ok that] k(2) by simp
  have same: "sy_sessions T key = sy_sessions S key \<or> sy_sessions T key = None" if "locked_key pos = Some key" for key
    using keepsD(3) [OF k(1) holder [OF that]] .
  have state: "rs_state (sy_heap T x) = rs_state (sy_heap S x)" if g: "guarded pos = Some x" for x
  proof -
    obtain key where w: "works_on pos = Some (Some key, x)" using positionsD(7) g by blast
    from task_okD(4) [OF ok g] sees(1) [OF w] have "rs_guard (sy_heap S x) = Some m" by blast
    with session_keptD(5) [OF kept [OF w]] k(2) show ?thesis by blast
  qed
  have ops: "sy_operations T x = 0" if x: "saw_no_operations pos = Some x" for x
  proof -
    obtain key where w: "works_on pos = Some (Some key, x)" "locked_key pos = Some key" using positionsD(11) [OF x] by blast
    show ?thesis using keepsD(6) [OF k(1) sees(1) [OF w(1)] ends(4) [OF x]] sees(2) [OF w(1)] holder [OF w(2)] by simp
  qed
  have clients: "sy_clients T x = 0" if x: "saw_no_clients pos = Some x" for x
  proof -
    have o: "saw_no_operations pos = Some x" using positionsD(12) [OF x] .
    then obtain key where w: "works_on pos = Some (Some key, x)" using positionsD(11) by blast
    show ?thesis using keepsD(7) [OF k(1) sees(1) [OF w] ends(4) [OF o] ends(5) [OF x]] .
  qed
  have "sees_ok T pos"
    unfolding sees_ok_def
  proof (intro conjI allI impI)
    fix key x assume w: "works_on pos = Some (key, x)"
    show "x < sy_fresh T" using keepsD(2) [OF k(1) sees(1) [OF w]] .
    fix y assume "key = Some y"
    with w session_keptD(1) [OF kept [OF w]] sees(2) show "rs_prefix (sy_heap T x) = y" by simp
  next
    fix key x assume r: "read_session pos = Some (key, x)"
    from sees(3) [OF r] same [OF positionsD(1) [OF r]] show "sy_sessions T key = Some x \<or> sy_sessions T key = None" by auto
  next
    fix key assume r: "finds_none pos = Some key"
    from sees(4) [OF r] same [OF positionsD(2) [OF r]] show "sy_sessions T key = None" by auto
  next
    fix x assume r: "emptied pos = Some x"
    with positionsD(8) obtain key where "works_on pos = Some (Some key, x)" by blast
    with session_keptD(4) kept sees(5) [OF r] show "\<not> rs_child (sy_heap T x)" by blast
  next
    fix x assume r: "found_ready pos = Some x"
    show "rs_state (sy_heap T x) = SsReady" using state [OF positionsD(5) [OF r]] sees(6) [OF r] by simp
  next
    fix x assume r: "found_over pos = Some x"
    show "over (rs_state (sy_heap T x))" using state [OF positionsD(6) [OF r]] sees(7) [OF r] by simp
  next
    fix q x assume r: "request_of pos = Some (q, x)"
    with positionsD(10) obtain key where w: "works_on pos = Some (Some key, x)" by blast
    show "rs_runner (sy_heap T x) = bq_runner q" "rs_plan_id (sy_heap T x) = bq_plan_id q"
      using sees(8,9) [OF r] session_keptD(2,3) [OF kept [OF w]] by simp_all
  qed
  moreover have "ends_ok T pos"
    unfolding ends_ok_def
  proof (intro conjI allI impI)
    fix x assume r: "past_ready pos = Some x"
    with positionsD(9) obtain key where w: "works_on pos = Some (Some key, x)" by blast
    show "rs_state (sy_heap T x) \<noteq> SsReady" using session_keptD(6) [OF kept [OF w] ends(3) [OF r]] .
  next
    fix key assume a: "admitted pos = Some key"
    note key = positionsD(3,4) [OF a]
    show "key \<notin> sy_cleared T" using keepsD(8) [OF k(1) _ holder [OF key(1)]] ends(7) [OF a] by blast
    fix C assume "sy_census T = Some C"
    then show "key \<in> C" using keepsD(9) [OF k(1) _ ends(6) [OF key(2)] ends(8) [OF a]] by blast
  qed (use ops clients ends keepsD(4,5) [OF k(1)] in auto)
  ultimately show ?thesis using stable_locks [OF l s k] by (simp add: task_ok_def)
qed

section \<open>A task establishes its next assertion\<close>

lemma word_count_zero:
  "of_nat c = (0 :: u32) \<Longrightarrow> c < 2 ^ 32 \<Longrightarrow> c = 0"
  by (auto simp: word_of_nat_eq_0_iff dest: dvd_imp_le)

lemma table_okD:
  assumes "table_ok S" "sy_sessions S k = Some x"
  shows "x < sy_fresh S" "rs_prefix (sy_heap S x) = k" "k \<in> sy_startup_locks S"
  using assms by (auto simp: table_ok_def)

lemma leases_okD:
  assumes "leases_ok S" "x < sy_fresh S"
  shows "rs_operation_leases (sy_heap S x) = 0 \<Longrightarrow> sy_operations S x = 0"
    "rs_client_leases (sy_heap S x) = 0 \<Longrightarrow> sy_clients S x = 0"
  using assms word_count_zero by (auto simp: leases_ok_def)

lemma census_okD:
  assumes "census_ok S" "\<not> sy_closing S"
  shows "sy_census S = None" "k \<notin> sy_cleared S"
  using assms by (auto simp: census_ok_def)

lemma upd_fields [simp]:
  "sy_fresh (upd x f S) = sy_fresh S" "sy_sessions (upd x f S) = sy_sessions S" "sy_closing (upd x f S) = sy_closing S"
  "sy_startup_locks (upd x f S) = sy_startup_locks S" "sy_heap (upd x f S) y = (if y = x then f (sy_heap S x) else sy_heap S y)"
  by (simp_all add: upd_def)

text \<open>The locks and mutexes of a task as sets.\<close>

definition held :: "system \<Rightarrow> nat \<Rightarrow> string set" where
  "held S n = {k. sy_holder S k = Some n}"

definition guards :: "system \<Rightarrow> nat \<Rightarrow> nat set" where
  "guards S n = {x. x < sy_fresh S \<and> rs_guard (sy_heap S x) = Some n}"

lemma held_simps [simp]:
  "held (release k S) n = held S n - {k}" "held (guard_by g x S) n = held S n" "held (upd x f S) n = held S n"
  "held (S\<lparr>sy_holder := (sy_holder S)(k \<mapsto> n)\<rparr>) n = insert k (held S n)" "held (dispose x S) n = held S n"
  "held (startup_entry k S) n = held S n" "held (remove_session_if_same k x S) n = held S n"
  "held (spawn pos S) n = held S n" "held (S\<lparr>sy_operations := a\<rparr>) n = held S n"
  "held (S\<lparr>sy_sessions := b\<rparr>) n = held S n" "held (S\<lparr>sy_cleared := c\<rparr>) n = held S n"
  "held (S\<lparr>sy_closing := d\<rparr>) n = held S n" "held (S\<lparr>sy_census := e\<rparr>) n = held S n"
  "held (S\<lparr>sy_aborted := f'\<rparr>) n = held S n" "held (fold (\<lambda>k. spawn (h k)) ks S) n = held S n"
  "held (S\<lparr>sy_heap := f1, sy_operations := f2, sy_clients := f3, sy_fresh := f4\<rparr>) n = held S n"
  "held (S\<lparr>sy_clients := f3\<rparr>) n = held S n" "held (S\<lparr>sy_startup_locks := f5\<rparr>) n = held S n"
  by (auto simp: held_def system_defs)

lemma guards_simps [simp]:
  "guards (release k S) n = guards S n" "guards (guard_by None x S) n = guards S n - {x}"
  "x < sy_fresh S \<Longrightarrow> guards (guard_by (Some n) x S) n = insert x (guards S n)"
  "(\<And>s. rs_guard (f s) = rs_guard s) \<Longrightarrow> guards (upd x f S) n = guards S n"
  "guards (S\<lparr>sy_holder := h'\<rparr>) n = guards S n" "guards (dispose x S) n = guards S n"
  "guards (startup_entry k S) n = guards S n" "guards (remove_session_if_same k x S) n = guards S n"
  "guards (spawn pos S) n = guards S n" "guards (S\<lparr>sy_operations := a\<rparr>) n = guards S n"
  "guards (S\<lparr>sy_sessions := b\<rparr>) n = guards S n" "guards (S\<lparr>sy_cleared := c\<rparr>) n = guards S n"
  "guards (S\<lparr>sy_closing := d\<rparr>) n = guards S n" "guards (S\<lparr>sy_census := e\<rparr>) n = guards S n"
  "guards (S\<lparr>sy_aborted := f'\<rparr>) n = guards S n" "guards (fold (\<lambda>k. spawn (h k)) ks S) n = guards S n"
  "guards (S\<lparr>sy_heap := (sy_heap S)(sy_fresh S := new_session kk rr pp), sy_operations := f2, sy_clients := f3, sy_fresh := Suc (sy_fresh S)\<rparr>) n = guards S n"
  "guards (S\<lparr>sy_clients := f3\<rparr>) n = guards S n" "guards (S\<lparr>sy_startup_locks := f5\<rparr>) n = guards S n"
  by (auto simp: guards_def system_defs new_session_def less_Suc_eq)

lemma locks_ok_sets:
  assumes "\<And>x. guarded pos = Some x \<Longrightarrow> x < sy_fresh S"
  shows "locks_ok S n pos \<longleftrightarrow> held S n = set_option (locked_key pos) \<and> guards S n = set_option (guarded pos)"
  using assms by (fastforce simp: locks_ok_def held_def guards_def)

lemma task_ok_sets:
  assumes "task_ok S n pos"
  shows "held S n = set_option (locked_key pos)" "guards S n = set_option (guarded pos)"
proof -
  have "x < sy_fresh S" if "guarded pos = Some x" for x
    using assms positionsD(7) [OF that] sees_okD(1) by (auto simp: task_ok_def)
  with assms locks_ok_sets show "held S n = set_option (locked_key pos)" "guards S n = set_option (guarded pos)"
    by (auto simp: task_ok_def)
qed

lemma task_ok_sees: "task_ok S n pos \<Longrightarrow> sees_ok S pos" "task_ok S n pos \<Longrightarrow> ends_ok S pos"
  by (simp_all add: task_ok_def)

lemma task_okI:
  assumes "sees_ok S pos" "ends_ok S pos" "held S n = set_option (locked_key pos)" "guards S n = set_option (guarded pos)"
  shows "task_ok S n pos"
proof -
  have "x < sy_fresh S" if "guarded pos = Some x" for x
    using positionsD(7) [OF that] sees_okD(1) [OF assms(1)] by blast
  with assms locks_ok_sets show ?thesis by (simp add: task_ok_def)
qed

lemma begin_locks:
  assumes ok: "task_ok S n (Begin q pc)" and act: "begin_operation n r q pc S = Some (pos, T)"
  shows "held T n = set_option (locked_key pos) \<and> guards T n = set_option (guarded pos)"
proof -
  note h = task_ok_sets [OF ok] sees_okD(1) [OF task_ok_sees(1) [OF ok]]
  show ?thesis
  proof (cases pc)
    case (BgJudge x)
    have "held S n = {bq_key q}" "guards S n = {}" "x < sy_fresh S" using BgJudge h by auto
    then show ?thesis using act BgJudge
      by (cases "rs_state (sy_heap S x)") (simp_all split: if_splits, auto)
  next
    case (BgQuiet x l)
    then show ?thesis using act h by (cases l) (simp_all split: if_splits, auto)
  qed (use act h in \<open>auto split: reply_splits\<close>)
qed

lemma begin_sees:
  assumes ok: "task_ok S n (Begin q pc)" and table: "table_ok S" and act: "begin_operation n r q pc S = Some (pos, T)"
  shows "sees_ok T pos"
proof -
  note s = sees_okD [OF task_ok_sees(1) [OF ok]]
  show ?thesis
  proof (cases pc)
    case (BgJudge x)
    then show ?thesis using act s
      by (cases "rs_state (sy_heap S x)") (auto simp: sees_ok_def system_defs split: if_splits)
  next
    case (BgQuiet x l)
    then show ?thesis using act s by (cases l) (auto simp: sees_ok_def split: if_splits)
  qed (use act s table_okD [OF table] in \<open>auto simp: sees_ok_def system_defs less_Suc_eq new_session_def split: reply_splits\<close>)
qed

lemma begin_ends:
  assumes ok: "task_ok S n (Begin q pc)" and census: "census_ok S" and act: "begin_operation n r q pc S = Some (pos, T)"
  shows "ends_ok T pos"
proof -
  note e = ends_okD [OF task_ok_sees(2) [OF ok]]
  show ?thesis
  proof (cases pc)
    case (BgJudge x)
    then show ?thesis using act e
      by (cases "rs_state (sy_heap S x)") (auto simp: ends_ok_def system_defs split: if_splits)
  next
    case (BgQuiet x l)
    then show ?thesis using act e by (cases l) (auto simp: ends_ok_def system_defs split: if_splits)
  qed (use act e census_okD [OF census] in \<open>auto simp: ends_ok_def system_defs new_session_def split: reply_splits\<close>)
qed

lemma returns_locks:
  assumes "returns who k res U = (pos, T)" "who \<noteq> ByForce"
  shows "held T n = held U n - {k} \<and> guards T n = guards U n \<and> (\<exists>out. pos = Finished out)"
  using assms by (cases who) (auto simp: returns_def)

lemma returns_finished: "returns who k res S = (pos, T) \<Longrightarrow> \<exists>out. pos = Finished out"
  by (cases who) (auto simp: returns_def)

lemma sees_finished [simp]: "sees_ok T (Finished out)" "ends_ok T (Finished out)"
  by (simp_all add: sees_ok_def ends_ok_def)

lemma close_locks:
  assumes ok: "task_ok S n (Close who k x pc)" and act: "shutdown_session_locked n r who k x pc S = Some (pos, T)"
  shows "held T n = set_option (locked_key pos) \<and> guards T n = set_option (guarded pos)"
proof -
  have x: "x < sy_fresh S" using sees_okD(1) [OF task_ok_sees(1) [OF ok]] by simp
  have who: "who \<noteq> ByForce" using ends_okD(1) [OF task_ok_sees(2) [OF ok]] by simp
  have h: "held S n = {k}" "guards S n = set_option (guarded (Close who k x pc))" using task_ok_sets [OF ok] by simp_all
  note ret = returns_locks [OF _ who, where n = n]
  show ?thesis
  proof (cases pc)
    case (LkQuiescent l)
    then show ?thesis using act h who by (cases l) (auto dest!: ret split: if_splits)
  next
    case (LkIdle l)
    then show ?thesis using act h who by (cases l) (auto dest!: ret split: if_splits)
  next
    case LkState
    then show ?thesis using act h who
      by (cases "rs_state (sy_heap S x)") (auto dest!: ret split: shutdown_cause.splits)
  next
    case LkStart
    then show ?thesis using act h who x by (cases "rs_guard (sy_heap S x)") (auto split: if_splits)
  qed (use act h who x in \<open>auto dest!: ret split: if_splits reply.splits\<close>)
qed

lemma close_sees:
  assumes "task_ok S n (Close who k x pc)" "shutdown_session_locked n r who k x pc S = Some (pos, T)"
  shows "sees_ok T pos"
  using assms(2) sees_okD [OF task_ok_sees(1) [OF assms(1)]]
  by (cases pc) (auto simp: sees_ok_def system_defs split: reply_splits shutdown_cause.splits dest!: returns_finished)

lemma close_ends:
  assumes ok: "task_ok S n (Close who k x pc)" and leases: "leases_ok S"
    and act: "shutdown_session_locked n r who k x pc S = Some (pos, T)"
  shows "ends_ok T pos"
proof -
  have x: "x < sy_fresh S" using sees_okD(1) [OF task_ok_sees(1) [OF ok]] by simp
  note z = leases_okD [OF leases x] and e = ends_okD [OF task_ok_sees(2) [OF ok]]
  note e' = e(1) e(2) e(3) [of x] e(4) [of x] e(5) [of x]
  show ?thesis
  proof (cases pc)
    case (LkQuiescent l)
    then show ?thesis using act z e' by (cases l) (auto simp: ends_ok_def split: if_splits dest!: returns_finished)
  next
    case (LkIdle l)
    then show ?thesis using act z e' by (cases l) (auto simp: ends_ok_def split: if_splits dest!: returns_finished)
  next
    case LkState
    then show ?thesis using act e' sees_okD(6) [OF task_ok_sees(1) [OF ok]]
      by (auto simp: ends_ok_def system_defs split: if_splits session_state.splits shutdown_cause.splits dest!: returns_finished)
  qed (use act e' in \<open>auto simp: ends_ok_def system_defs split: if_splits reply.splits dest!: returns_finished\<close>)
qed

lemma fail_locks:
  assumes ok: "task_ok S n (Fail who k x e pc)" and act: "fail_session n r who k x e pc S = Some (pos, T)"
  shows "held T n = set_option (locked_key pos) \<and> guards T n = set_option (guarded pos)"
proof -
  have h: "held S n = set_option (locked_key (Fail who k x e pc))" "guards S n = {}" using task_ok_sets [OF ok] by simp_all
  show ?thesis
  proof (cases "who = ByForce")
    case True
    then show ?thesis using act h by (cases pc) (auto simp: returns_def split: if_splits)
  next
    case False
    then show ?thesis using act h by (cases pc) (auto dest!: returns_locks [OF _ False, where n = n] split: if_splits)
  qed
qed

lemma fail_sees:
  assumes ok: "task_ok S n (Fail who k x e pc)" and act: "fail_session n r who k x e pc S = Some (pos, T)"
  shows "sees_ok T pos" "ends_ok T pos"
proof -
  note s = sees_okD [OF task_ok_sees(1) [OF ok]] and e = ends_okD [OF task_ok_sees(2) [OF ok]]
  show "sees_ok T pos" using act s
    by (cases pc) (auto simp: sees_ok_def system_defs split: if_splits dest!: returns_finished)
  show "ends_ok T pos" using act e
    by (cases pc) (auto simp: ends_ok_def system_defs split: if_splits dest!: returns_finished)
qed

lemma shut_local:
  assumes ok: "task_ok S n (Shut k x cause pc)" and act: "shutdown_session n k x cause pc S = Some (pos, T)"
  shows "task_ok T n pos"
  using act task_ok_sets [OF ok] sees_okD(1,2) [OF task_ok_sees(1) [OF ok]] ends_okD [OF task_ok_sees(2) [OF ok]]
  by (cases pc) (auto intro!: task_okI simp: sees_ok_def ends_ok_def startup_entry_def split: if_splits)

lemma worker_local:
  assumes ok: "task_ok S n (Worker k pc)" and table: "table_ok S" and act: "shutdown_worker n k pc S = Some (pos, T)"
  shows "task_ok T n pos"
  using act task_ok_sets [OF ok] ends_okD [OF task_ok_sees(2) [OF ok]] table_okD [OF table]
  by (cases pc) (auto intro!: task_okI simp: sees_ok_def ends_ok_def startup_entry_def split: if_splits option.splits)

lemma all_local:
  assumes ok: "task_ok S n (CloseAll pc)" and act: "shutdown_all r pc S = Some (pos, T)"
  shows "task_ok T n pos"
  using act task_ok_sets [OF ok] ends_okD(2) [OF task_ok_sees(2) [OF ok]]
  by (cases pc) (auto intro!: task_okI simp: sees_ok_def ends_ok_def Let_def split: if_splits option.splits reply.splits)

lemma timer_local:
  assumes ok: "task_ok S n (Timer k x g pc)" and act: "idle_timer r k x g pc S = Some (pos, T)"
  shows "task_ok T n pos"
proof -
  note h = task_ok_sets [OF ok] sees_okD(1,2) [OF task_ok_sees(1) [OF ok]]
  show ?thesis using act h
    by (cases pc) (auto intro!: task_okI simp: sees_ok_def ends_ok_def split: if_splits option.splits)
qed

lemma act_local:
  assumes inv: "registry_inv S" and act: "act n r (sy_tasks S n) S = Some (pos, T)"
  shows "task_ok T n pos"
proof -
  have ok: "task_ok S n (sy_tasks S n)" and table: "table_ok S" and leases: "leases_ok S" and census: "census_ok S"
    using inv by (auto simp: registry_inv_def)
  note h = task_ok_sets [OF ok] sees_okD(1) [OF task_ok_sees(1) [OF ok]]
  show ?thesis
  proof (cases "sy_tasks S n")
    case (Begin q pc)
    then show ?thesis using ok act table census begin_locks begin_sees begin_ends by (intro task_okI) auto
  next
    case (Close who k x pc)
    then show ?thesis using ok act leases close_locks close_sees close_ends by (intro task_okI) auto
  next
    case (Fail who k x e pc)
    then show ?thesis using ok act fail_locks fail_sees by (intro task_okI) auto
  next
    case (Shut k x cause pc) then show ?thesis using ok act shut_local by auto
  next
    case (Worker k pc) then show ?thesis using ok act table worker_local by auto
  next
    case (CloseAll pc) then show ?thesis using ok act all_local by auto
  next
    case (Timer k x g pc) then show ?thesis using ok act timer_local by auto
  next
    case (Exited x c)
    then show ?thesis using act h
      by (cases c) (auto intro!: task_okI simp: sees_ok_def ends_ok_def split: if_splits)
  qed (use act h in \<open>auto intro!: task_okI simp: sees_ok_def ends_ok_def shutdown_prefix_def schedule_idle_shutdown_def
      arm_timer_def Let_def split: if_splits option.splits\<close>)
qed

section \<open>Spawned tasks\<close>

definition spawned_ok :: "system \<Rightarrow> task_position \<Rightarrow> bool" where
  "spawned_ok T pos \<longleftrightarrow>
     sees_ok T pos \<and> ends_ok T pos \<and> locked_key pos = None \<and> guarded pos = None \<and> created pos = None \<and> holds_child pos = None"

definition spawns :: "system \<Rightarrow> system \<Rightarrow> bool" where
  "spawns S T \<longleftrightarrow>
     sy_next S \<le> sy_next T \<and> (\<forall>m. m < sy_next S \<or> sy_next T \<le> m \<longrightarrow> sy_tasks T m = sy_tasks S m) \<and>
     (\<forall>m. sy_next S \<le> m \<longrightarrow> m < sy_next T \<longrightarrow> spawned_ok T (sy_tasks T m))"

lemma spawns_same: "sy_next T = sy_next S \<Longrightarrow> sy_tasks T = sy_tasks S \<Longrightarrow> spawns S T"
  by (auto simp: spawns_def)

lemma spawns_one:
  assumes "sy_next T = sy_next S" "sy_tasks T = sy_tasks S" "spawned_ok (spawn pos T) pos"
  shows "spawns S (spawn pos T)"
  using assms by (auto simp: spawns_def less_Suc_eq)

lemma spawns_all:
  assumes "sy_next T = sy_next S" "sy_tasks T = sy_tasks S" "\<And>k. spawned_ok (fold (\<lambda>k. spawn (f k)) ks T) (f k)"
  shows "spawns S (fold (\<lambda>k. spawn (f k)) ks T)"
  using assms by (auto simp: spawns_def spawn_all_tasks)

lemma tasks_simps [simp]:
  "sy_tasks (release k S) = sy_tasks S" "sy_tasks (guard_by g x S) = sy_tasks S" "sy_tasks (upd x f S) = sy_tasks S"
  "sy_tasks (dispose x S) = sy_tasks S" "sy_tasks (startup_entry k S) = sy_tasks S"
  "sy_tasks (remove_session_if_same k x S) = sy_tasks S"
  "sy_next (release k S) = sy_next S" "sy_next (guard_by g x S) = sy_next S" "sy_next (upd x f S) = sy_next S"
  "sy_next (dispose x S) = sy_next S" "sy_next (startup_entry k S) = sy_next S"
  "sy_next (remove_session_if_same k x S) = sy_next S"
  by (simp_all add: system_defs)

lemma returns_tasks: "returns who k res S = (pos, T) \<Longrightarrow> sy_tasks T = sy_tasks S \<and> sy_next T = sy_next S"
  by (cases who) (auto simp: returns_def)

lemma spawned_shut:
  "x < sy_fresh T \<Longrightarrow> rs_prefix (sy_heap T x) = k \<Longrightarrow> (cause = Forced \<Longrightarrow> rs_state (sy_heap T x) \<noteq> SsReady) \<Longrightarrow>
   spawned_ok T (Shut k x cause ShEnter)"
  by (auto simp: spawned_ok_def sees_ok_def ends_ok_def split: if_splits)

lemma spawned_worker: "sy_closing T \<Longrightarrow> pc = WkEnter \<or> pc = WkForce \<Longrightarrow> spawned_ok T (Worker k pc)"
  by (auto simp: spawned_ok_def sees_ok_def ends_ok_def)

lemma spawned_timer:
  "x < sy_fresh T \<Longrightarrow> rs_prefix (sy_heap T x) = k \<Longrightarrow> spawned_ok T (Timer k x g pc)"
  by (auto simp: spawned_ok_def sees_ok_def ends_ok_def)

lemma act_spawns:
  assumes inv: "registry_inv S" and act: "act n r (sy_tasks S n) S = Some (pos, T)"
  shows "spawns S T"
proof -
  have ok: "task_ok S n (sy_tasks S n)" and table: "table_ok S" using inv by (auto simp: registry_inv_def)
  note s = sees_okD(1,2) [OF task_ok_sees(1) [OF ok]] and cl = ends_okD(2) [OF task_ok_sees(2) [OF ok]]
  show ?thesis
  proof (cases "sy_tasks S n")
    case (Begin q pc)
    show ?thesis
    proof (cases pc)
      case (BgJudge x)
      with Begin act s show ?thesis
        by (cases "rs_state (sy_heap S x)")
          (auto intro!: spawns_one spawned_shut simp: release_def split: if_splits intro: spawns_same)
    next
      case (BgGeneration x)
      with Begin act s show ?thesis
        by (auto intro!: spawns_one spawned_shut simp: release_def guard_by_def upd_def)
    next
      case (BgQuiet x l)
      with Begin act show ?thesis by (cases l) (auto intro!: spawns_same split: if_splits)
    qed (use Begin act in \<open>auto intro!: spawns_same split: reply_splits\<close>)
  next
    case (Close who k x pc)
    with act show ?thesis
      by (cases pc) (auto intro!: spawns_same dest: returns_tasks split: if_splits option.splits session_state.splits
          reply.splits)
  next
    case (Fail who k x e pc)
    with act show ?thesis by (cases pc) (auto intro!: spawns_same dest: returns_tasks split: if_splits)
  next
    case (Shut k x cause pc)
    with act show ?thesis by (cases pc) (auto intro!: spawns_same split: if_splits)
  next
    case (Worker k pc)
    with act show ?thesis by (cases pc) (auto intro!: spawns_same split: if_splits option.splits)
  next
    case (CloseAll pc)
    with act cl show ?thesis
      by (cases pc) (auto intro!: spawns_all spawned_worker intro: spawns_same
          simp: Let_def split: if_splits option.splits reply.splits)
  next
    case (Timer k x g pc)
    with act s show ?thesis
      by (cases pc) (auto intro!: spawns_one spawned_shut intro: spawns_same split: if_splits option.splits)
  next
    case (Exited x c)
    with act show ?thesis by (cases c) (auto intro!: spawns_same split: if_splits)
  next
    case (Arm x)
    with act s show ?thesis by (auto intro!: spawns_one spawned_timer simp: arm_timer_def Let_def upd_def)
  next
    case (PrefixLook k)
    with act table_okD [OF table] show ?thesis
      by (auto intro!: spawns_one spawned_shut intro: spawns_same simp: shutdown_prefix_def split: option.splits)
  qed (use act in \<open>auto intro!: spawns_same simp: schedule_idle_shutdown_def split: if_splits option.splits\<close>)
qed

section \<open>Effects on the shared state\<close>

fun writes_state :: "task_position \<Rightarrow> nat option" where
  "writes_state (Close who k x pc) = (if pc = LkCommit \<or> pc = LkMark then Some x else None)"
| "writes_state (Fail who k x e pc) = (if pc = FlMark then Some x else None)"
| "writes_state _ = None"

definition effect :: "system \<Rightarrow> task_position \<Rightarrow> task_position \<Rightarrow> system \<Rightarrow> bool" where
  "effect S old pos T \<longleftrightarrow>
     (\<forall>x < sy_fresh S. (rs_state (sy_heap T x) = rs_state (sy_heap S x) \<or> writes_state old = Some x) \<and> (over (rs_state (sy_heap T x)) \<longrightarrow> over (rs_state (sy_heap S x)) \<or> emptied old = Some x) \<and>
        (rs_child (sy_heap S x) \<longrightarrow> rs_child (sy_heap T x) \<or> holds_child pos = Some x \<or> x \<in> sy_disposed T)) \<and>
     (\<forall>k x. sy_sessions T k = Some x \<longrightarrow> sy_sessions S k = Some x \<or> admitted old = Some k \<and> created old = Some (k, x)) \<and>
     (\<forall>k x. sy_sessions S k = Some x \<longrightarrow>
        sy_sessions T k = Some x \<or> emptied old = Some x \<or> found_over old = Some x \<or> finds_none old = Some k) \<and>
     sy_disposed S \<subseteq> sy_disposed T \<and> (\<forall>x. holds_child old = Some x \<longrightarrow> x \<in> sy_disposed T) \<and>
     (\<forall>x. sy_fresh S \<le> x \<longrightarrow> x < sy_fresh T \<longrightarrow>
        created pos = Some (rs_prefix (sy_heap T x), x) \<and> rs_child (sy_heap T x) \<and> \<not> over (rs_state (sy_heap T x)))"

lemma effect_frame:
  assumes "holds_child old = None" "sy_fresh T = sy_fresh S" "sy_sessions T = sy_sessions S" "sy_disposed T = sy_disposed S"
    "\<And>x. rs_state (sy_heap T x) = rs_state (sy_heap S x)" "\<And>x. rs_child (sy_heap T x) = rs_child (sy_heap S x)"
  shows "effect S old pos T"
  using assms by (simp add: effect_def)

lemma upd_more [simp]: "sy_disposed (upd x f S) = sy_disposed S"
  by (simp add: upd_def)

lemma guard_fields [simp]:
  "sy_fresh (guard_by g x S) = sy_fresh S" "sy_sessions (guard_by g x S) = sy_sessions S"
  "sy_disposed (guard_by g x S) = sy_disposed S" "rs_state (sy_heap (guard_by g x S) y) = rs_state (sy_heap S y)"
  "rs_child (sy_heap (guard_by g x S) y) = rs_child (sy_heap S y)"
  by (simp_all add: guard_by_def upd_def)

lemma release_fields [simp]:
  "sy_fresh (release k S) = sy_fresh S" "sy_sessions (release k S) = sy_sessions S"
  "sy_disposed (release k S) = sy_disposed S" "sy_heap (release k S) = sy_heap S"
  by (simp_all add: release_def)

lemma begin_effect:
  assumes act: "begin_operation n r q pc S = Some (pos, T)"
  shows "effect S (Begin q pc) pos T"
proof (cases pc)
  case (BgJudge x)
  with act show ?thesis by (cases "rs_state (sy_heap S x)") (auto intro!: effect_frame split: if_splits)
next
  case (BgQuiet x l)
  with act show ?thesis by (cases l) (auto intro!: effect_frame split: if_splits)
next
  case (BgRemove x)
  with act show ?thesis by (auto simp: effect_def remove_session_if_same_def split: if_splits)
next
  case BgBoot
  with act show ?thesis by (auto simp: effect_def new_session_def less_Suc_eq split: reply.splits)
next
  case (BgInsert x)
  with act show ?thesis by (auto simp: effect_def split: if_splits)
qed (use act in \<open>auto intro!: effect_frame simp: startup_entry_def split: reply_splits\<close>)

lemma returns_fields:
  "returns who k res S = (pos, T) \<Longrightarrow> sy_fresh T = sy_fresh S \<and> sy_sessions T = sy_sessions S \<and> sy_disposed T = sy_disposed S \<and>
     sy_heap T = sy_heap S"
  by (cases who) (auto simp: returns_def)

lemma dispose_fields [simp]:
  "sy_fresh (dispose x S) = sy_fresh S" "sy_sessions (dispose x S) = sy_sessions S"
  "sy_disposed (dispose x S) = insert x (sy_disposed S)" "sy_heap (dispose x S) = sy_heap S"
  by (simp_all add: dispose_def)

lemma effect_remove:
  assumes "returns who k res (remove_session_if_same k x S) = (pos, T)" "emptied old = Some x" "holds_child old = None"
  shows "effect S old pos T"
proof -
  let ?R = "remove_session_if_same k x S"
  have R: "sy_fresh ?R = sy_fresh S" "sy_disposed ?R = sy_disposed S" "sy_heap ?R = sy_heap S"
    "sy_sessions ?R j = Some y \<Longrightarrow> sy_sessions S j = Some y"
    "sy_sessions S j = Some y \<Longrightarrow> sy_sessions ?R j = Some y \<or> y = x" for j y
    by (auto simp: remove_session_if_same_def split: if_splits)
  show ?thesis using returns_fields [OF assms(1)] R assms(2,3) unfolding effect_def by simp blast
qed

lemma close_effect:
  assumes act: "shutdown_session_locked n r who k x pc S = Some (pos, T)"
  shows "effect S (Close who k x pc) pos T"
proof (cases pc)
  case (LkQuiescent l)
  with act show ?thesis by (cases l) (auto intro!: effect_frame dest: returns_fields split: if_splits)
next
  case (LkIdle l)
  with act show ?thesis by (cases l) (auto intro!: effect_frame dest: returns_fields split: if_splits)
next
  case LkState
  with act show ?thesis
    by (cases "rs_state (sy_heap S x)") (auto intro!: effect_frame dest: returns_fields)
next
  case LkRemove
  with act show ?thesis
    by (auto elim!: effect_remove)
next
  case LkReap
  with act show ?thesis by (auto simp: effect_def split: reply.splits)
next
  case LkGeneration
  with act show ?thesis by (auto intro!: effect_frame dest: returns_fields split: if_splits)
next
  case LkCommit
  with act show ?thesis by (auto simp: effect_def split: if_splits)
next
  case LkMark
  with act show ?thesis by (auto simp: effect_def split: if_splits)
next
  case LkChild
  with act show ?thesis by (auto simp: effect_def split: if_splits)
qed (use act in \<open>auto intro!: effect_frame split: if_splits reply.splits\<close>)

lemma fail_effect:
  assumes act: "fail_session n r who k x e pc S = Some (pos, T)"
  shows "effect S (Fail who k x e pc) pos T"
proof (cases pc)
  case FlRemove
  with act show ?thesis by (auto elim!: effect_remove)
qed (use act in \<open>auto simp: effect_def split: if_splits\<close>)

lemma act_effect:
  assumes act: "act n r (sy_tasks S n) S = Some (pos, T)"
  shows "effect S (sy_tasks S n) pos T"
proof (cases "sy_tasks S n")
  case (Begin q pc) then show ?thesis using act begin_effect by simp
next
  case (Close who k x pc) then show ?thesis using act close_effect by simp
next
  case (Fail who k x e pc) then show ?thesis using act fail_effect by simp
next
  case (Shut k x cause pc)
  with act show ?thesis by (cases pc) (auto intro!: effect_frame simp: startup_entry_def split: if_splits)
next
  case (Worker k pc)
  with act show ?thesis by (cases pc) (auto intro!: effect_frame simp: startup_entry_def split: if_splits option.splits)
next
  case (CloseAll pc)
  with act show ?thesis by (cases pc) (auto intro!: effect_frame simp: Let_def split: if_splits option.splits reply.splits)
next
  case (Timer k x g pc)
  with act show ?thesis by (cases pc) (auto intro!: effect_frame split: if_splits option.splits)
next
  case (Exited x c)
  with act show ?thesis by (cases c) (auto intro!: effect_frame split: if_splits)
qed (use act in \<open>auto intro!: effect_frame simp: schedule_idle_shutdown_def arm_timer_def shutdown_prefix_def Let_def
    split: if_splits option.splits\<close>)

text \<open>A session a task created stays its own, is registered or has lost its child.\<close>

lemma created_kept:
  assumes ok: "task_ok S n (sy_tasks S n)" and table: "table_ok S" and act: "act n r (sy_tasks S n) S = Some (pos, T)"
    and c: "created (sy_tasks S n) = Some (k, x)"
  shows "created pos = Some (k, x) \<or> sy_sessions T k = Some x \<or> \<not> rs_child (sy_heap T x)"
proof -
  have x: "x < sy_fresh S" using c sees_okD(1) [OF task_ok_sees(1) [OF ok]]
    by (cases "sy_tasks S n") (auto split: begin_pc.splits if_splits)
  have gone: "\<not> rs_child (sy_heap S x)" if "over (rs_state (sy_heap S x))"
    using table x that by (auto simp: table_ok_def)
  note e = sees_okD(5) [OF task_ok_sees(1) [OF ok]] and m = ends_okD(1) [OF task_ok_sees(2) [OF ok]]
  show ?thesis
  proof (cases "sy_tasks S n")
    case (Begin q pc)
    with c act show ?thesis by (cases pc) (auto split: if_splits)
  next
    case (Close who j y pc)
    with c have who: "who = ByBegin" "j = k" "y = x" by (auto split: if_splits)
    show ?thesis
    proof (cases pc)
      case LkState
      with Close who act gone show ?thesis
        by (cases "rs_state (sy_heap S x)") (auto dest!: returns_fields)
    next
      case LkRemove
      with Close who act e show ?thesis by (auto dest!: returns_fields simp: remove_session_if_same_def split: if_splits)
    qed (use Close who act m in \<open>auto split: if_splits reply.splits\<close>)
  next
    case (Fail who j y err pc)
    with c have who: "who = ByBegin" "j = k" "y = x" by (auto split: if_splits)
    show ?thesis
    proof (cases pc)
      case FlRemove
      with Fail who act e show ?thesis by (auto dest!: returns_fields simp: remove_session_if_same_def split: if_splits)
    qed (use Fail who act in \<open>auto split: if_splits\<close>)
  qed (use c in auto)
qed

lemma of_nat_pred:
  assumes "0 < c" shows "of_nat (c - Suc 0) = (of_nat c - 1 :: 'a :: ring_1)"
  using assms by (cases c) simp_all

lemma leases_same:
  assumes "leases_ok S" "sy_fresh T = sy_fresh S" "sy_operations T = sy_operations S" "sy_clients T = sy_clients S"
    "\<And>x. rs_operation_leases (sy_heap T x) = rs_operation_leases (sy_heap S x)"
    "\<And>x. rs_client_leases (sy_heap T x) = rs_client_leases (sy_heap S x)"
  shows "leases_ok T"
  using assms by (simp add: leases_ok_def)

lemma lease_fields [simp]:
  "sy_operations (release k S) = sy_operations S" "sy_clients (release k S) = sy_clients S"
  "sy_operations (guard_by g x S) = sy_operations S" "sy_clients (guard_by g x S) = sy_clients S"
  "sy_operations (upd x f S) = sy_operations S" "sy_clients (upd x f S) = sy_clients S"
  "sy_operations (dispose x S) = sy_operations S" "sy_clients (dispose x S) = sy_clients S"
  "sy_operations (startup_entry k S) = sy_operations S" "sy_clients (startup_entry k S) = sy_clients S"
  "sy_operations (remove_session_if_same k x S) = sy_operations S"
  "sy_clients (remove_session_if_same k x S) = sy_clients S"
  "rs_operation_leases (sy_heap (guard_by g x S) y) = rs_operation_leases (sy_heap S y)"
  "rs_client_leases (sy_heap (guard_by g x S) y) = rs_client_leases (sy_heap S y)"
  "sy_heap (startup_entry k S) = sy_heap S" "sy_heap (remove_session_if_same k x S) = sy_heap S"
  "sy_fresh (startup_entry k S) = sy_fresh S" "sy_fresh (remove_session_if_same k x S) = sy_fresh S"
  by (simp_all add: guard_by_def system_defs)

lemma returns_leases:
  "returns who k res S = (pos, T) \<Longrightarrow> sy_operations T = sy_operations S \<and> sy_clients T = sy_clients S"
  by (cases who) (auto simp: returns_def)

lemma close_leases:
  assumes act: "shutdown_session_locked n r who k x pc S = Some (pos, T)" and ok: "leases_ok S"
  shows "leases_ok T"
proof (cases pc)
  case (LkQuiescent l)
  with act show ?thesis by (cases l) (auto intro!: leases_same [OF ok] dest: returns_fields returns_leases split: if_splits)
next
  case (LkIdle l)
  with act show ?thesis by (cases l) (auto intro!: leases_same [OF ok] dest: returns_fields returns_leases split: if_splits)
next
  case LkState
  with act show ?thesis
    by (cases "rs_state (sy_heap S x)") (auto intro!: leases_same [OF ok] dest: returns_fields returns_leases)
qed (use act in \<open>auto intro!: leases_same [OF ok] dest: returns_fields returns_leases split: if_splits reply.splits\<close>)

lemma act_leases:
  assumes act: "act n r (sy_tasks S n) S = Some (pos, T)" and ok: "leases_ok S" and bound: "\<And>x. x < sy_fresh T \<Longrightarrow> sy_operations T x < 2 ^ 32"
  shows "leases_ok T"
proof (cases "sy_tasks S n")
  case (Begin q pc)
  show ?thesis
  proof (cases pc)
    case (BgJudge x)
    with act Begin show ?thesis
      by (cases "rs_state (sy_heap S x)") (auto intro!: leases_same [OF ok] split: if_splits)
  next
    case (BgQuiet x l)
    with act Begin show ?thesis by (cases l) (auto intro!: leases_same [OF ok] split: if_splits)
  next
    case (BgLease x)
    with act Begin ok bound [of x] show ?thesis by (auto simp: leases_ok_def)
  next
    case BgBoot
    with act Begin show ?thesis
      using ok by (auto simp: leases_ok_def new_session_def less_Suc_eq split: reply.splits intro: leases_same [OF ok])
  qed (use act Begin in \<open>auto intro!: leases_same [OF ok] split: reply_splits\<close>)
next
  case (Close who k x pc) then show ?thesis using act close_leases ok by simp
next
  case (Fail who k x e pc)
  with act show ?thesis by (cases pc) (auto intro!: leases_same [OF ok] dest: returns_fields returns_leases split: if_splits)
next
  case (Shut k x cause pc)
  with act show ?thesis by (cases pc) (auto intro!: leases_same [OF ok] split: if_splits)
next
  case (Worker k pc)
  with act show ?thesis by (cases pc) (auto intro!: leases_same [OF ok] split: if_splits option.splits)
next
  case (CloseAll pc)
  with act show ?thesis by (cases pc) (auto intro!: leases_same [OF ok] simp: Let_def split: if_splits option.splits reply.splits)
next
  case (Timer k x g pc)
  with act show ?thesis by (cases pc) (auto intro!: leases_same [OF ok] split: if_splits option.splits)
next
  case (Exited x c)
  with act show ?thesis by (cases c) (auto intro!: leases_same [OF ok] split: if_splits)
qed (use act in \<open>auto intro!: leases_same [OF ok] simp: schedule_idle_shutdown_def arm_timer_def shutdown_prefix_def Let_def
    split: if_splits option.splits\<close>)

text \<open>The history of the shutdown: what a step adds to the census and to the prefixes that are done.\<close>

definition history :: "system \<Rightarrow> task_position \<Rightarrow> system \<Rightarrow> bool" where
  "history S old T \<longleftrightarrow>
     (\<forall>C. sy_census T = Some C \<longrightarrow> sy_census S = Some C \<or> sy_closing T \<and> C = sy_startup_locks S \<and> sy_sessions T = sy_sessions S) \<and>
     (\<forall>k \<in> sy_cleared T. k \<in> sy_cleared S \<or> sy_closing T \<and>
        (\<forall>x. sy_sessions T k = Some x \<longrightarrow> over (rs_state (sy_heap T x))))"

lemma history_same: "sy_census T = sy_census S \<Longrightarrow> sy_cleared T = sy_cleared S \<Longrightarrow> history S old T"
  by (simp add: history_def)

lemma history_fields [simp]:
  "sy_census (release k S) = sy_census S"
  "sy_census (guard_by g x S) = sy_census S" "sy_cleared (guard_by g x S) = sy_cleared S"
  "sy_census (upd x f S) = sy_census S" "sy_cleared (upd x f S) = sy_cleared S"
  "sy_census (dispose x S) = sy_census S" "sy_cleared (dispose x S) = sy_cleared S"
  "sy_census (startup_entry k S) = sy_census S" "sy_cleared (startup_entry k S) = sy_cleared S"
  "sy_census (remove_session_if_same k x S) = sy_census S" "sy_cleared (remove_session_if_same k x S) = sy_cleared S"
  "sy_closing (release k S) = sy_closing S" "sy_closing (guard_by g x S) = sy_closing S"
  "sy_closing (remove_session_if_same k x S) = sy_closing S"
  by (simp_all add: guard_by_def system_defs)

lemma returns_history:
  assumes ret: "returns who k res U = (pos, T)" and U: "sy_census U = sy_census S" "sy_cleared U = sy_cleared S"
    and w: "who = ByWorker \<Longrightarrow> sy_closing U \<and> (\<forall>x. sy_sessions U k = Some x \<longrightarrow> over (rs_state (sy_heap U x)))"
  shows "history S old T"
proof (cases "who = ByWorker")
  case True
  with ret have "T = (release k U)\<lparr>sy_cleared := insert k (sy_cleared U)\<rparr>" by (simp add: returns_def)
  with U w [OF True] show ?thesis by (simp add: history_def release_def)
next
  case False
  then have "sy_census T = sy_census U \<and> sy_cleared T = sy_cleared U" using ret by (cases who) (auto simp: returns_def)
  with U show ?thesis by (simp add: history_same)
qed

lemma history_remove:
  assumes "returns who k res (remove_session_if_same k x S) = (pos, T)" "who = ByWorker \<Longrightarrow> sy_closing S"
    "who = ByWorker \<Longrightarrow> sy_sessions S k = Some x \<or> sy_sessions S k = None"
  shows "history S old T"
proof -
  have "who = ByWorker \<Longrightarrow> sy_sessions (remove_session_if_same k x S) k = None"
    using assms(3) by (auto simp: remove_session_if_same_def)
  with assms(2) show ?thesis by (intro returns_history [OF assms(1)]) simp_all
qed

lemma close_history:
  assumes ok: "task_ok S n (Close who k x pc)" and act: "shutdown_session_locked n r who k x pc S = Some (pos, T)"
  shows "history S (Close who k x pc) T"
proof -
  have c: "who = ByWorker \<Longrightarrow> sy_closing S" using ends_okD(2) [OF task_ok_sees(2) [OF ok]] by simp
  have s: "who = ByWorker \<Longrightarrow> sy_sessions S k = Some x \<or> sy_sessions S k = None"
    using sees_okD(3) [OF task_ok_sees(1) [OF ok]] by simp
  have m: "pc_matches (Close who k x pc)" using ends_okD(1) [OF task_ok_sees(2) [OF ok]] .
  show ?thesis
  proof (cases pc)
    case (LkQuiescent l)
    with m have "who \<noteq> ByWorker" by auto
    with LkQuiescent act show ?thesis by (cases l) (auto intro: history_same elim!: returns_history split: if_splits)
  next
    case (LkIdle l)
    with m have "who \<noteq> ByWorker" by auto
    with LkIdle act show ?thesis by (cases l) (auto intro: history_same elim!: returns_history split: if_splits)
  next
    case (LkGeneration g)
    with m have "who \<noteq> ByWorker" by auto
    with LkGeneration act show ?thesis by (auto intro: history_same elim!: returns_history split: if_splits)
  next
    case LkState
    with act c s show ?thesis
      by (cases "rs_state (sy_heap S x)") (auto intro: history_same elim!: returns_history)
  next
    case LkRemove
    with act have "returns who k (Inr ()) (remove_session_if_same k x S) = (pos, T)" by simp
    then show ?thesis using c s by (rule history_remove)
  qed (use act in \<open>auto intro!: history_same split: if_splits reply.splits\<close>)
qed

lemma census_fields:
  assumes act: "shutdown_all r AlCensus S = Some (pos, T)"
  shows "sy_closing T = sy_closing S \<and> sy_sessions T = sy_sessions S \<and> sy_cleared T = sy_cleared S \<and>
        (sy_census T = sy_census S \<or> sy_census T = Some (sy_startup_locks S))"
proof -
  from act obtain ks where ks: "r = Keys ks" "set ks = sy_startup_locks S" "distinct ks" by (cases r) (auto split: if_splits)
  show ?thesis
  proof (cases "sy_census S")
    case None
    with ks act show ?thesis by (cases ks) (auto simp: Let_def simp del: fold.simps)
  next
    case (Some C)
    with ks act show ?thesis by (cases ks) (auto simp: Let_def simp del: fold.simps)
  qed
qed

lemma act_history:
  assumes ok: "task_ok S n (sy_tasks S n)" and act: "act n r (sy_tasks S n) S = Some (pos, T)"
  shows "history S (sy_tasks S n) T"
proof (cases "sy_tasks S n")
  case (Begin q pc)
  show ?thesis
  proof (cases pc)
    case (BgJudge x)
    with act Begin show ?thesis by (cases "rs_state (sy_heap S x)") (auto intro!: history_same split: if_splits)
  next
    case (BgQuiet x l)
    with act Begin show ?thesis by (cases l) (auto intro!: history_same split: if_splits)
  qed (use act Begin in \<open>auto intro!: history_same split: reply_splits\<close>)
next
  case (Close who k x pc) then show ?thesis using ok act close_history by simp
next
  case (Fail who k x e pc)
  have c: "who = ByWorker \<Longrightarrow> sy_closing S" using Fail ends_okD(2) [OF task_ok_sees(2) [OF ok]] by simp
  have s: "who = ByWorker \<Longrightarrow> sy_sessions S k = Some x \<or> sy_sessions S k = None"
    using Fail sees_okD(3) [OF task_ok_sees(1) [OF ok]] by simp
  show ?thesis
  proof (cases pc)
    case FlRemove
    with act Fail have "returns who k (Inl e) (remove_session_if_same k x S) = (pos, T)" by simp
    then show ?thesis using c s by (rule history_remove)
  qed (use act Fail in \<open>auto intro!: history_same split: if_splits\<close>)
next
  case (Shut k x cause pc)
  with act show ?thesis by (cases pc) (auto intro!: history_same split: if_splits)
next
  case (Worker k pc)
  then have c: "sy_closing S" using ends_okD(2) [OF task_ok_sees(2) [OF ok]] by simp
  show ?thesis
  proof (cases pc)
    case WkLook
    with Worker act c show ?thesis by (cases "sy_sessions S k") (auto simp: history_def)
  qed (use Worker act in \<open>auto intro: history_same split: if_splits option.splits\<close>)
next
  case (CloseAll pc)
  show ?thesis
  proof (cases pc)
    case AlCensus
    with CloseAll have c: "sy_closing S" using ends_okD(2) [OF task_ok_sees(2) [OF ok]] by simp
    from CloseAll AlCensus act have "sy_closing T = sy_closing S \<and> sy_sessions T = sy_sessions S \<and>
        sy_cleared T = sy_cleared S \<and> (sy_census T = sy_census S \<or> sy_census T = Some (sy_startup_locks S))"
      by (intro census_fields) simp
    with c show ?thesis unfolding history_def by (elim conjE disjE) simp_all
  qed (use CloseAll act in \<open>auto intro: history_same split: if_splits reply.splits\<close>)
next
  case (Timer k x g pc)
  with act show ?thesis by (cases pc) (auto intro!: history_same split: if_splits option.splits)
next
  case (Exited x c)
  with act show ?thesis by (cases c) (auto intro!: history_same split: if_splits)
qed (use act in \<open>auto intro!: history_same simp: schedule_idle_shutdown_def arm_timer_def shutdown_prefix_def Let_def
    split: if_splits option.splits\<close>)

section \<open>Preservation\<close>

lemma ok_task [simp]:
  "task_ok (set_task n pos S) m p = task_ok S m p" "table_ok (set_task n pos S) = table_ok S"
  "leases_ok (set_task n pos S) = leases_ok S" "census_ok (set_task n pos S) = census_ok S"
  by (simp_all add: task_ok_def locks_ok_def sees_ok_def ends_ok_def table_ok_def leases_ok_def census_ok_def)

lemma spawned_task_ok:
  assumes old: "task_ok S m Unused" and k: "keeps n S T" "m \<noteq> n" and new: "spawned_ok T pos"
  shows "task_ok T m pos"
proof -
  have "task_ok T m Unused" by (rule stable_task [OF old k])
  from task_ok_sets [OF this] new show ?thesis by (intro task_okI) (simp_all add: spawned_ok_def)
qed

lemma tasks_preserved:
  assumes inv: "registry_inv S" and k: "keeps n S T" and sp: "spawns S T" and own: "task_ok T n pos" and n: "n < sy_next S"
  shows "task_ok T m (sy_tasks (set_task n pos T) m)" "sy_next T \<le> m \<Longrightarrow> sy_tasks (set_task n pos T) m = Unused"
proof -
  have old: "task_ok S m (sy_tasks S m)" and unused: "sy_next S \<le> m \<Longrightarrow> sy_tasks S m = Unused" for m
    using inv by (auto simp: registry_inv_def)
  have le: "sy_next S \<le> sy_next T" and same: "m < sy_next S \<or> sy_next T \<le> m \<Longrightarrow> sy_tasks T m = sy_tasks S m"
    and new: "sy_next S \<le> m \<Longrightarrow> m < sy_next T \<Longrightarrow> spawned_ok T (sy_tasks T m)" for m
    using sp by (auto simp: spawns_def)
  show "task_ok T m (sy_tasks (set_task n pos T) m)"
  proof (cases "m = n")
    case False
    show ?thesis
    proof (cases "sy_next S \<le> m \<and> m < sy_next T")
      case True
      with old [of m] unused [of m] have "task_ok S m Unused" by simp
      from spawned_task_ok [OF this k False] new [of m] True False show ?thesis by simp
    next
      case other: False
      with same [of m] have "sy_tasks T m = sy_tasks S m" by auto
      with stable_task [OF old k False] False show ?thesis by simp
    qed
  qed (use own in simp)
  show "sy_tasks (set_task n pos T) m = Unused" if "sy_next T \<le> m"
  proof -
    have "m \<noteq> n" "sy_next S \<le> m" using n le that by auto
    with same [of m] unused [of m] that show ?thesis by simp
  qed
qed

lemma table_preserved:
  assumes inv: "registry_inv S" and k: "keeps n S T" and e: "effect S (sy_tasks S n) pos T"
  shows "table_ok T"
proof -
  have ok: "task_ok S n (sy_tasks S n)" and table: "table_ok S" using inv by (auto simp: registry_inv_def)
  note sees = sees_okD [OF task_ok_sees(1) [OF ok]]
  show ?thesis
    unfolding table_ok_def
  proof (intro conjI allI impI)
    fix key x assume "sy_sessions T key = Some x"
    with e consider "sy_sessions S key = Some x"
      | "admitted (sy_tasks S n) = Some key" "created (sy_tasks S n) = Some (key, x)"
      unfolding effect_def by blast
    then have x: "x < sy_fresh S \<and> rs_prefix (sy_heap S x) = key \<and> key \<in> sy_startup_locks S"
    proof cases
      case 1 then show ?thesis using table_okD [OF table] by blast
    next
      case 2
      then have "works_on (sy_tasks S n) = Some (Some key, x)"
        by (cases "sy_tasks S n") (auto split: begin_pc.splits if_splits)
      then show ?thesis
        using sees(1,2) ends_okD(6) [OF task_ok_sees(2) [OF ok]] positionsD(4) [OF 2(1)] by blast
    qed
    with session_keptD(1) [OF keepsD(1) [OF k]] keepsD(2,5) [OF k]
    show "x < sy_fresh T" "rs_prefix (sy_heap T x) = key" "key \<in> sy_startup_locks T" by auto
  next
    fix x assume x: "x < sy_fresh T" and child: "rs_child (sy_heap T x)"
    show "\<not> over (rs_state (sy_heap T x))"
    proof (cases "x < sy_fresh S")
      case False
      then have "sy_fresh S \<le> x" by simp
      with e x show ?thesis unfolding effect_def by blast
    next
      case True
      have c: "rs_child (sy_heap S x)" using session_keptD(4) [OF keepsD(1) [OF k True] child] .
      with table True have "\<not> over (rs_state (sy_heap S x))" unfolding table_ok_def by blast
      moreover have "emptied (sy_tasks S n) \<noteq> Some x" using sees(5) [of x] c by blast
      ultimately show ?thesis using e True unfolding effect_def by blast
    qed
  qed
qed

lemma children_preserved:
  assumes inv: "registry_inv S" and k: "keeps n S T" and e: "effect S (sy_tasks S n) pos T" and sp: "spawns S T"
    and c: "\<And>k x. created (sy_tasks S n) = Some (k, x) \<Longrightarrow>
      created pos = Some (k, x) \<or> sy_sessions T k = Some x \<or> \<not> rs_child (sy_heap T x)"
  shows "children_ok (set_task n pos T)"
proof -
  have ok: "task_ok S m (sy_tasks S m)" and table: "table_ok S" and ch: "children_ok S"
    and unused: "sy_next S \<le> m \<Longrightarrow> sy_tasks S m = Unused" for m
    using inv by (auto simp: registry_inv_def)
  let ?U = "set_task n pos T"
  have same: "sy_tasks ?U m = sy_tasks S m" if "m \<noteq> n" "sy_tasks S m \<noteq> Unused" for m
    using that unused [of m] sp unfolding spawns_def by (metis fun_upd_apply not_le set_task_fields(7))
  have here: "\<exists>m. P (sy_tasks ?U m)" if "P pos" for P using that by (intro exI [of _ n]) simp
  have there: "\<exists>m. P (sy_tasks ?U m)" if "P (sy_tasks S m)" "m \<noteq> n" "sy_tasks S m \<noteq> Unused" for P m
    using same [OF that(2,3)] that(1) by (intro exI [of _ m]) simp
  show ?thesis
    unfolding children_ok_def
  proof (intro allI impI conjI; simp only: set_task_fields(1,2,3,9))
    fix x assume x: "x < sy_fresh T" and child: "rs_child (sy_heap T x)"
    show "sy_sessions T (rs_prefix (sy_heap T x)) = Some x \<or> (\<exists>m key. created (sy_tasks ?U m) = Some (key, x))"
    proof (cases "x < sy_fresh S")
      case False
      then have "sy_fresh S \<le> x" by simp
      with e x have "created pos = Some (rs_prefix (sy_heap T x), x)" unfolding effect_def by blast
      then show ?thesis using here [of "\<lambda>p. \<exists>key. created p = Some (key, x)"] by blast
    next
      case True
      note kept = session_keptD [OF keepsD(1) [OF k True]]
      have cS: "rs_child (sy_heap S x)" using kept(4) child .
      with ch True consider "sy_sessions S (rs_prefix (sy_heap S x)) = Some x"
        | m key where "created (sy_tasks S m) = Some (key, x)" unfolding children_ok_def by blast
      then show ?thesis
      proof cases
        case 1
        note sees = sees_okD(4,5,7) [OF task_ok_sees(1) [OF ok [of n]]]
        have "\<not> over (rs_state (sy_heap S x))" using table True cS unfolding table_ok_def by blast
        with sees(3) [of x] have "found_over (sy_tasks S n) \<noteq> Some x" by blast
        moreover have "emptied (sy_tasks S n) \<noteq> Some x" using sees(2) [of x] cS by blast
        moreover have "finds_none (sy_tasks S n) \<noteq> Some (rs_prefix (sy_heap S x))"
          using sees(1) [of "rs_prefix (sy_heap S x)"] 1 by auto
        ultimately have "sy_sessions T (rs_prefix (sy_heap S x)) = Some x" using 1 e unfolding effect_def by blast
        with kept(1) show ?thesis by simp
      next
        case (2 m key)
        show ?thesis
        proof (cases "m = n")
          case True
          from c [of key x] 2 True child consider "created pos = Some (key, x)" | "sy_sessions T key = Some x" by blast
          then show ?thesis
          proof cases
            case 1 then show ?thesis using here [of "\<lambda>p. \<exists>key. created p = Some (key, x)"] by blast
          next
            case w: 2
            have "works_on (sy_tasks S n) = Some (Some key, x)"
              using 2 True by (cases "sy_tasks S n") (auto split: begin_pc.splits if_splits)
            from sees_okD(2) [OF task_ok_sees(1) [OF ok [of n]] this] kept(1) w show ?thesis by simp
          qed
        next
          case False
          have "sy_tasks S m \<noteq> Unused" using 2 by auto
          with there [of "\<lambda>p. \<exists>key. created p = Some (key, x)" m] 2 False show ?thesis by blast
        qed
      qed
    qed
  next
    fix x assume x: "x < sy_fresh T" and child: "\<not> rs_child (sy_heap T x)"
    show "x \<in> sy_disposed T \<or> (\<exists>m. holds_child (sy_tasks ?U m) = Some x)"
    proof (cases "x < sy_fresh S")
      case False
      then have "sy_fresh S \<le> x" by simp
      with e x child show ?thesis unfolding effect_def by blast
    next
      case True
      show ?thesis
      proof (cases "rs_child (sy_heap S x)")
        case cS: True
        with e True child have "holds_child pos = Some x \<or> x \<in> sy_disposed T" unfolding effect_def by blast
        then show ?thesis using here [of "\<lambda>p. holds_child p = Some x"] by blast
      next
        case False
        with ch True consider "x \<in> sy_disposed S" | m where "holds_child (sy_tasks S m) = Some x"
          unfolding children_ok_def by blast
        then show ?thesis
        proof cases
          case 1 then show ?thesis using e unfolding effect_def by blast
        next
          case (2 m)
          show ?thesis
          proof (cases "m = n")
            case True then show ?thesis using e 2 unfolding effect_def by blast
          next
            case False
            have "sy_tasks S m \<noteq> Unused" using 2 by auto
            with there [of "\<lambda>p. holds_child p = Some x" m] 2 False show ?thesis by blast
          qed
        qed
      qed
    qed
  qed
qed

lemma census_preserved:
  assumes inv: "registry_inv S" and k: "keeps n S T" and e: "effect S (sy_tasks S n) pos T" and h: "history S (sy_tasks S n) T"
  shows "census_ok T"
proof -
  have ok: "task_ok S n (sy_tasks S n)" and table: "table_ok S" and census: "census_ok S"
    using inv by (auto simp: registry_inv_def)
  have from_S: "sy_sessions S key = Some x \<or> admitted (sy_tasks S n) = Some key" if "sy_sessions T key = Some x" for key x
    using e that unfolding effect_def by blast
  note ends = ends_okD(7,8) [OF task_ok_sees(2) [OF ok]]
  show ?thesis
    unfolding census_ok_def
  proof (intro conjI allI impI)
    fix C assume C: "sy_census T = Some C"
    with h consider "sy_census S = Some C" | "sy_closing T" "C = sy_startup_locks S" "sy_sessions T = sy_sessions S"
      unfolding history_def by blast
    then have "sy_closing T \<and> dom (sy_sessions T) \<subseteq> C"
    proof cases
      case 1
      with census have "sy_closing S" "dom (sy_sessions S) \<subseteq> C" unfolding census_ok_def by blast+
      with keepsD(4) [OF k] from_S ends(2) 1 show ?thesis by blast
    next
      case 2
      with table_okD(3) [OF table] show ?thesis by auto
    qed
    then show "sy_closing T" "dom (sy_sessions T) \<subseteq> C" by blast+
  next
    fix key x assume key: "key \<in> sy_cleared T"
    with h consider "key \<in> sy_cleared S" | "sy_closing T" "\<forall>x. sy_sessions T key = Some x \<longrightarrow> over (rs_state (sy_heap T x))"
      unfolding history_def by blast
    then have "sy_closing T \<and> (sy_sessions T key = Some x \<longrightarrow> over (rs_state (sy_heap T x)))"
    proof cases
      case 1
      with census have "sy_closing S" and over: "sy_sessions S key = Some x \<longrightarrow> over (rs_state (sy_heap S x))"
        unfolding census_ok_def by blast+
      moreover have "over (rs_state (sy_heap T x))" if "sy_sessions T key = Some x"
      proof -
        from from_S [OF that] ends(1) 1 have s: "sy_sessions S key = Some x" by blast
        from session_keptD(7) [OF keepsD(1) [OF k table_okD(1) [OF table s]]] over s show ?thesis by blast
      qed
      ultimately show ?thesis using keepsD(4) [OF k] by blast
    qed blast
    then show "sy_closing T" "sy_sessions T key = Some x \<Longrightarrow> over (rs_state (sy_heap T x))" by blast+
  qed
qed

lemma act_preserves:
  assumes inv: "registry_inv S" and act: "act n r (sy_tasks S n) S = Some (pos, T)"
    and bound: "\<And>x. x < sy_fresh T \<Longrightarrow> sy_operations T x < 2 ^ 32"
  shows "registry_inv (set_task n pos T)"
proof -
  have ok: "task_ok S n (sy_tasks S n)" and table: "table_ok S" and leases: "leases_ok S" using inv by (auto simp: registry_inv_def)
  note k = act_keeps [OF ok act] and sp = act_spawns [OF inv act] and own = act_local [OF inv act] and e = act_effect [OF act]
  have n: "n < sy_next S" using inv act by (cases "sy_next S \<le> n") (auto simp: registry_inv_def)
  show ?thesis
    unfolding registry_inv_def
    using tasks_preserved [OF inv k sp own n] table_preserved [OF inv k e]
      children_preserved [OF inv k e sp created_kept [OF ok table act]] act_leases [OF act leases bound]
      census_preserved [OF inv k e act_history [OF ok act]]
    by simp
qed

text \<open>Steps outside the tasks: they change counters and start tasks.\<close>

lemma env_preserves:
  assumes inv: "registry_inv S" and k: "\<And>n. keeps n S T" and sp: "spawns S T" and leases: "leases_ok T"
    and same: "sy_fresh T = sy_fresh S" "sy_sessions T = sy_sessions S" "sy_disposed T = sy_disposed S"
      "sy_census T = sy_census S" "sy_cleared T = sy_cleared S" "sy_closing T = sy_closing S"
      "sy_startup_locks T = sy_startup_locks S"
      "\<And>x. rs_state (sy_heap T x) = rs_state (sy_heap S x)" "\<And>x. rs_child (sy_heap T x) = rs_child (sy_heap S x)"
      "\<And>x. rs_prefix (sy_heap T x) = rs_prefix (sy_heap S x)"
  shows "registry_inv T"
proof -
  have old: "task_ok S m (sy_tasks S m)" and unused: "sy_next S \<le> m \<Longrightarrow> sy_tasks S m = Unused" for m
    using inv by (auto simp: registry_inv_def)
  have le: "sy_next S \<le> sy_next T" and keep: "m < sy_next S \<or> sy_next T \<le> m \<Longrightarrow> sy_tasks T m = sy_tasks S m"
    and new: "sy_next S \<le> m \<Longrightarrow> m < sy_next T \<Longrightarrow> spawned_ok T (sy_tasks T m)" for m
    using sp by (auto simp: spawns_def)
  have "task_ok T m (sy_tasks T m)" for m
  proof (cases "sy_next S \<le> m \<and> m < sy_next T")
    case True
    with old [of m] unused [of m] have "task_ok S m Unused" by simp
    from spawned_task_ok [OF this k [of "Suc m"]] new [of m] True show ?thesis by simp
  next
    case False
    with keep [of m] have "sy_tasks T m = sy_tasks S m" by auto
    with stable_task [OF old k [of "Suc m"]] show ?thesis by simp
  qed
  moreover have "sy_tasks T m = Unused" if "sy_next T \<le> m" for m using keep [of m] unused [of m] that le by auto
  moreover have "table_ok T" "census_ok T" using inv same by (simp_all add: registry_inv_def table_ok_def census_ok_def)
  moreover have "children_ok T"
  proof -
    have tasks: "sy_tasks T m = sy_tasks S m" if "sy_tasks S m \<noteq> Unused" for m
      using keep [of m] unused [of m] that by (metis not_le)
    have made: "created (sy_tasks T m) = Some (k, x)" if "created (sy_tasks S m) = Some (k, x)" for m k x
      using that tasks [of m] by force
    have holds: "holds_child (sy_tasks T m) = Some x" if "holds_child (sy_tasks S m) = Some x" for m x
      using that tasks [of m] by force
    have "children_ok S" using inv by (simp add: registry_inv_def)
    then show ?thesis
      unfolding children_ok_def same using made holds by meson
  qed
  ultimately show ?thesis using leases by (simp add: registry_inv_def)
qed

text \<open>A task that is dropped while it waits.\<close>

lemma abandon_preserves:
  assumes inv: "registry_inv S" and await: "awaiting (sy_tasks S n)"
    and pos: "pos = Finished Cancelled \<or> (\<exists>k. pos = Worker k WkForce \<and> of_worker (sy_tasks S n) = Some k)"
  shows "registry_inv (set_task n pos (abandon (sy_tasks S n) S))"
proof -
  let ?old = "sy_tasks S n" and ?T = "abandon (sy_tasks S n) S"
  have ok: "task_ok S n ?old" and table: "table_ok S" and leases: "leases_ok S" using inv by (auto simp: registry_inv_def)
  note s = sees_okD [OF task_ok_sees(1) [OF ok]] and en = ends_okD [OF task_ok_sees(2) [OF ok]] and h = task_ok_sets [OF ok]
  have g: "guarded ?old = None" using await by (cases ?old) (auto split: begin_pc.splits close_pc.splits)
  have lock: "locked_key ?old = Some k \<Longrightarrow> sy_holder S k = Some n" for k using task_okD(1) [OF ok] .
  have k: "keeps n S ?T"
    using lock by (auto simp: abandon_def Let_def split: option.splits intro!: keeps_intros)
  have fields: "sy_tasks ?T = sy_tasks S" "sy_next ?T = sy_next S" "sy_fresh ?T = sy_fresh S" "sy_sessions ?T = sy_sessions S"
    "sy_operations ?T = sy_operations S" "sy_clients ?T = sy_clients S" "sy_census ?T = sy_census S"
    "sy_cleared ?T = sy_cleared S" "sy_closing ?T = sy_closing S"
    by (auto simp: abandon_def Let_def system_defs split: option.splits)
  have heap: "rs_state (sy_heap ?T x) = rs_state (sy_heap S x)"
    "rs_operation_leases (sy_heap ?T x) = rs_operation_leases (sy_heap S x)"
    "rs_client_leases (sy_heap ?T x) = rs_client_leases (sy_heap S x)" for x
    by (auto simp: abandon_def Let_def system_defs split: option.splits)
  have disposed: "sy_disposed S \<subseteq> sy_disposed ?T" "holds_child ?old = Some x \<Longrightarrow> x \<in> sy_disposed ?T"
    "created ?old = Some (key, x) \<Longrightarrow> \<not> rs_child (sy_heap ?T x)"
    "rs_child (sy_heap S x) \<Longrightarrow> rs_child (sy_heap ?T x) \<or> x \<in> sy_disposed ?T" for key x
    by (auto simp: abandon_def Let_def system_defs split: option.splits if_splits)
  have e: "effect S ?old pos ?T"
    unfolding effect_def using disposed(1,2,4) by (simp add: fields heap) blast
  have sp: "spawns S ?T" using fields by (intro spawns_same) simp_all
  have held: "held ?T n = {}" "guards ?T n = {}"
    using h g by (auto simp: abandon_def Let_def split: option.splits)
  have "task_ok ?T n pos"
    using pos
  proof (elim disjE exE conjE)
    fix k assume w: "pos = Worker k WkForce" "of_worker ?old = Some k"
    then have "needs_closing ?old" using await by (cases ?old) (auto split: if_splits)
    with en(2) w fields held show ?thesis by (auto intro!: task_okI simp: sees_ok_def ends_ok_def)
  qed (use held in \<open>auto intro!: task_okI\<close>)
  note own = this
  have n: "n < sy_next S" using inv await by (cases "sy_next S \<le> n") (auto simp: registry_inv_def)
  have hist: "history S ?old ?T" using fields by (simp add: history_same)
  have "leases_ok ?T" by (rule leases_same [OF leases]) (simp_all add: fields heap)
  then show ?thesis
    unfolding registry_inv_def
    using tasks_preserved [OF inv k sp own n] table_preserved [OF inv k e] disposed(3)
      children_preserved [OF inv k e sp] census_preserved [OF inv k e hist]
    by simp
qed

lemma keeps_counts:
  "v \<le> sy_operations S x \<Longrightarrow> keeps n S (S\<lparr>sy_operations := (sy_operations S)(x := v)\<rparr>)"
  "w \<le> sy_clients S x \<or> 0 < sy_operations S x \<Longrightarrow> keeps n S (S\<lparr>sy_clients := (sy_clients S)(x := w)\<rparr>)"
  by (auto simp: keeps_def)

lemma spawned_simple:
  "x < sy_fresh T \<Longrightarrow> spawned_ok T (Bump x)" "x < sy_fresh T \<Longrightarrow> spawned_ok T (Schedule x l)"
  "x < sy_fresh T \<Longrightarrow> spawned_ok T (Exited x c)"
  "spawned_ok T (Begin q BgEnter)" "spawned_ok T (CloseAll AlClose)" "spawned_ok T (PrefixLook k)"
  by (auto simp: spawned_ok_def sees_ok_def ends_ok_def)

lemma registry_step_preserves:
  assumes "reg_step S T" and inv: "registry_inv S"
  shows "registry_inv T"
proof -
  have leases: "leases_ok S" using inv by (simp add: registry_inv_def)
  show ?thesis using assms(1)
  proof cases
    case (run n r pos S')
    then show ?thesis using act_preserves [OF inv] by blast
  next
    case (start pos)
    then show ?thesis
      using inv by (intro env_preserves [OF inv]) (auto simp: registry_inv_def leases_ok_def spawned_simple intro!: spawns_one)
  next
    case (cancel n)
    then show ?thesis using abandon_preserves [OF inv] by blast
  next
    case (expire n k)
    then show ?thesis using abandon_preserves [OF inv] by blast
  next
    case (abort n)
    then show ?thesis using abandon_preserves [OF inv] by blast
  next
    case (attach x)
    with leases show ?thesis
      by (intro env_preserves [OF inv])
        (auto simp: leases_ok_def spawned_simple intro!: spawns_one keeps_upd keeps_counts)
  next
    case (drop_operation x)
    with leases show ?thesis
      by (intro env_preserves [OF inv])
        (auto simp: leases_ok_def spawned_simple of_nat_pred intro!: spawns_one keeps_upd keeps_counts)
  next
    case (drop_client x)
    with leases show ?thesis
      by (intro env_preserves [OF inv])
        (auto simp: leases_ok_def spawned_simple of_nat_pred intro!: spawns_one keeps_upd keeps_counts)
  next
    case (launch x incoming)
    with leases show ?thesis
      by (intro env_preserves [OF inv]) (auto simp: leases_ok_def intro!: spawns_same keeps_upd)
  next
    case (launch_accepted x)
    with leases show ?thesis
      by (intro env_preserves [OF inv]) (auto simp: leases_ok_def intro!: spawns_same keeps_upd)
  next
    case (controller_exited x)
    with leases show ?thesis
      by (intro env_preserves [OF inv]) (auto simp: leases_ok_def spawned_simple intro!: spawns_one)
  qed
qed

end
