(* ===== verification/RegistryGuarantees.thy ===== *)
theory RegistryGuarantees
  imports RegistryInvariant
begin

text \<open>
  What the runner-session registry guarantees: one supervisor per prefix, none of them orphaned, sessions in
  use are kept, leases fit their requests, and a shutdown of everything is complete; with the runs that
  show that the states it speaks of are reachable.
\<close>

section \<open>The registry as a guarded machine\<close>

lemma registry_inv_new: "registry_inv registry_new"
  by (simp add: registry_inv_def registry_new_def task_ok_def locks_ok_def sees_ok_def ends_ok_def table_ok_def
      children_ok_def leases_ok_def census_ok_def new_session_def)

interpretation sessions: guarded_machine registry_reachable reg_step registry_inv
proof
  show "registry_inv S" if "registry_reachable S" for S
    using that unfolding registry_reachable_def
    by (induction rule: rtranclp_induct) (auto intro: registry_inv_new registry_step_preserves)
  show "registry_reachable T" if "registry_reachable S" "reg_step S T" for S T
    using that unfolding registry_reachable_def by (rule rtranclp.rtrancl_into_rtrancl)
qed

lemma reachable_parts:
  assumes "registry_reachable S"
  shows "task_ok S n (sy_tasks S n)" "sees_ok S (sy_tasks S n)" "ends_ok S (sy_tasks S n)"
    "table_ok S" "children_ok S" "leases_ok S" "census_ok S"
  using sessions.reach_inv [OF assms] by (auto simp: registry_inv_def task_ok_def)

text \<open>The state of a session goes forward.\<close>

definition session_rank :: "session_state \<Rightarrow> nat" where
  "session_rank st = (case st of SsReady \<Rightarrow> 0 | SsStopping \<Rightarrow> 1 | _ \<Rightarrow> 2)"

lemma abandon_keeps:
  assumes "task_ok S n (sy_tasks S n)"
  shows "keeps n S (abandon (sy_tasks S n) S)"
  using task_okD(1) [OF assms] by (auto simp: abandon_def Let_def split: option.splits intro!: keeps_intros)

lemma step_keeps:
  assumes "reg_step S T" "registry_inv S"
  shows "\<exists>n. keeps n S T"
  using assms(1)
proof cases
  case (run n r pos S')
  with assms(2) act_keeps [of S n r pos S'] show ?thesis by (auto simp: registry_inv_def)
next
  case (cancel n)
  with assms(2) abandon_keeps [of S n] show ?thesis by (auto simp: registry_inv_def)
next
  case (expire n)
  with assms(2) abandon_keeps [of S n] show ?thesis by (auto simp: registry_inv_def)
next
  case (abort n)
  with assms(2) abandon_keeps [of S n] show ?thesis by (auto simp: registry_inv_def)
qed (auto intro!: exI [of _ 0] keeps_upd keeps_counts)

interpretation session_states: forward_machine
  "\<lambda>S T. registry_reachable S \<and> reg_step S T \<and> x < sy_fresh S" "\<lambda>S. session_rank (rs_state (sy_heap S x))" for x
proof
  fix S T assume "registry_reachable S \<and> reg_step S T \<and> x < sy_fresh S"
  then obtain n where "keeps n S T" "x < sy_fresh S" using step_keeps sessions.reach_inv by blast
  from session_keptD(6,7) [OF keepsD(1) [OF this]]
  show "session_rank (rs_state (sy_heap S x)) \<le> session_rank (rs_state (sy_heap T x))"
    by (auto simp: session_rank_def split: session_state.splits)
qed

section \<open>Guarantees\<close>

lemma lock_owner_unique:
  assumes "registry_reachable S" "locked_key (sy_tasks S n) = Some k" "locked_key (sy_tasks S m) = Some k"
  shows "m = n"
  using task_okD(1) [OF reachable_parts(1) [OF assms(1)] assms(2)] task_okD(1) [OF reachable_parts(1) [OF assms(1)] assms(3)]
  by simp

lemma created_works: "created pos = Some (k, x) \<Longrightarrow> works_on pos = Some (Some k, x) \<and> locked_key pos = Some k \<and> finds_none pos = Some k"
  by (cases pos) (auto split: begin_pc.splits if_splits)

lemma open_holder:
  assumes "registry_reachable S" "\<not> sy_closing S" "holds_child (sy_tasks S n) = Some x"
  shows "read_session (sy_tasks S n) = Some (rs_prefix (sy_heap S x), x)"
proof -
  note s = sees_okD(2) [OF reachable_parts(2) [OF assms(1)], where n1 = n] and e = ends_okD(1,2) [OF reachable_parts(3) [OF assms(1), of n]]
  show ?thesis using assms(2,3) e s
    by (cases "sy_tasks S n") (auto split: if_splits)
qed

text \<open>Where the supervisor of a session is that has not been disposed of while admission is open: registered, or in
  the hands of the task that holds the startup lock of its prefix.\<close>

lemma open_supervisor:
  assumes "registry_reachable S" "\<not> sy_closing S" "x < sy_fresh S" "x \<notin> sy_disposed S" "rs_prefix (sy_heap S x) = k"
  shows "sy_sessions S k = Some x \<or> (\<exists>n. created (sy_tasks S n) = Some (k, x)) \<or>
    (\<exists>n. holds_child (sy_tasks S n) = Some x \<and> read_session (sy_tasks S n) = Some (k, x))"
proof (cases "rs_child (sy_heap S x)")
  case True
  with reachable_parts(5) [OF assms(1)] assms(3,5) consider "sy_sessions S k = Some x"
    | n j where "created (sy_tasks S n) = Some (j, x)" unfolding children_ok_def by blast
  then show ?thesis
  proof cases
    case (2 n j)
    with sees_okD(2) [OF reachable_parts(2) [OF assms(1)]] created_works assms(5) show ?thesis by metis
  qed blast
next
  case False
  with reachable_parts(5) [OF assms(1)] assms(3,4) obtain n where "holds_child (sy_tasks S n) = Some x"
    unfolding children_ok_def by blast
  with open_holder [OF assms(1,2)] assms(5) show ?thesis by blast
qed

text \<open>C6: while the launcher is not closing, a prefix has at most one supervisor that has not exited and has not been killed,
  however operations, releases of leases, idle timers, failures and cancellations interleave.\<close>

theorem one_supervisor_per_prefix:
  assumes "registry_reachable S" "\<not> sy_closing S"
  shows "\<exists>y. {x. x < sy_fresh S \<and> rs_prefix (sy_heap S x) = k \<and> x \<notin> sy_disposed S} \<subseteq> {y}"
proof -
  have unique: "x = y" if x: "x < sy_fresh S" "x \<notin> sy_disposed S" "rs_prefix (sy_heap S x) = k"
    and y: "y < sy_fresh S" "y \<notin> sy_disposed S" "rs_prefix (sy_heap S y) = k" for x y
  proof -
    note s = sees_okD(3,4) [OF reachable_parts(2) [OF assms(1)]]
    have own: "sy_sessions S k = None \<and> locked_key (sy_tasks S n) = Some k" if "created (sy_tasks S n) = Some (k, z)" for n z
      using created_works [OF that] s(2) by blast
    have seen: "(sy_sessions S k = Some z \<or> sy_sessions S k = None) \<and> locked_key (sy_tasks S n) = Some k"
      if "read_session (sy_tasks S n) = Some (k, z)" for n z
      using s(1) [OF that] positionsD(1) [OF that] by blast
    have both: "created pos = Some (k, z) \<Longrightarrow> read_session pos \<noteq> Some (k, w)" for pos z w
      by (cases pos) (auto split: begin_pc.splits if_splits)
    note same = lock_owner_unique [OF assms(1)]
    from open_supervisor [OF assms x] open_supervisor [OF assms y] own seen both same
    show ?thesis by (metis option.inject option.distinct(1) prod.inject)
  qed
  then show ?thesis by (cases "{x. x < sy_fresh S \<and> rs_prefix (sy_heap S x) = k \<and> x \<notin> sy_disposed S} = {}") auto
qed

lemma supervisor_owned:
  assumes "registry_reachable S" "x < sy_fresh S" "x \<notin> sy_disposed S"
  shows "sy_sessions S (rs_prefix (sy_heap S x)) = Some x \<or>
    (\<exists>n. created (sy_tasks S n) = Some (rs_prefix (sy_heap S x), x) \<and> sy_holder S (rs_prefix (sy_heap S x)) = Some n) \<or>
    (\<exists>n. holds_child (sy_tasks S n) = Some x)"
proof -
  have "created (sy_tasks S n) = Some (rs_prefix (sy_heap S x), x) \<and> sy_holder S (rs_prefix (sy_heap S x)) = Some n"
    if "created (sy_tasks S n) = Some (j, x)" for n j
    using created_works [OF that] that sees_okD(2) [OF reachable_parts(2) [OF assms(1)], of n j x]
      task_okD(1) [OF reachable_parts(1) [OF assms(1)], of n j] by auto
  with reachable_parts(5) [OF assms(1)] assms(2,3) show ?thesis unfolding children_ok_def by blast
qed

text \<open>C21: no supervisor is orphaned.  Also during the shutdown and after every cancellation, timeout and abort, a supervisor
  that has not exited and has not been killed belongs to the session registered for its prefix, or to a session whose
  creation is still under way under the startup lock, or is being waited for by a task.\<close>

theorem no_orphaned_supervisor:
  assumes "registry_reachable S" "x < sy_fresh S" "x \<notin> sy_disposed S"
  shows "sy_sessions S (rs_prefix (sy_heap S x)) = Some x \<or>
    (\<exists>n. created (sy_tasks S n) = Some (rs_prefix (sy_heap S x), x) \<and> sy_holder S (rs_prefix (sy_heap S x)) = Some n) \<or>
    (\<exists>n. holds_child (sy_tasks S n) = Some x)"
  using assms by (rule supervisor_owned)

text \<open>C7: a session that is in use stays up.  As long as the launcher is not closing, no step takes a session for which an
  operation lease or a client lease exists out of \<open>Ready\<close>: an idle or a requested shutdown that is under way finds
  the lease or was decided before it could be taken.\<close>

theorem leased_session_stays_ready:
  assumes "registry_reachable S" "reg_step S T" "\<not> sy_closing S" "x < sy_fresh S"
    and "0 < sy_operations S x \<or> 0 < sy_clients S x" "rs_state (sy_heap S x) = SsReady"
  shows "rs_state (sy_heap T x) = SsReady"
proof -
  have abandoned: "rs_state (sy_heap (abandon pos S) x) = rs_state (sy_heap S x)" for pos
    by (auto simp: abandon_def Let_def system_defs split: option.splits)
  show ?thesis using assms(2)
  proof cases
    case (run n r pos S')
    show ?thesis
    proof (rule ccontr)
      assume "rs_state (sy_heap T x) \<noteq> SsReady"
      with run assms(6) act_effect [OF run(2)] assms(4) have w: "writes_state (sy_tasks S n) = Some x"
        unfolding effect_def by auto
      note e = ends_okD [OF reachable_parts(3) [OF assms(1), of n]]
      from w show False
      proof (cases "sy_tasks S n")
        case (Close who k y pc)
        with w have y: "y = x" "pc = LkCommit \<or> pc = LkMark" by (auto split: if_splits)
        with e(3) [of x] Close assms(6) have "pc = LkCommit" "who \<noteq> ByTask Forced" by auto
        with e(2) Close assms(3) e(1) have "cause_of who \<noteq> Forced" by (cases who) auto
        with e(4,5) [of x] Close y \<open>pc = LkCommit\<close> assms(5) show False by auto
      next
        case (Fail who k y err pc)
        with w have y: "y = x" "pc = FlMark" by (auto split: if_splits)
        with e(2) Fail assms(3) have "who \<noteq> ByForce" by auto
        with e(3) [of x] Fail y assms(6) show False by simp
      qed auto
    qed
  next
    case (attach y) then show ?thesis using assms(6) by auto
  qed (use assms(6) abandoned in auto)
qed

text \<open>The shutdown of everything is complete.  When, for every prefix of the census that \<open>shutdown_all\<close> took, a worker has
  finished with the startup lock in its hands, no session that could still be used is registered, under any prefix,
  and a supervisor that has not exited and has not been killed is in the hands of a task.\<close>

theorem shutdown_all_complete:
  assumes "registry_reachable S" "sy_census S = Some C" "C \<subseteq> sy_cleared S"
  shows "(sy_sessions S k = Some x \<longrightarrow> over (rs_state (sy_heap S x))) \<and>
    (\<forall>n. admitted (sy_tasks S n) = None) \<and>
    (x < sy_fresh S \<longrightarrow> x \<notin> sy_disposed S \<longrightarrow>
       (\<exists>n. holds_child (sy_tasks S n) = Some x \<or> created (sy_tasks S n) = Some (rs_prefix (sy_heap S x), x)))"
proof -
  have over: "over (rs_state (sy_heap S y))" if "sy_sessions S j = Some y" for j y
    using reachable_parts(7) [OF assms(1)] assms(2,3) that unfolding census_ok_def by blast
  have "admitted (sy_tasks S n) = None" for n
    using ends_okD(7,8) [OF reachable_parts(3) [OF assms(1), of n]] assms(2,3) by (meson not_None_eq subsetD)
  moreover have "\<exists>n. holds_child (sy_tasks S n) = Some x \<or> created (sy_tasks S n) = Some (rs_prefix (sy_heap S x), x)"
    if x: "x < sy_fresh S" "x \<notin> sy_disposed S"
  proof (cases "rs_child (sy_heap S x)")
    case False
    with reachable_parts(5) [OF assms(1)] x show ?thesis unfolding children_ok_def by blast
  next
    case True
    then have "\<not> over (rs_state (sy_heap S x))" using reachable_parts(4) [OF assms(1)] x(1) unfolding table_ok_def by blast
    with over supervisor_owned [OF assms(1) x] show ?thesis by blast
  qed
  ultimately show ?thesis using over by blast
qed

text \<open>A lease fits the request.  When \<open>begin_operation\<close> returns a lease, the session was made for the prefix, the runner and
  the plan that were asked for, its prefix has no other registered session, and a session that was there already was \<open>Ready\<close>
  under its mutex.\<close>

theorem lease_fits_request:
  assumes "registry_reachable S" "sy_tasks S n = Begin q pc" "begin_operation n r q pc S = Some (Finished (Leased x), T)"
  shows "rs_prefix (sy_heap T x) = bq_key q \<and> rs_runner (sy_heap T x) = bq_runner q \<and> rs_plan_id (sy_heap T x) = bq_plan_id q \<and>
    (sy_sessions T (bq_key q) = Some x \<or> sy_sessions T (bq_key q) = None \<and> sy_sessions S (bq_key q) = None) \<and>
    (pc \<noteq> BgInsert x \<longrightarrow> rs_state (sy_heap T x) = SsReady)"
proof -
  note s = sees_okD [OF reachable_parts(2) [OF assms(1), of n]]
  have pc: "pc = BgLease x \<or> pc = BgInsert x"
    using assms(3) by (cases pc) (auto split: reply_splits quiet_load.splits)
  then show ?thesis
    using assms(2,3) s(2) [of "bq_key q" x] s(3) [of "bq_key q" x] s(6) [of x] s(8,9) [of q x] by (auto simp: system_defs)
qed

section \<open>Example runs\<close>

text \<open>Tasks that perform their next actions, one after the other.\<close>

fun exec :: "(nat \<times> reply) list \<Rightarrow> system \<Rightarrow> system option" where
  "exec [] S = Some S"
| "exec ((n, r) # moves) S =
     (case act n r (sy_tasks S n) S of
        None \<Rightarrow> None
      | Some (pos, T) \<Rightarrow>
          if list_all (\<lambda>x. sy_operations T x < 2 ^ 32) [0 ..< sy_fresh T] then exec moves (set_task n pos T) else None)"

lemma exec_reachable: "exec moves S = Some T \<Longrightarrow> registry_reachable S \<Longrightarrow> registry_reachable T"
proof (induction moves S rule: exec.induct)
  case (2 n r moves S)
  then obtain pos U where a: "act n r (sy_tasks S n) S = Some (pos, U)" "\<And>x. x < sy_fresh U \<Longrightarrow> sy_operations U x < 2 ^ 32"
    "exec moves (set_task n pos U) = Some T" by (auto split: option.splits if_splits simp: list_all_iff)
  have "reg_step S (set_task n pos U)" using a(1,2) by (rule reg_step.run)
  with 2(3) have "registry_reachable (set_task n pos U)" by (rule sessions.reach_step)
  with 2(1) a show ?case by (auto simp: list_all_iff)
qed simp

definition example_request :: begin_request where
  "example_request = \<lparr>bq_key = ''/pfx'', bq_runner = \<lparr>ra_kind = Wine, ra_path = ''/bin/wine''\<rparr>, bq_plan_id = ''p''\<rparr>"

definition example_start :: system where
  "example_start = spawn (Begin example_request BgEnter) registry_new"

definition example_open :: system where
  "example_open =
     registry_new
       \<lparr>sy_heap := (sy_heap registry_new)(0 := new_session ''/pfx'' \<lparr>ra_kind = Wine, ra_path = ''/bin/wine''\<rparr> ''p''),
        sy_fresh := 1, sy_sessions := [''/pfx'' \<mapsto> 0], sy_startup_locks := {''/pfx''}, sy_holder := Map.empty,
        sy_tasks := (\<lambda>_. Unused)(0 := Finished (Leased 0)), sy_next := 1, sy_operations := (\<lambda>_. 0)(0 := 1)\<rparr>"

lemmas example_defs = registry_new_def set_task_def spawn_def system_defs returns_def new_session_def

lemma reachable_new: "registry_reachable registry_new"
  by (simp add: registry_reachable_def)

lemma reachable_start:
  "registry_reachable S \<Longrightarrow> pos \<in> {Begin q BgEnter, CloseAll AlClose, PrefixLook k} \<Longrightarrow> registry_reachable (spawn pos S)"
  using sessions.reach_step reg_step.start by blast

lemma example_runs:
  "exec [(0, Good), (0, Good), (0, Good), (0, Good), (0, Good), (0, Good), (0, Good)] example_start = Some example_open"
  by (simp add: example_start_def example_open_def example_request_def fun_eq_iff example_defs)

lemma example_open_reachable: "registry_reachable example_open"
proof -
  have "registry_reachable example_start"
    unfolding example_start_def using reachable_start [OF reachable_new] by blast
  with exec_reachable [OF example_runs] show ?thesis .
qed

definition example_closed :: system where
  "example_closed =
     example_open
       \<lparr>sy_heap := (sy_heap example_open)(0 := (sy_heap example_open 0)\<lparr>rs_state := SsStopped, rs_child := False\<rparr>),
        sy_sessions := Map.empty, sy_closing := True, sy_disposed := {0}, sy_census := Some {''/pfx''}, sy_cleared := {''/pfx''},
        sy_tasks := (sy_tasks example_open)(1 := CloseAll (AlJoin [2]), 2 := Finished Done), sy_next := 3\<rparr>"

lemma example_closes:
  "exec [(1, Good), (1, Keys [''/pfx'']), (2, Good), (2, Good), (2, Good), (2, Good), (2, Good), (2, Good), (2, Good), (2, Good),
      (2, Good), (2, Good), (2, Good), (2, Good)] (spawn (CloseAll AlClose) example_open) = Some example_closed"
  by (simp add: example_open_def example_closed_def Let_def fun_eq_iff upt_rec example_defs)

lemma example_closed_reachable: "registry_reachable example_closed"
  using exec_reachable [OF example_closes] reachable_start [OF example_open_reachable] by blast

theorem one_supervisor_per_prefix_witness:
  "\<exists>y. {x. x < 1 \<and> rs_prefix (sy_heap example_open x) = ''/pfx'' \<and> x \<notin> sy_disposed example_open} \<subseteq> {y}"
  using one_supervisor_per_prefix [OF example_open_reachable, of "''/pfx''"] by (simp add: example_open_def example_defs)

theorem no_orphaned_supervisor_witness: "sy_sessions example_open ''/pfx'' = Some 0"
  using no_orphaned_supervisor [OF example_open_reachable, of 0] by (simp add: example_open_def example_defs split: if_splits)

theorem leased_session_stays_ready_witness:
  "rs_state (sy_heap (upd 0 (\<lambda>s. s\<lparr>rs_active_requests := rs_active_requests s + 1\<rparr>) example_open) 0) = SsReady"
proof -
  have "reg_step example_open (upd 0 (\<lambda>s. s\<lparr>rs_active_requests := rs_active_requests s + 1\<rparr>) example_open)"
    by (rule reg_step.launch_accepted) (simp add: example_open_def)
  from leased_session_stays_ready [OF example_open_reachable this, of 0] show ?thesis by (simp add: example_open_def example_defs)
qed

end
