(* ===== verification/RunnerOutput.thy ===== *)
theory RunnerOutput
  imports Glob
begin

text \<open>
  What runners print and what of it reaches the log: redaction of sensitive values (\<open>src-tauri/src/utils/process.rs\<close>), the
  line filter of \<open>utils/mod.rs\<close>, and the diagnostic window and the routing of \<open>tools/runner_sessions/diagnostics.rs\<close>.
  A subscriber is weakly referenced: whether it is still alive is part of its entry.
\<close>

section \<open>Redaction\<close>

text \<open>\<open>str::replace\<close> with a pattern that is not empty: matches from left to right, without overlaps.\<close>

function replace_all :: "'a list \<Rightarrow> 'a list \<Rightarrow> 'a list \<Rightarrow> 'a list" where
  "replace_all pat new s =
     (if pat = [] then s
      else case find_sub pat s of
             None \<Rightarrow> s
           | Some pos \<Rightarrow> take pos s @ new @ replace_all pat new (drop (pos + length pat) s))"
  by pat_completeness auto
termination
proof (relation "measure (\<lambda>(pat, new, s). length s)")
  fix pat new s :: "'a list" and pos
  assume pat: "pat \<noteq> []" and "find_sub pat s = Some pos"
  with find_sub_SomeD [of pat s pos] have "pos + length pat \<le> length s" by blast
  moreover have "0 < length pat" using pat by simp
  ultimately have "length (drop (pos + length pat) s) < length s" unfolding length_drop by linarith
  then show "((pat, new, drop (pos + length pat) s), pat, new, s) \<in> measure (\<lambda>(pat, new, s). length s)"
    by (simp only: in_measure split)
qed simp

declare replace_all.simps [simp del]

definition redacted_text :: string where "redacted_text = ''<redacted>''"

definition redaction_order :: "string list \<Rightarrow> string list" where
  "redaction_order sensitive_values =
     remdups_adj (sort_key (\<lambda>v. - int (byte_length v)) (filter (\<lambda>v. v \<noteq> []) sensitive_values))"

definition redact_sensitive_values :: "string \<Rightarrow> string list \<Rightarrow> string" where
  "redact_sensitive_values line sensitive_values =
     fold (\<lambda>v redacted. replace_all v redacted_text redacted) (redaction_order sensitive_values) line"

section \<open>The diagnostic window\<close>

definition should_log_line :: "string \<Rightarrow> bool" where
  "should_log_line line \<longleftrightarrow> \<not> sublist ''fixme:'' line \<and> \<not> sublist ''libEGL warning'' line"

record failure_output =
  fo_first_error :: "string option"
  fo_tail :: "string list"

definition failure_output_default :: failure_output where
  "failure_output_default = \<lparr>fo_first_error = None, fo_tail = []\<rparr>"

definition record_failure :: "string \<Rightarrow> failure_output \<Rightarrow> failure_output" where
  "record_failure line f =
     (let line = take 1024 line;
          first = (if fo_first_error f = None \<and> sublist ''ERROR:'' line then Some line else fo_first_error f);
          tail = fo_tail f @ [line]
      in \<lparr>fo_first_error = first, fo_tail = (if 8 < length tail then tl tail else tail)\<rparr>)"

definition join_lines :: "string list \<Rightarrow> string" where
  "join_lines ls = concat_with (CHR 10) ls"

definition annotate :: "failure_output \<Rightarrow> string \<Rightarrow> string" where
  "annotate f primary =
     (let ls = (case fo_first_error f of None \<Rightarrow> [] | Some e \<Rightarrow> [e]) @
               filter (\<lambda>l. Some l \<noteq> fo_first_error f) (fo_tail f)
      in if ls = [] then primary
         else primary @ [CHR 10] @ ''Salida del runner (diagn'' @ [CHR 0xF3] @ ''stico):'' @ [CHR 10] @ join_lines ls)"

section \<open>Subscribers\<close>

record subscriber =
  su_alive :: bool
  su_sink :: failure_output

definition RUNNER_STDOUT_PREFIX :: string where "RUNNER_STDOUT_PREFIX = ''[runner:stdout] ''"
definition RUNNER_STDERR_PREFIX :: string where "RUNNER_STDERR_PREFIX = ''[runner:stderr] ''"
definition SESSION_LOG_PREFIX :: string where "SESSION_LOG_PREFIX = ''[Session] ''"

definition subscribe_output :: "subscriber list \<Rightarrow> subscriber list" where
  "subscribe_output subscribers =
     filter su_alive subscribers @ [\<lparr>su_alive = True, su_sink = failure_output_default\<rparr>]"

definition runner_part :: "string \<Rightarrow> string option" where
  "runner_part line =
     (case strip_prefix RUNNER_STDERR_PREFIX line of
        Some rest \<Rightarrow> Some rest | None \<Rightarrow> strip_prefix RUNNER_STDOUT_PREFIX line)"

definition record_output :: "string \<Rightarrow> string list \<Rightarrow> subscriber list \<Rightarrow> subscriber list" where
  "record_output line redactions subscribers =
     (case runner_part line of
        None \<Rightarrow> subscribers
      | Some rest \<Rightarrow>
          if rest = [] \<or> \<not> should_log_line rest then subscribers
          else map (su_sink_update (record_failure (redact_sensitive_values rest redactions))) (filter su_alive subscribers))"

section \<open>Routing of a line of the supervisor's standard error\<close>

datatype log_entry = RunnerLog string | ToolLog string

definition handle_stderr_line :: "string \<Rightarrow> string list \<Rightarrow> log_entry option" where
  "handle_stderr_line line redactions =
     (let runner = (\<lambda>rest. let l = redact_sensitive_values rest redactions in if should_log_line l then Some (RunnerLog l) else None)
      in case strip_prefix RUNNER_STDOUT_PREFIX line of
           Some rest \<Rightarrow> runner rest
         | None \<Rightarrow>
        case strip_prefix RUNNER_STDERR_PREFIX line of
           Some rest \<Rightarrow> runner rest
         | None \<Rightarrow>
             let l = redact_sensitive_values line redactions
             in if l \<noteq> [] then Some (ToolLog (SESSION_LOG_PREFIX @ l)) else None)"

section \<open>Redaction removes the values\<close>

lemma sublist_around:
  assumes "c \<notin> set v"
  shows "sublist v (a @ c # b) \<longleftrightarrow> sublist v a \<or> sublist v b"
proof
  assume "sublist v (a @ c # b)"
  then obtain p q where pq: "a @ c # b = p @ v @ q" by (auto simp: sublist_def)
  then consider us where "a = p @ us" "us @ c # b = v @ q" | us where "p = a @ us" "c # b = us @ v @ q"
    by (auto simp: append_eq_append_conv2)
  then show "sublist v a \<or> sublist v b"
  proof cases
    case (1 us)
    from 1(2) consider ws where "us = v @ ws" | ws where "v = us @ ws" "c # b = ws @ q" by (auto simp: append_eq_append_conv2)
    then show ?thesis
    proof cases
      case 2
      with assms have "ws = []" by (cases ws) auto
      with 2 1(1) have "a = p @ v @ []" by simp
      then show ?thesis unfolding sublist_def by blast
    qed (use 1 in \<open>auto simp: sublist_def\<close>)
  next
    case (2 us)
    show ?thesis
    proof (cases us)
      case Nil
      with 2 assms have "v = []" by (cases v) auto
      then show ?thesis by simp
    next
      case (Cons d ds)
      with 2 show ?thesis by (auto simp: sublist_def)
    qed
  qed
qed (auto simp: sublist_append sublist_Cons_right)

definition redactable :: "string \<Rightarrow> bool" where
  "redactable v \<longleftrightarrow> CHR ''<'' \<notin> set v \<and> CHR ''>'' \<notin> set v \<and> \<not> sublist v ''redacted''"

lemma redactable_between:
  assumes "redactable v"
  shows "sublist v (a @ redacted_text @ b) \<longleftrightarrow> sublist v a \<or> sublist v b"
proof -
  have around: "a @ redacted_text @ b = a @ CHR ''<'' # (''redacted'' @ CHR ''>'' # b)" by (simp add: redacted_text_def)
  have v: "CHR ''<'' \<notin> set v" "CHR ''>'' \<notin> set v" "\<not> sublist v ''redacted''" using assms by (simp_all add: redactable_def)
  show ?thesis unfolding around sublist_around [OF v(1)] sublist_around [OF v(2)] using v(3) by blast
qed

lemma before_first: "find_sub p s = Some pos \<Longrightarrow> p \<noteq> [] \<Longrightarrow> \<not> sublist p (take pos s)"
proof
  assume f: "find_sub p s = Some pos" and p: "p \<noteq> []" and "sublist p (take pos s)"
  then obtain g q where g: "take pos s = g @ p @ q" by (auto simp: sublist_def)
  then have "s = g @ p @ (q @ drop pos s)" by (metis append.assoc append_take_drop_id)
  from find_sub_least [OF this] f have "pos \<le> length g" by auto
  moreover have "length (take pos s) = length g + length p + length q" using g by simp
  moreover have "length (take pos s) \<le> pos" unfolding length_take by simp
  ultimately have "length p = 0" by linarith
  with p show False by simp
qed

lemma find_sub_None: "find_sub p s = None \<Longrightarrow> \<not> sublist p s"
proof
  assume none: "find_sub p s = None" and "sublist p s"
  then obtain g q where "s = g @ p @ q" by (auto simp: sublist_def)
  from find_sub_least [OF this] none show False by simp
qed

lemma replace_removes:
  assumes "redactable v" "v \<noteq> []"
  shows "\<not> sublist v (replace_all v redacted_text s)"
  using assms
proof (induction v redacted_text s rule: replace_all.induct)
  case (1 v s)
  show ?case
  proof (cases "find_sub v s")
    case None
    with 1 find_sub_None show ?thesis by (simp add: replace_all.simps [of v])
  next
    case (Some pos)
    with 1 before_first [OF Some] show ?thesis
      by (simp add: replace_all.simps [of v] redactable_between)
  qed
qed

lemma replace_keeps_free:
  assumes "redactable u" "\<not> sublist u s"
  shows "\<not> sublist u (replace_all v redacted_text s)"
  using assms
proof (induction v redacted_text s rule: replace_all.induct)
  case (1 v s)
  show ?case
  proof (cases "v = [] \<or> find_sub v s = None")
    case True
    with 1(3) show ?thesis by (auto simp: replace_all.simps [of v])
  next
    case False
    then obtain pos where pos: "v \<noteq> []" "find_sub v s = Some pos" by auto
    have free: "\<not> sublist u (take pos s)" "\<not> sublist u (drop (pos + length v) s)"
      using 1(3) sublist_order.order.trans [OF _ sublist_take] sublist_order.order.trans [OF _ sublist_drop] by blast+
    with 1 pos show ?thesis by (simp add: replace_all.simps [of v] redactable_between)
  qed
qed

lemma redaction_fold_free:
  "redactable u \<Longrightarrow> \<not> sublist u s \<Longrightarrow> \<not> sublist u (fold (\<lambda>v. replace_all v redacted_text) vs s)"
  by (induction vs arbitrary: s) (simp_all add: replace_keeps_free)

lemma redaction_fold_removes:
  "redactable u \<Longrightarrow> u \<noteq> [] \<Longrightarrow> u \<in> set vs \<Longrightarrow> \<not> sublist u (fold (\<lambda>v. replace_all v redacted_text) vs s)"
proof (induction vs arbitrary: s)
  case (Cons v vs)
  then show ?case by (cases "u = v") (simp_all add: redaction_fold_free replace_removes)
qed simp

text \<open>No line that a subscriber keeps contains the value.\<close>

definition window_free :: "string \<Rightarrow> subscriber \<Rightarrow> bool" where
  "window_free v su \<longleftrightarrow>
     (\<forall>l \<in> set (fo_tail (su_sink su)) \<union> set_option (fo_first_error (su_sink su)). \<not> sublist v l)"

lemma redacted_free:
  "v \<in> set redactions \<Longrightarrow> v \<noteq> [] \<Longrightarrow> redactable v \<Longrightarrow> \<not> sublist v (redact_sensitive_values line redactions)"
  unfolding redact_sensitive_values_def by (rule redaction_fold_removes) (auto simp: redaction_order_def)

lemma window_free_record:
  assumes "window_free v su" "\<not> sublist v l"
  shows "window_free v (su_sink_update (record_failure l) su)"
proof -
  let ?f = "su_sink su" and ?g = "record_failure l (su_sink su)"
  have cut: "\<not> sublist v (take 1024 l)" using assms(2) by (meson sublist_order.order.trans sublist_take)
  have tl: "set (tl xs) \<subseteq> set xs" for xs :: "string list" by (cases xs) auto
  have "set (fo_tail ?g) \<subseteq> insert (take 1024 l) (set (fo_tail ?f))"
    using tl [of "fo_tail ?f @ [take 1024 l]"] by (auto simp: record_failure_def Let_def)
  moreover have "set_option (fo_first_error ?g) \<subseteq> insert (take 1024 l) (set_option (fo_first_error ?f))"
    by (auto simp add: record_failure_def Let_def)
  ultimately have lines: "set (fo_tail ?g) \<union> set_option (fo_first_error ?g) \<subseteq>
      insert (take 1024 l) (set (fo_tail ?f) \<union> set_option (fo_first_error ?f))" by blast
  have "su_sink (su_sink_update (record_failure l) su) = ?g" by simp
  with assms(1) cut lines show ?thesis unfolding window_free_def by auto
qed

text \<open>C36: no sensitive value that is redactable survives redaction.  Redactable is a value without \<open><\<close> and \<open>>\<close> that is not
  part of the word \<open>redacted\<close> (for others see \<open>redaction_may_rebuild_a_value\<close> below).  Such a value, when it is not empty, does not
  occur in a redacted line, also when values contain or overlap each other; hence neither in the text that is logged of a line of the
  supervisor's standard error, whichever way the line is routed, nor in the diagnostics that the line adds to a failed
  operation.\<close>

theorem redaction_complete:
  assumes "v \<in> set redactions" "v \<noteq> []" "redactable v"
  shows "\<not> sublist v (redact_sensitive_values line redactions) \<and>
    (\<forall>e. handle_stderr_line line redactions = Some e \<longrightarrow>
      (\<exists>l. (e = RunnerLog l \<or> e = ToolLog (SESSION_LOG_PREFIX @ l)) \<and> \<not> sublist v l)) \<and>
    (list_all (window_free v) subscribers \<longrightarrow> list_all (window_free v) (record_output line redactions subscribers))"
proof -
  note free = redacted_free [OF assms]
  have "list_all (window_free v) (record_output line redactions subscribers)" if "list_all (window_free v) subscribers"
    using that window_free_record [OF _ free]
    by (auto simp: record_output_def list_all_iff split: option.splits)
  with free show ?thesis by (auto simp: handle_stderr_line_def Let_def split: option.splits if_splits)
qed

text \<open>Without the hypothesis it does not hold: the replacement text may end a longer value, whose turn is over, when a shorter
  one is replaced.\<close>

lemma redaction_may_rebuild_a_value:
  "redact_sensitive_values ''xyzuvwSECRET'' [''xyzuvw<r'', ''SECRET''] = ''xyzuvw<redacted>''"
  "sublist ''xyzuvw<r'' (redact_sensitive_values ''xyzuvwSECRET'' [''xyzuvw<r'', ''SECRET''])"
proof -
  show "redact_sensitive_values ''xyzuvwSECRET'' [''xyzuvw<r'', ''SECRET''] = ''xyzuvw<redacted>''" by code_simp
  then show "sublist ''xyzuvw<r'' (redact_sensitive_values ''xyzuvwSECRET'' [''xyzuvw<r'', ''SECRET''])"
    by (simp add: sublist_Cons_right)
qed

section \<open>The diagnostic window is bounded\<close>

text \<open>What the window keeps of the lines recorded so far.\<close>

lemma record_failure_fields:
  "fo_tail (record_failure l f) = (if 8 \<le> length (fo_tail f) then tl (fo_tail f) else fo_tail f) @ [take 1024 l]"
  "fo_first_error (record_failure l f) =
     (case fo_first_error f of None \<Rightarrow> if sublist ''ERROR:'' (take 1024 l) then Some (take 1024 l) else None | Some e \<Rightarrow> Some e)"
  by (cases "fo_tail f"; auto simp: record_failure_def Let_def split: option.splits)+

lemma record_failure_fold:
  "fo_tail (fold record_failure ls failure_output_default) = drop (length ls - 8) (map (take 1024) ls) \<and>
   fo_first_error (fold record_failure ls failure_output_default) = find (sublist ''ERROR:'') (map (take 1024) ls)"
proof (induction ls rule: rev_induct)
  case (snoc l ls)
  let ?f = "fold record_failure ls failure_output_default"
  have next_window: "tl (drop (n - 8) xs) = drop (n - 7) xs" if "8 \<le> n" for n and xs :: "string list"
  proof -
    have "n - 7 = Suc (n - 8)" using that by simp
    then show ?thesis by (simp only: drop_Suc tl_drop)
  qed
  have find: "find P (xs @ [x]) = (case find P xs of None \<Rightarrow> if P x then Some x else None | Some y \<Rightarrow> Some y)" for P and x :: string and xs
    by (induction xs) auto
  have ih: "fo_tail ?f = drop (length ls - 8) (map (take 1024) ls)"
    "fo_first_error ?f = find (sublist ''ERROR:'') (map (take 1024) ls)" using snoc by blast+
  have "fo_tail (record_failure l ?f) = drop (length (ls @ [l]) - 8) (map (take 1024) (ls @ [l]))"
    unfolding record_failure_fields ih by (cases "8 \<le> length ls") (auto simp: next_window)
  moreover have "fo_first_error (record_failure l ?f) = find (sublist ''ERROR:'') (map (take 1024) (ls @ [l]))"
    unfolding record_failure_fields ih by (simp add: find split: option.splits)
  ultimately show ?case by simp
qed (simp add: failure_output_default_def)

text \<open>The diagnostics of a failed operation are the first line recorded that says \<open>ERROR:\<close> and the last eight lines, each
  cut after 1024 characters, however much the runner prints.\<close>

theorem failure_window_exact:
  shows "fo_first_error (fold record_failure ls failure_output_default) = find (sublist ''ERROR:'') (map (take 1024) ls) \<and>
    fo_tail (fold record_failure ls failure_output_default) = drop (length ls - 8) (map (take 1024) ls)"
  using record_failure_fold by blast

theorem redaction_complete_witness:
  "\<not> sublist ''alice'' (redact_sensitive_values ''user=alice password=alice123'' [''alice'', ''alice123''])"
proof -
  have "redactable ''alice''" by (simp add: redactable_def sublist_Cons_right)
  from redaction_complete [OF _ _ this, of "[''alice'', ''alice123'']"] show ?thesis by simp
qed

end
