(* ===== verification/SessionSpawn.thy ===== *)
theory SessionSpawn
  imports SessionClient SessionMain OperationLock ProcMemory "HOL-Library.Char_ord" "HOL-Library.List_Lexorder"
begin

text \<open>
  Starting a supervisor from the launcher (\<open>src-tauri/src/tools/runner_sessions/client.rs\<close>, the sidecar lookup of
  \<open>utils/fs.rs\<close>), the processes it runs for the launcher (\<open>SupervisedProcess\<close> of \<open>registry.rs\<close>) and what a
  runner operation does with them (\<open>exec.rs\<close>).  The last section composes the start with the sidecar's
  own handling of its arguments and of the first request.
\<close>

section \<open>Finding the sidecar\<close>

record exe_dir =
  xd_is_file :: "path \<Rightarrow> bool"
  xd_entries :: "path \<Rightarrow> os_string list option"
  xd_current_exe :: "path option"

definition find_bundled_sidecar_in :: "exe_dir \<Rightarrow> path \<Rightarrow> string \<Rightarrow> path option" where
  "find_bundled_sidecar_in xd directory stem =
     (if xd_is_file xd (directory @ [Normal stem]) then Some (directory @ [Normal stem])
      else (case xd_entries xd directory of
              None \<Rightarrow> None
            | Some names \<Rightarrow>
                (case sort (filter (\<lambda>name. xd_is_file xd (directory @ [Normal name]) \<and> utf8_valid (ascii_bytes name) \<and>
                            (name = stem \<or> prefix (stem @ ''-'') name)) names) of
                   [] \<Rightarrow> None | name # _ \<Rightarrow> Some (directory @ [Normal name]))))"

definition bundled_sidecar_path_from :: "exe_dir \<Rightarrow> string \<Rightarrow> path option \<Rightarrow> path" where
  "bundled_sidecar_path_from xd stem directory =
     (case directory of
        Some dir \<Rightarrow>
          (case find_bundled_sidecar_in xd dir stem of Some p \<Rightarrow> p | None \<Rightarrow> dir @ [Normal stem])
      | None \<Rightarrow> path_of (''/nonexistent/ro-launcher/'' @ stem))"

definition bundled_sidecar_path :: "exe_dir \<Rightarrow> string \<Rightarrow> path" where
  "bundled_sidecar_path xd stem = bundled_sidecar_path_from xd stem (Option.bind (xd_current_exe xd) parent_dir)"

definition find_ro_sessiond :: "exe_dir \<Rightarrow> path option \<Rightarrow> path" where
  "find_ro_sessiond xd override_path =
     (case override_path of
        Some p \<Rightarrow> if is_absolute p then p else path_of ''/nonexistent/ro-launcher/ro-sessiond''
      | None \<Rightarrow> bundled_sidecar_path xd ''ro-sessiond'')"

definition path_log_token :: "(string \<Rightarrow> u8 list) \<Rightarrow> path \<Rightarrow> string" where
  "path_log_token sha256 p = take 16 (concat (map byte_hex (sha256 (path_display p))))"

section \<open>Ending a child\<close>

text \<open>The answers of \<open>kill_child_by_identity\<close>: whether the identity still verifies at its three looks, and the error of a
  failing SIGKILL.  Its result is what it sends and what it reports; the waits for the child are bounded.\<close>

record kill_os =
  kl_before :: bool
  kl_after_term :: bool
  kl_kill_error :: "string option"
  kl_at_end :: bool

record kill_record =
  kr_signals :: "int list"
  kr_reports :: "string list"

definition kill_child_by_identity :: "kill_os \<Rightarrow> process_identity \<Rightarrow> kill_record" where
  "kill_child_by_identity os identity =
     (let pid = show_nat (unat (pi_pid identity));
          signals = (if kl_before os then SIGTERM # (if kl_after_term os then [SIGKILL] else []) else []);
          failed = (if kl_before os \<and> kl_after_term os then
                      (case kl_kill_error os of
                         None \<Rightarrow> [] | Some e \<Rightarrow> [''SIGKILL a pid '' @ pid @ '' fall'' @ [CHR 0xF3] @ '': '' @ e]) else []);
          alive = (if kl_at_end os then
                     [''el pid '' @ pid @ '' sigue vivo tras SIGTERM y SIGKILL''] else [])
      in \<lparr>kr_signals = signals, kr_reports = failed @ alive\<rparr>)"

section \<open>Starting a supervisor\<close>

text \<open>The child is spawned with \<open>kill_on_drop\<close>: when the function returns early it is dropped, and killed with SIGKILL if it
  has not been waited for.\<close>

datatype child_fate = NotSpawned | DroppedChild | KilledChild kill_record | HandedOver

record spawn_os =
  so2_fs :: file_system
  so2_exe :: exe_dir
  so2_sha256 :: "string \<Rightarrow> u8 list"
  so2_pid :: u32
  so2_spawn :: "(string, unit) result"
  so2_stdout :: bool
  so2_stderr :: bool
  so2_stdin :: bool
  so2_identity :: "process_identity option"
  so2_handshake :: "(string, ready_info) result option"
  so2_kill :: kill_os
  so2_identity_again :: "process_identity option"

record spawned_supervisor =
  ss_ready :: ready_info
  ss_prefix :: path
  ss_identity :: process_identity

definition supervisor_args :: "path \<Rightarrow> u32 \<Rightarrow> string list" where
  "supervisor_args canonical parent_pid =
     [''--prefix'', path_display canonical, ''--parent-pid'', show_nat (unat parent_pid)]"

definition supervisor_env :: "environment \<Rightarrow> environment" where
  "supervisor_env env = env(''WINEPREFIX'' := None, ''STEAM_COMPAT_DATA_PATH'' := None)"

definition check_ready :: "path \<Rightarrow> ready_info \<Rightarrow> (string, unit) result" where
  "check_ready canonical ready =
     (if rd_protocol_version ready \<noteq> PROTOCOL_VERSION then
        Inl (''protocol version mismatch: '' @ show_nat (unat (rd_protocol_version ready)))
      else if \<not> rd_subreaper ready then Inl ''supervisor is not a subreaper''
      else if rd_prefix ready \<noteq> path_display canonical then Inl ''prefix mismatch in Ready''
      else Inr ())"

definition spawn_supervisor ::
  "spawn_os \<Rightarrow> path \<Rightarrow> path option \<Rightarrow> (string, spawned_supervisor) result \<times> child_fate" where
  "spawn_supervisor os pfx sidecar_override =
     (case canonicalize_prefix_path (so2_fs os) pfx of
        None \<Rightarrow> (Inl ''prefix path could not be canonicalized'', NotSpawned)
      | Some canonical \<Rightarrow>
          let sessiond_path = find_ro_sessiond (so2_exe os) sidecar_override
          in if \<not> is_absolute sessiond_path then (Inl ''ro-sessiond sidecar path is not absolute'', NotSpawned)
          else
            (case so2_spawn os of
               Inl e \<Rightarrow> (Inl (''spawn ro-sessiond path='' @ path_log_token (so2_sha256 os) sessiond_path @ '': '' @ e), NotSpawned)
             | Inr _ \<Rightarrow>
                 if \<not> so2_stdout os then (Inl ''missing supervisor stdout'', DroppedChild)
                 else if \<not> so2_stderr os then (Inl ''missing supervisor stderr'', DroppedChild)
                 else if \<not> so2_stdin os then (Inl ''missing supervisor stdin'', DroppedChild)
                 else
                   (case so2_identity os of
                      None \<Rightarrow> (Inl ''failed to capture supervisor identity at spawn'', DroppedChild)
                    | Some identity \<Rightarrow>
                        let killed = KilledChild (kill_child_by_identity (so2_kill os) identity)
                        in (case so2_handshake os of
                              None \<Rightarrow> (Inl ''timeout waiting for Ready'', killed)
                            | Some (Inl e) \<Rightarrow> (Inl e, killed)
                            | Some (Inr ready) \<Rightarrow>
                                (case check_ready canonical ready of
                                   Inl e \<Rightarrow> (Inl e, killed)
                                 | Inr _ \<Rightarrow>
                                     (Inr \<lparr>ss_ready = ready, ss_prefix = canonical,
                                           ss_identity = (case so2_identity_again os of Some i \<Rightarrow> i | None \<Rightarrow> identity)\<rparr>,
                                      HandedOver))))))"

section \<open>Supervised processes\<close>

record process_exit =
  px_exit_code :: "int option"
  px_signal :: "int option"

record supervised_process =
  su_request_id :: string
  su_controller :: process_identity
  su_exit :: "process_exit option"

definition exit_of :: "controller_exit \<Rightarrow> process_exit" where
  "exit_of c = \<lparr>px_exit_code = ce_exit_code c, px_signal = ce_signal c\<rparr>"

definition try_exit ::
  "supervised_process \<Rightarrow> session_client \<Rightarrow> process_exit option \<times> supervised_process \<times> session_client" where
  "try_exit p c =
     (case su_exit p of
        Some exit \<Rightarrow> (Some exit, p, c)
      | None \<Rightarrow>
          (case try_controller_exit (su_request_id p) c of
             (Some controller, c1) \<Rightarrow> (Some (exit_of controller), p\<lparr>su_exit := Some (exit_of controller)\<rparr>, c1)
           | (None, c1) \<Rightarrow> (None, p, c1)))"

text \<open>\<open>wait\<close>: \<open>answer\<close> is what \<open>wait_controller_exit\<close> returns, \<^const>\<open>None\<close> when the caller stops waiting for it.\<close>

definition wait_exit ::
  "(string, controller_exit) result option \<Rightarrow> supervised_process \<Rightarrow> session_client
     \<Rightarrow> (string, process_exit) result option \<times> supervised_process \<times> session_client" where
  "wait_exit answer p c =
     (case try_exit p c of
        (Some exit, p1, c1) \<Rightarrow> (Some (Inr exit), p1, c1)
      | (None, p1, c1) \<Rightarrow>
          (case answer of
             None \<Rightarrow> (None, p1, c1)
           | Some (Inl e) \<Rightarrow> (Some (Inl e), p1, c1)
           | Some (Inr controller) \<Rightarrow> (Some (Inr (exit_of controller)), p1\<lparr>su_exit := Some (exit_of controller)\<rparr>, c1)))"

definition send_signal :: "process_identity \<Rightarrow> (string, bool) result \<Rightarrow> (string, unit) result" where
  "send_signal identity outcome =
     (case outcome of
        Inr _ \<Rightarrow> Inr () | Inl e \<Rightarrow> Inl (''kill pid '' @ show_nat (unat (pi_pid identity)) @ '': '' @ e))"

text \<open>The answers of \<open>terminate\<close>: the two looks at the identity, the two signals, and what the waits return: the one before the
  first signal, when the process is gone already, the bounded one after SIGTERM, and the last one.  The client
  is the one seen by the first look for an exit and by each wait.\<close>

record terminate_os =
  tm_verified :: bool
  tm_term :: "(string, bool) result"
  tm_after_term :: "session_client \<times> (string, controller_exit) result option"
  tm_still_verified :: bool
  tm_kill :: "(string, bool) result"
  tm_last :: "session_client \<times> (string, controller_exit) result option"

definition terminate ::
  "terminate_os \<Rightarrow> supervised_process \<Rightarrow> session_client \<Rightarrow> (string, unit) result \<times> int list \<times> supervised_process" where
  "terminate os p c =
     (let last = (\<lambda>p. fst (snd (wait_exit (snd (tm_last os)) p (fst (tm_last os)))))
      in case try_exit p c of
           (Some _, p1, _) \<Rightarrow> (Inr (), [], p1)
         | (None, p1, _) \<Rightarrow>
             if \<not> tm_verified os then (Inr (), [], last p1)
             else
               (case send_signal (su_controller p) (tm_term os) of
                  Inl e \<Rightarrow> (Inl e, [SIGTERM], p1)
                | Inr _ \<Rightarrow>
                    (case wait_exit (snd (tm_after_term os)) p1 (fst (tm_after_term os)) of
                       (Some _, p2, _) \<Rightarrow> (Inr (), [SIGTERM], p2)
                     | (None, p2, _) \<Rightarrow>
                         if tm_still_verified os then
                           (case send_signal (su_controller p) (tm_kill os) of
                              Inl e \<Rightarrow> (Inl e, [SIGTERM, SIGKILL], p2)
                            | Inr _ \<Rightarrow> (Inr (), [SIGTERM, SIGKILL], last p2))
                         else (Inr (), [SIGTERM], last p2))))"

text \<open>\<open>kill_owned_descendants\<close>: the processes it sends SIGKILL to.  Each process is judged by its own readings of \<open>/proc\<close>.\<close>

definition numbered :: "proc_fs \<Rightarrow> u32 list" where
  "numbered p =
     (case pr_names p of
        None \<Rightarrow> [] | Some names \<Rightarrow> List.map_filter (\<lambda>name. Option.bind (from_utf8 name) parse_u32) names)"

definition kill_owned_descendants ::
  "proc_fs \<Rightarrow> (u32 \<Rightarrow> proc_fs) \<Rightarrow> (u32 \<Rightarrow> proc_fs) \<Rightarrow> process_identity \<Rightarrow> process_identity list" where
  "kill_owned_descendants p at later supervisor =
     List.map_filter (\<lambda>pid.
       case capture_process_identity (at pid) pid of
         None \<Rightarrow> None
       | Some identity \<Rightarrow>
           if pid \<noteq> pi_pid supervisor \<and> verify_process_identity (later pid) supervisor \<and>
              is_descendant_of (later pid) pid (pi_pid supervisor) \<and> verify_process_identity (later pid) identity
           then Some identity else None)
       (numbered p)"

section \<open>Runner operations\<close>

definition exit_code_from_process_exit :: "process_exit \<Rightarrow> int" where
  "exit_code_from_process_exit exit =
     (case px_exit_code exit of
        Some code \<Rightarrow> code
      | None \<Rightarrow> (case px_signal exit of Some signal \<Rightarrow> 128 + signal | None \<Rightarrow> -1))"

definition run_ok :: "(string, process_exit) result \<Rightarrow> string \<Rightarrow> (string, unit) result" where
  "run_ok exit error_context =
     (case exit of
        Inl e \<Rightarrow> Inl e
      | Inr exit \<Rightarrow>
          let code = exit_code_from_process_exit exit
          in if code \<noteq> 0 then
               Inl (error_context @ '' fall'' @ [CHR 0xF3] @ '' con c'' @ [CHR 0xF3] @ ''digo: '' @ show_int code)
             else Inr ())"


text \<open>The last wait of \<open>run_shutdown_ok\<close>: what its rounds find, with the clock at each.\<close>

fun await_empty :: "nat \<Rightarrow> (nat \<times> nat) list \<Rightarrow> int \<Rightarrow> string \<Rightarrow> (string, unit) result option" where
  "await_empty deadline [] code kind = None"
| "await_empty deadline ((active, now) # rounds) code kind =
     (if active = 0 then Some (Inr ())
      else if deadline \<le> now then
        Some (Inl (kind @ '' no pudo detener el entorno (c'' @ [CHR 0xF3] @ ''digo '' @ show_int code @ ''; '' @
          show_nat active @ '' procesos activos)''))
      else await_empty deadline rounds code kind)"

definition run_shutdown_ok ::
  "(string, process_exit) result \<Rightarrow> nat \<Rightarrow> (nat \<times> nat) list \<Rightarrow> string \<Rightarrow> (string, unit) result option" where
  "run_shutdown_ok exit started rounds kind =
     (case exit of
        Inl e \<Rightarrow> Some (Inl e)
      | Inr exit \<Rightarrow> await_empty (started + 5000) rounds (exit_code_from_process_exit exit) kind)"

text \<open>\<open>quiesce\<close>: the session of the prefix, if there is one, is shut down; then the prefix must be free of processes.\<close>

definition quiesce :: "string option \<Rightarrow> (string, unit) result \<Rightarrow> process_identity list \<Rightarrow> (string, unit) result" where
  "quiesce plan_id shutdown remaining =
     (case (if plan_id \<noteq> None then shutdown else Inr ()) of
        Inl e \<Rightarrow> Inl e
      | Inr _ \<Rightarrow>
          if remaining = [] then Inr ()
          else Inl (''quedan '' @ show_nat (length remaining) @ '' proceso(s) usando el entorno''))"

text \<open>\<open>prefix_has_active_programs\<close>, over the readings of \<open>/proc\<close> it makes: the search for the processes of the prefix, the check of the
  supervisor, the list of processes, the capture of each and its check, and the two looks at each identity found.\<close>

record probe_os =
  po_canon :: "text_points \<Rightarrow> text_points option"
  po_scan :: proc_fs
  po_scan_later :: "u32 \<Rightarrow> proc_fs"
  po_supervisor :: proc_fs
  po_list :: proc_fs
  po_capture :: "u32 \<Rightarrow> proc_fs"
  po_check :: "u32 \<Rightarrow> proc_fs"
  po_look :: "process_identity \<Rightarrow> proc_fs"
  po_look_again :: "process_identity \<Rightarrow> proc_fs"

definition supervised_identity :: "probe_os \<Rightarrow> process_identity \<Rightarrow> u32 \<Rightarrow> process_identity option" where
  "supervised_identity os supervisor pid =
     (if pid = pi_pid supervisor then None
      else case capture_process_identity (po_capture os pid) pid of
             None \<Rightarrow> None
           | Some identity \<Rightarrow>
               if is_descendant_of (po_check os pid) pid (pi_pid supervisor) \<and>
                  verify_process_identity (po_check os pid) supervisor \<and> verify_process_identity (po_check os pid) identity
               then Some identity else None)"

definition probed_identities :: "probe_os \<Rightarrow> text_points \<Rightarrow> process_identity option \<Rightarrow> process_identity list" where
  "probed_identities os pfx supervisor =
     find_prefix_processes (po_canon os) (po_scan os) (po_scan_later os) pfx @
     (case supervisor of
        None \<Rightarrow> []
      | Some s \<Rightarrow>
          if verify_process_identity (po_supervisor os) s
          then List.map_filter (supervised_identity os s) (numbered (po_list os)) else [])"

definition prefix_has_active_programs :: "probe_os \<Rightarrow> u32 \<Rightarrow> text_points \<Rightarrow> process_identity option \<Rightarrow> bool" where
  "prefix_has_active_programs os self_pid pfx supervisor =
     list_ex (\<lambda>identity.
       pi_pid identity \<noteq> self_pid \<and> verify_process_identity (po_look os identity) identity \<and>
       \<not> is_prefix_leftover_process (po_look os identity) (pi_pid identity) \<and>
       verify_process_identity (po_look_again os identity) identity)
     (probed_identities os pfx supervisor)"

section \<open>Path texts\<close>

lemma split_on_parts: "q \<in> set (split_on d s) \<Longrightarrow> d \<notin> set q"
  by (induction s arbitrary: q) (auto split: if_splits list.splits)

lemma path_of_names: "Normal n \<in> set (path_of s) \<Longrightarrow> plain_name n"
  by (auto simp: path_of_def plain_name_def Let_def split: if_splits dest: split_on_parts)

section \<open>The launcher and the sidecar agree\<close>

text \<open>What \<open>realpath\<close> and \<open>lstat\<close> promise on a tree that does not change: a resolved path is absolute, has plain names only and
  resolves to itself, and names below a path and below what it resolves to are the same files.\<close>

definition resolves :: "file_system \<Rightarrow> bool" where
  "resolves fs \<longleftrightarrow> (\<forall>p q. fs_canonicalize fs p = Inr q \<longrightarrow>
     clean_path q \<and> fs_canonicalize fs q = Inr q \<and>
     (\<forall>names. fs_canonicalize fs (p @ map Normal names) = fs_canonicalize fs (q @ map Normal names) \<and>
        fs_symlink_metadata_ok fs (p @ map Normal names) = fs_symlink_metadata_ok fs (q @ map Normal names)))"

lemma canonical_prefix_stable:
  assumes fs: "resolves fs" and canonical: "canonicalize_prefix_path fs p = Some q"
    and names: "\<And>n. Normal n \<in> set p \<Longrightarrow> plain_name n"
  shows "clean_path q \<and> canonicalize_prefix_path fs q = Some q"
proof -
  obtain base ns c where id: "prefix_identity fs p base ns c" and q: "q = c @ map Normal ns"
    using canonical canonical_prefix_iff by blast
  have c: "clean_path c" "fs_canonicalize fs c = Inr c"
    and same: "fs_canonicalize fs (base @ map Normal xs) = fs_canonicalize fs (c @ map Normal xs)"
      "fs_symlink_metadata_ok fs (base @ map Normal xs) = fs_symlink_metadata_ok fs (c @ map Normal xs)" for xs
    using fs id unfolding resolves_def prefix_identity_def by blast+
  have "list_all plain_name ns"
    using id names by (auto simp: prefix_identity_def list_all_iff)
  with c(1) have clean: "clean_path q"
    unfolding clean_path_def q by (metis append_Cons list_all_append map_append)
  have "prefix_identity fs q c ns c"
    using id by (simp add: prefix_identity_def q c same)
  moreover have "is_absolute q" using clean by (auto simp: clean_path_def is_absolute_def)
  ultimately have "canonicalize_prefix_path fs q = Some q" using canonical_prefix_iff q by blast
  with clean show ?thesis ..
qed

lemma digits_value_snoc: "digits_value (ds @ [d]) = 10 * digits_value ds + (d - 48)"
  by (simp add: digits_value_def)

lemma points_show_nat:
  "points (show_nat n) \<noteq> [] \<and> list_all (\<lambda>d. 48 \<le> d \<and> d \<le> 57) (points (show_nat n)) \<and>
   digits_value (points (show_nat n)) = n"
proof (induction n rule: show_nat.induct)
  case (1 n)
  have digit: "points [char_of (48 + m)] = [48 + m]" if "m < 10" for m :: nat
    using that by (simp add: points_def)
  show ?case
  proof (cases "n < 10")
    case True
    with digit [of n] show ?thesis by (simp add: show_nat.simps [of n] digits_value_def)
  next
    case False
    have app: "points (show_nat n) = points (show_nat (n div 10)) @ [48 + n mod 10]"
      using digit [of "n mod 10"] False by (simp add: show_nat.simps [of n] points_def)
    from 1 [OF False] show ?thesis by (simp add: app digits_value_snoc)
  qed
qed

lemma parse_show_u32: "parse_u32 (points (show_nat (unat v))) = Some v"
proof -
  let ?t = "points (show_nat (unat v))"
  have t: "?t \<noteq> []" "list_all (\<lambda>d. 48 \<le> d \<and> d \<le> 57) ?t" "digits_value ?t = unat v"
    using points_show_nat [of "unat v"] by auto
  then have "hd ?t \<noteq> 43" by (cases ?t) auto
  with t show ?thesis using unsigned_less [of v, where ?'a = nat] by (simp add: parse_u32_def parse_uint_def)
qed

text \<open>The sidecar, as far as its answer to the first request: its arguments and the \<open>Hello\<close> it reads.\<close>

definition sidecar_start ::
  "file_system \<Rightarrow> string list \<Rightarrow> u32 \<Rightarrow> session_request \<Rightarrow> (string, session_event list) result" where
  "sidecar_start fs args self_pid request =
     (case parse_args fs args of
        Inl e \<Rightarrow> Inl e
      | Inr cfg \<Rightarrow> Inr (ew_events (snd (answer_hello self_pid (path_display (cfg_prefix cfg)) request
                       \<lparr>ew_events = [], ew_failure = None\<rparr>))))"

lemma supervisor_args_parse:
  assumes "resolves fs" "canonicalize_prefix_path fs (path_of s) = Some c"
  shows "parse_args fs (supervisor_args c pid) = Inr \<lparr>cfg_prefix = c, cfg_parent_pid = pid\<rparr>"
proof -
  from canonical_prefix_stable [OF assms path_of_names]
  have "clean_path c" "canonicalize_prefix_path fs c = Some c" by auto
  then show ?thesis by (simp add: parse_args_def supervisor_args_def path_of_display parse_show_u32)
qed

text \<open>What the launcher's reader makes of the events, for the task that waits in \<open>handshake\<close>.\<close>

definition delivered :: "session_event list \<Rightarrow> (string, ready_info) result option" where
  "delivered events =
     (case concat (map dispatch events) of
        AnswerReady (AnsReady ready) # _ \<Rightarrow> Some (Inr ready) | AnswerReady (AnsErr e) # _ \<Rightarrow> Some (Inl e) | _ \<Rightarrow> None)"

text \<open>The launcher takes a supervisor over precisely when it returns one; that supervisor has announced the protocol version,
  says that it is a subreaper, and owns the canonical prefix.  In every other case no child was started, or it was killed, or
  it is dropped and so killed.\<close>

lemma handed_over_only_ready:
  assumes "spawn_supervisor os p ov = (res, fate)"
  shows "(fate = HandedOver \<longleftrightarrow> (\<exists>sp. res = Inr sp)) \<and>
    (\<forall>sp. res = Inr sp \<longrightarrow> canonicalize_prefix_path (so2_fs os) p = Some (ss_prefix sp) \<and>
       check_ready (ss_prefix sp) (ss_ready sp) = Inr () \<and> so2_handshake os = Some (Inr (ss_ready sp)))"
  using assms by (auto simp: spawn_supervisor_def Let_def split: option.splits if_splits sum.splits)

text \<open>The two programs agree when a session starts.  For a prefix that can be canonicalized, on a file system that does not
  change, the sidecar reads from the launcher's arguments the same canonical prefix and the launcher's process id; its answer to
  the launcher's \<open>Hello\<close>, read back by the launcher, is accepted, and the launcher takes over a supervisor of that prefix.\<close>

theorem supervisor_startup_agrees:
  assumes "resolves (so2_fs os)" "canonicalize_prefix_path (so2_fs os) (path_of s) = Some c"
    and "is_absolute (find_ro_sessiond (so2_exe os) ov)"
    and "so2_spawn os = Inr ()" "so2_stdout os" "so2_stderr os" "so2_stdin os" "so2_identity os \<noteq> None"
    and "sidecar_start (so2_fs os) (supervisor_args c (so2_pid os)) self_pid (Hello PROTOCOL_VERSION) = Inr events"
    and "so2_handshake os = delivered events"
  shows "parse_args (so2_fs os) (supervisor_args c (so2_pid os)) = Inr \<lparr>cfg_prefix = c, cfg_parent_pid = so2_pid os\<rparr> \<and>
    (\<exists>sp. spawn_supervisor os (path_of s) ov = (Inr sp, HandedOver) \<and> ss_prefix sp = c \<and>
       rd_supervisor_pid (ss_ready sp) = self_pid)"
proof -
  note args = supervisor_args_parse [OF assms(1,2)]
  define ready where "ready = \<lparr>rd_protocol_version = PROTOCOL_VERSION, rd_supervisor_pid = self_pid,
      rd_prefix = path_display c, rd_subreaper = True\<rparr>"
  have "events = [Ready PROTOCOL_VERSION self_pid (path_display c) True]"
    using assms(9) by (simp add: sidecar_start_def args answer_hello_def emit_def)
  then have "so2_handshake os = Some (Inr ready)" using assms(10) by (simp add: ready_def delivered_def)
  moreover have "check_ready c ready = Inr ()" by (simp add: check_ready_def ready_def)
  ultimately show ?thesis
    using assms by (auto simp: spawn_supervisor_def args Let_def ready_def)
qed

section \<open>The look for active programs\<close>

text \<open>A process of the prefix, by its environment, or of the supervisor's tree.\<close>

definition uses_prefix :: "(text_points \<Rightarrow> text_points option) \<Rightarrow> proc_fs \<Rightarrow> text_points \<Rightarrow> u32 \<Rightarrow> bool" where
  "uses_prefix canon p pfx pid \<longleftrightarrow>
     normalize_prefix canon pfx \<noteq> [] \<and> pid \<in> set (proc_pids p) \<and>
     (\<exists>env. pr_environ p pid = Some env \<and> prefix_matches canon (parse_nul_fields env) (normalize_prefix canon pfx))"

definition supervised_by :: "proc_fs \<Rightarrow> process_identity \<Rightarrow> u32 \<Rightarrow> bool" where
  "supervised_by p supervisor pid \<longleftrightarrow>
     verify_process_identity p supervisor \<and> pid \<in> set (numbered p) \<and> pid \<noteq> pi_pid supervisor \<and>
     (\<exists>n\<le>64. descends (read_ppid p) (pi_pid supervisor) n pid)"

definition still_probe :: "(text_points \<Rightarrow> text_points option) \<Rightarrow> proc_fs \<Rightarrow> probe_os" where
  "still_probe canon p =
     \<lparr>po_canon = canon, po_scan = p, po_scan_later = (\<lambda>_. p), po_supervisor = p, po_list = p, po_capture = (\<lambda>_. p),
      po_check = (\<lambda>_. p), po_look = (\<lambda>_. p), po_look_again = (\<lambda>_. p)\<rparr>"

lemma set_sort_by_key: "set (sort_by_key k xs) = set xs"
  by (simp add: sort_by_key_def)

lemma prefix_process_still:
  "prefix_process canon p p norm pid = Some i \<longleftrightarrow>
     pi_pid i = pid \<and> verify_process_identity p i \<and>
     (\<exists>env. pr_environ p pid = Some env \<and> prefix_matches canon (parse_nul_fields env) norm)"
  by (cases "capture_process_identity p pid"; cases "pr_environ p pid")
    (auto simp: prefix_process_def verify_process_identity_def dest: capture_pid)

lemma supervised_identity_still:
  assumes "verify_process_identity p s"
  shows "supervised_identity (still_probe canon p) s pid = Some i \<longleftrightarrow>
     pi_pid i = pid \<and> verify_process_identity p i \<and> pid \<noteq> pi_pid s \<and> (\<exists>n\<le>64. descends (read_ppid p) (pi_pid s) n pid)"
  using assms unfolding is_descendant_of_iff [symmetric]
  by (cases "capture_process_identity p pid")
    (auto simp: supervised_identity_def still_probe_def verify_process_identity_def dest: capture_pid)

lemma probed_still:
  "set (probed_identities (still_probe canon p) pfx owner) =
     {identity. verify_process_identity p identity \<and>
        (uses_prefix canon p pfx (pi_pid identity) \<or> (\<exists>s. owner = Some s \<and> supervised_by p s (pi_pid identity)))}"
proof -
  have "set (find_prefix_processes canon p (\<lambda>_. p) pfx) =
      {i. verify_process_identity p i \<and> uses_prefix canon p pfx (pi_pid i)}"
    by (auto simp: find_prefix_processes_def Let_def set_sort_by_key map_filter_set prefix_process_still uses_prefix_def)
  moreover have "set (List.map_filter (supervised_identity (still_probe canon p) s) (numbered p)) =
      {i. verify_process_identity p i \<and> supervised_by p s (pi_pid i)}" if "verify_process_identity p s" for s
    using that by (auto simp: map_filter_set supervised_identity_still supervised_by_def)
  moreover have "\<not> supervised_by p s pid" if "\<not> verify_process_identity p s" for s pid
    using that by (simp add: supervised_by_def)
  ultimately show ?thesis
    unfolding probed_identities_def by (cases owner) (auto simp: still_probe_def)
qed

lemma some_identity:
  "(\<exists>i. verify_process_identity p i \<and> P (pi_pid i)) \<longleftrightarrow> (\<exists>pid. capture_process_identity p pid \<noteq> None \<and> P pid)"
proof
  assume "\<exists>pid. capture_process_identity p pid \<noteq> None \<and> P pid"
  then obtain pid i where "capture_process_identity p pid = Some i" "P pid" by auto
  with capture_pid show "\<exists>i. verify_process_identity p i \<and> P (pi_pid i)"
    unfolding verify_process_identity_def by blast
qed (auto simp: verify_process_identity_def)

text \<open>Nothing that uses the prefix is overlooked.  While processes neither start nor end, the probe that decides whether a
  prefix may be entered exclusively answers yes precisely when some process other than the launcher, and other than the
  daemons Wine leaves behind, has the prefix in its environment or descends within 64 steps from the live supervisor.\<close>

theorem active_programs_exact:
  "prefix_has_active_programs (still_probe canon p) self_pid pfx owner \<longleftrightarrow>
     (\<exists>pid. pid \<noteq> self_pid \<and> capture_process_identity p pid \<noteq> None \<and> \<not> is_prefix_leftover_process p pid \<and>
        (uses_prefix canon p pfx pid \<or> (\<exists>s. owner = Some s \<and> supervised_by p s pid)))" (is "?l \<longleftrightarrow> ?r")
proof -
  let ?P = "\<lambda>pid. pid \<noteq> self_pid \<and> \<not> is_prefix_leftover_process p pid \<and>
      (uses_prefix canon p pfx pid \<or> (\<exists>s. owner = Some s \<and> supervised_by p s pid))"
  have looks: "po_look (still_probe canon p) i = p" "po_look_again (still_probe canon p) i = p" for i
    by (simp_all add: still_probe_def)
  have "?l \<longleftrightarrow> (\<exists>i. verify_process_identity p i \<and> ?P (pi_pid i))"
    unfolding prefix_has_active_programs_def list_ex_iff probed_still looks by blast
  then show ?thesis using some_identity [of p ?P] by blast
qed

section \<open>An example\<close>

definition still_fs :: file_system where
  "still_fs = \<lparr>fs_canonicalize = (\<lambda>p. if clean_path p then Inr p else Inl OtherIo),
     fs_metadata = (\<lambda>_. Inr \<lparr>fm_is_dir = True, fm_is_file = False, fm_mode = 0\<rparr>), fs_symlink_metadata_ok = (\<lambda>_. True)\<rparr>"

definition started_os :: spawn_os where
  "started_os =
     \<lparr>so2_fs = still_fs, so2_exe = \<lparr>xd_is_file = (\<lambda>_. False), xd_entries = (\<lambda>_. None), xd_current_exe = None\<rparr>,
      so2_sha256 = (\<lambda>_. []), so2_pid = 77, so2_spawn = Inr (), so2_stdout = True, so2_stderr = True, so2_stdin = True,
      so2_identity = Some \<lparr>pi_pid = 90, pi_start_time = 5\<rparr>,
      so2_handshake = delivered [Ready PROTOCOL_VERSION 90 ''/pfx'' True],
      so2_kill = \<lparr>kl_before = True, kl_after_term = False, kl_kill_error = None, kl_at_end = False\<rparr>,
      so2_identity_again = None\<rparr>"

lemma pfx_clean: "clean_path [RootDir, Normal ''pfx'']"
  unfolding clean_path_def by (rule exI [of _ "[''pfx'']"]) (simp add: plain_name_def)

lemma still_fs_resolves: "resolves still_fs"
  by (auto simp: resolves_def still_fs_def)

lemma still_fs_pfx: "canonicalize_prefix_path still_fs (path_of ''/pfx'') = Some [RootDir, Normal ''pfx'']"
proof -
  have "fs_canonicalize still_fs [RootDir, Normal ''pfx''] = Inr [RootDir, Normal ''pfx'']"
    using pfx_clean by (simp add: still_fs_def)
  moreover have "path_is_dir still_fs p" for p by (simp add: path_is_dir_def still_fs_def)
  ultimately show ?thesis
    by (simp add: canonicalize_prefix_path_def is_absolute_def canonicalize_loop.simps [of still_fs])
qed

end
