(* ===== verification/CrashDisk.thy ===== *)
theory CrashDisk
  imports RoPrelude
begin

text \<open>
  Programs that change a few directory entries and may fail or be killed at every change.  A program is a
  function of the world: the disk, a clock that counts the changes (and the reads that fail on their own) so far, and, for every change, whether it
  proceeds, fails or is the one at which the process is killed.  A change that is not atomic leaves what the world
  says when it is cut short.  A triple has one condition for each way a program ends.
\<close>

section \<open>The disk\<close>

text \<open>A symbolic link has the entries that are seen through it.  A mount point is a directory of another file system.\<close>

datatype node =
    Dir "(string \<times> node) list"
  | Mount "(string \<times> node) list"
  | File "u8 list"
  | Symlink "(string \<times> node) list"
  | Special

type_synonym entries = "(string \<times> node) list"

fun entries_of :: "node \<Rightarrow> entries" where
  "entries_of (Dir es) = es"
| "entries_of (Mount es) = es"
| "entries_of (Symlink es) = es"
| "entries_of _ = []"

fun with_entries :: "node \<Rightarrow> entries \<Rightarrow> node" where
  "with_entries (Dir _) es = Dir es"
| "with_entries (Mount _) es = Mount es"
| "with_entries (Symlink _) es = Symlink es"
| "with_entries n _ = n"

fun is_listed :: "node \<Rightarrow> bool" where
  "is_listed (File _) = False"
| "is_listed Special = False"
| "is_listed _ = True"

text \<open>The canonical root of a prefix, its fixed backup, and the other entries of their common parent.\<close>

record disk =
  dk_root :: "node option"
  dk_backup :: "node option"
  dk_others :: entries

datatype place = AtRoot | AtBackup | AtOther string

fun look :: "place \<Rightarrow> disk \<Rightarrow> node option" where
  "look AtRoot d = dk_root d"
| "look AtBackup d = dk_backup d"
| "look (AtOther s) d = map_of (dk_others d) s"

fun put :: "place \<Rightarrow> node option \<Rightarrow> disk \<Rightarrow> disk" where
  "put AtRoot v d = d\<lparr>dk_root := v\<rparr>"
| "put AtBackup v d = d\<lparr>dk_backup := v\<rparr>"
| "put (AtOther s) v d =
     d\<lparr>dk_others := (case v of
        None \<Rightarrow> filter (\<lambda>e. fst e \<noteq> s) (dk_others d)
      | Some x \<Rightarrow> map (\<lambda>e. if fst e = s then (s, x) else e) (dk_others d))\<rparr>"

definition entry :: "place \<Rightarrow> string \<Rightarrow> disk \<Rightarrow> node option" where
  "entry p name d = (case look p d of None \<Rightarrow> None | Some n \<Rightarrow> map_of (entries_of n) name)"

datatype entry_kind = Missing | Directory | Regular | OtherKind

fun kind_of :: "node option \<Rightarrow> entry_kind" where
  "kind_of None = Missing"
| "kind_of (Some (Dir _)) = Directory"
| "kind_of (Some (Mount _)) = Directory"
| "kind_of (Some (File _)) = Regular"
| "kind_of (Some _) = OtherKind"

section \<open>Programs\<close>

datatype fault = Proceed | Fail "node option" | Kill "node option"

text \<open>\<open>wd_unreadable\<close>: the reads that fail, by the clock: the number of changes, and of the reads made by \<open>sense\<close>, before; the empty name stands for the place
  itself, \<open>.\<close> for the list of its entries.  \<open>wd_active\<close>: the number of processes that use the prefix.\<close>

record world =
  wd_disk :: disk
  wd_clock :: nat
  wd_fault :: "nat \<Rightarrow> fault"
  wd_unreadable :: "nat \<Rightarrow> place \<Rightarrow> string \<Rightarrow> bool"
  wd_active :: "nat \<Rightarrow> nat"

datatype ('e, 'a) outcome = Done 'a | Failed 'e | Killed

type_synonym ('e, 'a) run = "world \<Rightarrow> ('e, 'a) outcome \<times> world"

definition ret :: "'a \<Rightarrow> ('e, 'a) run" where "ret x w = (Done x, w)"

definition throw :: "'e \<Rightarrow> ('e, 'a) run" where "throw e w = (Failed e, w)"

definition observe :: "(world \<Rightarrow> 'a) \<Rightarrow> ('e, 'a) run" where "observe f w = (Done (f w), w)"

text \<open>A read that fails or not on its own, whatever the reads and changes before it did, counts as a moment of the clock.\<close>

definition sense :: "(world \<Rightarrow> 'a) \<Rightarrow> ('e, 'a) run" where "sense f w = (Done (f w), w\<lparr>wd_clock := Suc (wd_clock w)\<rparr>)"

definition chain :: "('e, 'a) run \<Rightarrow> ('a \<Rightarrow> ('e, 'b) run) \<Rightarrow> ('e, 'b) run" where
  "chain m f w =
     (case m w of (Done x, w1) \<Rightarrow> f x w1 | (Failed e, w1) \<Rightarrow> (Failed e, w1) | (Killed, w1) \<Rightarrow> (Killed, w1))"

text \<open>A failure becomes a value; being killed does not.\<close>

definition attempt :: "('e, 'a) run \<Rightarrow> ('f, ('e, 'a) result) run" where
  "attempt m w =
     (case m w of (Done x, w1) \<Rightarrow> (Done (Inr x), w1) | (Failed e, w1) \<Rightarrow> (Done (Inl e), w1) | (Killed, w1) \<Rightarrow> (Killed, w1))"

definition from_result :: "('e, 'a) result \<Rightarrow> ('e, 'a) run" where
  "from_result r = (case r of Inl e \<Rightarrow> throw e | Inr x \<Rightarrow> ret x)"

text \<open>One change: \<open>act\<close> gives whether the kernel accepts it and the disk afterwards, \<open>part\<close> what an interrupted one leaves.\<close>

definition effect :: "'e \<Rightarrow> (disk \<Rightarrow> bool \<times> disk) \<Rightarrow> (node \<Rightarrow> disk \<Rightarrow> disk) \<Rightarrow> ('e, unit) run" where
  "effect e act part w =
     (let d = wd_disk w;
          after = (\<lambda>d1. w\<lparr>wd_disk := d1, wd_clock := Suc (wd_clock w)\<rparr>);
          remains = (\<lambda>l. case l of None \<Rightarrow> d | Some n \<Rightarrow> part n d)
      in case wd_fault w (wd_clock w) of
           Proceed \<Rightarrow> (if fst (act d) then Done () else Failed e, after (snd (act d)))
         | Fail l \<Rightarrow> (Failed e, after (remains l))
         | Kill l \<Rightarrow> (Killed, after (remains l)))"

definition atomic :: "'e \<Rightarrow> (disk \<Rightarrow> bool \<times> disk) \<Rightarrow> ('e, unit) run" where
  "atomic e act = effect e act (\<lambda>_ d. d)"

text \<open>\<open>fsync\<close> and \<open>syncfs\<close> change nothing that a process can see, but may fail.\<close>

definition sync :: "'e \<Rightarrow> ('e, unit) run" where
  "sync e = atomic e (\<lambda>d. (True, d))"

section \<open>Changes\<close>

text \<open>\<open>rename_noreplace\<close> of a directory; a mount point cannot be renamed.\<close>

definition move_entry :: "place \<Rightarrow> place \<Rightarrow> disk \<Rightarrow> bool \<times> disk" where
  "move_entry src dst d =
     (case look src d of
        Some (Dir es) \<Rightarrow> if look dst d = None then (True, put dst (Some (Dir es)) (put src None d)) else (False, d)
      | _ \<Rightarrow> (False, d))"

definition make_dir :: "place \<Rightarrow> disk \<Rightarrow> bool \<times> disk" where
  "make_dir p d = (if look p d = None then (True, put p (Some (Dir [])) d) else (False, d))"

definition ensure_dir :: "place \<Rightarrow> disk \<Rightarrow> bool \<times> disk" where
  "ensure_dir p d =
     (case look p d of
        None \<Rightarrow> (True, put p (Some (Dir [])) d) | Some n \<Rightarrow> (is_listed n, d))"

definition remove_dir :: "place \<Rightarrow> disk \<Rightarrow> bool \<times> disk" where
  "remove_dir p d = (if look p d = Some (Dir []) then (True, put p None d) else (False, d))"

definition in_dir :: "place \<Rightarrow> (entries \<Rightarrow> bool \<times> entries) \<Rightarrow> disk \<Rightarrow> bool \<times> disk" where
  "in_dir p f d =
     (case look p d of
        None \<Rightarrow> (False, d)
      | Some n \<Rightarrow>
          if is_listed n then (fst (f (entries_of n)), put p (Some (with_entries n (snd (f (entries_of n))))) d)
          else (False, d))"

definition without :: "string \<Rightarrow> entries \<Rightarrow> entries" where
  "without name es = filter (\<lambda>e. fst e \<noteq> name) es"

definition replaced :: "string \<Rightarrow> node \<Rightarrow> entries \<Rightarrow> entries" where
  "replaced name n es = map (\<lambda>e. if fst e = name then (name, n) else e) es"

definition rename_in :: "string \<Rightarrow> string \<Rightarrow> entries \<Rightarrow> bool \<times> entries" where
  "rename_in a b es =
     (if a \<in> fst ` set es \<and> b \<notin> fst ` set es
      then (True, map (\<lambda>e. if fst e = a then (b, snd e) else e) es) else (False, es))"

text \<open>\<open>rename\<close> of a file, which replaces a file with the new name.\<close>

definition rename_over :: "string \<Rightarrow> string \<Rightarrow> entries \<Rightarrow> bool \<times> entries" where
  "rename_over a b es =
     (if a \<notin> fst ` set es \<or> kind_of (map_of es b) = Directory then (False, es)
      else (True, map (\<lambda>e. if fst e = a then (b, snd e) else e) (if a = b then es else without b es)))"

definition unlink_in :: "string \<Rightarrow> entries \<Rightarrow> bool \<times> entries" where
  "unlink_in name es =
     (if name \<in> fst ` set es \<and> kind_of (map_of es name) \<noteq> Directory then (True, without name es) else (False, es))"

definition unlink_if_present_in :: "string \<Rightarrow> entries \<Rightarrow> bool \<times> entries" where
  "unlink_if_present_in name es = (if name \<in> fst ` set es then unlink_in name es else (True, es))"

text \<open>\<open>remove_dir_all\<close> of a directory; it empties a mount point and then fails.\<close>

definition remove_tree_in :: "string \<Rightarrow> entries \<Rightarrow> bool \<times> entries" where
  "remove_tree_in name es =
     (case map_of es name of
        Some (Mount _) \<Rightarrow> (False, replaced name (Mount []) es)
      | Some (Dir _) \<Rightarrow> (True, without name es)
      | _ \<Rightarrow> (False, es))"

definition create_in :: "string \<Rightarrow> entries \<Rightarrow> bool \<times> entries" where
  "create_in name es = (if name \<in> fst ` set es then (False, es) else (True, es @ [(name, File [])]))"

definition write_in :: "string \<Rightarrow> u8 list \<Rightarrow> entries \<Rightarrow> bool \<times> entries" where
  "write_in name bytes es = (True, replaced name (File bytes) es)"

text \<open>What an interrupted write and an interrupted \<open>remove_dir_all\<close> leave: a beginning of the bytes, some directory.\<close>

definition partly_written :: "place \<Rightarrow> string \<Rightarrow> u8 list \<Rightarrow> node \<Rightarrow> disk \<Rightarrow> disk" where
  "partly_written p name bytes n d =
     (case n of
        File bs \<Rightarrow> if prefix bs bytes then snd (in_dir p (write_in name bs) d) else d
      | _ \<Rightarrow> d)"

definition partly_removed :: "place \<Rightarrow> string \<Rightarrow> node \<Rightarrow> disk \<Rightarrow> disk" where
  "partly_removed p name n d =
     (case n of Dir es \<Rightarrow> snd (in_dir p (\<lambda>xs. (True, replaced name n xs)) d) | _ \<Rightarrow> d)"

section \<open>Triples\<close>

definition triple ::
  "(disk \<Rightarrow> bool) \<Rightarrow> ('e, 'a) run \<Rightarrow> ('a \<Rightarrow> disk \<Rightarrow> bool) \<Rightarrow> ('e \<Rightarrow> disk \<Rightarrow> bool) \<Rightarrow> (disk \<Rightarrow> bool) \<Rightarrow> bool" where
  "triple P m Q E K \<longleftrightarrow>
     (\<forall>w. P (wd_disk w) \<longrightarrow>
        (case m w of
           (Done x, w1) \<Rightarrow> Q x (wd_disk w1)
         | (Failed e, w1) \<Rightarrow> E e (wd_disk w1)
         | (Killed, w1) \<Rightarrow> K (wd_disk w1)))"

lemma triple_ret: "(\<And>d. P d \<Longrightarrow> Q x d) \<Longrightarrow> triple P (ret x) Q E K"
  by (simp add: triple_def ret_def)

lemma triple_throw: "(\<And>d. P d \<Longrightarrow> E e d) \<Longrightarrow> triple P (throw e) Q E K"
  by (simp add: triple_def throw_def)

lemma triple_observe: "(\<And>w. P (wd_disk w) \<Longrightarrow> Q (f w) (wd_disk w)) \<Longrightarrow> triple P (observe f) Q E K"
  by (simp add: triple_def observe_def)

lemma triple_chain:
  "triple P m R E K \<Longrightarrow> (\<And>x. triple (R x) (f x) Q E K) \<Longrightarrow> triple P (chain m f) Q E K"
  unfolding triple_def chain_def by (fastforce split: prod.splits outcome.splits)

lemma triple_weaken:
  "triple P m Q E K \<Longrightarrow> (\<And>d. P' d \<Longrightarrow> P d) \<Longrightarrow> (\<And>x d. Q x d \<Longrightarrow> Q' x d) \<Longrightarrow> (\<And>e d. E e d \<Longrightarrow> E' e d) \<Longrightarrow>
   (\<And>d. K d \<Longrightarrow> K' d) \<Longrightarrow> triple P' m Q' E' K'"
  unfolding triple_def by (fastforce split: prod.splits outcome.splits)

lemma triple_attempt:
  "triple P m (\<lambda>x. Q (Inr x)) (\<lambda>e. Q (Inl e)) K \<Longrightarrow> triple P (attempt m) Q E K"
  unfolding triple_def attempt_def by (fastforce split: prod.splits outcome.splits)

lemma triple_result:
  "(\<And>e d. r = Inl e \<Longrightarrow> P d \<Longrightarrow> E e d) \<Longrightarrow> (\<And>x d. r = Inr x \<Longrightarrow> P d \<Longrightarrow> Q x d) \<Longrightarrow> triple P (from_result r) Q E K"
  by (cases r) (auto simp: from_result_def intro: triple_ret triple_throw)

lemma triple_effect:
  assumes "\<And>d. P d \<Longrightarrow> fst (act d) \<Longrightarrow> Q () (snd (act d))" "\<And>d. P d \<Longrightarrow> \<not> fst (act d) \<Longrightarrow> E e (snd (act d))"
    and "\<And>d. P d \<Longrightarrow> E e d \<and> K d" "\<And>d n. P d \<Longrightarrow> E e (part n d) \<and> K (part n d)"
  shows "triple P (effect e act part) Q E K"
  using assms unfolding triple_def effect_def Let_def by (auto split: fault.splits option.splits)

lemma triple_atomic:
  assumes "\<And>d. P d \<Longrightarrow> fst (act d) \<Longrightarrow> Q () (snd (act d))" "\<And>d. P d \<Longrightarrow> \<not> fst (act d) \<Longrightarrow> E e (snd (act d))"
    and "\<And>d. P d \<Longrightarrow> E e d \<and> K d"
  shows "triple P (atomic e act) Q E K"
  unfolding atomic_def using assms by (intro triple_effect) auto

lemma triple_sync: "(\<And>d. P d \<Longrightarrow> Q () d \<and> E e d \<and> K d) \<Longrightarrow> triple P (sync e) Q E K"
  unfolding sync_def by (rule triple_atomic) auto

abbreviation stays :: "(disk \<Rightarrow> bool) \<Rightarrow> ('e, 'a) run \<Rightarrow> bool" where
  "stays I m \<equiv> triple I m (\<lambda>_. I) (\<lambda>_. I) I"

lemma triple_disj: "triple P m Q E K \<Longrightarrow> triple P' m Q E K \<Longrightarrow> triple (\<lambda>d. P d \<or> P' d) m Q E K"
  by (auto simp: triple_def)

lemma triple_pre: "(\<And>d. P' d \<Longrightarrow> P d) \<Longrightarrow> triple P m Q E K \<Longrightarrow> triple P' m Q E K"
  by (auto simp: triple_def)

lemma triple_False: "triple (\<lambda>_. False) m Q E K"
  by (simp add: triple_def)

text \<open>Reading: what is known of a value is what the reader says of a world.\<close>

lemma triple_read:
  "(\<And>x. triple (\<lambda>d. P d \<and> (\<exists>w. wd_disk w = d \<and> f w = x)) (g x) Q E K) \<Longrightarrow> triple P (chain (observe f) g) Q E K"
  by (rule triple_chain [where R = "\<lambda>x d. P d \<and> (\<exists>w. wd_disk w = d \<and> f w = x)"]) (auto intro: triple_observe)

lemma triple_each: "(\<And>v :: world. P (wd_disk v) \<Longrightarrow> triple (\<lambda>d. P d \<and> d = wd_disk v) m Q E K) \<Longrightarrow> triple P m Q E K"
proof -
  assume IH: "\<And>v :: world. P (wd_disk v) \<Longrightarrow> triple (\<lambda>d. P d \<and> d = wd_disk v) m Q E K"
  show ?thesis unfolding triple_def
  proof (intro allI impI)
    fix w :: world
    assume "P (wd_disk w)"
    with IH [of w] show "case m w of (Done x, w1) \<Rightarrow> Q x (wd_disk w1) | (Failed e, w1) \<Rightarrow> E e (wd_disk w1) | (Killed, w1) \<Rightarrow> K (wd_disk w1)"
      by (simp add: triple_def)
  qed
qed

lemma triple_known: "(\<And>d. P d \<Longrightarrow> C) \<Longrightarrow> (C \<Longrightarrow> triple P m Q E K) \<Longrightarrow> triple P m Q E K"
  by (auto simp: triple_def)

lemma triple_skip: "(\<And>x. triple P (g x) Q E K) \<Longrightarrow> triple P (chain (observe f) g) Q E K"
  by (rule triple_read) (auto intro: triple_pre)

lemma triple_sense:
  "(\<And>x. triple (\<lambda>d. P d \<and> (\<exists>w. wd_disk w = d \<and> f w = x)) (g x) Q E K) \<Longrightarrow> triple P (chain (sense f) g) Q E K"
  by (rule triple_chain [where R = "\<lambda>x d. P d \<and> (\<exists>w. wd_disk w = d \<and> f w = x)"]) (auto simp: triple_def sense_def)

lemma triple_skip_sense: "(\<And>x. triple P (g x) Q E K) \<Longrightarrow> triple P (chain (sense f) g) Q E K"
  by (rule triple_sense) (auto intro: triple_pre)

lemma stays_sense: "(\<And>x. stays I (g x)) \<Longrightarrow> stays I (chain (sense f) g)"
  by (rule triple_skip_sense)

lemma stays_read: "(\<And>x. stays I (g x)) \<Longrightarrow> stays I (chain (observe f) g)"
  by (rule triple_read) (auto intro: triple_pre)

lemma stays_chain: "stays I m \<Longrightarrow> (\<And>x. stays I (f x)) \<Longrightarrow> stays I (chain m f)"
  by (rule triple_chain)

lemma stays_simple: "stays I (ret x)" "stays I (throw e)" "stays I (sync e)" "stays I (from_result r)"
  by (auto intro: triple_ret triple_throw triple_sync triple_result)

lemma stays_atomic: "(\<And>d. I d \<Longrightarrow> I (snd (act d))) \<Longrightarrow> stays I (atomic e act)"
  by (rule triple_atomic) auto

lemma stays_effect:
  "(\<And>d. I d \<Longrightarrow> I (snd (act d))) \<Longrightarrow> (\<And>d n. I d \<Longrightarrow> I (part n d)) \<Longrightarrow> stays I (effect e act part)"
  by (rule triple_effect) auto

lemma stays_attempt: "stays I m \<Longrightarrow> stays I (attempt m)"
  by (rule triple_attempt)

lemmas run_intros = stays_read stays_chain stays_simple stays_atomic stays_effect stays_attempt

lemma tripleD:
  "triple P m Q E K \<Longrightarrow> P (wd_disk w) \<Longrightarrow> m w = (r, w1) \<Longrightarrow>
   (case r of Done x \<Rightarrow> Q x (wd_disk w1) | Failed e \<Rightarrow> E e (wd_disk w1) | Killed \<Rightarrow> K (wd_disk w1))"
  unfolding triple_def by (metis (no_types, lifting) case_prod_conv)

section \<open>Entries after a change\<close>

lemma in_dir_root:
  "dk_backup (snd (in_dir AtRoot f d)) = dk_backup d" "dk_others (snd (in_dir AtRoot f d)) = dk_others d"
  by (auto simp: in_dir_def split: option.splits)

lemma in_dir_backup: "dk_root (snd (in_dir AtBackup f d)) = dk_root d"
  by (auto simp: in_dir_def split: option.splits)

lemma entries_with [simp]: "is_listed n \<Longrightarrow> entries_of (with_entries n es) = es"
  by (cases n) auto

lemma in_dir_entry:
  "entry AtRoot name (snd (in_dir AtRoot f d)) =
     (case dk_root d of
        None \<Rightarrow> None
      | Some n \<Rightarrow> if is_listed n then map_of (snd (f (entries_of n))) name else map_of (entries_of n) name)"
  by (auto simp: in_dir_def entry_def split: option.splits)

lemma map_of_keys: "map_of es name = None \<longleftrightarrow> name \<notin> fst ` set es"
  by (simp add: map_of_eq_None_iff)

lemma kind_cases: "kind_of n = Missing \<longleftrightarrow> n = None"
  by (cases "(n)" rule: kind_of.cases) auto

lemma kind_directory: "kind_of n = Directory \<longleftrightarrow> (\<exists>es. n = Some (Dir es) \<or> n = Some (Mount es))"
  by (cases "(n)" rule: kind_of.cases) auto

lemma map_of_without [simp]: "a \<noteq> n \<Longrightarrow> map_of (without a es) n = map_of es n"
  by (induction es) (auto simp: without_def)

lemma map_of_replaced: "map_of (replaced name n es) name = (if name \<in> fst ` set es then Some n else None)"
  by (induction es) (auto simp: replaced_def)

lemma map_of_renamed:
  "b \<notin> fst ` set es \<Longrightarrow> map_of (map (\<lambda>e. if fst e = a then (b, snd e) else e) es) b = map_of es a"
  by (induction es) auto

lemma map_of_rename_over:
  assumes "fst (rename_over a b es)" "a \<noteq> b"
  shows "map_of (snd (rename_over a b es)) b = map_of es a"
proof -
  have "snd (rename_over a b es) = map (\<lambda>e. if fst e = a then (b, snd e) else e) (without b es)"
    using assms by (simp add: rename_over_def split: if_splits)
  moreover have "b \<notin> fst ` set (without b es)" by (auto simp: without_def)
  ultimately show ?thesis using assms(2) by (simp add: map_of_renamed)
qed

lemma rename_over_refused: "\<not> fst (rename_over a b es) \<Longrightarrow> snd (rename_over a b es) = es"
  unfolding rename_over_def by (auto split: if_splits)

lemma in_dir_accepted: "fst (in_dir AtRoot f d) \<longleftrightarrow> (\<exists>n. dk_root d = Some n \<and> is_listed n \<and> fst (f (entries_of n)))"
  by (auto simp: in_dir_def split: option.splits)

lemma root_entry: "entry AtRoot name d = Some x \<longleftrightarrow> (\<exists>n. dk_root d = Some n \<and> map_of (entries_of n) name = Some x)"
  by (auto simp: entry_def split: option.splits)

section \<open>Undisturbed programs\<close>

text \<open>No change fails, everything can be read and no process uses the prefix.\<close>

definition calm :: "world \<Rightarrow> bool" where
  "calm w \<longleftrightarrow> wd_fault w = (\<lambda>_. Proceed) \<and> wd_unreadable w = (\<lambda>_ _ _. False) \<and> wd_active w = (\<lambda>_. 0)"

definition runs :: "('e, 'a) run \<Rightarrow> disk \<Rightarrow> 'a \<Rightarrow> disk \<Rightarrow> bool" where
  "runs m d x d1 \<longleftrightarrow> (\<forall>w. calm w \<and> wd_disk w = d \<longrightarrow> (\<exists>w1. m w = (Done x, w1) \<and> wd_disk w1 = d1 \<and> calm w1))"

lemma runs_ret: "runs (ret x) d x d"
  by (simp add: runs_def ret_def)

lemma runs_chain: "runs m d x d1 \<Longrightarrow> runs (f x) d1 y d2 \<Longrightarrow> runs (chain m f) d y d2"
  unfolding runs_def chain_def by fastforce

lemma runs_read: "(\<And>w. calm w \<Longrightarrow> wd_disk w = d \<Longrightarrow> f w = x) \<Longrightarrow> runs (g x) d y d2 \<Longrightarrow> runs (chain (observe f) g) d y d2"
  unfolding runs_def chain_def observe_def by fastforce

lemma runs_sense: "(\<And>w. calm w \<Longrightarrow> wd_disk w = d \<Longrightarrow> f w = x) \<Longrightarrow> runs (g x) d y d2 \<Longrightarrow> runs (chain (sense f) g) d y d2"
  unfolding runs_def chain_def sense_def by (fastforce simp: calm_def)

lemma runs_effect: "act d = (True, d1) \<Longrightarrow> runs (effect e act part) d () d1"
  by (simp add: runs_def effect_def calm_def)

lemma runs_atomic: "act d = (True, d1) \<Longrightarrow> runs (atomic e act) d () d1"
  unfolding atomic_def by (rule runs_effect)

lemma in_root: "dk_root d = Some (Dir es) \<Longrightarrow> in_dir AtRoot f d = (fst (f es), d\<lparr>dk_root := Some (Dir (snd (f es)))\<rparr>)"
  by (simp add: in_dir_def)

lemma names_without: "fst ` set (without name es) = fst ` set es - {name}"
  by (auto simp: without_def intro: rev_image_eqI)

end
