(* ===== verification/PrefixManifest.thy ===== *)
theory PrefixManifest
  imports RunnerOutput ProcInfo OperationLock CrashDisk
begin

text \<open>
  Managed prefixes as \<open>src-tauri/src/utils/prefix.rs\<close> knows them: locations, the stored manifests of both schemas, the paths that
  carry a fingerprint, the structure of a prefix, and the commit of a manifest.  JSON and SHA-256 are arguments.
\<close>

section \<open>Names\<close>

definition LEGACY_PREFIX_MARKER :: string where "LEGACY_PREFIX_MARKER = ''.ro-launcher-configured''"
definition PREFIX_MARKER :: string where "PREFIX_MARKER = ''.ro-launcher-prefix.json''"
definition INSTALLATION_MARKER :: string where "INSTALLATION_MARKER = ''.ro-launcher-installation.json''"
definition PROVISIONING_MARKER :: string where "PROVISIONING_MARKER = ''.ro-launcher-provisioning''"
definition PROVISIONING_MARKER_TMP :: string where "PROVISIONING_MARKER_TMP = ''.ro-launcher-provisioning.tmp''"
definition COMMIT_PENDING_MARKER :: string where "COMMIT_PENDING_MARKER = ''.ro-launcher-commit-pending''"
definition PREFIX_SCHEMA_VERSION :: u32 where "PREFIX_SCHEMA_VERSION = 2"
definition PREFIX_SCHEMA_V3 :: u32 where "PREFIX_SCHEMA_V3 = 3"

section \<open>Locations and manifests\<close>

datatype prefix_scope = Shared | Isolated | Custom

record prefix_location =
  pl_path :: string
  pl_scope :: prefix_scope
  pl_managed :: bool
  pl_server_id :: "string option"

record prefix_manifest =
  pf_schema_version :: u32
  pf_scope :: prefix_scope
  pf_server_id :: "string option"
  pf_runner_kind :: string
  pf_runner_path :: string
  pf_components :: "string list"

record fingerprint_envelope =
  fe_schema_version :: u32
  fe_algorithm :: string
  fe_digest :: string

record prefix_manifest_v3 = prefix_manifest +
  pf_fingerprint :: fingerprint_envelope

datatype stored_manifest = V2 prefix_manifest | V3 prefix_manifest_v3

fun stored_schema_version :: "stored_manifest \<Rightarrow> u32" where
  "stored_schema_version (V2 m) = pf_schema_version m"
| "stored_schema_version (V3 m) = pf_schema_version m"

fun stored_scope :: "stored_manifest \<Rightarrow> prefix_scope" where
  "stored_scope (V2 m) = pf_scope m"
| "stored_scope (V3 m) = pf_scope m"

fun stored_server_id :: "stored_manifest \<Rightarrow> string option" where
  "stored_server_id (V2 m) = pf_server_id m"
| "stored_server_id (V3 m) = pf_server_id m"

fun stored_runner_kind :: "stored_manifest \<Rightarrow> string" where
  "stored_runner_kind (V2 m) = pf_runner_kind m"
| "stored_runner_kind (V3 m) = pf_runner_kind m"

fun stored_runner_path :: "stored_manifest \<Rightarrow> string" where
  "stored_runner_path (V2 m) = pf_runner_path m"
| "stored_runner_path (V3 m) = pf_runner_path m"

fun prefix_fingerprint_digest :: "stored_manifest \<Rightarrow> string option" where
  "prefix_fingerprint_digest (V2 m) = None"
| "prefix_fingerprint_digest (V3 m) = Some (fe_digest (pf_fingerprint m))"

definition manifest_matches_stored_location :: "stored_manifest \<Rightarrow> prefix_location \<Rightarrow> bool" where
  "manifest_matches_stored_location m loc \<longleftrightarrow>
     \<not> pl_managed loc \<or>
     stored_scope m = pl_scope loc \<and>
     (case pl_scope loc of
        Shared \<Rightarrow> stored_server_id m = None
      | Isolated \<Rightarrow> stored_server_id m = pl_server_id loc
      | Custom \<Rightarrow> True)"

text \<open>The marker of a transaction.  Decoders take the bytes of a file.\<close>

record provisioning_marker =
  mk_schema_version :: u32
  mk_scope :: prefix_scope
  mk_server_id :: "string option"
  mk_prefix_path :: string
  mk_prefix_fingerprint :: "string option"
  mk_created_at_ms :: u64

record codec =
  cd_schema :: "u8 list \<Rightarrow> u32 option"
  cd_v2 :: "u8 list \<Rightarrow> prefix_manifest option"
  cd_v3 :: "u8 list \<Rightarrow> prefix_manifest_v3 option"
  cd_marker :: "u8 list \<Rightarrow> provisioning_marker option"
  cd_marker_text :: "provisioning_marker \<Rightarrow> u8 list"

definition parse_stored_prefix_manifest :: "codec \<Rightarrow> u8 list \<Rightarrow> stored_manifest option" where
  "parse_stored_prefix_manifest cd json =
     (case cd_schema cd json of
        None \<Rightarrow> None
      | Some v \<Rightarrow>
          if v = PREFIX_SCHEMA_VERSION then map_option V2 (cd_v2 cd json)
          else if v = PREFIX_SCHEMA_V3 then map_option V3 (cd_v3 cd json)
          else None)"

section \<open>Paths that carry a fingerprint\<close>

record prefix_env =
  pe_app_data :: path
  pe_sha256 :: "u8 list \<Rightarrow> u8 list"

definition isolated_prefix_root :: "prefix_env \<Rightarrow> path" where
  "isolated_prefix_root pe = pe_app_data pe @ [Normal ''prefixes'']"

definition be32 :: "nat \<Rightarrow> u8 list" where
  "be32 n = map (\<lambda>i. of_nat (n div 256 ^ i mod 256)) [3, 2, 1, 0]"

definition server_path_token16 :: "prefix_env \<Rightarrow> string \<Rightarrow> string" where
  "server_path_token16 pe server_id =
     (let bytes = ascii_bytes server_id
      in concat (map byte_hex (take 8 (pe_sha256 pe
           (ascii_bytes ''ro-launcher/server-path/v1'' @ [0] @ be32 (length bytes mod 2 ^ 32) @ bytes)))))"

text \<open>Digests are ASCII, so that bytes are characters.\<close>

definition v3_path_digest_prefix24 :: "string \<Rightarrow> string" where
  "v3_path_digest_prefix24 digest = take 24 digest"

definition isolated_prefix_path_v3 :: "prefix_env \<Rightarrow> string \<Rightarrow> string \<Rightarrow> path" where
  "isolated_prefix_path_v3 pe server_id digest =
     isolated_prefix_root pe @ [Normal (server_path_token16 pe server_id @ ''-v3-'' @ v3_path_digest_prefix24 digest)]"

definition file_name :: "path \<Rightarrow> string option" where
  "file_name p = (if p = [] then None else case last p of Normal name \<Rightarrow> Some name | _ \<Rightarrow> None)"

definition is_hex_digit :: "char \<Rightarrow> bool" where
  "is_hex_digit c \<longleftrightarrow> of_char c \<in> {48..57 :: nat} \<union> {65..70} \<union> {97..102}"

definition is_v3_managed_prefix_path :: "prefix_env \<Rightarrow> path \<Rightarrow> string \<Rightarrow> bool" where
  "is_v3_managed_prefix_path pe p server_id \<longleftrightarrow>
     parent_dir p = Some (isolated_prefix_root pe) \<and>
     (case file_name p of
        None \<Rightarrow> False
      | Some name \<Rightarrow>
          (case strip_prefix (server_path_token16 pe server_id @ ''-v3-'') name of
             None \<Rightarrow> False
           | Some digits \<Rightarrow> length digits = 24 \<and> list_all is_hex_digit digits))"

section \<open>The structure of a prefix\<close>

text \<open>\<open>exists_below n r\<close>: what \<open>Path::exists\<close> answers for the relative path \<open>r\<close>, following links.\<close>

definition STRUCTURE :: "string list" where
  "STRUCTURE = [''drive_c/windows'', ''system.reg'', ''user.reg'', ''dosdevices/c:'']"

definition structure_ok :: "(node \<Rightarrow> string \<Rightarrow> bool) \<Rightarrow> node \<Rightarrow> bool" where
  "structure_ok exists_below n \<longleftrightarrow> list_all (exists_below n) STRUCTURE"

section \<open>Committing a manifest\<close>

datatype commit_error = BeforeRename | AfterRename

text \<open>\<open>commit_prefix_manifest\<close> for the root; \<open>temporary\<close> is the name with the process id and the time.  The removal of the
  temporary after a failure is attempted and its result ignored.\<close>

definition discard_temporary :: "string \<Rightarrow> (commit_error, unit) run" where
  "discard_temporary temporary =
     chain (attempt (atomic () (in_dir AtRoot (unlink_in temporary)))) (\<lambda>_. throw BeforeRename)"

definition or_discard :: "string \<Rightarrow> (commit_error, unit) run \<Rightarrow> (commit_error, unit) run" where
  "or_discard temporary m =
     chain (attempt m) (\<lambda>r. case r of Inr _ \<Rightarrow> ret () | Inl _ \<Rightarrow> discard_temporary temporary)"

definition commit_prefix_manifest :: "string \<Rightarrow> u8 list \<Rightarrow> (commit_error, unit) run" where
  "commit_prefix_manifest temporary json =
     chain (atomic BeforeRename (ensure_dir AtRoot)) (\<lambda>_.
     chain (observe (\<lambda>w. entry AtRoot PROVISIONING_MARKER (wd_disk w) \<noteq> None \<and>
                         \<not> wd_unreadable w (wd_clock w) AtRoot PROVISIONING_MARKER)) (\<lambda>held.
     if held then throw BeforeRename
     else chain (observe (\<lambda>w. case entry AtRoot PREFIX_MARKER (wd_disk w) of Some (Symlink _) \<Rightarrow> True | _ \<Rightarrow> False)) (\<lambda>link.
     if link then throw BeforeRename
     else
       chain (atomic BeforeRename (in_dir AtRoot (create_in temporary))) (\<lambda>_.
       chain (or_discard temporary
               (chain (effect BeforeRename (in_dir AtRoot (write_in temporary json)) (partly_written AtRoot temporary json)) (\<lambda>_.
                sync BeforeRename))) (\<lambda>_.
       chain (or_discard temporary (atomic BeforeRename (in_dir AtRoot (rename_over temporary PREFIX_MARKER)))) (\<lambda>_.
       sync AfterRename))))))"

end
