(* ===== verification/PrefixRecovery.thy ===== *)
theory PrefixRecovery
  imports PrefixManifest "HOL-Library.Char_ord" "HOL-Library.List_Lexorder"
begin

text \<open>
  Recovery of interrupted prefix transactions (\<open>src-tauri/src/tools/prefix/recovery.rs\<close>): the classification of the root and of
  its backup by the evidence they hold, the table that chooses what to do, its execution, and the transaction that leaves the
  evidence.  Error and refusal texts are constructors.
\<close>

section \<open>Evidence\<close>

definition BACKUP_REMOVING_MANIFEST :: string where "BACKUP_REMOVING_MANIFEST = ''.ro-launcher-removing-manifest''"
definition BACKUP_REMOVING_LEGACY :: string where "BACKUP_REMOVING_LEGACY = ''.ro-launcher-removing-legacy''"
definition RESET_BACKUP_SUFFIX :: string where "RESET_BACKUP_SUFFIX = ''reset-backup''"
definition MARKER_SCHEMA :: u32 where "MARKER_SCHEMA = 2"
definition MAX_MARKER_BYTES :: nat where "MAX_MARKER_BYTES = 16384"
definition MAX_MANIFEST_BYTES :: nat where "MAX_MANIFEST_BYTES = 1048576"

definition ROOT_EVIDENCE :: "string list" where
  "ROOT_EVIDENCE = [PROVISIONING_MARKER, PROVISIONING_MARKER_TMP, COMMIT_PENDING_MARKER]"

datatype reason =
    Unreadable place | CannotOpen | NotRegularFile | TooLarge | Damaged
  | NotRealDirectory | MarkersCombined | MarkerNotRegular | StaleContradicts reason | ManifestNotRegular
  | ProtectedInstallation | LegacyAndProvisioning | TemporaryAmongData | LegacyNotV3 | NoLauncherEvidence
  | OtherFileSystem | TwoTombstones | TombstoneNotRegular | LegacyIncomplete | LegacyNotRegular
  | ManifestElsewhere | ManifestNotV3 | DigestNotPath | DigestNotAnchor | MarkerElsewhere | MarkerKind

datatype root_state =
    RootAbsent | RootEmpty | PendingMarker | Provisioning | CommitPending | Committed bool | LegacyValid
  | RootForeign reason

datatype backup_state = BackupAbsent | BackupEmpty | Restorable | Removing | BackupForeign reason

datatype recovery_action =
    NoAction | RestoreBackup | DiscardPartialAndRestore | DiscardPartial
  | CompleteCommit bool bool | RestoreLegacyBackup string

datatype refusal =
    EmptyBackupKept | BackupNotVerifiable reason | MaybeCommitted | RemovingWithoutCommit | LegacyWithBackup
  | RootNotVerifiable reason | UnresolvedEvidence root_state | TombstoneLost | UnexpectedBackup backup_state
  | BackupProtected | BackupPresent

text \<open>\<open>failure\<close>: the error of an operation; the last constructors are errors of a transaction together with what its
  reconciliation did.\<close>

datatype failure =
    Io string | Inspection reason | Ambiguity refusal | InUse nat | NotConfirmed root_state | HasInstallation
  | HasData root_state | WrongIdentity | Unexpected root_state
  | WorkFailed string | CleanupPending failure string | Together failure failure | Reconciled failure recovery_action

record recovery_outcome =
  ro_action :: recovery_action
  ro_removed_empty_backup :: bool
  ro_notes :: "string list"

definition root_replaced :: "recovery_outcome \<Rightarrow> bool" where
  "root_replaced res =
     (case ro_action res of
        RestoreBackup \<Rightarrow> True | DiscardPartialAndRestore \<Rightarrow> True | DiscardPartial \<Rightarrow> True
      | RestoreLegacyBackup _ \<Rightarrow> True | _ \<Rightarrow> False)"

text \<open>The managed prefix and what it is checked against.  \<open>mp_name\<close> is the file name of the root.\<close>

record managed_prefix =
  mp_location :: prefix_location
  mp_env :: prefix_env
  mp_codec :: codec
  mp_exists :: "node \<Rightarrow> string \<Rightarrow> bool"
  mp_name :: string
  mp_expected :: "string option"

record v3_identity =
  vi_suffix :: string
  vi_anchor :: "string option"

definition is_full_digest :: "string \<Rightarrow> bool" where
  "is_full_digest digest \<longleftrightarrow>
     length digest = 64 \<and> list_all (\<lambda>c. of_char c \<in> {48..57 :: nat} \<union> {97..102}) digest"

definition check_identity :: "v3_identity \<Rightarrow> string \<Rightarrow> (reason, unit) result" where
  "check_identity vi digest =
     (if \<not> is_full_digest digest \<or> v3_path_digest_prefix24 digest \<noteq> vi_suffix vi then Inl DigestNotPath
      else (case vi_anchor vi of
              Some anchor \<Rightarrow> if anchor \<noteq> digest then Inl DigestNotAnchor else Inr ()
            | None \<Rightarrow> Inr ()))"

definition rsplit_once :: "string \<Rightarrow> string \<Rightarrow> (string \<times> string) option" where
  "rsplit_once pat s =
     (case filter (\<lambda>i. prefix pat (drop i s)) (rev [0 ..< Suc (length s)]) of
        [] \<Rightarrow> None | i # _ \<Rightarrow> Some (take i s, drop (i + length pat) s))"

definition v3_path_suffix :: "prefix_env \<Rightarrow> prefix_location \<Rightarrow> string option" where
  "v3_path_suffix pe loc =
     (case pl_server_id loc of
        None \<Rightarrow> None
      | Some server_id \<Rightarrow>
          if pl_scope loc \<noteq> Isolated \<or> \<not> is_v3_managed_prefix_path pe (path_of (pl_path loc)) server_id then None
          else Option.bind (file_name (path_of (pl_path loc))) (\<lambda>name. map_option snd (rsplit_once ''-v3-'' name)))"

definition expected_identity :: "prefix_env \<Rightarrow> prefix_location \<Rightarrow> string option \<Rightarrow> string option" where
  "expected_identity pe loc desired =
     Option.bind (v3_path_suffix pe loc) (\<lambda>s.
       Option.bind desired (\<lambda>d. if is_full_digest d \<and> v3_path_digest_prefix24 d = s then Some d else None))"

section \<open>Reading\<close>

definition lstat :: "world \<Rightarrow> place \<Rightarrow> string \<Rightarrow> (reason, entry_kind) result" where
  "lstat w p name =
     (if wd_unreadable w (wd_clock w) p name then Inl (Unreadable p)
      else Inr (kind_of (if name = [] then look p (wd_disk w) else entry p name (wd_disk w))))"

definition entry_names :: "world \<Rightarrow> place \<Rightarrow> (reason, string list) result" where
  "entry_names w p =
     (if wd_unreadable w (wd_clock w) p ''.'' then Inl (Unreadable p)
      else Inr (case look p (wd_disk w) of None \<Rightarrow> [] | Some n \<Rightarrow> map fst (entries_of n)))"

definition read_bounded :: "world \<Rightarrow> place \<Rightarrow> string \<Rightarrow> nat \<Rightarrow> (reason, u8 list) result" where
  "read_bounded w p name limit =
     (if wd_unreadable w (wd_clock w) p name then Inl CannotOpen
      else (case entry p name (wd_disk w) of
              None \<Rightarrow> Inl CannotOpen
            | Some (File bytes) \<Rightarrow>
                if limit < length bytes then Inl TooLarge else if \<not> utf8_valid bytes then Inl Damaged else Inr bytes
            | Some (Symlink _) \<Rightarrow> Inl CannotOpen
            | Some _ \<Rightarrow> Inl NotRegularFile))"

definition decoded :: "(u8 list \<Rightarrow> 'a option) \<Rightarrow> u8 list \<Rightarrow> (reason, 'a) result" where
  "decoded f bytes = (case f bytes of None \<Rightarrow> Inl Damaged | Some x \<Rightarrow> Inr x)"

definition read_marker :: "managed_prefix \<Rightarrow> world \<Rightarrow> string \<Rightarrow> (reason, provisioning_marker) result" where
  "read_marker mp w name =
     and_then (read_bounded w AtRoot name MAX_MARKER_BYTES) (decoded (cd_marker (mp_codec mp)))"

definition read_manifest :: "managed_prefix \<Rightarrow> world \<Rightarrow> place \<Rightarrow> string \<Rightarrow> (reason, stored_manifest) result" where
  "read_manifest mp w p name =
     and_then (read_bounded w p name MAX_MANIFEST_BYTES) (decoded (parse_stored_prefix_manifest (mp_codec mp)))"

definition is_protected :: "world \<Rightarrow> place \<Rightarrow> (reason, bool) result" where
  "is_protected w p =
     and_then (lstat w p INSTALLATION_MARKER) (\<lambda>k.
       if k \<noteq> Missing then Inr True
       else and_then (lstat w p (INSTALLATION_MARKER @ ''.bak'')) (\<lambda>k. Inr (k \<noteq> Missing)))"

text \<open>The first claim of a full identity: the caller's, that of a marker in the root, that of the root's manifest.\<close>

definition identity :: "managed_prefix \<Rightarrow> world \<Rightarrow> v3_identity option" where
  "identity mp w =
     (case v3_path_suffix (mp_env mp) (mp_location mp) of
        None \<Rightarrow> None
      | Some suff \<Rightarrow>
          let shape_ok = (\<lambda>d. if is_full_digest d \<and> v3_path_digest_prefix24 d = suff then Some d else None);
              markers = List.map_filter (\<lambda>name. Option.bind (ok_option (read_marker mp w name)) mk_prefix_fingerprint)
                          [PROVISIONING_MARKER, COMMIT_PENDING_MARKER];
              from_marker = (case markers of [] \<Rightarrow> None | d # _ \<Rightarrow> shape_ok d);
              from_manifest = Option.bind (Option.bind (ok_option (read_manifest mp w AtRoot PREFIX_MARKER))
                                prefix_fingerprint_digest) shape_ok
          in Some \<lparr>vi_suffix = suff,
               vi_anchor = (case mp_expected mp of Some d \<Rightarrow> Some d | None \<Rightarrow>
                             (case from_marker of Some d \<Rightarrow> Some d | None \<Rightarrow> from_manifest))\<rparr>)"

section \<open>Classification\<close>

definition committed_manifest ::
  "managed_prefix \<Rightarrow> v3_identity option \<Rightarrow> stored_manifest \<Rightarrow> (reason, unit) result" where
  "committed_manifest mp vi m =
     (if \<not> manifest_matches_stored_location m (mp_location mp) then Inl ManifestElsewhere
      else (case vi of
              None \<Rightarrow> Inr ()
            | Some i \<Rightarrow> (case prefix_fingerprint_digest m of None \<Rightarrow> Inl ManifestNotV3 | Some d \<Rightarrow> check_identity i d)))"

definition validate_marker ::
  "managed_prefix \<Rightarrow> v3_identity option \<Rightarrow> provisioning_marker \<Rightarrow> (reason, unit) result" where
  "validate_marker mp vi m =
     (let loc = mp_location mp
      in if mk_schema_version m \<noteq> MARKER_SCHEMA \<or> mk_scope m \<noteq> pl_scope loc \<or> mk_server_id m \<noteq> pl_server_id loc \<or>
            path_of (mk_prefix_path m) \<noteq> path_of (pl_path loc) then Inl MarkerElsewhere
         else (case (vi, mk_prefix_fingerprint m) of
                 (None, None) \<Rightarrow> Inr ()
               | (Some i, Some d) \<Rightarrow> check_identity i d
               | _ \<Rightarrow> Inl MarkerKind))"

definition marker_size :: "world \<Rightarrow> nat" where
  "marker_size w = (case entry AtRoot PROVISIONING_MARKER_TMP (wd_disk w) of Some (File bytes) \<Rightarrow> length bytes | _ \<Rightarrow> 0)"

text \<open>The transaction marker of the root, with whether it authorizes a rollback.\<close>

definition single_marker :: "entry_kind \<Rightarrow> entry_kind \<Rightarrow> (string \<times> bool) option option" where
  "single_marker provisioning commit_pending =
     (if provisioning = Missing \<and> commit_pending = Missing then Some None
      else if provisioning = Regular then Some (Some (PROVISIONING_MARKER, True))
      else if commit_pending = Regular then Some (Some (COMMIT_PENDING_MARKER, False))
      else None)"

definition validated_marker :: "managed_prefix \<Rightarrow> v3_identity option \<Rightarrow> world \<Rightarrow> string \<Rightarrow> (reason, unit) result" where
  "validated_marker mp vi w name = and_then (read_marker mp w name) (validate_marker mp vi)"

definition classify_manifest ::
  "managed_prefix \<Rightarrow> v3_identity option \<Rightarrow> world \<Rightarrow> (string \<times> bool) option \<Rightarrow> entry_kind \<Rightarrow> root_state" where
  "classify_manifest mp vi w marker pending_tmp =
     (case and_then (read_manifest mp w AtRoot PREFIX_MARKER) (committed_manifest mp vi) of
        Inl r \<Rightarrow> RootForeign r
      | Inr _ \<Rightarrow>
          (case marker of
             None \<Rightarrow> Committed (pending_tmp \<noteq> Missing)
           | Some (name, _) \<Rightarrow>
               (case validated_marker mp vi w name of
                  Inl r \<Rightarrow> RootForeign (StaleContradicts r) | Inr _ \<Rightarrow> Committed True)))"

definition classify_legacy :: "managed_prefix \<Rightarrow> v3_identity option \<Rightarrow> world \<Rightarrow> (reason, root_state) result" where
  "classify_legacy mp vi w =
     and_then (lstat w AtRoot LEGACY_PREFIX_MARKER) (\<lambda>k.
       Inr (if k = Regular \<and> (case look AtRoot (wd_disk w) of None \<Rightarrow> False | Some n \<Rightarrow> structure_ok (mp_exists mp) n)
            then (if vi \<noteq> None then RootForeign LegacyNotV3 else LegacyValid)
            else RootForeign NoLauncherEvidence))"

definition classify_marker ::
  "managed_prefix \<Rightarrow> v3_identity option \<Rightarrow> world \<Rightarrow> (string \<times> bool) option \<Rightarrow> entry_kind \<Rightarrow> (reason, root_state) result" where
  "classify_marker mp vi w marker pending_tmp =
     (case marker of
        Some (name, rollback_authority) \<Rightarrow>
          (case validated_marker mp vi w name of
             Inl r \<Rightarrow> Inr (RootForeign r)
           | Inr _ \<Rightarrow>
               if \<not> rollback_authority then Inr CommitPending
               else
                 and_then (is_protected w AtRoot) (\<lambda>b.
                   if b then Inr (RootForeign ProtectedInstallation)
                   else and_then (lstat w AtRoot LEGACY_PREFIX_MARKER) (\<lambda>k.
                     Inr (if k \<noteq> Missing then RootForeign LegacyAndProvisioning else Provisioning))))
      | None \<Rightarrow>
          if pending_tmp \<noteq> Missing then Inr (RootForeign TemporaryAmongData) else classify_legacy mp vi w)"

text \<open>\<open>classify_root\<close> in three parts: the place itself, the names in it, the evidence among them.\<close>

definition classify_evidence ::
  "managed_prefix \<Rightarrow> v3_identity option \<Rightarrow> world \<Rightarrow> entry_kind \<Rightarrow> (reason, root_state) result" where
  "classify_evidence mp vi w pending_tmp =
     and_then (lstat w AtRoot PROVISIONING_MARKER) (\<lambda>provisioning.
     and_then (lstat w AtRoot COMMIT_PENDING_MARKER) (\<lambda>commit_pending.
     if provisioning \<noteq> Missing \<and> commit_pending \<noteq> Missing then Inr (RootForeign MarkersCombined)
     else
       (case single_marker provisioning commit_pending of
          None \<Rightarrow> Inr (RootForeign MarkerNotRegular)
        | Some marker \<Rightarrow>
            and_then (lstat w AtRoot PREFIX_MARKER) (\<lambda>k.
              if k = Regular then Inr (classify_manifest mp vi w marker pending_tmp)
              else if k \<noteq> Missing then Inr (RootForeign ManifestNotRegular)
              else classify_marker mp vi w marker pending_tmp))))"

definition classify_listed ::
  "managed_prefix \<Rightarrow> v3_identity option \<Rightarrow> world \<Rightarrow> string list \<Rightarrow> (reason, root_state) result" where
  "classify_listed mp vi w names =
     (if names = [] then Inr RootEmpty
      else
        and_then (lstat w AtRoot PROVISIONING_MARKER_TMP) (\<lambda>pending_tmp.
        if names = [PROVISIONING_MARKER_TMP] \<and> pending_tmp = Regular \<and> marker_size w \<le> MAX_MARKER_BYTES
        then Inr PendingMarker
        else classify_evidence mp vi w pending_tmp))"

definition classify_root :: "managed_prefix \<Rightarrow> v3_identity option \<Rightarrow> world \<Rightarrow> (reason, root_state) result" where
  "classify_root mp vi w =
     and_then (lstat w AtRoot []) (\<lambda>k.
       if k = Missing then Inr RootAbsent
       else if k \<noteq> Directory then Inr (RootForeign NotRealDirectory)
       else and_then (entry_names w AtRoot) (classify_listed mp vi w))"

text \<open>Two tombstones are an error; so is a name that cannot be looked at.\<close>

definition backup_tombstone :: "world \<Rightarrow> place \<Rightarrow> (reason, string option) result" where
  "backup_tombstone w p =
     and_then (lstat w p BACKUP_REMOVING_MANIFEST) (\<lambda>manifest.
     and_then (lstat w p BACKUP_REMOVING_LEGACY) (\<lambda>legacy.
       if manifest = Missing \<and> legacy = Missing then Inr None
       else if legacy = Missing then Inr (Some BACKUP_REMOVING_MANIFEST)
       else if manifest = Missing then Inr (Some BACKUP_REMOVING_LEGACY)
       else Inl TwoTombstones))"

definition judged :: "(reason, unit) result \<Rightarrow> backup_state \<Rightarrow> backup_state" where
  "judged r state = (case r of Inl e \<Rightarrow> BackupForeign e | Inr _ \<Rightarrow> state)"

definition classify_removing ::
  "managed_prefix \<Rightarrow> v3_identity option \<Rightarrow> world \<Rightarrow> place \<Rightarrow> string \<Rightarrow> (reason, backup_state) result" where
  "classify_removing mp vi w p name =
     and_then (lstat w p name) (\<lambda>k.
       Inr (if k \<noteq> Regular then BackupForeign TombstoneNotRegular
            else if name = BACKUP_REMOVING_MANIFEST then
              judged (and_then (read_manifest mp w p name) (committed_manifest mp vi)) Removing
            else if vi \<noteq> None then BackupForeign LegacyNotV3
            else Removing))"

definition classify_owned ::
  "managed_prefix \<Rightarrow> v3_identity option \<Rightarrow> world \<Rightarrow> place \<Rightarrow> (reason, backup_state) result" where
  "classify_owned mp vi w p =
     and_then (lstat w p PREFIX_MARKER) (\<lambda>k.
       if k = Regular then
         Inr (judged (and_then (read_manifest mp w p PREFIX_MARKER) (committed_manifest mp vi)) Restorable)
       else if k \<noteq> Missing then Inr (BackupForeign ManifestNotRegular)
       else
         and_then (lstat w p LEGACY_PREFIX_MARKER) (\<lambda>k.
           Inr (case k of
                  Regular \<Rightarrow>
                    if (case look p (wd_disk w) of None \<Rightarrow> False | Some n \<Rightarrow> structure_ok (mp_exists mp) n)
                    then (if vi \<noteq> None then BackupForeign LegacyNotV3 else Restorable)
                    else BackupForeign LegacyIncomplete
                | Missing \<Rightarrow> BackupForeign NoLauncherEvidence
                | _ \<Rightarrow> BackupForeign LegacyNotRegular)))"

definition classify_contents ::
  "managed_prefix \<Rightarrow> v3_identity option \<Rightarrow> world \<Rightarrow> place \<Rightarrow> (reason, backup_state) result" where
  "classify_contents mp vi w p =
     (case backup_tombstone w p of
        Inl e \<Rightarrow> if e = TwoTombstones then Inr (BackupForeign e) else Inl e
      | Inr (Some name) \<Rightarrow> classify_removing mp vi w p name
      | Inr None \<Rightarrow> classify_owned mp vi w p)"

definition is_mount :: "node option \<Rightarrow> bool" where
  "is_mount n = (case n of Some (Mount _) \<Rightarrow> True | _ \<Rightarrow> False)"

definition classify_backup ::
  "managed_prefix \<Rightarrow> v3_identity option \<Rightarrow> world \<Rightarrow> place \<Rightarrow> (reason, backup_state) result" where
  "classify_backup mp vi w p =
     and_then (lstat w p []) (\<lambda>k.
       if k = Missing then Inr BackupAbsent
       else if k \<noteq> Directory then Inr (BackupForeign NotRealDirectory)
       else if is_mount (look p (wd_disk w)) then Inr (BackupForeign OtherFileSystem)
       else
         and_then (entry_names w p) (\<lambda>names.
         if names = [] then Inr BackupEmpty
         else
           and_then (is_protected w p) (\<lambda>b.
           if b then Inr (BackupForeign ProtectedInstallation) else classify_contents mp vi w p)))"

section \<open>The recovery table\<close>

definition plan :: "root_state \<Rightarrow> backup_state \<Rightarrow> string list \<Rightarrow> (refusal, recovery_action) result" where
  "plan root backup legacy_restorable =
     (case backup of
        BackupEmpty \<Rightarrow> Inl EmptyBackupKept
      | BackupForeign r \<Rightarrow> Inl (BackupNotVerifiable r)
      | _ \<Rightarrow>
          (case root of
             CommitPending \<Rightarrow> Inl MaybeCommitted
           | Committed stale_marker \<Rightarrow>
               if backup = BackupAbsent then Inr (if stale_marker then CompleteCommit True False else NoAction)
               else Inr (CompleteCommit stale_marker True)
           | LegacyValid \<Rightarrow> if backup = BackupAbsent then Inr NoAction else Inl LegacyWithBackup
           | RootForeign r \<Rightarrow> if backup = BackupAbsent then Inr NoAction else Inl (RootNotVerifiable r)
           | Provisioning \<Rightarrow>
               if backup = BackupAbsent then Inr DiscardPartial
               else if backup = Restorable then Inr DiscardPartialAndRestore else Inl RemovingWithoutCommit
           | PendingMarker \<Rightarrow>
               if backup = BackupAbsent then Inr DiscardPartial
               else if backup = Restorable then Inr RestoreBackup else Inl RemovingWithoutCommit
           | _ \<Rightarrow>
               if backup = BackupAbsent then
                 Inr (case legacy_restorable of [only] \<Rightarrow> RestoreLegacyBackup only | _ \<Rightarrow> NoAction)
               else if backup = Restorable then Inr RestoreBackup else Inl RemovingWithoutCommit))"

section \<open>Recovery\<close>

text \<open>\<open>.<name>.reset-backup-<pid>-<millis>\<close>\<close>

definition digits :: "string \<Rightarrow> bool" where
  "digits s \<longleftrightarrow> s \<noteq> [] \<and> list_all (\<lambda>c. of_char c \<in> {48..57 :: nat}) s"

definition is_legacy_backup_name :: "string \<Rightarrow> string \<Rightarrow> bool" where
  "is_legacy_backup_name name file =
     (case Option.bind (strip_prefix (''.'' @ name @ ''.'' @ RESET_BACKUP_SUFFIX @ ''-'') file) (split_once (CHR ''-'')) of
        None \<Rightarrow> False | Some (pid, millis) \<Rightarrow> digits pid \<and> digits millis)"

definition legacy_reset_backups :: "managed_prefix \<Rightarrow> world \<Rightarrow> string list" where
  "legacy_reset_backups mp w =
     (if wd_unreadable w (wd_clock w) (AtOther []) ''.'' then []
      else sort (filter (is_legacy_backup_name (mp_name mp)) (map fst (dk_others (wd_disk w)))))"

definition root_holds_transaction_evidence :: "world \<Rightarrow> bool" where
  "root_holds_transaction_evidence w =
     list_ex (\<lambda>name. \<not> wd_unreadable w (wd_clock w) AtRoot name \<and> entry AtRoot name (wd_disk w) \<noteq> None) ROOT_EVIDENCE"

text \<open>The first half of \<open>recover\<close>, which only reads: the action with the states and whether the empty backup goes.\<close>

definition decide ::
  "managed_prefix \<Rightarrow> world \<Rightarrow> (failure, recovery_outcome \<times> root_state \<times> backup_state) result" where
  "decide mp w =
     (let vi = identity mp w
      in case classify_root mp vi w of
           Inl e \<Rightarrow> Inl (Inspection e)
         | Inr root \<Rightarrow>
        case classify_backup mp vi w AtBackup of
           Inl e \<Rightarrow> Inl (Inspection e)
         | Inr found \<Rightarrow>
        let removed_empty = (found = BackupEmpty);
            backup = (if removed_empty then BackupAbsent else found);
            legacy = legacy_reset_backups mp w;
            restorable = (if (root = RootAbsent \<or> root = RootEmpty) \<and> backup = BackupAbsent
                          then filter (\<lambda>s. classify_backup mp vi w (AtOther s) = Inr Restorable) legacy else [])
        in case plan root backup restorable of
             Inl r \<Rightarrow> Inl (Ambiguity r)
           | Inr action \<Rightarrow>
               if action = NoAction \<and> root_holds_transaction_evidence w then Inl (Ambiguity (UnresolvedEvidence root))
               else Inr (\<lparr>ro_action = action, ro_removed_empty_backup = removed_empty,
                          ro_notes = filter (\<lambda>s. action \<noteq> RestoreLegacyBackup s) legacy\<rparr>, root, backup))"

definition ensure_quiet :: "(failure, unit) run" where
  "ensure_quiet =
     chain (observe (\<lambda>w. wd_active w (wd_clock w))) (\<lambda>active. if active = 0 then ret () else throw (InUse active))"

definition sync_parent :: "(failure, unit) run" where "sync_parent = sync (Io ''sync parent'')"

definition clear_non_data_root :: "root_state \<Rightarrow> (failure, unit) run" where
  "clear_non_data_root root =
     (case root of
        RootAbsent \<Rightarrow> ret ()
      | RootEmpty \<Rightarrow> chain (atomic (Io ''remove empty root'') (remove_dir AtRoot)) (\<lambda>_. sync_parent)
      | PendingMarker \<Rightarrow>
          chain (atomic (Io ''remove temporary marker'') (in_dir AtRoot (unlink_if_present_in PROVISIONING_MARKER_TMP))) (\<lambda>_.
          chain (atomic (Io ''remove incomplete root'') (remove_dir AtRoot)) (\<lambda>_. sync_parent))
      | _ \<Rightarrow> throw (Unexpected root))"

text \<open>\<open>delete_tree_last\<close>: the loop over the names that were listed, then the entry that authorizes the deletion, then the directory.\<close>

fun delete_entries :: "'e \<Rightarrow> place \<Rightarrow> string \<Rightarrow> string list \<Rightarrow> ('e, unit) run" where
  "delete_entries e p kept [] = ret ()"
| "delete_entries e p kept (name # names) =
     (if name = kept then delete_entries e p kept names
      else
        chain (observe (\<lambda>w. kind_of (entry p name (wd_disk w)))) (\<lambda>k.
        chain (if k = Directory then effect e (in_dir p (remove_tree_in name)) (partly_removed p name)
               else atomic e (in_dir p (unlink_in name))) (\<lambda>_.
        delete_entries e p kept names)))"

definition delete_tree_last :: "'e \<Rightarrow> place \<Rightarrow> string \<Rightarrow> ('e, unit) run" where
  "delete_tree_last e p kept =
     chain (observe (\<lambda>w. ok_option (entry_names w p))) (\<lambda>names.
     case names of
       None \<Rightarrow> throw e
     | Some names \<Rightarrow>
         chain (delete_entries e p kept names) (\<lambda>_.
         chain (sync e) (\<lambda>_.
         chain (atomic e (in_dir p (unlink_if_present_in kept))) (\<lambda>_.
         chain (sync e) (\<lambda>_.
         atomic e (remove_dir p))))))"

definition discard_partial_root :: "(failure, unit) run" where
  "discard_partial_root =
     chain (delete_tree_last (Io ''remove incomplete root'') AtRoot PROVISIONING_MARKER) (\<lambda>_. sync_parent)"

definition restore_from :: "place \<Rightarrow> (failure, unit) run" where
  "restore_from source =
     chain (atomic (Io ''restore previous prefix'') (move_entry source AtRoot)) (\<lambda>_. sync_parent)"

definition invalidate_restoration_authority :: "(failure, string) run" where
  "invalidate_restoration_authority =
     (let e = Io ''invalidate backup''
      in chain (observe (\<lambda>w. is_protected w AtBackup)) (\<lambda>r.
         case r of
           Inl _ \<Rightarrow> throw e
         | Inr True \<Rightarrow> throw (Ambiguity BackupProtected)
         | Inr False \<Rightarrow>
             chain (observe (\<lambda>w. lstat w AtBackup PREFIX_MARKER)) (\<lambda>k.
             case k of
               Inl _ \<Rightarrow> throw e
             | Inr k \<Rightarrow>
                 let names = (if k = Regular then (PREFIX_MARKER, BACKUP_REMOVING_MANIFEST)
                              else (LEGACY_PREFIX_MARKER, BACKUP_REMOVING_LEGACY))
                 in chain (atomic e (in_dir AtBackup (rename_in (fst names) (snd names)))) (\<lambda>_.
                    chain (sync e) (\<lambda>_. ret (snd names))))))"

definition remove_backup :: "backup_state \<Rightarrow> (failure, unit) run" where
  "remove_backup state =
     (let e = Io ''remove backup''
      in chain (case state of
                  Restorable \<Rightarrow> invalidate_restoration_authority
                | Removing \<Rightarrow>
                    chain (observe (\<lambda>w. backup_tombstone w AtBackup)) (\<lambda>r.
                    case r of
                      Inl _ \<Rightarrow> throw e | Inr None \<Rightarrow> throw (Ambiguity TombstoneLost) | Inr (Some name) \<Rightarrow> ret name)
                | _ \<Rightarrow> throw (Ambiguity (UnexpectedBackup state))) (\<lambda>tombstone.
         chain (delete_tree_last e AtBackup tombstone) (\<lambda>_. sync_parent)))"

fun drop_markers :: "string list \<Rightarrow> (failure, unit) run" where
  "drop_markers [] = ret ()"
| "drop_markers (name # names) =
     chain (atomic (Io ''remove marker'') (in_dir AtRoot (unlink_if_present_in name))) (\<lambda>_. drop_markers names)"

definition execute_action :: "recovery_action \<Rightarrow> root_state \<Rightarrow> backup_state \<Rightarrow> (failure, unit) run" where
  "execute_action action root backup =
     (case action of
        NoAction \<Rightarrow> ret ()
      | RestoreBackup \<Rightarrow> chain (clear_non_data_root root) (\<lambda>_. restore_from AtBackup)
      | DiscardPartialAndRestore \<Rightarrow> chain discard_partial_root (\<lambda>_. restore_from AtBackup)
      | DiscardPartial \<Rightarrow> if root = PendingMarker then clear_non_data_root root else discard_partial_root
      | CompleteCommit stale_marker with_backup \<Rightarrow>
          chain (if stale_marker
                 then chain (drop_markers [PROVISIONING_MARKER, COMMIT_PENDING_MARKER, PROVISIONING_MARKER_TMP]) (\<lambda>_.
                        sync (Io ''sync committed root''))
                 else ret ()) (\<lambda>_.
          if with_backup then remove_backup backup else ret ())
      | RestoreLegacyBackup s \<Rightarrow> chain (clear_non_data_root root) (\<lambda>_. restore_from (AtOther s)))"

definition recover :: "managed_prefix \<Rightarrow> (failure, recovery_outcome) run" where
  "recover mp =
     chain (observe (decide mp)) (\<lambda>r.
     case r of
       Inl e \<Rightarrow> throw e
     | Inr (outcome, root, backup) \<Rightarrow>
         if ro_action outcome = NoAction \<and> \<not> ro_removed_empty_backup outcome then ret outcome
         else
           chain ensure_quiet (\<lambda>_.
           chain (if ro_removed_empty_backup outcome
                  then chain (atomic (Io ''remove empty backup'') (remove_dir AtBackup)) (\<lambda>_. sync_parent)
                  else ret ()) (\<lambda>_.
           chain (execute_action (ro_action outcome) root backup) (\<lambda>_. ret outcome))))"

section \<open>The transaction\<close>

datatype transaction_kind = InitialSetup | Reset

datatype authority = Held | Reinstatable | Revoked

text \<open>The provisioning engine: what it writes into the root besides the evidence, how its steps end, the manifest it commits
  and the temporary name of that commit.\<close>

record work =
  wk_payload :: entries
  wk_provision :: "string option"
  wk_quiesce :: "string option"
  wk_quiesce_again :: "string option"
  wk_manifest :: "u8 list option"
  wk_temporary :: string
  wk_created_at_ms :: u64

definition EVIDENCE :: "string list" where
  "EVIDENCE = ROOT_EVIDENCE @ [PREFIX_MARKER, LEGACY_PREFIX_MARKER, BACKUP_REMOVING_MANIFEST, BACKUP_REMOVING_LEGACY]"

definition provisioned :: "entries \<Rightarrow> entries \<Rightarrow> entries" where
  "provisioned payload es =
     filter (\<lambda>e. fst e \<in> set EVIDENCE) es @ filter (\<lambda>e. fst e \<notin> set EVIDENCE) payload"

definition provision :: "work \<Rightarrow> (failure, unit) run" where
  "provision wk =
     effect (WorkFailed (case wk_provision wk of None \<Rightarrow> ''killed'' | Some e \<Rightarrow> e))
       (\<lambda>d. (wk_provision wk = None, snd (in_dir AtRoot (\<lambda>es. (True, provisioned (wk_payload wk) es)) d)))
       (\<lambda>n d. snd (in_dir AtRoot (\<lambda>es. (True, provisioned (entries_of n) es)) d))"

definition from_answer :: "string option \<Rightarrow> (failure, unit) run" where
  "from_answer r = (case r of None \<Rightarrow> ret () | Some e \<Rightarrow> throw (WorkFailed e))"

definition classify_root_now :: "managed_prefix \<Rightarrow> (failure, root_state) run" where
  "classify_root_now mp =
     chain (observe (\<lambda>w. classify_root mp (identity mp w) w)) (\<lambda>r. case r of Inl e \<Rightarrow> throw (Inspection e) | Inr st \<Rightarrow> ret st)"

definition move_root_to_backup :: "(failure, bool) run" where
  "move_root_to_backup =
     chain (observe (\<lambda>w. lstat w AtBackup [])) (\<lambda>k.
     case k of
       Inl _ \<Rightarrow> throw (Io ''inspect backup'')
     | Inr k \<Rightarrow>
         if k \<noteq> Missing then throw (Ambiguity BackupPresent)
         else
           chain (observe (\<lambda>w. is_protected w AtRoot)) (\<lambda>b.
           case b of
             Inl _ \<Rightarrow> throw (Io ''inspect protection'')
           | Inr True \<Rightarrow> throw HasInstallation
           | Inr False \<Rightarrow>
               chain (atomic (Io ''preserve previous prefix'') (move_entry AtRoot AtBackup)) (\<lambda>_.
               chain sync_parent (\<lambda>_. ret True))))"

definition preserve_for_reset :: "managed_prefix \<Rightarrow> (failure, bool) run" where
  "preserve_for_reset mp =
     chain (classify_root_now mp) (\<lambda>st.
     case st of
       RootAbsent \<Rightarrow> ret False
     | RootEmpty \<Rightarrow>
         chain (atomic (Io ''remove empty root'') (remove_dir AtRoot)) (\<lambda>_. chain sync_parent (\<lambda>_. ret False))
     | Committed stale \<Rightarrow> if stale then throw (NotConfirmed st) else move_root_to_backup
     | LegacyValid \<Rightarrow> move_root_to_backup
     | _ \<Rightarrow> throw (NotConfirmed st))"

definition transaction_identity :: "managed_prefix \<Rightarrow> string \<Rightarrow> (failure, string option) result" where
  "transaction_identity mp desired =
     (case v3_path_suffix (mp_env mp) (mp_location mp) of
        None \<Rightarrow> Inr None
      | Some suff \<Rightarrow>
          if \<not> is_full_digest desired \<or> v3_path_digest_prefix24 desired \<noteq> suff then Inl WrongIdentity
          else Inr (Some desired))"

definition marker_of :: "managed_prefix \<Rightarrow> string option \<Rightarrow> u64 \<Rightarrow> provisioning_marker" where
  "marker_of mp fingerprint now =
     \<lparr>mk_schema_version = MARKER_SCHEMA, mk_scope = pl_scope (mp_location mp), mk_server_id = pl_server_id (mp_location mp),
      mk_prefix_path = pl_path (mp_location mp), mk_prefix_fingerprint = fingerprint, mk_created_at_ms = now\<rparr>"

definition begin_provisioning :: "managed_prefix \<Rightarrow> string \<Rightarrow> u64 \<Rightarrow> (failure, unit) run" where
  "begin_provisioning mp fingerprint now =
     (case transaction_identity mp fingerprint of
        Inl e \<Rightarrow> throw e
      | Inr prefix_fingerprint \<Rightarrow>
          let json = cd_marker_text (mp_codec mp) (marker_of mp prefix_fingerprint now)
          in chain (sync (Io ''create parent'')) (\<lambda>_.
             chain (classify_root_now mp) (\<lambda>st.
             chain (case st of
                      RootAbsent \<Rightarrow> atomic (Io ''create root'') (make_dir AtRoot)
                    | RootEmpty \<Rightarrow> ret ()
                    | _ \<Rightarrow> throw (HasData st)) (\<lambda>_.
             chain sync_parent (\<lambda>_.
             chain (atomic (Io ''create marker'') (in_dir AtRoot (create_in PROVISIONING_MARKER_TMP))) (\<lambda>_.
             chain (effect (Io ''write marker'') (in_dir AtRoot (write_in PROVISIONING_MARKER_TMP json))
                      (partly_written AtRoot PROVISIONING_MARKER_TMP json)) (\<lambda>_.
             chain (sync (Io ''write marker'')) (\<lambda>_.
             chain (atomic (Io ''activate marker'') (in_dir AtRoot (rename_in PROVISIONING_MARKER_TMP PROVISIONING_MARKER))) (\<lambda>_.
             sync (Io ''sync marker''))))))))))"

definition revoke_rollback_authority :: "(failure, unit) run" where
  "revoke_rollback_authority =
     chain (atomic (Io ''revoke rollback'') (in_dir AtRoot (rename_in PROVISIONING_MARKER COMMIT_PENDING_MARKER))) (\<lambda>_.
     sync (Io ''sync revocation''))"

definition reinstate_rollback_authority :: "(failure, unit) run" where
  "reinstate_rollback_authority =
     (let e = Io ''reinstate rollback''
      in chain (observe (\<lambda>w. and_then (lstat w AtRoot COMMIT_PENDING_MARKER) (\<lambda>c.
                  if c \<noteq> Regular then Inr False
                  else and_then (lstat w AtRoot PROVISIONING_MARKER) (\<lambda>p. Inr (p = Missing))))) (\<lambda>r.
         case r of
           Inl _ \<Rightarrow> throw e
         | Inr False \<Rightarrow> ret ()
         | Inr True \<Rightarrow>
             chain (atomic e (in_dir AtRoot (rename_in COMMIT_PENDING_MARKER PROVISIONING_MARKER))) (\<lambda>_. sync e)))"

text \<open>The body of the transaction; a failure carries the authority at that point.\<close>

definition with_authority :: "authority \<Rightarrow> ('e, 'a) run \<Rightarrow> ('e \<times> authority, 'a) run" where
  "with_authority a m = chain (attempt m) (\<lambda>r. case r of Inl e \<Rightarrow> throw (e, a) | Inr x \<Rightarrow> ret x)"

definition commit_work :: "work \<Rightarrow> (failure \<times> authority, unit) run" where
  "commit_work wk =
     (case wk_manifest wk of
        None \<Rightarrow> throw (WorkFailed ''manifest'', Reinstatable)
      | Some json \<Rightarrow>
          chain (attempt (commit_prefix_manifest (wk_temporary wk) json)) (\<lambda>r.
          case r of
            Inr _ \<Rightarrow> ret ()
          | Inl BeforeRename \<Rightarrow> throw (WorkFailed ''commit'', Reinstatable)
          | Inl AfterRename \<Rightarrow> throw (WorkFailed ''commit'', Revoked)))"

definition transaction_body :: "managed_prefix \<Rightarrow> string \<Rightarrow> work \<Rightarrow> (failure \<times> authority, unit) run" where
  "transaction_body mp fingerprint wk =
     chain (with_authority Held (begin_provisioning mp fingerprint (wk_created_at_ms wk))) (\<lambda>_.
     chain (with_authority Held (provision wk)) (\<lambda>_.
     chain (with_authority Held (from_answer (wk_quiesce wk))) (\<lambda>_.
     chain (with_authority Held (sync (Io ''sync payload''))) (\<lambda>_.
     chain (with_authority Reinstatable revoke_rollback_authority) (\<lambda>_.
     commit_work wk)))))"

text \<open>How a failed transaction is reported after its reconciliation.\<close>

definition reconciled :: "managed_prefix \<Rightarrow> failure \<Rightarrow> (failure, 'a) run" where
  "reconciled mp primary =
     chain (attempt (recover mp)) (\<lambda>r.
     case r of
       Inr outcome \<Rightarrow> throw (if ro_action outcome = NoAction then primary else Reconciled primary (ro_action outcome))
     | Inl e \<Rightarrow> throw (Together primary e))"

text \<open>\<open>preserve_for_reset\<close> with its error: only when the root has been moved is it reconciled.\<close>

definition reset_first :: "managed_prefix \<Rightarrow> (failure, unit) run" where
  "reset_first mp =
     chain (attempt (preserve_for_reset mp)) (\<lambda>r.
     case r of
       Inr _ \<Rightarrow> ret ()
     | Inl primary \<Rightarrow>
         chain (observe (\<lambda>w. classify_root mp (identity mp w) w = Inr RootAbsent \<and>
                  (case lstat w AtBackup [] of Inl _ \<Rightarrow> False | Inr k \<Rightarrow> k \<noteq> Missing))) (\<lambda>moved.
         if moved then reconciled mp primary else throw primary))"

definition run_managed_transaction ::
  "managed_prefix \<Rightarrow> transaction_kind \<Rightarrow> string \<Rightarrow> work \<Rightarrow> (failure, (failure, recovery_outcome) result) run" where
  "run_managed_transaction mp kind fingerprint wk =
     chain (if kind = Reset then reset_first mp else ret ()) (\<lambda>_.
     chain (attempt (transaction_body mp fingerprint wk)) (\<lambda>r.
     case r of
       Inr _ \<Rightarrow> attempt (recover mp)
     | Inl (primary, authority) \<Rightarrow>
         (case wk_quiesce_again wk of
            Some cleanup \<Rightarrow> throw (CleanupPending primary cleanup)
          | None \<Rightarrow>
              chain (if authority = Reinstatable then attempt reinstate_rollback_authority else ret (Inr ())) (\<lambda>r.
              case r of
                Inl e \<Rightarrow> throw (Together primary e)
              | Inr _ \<Rightarrow> reconciled mp primary))))"

end
