(* ===== verification/PrefixPaths.thy ===== *)
theory PrefixPaths
  imports PrefixRecovery
begin

text \<open>
  Where prefixes live and when the launcher may touch one (\<open>src-tauri/src/utils/prefix.rs\<close>): the managed paths, the resolution of a
  server's prefix, the checks before a managed or a custom prefix is used, its health, and the agreement of the paths that carry a
  fingerprint with what recovery reads from them.
\<close>

section \<open>Managed paths\<close>

text \<open>FNV-1a over the bytes, in 64 bits; identifiers are taken as ASCII.\<close>

definition stable_id_hash :: "string \<Rightarrow> u64" where
  "stable_id_hash v = foldl (\<lambda>h b. xor h (ucast b) * 0x100000001b3) 0xcbf29ce484222325 (ascii_bytes v)"

text \<open>\<open>{:016x}\<close>\<close>

definition hex16 :: "u64 \<Rightarrow> string" where
  "hex16 x = concat (map (\<lambda>i. byte_hex (of_nat (unat x div 256 ^ i mod 256))) [7, 6, 5, 4, 3, 2, 1, 0])"

definition prefix_path :: "prefix_env \<Rightarrow> path" where
  "prefix_path pe = pe_app_data pe @ [Normal ''prefix'']"

definition isolated_prefix_path :: "prefix_env \<Rightarrow> string \<Rightarrow> path" where
  "isolated_prefix_path pe server_id = isolated_prefix_root pe @ [Normal (hex16 (stable_id_hash server_id))]"

definition isolated_prefix_path_for_runner :: "prefix_env \<Rightarrow> string \<Rightarrow> string \<Rightarrow> path" where
  "isolated_prefix_path_for_runner pe server_id runner_path =
     isolated_prefix_root pe @ [Normal (hex16 (stable_id_hash server_id) @ ''-'' @ hex16 (stable_id_hash runner_path))]"

definition is_runner_scoped_prefix_path :: "prefix_env \<Rightarrow> path \<Rightarrow> string \<Rightarrow> bool" where
  "is_runner_scoped_prefix_path pe p server_id \<longleftrightarrow>
     parent_dir p = Some (isolated_prefix_root pe) \<and>
     (case file_name p of
        None \<Rightarrow> False
      | Some name \<Rightarrow>
          (case strip_prefix (hex16 (stable_id_hash server_id) @ ''-'') name of
             None \<Rightarrow> False
           | Some runner_hash \<Rightarrow> length runner_hash = 16 \<and> list_all is_hex_digit runner_hash))"

definition digests_share_v3_path_suffix :: "string \<Rightarrow> string \<Rightarrow> bool" where
  "digests_share_v3_path_suffix left right \<longleftrightarrow> v3_path_digest_prefix24 left = v3_path_digest_prefix24 right"

section \<open>The prefix of a server\<close>

datatype prefix_mode = SharedMode | IsolatedMode | CustomMode

record server_prefix =
  sv_id :: string
  sv_wine_prefix :: "string option"
  sv_prefix_mode :: "prefix_mode option"
  sv_runner :: "string option"

definition effective_prefix_mode :: "server_prefix \<Rightarrow> prefix_mode" where
  "effective_prefix_mode server = IsolatedMode"

text \<open>\<open>canonical_or_original\<close>\<close>

definition canonical_or_original :: "file_system \<Rightarrow> string \<Rightarrow> path" where
  "canonical_or_original fs p = (case fs_canonicalize fs (path_of p) of Inr q \<Rightarrow> q | Inl _ \<Rightarrow> path_of p)"

definition runner_identity :: "file_system \<Rightarrow> string \<Rightarrow> string" where
  "runner_identity fs runner = (case fs_canonicalize fs (path_of runner) of Inr q \<Rightarrow> path_display q | Inl _ \<Rightarrow> runner)"

definition shared_location :: "prefix_env \<Rightarrow> prefix_location" where
  "shared_location pe = \<lparr>pl_path = path_display (prefix_path pe), pl_scope = Shared, pl_managed = True, pl_server_id = None\<rparr>"

definition resolve_server_prefix_with_runner ::
  "prefix_env \<Rightarrow> file_system \<Rightarrow> server_prefix option \<Rightarrow> string option \<Rightarrow> (unit, prefix_location) result" where
  "resolve_server_prefix_with_runner pe fs server effective_runner =
     (case server of
        None \<Rightarrow> Inr (shared_location pe)
      | Some server \<Rightarrow>
          (case effective_prefix_mode server of
             SharedMode \<Rightarrow> Inr (shared_location pe)
           | IsolatedMode \<Rightarrow>
               Inr \<lparr>pl_path = path_display (case map_option (runner_identity fs) effective_runner of
                                 Some runner \<Rightarrow> isolated_prefix_path_for_runner pe (sv_id server) runner
                               | None \<Rightarrow> isolated_prefix_path pe (sv_id server)),
                    pl_scope = Isolated, pl_managed = True, pl_server_id = Some (sv_id server)\<rparr>
           | CustomMode \<Rightarrow>
               (case Option.bind (sv_wine_prefix server) (\<lambda>p. if trim p = [] then None else Some (trim p)) of
                  None \<Rightarrow> Inl ()
                | Some p \<Rightarrow>
                    Inr \<lparr>pl_path = p, pl_scope = Custom, pl_managed = False, pl_server_id = Some (sv_id server)\<rparr>)))"

definition resolve_server_prefix :: "prefix_env \<Rightarrow> file_system \<Rightarrow> server_prefix option \<Rightarrow> (unit, prefix_location) result" where
  "resolve_server_prefix pe fs server = resolve_server_prefix_with_runner pe fs server (Option.bind server sv_runner)"

section \<open>May the launcher touch it\<close>

text \<open>\<open>n\<close> is what lies at the path, \<open>root_link\<close> whether the root of the isolated prefixes is a symbolic link.\<close>

datatype path_error =
    ThroughSymlink | NotADirectory | RootThroughSymlink | NoServerId | NotManagedPath | ManifestThroughSymlink
  | CustomNotRemovable | NoManifest | ManifestOfOther | ParentMissing | NotAPrefix | HoldsInstallation | NotVerified

definition is_symlink :: "node option \<Rightarrow> bool" where
  "is_symlink n = (case n of Some (Symlink _) \<Rightarrow> True | _ \<Rightarrow> False)"

definition child :: "node option \<Rightarrow> string \<Rightarrow> node option" where
  "child n name = Option.bind n (\<lambda>x. map_of (entries_of x) name)"

definition expected_path :: "prefix_env \<Rightarrow> prefix_location \<Rightarrow> (path_error, path) result" where
  "expected_path pe loc =
     (case pl_scope loc of
        Isolated \<Rightarrow>
          (case pl_server_id loc of
             None \<Rightarrow> Inl NoServerId
           | Some server_id \<Rightarrow>
               let p = path_of (pl_path loc); legacy = isolated_prefix_path pe server_id
               in Inr (if p = legacy \<or> is_runner_scoped_prefix_path pe p server_id \<or> is_v3_managed_prefix_path pe p server_id
                       then p else legacy))
      | _ \<Rightarrow> Inr (prefix_path pe))"

definition ensure_managed_path_safe :: "prefix_env \<Rightarrow> bool \<Rightarrow> node option \<Rightarrow> prefix_location \<Rightarrow> (path_error, unit) result" where
  "ensure_managed_path_safe pe root_link n loc =
     (if \<not> pl_managed loc \<or> pl_scope loc = Custom then Inr ()
      else if is_symlink n then Inl ThroughSymlink
      else if n \<noteq> None \<and> kind_of n \<noteq> Directory then Inl NotADirectory
      else if pl_scope loc = Isolated \<and> root_link then Inl RootThroughSymlink
      else
        and_then (expected_path pe loc) (\<lambda>expected.
        if path_of (pl_path loc) \<noteq> expected then Inl NotManagedPath
        else if is_symlink (child n PREFIX_MARKER) then Inl ManifestThroughSymlink
        else Inr ()))"

text \<open>\<open>inspect_prefix\<close>: \<open>as_file n name\<close> is what is read of an entry that is a file, following a link.\<close>

datatype health_issue = NotThere | MissingPart string | WrongSchema | DamagedManifest | LegacyPrefix | NoManifestYet | CommitInterrupted
  | PreparationInterrupted

record prefix_health =
  ph_structure_ok :: bool
  ph_configured :: bool
  ph_legacy_marker :: bool
  ph_provisioning :: bool
  ph_manifest :: "stored_manifest option"
  ph_issues :: "health_issue list"

record prefix_view =
  pv_is_dir :: bool
  pv_exists :: "string \<Rightarrow> bool"
  pv_is_file :: "string \<Rightarrow> bool"
  pv_read :: "string \<Rightarrow> u8 list option"
  pv_present :: "string \<Rightarrow> bool"

definition read_stored :: "codec \<Rightarrow> prefix_view \<Rightarrow> stored_manifest option \<times> health_issue list" where
  "read_stored cd v =
     (case pv_read v PREFIX_MARKER of
        None \<Rightarrow> (None, [DamagedManifest])
      | Some json \<Rightarrow>
          (case parse_stored_prefix_manifest cd json of
             Some m \<Rightarrow> (Some m, [])
           | None \<Rightarrow>
               (case cd_schema cd json of
                  None \<Rightarrow> (None, [DamagedManifest])
                | Some s \<Rightarrow>
                    (None, [if s \<noteq> PREFIX_SCHEMA_VERSION \<and> s \<noteq> PREFIX_SCHEMA_V3 then WrongSchema else DamagedManifest]))))"

definition inspect_prefix :: "codec \<Rightarrow> prefix_view \<Rightarrow> prefix_health" where
  "inspect_prefix cd v =
     (if \<not> pv_is_dir v then
        \<lparr>ph_structure_ok = False, ph_configured = False, ph_legacy_marker = False, ph_provisioning = False, ph_manifest = None,
          ph_issues = [NotThere]\<rparr>
      else
        let missing = map MissingPart (filter (\<lambda>r. \<not> pv_exists v r) STRUCTURE);
            structure = (missing = []);
            (manifest, legacy, found) =
              (if pv_is_file v PREFIX_MARKER then (fst (read_stored cd v), False, snd (read_stored cd v))
               else if pv_is_file v LEGACY_PREFIX_MARKER then (None, True, [LegacyPrefix])
               else (None, False, [NoManifestYet]));
            (provisioning, interrupted) =
              (if manifest \<noteq> None then (False, [])
               else if pv_present v COMMIT_PENDING_MARKER then (True, [CommitInterrupted])
               else if pv_present v PROVISIONING_MARKER \<or> pv_present v PROVISIONING_MARKER_TMP then (True, [PreparationInterrupted])
               else (False, []));
            schema = (case manifest of
                        None \<Rightarrow> []
                      | Some m \<Rightarrow>
                          if stored_schema_version m \<noteq> PREFIX_SCHEMA_VERSION \<and> stored_schema_version m \<noteq> PREFIX_SCHEMA_V3
                          then [WrongSchema] else [])
        in \<lparr>ph_structure_ok = structure,
             ph_configured = (structure \<and> (manifest \<noteq> None \<or> legacy \<and> \<not> provisioning)),
             ph_legacy_marker = legacy, ph_provisioning = provisioning, ph_manifest = manifest,
             ph_issues = missing @ found @ interrupted @ schema\<rparr>)"

definition ensure_managed_reset_allowed ::
  "prefix_env \<Rightarrow> codec \<Rightarrow> bool \<Rightarrow> node option \<Rightarrow> prefix_view \<Rightarrow> prefix_location \<Rightarrow> (path_error, unit) result" where
  "ensure_managed_reset_allowed pe cd root_link n v loc =
     (if \<not> pl_managed loc \<or> pl_scope loc = Custom then Inl CustomNotRemovable
      else
        and_then (ensure_managed_path_safe pe root_link n loc) (\<lambda>_.
        if (case n of None \<Rightarrow> True | Some x \<Rightarrow> entries_of x = []) then Inr ()
        else
          let health = inspect_prefix cd v
          in if ph_legacy_marker health \<and> ph_structure_ok health then Inr ()
             else (case ph_manifest health of
                     None \<Rightarrow> Inl NoManifest
                   | Some m \<Rightarrow>
                       if stored_schema_version m = 0 \<or> PREFIX_SCHEMA_V3 < stored_schema_version m \<or>
                          \<not> manifest_matches_stored_location m loc then Inl ManifestOfOther
                       else Inr ())))"

definition ensure_custom_setup_allowed ::
  "codec \<Rightarrow> node option \<Rightarrow> bool \<Rightarrow> prefix_view \<Rightarrow> prefix_location \<Rightarrow> (path_error, unit) result" where
  "ensure_custom_setup_allowed cd n parent_is_dir v loc =
     (if pl_scope loc \<noteq> Custom then Inr ()
      else if is_symlink n then Inl ThroughSymlink
      else if n \<noteq> None \<and> kind_of n \<noteq> Directory then Inl NotADirectory
      else if n = None \<and> \<not> parent_is_dir then Inl ParentMissing
      else if is_symlink (child n PREFIX_MARKER) then Inl ManifestThroughSymlink
      else if (case n of None \<Rightarrow> False | Some x \<Rightarrow> entries_of x \<noteq> []) \<and> \<not> ph_structure_ok (inspect_prefix cd v) then Inl NotAPrefix
      else Inr ())"

text \<open>An answer of \<open>symlink_metadata\<close>: \<open>Inl\<close> when it fails for another reason than absence.\<close>

definition ensure_installation_rebuild_allowed :: "(string \<Rightarrow> (unit, bool) result) \<Rightarrow> (path_error, unit) result" where
  "ensure_installation_rebuild_allowed stat =
     (case stat INSTALLATION_MARKER of
        Inl _ \<Rightarrow> Inl NotVerified
      | Inr True \<Rightarrow> Inl HoldsInstallation
      | Inr False \<Rightarrow>
          (case stat (INSTALLATION_MARKER @ ''.bak'') of
             Inl _ \<Rightarrow> Inl NotVerified | Inr True \<Rightarrow> Inl HoldsInstallation | Inr False \<Rightarrow> Inr ()))"

definition stored_manifest_matches_runner :: "file_system \<Rightarrow> stored_manifest \<Rightarrow> string \<Rightarrow> string \<Rightarrow> bool" where
  "stored_manifest_matches_runner fs m kind runner \<longleftrightarrow>
     stored_runner_kind m = kind \<and>
     canonical_or_original fs (stored_runner_path m) = canonical_or_original fs runner"

section \<open>Libraries\<close>

definition is_dxvk_installed :: "(string \<Rightarrow> bool) \<Rightarrow> (string \<Rightarrow> bool) \<Rightarrow> bool" where
  "is_dxvk_installed is_dir is_file =
     (let root = ''drive_c/windows/'' in
      if is_dir (root @ ''syswow64'')
      then is_file (root @ ''system32/d3d9.dll'') \<and> is_file (root @ ''syswow64/d3d9.dll'')
      else is_file (root @ ''system32/d3d9.dll''))"

definition VKD3D_DLLS :: "string list" where
  "VKD3D_DLLS = [''libvkd3d-1.dll'', ''libvkd3d-shader-1.dll'', ''libvkd3d-utils-1.dll'']"

definition proton_vkd3d_companions_available :: "(string \<Rightarrow> bool) \<Rightarrow> (string \<Rightarrow> bool) \<Rightarrow> bool" where
  "proton_vkd3d_companions_available in_prefix in_proton =
     list_all (\<lambda>arch_dir.
        let runner_arch = ''files/lib/vkd3d/'' @ (if arch_dir = ''system32'' then ''x86_64-windows'' else ''i386-windows'')
        in list_all (\<lambda>dll. in_prefix (''drive_c/windows/'' @ arch_dir @ ''/'' @ dll) \<or> in_proton (runner_arch @ ''/'' @ dll)) VKD3D_DLLS)
       [''system32'', ''syswow64'']"

definition proton_runner_vkd3d_companions_available :: "(string \<Rightarrow> bool) \<Rightarrow> bool" where
  "proton_runner_vkd3d_companions_available in_proton =
     list_all (\<lambda>arch_dir. list_all (\<lambda>dll. in_proton (''files/lib/vkd3d/'' @ arch_dir @ ''/'' @ dll)) VKD3D_DLLS)
       [''x86_64-windows'', ''i386-windows'']"

section \<open>Names and paths\<close>

lemma plain_below: "clean_path root \<Longrightarrow> plain_name n \<Longrightarrow> clean_path (root @ [Normal n])"
  unfolding clean_path_def by (elim exE conjE) (rule_tac x = "names @ [n]" in exI, auto)

lemma below_parts: "parent_dir (root @ [Normal n]) = Some root" "file_name (root @ [Normal n]) = Some n"
  by (simp_all add: parent_dir_def file_name_def)

section \<open>Hexadecimal digits\<close>

definition hex_lower :: "char \<Rightarrow> bool" where
  "hex_lower c \<longleftrightarrow> of_char c \<in> {48..57 :: nat} \<union> {97..102}"

lemma hex_lower_digit: "hex_lower c \<Longrightarrow> is_hex_digit c"
  by (auto simp: hex_lower_def is_hex_digit_def)

lemma hex_char_lower: "d < 16 \<Longrightarrow> hex_lower (ascii_lower (hex_char d))"
  by (auto simp: hex_lower_def ascii_lower_def hex_char_def Let_def)

lemma byte_hex_lower: "list_all hex_lower (byte_hex b)" "length (byte_hex b) = 2"
proof -
  have "unat b div 16 < 16" "unat b mod 16 < 16" using unsigned_less [of b, where ?'a = nat] by auto
  then show "list_all hex_lower (byte_hex b)" by (simp add: byte_hex_def hex_char_lower)
qed (simp add: byte_hex_def)

lemma bytes_hex_lower: "list_all hex_lower (concat (map byte_hex bs))" "length (concat (map byte_hex bs)) = 2 * length bs"
  by (induction bs) (auto simp: byte_hex_lower)

lemma hex16_lower: "list_all hex_lower (hex16 x)" "length (hex16 x) = 16"
proof -
  have "hex16 x = concat (map byte_hex (map (\<lambda>i. of_nat (unat x div 256 ^ i mod 256)) [7, 6, 5, 4, 3, 2, 1, 0]))"
    by (simp add: hex16_def)
  with bytes_hex_lower [of "map (\<lambda>i. of_nat (unat x div 256 ^ i mod 256)) [7, 6, 5, 4, 3, 2, 1, 0]"]
  show "list_all hex_lower (hex16 x)" "length (hex16 x) = 16" by (simp_all del: map_map)
qed

lemma not_hex: "hex_lower c \<Longrightarrow> c \<noteq> CHR ''-'' \<and> c \<noteq> CHR ''v'' \<and> c \<noteq> CHR ''/'' \<and> c \<noteq> CHR ''.''"
  by (auto simp: hex_lower_def)

section \<open>What is resolved is managed\<close>

lemma plain_hex:
  assumes "list_all (\<lambda>c. hex_lower c \<or> c = CHR ''-'' \<or> c = CHR ''v'') n" "n \<noteq> []"
  shows "plain_name n"
proof -
  have "c \<noteq> CHR ''/'' \<and> c \<noteq> CHR ''.''" if "c \<in> set n" for c using assms(1) that not_hex by (auto simp: list_all_iff)
  then have "CHR ''/'' \<notin> set n" "CHR ''.'' \<notin> set n" by blast+
  with assms(2) show ?thesis by (auto simp: plain_name_def)
qed

lemma hex_mono: "list_all hex_lower n \<Longrightarrow> list_all (\<lambda>c. hex_lower c \<or> c = CHR ''-'' \<or> c = CHR ''v'') n"
  by (auto simp: list_all_iff)

lemma hex_lower_3: "hex_lower (CHR ''3'')"
  by (simp add: hex_lower_def)

lemma token_lower: "list_all hex_lower (server_path_token16 pe server_id)"
  unfolding server_path_token16_def Let_def by (rule bytes_hex_lower)

lemma app_plain: "clean_path (pe_app_data pe) \<Longrightarrow> clean_path (isolated_prefix_root pe) \<and> clean_path (prefix_path pe)"
  unfolding isolated_prefix_root_def prefix_path_def by (auto intro!: plain_below simp: plain_name_def)

lemma runner_scoped:
  assumes "clean_path (pe_app_data pe)"
  shows "is_runner_scoped_prefix_path pe (isolated_prefix_path_for_runner pe server_id runner) server_id"
    "clean_path (isolated_prefix_path_for_runner pe server_id runner)"
proof -
  have "list_all is_hex_digit (hex16 x)" for x using hex16_lower(1) hex_lower_digit by (auto simp: list_all_iff)
  then show "is_runner_scoped_prefix_path pe (isolated_prefix_path_for_runner pe server_id runner) server_id"
    using hex16_lower(2)
    by (simp add: is_runner_scoped_prefix_path_def isolated_prefix_path_for_runner_def below_parts strip_prefix_def)
  have "plain_name (hex16 (stable_id_hash server_id) @ ''-'' @ hex16 (stable_id_hash runner))"
    by (rule plain_hex) (auto simp: hex16_lower hex_mono)
  then show "clean_path (isolated_prefix_path_for_runner pe server_id runner)"
    unfolding isolated_prefix_path_for_runner_def using app_plain [OF assms] by (auto intro: plain_below)
qed

lemma isolated_plain: "clean_path (pe_app_data pe) \<Longrightarrow> clean_path (isolated_prefix_path pe server_id)"
proof -
  assume a: "clean_path (pe_app_data pe)"
  have "hex16 (stable_id_hash server_id) \<noteq> []" using hex16_lower(2) [of "stable_id_hash server_id"] by fastforce
  then have "plain_name (hex16 (stable_id_hash server_id))" by (rule plain_hex [OF hex_mono [OF hex16_lower(1)]])
  then show ?thesis unfolding isolated_prefix_path_def using app_plain [OF a] by (auto intro: plain_below)
qed

lemma v3_path:
  assumes "clean_path (pe_app_data pe)" "is_full_digest digest"
  shows "is_v3_managed_prefix_path pe (isolated_prefix_path_v3 pe server_id digest) server_id"
    "clean_path (isolated_prefix_path_v3 pe server_id digest)"
proof -
  have digits: "list_all hex_lower digest" "length digest = 64" using assms(2) by (auto simp: is_full_digest_def hex_lower_def list_all_iff)
  then have short: "list_all hex_lower (take 24 digest)" "length (take 24 digest) = 24" by (auto simp: list_all_iff dest: in_set_takeD)
  then have "list_all is_hex_digit (take 24 digest)" by (auto simp: list_all_iff hex_lower_digit)
  with short(2) show "is_v3_managed_prefix_path pe (isolated_prefix_path_v3 pe server_id digest) server_id"
    by (simp add: is_v3_managed_prefix_path_def isolated_prefix_path_v3_def below_parts strip_prefix_def v3_path_digest_prefix24_def)
  have "plain_name (server_path_token16 pe server_id @ ''-v3-'' @ v3_path_digest_prefix24 digest)"
    by (rule plain_hex) (use short(1) in \<open>auto simp: token_lower hex_mono hex_lower_3 v3_path_digest_prefix24_def\<close>)
  then show "clean_path (isolated_prefix_path_v3 pe server_id digest)"
    unfolding isolated_prefix_path_v3_def using app_plain [OF assms(1)] by (auto intro: plain_below)
qed

lemma rsplit_once_last:
  assumes "s = a @ pat @ b" "\<And>i. length a < i \<Longrightarrow> i \<le> length s \<Longrightarrow> \<not> prefix pat (drop i s)"
  shows "rsplit_once pat s = Some (a, b)"
proof -
  have parts: "[0 ..< Suc (length s)] = [0 ..< length a] @ [length a] @ [Suc (length a) ..< Suc (length s)]"
  proof -
    have "[0 ..< length a + Suc (length s - length a)] = [0 ..< length a] @ [length a ..< length a + Suc (length s - length a)]"
      by (rule upt_add_eq_append) simp
    moreover have "length a + Suc (length s - length a) = Suc (length s)" by (simp add: assms(1))
    moreover have "[length a ..< Suc (length s)] = length a # [Suc (length a) ..< Suc (length s)]"
      by (rule upt_conv_Cons) (simp add: assms(1))
    ultimately show ?thesis by simp
  qed
  have later: "filter (\<lambda>i. prefix pat (drop i s)) (rev [Suc (length a) ..< Suc (length s)]) = []"
  proof -
    have "\<not> prefix pat (drop i s)" if "i \<in> set (rev [Suc (length a) ..< Suc (length s)])" for i
      by (rule assms(2)) (use that in auto)
    then show ?thesis by (simp only: filter_empty_conv) blast
  qed
  have "prefix pat (drop (length a) s)" by (simp add: assms(1))
  then have "filter (\<lambda>i. prefix pat (drop i s)) (rev [0 ..< Suc (length s)]) =
      length a # filter (\<lambda>i. prefix pat (drop i s)) (rev [0 ..< length a])"
    unfolding parts rev_append filter_append later by simp
  then show ?thesis unfolding rsplit_once_def by (simp add: assms(1))
qed

lemma managed_expected:
  assumes "clean_path (pe_app_data pe)" "resolve_server_prefix_with_runner pe fs server runner = Inr loc"
  shows "pl_managed loc \<and> pl_scope loc \<noteq> Custom \<and> expected_path pe loc = Inr (path_of (pl_path loc)) \<and>
    (parent_dir (path_of (pl_path loc)) = Some (isolated_prefix_root pe) \<or> path_of (pl_path loc) = prefix_path pe)"
proof (cases server)
  case None
  with assms(2) have "loc = shared_location pe" by (simp add: resolve_server_prefix_with_runner_def)
  moreover have "path_of (path_display (prefix_path pe)) = prefix_path pe"
    using path_of_display app_plain [OF assms(1)] by blast
  ultimately show ?thesis by (simp add: shared_location_def expected_path_def)
next
  case (Some sv)
  define p where "p = (case map_option (runner_identity fs) runner of
      Some r \<Rightarrow> isolated_prefix_path_for_runner pe (sv_id sv) r | None \<Rightarrow> isolated_prefix_path pe (sv_id sv))"
  have loc: "loc = \<lparr>pl_path = path_display p, pl_scope = Isolated, pl_managed = True, pl_server_id = Some (sv_id sv)\<rparr>"
    using assms(2) by (simp add: resolve_server_prefix_with_runner_def Some effective_prefix_mode_def p_def)
  have "clean_path p" using runner_scoped(2) [OF assms(1)] isolated_plain [OF assms(1)] by (cases runner) (auto simp: p_def)
  then have "path_of (path_display p) = p" by (rule path_of_display)
  moreover have "p = isolated_prefix_path pe (sv_id sv) \<or> is_runner_scoped_prefix_path pe p (sv_id sv)"
    using runner_scoped(1) [OF assms(1)] by (cases runner) (auto simp: p_def)
  moreover have "parent_dir p = Some (isolated_prefix_root pe)"
    by (cases runner) (simp_all add: p_def isolated_prefix_path_for_runner_def isolated_prefix_path_def below_parts)
  ultimately show ?thesis by (auto simp: loc expected_path_def Let_def)
qed

lemma no_dash: "list_all hex_lower b \<Longrightarrow> i \<le> length b \<Longrightarrow> \<not> prefix (CHR ''-'' # pat) (drop i b)"
proof
  assume b: "list_all hex_lower b" and p: "prefix (CHR ''-'' # pat) (drop i b)"
  then have "CHR ''-'' \<in> set (drop i b)" by (auto simp: prefix_def)
  then have "CHR ''-'' \<in> set b" by (rule in_set_dropD)
  with b not_hex show False by (auto simp: list_all_iff)
qed

lemma digest_suffix:
  assumes "list_all hex_lower b"
  shows "rsplit_once ''-v3-'' (a @ ''-v3-'' @ b) = Some (a, b)"
proof (rule rsplit_once_last)
  fix i :: nat
  assume i: "length a < i" "i \<le> length (a @ ''-v3-'' @ b)"
  then obtain k where k: "i = length a + Suc k" by (metis add_Suc_right less_imp_Suc_add)
  have "drop i (a @ ''-v3-'' @ b) = drop k (''v3-'' @ b)" by (simp add: k)
  moreover have "\<not> prefix ''-v3-'' (drop k (''v3-'' @ b))"
  proof (cases "k < 3")
    case True
    then consider "k = 0" | "k = 1" | "k = 2" by linarith
    then show ?thesis
    proof cases
      case 3
      have "\<not> prefix ''v3-'' b" using assms not_hex by (cases b) auto
      with 3 show ?thesis by (simp add: numeral_2_eq_2)
    qed simp_all
  next
    case False
    then have "drop k (''v3-'' @ b) = drop (k - 3) b" by (simp add: drop_Cons' numeral_3_eq_3)
    moreover have "k - 3 \<le> length b" using i k by simp
    ultimately show ?thesis using no_dash [OF assms] by simp
  qed
  ultimately show "\<not> prefix ''-v3-'' (drop i (a @ ''-v3-'' @ b))" by simp
qed simp

lemma v3_reads_back:
  assumes "clean_path (pe_app_data pe)" "is_full_digest digest"
  shows "expected_identity pe \<lparr>pl_path = path_display (isolated_prefix_path_v3 pe server_id digest), pl_scope = Isolated,
    pl_managed = True, pl_server_id = Some server_id\<rparr> (Some digest) = Some digest"
proof -
  have digits: "list_all hex_lower digest" using assms(2) by (auto simp: is_full_digest_def hex_lower_def list_all_iff)
  then have "list_all hex_lower (take 24 digest)" by (auto simp: list_all_iff dest: in_set_takeD)
  from digest_suffix [OF this, of "server_path_token16 pe server_id"]
  have parted: "rsplit_once ''-v3-'' (server_path_token16 pe server_id @ ''-v3-'' @ take 24 digest) =
      Some (server_path_token16 pe server_id, take 24 digest)" .
  have parsed: "path_of (path_display (isolated_prefix_path_v3 pe server_id digest)) = isolated_prefix_path_v3 pe server_id digest"
    by (rule path_of_display [OF v3_path(2) [OF assms]])
  have named: "file_name (isolated_prefix_path_v3 pe server_id digest) =
      Some (server_path_token16 pe server_id @ ''-v3-'' @ take 24 digest)"
    by (simp add: isolated_prefix_path_v3_def below_parts v3_path_digest_prefix24_def)
  show ?thesis
    using v3_path(1) [OF assms] parted assms(2)
    by (simp add: expected_identity_def v3_path_suffix_def parsed named v3_path_digest_prefix24_def)
qed

section \<open>Properties\<close>

text \<open>The prefix that is resolved for a server, whatever its identifier and its runner contain, is a managed path directly below the
  launcher's own directories, and the check before its use accepts it unless something is in the way: a link, a file, a linked
  manifest.\<close>
theorem resolved_prefix_is_managed:
  "clean_path (pe_app_data pe) \<Longrightarrow> resolve_server_prefix_with_runner pe fs server runner = Inr loc \<Longrightarrow>
   (parent_dir (path_of (pl_path loc)) = Some (isolated_prefix_root pe) \<or> path_of (pl_path loc) = prefix_path pe) \<and>
   (ensure_managed_path_safe pe root_link n loc = Inr () \<longleftrightarrow>
      (n = None \<or> kind_of n = Directory) \<and> \<not> (pl_scope loc = Isolated \<and> root_link) \<and> \<not> is_symlink (child n PREFIX_MARKER))"
  using managed_expected [of pe fs server runner loc]
  by (cases n rule: kind_of.cases) (auto simp: ensure_managed_path_safe_def and_then_def is_symlink_def child_def split: if_splits)

text \<open>The path that the launcher makes from a server and a full fingerprint is one that it accepts as managed and from which recovery
  reads that fingerprint back as its expected identity.\<close>
theorem v3_path_carries_identity:
  "clean_path (pe_app_data pe) \<Longrightarrow> is_full_digest digest \<Longrightarrow>
   is_v3_managed_prefix_path pe (path_of (path_display (isolated_prefix_path_v3 pe server_id digest))) server_id \<and>
   expected_identity pe \<lparr>pl_path = path_display (isolated_prefix_path_v3 pe server_id digest), pl_scope = Isolated,
     pl_managed = True, pl_server_id = Some server_id\<rparr> (Some digest) = Some digest"
  by (simp add: v3_reads_back v3_path path_of_display)

text \<open>A prefix is reported ready only when its structure is complete and its manifest, or a legacy marker without an interrupted
  preparation, is there.\<close>

lemma configured_iff:
  "ph_configured (inspect_prefix cd v) \<longleftrightarrow>
     ph_structure_ok (inspect_prefix cd v) \<and>
     (ph_manifest (inspect_prefix cd v) \<noteq> None \<or>
      ph_legacy_marker (inspect_prefix cd v) \<and> \<not> ph_provisioning (inspect_prefix cd v))"
  by (simp add: inspect_prefix_def Let_def split: prod.split)

section \<open>Instances\<close>

definition ex_env :: prefix_env where
  "ex_env = \<lparr>pe_app_data = [RootDir, Normal ''data''], pe_sha256 = (\<lambda>_. replicate 32 0)\<rparr>"

definition ex_fs :: file_system where
  "ex_fs = \<lparr>fs_canonicalize = (\<lambda>p. Inl NotFound), fs_metadata = (\<lambda>_. Inl ''missing''), fs_symlink_metadata_ok = (\<lambda>_. False)\<rparr>"

lemma ex_plain: "clean_path (pe_app_data ex_env)"
  unfolding clean_path_def by (rule exI [of _ "[''data'']"]) (simp add: ex_env_def plain_name_def)

end
