(* ===== verification/RecoverySafety.thy ===== *)
theory RecoverySafety
  imports PrefixRecovery
begin

text \<open>
  What recovery and transactions cannot lose, whatever happens to them, and what an undisturbed recovery achieves.  The proofs are
  triples over the disk: an invariant holds where a program ends, where it fails and where it is killed.
\<close>

section \<open>What must survive\<close>

text \<open>The previous prefix is at its root; it is set aside in the backup while the root holds no manifest; or the root holds a
  manifest that a transaction has committed.\<close>

definition in_place :: "node \<Rightarrow> disk \<Rightarrow> bool" where
  "in_place old d \<longleftrightarrow> dk_root d = Some old \<and> dk_backup d = None"

definition set_aside :: "node \<Rightarrow> disk \<Rightarrow> bool" where
  "set_aside old d \<longleftrightarrow> dk_backup d = Some old \<and> entry AtRoot PREFIX_MARKER d = None"

definition replaced_by :: "u8 list set \<Rightarrow> disk \<Rightarrow> bool" where
  "replaced_by ms d \<longleftrightarrow> (\<exists>m \<in> ms. entry AtRoot PREFIX_MARKER d = Some (File m))"

definition protected :: "node \<Rightarrow> u8 list set \<Rightarrow> disk \<Rightarrow> bool" where
  "protected old ms d \<longleftrightarrow> in_place old d \<or> set_aside old d \<or> replaced_by ms d"

definition prior_ok :: "node \<Rightarrow> bool" where
  "prior_ok old \<longleftrightarrow>
     (\<exists>es. old = Dir es \<and> es \<noteq> [] \<and> (\<forall>name \<in> set ROOT_EVIDENCE. map_of es name = None))"

lemmas marker_names = ROOT_EVIDENCE_def EVIDENCE_def PROVISIONING_MARKER_def PROVISIONING_MARKER_TMP_def COMMIT_PENDING_MARKER_def
  PREFIX_MARKER_def LEGACY_PREFIX_MARKER_def BACKUP_REMOVING_MANIFEST_def BACKUP_REMOVING_LEGACY_def INSTALLATION_MARKER_def

section \<open>Changes inside a directory\<close>

text \<open>A change adds no manifest.\<close>

definition adds_none :: "string \<Rightarrow> (entries \<Rightarrow> bool \<times> entries) \<Rightarrow> bool" where
  "adds_none name f \<longleftrightarrow> (\<forall>es. map_of es name = None \<longrightarrow> map_of (snd (f es)) name = None)"

lemma set_aside_in_dir: "adds_none PREFIX_MARKER f \<Longrightarrow> set_aside old d \<Longrightarrow> set_aside old (snd (in_dir AtRoot f d))"
  unfolding set_aside_def in_dir_root in_dir_entry by (auto simp: adds_none_def entry_def split: option.splits)

lemma adds_none_simps:
  "adds_none n (unlink_in a)" "adds_none n (unlink_if_present_in a)" "adds_none n (remove_tree_in a)"
  "n \<noteq> b \<Longrightarrow> adds_none n (rename_in a b)" "n \<noteq> a \<Longrightarrow> adds_none n (create_in a)"
  "adds_none n (write_in a bytes)" "adds_none n (\<lambda>es. (True, replaced a x es))"
  "n \<in> set EVIDENCE \<Longrightarrow> adds_none n (\<lambda>es. (True, provisioned payload es))"
  by (auto simp: adds_none_def unlink_in_def unlink_if_present_in_def remove_tree_in_def rename_in_def create_in_def write_in_def
      replaced_def provisioned_def without_def map_of_keys image_iff split: option.splits node.splits if_splits)

section \<open>What the classification tells\<close>

lemma and_then_Inr: "and_then r f = Inr y \<longleftrightarrow> (\<exists>x. r = Inr x \<and> f x = Inr y)"
  by (auto simp: and_then_def split: sum.splits)

lemma kind_regular: "kind_of n = Regular \<longleftrightarrow> (\<exists>bytes. n = Some (File bytes))"
  by (cases "(n)" rule: kind_of.cases) auto

lemma lstat_Inr: "lstat w p name = Inr k \<Longrightarrow>
    k = kind_of (if name = [] then look p (wd_disk w) else entry p name (wd_disk w))"
  by (simp add: lstat_def split: if_splits)

lemma lstat_place: "lstat w p [] = Inr k \<Longrightarrow> k = kind_of (look p (wd_disk w))"
  by (simp add: lstat_def split: if_splits)

lemma names_Inr: "entry_names w p = Inr names \<Longrightarrow>
    names = (case look p (wd_disk w) of None \<Rightarrow> [] | Some n \<Rightarrow> map fst (entries_of n))"
  by (simp add: entry_names_def split: if_splits)

text \<open>The outcomes of \<open>classify_root\<close> with what each says of the disk.\<close>

definition rootkind :: "string \<Rightarrow> world \<Rightarrow> entry_kind" where
  "rootkind name w = kind_of (entry AtRoot name (wd_disk w))"

lemma lstat_root: "name \<noteq> [] \<Longrightarrow> lstat w AtRoot name = Inr k \<Longrightarrow> k = rootkind name w"
  by (auto simp: rootkind_def dest: lstat_Inr)

lemma marker_not_Nil [simp]:
  "PREFIX_MARKER \<noteq> []" "PROVISIONING_MARKER \<noteq> []" "COMMIT_PENDING_MARKER \<noteq> []" "PROVISIONING_MARKER_TMP \<noteq> []"
  "LEGACY_PREFIX_MARKER \<noteq> []" "BACKUP_REMOVING_MANIFEST \<noteq> []" "BACKUP_REMOVING_LEGACY \<noteq> []" "INSTALLATION_MARKER \<noteq> []"
  by (simp_all add: marker_names)

lemma classify_evidence_cases:
  assumes "classify_evidence mp vi w tmp = Inr st"
  obtains (foreign) r where "st = RootForeign r"
    | (manifest) marker where "rootkind PREFIX_MARKER w = Regular" "st = classify_manifest mp vi w marker tmp"
        "single_marker (rootkind PROVISIONING_MARKER w) (rootkind COMMIT_PENDING_MARKER w) = Some marker"
    | (unmarked) marker where "rootkind PREFIX_MARKER w = Missing" "classify_marker mp vi w marker tmp = Inr st"
        "single_marker (rootkind PROVISIONING_MARKER w) (rootkind COMMIT_PENDING_MARKER w) = Some marker"
  using assms unfolding classify_evidence_def and_then_Inr
  by (auto simp: and_then_Inr dest!: lstat_root [OF marker_not_Nil(1)] lstat_root [OF marker_not_Nil(2)]
      lstat_root [OF marker_not_Nil(3)] split: if_splits option.splits)

lemma classify_root_cases:
  assumes st: "classify_root mp vi w = Inr st"
  obtains (absent) "dk_root (wd_disk w) = None" "st = RootAbsent"
    | (foreign) r where "st = RootForeign r"
    | (empty) n where "dk_root (wd_disk w) = Some n" "kind_of (Some n) = Directory" "entries_of n = []" "st = RootEmpty"
    | (pending) n where "dk_root (wd_disk w) = Some n" "kind_of (Some n) = Directory"
        "map fst (entries_of n) = [PROVISIONING_MARKER_TMP]" "st = PendingMarker" "rootkind PROVISIONING_MARKER_TMP w = Regular"
    | (manifest) n marker where "dk_root (wd_disk w) = Some n" "kind_of (Some n) = Directory"
        "rootkind PREFIX_MARKER w = Regular"
        "single_marker (rootkind PROVISIONING_MARKER w) (rootkind COMMIT_PENDING_MARKER w) = Some marker"
        "st = classify_manifest mp vi w marker (rootkind PROVISIONING_MARKER_TMP w)"
    | (unmarked) n marker where "dk_root (wd_disk w) = Some n" "kind_of (Some n) = Directory" "entries_of n \<noteq> []"
        "rootkind PREFIX_MARKER w = Missing"
        "single_marker (rootkind PROVISIONING_MARKER w) (rootkind COMMIT_PENDING_MARKER w) = Some marker"
        "classify_marker mp vi w marker (rootkind PROVISIONING_MARKER_TMP w) = Inr st"
proof -
  from st obtain k where k: "lstat w AtRoot [] = Inr k"
    and rest: "(if k = Missing then Inr RootAbsent else if k \<noteq> Directory then Inr (RootForeign NotRealDirectory)
       else and_then (entry_names w AtRoot) (classify_listed mp vi w)) = Inr st"
    unfolding classify_root_def and_then_Inr by blast
  note k = lstat_place [OF k, unfolded look.simps]
  show thesis
  proof (cases "k = Directory")
    case False
    with rest k absent foreign show thesis by (auto simp: kind_cases [symmetric] split: if_splits)
  next
    case True
    then obtain n where n: "dk_root (wd_disk w) = Some n" "kind_of (Some n) = Directory" using k by (auto simp: kind_directory)
    from rest True obtain names where names: "entry_names w AtRoot = Inr names" and rest: "classify_listed mp vi w names = Inr st"
      by (auto simp: and_then_Inr)
    from names_Inr [OF names] n(1) have names: "names = map fst (entries_of n)" by simp
    show thesis
    proof (cases "names = []")
      case True
      with rest names n empty show thesis by (auto simp: classify_listed_def)
    next
      case False
      with rest obtain tmp where tmp: "lstat w AtRoot PROVISIONING_MARKER_TMP = Inr tmp"
        and rest: "(if names = [PROVISIONING_MARKER_TMP] \<and> tmp = Regular \<and> marker_size w \<le> MAX_MARKER_BYTES
           then Inr PendingMarker else classify_evidence mp vi w tmp) = Inr st"
        by (auto simp: classify_listed_def and_then_Inr)
      note tmp = lstat_root [OF marker_not_Nil(4) tmp]
      show thesis
      proof (cases "names = [PROVISIONING_MARKER_TMP] \<and> tmp = Regular \<and> marker_size w \<le> MAX_MARKER_BYTES")
        case True
        with rest names n tmp pending show thesis by simp
      next
        case not_pending: False
        have "classify_evidence mp vi w tmp = Inr st" using rest unfolding if_not_P [OF not_pending] .
        then show thesis
          by (rule classify_evidence_cases) (use foreign manifest unmarked n tmp False names in \<open>auto\<close>)
      qed
    qed
  qed
qed

lemma manifest_state: "(\<exists>b. classify_manifest mp vi w marker tmp = Committed b) \<or> (\<exists>r. classify_manifest mp vi w marker tmp = RootForeign r)"
  by (auto simp: classify_manifest_def split: sum.splits option.splits)

lemma marker_state:
  assumes "classify_marker mp vi w marker tmp = Inr st"
  shows "st \<in> {Provisioning, CommitPending, LegacyValid} \<or> (\<exists>r. st = RootForeign r)"
  using assms by (auto simp: classify_marker_def classify_legacy_def and_then_Inr split: if_splits option.splits sum.splits)

lemma root_absent:
  assumes "classify_root mp vi w = Inr RootAbsent"
  shows "dk_root (wd_disk w) = None"
  using assms
proof (cases rule: classify_root_cases)
  case (manifest n marker)
  with manifest_state [of mp vi w marker "rootkind PROVISIONING_MARKER_TMP w"] show ?thesis by auto
next
  case (unmarked n marker)
  with marker_state show ?thesis by blast
qed auto

lemma root_empty:
  assumes "classify_root mp vi w = Inr RootEmpty"
  shows "\<exists>n. dk_root (wd_disk w) = Some n \<and> entries_of n = [] \<and> kind_of (Some n) = Directory"
  using assms
proof (cases rule: classify_root_cases)
  case (manifest n marker)
  with manifest_state [of mp vi w marker "rootkind PROVISIONING_MARKER_TMP w"] show ?thesis by auto
next
  case (unmarked n marker)
  with marker_state show ?thesis by blast
qed auto

lemma root_pending:
  assumes "classify_root mp vi w = Inr PendingMarker"
  shows "\<exists>n. dk_root (wd_disk w) = Some n \<and> map fst (entries_of n) = [PROVISIONING_MARKER_TMP] \<and>
    rootkind PROVISIONING_MARKER_TMP w = Regular"
  using assms
proof (cases rule: classify_root_cases)
  case (manifest n marker)
  with manifest_state [of mp vi w marker "rootkind PROVISIONING_MARKER_TMP w"] show ?thesis by auto
next
  case (unmarked n marker)
  with marker_state show ?thesis by blast
qed auto

lemma root_provisioning:
  assumes "classify_root mp vi w = Inr Provisioning"
  shows "rootkind PROVISIONING_MARKER w = Regular"
  using assms
proof (cases rule: classify_root_cases)
  case (manifest n marker)
  with manifest_state [of mp vi w marker "rootkind PROVISIONING_MARKER_TMP w"] show ?thesis by auto
next
  case (unmarked n marker)
  then show ?thesis
    by (auto simp: single_marker_def classify_marker_def classify_legacy_def and_then_Inr split: if_splits sum.splits)
qed auto

lemma rootkind_missing: "rootkind name w = Missing \<longleftrightarrow> entry AtRoot name (wd_disk w) = None"
  by (simp add: rootkind_def kind_cases)

lemma root_no_manifest:
  assumes "classify_root mp vi w = Inr (Committed b)"
  shows "entry AtRoot PREFIX_MARKER (wd_disk w) \<noteq> None"
  using assms
proof (cases rule: classify_root_cases)
  case (manifest n marker)
  then show ?thesis by (metis entry_kind.distinct(3) rootkind_missing)
next
  case (unmarked n marker)
  with marker_state show ?thesis by blast
qed auto

lemma root_with_manifest:
  assumes "classify_root mp vi w = Inr st" "entry AtRoot PREFIX_MARKER (wd_disk w) = Some (File m)"
  shows "(\<exists>b. st = Committed b) \<or> (\<exists>r. st = RootForeign r)"
proof -
  have regular: "rootkind PREFIX_MARKER w = Regular" by (simp add: rootkind_def assms)
  obtain n where n: "dk_root (wd_disk w) = Some n" "map_of (entries_of n) PREFIX_MARKER = Some (File m)"
    using assms(2) by (auto simp: entry_def split: option.splits)
  then have names: "map fst (entries_of n) \<noteq> [PROVISIONING_MARKER_TMP]" "entries_of n \<noteq> []" by (auto simp: marker_names)
  from assms(1) show ?thesis
  proof (cases rule: classify_root_cases)
    case (manifest n marker)
    with manifest_state [of mp vi w marker "rootkind PROVISIONING_MARKER_TMP w"] show ?thesis by auto
  qed (use n regular names in auto)
qed

lemma prior_root:
  assumes "classify_root mp vi w = Inr st" "dk_root (wd_disk w) = Some old" "prior_ok old"
  shows "st = Committed False \<or> st = LegacyValid \<or> (\<exists>r. st = RootForeign r)"
proof -
  obtain es where es: "old = Dir es" "es \<noteq> []" and none: "\<forall>name \<in> set ROOT_EVIDENCE. map_of es name = None"
    using assms(3) by (auto simp: prior_ok_def)
  then have kinds: "rootkind name w = Missing" if "name \<in> set ROOT_EVIDENCE" for name
    using that assms(2) by (auto simp: rootkind_missing entry_def)
  have k: "rootkind PROVISIONING_MARKER w = Missing" "rootkind COMMIT_PENDING_MARKER w = Missing"
    "rootkind PROVISIONING_MARKER_TMP w = Missing" by (auto intro!: kinds simp: ROOT_EVIDENCE_def)
  from assms(1) show ?thesis
  proof (cases rule: classify_root_cases)
    case (pending n)
    then have "PROVISIONING_MARKER_TMP \<in> fst ` set es" using es assms(2) by (metis entries_of.simps(1) list.set_intros(1) list.set_map option.inject)
    with none show ?thesis by (auto simp: ROOT_EVIDENCE_def map_of_keys)
  next
    case (manifest n marker)
    then show ?thesis by (auto simp: k single_marker_def classify_manifest_def split: sum.splits)
  next
    case (unmarked n marker)
    then show ?thesis
      by (auto simp: k single_marker_def classify_marker_def classify_legacy_def and_then_Inr split: if_splits)
  qed (use assms(2) es in auto)
qed

lemma backup_found:
  assumes "classify_backup mp vi w p = Inr st" "look p (wd_disk w) = Some (Dir es)" "es \<noteq> []"
  shows "st \<noteq> BackupAbsent \<and> st \<noteq> BackupEmpty"
proof -
  have contents: "st \<noteq> BackupAbsent \<and> st \<noteq> BackupEmpty" if "classify_contents mp vi w p = Inr st"
  proof -
    from that consider name where "classify_removing mp vi w p name = Inr st" | "classify_owned mp vi w p = Inr st"
      | "\<exists>r. st = BackupForeign r"
      by (auto simp: classify_contents_def split: sum.splits option.splits if_splits)
    then show ?thesis
    proof cases
      case 1
      then show ?thesis by (auto simp: classify_removing_def judged_def and_then_Inr split: if_splits sum.splits)
    next
      case 2
      then show ?thesis unfolding classify_owned_def and_then_Inr
        by (auto simp: judged_def and_then_Inr split: if_splits sum.splits entry_kind.splits) (metis entry_kind.exhaust)+
    qed auto
  qed
  obtain k where k: "lstat w p [] = Inr k" and st: "(if k = Missing then Inr BackupAbsent
       else if k \<noteq> Directory then Inr (BackupForeign NotRealDirectory)
       else if is_mount (look p (wd_disk w)) then Inr (BackupForeign OtherFileSystem)
       else
         and_then (entry_names w p) (\<lambda>names.
         if names = [] then Inr BackupEmpty
         else
           and_then (is_protected w p) (\<lambda>b.
           if b then Inr (BackupForeign ProtectedInstallation) else classify_contents mp vi w p))) = Inr st"
    using assms(1) unfolding classify_backup_def and_then_Inr by blast
  have "k = Directory" "\<not> is_mount (look p (wd_disk w))" using lstat_place [OF k] assms(2) by (simp_all add: is_mount_def)
  with st assms(2,3) have "(\<exists>r. st = BackupForeign r) \<or> classify_contents mp vi w p = Inr st"
    by (auto simp: and_then_Inr dest!: names_Inr split: if_splits)
  with contents show ?thesis by blast
qed

section \<open>What recovery decides\<close>

lemma decide_parts:
  assumes "decide mp w = Inr (out, root, backup)"
  obtains vi found legacy where "classify_root mp vi w = Inr root" "classify_backup mp vi w AtBackup = Inr found"
    "ro_removed_empty_backup out \<longleftrightarrow> found = BackupEmpty" "backup = (if found = BackupEmpty then BackupAbsent else found)"
    "plan root backup legacy = Inr (ro_action out)"
  using assms unfolding decide_def Let_def by (auto split: sum.splits if_splits)

lemma backup_missing:
  assumes "classify_backup mp vi w p = Inr st" "look p (wd_disk w) = None"
  shows "st = BackupAbsent"
  using assms unfolding classify_backup_def and_then_Inr by (auto dest!: lstat_place)

lemma decide_in_place:
  assumes "in_place old (wd_disk w)" "prior_ok old" "decide mp w = Inr (out, root, backup)"
  shows "ro_action out = NoAction \<and> \<not> ro_removed_empty_backup out"
  using assms(3)
proof (rule decide_parts)
  fix vi found legacy
  assume d: "classify_root mp vi w = Inr root" "classify_backup mp vi w AtBackup = Inr found"
    "ro_removed_empty_backup out \<longleftrightarrow> found = BackupEmpty" "backup = (if found = BackupEmpty then BackupAbsent else found)"
    "plan root backup legacy = Inr (ro_action out)"
  have "found = BackupAbsent" using backup_missing [OF d(2)] assms(1) by (simp add: in_place_def)
  with d prior_root [OF d(1) _ assms(2)] assms(1) show ?thesis by (auto simp: in_place_def plan_def)
qed

lemma decide_set_aside:
  assumes "set_aside old (wd_disk w)" "prior_ok old" "decide mp w = Inr (out, root, backup)"
  shows "\<not> ro_removed_empty_backup out \<and>
    (ro_action out = RestoreBackup \<and> root \<in> {RootAbsent, RootEmpty, PendingMarker} \<and> (root = RootAbsent \<longrightarrow> dk_root (wd_disk w) = None) \<or>
     ro_action out = DiscardPartialAndRestore \<and> root = Provisioning)"
  using assms(3)
proof (rule decide_parts)
  fix vi found legacy
  assume d: "classify_root mp vi w = Inr root" "classify_backup mp vi w AtBackup = Inr found"
    "ro_removed_empty_backup out \<longleftrightarrow> found = BackupEmpty" "backup = (if found = BackupEmpty then BackupAbsent else found)"
    "plan root backup legacy = Inr (ro_action out)"
  obtain es where es: "old = Dir es" "es \<noteq> []" using assms(2) by (auto simp: prior_ok_def)
  have found: "found \<noteq> BackupAbsent \<and> found \<noteq> BackupEmpty"
    by (rule backup_found [OF d(2) _ es(2)]) (use assms(1) es(1) in \<open>simp add: set_aside_def\<close>)
  have "root \<noteq> Committed b" for b using root_no_manifest [of mp vi w b] d(1) assms(1) by (auto simp: set_aside_def)
  with d found root_absent show ?thesis
    by (cases root; cases found) (auto simp: plan_def)
qed

definition completes :: "recovery_action \<Rightarrow> bool" where
  "completes a = (case a of NoAction \<Rightarrow> True | CompleteCommit _ _ \<Rightarrow> True | _ \<Rightarrow> False)"

lemma decide_replaced:
  assumes "replaced_by ms (wd_disk w)" "decide mp w = Inr (out, root, backup)"
  shows "completes (ro_action out)"
  using assms(2)
proof (rule decide_parts)
  fix vi found legacy
  assume d: "classify_root mp vi w = Inr root" "classify_backup mp vi w AtBackup = Inr found"
    "ro_removed_empty_backup out \<longleftrightarrow> found = BackupEmpty" "backup = (if found = BackupEmpty then BackupAbsent else found)"
    "plan root backup legacy = Inr (ro_action out)"
  obtain m where "entry AtRoot PREFIX_MARKER (wd_disk w) = Some (File m)"
    using assms(1) by (auto simp: replaced_by_def)
  from root_with_manifest [OF d(1) this] have "(\<exists>b. root = Committed b) \<or> (\<exists>r. root = RootForeign r)" .
  moreover have "completes a" if "plan st backup legacy = Inr a"
    "(\<exists>b. st = Committed b) \<or> (\<exists>r. st = RootForeign r)" for a st
    using that by (cases backup) (auto simp: plan_def completes_def split: if_splits)
  ultimately show ?thesis using d(5) by blast
qed

section \<open>Recovery from each state\<close>

lemma recover_from:
  assumes none: "\<And>d. I d \<Longrightarrow> K d"
    and act: "\<And>w out root backup. I (wd_disk w) \<Longrightarrow> decide mp w = Inr (out, root, backup) \<Longrightarrow>
       ro_action out \<noteq> NoAction \<or> ro_removed_empty_backup out \<Longrightarrow>
       triple (\<lambda>d. I d \<and> d = wd_disk w) (chain (if ro_removed_empty_backup out
                  then chain (atomic (Io ''remove empty backup'') (remove_dir AtBackup)) (\<lambda>_. sync_parent)
                  else ret ()) (\<lambda>_.
           chain (execute_action (ro_action out) root backup) (\<lambda>_. ret out))) (\<lambda>_. K) (\<lambda>_. K) K"
  shows "triple I (recover mp) (\<lambda>_. K) (\<lambda>_. K) K"
  unfolding recover_def
proof (rule triple_read)
  fix r
  let ?P = "\<lambda>d. I d \<and> (\<exists>w. wd_disk w = d \<and> decide mp w = r)"
  show "triple ?P (case r of Inl e \<Rightarrow> throw e
      | Inr (outcome, root, backup) \<Rightarrow>
         if ro_action outcome = NoAction \<and> \<not> ro_removed_empty_backup outcome then ret outcome
         else
           chain ensure_quiet (\<lambda>_.
           chain (if ro_removed_empty_backup outcome
                  then chain (atomic (Io ''remove empty backup'') (remove_dir AtBackup)) (\<lambda>_. sync_parent)
                  else ret ()) (\<lambda>_.
           chain (execute_action (ro_action outcome) root backup) (\<lambda>_. ret outcome)))) (\<lambda>_. K) (\<lambda>_. K) K"
  proof (cases r)
    case (Inl e)
    then show ?thesis using none by (auto intro: triple_throw)
  next
    case (Inr x)
    obtain out root backup where x: "x = (out, root, backup)" by (cases x)
    show ?thesis
    proof (cases "ro_action out = NoAction \<and> \<not> ro_removed_empty_backup out")
      case True
      then show ?thesis using none by (auto simp: Inr x intro: triple_ret)
    next
      case False
      have quiet: "triple ?P ensure_quiet (\<lambda>_. ?P) (\<lambda>_ :: failure. K) K" unfolding ensure_quiet_def
        by (rule triple_read) (auto intro!: triple_ret triple_throw none split: if_splits)
      have step: "triple ?P (chain (if ro_removed_empty_backup out
                  then chain (atomic (Io ''remove empty backup'') (remove_dir AtBackup)) (\<lambda>_. sync_parent)
                  else ret ()) (\<lambda>_.
           chain (execute_action (ro_action out) root backup) (\<lambda>_. ret out))) (\<lambda>_. K) (\<lambda>_. K) K" (is "triple _ ?m _ _ _")
      proof (rule triple_each)
        fix v :: world
        assume "?P (wd_disk v)"
        then obtain w where w: "I (wd_disk w)" "wd_disk w = wd_disk v" "decide mp w = Inr (out, root, backup)" by (auto simp: Inr x)
        show "triple (\<lambda>d. ?P d \<and> d = wd_disk v) ?m (\<lambda>_. K) (\<lambda>_. K) K"
          by (rule triple_pre [OF _ act [OF w(1,3)]]) (use False w(2) in auto)
      qed
      show ?thesis unfolding Inr x sum.case prod.case if_not_P [OF False] by (rule triple_chain [where R = "\<lambda>_. ?P", OF quiet step, unfolded Inr x])
    qed
  qed
qed

lemma recover_in_place:
  assumes "prior_ok old"
  shows "stays (in_place old) (recover mp)"
  by (rule recover_from) (use decide_in_place [OF _ assms] in auto)

lemma look_remove_dir: "fst (remove_dir p d) \<Longrightarrow> look p (snd (remove_dir p d)) = None"
  by (cases p) (auto simp: remove_dir_def map_of_eq_None_iff split: if_splits)

lemma option_program:
  "triple P a Q E K \<Longrightarrow> (\<And>y. x = Some y \<Longrightarrow> triple P (b y) Q E K) \<Longrightarrow> triple P (case x of None \<Rightarrow> a | Some y \<Rightarrow> b y) Q E K"
  by (cases x) auto

text \<open>Deleting a tree: every change but the last only takes entries away from the place.\<close>

lemma delete_tree:
  assumes dir: "\<And>f d. adds_none PREFIX_MARKER f \<Longrightarrow> I d \<Longrightarrow> I (snd (in_dir p f d))"
    and gone: "\<And>d. I d \<Longrightarrow> I (snd (remove_dir p d))"
  shows "triple I (delete_tree_last e p kept) (\<lambda>_ d. I d \<and> look p d = None) (\<lambda>_. I) I"
proof -
  have part: "I (partly_removed p name n d)" if "I d" for name n d
    using that by (cases n) (auto simp: partly_removed_def intro!: dir adds_none_simps)
  have entries: "stays I (delete_entries e p kept names)" for names
    by (induction names) (auto intro!: run_intros dir part adds_none_simps)
  have last: "triple I (atomic e (remove_dir p)) (\<lambda>_ d. I d \<and> look p d = None) (\<lambda>_. I) I"
    by (rule triple_atomic) (use gone in \<open>auto simp: look_remove_dir\<close>)
  show ?thesis unfolding delete_tree_last_def
    apply (rule triple_chain [where R = "\<lambda>_. I"], rule triple_observe, assumption)
    apply (rule option_program)
     apply (rule triple_throw, assumption)
    apply (rule triple_chain [OF entries], rule triple_chain [OF stays_simple(3)])
    apply (rule triple_chain [where R = "\<lambda>_. I"], rule stays_atomic, rule dir, rule adds_none_simps, assumption)
    apply (rule triple_chain [OF stays_simple(3)], rule last)
    done
qed

lemma stays_delete_tree:
  assumes "\<And>f d. adds_none PREFIX_MARKER f \<Longrightarrow> I d \<Longrightarrow> I (snd (in_dir p f d))" "\<And>d. I d \<Longrightarrow> I (snd (remove_dir p d))"
  shows "stays I (delete_tree_last e p kept)"
  by (rule triple_weaken [OF delete_tree]) (use assms in auto)

subsection \<open>After a commit\<close>

lemma replaced_root: "dk_root d' = dk_root d \<Longrightarrow> replaced_by ms d' = replaced_by ms d"
  by (simp add: replaced_by_def entry_def)

lemma replaced_in_dir:
  assumes "\<And>es. map_of (snd (f es)) PREFIX_MARKER = map_of es PREFIX_MARKER" "replaced_by ms d"
  shows "replaced_by ms (snd (in_dir AtRoot f d))"
  using assms unfolding replaced_by_def in_dir_entry by (auto simp: entry_def split: option.splits)

lemma replaced_in_backup: "replaced_by ms d \<Longrightarrow> replaced_by ms (snd (in_dir AtBackup f d))"
  using replaced_root [OF in_dir_backup] by blast

lemma replaced_remove_backup: "replaced_by ms d \<Longrightarrow> replaced_by ms (snd (remove_dir AtBackup d))"
  using replaced_root [of "snd (remove_dir AtBackup d)" d] by (auto simp: remove_dir_def)

lemma unlink_others [simp]: "a \<noteq> n \<Longrightarrow> map_of (snd (unlink_if_present_in a es)) n = map_of es n"
  by (auto simp: unlink_if_present_in_def unlink_in_def)

lemma stays_sync_parent: "stays I sync_parent" "stays I (sync e)" unfolding sync_parent_def by (rule stays_simple)+

lemma drop_stays: "PREFIX_MARKER \<notin> set names \<Longrightarrow> stays (replaced_by ms) (drop_markers names)"
  by (induction names) (auto intro!: run_intros replaced_in_dir)

lemma drop_stale: "stays (replaced_by ms) (drop_markers [PROVISIONING_MARKER, COMMIT_PENDING_MARKER, PROVISIONING_MARKER_TMP])"
  by (rule drop_stays) (simp add: marker_names)

lemma remove_backup_stays: "stays (replaced_by ms) (remove_backup st)"
proof -
  have "stays (replaced_by ms) invalidate_restoration_authority" unfolding invalidate_restoration_authority_def Let_def
    by (intro stays_read) (auto intro!: run_intros replaced_in_backup split: sum.split bool.split)
  then show ?thesis unfolding remove_backup_def Let_def
    by (intro stays_chain)
      (auto intro!: run_intros stays_sync_parent stays_delete_tree replaced_in_backup replaced_remove_backup
        split: backup_state.split sum.split option.split)
qed

lemma recover_replaced: "stays (replaced_by ms) (recover mp)"
proof (rule recover_from)
  fix w :: world and out root backup
  assume "replaced_by ms (wd_disk w)" "decide mp w = Inr (out, root, backup)"
  from decide_replaced [OF this] have act: "stays (replaced_by ms) (execute_action (ro_action out) root backup)"
    by (cases "ro_action out")
      (auto simp: completes_def execute_action_def simp del: drop_markers.simps
        intro!: run_intros stays_sync_parent drop_stale remove_backup_stays)
  have "stays (replaced_by ms) (chain (if ro_removed_empty_backup out
                  then chain (atomic (Io ''remove empty backup'') (remove_dir AtBackup)) (\<lambda>_. sync_parent)
                  else ret ()) (\<lambda>_.
           chain (execute_action (ro_action out) root backup) (\<lambda>_. ret out)))"
    by (auto intro!: run_intros stays_sync_parent act replaced_remove_backup)
  then show "triple (\<lambda>d. replaced_by ms d \<and> d = wd_disk w) (chain (if ro_removed_empty_backup out
                  then chain (atomic (Io ''remove empty backup'') (remove_dir AtBackup)) (\<lambda>_. sync_parent)
                  else ret ()) (\<lambda>_.
           chain (execute_action (ro_action out) root backup) (\<lambda>_. ret out))) (\<lambda>_. replaced_by ms) (\<lambda>_. replaced_by ms) (replaced_by ms)"
    by (rule triple_pre [rotated]) simp
qed

subsection \<open>While the previous prefix is set aside\<close>

definition waiting :: "node \<Rightarrow> disk \<Rightarrow> bool" where
  "waiting old d \<longleftrightarrow> set_aside old d \<or> in_place old d"

lemma set_aside_remove_root: "set_aside old d \<Longrightarrow> set_aside old (snd (remove_dir AtRoot d))"
  by (auto simp: set_aside_def remove_dir_def entry_def)

abbreviation room :: "node \<Rightarrow> disk \<Rightarrow> bool" where
  "room old d \<equiv> set_aside old d \<and> dk_root d = None"

lemma restores: 
  assumes "prior_ok old"
  shows "triple (room old) (restore_from AtBackup) (\<lambda>_. waiting old) (\<lambda>_. waiting old) (waiting old)"
  unfolding restore_from_def
  by (rule triple_chain [where R = "\<lambda>_. waiting old"], rule triple_atomic)
    (use assms in \<open>auto simp: waiting_def set_aside_def in_place_def move_entry_def prior_ok_def intro: stays_sync_parent\<close>)

lemma empties: "triple (set_aside old) (atomic e (remove_dir AtRoot)) (\<lambda>_. room old) (\<lambda>_. set_aside old) (set_aside old)"
  by (rule triple_atomic) (auto simp: set_aside_remove_root dest: look_remove_dir)

lemma clears:
  assumes "root \<in> {RootAbsent, RootEmpty, PendingMarker}"
  shows "triple (\<lambda>d. set_aside old d \<and> (root = RootAbsent \<longrightarrow> dk_root d = None)) (clear_non_data_root root)
    (\<lambda>_. room old) (\<lambda>_. set_aside old) (set_aside old)"
proof -
  have parent: "triple (room old) sync_parent (\<lambda>_. room old) (\<lambda>_. set_aside old) (set_aside old)"
    unfolding sync_parent_def by (rule triple_sync) auto
  have unlink: "stays (set_aside old) (atomic e (in_dir AtRoot (unlink_if_present_in PROVISIONING_MARKER_TMP)))" for e :: failure
    by (auto intro!: run_intros set_aside_in_dir adds_none_simps)
  show ?thesis
  proof (cases "root = RootAbsent")
    case True
    then show ?thesis by (auto simp: clear_non_data_root_def intro: triple_ret)
  next
    case False
    then have "triple (set_aside old) (clear_non_data_root root) (\<lambda>_. room old) (\<lambda>_. set_aside old) (set_aside old)"
      using assms unfolding clear_non_data_root_def
      by (auto intro!: triple_chain [OF unlink] triple_chain [OF empties] parent)
    then show ?thesis by (rule triple_pre [rotated]) simp
  qed
qed

lemma discards: "triple (set_aside old) discard_partial_root (\<lambda>_. room old) (\<lambda>_. set_aside old) (set_aside old)"
proof -
  have parent: "triple (room old) sync_parent (\<lambda>_. room old) (\<lambda>_. set_aside old) (set_aside old)"
    unfolding sync_parent_def by (rule triple_sync) auto
  have tree: "triple (set_aside old) (delete_tree_last e AtRoot kept) (\<lambda>_. room old) (\<lambda>_. set_aside old) (set_aside old)"
    for e :: failure and kept
    by (rule triple_weaken [OF delete_tree [where I = "set_aside old"]]) (auto intro: set_aside_in_dir set_aside_remove_root)
  show ?thesis unfolding discard_partial_root_def by (rule triple_chain [OF tree parent])
qed

lemma then_restores:
  assumes "prior_ok old" "triple P m (\<lambda>_. room old) (\<lambda>_. set_aside old) (set_aside old)"
  shows "triple P (chain m (\<lambda>_. restore_from AtBackup)) (\<lambda>_. waiting old) (\<lambda>_. waiting old) (waiting old)"
  by (rule triple_chain [OF _ restores [OF assms(1)]], rule triple_weaken [OF assms(2)]) (auto simp: waiting_def)

lemma recover_set_aside:
  assumes prior: "prior_ok old"
  shows "triple (set_aside old) (recover mp) (\<lambda>_. waiting old) (\<lambda>_. waiting old) (waiting old)"
proof (rule recover_from)
  fix w :: world and out root backup
  assume aside: "set_aside old (wd_disk w)" and d: "decide mp w = Inr (out, root, backup)"
  let ?P = "\<lambda>d. set_aside old d \<and> d = wd_disk w"
  from decide_set_aside [OF aside prior d] have keep: "\<not> ro_removed_empty_backup out"
    and cases: "ro_action out = RestoreBackup \<and> root \<in> {RootAbsent, RootEmpty, PendingMarker} \<and>
      (root = RootAbsent \<longrightarrow> dk_root (wd_disk w) = None) \<or> ro_action out = DiscardPartialAndRestore" by auto
  have act: "triple ?P (execute_action (ro_action out) root backup) (\<lambda>_. waiting old) (\<lambda>_. waiting old) (waiting old)"
    using cases
  proof
    assume c: "ro_action out = RestoreBackup \<and> root \<in> {RootAbsent, RootEmpty, PendingMarker} \<and>
      (root = RootAbsent \<longrightarrow> dk_root (wd_disk w) = None)"
    then have "execute_action (ro_action out) root backup = chain (clear_non_data_root root) (\<lambda>_. restore_from AtBackup)"
      by (simp add: execute_action_def)
    moreover have "triple ?P (chain (clear_non_data_root root) (\<lambda>_. restore_from AtBackup))
        (\<lambda>_. waiting old) (\<lambda>_. waiting old) (waiting old)"
      by (rule triple_pre [OF _ then_restores [OF prior clears]]) (use c in auto)
    ultimately show ?thesis by simp
  next
    assume "ro_action out = DiscardPartialAndRestore"
    then have "execute_action (ro_action out) root backup = chain discard_partial_root (\<lambda>_. restore_from AtBackup)"
      by (simp add: execute_action_def)
    moreover have "triple ?P (chain discard_partial_root (\<lambda>_. restore_from AtBackup)) (\<lambda>_. waiting old) (\<lambda>_. waiting old) (waiting old)"
      by (rule triple_pre [OF _ then_restores [OF prior discards]]) simp
    ultimately show ?thesis by simp
  qed
  show "triple ?P (chain (if ro_removed_empty_backup out
                  then chain (atomic (Io ''remove empty backup'') (remove_dir AtBackup)) (\<lambda>_. sync_parent)
                  else ret ()) (\<lambda>_.
           chain (execute_action (ro_action out) root backup) (\<lambda>_. ret out))) (\<lambda>_. waiting old) (\<lambda>_. waiting old) (waiting old)"
    unfolding if_not_P [OF keep]
    by (rule triple_chain [where R = "\<lambda>_. ?P"], rule triple_ret, assumption, rule triple_chain [OF act], rule stays_simple)
qed (simp add: waiting_def)

text \<open>Whatever happens to it, recovery loses nothing that has to survive.\<close>

lemma recover_stays:
  assumes "prior_ok old"
  shows "stays (protected old ms) (recover mp)"
proof -
  have w: "waiting old d \<Longrightarrow> protected old ms d" "in_place old d \<Longrightarrow> protected old ms d" "replaced_by ms d \<Longrightarrow> protected old ms d" for d
    by (auto simp: waiting_def protected_def)
  note ends = triple_weaken [OF recover_set_aside [OF assms] _ w(1) w(1) w(1)]
    triple_weaken [OF recover_in_place [OF assms] _ w(2) w(2) w(2)] triple_weaken [OF recover_replaced _ w(3) w(3) w(3)]
  have "triple (\<lambda>d. in_place old d \<or> set_aside old d \<or> replaced_by ms d) (recover mp)
      (\<lambda>_. protected old ms) (\<lambda>_. protected old ms) (protected old ms)"
    by (intro triple_disj) (auto intro: ends)
  then show ?thesis by (rule triple_pre [rotated]) (simp add: protected_def)
qed

section \<open>The transaction\<close>

subsection \<open>Preparing the root\<close>

lemma result_program:
  "(\<And>e. x = Inl e \<Longrightarrow> triple P (a e) Q E K) \<Longrightarrow> (\<And>y. x = Inr y \<Longrightarrow> triple P (b y) Q E K) \<Longrightarrow>
   triple P (case x of Inl e \<Rightarrow> a e | Inr y \<Rightarrow> b y) Q E K"
  by (cases x) auto

lemma stays_bool: "(b \<Longrightarrow> stays I m) \<Longrightarrow> (\<not> b \<Longrightarrow> stays I m') \<Longrightarrow> stays I (if b then m else m')"
  by simp

text \<open>What the classification says of a disk, as a condition on the disk.\<close>

lemma classified:
  assumes "\<And>st. triple (\<lambda>d. P d \<and> (\<exists>w vi. wd_disk w = d \<and> classify_root mp vi w = Inr st)) (g st) Q E K" "\<And>e d. P d \<Longrightarrow> E e d"
  shows "triple P (chain (classify_root_now mp) g) Q E K"
proof (rule triple_chain [OF _ assms(1)])
  show "triple P (classify_root_now mp) (\<lambda>st d. P d \<and> (\<exists>w vi. wd_disk w = d \<and> classify_root mp vi w = Inr st)) E K"
    unfolding classify_root_now_def
    by (rule triple_read, rule result_program) (auto intro: triple_throw triple_ret assms(2))
qed

lemma waiting_empty:
  assumes "prior_ok old" "waiting old (wd_disk w)" "classify_root mp vi w = Inr st" "st = RootAbsent \<or> st = RootEmpty"
  shows "set_aside old (wd_disk w)"
proof -
  have "\<not> in_place old (wd_disk w)"
  proof
    assume "in_place old (wd_disk w)"
    then have r: "dk_root (wd_disk w) = Some old" by (simp add: in_place_def)
    with assms(1,3,4) root_absent [of mp vi w] root_empty [of mp vi w] show False by (auto simp: prior_ok_def)
  qed
  with assms(2) show ?thesis by (simp add: waiting_def)
qed

lemma moves:
  assumes "prior_ok old"
  shows "stays (waiting old) move_root_to_backup"
proof -
  have move: "triple (in_place old) (atomic e (move_entry AtRoot AtBackup)) (\<lambda>_. waiting old) (\<lambda>_. waiting old) (waiting old)"
    for e :: failure
    using assms by (intro triple_atomic) (auto simp: in_place_def waiting_def set_aside_def move_entry_def prior_ok_def entry_def)
  have rest: "triple (in_place old) (chain (observe (\<lambda>w. is_protected w AtRoot)) (\<lambda>b.
           case b of
             Inl _ \<Rightarrow> throw (Io ''inspect protection'')
           | Inr True \<Rightarrow> throw HasInstallation
           | Inr False \<Rightarrow>
               chain (atomic (Io ''preserve previous prefix'') (move_entry AtRoot AtBackup)) (\<lambda>_.
               chain sync_parent (\<lambda>_. ret True)))) (\<lambda>_. waiting old) (\<lambda>_. waiting old) (waiting old)"
    by (rule triple_chain [where R = "\<lambda>_. in_place old"])
      (auto intro!: triple_observe triple_throw triple_chain [OF move] run_intros stays_sync_parent
        simp: waiting_def split: sum.split bool.split)
  show ?thesis unfolding move_root_to_backup_def
  proof (rule triple_read, rule result_program)
    fix x :: "(reason, entry_kind) result" and k
    assume x: "x = Inr k"
    let ?P = "\<lambda>d. waiting old d \<and> (\<exists>w. wd_disk w = d \<and> lstat w AtBackup [] = x)"
    have "in_place old d" if "?P d" "k = Missing" for d
      using that x by (auto simp: waiting_def set_aside_def kind_cases eq_commute [of Missing] dest!: lstat_place)
    then show "triple ?P (if k \<noteq> Missing then throw (Ambiguity BackupPresent)
         else chain (observe (\<lambda>w. is_protected w AtRoot)) (\<lambda>b.
           case b of
             Inl _ \<Rightarrow> throw (Io ''inspect protection'')
           | Inr True \<Rightarrow> throw HasInstallation
           | Inr False \<Rightarrow>
               chain (atomic (Io ''preserve previous prefix'') (move_entry AtRoot AtBackup)) (\<lambda>_.
               chain sync_parent (\<lambda>_. ret True)))) (\<lambda>_. waiting old) (\<lambda>_. waiting old) (waiting old)"
      by (auto intro: triple_throw triple_pre [OF _ rest])
  qed (auto intro: triple_throw)
qed

lemma preserves:
  assumes prior: "prior_ok old"
  shows "stays (waiting old) (preserve_for_reset mp)"
  unfolding preserve_for_reset_def
proof (rule classified)
  fix st
  define P where "P = (\<lambda>d. waiting old d \<and> (\<exists>w vi. wd_disk w = d \<and> classify_root mp vi w = Inr st))"
  have P: "waiting old d" if "P d" for d using that by (simp add: P_def)
  have move: "triple P move_root_to_backup (\<lambda>_. waiting old) (\<lambda>_. waiting old) (waiting old)"
    by (rule triple_pre [OF P moves [OF prior]])
  have simple: "triple P (ret x) (\<lambda>_. waiting old) (\<lambda>_. waiting old) (waiting old)"
    "triple P (throw e) (\<lambda>_. waiting old) (\<lambda>_. waiting old) (waiting old)" for x :: bool and e :: failure
    by (auto intro: triple_ret triple_throw P)
  have remove: "triple P (chain (atomic e (remove_dir AtRoot)) (\<lambda>_. chain sync_parent (\<lambda>_. ret False)))
      (\<lambda>_. waiting old) (\<lambda>_. waiting old) (waiting old)" if "st = RootEmpty" for e :: failure
  proof (rule triple_pre)
    show "set_aside old d" if "P d" for d using that \<open>st = RootEmpty\<close> waiting_empty [OF prior] unfolding P_def by blast
    show "triple (set_aside old) (chain (atomic e (remove_dir AtRoot)) (\<lambda>_. chain sync_parent (\<lambda>_. ret False)))
      (\<lambda>_. waiting old) (\<lambda>_. waiting old) (waiting old)"
      by (rule triple_weaken [where P = "set_aside old" and Q = "\<lambda>_. set_aside old" and E = "\<lambda>_. set_aside old" and K = "set_aside old"])
        (auto intro!: run_intros stays_sync_parent set_aside_remove_root simp: waiting_def)
  qed
  have "triple P (case st of
       RootAbsent \<Rightarrow> ret False
     | RootEmpty \<Rightarrow>
         chain (atomic (Io ''remove empty root'') (remove_dir AtRoot)) (\<lambda>_. chain sync_parent (\<lambda>_. ret False))
     | Committed stale \<Rightarrow> if stale then throw (NotConfirmed st) else move_root_to_backup
     | LegacyValid \<Rightarrow> move_root_to_backup
     | _ \<Rightarrow> throw (NotConfirmed st)) (\<lambda>_. waiting old) (\<lambda>_. waiting old) (waiting old)"
    by (cases st) (auto intro: simple move remove)
  then show "triple (\<lambda>d. waiting old d \<and> (\<exists>w vi. wd_disk w = d \<and> classify_root mp vi w = Inr st)) (case st of
       RootAbsent \<Rightarrow> ret False
     | RootEmpty \<Rightarrow>
         chain (atomic (Io ''remove empty root'') (remove_dir AtRoot)) (\<lambda>_. chain sync_parent (\<lambda>_. ret False))
     | Committed stale \<Rightarrow> if stale then throw (NotConfirmed st) else move_root_to_backup
     | LegacyValid \<Rightarrow> move_root_to_backup
     | _ \<Rightarrow> throw (NotConfirmed st)) (\<lambda>_. waiting old) (\<lambda>_. waiting old) (waiting old)" unfolding P_def .
qed

subsection \<open>Building the new prefix\<close>

lemma set_aside_make_root: "set_aside old d \<Longrightarrow> set_aside old (snd (make_dir AtRoot d))"
  by (auto simp: set_aside_def make_dir_def entry_def)

lemma set_aside_partly_written: "set_aside old d \<Longrightarrow> set_aside old (partly_written AtRoot name bytes n d)"
  by (cases n) (auto simp: partly_written_def intro: set_aside_in_dir adds_none_simps)

lemma marker_changes:
  "adds_none PREFIX_MARKER (rename_in a PROVISIONING_MARKER)" "adds_none PREFIX_MARKER (rename_in a COMMIT_PENDING_MARKER)"
  "adds_none PREFIX_MARKER (create_in PROVISIONING_MARKER_TMP)" "adds_none PREFIX_MARKER (write_in name bytes)"
  "adds_none PREFIX_MARKER (\<lambda>es. (True, provisioned payload es))"
  by (rule adds_none_simps; simp add: marker_names)+

lemmas aside_intros = run_intros stays_sync_parent set_aside_in_dir marker_changes set_aside_make_root set_aside_partly_written

lemma begins:
  assumes prior: "prior_ok old"
  shows "triple (waiting old) (begin_provisioning mp fingerprint now) (\<lambda>_. set_aside old) (\<lambda>_. waiting old) (waiting old)"
proof -
  let ?json = "\<lambda>fp. cd_marker_text (mp_codec mp) (marker_of mp fp now)"
  let ?rest = "\<lambda>fp. chain sync_parent (\<lambda>_.
             chain (atomic (Io ''create marker'') (in_dir AtRoot (create_in PROVISIONING_MARKER_TMP))) (\<lambda>_.
             chain (effect (Io ''write marker'') (in_dir AtRoot (write_in PROVISIONING_MARKER_TMP (?json fp)))
                      (partly_written AtRoot PROVISIONING_MARKER_TMP (?json fp))) (\<lambda>_.
             chain (sync (Io ''write marker'')) (\<lambda>_.
             chain (atomic (Io ''activate marker'') (in_dir AtRoot (rename_in PROVISIONING_MARKER_TMP PROVISIONING_MARKER))) (\<lambda>_.
             sync (Io ''sync marker''))))))"
  have rest: "stays (set_aside old) (?rest fp)" for fp by (auto intro!: aside_intros)
  have all: "triple (waiting old) (chain (classify_root_now mp) (\<lambda>st.
             chain (case st of
                      RootAbsent \<Rightarrow> atomic (Io ''create root'') (make_dir AtRoot)
                    | RootEmpty \<Rightarrow> ret ()
                    | _ \<Rightarrow> throw (HasData st)) (\<lambda>_. ?rest fp))) (\<lambda>_. set_aside old) (\<lambda>_. waiting old) (waiting old)" for fp
  proof (rule classified)
    fix st
    define P where "P = (\<lambda>d. waiting old d \<and> (\<exists>w vi. wd_disk w = d \<and> classify_root mp vi w = Inr st))"
    have P: "waiting old d" if "P d" for d using that by (simp add: P_def)
    have aside: "set_aside old d" if "P d" "st = RootAbsent \<or> st = RootEmpty" for d
      using that waiting_empty [OF prior] unfolding P_def by blast
    have make: "stays (set_aside old) (chain (atomic (Io ''create root'') (make_dir AtRoot)) (\<lambda>_. ?rest fp))"
      by (rule stays_chain [OF _ rest]) (auto intro: aside_intros)
    have same: "stays (set_aside old) (chain (ret ()) (\<lambda>_. ?rest fp))" by (rule stays_chain [OF _ rest]) (rule stays_simple)
    have begun: "triple P m (\<lambda>_. set_aside old) (\<lambda>_. waiting old) (waiting old)"
      if "stays (set_aside old) m" "st = RootAbsent \<or> st = RootEmpty" for m :: "(failure, unit) run"
      by (rule triple_weaken [OF that(1)]) (use aside that(2) in \<open>auto simp: waiting_def\<close>)
    have fails: "triple P (chain (throw e) g) (\<lambda>_. set_aside old) (\<lambda>_. waiting old) (waiting old)"
      for e :: failure and g :: "unit \<Rightarrow> (failure, unit) run"
      by (rule triple_chain [where R = "\<lambda>_ _. False"]) (auto intro: triple_throw triple_False P)
    have "triple P (chain (case st of
                      RootAbsent \<Rightarrow> atomic (Io ''create root'') (make_dir AtRoot)
                    | RootEmpty \<Rightarrow> ret ()
                    | _ \<Rightarrow> throw (HasData st)) (\<lambda>_. ?rest fp)) (\<lambda>_. set_aside old) (\<lambda>_. waiting old) (waiting old)"
      by (cases st) (auto intro: begun make same fails)
    then show "triple (\<lambda>d. waiting old d \<and> (\<exists>w vi. wd_disk w = d \<and> classify_root mp vi w = Inr st)) (chain (case st of
                      RootAbsent \<Rightarrow> atomic (Io ''create root'') (make_dir AtRoot)
                    | RootEmpty \<Rightarrow> ret ()
                    | _ \<Rightarrow> throw (HasData st)) (\<lambda>_. ?rest fp)) (\<lambda>_. set_aside old) (\<lambda>_. waiting old) (waiting old)"
      unfolding P_def .
  qed
  show ?thesis unfolding begin_provisioning_def Let_def
    by (rule result_program) (auto intro!: triple_throw triple_chain [OF stays_simple(3)] all)
qed

lemma provisions: "stays (set_aside old) (provision wk)"
  unfolding provision_def by (auto intro!: aside_intros)

lemma revokes: "stays (set_aside old) revoke_rollback_authority"
  unfolding revoke_rollback_authority_def by (auto intro!: aside_intros)

lemma reinstates: "stays (set_aside old) reinstate_rollback_authority"
  unfolding reinstate_rollback_authority_def Let_def
  by (rule stays_read) (auto intro!: aside_intros split: sum.split bool.split)

subsection \<open>The commit\<close>

definition written :: "node \<Rightarrow> string \<Rightarrow> u8 list \<Rightarrow> disk \<Rightarrow> bool" where
  "written old name bytes d \<longleftrightarrow> set_aside old d \<and> entry AtRoot name d = Some (File bytes)"

definition claimed :: "node \<Rightarrow> string \<Rightarrow> disk \<Rightarrow> bool" where
  "claimed old name d \<longleftrightarrow> set_aside old d \<and> entry AtRoot name d \<noteq> None"

fun torn :: "node \<Rightarrow> u8 list \<Rightarrow> commit_error \<Rightarrow> disk \<Rightarrow> bool" where
  "torn old json BeforeRename d = set_aside old d"
| "torn old json AfterRename d = replaced_by {json} d"

definition either :: "node \<Rightarrow> u8 list \<Rightarrow> disk \<Rightarrow> bool" where
  "either old json d \<longleftrightarrow> set_aside old d \<or> replaced_by {json} d"

lemma claims:
  assumes "name \<noteq> PREFIX_MARKER" "set_aside old d"
  shows "set_aside old (snd (in_dir AtRoot (create_in name) d))"
    "fst (in_dir AtRoot (create_in name) d) \<Longrightarrow> entry AtRoot name (snd (in_dir AtRoot (create_in name) d)) \<noteq> None"
proof -
  show "set_aside old (snd (in_dir AtRoot (create_in name) d))" using assms by (auto intro!: set_aside_in_dir adds_none_simps)
  show "entry AtRoot name (snd (in_dir AtRoot (create_in name) d)) \<noteq> None" if "fst (in_dir AtRoot (create_in name) d)"
    using that by (auto simp: in_dir_accepted in_dir_entry create_in_def map_of_keys split: if_splits)
qed

lemma writes:
  "triple (claimed old name) (effect e (in_dir AtRoot (write_in name bytes)) (partly_written AtRoot name bytes))
     (\<lambda>_. written old name bytes) (\<lambda>_. set_aside old) (set_aside old)"
proof (rule triple_effect)
  fix d :: disk
  assume claimed: "claimed old name d"
  then show same: "set_aside old (snd (in_dir AtRoot (write_in name bytes) d))"
    by (auto simp: claimed_def intro!: set_aside_in_dir marker_changes)
  assume "fst (in_dir AtRoot (write_in name bytes) d)"
  then show "written old name bytes (snd (in_dir AtRoot (write_in name bytes) d))"
    using same claimed
    by (auto simp: claimed_def written_def in_dir_accepted in_dir_entry write_in_def map_of_replaced root_entry rev_image_eqI dest!: map_of_SomeD)
qed (auto simp: claimed_def set_aside_partly_written)

lemma renames:
  assumes "name \<noteq> PREFIX_MARKER"
  shows "triple (written old name json) (atomic e (in_dir AtRoot (rename_over name PREFIX_MARKER)))
     (\<lambda>_. replaced_by {json}) (\<lambda>_. set_aside old) (set_aside old)"
proof (rule triple_atomic)
  fix d :: disk
  assume w: "written old name json d"
  { assume "fst (in_dir AtRoot (rename_over name PREFIX_MARKER) d)"
    then show "replaced_by {json} (snd (in_dir AtRoot (rename_over name PREFIX_MARKER) d))"
      using w assms by (auto simp: written_def replaced_by_def in_dir_accepted in_dir_entry map_of_rename_over root_entry)
  next
    assume no: "\<not> fst (in_dir AtRoot (rename_over name PREFIX_MARKER) d)"
    show "set_aside old (snd (in_dir AtRoot (rename_over name PREFIX_MARKER) d))"
    proof (cases "dk_root d")
      case (Some n)
      show ?thesis
      proof (cases "is_listed n")
        case True
        with no Some have "\<not> fst (rename_over name PREFIX_MARKER (entries_of n))" by (simp add: in_dir_accepted)
        then have "entry AtRoot PREFIX_MARKER (snd (in_dir AtRoot (rename_over name PREFIX_MARKER) d)) = entry AtRoot PREFIX_MARKER d"
          unfolding in_dir_entry using Some True by (simp add: rename_over_refused entry_def)
        with w show ?thesis by (simp add: written_def set_aside_def in_dir_root)
      qed (use Some w in \<open>auto simp: in_dir_def written_def\<close>)
    qed (use w in \<open>auto simp: in_dir_def written_def\<close>)
  }
qed (auto simp: written_def)

lemma discards_temporary: "triple (set_aside old) (discard_temporary name) (\<lambda>_. Q) (torn old json) (set_aside old)"
  unfolding discard_temporary_def
  by (rule triple_chain [where R = "\<lambda>_. set_aside old"], rule triple_attempt, rule stays_atomic)
    (auto intro!: set_aside_in_dir adds_none_simps triple_throw)

lemma or_discards:
  assumes "triple P m (\<lambda>_. Q) (\<lambda>_. set_aside old) (set_aside old)"
  shows "triple P (or_discard name m) (\<lambda>_. Q) (torn old json) (set_aside old)"
  unfolding or_discard_def
  by (rule triple_chain [where R = "\<lambda>r. case r of Inl _ \<Rightarrow> set_aside old | Inr _ \<Rightarrow> Q"], rule triple_attempt)
    (auto intro: assms discards_temporary triple_ret split: sum.split)

lemma commits:
  assumes name: "name \<noteq> PREFIX_MARKER"
  shows "triple (set_aside old) (commit_prefix_manifest name json) (\<lambda>_. replaced_by {json}) (torn old json) (either old json)"
proof -
  have store: "triple (claimed old name) (or_discard name
      (chain (effect BeforeRename (in_dir AtRoot (write_in name json)) (partly_written AtRoot name json)) (\<lambda>_. sync BeforeRename)))
      (\<lambda>_. written old name json) (torn old json) (set_aside old)"
    by (rule or_discards, rule triple_chain [OF writes], rule triple_sync) (auto simp: written_def)
  have rename: "triple (written old name json) (or_discard name (atomic BeforeRename (in_dir AtRoot (rename_over name PREFIX_MARKER))))
      (\<lambda>_. replaced_by {json}) (torn old json) (set_aside old)"
    by (rule or_discards, rule renames [OF name])
  have last: "triple (replaced_by {json}) (sync AfterRename) (\<lambda>_. replaced_by {json}) (torn old json) (either old json)"
    by (rule triple_sync) (auto simp: either_def)
  have create: "triple (set_aside old) (atomic BeforeRename (in_dir AtRoot (create_in name))) (\<lambda>_. claimed old name)
      (torn old json) (set_aside old)"
    by (rule triple_atomic) (auto simp: claimed_def dest: claims [OF name])
  have dir: "triple (set_aside old) (atomic BeforeRename (ensure_dir AtRoot)) (\<lambda>_. set_aside old) (torn old json) (either old json)"
    by (rule triple_atomic) (auto simp: set_aside_def ensure_dir_def entry_def either_def split: option.splits if_splits)
  have killed: "triple P m Q E (either old json)" if "triple P m Q E (set_aside old)"
    for P Q and m :: "(commit_error, unit) run" and E
    by (rule triple_weaken [OF that]) (auto simp: either_def)
  have refused: "triple (set_aside old) (throw BeforeRename) Q (torn old json) (either old json)" for Q :: "unit \<Rightarrow> disk \<Rightarrow> bool"
    by (rule triple_throw) simp
  have rest: "triple (set_aside old) (chain (atomic BeforeRename (in_dir AtRoot (create_in name))) (\<lambda>_.
       chain (or_discard name
               (chain (effect BeforeRename (in_dir AtRoot (write_in name json)) (partly_written AtRoot name json)) (\<lambda>_.
                sync BeforeRename))) (\<lambda>_.
       chain (or_discard name (atomic BeforeRename (in_dir AtRoot (rename_over name PREFIX_MARKER)))) (\<lambda>_.
       sync AfterRename)))) (\<lambda>_. replaced_by {json}) (torn old json) (either old json)"
    by (rule triple_chain [OF killed [OF create]], rule triple_chain [OF killed [OF store]], rule triple_chain [OF killed [OF rename]], rule last)
  show ?thesis unfolding commit_prefix_manifest_def
    by (rule triple_chain [OF dir]) (auto intro!: triple_skip refused rest)
qed

subsection \<open>The whole transaction\<close>

fun reached :: "node \<Rightarrow> u8 list set \<Rightarrow> failure \<times> authority \<Rightarrow> disk \<Rightarrow> bool" where
  "reached old ms (_, Held) d = waiting old d"
| "reached old ms (_, Reinstatable) d = set_aside old d"
| "reached old ms (_, Revoked) d = replaced_by ms d"

lemma protects: "waiting old d \<Longrightarrow> protected old ms d" "set_aside old d \<Longrightarrow> protected old ms d" "replaced_by ms d \<Longrightarrow> protected old ms d"
  by (auto simp: waiting_def protected_def)

lemma with_authority_held:
  assumes "triple P m Q (\<lambda>_. waiting old) (waiting old)"
  shows "triple P (with_authority Held m) Q (reached old ms) (protected old ms)"
  unfolding with_authority_def
  by (rule triple_chain [where R = "\<lambda>r. case r of Inl _ \<Rightarrow> waiting old | Inr x \<Rightarrow> Q x"], rule triple_attempt, rule triple_weaken [OF assms])
    (auto intro!: result_program triple_throw triple_ret simp: protects)

lemma held_aside: "stays (set_aside old) m \<Longrightarrow> triple (set_aside old) (with_authority Held m) (\<lambda>_. set_aside old) (reached old ms) (protected old ms)"
  by (rule with_authority_held, erule triple_weaken) (auto simp: waiting_def)

lemma reinstatable_aside:
  assumes "stays (set_aside old) m"
  shows "triple (set_aside old) (with_authority Reinstatable m) (\<lambda>_. set_aside old) (reached old ms) (protected old ms)"
  unfolding with_authority_def
  by (rule triple_chain [where R = "\<lambda>_. set_aside old"], rule triple_attempt, rule triple_weaken [OF assms])
    (auto intro!: result_program triple_throw triple_ret simp: protects)

definition commits_within :: "u8 list set \<Rightarrow> work \<Rightarrow> bool" where
  "commits_within ms wk \<longleftrightarrow>
     wk_temporary wk \<notin> set EVIDENCE \<and> (case wk_manifest wk of None \<Rightarrow> True | Some json \<Rightarrow> json \<in> ms)"

lemma commit_works:
  assumes "commits_within ms wk"
  shows "triple (set_aside old) (commit_work wk) (\<lambda>_. replaced_by ms) (reached old ms) (protected old ms)"
proof (cases "wk_manifest wk")
  case None
  then show ?thesis by (auto simp: commit_work_def intro: triple_throw)
next
  case (Some json)
  have name: "wk_temporary wk \<noteq> PREFIX_MARKER" and json: "json \<in> ms" using assms Some by (auto simp: commits_within_def EVIDENCE_def)
  have more: "replaced_by {json} d \<Longrightarrow> replaced_by ms d" for d using json by (auto simp: replaced_by_def)
  have ended: "triple (set_aside old) (attempt (commit_prefix_manifest (wk_temporary wk) json))
      (\<lambda>r. case r of Inl e \<Rightarrow> torn old json e | Inr _ \<Rightarrow> replaced_by {json}) (reached old ms) (protected old ms)"
    by (rule triple_attempt, rule triple_weaken [OF commits [OF name]]) (auto simp: either_def protects more)
  show ?thesis unfolding commit_work_def Some option.case
  proof (rule triple_chain [OF ended], rule result_program)
    fix r :: "(commit_error, unit) result" and e
    assume r: "r = Inl e"
    show "triple (case r of Inl e \<Rightarrow> torn old json e | Inr _ \<Rightarrow> replaced_by {json})
        (case e of BeforeRename \<Rightarrow> throw (WorkFailed ''commit'', Reinstatable) | AfterRename \<Rightarrow> throw (WorkFailed ''commit'', Revoked))
        (\<lambda>_. replaced_by ms) (reached old ms) (protected old ms)"
      by (cases e) (auto simp: r more intro!: triple_throw)
  qed (auto intro: triple_ret more)
qed

lemma body:
  assumes "prior_ok old" "commits_within ms wk"
  shows "triple (waiting old) (transaction_body mp fingerprint wk) (\<lambda>_. replaced_by ms) (reached old ms) (protected old ms)"
  unfolding transaction_body_def
  by (rule triple_chain [OF with_authority_held [OF begins [OF assms(1)]]], rule triple_chain [OF held_aside [OF provisions]],
      rule triple_chain [OF held_aside], force simp: from_answer_def intro: stays_simple split: option.split,
      rule triple_chain [OF held_aside [OF stays_simple(3)]], rule triple_chain [OF reinstatable_aside [OF revokes]],
      rule commit_works [OF assms(2)])

lemma reconciles:
  assumes "prior_ok old"
  shows "triple (protected old ms) (reconciled mp primary) (\<lambda>_. Q) (\<lambda>_. protected old ms) (protected old ms)"
  unfolding reconciled_def
  by (rule triple_chain [OF stays_attempt [OF recover_stays [OF assms]]]) (auto intro!: result_program triple_throw)

lemma resets:
  assumes "prior_ok old"
  shows "triple (waiting old) (reset_first mp) (\<lambda>_. waiting old) (\<lambda>_. protected old ms) (protected old ms)"
proof -
  have first: "triple (waiting old) (attempt (preserve_for_reset mp)) (\<lambda>_. waiting old) (\<lambda>_. protected old ms) (protected old ms)"
    by (rule triple_attempt, rule triple_weaken [OF preserves [OF assms]]) (auto intro: protects)
  have again: "triple (waiting old) (reconciled mp primary) (\<lambda>_. waiting old) (\<lambda>_. protected old ms) (protected old ms)" for primary
    by (rule triple_pre [OF protects(1) reconciles [OF assms]])
  show ?thesis unfolding reset_first_def
    by (rule triple_chain [OF first]) (auto intro!: result_program triple_ret triple_skip triple_throw again simp: protects)
qed

lemma transaction_stays:
  assumes prior: "prior_ok old" and wk: "commits_within ms wk"
  shows "triple (waiting old) (run_managed_transaction mp kind fingerprint wk)
    (\<lambda>_. protected old ms) (\<lambda>_. protected old ms) (protected old ms)"
proof -
  let ?S = "protected old ms"
  have first: "triple (waiting old) (if kind = Reset then reset_first mp else ret ()) (\<lambda>_. waiting old) (\<lambda>_. ?S) ?S"
    by (auto intro: resets [OF prior] triple_ret)
  have second: "triple (waiting old) (attempt (transaction_body mp fingerprint wk))
      (\<lambda>r. case r of Inl e \<Rightarrow> reached old ms e | Inr _ \<Rightarrow> replaced_by ms) (\<lambda>_. ?S) ?S"
    by (rule triple_attempt, rule triple_weaken [OF body [OF prior wk]]) auto
  have safe: "?S d" if "reached old ms (e, a) d" for e a d using that by (cases a) (auto intro: protects)
  have cleanup: "triple (reached old ms (e, a)) (if a = Reinstatable then attempt reinstate_rollback_authority else ret (Inr ()))
      (\<lambda>_. ?S) (\<lambda>_. ?S) ?S" for e a
    by (cases a) (auto intro!: triple_ret triple_weaken [OF stays_attempt [OF reinstates]] simp: protects)
  have ended: "triple (reached old ms (e, a)) (case wk_quiesce_again wk of
            Some cleanup \<Rightarrow> throw (CleanupPending e cleanup)
          | None \<Rightarrow>
              chain (if a = Reinstatable then attempt reinstate_rollback_authority else ret (Inr ())) (\<lambda>r.
              case r of
                Inl f \<Rightarrow> throw (Together e f)
              | Inr _ \<Rightarrow> reconciled mp e)) (\<lambda>_. ?S) (\<lambda>_. ?S) ?S" for e a
  proof (rule option_program)
    show "triple (reached old ms (e, a)) (throw (CleanupPending e c)) (\<lambda>_. ?S) (\<lambda>_. ?S) ?S" for c
      by (rule triple_throw) (rule safe)
    show "triple (reached old ms (e, a)) (chain (if a = Reinstatable then attempt reinstate_rollback_authority else ret (Inr ())) (\<lambda>r.
              case r of
                Inl f \<Rightarrow> throw (Together e f)
              | Inr _ \<Rightarrow> reconciled mp e)) (\<lambda>_. ?S) (\<lambda>_. ?S) ?S"
      by (rule triple_chain [OF cleanup]) (auto intro!: result_program triple_throw reconciles [OF prior])
  qed
  show ?thesis unfolding run_managed_transaction_def
  proof (rule triple_chain [OF first], rule triple_chain [OF second], rule result_program)
    fix r :: "(failure \<times> authority, unit) result" and e
    assume r: "r = Inl e"
    obtain primary a where e: "e = (primary, a)" by (cases e)
    show "triple (case r of Inl e \<Rightarrow> reached old ms e | Inr _ \<Rightarrow> replaced_by ms) (case e of (primary, authority) \<Rightarrow>
         (case wk_quiesce_again wk of
            Some cleanup \<Rightarrow> throw (CleanupPending primary cleanup)
          | None \<Rightarrow>
              chain (if authority = Reinstatable then attempt reinstate_rollback_authority else ret (Inr ())) (\<lambda>r.
              case r of
                Inl e \<Rightarrow> throw (Together primary e)
              | Inr _ \<Rightarrow> reconciled mp primary))) (\<lambda>_. ?S) (\<lambda>_. ?S) ?S"
      unfolding r e sum.case prod.case by (rule ended)
  qed (auto intro: triple_pre [OF protects(3) stays_attempt [OF recover_stays [OF prior]]])
qed

section \<open>The life of a prefix\<close>

text \<open>Recoveries and transactions in any order, each with any failures, any unreadable entries and killed anywhere, until a
  manifest has been committed; then recoveries.\<close>

inductive life :: "managed_prefix \<Rightarrow> node \<Rightarrow> u8 list set \<Rightarrow> disk \<Rightarrow> bool" for mp old ms where
  start: "in_place old d \<Longrightarrow> life mp old ms d"
| recovery: "life mp old ms (wd_disk w) \<Longrightarrow> life mp old ms (wd_disk (snd (recover mp w)))"
| transaction: "life mp old ms (wd_disk w) \<Longrightarrow> \<not> replaced_by ms (wd_disk w) \<Longrightarrow> commits_within ms wk \<Longrightarrow>
    life mp old ms (wd_disk (snd (run_managed_transaction mp kind fingerprint wk w)))"

lemma triple_disk:
  assumes "triple P m (\<lambda>_. Q) (\<lambda>_. Q) Q" "P (wd_disk w)"
  shows "Q (wd_disk (snd (m w)))"
  using assms by (auto simp: triple_def split: prod.splits outcome.splits) (metis outcome.exhaust surj_pair snd_conv)

lemma life_protected:
  assumes "life mp old ms d" "prior_ok old"
  shows "protected old ms d"
  using assms(1)
proof (induction rule: life.induct)
  case (start d)
  then show ?case by (simp add: protected_def)
next
  case (recovery w)
  show ?case by (rule triple_disk [OF recover_stays [OF assms(2)] recovery.IH])
next
  case (transaction w wk kind fingerprint)
  from transaction.IH transaction.hyps(2) have "waiting old (wd_disk w)" by (auto simp: protected_def waiting_def)
  from triple_disk [OF transaction_stays [OF assms(2) transaction.hyps(3)] this] show ?case .
qed

section \<open>Undisturbed recovery\<close>

lemma runs_sync: "runs (sync e) d () d" "runs sync_parent d () d"
  unfolding sync_parent_def sync_def by (rule runs_atomic, rule refl)+

text \<open>A directory that can be deleted: no name twice, no mount point directly below it.\<close>

definition plain :: "entries \<Rightarrow> bool" where
  "plain es \<longleftrightarrow> distinct (map fst es) \<and> (\<forall>e \<in> set es. \<not> is_mount (Some (snd e)))"

lemma plain_without: "plain es \<Longrightarrow> plain (without name es)"
  by (auto simp: plain_def without_def distinct_map_filter)

lemma unlink_present: "map_of es name = Some n \<Longrightarrow> kind_of (Some n) \<noteq> Directory \<Longrightarrow> unlink_in name es = (True, without name es)"
  unfolding unlink_in_def by (force dest: map_of_SomeD)

lemma removes_entry:
  assumes "plain es" "name \<in> fst ` set es" "dk_root d = Some (Dir es)"
  shows "runs (if kind_of (entry AtRoot name d) = Directory then effect e (in_dir AtRoot (remove_tree_in name)) (partly_removed AtRoot name)
               else atomic e (in_dir AtRoot (unlink_in name))) d () (d\<lparr>dk_root := Some (Dir (without name es))\<rparr>)"
proof -
  obtain n where n: "map_of es name = Some n" using assms(2) by (meson map_of_eq_None_iff not_None_eq)
  then have "(name, n) \<in> set es" by (rule map_of_SomeD)
  then have "\<not> is_mount (Some n)" using assms(1) by (auto simp: plain_def)
  with n assms(3) show ?thesis
    by (cases n) (auto intro!: runs_effect runs_atomic simp: entry_def in_root remove_tree_in_def unlink_present is_mount_def)
qed

lemma deletes_entries:
  assumes "plain es" "dk_root d = Some (Dir es)" "distinct names" "set names \<subseteq> fst ` set es"
  shows "runs (delete_entries e AtRoot kept names) d ()
    (d\<lparr>dk_root := Some (Dir (filter (\<lambda>x. fst x = kept \<or> fst x \<notin> set names) es))\<rparr>)"
  using assms
proof (induction names arbitrary: es d)
  case Nil
  have "d\<lparr>dk_root := Some (Dir es)\<rparr> = d" using Nil by simp
  then show ?case using runs_ret by simp
next
  case (Cons name names)
  let ?d = "d\<lparr>dk_root := Some (Dir (without name es))\<rparr>"
  show ?case
  proof (cases "name = kept")
    case True
    have "filter (\<lambda>x. fst x = kept \<or> fst x \<notin> set (name # names)) es = filter (\<lambda>x. fst x = kept \<or> fst x \<notin> set names) es"
      using True by (auto intro: filter_cong)
    with Cons True show ?thesis by simp
  next
    case False
    have rest: "runs (delete_entries e AtRoot kept names) ?d ()
        (?d\<lparr>dk_root := Some (Dir (filter (\<lambda>x. fst x = kept \<or> fst x \<notin> set names) (without name es)))\<rparr>)"
      by (rule Cons.IH) (use Cons.prems in \<open>auto simp: plain_without names_without\<close>)
    have step: "runs (if kind_of (entry AtRoot name d) = Directory
        then effect e (in_dir AtRoot (remove_tree_in name)) (partly_removed AtRoot name)
        else atomic e (in_dir AtRoot (unlink_in name))) d () ?d"
      by (rule removes_entry) (use Cons.prems in auto)
    have "filter (\<lambda>x. fst x = kept \<or> fst x \<notin> set names) (without name es) =
        filter (\<lambda>x. fst x = kept \<or> fst x \<notin> set (name # names)) es"
      using False by (auto simp: without_def intro: filter_cong)
    with rest have "runs (delete_entries e AtRoot kept names) ?d ()
        (d\<lparr>dk_root := Some (Dir (filter (\<lambda>x. fst x = kept \<or> fst x \<notin> set (name # names)) es))\<rparr>)" by simp
    with False show ?thesis
      by (auto intro!: runs_read [where x = "kind_of (entry AtRoot name d)"] runs_chain [OF step])
  qed
qed

lemma deletes_root:
  assumes "plain es" "dk_root d = Some (Dir es)" "kind_of (map_of es kept) \<noteq> Directory"
  shows "runs (delete_tree_last e AtRoot kept) d () (d\<lparr>dk_root := None\<rparr>)"
proof -
  let ?left = "filter (\<lambda>x. fst x = kept) es"
  let ?d = "d\<lparr>dk_root := Some (Dir ?left)\<rparr>"
  have "distinct (map fst es)" using assms(1) by (simp add: plain_def)
  from deletes_entries [OF assms(1,2) this, of e kept]
  have entries: "runs (delete_entries e AtRoot kept (map fst es)) d () ?d"
    by (auto cong: filter_cong intro: rev_image_eqI)
  have unlinked: "in_dir AtRoot (unlink_if_present_in kept) ?d = (True, ?d\<lparr>dk_root := Some (Dir [])\<rparr>)"
  proof (cases "kept \<in> fst ` set es")
    case True
    then obtain n where n: "map_of es kept = Some n" by (meson map_of_eq_None_iff not_None_eq)
    have "map_of ?left kept = map_of es kept" by (induction es) auto
    with n assms(3) have "unlink_in kept ?left = (True, without kept ?left)" by (auto intro: unlink_present)
    moreover have "kept \<in> fst ` set ?left" using True by (force simp: image_iff)
    moreover have "without kept ?left = []" by (simp add: without_def filter_empty_conv)
    ultimately show ?thesis by (simp add: in_root unlink_if_present_in_def)
  next
    case False
    then have "?left = []" by (force simp: filter_empty_conv)
    then show ?thesis by (simp add: in_root unlink_if_present_in_def)
  qed
  show ?thesis unfolding delete_tree_last_def
    by (rule runs_read [where x = "Some (map fst es)"],
        use assms(2) in \<open>simp add: ok_option_def entry_names_def calm_def\<close>, unfold option.case)
      (rule runs_chain [OF entries] runs_chain [OF runs_sync(1)] runs_chain [OF runs_atomic [where act = "in_dir AtRoot (unlink_if_present_in kept)" for f, OF unlinked]]
        | (rule runs_atomic, simp add: remove_dir_def))+
qed

lemma runs_restores:
  "dk_root d = None \<Longrightarrow> dk_backup d = Some (Dir es) \<Longrightarrow>
   runs (restore_from AtBackup) d () (d\<lparr>dk_root := Some (Dir es), dk_backup := None\<rparr>)"
  unfolding restore_from_def
  by (rule runs_chain [OF runs_atomic runs_sync(2)]) (simp add: move_entry_def)

lemma runs_clears:
  assumes "classify_root mp vi w = Inr root" "root \<in> {RootAbsent, RootEmpty, PendingMarker}"
    and "\<forall>n. dk_root (wd_disk w) = Some n \<longrightarrow> (\<exists>es. n = Dir es \<and> plain es)"
  shows "runs (clear_non_data_root root) (wd_disk w) () ((wd_disk w)\<lparr>dk_root := None\<rparr>)"
proof -
  have remove: "runs (chain (atomic e (remove_dir AtRoot)) (\<lambda>_. sync_parent)) d () (d\<lparr>dk_root := None\<rparr>)"
    if "dk_root d = Some (Dir [])" for d and e :: failure
    by (rule runs_chain [OF runs_atomic runs_sync(2)]) (use that in \<open>simp add: remove_dir_def\<close>)
  consider "root = RootAbsent" | "root = RootEmpty" | "root = PendingMarker" using assms(2) by auto
  then show ?thesis
  proof cases
    case 1
    with root_absent [of mp vi w] assms(1) have "(wd_disk w)\<lparr>dk_root := None\<rparr> = wd_disk w" by simp
    with 1 show ?thesis using runs_ret by (simp add: clear_non_data_root_def)
  next
    case 2
    with root_empty [of mp vi w] assms(1,3) have "dk_root (wd_disk w) = Some (Dir [])" by fastforce
    with 2 remove show ?thesis by (simp add: clear_non_data_root_def)
  next
    case 3
    with root_pending [of mp vi w] assms(1,3) obtain es where es: "dk_root (wd_disk w) = Some (Dir es)"
      "map fst es = [PROVISIONING_MARKER_TMP]" "rootkind PROVISIONING_MARKER_TMP w = Regular" by fastforce
    then obtain bytes where "es = [(PROVISIONING_MARKER_TMP, File bytes)]"
      by (auto simp: rootkind_def entry_def kind_regular)
    with es have unlink: "in_dir AtRoot (unlink_if_present_in PROVISIONING_MARKER_TMP) (wd_disk w) =
        (True, (wd_disk w)\<lparr>dk_root := Some (Dir [])\<rparr>)"
      by (simp add: in_root unlink_if_present_in_def unlink_in_def without_def)
    have later: "runs (chain (atomic e (remove_dir AtRoot)) (\<lambda>_. sync_parent)) ((wd_disk w)\<lparr>dk_root := Some (Dir [])\<rparr>) ()
        ((wd_disk w)\<lparr>dk_root := None\<rparr>)" for e :: failure
      using remove [of "(wd_disk w)\<lparr>dk_root := Some (Dir [])\<rparr>" e] by simp
    have first: "runs (atomic e (in_dir AtRoot (unlink_if_present_in PROVISIONING_MARKER_TMP))) (wd_disk w) ()
        ((wd_disk w)\<lparr>dk_root := Some (Dir [])\<rparr>)" for e :: failure by (rule runs_atomic) (rule unlink)
    show ?thesis unfolding 3 clear_non_data_root_def root_state.case by (rule runs_chain [OF first later])
  qed
qed

definition deletable :: "disk \<Rightarrow> bool" where
  "deletable d \<longleftrightarrow> (case dk_root d of None \<Rightarrow> True | Some (Dir es) \<Rightarrow> plain es | _ \<Rightarrow> False)"

lemma recover_restores:
  assumes prior: "prior_ok old" and aside: "set_aside old (wd_disk w)" and calm: "calm w" and del: "deletable (wd_disk w)"
    and dec: "decide mp w = Inr (out, root, backup)"
  shows "\<exists>w1. recover mp w = (Done out, w1) \<and> in_place old (wd_disk w1)"
proof -
  let ?d = "wd_disk w"
  have plainroot: "\<forall>n. dk_root ?d = Some n \<longrightarrow> (\<exists>es. n = Dir es \<and> plain es)"
    using del by (auto simp: deletable_def split: option.splits node.splits)
  obtain es where old: "old = Dir es" using prior by (auto simp: prior_ok_def)
  obtain vi where root: "classify_root mp vi w = Inr root" using decide_parts [OF dec] by metis
  note d = decide_set_aside [OF aside prior dec]
  have restore: "runs (restore_from AtBackup) (?d\<lparr>dk_root := None\<rparr>) () (?d\<lparr>dk_root := Some old, dk_backup := None\<rparr>)"
    using runs_restores [of "?d\<lparr>dk_root := None\<rparr>" es] aside old by (simp add: set_aside_def)
  have act: "runs (execute_action (ro_action out) root backup) ?d () (?d\<lparr>dk_root := Some old, dk_backup := None\<rparr>)"
  proof (cases "ro_action out = RestoreBackup")
    case True
    with d have "root \<in> {RootAbsent, RootEmpty, PendingMarker}" by auto
    from runs_chain [OF runs_clears [OF root this plainroot] restore] True show ?thesis by (simp add: execute_action_def)
  next
    case False
    with d have a: "ro_action out = DiscardPartialAndRestore" "root = Provisioning" by auto
    have reg: "rootkind PROVISIONING_MARKER w = Regular" using root_provisioning [of mp vi w] root a(2) by simp
    then obtain xs where xs: "dk_root ?d = Some (Dir xs)" "plain xs" using plainroot by (auto simp: rootkind_def entry_def split: option.splits)
    with reg have "kind_of (map_of xs PROVISIONING_MARKER) \<noteq> Directory" by (simp add: rootkind_def entry_def)
    from runs_chain [OF deletes_root [OF xs(2,1) this] runs_sync(2)]
    have "runs discard_partial_root ?d () (?d\<lparr>dk_root := None\<rparr>)" unfolding discard_partial_root_def .
    from runs_chain [OF this restore] a show ?thesis by (simp add: execute_action_def)
  qed
  have quiet: "runs ensure_quiet ?d () ?d" unfolding ensure_quiet_def
    by (rule runs_read [where x = 0]) (auto simp: calm_def runs_ret)
  have "runs (chain ensure_quiet (\<lambda>_. chain (ret ()) (\<lambda>_. chain (execute_action (ro_action out) root backup) (\<lambda>_. ret out))))
      ?d out (?d\<lparr>dk_root := Some old, dk_backup := None\<rparr>)"
    by (rule runs_chain [OF quiet], rule runs_chain [OF runs_ret], rule runs_chain [OF act], rule runs_ret)
  then have "\<exists>w1. (chain ensure_quiet (\<lambda>_. chain (ret ()) (\<lambda>_. chain (execute_action (ro_action out) root backup) (\<lambda>_. ret out)))) w
      = (Done out, w1) \<and> wd_disk w1 = ?d\<lparr>dk_root := Some old, dk_backup := None\<rparr>"
    using calm unfolding runs_def by blast
  moreover have "\<not> (ro_action out = NoAction \<and> \<not> ro_removed_empty_backup out)" "\<not> ro_removed_empty_backup out" using d by auto
  ultimately show ?thesis
    by (auto simp: recover_def chain_def [of "observe (decide mp)"] observe_def dec in_place_def)
qed

section \<open>Properties\<close>

text \<open>C8: Resetting a prefix cannot lose the previous one.  Whatever the order of transactions and recoveries, and wherever each of
  them fails, is refused, reads wrongly that an entry is unreadable or is killed, the previous prefix is whole at its root or in its
  backup, or the root holds a manifest that a transaction has committed.\<close>
theorem previous_prefix_survives: "prior_ok old \<Longrightarrow> life mp old ms d \<Longrightarrow> protected old ms d"
  by (rule life_protected)

text \<open>C9: Once recovery has decided what to do about a prefix that a transaction has set aside, and nothing disturbs it, it returns that
  decision and the previous prefix is in its place, whatever the interrupted transaction has left in the root.\<close>
theorem recovery_restores:
  "prior_ok old \<Longrightarrow> set_aside old (wd_disk w) \<Longrightarrow> calm w \<Longrightarrow> deletable (wd_disk w) \<Longrightarrow> decide mp w = Inr (out, root, backup) \<Longrightarrow>
   \<exists>w1. recover mp w = (Done out, w1) \<and> in_place old (wd_disk w1)"
  by (rule recover_restores)

section \<open>Instances\<close>

definition ex_old :: node where
  "ex_old = Dir [(PREFIX_MARKER, File [1]), (''system.reg'', File [2])]"

text \<open>The location, the manifest and the marker of a shared prefix.\<close>

definition ex_managed :: managed_prefix where
  "ex_managed = \<lparr>mp_location = \<lparr>pl_path = ''/data/prefix'', pl_scope = Shared, pl_managed = True, pl_server_id = None\<rparr>,
     mp_env = \<lparr>pe_app_data = [RootDir, Normal ''data''], pe_sha256 = (\<lambda>_. [])\<rparr>,
     mp_codec = \<lparr>cd_schema = (\<lambda>_. Some 2),
        cd_v2 = (\<lambda>_. Some \<lparr>pf_schema_version = 2, pf_scope = Shared, pf_server_id = None, pf_runner_kind = ''wine'',
          pf_runner_path = ''w'', pf_components = []\<rparr>),
        cd_v3 = (\<lambda>_. None),
        cd_marker = (\<lambda>_. Some \<lparr>mk_schema_version = 2, mk_scope = Shared, mk_server_id = None, mk_prefix_path = ''/data/prefix'',
          mk_prefix_fingerprint = None, mk_created_at_ms = 7\<rparr>),
        cd_marker_text = (\<lambda>_. [3, 3, 3])\<rparr>,
     mp_exists = (\<lambda>_ _. True), mp_name = ''prefix'', mp_expected = None\<rparr>"

definition ex_work :: work where
  "ex_work = \<lparr>wk_payload = [(''system.reg'', File [9])], wk_provision = None, wk_quiesce = None, wk_quiesce_again = None,
     wk_manifest = Some [4], wk_temporary = ''tmp'', wk_created_at_ms = 7\<rparr>"

definition ex_world :: "disk \<Rightarrow> (nat \<Rightarrow> fault) \<Rightarrow> world" where
  "ex_world d faults = \<lparr>wd_disk = d, wd_clock = 0, wd_fault = faults, wd_unreadable = (\<lambda>_ _ _. False), wd_active = (\<lambda>_. 0)\<rparr>"

definition ex_before :: disk where
  "ex_before = \<lparr>dk_root = Some ex_old, dk_backup = None, dk_others = []\<rparr>"

definition ex_killed :: disk where
  "ex_killed = \<lparr>dk_root = Some (Dir [(PROVISIONING_MARKER, File [3, 3, 3]), (''system.reg'', File [9])]),
     dk_backup = Some ex_old, dk_others = []\<rparr>"

definition ex_reset :: "world" where
  "ex_reset = snd (run_managed_transaction ex_managed Reset ''f'' ex_work
     (ex_world ex_before (\<lambda>n. if n = 12 then Kill None else Proceed)))"

lemma ex_prior: "prior_ok ex_old"
  by (auto simp: prior_ok_def ex_old_def marker_names)

lemma ex_commits: "commits_within {[4]} ex_work"
  by (simp add: commits_within_def ex_work_def marker_names)

lemma ex_life: "life ex_managed ex_old {[4]} (wd_disk (snd (recover ex_managed ex_reset)))"
proof (rule life.recovery)
  show "life ex_managed ex_old {[4]} (wd_disk ex_reset)" unfolding ex_reset_def
    by (rule life.transaction [OF life.start])
      (auto simp: ex_world_def ex_before_def in_place_def replaced_by_def entry_def ex_old_def intro: ex_commits)
qed

theorem previous_prefix_survives_witness: "protected ex_old {[4]} (wd_disk (snd (recover ex_managed ex_reset)))"
  by (rule previous_prefix_survives [OF ex_prior ex_life])

lemmas ex_defs = ex_world_def ex_killed_def ex_managed_def lstat_def entry_def entry_names_def read_marker_def read_manifest_def
  read_bounded_def decoded_def and_then_def marker_names

lemma ex_identity: "identity ex_managed w = None"
  by (simp add: identity_def v3_path_suffix_def ex_managed_def)

lemma ex_root: "classify_root ex_managed None (ex_world ex_killed (\<lambda>_. Proceed)) = Inr Provisioning"
  by (simp add: classify_root_def classify_listed_def classify_evidence_def classify_marker_def single_marker_def validated_marker_def
      validate_marker_def is_protected_def MARKER_SCHEMA_def MAX_MARKER_BYTES_def ex_defs)

lemma ex_backup: "classify_backup ex_managed None (ex_world ex_killed (\<lambda>_. Proceed)) AtBackup = Inr Restorable"
  by (simp add: classify_backup_def classify_contents_def classify_owned_def backup_tombstone_def is_protected_def judged_def is_mount_def
      committed_manifest_def manifest_matches_stored_location_def parse_stored_prefix_manifest_def PREFIX_SCHEMA_VERSION_def
      MAX_MANIFEST_BYTES_def ex_old_def ex_defs)

lemma ex_legacy: "legacy_reset_backups ex_managed (ex_world ex_killed (\<lambda>_. Proceed)) = []"
  by (simp add: legacy_reset_backups_def ex_world_def ex_killed_def)

lemma ex_decision:
  "decide ex_managed (ex_world ex_killed (\<lambda>_. Proceed)) =
     Inr (\<lparr>ro_action = DiscardPartialAndRestore, ro_removed_empty_backup = False, ro_notes = []\<rparr>, Provisioning, Restorable)"
  by (simp add: decide_def ex_identity ex_root ex_backup plan_def ex_legacy)

lemma ex_aside: "set_aside ex_old (wd_disk (ex_world ex_killed (\<lambda>_. Proceed)))"
  by (simp add: set_aside_def ex_world_def ex_killed_def entry_def marker_names)

lemma ex_calm: "calm (ex_world ex_killed (\<lambda>_. Proceed))"
  by (simp add: calm_def ex_world_def)

lemma ex_deletable: "deletable (wd_disk (ex_world ex_killed (\<lambda>_. Proceed)))"
  by (simp add: deletable_def ex_world_def ex_killed_def plain_def is_mount_def marker_names)

theorem recovery_restores_witness:
  "\<exists>w1. recover ex_managed (ex_world ex_killed (\<lambda>_. Proceed)) =
     (Done \<lparr>ro_action = DiscardPartialAndRestore, ro_removed_empty_backup = False, ro_notes = []\<rparr>, w1) \<and> in_place ex_old (wd_disk w1)"
  by (rule recovery_restores [OF ex_prior ex_aside ex_calm ex_deletable ex_decision])

end
