(* ===== verification/PrefixGate.thy ===== *)
theory PrefixGate
  imports RecoverySafety PrefixPaths
begin

text \<open>
  What binding resolution reads of a prefix before it is used (\<open>transaction_residue_present\<close>, \<open>transaction_gate\<close> and
  \<open>pending_v3_transactions\<close> of \<open>src-tauri/src/tools/prefix/recovery.rs\<close>), and that it agrees with what recovery would do.
\<close>

section \<open>Residue\<close>

definition is_present :: "(reason, entry_kind) result \<Rightarrow> bool" where
  "is_present r = (case r of Inl _ \<Rightarrow> False | Inr k \<Rightarrow> k \<noteq> Missing)"

definition fixed_residue_present :: "world \<Rightarrow> bool" where
  "fixed_residue_present w \<longleftrightarrow> is_present (lstat w AtBackup []) \<or> root_holds_transaction_evidence w"

definition root_holds_data :: "world \<Rightarrow> bool" where
  "root_holds_data w =
     (case lstat w AtRoot [] of
        Inl _ \<Rightarrow> False
      | Inr k \<Rightarrow>
          k \<noteq> Missing \<and>
          (k \<noteq> Directory \<or> (case entry_names w AtRoot of Inl _ \<Rightarrow> False | Inr names \<Rightarrow> names \<noteq> [])))"

definition transaction_residue_present :: "managed_prefix \<Rightarrow> world \<Rightarrow> bool" where
  "transaction_residue_present mp w \<longleftrightarrow>
     fixed_residue_present w \<or> \<not> root_holds_data w \<and> legacy_reset_backups mp w \<noteq> []"

section \<open>The gate\<close>

datatype gate_reason = ByInspection reason | LegacyBesideBackup

datatype transaction_gate =
    NoTransactionEvidence | CommittedValid | PendingTransaction | AmbiguousTransaction gate_reason

fun blocks_resolution :: "transaction_gate \<Rightarrow> bool" where
  "blocks_resolution PendingTransaction = True"
| "blocks_resolution (AmbiguousTransaction _) = True"
| "blocks_resolution _ = False"

definition backup_holds_data :: "world \<Rightarrow> bool" where
  "backup_holds_data w =
     (case lstat w AtBackup [] of
        Inl _ \<Rightarrow> False
      | Inr k \<Rightarrow>
          k \<noteq> Missing \<and>
          (k \<noteq> Directory \<or> (case entry_names w AtBackup of Inl _ \<Rightarrow> True | Inr names \<Rightarrow> names \<noteq> [])))"

text \<open>The prefix is taken without a desired identity.\<close>

definition transaction_gate :: "managed_prefix \<Rightarrow> world \<Rightarrow> transaction_gate" where
  "transaction_gate mp w =
     (if \<not> backup_holds_data w \<and> \<not> root_holds_transaction_evidence w then NoTransactionEvidence
      else
        let mp = mp\<lparr>mp_expected := None\<rparr>; vi = identity mp w
        in case classify_root mp vi w of
             Inl r \<Rightarrow> AmbiguousTransaction (ByInspection r)
           | Inr (Committed _) \<Rightarrow>
               (case classify_backup mp vi w AtBackup of
                  Inl r \<Rightarrow> AmbiguousTransaction (ByInspection r)
                | Inr (BackupForeign r) \<Rightarrow> AmbiguousTransaction (ByInspection r)
                | Inr _ \<Rightarrow> CommittedValid)
           | Inr LegacyValid \<Rightarrow> AmbiguousTransaction LegacyBesideBackup
           | Inr (RootForeign r) \<Rightarrow> AmbiguousTransaction (ByInspection r)
           | Inr _ \<Rightarrow> PendingTransaction)"

section \<open>Discovery\<close>

text \<open>The names of the isolated root directory, each the root of a prefix or its backup; \<open>worlds\<close> gives what is seen of a root.
  \<open>None\<close> among the names is an entry whose name is not text.\<close>

definition root_name_of :: "string \<Rightarrow> string" where
  "root_name_of name =
     (case Option.bind (strip_prefix ''.'' name) (strip_suffix (''.'' @ RESET_BACKUP_SUFFIX)) of
        None \<Rightarrow> name | Some root \<Rightarrow> root)"

definition candidate_roots :: "prefix_env \<Rightarrow> string \<Rightarrow> string option list \<Rightarrow> string list" where
  "candidate_roots pe server_id names =
     sort (remdups (filter (\<lambda>r. is_v3_managed_prefix_path pe (isolated_prefix_root pe @ [Normal r]) server_id)
       (map root_name_of (List.map_filter id names))))"

datatype listing = NoDirectory | ListingFailed | Listed "string option list"

definition pending_v3_transactions ::
  "prefix_env \<Rightarrow> string \<Rightarrow> listing \<Rightarrow> (string \<Rightarrow> managed_prefix \<times> world) \<Rightarrow> (unit, string list) result" where
  "pending_v3_transactions pe server_id l roots =
     (case l of
        NoDirectory \<Rightarrow> Inr []
      | ListingFailed \<Rightarrow> Inl ()
      | Listed names \<Rightarrow>
          Inr (filter (\<lambda>r. blocks_resolution (transaction_gate (fst (roots r)) (snd (roots r))))
                 (candidate_roots pe server_id names)))"

section \<open>Recovery for its callers\<close>

text \<open>\<open>ManagedPrefix::new\<close> and the functions of \<open>tools/prefix/mod.rs\<close>, for a caller that holds the exclusive guard.  \<open>root_link\<close>: whether
  the root of the isolated prefixes is a symbolic link.\<close>

definition untouched :: recovery_outcome where
  "untouched = \<lparr>ro_action = NoAction, ro_removed_empty_backup = False, ro_notes = []\<rparr>"

definition managed_new :: "managed_prefix \<Rightarrow> bool \<Rightarrow> string option \<Rightarrow> world \<Rightarrow> (path_error, managed_prefix) result" where
  "managed_new mp root_link desired w =
     (let loc = mp_location mp
      in if \<not> pl_managed loc \<or> pl_scope loc = Custom then Inl CustomNotRemovable
         else
           and_then (ensure_managed_path_safe (mp_env mp) root_link (look AtRoot (wd_disk w)) loc) (\<lambda>_.
           Inr (mp\<lparr>mp_expected := expected_identity (mp_env mp) loc desired\<rparr>)))"

definition is_recoverable :: "prefix_location \<Rightarrow> bool" where
  "is_recoverable loc \<longleftrightarrow> pl_managed loc \<and> pl_scope loc \<noteq> Custom"

definition recover_with_guard_held ::
  "managed_prefix \<Rightarrow> bool \<Rightarrow> string option \<Rightarrow> (path_error + failure, recovery_outcome) run" where
  "recover_with_guard_held mp root_link desired =
     (if \<not> is_recoverable (mp_location mp) then ret untouched
      else
        chain (observe (managed_new mp root_link desired)) (\<lambda>r.
        case r of
          Inl e \<Rightarrow> throw (Inl e)
        | Inr mp1 \<Rightarrow>
            chain (attempt (recover mp1)) (\<lambda>r. case r of Inl e \<Rightarrow> throw (Inr e) | Inr outcome \<Rightarrow> ret outcome)))"

definition recover_residue_with_guard_held ::
  "managed_prefix \<Rightarrow> bool \<Rightarrow> string option \<Rightarrow> (path_error + failure, recovery_outcome) run" where
  "recover_residue_with_guard_held mp root_link desired =
     chain (observe (transaction_residue_present mp)) (\<lambda>b.
     if \<not> b then ret untouched else recover_with_guard_held mp root_link desired)"

section \<open>Lemmas\<close>

lemma evidence_readable:
  assumes "classify_root mp vi w = Inr st" "st \<in> {PendingMarker, Provisioning, CommitPending, Committed True}"
  shows "root_holds_transaction_evidence w"
proof -
  have listed: "entry AtRoot PROVISIONING_MARKER_TMP (wd_disk w) \<noteq> None \<Longrightarrow> \<not> wd_unreadable w (wd_clock w) AtRoot PROVISIONING_MARKER_TMP \<Longrightarrow> ?thesis"
    "entry AtRoot PROVISIONING_MARKER (wd_disk w) \<noteq> None \<Longrightarrow> \<not> wd_unreadable w (wd_clock w) AtRoot PROVISIONING_MARKER \<Longrightarrow> ?thesis"
    "entry AtRoot COMMIT_PENDING_MARKER (wd_disk w) \<noteq> None \<Longrightarrow> \<not> wd_unreadable w (wd_clock w) AtRoot COMMIT_PENDING_MARKER \<Longrightarrow> ?thesis"
    by (auto simp: root_holds_transaction_evidence_def ROOT_EVIDENCE_def)
  from assms obtain names where names: "classify_listed mp vi w names = Inr st"
    by (auto simp: classify_root_def and_then_Inr split: if_splits)
  with assms(2) obtain tmp where tmp: "lstat w AtRoot PROVISIONING_MARKER_TMP = Inr tmp"
    and rest: "(if names = [PROVISIONING_MARKER_TMP] \<and> tmp = Regular \<and> marker_size w \<le> MAX_MARKER_BYTES
       then Inr PendingMarker else classify_evidence mp vi w tmp) = Inr st"
    by (auto simp: classify_listed_def and_then_Inr split: if_splits)
  show ?thesis
  proof (cases "tmp = Missing")
    case False
    with tmp listed(1) show ?thesis by (auto simp: lstat_def kind_cases split: if_splits)
  next
    case True
    with rest have "classify_evidence mp vi w tmp = Inr st" by simp
    then obtain p c where p: "lstat w AtRoot PROVISIONING_MARKER = Inr p" and c: "lstat w AtRoot COMMIT_PENDING_MARKER = Inr c"
      and e: "p \<noteq> Missing \<or> c \<noteq> Missing"
      using assms(2) True
      by (auto simp: classify_evidence_def classify_manifest_def classify_marker_def classify_legacy_def single_marker_def and_then_Inr
          split: if_splits option.splits sum.splits prod.splits)
    from e show ?thesis
    proof
      assume "p \<noteq> Missing"
      with p listed(2) show ?thesis by (auto simp: lstat_def kind_cases split: if_splits)
    next
      assume "c \<noteq> Missing"
      with c listed(3) show ?thesis by (auto simp: lstat_def kind_cases split: if_splits)
    qed
  qed
qed

lemma empty_backup:
  assumes "classify_backup mp vi w AtBackup = Inr found" "\<not> backup_holds_data w"
  shows "found = BackupAbsent \<or> found = BackupEmpty \<or> (\<exists>r. found = BackupForeign r)"
  using assms unfolding classify_backup_def and_then_Inr
  by (auto simp: backup_holds_data_def and_then_Inr split: if_splits sum.splits)

lemma absent_backup:
  assumes "classify_backup mp vi w AtBackup = Inr found" "\<not> is_present (lstat w AtBackup [])"
  shows "found = BackupAbsent"
  using assms unfolding classify_backup_def and_then_Inr by (auto simp: is_present_def)

lemma plan_done: "plan root backup legacy = Inr a \<Longrightarrow> (\<exists>b. root = Committed b) \<or> root = LegacyValid \<or> (\<exists>r. root = RootForeign r) \<Longrightarrow> completes a"
  by (cases backup) (auto simp: plan_def completes_def split: if_splits)

lemma plan_legacy:
  "plan root backup legacy = Inr a \<Longrightarrow> root = RootAbsent \<or> root = RootEmpty \<Longrightarrow> backup = BackupAbsent \<or> (\<exists>r. backup = BackupForeign r) \<Longrightarrow>
   a = NoAction \<or> (\<exists>s. a = RestoreLegacyBackup s)"
  by (auto simp: plan_def split: list.splits)

definition destructive :: "recovery_action \<Rightarrow> bool" where
  "destructive a \<longleftrightarrow> a \<in> {RestoreBackup, DiscardPartialAndRestore, DiscardPartial}"

lemma completes_harmless: "completes a \<Longrightarrow> \<not> destructive a"
  by (cases a) (auto simp: completes_def destructive_def)

lemma gate_committed:
  assumes "transaction_gate mp w = CommittedValid"
  shows "\<exists>m. entry AtRoot PREFIX_MARKER (wd_disk w) = Some (File m)"
proof -
  from assms obtain mp1 vi b where c: "classify_root mp1 vi w = Inr (Committed b)"
    by (auto simp: transaction_gate_def Let_def split: if_splits sum.splits root_state.splits)
  then show ?thesis
  proof (cases rule: classify_root_cases)
    case (manifest n marker)
    then show ?thesis by (auto simp: rootkind_def kind_regular)
  next
    case (unmarked n marker)
    with marker_state show ?thesis by blast
  qed auto
qed

lemma gate_expected: "transaction_gate (mp\<lparr>mp_expected := x\<rparr>) w = transaction_gate mp w"
  by (simp add: transaction_gate_def)

lemma gate_decision:
  assumes gate: "\<not> blocks_resolution (transaction_gate mp w)" and d: "decide mp w = Inr (out, root, backup)"
  shows "\<not> destructive (ro_action out)"
proof -
  from d obtain vi found legacy where root: "classify_root mp vi w = Inr root" and found: "classify_backup mp vi w AtBackup = Inr found"
    and backup: "backup = (if found = BackupEmpty then BackupAbsent else found)" and plan: "plan root backup legacy = Inr (ro_action out)"
    by (rule decide_parts)
  from gate consider "transaction_gate mp w = CommittedValid" | "transaction_gate mp w = NoTransactionEvidence"
    by (cases "transaction_gate mp w") auto
  then show ?thesis
  proof cases
    case 1
    from gate_committed [OF 1] root_with_manifest [OF root] have "(\<exists>b. root = Committed b) \<or> (\<exists>r. root = RootForeign r)" by blast
    with plan plan_done completes_harmless show ?thesis by blast
  next
    case 2
    then have none: "\<not> backup_holds_data w" "\<not> root_holds_transaction_evidence w"
      by (auto simp: transaction_gate_def Let_def split: if_splits sum.splits root_state.splits backup_state.splits)
    have st: "root \<notin> {PendingMarker, Provisioning, CommitPending}" using evidence_readable [OF root] none(2) by blast
    have b: "backup = BackupAbsent \<or> (\<exists>r. backup = BackupForeign r)" using empty_backup [OF found none(1)] backup by auto
    show ?thesis
    proof (cases "root = RootAbsent \<or> root = RootEmpty")
      case True
      from plan_legacy [OF plan this b] show ?thesis by (auto simp: destructive_def)
    next
      case False
      with st have "(\<exists>b. root = Committed b) \<or> root = LegacyValid \<or> (\<exists>r. root = RootForeign r)" by (cases root) auto
      with plan plan_done completes_harmless show ?thesis by blast
    qed
  qed
qed

lemma decide_legacy:
  assumes "decide mp w = Inr (out, root, backup)"
  shows "\<exists>legacy. plan root backup legacy = Inr (ro_action out) \<and> set legacy \<subseteq> set (legacy_reset_backups mp w)"
  using assms unfolding decide_def Let_def
  by (auto split: sum.splits if_splits)

lemma no_data:
  assumes "classify_root mp vi w = Inr root" "root = RootAbsent \<or> root = RootEmpty"
  shows "\<not> root_holds_data w"
  using assms(2)
proof
  assume "root = RootAbsent"
  with root_absent [of mp vi w] assms(1) have "dk_root (wd_disk w) = None" by simp
  then show ?thesis by (auto simp: root_holds_data_def dest: lstat_place split: sum.split)
next
  assume "root = RootEmpty"
  with root_empty [of mp vi w] assms(1) obtain n where "dk_root (wd_disk w) = Some n" "entries_of n = []" "kind_of (Some n) = Directory"
    by auto
  then show ?thesis by (auto simp: root_holds_data_def dest: lstat_place names_Inr split: sum.split)
qed

lemma no_residue:
  assumes none: "\<not> transaction_residue_present mp w" and d: "decide mp w = Inr (out, root, backup)"
  shows "ro_action out = NoAction \<and> \<not> ro_removed_empty_backup out"
proof -
  from d obtain vi found where root: "classify_root mp vi w = Inr root" and found: "classify_backup mp vi w AtBackup = Inr found"
    and backup: "backup = (if found = BackupEmpty then BackupAbsent else found)" and removed: "ro_removed_empty_backup out \<longleftrightarrow> found = BackupEmpty"
    by (rule decide_parts)
  from none have fixed: "\<not> is_present (lstat w AtBackup [])" "\<not> root_holds_transaction_evidence w"
    and old: "root_holds_data w \<or> legacy_reset_backups mp w = []"
    by (auto simp: transaction_residue_present_def fixed_residue_present_def)
  have found: "found = BackupAbsent" by (rule absent_backup [OF found fixed(1)])
  obtain legacy where plan: "plan root BackupAbsent legacy = Inr (ro_action out)" and legacy: "set legacy \<subseteq> set (legacy_reset_backups mp w)"
    using decide_legacy [OF d] found backup by auto
  have "root \<notin> {PendingMarker, Provisioning, CommitPending, Committed True}" using evidence_readable [OF root] fixed(2) by blast
  moreover have "legacy = []" if "root = RootAbsent \<or> root = RootEmpty"
    using no_data [OF root that] old legacy by auto
  ultimately have "ro_action out = NoAction" using plan by (cases root) (auto simp: plan_def)
  with removed found show ?thesis by simp
qed

section \<open>Properties\<close>

lemma no_residue_recover:
  "\<not> transaction_residue_present mp w \<Longrightarrow> recover mp w = (Done out, w1) \<Longrightarrow>
   w1 = w \<and> ro_action out = NoAction \<and> \<not> ro_removed_empty_backup out"
  by (cases "decide mp w")
    (auto simp: recover_def chain_def observe_def throw_def ret_def dest: no_residue split: if_splits)

lemma residue_expected: "transaction_residue_present (mp\<lparr>mp_expected := x\<rparr>) w = transaction_residue_present mp w"
  by (simp add: transaction_residue_present_def legacy_reset_backups_def)

lemma guarded_done:
  assumes "recover_with_guard_held mp root_link desired w = (Done out, w1)" "is_recoverable (mp_location mp)"
  shows "\<exists>x. recover (mp\<lparr>mp_expected := x\<rparr>) w = (Done out, w1)"
  using assms unfolding recover_with_guard_held_def chain_def observe_def attempt_def managed_new_def Let_def and_then_def
  by (auto simp: ret_def throw_def split: if_splits sum.splits prod.splits outcome.splits)

text \<open>Skipping recovery for a prefix without residue is sound: whenever the whole reconciliation succeeds, the short way that first
  looks for residue succeeds with the same action and leaves the same world.\<close>
theorem hot_path_agrees:
  "recover_with_guard_held mp root_link desired w = (Done out, w1) \<Longrightarrow>
   \<exists>out1. recover_residue_with_guard_held mp root_link desired w = (Done out1, w1) \<and>
     ro_action out1 = ro_action out \<and> ro_removed_empty_backup out1 = ro_removed_empty_backup out"
proof (cases "transaction_residue_present mp w")
  case True
  then show "recover_with_guard_held mp root_link desired w = (Done out, w1) \<Longrightarrow> ?thesis"
    by (simp add: recover_residue_with_guard_held_def chain_def observe_def)
next
  case False
  assume full: "recover_with_guard_held mp root_link desired w = (Done out, w1)"
  have "w1 = w \<and> ro_action out = NoAction \<and> \<not> ro_removed_empty_backup out"
  proof (cases "is_recoverable (mp_location mp)")
    case True
    with guarded_done [OF full] no_residue_recover False residue_expected show ?thesis by blast
  next
    case False
    with full show ?thesis by (auto simp: recover_with_guard_held_def ret_def untouched_def)
  qed
  with False show ?thesis
    by (simp add: recover_residue_with_guard_held_def chain_def observe_def ret_def untouched_def)
qed

text \<open>A root on which binding resolution is not held back is one that recovery neither discards nor replaces by its backup, whatever
  identity the prefix is recovered with.\<close>
theorem unblocked_root_is_kept:
  "\<not> blocks_resolution (transaction_gate mp w) \<Longrightarrow> decide (mp\<lparr>mp_expected := x\<rparr>) w = Inr (out, root, backup) \<Longrightarrow>
   \<not> destructive (ro_action out)"
  using gate_decision [of "mp\<lparr>mp_expected := x\<rparr>" w out root backup] by (simp add: gate_expected)

text \<open>The empty backup of a prefix whose commit is in doubt is kept, although an empty backup holds no data.\<close>

lemma empty_backup_kept:
  "classify_root mp (identity mp w) w = Inr CommitPending \<Longrightarrow> classify_backup mp (identity mp w) w AtBackup = Inr BackupEmpty \<Longrightarrow>
   recover mp w = (Failed (Ambiguity MaybeCommitted), w)"
  by (simp add: recover_def chain_def observe_def decide_def Let_def plan_def throw_def)

section \<open>Instances\<close>

definition ex_committed :: disk where
  "ex_committed = \<lparr>dk_root = Some (Dir [(COMMIT_PENDING_MARKER, File [3, 3, 3]), (''system.reg'', File [9]), (PREFIX_MARKER, File [4])]),
     dk_backup = Some ex_old, dk_others = []\<rparr>"

lemma ex_committed_root: "classify_root ex_managed None (ex_world ex_committed (\<lambda>_. Proceed)) = Inr (Committed True)"
  by (simp add: classify_root_def classify_listed_def classify_evidence_def classify_manifest_def single_marker_def validated_marker_def
      validate_marker_def committed_manifest_def manifest_matches_stored_location_def parse_stored_prefix_manifest_def
      PREFIX_SCHEMA_VERSION_def MAX_MANIFEST_BYTES_def MARKER_SCHEMA_def MAX_MARKER_BYTES_def ex_committed_def ex_defs)

lemma ex_committed_backup: "classify_backup ex_managed None (ex_world ex_committed (\<lambda>_. Proceed)) AtBackup = Inr Restorable"
  by (simp add: classify_backup_def classify_contents_def classify_owned_def backup_tombstone_def is_protected_def judged_def is_mount_def
      committed_manifest_def manifest_matches_stored_location_def parse_stored_prefix_manifest_def PREFIX_SCHEMA_VERSION_def
      MAX_MANIFEST_BYTES_def ex_old_def ex_committed_def ex_defs)

lemma ex_expected: "ex_managed\<lparr>mp_expected := None\<rparr> = ex_managed"
  by (simp add: ex_managed_def)

lemma ex_committed_legacy: "legacy_reset_backups ex_managed (ex_world ex_committed (\<lambda>_. Proceed)) = []"
  by (simp add: legacy_reset_backups_def ex_world_def ex_committed_def)

lemma ex_committed_decision:
  "decide ex_managed (ex_world ex_committed (\<lambda>_. Proceed)) =
     Inr (\<lparr>ro_action = CompleteCommit True True, ro_removed_empty_backup = False, ro_notes = []\<rparr>, Committed True, Restorable)"
  by (simp add: decide_def ex_identity ex_committed_root ex_committed_backup ex_committed_legacy plan_def)

lemma ex_new: "managed_new ex_managed False None (ex_world ex_killed (\<lambda>_. Proceed)) = Inr ex_managed"
  by (simp add: managed_new_def ensure_managed_path_safe_def expected_path_def prefix_path_def path_of_def is_symlink_def child_def
      expected_identity_def v3_path_suffix_def ex_defs)

end
