(* ===== verification/MemorySessions.thy ===== *)
theory MemorySessions
  imports ProcMemory
begin

text \<open>
  The memory of running clients (\<open>src-tauri/src/tools/memory_sessions\<close>): the preflight of a session and its classification, reads that
  are valid only while the process is the one that was opened, and the registry of sessions, whose entries are removed by the leases
  that registered them.
\<close>

section \<open>Preflight\<close>

datatype memory_access =
    ProcessVmReadv | ProcMem | NoReadableWritableRegion | OutsideSupervisor | YamaDenied | ProcessExitedOrReused | BackendError

datatype profile_memory = NotConfigured | AddressUnmapped | InvalidRead | ValidRead

definition usable :: "memory_access \<Rightarrow> bool" where
  "usable a \<longleftrightarrow> a = ProcessVmReadv \<or> a = ProcMem"

definition ENOENT :: int where "ENOENT = 2"
definition EACCES :: int where "EACCES = 13"
definition EFAULT :: int where "EFAULT = 14"

record preflight_evidence =
  pe_identity_alive :: bool
  pe_descendant_of_ancestor :: bool
  pe_has_rw_region :: bool
  pe_vm_result :: "(int, unit) result"
  pe_proc_mem_result :: "(int, unit) result"

definition denied :: "(int, unit) result \<Rightarrow> bool" where
  "denied r = (case r of Inl errno \<Rightarrow> errno = EPERM \<or> errno = EACCES | Inr _ \<Rightarrow> False)"

definition classify_preflight :: "preflight_evidence \<Rightarrow> memory_access" where
  "classify_preflight e =
     (if \<not> pe_identity_alive e then ProcessExitedOrReused
      else if \<not> pe_has_rw_region e then NoReadableWritableRegion
      else if is_ok (pe_vm_result e) then ProcessVmReadv
      else if is_ok (pe_proc_mem_result e) then ProcMem
      else if denied (pe_vm_result e) \<and> denied (pe_proc_mem_result e)
           then (if pe_descendant_of_ancestor e then YamaDenied else OutsideSupervisor)
           else BackendError)"

fun memory_access_preflight_token :: "memory_access \<Rightarrow> string" where
  "memory_access_preflight_token ProcessVmReadv = ''process_vm_readv''"
| "memory_access_preflight_token ProcMem = ''proc_mem''"
| "memory_access_preflight_token NoReadableWritableRegion = ''no_readable_writable_region''"
| "memory_access_preflight_token OutsideSupervisor = ''outside_supervisor''"
| "memory_access_preflight_token YamaDenied = ''yama_denied''"
| "memory_access_preflight_token ProcessExitedOrReused = ''process_exited_or_reused''"
| "memory_access_preflight_token BackendError = ''backend_error''"

section \<open>Sessions\<close>

datatype memory_backend = ViaVm | ViaMem | ViaVmThenMem

fun backend_label :: "memory_backend \<Rightarrow> string" where
  "backend_label ViaVm = ''process_vm_readv''"
| "backend_label ViaMem = ''proc_mem''"
| "backend_label ViaVmThenMem = ''process_vm_readv+proc_mem''"

record memory_session =
  ms_identity :: process_identity
  ms_reader :: proc_memory_reader
  ms_backend :: memory_backend
  ms_access :: memory_access
  ms_ancestor :: process_identity

definition probed :: "(int, u8 list) result \<Rightarrow> (int, unit) result" where
  "probed r = (case r of Inl errno \<Rightarrow> Inl errno | Inr bytes \<Rightarrow> if length bytes = 4 then Inr () else Inl EFAULT)"

text \<open>What \<open>MemorySession::open\<close> sees, in order: the process before opening, the answers while the reader opens, the process table
  when descent is checked, the maps, and the answers of the probes.\<close>

record open_world =
  ow_first :: proc_fs
  ow_before :: proc_fs
  ow_opened :: "int option option"
  ow_after :: proc_fs
  ow_descent :: proc_fs
  ow_maps :: "string option"
  ow_memory :: mem_world
  ow_raw_error :: "string \<Rightarrow> int option"

datatype open_error = NoLongerValid | ReaderFailed proc_memory_error | NoMaps

definition backend_for :: "memory_access \<Rightarrow> memory_backend" where
  "backend_for a = (case a of ProcessVmReadv \<Rightarrow> ViaVm | ProcMem \<Rightarrow> ViaMem | _ \<Rightarrow> ViaVmThenMem)"

definition ms_open :: "open_world \<Rightarrow> process_identity \<Rightarrow> process_identity \<Rightarrow> (open_error, memory_session) result" where
  "ms_open w identity ancestor =
     (if capture_process_identity (ow_first w) (pi_pid identity) \<noteq> Some identity then Inl NoLongerValid
      else
        and_then (map_err ReaderFailed (open_for_identity (ow_before w) (ow_opened w) (ow_after w) identity)) (\<lambda>reader.
        case ow_maps w of
          None \<Rightarrow> Inl NoMaps
        | Some maps \<Rightarrow>
            let descendant = verify_process_identity (ow_descent w) ancestor \<and>
                             is_descendant_of (ow_descent w) (pi_pid identity) (pi_pid ancestor);
                region = first_rw_u32_region maps;
                (vm, mem) = (case region of
                   Some (address, _) \<Rightarrow>
                     (probed (try_vm_read (ow_memory w) reader address 4),
                      probed (try_proc_mem_read (ow_memory w) reader (ow_raw_error w) address 4))
                 | None \<Rightarrow> (Inl ENOENT, Inl ENOENT));
                access = classify_preflight \<lparr>pe_identity_alive = True, pe_descendant_of_ancestor = descendant,
                  pe_has_rw_region = (region \<noteq> None), pe_vm_result = vm, pe_proc_mem_result = mem\<rparr>
            in Inr \<lparr>ms_identity = identity, ms_reader = reader, ms_backend = backend_for access, ms_access = access,
                 ms_ancestor = ancestor\<rparr>))"

section \<open>Reads of a session\<close>

text \<open>What one read sees: the process before and after it, the answers of the memory, and the text of the diagnostic.\<close>

record read_world =
  rw_before :: proc_fs
  rw_after :: proc_fs
  rw_memory :: mem_world
  rw_diagnostic :: "u32 \<Rightarrow> nat \<Rightarrow> string"

definition stale_error :: tools_error where
  "stale_error = MemoryRead 0 ''proceso terminado o PID reutilizado''"

definition ensure_identity :: "proc_fs \<Rightarrow> memory_session \<Rightarrow> (tools_error, unit) result \<times> memory_session" where
  "ensure_identity p s =
     (if verify_process_identity p (ms_identity s) then (Inr (), s)
      else (Inl stale_error, s\<lparr>ms_access := ProcessExitedOrReused\<rparr>))"

definition enrich_memory_error :: "read_world \<Rightarrow> u32 \<Rightarrow> nat \<Rightarrow> tools_error \<Rightarrow> tools_error" where
  "enrich_memory_error w address wanted e =
     (case e of MemoryRead _ _ \<Rightarrow> MemoryRead address (rw_diagnostic w address wanted) | other \<Rightarrow> other)"

definition guarded_read ::
  "read_world \<Rightarrow> u32 \<Rightarrow> nat \<Rightarrow> (proc_memory_reader \<Rightarrow> (tools_error, 'a) result) \<Rightarrow> memory_session
     \<Rightarrow> (tools_error, 'a) result \<times> memory_session" where
  "guarded_read w address wanted m s =
     (case ensure_identity (rw_before w) s of
        (Inl e, s1) \<Rightarrow> (Inl e, s1)
      | (Inr _, s1) \<Rightarrow>
          (case m (ms_reader s1) of
             Inl e \<Rightarrow> (Inl (enrich_memory_error w address wanted e), s1)
           | Inr v \<Rightarrow>
               (case ensure_identity (rw_after w) s1 of
                  (Inl e, s2) \<Rightarrow> (Inl e, s2) | (Inr _, s2) \<Rightarrow> (Inr v, s2))))"

definition ms_read_u32 :: "read_world \<Rightarrow> u32 \<Rightarrow> memory_session \<Rightarrow> (tools_error, u32) result \<times> memory_session" where
  "ms_read_u32 w address = guarded_read w address 4 (\<lambda>r. read_u32_at (rw_memory w) r address)"

definition ms_read_string :: "read_world \<Rightarrow> u32 \<Rightarrow> nat \<Rightarrow> memory_session \<Rightarrow> (tools_error, text_points) result \<times> memory_session" where
  "ms_read_string w address max_len = guarded_read w address max_len (\<lambda>r. pm_read_string (rw_memory w) r address max_len)"

definition ms_read_u32_slice :: "read_world \<Rightarrow> u32 \<Rightarrow> nat \<Rightarrow> memory_session \<Rightarrow> (tools_error, u32 list) result \<times> memory_session" where
  "ms_read_u32_slice w address len = guarded_read w address (len * 4) (\<lambda>r. pm_read_u32_slice (rw_memory w) r address len)"

definition ms_probe_stats :: "read_world \<Rightarrow> u32 \<Rightarrow> memory_session \<Rightarrow> (tools_error, u32 \<times> u32 \<times> u32 \<times> u32) result \<times> memory_session" where
  "ms_probe_stats w hp_base = guarded_read w hp_base 16 (\<lambda>r. probe_stats (rw_memory w) r hp_base)"

definition ms_scan_writable_u32 ::
  "read_world \<Rightarrow> (string, string) result \<Rightarrow> u32 \<Rightarrow> memory_session \<Rightarrow> (tools_error, u32 list) result \<times> memory_session" where
  "ms_scan_writable_u32 w maps value = guarded_read w 0 4 (\<lambda>r. scan_writable_u32_with_reader (rw_memory w) maps r value)"

definition ms_find_all_writable_bytes ::
  "read_world \<Rightarrow> (string, string) result \<Rightarrow> u8 list \<Rightarrow> memory_session \<Rightarrow> (tools_error, u32 list) result \<times> memory_session" where
  "ms_find_all_writable_bytes w maps needle =
     guarded_read w 0 (max (length needle) 1) (\<lambda>r. find_all_writable_bytes_with_reader (rw_memory w) maps r needle)"

text \<open>Each candidate is read with its own view of the world.\<close>

fun ms_refine_u32_candidates :: "(read_world \<times> u32) list \<Rightarrow> u32 \<Rightarrow> memory_session \<Rightarrow> u32 list \<times> memory_session" where
  "ms_refine_u32_candidates [] value s = ([], s)"
| "ms_refine_u32_candidates ((w, address) # rest) value s =
     (case ms_read_u32 w address s of
        (r, s1) \<Rightarrow>
          (case ms_refine_u32_candidates rest value s1 of
             (found, s2) \<Rightarrow> (if ok_option r = Some value then address # found else found, s2)))"

definition profile_memory_of :: "read_world \<Rightarrow> string option \<Rightarrow> u32 option \<Rightarrow> memory_session \<Rightarrow> profile_memory \<times> memory_session" where
  "profile_memory_of w maps hp_base s =
     (case hp_base of
        None \<Rightarrow> (NotConfigured, s)
      | Some hp_base \<Rightarrow>
          if hp_base = 0 then (NotConfigured, s)
          else if \<not> address_in_maps maps hp_base then (AddressUnmapped, s)
          else (case ms_probe_stats w hp_base s of (r, s1) \<Rightarrow> (if is_ok r then ValidRead else InvalidRead, s1)))"

section \<open>Registry and leases\<close>

text \<open>A hash map is the list of its entries in some order.\<close>

record memory_entry =
  me_generation :: nat
  me_session :: memory_session

record memory_registry =
  mr_sessions :: "(process_identity \<times> memory_entry) list"
  mr_next_generation :: nat

record memory_lease =
  ml_identity :: process_identity
  ml_generation :: nat

definition memory_registry_new :: memory_registry where
  "memory_registry_new = \<lparr>mr_sessions = [], mr_next_generation = 0\<rparr>"

text \<open>\<open>register\<close> after its checks: the section under the lock.\<close>

definition insert_session :: "process_identity \<Rightarrow> memory_session \<Rightarrow> memory_registry \<Rightarrow> memory_lease \<times> memory_registry" where
  "insert_session identity session r =
     (let generation = mr_next_generation r + 1
      in (\<lparr>ml_identity = identity, ml_generation = generation\<rparr>,
          r\<lparr>mr_next_generation := generation,
            mr_sessions := (identity, \<lparr>me_generation = generation, me_session = session\<rparr>)
                             # filter (\<lambda>e. fst e \<noteq> identity) (mr_sessions r)\<rparr>))"

definition register_session ::
  "proc_fs \<Rightarrow> open_world \<Rightarrow> process_identity \<Rightarrow> process_identity \<Rightarrow> memory_registry
     \<Rightarrow> (open_error, memory_lease) result \<times> memory_registry" where
  "register_session p w identity ancestor r =
     (if capture_process_identity p (pi_pid identity) \<noteq> Some identity then (Inl NoLongerValid, r)
      else (case ms_open w identity ancestor of
              Inl e \<Rightarrow> (Inl e, r)
            | Inr session \<Rightarrow> (case insert_session identity session r of (lease, r1) \<Rightarrow> (Inr lease, r1))))"

definition get_session :: "process_identity \<Rightarrow> memory_registry \<Rightarrow> memory_session option" where
  "get_session identity r = map_option me_session (map_of (mr_sessions r) identity)"

definition drop_memory_lease :: "memory_lease \<Rightarrow> memory_registry \<Rightarrow> memory_registry" where
  "drop_memory_lease lease r =
     (case map_of (mr_sessions r) (ml_identity lease) of
        Some entry \<Rightarrow>
          if me_generation entry = ml_generation lease
          then r\<lparr>mr_sessions := filter (\<lambda>e. fst e \<noteq> ml_identity lease) (mr_sessions r)\<rparr> else r
      | None \<Rightarrow> r)"

section \<open>What a registry with leases promises\<close>

text \<open>Every entry belongs to a lease that is held, and no two leases have a generation in common.\<close>

definition accounted :: "('r \<Rightarrow> 'i \<Rightarrow> nat option) \<Rightarrow> ('r \<Rightarrow> nat) \<Rightarrow> 'r \<Rightarrow> ('i \<times> nat) list \<Rightarrow> bool" where
  "accounted owner counter r leases \<longleftrightarrow>
     distinct (map snd leases) \<and> (\<forall>(i, g) \<in> set leases. g \<le> counter r) \<and>
     (\<forall>i g. owner r i = Some g \<longrightarrow> (i, g) \<in> set leases)"

locale lease_registry =
  fixes owner :: "'r \<Rightarrow> 'i \<Rightarrow> nat option"
    and counter :: "'r \<Rightarrow> nat"
    and acquire :: "'i \<Rightarrow> 's \<Rightarrow> 'r \<Rightarrow> nat \<times> 'r"
    and release :: "'i \<Rightarrow> nat \<Rightarrow> 'r \<Rightarrow> 'r"
  assumes acquire_new: "counter r < fst (acquire i s r)" "counter (snd (acquire i s r)) = fst (acquire i s r)"
    and acquire_owner: "owner (snd (acquire i s r)) j = (if j = i then Some (fst (acquire i s r)) else owner r j)"
    and release_counter: "counter (release i g r) = counter r"
    and release_owner: "owner (release i g r) j = (if j = i \<and> owner r i = Some g then None else owner r j)"
begin

lemma acquire_accounted: "accounted owner counter r ls \<Longrightarrow> accounted owner counter (snd (acquire i s r)) ((i, fst (acquire i s r)) # ls)"
  using acquire_new(1) [of r i s] acquire_new(2) [of i s r] by (fastforce simp: accounted_def acquire_owner split: if_splits)

lemma acquired_owner: "owner (snd (acquire i s r)) i = Some (fst (acquire i s r))"
  by (simp add: acquire_owner)

lemma release_accounted:
  assumes "accounted owner counter r ls" "(i, g) \<in> set ls"
  shows "accounted owner counter (release i g r) (remove1 (i, g) ls)"
proof -
  have d: "distinct (map snd ls)" using assms(1) by (simp add: accounted_def)
  then have dl: "distinct ls" by (simp add: distinct_map)
  have "distinct (map snd (remove1 (i, g) ls))" using d by (induction ls) (auto dest: notin_set_remove1 set_mp [OF set_remove1_subset])
  with assms dl show ?thesis by (auto simp: accounted_def release_counter release_owner split: if_splits)
qed

text \<open>Releasing a lease leaves the entry of a later one.\<close>

lemma release_keeps_newer: "owner r i = Some g \<Longrightarrow> g \<noteq> h \<Longrightarrow> owner (release i h r) i = Some g"
  by (simp add: release_owner)

end

definition session_owner :: "memory_registry \<Rightarrow> process_identity \<Rightarrow> nat option" where
  "session_owner r identity = map_option me_generation (map_of (mr_sessions r) identity)"

definition acquire_session :: "process_identity \<Rightarrow> memory_session \<Rightarrow> memory_registry \<Rightarrow> nat \<times> memory_registry" where
  "acquire_session identity session r =
     (case insert_session identity session r of (lease, r1) \<Rightarrow> (ml_generation lease, r1))"

definition release_session :: "process_identity \<Rightarrow> nat \<Rightarrow> memory_registry \<Rightarrow> memory_registry" where
  "release_session identity generation = drop_memory_lease \<lparr>ml_identity = identity, ml_generation = generation\<rparr>"

lemma map_of_others: "map_of (filter (\<lambda>e. fst e \<noteq> i) es) j = (if j = i then None else map_of es j)"
  by (induction es) auto

interpretation memory_leases: lease_registry session_owner mr_next_generation acquire_session release_session
  by unfold_locales
    (auto simp: acquire_session_def insert_session_def Let_def session_owner_def map_of_others release_session_def drop_memory_lease_def
      split: option.splits)

section \<open>Properties\<close>

lemma guarded_read_Inr:
  assumes "fst (guarded_read w address wanted m s) = Inr v"
  shows "verify_process_identity (rw_before w) (ms_identity s)" "verify_process_identity (rw_after w) (ms_identity s)"
    "m (ms_reader s) = Inr v"
  using assms by (auto simp: guarded_read_def ensure_identity_def split: sum.splits if_splits)

text \<open>A value that a memory session returns was read from the very process that the session was opened for: whatever processes had
  the PID in between, that one had it at every moment of the read.\<close>
theorem session_read_from_its_process:
  assumes "uninterrupted occupant" "checked \<le> t" "t \<le> rechecked"
    and "shows_history occupant checked (rw_before w)" "shows_history occupant rechecked (rw_after w)"
    and "fst (guarded_read w address wanted m s) = Inr v"
  shows "occupant t (pi_pid (ms_identity s)) = Some (pi_start_time (ms_identity s))"
proof -
  have "occupant checked (pi_pid (ms_identity s)) = Some (pi_start_time (ms_identity s))"
    "occupant rechecked (pi_pid (ms_identity s)) = Some (pi_start_time (ms_identity s))"
    using assms(4,5) guarded_read_Inr(1,2) [OF assms(6)] by (auto simp: verify_process_identity_def shows_history_def)
  with assms(1-3) show ?thesis unfolding uninterrupted_def by blast
qed

definition example_session :: memory_session where
  "example_session =
     \<lparr>ms_identity = \<lparr>pi_pid = 7, pi_start_time = 99\<rparr>,
      ms_reader = \<lparr>pm_pid = 7, pm_identity = \<lparr>pi_pid = 7, pi_start_time = 99\<rparr>, pm_file = False, pm_mem_open_errno = None\<rparr>,
      ms_backend = ViaVm, ms_access = ProcessVmReadv, ms_ancestor = \<lparr>pi_pid = 5, pi_start_time = 1\<rparr>\<rparr>"

lemma ms_open_identity:
  "ms_open w identity ancestor = Inr s \<Longrightarrow> ms_identity s = identity \<and> ms_access s \<noteq> ProcessExitedOrReused"
  by (auto simp: ms_open_def and_then_def Let_def classify_preflight_def split: if_splits sum.splits option.splits prod.splits)

end
