(* ===== verification/GameClients.thy ===== *)
theory GameClients
  imports MemorySessions
begin

text \<open>
  The clients of the game that the launcher has started (\<open>src-tauri/src/state/game_process.rs\<close>) together with the leases of their memory
  sessions: every operation is one section under the lock; a lease that an operation drops is among its results.  The hash map of
  clients is the list of its entries in some order.
\<close>

section \<open>State\<close>

record client_metadata =
  cm_client_id :: string
  cm_server_id :: string
  cm_server_name :: string

record client_runtime =
  cr_memory :: "memory_lease option"
  cr_access :: "memory_access option"
  cr_profile :: "profile_memory option"

datatype process_state =
    Launching client_metadata "process_identity option" bool
  | Running client_metadata process_identity "process_identity option" string "string option" client_runtime bool

fun ps_metadata :: "process_state \<Rightarrow> client_metadata" where
  "ps_metadata (Launching m _ _) = m"
| "ps_metadata (Running m _ _ _ _ _ _) = m"

fun ps_identity :: "process_state \<Rightarrow> process_identity option" where
  "ps_identity (Launching _ _ _) = None"
| "ps_identity (Running _ identity _ _ _ _ _) = Some identity"

fun is_launching :: "process_state \<Rightarrow> bool" where
  "is_launching (Launching _ _ _) = True"
| "is_launching (Running _ _ _ _ _ _ _) = False"

fun ps_stopped :: "process_state \<Rightarrow> bool" where
  "ps_stopped (Launching _ _ stop) = stop"
| "ps_stopped (Running _ _ _ _ _ _ stop) = stop"

fun ps_stop :: "process_state \<Rightarrow> process_state" where
  "ps_stop (Launching m c _) = Launching m c True"
| "ps_stop (Running m i c p ob rt _) = Running m i c p ob rt True"

fun ps_lease :: "process_state \<Rightarrow> memory_lease option" where
  "ps_lease (Launching _ _ _) = None"
| "ps_lease (Running _ _ _ _ _ rt _) = cr_memory rt"

datatype client_status = LaunchingStatus | RunningStatus | StoppingStatus

record client_snapshot =
  cs_client_id :: string
  cs_server_id :: string
  cs_server_name :: string
  cs_status :: client_status
  cs_pid :: "u32 option"
  cs_memory_access :: "memory_access option"
  cs_profile_memory :: "profile_memory option"

fun ps_snapshot :: "process_state \<Rightarrow> client_snapshot" where
  "ps_snapshot (Launching m _ stop) =
     \<lparr>cs_client_id = cm_client_id m, cs_server_id = cm_server_id m, cs_server_name = cm_server_name m,
      cs_status = (if stop then StoppingStatus else LaunchingStatus), cs_pid = None, cs_memory_access = None,
      cs_profile_memory = None\<rparr>"
| "ps_snapshot (Running m identity _ _ _ rt stop) =
     \<lparr>cs_client_id = cm_client_id m, cs_server_id = cm_server_id m, cs_server_name = cm_server_name m,
      cs_status = (if stop then StoppingStatus else RunningStatus), cs_pid = Some (pi_pid identity),
      cs_memory_access = cr_access rt, cs_profile_memory = cr_profile rt\<rparr>"

record game_clients =
  gm_clients :: "(nat \<times> process_state) list"
  gm_closed :: bool
  gm_next :: nat

definition game_new :: game_clients where
  "game_new = \<lparr>gm_clients = [], gm_closed = False, gm_next = 1\<rparr>"

datatype game_error =
    Restarting | AlreadyLaunching | ClientIdInUse | ProcessOwned | ReservationGone | LaunchCancelled | AlreadyRunning
  | ClientsOpen | NoClient | NotExactlyOne | ClientClosing | ClientLaunching | OtherServer string | ClientGone

section \<open>Launching\<close>

definition begin_launch :: "client_metadata \<Rightarrow> game_clients \<Rightarrow> (game_error, nat) result \<times> game_clients" where
  "begin_launch m g =
     (if gm_closed g then (Inl Restarting, g)
      else if list_ex (\<lambda>e. is_launching (snd e)) (gm_clients g) then (Inl AlreadyLaunching, g)
      else if list_ex (\<lambda>e. cm_client_id (ps_metadata (snd e)) = cm_client_id m) (gm_clients g) then (Inl ClientIdInUse, g)
      else (Inr (gm_next g),
            g\<lparr>gm_clients := (gm_next g, Launching m None False) # gm_clients g, gm_next := gm_next g + 1\<rparr>))"

definition update_client :: "nat \<Rightarrow> process_state \<Rightarrow> game_clients \<Rightarrow> game_clients" where
  "update_client gen c g = g\<lparr>gm_clients := map (\<lambda>e. if fst e = gen then (gen, c) else e) (gm_clients g)\<rparr>"

definition remove_client :: "nat \<Rightarrow> game_clients \<Rightarrow> game_clients" where
  "remove_client gen g = g\<lparr>gm_clients := filter (\<lambda>e. fst e \<noteq> gen) (gm_clients g)\<rparr>"

definition leases_of :: "memory_lease option \<Rightarrow> memory_lease list" where
  "leases_of l = (case l of None \<Rightarrow> [] | Some x \<Rightarrow> [x])"

text \<open>The third result: the leases that are dropped.\<close>

definition mark_running ::
  "nat \<Rightarrow> process_identity \<Rightarrow> client_runtime \<Rightarrow> string \<Rightarrow> string option \<Rightarrow> game_clients
     \<Rightarrow> (game_error, client_snapshot) result \<times> game_clients \<times> memory_lease list" where
  "mark_running gen identity rt plan_id observation g =
     (if list_ex (\<lambda>e. fst e \<noteq> gen \<and> ps_identity (snd e) = Some identity) (gm_clients g)
      then (Inl ProcessOwned, g, leases_of (cr_memory rt))
      else
        (case map_of (gm_clients g) gen of
           None \<Rightarrow> (Inl ReservationGone, g, leases_of (cr_memory rt))
         | Some (Launching m controller stop) \<Rightarrow>
             if stop then (Inl LaunchCancelled, g, leases_of (cr_memory rt))
             else
               let c = Running m identity controller plan_id observation rt False
               in (Inr (ps_snapshot c), update_client gen c g, [])
         | Some _ \<Rightarrow> (Inl AlreadyRunning, g, leases_of (cr_memory rt))))"

definition mark_controller :: "nat \<Rightarrow> process_identity \<Rightarrow> game_clients \<Rightarrow> (game_error, unit) result \<times> game_clients" where
  "mark_controller gen identity g =
     (case map_of (gm_clients g) gen of
        None \<Rightarrow> (Inl ReservationGone, g)
      | Some (Launching m _ stop) \<Rightarrow>
          if stop then (Inl LaunchCancelled, g) else (Inr (), update_client gen (Launching m (Some identity) False) g)
      | Some _ \<Rightarrow> (Inl AlreadyRunning, g))"

text \<open>Also the drop of a \<open>PendingLaunchGuard\<close>.\<close>

definition cancel_launch :: "nat \<Rightarrow> game_clients \<Rightarrow> game_clients" where
  "cancel_launch gen g =
     (case map_of (gm_clients g) gen of Some (Launching _ _ _) \<Rightarrow> remove_client gen g | _ \<Rightarrow> g)"

definition active_count :: "game_clients \<Rightarrow> nat" where
  "active_count g = length (gm_clients g)"

definition close_admission_if_idle :: "game_clients \<Rightarrow> (game_error, unit) result \<times> game_clients" where
  "close_admission_if_idle g =
     (if gm_clients g \<noteq> [] then (Inl ClientsOpen, g)
      else if gm_closed g then (Inl Restarting, g)
      else (Inr (), g\<lparr>gm_closed := True\<rparr>))"

text \<open>The drop of the \<open>GameLaunchAdmission\<close>.\<close>

definition reopen_admission :: "game_clients \<Rightarrow> game_clients" where
  "reopen_admission g = g\<lparr>gm_closed := False\<rparr>"

section \<open>What others see\<close>

definition snapshots :: "game_clients \<Rightarrow> client_snapshot list" where
  "snapshots g = map (\<lambda>e. ps_snapshot (snd e)) (sort_by_key fst (gm_clients g))"

definition sole_running_pid_for_server :: "string option \<Rightarrow> game_clients \<Rightarrow> (game_error, u32) result" where
  "sole_running_pid_for_server server g =
     (case gm_clients g of
        [] \<Rightarrow> Inl NoClient
      | [(_, Running m identity _ _ _ _ stop)] \<Rightarrow>
          if stop then Inl ClientClosing
          else if server \<noteq> None \<and> server \<noteq> Some (cm_server_id m) then Inl (OtherServer (cm_server_name m))
          else Inr (pi_pid identity)
      | [(_, Launching _ _ _)] \<Rightarrow> Inl ClientLaunching
      | _ \<Rightarrow> Inl NotExactlyOne)"

definition sole_running_identity :: "game_clients \<Rightarrow> (game_error, process_identity) result" where
  "sole_running_identity g =
     (case gm_clients g of
        [] \<Rightarrow> Inl NoClient
      | [(_, Running _ identity _ _ _ _ stop)] \<Rightarrow> if stop then Inl ClientClosing else Inr identity
      | [(_, Launching _ _ _)] \<Rightarrow> Inl ClientLaunching
      | _ \<Rightarrow> Inl NotExactlyOne)"

record running_client_facts =
  rf_identity :: process_identity
  rf_controller :: "process_identity option"
  rf_server_id :: string
  rf_server_name :: string
  rf_runtime_plan_id :: string
  rf_observation_id :: "string option"

definition client_of :: "string \<Rightarrow> game_clients \<Rightarrow> (nat \<times> process_state) option" where
  "client_of client_id g = find (\<lambda>e. cm_client_id (ps_metadata (snd e)) = client_id) (gm_clients g)"

definition running_facts_for :: "string \<Rightarrow> game_clients \<Rightarrow> (game_error, running_client_facts) result" where
  "running_facts_for client_id g =
     (case client_of client_id g of
        None \<Rightarrow> Inl ClientGone
      | Some (_, Launching _ _ stop) \<Rightarrow> Inl (if stop then ClientClosing else ClientLaunching)
      | Some (_, Running m identity controller plan_id observation _ stop) \<Rightarrow>
          if stop then Inl ClientClosing
          else Inr \<lparr>rf_identity = identity, rf_controller = controller, rf_server_id = cm_server_id m,
                 rf_server_name = cm_server_name m, rf_runtime_plan_id = plan_id, rf_observation_id = observation\<rparr>)"

section \<open>Stopping\<close>

fun stop_identities :: "process_state \<Rightarrow> process_identity list" where
  "stop_identities (Launching _ controller _) = (case controller of None \<Rightarrow> [] | Some c \<Rightarrow> [c])"
| "stop_identities (Running _ identity controller _ _ _ _) =
     identity # (case controller of Some c \<Rightarrow> if c \<noteq> identity then [c] else [] | None \<Rightarrow> [])"

record stop_request =
  sr_identities :: "process_identity list"
  sr_was_only_client :: bool

definition request_stop :: "string \<Rightarrow> game_clients \<Rightarrow> (game_error, stop_request) result \<times> game_clients" where
  "request_stop client_id g =
     (case client_of client_id g of
        None \<Rightarrow> (Inl ClientGone, g)
      | Some (gen, c) \<Rightarrow>
          (Inr \<lparr>sr_identities = stop_identities c, sr_was_only_client = (length (gm_clients g) = 1)\<rparr>,
           update_client gen (ps_stop c) g))"

definition request_stop_all :: "game_clients \<Rightarrow> process_identity set \<times> game_clients" where
  "request_stop_all g =
     (set (concat (map (\<lambda>e. stop_identities (snd e)) (gm_clients g))),
      g\<lparr>gm_clients := map (\<lambda>e. (fst e, ps_stop (snd e))) (gm_clients g)\<rparr>)"

fun names_identity :: "process_identity \<Rightarrow> process_state \<Rightarrow> bool" where
  "names_identity candidate (Launching _ controller _) = (controller = Some candidate)"
| "names_identity candidate (Running _ identity controller _ _ _ _) = (identity = candidate \<or> controller = Some candidate)"

definition contains_identity :: "process_identity \<Rightarrow> game_clients \<Rightarrow> bool" where
  "contains_identity candidate g = list_ex (\<lambda>e. names_identity candidate (snd e)) (gm_clients g)"

definition stop_requested :: "nat \<Rightarrow> game_clients \<Rightarrow> bool" where
  "stop_requested gen g = (case map_of (gm_clients g) gen of None \<Rightarrow> False | Some c \<Rightarrow> ps_stopped c)"

section \<open>Handing a client over to another process\<close>

definition taken_by_other :: "nat \<Rightarrow> process_identity \<Rightarrow> game_clients \<Rightarrow> bool" where
  "taken_by_other gen candidate g =
     list_ex (\<lambda>e. fst e \<noteq> gen \<and> (is_launching (snd e) \<or> ps_identity (snd e) = Some candidate)) (gm_clients g)"

definition candidate_available_for_handoff :: "nat \<Rightarrow> process_identity \<Rightarrow> game_clients \<Rightarrow> bool" where
  "candidate_available_for_handoff gen candidate g =
     ((case map_of (gm_clients g) gen of Some (Running _ _ _ _ _ _ stop) \<Rightarrow> \<not> stop | _ \<Rightarrow> False) \<and>
      \<not> taken_by_other gen candidate g)"

definition snapshot_for :: "nat \<Rightarrow> game_clients \<Rightarrow> client_snapshot option" where
  "snapshot_for gen g = map_option ps_snapshot (map_of (gm_clients g) gen)"

definition replace_running ::
  "nat \<Rightarrow> process_identity \<Rightarrow> process_identity \<Rightarrow> memory_lease \<Rightarrow> memory_access \<Rightarrow> profile_memory \<Rightarrow> game_clients
     \<Rightarrow> bool \<times> game_clients \<times> memory_lease list" where
  "replace_running gen expected replacement lease access profile g =
     (if taken_by_other gen replacement g then (False, g, [lease])
      else
        (case map_of (gm_clients g) gen of
           Some (Running m identity controller plan_id observation rt stop) \<Rightarrow>
             if \<not> stop \<and> identity = expected
             then (True,
                   update_client gen (Running m replacement controller plan_id observation
                     (rt\<lparr>cr_memory := Some lease, cr_access := Some access, cr_profile := Some profile\<rparr>) stop) g,
                   leases_of (cr_memory rt))
             else (False, g, [lease])
         | _ \<Rightarrow> (False, g, [lease])))"

record finished_client =
  fc_metadata :: client_metadata
  fc_stop_requested :: bool
  fc_remaining_clients :: nat

definition finish :: "nat \<Rightarrow> game_clients \<Rightarrow> finished_client option \<times> game_clients \<times> memory_lease list" where
  "finish gen g =
     (case map_of (gm_clients g) gen of
        Some (Running m _ _ _ _ rt stop) \<Rightarrow>
          (Some \<lparr>fc_metadata = m, fc_stop_requested = stop, fc_remaining_clients = length (gm_clients (remove_client gen g))\<rparr>,
           remove_client gen g, leases_of (cr_memory rt))
      | _ \<Rightarrow> (None, g, []))"

end
