(* ===== verification/ClientLifecycle.thy ===== *)
theory ClientLifecycle
  imports GameClients "HOL-Library.Multiset"
begin

text \<open>
  The clients of the game and the registry of memory sessions as one system: the tasks of the launcher take any of their operations,
  in any order, and own the leases that no client holds.  A lease that an operation gives back stays with its task until it is released,
  which is a step of its own, as the code drops it after the lock.
\<close>

section \<open>The system\<close>

record launcher =
  sy_game :: game_clients
  sy_memory :: memory_registry
  sy_held :: "memory_lease list"

definition system_new :: launcher where
  "system_new = \<lparr>sy_game = game_new, sy_memory = memory_registry_new, sy_held = []\<rparr>"

definition taken :: "memory_lease list \<Rightarrow> memory_lease list \<Rightarrow> memory_lease list" where
  "taken ls held = fold remove1 ls held"

inductive game_step :: "launcher \<Rightarrow> launcher \<Rightarrow> bool" where
  launch_begins: "game_step s (s\<lparr>sy_game := snd (begin_launch m (sy_game s))\<rparr>)"
| controls: "game_step s (s\<lparr>sy_game := snd (mark_controller gen identity (sy_game s))\<rparr>)"
| registers: "register_session p w identity ancestor (sy_memory s) = (Inr lease, r)
    \<Longrightarrow> game_step s (s\<lparr>sy_memory := r, sy_held := lease # sy_held s\<rparr>)"
| releases: "lease \<in> set (sy_held s)
    \<Longrightarrow> game_step s (s\<lparr>sy_memory := drop_memory_lease lease (sy_memory s), sy_held := remove1 lease (sy_held s)\<rparr>)"
| launch_runs: "set (leases_of (cr_memory rt)) \<subseteq> set (sy_held s) \<Longrightarrow> mark_running gen identity rt plan_id ob (sy_game s) = (r, g, dropped)
    \<Longrightarrow> game_step s (s\<lparr>sy_game := g, sy_held := dropped @ taken (leases_of (cr_memory rt)) (sy_held s)\<rparr>)"
| replaces: "lease \<in> set (sy_held s) \<Longrightarrow> replace_running gen expected new lease access profile (sy_game s) = (ok, g, dropped)
    \<Longrightarrow> game_step s (s\<lparr>sy_game := g, sy_held := dropped @ taken [lease] (sy_held s)\<rparr>)"
| cancels: "game_step s (s\<lparr>sy_game := cancel_launch gen (sy_game s)\<rparr>)"
| stops: "game_step s (s\<lparr>sy_game := snd (request_stop client_id (sy_game s))\<rparr>)"
| stops_all: "game_step s (s\<lparr>sy_game := snd (request_stop_all (sy_game s))\<rparr>)"
| finishes: "finish gen (sy_game s) = (r, g, dropped) \<Longrightarrow> game_step s (s\<lparr>sy_game := g, sy_held := dropped @ sy_held s\<rparr>)"
| closes: "game_step s (s\<lparr>sy_game := snd (close_admission_if_idle (sy_game s))\<rparr>)"
| reopens: "game_step s (s\<lparr>sy_game := reopen_admission (sy_game s)\<rparr>)"

section \<open>The invariant of the clients\<close>

text \<open>What no two clients may have in common: the phase of a launch, the identifier, the process.\<close>

definition clash :: "process_state \<Rightarrow> process_state \<Rightarrow> bool" where
  "clash c d \<longleftrightarrow> (is_launching c \<and> is_launching d) \<or> cm_client_id (ps_metadata c) = cm_client_id (ps_metadata d) \<or>
     (ps_identity c \<noteq> None \<and> ps_identity c = ps_identity d)"

definition clash_free :: "(nat \<times> process_state) list \<Rightarrow> bool" where
  "clash_free es \<longleftrightarrow> distinct (map fst es) \<and>
     (\<forall>a c b d. (a, c) \<in> set es \<longrightarrow> (b, d) \<in> set es \<longrightarrow> a \<noteq> b \<longrightarrow> \<not> clash c d)"

definition clients_inv :: "game_clients \<Rightarrow> bool" where
  "clients_inv g \<longleftrightarrow> clash_free (gm_clients g) \<and> (\<forall>(a, c) \<in> set (gm_clients g). a < gm_next g) \<and>
     (gm_closed g \<longrightarrow> gm_clients g = [])"

lemma clash_sym: "clash c d = clash d c"
  unfolding clash_def by metis

lemma clash_free_filter: "clash_free es \<Longrightarrow> clash_free (filter P es)"
  unfolding clash_free_def by (simp add: distinct_map_filter) blast

lemma fst_update: "map fst (map (\<lambda>e. if fst e = gen then (gen, c) else e) es) = map fst es"
  by (induction es) auto

text \<open>An entry may be changed to one that clashes with no other.\<close>

lemma clash_free_update:
  assumes "clash_free es" "map_of es gen = Some c" "cm_client_id (ps_metadata c') = cm_client_id (ps_metadata c)"
    and "is_launching c' \<Longrightarrow> is_launching c"
    and "\<And>b d. (b, d) \<in> set es \<Longrightarrow> b \<noteq> gen \<Longrightarrow> ps_identity c' = None \<or> ps_identity d \<noteq> ps_identity c'"
  shows "clash_free (map (\<lambda>e. if fst e = gen then (gen, c') else e) es)"
proof -
  have "(gen, c) \<in> set es" using assms(2) by (rule map_of_SomeD)
  then have "\<not> clash c d" if "(b, d) \<in> set es" "b \<noteq> gen" for b d
    using assms(1) that unfolding clash_free_def by metis
  then have others: "\<not> clash c' d" "\<not> clash d c'" if "(b, d) \<in> set es" "b \<noteq> gen" for b d
    using assms(3,4) assms(5) [OF that] that unfolding clash_def by metis+
  have cs: "(a = gen \<and> e = c') \<or> ((a, e) \<in> set es \<and> a \<noteq> gen)"
    if "(a, e) \<in> set (map (\<lambda>e. if fst e = gen then (gen, c') else e) es)" for a e
    using that by (auto split: if_splits)
  show ?thesis
    unfolding clash_free_def fst_update
  proof (intro conjI allI impI)
    show "distinct (map fst es)" using assms(1) by (simp add: clash_free_def)
  next
    fix a x b y
    assume h: "(a, x) \<in> set (map (\<lambda>e. if fst e = gen then (gen, c') else e) es)"
      "(b, y) \<in> set (map (\<lambda>e. if fst e = gen then (gen, c') else e) es)" "a \<noteq> b"
    show "\<not> clash x y"
      using cs [OF h(1)] cs [OF h(2)] h(3) others assms(1) unfolding clash_free_def by metis
  qed
qed

lemma ps_stop_simps [simp]: "ps_metadata (ps_stop c) = ps_metadata c" "ps_identity (ps_stop c) = ps_identity c"
    "is_launching (ps_stop c) = is_launching c" "ps_lease (ps_stop c) = ps_lease c" "ps_stopped (ps_stop c)"
  by (cases c; simp)+

lemma clash_stop [simp]: "clash (ps_stop c) (ps_stop d) = clash c d"
  by (simp add: clash_def)

lemma clash_free_stop_all: "clash_free es \<Longrightarrow> clash_free (map (\<lambda>e. (fst e, ps_stop (snd e))) es)"
  unfolding clash_free_def by (auto simp: comp_def)

lemma update_members: "(a, d) \<in> set (gm_clients (update_client gen c g)) \<Longrightarrow> (a, d) \<in> set (gm_clients g) \<or> (a = gen \<and> gen \<in> fst ` set (gm_clients g))"
  by (force simp: update_client_def split: if_splits)

lemma clients_inv_update:
  assumes "clients_inv g" "map_of (gm_clients g) gen = Some c" "cm_client_id (ps_metadata c') = cm_client_id (ps_metadata c)"
    and "is_launching c' \<Longrightarrow> is_launching c"
    and "\<And>b d. (b, d) \<in> set (gm_clients g) \<Longrightarrow> b \<noteq> gen \<Longrightarrow> ps_identity c' = None \<or> ps_identity d \<noteq> ps_identity c'"
  shows "clients_inv (update_client gen c' g)"
  using assms clash_free_update [OF _ assms(2-5)] unfolding clients_inv_def
  by (fastforce simp: update_client_def split: if_splits)

lemma clients_inv_remove: "clients_inv g \<Longrightarrow> clients_inv (remove_client gen g)"
  by (auto simp: clients_inv_def remove_client_def clash_free_filter)

lemma clash_free_Cons:
  assumes "clash_free es" "gen \<notin> fst ` set es" "\<And>b d. (b, d) \<in> set es \<Longrightarrow> \<not> clash c d"
  shows "clash_free ((gen, c) # es)"
  unfolding clash_free_def
proof (intro conjI allI impI)
  show "distinct (map fst ((gen, c) # es))" using assms(1,2) by (simp add: clash_free_def)
next
  fix a x b y
  assume "(a, x) \<in> set ((gen, c) # es)" "(b, y) \<in> set ((gen, c) # es)" "a \<noteq> b"
  then show "\<not> clash x y" using assms(1,3) clash_sym unfolding clash_free_def by (metis prod.inject set_ConsD)
qed

lemma clients_inv_begin: "clients_inv g \<Longrightarrow> clients_inv (snd (begin_launch m g))"
proof (cases "fst (begin_launch m g)")
  case (Inl e)
  then have "snd (begin_launch m g) = g" by (auto simp: begin_launch_def split: if_splits)
  then show "clients_inv g \<Longrightarrow> ?thesis" by simp
next
  case (Inr gen)
  assume inv: "clients_inv g"
  from Inr have b: "\<not> gm_closed g" "\<forall>e \<in> set (gm_clients g). \<not> clash (Launching m None False) (snd e)"
    "snd (begin_launch m g) = g\<lparr>gm_clients := (gm_next g, Launching m None False) # gm_clients g, gm_next := gm_next g + 1\<rparr>"
    by (auto simp: begin_launch_def clash_def list_ex_iff split: if_splits)
  have new: "clash_free ((gm_next g, Launching m None False) # gm_clients g)"
    using inv b(2) by (intro clash_free_Cons) (auto simp: clients_inv_def)
  show ?thesis using inv new b(1,3) by (auto simp: clients_inv_def)
qed

lemma clients_inv_controls: "clients_inv g \<Longrightarrow> clients_inv (snd (mark_controller gen identity g))"
  unfolding mark_controller_def
  by (auto split: option.splits process_state.splits intro!: clients_inv_update)

lemma clients_inv_runs: "clients_inv g \<Longrightarrow> mark_running gen identity rt plan_id ob g = (r, g', dropped) \<Longrightarrow> clients_inv g'"
  unfolding mark_running_def
  by (auto simp: Let_def list_ex_iff split: option.splits process_state.splits if_splits intro!: clients_inv_update)

lemma clients_inv_replaces:
  "clients_inv g \<Longrightarrow> replace_running gen expected new lease access profile g = (ok, g', dropped) \<Longrightarrow> clients_inv g'"
  unfolding replace_running_def taken_by_other_def
  by (auto simp: Let_def list_ex_iff split: option.splits process_state.splits if_splits intro!: clients_inv_update)

lemma client_of_member:
  assumes "client_of client_id g = Some (gen, c)" "clients_inv g"
  shows "map_of (gm_clients g) gen = Some c" "cm_client_id (ps_metadata c) = client_id"
proof -
  have m: "(gen, c) \<in> set (gm_clients g) \<and> cm_client_id (ps_metadata c) = client_id"
    using assms(1) unfolding client_of_def find_Some_iff by (metis nth_mem snd_conv)
  then show "map_of (gm_clients g) gen = Some c" "cm_client_id (ps_metadata c) = client_id"
    using assms(2) by (auto simp: clients_inv_def clash_free_def)
qed

text \<open>To stop a client frees nothing that another may take.\<close>

lemma clients_inv_stops:
  assumes "clients_inv g"
  shows "clients_inv (snd (request_stop client_id g))"
proof (cases "client_of client_id g")
  case None
  with assms show ?thesis by (simp add: request_stop_def)
next
  case (Some e)
  obtain gen c where e: "e = (gen, c)" by fastforce
  note m = client_of_member [OF Some [unfolded e] assms]
  have "(gen, c) \<in> set (gm_clients g)" using m(1) by (rule map_of_SomeD)
  then have "ps_identity c = None \<or> ps_identity d \<noteq> ps_identity c" if "(b, d) \<in> set (gm_clients g)" "b \<noteq> gen" for b d
    using assms that unfolding clients_inv_def clash_free_def clash_def by metis
  then show ?thesis using assms m(1) Some e by (auto simp: request_stop_def intro!: clients_inv_update)
qed

lemma clients_inv_stops_all: "clients_inv g \<Longrightarrow> clients_inv (snd (request_stop_all g))"
  by (auto simp: clients_inv_def request_stop_all_def clash_free_stop_all)

lemma clients_inv_finishes: "clients_inv g \<Longrightarrow> finish gen g = (r, g', dropped) \<Longrightarrow> clients_inv g'"
  by (auto simp: finish_def clients_inv_remove split: option.splits process_state.splits)

lemma clients_inv_cancels: "clients_inv g \<Longrightarrow> clients_inv (cancel_launch gen g)"
  by (auto simp: cancel_launch_def clients_inv_remove split: option.splits process_state.splits)

lemma clients_inv_step: "game_step s t \<Longrightarrow> clients_inv (sy_game s) \<Longrightarrow> clients_inv (sy_game t)"
proof (induction rule: game_step.induct)
  case (closes s) then show ?case by (auto simp: close_admission_if_idle_def clients_inv_def)
next
  case (reopens s) then show ?case by (auto simp: reopen_admission_def clients_inv_def)
qed (auto simp: clients_inv_begin clients_inv_controls clients_inv_cancels clients_inv_stops clients_inv_stops_all
       intro: clients_inv_runs clients_inv_replaces clients_inv_finishes)

section \<open>The leases\<close>

definition client_leases :: "game_clients \<Rightarrow> memory_lease multiset" where
  "client_leases g = sum_list (map (\<lambda>e. mset (leases_of (ps_lease (snd e)))) (gm_clients g))"

definition live_leases :: "launcher \<Rightarrow> memory_lease multiset" where
  "live_leases s = client_leases (sy_game s) + mset (sy_held s)"

lemma in_leases: "x \<in># sum_list (map f es) \<longleftrightarrow> (\<exists>e \<in> set es. x \<in># f e)"
  by (induction es) auto

lemma leases_update:
  "distinct (map fst es) \<Longrightarrow> map_of es gen = Some c \<Longrightarrow>
     sum_list (map (\<lambda>e. mset (leases_of (ps_lease (snd e)))) (map (\<lambda>e. if fst e = gen then (gen, c') else e) es))
       + mset (leases_of (ps_lease c)) =
     sum_list (map (\<lambda>e. mset (leases_of (ps_lease (snd e)))) es) + mset (leases_of (ps_lease c'))"
proof (induction es)
  case (Cons e es)
  have same: "map (\<lambda>e. if fst e = gen then (gen, c') else e) es = es" if "fst e = gen"
    using Cons.prems(1) that by (intro map_idI) (force simp: image_iff)
  show ?case using Cons same by (cases "fst e = gen") (auto simp: ac_simps)
qed simp

lemma client_leases_update:
  "clients_inv g \<Longrightarrow> map_of (gm_clients g) gen = Some c \<Longrightarrow>
     client_leases (update_client gen c' g) + mset (leases_of (ps_lease c)) = client_leases g + mset (leases_of (ps_lease c'))"
  using leases_update [of "gm_clients g" gen c c'] by (simp add: client_leases_def update_client_def clients_inv_def clash_free_def)

lemma client_leases_same:
  "clients_inv g \<Longrightarrow> map_of (gm_clients g) gen = Some c \<Longrightarrow> ps_lease c' = ps_lease c \<Longrightarrow>
     client_leases (update_client gen c' g) = client_leases g"
  using client_leases_update [of g gen c c'] by simp

lemma leases_remove:
  "distinct (map fst es) \<Longrightarrow> map_of es gen = Some c \<Longrightarrow>
     sum_list (map (\<lambda>e. mset (leases_of (ps_lease (snd e)))) es) =
     sum_list (map (\<lambda>e. mset (leases_of (ps_lease (snd e)))) (filter (\<lambda>e. fst e \<noteq> gen) es)) + mset (leases_of (ps_lease c))"
proof (induction es)
  case (Cons e es)
  have same: "filter (\<lambda>e. fst e \<noteq> gen) es = es" if "fst e = gen"
    using Cons.prems(1) that by (intro filter_True) (force simp: image_iff)
  show ?case using Cons same by (cases "fst e = gen") (auto simp: ac_simps)
qed simp

lemma client_leases_remove:
  "clients_inv g \<Longrightarrow> map_of (gm_clients g) gen = Some c \<Longrightarrow>
     client_leases g = client_leases (remove_client gen g) + mset (leases_of (ps_lease c))"
  by (simp add: client_leases_def remove_client_def leases_remove clients_inv_def clash_free_def)

lemma mark_running_cases:
  assumes "mark_running gen identity rt plan_id ob g = (r, g', dropped)"
  obtains "g' = g" "dropped = leases_of (cr_memory rt)"
  | m c where "map_of (gm_clients g) gen = Some (Launching m c False)"
      "g' = update_client gen (Running m identity c plan_id ob rt False) g" "dropped = []"
  using assms by (auto simp: mark_running_def Let_def split: option.splits process_state.splits if_splits)

lemma mark_running_leases:
  assumes "clients_inv g" "mark_running gen identity rt plan_id ob g = (r, g', dropped)"
  shows "client_leases g' + mset dropped = client_leases g + mset (leases_of (cr_memory rt))"
  using assms(2)
proof (cases rule: mark_running_cases)
  case (2 m c)
  from client_leases_update [OF assms(1) 2(1)] 2(2,3) show ?thesis by (simp add: leases_of_def)
qed simp

lemma replace_running_leases:
  "clients_inv g \<Longrightarrow> replace_running gen expected new lease access profile g = (ok, g', dropped) \<Longrightarrow>
     client_leases g' + mset dropped = add_mset lease (client_leases g)"
  using client_leases_update [of g gen]
  by (fastforce simp: replace_running_def Let_def leases_of_def split: option.splits process_state.splits if_splits)

lemma finish_leases: "clients_inv g \<Longrightarrow> finish gen g = (r, g', dropped) \<Longrightarrow> client_leases g' + mset dropped = client_leases g"
  using client_leases_remove [of g gen]
  by (fastforce simp: finish_def split: option.splits process_state.splits)

lemma cancel_leases: "clients_inv g \<Longrightarrow> client_leases (cancel_launch gen g) = client_leases g"
  using client_leases_remove [of g gen]
  by (fastforce simp: cancel_launch_def leases_of_def split: option.splits process_state.splits)

lemma controls_leases: "clients_inv g \<Longrightarrow> client_leases (snd (mark_controller gen identity g)) = client_leases g"
  by (auto simp: mark_controller_def client_leases_same split: option.splits process_state.splits)

lemma stops_leases: "clients_inv g \<Longrightarrow> client_leases (snd (request_stop client_id g)) = client_leases g"
  by (auto simp: request_stop_def split: option.splits intro!: client_leases_same dest: client_of_member)

lemma stops_all_leases: "client_leases (snd (request_stop_all g)) = client_leases g"
  by (simp add: request_stop_all_def client_leases_def comp_def)

lemma begin_leases: "client_leases (snd (begin_launch m g)) = client_leases g"
  by (simp add: begin_launch_def client_leases_def leases_of_def)

lemma closes_leases: "client_leases (snd (close_admission_if_idle g)) = client_leases g"
  by (simp add: close_admission_if_idle_def client_leases_def)

lemma reopens_leases: "client_leases (reopen_admission g) = client_leases g"
  by (simp add: reopen_admission_def client_leases_def)

lemma mset_taken: "mset ls \<subseteq># mset held \<Longrightarrow> mset (taken ls held) + mset ls = mset held"
  by (induction ls arbitrary: held) (auto simp: taken_def insert_subset_eq_iff)

lemma leases_of_subset: "set (leases_of l) \<subseteq> set held \<Longrightarrow> mset (leases_of l) \<subseteq># mset held"
  by (auto simp: leases_of_def split: option.splits)

lemma register_session_inserts:
  assumes "register_session p w identity ancestor m = (Inr lease, r)"
  obtains session where "ms_identity session = identity" "insert_session identity session m = (lease, r)"
  using assms by (auto simp: register_session_def dest: ms_open_identity split: if_splits sum.splits prod.splits)

text \<open>Only a registration makes a lease, and only its release ends one.\<close>

lemma step_leases:
  assumes "game_step s t" "clients_inv (sy_game s)"
  shows "(live_leases t = live_leases s \<and> sy_memory t = sy_memory s) \<or>
    (\<exists>identity session lease r. ms_identity session = identity \<and> insert_session identity session (sy_memory s) = (lease, r) \<and>
        live_leases t = add_mset lease (live_leases s) \<and> sy_memory t = r) \<or>
    (\<exists>lease. lease \<in># live_leases s \<and> live_leases t = live_leases s - {#lease#} \<and>
        sy_memory t = drop_memory_lease lease (sy_memory s))"
  using assms
proof (cases rule: game_step.cases)
  case (registers p w identity ancestor lease r)
  from registers(2) obtain session where "ms_identity session = identity" "insert_session identity session (sy_memory s) = (lease, r)"
    by (rule register_session_inserts)
  with registers(1) show ?thesis by (force simp: live_leases_def)
next
  case (releases lease)
  then show ?thesis by (intro disjI2 exI [of _ lease]) (simp add: live_leases_def)
next
  case (launch_runs rt gen identity plan_id ob r g dropped)
  note mset_taken [OF leases_of_subset [OF launch_runs(2)]]
  with mark_running_leases [OF assms(2) launch_runs(3)] launch_runs(1) show ?thesis
    by (simp add: live_leases_def) (metis add.assoc add.commute)
next
  case (replaces lease gen expected new access profile ok g dropped)
  have "mset (taken [lease] (sy_held s)) + mset [lease] = mset (sy_held s)" using replaces(2) by (intro mset_taken) simp
  with replace_running_leases [OF assms(2) replaces(3)] replaces(1) show ?thesis
    by (simp add: live_leases_def) (metis add.assoc add.commute union_mset_add_mset_right)
next
  case (finishes gen r g dropped)
  with finish_leases [OF assms(2) finishes(2)] show ?thesis by (simp add: live_leases_def)
qed (use assms(2) in \<open>auto simp: live_leases_def begin_leases controls_leases cancel_leases stops_leases stops_all_leases
    closes_leases reopens_leases\<close>)


definition lease_key :: "memory_lease \<Rightarrow> process_identity \<times> nat" where
  "lease_key l = (ml_identity l, ml_generation l)"

lemma inj_lease_key: "inj lease_key"
  by (rule injI) (simp add: lease_key_def)

lemma map_key_remove1: "map lease_key (remove1 l ls) = remove1 (lease_key l) (map lease_key ls)"
  by (induction ls) (auto dest: injD [OF inj_lease_key])

definition leases_inv :: "launcher \<Rightarrow> bool" where
  "leases_inv s \<longleftrightarrow>
     (\<exists>ls. mset ls = live_leases s \<and> accounted session_owner mr_next_generation (sy_memory s) (map lease_key ls)) \<and>
     (\<forall>(i, e) \<in> set (mr_sessions (sy_memory s)). ms_identity (me_session e) = i) \<and>
     distinct (map fst (mr_sessions (sy_memory s)))"

lemma leases_inv_insert:
  assumes "accounted session_owner mr_next_generation m (map lease_key ls)" "insert_session identity session m = (lease, r)"
  shows "accounted session_owner mr_next_generation r (map lease_key (lease # ls))"
proof -
  have "acquire_session identity session m = (ml_generation lease, r)" "lease_key lease = (identity, ml_generation lease)"
    using assms(2) by (auto simp: acquire_session_def insert_session_def Let_def lease_key_def)
  with memory_leases.acquire_accounted [OF assms(1), of identity session] show ?thesis by simp
qed

lemma leases_inv_drop:
  assumes "accounted session_owner mr_next_generation m (map lease_key ls)" "lease \<in> set ls"
  shows "accounted session_owner mr_next_generation (drop_memory_lease lease m) (map lease_key (remove1 lease ls))"
proof -
  have "(ml_identity lease, ml_generation lease) \<in> set (map lease_key ls)" using assms(2) by (force simp: lease_key_def)
  moreover have "release_session (ml_identity lease) (ml_generation lease) = drop_memory_lease lease"
    by (cases lease) (simp add: release_session_def)
  ultimately show ?thesis using memory_leases.release_accounted [OF assms(1)] by (metis map_key_remove1 lease_key_def)
qed

lemma insert_session_entries:
  "insert_session identity session m = (lease, r) \<Longrightarrow>
     mr_sessions r = (identity, \<lparr>me_generation = ml_generation lease, me_session = session\<rparr>) # filter (\<lambda>e. fst e \<noteq> identity) (mr_sessions m)"
  by (auto simp: insert_session_def Let_def)

lemma drop_lease_entries: "\<exists>P. mr_sessions (drop_memory_lease lease m) = filter P (mr_sessions m)"
  by (auto simp: drop_memory_lease_def split: option.splits intro: exI [of _ "\<lambda>_. True"])

lemma leases_inv_step:
  assumes "game_step s t" "clients_inv (sy_game s)" "leases_inv s"
  shows "leases_inv t"
proof -
  from assms(3) obtain ls where ls: "mset ls = live_leases s"
      "accounted session_owner mr_next_generation (sy_memory s) (map lease_key ls)"
    and own: "\<forall>(i, e) \<in> set (mr_sessions (sy_memory s)). ms_identity (me_session e) = i"
      "distinct (map fst (mr_sessions (sy_memory s)))"
    by (auto simp: leases_inv_def)
  from step_leases [OF assms(1,2)] consider
      (same) "live_leases t = live_leases s" "sy_memory t = sy_memory s"
    | (more) session lease where "insert_session (ms_identity session) session (sy_memory s) = (lease, sy_memory t)"
        "live_leases t = add_mset lease (live_leases s)"
    | (fewer) lease where "lease \<in># live_leases s" "live_leases t = live_leases s - {#lease#}"
        "sy_memory t = drop_memory_lease lease (sy_memory s)"
    by metis
  then show ?thesis
  proof cases
    case same
    with assms(3) show ?thesis by (simp add: leases_inv_def)
  next
    case more
    have "mset (lease # ls) = live_leases t" using ls(1) more(2) by simp
    moreover note leases_inv_insert [OF ls(2) more(1)]
    ultimately have "\<exists>ls. mset ls = live_leases t \<and> accounted session_owner mr_next_generation (sy_memory t) (map lease_key ls)"
      by blast
    then show ?thesis
      using own insert_session_entries [OF more(1)] by (auto simp: leases_inv_def distinct_map_filter)
  next
    case fewer
    have "lease \<in> set ls" using fewer(1) ls(1) by (metis set_mset_mset)
    moreover have "mset (remove1 lease ls) = live_leases t" using ls(1) fewer(2) by simp
    moreover obtain P where "mr_sessions (sy_memory t) = filter P (mr_sessions (sy_memory s))"
      using drop_lease_entries fewer(3) by metis
    moreover have "\<exists>ls. mset ls = live_leases t \<and> accounted session_owner mr_next_generation (sy_memory t) (map lease_key ls)"
      using calculation(1,2) leases_inv_drop [OF ls(2)] fewer(3) by metis
    ultimately show ?thesis
      using own by (auto simp: leases_inv_def distinct_map_filter)
  qed
qed

lemma reachable_invs:
  assumes "game_step\<^sup>*\<^sup>* system_new s"
  shows "clients_inv (sy_game s) \<and> leases_inv s"
  using assms
proof (induction rule: rtranclp_induct)
  case base
  show ?case
    by (simp add: system_new_def game_new_def clients_inv_def clash_free_def leases_inv_def live_leases_def client_leases_def
        accounted_def session_owner_def memory_registry_new_def)
next
  case (step s t)
  with clients_inv_step leases_inv_step show ?case by blast
qed

section \<open>A client that is stopped\<close>

text \<open>What is left of it is what it was, until it is gone for good.\<close>

definition frozen :: "nat \<Rightarrow> process_state \<Rightarrow> game_clients \<Rightarrow> bool" where
  "frozen gen c g \<longleftrightarrow> gen < gm_next g \<and> (map_of (gm_clients g) gen = None \<or> map_of (gm_clients g) gen = Some c)"

lemma map_of_update: "map_of (gm_clients (update_client gen c g)) x =
    (if x = gen \<and> map_of (gm_clients g) gen \<noteq> None then Some c else map_of (gm_clients g) x)"
proof -
  have "map_of (map (\<lambda>e. if fst e = gen then (gen, c) else e) es) x =
      (if x = gen \<and> map_of es gen \<noteq> None then Some c else map_of es x)" for es
    by (induction es) auto
  then show ?thesis by (simp add: update_client_def)
qed

lemma map_of_remove: "map_of (gm_clients (remove_client gen g)) x = (if x = gen then None else map_of (gm_clients g) x)"
  by (simp add: remove_client_def map_of_others)

lemma next_update [simp]: "gm_next (update_client gen c g) = gm_next g" "gm_next (remove_client gen g) = gm_next g"
  by (simp_all add: update_client_def remove_client_def)

lemma map_of_stop_all: "map_of (map (\<lambda>e. (fst e, ps_stop (snd e))) es) x = map_option ps_stop (map_of es x)"
  by (induction es) auto

lemma ps_stop_stopped: "ps_stopped c \<Longrightarrow> ps_stop c = c"
  by (cases c) auto

lemma frozen_step:
  assumes "game_step s t" "clients_inv (sy_game s)" "ps_stopped c" "frozen gen c (sy_game s)"
  shows "frozen gen c (sy_game t)"
  using assms
proof (induction rule: game_step.induct)
  case (launch_begins s m)
  then show ?case by (auto simp: begin_launch_def frozen_def)
next
  case (controls s g identity)
  then show ?case by (auto simp: mark_controller_def frozen_def map_of_update split: option.splits process_state.splits if_splits)
next
  case (launch_runs rt s g identity plan_id ob r g' dropped)
  from launch_runs(2) show ?case
    by (cases rule: mark_running_cases) (use launch_runs.prems in \<open>auto simp: frozen_def map_of_update\<close>)
next
  case (replaces lease s g expected new access profile ok g' dropped)
  then show ?case
    by (auto simp: replace_running_def Let_def frozen_def map_of_update split: option.splits process_state.splits if_splits)
next
  case (cancels s g)
  then show ?case by (auto simp: cancel_launch_def frozen_def map_of_remove split: option.splits process_state.splits if_splits)
next
  case (stops s client_id)
  then show ?case
    by (auto simp: request_stop_def frozen_def map_of_update ps_stop_stopped split: option.splits dest: client_of_member(1))
next
  case (stops_all s)
  then show ?case by (auto simp: request_stop_all_def frozen_def map_of_stop_all ps_stop_stopped)
next
  case (finishes g s r g' dropped)
  then show ?case by (auto simp: finish_def frozen_def map_of_remove split: option.splits process_state.splits if_splits)
qed (auto simp: frozen_def close_admission_if_idle_def reopen_admission_def)

section \<open>Properties\<close>

text \<open>C22: Whatever the tasks of the launcher do and in whatever order, at most one client is being launched, no two clients have the same
  identifier, no process belongs to two running clients, and while the launcher restarts there is no client.\<close>
theorem clients_never_clash:
  assumes "game_step\<^sup>*\<^sup>* system_new s"
  shows "(\<forall>a c b d. (a, c) \<in> set (gm_clients (sy_game s)) \<and> (b, d) \<in> set (gm_clients (sy_game s)) \<and> a \<noteq> b \<longrightarrow>
       \<not> (is_launching c \<and> is_launching d) \<and> cm_client_id (ps_metadata c) \<noteq> cm_client_id (ps_metadata d) \<and>
       (ps_identity c = None \<or> ps_identity c \<noteq> ps_identity d)) \<and>
     distinct (map fst (gm_clients (sy_game s))) \<and> (gm_closed (sy_game s) \<longrightarrow> gm_clients (sy_game s) = [])"
  using reachable_invs [OF assms] unfolding clients_inv_def clash_free_def clash_def by blast

text \<open>C23: A client that was asked to stop stays as it is until it is gone: its launch does not become a running client, no other process takes
  its place, the request is not lost, and its generation is never used again.\<close>
theorem stopped_client_stays_stopped:
  assumes "game_step\<^sup>*\<^sup>* system_new s" "map_of (gm_clients (sy_game s)) gen = Some c" "ps_stopped c" "game_step\<^sup>*\<^sup>* s t"
  shows "map_of (gm_clients (sy_game t)) gen = None \<or> map_of (gm_clients (sy_game t)) gen = Some c"
proof -
  have "(gen, c) \<in> set (gm_clients (sy_game s))" using assms(2) by (rule map_of_SomeD)
  then have start: "clients_inv (sy_game s)" "frozen gen c (sy_game s)"
    using reachable_invs [OF assms(1)] assms(2) by (auto simp: clients_inv_def frozen_def)
  have "clients_inv (sy_game t) \<and> frozen gen c (sy_game t)" using assms(4)
    by (induction rule: rtranclp_induct) (use start assms(3) clients_inv_step frozen_step in blast)+
  then show ?thesis by (simp add: frozen_def)
qed

text \<open>Every registered memory session was opened for the process it is registered under and belongs to a lease that a client or a task
  still has; when all clients are gone and no task has a lease, no session is left.\<close>
theorem memory_sessions_are_leased:
  assumes "game_step\<^sup>*\<^sup>* system_new s"
  shows "(\<forall>identity entry. map_of (mr_sessions (sy_memory s)) identity = Some entry \<longrightarrow>
       ms_identity (me_session entry) = identity \<and>
       (\<exists>lease. ml_identity lease = identity \<and> ml_generation lease = me_generation entry \<and>
          (lease \<in> set (sy_held s) \<or> (\<exists>gen c. (gen, c) \<in> set (gm_clients (sy_game s)) \<and> ps_lease c = Some lease)))) \<and>
     (gm_clients (sy_game s) = [] \<and> sy_held s = [] \<longrightarrow> mr_sessions (sy_memory s) = [])"
proof -
  from reachable_invs [OF assms] obtain ls where ls: "mset ls = live_leases s"
      "accounted session_owner mr_next_generation (sy_memory s) (map lease_key ls)"
    and own: "\<forall>(i, e) \<in> set (mr_sessions (sy_memory s)). ms_identity (me_session e) = i"
    by (auto simp: leases_inv_def)
  have leased: "\<exists>lease \<in># live_leases s. ml_identity lease = i \<and> ml_generation lease = me_generation e"
    if "map_of (mr_sessions (sy_memory s)) i = Some e" for i e
  proof -
    have "(i, me_generation e) \<in> set (map lease_key ls)" using ls(2) that by (simp add: accounted_def session_owner_def)
    then show ?thesis unfolding ls(1) [symmetric] by (auto simp: lease_key_def)
  qed
  have members: "(lease \<in># live_leases s) = (lease \<in> set (sy_held s) \<or>
      (\<exists>gen c. (gen, c) \<in> set (gm_clients (sy_game s)) \<and> ps_lease c = Some lease))" for lease
    by (force simp: live_leases_def client_leases_def in_leases leases_of_def split: option.splits)
  have "mr_sessions (sy_memory s) = []" if "gm_clients (sy_game s) = []" "sy_held s = []"
  proof (rule ccontr)
    assume "mr_sessions (sy_memory s) \<noteq> []"
    then obtain e es where "mr_sessions (sy_memory s) = e # es" by (meson list.exhaust)
    then have "map_of (mr_sessions (sy_memory s)) (fst e) = Some (snd e)" by simp
    from leased [OF this] that show False by (simp add: live_leases_def client_leases_def)
  qed
  then show ?thesis using leased own members by (blast dest: map_of_SomeD)
qed


section \<open>Witnesses\<close>

definition example_metadata :: client_metadata where
  "example_metadata = \<lparr>cm_client_id = ''c1'', cm_server_id = ''srv'', cm_server_name = ''Srv''\<rparr>"

definition example_launching :: launcher where
  "example_launching = system_new\<lparr>sy_game := snd (begin_launch example_metadata (sy_game system_new))\<rparr>"

definition example_client_stopping :: launcher where
  "example_client_stopping = example_launching\<lparr>sy_game := snd (request_stop ''c1'' (sy_game example_launching))\<rparr>"

lemma example_clients:
  "gm_clients (sy_game example_launching) = [(1, Launching example_metadata None False)]"
  "gm_clients (sy_game example_client_stopping) = [(1, Launching example_metadata None True)]"
  by (simp_all add: example_client_stopping_def example_launching_def system_new_def game_new_def begin_launch_def request_stop_def
      client_of_def update_client_def example_metadata_def)

lemma example_client_reachable: "game_step\<^sup>*\<^sup>* system_new example_launching" "game_step\<^sup>*\<^sup>* system_new example_client_stopping"
proof -
  show l: "game_step\<^sup>*\<^sup>* system_new example_launching" unfolding example_launching_def by (intro r_into_rtranclp launch_begins)
  show "game_step\<^sup>*\<^sup>* system_new example_client_stopping"
    unfolding example_client_stopping_def by (intro rtranclp.rtrancl_into_rtrancl [OF l] stops)
qed

theorem clients_never_clash_witness:
  "distinct (map fst (gm_clients (sy_game example_launching))) \<and> gm_clients (sy_game example_launching) \<noteq> [] \<and>
   \<not> gm_closed (sy_game example_launching)"
  using clients_never_clash [OF example_client_reachable(1)] by (auto simp: example_clients)

theorem stopped_client_stays_stopped_witness:
  "map_of (gm_clients (snd (mark_controller 1 \<lparr>pi_pid = 7, pi_start_time = 99\<rparr> (sy_game example_client_stopping)))) 1
     = Some (Launching example_metadata None True)"
proof -
  let ?t = "example_client_stopping\<lparr>sy_game := snd (mark_controller 1 \<lparr>pi_pid = 7, pi_start_time = 99\<rparr> (sy_game example_client_stopping))\<rparr>"
  have "game_step\<^sup>*\<^sup>* example_client_stopping ?t" by (intro r_into_rtranclp controls)
  from stopped_client_stays_stopped [OF example_client_reachable(2) _ _ this, of 1 "Launching example_metadata None True"]
  show ?thesis by (auto simp: example_clients mark_controller_def)
qed

definition example_session_open :: open_world where
  "example_session_open = \<lparr>ow_first = example_proc, ow_before = example_proc, ow_opened = None, ow_after = example_proc,
     ow_descent = example_proc, ow_maps = Some [], ow_memory = image_world example_bytes, ow_raw_error = (\<lambda>_. None)\<rparr>"

definition example_registered :: launcher where
  "example_registered =
     (case register_session example_proc example_session_open \<lparr>pi_pid = 7, pi_start_time = 99\<rparr> \<lparr>pi_pid = 5, pi_start_time = 1\<rparr> memory_registry_new of
        (Inr lease, r) \<Rightarrow> system_new\<lparr>sy_memory := r, sy_held := [lease]\<rparr> | (Inl _, _) \<Rightarrow> system_new)"

lemma example_registers:
  "\<exists>r. register_session example_proc example_session_open \<lparr>pi_pid = 7, pi_start_time = 99\<rparr> \<lparr>pi_pid = 5, pi_start_time = 1\<rparr> memory_registry_new
     = (Inr \<lparr>ml_identity = \<lparr>pi_pid = 7, pi_start_time = 99\<rparr>, ml_generation = 1\<rparr>, r) \<and>
     map_option me_generation (map_of (mr_sessions r) \<lparr>pi_pid = 7, pi_start_time = 99\<rparr>) = Some 1"
  by (simp add: register_session_def example_capture ms_open_def example_session_open_def open_for_identity_def verify_process_identity_def
      and_then_def map_err_def Let_def first_rw_u32_region_def parse_writable_regions_def lines_def insert_session_def memory_registry_new_def)

end
