(* ===== verification/UinputWorker.thy ===== *)
theory UinputWorker
  imports Keyboard
begin

text \<open>
  The worker thread that owns the combat device (\<open>src-tauri/src/tools/input/uinput_worker.rs\<close>) and the writers that send it commands
  (\<open>gateway.rs\<close>): timings, metrics, the execution of one command on the device, and the queues, sequence numbers and generations that the
  worker and the writers share.  Times are in nanoseconds; sequence numbers and generations do not wrap.
\<close>

section \<open>Timing\<close>

record cycle_timing =
  ct_key_rearm_settle :: nat
  ct_key_to_click_settle :: nat
  ct_click_hold :: nat

definition KEY_PRESS_HOLD :: nat where "KEY_PRESS_HOLD = 1000000"
definition KEY_REARM_SETTLE :: nat where "KEY_REARM_SETTLE = 17000000"
definition KEY_TO_CLICK_SETTLE :: nat where "KEY_TO_CLICK_SETTLE = 20000000"
definition CLICK_HOLD :: nat where "CLICK_HOLD = 17000000"
definition HIGH_QUEUE_CAPACITY :: nat where "HIGH_QUEUE_CAPACITY = 8"
definition NORMAL_QUEUE_CAPACITY :: nat where "NORMAL_QUEUE_CAPACITY = 32"

definition stable_timing :: cycle_timing where
  "stable_timing = \<lparr>ct_key_rearm_settle = KEY_REARM_SETTLE, ct_key_to_click_settle = KEY_TO_CLICK_SETTLE, ct_click_hold = CLICK_HOLD\<rparr>"

definition U64_MAX :: nat where "U64_MAX = 2 ^ 64 - 1"

definition repeated_work_ms :: "cycle_timing \<Rightarrow> nat" where
  "repeated_work_ms t = min ((ct_key_rearm_settle t + ct_key_to_click_settle t + ct_click_hold t) div 1000000) U64_MAX"

section \<open>Metrics\<close>

datatype input_source = AutopotSource | AutobuffSource | SpammerSource | GearSource

fun source_label :: "input_source \<Rightarrow> string" where
  "source_label AutopotSource = ''autopot''"
| "source_label AutobuffSource = ''autobuff''"
| "source_label SpammerSource = ''spammer''"
| "source_label GearSource = ''gear''"

definition high_priority :: "input_source \<Rightarrow> bool" where
  "high_priority s \<longleftrightarrow> s = AutopotSource"

definition records_metrics :: "input_source \<Rightarrow> bool" where
  "records_metrics s \<longleftrightarrow> s = AutopotSource \<or> s = SpammerSource"

record source_metrics =
  sm_periods_us :: "nat list"
  sm_queue_us :: "nat list"
  sm_cycle_us :: "nat list"
  sm_overrun_queue_us :: "nat list"
  sm_last_start :: "nat option"
  sm_cancelled :: nat
  sm_overruns :: nat
  sm_dropped :: nat
  sm_errors :: nat

definition metrics_default :: source_metrics where
  "metrics_default = \<lparr>sm_periods_us = [], sm_queue_us = [], sm_cycle_us = [], sm_overrun_queue_us = [], sm_last_start = None,
     sm_cancelled = 0, sm_overruns = 0, sm_dropped = 0, sm_errors = 0\<rparr>"

definition duration_us :: "nat \<Rightarrow> nat" where
  "duration_us d = min (d div 1000) U64_MAX"

definition record_completed :: "nat \<Rightarrow> nat \<Rightarrow> nat \<Rightarrow> source_metrics \<Rightarrow> source_metrics" where
  "record_completed started queue cycle s =
     s\<lparr>sm_last_start := Some started,
       sm_periods_us := sm_periods_us s @
         (case sm_last_start s of Some previous \<Rightarrow> [duration_us (started - previous)] | None \<Rightarrow> []),
       sm_queue_us := sm_queue_us s @ [duration_us queue],
       sm_cycle_us := sm_cycle_us s @ [duration_us cycle]\<rparr>"

definition reset_period_baseline :: "source_metrics \<Rightarrow> source_metrics" where
  "reset_period_baseline s = s\<lparr>sm_last_start := None\<rparr>"

definition percentile :: "nat list \<Rightarrow> nat \<Rightarrow> nat" where
  "percentile vs p = (if vs = [] then 0 else sort vs ! (((length vs - 1) * p + 99) div 100))"

definition maximum :: "nat list \<Rightarrow> nat" where
  "maximum vs = (if vs = [] then 0 else Max (set vs))"

record metrics_snapshot =
  mx_samples :: nat
  mx_period :: "nat list"
  mx_queue :: "nat list"
  mx_cycle :: "nat list"
  mx_overrun_queue_max_us :: nat
  mx_cancelled :: nat
  mx_overruns :: nat
  mx_dropped :: nat
  mx_errors :: nat

text \<open>The 50th, 95th and 99th percentile and the maximum.\<close>

definition quartet :: "nat list \<Rightarrow> nat list" where
  "quartet vs = [percentile vs 50, percentile vs 95, percentile vs 99, maximum vs]"

definition snapshot_and_reset :: "source_metrics \<Rightarrow> metrics_snapshot \<times> source_metrics" where
  "snapshot_and_reset s =
     (\<lparr>mx_samples = length (sm_cycle_us s), mx_period = quartet (sm_periods_us s), mx_queue = quartet (sm_queue_us s),
       mx_cycle = quartet (sm_cycle_us s), mx_overrun_queue_max_us = maximum (sm_overrun_queue_us s),
       mx_cancelled = sm_cancelled s, mx_overruns = sm_overruns s, mx_dropped = sm_dropped s, mx_errors = sm_errors s\<rparr>,
      metrics_default\<lparr>sm_last_start := sm_last_start s\<rparr>)"

type_synonym metrics = "input_source \<Rightarrow> source_metrics option"

definition record_metric :: "input_source \<Rightarrow> (source_metrics \<Rightarrow> source_metrics) \<Rightarrow> metrics \<Rightarrow> metrics" where
  "record_metric src f m = m(src \<mapsto> f (case m src of None \<Rightarrow> metrics_default | Some s \<Rightarrow> s))"

definition recorded :: "input_source \<Rightarrow> (source_metrics \<Rightarrow> source_metrics) \<Rightarrow> metrics \<Rightarrow> metrics" where
  "recorded src f m = (if records_metrics src then record_metric src f m else m)"

section \<open>The device of the worker\<close>

text \<open>What the worker did, with the sleeps in between; the flag tells whether the device took the event.\<close>

datatype worker_action =
    KeyAct string int bool | ModifierAct spam_modifier int bool | MouseAct int bool | ReleaseAct "string option" bool | SleepAct nat

record spam_state =
  ss_held_key :: "string option"
  ss_held_modifier :: "spam_modifier option"
  ss_mouse_left_pressed :: bool
  ss_cancelled_through :: "nat option"

text \<open>\<open>wk_order\<close>: how the set of pressed keys is iterated.\<close>

record worker =
  wk_device :: combat_uinput
  wk_order :: "key_code set \<Rightarrow> key_code list"
  wk_trace :: "worker_action list"
  wk_spam :: spam_state

definition spam_default :: spam_state where
  "spam_default = \<lparr>ss_held_key = None, ss_held_modifier = None, ss_mouse_left_pressed = False, ss_cancelled_through = None\<rparr>"

datatype worker_error = RefusedKey string | RefusedModifier spam_modifier | RefusedMouse | KeyBusy string

definition acted :: "worker_action \<Rightarrow> combat_uinput \<Rightarrow> worker \<Rightarrow> worker" where
  "acted a d w = w\<lparr>wk_device := d, wk_trace := wk_trace w @ [a]\<rparr>"

definition dev_key :: "string \<Rightarrow> int \<Rightarrow> worker \<Rightarrow> bool \<times> worker" where
  "dev_key key v w = (case key_event (wk_device w) key v of (ok, d) \<Rightarrow> (ok, acted (KeyAct key v ok) d w))"

definition dev_modifier :: "spam_modifier \<Rightarrow> int \<Rightarrow> worker \<Rightarrow> bool \<times> worker" where
  "dev_modifier mo v w = (case modifier_event (wk_device w) mo v of (ok, d) \<Rightarrow> (ok, acted (ModifierAct mo v ok) d w))"

definition dev_mouse :: "int \<Rightarrow> worker \<Rightarrow> bool \<times> worker" where
  "dev_mouse v w = (case mouse_left_event (wk_device w) v of (ok, d) \<Rightarrow> (ok, acted (MouseAct v ok) d w))"

definition dev_release :: "string option \<Rightarrow> bool \<Rightarrow> worker \<Rightarrow> worker" where
  "dev_release key ml w = acted (ReleaseAct key ml) (combat_release (wk_order w) (wk_device w) key ml) w"

definition dev_sleep :: "nat \<Rightarrow> worker \<Rightarrow> worker" where
  "dev_sleep d w = acted (SleepAct d) (wk_device w) w"

definition set_spam :: "(spam_state \<Rightarrow> spam_state) \<Rightarrow> worker \<Rightarrow> worker" where
  "set_spam f w = w\<lparr>wk_spam := f (wk_spam w)\<rparr>"

section \<open>Keys\<close>

definition holds_key :: "worker \<Rightarrow> string \<Rightarrow> bool" where
  "holds_key w key = (case ss_held_key (wk_spam w) of None \<Rightarrow> False | Some held \<Rightarrow> eq_ignore_ascii_case held key)"

definition worker_press_key :: "string \<Rightarrow> worker \<Rightarrow> (worker_error, unit) result \<times> worker" where
  "worker_press_key key w =
     (if holds_key w key then (Inl (KeyBusy key), w)
      else (case dev_key key 1 w of
              (False, w1) \<Rightarrow> (Inl (RefusedKey key), dev_release (Some key) False w1)
            | (True, w1) \<Rightarrow>
                (case dev_key key 0 (dev_sleep KEY_PRESS_HOLD w1) of
                   (False, w2) \<Rightarrow> (Inl (RefusedKey key), dev_release (Some key) False w2)
                 | (True, w2) \<Rightarrow> (Inr (), w2))))"

definition worker_key_event :: "string \<Rightarrow> int \<Rightarrow> worker \<Rightarrow> (worker_error, unit) result \<times> worker" where
  "worker_key_event key v w =
     (case dev_key key v w of
        (False, w1) \<Rightarrow> (Inl (RefusedKey key), dev_release (Some key) False w1)
      | (True, w1) \<Rightarrow> (Inr (), if v = 0 \<and> holds_key w1 key then set_spam (\<lambda>s. s\<lparr>ss_held_key := None\<rparr>) w1 else w1))"

section \<open>Spam cycles\<close>

text \<open>The three inputs of a cycle that may have to go up; each keeps its error.\<close>

definition up_mouse :: "worker \<Rightarrow> worker_error option \<times> worker" where
  "up_mouse w =
     (if ss_mouse_left_pressed (wk_spam w)
      then (case dev_mouse 0 w of
              (True, w1) \<Rightarrow> (None, set_spam (\<lambda>s. s\<lparr>ss_mouse_left_pressed := False\<rparr>) w1)
            | (False, w1) \<Rightarrow> (Some RefusedMouse, w1))
      else (None, w))"

definition up_key :: "worker \<Rightarrow> worker_error option \<times> worker" where
  "up_key w =
     (case ss_held_key (wk_spam w) of
        None \<Rightarrow> (None, w)
      | Some key \<Rightarrow>
          (case dev_key key 0 w of
             (True, w1) \<Rightarrow> (None, set_spam (\<lambda>s. s\<lparr>ss_held_key := None\<rparr>) w1)
           | (False, w1) \<Rightarrow> (Some (RefusedKey key), w1)))"

definition up_modifier :: "worker \<Rightarrow> worker_error option \<times> worker" where
  "up_modifier w =
     (case ss_held_modifier (wk_spam w) of
        None \<Rightarrow> (None, w)
      | Some mo \<Rightarrow>
          (case dev_modifier mo 0 w of
             (True, w1) \<Rightarrow> (None, set_spam (\<lambda>s. s\<lparr>ss_held_modifier := None\<rparr>) w1)
           | (False, w1) \<Rightarrow> (Some (RefusedModifier mo), w1)))"

fun or_first :: "'a option \<Rightarrow> 'a option \<Rightarrow> 'a option" where
  "or_first (Some e) _ = Some e"
| "or_first None e = e"

text \<open>Any error releases whatever the device has pressed.\<close>

definition settle :: "'a \<Rightarrow> worker_error option \<times> worker \<Rightarrow> (worker_error, 'a) result \<times> worker" where
  "settle v r = (case r of (Some e, w) \<Rightarrow> (Inl e, dev_release None True w) | (None, w) \<Rightarrow> (Inr v, w))"

definition release_cycle_inputs :: "worker \<Rightarrow> (worker_error, bool) result \<times> worker" where
  "release_cycle_inputs w =
     (case up_mouse w of (e1, w1) \<Rightarrow> case up_key w1 of (e2, w2) \<Rightarrow> settle (ss_held_key (wk_spam w) \<noteq> None) (or_first e1 e2, w2))"

definition release_spam_inputs :: "worker \<Rightarrow> (worker_error, unit) result \<times> worker" where
  "release_spam_inputs w =
     (case up_mouse w of (e1, w1) \<Rightarrow> case up_key w1 of (e2, w2) \<Rightarrow> case up_modifier w2 of (e3, w3) \<Rightarrow>
        settle () (or_first (or_first e1 e2) e3, w3))"

definition reconcile_spam_modifier :: "spam_modifier option \<Rightarrow> worker \<Rightarrow> (worker_error, unit) result \<times> worker" where
  "reconcile_spam_modifier mo w =
     (if ss_held_modifier (wk_spam w) = mo then (Inr (), w)
      else
        (case up_modifier w of
           (Some e, w1) \<Rightarrow> (Inl e, dev_release None True w1)
         | (None, w1) \<Rightarrow>
             (case mo of
                None \<Rightarrow> (Inr (), w1)
              | Some m \<Rightarrow>
                  (case dev_modifier m 1 w1 of
                     (False, w2) \<Rightarrow> (Inl (RefusedModifier m), dev_release None True w2)
                   | (True, w2) \<Rightarrow> (Inr (), set_spam (\<lambda>s. s\<lparr>ss_held_modifier := Some m\<rparr>) w2)))))"

definition worker_bind ::
  "(worker_error, 'a) result \<times> worker \<Rightarrow> ('a \<Rightarrow> worker \<Rightarrow> (worker_error, 'b) result \<times> worker) \<Rightarrow> (worker_error, 'b) result \<times> worker" where
  "worker_bind r f = (case r of (Inl e, w) \<Rightarrow> (Inl e, w) | (Inr v, w) \<Rightarrow> f v w)"

definition abandon_cycle :: "worker \<Rightarrow> (worker_error, bool) result \<times> worker" where
  "abandon_cycle w = worker_bind (release_spam_inputs w) (\<lambda>_ w. (Inr False, w))"

definition click :: "cycle_timing \<Rightarrow> worker \<Rightarrow> (worker_error, bool) result \<times> worker" where
  "click timing w =
     (case dev_mouse 1 (set_spam (\<lambda>s. s\<lparr>ss_mouse_left_pressed := True\<rparr>) w) of
        (False, w1) \<Rightarrow> (Inl RefusedMouse, dev_release None True w1)
      | (True, w1) \<Rightarrow>
          (case dev_mouse 0 (dev_sleep (ct_click_hold timing) w1) of
             (False, w2) \<Rightarrow> (Inl RefusedMouse, dev_release None True w2)
           | (True, w2) \<Rightarrow> (Inr True, set_spam (\<lambda>s. s\<lparr>ss_mouse_left_pressed := False\<rparr>) w2)))"

text \<open>\<open>requested i\<close>: whether the cycle is cancelled when it is asked for the \<open>i\<close>-th time.\<close>

definition worker_spam_cycle ::
  "string \<Rightarrow> spam_modifier option \<Rightarrow> cycle_timing \<Rightarrow> (nat \<Rightarrow> bool) \<Rightarrow> worker \<Rightarrow> (worker_error, bool) result \<times> worker" where
  "worker_spam_cycle key mo timing requested w =
     worker_bind (release_cycle_inputs w) (\<lambda>rearm w1.
     let w2 = (if rearm then dev_sleep (ct_key_rearm_settle timing) w1 else w1)
     in if requested 1 then abandon_cycle w2
        else worker_bind (reconcile_spam_modifier mo w2) (\<lambda>_ w3.
             if requested 2 then abandon_cycle w3
             else
               (case dev_key key 1 (set_spam (\<lambda>s. s\<lparr>ss_held_key := Some key\<rparr>) w3) of
                  (False, w4) \<Rightarrow> (Inl (RefusedKey key), dev_release None True w4)
                | (True, w4) \<Rightarrow>
                    let w5 = dev_sleep (ct_key_to_click_settle timing) w4
                    in if requested 3 then abandon_cycle w5 else click timing w5)))"

section \<open>Commands\<close>

datatype command_kind = DoPressKey string | DoSpamCycle string "spam_modifier option" | DoReleaseSpam | DoKeyEvent string int

record worker_command =
  wc_source :: input_source
  wc_kind :: command_kind
  wc_enqueued :: nat
  wc_sequence :: nat
  wc_deadline :: "nat option"
  wc_observed :: "nat option"
  wc_timing :: cycle_timing

datatype command_outcome = Completed | Overrun | Failed worker_error

text \<open>\<open>readings i\<close>: the generation at the \<open>i\<close>-th time it is read.\<close>

definition cancel_requested :: "worker_command \<Rightarrow> (nat \<Rightarrow> nat) \<Rightarrow> nat \<Rightarrow> bool" where
  "cancel_requested c readings i = (case wc_observed c of None \<Rightarrow> False | Some g \<Rightarrow> readings i \<noteq> g)"

fun is_spam_cycle :: "command_kind \<Rightarrow> bool" where
  "is_spam_cycle (DoSpamCycle _ _) = True"
| "is_spam_cycle _ = False"

definition cancelled :: "worker_command \<Rightarrow> (nat \<Rightarrow> nat) \<Rightarrow> worker \<Rightarrow> bool" where
  "cancelled c readings w \<longleftrightarrow> is_spam_cycle (wc_kind c) \<and>
     ((case ss_cancelled_through (wk_spam w) of None \<Rightarrow> False | Some cutoff \<Rightarrow> wc_sequence c \<le> cutoff) \<or>
      cancel_requested c readings 0)"

definition late :: "worker_command \<Rightarrow> nat \<Rightarrow> bool" where
  "late c started = (case wc_deadline c of None \<Rightarrow> False | Some deadline \<Rightarrow> deadline < started)"

definition note_cutoff :: "nat \<Rightarrow> spam_state \<Rightarrow> spam_state" where
  "note_cutoff sequence s =
     s\<lparr>ss_cancelled_through := Some (case ss_cancelled_through s of None \<Rightarrow> sequence | Some cutoff \<Rightarrow> max cutoff sequence)\<rparr>"

definition as_bool :: "(worker_error, unit) result \<times> worker \<Rightarrow> (worker_error, bool) result \<times> worker" where
  "as_bool r = worker_bind r (\<lambda>_ w. (Inr True, w))"

text \<open>\<open>Inr False\<close>: a cycle that was cancelled under way.\<close>

definition perform_command :: "worker_command \<Rightarrow> (nat \<Rightarrow> nat) \<Rightarrow> worker \<Rightarrow> (worker_error, bool) result \<times> worker" where
  "perform_command c readings w =
     (case wc_kind c of
        DoPressKey key \<Rightarrow> as_bool (worker_press_key key w)
      | DoSpamCycle key mo \<Rightarrow> worker_spam_cycle key mo (wc_timing c) (cancel_requested c readings) w
      | DoReleaseSpam \<Rightarrow> as_bool (release_spam_inputs (set_spam (note_cutoff (wc_sequence c)) w))
      | DoKeyEvent key v \<Rightarrow> as_bool (worker_key_event key v w))"

fun is_timed :: "command_kind \<Rightarrow> bool" where
  "is_timed (DoPressKey _) = True"
| "is_timed (DoSpamCycle _ _) = True"
| "is_timed _ = False"

definition execute_command ::
  "worker_command \<Rightarrow> nat \<Rightarrow> nat \<Rightarrow> (nat \<Rightarrow> nat) \<Rightarrow> worker \<Rightarrow> metrics \<Rightarrow> command_outcome \<times> worker \<times> metrics" where
  "execute_command c started completed readings w m =
     (if cancelled c readings w
      then (Overrun, w, recorded (wc_source c) (\<lambda>s. s\<lparr>sm_cancelled := sm_cancelled s + 1\<rparr>) m)
      else if late c started
      then (Overrun, w, recorded (wc_source c) (\<lambda>s. s\<lparr>sm_overruns := sm_overruns s + 1,
              sm_overrun_queue_us := sm_overrun_queue_us s @ [duration_us (started - wc_enqueued c)]\<rparr>) m)
      else
        let m1 = (if wc_kind c = DoReleaseSpam then recorded (wc_source c) reset_period_baseline m else m)
        in (case perform_command c readings w of
              (Inr True, w1) \<Rightarrow>
                (Completed, w1,
                 if is_timed (wc_kind c)
                 then recorded (wc_source c) (record_completed started (started - wc_enqueued c) (completed - started)) m1 else m1)
            | (Inr False, w1) \<Rightarrow> (Overrun, w1, recorded (wc_source c) (\<lambda>s. s\<lparr>sm_cancelled := sm_cancelled s + 1\<rparr>) m1)
            | (Inl e, w1) \<Rightarrow> (Failed e, w1, recorded (wc_source c) (\<lambda>s. s\<lparr>sm_errors := sm_errors s + 1\<rparr>) m1)))"

text \<open>The budgets that \<open>InputGateway\<close> gives to its writers.\<close>

definition deadline_budget :: "nat \<Rightarrow> nat" where
  "deadline_budget delay_ms = max delay_ms 10 * 1000000"

text \<open>The end of the worker, and the drop of its device.\<close>

definition worker_exit :: "worker \<Rightarrow> worker" where
  "worker_exit w =
     (let w1 = dev_release None True (snd (release_spam_inputs w))
      in w1\<lparr>wk_device := combat_drop (wk_order w1) (wk_device w1)\<rparr>)"


section \<open>What is pressed\<close>

definition down :: "worker \<Rightarrow> key_code set" where
  "down w = log_down (cu_log (wk_device w))"

lemma key_event_log:
  "key_event d key v = (ok, d1) \<Longrightarrow> (ok \<longrightarrow> key_label_to_keycode key \<noteq> None) \<and>
     log_down (cu_log d1) = (case key_label_to_keycode key of None \<Rightarrow> log_down (cu_log d)
       | Some c \<Rightarrow> if ok then update_key_state (log_down (cu_log d)) c v else log_down (cu_log d))"
  by (auto simp: key_event_def keycode_event_def device_emit_def split: option.splits if_splits)

lemma modifier_event_log:
  "modifier_event d mo v = (ok, d1) \<Longrightarrow>
     log_down (cu_log d1) = (if ok then update_key_state (log_down (cu_log d)) KEY_LEFTSHIFT v else log_down (cu_log d))"
  by (auto simp: modifier_event_def keycode_event_def device_emit_def split: spam_modifier.splits if_splits)

lemma mouse_event_log:
  "mouse_left_event d v = (ok, d1) \<Longrightarrow>
     log_down (cu_log d1) = (if ok then update_key_state (log_down (cu_log d)) BTN_LEFT v else log_down (cu_log d))"
  by (auto simp: mouse_left_event_def device_emit_def split: if_splits)

lemma release_codes_log: "log_down (cu_log (release_codes d codes)) \<subseteq> log_down (cu_log d)"
proof (induction d codes rule: release_codes.induct)
  case (2 d code codes)
  show ?case
  proof (cases "cu_accepts d (cu_log d) (code, 0)")
    case True
    then have e: "device_emit d code 0 = (True, d\<lparr>cu_log := cu_log d @ [(code, 0)]\<rparr>)" by (simp add: device_emit_def)
    from "2.IH"(1) [OF e [symmetric] refl] e show ?thesis by (auto simp: update_key_state_def)
  next
    case False
    then have e: "device_emit d code 0 = (False, d)" by (simp add: device_emit_def)
    from "2.IH"(2) [OF e [symmetric] refl] e show ?thesis by simp
  qed
qed simp

lemma combat_release_log: "log_down (cu_log (combat_release order d key ml)) \<subseteq> log_down (cu_log d)"
proof -
  let ?d1 = "if ml \<or> cu_mouse_left_pressed d then snd (mouse_left_event d 0) else d"
  have m: "log_down (cu_log ?d1) \<subseteq> log_down (cu_log d)"
    using mouse_event_log [of d 0] by (cases "mouse_left_event d 0") (auto simp: update_key_state_def)
  show ?thesis
  proof (cases key)
    case None
    then have "combat_release order d key ml = release_codes ?d1 (order (cu_pressed_keys ?d1))"
      by (simp only: combat_release_def Let_def option.case)
    with release_codes_log m show ?thesis by (metis order_trans)
  next
    case (Some k)
    then have "combat_release order d key ml = snd (key_event ?d1 k 0)" by (simp only: combat_release_def Let_def option.case)
    moreover have "log_down (cu_log (snd (key_event ?d1 k 0))) \<subseteq> log_down (cu_log ?d1)"
      using key_event_log [of ?d1 k 0] by (cases "key_event ?d1 k 0") (auto simp: update_key_state_def split: option.splits)
    ultimately show ?thesis using m by auto
  qed
qed

lemma acted_simps [simp]:
  "wk_device (acted a d w) = d" "wk_order (acted a d w) = wk_order w" "wk_spam (acted a d w) = wk_spam w"
  "wk_trace (acted a d w) = wk_trace w @ [a]" "down (acted a d w) = log_down (cu_log d)"
  by (simp_all add: acted_def down_def)

lemma set_spam_simps [simp]:
  "wk_device (set_spam f w) = wk_device w" "wk_order (set_spam f w) = wk_order w" "wk_spam (set_spam f w) = f (wk_spam w)"
  "wk_trace (set_spam f w) = wk_trace w" "down (set_spam f w) = down w"
  by (simp_all add: set_spam_def down_def)

text \<open>The inputs that the state of the worker answers for; \<open>F\<close> are the keys that other tools press.\<close>

definition spam_codes :: "spam_state \<Rightarrow> key_code set" where
  "spam_codes s = (if ss_mouse_left_pressed s then {BTN_LEFT} else {}) \<union>
     (case ss_held_key s of None \<Rightarrow> {} | Some k \<Rightarrow> set_option (key_label_to_keycode k)) \<union>
     (if ss_held_modifier s = None then {} else {KEY_LEFTSHIFT})"

definition worker_inv :: "key_code set \<Rightarrow> worker \<Rightarrow> bool" where
  "worker_inv F w \<longleftrightarrow> combat_inv (wk_device w) \<and> iterates (wk_order w) \<and> down w \<subseteq> spam_codes (wk_spam w) \<union> F"

lemma worker_inv_mono: "worker_inv F w \<Longrightarrow> F \<subseteq> G \<Longrightarrow> worker_inv G w"
  by (auto simp: worker_inv_def)

text \<open>One operation on the device: the flag, what is down, and what stays.\<close>

lemma dev_keyD:
  assumes "dev_key key v w = (ok, w1)"
  shows "wk_spam w1 = wk_spam w" "wk_order w1 = wk_order w" "wk_trace w1 = wk_trace w @ [KeyAct key v ok]"
    "combat_inv (wk_device w) \<Longrightarrow> combat_inv (wk_device w1)"
    "ok \<Longrightarrow> \<exists>c. key_label_to_keycode key = Some c \<and> down w1 = update_key_state (down w) c v"
    "\<not> ok \<Longrightarrow> down w1 = down w"
proof -
  obtain d where d: "key_event (wk_device w) key v = (ok, d)" "w1 = acted (KeyAct key v ok) d w"
    using assms by (auto simp: dev_key_def split: prod.splits)
  from d(2) show "wk_spam w1 = wk_spam w" "wk_order w1 = wk_order w" "wk_trace w1 = wk_trace w @ [KeyAct key v ok]" by simp_all
  show "combat_inv (wk_device w) \<Longrightarrow> combat_inv (wk_device w1)" using combat_key_inv [of "wk_device w" key v] d by simp
  show "ok \<Longrightarrow> \<exists>c. key_label_to_keycode key = Some c \<and> down w1 = update_key_state (down w) c v" "\<not> ok \<Longrightarrow> down w1 = down w"
    using key_event_log [OF d(1)] d(2) by (auto simp: down_def acted_def split: option.splits)
qed

lemma dev_modifierD:
  assumes "dev_modifier mo v w = (ok, w1)"
  shows "wk_spam w1 = wk_spam w" "wk_order w1 = wk_order w" "wk_trace w1 = wk_trace w @ [ModifierAct mo v ok]"
    "combat_inv (wk_device w) \<Longrightarrow> combat_inv (wk_device w1)"
    "ok \<Longrightarrow> down w1 = update_key_state (down w) KEY_LEFTSHIFT v" "\<not> ok \<Longrightarrow> down w1 = down w"
proof -
  obtain d where d: "modifier_event (wk_device w) mo v = (ok, d)" "w1 = acted (ModifierAct mo v ok) d w"
    using assms by (auto simp: dev_modifier_def split: prod.splits)
  from d(2) show "wk_spam w1 = wk_spam w" "wk_order w1 = wk_order w" "wk_trace w1 = wk_trace w @ [ModifierAct mo v ok]" by simp_all
  show "combat_inv (wk_device w) \<Longrightarrow> combat_inv (wk_device w1)" using combat_modifier_inv [of "wk_device w" mo v] d by simp
  show "ok \<Longrightarrow> down w1 = update_key_state (down w) KEY_LEFTSHIFT v" "\<not> ok \<Longrightarrow> down w1 = down w"
    using modifier_event_log [OF d(1)] d(2) by (simp_all add: down_def acted_def)
qed

lemma dev_mouseD:
  assumes "dev_mouse v w = (ok, w1)"
  shows "wk_spam w1 = wk_spam w" "wk_order w1 = wk_order w" "wk_trace w1 = wk_trace w @ [MouseAct v ok]"
    "combat_inv (wk_device w) \<Longrightarrow> v \<in> {0, 1} \<Longrightarrow> combat_inv (wk_device w1)"
    "ok \<Longrightarrow> down w1 = update_key_state (down w) BTN_LEFT v" "\<not> ok \<Longrightarrow> down w1 = down w"
proof -
  obtain d where d: "mouse_left_event (wk_device w) v = (ok, d)" "w1 = acted (MouseAct v ok) d w"
    using assms by (auto simp: dev_mouse_def split: prod.splits)
  from d(2) show "wk_spam w1 = wk_spam w" "wk_order w1 = wk_order w" "wk_trace w1 = wk_trace w @ [MouseAct v ok]" by simp_all
  show "combat_inv (wk_device w) \<Longrightarrow> v \<in> {0, 1} \<Longrightarrow> combat_inv (wk_device w1)"
    using combat_mouse_inv [of "wk_device w" v] d by simp
  show "ok \<Longrightarrow> down w1 = update_key_state (down w) BTN_LEFT v" "\<not> ok \<Longrightarrow> down w1 = down w"
    using mouse_event_log [OF d(1)] d(2) by (simp_all add: down_def acted_def)
qed

lemma worker_inv_release: "worker_inv F w \<Longrightarrow> worker_inv F (dev_release key ml w)"
  using combat_release_inv [of "wk_device w" "wk_order w" key ml] combat_release_log [of "wk_order w" "wk_device w" key ml]
  by (auto simp: worker_inv_def dev_release_def down_def)

lemma worker_inv_sleep [simp]: "worker_inv F (dev_sleep t w) = worker_inv F w"
  by (simp add: worker_inv_def dev_sleep_def down_def)

lemma release_sleep_spam [simp]: "wk_spam (dev_release key ml w) = wk_spam w" "wk_spam (dev_sleep t w) = wk_spam w"
  by (simp_all add: dev_release_def dev_sleep_def)

text \<open>A state that answers for at least as much of what is down.\<close>

lemma worker_inv_step:
  assumes "worker_inv F w" "combat_inv (wk_device w1)" "wk_order w1 = wk_order w"
    "down w1 \<subseteq> spam_codes (wk_spam w1) \<union> F"
  shows "worker_inv F w1"
  using assms by (simp add: worker_inv_def)

lemma key_code_not_shift: "key_label_to_keycode l = Some c \<Longrightarrow> c \<noteq> KEY_LEFTSHIFT"
proof -
  assume "key_label_to_keycode l = Some c"
  moreover have "list_all (\<lambda>(_, c). c \<noteq> KEY_LEFTSHIFT) key_table" by (simp add: key_table_def KEY_LEFTSHIFT_def)
  ultimately show ?thesis using key_code_table by (fastforce simp: list_all_iff)
qed

lemma spam_codes_update:
  "spam_codes (s\<lparr>ss_mouse_left_pressed := False\<rparr>) \<supseteq> spam_codes s - {BTN_LEFT}"
  "spam_codes (s\<lparr>ss_held_modifier := None\<rparr>) \<supseteq> spam_codes s - {KEY_LEFTSHIFT}"
  "ss_held_key s = Some k \<Longrightarrow> spam_codes (s\<lparr>ss_held_key := None\<rparr>) \<supseteq> spam_codes s - set_option (key_label_to_keycode k)"
  by (auto simp: spam_codes_def)

text \<open>An input goes up: either the device refuses it and nothing changes, or it is up and the state no longer answers for it.\<close>

definition goes_up :: "(spam_state \<Rightarrow> spam_state) \<Rightarrow> worker \<Rightarrow> worker_error option \<Rightarrow> worker \<Rightarrow> bool" where
  "goes_up f w e w1 \<longleftrightarrow> (combat_inv (wk_device w) \<longrightarrow> combat_inv (wk_device w1)) \<and> wk_order w1 = wk_order w \<and>
     (if e = None then wk_spam w1 = f (wk_spam w) \<and> down w1 \<subseteq> down w \<and> down w1 \<inter> spam_codes (wk_spam w) \<subseteq> spam_codes (wk_spam w1)
      else wk_spam w1 = wk_spam w \<and> down w1 = down w)"

lemma goes_up_inv:
  assumes "goes_up f w e w1" "worker_inv F w"
  shows "worker_inv F w1" "down w1 \<subseteq> down w" "e = None \<Longrightarrow> wk_spam w1 = f (wk_spam w)" "e \<noteq> None \<Longrightarrow> wk_spam w1 = wk_spam w"
proof -
  have "down w1 \<subseteq> spam_codes (wk_spam w1) \<union> F"
  proof (cases "e = None")
    case True
    have "down w1 \<subseteq> down w" "down w1 \<inter> spam_codes (wk_spam w) \<subseteq> spam_codes (wk_spam w1)"
      using assms(1) True unfolding goes_up_def by auto
    moreover have "down w \<subseteq> spam_codes (wk_spam w) \<union> F" using assms(2) unfolding worker_inv_def by blast
    ultimately show ?thesis by blast
  next
    case False
    then show ?thesis using assms unfolding goes_up_def worker_inv_def by simp
  qed
  then show "worker_inv F w1" using assms unfolding goes_up_def worker_inv_def by simp
  show "down w1 \<subseteq> down w" using assms(1) unfolding goes_up_def by (cases "e = None") auto
  show "e = None \<Longrightarrow> wk_spam w1 = f (wk_spam w)" "e \<noteq> None \<Longrightarrow> wk_spam w1 = wk_spam w"
    using assms(1) unfolding goes_up_def by simp_all
qed

lemma up_mouse_up:
  assumes "up_mouse w = (e, w1)"
  shows "goes_up (\<lambda>s. s\<lparr>ss_mouse_left_pressed := False\<rparr>) w e w1"
proof (cases "ss_mouse_left_pressed (wk_spam w)")
  case False
  with assms show ?thesis by (simp add: up_mouse_def goes_up_def)
next
  case True
  obtain ok d where m: "dev_mouse 0 w = (ok, d)" by fastforce
  note r = dev_mouseD [OF m]
  show ?thesis
  proof (cases ok)
    case ok: True
    have "down d = down w - {BTN_LEFT}" using r(5) [OF ok] by (simp add: update_key_state_def)
    moreover have "e = None" "w1 = set_spam (\<lambda>s. s\<lparr>ss_mouse_left_pressed := False\<rparr>) d" using assms True m ok by (auto simp: up_mouse_def)
    ultimately show ?thesis using r(1,2,4) spam_codes_update(1) [of "wk_spam w"] by (auto simp: goes_up_def)
  next
    case ok: False
    have "e = Some RefusedMouse" "w1 = d" using assms True m ok by (auto simp: up_mouse_def)
    then show ?thesis using r(1,2,4,6) ok by (simp add: goes_up_def)
  qed
qed

lemma up_key_up:
  assumes "up_key w = (e, w1)"
  shows "goes_up (\<lambda>s. s\<lparr>ss_held_key := None\<rparr>) w e w1"
proof (cases "ss_held_key (wk_spam w)")
  case None
  with assms show ?thesis by (simp add: up_key_def goes_up_def)
next
  case (Some key)
  obtain ok d where m: "dev_key key 0 w = (ok, d)" by fastforce
  note r = dev_keyD [OF m]
  show ?thesis
  proof (cases ok)
    case ok: True
    from r(5) [OF ok] obtain c where "key_label_to_keycode key = Some c" "down d = down w - {c}" by (auto simp: update_key_state_def)
    moreover have "e = None" "w1 = set_spam (\<lambda>s. s\<lparr>ss_held_key := None\<rparr>) d" using assms Some m ok by (auto simp: up_key_def)
    ultimately show ?thesis using r(1,2,4) spam_codes_update(3) [OF Some] by (auto simp: goes_up_def)
  next
    case ok: False
    have "e = Some (RefusedKey key)" "w1 = d" using assms Some m ok by (auto simp: up_key_def)
    then show ?thesis using r(1,2,4,6) ok by (simp add: goes_up_def)
  qed
qed

lemma up_modifier_up:
  assumes "up_modifier w = (e, w1)"
  shows "goes_up (\<lambda>s. s\<lparr>ss_held_modifier := None\<rparr>) w e w1"
proof (cases "ss_held_modifier (wk_spam w)")
  case None
  with assms show ?thesis by (simp add: up_modifier_def goes_up_def)
next
  case (Some mo)
  obtain ok d where m: "dev_modifier mo 0 w = (ok, d)" by fastforce
  note r = dev_modifierD [OF m]
  show ?thesis
  proof (cases ok)
    case ok: True
    have "down d = down w - {KEY_LEFTSHIFT}" using r(5) [OF ok] by (simp add: update_key_state_def)
    moreover have "e = None" "w1 = set_spam (\<lambda>s. s\<lparr>ss_held_modifier := None\<rparr>) d" using assms Some m ok by (auto simp: up_modifier_def)
    ultimately show ?thesis using r(1,2,4) spam_codes_update(2) [of "wk_spam w"] by (auto simp: goes_up_def)
  next
    case ok: False
    have "e = Some (RefusedModifier mo)" "w1 = d" using assms Some m ok by (auto simp: up_modifier_def)
    then show ?thesis using r(1,2,4,6) ok by (simp add: goes_up_def)
  qed
qed

lemma or_first_None [simp]: "or_first a b = None \<longleftrightarrow> a = None \<and> b = None"
  by (cases a) auto

lemma settle_inv:
  assumes "settle v (e, w) = (r, w1)" "worker_inv F w"
  shows "worker_inv F w1" "wk_spam w1 = wk_spam w" "r = Inr x \<Longrightarrow> x = v \<and> e = None \<and> w1 = w"
  using assms by (auto simp: settle_def worker_inv_release split: option.splits)

lemma release_cycle_inputs_inv:
  assumes "release_cycle_inputs w = (r, w1)" "worker_inv F w"
  shows "worker_inv F w1"
    "r = Inr had \<Longrightarrow> had = (ss_held_key (wk_spam w) \<noteq> None) \<and>
       wk_spam w1 = (wk_spam w)\<lparr>ss_mouse_left_pressed := False, ss_held_key := None\<rparr>"
proof -
  obtain e1 w2 e2 w3 where u: "up_mouse w = (e1, w2)" "up_key w2 = (e2, w3)" by fastforce
  note i1 = goes_up_inv [OF up_mouse_up [OF u(1)] assms(2)]
  note i2 = goes_up_inv [OF up_key_up [OF u(2)] i1(1)]
  have s: "settle (ss_held_key (wk_spam w) \<noteq> None) (or_first e1 e2, w3) = (r, w1)"
    using assms(1) u by (simp add: release_cycle_inputs_def)
  show "worker_inv F w1" using settle_inv(1) [OF s i2(1)] .
  show "r = Inr had \<Longrightarrow> had = (ss_held_key (wk_spam w) \<noteq> None) \<and>
      wk_spam w1 = (wk_spam w)\<lparr>ss_mouse_left_pressed := False, ss_held_key := None\<rparr>"
    using settle_inv(3) [OF s i2(1)] i1(3) i2(3) by auto
qed

lemma release_cycle_inputs_cutoff:
  assumes "release_cycle_inputs w = (r, w1)" "worker_inv F w"
  shows "ss_cancelled_through (wk_spam w1) = ss_cancelled_through (wk_spam w)"
proof -
  obtain e1 w2 e2 w3 where u: "up_mouse w = (e1, w2)" "up_key w2 = (e2, w3)" by fastforce
  note i1 = goes_up_inv [OF up_mouse_up [OF u(1)] assms(2)]
  note i2 = goes_up_inv [OF up_key_up [OF u(2)] i1(1)]
  have s: "settle (ss_held_key (wk_spam w) \<noteq> None) (or_first e1 e2, w3) = (r, w1)"
    using assms(1) u by (simp add: release_cycle_inputs_def)
  show ?thesis using settle_inv(2) [OF s i2(1)] i1(3,4) i2(3,4) by (cases "e1 = None"; cases "e2 = None") simp_all
qed

definition idle_spam :: "spam_state \<Rightarrow> bool" where
  "idle_spam s \<longleftrightarrow> ss_held_key s = None \<and> ss_held_modifier s = None \<and> \<not> ss_mouse_left_pressed s"

lemma idle_codes: "idle_spam s \<Longrightarrow> spam_codes s = {}"
  by (simp add: idle_spam_def spam_codes_def)

lemma release_spam_inputs_inv:
  assumes "release_spam_inputs w = (r, w1)" "worker_inv F w"
  shows "worker_inv F w1" "r = Inr () \<Longrightarrow> idle_spam (wk_spam w1)"
    "ss_cancelled_through (wk_spam w1) = ss_cancelled_through (wk_spam w)"
proof -
  obtain e1 w2 e2 w3 e3 w4 where u: "up_mouse w = (e1, w2)" "up_key w2 = (e2, w3)" "up_modifier w3 = (e3, w4)" by (metis surj_pair)
  note i1 = goes_up_inv [OF up_mouse_up [OF u(1)] assms(2)]
  note i2 = goes_up_inv [OF up_key_up [OF u(2)] i1(1)]
  note i3 = goes_up_inv [OF up_modifier_up [OF u(3)] i2(1)]
  have s: "settle () (or_first (or_first e1 e2) e3, w4) = (r, w1)"
    using assms(1) u by (simp add: release_spam_inputs_def)
  show "worker_inv F w1" using settle_inv(1) [OF s i3(1)] .
  show "r = Inr () \<Longrightarrow> idle_spam (wk_spam w1)"
    using settle_inv(3) [OF s i3(1)] i1(3) i2(3) i3(3) by (auto simp: idle_spam_def)
  show "ss_cancelled_through (wk_spam w1) = ss_cancelled_through (wk_spam w)"
    using settle_inv(2) [OF s i3(1)] i1(3,4) i2(3,4) i3(3,4)
    by (cases "e1 = None"; cases "e2 = None"; cases "e3 = None") simp_all
qed


lemma worker_inv_set:
  "worker_inv F w \<Longrightarrow> spam_codes (wk_spam w) \<subseteq> spam_codes (f (wk_spam w)) \<union> F \<Longrightarrow> worker_inv F (set_spam f w)"
  by (auto simp: worker_inv_def)

text \<open>A modifier or the button goes down only when the state answers for it.\<close>

lemma reconcile_inv:
  assumes "reconcile_spam_modifier mo w = (r, w1)" "worker_inv F w"
  shows "worker_inv F w1" "r = Inr () \<Longrightarrow> wk_spam w1 = (wk_spam w)\<lparr>ss_held_modifier := mo\<rparr>"
    "ss_cancelled_through (wk_spam w1) = ss_cancelled_through (wk_spam w)"
proof -
  have "worker_inv F w1 \<and> (r = Inr () \<longrightarrow> wk_spam w1 = (wk_spam w)\<lparr>ss_held_modifier := mo\<rparr>) \<and>
      ss_cancelled_through (wk_spam w1) = ss_cancelled_through (wk_spam w)"
  proof (cases "ss_held_modifier (wk_spam w) = mo")
    case True
    with assms show ?thesis by (auto simp: reconcile_spam_modifier_def)
  next
    case False
    obtain e w2 where u: "up_modifier w = (e, w2)" by fastforce
    note i = goes_up_inv [OF up_modifier_up [OF u] assms(2)]
    show ?thesis
    proof (cases e)
      case (Some x)
      with assms(1) False u have "r = Inl x" "w1 = dev_release None True w2" by (auto simp: reconcile_spam_modifier_def)
      with i(1,4) Some show ?thesis by (simp add: worker_inv_release)
    next
      case e: None
      show ?thesis
      proof (cases mo)
        case None
        with assms(1) False u e have "r = Inr ()" "w1 = w2" by (auto simp: reconcile_spam_modifier_def)
        with i(1,3) e None show ?thesis by simp
      next
        case (Some m)
        obtain ok w3 where d: "dev_modifier m 1 w2 = (ok, w3)" by fastforce
        note r = dev_modifierD [OF d]
        have c2: "combat_inv (wk_device w3)" using r(4) i(1) by (simp add: worker_inv_def)
        show ?thesis
        proof (cases ok)
          case True
          let ?w = "set_spam (\<lambda>s. s\<lparr>ss_held_modifier := Some m\<rparr>) w3"
          have "down ?w \<subseteq> insert KEY_LEFTSHIFT (spam_codes (wk_spam w2) \<union> F)"
            using r(5) True i(1) by (auto simp: update_key_state_def worker_inv_def)
          also have "\<dots> \<subseteq> spam_codes (wk_spam ?w) \<union> F" using r(1) by (auto simp: spam_codes_def)
          finally have "worker_inv F ?w" using i(1) c2 r(2) by (simp add: worker_inv_def)
          moreover have "r = Inr ()" "w1 = ?w" using assms(1) False u e Some d True by (auto simp: reconcile_spam_modifier_def)
          ultimately show ?thesis using r(1) i(3) e Some by simp
        next
          case nok: False
          have "worker_inv F w3" using i(1) c2 r(1,2,6) nok by (simp add: worker_inv_def)
          moreover have "r = Inl (RefusedModifier m)" "w1 = dev_release None True w3"
            using assms(1) False u e Some d nok by (auto simp: reconcile_spam_modifier_def)
          ultimately show ?thesis using r(1) i(3) e by (simp add: worker_inv_release)
        qed
      qed
    qed
  qed
  then show "worker_inv F w1" "r = Inr () \<Longrightarrow> wk_spam w1 = (wk_spam w)\<lparr>ss_held_modifier := mo\<rparr>"
    "ss_cancelled_through (wk_spam w1) = ss_cancelled_through (wk_spam w)" by blast+
qed

lemma abandon_inv:
  assumes "abandon_cycle w = (r, w1)" "worker_inv F w"
  shows "worker_inv F w1" "r \<noteq> Inr True" "r = Inr False \<Longrightarrow> idle_spam (wk_spam w1)"
    "ss_cancelled_through (wk_spam w1) = ss_cancelled_through (wk_spam w)"
proof -
  obtain r2 w2 where u: "release_spam_inputs w = (r2, w2)" by fastforce
  note i = release_spam_inputs_inv [OF u assms(2)]
  show "worker_inv F w1" "r \<noteq> Inr True" "ss_cancelled_through (wk_spam w1) = ss_cancelled_through (wk_spam w)"
    "r = Inr False \<Longrightarrow> idle_spam (wk_spam w1)"
    using assms(1) u i by (auto simp: abandon_cycle_def worker_bind_def split: sum.splits)
qed

lemma mouse_down_inv:
  assumes "dev_mouse v w = (ok, w1)" "worker_inv F w" "ss_mouse_left_pressed (wk_spam w)" "v \<in> {0, 1}"
  shows "worker_inv F w1" "wk_spam w1 = wk_spam w" "ok \<Longrightarrow> v = 0 \<Longrightarrow> worker_inv F (set_spam (\<lambda>s. s\<lparr>ss_mouse_left_pressed := False\<rparr>) w1)"
proof -
  note r = dev_mouseD [OF assms(1)]
  have c: "combat_inv (wk_device w1)" using r(4) assms(2,4) by (simp add: worker_inv_def)
  show "wk_spam w1 = wk_spam w" by (rule r(1))
  have "down w1 \<subseteq> insert BTN_LEFT (down w)" using r(5,6) by (cases ok) (auto simp: update_key_state_def)
  also have "\<dots> \<subseteq> spam_codes (wk_spam w) \<union> F" using assms(2,3) by (auto simp: worker_inv_def spam_codes_def)
  finally show "worker_inv F w1" using c r(1,2) assms(2) by (simp add: worker_inv_def)
  assume ok: "ok" "v = 0"
  have "down w1 = down w - {BTN_LEFT}" using r(5) ok by (simp add: update_key_state_def)
  then have "down w1 \<subseteq> spam_codes ((wk_spam w)\<lparr>ss_mouse_left_pressed := False\<rparr>) \<union> F"
    using assms(2) spam_codes_update(1) [of "wk_spam w"] by (auto simp: worker_inv_def)
  then show "worker_inv F (set_spam (\<lambda>s. s\<lparr>ss_mouse_left_pressed := False\<rparr>) w1)"
    using c r(1,2) assms(2) by (simp add: worker_inv_def)
qed

lemma click_inv:
  assumes "click timing w = (r, w1)" "worker_inv F w"
  shows "worker_inv F w1" "r = Inr True \<Longrightarrow> wk_spam w1 = (wk_spam w)\<lparr>ss_mouse_left_pressed := False\<rparr>" "r \<noteq> Inr False"
    "ss_cancelled_through (wk_spam w1) = ss_cancelled_through (wk_spam w)"
proof -
  let ?w = "set_spam (\<lambda>s. s\<lparr>ss_mouse_left_pressed := True\<rparr>) w"
  have w: "worker_inv F ?w" using assms(2) by (rule worker_inv_set) (auto simp: spam_codes_def)
  obtain ok2 w2 where d2: "dev_mouse 1 ?w = (ok2, w2)" by fastforce
  note i2 = mouse_down_inv [OF d2 w]
  obtain ok3 w3 where d3: "dev_mouse 0 (dev_sleep (ct_click_hold timing) w2) = (ok3, w3)" by fastforce
  have s2: "wk_spam w2 = (wk_spam w)\<lparr>ss_mouse_left_pressed := True\<rparr>" using i2(2) by simp
  have i3: "worker_inv F w3" "wk_spam w3 = (wk_spam w)\<lparr>ss_mouse_left_pressed := True\<rparr>"
    "ok3 \<Longrightarrow> worker_inv F (set_spam (\<lambda>s. s\<lparr>ss_mouse_left_pressed := False\<rparr>) w3)"
    using mouse_down_inv [OF d3, of F] i2(1) s2 by simp_all
  consider (refused) "r = Inl RefusedMouse" "w1 = dev_release None True w2" | (stuck) "r = Inl RefusedMouse" "w1 = dev_release None True w3"
    | (clicked) "r = Inr True" "w1 = set_spam (\<lambda>s. s\<lparr>ss_mouse_left_pressed := False\<rparr>) w3" ok3
    using assms(1) d2 d3 by (cases ok2; cases ok3) (auto simp: click_def)
  then have "worker_inv F w1 \<and> (r = Inr True \<longrightarrow> wk_spam w1 = (wk_spam w)\<lparr>ss_mouse_left_pressed := False\<rparr>) \<and> r \<noteq> Inr False \<and>
      ss_cancelled_through (wk_spam w1) = ss_cancelled_through (wk_spam w)"
    by cases (use i2(1) s2 i3 in \<open>simp_all add: worker_inv_release\<close>)
  then show "worker_inv F w1" "r = Inr True \<Longrightarrow> wk_spam w1 = (wk_spam w)\<lparr>ss_mouse_left_pressed := False\<rparr>" "r \<noteq> Inr False"
    "ss_cancelled_through (wk_spam w1) = ss_cancelled_through (wk_spam w)" by blast+
qed


definition foreign_codes :: "command_kind \<Rightarrow> key_code set" where
  "foreign_codes k = (case k of DoPressKey key \<Rightarrow> set_option (key_label_to_keycode key)
     | DoKeyEvent key _ \<Rightarrow> set_option (key_label_to_keycode key) | _ \<Rightarrow> {})"

lemma spam_key_inv:
  assumes "dev_key key 1 (set_spam (\<lambda>s. s\<lparr>ss_held_key := Some key\<rparr>) w) = (ok, w1)" "worker_inv F w" "ss_held_key (wk_spam w) = None"
  shows "worker_inv F w1" "wk_spam w1 = (wk_spam w)\<lparr>ss_held_key := Some key\<rparr>"
proof -
  note r = dev_keyD [OF assms(1)]
  show s: "wk_spam w1 = (wk_spam w)\<lparr>ss_held_key := Some key\<rparr>" using r(1) by simp
  have "down w1 \<subseteq> down w \<union> set_option (key_label_to_keycode key)"
    using r(5,6) by (cases ok) (auto simp: update_key_state_def)
  also have "\<dots> \<subseteq> spam_codes (wk_spam w1) \<union> F" using assms(2,3) s by (auto simp: worker_inv_def spam_codes_def)
  finally show "worker_inv F w1" using r(2,4) assms(2) by (simp add: worker_inv_def)
qed

lemma spam_cycle_inv:
  assumes "worker_spam_cycle key mo timing requested w = (r, w1)" "worker_inv F w"
  shows "worker_inv F w1" "ss_cancelled_through (wk_spam w1) = ss_cancelled_through (wk_spam w)"
    "r = Inr False \<Longrightarrow> idle_spam (wk_spam w1)"
proof -
  obtain r1 u1 where c1: "release_cycle_inputs w = (r1, u1)" by fastforce
  note i1 = release_cycle_inputs_inv [OF c1 assms(2)]
  have k1: "ss_cancelled_through (wk_spam u1) = ss_cancelled_through (wk_spam w)"
    using release_cycle_inputs_cutoff [OF c1 assms(2)] .
  have "worker_inv F w1 \<and> ss_cancelled_through (wk_spam w1) = ss_cancelled_through (wk_spam w) \<and> (r = Inr False \<longrightarrow> idle_spam (wk_spam w1))"
  proof (cases r1)
    case (Inl e)
    with assms(1) c1 i1(1) k1 show ?thesis by (auto simp: worker_spam_cycle_def worker_bind_def)
  next
    case r1: (Inr rearm)
    define u2 where "u2 = (if rearm then dev_sleep (ct_key_rearm_settle timing) u1 else u1)"
    have i2: "worker_inv F u2" "wk_spam u2 = wk_spam u1" using i1(1) by (simp_all add: u2_def)
    have h1: "ss_held_key (wk_spam u1) = None" using i1(2) r1 by simp
    show ?thesis
    proof (cases "requested 1")
      case True
      then have "abandon_cycle u2 = (r, w1)" using assms(1) c1 r1 by (simp add: worker_spam_cycle_def worker_bind_def u2_def Let_def)
      from abandon_inv [OF this i2(1)] i2(2) k1 show ?thesis by simp
    next
      case no1: False
      obtain r3 u3 where c3: "reconcile_spam_modifier mo u2 = (r3, u3)" by fastforce
      note i3 = reconcile_inv [OF c3 i2(1)]
      show ?thesis
      proof (cases r3)
        case (Inl e)
        then have "r = Inl e" "w1 = u3" using assms(1) c1 r1 no1 c3 by (simp_all add: worker_spam_cycle_def worker_bind_def u2_def Let_def)
        with i3 i2(2) k1 show ?thesis by simp
      next
        case r3: (Inr x)
        show ?thesis
        proof (cases "requested 2")
          case True
          then have "abandon_cycle u3 = (r, w1)"
            using assms(1) c1 r1 no1 c3 r3 by (simp add: worker_spam_cycle_def worker_bind_def u2_def Let_def)
          from abandon_inv [OF this i3(1)] i3(3) i2(2) k1 show ?thesis by simp
        next
          case no2: False
          obtain ok u4 where c4: "dev_key key 1 (set_spam (\<lambda>s. s\<lparr>ss_held_key := Some key\<rparr>) u3) = (ok, u4)" by fastforce
          have "ss_held_key (wk_spam u3) = None" using i3(2) r3 i2(2) h1 by simp
          note i4 = spam_key_inv [OF c4 i3(1) this]
          have k4: "ss_cancelled_through (wk_spam u4) = ss_cancelled_through (wk_spam w)" using i4(2) i3(3) i2(2) k1 by simp
          define u5 where "u5 = dev_sleep (ct_key_to_click_settle timing) u4"
          have i5: "worker_inv F u5" "wk_spam u5 = wk_spam u4" using i4(1) by (simp_all add: u5_def)
          consider (refused) "r = Inl (RefusedKey key)" "w1 = dev_release None True u4"
            | (stopped) "abandon_cycle u5 = (r, w1)" | (goes) "click timing u5 = (r, w1)"
            using assms(1) c1 r1 no1 c3 r3 no2 c4
            by (cases ok; cases "requested 3") (auto simp: worker_spam_cycle_def worker_bind_def u2_def u5_def Let_def)
          then show ?thesis
          proof cases
            case refused
            with i4(1) k4 show ?thesis by (simp add: worker_inv_release)
          next
            case stopped
            from abandon_inv [OF this i5(1)] i5(2) k4 show ?thesis by simp
          next
            case goes
            from click_inv [OF this i5(1)] i5(2) k4 show ?thesis by simp
          qed
        qed
      qed
    qed
  qed
  then show "worker_inv F w1" "ss_cancelled_through (wk_spam w1) = ss_cancelled_through (wk_spam w)"
    "r = Inr False \<Longrightarrow> idle_spam (wk_spam w1)" by blast+
qed


text \<open>A key that another tool presses.\<close>

lemma foreign_key_inv:
  assumes "dev_key key v w = (ok, w1)" "worker_inv F w" "set_option (key_label_to_keycode key) \<subseteq> F"
  shows "worker_inv F w1" "wk_spam w1 = wk_spam w"
proof -
  note r = dev_keyD [OF assms(1)]
  have "down w1 \<subseteq> down w \<union> F" using r(5,6) assms(3) by (cases ok) (auto simp: update_key_state_def split: if_splits)
  then show "worker_inv F w1" using r(1,2,4) assms(2) by (auto simp: worker_inv_def)
  show "wk_spam w1 = wk_spam w" by (rule r(1))
qed

lemma press_key_inv:
  assumes "worker_press_key key w = (r, w1)" "worker_inv F w" "set_option (key_label_to_keycode key) \<subseteq> F"
  shows "worker_inv F w1" "wk_spam w1 = wk_spam w"
proof -
  obtain ok2 w2 where d2: "dev_key key 1 w = (ok2, w2)" by fastforce
  obtain ok3 w3 where d3: "dev_key key 0 (dev_sleep KEY_PRESS_HOLD w2) = (ok3, w3)" by fastforce
  note i2 = foreign_key_inv [OF d2 assms(2,3)]
  have i3: "worker_inv F w3" "wk_spam w3 = wk_spam w" using foreign_key_inv [OF d3 _ assms(3)] i2 by simp_all
  consider "w1 = w" | "w1 = dev_release (Some key) False w2" | "w1 = dev_release (Some key) False w3" | "w1 = w3"
    using assms(1) d2 d3 by (cases "holds_key w key"; cases ok2; cases ok3) (auto simp: worker_press_key_def)
  then have "worker_inv F w1 \<and> wk_spam w1 = wk_spam w"
    by cases (use i2 i3 assms(2) in \<open>simp_all add: worker_inv_release\<close>)
  then show "worker_inv F w1" "wk_spam w1 = wk_spam w" by blast+
qed

lemma spam_codes_key: "spam_codes s \<subseteq> spam_codes (s\<lparr>ss_held_key := None\<rparr>) \<union>
    (case ss_held_key s of None \<Rightarrow> {} | Some k \<Rightarrow> set_option (key_label_to_keycode k))"
  by (auto simp: spam_codes_def)

lemma ascii_upper_lower: "ascii_upper (ascii_lower c) = ascii_upper c"
  by (auto simp: ascii_upper_def ascii_lower_def Let_def)

lemma to_upper_of_lower: "to_ascii_uppercase (to_ascii_lowercase s) = to_ascii_uppercase s"
  by (simp add: to_ascii_uppercase_def to_ascii_lowercase_def ascii_upper_lower)

lemma same_key_same_code: "eq_ignore_ascii_case a b \<Longrightarrow> key_label_to_keycode a = key_label_to_keycode b"
  unfolding eq_ignore_ascii_case_def key_label_to_keycode_def label_to_keycode_def by (metis to_upper_of_lower)

lemma key_event_inv:
  assumes "worker_key_event key v w = (r, w1)" "worker_inv F w" "set_option (key_label_to_keycode key) \<subseteq> F"
  shows "worker_inv F w1" "ss_cancelled_through (wk_spam w1) = ss_cancelled_through (wk_spam w)"
proof -
  obtain ok w2 where d2: "dev_key key v w = (ok, w2)" by fastforce
  note i2 = foreign_key_inv [OF d2 assms(2,3)]
  have e: "w1 = (if ok then if v = 0 \<and> holds_key w2 key then set_spam (\<lambda>s. s\<lparr>ss_held_key := None\<rparr>) w2 else w2
      else dev_release (Some key) False w2)"
    using assms(1) unfolding worker_key_event_def d2 by (cases ok) simp_all
  consider "w1 = dev_release (Some key) False w2" | "w1 = w2"
    | "holds_key w2 key" "w1 = set_spam (\<lambda>s. s\<lparr>ss_held_key := None\<rparr>) w2"
    using e by presburger
  then have "worker_inv F w1 \<and> ss_cancelled_through (wk_spam w1) = ss_cancelled_through (wk_spam w)"
  proof cases
    case 3
    then have "(case ss_held_key (wk_spam w2) of None \<Rightarrow> {} | Some k \<Rightarrow> set_option (key_label_to_keycode k)) \<subseteq> F"
      using assms(3) same_key_same_code by (auto simp: holds_key_def split: option.splits)
    with spam_codes_key [of "wk_spam w2"] have "spam_codes (wk_spam w2) \<subseteq> spam_codes ((wk_spam w2)\<lparr>ss_held_key := None\<rparr>) \<union> F"
      by blast
    with i2 3(2) show ?thesis by (simp add: worker_inv_set)
  qed (use i2 in \<open>simp_all add: worker_inv_release\<close>)
  then show "worker_inv F w1" "ss_cancelled_through (wk_spam w1) = ss_cancelled_through (wk_spam w)" by blast+
qed

text \<open>The cutoff that a release leaves behind.\<close>

definition cutoff_after :: "worker_command \<Rightarrow> nat option \<Rightarrow> nat option" where
  "cutoff_after c cutoff =
     (if wc_kind c = DoReleaseSpam then Some (case cutoff of None \<Rightarrow> wc_sequence c | Some x \<Rightarrow> max x (wc_sequence c)) else cutoff)"

lemma as_bool_cases:
  "as_bool x = (r, w1) \<Longrightarrow> \<exists>y. x = (y, w1) \<and> (r = Inr True \<longleftrightarrow> y = Inr ()) \<and> r \<noteq> Inr False"
  by (auto simp: as_bool_def worker_bind_def split: sum.splits prod.splits)

lemma perform_command_inv:
  assumes "perform_command c readings w = (r, w1)" "worker_inv F w" "foreign_codes (wc_kind c) \<subseteq> F"
  shows "worker_inv F w1" "ss_cancelled_through (wk_spam w1) = cutoff_after c (ss_cancelled_through (wk_spam w))"
    "wc_kind c = DoReleaseSpam \<Longrightarrow> r = Inr True \<Longrightarrow> idle_spam (wk_spam w1)" "r = Inr False \<Longrightarrow> idle_spam (wk_spam w1)"
proof -
  have "worker_inv F w1 \<and> ss_cancelled_through (wk_spam w1) = cutoff_after c (ss_cancelled_through (wk_spam w)) \<and>
      (wc_kind c = DoReleaseSpam \<and> r = Inr True \<longrightarrow> idle_spam (wk_spam w1)) \<and> (r = Inr False \<longrightarrow> idle_spam (wk_spam w1))"
  proof (cases "wc_kind c")
    case (DoPressKey key)
    then obtain y where "worker_press_key key w = (y, w1)" "r \<noteq> Inr False" using assms(1) as_bool_cases by (fastforce simp: perform_command_def)
    with press_key_inv [OF this(1) assms(2)] assms(3) DoPressKey show ?thesis by (simp add: foreign_codes_def cutoff_after_def)
  next
    case (DoSpamCycle key mo)
    then have "worker_spam_cycle key mo (wc_timing c) (cancel_requested c readings) w = (r, w1)" using assms(1) by (simp add: perform_command_def)
    from spam_cycle_inv [OF this assms(2)] DoSpamCycle show ?thesis by (simp add: cutoff_after_def)
  next
    case DoReleaseSpam
    let ?w = "set_spam (note_cutoff (wc_sequence c)) w"
    obtain y where y: "release_spam_inputs ?w = (y, w1)" "r = Inr True \<longleftrightarrow> y = Inr ()" "r \<noteq> Inr False"
      using assms(1) as_bool_cases DoReleaseSpam by (fastforce simp: perform_command_def)
    have "worker_inv F ?w" using assms(2) by (rule worker_inv_set) (auto simp: note_cutoff_def spam_codes_def)
    from release_spam_inputs_inv [OF y(1) this] y(2,3) DoReleaseSpam show ?thesis by (simp add: cutoff_after_def note_cutoff_def)
  next
    case (DoKeyEvent key v)
    then obtain y where "worker_key_event key v w = (y, w1)" "r \<noteq> Inr False" using assms(1) as_bool_cases by (fastforce simp: perform_command_def)
    with key_event_inv [OF this(1) assms(2)] assms(3) DoKeyEvent show ?thesis by (simp add: foreign_codes_def cutoff_after_def)
  qed
  then show "worker_inv F w1" "ss_cancelled_through (wk_spam w1) = cutoff_after c (ss_cancelled_through (wk_spam w))"
    "wc_kind c = DoReleaseSpam \<Longrightarrow> r = Inr True \<Longrightarrow> idle_spam (wk_spam w1)" "r = Inr False \<Longrightarrow> idle_spam (wk_spam w1)"
    by blast+
qed

lemma execute_cases:
  assumes "execute_command c started completed readings w m = (out, w1, m1)"
  obtains (skipped) "out = Overrun" "w1 = w" "cancelled c readings w \<or> late c started"
  | (ran) r where "perform_command c readings w = (r, w1)" "\<not> cancelled c readings w" "out = Completed \<longleftrightarrow> r = Inr True"
      "out = Overrun \<longleftrightarrow> r = Inr False"
  using assms by (auto simp: execute_command_def Let_def split: if_splits sum.splits bool.splits prod.splits)

lemma release_not_skipped: "wc_kind c = DoReleaseSpam \<Longrightarrow> \<not> cancelled c readings w"
  by (simp add: cancelled_def)

section \<open>The trace of a cycle\<close>

definition up_acts :: "spam_state \<Rightarrow> worker_action list" where
  "up_acts s = (if ss_mouse_left_pressed s then [MouseAct 0 True] else []) @
     (case ss_held_key s of None \<Rightarrow> [] | Some k \<Rightarrow> [KeyAct k 0 True])"

definition modifier_acts :: "spam_modifier option \<Rightarrow> spam_modifier option \<Rightarrow> worker_action list" where
  "modifier_acts held wanted =
     (if held = wanted then []
      else (case held of None \<Rightarrow> [] | Some m \<Rightarrow> [ModifierAct m 0 True]) @ (case wanted of None \<Rightarrow> [] | Some m \<Rightarrow> [ModifierAct m 1 True]))"

definition cycle_acts :: "string \<Rightarrow> spam_modifier option \<Rightarrow> cycle_timing \<Rightarrow> spam_state \<Rightarrow> worker_action list" where
  "cycle_acts key mo timing s =
     up_acts s @ (if ss_held_key s = None then [] else [SleepAct (ct_key_rearm_settle timing)]) @
     modifier_acts (ss_held_modifier s) mo @
     [KeyAct key 1 True, SleepAct (ct_key_to_click_settle timing), MouseAct 1 True, SleepAct (ct_click_hold timing), MouseAct 0 True]"

lemma up_mouse_trace:
  "up_mouse w = (None, w1) \<Longrightarrow>
     wk_trace w1 = wk_trace w @ (if ss_mouse_left_pressed (wk_spam w) then [MouseAct 0 True] else []) \<and>
     wk_spam w1 = (wk_spam w)\<lparr>ss_mouse_left_pressed := False\<rparr>"
  using dev_mouseD(1,3) [of 0 w True] by (cases "dev_mouse 0 w") (auto simp: up_mouse_def split: if_splits bool.splits)

lemma up_key_trace:
  "up_key w = (None, w1) \<Longrightarrow>
     wk_trace w1 = wk_trace w @ (case ss_held_key (wk_spam w) of None \<Rightarrow> [] | Some k \<Rightarrow> [KeyAct k 0 True]) \<and>
     wk_spam w1 = (wk_spam w)\<lparr>ss_held_key := None\<rparr>"
  using dev_keyD(1,3) [of _ 0 w True] by (auto simp: up_key_def split: option.splits prod.splits bool.splits)

lemma up_modifier_trace:
  "up_modifier w = (None, w1) \<Longrightarrow>
     wk_trace w1 = wk_trace w @ (case ss_held_modifier (wk_spam w) of None \<Rightarrow> [] | Some m \<Rightarrow> [ModifierAct m 0 True]) \<and>
     wk_spam w1 = (wk_spam w)\<lparr>ss_held_modifier := None\<rparr>"
  using dev_modifierD(1,3) [of _ 0 w True] by (auto simp: up_modifier_def split: option.splits prod.splits bool.splits)

lemma settle_Inr: "settle v (e, w) = (Inr x, w1) \<Longrightarrow> e = None \<and> x = v \<and> w1 = w"
  by (auto simp: settle_def split: option.splits)

lemma release_cycle_trace:
  assumes "release_cycle_inputs w = (Inr had, w1)"
  shows "wk_trace w1 = wk_trace w @ up_acts (wk_spam w)"
    "wk_spam w1 = (wk_spam w)\<lparr>ss_mouse_left_pressed := False, ss_held_key := None\<rparr>" "had = (ss_held_key (wk_spam w) \<noteq> None)"
proof -
  obtain e1 w2 e2 w3 where u: "up_mouse w = (e1, w2)" "up_key w2 = (e2, w3)" by fastforce
  have s: "or_first e1 e2 = None" "had = (ss_held_key (wk_spam w) \<noteq> None)" "w1 = w3"
    using settle_Inr [of _ "or_first e1 e2" w3 had w1] assms u by (simp_all add: release_cycle_inputs_def)
  with up_mouse_trace [of w w2] up_key_trace [of w2 w3] u
  show "wk_trace w1 = wk_trace w @ up_acts (wk_spam w)"
    "wk_spam w1 = (wk_spam w)\<lparr>ss_mouse_left_pressed := False, ss_held_key := None\<rparr>" "had = (ss_held_key (wk_spam w) \<noteq> None)"
    by (simp_all add: up_acts_def)
qed

lemma reconcile_trace:
  assumes "reconcile_spam_modifier mo w = (Inr (), w1)"
  shows "wk_trace w1 = wk_trace w @ modifier_acts (ss_held_modifier (wk_spam w)) mo"
proof (cases "ss_held_modifier (wk_spam w) = mo")
  case True
  with assms show ?thesis by (simp add: reconcile_spam_modifier_def modifier_acts_def)
next
  case False
  obtain e w2 where u: "up_modifier w = (e, w2)" by fastforce
  with assms False have e: "e = None" by (cases e) (simp_all add: reconcile_spam_modifier_def)
  have t: "wk_trace w2 = wk_trace w @ (case ss_held_modifier (wk_spam w) of None \<Rightarrow> [] | Some m \<Rightarrow> [ModifierAct m 0 True])"
    using up_modifier_trace u e by blast
  show ?thesis
  proof (cases mo)
    case None
    with False obtain h where "ss_held_modifier (wk_spam w) = Some h" by auto
    with None assms u e t show ?thesis by (simp add: reconcile_spam_modifier_def modifier_acts_def)
  next
    case (Some m)
    obtain ok w3 where d: "dev_modifier m 1 w2 = (ok, w3)" by fastforce
    with assms False u e Some have ok: ok and "wk_trace w1 = wk_trace w3"
      by (auto simp: reconcile_spam_modifier_def split: bool.splits)
    with dev_modifierD(3) [OF d] t False Some show ?thesis by (simp add: modifier_acts_def)
  qed
qed


lemma click_trace:
  assumes "click timing w = (Inr True, w1)"
  shows "wk_trace w1 = wk_trace w @ [MouseAct 1 True, SleepAct (ct_click_hold timing), MouseAct 0 True]"
proof -
  obtain ok2 w2 where d2: "dev_mouse 1 (set_spam (\<lambda>s. s\<lparr>ss_mouse_left_pressed := True\<rparr>) w) = (ok2, w2)" by fastforce
  obtain ok3 w3 where d3: "dev_mouse 0 (dev_sleep (ct_click_hold timing) w2) = (ok3, w3)" by fastforce
  have "ok2 \<and> ok3 \<and> wk_trace w1 = wk_trace w3" using assms d2 d3 by (cases ok2; cases ok3) (auto simp: click_def)
  then show ?thesis using dev_mouseD(3) [OF d2] dev_mouseD(3) [OF d3] by (simp add: dev_sleep_def)
qed

text \<open>What a step adds to the trace presses no button.\<close>

definition no_click :: "worker \<Rightarrow> worker \<Rightarrow> bool" where
  "no_click w w1 \<longleftrightarrow> (\<exists>acts. wk_trace w1 = wk_trace w @ acts \<and> (\<forall>ok. MouseAct 1 ok \<notin> set acts))"

lemma no_click_refl: "wk_trace w1 = wk_trace w \<Longrightarrow> no_click w w1"
  by (simp add: no_click_def)

lemma no_click_trans: "no_click w w1 \<Longrightarrow> no_click w1 w2 \<Longrightarrow> no_click w w2"
  by (fastforce simp: no_click_def)

lemma no_click_one: "wk_trace w1 = wk_trace w @ [a] \<Longrightarrow> (\<And>ok. a \<noteq> MouseAct 1 ok) \<Longrightarrow> no_click w w1"
  by (fastforce simp: no_click_def)

lemma no_click_dev:
  "dev_key key v w = (ok, w1) \<Longrightarrow> no_click w w1" "dev_modifier mo v w = (ok, w1) \<Longrightarrow> no_click w w1"
  "dev_mouse 0 w = (ok, w1) \<Longrightarrow> no_click w w1" "no_click w (dev_release k ml w)" "no_click w (dev_sleep t w)"
  by (rule no_click_one, (simp add: dev_keyD(3) dev_modifierD(3) dev_mouseD(3) dev_release_def dev_sleep_def)+)+

lemma no_click_set [simp]: "no_click w (set_spam f w1) = no_click w w1" "no_click (set_spam f w) w1 = no_click w w1"
  by (simp_all add: no_click_def)

lemma no_click_up:
  "up_mouse w = (e, w1) \<Longrightarrow> no_click w w1" "up_key w = (e, w1) \<Longrightarrow> no_click w w1" "up_modifier w = (e, w1) \<Longrightarrow> no_click w w1"
  by (auto simp: up_mouse_def up_key_def up_modifier_def no_click_refl intro: no_click_dev split: if_splits prod.splits bool.splits option.splits)

lemma no_click_settle: "settle v (e, w) = (r, w1) \<Longrightarrow> no_click w w1"
  by (auto simp: settle_def no_click_refl intro: no_click_dev split: option.splits)

lemma no_click_release_spam: "release_spam_inputs w = (r, w1) \<Longrightarrow> no_click w w1"
  unfolding release_spam_inputs_def
  by (auto split: prod.splits dest!: no_click_up no_click_settle intro: no_click_trans)

lemma no_click_release_cycle: "release_cycle_inputs w = (r, w1) \<Longrightarrow> no_click w w1"
  unfolding release_cycle_inputs_def
  by (auto split: prod.splits dest!: no_click_up no_click_settle intro: no_click_trans)

lemma no_click_abandon: "abandon_cycle w = (r, w1) \<Longrightarrow> no_click w w1"
  by (auto simp: abandon_cycle_def worker_bind_def split: prod.splits sum.splits dest: no_click_release_spam)

lemma no_click_reconcile:
  assumes "reconcile_spam_modifier mo w = (Inr x, w1)"
  shows "no_click w w1"
  using reconcile_trace [of mo w w1] assms by (auto simp: no_click_def modifier_acts_def split: option.splits)

text \<open>A cycle step by step, up to the press of its key.\<close>

lemma spam_cycle_cases:
  assumes "worker_spam_cycle key mo timing requested w = (Inr b, w1)"
  obtains (before) w2 where "no_click w w2" "abandon_cycle w2 = (Inr b, w1)"
  | (pressed) w5 where "wk_trace w5 = wk_trace w @ up_acts (wk_spam w) @
        (if ss_held_key (wk_spam w) = None then [] else [SleepAct (ct_key_rearm_settle timing)]) @
        modifier_acts (ss_held_modifier (wk_spam w)) mo @ [KeyAct key 1 True, SleepAct (ct_key_to_click_settle timing)]"
      "abandon_cycle w5 = (Inr b, w1) \<or> click timing w5 = (Inr b, w1)"
proof -
  obtain r1 u1 where c1: "release_cycle_inputs w = (r1, u1)" by fastforce
  with assms obtain rearm where r1: "r1 = Inr rearm" by (cases r1) (auto simp: worker_spam_cycle_def worker_bind_def)
  note t1 = release_cycle_trace [OF c1 [unfolded r1]]
  define u2 where "u2 = (if rearm then dev_sleep (ct_key_rearm_settle timing) u1 else u1)"
  have n2: "no_click w u2" using no_click_release_cycle [OF c1] no_click_dev(5) by (auto simp: u2_def intro: no_click_trans)
  show thesis
  proof (cases "requested 1")
    case True
    then have "abandon_cycle u2 = (Inr b, w1)" using assms c1 r1 by (simp add: worker_spam_cycle_def worker_bind_def u2_def Let_def)
    with n2 show thesis by (rule before)
  next
    case no1: False
    obtain r3 u3 where c3: "reconcile_spam_modifier mo u2 = (r3, u3)" by fastforce
    with assms c1 r1 no1 have r3: "r3 = Inr ()"
      by (cases r3) (simp_all add: worker_spam_cycle_def worker_bind_def u2_def Let_def)
    note t3 = reconcile_trace [OF c3 [unfolded r3]]
    show thesis
    proof (cases "requested 2")
      case True
      then have "abandon_cycle u3 = (Inr b, w1)"
        using assms c1 r1 no1 c3 r3 by (simp add: worker_spam_cycle_def worker_bind_def u2_def Let_def)
      moreover have "no_click w u3" using n2 no_click_reconcile c3 r3 by (blast intro: no_click_trans)
      ultimately show thesis by (blast intro: before)
    next
      case no2: False
      obtain ok u4 where c4: "dev_key key 1 (set_spam (\<lambda>s. s\<lparr>ss_held_key := Some key\<rparr>) u3) = (ok, u4)" by fastforce
      with assms c1 r1 no1 c3 r3 no2 have ok: ok
        by (cases ok) (simp_all add: worker_spam_cycle_def worker_bind_def u2_def Let_def)
      define u5 where "u5 = dev_sleep (ct_key_to_click_settle timing) u4"
      have "abandon_cycle u5 = (Inr b, w1) \<or> click timing u5 = (Inr b, w1)"
        using assms c1 r1 no1 c3 r3 no2 c4 ok
        by (cases "requested 3") (simp_all add: worker_spam_cycle_def worker_bind_def u2_def u5_def Let_def)
      moreover have "wk_trace u5 = wk_trace u3 @ [KeyAct key 1 True, SleepAct (ct_key_to_click_settle timing)]"
        using dev_keyD(3) [OF c4] ok by (simp add: u5_def dev_sleep_def)
      moreover have "wk_trace u2 = wk_trace w @ up_acts (wk_spam w) @
          (if ss_held_key (wk_spam w) = None then [] else [SleepAct (ct_key_rearm_settle timing)])"
        using t1 by (auto simp: u2_def dev_sleep_def)
      moreover have "ss_held_modifier (wk_spam u2) = ss_held_modifier (wk_spam w)" using t1(2) by (simp add: u2_def)
      ultimately show thesis using t3 by (intro pressed [of u5]) simp_all
    qed
  qed
qed

lemma abandon_not_completed: "abandon_cycle w \<noteq> (Inr True, w1)"
  by (auto simp: abandon_cycle_def worker_bind_def split: prod.splits sum.splits)

lemma click_not_cancelled: "click timing w \<noteq> (Inr False, w1)"
  by (auto simp: click_def split: prod.splits bool.splits)

section \<open>Percentiles\<close>

lemma percentile_index: "vs \<noteq> [] \<Longrightarrow> p \<le> 100 \<Longrightarrow> ((length vs - 1) * p + 99) div 100 < length vs"
proof -
  assume "vs \<noteq> []" "p \<le> 100"
  then have "(length vs - 1) * p \<le> (length vs - 1) * 100" by simp
  then have "((length vs - 1) * p + 99) div 100 \<le> ((length vs - 1) * 100 + 99) div 100" by (intro div_le_mono) simp
  also have "\<dots> = length vs - 1" by simp
  finally show ?thesis using \<open>vs \<noteq> []\<close> by (cases vs) simp_all
qed

lemma sorted_count_le: "sorted xs \<Longrightarrow> i < length xs \<Longrightarrow> Suc i \<le> length (filter (\<lambda>x. x \<le> xs ! i) xs)"
proof -
  assume s: "sorted xs" "i < length xs"
  have "xs = take (Suc i) xs @ drop (Suc i) xs" by simp
  then have "length (filter (\<lambda>x. x \<le> xs ! i) xs) \<ge> length (filter (\<lambda>x. x \<le> xs ! i) (take (Suc i) xs))"
    by (metis filter_append le_add1 length_append)
  moreover have "filter (\<lambda>x. x \<le> xs ! i) (take (Suc i) xs) = take (Suc i) xs"
    using s by (intro filter_True) (auto simp: in_set_conv_nth sorted_iff_nth_mono)
  ultimately show ?thesis using s(2) by simp
qed

lemma sorted_count_less: "sorted xs \<Longrightarrow> i < length xs \<Longrightarrow> length (filter (\<lambda>x. x < xs ! i) xs) \<le> i"
proof -
  assume s: "sorted xs" "i < length xs"
  have "filter (\<lambda>x. x < xs ! i) (drop i xs) = []"
    using s by (auto simp: filter_empty_conv in_set_conv_nth not_less sorted_iff_nth_mono)
  then have "filter (\<lambda>x. x < xs ! i) xs = filter (\<lambda>x. x < xs ! i) (take i xs)"
    by (metis append_Nil2 append_take_drop_id filter_append)
  then show ?thesis using length_filter_le [of "\<lambda>x. x < xs ! i" "take i xs"] s(2) by simp
qed

lemma filter_sort_length: "length (filter P (sort xs)) = length (filter P xs)"
  by (metis mset_filter mset_sort size_mset)

end
