(* ===== verification/UinputQueues.thy ===== *)
theory UinputQueues
  imports UinputWorker "HOL-Library.Multiset"
begin

text \<open>
  The worker of the combat device and its writers as one system: a writer takes a sequence number, sends its command to one of the two
  bounded queues or gives up, and may raise the generation that cancels spam cycles at any time, also while a command is executed.  The
  worker takes its next command in two looks at the queues, executes it and answers.
\<close>

section \<open>Writers\<close>

definition submit_deadline :: "command_kind \<Rightarrow> nat option \<Rightarrow> nat \<Rightarrow> nat \<Rightarrow> nat option" where
  "submit_deadline kind absolute enqueued budget =
     (if is_spam_cycle kind then (case absolute of Some d \<Rightarrow> Some d | None \<Rightarrow> Some (enqueued + budget)) else None)"

definition make_command ::
  "input_source \<Rightarrow> command_kind \<Rightarrow> nat \<Rightarrow> nat \<Rightarrow> nat option \<Rightarrow> nat \<Rightarrow> nat option \<Rightarrow> cycle_timing \<Rightarrow> worker_command" where
  "make_command src kind enqueued sequence absolute budget observed timing =
     \<lparr>wc_source = src, wc_kind = kind, wc_enqueued = enqueued, wc_sequence = sequence,
      wc_deadline = submit_deadline kind absolute enqueued budget, wc_observed = observed, wc_timing = timing\<rparr>"

definition to_high :: "worker_command \<Rightarrow> bool" where
  "to_high c \<longleftrightarrow> high_priority (wc_source c) \<or> wc_kind c = DoReleaseSpam"

text \<open>What the writer makes of the answer; \<open>None\<close>: it did not arrive in time.\<close>

definition submit_result :: "command_outcome option \<Rightarrow> (worker_error option, bool) result" where
  "submit_result a = (case a of Some Completed \<Rightarrow> Inr True | Some Overrun \<Rightarrow> Inr False | Some (Failed e) \<Rightarrow> Inl (Some e) | None \<Rightarrow> Inl None)"

section \<open>The system\<close>

datatype worker_phase = AtTop | AtHigh | AtSelect | Executing worker_command | Stopped

text \<open>\<open>iq_bumped\<close>: calls of \<open>release_spam\<close> that have raised the generation and not yet taken a number.  \<open>iq_handle\<close>: the handle with the
  sender of the shutdown channel exists.\<close>

record input_system =
  iq_high :: "worker_command list"
  iq_normal :: "worker_command list"
  iq_pending :: "worker_command list"
  iq_bumped :: nat
  iq_next :: nat
  iq_generation :: nat
  iq_metrics :: metrics
  iq_phase :: worker_phase
  iq_worker :: worker
  iq_shutdown :: bool
  iq_handle :: bool
  iq_answers :: "(worker_command \<times> command_outcome) list"

definition worker_new :: "((key_code \<times> int) list \<Rightarrow> (key_code \<times> int) \<Rightarrow> bool) \<Rightarrow> (key_code set \<Rightarrow> key_code list) \<Rightarrow> worker" where
  "worker_new accepts order = \<lparr>wk_device = combat_create accepts, wk_order = order, wk_trace = [], wk_spam = spam_default\<rparr>"

definition input_new :: "worker \<Rightarrow> input_system" where
  "input_new w = \<lparr>iq_high = [], iq_normal = [], iq_pending = [], iq_bumped = 0, iq_next = 1, iq_generation = 1,
     iq_metrics = (\<lambda>_. None), iq_phase = AtTop, iq_worker = w, iq_shutdown = False, iq_handle = True, iq_answers = []\<rparr>"

definition queue_of :: "worker_command \<Rightarrow> input_system \<Rightarrow> worker_command list" where
  "queue_of c s = (if to_high c then iq_high s else iq_normal s)"

definition capacity_of :: "worker_command \<Rightarrow> nat" where
  "capacity_of c = (if to_high c then HIGH_QUEUE_CAPACITY else NORMAL_QUEUE_CAPACITY)"

definition enqueue :: "worker_command \<Rightarrow> input_system \<Rightarrow> input_system" where
  "enqueue c s = (if to_high c then s\<lparr>iq_high := iq_high s @ [c]\<rparr> else s\<lparr>iq_normal := iq_normal s @ [c]\<rparr>)"

definition stop_worker :: "input_system \<Rightarrow> input_system" where
  "stop_worker s = s\<lparr>iq_phase := Stopped, iq_worker := worker_exit (iq_worker s)\<rparr>"

text \<open>One look of the worker at its channels; \<open>None\<close>: it waits.\<close>

definition worker_looks :: "input_system \<Rightarrow> input_system option" where
  "worker_looks s =
     (case iq_phase s of
        AtTop \<Rightarrow> Some (if iq_shutdown s then stop_worker s else s\<lparr>iq_phase := AtHigh\<rparr>)
      | AtHigh \<Rightarrow>
          Some (case iq_high s of c # cs \<Rightarrow> s\<lparr>iq_phase := Executing c, iq_high := cs\<rparr> | [] \<Rightarrow> s\<lparr>iq_phase := AtSelect\<rparr>)
      | AtSelect \<Rightarrow>
          if iq_shutdown s \<or> \<not> iq_handle s then Some (stop_worker s)
          else (case iq_high s of
                  c # cs \<Rightarrow> Some (s\<lparr>iq_phase := Executing c, iq_high := cs\<rparr>)
                | [] \<Rightarrow> (case iq_normal s of c # cs \<Rightarrow> Some (s\<lparr>iq_phase := Executing c, iq_normal := cs\<rparr>) | [] \<Rightarrow> None))
      | _ \<Rightarrow> None)"

definition worker_executes :: "worker_command \<Rightarrow> nat \<Rightarrow> nat \<Rightarrow> (nat \<Rightarrow> nat) \<Rightarrow> input_system \<Rightarrow> input_system" where
  "worker_executes c started completed readings s =
     (case execute_command c started completed readings (iq_worker s) (iq_metrics s) of
        (out, w, m) \<Rightarrow> s\<lparr>iq_worker := w, iq_metrics := m, iq_phase := AtTop, iq_answers := iq_answers s @ [(c, out)]\<rparr>)"

definition raised :: "nat \<Rightarrow> input_system \<Rightarrow> input_system" where
  "raised n s = s\<lparr>iq_generation := iq_generation s + n, iq_bumped := iq_bumped s + n\<rparr>"

inductive input_step :: "input_system \<Rightarrow> input_system \<Rightarrow> bool" where
  raises: "input_step s (raised 1 s)"
| prepares: "kind \<noteq> DoReleaseSpam \<Longrightarrow> (case observed of None \<Rightarrow> \<not> is_spam_cycle kind | Some g \<Rightarrow> is_spam_cycle kind \<and> g \<le> iq_generation s)
    \<Longrightarrow> c = make_command src kind enqueued (iq_next s) absolute budget observed timing
    \<Longrightarrow> input_step s (s\<lparr>iq_next := iq_next s + 1, iq_pending := c # iq_pending s\<rparr>)"
| prepares_release: "0 < iq_bumped s \<Longrightarrow> c = make_command src DoReleaseSpam enqueued (iq_next s) None budget None timing
    \<Longrightarrow> input_step s (s\<lparr>iq_next := iq_next s + 1, iq_bumped := iq_bumped s - 1, iq_pending := c # iq_pending s\<rparr>)"
| sends: "c \<in> set (iq_pending s) \<Longrightarrow> iq_phase s \<noteq> Stopped \<Longrightarrow> length (queue_of c s) < capacity_of c
    \<Longrightarrow> input_step s (enqueue c (s\<lparr>iq_pending := remove1 c (iq_pending s)\<rparr>))"
| gives_up: "c \<in> set (iq_pending s) \<Longrightarrow> length (queue_of c s) = capacity_of c
    \<Longrightarrow> input_step s (s\<lparr>iq_pending := remove1 c (iq_pending s),
          iq_metrics := recorded (wc_source c) (\<lambda>x. x\<lparr>sm_dropped := sm_dropped x + 1\<rparr>) (iq_metrics s)\<rparr>)"
| disconnected: "c \<in> set (iq_pending s) \<Longrightarrow> iq_phase s = Stopped
    \<Longrightarrow> input_step s (s\<lparr>iq_pending := remove1 c (iq_pending s),
          iq_metrics := recorded (wc_source c) (\<lambda>x. x\<lparr>sm_errors := sm_errors x + 1\<rparr>) (iq_metrics s)\<rparr>)"
| takes_metrics: "input_step s (s\<lparr>iq_metrics := (iq_metrics s)(src := map_option (\<lambda>x. snd (snapshot_and_reset x)) (iq_metrics s src))\<rparr>)"
| shuts_down: "input_step s (s\<lparr>iq_shutdown := True\<rparr>)"
| loses_handle: "input_step s (s\<lparr>iq_handle := False\<rparr>)"
| looks: "worker_looks s = Some t \<Longrightarrow> input_step s t"
| executes: "iq_phase s = Executing c \<Longrightarrow> mono readings \<Longrightarrow> iq_generation s \<le> readings 0 \<Longrightarrow> readings 3 \<le> iq_generation s + n
    \<Longrightarrow> input_step s (raised n (worker_executes c started completed readings s))"

section \<open>Commands and queues\<close>

definition executing :: "worker_phase \<Rightarrow> worker_command list" where
  "executing p = (case p of Executing c \<Rightarrow> [c] | _ \<Rightarrow> [])"

definition all_commands :: "input_system \<Rightarrow> worker_command multiset" where
  "all_commands s = mset (iq_pending s) + mset (iq_high s) + mset (iq_normal s) + mset (executing (iq_phase s)) + mset (map fst (iq_answers s))"

definition queues_inv :: "input_system \<Rightarrow> bool" where
  "queues_inv s \<longleftrightarrow> (\<forall>c \<in># all_commands s. wc_sequence c < iq_next s) \<and>
     (\<forall>n. size {#c \<in># all_commands s. wc_sequence c = n#} \<le> 1) \<and>
     length (iq_high s) \<le> HIGH_QUEUE_CAPACITY \<and> length (iq_normal s) \<le> NORMAL_QUEUE_CAPACITY"

lemma filter_mset_none: "filter_mset P A = {#} \<longleftrightarrow> (\<forall>x \<in># A. \<not> P x)"
  by (induction A) auto

lemma queues_inv_fewer:
  assumes "queues_inv s" "all_commands t \<subseteq># all_commands s" "iq_next t = iq_next s"
    "length (iq_high t) \<le> HIGH_QUEUE_CAPACITY" "length (iq_normal t) \<le> NORMAL_QUEUE_CAPACITY"
  shows "queues_inv t"
proof -
  have "size {#c \<in># all_commands t. wc_sequence c = n#} \<le> size {#c \<in># all_commands s. wc_sequence c = n#}" for n
    using assms(2) by (intro size_mset_mono multiset_filter_mono)
  then have "size {#c \<in># all_commands t. wc_sequence c = n#} \<le> 1" for n
    using assms(1) unfolding queues_inv_def by (meson order_trans)
  moreover have "\<forall>c \<in># all_commands t. wc_sequence c < iq_next t"
    using assms(1,3) mset_subset_eqD [OF assms(2)] unfolding queues_inv_def by simp
  ultimately show ?thesis using assms(4,5) unfolding queues_inv_def by blast
qed

lemma queues_inv_new:
  assumes "queues_inv s" "all_commands t = add_mset c (all_commands s)" "wc_sequence c = iq_next s" "iq_next t = iq_next s + 1"
    "iq_high t = iq_high s" "iq_normal t = iq_normal s"
  shows "queues_inv t"
proof -
  have "size {#d \<in># all_commands t. wc_sequence d = n#} \<le> 1" for n
  proof (cases "n = iq_next s")
    case True
    have "{#d \<in># all_commands s. wc_sequence d = n#} = {#}"
      using assms(1) True by (auto simp: queues_inv_def filter_mset_none)
    with assms(2,3) True show ?thesis by simp
  next
    case False
    with assms(1-3) show ?thesis by (simp add: queues_inv_def)
  qed
  then show ?thesis using assms by (auto simp: queues_inv_def less_Suc_eq)
qed

lemma enqueue_simps [simp]:
  "iq_pending (enqueue c s) = iq_pending s" "iq_next (enqueue c s) = iq_next s" "iq_phase (enqueue c s) = iq_phase s"
  "iq_answers (enqueue c s) = iq_answers s" "iq_worker (enqueue c s) = iq_worker s" "iq_generation (enqueue c s) = iq_generation s"
  by (simp_all add: enqueue_def)

lemma all_commands_enqueue: "all_commands (enqueue c s) = add_mset c (all_commands s)"
  by (simp add: all_commands_def enqueue_def)

lemma all_commands_sends:
  "c \<in> set (iq_pending s) \<Longrightarrow> all_commands (enqueue c (s\<lparr>iq_pending := remove1 c (iq_pending s)\<rparr>)) = all_commands s"
  by (simp add: all_commands_enqueue) (simp add: all_commands_def)

lemma worker_executes_simps [simp]:
  "iq_pending (worker_executes c a b r s) = iq_pending s" "iq_next (worker_executes c a b r s) = iq_next s"
  "iq_high (worker_executes c a b r s) = iq_high s" "iq_normal (worker_executes c a b r s) = iq_normal s"
  "iq_phase (worker_executes c a b r s) = AtTop" "iq_generation (worker_executes c a b r s) = iq_generation s"
  "iq_bumped (worker_executes c a b r s) = iq_bumped s"
  by (simp_all add: worker_executes_def split: prod.splits)

lemma raised_simps [simp]:
  "iq_pending (raised n s) = iq_pending s" "iq_next (raised n s) = iq_next s" "iq_high (raised n s) = iq_high s"
  "iq_normal (raised n s) = iq_normal s" "iq_phase (raised n s) = iq_phase s" "iq_answers (raised n s) = iq_answers s"
  "iq_worker (raised n s) = iq_worker s" "iq_generation (raised n s) = iq_generation s + n"
  by (simp_all add: raised_def)

lemma all_commands_executes:
  "iq_phase s = Executing c \<Longrightarrow> all_commands (raised n (worker_executes c a b r s)) = all_commands s"
  by (simp add: all_commands_def worker_executes_def executing_def raised_def split: prod.splits)

lemma worker_looks_cases:
  assumes "worker_looks s = Some t"
  obtains (stops) "t = stop_worker s" "iq_phase s = AtTop \<or> iq_phase s = AtSelect"
  | (moves) "iq_phase s = AtTop" "t = s\<lparr>iq_phase := AtHigh\<rparr>"
  | (waits) "iq_phase s = AtHigh" "iq_high s = []" "t = s\<lparr>iq_phase := AtSelect\<rparr>"
  | (high) c cs where "iq_phase s = AtHigh \<or> iq_phase s = AtSelect" "iq_high s = c # cs"
      "t = s\<lparr>iq_phase := Executing c, iq_high := cs\<rparr>"
  | (normal) c cs where "iq_phase s = AtSelect" "iq_high s = []" "iq_normal s = c # cs"
      "t = s\<lparr>iq_phase := Executing c, iq_normal := cs\<rparr>"
proof (cases "iq_phase s")
  case AtTop
  with assms that(1,2) show ?thesis by (cases "iq_shutdown s") (simp_all add: worker_looks_def)
next
  case AtHigh
  with assms that(3,4) show ?thesis by (cases "iq_high s") (simp_all add: worker_looks_def)
next
  case AtSelect
  show ?thesis
  proof (cases "iq_shutdown s \<or> \<not> iq_handle s")
    case True
    with assms AtSelect that(1) show ?thesis by (simp add: worker_looks_def)
  next
    case False
    with assms AtSelect that(4,5) show ?thesis
      by (cases "iq_high s"; cases "iq_normal s") (simp_all add: worker_looks_def)
  qed
next
  case (Executing c)
  with assms show ?thesis by (simp add: worker_looks_def)
next
  case Stopped
  with assms show ?thesis by (simp add: worker_looks_def)
qed

lemma stop_worker_simps [simp]:
  "iq_pending (stop_worker s) = iq_pending s" "iq_next (stop_worker s) = iq_next s" "iq_high (stop_worker s) = iq_high s"
  "iq_normal (stop_worker s) = iq_normal s" "iq_phase (stop_worker s) = Stopped" "iq_answers (stop_worker s) = iq_answers s"
  "iq_worker (stop_worker s) = worker_exit (iq_worker s)" "iq_generation (stop_worker s) = iq_generation s"
  by (simp_all add: stop_worker_def)

lemma executing_simps [simp]: "executing (Executing c) = [c]" "executing AtTop = []" "executing AtHigh = []" "executing AtSelect = []"
    "executing Stopped = []"
  by (simp_all add: executing_def)

lemma all_commands_looks:
  assumes "worker_looks s = Some t"
  shows "all_commands t = all_commands s \<and> iq_next t = iq_next s \<and>
    length (iq_high t) \<le> length (iq_high s) \<and> length (iq_normal t) \<le> length (iq_normal s)"
  using assms
proof (cases rule: worker_looks_cases)
  case stops
  then show ?thesis by (auto simp: all_commands_def)
next
  case (high c cs)
  then show ?thesis by (auto simp: all_commands_def)
qed (simp_all add: all_commands_def)

lemma queues_inv_lengths: "queues_inv s \<Longrightarrow> length (iq_high s) \<le> HIGH_QUEUE_CAPACITY \<and> length (iq_normal s) \<le> NORMAL_QUEUE_CAPACITY"
  by (simp add: queues_inv_def)

lemma queues_inv_step: "input_step s t \<Longrightarrow> queues_inv s \<Longrightarrow> queues_inv t"
proof (induction rule: input_step.induct)
  case (prepares kind observed s c src enqueued absolute budget timing)
  show ?case by (rule queues_inv_new [OF prepares(4), of _ c]) (simp_all add: prepares(3) all_commands_def make_command_def)
next
  case (prepares_release s c src enqueued budget timing)
  show ?case by (rule queues_inv_new [OF prepares_release(3), of _ c]) (simp_all add: prepares_release(2) all_commands_def make_command_def)
next
  case (sends c s)
  note all_commands_sends [OF sends(1)]
  moreover have "length (iq_high (enqueue c (s\<lparr>iq_pending := remove1 c (iq_pending s)\<rparr>))) \<le> HIGH_QUEUE_CAPACITY"
    "length (iq_normal (enqueue c (s\<lparr>iq_pending := remove1 c (iq_pending s)\<rparr>))) \<le> NORMAL_QUEUE_CAPACITY"
    using sends(3,4) by (auto simp: enqueue_def queues_inv_def queue_of_def capacity_of_def)
  ultimately show ?case using queues_inv_fewer [OF sends(4)] by simp
next
  case (gives_up c s)
  show ?case by (rule queues_inv_fewer [OF gives_up(3)]) (use queues_inv_lengths [OF gives_up(3)] in \<open>simp_all add: all_commands_def\<close>)
next
  case (disconnected c s)
  show ?case
    by (rule queues_inv_fewer [OF disconnected(3)]) (use queues_inv_lengths [OF disconnected(3)] in \<open>simp_all add: all_commands_def\<close>)
next
  case (looks s t)
  show ?case
    by (rule queues_inv_fewer [OF looks(2)])
      (use all_commands_looks [OF looks(1)] queues_inv_lengths [OF looks(2)] in \<open>simp_all add: order_trans\<close>)
next
  case (executes s c readings n a b)
  show ?case
    by (rule queues_inv_fewer [OF executes(5)])
      (use queues_inv_lengths [OF executes(5)] in \<open>simp_all add: all_commands_executes [OF executes(1)]\<close>)
qed (auto simp: queues_inv_def all_commands_def raised_def)

section \<open>What the worker has pressed\<close>

text \<open>The keys that the commands of other tools were about.\<close>

definition pressed_for_others :: "(worker_command \<times> command_outcome) list \<Rightarrow> key_code set" where
  "pressed_for_others answers = (\<Union>(c, out) \<in> set answers. foreign_codes (wc_kind c))"

text \<open>Since the last completed release no spam cycle went to its end or failed.\<close>

definition quiet_step :: "bool \<Rightarrow> worker_command \<times> command_outcome \<Rightarrow> bool" where
  "quiet_step q e = (case e of (c, out) \<Rightarrow>
     if wc_kind c = DoReleaseSpam \<and> out = Completed then True
     else if is_spam_cycle (wc_kind c) \<and> out \<noteq> Overrun then False else q)"

definition spam_quiet :: "(worker_command \<times> command_outcome) list \<Rightarrow> bool" where
  "spam_quiet answers = foldl quiet_step True answers"

lemma spam_quiet_simps [simp]: "spam_quiet []" "spam_quiet (xs @ [e]) = quiet_step (spam_quiet xs) e"
  by (simp_all add: spam_quiet_def)

definition device_inv :: "input_system \<Rightarrow> bool" where
  "device_inv s \<longleftrightarrow> worker_inv (pressed_for_others (iq_answers s)) (iq_worker s) \<and>
     (\<forall>(c, out) \<in> set (iq_answers s). wc_kind c = DoReleaseSpam \<longrightarrow>
        (\<exists>cutoff. ss_cancelled_through (wk_spam (iq_worker s)) = Some cutoff \<and> wc_sequence c \<le> cutoff)) \<and>
     (spam_quiet (iq_answers s) \<longrightarrow> idle_spam (wk_spam (iq_worker s)))"

lemma idle_release:
  assumes "idle_spam (wk_spam w)"
  shows "release_spam_inputs w = (Inr (), w)"
  using assms by (simp add: release_spam_inputs_def up_mouse_def up_key_def up_modifier_def settle_def idle_spam_def)

lemma idle_perform:
  assumes "perform_command c readings w = (r, w1)" "idle_spam (wk_spam w)" "\<not> is_spam_cycle (wc_kind c)" "worker_inv F w"
  shows "idle_spam (wk_spam w1)"
proof (cases "wc_kind c")
  case (DoPressKey key)
  then obtain y where "worker_press_key key w = (y, w1)" using assms(1) as_bool_cases by (fastforce simp: perform_command_def)
  from press_key_inv(2) [OF this worker_inv_mono [OF assms(4), of UNIV]] assms(2) show ?thesis by simp
next
  case DoReleaseSpam
  then have "as_bool (release_spam_inputs (set_spam (note_cutoff (wc_sequence c)) w)) = (r, w1)" using assms(1) by (simp add: perform_command_def)
  moreover have "idle_spam (wk_spam (set_spam (note_cutoff (wc_sequence c)) w))" using assms(2) by (simp add: idle_spam_def note_cutoff_def)
  ultimately show ?thesis by (auto simp: as_bool_def worker_bind_def idle_release)
next
  case (DoKeyEvent key v)
  then obtain y where y: "worker_key_event key v w = (y, w1)" using assms(1) as_bool_cases by (fastforce simp: perform_command_def)
  obtain ok w2 where d: "dev_key key v w = (ok, w2)" by fastforce
  have "wk_spam w1 = wk_spam w2 \<or> wk_spam w1 = (wk_spam w2)\<lparr>ss_held_key := None\<rparr>"
    using y unfolding worker_key_event_def d by (cases ok) (auto split: if_splits)
  then show ?thesis using dev_keyD(1) [OF d] assms(2) by (auto simp: idle_spam_def)
qed (use assms(3) in simp)

definition command_ok :: "worker_command \<Rightarrow> bool" where
  "command_ok c \<longleftrightarrow> (is_spam_cycle (wc_kind c) \<or> wc_deadline c = None)"

lemma release_runs: "command_ok c \<Longrightarrow> wc_kind c = DoReleaseSpam \<Longrightarrow> \<not> cancelled c readings w \<and> \<not> late c started"
  by (simp add: command_ok_def cancelled_def late_def)

definition cut_off :: "worker_command \<Rightarrow> worker \<Rightarrow> bool" where
  "cut_off c w \<longleftrightarrow> (\<exists>cutoff. ss_cancelled_through (wk_spam w) = Some cutoff \<and> wc_sequence c \<le> cutoff)"

lemma cut_off_after:
  "ss_cancelled_through (wk_spam w1) = cutoff_after d (ss_cancelled_through (wk_spam w)) \<Longrightarrow> cut_off c w \<or> (c = d \<and> wc_kind d = DoReleaseSpam)
     \<Longrightarrow> cut_off c w1"
  by (auto simp: cut_off_def cutoff_after_def split: option.splits if_splits)

lemma device_inv_executes:
  assumes "device_inv s" "execute_command c started completed readings (iq_worker s) m = (out, w1, m1)" "command_ok c"
    "iq_worker t = w1" "iq_answers t = iq_answers s @ [(c, out)]"
  shows "device_inv t"
proof -
  let ?w = "iq_worker s"
  let ?F = "pressed_for_others (iq_answers s @ [(c, out)])"
  have F: "?F = pressed_for_others (iq_answers s) \<union> foreign_codes (wc_kind c)" by (auto simp: pressed_for_others_def)
  have inv: "worker_inv ?F ?w" using assms(1) F by (auto simp: device_inv_def intro: worker_inv_mono)
  have old: "cut_off d ?w" if "(d, x) \<in> set (iq_answers s)" "wc_kind d = DoReleaseSpam" for d x
    using assms(1) that by (auto simp: device_inv_def cut_off_def)
  have quiet: "idle_spam (wk_spam ?w)" if "spam_quiet (iq_answers s)" using assms(1) that by (simp add: device_inv_def)
  from assms(2) have "worker_inv ?F w1 \<and> (\<forall>(d, x) \<in> set (iq_answers s @ [(c, out)]). wc_kind d = DoReleaseSpam \<longrightarrow> cut_off d w1) \<and>
      (quiet_step (spam_quiet (iq_answers s)) (c, out) \<longrightarrow> idle_spam (wk_spam w1))"
  proof (cases rule: execute_cases)
    case skipped
    then have "wc_kind c \<noteq> DoReleaseSpam" using release_runs [OF assms(3)] by blast
    then show ?thesis using skipped inv old quiet by (auto simp: quiet_step_def)
  next
    case (ran r)
    have "foreign_codes (wc_kind c) \<subseteq> ?F" by (simp add: F)
    note p = perform_command_inv [OF ran(1) inv this]
    have q: "idle_spam (wk_spam w1)" if "quiet_step (spam_quiet (iq_answers s)) (c, out)"
    proof (cases "wc_kind c = DoReleaseSpam \<and> out = Completed \<or> out = Overrun")
      case True
      then show ?thesis using p(3,4) ran(3,4) by blast
    next
      case False
      with that have "spam_quiet (iq_answers s)" "\<not> is_spam_cycle (wc_kind c)" by (auto simp: quiet_step_def split: if_splits)
      with idle_perform [OF ran(1) _ _ inv] quiet show ?thesis by blast
    qed
    show ?thesis using p(1) cut_off_after [OF p(2)] old q by auto
  qed
  then show ?thesis using assms(4,5) by (simp add: device_inv_def cut_off_def)
qed

lemma worker_inv_exit:
  assumes "worker_inv F w"
  shows "worker_inv F (worker_exit w)" "ss_cancelled_through (wk_spam (worker_exit w)) = ss_cancelled_through (wk_spam w)"
    "idle_spam (wk_spam w) \<Longrightarrow> idle_spam (wk_spam (worker_exit w))"
proof -
  obtain r w2 where u: "release_spam_inputs w = (r, w2)" by fastforce
  note i = release_spam_inputs_inv [OF u assms]
  have d: "worker_inv F (dev_release None True w2)" using i(1) by (rule worker_inv_release)
  have "worker_exit w = (dev_release None True w2)\<lparr>wk_device := combat_drop (wk_order w2) (wk_device (dev_release None True w2))\<rparr>"
    using u by (simp add: worker_exit_def Let_def dev_release_def acted_def)
  moreover have "worker_inv F ((dev_release None True w2)\<lparr>wk_device := combat_drop (wk_order w2) (wk_device (dev_release None True w2))\<rparr>)"
    using d combat_release_inv [of "wk_device (dev_release None True w2)" "wk_order w2" None True]
      combat_release_log [of "wk_order w2" "wk_device (dev_release None True w2)" None True]
    by (auto simp: worker_inv_def combat_drop_def down_def dev_release_def)
  ultimately show "worker_inv F (worker_exit w)" "ss_cancelled_through (wk_spam (worker_exit w)) = ss_cancelled_through (wk_spam w)"
    using i(3) by simp_all
  show "idle_spam (wk_spam w) \<Longrightarrow> idle_spam (wk_spam (worker_exit w))"
    using u idle_release [of w] \<open>worker_exit w = _\<close> by simp
qed

lemma device_inv_same:
  "device_inv s \<Longrightarrow> iq_worker t = iq_worker s \<Longrightarrow> iq_answers t = iq_answers s \<Longrightarrow> device_inv t"
  by (simp add: device_inv_def)

lemma device_inv_stops: "device_inv s \<Longrightarrow> device_inv (stop_worker s)"
  using worker_inv_exit [of "pressed_for_others (iq_answers s)" "iq_worker s"] by (auto simp: device_inv_def)

definition commands_ok :: "input_system \<Rightarrow> bool" where
  "commands_ok s \<longleftrightarrow> (\<forall>c \<in># all_commands s. command_ok c)"

lemma device_inv_step:
  assumes "input_step s t" "device_inv s" "commands_ok s"
  shows "device_inv t"
  using assms
proof (induction rule: input_step.induct)
  case (looks s t)
  from looks(1) show ?case
    by (cases rule: worker_looks_cases) (use looks(2) device_inv_stops in \<open>simp_all add: device_inv_same [OF looks(2)]\<close>)
next
  case (executes s c readings n a b)
  have "command_ok c" using executes(1,6) by (simp add: commands_ok_def all_commands_def)
  moreover obtain out w m where e: "execute_command c a b readings (iq_worker s) (iq_metrics s) = (out, w, m)" by (metis prod_cases3)
  ultimately show ?case
    by (intro device_inv_executes [OF executes(5) e]) (simp_all add: worker_executes_def)
next
  case (sends c s)
  show ?case by (rule device_inv_same [OF sends(4)]) simp_all
qed (simp_all add: device_inv_def)

lemma commands_ok_step: "input_step s t \<Longrightarrow> commands_ok s \<Longrightarrow> commands_ok t"
proof (induction rule: input_step.induct)
  case (prepares kind observed s c src enqueued absolute budget timing)
  then show ?case by (auto simp: commands_ok_def all_commands_def command_ok_def make_command_def submit_deadline_def)
next
  case (prepares_release s c src enqueued budget timing)
  then show ?case by (auto simp: commands_ok_def all_commands_def command_ok_def make_command_def submit_deadline_def)
next
  case (sends c s)
  then show ?case by (simp add: commands_ok_def all_commands_sends)
next
  case (gives_up c s)
  then show ?case by (auto simp: commands_ok_def all_commands_def dest: in_diffD)
next
  case (disconnected c s)
  then show ?case by (auto simp: commands_ok_def all_commands_def dest: in_diffD)
next
  case (looks s t)
  with all_commands_looks [OF looks(1)] show ?case by (simp add: commands_ok_def)
next
  case (executes s c readings n a b)
  with all_commands_executes [OF executes(1)] show ?case by (simp add: commands_ok_def)
qed (simp_all add: commands_ok_def all_commands_def)


lemma reachable_input:
  assumes "input_step\<^sup>*\<^sup>* (input_new (worker_new accepts order)) s" "iterates order"
  shows "queues_inv s \<and> device_inv s \<and> commands_ok s"
  using assms(1)
proof (induction rule: rtranclp_induct)
  case base
  have "worker_inv {} (worker_new accepts order)"
    using assms(2) combat_runs_inv [OF combat_runs.create, of accepts] by (simp add: worker_inv_def worker_new_def down_def combat_create_def)
  moreover have "idle_spam (wk_spam (worker_new accepts order))" by (simp add: worker_new_def spam_default_def idle_spam_def)
  ultimately show ?case
    by (simp add: input_new_def queues_inv_def device_inv_def commands_ok_def all_commands_def pressed_for_others_def)
next
  case (step s t)
  then show ?case using queues_inv_step device_inv_step commands_ok_step by blast
qed

lemma distinct_of_counts: "(\<And>n. size {#x \<in># mset xs. f x = n#} \<le> 1) \<Longrightarrow> distinct (map f xs)"
proof (induction xs)
  case (Cons x xs)
  have none: "{#y \<in># mset xs. f y = f x#} = {#}" using Cons.prems [of "f x"] by simp
  have "size {#y \<in># mset xs. f y = n#} \<le> 1" for n
  proof (cases "f x = n")
    case True
    show ?thesis by (simp only: none [unfolded True] size_empty le0)
  next
    case False
    with Cons.prems [of n] show ?thesis by simp
  qed
  then have "distinct (map f xs)" by (rule Cons.IH)
  with none show ?case by (auto simp: filter_mset_none)
qed simp

text \<open>What a device accepts does not change.\<close>

lemma device_accepts:
  "cu_accepts (snd (key_event d k v)) = cu_accepts d" "cu_accepts (snd (modifier_event d mo v)) = cu_accepts d"
  "cu_accepts (snd (mouse_left_event d v)) = cu_accepts d"
  by (auto simp: key_event_def modifier_event_def keycode_event_def mouse_left_event_def device_emit_def split: option.splits)

lemma release_codes_accepts: "cu_accepts (release_codes d codes) = cu_accepts d"
  by (induction d codes rule: release_codes.induct) (auto simp: device_emit_def)

lemma combat_release_accepts: "cu_accepts (combat_release order d k ml) = cu_accepts d"
  by (simp add: combat_release_def Let_def release_codes_accepts device_accepts split: option.split)

definition stopped_inv :: "input_system \<Rightarrow> bool" where
  "stopped_inv s \<longleftrightarrow> (iq_phase s = Stopped \<longrightarrow> (\<forall>log c. cu_accepts (wk_device (iq_worker s)) log (c, 0)) \<longrightarrow> down (iq_worker s) = {})"

lemma worker_exit_down:
  assumes "worker_inv F w" "\<And>log c. cu_accepts (wk_device (worker_exit w)) log (c, 0)"
  shows "down (worker_exit w) = {}"
proof -
  let ?w = "dev_release None True (snd (release_spam_inputs w))"
  obtain r w2 where u: "release_spam_inputs w = (r, w2)" by fastforce
  have inv: "worker_inv F ?w" using release_spam_inputs_inv(1) [OF u assms(1)] u by (simp add: worker_inv_release)
  have "worker_exit w = ?w\<lparr>wk_device := combat_drop (wk_order ?w) (wk_device ?w)\<rparr>" by (simp add: worker_exit_def Let_def)
  moreover from this have "\<And>log c. cu_accepts (wk_device ?w) log (c, 0)" using assms(2) by (simp add: combat_drop_def combat_release_accepts)
  ultimately show ?thesis using combat_drop_down inv by (simp add: down_def worker_inv_def)
qed

lemma stopped_inv_step: "input_step s t \<Longrightarrow> device_inv s \<Longrightarrow> stopped_inv s \<Longrightarrow> stopped_inv t"
proof (induction rule: input_step.induct)
  case (looks s t)
  from looks(1) show ?case
    by (cases rule: worker_looks_cases) (use looks(2) worker_exit_down in \<open>auto simp: stopped_inv_def device_inv_def\<close>)
next
  case (executes s c readings n a b)
  then show ?case by (simp add: stopped_inv_def)
qed (simp_all add: stopped_inv_def)

lemma stopped_reachable:
  assumes "input_step\<^sup>*\<^sup>* (input_new (worker_new accepts order)) s" "iterates order"
  shows "stopped_inv s"
  using assms(1)
proof (induction rule: rtranclp_induct)
  case base
  show ?case by (simp add: stopped_inv_def input_new_def)
next
  case (step s t)
  then show ?case using stopped_inv_step reachable_input [OF _ assms(2)] by blast
qed

section \<open>Releases are final\<close>

lemma answers_kept: "input_step s t \<Longrightarrow> set (iq_answers s) \<subseteq> set (iq_answers t) \<and> iq_generation s \<le> iq_generation t"
  by (induction rule: input_step.induct)
    (auto simp: worker_executes_def enqueue_def raised_def split: prod.splits elim!: worker_looks_cases)

lemma answers_kept_steps: "input_step\<^sup>*\<^sup>* s t \<Longrightarrow> set (iq_answers s) \<subseteq> set (iq_answers t) \<and> iq_generation s \<le> iq_generation t"
  by (induction rule: rtranclp_induct) (use answers_kept in \<open>fastforce+\<close>)

lemma cancelled_untouched:
  assumes "is_spam_cycle (wc_kind d)" "cut_off d w \<or> (\<exists>g. wc_observed d = Some g \<and> g < readings 0)"
  shows "\<exists>m1. execute_command d started completed readings w m = (Overrun, w, m1)"
  using assms by (auto simp: execute_command_def cancelled_def cut_off_def cancel_requested_def)

text \<open>C24: Once a release of the spammer was executed, a spam cycle that was numbered before it, or whose ticket is older than the generation of
  that moment, touches neither the device nor the worker any more, wherever it was queued and whatever else is going on.\<close>
theorem release_is_final:
  assumes "input_step\<^sup>*\<^sup>* (input_new (worker_new accepts order)) s" "iterates order"
    and "(c, out) \<in> set (iq_answers s)" "wc_kind c = DoReleaseSpam"
    and "input_step\<^sup>*\<^sup>* s t" "iq_phase t = Executing d" "is_spam_cycle (wc_kind d)"
    and "wc_sequence d \<le> wc_sequence c \<or> (\<exists>g. wc_observed d = Some g \<and> g < iq_generation s)"
    and "input_step t u"
  shows "iq_worker u = iq_worker t"
proof -
  have "input_step\<^sup>*\<^sup>* (input_new (worker_new accepts order)) t" using assms(1,5) by simp
  then have inv: "device_inv t" using reachable_input assms(2) by blast
  have ans: "(c, out) \<in> set (iq_answers t)" "iq_generation s \<le> iq_generation t" using answers_kept_steps [OF assms(5)] assms(3) by auto
  have stale: "cut_off d (iq_worker t) \<or> (\<exists>g. wc_observed d = Some g \<and> g < iq_generation t)"
    using inv ans assms(4,8) unfolding device_inv_def cut_off_def by fastforce
  show ?thesis using assms(9)
  proof (cases rule: input_step.cases)
    case (looks)
    then show ?thesis using assms(6) by (simp add: worker_looks_def)
  next
    case (executes c' readings n a b)
    have "c' = d" using executes(2) assms(6) by simp
    moreover have "cut_off d (iq_worker t) \<or> (\<exists>g. wc_observed d = Some g \<and> g < readings 0)" using stale executes(4) by fastforce
    ultimately obtain m1 where "execute_command c' a b readings (iq_worker t) (iq_metrics t) = (Overrun, iq_worker t, m1)"
      using cancelled_untouched [OF assms(7)] by metis
    then show ?thesis using executes(1) by (simp add: worker_executes_def)
  qed simp_all
qed

text \<open>C25: However events are refused by the device and however commands interleave, while no spam cycle has run since the last completed release
  every input that is still down is a key of another tool's command; in particular neither the button nor the modifier is down.\<close>
theorem released_spam_is_up:
  assumes "input_step\<^sup>*\<^sup>* (input_new (worker_new accepts order)) s" "iterates order" "spam_quiet (iq_answers s)"
  shows "down (iq_worker s) \<subseteq> pressed_for_others (iq_answers s) \<and> BTN_LEFT \<notin> down (iq_worker s) \<and> KEY_LEFTSHIFT \<notin> down (iq_worker s)"
proof -
  have "device_inv s" using reachable_input assms(1,2) by blast
  then have "down (iq_worker s) \<subseteq> pressed_for_others (iq_answers s)"
    using assms(3) idle_codes unfolding device_inv_def worker_inv_def by blast
  moreover have "BTN_LEFT \<notin> pressed_for_others (iq_answers s) \<and> KEY_LEFTSHIFT \<notin> pressed_for_others (iq_answers s)"
    by (auto simp: pressed_for_others_def foreign_codes_def dest: key_code_not_button key_code_not_shift split: command_kind.splits)
  ultimately show ?thesis by blast
qed

text \<open>No two commands have the same number, none is executed twice or lost from the queues, and the queues stay within their capacity.\<close>
theorem commands_run_once:
  assumes "input_step\<^sup>*\<^sup>* (input_new (worker_new accepts order)) s" "iterates order"
  shows "distinct (map wc_sequence (iq_pending s @ iq_high s @ iq_normal s @ executing (iq_phase s) @ map fst (iq_answers s))) \<and>
    length (iq_high s) \<le> 8 \<and> length (iq_normal s) \<le> 32"
proof -
  let ?all = "iq_pending s @ iq_high s @ iq_normal s @ executing (iq_phase s) @ map fst (iq_answers s)"
  have inv: "queues_inv s" using reachable_input assms by blast
  have "mset ?all = all_commands s" by (simp add: all_commands_def)
  then have "size {#c \<in># mset ?all. wc_sequence c = n#} \<le> 1" for n using inv unfolding queues_inv_def by metis
  then have "distinct (map wc_sequence ?all)" by (rule distinct_of_counts)
  then show ?thesis using queues_inv_lengths [OF inv] by (simp add: HIGH_QUEUE_CAPACITY_def NORMAL_QUEUE_CAPACITY_def)
qed

text \<open>When the worker has stopped, nothing is pressed on its device, whatever it was doing, provided the device takes releases.\<close>
theorem stopped_worker_leaves_nothing_down:
  assumes "input_step\<^sup>*\<^sup>* (input_new (worker_new accepts order)) s" "iterates order" "iq_phase s = Stopped"
    and "\<And>log c. cu_accepts (wk_device (iq_worker s)) log (c, 0)"
  shows "down (iq_worker s) = {}"
  using stopped_reachable [OF assms(1,2)] assms(3,4) by (simp add: stopped_inv_def)

text \<open>A spam cycle that runs to its end does precisely this: what was down goes up, the pause after a key that was down, the modifiers, the
  key down, the pause before the click, the button down and, after the hold, up.  A cycle that is cancelled presses no button.\<close>
theorem spam_cycle_trace:
  assumes "worker_spam_cycle key mo timing requested w = (Inr ended, w1)"
  shows "(ended \<longrightarrow> wk_trace w1 = wk_trace w @ cycle_acts key mo timing (wk_spam w)) \<and>
    (\<not> ended \<longrightarrow> (\<exists>acts. wk_trace w1 = wk_trace w @ acts \<and> (\<forall>ok. MouseAct 1 ok \<notin> set acts)))"
  using assms
proof (cases rule: spam_cycle_cases)
  case (before w2)
  then have "no_click w w1" using no_click_abandon by (blast intro: no_click_trans)
  then show ?thesis using before(2) abandon_not_completed by (cases ended) (auto simp: no_click_def)
next
  case (pressed w5)
  show ?thesis
  proof (cases ended)
    case True
    then have "click timing w5 = (Inr True, w1)" using pressed(2) abandon_not_completed by simp
    from click_trace [OF this] pressed(1) True show ?thesis by (simp add: cycle_acts_def)
  next
    case False
    then have "abandon_cycle w5 = (Inr False, w1)" using pressed(2) click_not_cancelled by simp
    then have "no_click w5 w1" by (rule no_click_abandon)
    moreover have "no_click w w5" unfolding no_click_def
      by (rule exI, rule conjI, rule pressed(1)) (auto simp: up_acts_def modifier_acts_def split: option.splits)
    ultimately have "no_click w w1" by (rule no_click_trans [rotated])
    with False show ?thesis by (simp add: no_click_def)
  qed
qed

text \<open>The \<open>p\<close>-th percentile of measured values is one of them; more than the \<open>p\<close>-th part of the steps between them lies at or below it, and no
  more than it strictly below.\<close>
theorem percentile_rank:
  assumes "vs \<noteq> []" "p \<le> 100"
  shows "percentile vs p \<in> set vs \<and>
    (length vs - 1) * p div 100 < length (filter (\<lambda>v. v \<le> percentile vs p) vs) \<and>
    length (filter (\<lambda>v. v < percentile vs p) vs) \<le> ((length vs - 1) * p + 99) div 100"
proof -
  let ?i = "((length vs - 1) * p + 99) div 100"
  have i: "?i < length (sort vs)" using percentile_index [OF assms] by simp
  have v: "percentile vs p = sort vs ! ?i" using assms(1) by (simp add: percentile_def)
  have "(length vs - 1) * p div 100 \<le> ?i" by (intro div_le_mono) simp
  also have "\<dots> < length (filter (\<lambda>v. v \<le> percentile vs p) vs)"
    using sorted_count_le [OF sorted_sort i] by (simp add: v filter_sort_length)
  finally have "(length vs - 1) * p div 100 < length (filter (\<lambda>v. v \<le> percentile vs p) vs)" .
  moreover have "length (filter (\<lambda>v. v < percentile vs p) vs) \<le> ?i"
    using sorted_count_less [OF sorted_sort i] by (simp add: v filter_sort_length)
  moreover have "percentile vs p \<in> set vs" using nth_mem [OF i] v by simp
  ultimately show ?thesis by blast
qed


section \<open>Witnesses\<close>

text \<open>A cycle takes number 1, a release number 2; the release is executed, then the cycle is sent and taken up.\<close>

definition example_input :: input_system where
  "example_input = input_new (worker_new (\<lambda>_ _. True) sorted_list_of_set)"

definition example_cycle :: worker_command where
  "example_cycle = make_command SpammerSource (DoSpamCycle ''F1'' None) 0 1 None 1000 (Some 1) stable_timing"

definition example_release :: worker_command where
  "example_release = make_command SpammerSource DoReleaseSpam 0 2 None 1000 None stable_timing"

definition example_taken :: input_system where
  "example_taken = example_input\<lparr>iq_next := 3, iq_generation := 2, iq_pending := [example_cycle], iq_phase := Executing example_release\<rparr>"

definition example_released :: input_system where
  "example_released = raised 0 (worker_executes example_release 0 0 (\<lambda>_. 2) example_taken)"

definition example_stale :: input_system where
  "example_stale = example_released\<lparr>iq_pending := [], iq_phase := Executing example_cycle\<rparr>"

lemma example_commands:
  "wc_kind example_cycle = DoSpamCycle ''F1'' None" "wc_sequence example_cycle = 1" "wc_kind example_release = DoReleaseSpam"
  "wc_sequence example_release = 2"
  by (simp_all add: example_cycle_def example_release_def make_command_def)

lemma example_iterates: "iterates sorted_list_of_set"
  by (simp add: iterates_def)

lemma example_input_reaches:
  "input_step\<^sup>*\<^sup>* example_input example_taken" "input_step example_taken example_released" "input_step\<^sup>*\<^sup>* example_released example_stale"
proof -
  note defs = example_input_def input_new_def example_cycle_def example_release_def make_command_def submit_deadline_def
  let ?a = "example_input\<lparr>iq_next := 2, iq_pending := [example_cycle]\<rparr>"
  let ?c = "example_input\<lparr>iq_next := 3, iq_generation := 2, iq_pending := [example_release, example_cycle]\<rparr>"
  let ?d = "example_input\<lparr>iq_next := 3, iq_generation := 2, iq_pending := [example_cycle], iq_high := [example_release]\<rparr>"
  have "input_step example_input ?a"
    using prepares [of "DoSpamCycle ''F1'' None" example_input "Some 1" example_cycle SpammerSource 0 None 1000 stable_timing]
    by (simp add: defs numeral_2_eq_2)
  moreover have "input_step ?a (raised 1 ?a)" by (rule raises)
  moreover have "input_step (raised 1 ?a) ?c"
    using prepares_release [of "raised 1 ?a" example_release SpammerSource 0 1000 stable_timing]
    by (simp add: defs raised_def numeral_2_eq_2 numeral_3_eq_3)
  moreover have "input_step ?c ?d"
    using sends [of example_release ?c]
    by (simp add: defs enqueue_def to_high_def queue_of_def capacity_of_def HIGH_QUEUE_CAPACITY_def)
  moreover have "input_step ?d (?d\<lparr>iq_phase := AtHigh\<rparr>)"
    by (rule looks) (simp add: worker_looks_def defs)
  moreover have "input_step (?d\<lparr>iq_phase := AtHigh\<rparr>) example_taken"
    by (rule looks) (simp add: worker_looks_def example_taken_def defs)
  ultimately show "input_step\<^sup>*\<^sup>* example_input example_taken" by (meson converse_rtranclp_into_rtranclp rtranclp.rtrancl_refl)
  show "input_step example_taken example_released"
    unfolding example_released_def by (rule executes) (simp_all add: example_taken_def mono_def)
  let ?e = "example_released\<lparr>iq_pending := [], iq_normal := [example_cycle]\<rparr>"
  have r: "iq_pending example_released = [example_cycle]" "iq_phase example_released = AtTop" "iq_normal example_released = []"
    "iq_high example_released = []" "\<not> iq_shutdown example_released" "iq_handle example_released"
    by (simp_all add: example_released_def example_taken_def example_input_def input_new_def)
      (simp_all add: raised_def worker_executes_def split: prod.splits)
  have "input_step example_released ?e"
    using sends [of example_cycle example_released] r
    by (simp add: enqueue_def to_high_def queue_of_def capacity_of_def NORMAL_QUEUE_CAPACITY_def high_priority_def example_cycle_def
        make_command_def)
  moreover have "input_step ?e (?e\<lparr>iq_phase := AtHigh\<rparr>)" by (rule looks) (simp add: worker_looks_def r)
  moreover have "input_step (?e\<lparr>iq_phase := AtHigh\<rparr>) (?e\<lparr>iq_phase := AtSelect\<rparr>)" by (rule looks) (simp add: worker_looks_def r)
  moreover have "input_step (?e\<lparr>iq_phase := AtSelect\<rparr>) example_stale"
    by (rule looks) (simp add: worker_looks_def r example_stale_def)
  ultimately show "input_step\<^sup>*\<^sup>* example_released example_stale" by (meson converse_rtranclp_into_rtranclp rtranclp.rtrancl_refl)
qed

lemma example_released_reachable:
  "input_step\<^sup>*\<^sup>* (input_new (worker_new (\<lambda>_ _. True) sorted_list_of_set)) example_released"
  using example_input_reaches(1,2) unfolding example_input_def by (rule rtranclp.rtrancl_into_rtrancl)

lemma example_answered: "iq_answers example_released = [(example_release, Completed)]"
proof -
  have "idle_spam (wk_spam (set_spam (note_cutoff 2) (worker_new (\<lambda>_ _. True) sorted_list_of_set)))"
    by (simp add: idle_spam_def note_cutoff_def worker_new_def spam_default_def)
  from idle_release [OF this] show ?thesis
    by (simp add: example_released_def raised_def worker_executes_def execute_command_def cancelled_def late_def perform_command_def as_bool_def
        worker_bind_def example_release_def make_command_def submit_deadline_def example_taken_def example_input_def input_new_def Let_def)
qed

theorem release_is_final_witness:
  "iq_worker (raised 0 (worker_executes example_cycle 0 0 (\<lambda>_. 2) example_stale)) = iq_worker example_stale"
proof (rule release_is_final [where d = example_cycle, OF example_released_reachable example_iterates _ _ example_input_reaches(3)])
  show "(example_release, Completed) \<in> set (iq_answers example_released)" by (simp add: example_answered)
  show "input_step example_stale (raised 0 (worker_executes example_cycle 0 0 (\<lambda>_. 2) example_stale))"
    by (rule executes)
      (simp_all add: mono_def example_stale_def example_released_def example_taken_def example_input_def input_new_def)
qed (simp_all add: example_commands example_stale_def)

theorem released_spam_is_up_witness:
  "down (iq_worker example_released) = {} \<and> iq_answers example_released \<noteq> []"
  using released_spam_is_up [OF example_released_reachable example_iterates]
  by (simp add: example_answered spam_quiet_def quiet_step_def pressed_for_others_def foreign_codes_def example_commands)

definition example_stopped :: input_system where
  "example_stopped = stop_worker (example_input\<lparr>iq_shutdown := True\<rparr>)"

end
