(* ===== verification/JsonStore.thy ===== *)
theory JsonStore
  imports CrashDisk Utf8
begin

text \<open>
  The JSON documents of the launcher (\<open>src-tauri/src/utils/json.rs\<close>): servers, settings, installations and receipts.  A
  document is a file of the data directory (the place \<open>AtRoot\<close>), with a backup beside it.  Writes go through a temporary file and a
  rename; a damaged document is copied aside and replaced by its backup.  Every change may fail or be the one at
  which the launcher is killed.  Every read may fail on its own: it happens at its own moment of the clock, so that a file that could
  not be read may be copied at the next moment.

  The decoding of JSON (serde) is an argument: the text as a value, the value as a document, a document as a value and as text.
  The metadata of an entry needs its directory: \<open>wd_unreadable\<close> of the empty name.
\<close>

section \<open>Documents\<close>

record ('v, 't) document =
  dc_parse :: "u8 list \<Rightarrow> 'v option"
  dc_decode :: "'v \<Rightarrow> 't option"
  dc_encode :: "'t \<Rightarrow> 'v option"
  dc_print :: "'t \<Rightarrow> u8 list option"
  dc_default :: 't
  dc_valid :: "'t \<Rightarrow> bool"

datatype json_error =
    CannotRead
  | InvalidJson
  | InvalidStructure
  | InvalidData
  | NotEncoded
  | IoFailed
  | BothUnusable json_error json_error

datatype load_status = Unchanged | Migrated | Recovered

type_synonym 'a json_run = "(json_error, 'a) run"

text \<open>The process id, the milliseconds since the epoch and the value taken from \<open>TEMP_FILE_SEQUENCE\<close>.\<close>

record stamp =
  sp_pid :: nat
  sp_millis :: nat
  sp_sequence :: nat

definition temp_path :: "stamp \<Rightarrow> string \<Rightarrow> string" where
  "temp_path st name = ''.'' @ name @ ''.tmp-'' @ show_nat (sp_pid st) @ ''-'' @ show_nat (sp_sequence st)"

definition backup_path :: "string \<Rightarrow> string" where
  "backup_path name = name @ ''.bak''"

definition quarantine_path :: "stamp \<Rightarrow> string \<Rightarrow> string" where
  "quarantine_path st name =
     name @ ''.corrupt-'' @ show_nat (sp_millis st) @ ''-'' @ show_nat (sp_pid st) @ ''-'' @ show_nat (sp_sequence st)"

section \<open>Reading\<close>

definition path_exists :: "string \<Rightarrow> 'a json_run \<Rightarrow> 'a json_run \<Rightarrow> 'a json_run" where
  "path_exists name yes no =
     chain (sense (\<lambda>w. entry AtRoot name (wd_disk w) \<noteq> None \<and> \<not> wd_unreadable w (wd_clock w) AtRoot ''''))
       (\<lambda>found. if found then yes else no)"

definition read_bytes :: "json_error \<Rightarrow> string \<Rightarrow> u8 list json_run" where
  "read_bytes e name =
     chain (sense (\<lambda>w. case entry AtRoot name (wd_disk w) of
                         Some (File bs) \<Rightarrow> if wd_unreadable w (wd_clock w) AtRoot name then None else Some bs
                       | _ \<Rightarrow> None))
       (\<lambda>r. case r of None \<Rightarrow> throw e | Some bs \<Rightarrow> ret bs)"

definition check_content :: "('v, 't) document \<Rightarrow> u8 list \<Rightarrow> (json_error, 't \<times> 'v \<times> 'v) result" where
  "check_content dc content =
     (if \<not> utf8_valid content then Inl CannotRead
      else case dc_parse dc content of
        None \<Rightarrow> Inl InvalidJson
      | Some original \<Rightarrow>
          (case dc_decode dc original of
             None \<Rightarrow> Inl InvalidStructure
           | Some x \<Rightarrow>
               if \<not> dc_valid dc x then Inl InvalidData
               else (case dc_encode dc x of
                       None \<Rightarrow> Inl NotEncoded
                     | Some canonical \<Rightarrow> Inr (x, original, canonical))))"

definition read_validated :: "('v, 't) document \<Rightarrow> string \<Rightarrow> ('t \<times> 'v \<times> 'v) json_run" where
  "read_validated dc name = chain (read_bytes CannotRead name) (\<lambda>content. from_result (check_content dc content))"

section \<open>Writing\<close>

definition write_and_sync :: "string \<Rightarrow> u8 list \<Rightarrow> unit json_run" where
  "write_and_sync name content =
     chain (atomic IoFailed (in_dir AtRoot (create_in name))) (\<lambda>_.
     chain (effect IoFailed (in_dir AtRoot (write_in name content)) (partly_written AtRoot name content)) (\<lambda>_.
     sync IoFailed))"

text \<open>\<open>fs::copy\<close> opens the source, then empties or creates the destination, which must be a regular file, then copies.\<close>

definition truncate_in :: "string \<Rightarrow> entries \<Rightarrow> bool \<times> entries" where
  "truncate_in name es =
     (case map_of es name of
        None \<Rightarrow> (True, es @ [(name, File [])])
      | Some (File _) \<Rightarrow> (True, replaced name (File []) es)
      | _ \<Rightarrow> (False, es))"

definition copy_and_sync :: "string \<Rightarrow> string \<Rightarrow> unit json_run" where
  "copy_and_sync src dst =
     chain (read_bytes IoFailed src) (\<lambda>content.
     chain (atomic IoFailed (in_dir AtRoot (truncate_in dst))) (\<lambda>_.
     chain (effect IoFailed (in_dir AtRoot (write_in dst content)) (partly_written AtRoot dst content)) (\<lambda>_.
     sync IoFailed)))"

definition commit_json :: "bool \<Rightarrow> string \<Rightarrow> string \<Rightarrow> u8 list \<Rightarrow> unit json_run" where
  "commit_json rotate_backup temporary name json =
     chain (write_and_sync temporary json) (\<lambda>_.
     chain (if rotate_backup then path_exists name (copy_and_sync name (backup_path name)) (ret ()) else ret ()) (\<lambda>_.
     chain (atomic IoFailed (in_dir AtRoot (rename_over temporary name))) (\<lambda>_.
     sync IoFailed)))"

definition write_json_internal :: "('v, 't) document \<Rightarrow> bool \<Rightarrow> stamp \<Rightarrow> string \<Rightarrow> 't \<Rightarrow> unit json_run" where
  "write_json_internal dc rotate_backup st name x =
     chain (atomic IoFailed (ensure_dir AtRoot)) (\<lambda>_.
     case dc_print dc x of
       None \<Rightarrow> throw NotEncoded
     | Some json \<Rightarrow>
         chain (attempt (commit_json rotate_backup (temp_path st name) name json)) (\<lambda>r.
         case r of
           Inr _ \<Rightarrow> ret ()
         | Inl e \<Rightarrow>
             chain (attempt (atomic IoFailed (in_dir AtRoot (unlink_in (temp_path st name)))) :: (json_error, unit) result json_run) (\<lambda>_.
             throw e)))"

definition write_json :: "('v, 't) document \<Rightarrow> stamp \<Rightarrow> string \<Rightarrow> 't \<Rightarrow> unit json_run" where
  "write_json dc = write_json_internal dc True"

definition replace_json :: "('v, 't) document \<Rightarrow> stamp \<Rightarrow> string \<Rightarrow> 't \<Rightarrow> unit json_run" where
  "replace_json dc = write_json_internal dc False"

section \<open>Loading\<close>

text \<open>\<open>st\<close> is the stamp of the first name a load makes, \<open>st'\<close> that of the second.\<close>

definition preserve_corrupt_file :: "stamp \<Rightarrow> string \<Rightarrow> unit json_run" where
  "preserve_corrupt_file st name = copy_and_sync name (quarantine_path st name)"

definition recover_from_backup :: "('v, 't) document \<Rightarrow> stamp \<Rightarrow> stamp \<Rightarrow> string \<Rightarrow> json_error \<Rightarrow> ('t \<times> load_status) json_run" where
  "recover_from_backup dc st st' name primary =
     chain (attempt (read_validated dc (backup_path name))) (\<lambda>r.
     case r of
       Inl e \<Rightarrow> throw (BothUnusable primary e)
     | Inr (x, _, _) \<Rightarrow>
         chain (preserve_corrupt_file st name) (\<lambda>_.
         chain (replace_json dc st' name x) (\<lambda>_.
         ret (x, Recovered))))"

definition load_json_recovering :: "('v, 't) document \<Rightarrow> stamp \<Rightarrow> stamp \<Rightarrow> string \<Rightarrow> ('t \<times> load_status) json_run" where
  "load_json_recovering dc st st' name =
     path_exists name
       (chain (attempt (read_validated dc name)) (\<lambda>r.
        case r of
          Inr (x, original, canonical) \<Rightarrow>
            if original = canonical then ret (x, Unchanged)
            else chain (write_json dc st name x) (\<lambda>_. ret (x, Migrated))
        | Inl e \<Rightarrow> recover_from_backup dc st st' name e))
       (ret (dc_default dc, Unchanged))"

section \<open>What a directory holds\<close>

definition content_of :: "('v, 't) document \<Rightarrow> node option \<Rightarrow> 't option" where
  "content_of dc n =
     (case n of
        Some (File bs) \<Rightarrow> (case check_content dc bs of Inl _ \<Rightarrow> None | Inr (x, _, _) \<Rightarrow> Some x)
      | _ \<Rightarrow> None)"

text \<open>The value of a document: the default while there is no file, else what its file holds, else what its backup holds.\<close>

definition value_of :: "('v, 't) document \<Rightarrow> string \<Rightarrow> disk \<Rightarrow> 't option" where
  "value_of dc name d =
     (if entry AtRoot name d = None then Some (dc_default dc)
      else case content_of dc (entry AtRoot name d) of
        Some x \<Rightarrow> Some x
      | None \<Rightarrow> content_of dc (entry AtRoot (backup_path name) d))"

text \<open>The value does not rest on the backup.\<close>

definition settled :: "('v, 't) document \<Rightarrow> string \<Rightarrow> 't \<Rightarrow> disk \<Rightarrow> bool" where
  "settled dc name x d \<longleftrightarrow>
     (if entry AtRoot name d = None then x = dc_default dc else content_of dc (entry AtRoot name d) = Some x)"

text \<open>What is printed is read back as the same document and is canonical.\<close>

definition prints_back :: "('v, 't) document \<Rightarrow> 't \<Rightarrow> bool" where
  "prints_back dc x \<longleftrightarrow> (\<forall>json. dc_print dc x = Some json \<longrightarrow> (\<exists>v. check_content dc json = Inr (x, v, v)))"

lemma settled_value: "settled dc name x d \<Longrightarrow> value_of dc name d = Some x"
  by (auto simp: settled_def value_of_def split: if_splits)

lemma check_valid: "check_content dc bs = Inr (x, v, v') \<Longrightarrow> dc_valid dc x"
  by (auto simp: check_content_def split: if_splits option.splits)

lemma names_apart:
  "temp_path st name \<noteq> name" "temp_path st name \<noteq> backup_path name" "backup_path name \<noteq> name"
  "quarantine_path st name \<noteq> name" "quarantine_path st name \<noteq> backup_path name"
proof -
  have "length (temp_path st name) > length (backup_path name)" "length (backup_path name) > length name"
    "length (quarantine_path st name) > length (backup_path name)"
    by (simp_all add: temp_path_def backup_path_def quarantine_path_def)
  then show "temp_path st name \<noteq> name" "temp_path st name \<noteq> backup_path name" "backup_path name \<noteq> name"
    "quarantine_path st name \<noteq> name" "quarantine_path st name \<noteq> backup_path name" by auto
qed

lemmas apart = names_apart names_apart [symmetric]

subsection \<open>Changes at one name\<close>

text \<open>A condition is blind to a name when no change of that entry alone can break it.\<close>

definition blind :: "string \<Rightarrow> (disk \<Rightarrow> bool) \<Rightarrow> bool" where
  "blind a I \<longleftrightarrow> (\<forall>d d'. (\<forall>n. n \<noteq> a \<longrightarrow> entry AtRoot n d' = entry AtRoot n d) \<longrightarrow> I d \<longrightarrow> I d')"

definition only_at :: "string \<Rightarrow> (entries \<Rightarrow> bool \<times> entries) \<Rightarrow> bool" where
  "only_at a f \<longleftrightarrow> (\<forall>es n. n \<noteq> a \<longrightarrow> map_of (snd (f es)) n = map_of es n)"

lemma map_of_replaced_other [simp]: "a \<noteq> n \<Longrightarrow> map_of (replaced a x es) n = map_of es n"
  by (induction es) (auto simp: replaced_def)

lemma only_at_simps: "only_at a (create_in a)" "only_at a (write_in a bs)" "only_at a (truncate_in a)" "only_at a (unlink_in a)"
  by (auto simp: only_at_def create_in_def write_in_def truncate_in_def unlink_in_def map_add_def split: option.splits node.splits)

lemma only_at_entry: "only_at a f \<Longrightarrow> n \<noteq> a \<Longrightarrow> entry AtRoot n (snd (in_dir AtRoot f d)) = entry AtRoot n d"
  unfolding in_dir_entry by (auto simp: only_at_def entry_def split: option.splits)

lemma blindD: "blind a I \<Longrightarrow> only_at a f \<Longrightarrow> I d \<Longrightarrow> I (snd (in_dir AtRoot f d))"
  unfolding blind_def using only_at_entry by blast

lemma blind_part: "blind a I \<Longrightarrow> I d \<Longrightarrow> I (partly_written AtRoot a bs n d)"
  by (auto simp: partly_written_def only_at_simps intro: blindD split: node.splits)

lemma blind_conj: "blind a I \<Longrightarrow> blind a J \<Longrightarrow> blind a (\<lambda>d. I d \<and> J d)"
  unfolding blind_def by blast

lemma blind_disj: "blind a I \<Longrightarrow> blind a J \<Longrightarrow> blind a (\<lambda>d. I d \<or> J d)"
  unfolding blind_def by blast

lemma blind_entry: "b \<noteq> a \<Longrightarrow> blind a (\<lambda>d. P (entry AtRoot b d))"
  by (simp add: blind_def)

lemma stays_at: "blind a I \<Longrightarrow> only_at a f \<Longrightarrow> stays I (atomic e (in_dir AtRoot f))"
  by (rule stays_atomic) (rule blindD)

lemma stays_write: "blind a I \<Longrightarrow> stays I (effect e (in_dir AtRoot (write_in a bs)) (partly_written AtRoot a bs))"
  by (rule stays_effect) (auto intro: blindD blind_part only_at_simps)

lemma stays_ensure: "blind a I \<Longrightarrow> stays I (atomic e (ensure_dir AtRoot))"
proof (rule stays_atomic)
  fix d :: disk
  assume I: "blind a I" "I d"
  have "entry AtRoot n (snd (ensure_dir AtRoot d)) = entry AtRoot n d" for n
    by (auto simp: ensure_dir_def entry_def split: option.splits)
  with I show "I (snd (ensure_dir AtRoot d))" unfolding blind_def by blast
qed

lemma stays_read_bytes: "stays I (read_bytes e name)"
  unfolding read_bytes_def by (rule stays_sense) (auto intro: stays_simple split: option.split)

lemma stays_copy: "blind dst I \<Longrightarrow> stays I (copy_and_sync src dst)"
  unfolding copy_and_sync_def
  by (intro stays_chain stays_read_bytes stays_at [where a = dst] stays_write [where a = dst] stays_simple) (auto intro: only_at_simps)

section \<open>Writing is all or nothing\<close>

lemma path_exists_triple: "triple P yes Q E K \<Longrightarrow> triple P no Q E K \<Longrightarrow> triple P (path_exists name yes no) Q E K"
  unfolding path_exists_def by (rule triple_skip_sense) simp

lemma create_entry: "fst (in_dir AtRoot (create_in a) d) \<Longrightarrow> entry AtRoot a (snd (in_dir AtRoot (create_in a) d)) \<noteq> None"
  by (auto simp: in_dir_accepted in_dir_entry create_in_def map_of_keys split: if_splits)

lemma write_entry:
  "fst (in_dir AtRoot (write_in a bs) d) \<Longrightarrow> entry AtRoot a d \<noteq> None \<Longrightarrow>
   entry AtRoot a (snd (in_dir AtRoot (write_in a bs) d)) = Some (File bs)"
  unfolding in_dir_accepted in_dir_entry by (auto simp: write_in_def map_of_replaced entry_def rev_image_eqI dest!: map_of_SomeD)

lemma writes_file:
  assumes "blind a I"
  shows "triple I (write_and_sync a bs) (\<lambda>_ d. I d \<and> entry AtRoot a d = Some (File bs)) (\<lambda>_. I) I"
proof -
  have create_draft: "triple I (atomic IoFailed (in_dir AtRoot (create_in a))) (\<lambda>_ d. I d \<and> entry AtRoot a d \<noteq> None) (\<lambda>_. I) I"
    by (rule triple_atomic) (auto intro: blindD [OF assms] only_at_simps dest: create_entry)
  have fill: "triple (\<lambda>d. I d \<and> entry AtRoot a d \<noteq> None) (effect IoFailed (in_dir AtRoot (write_in a bs)) (partly_written AtRoot a bs))
      (\<lambda>_ d. I d \<and> entry AtRoot a d = Some (File bs)) (\<lambda>_. I) I"
    by (rule triple_effect) (auto intro: blindD [OF assms] blind_part [OF assms] only_at_simps dest: write_entry)
  show ?thesis unfolding write_and_sync_def
    by (rule triple_chain [OF create_draft], rule triple_chain [OF fill], rule triple_sync) auto
qed

lemma renamed_entry:
  assumes "fst (in_dir AtRoot (rename_over a b) d)" "a \<noteq> b"
  shows "entry AtRoot b (snd (in_dir AtRoot (rename_over a b) d)) = entry AtRoot a d"
  using assms unfolding in_dir_accepted in_dir_entry by (auto simp: map_of_rename_over entry_def)

lemma map_of_rename_other: "n \<noteq> a \<Longrightarrow> n \<noteq> b \<Longrightarrow> map_of (snd (rename_over a b es)) n = map_of es n"
proof -
  assume n: "n \<noteq> a" "n \<noteq> b"
  have "map_of (map (\<lambda>e. if fst e = a then (b, snd e) else e) xs) n = map_of xs n" for xs
    using n by (induction xs) auto
  then show ?thesis using n by (auto simp: rename_over_def)
qed

lemma renamed_other: "n \<noteq> a \<Longrightarrow> n \<noteq> b \<Longrightarrow> entry AtRoot n (snd (in_dir AtRoot (rename_over a b) d)) = entry AtRoot n d"
  unfolding in_dir_entry by (auto simp: map_of_rename_other entry_def split: option.splits)

lemma rename_refused: "\<not> fst (in_dir AtRoot (rename_over a b) d) \<Longrightarrow> entry AtRoot n (snd (in_dir AtRoot (rename_over a b) d)) = entry AtRoot n d"
  unfolding in_dir_entry in_dir_accepted by (auto simp: rename_over_refused entry_def split: option.splits)

text \<open>\<open>R\<close> is what holds of a directory like one where \<open>I\<close> holds, the new bytes under the name and the temporary file gone.\<close>

definition swaps_in :: "string \<Rightarrow> string \<Rightarrow> u8 list \<Rightarrow> (disk \<Rightarrow> bool) \<Rightarrow> (disk \<Rightarrow> bool) \<Rightarrow> bool" where
  "swaps_in temporary name bs I R \<longleftrightarrow>
     (\<forall>d d'. I d \<longrightarrow> entry AtRoot name d' = Some (File bs) \<longrightarrow>
        (\<forall>n. n \<noteq> temporary \<longrightarrow> n \<noteq> name \<longrightarrow> entry AtRoot n d' = entry AtRoot n d) \<longrightarrow> R d')"

lemma commit_all_or_nothing:
  assumes t: "blind temporary I" "blind temporary R" "swaps_in temporary name bs I R" "temporary \<noteq> name"
    and b: "keep \<Longrightarrow> blind (backup_path name) I" "temporary \<noteq> backup_path name"
  shows "triple I (commit_json keep temporary name bs) (\<lambda>_. R) (\<lambda>_ d. I d \<or> R d) (\<lambda>d. I d \<or> R d)"
proof -
  let ?J = "\<lambda>d. I d \<and> entry AtRoot temporary d = Some (File bs)"
  let ?IR = "\<lambda>d. I d \<or> R d"
  have wrote: "triple I (write_and_sync temporary bs) (\<lambda>_. ?J) (\<lambda>_. ?IR) ?IR"
    by (rule triple_weaken [OF writes_file [OF t(1)]]) auto
  have copy: "stays ?J (if keep then path_exists name (copy_and_sync name (backup_path name)) (ret ()) else ret ())"
    using b by (auto intro!: path_exists_triple stays_copy stays_simple blind_conj blind_entry)
  have rename: "triple ?J (atomic IoFailed (in_dir AtRoot (rename_over temporary name))) (\<lambda>_. R) (\<lambda>_. ?IR) ?IR"
  proof (rule triple_atomic)
    fix d :: disk
    assume J: "?J d"
    show "R (snd (in_dir AtRoot (rename_over temporary name) d))" if "fst (in_dir AtRoot (rename_over temporary name) d)"
      using t(3,4) J renamed_entry [OF that t(4)] renamed_other unfolding swaps_in_def by metis
    show "?IR (snd (in_dir AtRoot (rename_over temporary name) d))" if "\<not> fst (in_dir AtRoot (rename_over temporary name) d)"
      using t(1) J rename_refused [OF that] unfolding blind_def by blast
  qed auto
  show ?thesis unfolding commit_json_def
    by (rule triple_chain [OF wrote], rule triple_chain [where R = "\<lambda>_. ?J"], rule triple_weaken [OF copy])
      (auto intro!: triple_chain [OF rename] triple_sync)
qed

lemma write_all_or_nothing:
  assumes t: "blind (temp_path st name) I" "blind (temp_path st name) R"
    and r: "\<And>bs. dc_print dc x = Some bs \<Longrightarrow> swaps_in (temp_path st name) name bs I R"
    and b: "keep \<Longrightarrow> blind (backup_path name) I"
  shows "triple I (write_json_internal dc keep st name x) (\<lambda>_. R) (\<lambda>_ d. I d \<or> R d) (\<lambda>d. I d \<or> R d)"
proof -
  let ?IR = "\<lambda>d. I d \<or> R d"
  have go: "triple I (chain (attempt (commit_json keep (temp_path st name) name json)) (\<lambda>r. case r of Inr _ \<Rightarrow> ret ()
      | Inl e \<Rightarrow> chain (attempt (atomic IoFailed (in_dir AtRoot (unlink_in (temp_path st name)))) :: (json_error, unit) result json_run) (\<lambda>_. throw e)))
      (\<lambda>_. R) (\<lambda>_. ?IR) ?IR" if "dc_print dc x = Some json" for json
    by (rule triple_chain [where R = "\<lambda>q. case q of Inl _ \<Rightarrow> ?IR | Inr _ \<Rightarrow> R"], rule triple_attempt)
      (auto intro!: triple_weaken [OF commit_all_or_nothing [OF t r [OF that] names_apart(1) b names_apart(2)]] triple_ret
         triple_chain [OF triple_attempt] triple_throw stays_at [where a = "temp_path st name"] blind_disj t only_at_simps split: sum.split)
  have rest: "triple I (case dc_print dc x of None \<Rightarrow> throw NotEncoded | Some json \<Rightarrow>
      chain (attempt (commit_json keep (temp_path st name) name json)) (\<lambda>r. case r of Inr _ \<Rightarrow> ret ()
      | Inl e \<Rightarrow> chain (attempt (atomic IoFailed (in_dir AtRoot (unlink_in (temp_path st name)))) :: (json_error, unit) result json_run) (\<lambda>_. throw e)))
      (\<lambda>_. R) (\<lambda>_. ?IR) ?IR"
  proof (cases "dc_print dc x")
    case (Some json)
    show ?thesis unfolding Some option.case by (rule go [OF Some])
  qed (auto intro: triple_throw)
  show ?thesis unfolding write_json_internal_def
    by (rule triple_chain [where R = "\<lambda>_. I"], rule triple_weaken [OF stays_ensure [OF t(1)]]) (auto intro: rest)
qed

lemma settled_blind: "a \<noteq> name \<Longrightarrow> blind a (settled dc name x)"
  by (auto simp: blind_def settled_def)

lemma printed_settled:
  "prints_back dc x \<Longrightarrow> dc_print dc x = Some bs \<Longrightarrow> entry AtRoot name d = Some (File bs) \<Longrightarrow> settled dc name x d"
  by (auto simp: prints_back_def settled_def content_of_def)

lemma printed_content:
  "prints_back dc x \<Longrightarrow> dc_print dc x = Some bs \<Longrightarrow> entry AtRoot name d = Some (File bs) \<Longrightarrow> content_of dc (entry AtRoot name d) = Some x"
  by (auto simp: prints_back_def content_of_def)

lemma writes_settled:
  assumes "prints_back dc x"
  shows "triple (settled dc name x0) (write_json dc st name x) (\<lambda>_. settled dc name x)
    (\<lambda>_ d. settled dc name x0 d \<or> settled dc name x d) (\<lambda>d. settled dc name x0 d \<or> settled dc name x d)"
  unfolding write_json_def
  by (rule write_all_or_nothing) (auto intro!: settled_blind apart simp: swaps_in_def printed_settled [OF assms])

section \<open>Loading keeps the value\<close>

lemma reads_bytes: "triple I (read_bytes e name) (\<lambda>bs d. I d \<and> entry AtRoot name d = Some (File bs)) (\<lambda>_. I) I"
  by (auto simp: triple_def read_bytes_def chain_def sense_def throw_def ret_def split: option.splits node.splits)

lemma keys_replaced: "fst ` set (replaced a n es) = fst ` set es"
  by (induction es) (auto simp: replaced_def)

lemma truncated_entry: "fst (in_dir AtRoot (truncate_in a) d) \<Longrightarrow> entry AtRoot a (snd (in_dir AtRoot (truncate_in a) d)) \<noteq> None"
proof -
  have "fst (truncate_in a es) \<Longrightarrow> a \<in> fst ` set (snd (truncate_in a es))" for es
    by (cases "map_of es a") (auto simp: truncate_in_def keys_replaced rev_image_eqI dest!: map_of_SomeD split: node.splits)
  then have "fst (truncate_in a es) \<Longrightarrow> \<exists>y. map_of (snd (truncate_in a es)) a = Some y" for es
    using map_of_keys [of "snd (truncate_in a es)" a] by blast
  then show "fst (in_dir AtRoot (truncate_in a) d) \<Longrightarrow> entry AtRoot a (snd (in_dir AtRoot (truncate_in a) d)) \<noteq> None"
    unfolding in_dir_accepted in_dir_entry by auto
qed

lemma copies:
  assumes "blind dst I" "\<And>d. I d \<Longrightarrow> entry AtRoot src d = m"
  shows "triple I (copy_and_sync src dst) (\<lambda>_ d. I d \<and> entry AtRoot dst d = m) (\<lambda>_. I) I"
proof -
  have empty: "triple J (atomic IoFailed (in_dir AtRoot (truncate_in dst))) (\<lambda>_ d. J d \<and> entry AtRoot dst d \<noteq> None) (\<lambda>_. J) J"
    if "blind dst J" for J
    by (rule triple_atomic) (auto intro: blindD [OF that] only_at_simps dest: truncated_entry)
  have fill: "triple (\<lambda>d. I d \<and> entry AtRoot dst d \<noteq> None) (effect IoFailed (in_dir AtRoot (write_in dst bs)) (partly_written AtRoot dst bs))
      (\<lambda>_ d. I d \<and> entry AtRoot dst d = Some (File bs)) (\<lambda>_. I) I" for bs
    by (rule triple_effect) (auto intro: blindD [OF assms(1)] blind_part [OF assms(1)] only_at_simps dest: write_entry)
  have known: "triple I (read_bytes IoFailed src) (\<lambda>bs d. I d \<and> m = Some (File bs)) (\<lambda>_. I) I"
    by (rule triple_weaken [OF reads_bytes]) (use assms(2) in auto)
  have rest: "triple I (chain (atomic IoFailed (in_dir AtRoot (truncate_in dst))) (\<lambda>_.
      chain (effect IoFailed (in_dir AtRoot (write_in dst bs)) (partly_written AtRoot dst bs)) (\<lambda>_. sync IoFailed)))
      (\<lambda>_ d. I d \<and> entry AtRoot dst d = Some (File bs)) (\<lambda>_. I) I" for bs
    by (rule triple_chain [OF empty [OF assms(1)]], rule triple_chain [OF fill], rule triple_sync) auto
  show ?thesis unfolding copy_and_sync_def
    by (rule triple_chain [OF known], rule triple_known [where C = "m = Some (File bs)" for bs])
      (auto intro!: triple_weaken [OF rest])
qed

lemma quarantine_not_temp: "quarantine_path st name \<noteq> temp_path st' name"
proof -
  have "xs @ CHR ''.'' # CHR ''c'' # q \<noteq> CHR ''.'' # xs @ CHR ''.'' # t" for xs q t
    by (induction xs) auto
  then show ?thesis by (simp add: quarantine_path_def temp_path_def)
qed

text \<open>The document is damaged; \<open>m\<close> and \<open>b\<close> are the entries of its file and of its backup.\<close>

definition damaged :: "string \<Rightarrow> node option \<Rightarrow> node option \<Rightarrow> disk \<Rightarrow> bool" where
  "damaged name m b d \<longleftrightarrow> entry AtRoot name d = m \<and> entry AtRoot (backup_path name) d = b"

definition restored :: "('v, 't) document \<Rightarrow> string \<Rightarrow> node option \<Rightarrow> 't \<Rightarrow> disk \<Rightarrow> bool" where
  "restored dc name b x d \<longleftrightarrow> content_of dc b = Some x \<and> content_of dc (entry AtRoot name d) = Some x \<and> entry AtRoot (backup_path name) d = b"

lemma damaged_blind: "a \<noteq> name \<Longrightarrow> a \<noteq> backup_path name \<Longrightarrow> blind a (damaged name m b)"
  by (auto simp: blind_def damaged_def)

lemma restored_blind: "a \<noteq> name \<Longrightarrow> a \<noteq> backup_path name \<Longrightarrow> blind a (restored dc name b x)"
  by (auto simp: blind_def restored_def)

lemma restored_settled: "restored dc name b x d \<Longrightarrow> settled dc name x d"
  by (auto simp: restored_def settled_def content_of_def)

lemma recovers:
  assumes prints: "\<forall>x. dc_valid dc x \<longrightarrow> prints_back dc x"
  shows "triple (damaged name m b) (recover_from_backup dc st st' name e)
    (\<lambda>(x, s) d. s = Recovered \<and> restored dc name b x d \<and> entry AtRoot (quarantine_path st name) d = m)
    (\<lambda>_ d. damaged name m b d \<or> ((\<exists>x. restored dc name b x d) \<and> entry AtRoot (quarantine_path st name) d = m))
    (\<lambda>d. damaged name m b d \<or> ((\<exists>x. restored dc name b x d) \<and> entry AtRoot (quarantine_path st name) d = m))"
    (is "triple _ _ ?Q (\<lambda>_. ?X) ?X")
proof -
  let ?H = "damaged name m b" and ?q = "quarantine_path st name"
  have backup: "triple ?H (read_validated dc (backup_path name)) (\<lambda>(x, _, _) d. ?H d \<and> content_of dc b = Some x) (\<lambda>_. ?H) ?H"
    unfolding read_validated_def
    by (rule triple_chain [OF reads_bytes], rule triple_result) (auto simp: damaged_def content_of_def)
  have save: "triple (\<lambda>d. ?H d \<and> entry AtRoot ?q d = m) (replace_json dc st' name x)
      (\<lambda>_ d. restored dc name b x d \<and> entry AtRoot ?q d = m)
      (\<lambda>_. ?X) ?X"
    if x: "content_of dc b = Some x" for x
  proof -
    have "dc_valid dc x" using x by (auto simp: content_of_def dest: check_valid split: option.splits node.splits sum.splits)
    then have "prints_back dc x" using prints by simp
    then have "swaps_in (temp_path st' name) name bs (\<lambda>d. ?H d \<and> entry AtRoot ?q d = m) (\<lambda>d. restored dc name b x d \<and> entry AtRoot ?q d = m)"
      if "dc_print dc x = Some bs" for bs
      using that x apart quarantine_not_temp unfolding swaps_in_def restored_def damaged_def by (metis printed_content)
    then have "triple (\<lambda>d. ?H d \<and> entry AtRoot ?q d = m) (replace_json dc st' name x) (\<lambda>_ d. restored dc name b x d \<and> entry AtRoot ?q d = m)
      (\<lambda>_ d. (?H d \<and> entry AtRoot ?q d = m) \<or> (restored dc name b x d \<and> entry AtRoot ?q d = m))
      (\<lambda>d. (?H d \<and> entry AtRoot ?q d = m) \<or> (restored dc name b x d \<and> entry AtRoot ?q d = m))"
      unfolding replace_json_def
      by (intro write_all_or_nothing) (auto intro!: blind_conj blind_entry damaged_blind restored_blind apart quarantine_not_temp)
    then show ?thesis by (rule triple_weaken) auto
  qed
  have rest: "triple (\<lambda>d. ?H d \<and> content_of dc b = Some x)
      (chain (preserve_corrupt_file st name) (\<lambda>_. chain (replace_json dc st' name x) (\<lambda>_. ret (x, Recovered)))) ?Q (\<lambda>_. ?X) ?X" for x
  proof (rule triple_known [where C = "content_of dc b = Some x"])
    assume x: "content_of dc b = Some x"
    have aside: "triple ?H (preserve_corrupt_file st name) (\<lambda>_ d. ?H d \<and> entry AtRoot ?q d = m) (\<lambda>_. ?H) ?H"
      unfolding preserve_corrupt_file_def by (rule copies) (auto intro!: damaged_blind apart simp: damaged_def)
    have aside': "triple (\<lambda>d. ?H d \<and> content_of dc b = Some x) (preserve_corrupt_file st name)
        (\<lambda>_ d. ?H d \<and> entry AtRoot ?q d = m) (\<lambda>_. ?X) ?X"
      by (rule triple_weaken [OF aside]) auto
    have reply_now: "triple (\<lambda>d. restored dc name b x d \<and> entry AtRoot ?q d = m) (ret (x, Recovered)) ?Q (\<lambda>_. ?X) ?X"
      by (rule triple_ret) simp
    show "triple (\<lambda>d. ?H d \<and> content_of dc b = Some x)
      (chain (preserve_corrupt_file st name) (\<lambda>_. chain (replace_json dc st' name x) (\<lambda>_. ret (x, Recovered)))) ?Q (\<lambda>_. ?X) ?X"
      by (rule triple_chain [OF aside'], rule triple_chain [OF save [OF x]], rule reply_now)
  qed simp
  show ?thesis unfolding recover_from_backup_def
    by (rule triple_chain [where R = "\<lambda>r. case r of Inl _ \<Rightarrow> ?H | Inr (x, _, _) \<Rightarrow> (\<lambda>d. ?H d \<and> content_of dc b = Some x)"],
        rule triple_attempt, rule triple_weaken [OF backup]) (auto intro!: triple_throw rest split: sum.split)
qed

subsection \<open>The whole load\<close>

definition tick :: "world \<Rightarrow> world" where "tick w = w\<lparr>wd_clock := Suc (wd_clock w)\<rparr>"

lemma tick_simps [simp]:
  "wd_disk (tick w) = wd_disk w" "wd_clock (tick w) = Suc (wd_clock w)" "wd_unreadable (tick w) = wd_unreadable w"
  by (simp_all add: tick_def)

lemma read_validated_world:
  "read_validated dc name w =
     (case entry AtRoot name (wd_disk w) of
        Some (File bs) \<Rightarrow>
          if wd_unreadable w (wd_clock w) AtRoot name then (Failed CannotRead, tick w) else from_result (check_content dc bs) (tick w)
      | _ \<Rightarrow> (Failed CannotRead, tick w))"
  by (auto simp: read_validated_def read_bytes_def chain_def sense_def throw_def ret_def tick_def split: option.splits node.splits)

fun load_ok :: "('v, 't) document \<Rightarrow> string \<Rightarrow> stamp \<Rightarrow> 't \<Rightarrow> disk \<Rightarrow> (json_error, 't \<times> load_status) outcome \<Rightarrow> disk \<Rightarrow> bool" where
  "load_ok dc name st x d (Done (y, s)) d' \<longleftrightarrow>
     y = x \<and> settled dc name x d' \<and> (s = Unchanged \<longrightarrow> d' = d) \<and>
     (s = Recovered \<longrightarrow> entry AtRoot (quarantine_path st name) d' = entry AtRoot name d \<and>
                       entry AtRoot (backup_path name) d' = entry AtRoot (backup_path name) d)"
| "load_ok dc name st x d (Failed _) d' \<longleftrightarrow> value_of dc name d' = Some x"
| "load_ok dc name st x d Killed d' \<longleftrightarrow> value_of dc name d' = Some x"

lemma migrates:
  assumes "prints_back dc x" "settled dc name x (wd_disk w)" "write_json dc st name x w = (r, w1)"
  shows "settled dc name x (wd_disk w1)"
  using tripleD [OF writes_settled [OF assms(1)] assms(2,3)] by (cases r) auto

lemma load_damaged:
  assumes prints: "\<forall>x. dc_valid dc x \<longrightarrow> prints_back dc x" and v: "value_of dc name (wd_disk w) = Some x"
    and bad: "content_of dc (entry AtRoot name (wd_disk w)) = None" "entry AtRoot name (wd_disk w) \<noteq> None"
    and run: "recover_from_backup dc st st' name e w = (r, w1)"
  shows "load_ok dc name st x (wd_disk w) r (wd_disk w1)"
proof -
  let ?m = "entry AtRoot name (wd_disk w)" and ?b = "entry AtRoot (backup_path name) (wd_disk w)"
  have b: "content_of dc ?b = Some x" using v bad by (simp add: value_of_def)
  have kept: "value_of dc name d = Some x" if "damaged name ?m ?b d" for d
    using that bad b by (auto simp: value_of_def damaged_def)
  have "damaged name ?m ?b (wd_disk w)" by (simp add: damaged_def)
  note after = tripleD [OF recovers [OF prints] this run]
  have found: "value_of dc name d = Some x" if "restored dc name ?b y d" for y d
    using that b restored_settled [OF that] by (auto simp: restored_def settled_value)
  show ?thesis using after kept found b by (cases r) (auto simp: restored_def intro: restored_settled [unfolded restored_def])
qed

text \<open>The two reads that decide what a load takes the file for: whether it exists, and its text.\<close>

definition reads_ok :: "string \<Rightarrow> world \<Rightarrow> bool" where
  "reads_ok name w \<longleftrightarrow> \<not> wd_unreadable w (wd_clock w) AtRoot '''' \<and> \<not> wd_unreadable w (Suc (wd_clock w)) AtRoot name"

text \<open>What a load does after it has found the file.\<close>

definition load_present :: "('v, 't) document \<Rightarrow> stamp \<Rightarrow> stamp \<Rightarrow> string \<Rightarrow> ('t \<times> load_status) json_run" where
  "load_present dc st st' name =
     chain (attempt (read_validated dc name)) (\<lambda>r.
        case r of
          Inr (x, original, canonical) \<Rightarrow>
            if original = canonical then ret (x, Unchanged)
            else chain (write_json dc st name x) (\<lambda>_. ret (x, Migrated))
        | Inl e \<Rightarrow> recover_from_backup dc st st' name e)"

lemma load_world:
  "load_json_recovering dc st st' name w =
     (if entry AtRoot name (wd_disk w) \<noteq> None \<and> \<not> wd_unreadable w (wd_clock w) AtRoot '''' then load_present dc st st' name (tick w)
      else (Done (dc_default dc, Unchanged), tick w))"
  by (auto simp: load_json_recovering_def load_present_def path_exists_def chain_def sense_def ret_def tick_def)

text \<open>The ways a load goes on: the file is damaged or cannot be read now, or it is sound.\<close>

lemma load_present_cases:
  assumes "entry AtRoot name (wd_disk w) = Some n"
  obtains (bad) e where "load_present dc st st' name w = recover_from_backup dc st st' name e (tick w)"
      "content_of dc (Some n) = None \<or> wd_unreadable w (wd_clock w) AtRoot name"
  | (good) y same where "content_of dc (Some n) = Some y" "dc_valid dc y"
      "load_present dc st st' name w =
         (if same then ret (y, Unchanged) else chain (write_json dc st name y) (\<lambda>_. ret (y, Migrated))) (tick w)"
proof (cases "wd_unreadable w (wd_clock w) AtRoot name")
  case True
  then have "load_present dc st st' name w = recover_from_backup dc st st' name CannotRead (tick w)"
    using assms by (auto simp: load_present_def read_validated_world attempt_def chain_def split: node.split)
  with bad True show ?thesis by blast
next
  case readable: False
  show ?thesis
  proof (cases "\<exists>bs y o' c. n = File bs \<and> check_content dc bs = Inr (y, o', c)")
    case True
    then obtain bs y o' c where n: "n = File bs" "check_content dc bs = Inr (y, o', c)" by blast
    with good [of y "o' = c"] readable assms show ?thesis
      by (simp add: load_present_def read_validated_world attempt_def chain_def from_result_def ret_def content_of_def check_valid [OF n(2)] split del: if_split)
  next
    case False
    then have "content_of dc (Some n) = None" by (auto simp: content_of_def split: node.split sum.split)
    moreover have "\<exists>e. load_present dc st st' name w = recover_from_backup dc st st' name e (tick w)"
      using False readable assms
      by (cases n; cases "case n of File bs \<Rightarrow> check_content dc bs | _ \<Rightarrow> Inl CannotRead")
        (auto simp: load_present_def read_validated_world attempt_def chain_def from_result_def throw_def)
    ultimately show ?thesis using bad by blast
  qed
qed

lemma load_keeps:
  assumes prints: "\<forall>x. dc_valid dc x \<longrightarrow> prints_back dc x" and v: "value_of dc name (wd_disk w) = Some x"
    and reads: "reads_ok name w" and run: "load_json_recovering dc st st' name w = (r, w1)"
  shows "load_ok dc name st x (wd_disk w) r (wd_disk w1)"
proof (cases "entry AtRoot name (wd_disk w)")
  case None
  with run v show ?thesis by (auto simp: load_world value_of_def settled_def)
next
  case (Some n)
  have load: "load_present dc st st' name (tick w) = (r, w1)" using Some reads run by (simp add: load_world reads_ok_def)
  have n: "entry AtRoot name (wd_disk (tick w)) = Some n" using Some by simp
  show ?thesis
  proof (rule load_present_cases [OF n, of dc st st'])
    fix e
    assume bad: "load_present dc st st' name (tick w) = recover_from_backup dc st st' name e (tick (tick w))"
      "content_of dc (Some n) = None \<or> wd_unreadable (tick w) (wd_clock (tick w)) AtRoot name"
    then have "recover_from_backup dc st st' name e (tick (tick w)) = (r, w1)" using load by simp
    from load_damaged [OF prints _ _ _ this] v bad(2) Some reads show ?thesis by (simp add: reads_ok_def)
  next
    fix y same
    assume good: "content_of dc (Some n) = Some y" "dc_valid dc y"
      "load_present dc st st' name (tick w) =
         (if same then ret (y, Unchanged) else chain (write_json dc st name y) (\<lambda>_. ret (y, Migrated))) (tick (tick w))"
    have y: "y = x" and set: "settled dc name x (wd_disk (tick (tick w)))" using good Some v by (auto simp: value_of_def settled_def)
    have p: "prints_back dc x" using prints good y by simp
    obtain q w2 where w2: "write_json dc st name x (tick (tick w)) = (q, w2)" by fastforce
    then have "settled dc name x (wd_disk w2)" by (rule migrates [OF p set])
    then show ?thesis using load good(3) y set w2
      by (cases q) (auto simp: chain_def ret_def settled_value split: if_splits)
  qed
qed

subsection \<open>When a read fails\<close>




section \<open>The contract of a stored document\<close>

text \<open>What the owners of a document rely on: a save gives the old or the new value, a load gives the value there is.  \<open>holds\<close>: the
  document has the value without help from its backup; \<open>reads\<close>: what the next load gives; \<open>writable\<close>: what may be saved; \<open>seen\<close>: the reads
  a load starts with do not fail.\<close>

locale document_store =
  fixes save :: "stamp \<Rightarrow> 't \<Rightarrow> unit json_run" and load :: "stamp \<Rightarrow> stamp \<Rightarrow> ('t \<times> load_status) json_run"
    and holds :: "'t \<Rightarrow> disk \<Rightarrow> bool" and reads :: "disk \<Rightarrow> 't option" and writable :: "'t \<Rightarrow> bool"
    and seen :: "world \<Rightarrow> bool"
  assumes holds_reads: "holds x d \<Longrightarrow> reads d = Some x"
    and save_law: "writable x \<Longrightarrow> triple (holds y) (save st x) (\<lambda>_. holds x) (\<lambda>_ d. holds y d \<or> holds x d) (\<lambda>d. holds y d \<or> holds x d)"
    and load_law: "reads (wd_disk w) = Some x \<Longrightarrow> seen w \<Longrightarrow> load st st' w = (r, w1) \<Longrightarrow>
      (case r of Done (y, _) \<Rightarrow> y = x \<and> holds x (wd_disk w1) | _ \<Rightarrow> reads (wd_disk w1) = Some x)"
begin

lemma saved_or_kept:
  assumes "writable x" "holds y (wd_disk w)" "save st x w = (r, w1)"
  shows "reads (wd_disk w1) = Some y \<or> reads (wd_disk w1) = Some x" "r = Done u \<Longrightarrow> holds x (wd_disk w1)"
  using tripleD [OF save_law [OF assms(1)] assms(2,3)] by (cases r; auto intro: holds_reads)+

text \<open>A document is loaded and a value that depends on it saved.\<close>

lemma changed_or_kept:
  assumes "reads (wd_disk w) = Some x" "seen w" "writable (f x)"
    and run: "chain (load st st') (\<lambda>(y, s). chain (save st2 (f y)) (\<lambda>_. ret (g y s))) w = (r, w1)"
  shows "reads (wd_disk w1) = Some x \<or> reads (wd_disk w1) = Some (f x)" "r = Done z \<Longrightarrow> holds (f x) (wd_disk w1)"
proof -
  obtain q w2 where l: "load st st' w = (q, w2)" by fastforce
  note loaded = load_law [OF assms(1,2) l]
  have "(reads (wd_disk w1) = Some x \<or> reads (wd_disk w1) = Some (f x)) \<and> (r = Done z \<longrightarrow> holds (f x) (wd_disk w1))"
  proof (cases q)
    case (Done p)
    then obtain s where q: "q = Done (x, s)" and h: "holds x (wd_disk w2)" using loaded by (cases p) auto
    obtain q' w3 where sv: "save st2 (f x) w2 = (q', w3)" by fastforce
    from saved_or_kept [OF assms(3) h sv] run l q sv show ?thesis
      by (cases q') (auto simp: chain_def ret_def)
  qed (use run l loaded in \<open>auto simp: chain_def\<close>)
  then show "reads (wd_disk w1) = Some x \<or> reads (wd_disk w1) = Some (f x)" "r = Done z \<Longrightarrow> holds (f x) (wd_disk w1)" by auto
qed

end

text \<open>The laws hold for a document whose valid values are printed so that they are read back.\<close>

definition lawful :: "('v, 't) document \<Rightarrow> bool" where
  "lawful dc \<longleftrightarrow> (\<forall>x. dc_valid dc x \<longrightarrow> prints_back dc x)"

interpretation json: document_store "\<lambda>st. write_json dc st name" "\<lambda>st st'. load_json_recovering dc st st' name"
    "\<lambda>x d. lawful dc \<and> settled dc name x d" "\<lambda>d. if lawful dc then value_of dc name d else None" "prints_back dc" "reads_ok name" for dc name
proof (unfold_locales, goal_cases)
  case (1 x d)
  then show ?case by (auto simp: settled_value)
next
  case (2 x y st)
  show ?case
  proof (rule triple_known [where C = "lawful dc"])
    assume "lawful dc"
    then show "triple (\<lambda>d. lawful dc \<and> settled dc name y d) (write_json dc st name x) (\<lambda>_ d. lawful dc \<and> settled dc name x d)
      (\<lambda>_ d. (lawful dc \<and> settled dc name y d) \<or> (lawful dc \<and> settled dc name x d))
      (\<lambda>d. (lawful dc \<and> settled dc name y d) \<or> (lawful dc \<and> settled dc name x d))"
      by (intro triple_weaken [OF writes_settled [OF 2]]) simp_all
  qed simp
next
  case (3 w x st st' r w1)
  then have "lawful dc" "value_of dc name (wd_disk w) = Some x" by (auto split: if_splits)
  with load_keeps [of dc name w x st st' r w1] 3 show ?case by (cases r) (auto simp: lawful_def)
qed

section \<open>What an undisturbed save leaves\<close>

abbreviation holding :: "disk \<Rightarrow> entries \<Rightarrow> disk" where
  "holding d es \<equiv> d\<lparr>dk_root := Some (Dir es)\<rparr>"

lemma runs_in: "f es = (True, es') \<Longrightarrow> runs (atomic e (in_dir AtRoot f)) (holding d es) () (holding d es')"
  by (rule runs_atomic) (simp add: in_dir_def)

lemma runs_fill: "runs (effect e (in_dir AtRoot (write_in a bs)) part) (holding d es) () (holding d (replaced a (File bs) es))"
  by (rule runs_effect) (simp add: in_dir_def write_in_def)

lemma runs_sync_file: "runs (sync e) d () d"
  unfolding sync_def by (rule runs_atomic) simp

lemma entry_holding [simp]: "entry AtRoot n (holding d es) = map_of es n"
  by (simp add: entry_def)

lemma runs_bytes: "map_of es name = Some (File bs) \<Longrightarrow> runs (read_bytes e name) (holding d es) bs (holding d es)"
  unfolding read_bytes_def by (rule runs_sense [where x = "Some bs"]) (auto simp: calm_def intro: runs_ret)

lemma runs_exists:
  "runs (if map_of es name \<noteq> None then yes else no) (holding d es) x d1 \<Longrightarrow> runs (path_exists name yes no) (holding d es) x d1"
  unfolding path_exists_def by (rule runs_sense [where x = "map_of es name \<noteq> None"]) (auto simp: calm_def)

text \<open>The entries after a file has been written under a name that was free or a file.\<close>

definition filed :: "string \<Rightarrow> u8 list \<Rightarrow> entries \<Rightarrow> entries \<Rightarrow> bool" where
  "filed a bs es es' \<longleftrightarrow> map_of es' a = Some (File bs) \<and> (\<forall>n. n \<noteq> a \<longrightarrow> map_of es' n = map_of es n)"

lemma keyI: "map_of es a = Some x \<Longrightarrow> a \<in> fst ` set es"
  by (force dest: map_of_SomeD)

lemma runs_write_and_sync:
  assumes "map_of es a = None"
  shows "\<exists>es'. runs (write_and_sync a bs) (holding d es) () (holding d es') \<and> filed a bs es es'"
proof (intro exI conjI)
  let ?es = "replaced a (File bs) (es @ [(a, File [])])"
  show "runs (write_and_sync a bs) (holding d es) () (holding d ?es)" unfolding write_and_sync_def
    by (rule runs_chain [OF runs_in], use assms in \<open>simp add: create_in_def map_of_eq_None_iff\<close>)
      (rule runs_chain [OF runs_fill runs_sync_file])
  show "filed a bs es ?es" using assms by (auto simp: filed_def map_of_replaced map_add_def split: option.split)
qed

lemma runs_copy:
  assumes src: "map_of es src = Some (File bs)" and dst: "kind_of (map_of es dst) \<in> {Missing, Regular}" "src \<noteq> dst"
  shows "\<exists>es'. runs (copy_and_sync src dst) (holding d es) () (holding d es') \<and> filed dst bs es es'"
proof (intro exI conjI)
  let ?es = "replaced dst (File bs) (snd (truncate_in dst es))"
  obtain e where e: "map_of es dst = None \<or> map_of es dst = Some (File e)"
    using dst(1) by (cases "map_of es dst" rule: kind_of.cases) auto
  then have t: "truncate_in dst es = (True, snd (truncate_in dst es))" "dst \<in> fst ` set (snd (truncate_in dst es))"
    by (auto simp: truncate_in_def keys_replaced keyI)
  show "runs (copy_and_sync src dst) (holding d es) () (holding d ?es)" unfolding copy_and_sync_def
    by (rule runs_chain [OF runs_bytes [OF src]], rule runs_chain [OF runs_in [where f = "truncate_in dst", OF t(1)]], rule runs_chain [OF runs_fill runs_sync_file])
  show "filed dst bs es ?es" using e t(2) only_at_simps(3) by (auto simp: filed_def map_of_replaced only_at_def)
qed

lemma runs_rename:
  assumes "map_of es a = Some (File bs)" "kind_of (map_of es b) \<in> {Missing, Regular}" "a \<noteq> b"
  shows "\<exists>es'. runs (atomic IoFailed (in_dir AtRoot (rename_over a b))) (holding d es) () (holding d es') \<and>
    map_of es' a = None \<and> map_of es' b = Some (File bs) \<and> (\<forall>n. n \<noteq> a \<longrightarrow> n \<noteq> b \<longrightarrow> map_of es' n = map_of es n)"
proof (intro exI conjI)
  let ?es = "snd (rename_over a b es)"
  have ok: "rename_over a b es = (True, ?es)"
    using assms by (auto simp: rename_over_def rev_image_eqI dest!: map_of_SomeD)
  then have accepted: "fst (rename_over a b es)" by (metis fst_conv)
  show "runs (atomic IoFailed (in_dir AtRoot (rename_over a b))) (holding d es) () (holding d ?es)" using ok by (rule runs_in)
  show "map_of ?es b = Some (File bs)" using map_of_rename_over [OF accepted assms(3)] assms(1) by simp
  show "\<forall>n. n \<noteq> a \<longrightarrow> n \<noteq> b \<longrightarrow> map_of ?es n = map_of es n" by (simp add: map_of_rename_other)
  have "a \<notin> fst ` set (map (\<lambda>e. if fst e = a then (b, snd e) else e) xs)" for xs using assms(3) by auto
  then show "map_of ?es a = None" using assms ok by (auto simp: rename_over_def map_of_eq_None_iff split: if_splits)
qed

definition saved :: "stamp \<Rightarrow> string \<Rightarrow> u8 list \<Rightarrow> entries \<Rightarrow> entries \<Rightarrow> bool" where
  "saved st name json es es' \<longleftrightarrow>
     map_of es' name = Some (File json) \<and> map_of es' (temp_path st name) = None \<and>
     map_of es' (backup_path name) = (if map_of es name = None then map_of es (backup_path name) else map_of es name) \<and>
     (\<forall>n. n \<notin> {name, temp_path st name, backup_path name} \<longrightarrow> map_of es' n = map_of es n)"

definition saveable :: "stamp \<Rightarrow> string \<Rightarrow> entries \<Rightarrow> bool" where
  "saveable st name es \<longleftrightarrow>
     map_of es (temp_path st name) = None \<and> kind_of (map_of es name) \<in> {Missing, Regular} \<and>
     kind_of (map_of es (backup_path name)) \<in> {Missing, Regular}"

lemma kind_file: "kind_of n \<in> {Missing, Regular} \<Longrightarrow> n = None \<or> (\<exists>bs. n = Some (File bs))"
  by (cases n rule: kind_of.cases) auto

lemma runs_commit:
  assumes "saveable st name es"
  shows "\<exists>es'. runs (commit_json True (temp_path st name) name json) (holding d es) () (holding d es') \<and> saved st name json es es'"
proof -
  let ?t = "temp_path st name" and ?b = "backup_path name"
  note free = assms [unfolded saveable_def]
  obtain es1 where es1: "runs (write_and_sync ?t json) (holding d es) () (holding d es1)" "filed ?t json es es1"
    using runs_write_and_sync free by blast
  have same: "map_of es1 name = map_of es name" "map_of es1 ?b = map_of es ?b" using es1(2) apart by (auto simp: filed_def)
  have "\<exists>es2. runs (path_exists name (copy_and_sync name ?b) (ret ())) (holding d es1) () (holding d es2) \<and>
      map_of es2 ?b = (if map_of es name = None then map_of es ?b else map_of es name) \<and>
      (\<forall>n. n \<noteq> ?b \<longrightarrow> map_of es2 n = map_of es1 n)"
  proof (cases "map_of es name")
    case None
    then show ?thesis using same by (intro exI [of _ es1] conjI runs_exists) (auto intro: runs_ret)
  next
    case (Some m)
    then obtain bs where bs: "map_of es1 name = Some (File bs)" using kind_file [of "map_of es name"] free same(1) by auto
    then obtain es2 where "runs (copy_and_sync name ?b) (holding d es1) () (holding d es2)" "filed ?b bs es1 es2"
      using runs_copy [OF bs, of ?b d] free same names_apart(3) [of name] by metis
    then show ?thesis using bs same unfolding filed_def by (intro exI [of _ es2] conjI runs_exists) simp_all
  qed
  then obtain es2 where es2: "runs (path_exists name (copy_and_sync name ?b) (ret ())) (holding d es1) () (holding d es2)"
    "map_of es2 ?b = (if map_of es name = None then map_of es ?b else map_of es name)" "\<forall>n. n \<noteq> ?b \<longrightarrow> map_of es2 n = map_of es1 n" by auto
  have "map_of es2 ?t = Some (File json)" "kind_of (map_of es2 name) \<in> {Missing, Regular}"
    using es2(3) es1(2) same free names_apart unfolding filed_def by metis+
  then obtain es3 where es3: "runs (atomic IoFailed (in_dir AtRoot (rename_over ?t name))) (holding d es2) () (holding d es3)"
    "map_of es3 ?t = None" "map_of es3 name = Some (File json)" "\<forall>n. n \<noteq> ?t \<longrightarrow> n \<noteq> name \<longrightarrow> map_of es3 n = map_of es2 n"
    using runs_rename [of es2 ?t json name d] names_apart(1) by blast
  have "runs (commit_json True ?t name json) (holding d es) () (holding d es3)"
    unfolding commit_json_def if_True by (rule runs_chain [OF es1(1)], rule runs_chain [OF es2(1)], rule runs_chain [OF es3(1) runs_sync_file])
  moreover have "saved st name json es es3"
    unfolding saved_def
  proof (intro conjI allI impI)
    show "map_of es3 name = Some (File json)" "map_of es3 ?t = None" by (rule es3)+
    show "map_of es3 ?b = (if map_of es name = None then map_of es ?b else map_of es name)"
      using es3(4) es2(2) names_apart by metis
    show "map_of es3 n = map_of es n" if "n \<notin> {name, ?t, ?b}" for n
      using that es3(4) es2(3) es1(2) unfolding filed_def by simp
  qed
  ultimately show ?thesis by blast
qed

lemma runs_write_json:
  assumes "saveable st name es" "dc_print dc x = Some json"
  shows "\<exists>es'. runs (write_json dc st name x) (holding d es) () (holding d es') \<and> saved st name json es es'"
proof -
  obtain es' where es': "runs (commit_json True (temp_path st name) name json) (holding d es) () (holding d es')" "saved st name json es es'"
    using runs_commit [OF assms(1)] by blast
  have "runs (attempt (commit_json True (temp_path st name) name json) :: (json_error, (json_error, unit) result) run) (holding d es) (Inr ()) (holding d es')"
    using es'(1) unfolding runs_def attempt_def by fastforce
  then have "runs (write_json dc st name x) (holding d es) () (holding d es')"
    unfolding write_json_def write_json_internal_def assms(2) option.case
    by (intro runs_chain [OF runs_atomic]) (simp add: ensure_dir_def, erule runs_chain, simp add: runs_ret)
  with es'(2) show ?thesis by blast
qed

lemma runs_load:
  assumes "map_of es name = Some (File json)" "check_content dc json = Inr (x, v, v)"
  shows "runs (load_json_recovering dc st st' name) (holding d es) (x, Unchanged) (holding d es)"
proof -
  have "read_validated dc name w = (Done (x, v, v), tick w) \<and> calm (tick w)" if "calm w" "wd_disk w = holding d es" for w
    using that assms by (simp add: read_validated_world from_result_def ret_def calm_def tick_def)
  then have read: "runs (attempt (read_validated dc name) :: (json_error, (json_error, _) result) run) (holding d es) (Inr (x, v, v)) (holding d es)"
    unfolding runs_def attempt_def by fastforce
  show ?thesis unfolding load_json_recovering_def
    by (rule runs_exists) (use assms(1) in \<open>auto intro!: runs_chain [OF read] runs_ret\<close>)
qed

section \<open>Results\<close>

text \<open>C10: Saving a document is all or nothing.  If the document on disk has the value \<open>x0\<close> without help from its backup, then
  whatever change of the save fails and wherever the launcher is killed, the document has the value \<open>x0\<close> or
  the new value; when the save returns Ok it has the new one.\<close>

theorem save_is_all_or_nothing:
  assumes "prints_back dc x" "settled dc name x0 (wd_disk w)"
  shows "case write_json dc st name x w of
      (Done _, w1) \<Rightarrow> settled dc name x (wd_disk w1)
    | (_, w1) \<Rightarrow> settled dc name x0 (wd_disk w1) \<or> settled dc name x (wd_disk w1)"
proof -
  obtain r w1 where run: "write_json dc st name x w = (r, w1)" by fastforce
  from tripleD [OF writes_settled [OF assms(1)] assms(2) run] run show ?thesis by (cases r) auto
qed


text \<open>An undisturbed save succeeds and the next load returns what was saved, unchanged.  The directory then holds the new text
  under the name and the previous one, if any, in the backup; the temporary file is gone and no other entry has changed.\<close>

theorem save_then_load:
  assumes "calm w" "dk_root (wd_disk w) = Some (Dir es)" "saveable st name es" "dc_print dc x = Some json" "prints_back dc x"
  shows "\<exists>w1 es'. chain (write_json dc st name x) (\<lambda>_. load_json_recovering dc st1 st2 name) w = (Done (x, Unchanged), w1) \<and>
    dk_root (wd_disk w1) = Some (Dir es') \<and> saved st name json es es'"
proof -
  obtain d where d: "wd_disk w = holding d es" using assms(2) by (metis disk.surjective disk.update_convs(1))
  obtain es' where es': "runs (write_json dc st name x) (holding d es) () (holding d es')" "saved st name json es es'"
    using runs_write_json [OF assms(3,4)] by blast
  obtain v where v: "check_content dc json = Inr (x, v, v)" using assms(4,5) by (auto simp: prints_back_def)
  have "map_of es' name = Some (File json)" using es'(2) by (simp add: saved_def)
  from runs_chain [OF es'(1) runs_load [OF this v]] assms(1) d es'(2) show ?thesis unfolding runs_def by fastforce
qed

subsection \<open>The hypotheses can hold\<close>

text \<open>A document that is a number below 100, kept as one byte; a greater byte is an old form of the number.\<close>

definition ex_document :: "(nat, nat) document" where
  "ex_document = \<lparr>dc_parse = (\<lambda>bs. case bs of [b] \<Rightarrow> Some (unat b) | _ \<Rightarrow> None), dc_decode = (\<lambda>v. Some (v mod 100)),
     dc_encode = Some, dc_print = (\<lambda>x. Some [of_nat x]), dc_default = 0, dc_valid = (\<lambda>x. x < 100)\<rparr>"

definition ex_entries :: entries where
  "ex_entries = [(''servers.json'', File [7]), (''servers.json.bak'', File [3])]"

definition ex_directory :: "entries \<Rightarrow> (nat \<Rightarrow> fault) \<Rightarrow> world" where
  "ex_directory es faults = \<lparr>wd_disk = \<lparr>dk_root = Some (Dir es), dk_backup = None, dk_others = []\<rparr>, wd_clock = 0, wd_fault = faults,
     wd_unreadable = (\<lambda>_ _ _. False), wd_active = (\<lambda>_. 0)\<rparr>"

definition ex_stamp :: "nat \<Rightarrow> stamp" where "ex_stamp n = \<lparr>sp_pid = 5, sp_millis = 9, sp_sequence = n\<rparr>"

lemma ex_prints: "x < 100 \<Longrightarrow> prints_back ex_document x"
proof -
  assume x: "x < 100"
  then have "unat (of_nat x :: u8) = x" by (simp add: unat_of_nat)
  moreover have "utf8_valid [of_nat x :: u8]"
    using x calculation by (simp add: word_le_nat_alt)
  ultimately show ?thesis using x by (simp add: prints_back_def ex_document_def check_content_def)
qed

theorem save_is_all_or_nothing_witness:
  "case write_json ex_document (ex_stamp 0) ''servers.json'' 42 (ex_directory ex_entries (\<lambda>k. if k = 7 then Kill None else Proceed)) of
      (Done _, w1) \<Rightarrow> settled ex_document ''servers.json'' 42 (wd_disk w1)
    | (_, w1) \<Rightarrow> settled ex_document ''servers.json'' 7 (wd_disk w1) \<or> settled ex_document ''servers.json'' 42 (wd_disk w1)"
  by (rule save_is_all_or_nothing [OF ex_prints])
    (simp_all add: settled_def entry_def ex_directory_def ex_entries_def content_of_def check_content_def ex_document_def)




subsection \<open>A read that fails for a moment\<close>

text \<open>The file and its backup are sound and only the first read of the file fails: the load takes the file for damaged and
  replaces its value by the one of the older backup.  The newer bytes are in the file set aside.\<close>

definition ex_blink :: world where
  "ex_blink = (ex_directory ex_entries (\<lambda>_. Proceed))\<lparr>wd_unreadable := (\<lambda>k p n. k = 1 \<and> p = AtRoot \<and> n = ''servers.json'')\<rparr>"

lemma unreadable_moment_restores_backup:
  "value_of ex_document ''servers.json'' (wd_disk ex_blink) = Some 7"
  "case load_json_recovering ex_document (ex_stamp 0) (ex_stamp 1) ''servers.json'' ex_blink of (r, w1) \<Rightarrow>
     r = Done (3, Recovered) \<and> settled ex_document ''servers.json'' 3 (wd_disk w1) \<and>
     entry AtRoot (quarantine_path (ex_stamp 0) ''servers.json'') (wd_disk w1) = Some (File [7])"
  by code_simp+

end
