(* ===== verification/InstallationDrafts.thy ===== *)
theory InstallationDrafts
  imports JsonStore Profiles
begin

text \<open>
  The installations of the launcher as it stores them (\<open>src-tauri/src/models/installation.rs\<close> and \<open>validate_drafts\<close> of
  \<open>tools/installations/repository.rs\<close>).  A draft carries its status, the environment that was verified for it and the exit code
  of its installer; which of them must be there is what the validation checks.  The parser of UUIDs is an argument.
\<close>

section \<open>Checks of texts\<close>

datatype draft_error =
    BadPath
  | NotAnExe
  | BadName
  | BadInstallationId
  | BadPrefixIdentity
  | BadDraftId
  | WrongServerId
  | ForeignBinding
  | NoVerifiedEnvironment
  | InstallerFailed
  | DuplicateInstallations

definition absolute_path :: "string \<Rightarrow> (draft_error, unit) result" where
  "absolute_path value =
     (if \<not> prefix ''/'' value \<or> value = ''/'' \<or> CHR 0x00 \<in> set value \<or> 4096 < byte_length value \<or>
         trim value \<noteq> value \<or> ''..'' \<in> set (path_components value)
      then Inl BadPath else Inr ())"

text \<open>\<open>Path::extension\<close>: what follows the last dot of the file name, unless the name starts with it or has none.\<close>

definition path_extension :: "string \<Rightarrow> string option" where
  "path_extension path =
     (case Profiles.file_name path of
        None \<Rightarrow> None
      | Some name \<Rightarrow>
          let ext = rev (takeWhile (\<lambda>c. c \<noteq> CHR ''.'') (rev name))
          in if length ext + 1 < length name then Some ext else None)"

definition validate_exe :: "string \<Rightarrow> (draft_error, unit) result" where
  "validate_exe value =
     and_then (absolute_path value) (\<lambda>_.
       if (case path_extension value of None \<Rightarrow> False | Some ext \<Rightarrow> eq_ignore_ascii_case ext ''exe'') then Inr () else Inl NotAnExe)"

definition validate_name :: "string \<Rightarrow> (draft_error, unit) result" where
  "validate_name value =
     (if trim value = [] \<or> 80 < byte_length value \<or> CHR 0x00 \<in> set value then Inl BadName else Inr ())"

section \<open>Drafts\<close>

record installation_binding =
  ib_installation_id :: string
  ib_prefix_path :: string
  ib_prefix_fingerprint :: string

definition is_ascii_hexdigit :: "char \<Rightarrow> bool" where
  "is_ascii_hexdigit c \<longleftrightarrow> of_char c \<in> {48..57 :: nat} \<union> {65..70} \<union> {97..102}"

definition validate_binding :: "(string \<Rightarrow> bool) \<Rightarrow> installation_binding \<Rightarrow> (draft_error, unit) result" where
  "validate_binding uuid b =
     (if \<not> uuid (ib_installation_id b) then Inl BadInstallationId
      else and_then (absolute_path (ib_prefix_path b)) (\<lambda>_.
        if byte_length (ib_prefix_fingerprint b) \<noteq> 64 \<or> \<not> list_all is_ascii_hexdigit (ib_prefix_fingerprint b)
        then Inl BadPrefixIdentity else Inr ()))"

datatype installation_status =
    InstallPending
  | InstallPreparing
  | InstallRunning
  | InstallStopping
  | AwaitingClient
  | InstallFailed
  | InstallInterrupted
  | InstallCompleted

definition status_active :: "installation_status \<Rightarrow> bool" where
  "status_active s \<longleftrightarrow> s \<in> {InstallPreparing, InstallRunning, InstallStopping}"

definition can_restart :: "installation_status \<Rightarrow> bool" where
  "can_restart s \<longleftrightarrow> s \<in> {InstallPending, InstallFailed, InstallInterrupted, AwaitingClient}"

datatype draft_message =
    SessionInterrupted
  | StopRequested
  | ExecutionInterrupted
  | StoppedByUser
  | InstallerClosed
  | InstallerExitCode "32 word"
  | NotSaved
  | InstallError string

record installation_draft =
  dr_id :: string
  dr_server_id :: string
  dr_name :: string
  dr_installer_path :: string
  dr_destination_path :: "string option"
  dr_runner :: string
  dr_require_webview2 :: bool
  dr_status :: installation_status
  dr_binding :: "installation_binding option"
  dr_exit_code :: "32 word option"
  dr_message :: "draft_message option"

definition validate_draft :: "(string \<Rightarrow> bool) \<Rightarrow> installation_draft \<Rightarrow> (draft_error, unit) result" where
  "validate_draft uuid d =
     and_then (check (uuid (dr_id d)) BadDraftId) (\<lambda>_.
     and_then (check (dr_server_id d = ''installed-'' @ dr_id d) WrongServerId) (\<lambda>_.
     and_then (validate_name (dr_name d)) (\<lambda>_.
     and_then (validate_exe (dr_installer_path d)) (\<lambda>_.
     and_then (optional (dr_destination_path d) absolute_path) (\<lambda>_.
     and_then (absolute_path (dr_runner d)) (\<lambda>_.
     and_then (optional (dr_binding d) (\<lambda>b. and_then (validate_binding uuid b) (\<lambda>_.
       check (ib_installation_id b = dr_id d) ForeignBinding))) (\<lambda>_.
     and_then (check (\<not> (dr_status d \<in> {InstallRunning, AwaitingClient, InstallCompleted} \<and> dr_binding d = None)) NoVerifiedEnvironment) (\<lambda>_.
     check (\<not> (dr_status d \<in> {AwaitingClient, InstallCompleted} \<and> dr_exit_code d \<noteq> Some 0)) InstallerFailed))))))))"

definition validate_drafts :: "(string \<Rightarrow> bool) \<Rightarrow> installation_draft list \<Rightarrow> (draft_error, unit) result" where
  "validate_drafts uuid ds = check_unique (validate_draft uuid) dr_id (\<lambda>_. DuplicateInstallations) {} ds"

section \<open>What a valid list is\<close>

abbreviation valid_draft :: "(string \<Rightarrow> bool) \<Rightarrow> installation_draft \<Rightarrow> bool" where
  "valid_draft uuid d \<equiv> validate_draft uuid d = Inr ()"

lemma and_then_ok: "and_then r f = Inr y \<longleftrightarrow> (\<exists>x. r = Inr x \<and> f x = Inr y)"
  by (auto simp: and_then_def split: sum.splits)

text \<open>What a status asks of its draft; the other checks do not depend on status, exit code and message.\<close>

definition status_backed :: "installation_draft \<Rightarrow> bool" where
  "status_backed d \<longleftrightarrow>
     (dr_status d \<in> {InstallRunning, AwaitingClient, InstallCompleted} \<longrightarrow> dr_binding d \<noteq> None) \<and>
     (dr_status d \<in> {AwaitingClient, InstallCompleted} \<longrightarrow> dr_exit_code d = Some 0)"

lemma valid_status:
  "valid_draft uuid d \<longleftrightarrow> valid_draft uuid (d\<lparr>dr_status := InstallPending, dr_exit_code := None, dr_message := None\<rparr>) \<and> status_backed d"
  by (auto simp: validate_draft_def and_then_ok status_backed_def)

lemma valid_draft_backed: "valid_draft uuid d \<Longrightarrow> status_backed d"
  using valid_status by blast

lemma valid_unbacked:
  assumes "valid_draft uuid d" "s \<notin> {InstallRunning, AwaitingClient, InstallCompleted}"
  shows "valid_draft uuid (d\<lparr>dr_status := s, dr_message := m\<rparr>)" "valid_draft uuid (d\<lparr>dr_status := s, dr_exit_code := c, dr_message := m\<rparr>)"
  using assms valid_status [of uuid "d\<lparr>dr_status := s, dr_message := m\<rparr>"] valid_status [of uuid "d\<lparr>dr_status := s, dr_exit_code := c, dr_message := m\<rparr>"]
    valid_status [of uuid d] by (simp_all add: status_backed_def)

lemma validate_drafts_ok:
  "validate_drafts uuid ds = Inr () \<longleftrightarrow> (\<forall>d \<in> set ds. valid_draft uuid d) \<and> distinct (map dr_id ds)"
  by (simp add: validate_drafts_def check_unique_ok)

end
