(* ===== verification/Installations.thy ===== *)
theory Installations
  imports InstallationDrafts
begin

text \<open>
  The manager of installations (\<open>src-tauri/src/tools/installations/repository.rs\<close> and the changes that
  \<open>session.rs\<close> makes through it).  Every operation is a critical section over the manager and a program over the disk: the
  list is loaded once, kept in memory and written whole after every change.  A worker owns an
  installation from \<open>reserve\<close> to the end of the drop of its \<open>ActiveInstallation\<close>, which is three critical sections.

  All operations, in every order, with failing and interrupted writes and restarts of the launcher, are one step
  relation.  The lock of the manager is never poisoned.
\<close>

section \<open>The manager\<close>

record 'v install_env =
  ie_document :: "('v, installation_draft list) document"
  ie_uuid :: "string \<Rightarrow> bool"

definition INSTALLATIONS_FILE :: string where "INSTALLATIONS_FILE = ''installations.json''"

definition drafts_document :: "'v install_env \<Rightarrow> ('v, installation_draft list) document" where
  "drafts_document env = (ie_document env)\<lparr>dc_default := [], dc_valid := (\<lambda>ds. validate_drafts (ie_uuid env) ds = Inr ())\<rparr>"

text \<open>\<open>im_active\<close>: the installations that run and whether their cancellation has been sent.\<close>

record manager =
  im_drafts :: "installation_draft list option"
  im_active :: "string \<rightharpoonup> bool"
  im_closing :: bool
  im_relaunch_closed :: bool

definition new_manager :: manager where
  "new_manager = \<lparr>im_drafts = None, im_active = Map.empty, im_closing = False, im_relaunch_closed = False\<rparr>"

datatype install_error =
    StoreError json_error
  | DraftError draft_error
  | LauncherClosing
  | InstallAlreadyRunning
  | NoSuchInstallation
  | NotRestartable
  | NotInExecution
  | InstallationsActive
  | UnknownRunner
  | InstallerMissing
  | OperationBusy
  | NotFinished

type_synonym 'a install_transaction = "manager \<Rightarrow> (json_error, (install_error, 'a) result \<times> manager) run"

definition reply_now :: "(install_error, 'a) result \<Rightarrow> 'a install_transaction" where
  "reply_now r m = ret (r, m)"

section \<open>Loading and saving\<close>

definition interrupt_left :: "installation_draft \<Rightarrow> installation_draft" where
  "interrupt_left d =
     (if status_active (dr_status d) then d\<lparr>dr_status := InstallInterrupted, dr_message := Some SessionInterrupted\<rparr> else d)"

text \<open>\<open>write_json(&self.path, &next)?; state.drafts = Some(next)\<close>\<close>

definition save_drafts :: "'v install_env \<Rightarrow> stamp \<Rightarrow> installation_draft list \<Rightarrow> unit install_transaction" where
  "save_drafts env st next_drafts m =
     chain (attempt (write_json (drafts_document env) st INSTALLATIONS_FILE next_drafts) :: (json_error, (json_error, unit) result) run) (\<lambda>r.
     case r of
       Inl e \<Rightarrow> ret (Inl (StoreError e), m)
     | Inr _ \<Rightarrow> ret (Inr (), m\<lparr>im_drafts := Some next_drafts\<rparr>))"

definition load_drafts :: "'v install_env \<Rightarrow> (nat \<Rightarrow> stamp) \<Rightarrow> unit install_transaction" where
  "load_drafts env st m =
     (case im_drafts m of
        Some _ \<Rightarrow> ret (Inr (), m)
      | None \<Rightarrow>
          chain (attempt (load_json_recovering (drafts_document env) (st 0) (st 1) INSTALLATIONS_FILE)
                   :: (json_error, (json_error, installation_draft list \<times> load_status) result) run) (\<lambda>r.
          case r of
            Inl e \<Rightarrow> ret (Inl (StoreError e), m)
          | Inr (ds, _) \<Rightarrow>
              if list_ex (\<lambda>d. status_active (dr_status d)) ds then save_drafts env (st 2) (map interrupt_left ds) m
              else ret (Inr (), m\<lparr>im_drafts := Some ds\<rparr>)))"

definition install_transaction :: "'v install_env \<Rightarrow> (nat \<Rightarrow> stamp) \<Rightarrow> (installation_draft list \<Rightarrow> 'a install_transaction) \<Rightarrow> 'a install_transaction" where
  "install_transaction env st mutate m =
     chain (load_drafts env st m) (\<lambda>(r, m1).
     case r of
       Inl e \<Rightarrow> ret (Inl e, m1)
     | Inr _ \<Rightarrow> mutate (the (im_drafts m1)) m1)"

text \<open>A change of the list that is saved; its answer once it is.\<close>

definition commit_drafts :: "'v install_env \<Rightarrow> stamp \<Rightarrow> installation_draft list \<Rightarrow> 'a \<Rightarrow> 'a install_transaction" where
  "commit_drafts env st next_drafts x m =
     chain (save_drafts env st next_drafts m) (\<lambda>(r, m1). ret (case r of Inl e \<Rightarrow> Inl e | Inr _ \<Rightarrow> Inr x, m1))"

fun replace_first :: "string \<Rightarrow> installation_draft \<Rightarrow> installation_draft list \<Rightarrow> installation_draft list" where
  "replace_first i new [] = []"
| "replace_first i new (d # ds) = (if dr_id d = i then new # ds else d # replace_first i new ds)"

definition draft_of :: "string \<Rightarrow> installation_draft list \<Rightarrow> installation_draft option" where
  "draft_of i ds = find (\<lambda>d. dr_id d = i) ds"

section \<open>Operations\<close>

definition list_installations :: "'v install_env \<Rightarrow> (nat \<Rightarrow> stamp) \<Rightarrow> installation_draft list install_transaction" where
  "list_installations env st = install_transaction env st (\<lambda>ds. reply_now (Inr ds))"

definition get_installation :: "'v install_env \<Rightarrow> (nat \<Rightarrow> stamp) \<Rightarrow> string \<Rightarrow> installation_draft install_transaction" where
  "get_installation env st i =
     install_transaction env st (\<lambda>ds. reply_now (case draft_of i ds of None \<Rightarrow> Inl NoSuchInstallation | Some d \<Rightarrow> Inr d))"

definition is_active :: "'v install_env \<Rightarrow> (nat \<Rightarrow> stamp) \<Rightarrow> string \<Rightarrow> bool install_transaction" where
  "is_active env st i m = install_transaction env st (\<lambda>ds m. reply_now (Inr (im_active m i \<noteq> None)) m) m"

record create_installation =
  ci_name :: string
  ci_installer_path :: string
  ci_destination_path :: "string option"
  ci_runner :: string
  ci_require_webview2 :: bool

definition new_draft :: "string \<Rightarrow> create_installation \<Rightarrow> installation_draft" where
  "new_draft i input =
     \<lparr>dr_id = i, dr_server_id = ''installed-'' @ i, dr_name = trim (ci_name input), dr_installer_path = ci_installer_path input,
      dr_destination_path = ci_destination_path input, dr_runner = ci_runner input, dr_require_webview2 = ci_require_webview2 input,
      dr_status = InstallPending, dr_binding = None, dr_exit_code = None, dr_message = None\<rparr>"

text \<open>The catalogue of runners, the new identifier and whether the installer is a file are what the system answered.\<close>

definition create_draft ::
  "'v install_env \<Rightarrow> (nat \<Rightarrow> stamp) \<Rightarrow> (install_error, string list) result \<Rightarrow> string \<Rightarrow> bool \<Rightarrow> create_installation \<Rightarrow> installation_draft install_transaction" where
  "create_draft env st runners i installer_is_file input m =
     (let d = new_draft i input in
      case runners of
        Inl e \<Rightarrow> reply_now (Inl e) m
      | Inr paths \<Rightarrow>
          if ci_runner input \<notin> set paths then reply_now (Inl UnknownRunner) m
          else case validate_draft (ie_uuid env) d of
            Inl e \<Rightarrow> reply_now (Inl (DraftError e)) m
          | Inr _ \<Rightarrow>
              if \<not> installer_is_file then reply_now (Inl InstallerMissing) m
              else install_transaction env st (\<lambda>ds m.
                if im_closing m \<or> im_relaunch_closed m then reply_now (Inl LauncherClosing) m
                else commit_drafts env (st 3) (ds @ [d]) d m) m)"

definition update ::
  "'v install_env \<Rightarrow> (nat \<Rightarrow> stamp) \<Rightarrow> string \<Rightarrow> (installation_draft \<Rightarrow> (install_error, installation_draft) result) \<Rightarrow> installation_draft install_transaction" where
  "update env st i mutate =
     install_transaction env st (\<lambda>ds m.
       case draft_of i ds of
         None \<Rightarrow> reply_now (Inl NoSuchInstallation) m
       | Some d \<Rightarrow>
           (case mutate d of
              Inl e \<Rightarrow> reply_now (Inl e) m
            | Inr d' \<Rightarrow>
                (case validate_draft (ie_uuid env) d' of
                   Inl e \<Rightarrow> reply_now (Inl (DraftError e)) m
                 | Inr _ \<Rightarrow> commit_drafts env (st 3) (replace_first i d' ds) d' m)))"

text \<open>\<open>admitted\<close>: the lock \<open>installation-confirm\<close> of this installation was free.\<close>

definition reserve :: "'v install_env \<Rightarrow> (nat \<Rightarrow> stamp) \<Rightarrow> bool \<Rightarrow> string \<Rightarrow> installation_draft install_transaction" where
  "reserve env st admitted i m =
     (if \<not> admitted then reply_now (Inl OperationBusy) m
      else install_transaction env st (\<lambda>ds m.
        if im_closing m \<or> im_relaunch_closed m then reply_now (Inl LauncherClosing) m
        else if im_active m i \<noteq> None then reply_now (Inl InstallAlreadyRunning) m
        else case draft_of i ds of
          None \<Rightarrow> reply_now (Inl NoSuchInstallation) m
        | Some d \<Rightarrow>
            if \<not> can_restart (dr_status d) then reply_now (Inl NotRestartable) m
            else let d' = d\<lparr>dr_status := InstallPreparing, dr_exit_code := None, dr_message := None\<rparr>
              in chain (commit_drafts env (st 3) (replace_first i d' ds) d' m) (\<lambda>(r, m1).
                 ret (r, case r of Inl _ \<Rightarrow> m1 | Inr _ \<Rightarrow> m1\<lparr>im_active := (im_active m1)(i \<mapsto> False)\<rparr>))) m)"

text \<open>The cancellation is sent even if the status is not saved.\<close>

definition cancel_installation :: "'v install_env \<Rightarrow> (nat \<Rightarrow> stamp) \<Rightarrow> string \<Rightarrow> installation_draft install_transaction" where
  "cancel_installation env st i =
     install_transaction env st (\<lambda>ds m.
       if im_active m i = None then reply_now (Inl NotInExecution) m
       else let m1 = m\<lparr>im_active := (im_active m)(i \<mapsto> True)\<rparr>
         in case draft_of i ds of
              None \<Rightarrow> reply_now (Inl NoSuchInstallation) m1
            | Some d \<Rightarrow>
                let d' = d\<lparr>dr_status := InstallStopping, dr_message := Some StopRequested\<rparr>
                in commit_drafts env (st 3) (replace_first i d' ds) d' m1)"

definition request_shutdown :: "manager \<Rightarrow> manager" where
  "request_shutdown m = m\<lparr>im_closing := True, im_active := (\<lambda>i. map_option (\<lambda>_. True) (im_active m i))\<rparr>"

definition close_installs_if_idle :: "manager \<Rightarrow> (install_error, unit) result \<times> manager" where
  "close_installs_if_idle m =
     (if im_closing m \<or> im_relaunch_closed m then (Inl LauncherClosing, m)
      else if im_active m \<noteq> Map.empty then (Inl InstallationsActive, m)
      else (Inr (), m\<lparr>im_relaunch_closed := True\<rparr>))"

definition reopen_installs :: "manager \<Rightarrow> manager" where
  "reopen_installs m = m\<lparr>im_relaunch_closed := False\<rparr>"

section \<open>The worker and its guard\<close>

text \<open>What \<open>session.rs\<close> changes in its draft: the verified environment, the start, the exit, the stop, a failure.\<close>

datatype worker_change =
    SetBinding installation_binding
  | SetRunning
  | SetExit "32 word"
  | SetInterrupted
  | SetFailed string

fun change_draft :: "worker_change \<Rightarrow> installation_draft \<Rightarrow> installation_draft" where
  "change_draft (SetBinding b) d = d\<lparr>dr_binding := Some b\<rparr>"
| "change_draft SetRunning d = (if dr_status d \<noteq> InstallStopping then d\<lparr>dr_status := InstallRunning\<rparr> else d)"
| "change_draft (SetExit code) d =
     d\<lparr>dr_exit_code := Some code, dr_status := if code = 0 then AwaitingClient else InstallFailed,
       dr_message := Some (if code = 0 then InstallerClosed else InstallerExitCode code)\<rparr>"
| "change_draft SetInterrupted d = d\<lparr>dr_status := InstallInterrupted, dr_message := Some StoppedByUser\<rparr>"
| "change_draft (SetFailed e) d = d\<lparr>dr_status := InstallFailed, dr_message := Some (InstallError e)\<rparr>"

definition worker_update :: "'v install_env \<Rightarrow> (nat \<Rightarrow> stamp) \<Rightarrow> string \<Rightarrow> worker_change \<Rightarrow> installation_draft install_transaction" where
  "worker_update env st i c = update env st i (\<lambda>d. Inr (change_draft c d))"

text \<open>The drop of \<open>ActiveInstallation\<close>: is the draft left active, its recovery, and the end of the ownership.\<close>

definition drop_looks :: "'v install_env \<Rightarrow> (nat \<Rightarrow> stamp) \<Rightarrow> string \<Rightarrow> bool install_transaction" where
  "drop_looks env st i m =
     chain (get_installation env st i m) (\<lambda>(r, m1).
     ret (Inr (case r of Inl _ \<Rightarrow> False | Inr d \<Rightarrow> status_active (dr_status d)), m1))"

definition recovered_draft :: "installation_draft \<Rightarrow> installation_draft" where
  "recovered_draft d =
     (if status_active (dr_status d) then d\<lparr>dr_status := InstallInterrupted, dr_message := Some ExecutionInterrupted\<rparr> else d)"

definition drop_recovers :: "'v install_env \<Rightarrow> (nat \<Rightarrow> stamp) \<Rightarrow> string \<Rightarrow> installation_draft install_transaction" where
  "drop_recovers env st i = update env st i (\<lambda>d. Inr (recovered_draft d))"

definition drop_finishes :: "string \<Rightarrow> (install_error, unit) result \<Rightarrow> manager \<Rightarrow> manager" where
  "drop_finishes i recovery m =
     (let m1 = (case recovery of
                  Inr _ \<Rightarrow> m
                | Inl _ \<Rightarrow>
                    (case im_drafts m of
                       None \<Rightarrow> m
                     | Some ds \<Rightarrow>
                         (case draft_of i ds of
                            None \<Rightarrow> m
                          | Some d \<Rightarrow> m\<lparr>im_drafts := Some (replace_first i
                              (d\<lparr>dr_status := InstallInterrupted, dr_message := Some NotSaved\<rparr>) ds)\<rparr>)))
      in m1\<lparr>im_active := (im_active m1)(i := None)\<rparr>)"

text \<open>The beginning and the end of \<open>confirm\<close>, between which it holds the lock \<open>installation-confirm\<close>.\<close>

definition confirm_begins :: "'v install_env \<Rightarrow> (nat \<Rightarrow> stamp) \<Rightarrow> bool \<Rightarrow> string \<Rightarrow> installation_draft install_transaction" where
  "confirm_begins env st admitted i m =
     (if \<not> admitted then reply_now (Inl OperationBusy) m
      else chain (get_installation env st i m) (\<lambda>(r, m1).
        case r of
          Inl e \<Rightarrow> ret (Inl e, m1)
        | Inr d \<Rightarrow>
            chain (is_active env st i m1) (\<lambda>(r, m2).
            case r of
              Inl e \<Rightarrow> ret (Inl e, m2)
            | Inr act \<Rightarrow>
                ret (if act \<or> dr_status d \<notin> {AwaitingClient, InstallCompleted} then Inl NotFinished else Inr d, m2))))"

definition confirm_ends :: "'v install_env \<Rightarrow> (nat \<Rightarrow> stamp) \<Rightarrow> string \<Rightarrow> installation_draft install_transaction" where
  "confirm_ends env st i = update env st i (\<lambda>d. Inr (d\<lparr>dr_status := InstallCompleted\<rparr>))"

section \<open>The launcher\<close>

text \<open>A worker works, then its guard recovers the draft it left active, then it gives the installation up.\<close>

datatype owner_phase = Working | Recovering | Finishing "(install_error, unit) result"

text \<open>\<open>sy_workers\<close>: the workers there are, each with its installation; nothing in this list keeps two of them from having the
  same one.  \<open>sy_created\<close>: the installations whose creation has returned Ok, in any life of the launcher.  \<open>sy_used\<close>: every identifier
  that was ever generated.\<close>

record install_system =
  sy_manager :: manager
  sy_world :: world
  sy_workers :: "(string \<times> owner_phase) list"
  sy_confirming :: "string set"
  sy_created :: "string set"
  sy_used :: "string set"

definition restarted :: "world \<Rightarrow> install_system \<Rightarrow> install_system" where
  "restarted w s = s\<lparr>sy_manager := new_manager, sy_world := w, sy_workers := [], sy_confirming := {}\<rparr>"

definition in_section :: "'a install_transaction \<Rightarrow> ((install_error, 'a) result \<Rightarrow> install_system \<Rightarrow> install_system) \<Rightarrow> install_system \<Rightarrow> install_system" where
  "in_section op f s =
     (case op (sy_manager s) (sy_world s) of
        (Done (r, m), w) \<Rightarrow> f r (s\<lparr>sy_manager := m, sy_world := w\<rparr>)
      | (_, w) \<Rightarrow> restarted w s)"

text \<open>A new worker; the worker at a position in another phase; its end.\<close>

definition add_worker :: "string \<Rightarrow> install_system \<Rightarrow> install_system" where
  "add_worker i s = s\<lparr>sy_workers := (i, Working) # sy_workers s\<rparr>"

definition set_phase :: "nat \<Rightarrow> string \<Rightarrow> owner_phase \<Rightarrow> install_system \<Rightarrow> install_system" where
  "set_phase k i p s = s\<lparr>sy_workers := (sy_workers s)[k := (i, p)]\<rparr>"

definition end_worker :: "nat \<Rightarrow> install_system \<Rightarrow> install_system" where
  "end_worker k s = s\<lparr>sy_workers := take k (sy_workers s) @ drop (Suc k) (sy_workers s)\<rparr>"

definition worker_at :: "install_system \<Rightarrow> nat \<Rightarrow> string \<Rightarrow> owner_phase \<Rightarrow> bool" where
  "worker_at s k i p \<longleftrightarrow> k < length (sy_workers s) \<and> sy_workers s ! k = (i, p)"

definition unit_of :: "('e, 'a) result \<Rightarrow> ('e, unit) result" where
  "unit_of r = (case r of Inl e \<Rightarrow> Inl e | Inr _ \<Rightarrow> Inr ())"

inductive install_step :: "'v install_env \<Rightarrow> install_system \<Rightarrow> install_system \<Rightarrow> bool" for env where
  lists: "install_step env s (in_section (list_installations env st) (\<lambda>_ s. s) s)"
| creates: "i \<notin> sy_used s \<Longrightarrow>
    install_step env s (in_section (create_draft env st runners i is_file input)
      (\<lambda>r s. case r of Inl _ \<Rightarrow> s | Inr _ \<Rightarrow> s\<lparr>sy_created := insert i (sy_created s)\<rparr>) (s\<lparr>sy_used := insert i (sy_used s)\<rparr>))"
| reserves: "install_step env s (in_section (reserve env st (i \<notin> sy_confirming s) i)
      (\<lambda>r s. case r of Inl _ \<Rightarrow> s | Inr _ \<Rightarrow> add_worker i s) s)"
| works: "worker_at s k i Working \<Longrightarrow> install_step env s (in_section (worker_update env st i c) (\<lambda>_ s. s) s)"
| drop_look: "worker_at s k i Working \<Longrightarrow>
    install_step env s (in_section (drop_looks env st i)
      (\<lambda>r. set_phase k i (if r = Inr True then Recovering else Finishing (Inr ()))) s)"
| drop_recover: "worker_at s k i Recovering \<Longrightarrow>
    install_step env s (in_section (drop_recovers env st i) (\<lambda>r. set_phase k i (Finishing (unit_of r))) s)"
| drop_finish: "worker_at s k i (Finishing r) \<Longrightarrow>
    install_step env s (end_worker k (s\<lparr>sy_manager := drop_finishes i r (sy_manager s)\<rparr>))"
| install_cancels: "install_step env s (in_section (cancel_installation env st i) (\<lambda>_ s. s) s)"
| confirms: "install_step env s (in_section (confirm_begins env st (i \<notin> sy_confirming s) i)
      (\<lambda>r s. case r of Inl _ \<Rightarrow> s | Inr _ \<Rightarrow> s\<lparr>sy_confirming := insert i (sy_confirming s)\<rparr>) s)"
| confirmed: "i \<in> sy_confirming s \<Longrightarrow>
    install_step env s (in_section (confirm_ends env st i) (\<lambda>_ s. s\<lparr>sy_confirming := sy_confirming s - {i}\<rparr>) s)"
| confirm_fails: "i \<in> sy_confirming s \<Longrightarrow> install_step env s (s\<lparr>sy_confirming := sy_confirming s - {i}\<rparr>)"
| install_shuts_down: "install_step env s (s\<lparr>sy_manager := request_shutdown (sy_manager s)\<rparr>)"
| install_closes: "install_step env s (s\<lparr>sy_manager := snd (close_installs_if_idle (sy_manager s))\<rparr>)"
| install_reopens: "im_relaunch_closed (sy_manager s) \<Longrightarrow> install_step env s (s\<lparr>sy_manager := reopen_installs (sy_manager s)\<rparr>)"
| restarts: "install_step env s (restarted (sy_world s) s)"
| elsewhere: "\<forall>n \<in> {INSTALLATIONS_FILE, backup_path INSTALLATIONS_FILE}. entry AtRoot n d = entry AtRoot n (wd_disk (sy_world s)) \<Longrightarrow>
    install_step env s (s\<lparr>sy_world := (sy_world s)\<lparr>wd_disk := d, wd_clock := t\<rparr>\<rparr>)"

section \<open>What is stored\<close>

text \<open>No read of the stored list ever fails, and neither does the question whether it exists.\<close>

definition readable :: "world \<Rightarrow> bool" where
  "readable w \<longleftrightarrow> (\<forall>k. \<not> wd_unreadable w k AtRoot '''' \<and> \<not> wd_unreadable w k AtRoot INSTALLATIONS_FILE)"

definition steady :: "('e, 'a) run \<Rightarrow> bool" where
  "steady m \<longleftrightarrow> (\<forall>w. wd_unreadable (snd (m w)) = wd_unreadable w)"

lemma steady_ret: "steady (ret x)" by (simp add: steady_def ret_def)

lemma steady_throw: "steady (throw e)" by (simp add: steady_def throw_def)

lemma steady_chain: "steady m \<Longrightarrow> (\<And>x. steady (f x)) \<Longrightarrow> steady (chain m f)"
  unfolding steady_def chain_def by (auto split: prod.split outcome.split) (metis snd_conv)+

lemma steady_sense: "(\<And>x. steady (f x)) \<Longrightarrow> steady (chain (sense g) f)"
  by (rule steady_chain) (simp_all add: steady_def sense_def)

lemma steady_attempt: "steady m \<Longrightarrow> steady (attempt m)"
  unfolding steady_def attempt_def by (auto split: prod.split outcome.split) (metis snd_conv)+

lemma steady_effect: "steady (effect e act part)"
  by (simp add: steady_def effect_def Let_def split: fault.split)

lemma steady_result: "steady (from_result r)"
  by (auto simp: from_result_def steady_ret steady_throw split: sum.split)

lemmas steady_intros = steady_ret steady_throw steady_chain steady_sense steady_attempt steady_effect steady_result

lemma steady_bytes: "steady (read_bytes e name)"
  unfolding read_bytes_def by (auto intro!: steady_sense steady_ret steady_throw split: option.split)

lemma steady_copy: "steady (copy_and_sync src dst)"
  unfolding copy_and_sync_def atomic_def sync_def by (intro steady_intros steady_bytes)

lemma steady_exists: "steady yes \<Longrightarrow> steady no \<Longrightarrow> steady (path_exists name yes no)"
  unfolding path_exists_def by (auto intro!: steady_sense)

lemma steady_commit: "steady (commit_json keep temporary name json)"
  unfolding commit_json_def write_and_sync_def atomic_def sync_def
  by (auto intro!: steady_intros steady_exists steady_copy)

lemma steady_write: "steady (write_json_internal dc keep st name x)"
  unfolding write_json_internal_def atomic_def sync_def
  by (auto intro!: steady_intros steady_commit split: option.split sum.split)

lemma steady_load: "steady (load_json_recovering dc st st' name)"
  unfolding load_json_recovering_def recover_from_backup_def read_validated_def preserve_corrupt_file_def write_json_def replace_json_def
  by (auto intro!: steady_intros steady_exists steady_bytes steady_copy steady_write split: sum.split)

lemma readable_after: "steady m \<Longrightarrow> readable w \<Longrightarrow> m w = (r, w1) \<Longrightarrow> readable w1"
  unfolding steady_def readable_def by (metis snd_conv)

definition ids_of :: "installation_draft list \<Rightarrow> string set" where "ids_of ds = dr_id ` set ds"

definition faithful :: "'v install_env \<Rightarrow> bool" where
  "faithful env \<longleftrightarrow> (\<forall>ds. validate_drafts (ie_uuid env) ds = Inr () \<longrightarrow> prints_back (drafts_document env) ds)"

definition keeps_ids :: "string set \<Rightarrow> string set \<Rightarrow> installation_draft list \<Rightarrow> bool" where
  "keeps_ids C U ds \<longleftrightarrow> C \<subseteq> ids_of ds \<and> ids_of ds \<subseteq> U"

text \<open>The stored list has every created installation; so has the list in memory, and then the stored one does not rest on the backup.
  This is claimed only under \<open>b\<close>: the documents are printed faithfully and no read of the list fails.\<close>

definition stored_ok :: "bool \<Rightarrow> 'v install_env \<Rightarrow> string set \<Rightarrow> string set \<Rightarrow> manager \<Rightarrow> world \<Rightarrow> bool" where
  "stored_ok b env C U m w \<longleftrightarrow> (b \<longrightarrow>
     readable w \<and>
     (\<exists>v. keeps_ids C U v \<and> value_of (drafts_document env) INSTALLATIONS_FILE (wd_disk w) = Some v \<and>
        (im_drafts m \<noteq> None \<longrightarrow> settled (drafts_document env) INSTALLATIONS_FILE v (wd_disk w))) \<and>
     (\<forall>ds. im_drafts m = Some ds \<longrightarrow> keeps_ids C U ds \<and> validate_drafts (ie_uuid env) ds = Inr ()))"

text \<open>How an operation ends: with an answer and a manager, or killed; it does not fail otherwise.\<close>

definition ends :: "(json_error, 'r \<times> manager) outcome \<times> world \<Rightarrow> ('r \<Rightarrow> manager \<Rightarrow> world \<Rightarrow> bool) \<Rightarrow> (world \<Rightarrow> bool) \<Rightarrow> bool" where
  "ends res Q X \<longleftrightarrow> (case res of (Done (r, m), w) \<Rightarrow> Q r m w | (Failed _, w) \<Rightarrow> False | (Killed, w) \<Rightarrow> X w)"

lemma ends_ret: "Q r m w \<Longrightarrow> ends (ret (r, m) w) Q X"
  by (simp add: ends_def ret_def)

lemma ends_answer: "Q r m w \<Longrightarrow> ends (reply_now r m w) Q X"
  by (simp add: reply_now_def ends_ret)

lemma ends_chain: "ends (op w) Q X \<Longrightarrow> (\<And>r m w1. Q r m w1 \<Longrightarrow> ends (f (r, m) w1) R X) \<Longrightarrow> ends (chain op f w) R X"
  unfolding ends_def chain_def by (fastforce split: prod.splits outcome.splits)

lemma ends_mono: "ends res Q X \<Longrightarrow> (\<And>r m w. Q r m w \<Longrightarrow> R r m w) \<Longrightarrow> ends res R X"
  unfolding ends_def by (auto split: prod.splits outcome.splits)


lemma ends_weaken: "ends res Q X \<Longrightarrow> (\<And>w. X w \<Longrightarrow> Y w) \<Longrightarrow> ends res Q Y"
  unfolding ends_def by (auto split: prod.splits outcome.splits)

definition loaded :: "manager \<Rightarrow> manager \<Rightarrow> bool" where
  "loaded m m1 \<longleftrightarrow> m1 = m \<or> im_drafts m = None \<and> (\<exists>ds. m1 = m\<lparr>im_drafts := Some ds\<rparr> \<and> (\<forall>d \<in> set ds. \<not> status_active (dr_status d)))"

lemma loadedI: "im_drafts m = None \<Longrightarrow> (\<And>d. d \<in> set ds \<Longrightarrow> \<not> status_active (dr_status d)) \<Longrightarrow> loaded m (m\<lparr>im_drafts := Some ds\<rparr>)"
  by (auto simp: loaded_def)

lemma interrupted_inactive: "d \<in> set (map interrupt_left ds) \<Longrightarrow> \<not> status_active (dr_status d)"
  by (auto simp: interrupt_left_def status_active_def)

lemma value_valid:
  "value_of (drafts_document env) name d = Some ds \<Longrightarrow> validate_drafts (ie_uuid env) ds = Inr ()"
  by (auto simp: value_of_def content_of_def drafts_document_def validate_drafts_ok split: if_splits option.splits node.splits sum.splits dest!: check_valid)

lemma save_shape:
  "ends (save_drafts env st next_drafts m w)
    (\<lambda>r m' w'. m' = (case r of Inr _ \<Rightarrow> m\<lparr>im_drafts := Some next_drafts\<rparr> | Inl _ \<Rightarrow> m)) (\<lambda>_. True)"
  by (cases "write_json (drafts_document env) st INSTALLATIONS_FILE next_drafts w"; cases "fst (write_json (drafts_document env) st INSTALLATIONS_FILE next_drafts w)")
    (auto simp: ends_def save_drafts_def attempt_def chain_def ret_def)

lemma saves:
  assumes law: "b \<longrightarrow> faithful env"
    and ok: "b \<longrightarrow> validate_drafts (ie_uuid env) next_drafts = Inr () \<and> readable w \<and> keeps_ids C U v \<and>
      settled (drafts_document env) INSTALLATIONS_FILE v (wd_disk w) \<and> keeps_ids C U next_drafts"
  shows "ends (save_drafts env st next_drafts m w)
    (\<lambda>r m' w'. m' = (case r of Inr _ \<Rightarrow> m\<lparr>im_drafts := Some next_drafts\<rparr> | Inl _ \<Rightarrow> m) \<and> (b \<longrightarrow> readable w' \<and> (case r of
        Inr _ \<Rightarrow> settled (drafts_document env) INSTALLATIONS_FILE next_drafts (wd_disk w')
      | Inl _ \<Rightarrow> (\<exists>x. keeps_ids C U x \<and> settled (drafts_document env) INSTALLATIONS_FILE x (wd_disk w')))))
    (\<lambda>w'. stored_ok b env C U new_manager w')"
proof (cases b)
  case True
  obtain r w1 where run: "write_json (drafts_document env) st INSTALLATIONS_FILE next_drafts w = (r, w1)" by fastforce
  have w: "readable w" and v: "keeps_ids C U v" "settled (drafts_document env) INSTALLATIONS_FILE v (wd_disk w)"
    and ids: "keeps_ids C U next_drafts" using True ok by auto
  have r1: "readable w1" by (rule readable_after [where m = "write_json (drafts_document env) st INSTALLATIONS_FILE next_drafts" and w = w and r = r])
      (simp_all add: run w, simp add: write_json_def steady_write)
  have p: "prints_back (drafts_document env) next_drafts" using law ok True by (simp add: faithful_def)
  from tripleD [OF writes_settled [OF p] v(2) run] r1 v(1) ids show ?thesis
    by (cases r) (auto simp: ends_def save_drafts_def attempt_def chain_def ret_def run stored_ok_def new_manager_def intro: settled_value)
next
  case False
  then show ?thesis by (intro ends_weaken [OF ends_mono [OF save_shape]]) (simp_all add: stored_ok_def)
qed

lemma interrupted_id: "dr_id (interrupt_left d) = dr_id d"
  by (simp add: interrupt_left_def)

lemma interrupted_ids: "ids_of (map interrupt_left ds) = ids_of ds"
  by (simp add: ids_of_def image_image interrupted_id)

lemma interrupted_valid: "validate_drafts uuid ds = Inr () \<Longrightarrow> validate_drafts uuid (map interrupt_left ds) = Inr ()"
proof -
  have "dr_id \<circ> interrupt_left = dr_id" by (auto simp: interrupted_id)
  moreover have "valid_draft uuid (interrupt_left d)" if "valid_draft uuid d" for d
    using valid_unbacked(1) [OF that, of InstallInterrupted] that by (simp add: interrupt_left_def)
  ultimately show "validate_drafts uuid ds = Inr () \<Longrightarrow> validate_drafts uuid (map interrupt_left ds) = Inr ()"
    by (simp add: validate_drafts_ok)
qed

lemma loads_kept:
  assumes law: "faithful env" and ok: "stored_ok True env C U m w"
  shows "ends (load_drafts env st m w)
    (\<lambda>r m' w'. stored_ok True env C U m' w' \<and> loaded m m' \<and> (case r of Inl _ \<Rightarrow> m' = m \<and> im_drafts m = None | Inr _ \<Rightarrow> im_drafts m' \<noteq> None))
    (\<lambda>w'. stored_ok True env C U new_manager w')"
proof (cases "im_drafts m")
  case (Some ds)
  with ok show ?thesis by (simp add: load_drafts_def ends_ret loaded_def)
next
  case None
  let ?D = "drafts_document env"
  obtain v where v: "keeps_ids C U v" "value_of ?D INSTALLATIONS_FILE (wd_disk w) = Some v" using ok by (auto simp: stored_ok_def)
  have w: "readable w" using ok by (simp add: stored_ok_def)
  obtain r w1 where run: "load_json_recovering ?D (st 0) (st 1) INSTALLATIONS_FILE w = (r, w1)" by fastforce
  have r1: "readable w1" by (rule readable_after [where m = "load_json_recovering ?D (st 0) (st 1) INSTALLATIONS_FILE" and w = w and r = r])
      (rule steady_load, rule w, rule run)
  have prints: "\<forall>x. dc_valid ?D x \<longrightarrow> prints_back ?D x" using law by (simp add: faithful_def drafts_document_def)
  have after: "load_ok ?D INSTALLATIONS_FILE (st 0) v (wd_disk w) r (wd_disk w1)"
    by (rule load_keeps [OF prints v(2) _ run]) (use w in \<open>simp add: readable_def reads_ok_def\<close>)
  show ?thesis
  proof (cases r)
    case (Done x)
    then obtain s where x: "r = Done (v, s)" and set: "settled ?D INSTALLATIONS_FILE v (wd_disk w1)" using after by (cases x) auto
    have valid: "validate_drafts (ie_uuid env) v = Inr ()" by (rule value_valid [OF v(2)])
    show ?thesis
    proof (cases "list_ex (\<lambda>d. status_active (dr_status d)) v")
      case True
      have "ends (save_drafts env (st 2) (map interrupt_left v) m w1)
        (\<lambda>r m' w'. stored_ok True env C U m' w' \<and> loaded m m' \<and> (case r of Inl _ \<Rightarrow> m' = m \<and> im_drafts m = None | Inr _ \<Rightarrow> im_drafts m' \<noteq> None))
        (\<lambda>w'. stored_ok True env C U new_manager w')"
        by (rule ends_mono [OF saves [where b = True and v = v and C = C and U = U]])
          (use law r1 set v(1) None valid in \<open>auto simp: keeps_ids_def interrupted_ids stored_ok_def interrupted_valid settled_value loaded_def [of m m]
            simp del: set_map split: sum.splits intro: settled_value intro!: loadedI dest: interrupted_inactive\<close>)
      then show ?thesis using None True by (simp add: load_drafts_def chain_def attempt_def run x del: One_nat_def)
    next
      case False
      then show ?thesis using None v valid set r1
        by (auto simp: load_drafts_def chain_def attempt_def run x ends_def ret_def stored_ok_def loaded_def list_ex_iff settled_value simp del: One_nat_def)
    qed
  next
    case Failed
    then show ?thesis using None after v(1) r1 by (auto simp: load_drafts_def chain_def attempt_def run ends_def ret_def stored_ok_def loaded_def simp del: One_nat_def)
  next
    case Killed
    then show ?thesis using None after v(1) r1 by (auto simp: load_drafts_def chain_def attempt_def run ends_def stored_ok_def new_manager_def simp del: One_nat_def)
  qed
qed

lemma load_shape:
  "ends (load_drafts env st m w)
    (\<lambda>r m' w'. loaded m m' \<and> (case r of Inl _ \<Rightarrow> m' = m \<and> im_drafts m = None | Inr _ \<Rightarrow> im_drafts m' \<noteq> None)) (\<lambda>_. True)"
proof (cases "im_drafts m")
  case (Some ds)
  then show ?thesis by (simp add: load_drafts_def ends_ret loaded_def)
next
  case None
  have save: "ends (save_drafts env (st 2) (map interrupt_left ds) m w1)
    (\<lambda>r m' w'. loaded m m' \<and> (case r of Inl _ \<Rightarrow> m' = m \<and> im_drafts m = None | Inr _ \<Rightarrow> im_drafts m' \<noteq> None)) (\<lambda>_. True)" for ds w1
    by (rule ends_mono [OF save_shape])
      (use None in \<open>auto simp: loaded_def [of m m] simp del: set_map split: sum.splits intro!: loadedI dest: interrupted_inactive\<close>)
  obtain r w1 where run: "load_json_recovering (drafts_document env) (st 0) (st 1) INSTALLATIONS_FILE w = (r, w1)" by fastforce
  show ?thesis
  proof (cases r)
    case (Done x)
    then show ?thesis using None save
      by (cases x) (auto simp: load_drafts_def chain_def attempt_def run ends_def ret_def list_ex_iff loaded_def simp del: One_nat_def)
  qed (use None in \<open>auto simp: load_drafts_def chain_def attempt_def run ends_def ret_def loaded_def simp del: One_nat_def\<close>)
qed

lemma loads:
  assumes law: "b \<longrightarrow> faithful env" and ok: "stored_ok b env C U m w"
  shows "ends (load_drafts env st m w)
    (\<lambda>r m' w'. stored_ok b env C U m' w' \<and> loaded m m' \<and> (case r of Inl _ \<Rightarrow> m' = m \<and> im_drafts m = None | Inr _ \<Rightarrow> im_drafts m' \<noteq> None))
    (\<lambda>w'. stored_ok b env C U new_manager w')"
proof (cases b)
  case True
  with loads_kept [of env C U m w st] assms show ?thesis by simp
next
  case False
  then show ?thesis by (intro ends_weaken [OF ends_mono [OF load_shape]]) (simp_all add: stored_ok_def)
qed

lemma ends_transaction_to:
  assumes "b \<longrightarrow> faithful env" "stored_ok b env C U m w"
    and "\<And>ds m1 w1. stored_ok b env C U m1 w1 \<Longrightarrow> loaded m m1 \<Longrightarrow> im_drafts m1 = Some ds \<Longrightarrow> ends (mutate ds m1 w1) Q X"
    and "\<And>e w1. stored_ok b env C U m w1 \<Longrightarrow> im_drafts m = None \<Longrightarrow> Q (Inl e) m w1"
    and "\<And>w1. stored_ok b env C U new_manager w1 \<Longrightarrow> X w1"
  shows "ends (install_transaction env st mutate m w) Q X"
  unfolding install_transaction_def
  by (rule ends_chain, rule ends_weaken [OF loads [OF assms(1,2)] assms(5)]) (auto intro!: ends_ret assms(3,4) split: sum.splits)

lemma ends_transaction:
  assumes "b \<longrightarrow> faithful env" "stored_ok b env C U m w"
    and "\<And>ds m1 w1. stored_ok b env C U m1 w1 \<Longrightarrow> loaded m m1 \<Longrightarrow> im_drafts m1 = Some ds \<Longrightarrow> ends (mutate ds m1 w1) Q (stored_ok b env C U new_manager)"
    and "\<And>e w1. stored_ok b env C U m w1 \<Longrightarrow> im_drafts m = None \<Longrightarrow> Q (Inl e) m w1"
  shows "ends (install_transaction env st mutate m w) Q (stored_ok b env C U new_manager)"
  by (rule ends_transaction_to [OF assms(1,2)]) (auto intro: assms(3,4))

lemma settled_stored:
  "(b \<Longrightarrow> readable w \<and> settled (drafts_document env) INSTALLATIONS_FILE v (wd_disk w) \<and> keeps_ids C U v \<and>
     (\<forall>ds. im_drafts m = Some ds \<longrightarrow> keeps_ids C U ds \<and> validate_drafts (ie_uuid env) ds = Inr ())) \<Longrightarrow> stored_ok b env C U m w"
  by (cases b) (auto simp: stored_ok_def intro: settled_value)

lemma ends_commit:
  assumes "b \<longrightarrow> faithful env" "stored_ok b env C U m w" "im_drafts m \<noteq> None"
    and "b \<longrightarrow> validate_drafts (ie_uuid env) next_drafts = Inr () \<and> keeps_ids C U next_drafts"
    and "\<And>w1. stored_ok b env (C \<union> N) U (m\<lparr>im_drafts := Some next_drafts\<rparr>) w1 \<Longrightarrow> Q (Inr x) (m\<lparr>im_drafts := Some next_drafts\<rparr>) w1"
    and "\<And>e w1. stored_ok b env C U m w1 \<Longrightarrow> Q (Inl e) m w1" and "N \<subseteq> ids_of next_drafts"
  shows "ends (commit_drafts env st next_drafts x m w) Q (stored_ok b env C U new_manager)"
proof -
  obtain v where v: "b \<longrightarrow> keeps_ids C U v \<and> settled (drafts_document env) INSTALLATIONS_FILE v (wd_disk w) \<and> readable w"
    using assms(2,3) by (cases b) (auto simp: stored_ok_def)
  then have "b \<longrightarrow> validate_drafts (ie_uuid env) next_drafts = Inr () \<and> readable w \<and> keeps_ids C U v \<and>
      settled (drafts_document env) INSTALLATIONS_FILE v (wd_disk w) \<and> keeps_ids C U next_drafts" using assms(4) by blast
  note saved = saves [OF assms(1) this]
  show ?thesis unfolding commit_drafts_def
  proof (rule ends_chain, rule saved)
    fix r :: "(install_error, unit) result" and m' w1
    assume after: "m' = (case r of Inr _ \<Rightarrow> m\<lparr>im_drafts := Some next_drafts\<rparr> | Inl _ \<Rightarrow> m) \<and> (b \<longrightarrow> readable w1 \<and> (case r of
        Inr _ \<Rightarrow> settled (drafts_document env) INSTALLATIONS_FILE next_drafts (wd_disk w1)
      | Inl _ \<Rightarrow> (\<exists>x. keeps_ids C U x \<and> settled (drafts_document env) INSTALLATIONS_FILE x (wd_disk w1))))"
    show "ends ((\<lambda>(r, m1). ret (case r of Inl e \<Rightarrow> Inl e | Inr _ \<Rightarrow> Inr x, m1)) (r, m') w1) Q (stored_ok b env C U new_manager)"
    proof (cases r)
      case (Inl e)
      then obtain y where y: "b \<longrightarrow> keeps_ids C U y \<and> settled (drafts_document env) INSTALLATIONS_FILE y (wd_disk w1)" using after by auto
      have "stored_ok b env C U m w1"
        by (rule settled_stored [where v = y]) (use y Inl after assms(2) in \<open>auto simp: stored_ok_def\<close>)
      then show ?thesis using Inl after by (auto intro!: ends_ret assms(6))
    next
      case (Inr y)
      have "b \<longrightarrow> keeps_ids (C \<union> N) U next_drafts" using assms(4,7) by (auto simp: keeps_ids_def)
      then have "stored_ok b env (C \<union> N) U (m\<lparr>im_drafts := Some next_drafts\<rparr>) w1"
        by (intro settled_stored [where v = next_drafts]) (use Inr after assms(4) in auto)
      then show ?thesis using Inr after by (auto intro!: ends_ret assms(5))
    qed
  qed
qed

section \<open>Workers, statuses and admission\<close>

definition status_of :: "installation_draft list \<Rightarrow> string \<Rightarrow> installation_status option" where
  "status_of ds i = map_option dr_status (draft_of i ds)"

text \<open>\<open>Z\<close>: installations known to be completed in this life of the launcher.\<close>

definition statuses_ok :: "string set \<Rightarrow> (string \<rightharpoonup> owner_phase) \<Rightarrow> installation_draft list \<Rightarrow> bool" where
  "statuses_ok Z wk ds \<longleftrightarrow>
     (\<forall>i. wk i \<noteq> None \<longrightarrow> status_of ds i \<noteq> None) \<and>
     (\<forall>i. status_of ds i \<in> {Some InstallPreparing, Some InstallRunning} \<longrightarrow> (\<exists>p. wk i = Some p \<and> p \<noteq> Finishing (Inr ()))) \<and>
     (\<forall>i. status_of ds i = Some InstallCompleted \<longrightarrow> wk i = None) \<and>
     (\<forall>i \<in> Z. status_of ds i = Some InstallCompleted)"

definition workers_ok :: "string set \<Rightarrow> (string \<rightharpoonup> owner_phase) \<Rightarrow> string set \<Rightarrow> manager \<Rightarrow> bool" where
  "workers_ok Z wk cf m \<longleftrightarrow>
     (\<forall>i. im_active m i = None \<longleftrightarrow> wk i = None) \<and>
     (case im_drafts m of None \<Rightarrow> wk = Map.empty \<and> Z = {} | Some ds \<Rightarrow> statuses_ok Z wk ds) \<and>
     (im_relaunch_closed m \<longrightarrow> wk = Map.empty) \<and>
     (im_closing m \<longrightarrow> (\<forall>i. im_active m i \<noteq> Some False)) \<and>
     (\<forall>i \<in> cf. wk i = None)"

lemma draft_of_Some: "draft_of i ds = Some d \<Longrightarrow> d \<in> set ds \<and> dr_id d = i"
  by (auto simp: draft_of_def find_Some_iff)

lemma draft_of_None: "draft_of i ds = None \<longleftrightarrow> i \<notin> ids_of ds"
  by (auto simp: draft_of_def find_None_iff ids_of_def)

lemma draft_of_simps [simp]:
  "draft_of i [] = None" "draft_of i (d # ds) = (if dr_id d = i then Some d else draft_of i ds)"
  by (auto simp: draft_of_def)

lemma status_replaced:
  "draft_of i ds = Some d \<Longrightarrow> dr_id d' = i \<Longrightarrow> status_of (replace_first i d' ds) = (status_of ds)(i := Some (dr_status d'))"
  by (induction ds) (auto simp: status_of_def fun_eq_iff split: if_splits)

lemma map_replaced: "draft_of i ds = Some d \<Longrightarrow> dr_id d' = i \<Longrightarrow> map dr_id (replace_first i d' ds) = map dr_id ds"
  by (induction ds) (auto split: if_splits)

lemma ids_replaced: "draft_of i ds = Some d \<Longrightarrow> dr_id d' = i \<Longrightarrow> ids_of (replace_first i d' ds) = ids_of ds"
  unfolding ids_of_def using map_replaced by (metis set_map)

lemma set_replaced: "set (replace_first i d' ds) \<subseteq> insert d' (set ds)"
  by (induction ds) auto

lemma valid_replaced:
  assumes "validate_drafts uuid ds = Inr ()" "draft_of i ds = Some d" "dr_id d' = i" "valid_draft uuid d'"
  shows "validate_drafts uuid (replace_first i d' ds) = Inr ()"
  using assms set_replaced [of i d' ds] map_replaced [OF assms(2,3)] by (auto simp: validate_drafts_ok)

lemma loaded_workers: "workers_ok Z wk cf m \<Longrightarrow> loaded m m1 \<Longrightarrow> workers_ok Z wk cf m1"
  unfolding loaded_def
proof (elim disjE conjE exE)
  fix ds
  assume ok: "workers_ok Z wk cf m" and none: "im_drafts m = None" and m1: "m1 = m\<lparr>im_drafts := Some ds\<rparr>"
    and idle: "\<forall>d \<in> set ds. \<not> status_active (dr_status d)"
  have "statuses_ok Z wk ds"
  proof -
    have "status_of ds i \<notin> {Some InstallPreparing, Some InstallRunning}" for i
      using idle draft_of_Some [of i ds] by (cases "draft_of i ds") (auto simp: status_of_def status_active_def)
    with ok none show ?thesis by (auto simp: workers_ok_def statuses_ok_def)
  qed
  with ok none m1 show ?thesis by (auto simp: workers_ok_def)
qed simp

text \<open>A draft changes its status while its worker changes its phase.\<close>

lemma workers_change:
  assumes "workers_ok Z wk cf m" "im_drafts m = Some ds" "draft_of i ds = Some d" "dr_id d' = i"
    and "dr_status d' \<in> {InstallPreparing, InstallRunning} \<Longrightarrow> (\<exists>p. q = Some p \<and> p \<noteq> Finishing (Inr ()))"
    and "dr_status d' = InstallCompleted \<Longrightarrow> q = None" "i \<in> Z \<Longrightarrow> dr_status d' = InstallCompleted"
  shows "statuses_ok Z (wk(i := q)) (replace_first i d' ds)"
  using assms unfolding workers_ok_def statuses_ok_def by (auto simp: status_replaced)

lemma workers_status:
  assumes "workers_ok Z wk cf m" "im_drafts m = Some ds" "draft_of i ds = Some d"
  shows "dr_status d \<in> {InstallPreparing, InstallRunning} \<Longrightarrow> (\<exists>p. wk i = Some p \<and> p \<noteq> Finishing (Inr ()))"
    "dr_status d = InstallCompleted \<Longrightarrow> wk i = None" "i \<in> Z \<Longrightarrow> dr_status d = InstallCompleted"
  using assms by (auto simp: workers_ok_def statuses_ok_def status_of_def)

lemma worker_draft: "workers_ok Z wk cf m \<Longrightarrow> im_drafts m = Some ds \<Longrightarrow> wk i \<noteq> None \<Longrightarrow> draft_of i ds \<noteq> None"
  by (auto simp: workers_ok_def statuses_ok_def status_of_def)

subsection \<open>Every operation keeps both\<close>

abbreviation sound :: "bool \<Rightarrow> 'v install_env \<Rightarrow> string set \<Rightarrow> string set \<Rightarrow> string set \<Rightarrow> (string \<rightharpoonup> owner_phase) \<Rightarrow> string set \<Rightarrow> manager \<Rightarrow> world \<Rightarrow> bool" where
  "sound b env C U Z wk cf m w \<equiv> stored_ok b env C U m w \<and> workers_ok Z wk cf m"

lemma list_sound:
  assumes "b \<longrightarrow> faithful env" "sound b env C U Z wk cf m w"
  shows "ends (list_installations env st m w) (\<lambda>_. sound b env C U Z wk cf) (stored_ok b env C U new_manager)"
  unfolding list_installations_def
  by (rule ends_transaction [OF assms(1)]) (use assms(2) in \<open>auto intro!: ends_answer intro: loaded_workers\<close>)

lemma get_sound:
  assumes "b \<longrightarrow> faithful env" "sound b env C U Z wk cf m w"
  shows "ends (get_installation env st i m w)
    (\<lambda>r m' w'. sound b env C U Z wk cf m' w' \<and>
       (case r of Inl _ \<Rightarrow> wk i = None | Inr d \<Rightarrow> \<exists>ds. im_drafts m' = Some ds \<and> draft_of i ds = Some d))
    (stored_ok b env C U new_manager)"
  unfolding get_installation_def
proof (rule ends_transaction [OF assms(1)])
  fix ds m1 w1
  assume 1: "stored_ok b env C U m1 w1" "loaded m m1" "im_drafts m1 = Some ds"
  then have ok: "workers_ok Z wk cf m1" using assms(2) loaded_workers by blast
  show "ends (reply_now (case draft_of i ds of None \<Rightarrow> Inl NoSuchInstallation | Some d \<Rightarrow> Inr d) m1 w1)
      (\<lambda>r m' w'. sound b env C U Z wk cf m' w' \<and>
       (case r of Inl _ \<Rightarrow> wk i = None | Inr d \<Rightarrow> \<exists>ds. im_drafts m' = Some ds \<and> draft_of i ds = Some d)) (stored_ok b env C U new_manager)"
    by (rule ends_answer) (use 1 ok worker_draft [OF ok 1(3), of i] in \<open>cases "draft_of i ds"; cases "wk i"; simp\<close>)
qed (use assms(2) in \<open>auto simp: workers_ok_def\<close>)

lemma active_sound:
  assumes "b \<longrightarrow> faithful env" "sound b env C U Z wk cf m w"
  shows "ends (is_active env st i m w)
    (\<lambda>r m' w'. sound b env C U Z wk cf m' w' \<and> (\<forall>act. r = Inr act \<longrightarrow> (act \<longleftrightarrow> wk i \<noteq> None)))
    (stored_ok b env C U new_manager)"
  unfolding is_active_def
proof (rule ends_transaction [OF assms(1)])
  fix ds m1 w1
  assume 1: "stored_ok b env C U m1 w1" "loaded m m1" "im_drafts m1 = Some ds"
  then have ok: "workers_ok Z wk cf m1" using assms(2) loaded_workers by blast
  then have "im_active m1 i = None \<longleftrightarrow> wk i = None" by (simp add: workers_ok_def)
  with 1 ok show "ends (reply_now (Inr (im_active m1 i \<noteq> None)) m1 w1)
      (\<lambda>r m' w'. sound b env C U Z wk cf m' w' \<and> (\<forall>act. r = Inr act \<longrightarrow> (act \<longleftrightarrow> wk i \<noteq> None))) (stored_ok b env C U new_manager)"
    by (auto intro!: ends_answer)
qed (use assms(2) in auto)

lemma update_body:
  assumes "\<And>e. Q (Inl e) m w"
    and "\<And>d d'. draft_of i ds = Some d \<Longrightarrow> f d = Inr d' \<Longrightarrow> valid_draft uuid d' \<Longrightarrow> ends (save d' m w) Q X"
  shows "ends ((case draft_of i ds of None \<Rightarrow> reply_now (Inl NoSuchInstallation) m
     | Some d \<Rightarrow> (case f d of Inl e \<Rightarrow> reply_now (Inl e) m
        | Inr d' \<Rightarrow> (case validate_draft uuid d' of Inl e \<Rightarrow> reply_now (Inl (DraftError e)) m | Inr _ \<Rightarrow> save d' m))) w) Q X"
  using assms by (auto intro!: ends_answer split: option.split sum.split)

lemma update_sound:
  assumes "b \<longrightarrow> faithful env" "sound b env C U Z wk cf m w"
    and change: "\<And>d d'. f d = Inr d' \<Longrightarrow> dr_id d' = dr_id d"
    and status: "\<And>ds d d'. f d = Inr d' \<Longrightarrow>
      (dr_status d \<in> {InstallPreparing, InstallRunning} \<Longrightarrow> (\<exists>p. wk i = Some p \<and> p \<noteq> Finishing (Inr ()))) \<Longrightarrow>
      (dr_status d = InstallCompleted \<Longrightarrow> wk i = None) \<Longrightarrow> (i \<in> Z \<Longrightarrow> dr_status d = InstallCompleted) \<Longrightarrow>
      (dr_status d' \<in> {InstallPreparing, InstallRunning} \<longrightarrow> (\<exists>p. wk i = Some p \<and> p \<noteq> Finishing (Inr ()))) \<and>
      (dr_status d' = InstallCompleted \<longrightarrow> wk i = None) \<and> (i \<in> Z \<longrightarrow> dr_status d' = InstallCompleted)"
  shows "ends (update env st i f m w)
    (\<lambda>r m' w'. sound b env C U Z wk cf m' w' \<and>
       (\<forall>d'. r = Inr d' \<longrightarrow> (\<exists>ds d. f d = Inr d' \<and> im_drafts m' = Some ds \<and> status_of ds i = Some (dr_status d'))))
    (stored_ok b env C U new_manager)"
  unfolding update_def
proof (rule ends_transaction [OF assms(1)])
  fix ds m1 w1
  assume 1: "stored_ok b env C U m1 w1" "loaded m m1" "im_drafts m1 = Some ds"
  then have ok: "workers_ok Z wk cf m1" using assms(2) loaded_workers by blast
  let ?Q = "\<lambda>r m' w'. sound b env C U Z wk cf m' w' \<and>
       (\<forall>d'. r = Inr d' \<longrightarrow> (\<exists>ds d. f d = Inr d' \<and> im_drafts m' = Some ds \<and> status_of ds i = Some (dr_status d')))"
  have saved: "ends (commit_drafts env (st 3) (replace_first i d' ds) d' m1 w1) ?Q (stored_ok b env C U new_manager)"
    if d: "draft_of i ds = Some d" "f d = Inr d'" "valid_draft (ie_uuid env) d'" for d d'
  proof -
    have i: "dr_id d' = i" using change [OF d(2)] draft_of_Some [OF d(1)] by simp
    have "statuses_ok Z (wk(i := wk i)) (replace_first i d' ds)"
      by (rule workers_change [OF ok 1(3) d(1) i]) (use status [OF d(2) workers_status [OF ok 1(3) d(1)]] in auto)
    then have ok': "workers_ok Z wk cf (m1\<lparr>im_drafts := Some (replace_first i d' ds)\<rparr>)" using ok by (simp add: workers_ok_def)
    have ids: "b \<longrightarrow> validate_drafts (ie_uuid env) (replace_first i d' ds) = Inr () \<and> keeps_ids C U (replace_first i d' ds)"
      using 1 ids_replaced [OF d(1) i] valid_replaced [OF _ d(1) i d(3)] by (auto simp: stored_ok_def keeps_ids_def)
    show ?thesis
      by (rule ends_commit [OF assms(1) 1(1) _ ids, where N = "{}"])
        (use 1 ok ok' d i in \<open>auto simp: status_replaced [OF d(1) i]\<close>)
  qed
  show "ends ((case draft_of i ds of None \<Rightarrow> reply_now (Inl NoSuchInstallation) m1
     | Some d \<Rightarrow> (case f d of Inl e \<Rightarrow> reply_now (Inl e) m1
        | Inr d' \<Rightarrow> (case validate_draft (ie_uuid env) d' of Inl e \<Rightarrow> reply_now (Inl (DraftError e)) m1
            | Inr _ \<Rightarrow> commit_drafts env (st 3) (replace_first i d' ds) d' m1))) w1) ?Q (stored_ok b env C U new_manager)"
    by (rule update_body [where save = "\<lambda>d'. commit_drafts env (st 3) (replace_first i d' ds) d'"])
      (use 1(1) ok in simp, rule saved)
qed (use assms(2) in auto)

lemma works_sound:
  assumes "b \<longrightarrow> faithful env" "sound b env C U Z wk cf m w" "wk i = Some Working"
  shows "ends (worker_update env st i c m w) (\<lambda>_. sound b env C U Z wk cf) (stored_ok b env C U new_manager)"
  unfolding worker_update_def
proof (rule ends_mono [OF update_sound [OF assms(1,2)]])
  show "dr_id d' = dr_id d" if "Inr (change_draft c d) = Inr d'" for d d' :: installation_draft
    using that by (cases c) auto
  show "(dr_status d' \<in> {InstallPreparing, InstallRunning} \<longrightarrow> (\<exists>p. wk i = Some p \<and> p \<noteq> Finishing (Inr ()))) \<and>
      (dr_status d' = InstallCompleted \<longrightarrow> wk i = None) \<and> (i \<in> Z \<longrightarrow> dr_status d' = InstallCompleted)"
    if "Inr (change_draft c d) = Inr d'" "dr_status d = InstallCompleted \<Longrightarrow> wk i = None" "i \<in> Z \<Longrightarrow> dr_status d = InstallCompleted"
    for d d' :: installation_draft
    using that assms(3) by (cases c) (auto split: if_splits)
qed simp

lemma workers_phase:
  assumes "workers_ok Z wk cf m" "wk i \<noteq> None" "im_drafts m = Some ds"
    and "q = Finishing (Inr ()) \<Longrightarrow> status_of ds i \<notin> {Some InstallPreparing, Some InstallRunning}"
  shows "workers_ok Z (wk(i := Some q)) cf m"
  using assms unfolding workers_ok_def statuses_ok_def by (auto simp: fun_eq_iff)

lemma drop_look_sound:
  assumes "b \<longrightarrow> faithful env" "sound b env C U Z wk cf m w" "wk i = Some Working"
  shows "ends (drop_looks env st i m w)
    (\<lambda>r. sound b env C U Z (wk(i := Some (if r = Inr True then Recovering else Finishing (Inr ())))) cf) (stored_ok b env C U new_manager)"
  unfolding drop_looks_def
proof (rule ends_chain, rule get_sound [OF assms(1,2), where i = i])
  fix r :: "(install_error, installation_draft) result" and m1 w1
  assume 1: "sound b env C U Z wk cf m1 w1 \<and> (case r of Inl _ \<Rightarrow> wk i = None | Inr d \<Rightarrow> \<exists>ds. im_drafts m1 = Some ds \<and> draft_of i ds = Some d)"
  then obtain d ds where d: "r = Inr d" "im_drafts m1 = Some ds" "draft_of i ds = Some d" using assms(3) by (cases r) auto
  have "workers_ok Z (wk(i := Some (if status_active (dr_status d) then Recovering else Finishing (Inr ())))) cf m1"
    by (rule workers_phase [of Z wk cf m1 i ds]) (use 1 d assms(3) in \<open>auto simp: status_of_def status_active_def split: if_splits\<close>)
  with 1 d show "ends ((\<lambda>(r, m1). ret (Inr (case r of Inl _ \<Rightarrow> False | Inr d \<Rightarrow> status_active (dr_status d)), m1)) (r, m1) w1)
      (\<lambda>r. sound b env C U Z (wk(i := Some (if r = Inr True then Recovering else Finishing (Inr ())))) cf) (stored_ok b env C U new_manager)"
    by (auto intro!: ends_ret)
qed

lemma recovered_inactive: "\<not> status_active (dr_status (recovered_draft d))"
  by (simp add: recovered_draft_def status_active_def)

lemma drop_recover_sound:
  assumes "b \<longrightarrow> faithful env" "sound b env C U Z wk cf m w" "wk i = Some Recovering"
  shows "ends (drop_recovers env st i m w) (\<lambda>r. sound b env C U Z (wk(i := Some (Finishing (unit_of r)))) cf) (stored_ok b env C U new_manager)"
  unfolding drop_recovers_def
proof (rule ends_mono [OF update_sound [OF assms(1,2)]])
  show "dr_id d' = dr_id d" if "Inr (recovered_draft d) = Inr d'" for d d' :: installation_draft
    using that by (auto simp: recovered_draft_def)
  show "(dr_status d' \<in> {InstallPreparing, InstallRunning} \<longrightarrow> (\<exists>p. wk i = Some p \<and> p \<noteq> Finishing (Inr ()))) \<and>
      (dr_status d' = InstallCompleted \<longrightarrow> wk i = None) \<and> (i \<in> Z \<longrightarrow> dr_status d' = InstallCompleted)"
    if "Inr (recovered_draft d) = Inr d'" "dr_status d = InstallCompleted \<Longrightarrow> wk i = None" "i \<in> Z \<Longrightarrow> dr_status d = InstallCompleted"
    for d d' :: installation_draft
    using that assms(3) by (auto simp: recovered_draft_def split: if_splits)
  fix r :: "(install_error, installation_draft) result" and m' w'
  assume 1: "sound b env C U Z wk cf m' w' \<and> (\<forall>d'. r = Inr d' \<longrightarrow>
      (\<exists>ds d. Inr (recovered_draft d) = Inr d' \<and> im_drafts m' = Some ds \<and> status_of ds i = Some (dr_status d')))"
  have "im_drafts m' \<noteq> None" using 1 assms(3) by (auto simp: workers_ok_def split: option.splits)
  then obtain ds where ds: "im_drafts m' = Some ds" by auto
  have "workers_ok Z (wk(i := Some (Finishing (unit_of r)))) cf m'"
  proof (rule workers_phase [OF _ _ ds])
    assume "Finishing (unit_of r) = Finishing (Inr ())"
    then obtain d where "r = Inr (recovered_draft d)" using 1 by (cases r) (auto simp: unit_of_def)
    then show "status_of ds i \<notin> {Some InstallPreparing, Some InstallRunning}"
      using 1 ds recovered_inactive [of d] by (auto simp: status_active_def)
  qed (use 1 assms(3) in auto)
  with 1 show "sound b env C U Z (wk(i := Some (Finishing (unit_of r)))) cf m' w'" by blast
qed

lemma confirmed_sound:
  assumes "b \<longrightarrow> faithful env" "sound b env C U Z wk cf m w" "i \<in> cf"
  shows "ends (confirm_ends env st i m w) (\<lambda>_. sound b env C U Z wk (cf - {i})) (stored_ok b env C U new_manager)"
  unfolding confirm_ends_def
proof (rule ends_mono [OF update_sound [OF assms(1,2)]])
  have "wk i = None" using assms(2,3) by (auto simp: workers_ok_def)
  then show "(dr_status d' \<in> {InstallPreparing, InstallRunning} \<longrightarrow> (\<exists>p. wk i = Some p \<and> p \<noteq> Finishing (Inr ()))) \<and>
      (dr_status d' = InstallCompleted \<longrightarrow> wk i = None) \<and> (i \<in> Z \<longrightarrow> dr_status d' = InstallCompleted)"
    if "Inr (d\<lparr>dr_status := InstallCompleted\<rparr>) = Inr d'" for d d' :: installation_draft
    using that by auto
qed (auto simp: workers_ok_def)

lemma confirms_sound:
  assumes "b \<longrightarrow> faithful env" "sound b env C U Z wk cf m w"
  shows "ends (confirm_begins env st a i m w)
    (\<lambda>r. sound b env C U Z wk (case r of Inl _ \<Rightarrow> cf | Inr _ \<Rightarrow> insert i cf)) (stored_ok b env C U new_manager)"
proof (cases a)
  case True
  let ?Q = "\<lambda>r. sound b env C U Z wk (case r of Inl _ \<Rightarrow> cf | Inr _ \<Rightarrow> insert i cf)"
  have looks: "ends (chain (is_active env st i m1) (\<lambda>(r, m2). case r of Inl e \<Rightarrow> ret (Inl e, m2)
      | Inr act \<Rightarrow> ret (if act \<or> dr_status d \<notin> {AwaitingClient, InstallCompleted} then Inl NotFinished else Inr d, m2)) w1) ?Q (stored_ok b env C U new_manager)"
    if "sound b env C U Z wk cf m1 w1" for m1 w1 and d :: installation_draft
  proof (rule ends_chain, rule active_sound [OF assms(1) that, where i = i])
    fix r :: "(install_error, bool) result" and m2 w2
    assume 1: "sound b env C U Z wk cf m2 w2 \<and> (\<forall>act. r = Inr act \<longrightarrow> (act \<longleftrightarrow> wk i \<noteq> None))"
    have "workers_ok Z wk (insert i cf) m2" if "r = Inr False"
      using 1 [THEN conjunct1] 1 [THEN conjunct2, rule_format, OF that] by (simp add: workers_ok_def)
    with 1 show "ends ((\<lambda>(r, m2). case r of Inl e \<Rightarrow> ret (Inl e, m2)
      | Inr act \<Rightarrow> ret (if act \<or> dr_status d \<notin> {AwaitingClient, InstallCompleted} then Inl NotFinished else Inr d, m2)) (r, m2) w2) ?Q
      (stored_ok b env C U new_manager)"
      by (cases r) (simp_all add: ends_ret split: if_split)
  qed
  show ?thesis unfolding confirm_begins_def if_not_P [OF not_not [THEN iffD2, OF True]]
    by (rule ends_chain, rule get_sound [OF assms, where i = i]) (auto intro!: ends_ret looks split: sum.splits)
next
  case False
  then show ?thesis using assms(2) by (auto simp: confirm_begins_def intro!: ends_answer)
qed

lemma create_sound:
  assumes law: "b \<longrightarrow> faithful env" and ok: "sound b env C U Z wk cf m w" and i: "i \<notin> U"
  shows "ends (create_draft env st runners i is_file input m w)
    (\<lambda>r. sound b env (case r of Inl _ \<Rightarrow> C | Inr _ \<Rightarrow> insert i C) (insert i U) Z wk cf) (stored_ok b env C (insert i U) new_manager)"
    (is "ends _ ?Q ?X")
proof -
  let ?d = "new_draft i input"
  have wider: "stored_ok b env C (insert i U) m' w'" if "stored_ok b env C U m' w'" for m' w'
    using that unfolding stored_ok_def keeps_ids_def by blast
  have wide: "sound b env C (insert i U) Z wk cf m w" using ok wider by blast
  have no: "?Q (Inl e) m1 w1" if "sound b env C (insert i U) Z wk cf m1 w1" for e m1 w1 using that by simp
  have add: "ends (commit_drafts env (st 3) (ds @ [?d]) ?d m1 w1) ?Q ?X"
    if valid: "valid_draft (ie_uuid env) ?d" and 1: "sound b env C (insert i U) Z wk cf m1 w1" "im_drafts m1 = Some ds" "b \<longrightarrow> ids_of ds \<subseteq> U" for ds m1 w1
  proof -
    have ids: "ids_of (ds @ [?d]) = insert i (ids_of ds)" by (simp add: ids_of_def new_draft_def)
    have dist: "b \<longrightarrow> validate_drafts (ie_uuid env) (ds @ [?d]) = Inr () \<and> keeps_ids C (insert i U) (ds @ [?d])"
      using 1 valid i ids by (auto simp: stored_ok_def validate_drafts_ok ids_of_def new_draft_def keeps_ids_def)
    have old: "status_of (ds @ [?d]) k = (if status_of ds k = None \<and> k = i then Some InstallPending else status_of ds k)" for k
      by (induction ds) (auto simp: status_of_def new_draft_def split: if_splits)
    have "statuses_ok Z wk (ds @ [?d])" using 1(1,2) unfolding workers_ok_def statuses_ok_def old by auto
    then have st: "workers_ok Z wk cf (m1\<lparr>im_drafts := Some (ds @ [?d])\<rparr>)" using 1(1) by (simp add: workers_ok_def)
    show ?thesis
      by (rule ends_commit [OF law 1(1) [THEN conjunct1] _ dist, where N = "{i}"]) (use 1 st ids in auto)
  qed
  have ds: "b \<longrightarrow> ids_of ds \<subseteq> U" if "stored_ok b env C U m1 w1" "im_drafts m1 = Some ds" for ds m1 w1
    using that by (auto simp: stored_ok_def keeps_ids_def)
  have start: "sound b env C (insert i U) Z wk cf m1 w1" if "stored_ok b env C U m1 w1" "loaded m m1" for m1 w1
    using that wider loaded_workers ok by blast
  have body: "ends (install_transaction env st (\<lambda>ds m. if im_closing m \<or> im_relaunch_closed m then reply_now (Inl LauncherClosing) m
      else commit_drafts env (st 3) (ds @ [?d]) ?d m) m w) ?Q ?X" if valid: "valid_draft (ie_uuid env) ?d"
  proof (rule ends_transaction_to [OF law ok [THEN conjunct1]])
    fix ds m1 w1
    assume 1: "stored_ok b env C U m1 w1" "loaded m m1" "im_drafts m1 = Some ds"
    note 2 = start [OF 1(1,2)]
    show "ends ((if im_closing m1 \<or> im_relaunch_closed m1 then reply_now (Inl LauncherClosing) m1 else commit_drafts env (st 3) (ds @ [?d]) ?d m1) w1) ?Q ?X"
    proof (cases "im_closing m1 \<or> im_relaunch_closed m1")
      case True
      then show ?thesis using ends_answer [of ?Q "Inl LauncherClosing" m1 w1 ?X] no [OF 2] by simp
    next
      case False
      then show ?thesis using add [OF valid 2 1(3) ds [OF 1(1,3)]] by simp
    qed
  next
    show "?Q (Inl e) m w1" if "stored_ok b env C U m w1" for e w1 using wider [OF that] ok by simp
  qed (rule wider)
  have refuse: "ends (reply_now (Inl e) m w) ?Q ?X" for e by (rule ends_answer, rule no [OF wide])
  show ?thesis unfolding create_draft_def Let_def
    by (cases runners; cases "ci_runner input \<in> set (projr runners)"; cases "validate_draft (ie_uuid env) ?d"; cases is_file)
      (simp_all add: refuse body)
qed

lemma worker_free: "workers_ok Z wk cf m \<Longrightarrow> im_active m i = None \<longleftrightarrow> wk i = None"
  by (simp add: workers_ok_def)

lemma reserve_body:
  assumes "\<And>e. ends (reply_now (Inl e) m w) Q X"
    and "\<And>d. \<not> im_closing m \<Longrightarrow> \<not> im_relaunch_closed m \<Longrightarrow> im_active m i = None \<Longrightarrow> draft_of i ds = Some d \<Longrightarrow>
      can_restart (dr_status d) \<Longrightarrow> ends (go d m w) Q X"
  shows "ends ((if im_closing m \<or> im_relaunch_closed m then reply_now (Inl LauncherClosing) m
      else if im_active m i \<noteq> None then reply_now (Inl InstallAlreadyRunning) m
      else case draft_of i ds of None \<Rightarrow> reply_now (Inl NoSuchInstallation) m
        | Some d \<Rightarrow> if \<not> can_restart (dr_status d) then reply_now (Inl NotRestartable) m else go d m) w) Q X"
  using assms by (auto split: option.split)

lemma reserve_sound:
  assumes law: "b \<longrightarrow> faithful env" and ok: "sound b env C U Z wk cf m w"
  shows "ends (reserve env st (i \<notin> cf) i m w)
    (\<lambda>r m' w'. (is_ok r \<longrightarrow> wk i = None) \<and> sound b env C U Z (case r of Inl _ \<Rightarrow> wk | Inr _ \<Rightarrow> wk(i := Some Working)) cf m' w')
    (stored_ok b env C U new_manager)"
    (is "ends _ ?Q ?X")
proof (cases "i \<in> cf")
  case True
  then show ?thesis using ok by (auto simp: reserve_def is_ok_def intro!: ends_answer)
next
  case False
  have no: "ends (reply_now (Inl e) m1 w1) ?Q ?X" if "sound b env C U Z wk cf m1 w1" for e m1 w1
    by (rule ends_answer) (use that in \<open>simp add: is_ok_def\<close>)
  have run: "ends (chain (commit_drafts env (st 3) (replace_first i d' ds) d' m1) (\<lambda>(r, m2).
      ret (r, case r of Inl _ \<Rightarrow> m2 | Inr _ \<Rightarrow> m2\<lparr>im_active := (im_active m2)(i \<mapsto> False)\<rparr>)) w1) ?Q ?X"
    if 1: "sound b env C U Z wk cf m1 w1" "im_drafts m1 = Some ds" and free: "\<not> im_closing m1" "\<not> im_relaunch_closed m1" "im_active m1 i = None"
      and d: "draft_of i ds = Some d" "can_restart (dr_status d)"
      and d': "d' = d\<lparr>dr_status := InstallPreparing, dr_exit_code := None, dr_message := None\<rparr>" for ds m1 w1 d d'
  proof -
    have i: "dr_id d' = i" using draft_of_Some [OF d(1)] d' by simp
    have ok1: "workers_ok Z wk cf m1" using 1(1) by simp
    have z: "i \<notin> Z" using workers_status(3) [OF ok1 1(2) d(1)] d(2) by (auto simp: can_restart_def)
    have "statuses_ok Z (wk(i := Some Working)) (replace_first i d' ds)"
      by (rule workers_change [OF ok1 1(2) d(1) i]) (use z d' in auto)
    then have after: "workers_ok Z (wk(i := Some Working)) cf (m1\<lparr>im_drafts := Some (replace_first i d' ds), im_active := (im_active m1)(i \<mapsto> False)\<rparr>)"
      using ok1 free False by (auto simp: workers_ok_def)
    have "b \<longrightarrow> valid_draft (ie_uuid env) d" using 1 draft_of_Some [OF d(1)] by (auto simp: stored_ok_def validate_drafts_ok)
    then have "b \<longrightarrow> valid_draft (ie_uuid env) d'" unfolding d' using valid_unbacked by auto
    then have ids: "b \<longrightarrow> validate_drafts (ie_uuid env) (replace_first i d' ds) = Inr () \<and> keeps_ids C U (replace_first i d' ds)"
      using 1 ids_replaced [OF d(1) i] valid_replaced [OF _ d(1) i] by (auto simp: stored_ok_def keeps_ids_def)
    show ?thesis
    proof (rule ends_chain [where Q = "\<lambda>r m' w'. case r of Inl _ \<Rightarrow> m' = m1 \<and> stored_ok b env C U m1 w'
        | Inr _ \<Rightarrow> m' = m1\<lparr>im_drafts := Some (replace_first i d' ds)\<rparr> \<and> stored_ok b env C U m' w'"])
      show "ends (commit_drafts env (st 3) (replace_first i d' ds) d' m1 w1) (\<lambda>r m' w'. case r of Inl _ \<Rightarrow> m' = m1 \<and> stored_ok b env C U m1 w'
        | Inr _ \<Rightarrow> m' = m1\<lparr>im_drafts := Some (replace_first i d' ds)\<rparr> \<and> stored_ok b env C U m' w') ?X"
        by (rule ends_commit [OF law 1(1) [THEN conjunct1] _ ids, where N = "{}"]) (use 1(2) in auto)
    qed (use after 1 free worker_free [OF ok1, of i] in \<open>auto intro!: ends_ret simp: stored_ok_def split: sum.splits\<close>)
  qed
  have "ends (install_transaction env st (\<lambda>ds m. if im_closing m \<or> im_relaunch_closed m then reply_now (Inl LauncherClosing) m
      else if im_active m i \<noteq> None then reply_now (Inl InstallAlreadyRunning) m
      else case draft_of i ds of None \<Rightarrow> reply_now (Inl NoSuchInstallation) m
        | Some d \<Rightarrow> if \<not> can_restart (dr_status d) then reply_now (Inl NotRestartable) m
            else let d' = d\<lparr>dr_status := InstallPreparing, dr_exit_code := None, dr_message := None\<rparr>
              in chain (commit_drafts env (st 3) (replace_first i d' ds) d' m) (\<lambda>(r, m1).
                 ret (r, case r of Inl _ \<Rightarrow> m1 | Inr _ \<Rightarrow> m1\<lparr>im_active := (im_active m1)(i \<mapsto> False)\<rparr>))) m w) ?Q ?X"
  proof (rule ends_transaction [OF law ok [THEN conjunct1]])
    fix ds m1 w1
    assume 1: "stored_ok b env C U m1 w1" "loaded m m1" "im_drafts m1 = Some ds"
    then have 2: "sound b env C U Z wk cf m1 w1" using ok loaded_workers by blast
    show "ends ((if im_closing m1 \<or> im_relaunch_closed m1 then reply_now (Inl LauncherClosing) m1
      else if im_active m1 i \<noteq> None then reply_now (Inl InstallAlreadyRunning) m1
      else case draft_of i ds of None \<Rightarrow> reply_now (Inl NoSuchInstallation) m1
        | Some d \<Rightarrow> if \<not> can_restart (dr_status d) then reply_now (Inl NotRestartable) m1
            else let d' = d\<lparr>dr_status := InstallPreparing, dr_exit_code := None, dr_message := None\<rparr>
              in chain (commit_drafts env (st 3) (replace_first i d' ds) d' m1) (\<lambda>(r, m1).
                 ret (r, case r of Inl _ \<Rightarrow> m1 | Inr _ \<Rightarrow> m1\<lparr>im_active := (im_active m1)(i \<mapsto> False)\<rparr>))) w1) ?Q ?X"
      unfolding Let_def
      by (rule reserve_body) (rule no [OF 2], rule run [OF 2 1(3)], assumption+, rule refl)
  qed (use ok in \<open>simp add: is_ok_def\<close>)
  with False show ?thesis by (simp add: reserve_def)
qed

lemma cancel_sound:
  assumes law: "b \<longrightarrow> faithful env" and ok: "sound b env C U Z wk cf m w"
  shows "ends (cancel_installation env st i m w) (\<lambda>_. sound b env C U Z wk cf) (stored_ok b env C U new_manager)"
  unfolding cancel_installation_def
proof (rule ends_transaction [OF law ok [THEN conjunct1]])
  fix ds m1 w1
  assume 1: "stored_ok b env C U m1 w1" "loaded m m1" "im_drafts m1 = Some ds"
  then have 2: "workers_ok Z wk cf m1" using ok loaded_workers by blast
  let ?m = "m1\<lparr>im_active := (im_active m1)(i \<mapsto> True)\<rparr>"
  let ?Q = "\<lambda>_ :: (install_error, installation_draft) result. sound b env C U Z wk cf"
  have s1: "stored_ok b env C U ?m w'" if "stored_ok b env C U m1 w'" for w' using that by (simp add: stored_ok_def)
  have told: "workers_ok Z wk cf ?m" if "im_active m1 i \<noteq> None" using 2 that by (auto simp: workers_ok_def)
  have run: "ends (commit_drafts env (st 3) (replace_first i d' ds) d' ?m w1) ?Q (stored_ok b env C U new_manager)"
    if act: "im_active m1 i \<noteq> None" and d: "draft_of i ds = Some d" "d' = d\<lparr>dr_status := InstallStopping, dr_message := Some StopRequested\<rparr>" for d d'
  proof -
    have i: "dr_id d' = i" using draft_of_Some [OF d(1)] d by simp
    have z: "i \<notin> Z" using workers_status(2,3) [OF 2 1(3) d(1)] worker_free [OF 2, of i] act by auto
    have "statuses_ok Z (wk(i := wk i)) (replace_first i d' ds)"
      by (rule workers_change [OF 2 1(3) d(1) i]) (use z d in auto)
    then have after: "workers_ok Z wk cf (?m\<lparr>im_drafts := Some (replace_first i d' ds)\<rparr>)" using told [OF act] by (simp add: workers_ok_def)
    have "b \<longrightarrow> valid_draft (ie_uuid env) d" using 1 draft_of_Some [OF d(1)] by (auto simp: stored_ok_def validate_drafts_ok)
    then have "b \<longrightarrow> valid_draft (ie_uuid env) d'" unfolding d(2) using valid_unbacked by auto
    then have ids: "b \<longrightarrow> validate_drafts (ie_uuid env) (replace_first i d' ds) = Inr () \<and> keeps_ids C U (replace_first i d' ds)"
      using 1 ids_replaced [OF d(1) i] valid_replaced [OF _ d(1) i] by (auto simp: stored_ok_def keeps_ids_def)
    show ?thesis
      by (rule ends_commit [OF law s1 [OF 1(1)] _ ids, where N = "{}"]) (use 1(3) after told [OF act] in auto)
  qed
  show "ends ((if im_active m1 i = None then reply_now (Inl NotInExecution) m1
       else let m1 = m1\<lparr>im_active := (im_active m1)(i \<mapsto> True)\<rparr>
         in case draft_of i ds of None \<Rightarrow> reply_now (Inl NoSuchInstallation) m1
            | Some d \<Rightarrow> let d' = d\<lparr>dr_status := InstallStopping, dr_message := Some StopRequested\<rparr>
                in commit_drafts env (st 3) (replace_first i d' ds) d' m1) w1) ?Q (stored_ok b env C U new_manager)"
  proof (cases "im_active m1 i")
    case None
    then show ?thesis using 1(1) 2 by (auto intro!: ends_answer)
  next
    case told_before: (Some c)
    then have act: "im_active m1 i \<noteq> None" by simp
    show ?thesis
    proof (cases "draft_of i ds")
      case None
      then show ?thesis using told_before told [OF act] s1 [OF 1(1)] by (auto simp: Let_def intro!: ends_answer)
    next
      case (Some d)
      then show ?thesis using run [OF act Some refl] told_before by (simp add: Let_def)
    qed
  qed
qed (use ok in simp)

subsection \<open>Every step keeps both\<close>

lemma finish_sound:
  assumes "sound b env C U Z wk cf m w" "wk i = Some (Finishing r)"
  shows "sound b env C U Z (wk(i := None)) cf (drop_finishes i r m) w"
proof -
  obtain ds where ds: "im_drafts m = Some ds" using assms by (auto simp: workers_ok_def split: option.splits)
  obtain d where d: "draft_of i ds = Some d" using worker_draft [OF _ ds, of Z wk cf i] assms by auto
  have z: "i \<notin> Z" using workers_status(2,3) [OF assms(1) [THEN conjunct2] ds d] assms(2) by auto
  show ?thesis
  proof (cases r)
    case (Inr u)
    then have "dr_status d \<notin> {InstallPreparing, InstallRunning}"
      using workers_status(1) [OF assms(1) [THEN conjunct2] ds d] assms(2) by auto
    then have "status_of ds i \<notin> {Some InstallPreparing, Some InstallRunning}" using d by (simp add: status_of_def)
    then have "statuses_ok Z (wk(i := None)) ds" using assms ds z by (auto simp: workers_ok_def statuses_ok_def)
    with Inr assms ds show ?thesis by (auto simp: drop_finishes_def workers_ok_def stored_ok_def)
  next
    case (Inl e)
    let ?d = "d\<lparr>dr_status := InstallInterrupted, dr_message := Some NotSaved\<rparr>"
    have i: "dr_id ?d = i" using draft_of_Some [OF d] by simp
    have st: "statuses_ok Z (wk(i := None)) (replace_first i ?d ds)"
      by (rule workers_change [OF assms(1) [THEN conjunct2] ds d i]) (use z in auto)
    have "b \<longrightarrow> valid_draft (ie_uuid env) d" using assms(1) ds draft_of_Some [OF d] by (auto simp: stored_ok_def validate_drafts_ok)
    then have "b \<longrightarrow> valid_draft (ie_uuid env) ?d" using valid_unbacked by auto
    then have "b \<longrightarrow> validate_drafts (ie_uuid env) (replace_first i ?d ds) = Inr () \<and> keeps_ids C U (replace_first i ?d ds)"
      using assms(1) ds ids_replaced [OF d i] valid_replaced [OF _ d i] by (auto simp: stored_ok_def keeps_ids_def)
    with Inl assms ds d st show ?thesis by (auto simp: drop_finishes_def workers_ok_def stored_ok_def)
  qed
qed

definition install_ok :: "bool \<Rightarrow> 'v install_env \<Rightarrow> string set \<Rightarrow> install_system \<Rightarrow> bool" where
  "install_ok b env Z s \<longleftrightarrow> distinct (map fst (sy_workers s)) \<and>
     sound b env (sy_created s) (sy_used s) Z (map_of (sy_workers s)) (sy_confirming s) (sy_manager s) (sy_world s)"

text \<open>A list of workers with different installations is the map from an installation to the phase of its worker.\<close>

lemma map_of_removed:
  assumes "distinct (map fst ws)" "k < length ws" "ws ! k = (i, p)"
  shows "map_of (take k ws @ drop (Suc k) ws) = (map_of ws)(i := None)" "distinct (map fst (take k ws @ drop (Suc k) ws))"
    "map_of ws i = Some p"
proof -
  have split: "ws = take k ws @ (i, p) # drop (Suc k) ws" using assms id_take_nth_drop by metis
  from assms(1) have d: "distinct (map fst (take k ws @ (i, p) # drop (Suc k) ws))" using split by metis
  then have out: "map_of (take k ws) i = None" "map_of (drop (Suc k) ws) i = None" by (auto simp: map_of_eq_None_iff)
  show "distinct (map fst (take k ws @ drop (Suc k) ws))" using d by simp
  have "map_of ws = map_of (take k ws @ (i, p) # drop (Suc k) ws)" using split by metis
  then show "map_of (take k ws @ drop (Suc k) ws) = (map_of ws)(i := None)" "map_of ws i = Some p"
    using out by (auto simp: map_add_def fun_eq_iff split: option.split)
qed

lemma map_of_changed:
  assumes "distinct (map fst ws)" "k < length ws" "ws ! k = (i, p)"
  shows "map_of (ws[k := (i, q)]) = (map_of ws)(i \<mapsto> q)" "distinct (map fst (ws[k := (i, q)]))"
proof -
  have "map fst (ws[k := (i, q)]) = map fst ws" using assms(2,3) by (simp add: map_update list_update_same_conv)
  then show d: "distinct (map fst (ws[k := (i, q)]))" using assms(1) by simp
  have upd: "ws[k := (i, q)] = take k ws @ (i, q) # drop (Suc k) ws" using assms(2) by (rule upd_conv_take_nth_drop)
  have "map_of (take k ws) i = None" using d unfolding upd by (auto simp: map_of_eq_None_iff)
  then have "map_of (ws[k := (i, q)]) n = ((map_of (take k ws @ drop (Suc k) ws))(i \<mapsto> q)) n" for n
    unfolding upd by (cases "map_of (take k ws) n") (auto simp: map_add_def split: option.split)
  then show "map_of (ws[k := (i, q)]) = (map_of ws)(i \<mapsto> q)"
    unfolding map_of_removed(1) [OF assms] fun_upd_upd by (rule ext)
qed

lemma worker_at_map: "distinct (map fst (sy_workers s)) \<Longrightarrow> worker_at s k i p \<Longrightarrow> map_of (sy_workers s) i = Some p"
  unfolding worker_at_def by (elim conjE) (rule map_of_removed(3))

lemma phase_ok:
  assumes "distinct (map fst (sy_workers s))" "worker_at s k i p" "sy_workers s' = sy_workers s"
    and "sound b env (sy_created s') (sy_used s') Z ((map_of (sy_workers s))(i := Some q)) (sy_confirming s') (sy_manager s') (sy_world s')"
  shows "install_ok b env Z (set_phase k i q s')"
proof -
  have at: "k < length (sy_workers s)" "sy_workers s ! k = (i, p)" using assms(2) by (auto simp: worker_at_def)
  show ?thesis using assms(3,4) map_of_changed [OF assms(1) at, of q] by (simp add: install_ok_def set_phase_def)
qed

text \<open>A step keeps the conditions, or the launcher has restarted.\<close>

definition kept :: "bool \<Rightarrow> 'v install_env \<Rightarrow> string set \<Rightarrow> install_system \<Rightarrow> bool" where
  "kept b env Z s \<longleftrightarrow> install_ok b env Z s \<or> im_drafts (sy_manager s) = None \<and> install_ok b env {} s"

lemma restart_kept: "stored_ok b env (sy_created s) (sy_used s) new_manager w \<Longrightarrow> kept b env Z (restarted w s)"
  by (simp add: kept_def install_ok_def restarted_def workers_ok_def new_manager_def)

lemma perform_kept:
  assumes "ends (op (sy_manager s) (sy_world s)) (\<lambda>r m w. install_ok b env Z (f r (s\<lparr>sy_manager := m, sy_world := w\<rparr>)))
    (stored_ok b env (sy_created s) (sy_used s) new_manager)"
  shows "kept b env Z (in_section op f s)"
  using assms unfolding in_section_def ends_def
  by (auto simp: kept_def [of b env Z "f _ _"] restart_kept split: outcome.splits prod.splits)

lemma elsewhere_ok:
  assumes "stored_ok b env C U m w" "\<forall>n \<in> {INSTALLATIONS_FILE, backup_path INSTALLATIONS_FILE}. entry AtRoot n d = entry AtRoot n (wd_disk w)"
  shows "stored_ok b env C U m (w\<lparr>wd_disk := d, wd_clock := k\<rparr>)"
proof -
  let ?D = "drafts_document env"
  have e: "entry AtRoot INSTALLATIONS_FILE d = entry AtRoot INSTALLATIONS_FILE (wd_disk w)"
    "entry AtRoot (backup_path INSTALLATIONS_FILE) d = entry AtRoot (backup_path INSTALLATIONS_FILE) (wd_disk w)" using assms(2) by auto
  have "value_of ?D INSTALLATIONS_FILE d = value_of ?D INSTALLATIONS_FILE (wd_disk w)"
    "settled ?D INSTALLATIONS_FILE v d = settled ?D INSTALLATIONS_FILE v (wd_disk w)" for v
    unfolding value_of_def settled_def e by simp_all
  then show ?thesis using assms(1) by (simp add: stored_ok_def readable_def)
qed

lemma step_kept:
  assumes law: "b \<longrightarrow> faithful env" and "install_step env s s'" "install_ok b env Z s"
  shows "kept b env Z s'"
  using assms(2,3)
proof (cases rule: install_step.cases)
  case (lists st)
  then show ?thesis using assms(3) list_sound [OF law] by (auto simp: install_ok_def intro!: perform_kept)
next
  case (creates i st runners is_file input)
  let ?s = "s\<lparr>sy_used := insert i (sy_used s)\<rparr>"
  have "ends (create_draft env st runners i is_file input (sy_manager s) (sy_world s))
    (\<lambda>r. sound b env (case r of Inl _ \<Rightarrow> sy_created s | Inr _ \<Rightarrow> insert i (sy_created s)) (insert i (sy_used s)) Z (map_of (sy_workers s)) (sy_confirming s))
    (stored_ok b env (sy_created s) (insert i (sy_used s)) new_manager)"
    using create_sound [OF law _ creates(2)] assms(3) by (simp add: install_ok_def)
  then have "ends (create_draft env st runners i is_file input (sy_manager ?s) (sy_world ?s))
    (\<lambda>r m w. install_ok b env Z ((case r of Inl _ \<Rightarrow> (\<lambda>s. s) | Inr _ \<Rightarrow> (\<lambda>s. s\<lparr>sy_created := insert i (sy_created s)\<rparr>)) (?s\<lparr>sy_manager := m, sy_world := w\<rparr>)))
    (stored_ok b env (sy_created ?s) (sy_used ?s) new_manager)"
    using assms(3) by (simp, elim ends_mono) (auto simp: install_ok_def split: sum.splits)
  then show ?thesis unfolding creates(1) by (intro perform_kept) (auto elim!: ends_mono split: sum.splits)
next
  case (reserves st i)
  show ?thesis unfolding reserves
    by (rule perform_kept, rule ends_mono, rule reserve_sound [OF law, where C = "sy_created s" and U = "sy_used s" and Z = Z and wk = "map_of (sy_workers s)" and cf = "sy_confirming s"])
      (use assms(3) in \<open>auto simp: install_ok_def add_worker_def is_ok_def map_of_eq_None_iff fun_upd_def split: sum.splits\<close>)
next
  case (works k i st c)
  then have "map_of (sy_workers s) i = Some Working" using assms(3) worker_at_map by (simp add: install_ok_def)
  with works(1) show ?thesis using assms(3) works_sound [OF law] by (auto simp: install_ok_def intro!: perform_kept)
next
  case (drop_look k i st)
  have d: "distinct (map fst (sy_workers s))" using assms(3) by (simp add: install_ok_def)
  show ?thesis unfolding drop_look(1)
    by (rule perform_kept, rule ends_mono, rule drop_look_sound [OF law assms(3) [unfolded install_ok_def, THEN conjunct2] worker_at_map [OF d drop_look(2)]])
      (rule phase_ok [OF d drop_look(2)], simp_all)
next
  case (drop_recover k i st)
  have d: "distinct (map fst (sy_workers s))" using assms(3) by (simp add: install_ok_def)
  show ?thesis unfolding drop_recover(1)
    by (rule perform_kept, rule ends_mono, rule drop_recover_sound [OF law assms(3) [unfolded install_ok_def, THEN conjunct2] worker_at_map [OF d drop_recover(2)]])
      (rule phase_ok [OF d drop_recover(2)], simp_all)
next
  case (drop_finish k i r)
  have d: "distinct (map fst (sy_workers s))" using assms(3) by (simp add: install_ok_def)
  have at: "k < length (sy_workers s)" "sy_workers s ! k = (i, Finishing r)" using drop_finish(2) by (auto simp: worker_at_def)
  have "sound b env (sy_created s) (sy_used s) Z ((map_of (sy_workers s))(i := None)) (sy_confirming s) (drop_finishes i r (sy_manager s)) (sy_world s)"
    by (rule finish_sound) (use assms(3) map_of_removed(3) [OF d at] in \<open>simp_all add: install_ok_def\<close>)
  then show ?thesis unfolding drop_finish(1) using map_of_removed(1,2) [OF d at] by (simp add: kept_def install_ok_def end_worker_def)
next
  case (install_cancels st i)
  then show ?thesis using assms(3) cancel_sound [OF law] by (auto simp: install_ok_def intro!: perform_kept)
next
  case (confirms st i)
  show ?thesis unfolding confirms
    by (rule perform_kept, rule ends_mono, rule confirms_sound [OF law, where C = "sy_created s" and U = "sy_used s" and Z = Z and wk = "map_of (sy_workers s)" and cf = "sy_confirming s"])
      (use assms(3) in \<open>auto simp: install_ok_def split: sum.splits\<close>)
next
  case (confirmed i st)
  then show ?thesis using assms(3) confirmed_sound [OF law] by (auto simp: install_ok_def intro!: perform_kept)
next
  case (restarts)
  have "stored_ok b env (sy_created s) (sy_used s) new_manager (sy_world s)"
    using assms(3) by (auto simp: install_ok_def stored_ok_def new_manager_def)
  with restarts show ?thesis by (simp add: restart_kept)
next
  case (elsewhere d t)
  have "stored_ok b env (sy_created s) (sy_used s) (sy_manager s) ((sy_world s)\<lparr>wd_disk := d, wd_clock := t\<rparr>)"
    by (rule elsewhere_ok [OF _ elsewhere(2)]) (use assms(3) in \<open>simp add: install_ok_def\<close>)
  then show ?thesis unfolding elsewhere(1) using assms(3) by (simp add: kept_def install_ok_def)
qed (use assms(3) in \<open>auto simp: kept_def install_ok_def workers_ok_def stored_ok_def request_shutdown_def close_installs_if_idle_def
      reopen_installs_def fun_eq_iff split: if_splits option.splits\<close>)

text \<open>The directory holds a list that was stored; nothing of the manager is in memory.\<close>

definition fresh_system :: "'v install_env \<Rightarrow> install_system \<Rightarrow> bool" where
  "fresh_system env s \<longleftrightarrow>
     sy_manager s = new_manager \<and> sy_workers s = [] \<and> sy_confirming s = {} \<and>
     (\<exists>v. value_of (drafts_document env) INSTALLATIONS_FILE (wd_disk (sy_world s)) = Some v \<and> sy_created s = ids_of v \<and> sy_used s = ids_of v)"

inductive reachable_installs :: "'v install_env \<Rightarrow> install_system \<Rightarrow> bool" for env where
  install_begins: "fresh_system env s \<Longrightarrow> reachable_installs env s"
| goes_on: "reachable_installs env s \<Longrightarrow> install_step env s s' \<Longrightarrow> reachable_installs env s'"

subsection \<open>Which reads fail does not depend on the operations\<close>

lemma steady_answer: "steady (reply_now r m)"
  by (simp add: steady_def reply_now_def ret_def)

lemma steady_save: "steady (save_drafts env st ds m)"
  unfolding save_drafts_def write_json_def by (auto intro!: steady_intros steady_write split: sum.split)

lemma steady_load_drafts: "steady (load_drafts env st m)"
  unfolding load_drafts_def by (auto intro!: steady_intros steady_load steady_save split: option.split sum.split)

lemma steady_transaction: "(\<And>ds m. steady (mutate ds m)) \<Longrightarrow> steady (install_transaction env st mutate m)"
  unfolding install_transaction_def by (auto intro!: steady_intros steady_load_drafts split: sum.split)

lemma steady_commit_drafts: "steady (commit_drafts env st ds x m)"
  unfolding commit_drafts_def by (auto intro!: steady_intros steady_save)

lemmas steady_install = steady_answer steady_transaction steady_commit_drafts

lemma steady_update: "steady (update env st i f m)"
  unfolding update_def by (auto intro!: steady_install split: option.split sum.split)

lemma steady_operations:
  "steady (list_installations env st m)" "steady (create_draft env st runners i is_file input m)"
  "steady (worker_update env st i c m)" "steady (drop_recovers env st i m)" "steady (confirm_ends env st i m)"
  "steady (get_installation env st i m)" "steady (is_active env st i m)" "steady (cancel_installation env st i m)"
  unfolding list_installations_def create_draft_def worker_update_def drop_recovers_def confirm_ends_def get_installation_def
    is_active_def cancel_installation_def Let_def
  by (auto intro!: steady_install steady_update split: option.split sum.split)

lemma steady_reserve: "steady (reserve env st a i m)"
  unfolding reserve_def Let_def by (auto intro!: steady_install steady_intros split: option.split)

lemma steady_guards: "steady (drop_looks env st i m)" "steady (confirm_begins env st a i m)"
  unfolding drop_looks_def confirm_begins_def
  by (auto intro!: steady_intros steady_operations steady_answer split: sum.split)

lemma in_section_reads:
  assumes "steady (op (sy_manager s))" "\<And>r t. wd_unreadable (sy_world (f r t)) = wd_unreadable (sy_world t)"
  shows "wd_unreadable (sy_world (in_section op f s)) = wd_unreadable (sy_world s)"
proof -
  have "wd_unreadable (snd (op (sy_manager s) (sy_world s))) = wd_unreadable (sy_world s)" using assms(1) by (simp add: steady_def)
  then show ?thesis using assms(2) by (auto simp: in_section_def restarted_def split: prod.split outcome.split)
qed

lemma step_reads: "install_step env s s' \<Longrightarrow> wd_unreadable (sy_world s') = wd_unreadable (sy_world s)"
proof (induction rule: install_step.induct)
  case (creates i s st runners is_file input)
  have "wd_unreadable (sy_world (in_section (create_draft env st runners i is_file input)
      (\<lambda>r s. case r of Inl _ \<Rightarrow> s | Inr _ \<Rightarrow> s\<lparr>sy_created := insert i (sy_created s)\<rparr>) (s\<lparr>sy_used := insert i (sy_used s)\<rparr>))) =
    wd_unreadable (sy_world (s\<lparr>sy_used := insert i (sy_used s)\<rparr>))"
    by (rule in_section_reads) (auto intro: steady_operations split: sum.split)
  then show ?case by simp
qed (auto intro!: in_section_reads steady_operations steady_reserve steady_guards simp: add_worker_def set_phase_def end_worker_def restarted_def split: sum.split)

lemma reachable_ok:
  "reachable_installs env s \<Longrightarrow> b \<longrightarrow> faithful env \<and> readable (sy_world s) \<Longrightarrow> install_ok b env {} s"
proof (induction rule: reachable_installs.induct)
  case (install_begins s)
  then show ?case by (auto simp: fresh_system_def install_ok_def stored_ok_def workers_ok_def keeps_ids_def new_manager_def)
next
  case (goes_on s s')
  then have "b \<longrightarrow> readable (sy_world s)" using step_reads [OF goes_on(2)] by (simp add: readable_def)
  then have "install_ok b env {} s" using goes_on by blast
  then show ?case using step_kept [of b env s s' "{}"] goes_on by (auto simp: kept_def)
qed

text \<open>What is completed stays so while the launcher runs.\<close>

lemma completed_stays:
  assumes "reachable_installs env s" "install_step env s s'" "im_drafts (sy_manager s) = Some ds"
    and "status_of ds i = Some InstallCompleted" "im_drafts (sy_manager s') = Some ds'"
  shows "status_of ds' i = Some InstallCompleted"
proof -
  have "install_ok False env {i} s" using reachable_ok [OF assms(1), of False] assms(3,4)
    by (auto simp: install_ok_def workers_ok_def statuses_ok_def)
  from step_kept [OF _ assms(2) this] assms(5) show ?thesis
    by (auto simp: kept_def install_ok_def workers_ok_def statuses_ok_def)
qed

section \<open>An example\<close>

text \<open>One installation; the lists it goes through are numbered, and a list is stored as its number.\<close>

definition ex_draft :: "installation_status \<Rightarrow> draft_message option \<Rightarrow> installation_draft" where
  "ex_draft s m = (new_draft ''a'' \<lparr>ci_name = ''RO'', ci_installer_path = ''/i.exe'', ci_destination_path = None, ci_runner = ''/w'',
     ci_require_webview2 = False\<rparr>)\<lparr>dr_status := s, dr_message := m\<rparr>"

definition ex_lists :: "installation_draft list list" where
  "ex_lists = [[], [ex_draft InstallPending None], [ex_draft InstallPreparing None], [ex_draft InstallFailed (Some (InstallError ''x''))],
     [ex_draft InstallStopping (Some StopRequested)]]"

definition ex_install_env :: "nat install_env" where
  "ex_install_env = \<lparr>ie_document =
     \<lparr>dc_parse = (\<lambda>bs. case bs of [b] \<Rightarrow> Some (unat b) | _ \<Rightarrow> None),
      dc_decode = (\<lambda>n. if n < 5 then Some (ex_lists ! n) else None),
      dc_encode = (\<lambda>ds. position (\<lambda>x. x = ds) ex_lists),
      dc_print = (\<lambda>ds. map_option (\<lambda>n. [of_nat n]) (position (\<lambda>x. x = ds) ex_lists)),
      dc_default = [], dc_valid = (\<lambda>_. True)\<rparr>, ie_uuid = (\<lambda>_. True)\<rparr>"

definition ex_stamps :: "nat \<Rightarrow> nat \<Rightarrow> stamp" where "ex_stamps a n = \<lparr>sp_pid = 5, sp_millis = 9, sp_sequence = 4 * a + n\<rparr>"

definition ex_start :: install_system where
  "ex_start = \<lparr>sy_manager = new_manager, sy_world = ex_directory [] (\<lambda>_. Proceed), sy_workers = [], sy_confirming = {},
     sy_created = {}, sy_used = {}\<rparr>"

definition ex_created :: install_system where
  "ex_created = in_section (create_draft ex_install_env (ex_stamps 0) (Inr [''/w'']) ''a'' True
       \<lparr>ci_name = ''RO'', ci_installer_path = ''/i.exe'', ci_destination_path = None, ci_runner = ''/w'', ci_require_webview2 = False\<rparr>)
     (\<lambda>r s. case r of Inl _ \<Rightarrow> s | Inr _ \<Rightarrow> s\<lparr>sy_created := insert ''a'' (sy_created s)\<rparr>) (ex_start\<lparr>sy_used := insert ''a'' (sy_used ex_start)\<rparr>)"

definition ex_reserved :: install_system where
  "ex_reserved = in_section (reserve ex_install_env (ex_stamps 1) (''a'' \<notin> sy_confirming ex_created) ''a'')
     (\<lambda>r s. case r of Inl _ \<Rightarrow> s | Inr _ \<Rightarrow> add_worker ''a'' s) ex_created"

definition ex_failed :: install_system where
  "ex_failed = in_section (worker_update ex_install_env (ex_stamps 2) ''a'' (SetFailed ''x'')) (\<lambda>_ s. s) ex_reserved"

definition ex_finishing :: install_system where
  "ex_finishing = in_section (drop_looks ex_install_env (ex_stamps 3) ''a'')
     (\<lambda>r. set_phase 0 ''a'' (if r = Inr True then Recovering else Finishing (Inr ()))) ex_failed"

lemma position_Some: "position P xs = Some n \<Longrightarrow> n < length xs \<and> P (xs ! n)"
  by (induction xs arbitrary: n) (auto split: if_splits option.splits)

lemma ex_faithful: "faithful ex_install_env"
  unfolding faithful_def
proof (intro allI impI)
  fix ds
  assume valid: "validate_drafts (ie_uuid ex_install_env) ds = Inr ()"
  show "prints_back (drafts_document ex_install_env) ds"
    unfolding prints_back_def
  proof (intro allI impI)
    fix json
    assume "dc_print (drafts_document ex_install_env) ds = Some json"
    then obtain n where n: "position (\<lambda>x. x = ds) ex_lists = Some n" "json = [of_nat n]"
      by (auto simp: drafts_document_def ex_install_env_def)
    have at: "n < 5" "ex_lists ! n = ds" using position_Some [OF n(1)] by (simp_all add: ex_lists_def)
    then have "unat (of_nat n :: u8) = n" "utf8_valid [of_nat n :: u8]"
      by (simp_all add: unat_of_nat word_le_nat_alt)
    then show "\<exists>v. check_content (drafts_document ex_install_env) json = Inr (ds, v, v)"
      using n at valid by (simp add: check_content_def drafts_document_def ex_install_env_def)
  qed
qed

lemma cancel_accepted:
  assumes "im_drafts m = Some ds" "cancel_installation env st i m w = (Done (Inr d, m'), w')"
  shows "\<exists>d0. draft_of i ds = Some d0 \<and>
    im_drafts m' = Some (replace_first i (d0\<lparr>dr_status := InstallStopping, dr_message := Some StopRequested\<rparr>) ds)"
  using assms by (auto simp: cancel_installation_def install_transaction_def load_drafts_def chain_def ret_def reply_now_def commit_drafts_def save_drafts_def attempt_def Let_def
      split: if_splits option.splits prod.splits outcome.splits sum.splits)

lemma ex_working: "sy_workers ex_reserved = [(''a'', Working)]"
  by code_simp

lemma ex_still_working: "worker_at ex_failed 0 ''a'' Working"
  by code_simp

lemma ex_ends: "worker_at ex_finishing 0 ''a'' (Finishing (Inr ()))"
  by code_simp

lemma ex_cancel_accepted:
  "case cancel_installation ex_install_env (ex_stamps 4) ''a'' (sy_manager ex_finishing) (sy_world ex_finishing) of (Done (r, m), w) \<Rightarrow> is_ok r | _ \<Rightarrow> False"
  by code_simp

lemma ex_reserved_reachable: "reachable_installs ex_install_env ex_reserved"
proof -
  have "fresh_system ex_install_env ex_start"
    by (simp add: fresh_system_def ex_start_def ex_directory_def value_of_def entry_def drafts_document_def ids_of_def)
  then have "reachable_installs ex_install_env ex_start" by (rule install_begins)
  then have "reachable_installs ex_install_env ex_created"
    unfolding ex_created_def by (rule goes_on) (rule creates, simp add: ex_start_def)
  then show ?thesis unfolding ex_reserved_def by (rule goes_on) (rule reserves)
qed

lemma ex_finishing_reachable: "reachable_installs ex_install_env ex_finishing"
proof -
  have "reachable_installs ex_install_env ex_failed"
    unfolding ex_failed_def using ex_reserved_reachable by (rule goes_on) (rule works [where k = 0], simp add: worker_at_def ex_working)
  then show ?thesis unfolding ex_finishing_def by (rule goes_on) (rule drop_look, rule ex_still_working)
qed

section \<open>Results\<close>

text \<open>C12: An installation whose creation was confirmed is never lost, provided that documents are read back as they were
  printed and that no read of the stored list, nor the question whether it exists, ever fails (a failed question is taken for
  an empty list and a failed read for a damaged one, so this does not hold without).  Whatever change fails, in every interleaving of
  the operations and after every restart or kill of the launcher, the stored list, as the next load gives it, has every
  created installation; so has the list in memory.\<close>

theorem created_are_never_lost:
  assumes "faithful env" "readable (sy_world s)" "reachable_installs env s"
  shows "\<exists>ds. value_of (drafts_document env) INSTALLATIONS_FILE (wd_disk (sy_world s)) = Some ds \<and> sy_created s \<subseteq> ids_of ds \<and>
    (case im_drafts (sy_manager s) of None \<Rightarrow> True | Some memory \<Rightarrow> sy_created s \<subseteq> ids_of memory)"
  using reachable_ok [OF assms(3), of True] assms(1,2) by (auto simp: install_ok_def stored_ok_def keeps_ids_def split: option.split)

text \<open>C13: The register of running installations is exact, whatever reads and changes fail: no two workers have the same
  installation, and the register has an installation exactly while a worker has it.  A draft that is being prepared or runs has a
  worker that will still record its end; a confirmation never meets a worker.  While the launcher restarts itself there is no
  worker, and once it is closing every worker has been told to stop.\<close>

theorem workers_are_registered:
  assumes "reachable_installs env s"
  shows "distinct (map fst (sy_workers s)) \<and>
    (\<forall>i. (im_active (sy_manager s) i \<noteq> None \<longleftrightarrow> i \<in> fst ` set (sy_workers s)) \<and>
      (im_closing (sy_manager s) \<longrightarrow> im_active (sy_manager s) i \<noteq> Some False) \<and>
      (i \<in> sy_confirming s \<longrightarrow> i \<notin> fst ` set (sy_workers s))) \<and>
    (im_relaunch_closed (sy_manager s) \<longrightarrow> sy_workers s = []) \<and>
    (\<forall>i ds d. im_drafts (sy_manager s) = Some ds \<longrightarrow> draft_of i ds = Some d \<longrightarrow>
      dr_status d \<in> {InstallPreparing, InstallRunning} \<longrightarrow> (\<exists>p. (i, p) \<in> set (sy_workers s) \<and> p \<noteq> Finishing (Inr ())))"
proof -
  let ?wk = "map_of (sy_workers s)"
  have ok: "distinct (map fst (sy_workers s))" "workers_ok {} ?wk (sy_confirming s) (sy_manager s)"
    using reachable_ok [OF assms, of False] by (auto simp: install_ok_def)
  have "?wk i = None \<longleftrightarrow> i \<notin> fst ` set (sy_workers s)" for i by (simp add: map_of_eq_None_iff)
  then show ?thesis using ok
    by (auto simp: workers_ok_def statuses_ok_def status_of_def dest!: map_of_SomeD)
qed

text \<open>A completed installation is final: while the launcher runs, no operation changes its status, and no worker owns it.\<close>

theorem completed_is_final:
  assumes "reachable_installs env s" "im_drafts (sy_manager s) = Some ds" "status_of ds i = Some InstallCompleted"
    and "install_step env s s'" "im_drafts (sy_manager s') = Some ds'"
  shows "status_of ds' i = Some InstallCompleted \<and> i \<notin> fst ` set (sy_workers s')"
proof -
  have final: "status_of ds' i = Some InstallCompleted" by (rule completed_stays [OF assms(1,4,2,3,5)])
  have "reachable_installs env s'" using assms(1,4) by (rule goes_on)
  from reachable_ok [OF this, of False] final assms(5) show ?thesis
    by (auto simp: install_ok_def workers_ok_def statuses_ok_def map_of_eq_None_iff)
qed

text \<open>C37: A cancellation that arrives between the recovery of a draft and the end of its ownership leaves the draft stopping without
  a worker: when the drop of the worker's guard ends, nothing will change the status any more, and in this state neither
  \<open>reserve\<close> nor \<open>cancel\<close> accepts the installation.\<close>

theorem late_cancel_strands:
  assumes "reachable_installs env s" "worker_at s k i (Finishing (Inr ()))"
    and "cancel_installation env st i (sy_manager s) (sy_world s) = (Done (Inr d, m), w)"
  shows "\<exists>s'. reachable_installs env s' \<and> i \<notin> fst ` set (sy_workers s') \<and>
    (\<exists>ds. im_drafts (sy_manager s') = Some ds \<and> status_of ds i = Some InstallStopping) \<and>
    (\<forall>st a w. \<exists>e. reserve env st a i (sy_manager s') w = (Done (Inl e, sy_manager s'), w)) \<and>
    (\<forall>st w. \<exists>e. cancel_installation env st i (sy_manager s') w = (Done (Inl e, sy_manager s'), w))"
proof -
  have ok: "distinct (map fst (sy_workers s))" "workers_ok {} (map_of (sy_workers s)) (sy_confirming s) (sy_manager s)"
    using reachable_ok [OF assms(1), of False] by (simp_all add: install_ok_def)
  have at: "k < length (sy_workers s)" "sy_workers s ! k = (i, Finishing (Inr ()))" using assms(2) by (auto simp: worker_at_def)
  note i = map_of_removed [OF ok(1) at]
  obtain ds where ds: "im_drafts (sy_manager s) = Some ds" using ok(2) i(3) by (auto simp: workers_ok_def split: option.splits)
  from cancel_accepted [OF ds assms(3)] obtain d0 where d0: "draft_of i ds = Some d0"
    "im_drafts m = Some (replace_first i (d0\<lparr>dr_status := InstallStopping, dr_message := Some StopRequested\<rparr>) ds)" by blast
  let ?d = "d0\<lparr>dr_status := InstallStopping, dr_message := Some StopRequested\<rparr>"
  let ?s1 = "s\<lparr>sy_manager := m, sy_world := w\<rparr>"
  let ?s2 = "end_worker k (?s1\<lparr>sy_manager := drop_finishes i (Inr ()) (sy_manager ?s1)\<rparr>)"
  have "in_section (cancel_installation env st i) (\<lambda>_ s. s) s = ?s1" using assms(3) by (simp add: in_section_def)
  then have "reachable_installs env ?s1" using goes_on [OF assms(1) install_cancels [of env s st i]] by simp
  then have reach: "reachable_installs env ?s2" by (rule goes_on) (rule drop_finish, use at in \<open>simp add: worker_at_def\<close>)
  have stop: "status_of (replace_first i ?d ds) i = Some InstallStopping" using draft_of_Some [OF d0(1)] by (simp add: status_replaced [OF d0(1)])
  then obtain d1 where d1: "draft_of i (replace_first i ?d ds) = Some d1" "dr_status d1 = InstallStopping" by (auto simp: status_of_def)
  have mgr: "sy_manager ?s2 = m\<lparr>im_active := (im_active m)(i := None)\<rparr>" by (simp add: end_worker_def drop_finishes_def)
  have refused: "\<exists>e. reserve env st a i (sy_manager ?s2) w = (Done (Inl e, sy_manager ?s2), w)" for st a w
    unfolding mgr using d0(2) d1 by (auto simp: reserve_def install_transaction_def load_drafts_def chain_def ret_def reply_now_def can_restart_def)
  have ignored: "\<exists>e. cancel_installation env st i (sy_manager ?s2) w = (Done (Inl e, sy_manager ?s2), w)" for st w
    unfolding mgr using d0(2) by (simp add: cancel_installation_def install_transaction_def load_drafts_def chain_def ret_def reply_now_def)
  have "map_of (sy_workers ?s2) i = None" using i(1) by (simp add: end_worker_def)
  then have gone: "i \<notin> fst ` set (sy_workers ?s2)" by (simp only: map_of_eq_None_iff not_False_eq_True)
  show ?thesis
  proof (intro exI [of _ ?s2] conjI allI)
    show "\<exists>ds. im_drafts (sy_manager ?s2) = Some ds \<and> status_of ds i = Some InstallStopping" unfolding mgr using d0(2) stop by simp
  qed (rule reach refused ignored gone)+
qed

subsection \<open>The hypotheses can hold\<close>

lemma ex_readable: "readable (sy_world ex_reserved)"
proof -
  have "wd_unreadable (sy_world ex_created) = wd_unreadable (sy_world (ex_start\<lparr>sy_used := insert ''a'' (sy_used ex_start)\<rparr>))"
    unfolding ex_created_def by (rule in_section_reads) (auto intro: steady_operations split: sum.split)
  moreover have "wd_unreadable (sy_world ex_reserved) = wd_unreadable (sy_world ex_created)"
    unfolding ex_reserved_def by (rule in_section_reads) (auto intro: steady_reserve simp: add_worker_def split: sum.split)
  ultimately show ?thesis by (simp add: readable_def ex_start_def ex_directory_def)
qed

theorem created_are_never_lost_witness:
  "\<exists>ds. value_of (drafts_document ex_install_env) INSTALLATIONS_FILE (wd_disk (sy_world ex_reserved)) = Some ds \<and> sy_created ex_reserved \<subseteq> ids_of ds \<and>
    (case im_drafts (sy_manager ex_reserved) of None \<Rightarrow> True | Some memory \<Rightarrow> sy_created ex_reserved \<subseteq> ids_of memory)"
  by (rule created_are_never_lost [OF ex_faithful ex_readable ex_reserved_reachable])

theorem workers_are_registered_witness:
  "(im_active (sy_manager ex_reserved) ''a'' \<noteq> None \<longleftrightarrow> ''a'' \<in> fst ` set (sy_workers ex_reserved)) \<and> sy_workers ex_reserved = [(''a'', Working)]"
  using workers_are_registered [OF ex_reserved_reachable] ex_working by blast

theorem late_cancel_strands_witness:
  "\<exists>s'. reachable_installs ex_install_env s' \<and> ''a'' \<notin> fst ` set (sy_workers s') \<and>
    (\<exists>ds. im_drafts (sy_manager s') = Some ds \<and> status_of ds ''a'' = Some InstallStopping)"
proof -
  obtain r m w where run: "cancel_installation ex_install_env (ex_stamps 4) ''a'' (sy_manager ex_finishing) (sy_world ex_finishing) = (Done (r, m), w)" "is_ok r"
    using ex_cancel_accepted by (auto split: outcome.splits prod.splits)
  then obtain d where "r = Inr d" by (cases r) (auto simp: is_ok_def)
  with run(1) late_cancel_strands [OF ex_finishing_reachable ex_ends, of "ex_stamps 4" d m w] show ?thesis by blast
qed

end
