(* ===== verification/LaunchTemplates.thy ===== *)
theory LaunchTemplates
  imports RoPrelude
begin

text \<open>
  The launch arguments of a server (\<open>src-tauri/src/models/launch.rs\<close>): templates with fields \<open>${key}\<close>, their validation and their
  rendering with the values given at a launch.  The order in which the hash map of values and the set of required keys are
  visited is an argument: the list of values, and \<open>visit\<close>.
\<close>

section \<open>Bounds, values and errors\<close>

definition MAX_LAUNCH_ARGUMENTS :: nat where "MAX_LAUNCH_ARGUMENTS = 64"
definition MAX_LAUNCH_ARGUMENT_LENGTH :: nat where "MAX_LAUNCH_ARGUMENT_LENGTH = 4096"
definition MAX_LAUNCH_TOTAL_LENGTH :: nat where "MAX_LAUNCH_TOTAL_LENGTH = 16384"
definition MAX_LAUNCH_FIELDS :: nat where "MAX_LAUNCH_FIELDS = 16"
definition MAX_LAUNCH_FIELD_KEY_LENGTH :: nat where "MAX_LAUNCH_FIELD_KEY_LENGTH = 32"
definition MAX_LAUNCH_VALUE_LENGTH :: nat where "MAX_LAUNCH_VALUE_LENGTH = 4096"

datatype launch_strategy = Direct | Patcher

record launch_config =
  lc_strategy :: launch_strategy
  lc_game_args :: "string list"
  lc_patcher_args :: "string list"
  lc_require_webview2 :: bool

definition launch_default :: launch_config where
  "launch_default = \<lparr>lc_strategy = Direct, lc_game_args = [], lc_patcher_args = [], lc_require_webview2 = False\<rparr>"

type_synonym launch_values = "(string \<times> string) list"

datatype launch_error =
    TooManyArguments string
  | BlankArgument string nat
  | ControlInArgument string nat
  | ArgumentTooLong string nat
  | ArgumentsTooLong string
  | UnclosedField nat
  | BadFieldKey string
  | TooManyFields
  | TooManyValues
  | UnexpectedField string
  | EmptyValue string
  | ControlInValue string
  | ValueTooLong string
  | MissingValue string
  | RenderedTooLong nat
  | RenderedTotalTooLong

definition active_args :: "launch_config \<Rightarrow> string list" where
  "active_args c = (case lc_strategy c of Direct \<Rightarrow> lc_game_args c | Patcher \<Rightarrow> lc_patcher_args c)"

text \<open>What is hidden from the logs, longest first.\<close>

definition redaction_values :: "launch_values \<Rightarrow> string list" where
  "redaction_values vs = dedup (sort_by_key (\<lambda>v. - int (byte_length v)) (filter (\<lambda>v. v \<noteq> []) (map snd vs)))"

section \<open>Fields of a template\<close>

definition is_ascii_alphabetic :: "char \<Rightarrow> bool" where
  "is_ascii_alphabetic c \<longleftrightarrow> (let n = (of_char c :: nat) in 65 \<le> n \<and> n \<le> 90 \<or> 97 \<le> n \<and> n \<le> 122)"

definition validate_field_key :: "string \<Rightarrow> (launch_error, unit) result" where
  "validate_field_key key =
     (let valid_start = (case key of [] \<Rightarrow> False | c # _ \<Rightarrow> is_ascii_alphabetic c);
          valid_rest = list_all (\<lambda>c. is_ascii_alphanumeric c \<or> c = CHR ''_'' \<or> c = CHR ''-'') (drop 1 key)
      in if \<not> valid_start \<or> \<not> valid_rest \<or> MAX_LAUNCH_FIELD_KEY_LENGTH < byte_length key then Inl (BadFieldKey key) else Inr ())"

definition contains_control_character :: "string \<Rightarrow> bool" where
  "contains_control_character value = list_ex is_control value"

text \<open>The next field after the cursor: the text before it, its key and what follows it.\<close>

datatype found = NoField | Unclosed | Field string string string

definition next_field :: "string \<Rightarrow> found" where
  "next_field s =
     (case find_sub ''${'' s of
        None \<Rightarrow> NoField
      | Some start \<Rightarrow>
          let rest = drop (start + 2) s
          in case position (\<lambda>c. c = CHR ''}'') rest of
               None \<Rightarrow> Unclosed
             | Some stop \<Rightarrow> Field (take start s) (take stop rest) (drop (stop + 1) rest))"

lemma find_sub_length: "find_sub p s = Some k \<Longrightarrow> k + length p \<le> length s"
  by (induction p s arbitrary: k rule: find_sub.induct) (auto split: if_splits dest: prefix_length_le)

lemma next_field_shorter: "next_field s = Field t k r \<Longrightarrow> length r < length s"
proof -
  assume "next_field s = Field t k r"
  then obtain start stop where s: "find_sub ''${'' s = Some start" "r = drop (stop + 1) (drop (start + 2) s)"
    by (auto simp: next_field_def Let_def split: option.splits)
  from find_sub_length [OF s(1)] s(2) show ?thesis by simp
qed

function template_fields :: "nat \<Rightarrow> string \<Rightarrow> (launch_error, string list) result" where
  "template_fields index s =
     (case next_field s of
        NoField \<Rightarrow> Inr []
      | Unclosed \<Rightarrow> Inl (UnclosedField (index + 1))
      | Field _ key rest \<Rightarrow>
          and_then (validate_field_key key) (\<lambda>_. and_then (template_fields index rest) (\<lambda>found_keys. Inr (key # found_keys))))"
  by pat_completeness auto

termination by (relation "measure (\<lambda>(_, s). length s)") (auto dest: next_field_shorter)

function render_argument :: "nat \<Rightarrow> launch_values \<Rightarrow> string \<Rightarrow> (launch_error, string) result" where
  "render_argument index vals s =
     (case next_field s of
        NoField \<Rightarrow> Inr s
      | Unclosed \<Rightarrow> Inl (UnclosedField (index + 1))
      | Field before key rest \<Rightarrow>
          and_then (validate_field_key key) (\<lambda>_.
            case map_of vals key of
              None \<Rightarrow> Inl (MissingValue key)
            | Some v \<Rightarrow> and_then (render_argument index vals rest) (\<lambda>r. Inr (before @ v @ r))))"
  by pat_completeness auto

termination by (relation "measure (\<lambda>(_, _, s). length s)") (auto dest: next_field_shorter)

declare template_fields.simps [simp del] render_argument.simps [simp del]

section \<open>Validation\<close>

text \<open>The loop of \<open>extract_launch_fields\<close> over the keys of one argument, then over the arguments.\<close>

fun add_fields :: "string list \<Rightarrow> string list \<Rightarrow> (launch_error, string list) result" where
  "add_fields found_keys [] = Inr found_keys"
| "add_fields found_keys (key # keys) =
     (if key \<in> set found_keys then add_fields found_keys keys
      else if MAX_LAUNCH_FIELDS \<le> length found_keys then Inl TooManyFields
      else add_fields (found_keys @ [key]) keys)"

fun extract_from :: "nat \<Rightarrow> string list \<Rightarrow> string list \<Rightarrow> (launch_error, string list) result" where
  "extract_from index found_keys [] = Inr found_keys"
| "extract_from index found_keys (argument # args) =
     and_then (template_fields index argument) (\<lambda>keys.
     and_then (add_fields found_keys keys) (\<lambda>found_keys.
     extract_from (index + 1) found_keys args))"

definition extract_launch_fields :: "string list \<Rightarrow> (launch_error, string list) result" where
  "extract_launch_fields args = extract_from 0 [] args"

fun check_arguments :: "string \<Rightarrow> nat \<Rightarrow> nat \<Rightarrow> string list \<Rightarrow> (launch_error, unit) result" where
  "check_arguments label index total_length [] = Inr ()"
| "check_arguments label index total_length (argument # args) =
     (if trim argument = [] then Inl (BlankArgument label (index + 1))
      else if contains_control_character argument then Inl (ControlInArgument label (index + 1))
      else if MAX_LAUNCH_ARGUMENT_LENGTH < length argument then Inl (ArgumentTooLong label (index + 1))
      else if MAX_LAUNCH_TOTAL_LENGTH < total_length + length argument then Inl (ArgumentsTooLong label)
      else and_then (template_fields index argument) (\<lambda>_.
        check_arguments label (index + 1) (total_length + length argument) args))"

definition validate_argument_list :: "string \<Rightarrow> string list \<Rightarrow> (launch_error, unit) result" where
  "validate_argument_list label args =
     (if MAX_LAUNCH_ARGUMENTS < length args then Inl (TooManyArguments label)
      else and_then (check_arguments label 0 0 args) (\<lambda>_. and_then (extract_launch_fields args) (\<lambda>_. Inr ())))"

definition validate_launch :: "launch_config \<Rightarrow> (launch_error, unit) result" where
  "validate_launch c =
     and_then (validate_argument_list ''del juego'' (lc_game_args c)) (\<lambda>_.
     validate_argument_list ''del patcher'' (lc_patcher_args c))"

fun check_values :: "string list \<Rightarrow> launch_values \<Rightarrow> (launch_error, unit) result" where
  "check_values required [] = Inr ()"
| "check_values required ((key, value) # vs) =
     and_then (validate_field_key key) (\<lambda>_.
       if key \<notin> set required then Inl (UnexpectedField key)
       else if value = [] then Inl (EmptyValue key)
       else if contains_control_character value then Inl (ControlInValue key)
       else if MAX_LAUNCH_VALUE_LENGTH < length value then Inl (ValueTooLong key)
       else check_values required vs)"

fun check_required :: "launch_values \<Rightarrow> string list \<Rightarrow> (launch_error, unit) result" where
  "check_required vals [] = Inr ()"
| "check_required vals (key # keys) =
     (if map_of vals key = None then Inl (MissingValue key) else check_required vals keys)"

definition validate_values :: "(string list \<Rightarrow> string list) \<Rightarrow> string list \<Rightarrow> launch_values \<Rightarrow> (launch_error, unit) result" where
  "validate_values visit required vals =
     (if MAX_LAUNCH_FIELDS < length vals then Inl TooManyValues
      else and_then (check_values required vals) (\<lambda>_. check_required vals (visit required)))"

section \<open>Rendering\<close>

fun render_all :: "nat \<Rightarrow> nat \<Rightarrow> launch_values \<Rightarrow> string list \<Rightarrow> (launch_error, string list) result" where
  "render_all index total_length vals [] = Inr []"
| "render_all index total_length vals (argument # args) =
     and_then (render_argument index vals argument) (\<lambda>value.
       if MAX_LAUNCH_ARGUMENT_LENGTH < length value then Inl (RenderedTooLong (index + 1))
       else if MAX_LAUNCH_TOTAL_LENGTH < total_length + length value then Inl RenderedTotalTooLong
       else and_then (render_all (index + 1) (total_length + length value) vals args) (\<lambda>rendered. Inr (value # rendered)))"

definition render_launch_args :: "(string list \<Rightarrow> string list) \<Rightarrow> string list \<Rightarrow> launch_values \<Rightarrow> (launch_error, string list) result" where
  "render_launch_args visit args vals =
     and_then (validate_argument_list ''de lanzamiento'' args) (\<lambda>_.
     and_then (extract_launch_fields args) (\<lambda>required.
     and_then (validate_values visit required vals) (\<lambda>_.
     render_all 0 0 vals args)))"

definition render_args :: "(string list \<Rightarrow> string list) \<Rightarrow> launch_config \<Rightarrow> launch_values \<Rightarrow> (launch_error, string list) result" where
  "render_args visit c vals = and_then (validate_launch c) (\<lambda>_. render_launch_args visit (active_args c) vals)"

section \<open>Templates\<close>

text \<open>A template is a list of texts, each followed by a field, and a last text.  No text has the opening of a field.\<close>

fun unparse :: "(string \<times> string) list \<Rightarrow> string \<Rightarrow> string" where
  "unparse [] t = t"
| "unparse ((s, key) # ps) t = s @ ''${'' @ key @ ''}'' @ unparse ps t"

fun filled :: "launch_values \<Rightarrow> (string \<times> string) list \<Rightarrow> string \<Rightarrow> string" where
  "filled vals [] t = t"
| "filled vals ((s, key) # ps) t = s @ the (map_of vals key) @ filled vals ps t"

definition plain_text :: "string \<Rightarrow> bool" where "plain_text t \<longleftrightarrow> find_sub ''${'' t = None"

definition well_formed :: "(string \<times> string) list \<Rightarrow> string \<Rightarrow> bool" where
  "well_formed ps t \<longleftrightarrow> (\<forall>(s, key) \<in> set ps. plain_text s \<and> validate_field_key key = Inr ()) \<and> plain_text t"

text \<open>\<open>r\<close> is the argument \<open>a\<close> with every field replaced by its value, once: a value that looks like a field stays as it is.\<close>

definition substituted :: "launch_values \<Rightarrow> string \<Rightarrow> string \<Rightarrow> bool" where
  "substituted vals a r \<longleftrightarrow> (\<exists>ps t. well_formed ps t \<and> a = unparse ps t \<and> r = filled vals ps t)"

lemma and_then_Inr_iff: "and_then r f = Inr y \<longleftrightarrow> (\<exists>x. r = Inr x \<and> f x = Inr y)"
  by (auto simp: and_then_def split: sum.splits)

lemma find_sub_two: "find_sub [a, b] (x # y # s) = (if x = a \<and> y = b then Some 0 else map_option Suc (find_sub [a, b] (y # s)))"
  by simp

lemma find_sub_first:
  assumes "find_sub [a, b] t = None" "a \<noteq> b"
  shows "find_sub [a, b] (t @ a # b # r) = Some (length t)"
  using assms
proof (induction t)
  case (Cons x t)
  then show ?case by (cases t) (auto split: if_splits)
qed simp

lemma find_sub_Some:
  "find_sub p s = Some k \<Longrightarrow> s = take k s @ p @ drop (k + length p) s \<and> (p \<noteq> [] \<longrightarrow> find_sub p (take k s) = None)"
proof (induction p s arbitrary: k rule: find_sub.induct)
  case (2 p x xs)
  show ?case
  proof (cases "prefix p (x # xs)")
    case True
    then show ?thesis using 2(2) by (auto simp: prefix_def)
  next
    case False
    then obtain j where j: "k = Suc j" "find_sub p xs = Some j" using 2(2) by auto
    have "\<not> prefix p (x # take j xs)"
    proof
      assume "prefix p (x # take j xs)"
      moreover have "prefix (x # take j xs) (x # xs)" by (simp add: take_is_prefix)
      ultimately show False using False prefix_order.trans by blast
    qed
    with 2(1) [OF False j(2)] j show ?thesis by simp
  qed
qed (auto split: if_splits)

lemma position_first: "(\<And>x. x \<in> set k \<Longrightarrow> \<not> P x) \<Longrightarrow> P c \<Longrightarrow> position P (k @ c # r) = Some (length k)"
  by (induction k) auto

lemma position_found: "position P xs = Some n \<Longrightarrow> \<exists>c. xs = take n xs @ c # drop (n + 1) xs \<and> P c \<and> (\<forall>x \<in> set (take n xs). \<not> P x)"
  by (induction xs arbitrary: n) (auto split: if_splits)

lemma next_field_plain: "plain_text s \<Longrightarrow> next_field s = NoField"
  by (simp add: plain_text_def next_field_def)

lemma next_field_unparse:
  assumes "plain_text t" "CHR ''}'' \<notin> set key"
  shows "next_field (t @ ''${'' @ key @ ''}'' @ r) = Field t key r"
proof -
  have "find_sub ''${'' (t @ ''${'' @ key @ ''}'' @ r) = Some (length t)"
    using find_sub_first [of "CHR ''$''" "CHR ''{''" t "key @ ''}'' @ r"] assms(1) by (simp add: plain_text_def)
  moreover have "position (\<lambda>c. c = CHR ''}'') (key @ CHR ''}'' # r) = Some (length key)"
    using assms(2) by (intro position_first) auto
  ultimately show ?thesis by (simp add: next_field_def Let_def)
qed

lemma next_field_found:
  assumes "next_field s = Field t key r"
  shows "s = t @ ''${'' @ key @ ''}'' @ r" "plain_text t"
proof -
  obtain start stop where f: "find_sub ''${'' s = Some start" and p: "position (\<lambda>c. c = CHR ''}'') (drop (start + 2) s) = Some stop"
    and e: "t = take start s" "key = take stop (drop (start + 2) s)" "r = drop (stop + 1) (drop (start + 2) s)"
    using assms by (auto simp: next_field_def Let_def split: option.splits)
  from find_sub_Some [OF f] have s: "s = take start s @ ''${'' @ drop (start + 2) s" "find_sub ''${'' (take start s) = None" by auto
  from position_found [OF p] have "drop (start + 2) s = key @ ''}'' @ r" unfolding e by auto
  then show "s = t @ ''${'' @ key @ ''}'' @ r" using s(1) e(1) by simp
  show "plain_text t" using s(2) e(1) by (simp add: plain_text_def)
qed

lemma key_chars: "validate_field_key key = Inr () \<Longrightarrow> CHR ''}'' \<notin> set key"
proof -
  assume ok: "validate_field_key key = Inr ()"
  have "\<not> is_ascii_alphabetic (CHR ''}'')" "\<not> is_ascii_alphanumeric (CHR ''}'')"
    by (simp_all add: is_ascii_alphabetic_def is_ascii_alphanumeric_def)
  then show ?thesis using ok
    by (cases key) (auto simp: validate_field_key_def Let_def list_all_iff split: if_splits)
qed

lemma unparse_next:
  assumes "well_formed ((s, key) # ps) t"
  shows "next_field (unparse ((s, key) # ps) t) = Field s key (unparse ps t)"
  using assms next_field_unparse [of s key "unparse ps t"] key_chars by (auto simp: well_formed_def)

lemma template_fields_unparse: "well_formed ps t \<Longrightarrow> template_fields i (unparse ps t) = Inr (map snd ps)"
proof (induction ps)
  case Nil
  then show ?case by (simp add: well_formed_def template_fields.simps next_field_plain)
next
  case (Cons p ps)
  obtain s key where p: "p = (s, key)" by (cases p)
  have "well_formed ps t" "validate_field_key key = Inr ()" using Cons.prems p by (auto simp: well_formed_def)
  with Cons unparse_next [of s key ps t] p show ?case by (subst template_fields.simps) (simp add: and_then_def)
qed

lemma template_fields_found:
  "template_fields i s = Inr keys \<Longrightarrow> \<exists>ps t. well_formed ps t \<and> s = unparse ps t \<and> keys = map snd ps"
proof (induction i s arbitrary: keys rule: template_fields.induct)
  case (1 i s)
  show ?case
  proof (cases "next_field s")
    case NoField
    then have "plain_text s" by (auto simp: next_field_def plain_text_def Let_def split: option.splits)
    moreover have "keys = []" using "1.prems" NoField by (simp add: template_fields.simps)
    ultimately show ?thesis by (intro exI [of _ "[]"] exI [of _ s]) (simp add: well_formed_def)
  next
    case Unclosed
    then show ?thesis using "1.prems" by (simp add: template_fields.simps)
  next
    case (Field t key r)
    obtain rest where rest: "validate_field_key key = Inr ()" "template_fields i r = Inr rest" "keys = key # rest"
      using "1.prems" Field by (subst (asm) template_fields.simps) (auto simp: and_then_Inr_iff)
    obtain ps u where "well_formed ps u" "r = unparse ps u" "rest = map snd ps"
      using "1.IH" [OF Field rest(2)] by auto
    then show ?thesis using next_field_found [OF Field] rest
      by (intro exI [of _ "(t, key) # ps"] exI [of _ u]) (simp add: well_formed_def)
  qed
qed

lemma render_unparse:
  "well_formed ps t \<Longrightarrow> (\<forall>key \<in> snd ` set ps. map_of vals key \<noteq> None) \<Longrightarrow> render_argument i vals (unparse ps t) = Inr (filled vals ps t)"
proof (induction ps)
  case Nil
  then show ?case by (simp add: well_formed_def render_argument.simps next_field_plain)
next
  case (Cons p ps)
  obtain s key where p: "p = (s, key)" by (cases p)
  have "well_formed ps t" "validate_field_key key = Inr ()" using Cons.prems p by (auto simp: well_formed_def)
  with Cons unparse_next [of s key ps t] p show ?case by (subst render_argument.simps) (auto simp: and_then_def)
qed

section \<open>What a rendering is\<close>

abbreviation bound_keys :: "launch_values \<Rightarrow> string \<Rightarrow> bool" where
  "bound_keys vals a \<equiv> \<exists>ps t. well_formed ps t \<and> a = unparse ps t \<and> (\<forall>key \<in> snd ` set ps. map_of vals key \<noteq> None)"

lemma substituted_render:
  assumes "bound_keys vals a"
  shows "substituted vals a r \<longleftrightarrow> render_argument i vals a = Inr r"
proof
  assume "substituted vals a r"
  then obtain ps t where p: "well_formed ps t" "a = unparse ps t" "r = filled vals ps t" by (auto simp: substituted_def)
  obtain ps' t' where p': "well_formed ps' t'" "a = unparse ps' t'" "\<forall>key \<in> snd ` set ps'. map_of vals key \<noteq> None" using assms by auto
  have "map snd ps = map snd ps'"
    using template_fields_unparse [OF p(1), of 0] template_fields_unparse [OF p'(1), of 0] p(2) p'(2) by simp
  then have "snd ` set ps = snd ` set ps'" by (metis set_map)
  then show "render_argument i vals a = Inr r" using render_unparse [OF p(1), of vals i] p p'(3) by simp
next
  assume r: "render_argument i vals a = Inr r"
  obtain ps t where p: "well_formed ps t" "a = unparse ps t" "\<forall>key \<in> snd ` set ps. map_of vals key \<noteq> None" using assms by auto
  then show "substituted vals a r" using render_unparse [OF p(1,3), of i] r unfolding substituted_def by auto
qed

lemma bound_renders: "bound_keys vals a \<Longrightarrow> \<exists>r. \<forall>i. render_argument i vals a = Inr r"
  using render_unparse by blast

lemma render_all_exact:
  assumes "\<forall>a \<in> set args. bound_keys vals a" "n \<le> MAX_LAUNCH_TOTAL_LENGTH"
  shows "render_all i n vals args = Inr out \<longleftrightarrow>
    list_all2 (substituted vals) args out \<and> (\<forall>r \<in> set out. length r \<le> MAX_LAUNCH_ARGUMENT_LENGTH) \<and>
    n + sum_list (map length out) \<le> MAX_LAUNCH_TOTAL_LENGTH"
  using assms
proof (induction args arbitrary: i n out)
  case Nil
  then show ?case by (cases out) auto
next
  case (Cons a args)
  from Cons.prems(1) obtain r where r: "\<And>i. render_argument i vals a = Inr r" using bound_renders [where vals = vals and a = a] by auto
  have sub: "substituted vals a x \<longleftrightarrow> x = r" for x
    using substituted_render [where vals = vals and a = a and r = x and i = i] Cons.prems(1) r [of i] by auto
  show ?case
  proof (cases "length r \<le> MAX_LAUNCH_ARGUMENT_LENGTH \<and> n + length r \<le> MAX_LAUNCH_TOTAL_LENGTH")
    case True
    then have "render_all i n vals (a # args) = Inr out \<longleftrightarrow> (\<exists>out'. out = r # out' \<and> render_all (i + 1) (n + length r) vals args = Inr out')"
      by (auto simp: r and_then_def split: sum.split)
    also have "\<dots> \<longleftrightarrow> (\<exists>out'. out = r # out' \<and> list_all2 (substituted vals) args out' \<and> (\<forall>r \<in> set out'. length r \<le> MAX_LAUNCH_ARGUMENT_LENGTH) \<and>
        n + length r + sum_list (map length out') \<le> MAX_LAUNCH_TOTAL_LENGTH)"
      using Cons.IH [of "n + length r" "i + 1"] Cons.prems(1) True by simp
    finally show ?thesis using True by (cases out) (auto simp: sub)
  next
    case False
    then have "render_all i n vals (a # args) \<noteq> Inr out" by (auto simp: r and_then_def)
    then show ?thesis using False by (cases out) (auto simp: sub)
  qed
qed

lemma add_fields_set: "add_fields found keys = Inr all \<Longrightarrow> set all = set found \<union> set keys"
  by (induction found keys rule: add_fields.induct) (auto split: if_splits)

lemma extracted:
  "extract_from i found args = Inr all \<Longrightarrow>
   set found \<subseteq> set all \<and> (\<forall>a \<in> set args. \<exists>ps t. well_formed ps t \<and> a = unparse ps t \<and> snd ` set ps \<subseteq> set all)"
proof (induction i found args arbitrary: all rule: extract_from.induct)
  case (2 i found a args)
  obtain keys more where k: "template_fields i a = Inr keys" "add_fields found keys = Inr more" "extract_from (i + 1) more args = Inr all"
    using "2.prems" by (auto simp: and_then_Inr_iff)
  obtain ps t where ps: "well_formed ps t" "a = unparse ps t" "keys = map snd ps" using template_fields_found [OF k(1)] by auto
  have IH: "set more \<subseteq> set all" "\<forall>a \<in> set args. \<exists>ps t. well_formed ps t \<and> a = unparse ps t \<and> snd ` set ps \<subseteq> set all"
    using "2.IH" [OF k(3)] by auto
  moreover have "set more = set found \<union> set keys" by (rule add_fields_set [OF k(2)])
  ultimately show ?case using ps by auto
qed simp

lemma required_bound: "check_required vals keys = Inr () \<longleftrightarrow> (\<forall>key \<in> set keys. map_of vals key \<noteq> None)"
  by (induction keys) auto

lemma bound_after:
  assumes "\<And>keys. set (visit keys) = set keys" "extract_launch_fields args = Inr required" "validate_values visit required vals = Inr ()"
  shows "\<forall>a \<in> set args. bound_keys vals a"
proof
  fix a
  assume "a \<in> set args"
  then obtain ps t where "well_formed ps t" "a = unparse ps t" "snd ` set ps \<subseteq> set required"
    using extracted [OF assms(2) [unfolded extract_launch_fields_def]] by blast
  moreover have "\<forall>key \<in> set required. map_of vals key \<noteq> None"
    using assms(1,3) required_bound [of vals "visit required"] by (auto simp: validate_values_def and_then_Inr_iff split: if_splits)
  ultimately show "bound_keys vals a" by blast
qed

lemma matched: "list_all2 P xs ys \<Longrightarrow> y \<in> set ys \<Longrightarrow> \<exists>x \<in> set xs. P x y"
  by (induction rule: list_all2_induct) auto

text \<open>Control characters: neither the texts nor the values have one.\<close>

lemma checked_plain: "check_arguments label i n args = Inr () \<Longrightarrow> \<forall>a \<in> set args. \<not> contains_control_character a"
  by (induction label i n args rule: check_arguments.induct) (auto simp: and_then_Inr_iff split: if_splits)

lemma checked_values:
  "check_values required vs = Inr () \<Longrightarrow> map_of vs key = Some v \<Longrightarrow> \<not> contains_control_character v \<and> v \<noteq> [] \<and> length v \<le> MAX_LAUNCH_VALUE_LENGTH"
  by (induction required vs rule: check_values.induct) (auto simp: and_then_Inr_iff split: if_splits)

lemma control_append [simp]: "contains_control_character (s @ t) \<longleftrightarrow> contains_control_character s \<or> contains_control_character t"
  by (simp add: contains_control_character_def)

lemma filled_plain:
  "\<not> contains_control_character (unparse ps t) \<Longrightarrow> (\<forall>key \<in> snd ` set ps. \<forall>v. map_of vals key = Some v \<longrightarrow> \<not> contains_control_character v) \<Longrightarrow>
   (\<forall>key \<in> snd ` set ps. map_of vals key \<noteq> None) \<Longrightarrow> \<not> contains_control_character (filled vals ps t)"
proof (induction ps)
  case (Cons p ps)
  obtain s key where p: "p = (s, key)" by (cases p)
  have "contains_control_character (''${'' @ u) = contains_control_character u" "contains_control_character (CHR ''}'' # u) = contains_control_character u" for u
    by (auto simp: contains_control_character_def is_control_def)
  with Cons p show ?case by (auto simp: contains_control_character_def)
qed simp

lemma rendering_exact:
  assumes "\<And>keys. set (visit keys) = set keys"
  shows "render_launch_args visit args vals = Inr out \<longleftrightarrow>
    validate_argument_list ''de lanzamiento'' args = Inr () \<and>
    (\<exists>required. extract_launch_fields args = Inr required \<and> validate_values visit required vals = Inr ()) \<and>
    list_all2 (substituted vals) args out \<and>
    (\<forall>r \<in> set out. length r \<le> MAX_LAUNCH_ARGUMENT_LENGTH) \<and> sum_list (map length out) \<le> MAX_LAUNCH_TOTAL_LENGTH"
proof -
  have "render_all 0 0 vals args = Inr out \<longleftrightarrow> list_all2 (substituted vals) args out \<and>
      (\<forall>r \<in> set out. length r \<le> MAX_LAUNCH_ARGUMENT_LENGTH) \<and> sum_list (map length out) \<le> MAX_LAUNCH_TOTAL_LENGTH"
    if "extract_launch_fields args = Inr required" "validate_values visit required vals = Inr ()" for required
    using render_all_exact [OF bound_after [OF assms that], of 0 0 out] by simp
  then show ?thesis unfolding render_launch_args_def by (auto simp: and_then_Inr_iff)
qed

section \<open>Results\<close>

text \<open>C17: A launch renders exactly when its templates are valid and its values are the expected ones and the results fit.  Every
  argument becomes one argument, in the same order, with each field replaced once by its value: a value cannot add an
  argument or be taken for a template.\<close>

theorem rendering_is_substitution:
  assumes "\<And>keys. set (visit keys) = set keys"
  shows "render_launch_args visit args vals = Inr out \<longleftrightarrow>
    validate_argument_list ''de lanzamiento'' args = Inr () \<and>
    (\<exists>required. extract_launch_fields args = Inr required \<and> validate_values visit required vals = Inr ()) \<and>
    list_all2 (substituted vals) args out \<and>
    (\<forall>r \<in> set out. length r \<le> MAX_LAUNCH_ARGUMENT_LENGTH) \<and> sum_list (map length out) \<le> MAX_LAUNCH_TOTAL_LENGTH"
  by (rule rendering_exact [OF assms])

text \<open>C38: What a launch passes on is bounded and clean: at most 64 arguments of at most 4096 characters, at most 16384 characters
  in all, and no control character in any of them.\<close>

theorem rendered_arguments_are_clean:
  assumes "\<And>keys. set (visit keys) = set keys" "render_args visit c vals = Inr out"
  shows "length out \<le> 64 \<and> (\<forall>r \<in> set out. length r \<le> 4096 \<and> \<not> contains_control_character r) \<and> sum_list (map length out) \<le> 16384"
proof -
  let ?args = "active_args c"
  have run: "render_launch_args visit ?args vals = Inr out" using assms(2) by (auto simp: render_args_def and_then_Inr_iff)
  from rendering_exact [OF assms(1)] run obtain required where
    v: "validate_argument_list ''de lanzamiento'' ?args = Inr ()" "extract_launch_fields ?args = Inr required"
      "validate_values visit required vals = Inr ()" "list_all2 (substituted vals) ?args out"
      "\<forall>r \<in> set out. length r \<le> MAX_LAUNCH_ARGUMENT_LENGTH" "sum_list (map length out) \<le> MAX_LAUNCH_TOTAL_LENGTH" by blast
  have bound: "\<forall>a \<in> set ?args. bound_keys vals a" by (rule bound_after [OF assms(1) v(2,3)])
  have args: "length ?args \<le> 64" "\<forall>a \<in> set ?args. \<not> contains_control_character a"
    using v(1) checked_plain by (auto simp: validate_argument_list_def MAX_LAUNCH_ARGUMENTS_def and_then_Inr_iff split: if_splits)
  have valsok: "check_values required vals = Inr ()" using v(3) by (auto simp: validate_values_def and_then_Inr_iff split: if_splits)
  have clean: "\<not> contains_control_character r" if r: "r \<in> set out" for r
  proof -
    obtain a where a: "a \<in> set ?args" "substituted vals a r" using matched [OF v(4) r] by blast
    obtain ps t where p: "well_formed ps t" "a = unparse ps t" "\<forall>key \<in> snd ` set ps. map_of vals key \<noteq> None" using bound a(1) by blast
    have "r = filled vals ps t"
      using a(2) substituted_render [where vals = vals and a = a and r = r and i = 0] render_unparse [OF p(1,3), of 0] p by auto
    then show ?thesis using filled_plain [of ps t vals] args(2) a(1) p checked_values [OF valsok] by blast
  qed
  show ?thesis using args(1) v clean list_all2_lengthD [OF v(4)] by (auto simp: MAX_LAUNCH_ARGUMENT_LENGTH_def MAX_LAUNCH_TOTAL_LENGTH_def)
qed


definition ex_launch :: launch_config where
  "ex_launch = launch_default\<lparr>lc_game_args := [''-t:${password}'', ''${userId}'']\<rparr>"

definition ex_values :: launch_values where
  "ex_values = [(''password'', ''a ${userId}''), (''userId'', ''me'')]"

lemma ex_fields [simp]:
  "next_field ''-t:${password}'' = Field ''-t:'' ''password'' []" "next_field ''${userId}'' = Field [] ''userId'' []" "next_field [] = NoField"
  by (simp_all add: next_field_def)

lemma ex_keys [simp]: "validate_field_key ''password'' = Inr ()" "validate_field_key ''userId'' = Inr ()"
  by (simp_all add: validate_field_key_def is_ascii_alphabetic_def is_ascii_alphanumeric_def MAX_LAUNCH_FIELD_KEY_LENGTH_def byte_length_def)

lemma ex_templates [simp]:
  "template_fields i ''-t:${password}'' = Inr [''password'']" "template_fields i ''${userId}'' = Inr [''userId'']"
  by (simp_all add: template_fields.simps and_then_def)

lemma ex_arguments [simp]: "render_argument i ex_values ''-t:${password}'' = Inr ''-t:a ${userId}''" "render_argument i ex_values ''${userId}'' = Inr ''me''"
  by (simp_all add: render_argument.simps and_then_def ex_values_def)

lemma ex_clean [simp]:
  "\<not> contains_control_character ''-t:${password}''" "\<not> contains_control_character ''${userId}''"
  "\<not> contains_control_character ''a ${userId}''" "\<not> contains_control_character ''me''" "trim ''-t:${password}'' \<noteq> []" "trim ''${userId}'' \<noteq> []"
  by (simp_all add: contains_control_character_def is_control_def) code_simp+

lemma ex_checked [simp]: "map_of ex_values ''password'' = Some ''a ${userId}''" "map_of ex_values ''userId'' = Some ''me''" "length ex_values = 2"
    "check_values [''password'', ''userId''] ex_values = Inr ()" "check_required ex_values [''password'', ''userId''] = Inr ()"
  by (simp_all add: ex_values_def and_then_def MAX_LAUNCH_VALUE_LENGTH_def)

lemma ex_rendered: "render_args (\<lambda>keys. keys) ex_launch ex_values = Inr [''-t:a ${userId}'', ''me'']"
  by (simp add: render_args_def validate_launch_def ex_launch_def launch_default_def validate_argument_list_def active_args_def
      render_launch_args_def extract_launch_fields_def validate_values_def and_then_def
      MAX_LAUNCH_ARGUMENTS_def MAX_LAUNCH_ARGUMENT_LENGTH_def MAX_LAUNCH_TOTAL_LENGTH_def MAX_LAUNCH_FIELDS_def MAX_LAUNCH_VALUE_LENGTH_def)

theorem rendered_arguments_are_clean_witness:
  "render_args (\<lambda>keys. keys) ex_launch ex_values = Inr [''-t:a ${userId}'', ''me''] \<and> length [''-t:a ${userId}'', ''me''] \<le> 64"
  using rendered_arguments_are_clean [of "\<lambda>keys. keys" ex_launch ex_values "[''-t:a ${userId}'', ''me'']"] ex_rendered by simp

theorem rendering_is_substitution_witness:
  "list_all2 (substituted ex_values) [''-t:${password}'', ''${userId}''] [''-t:a ${userId}'', ''me'']"
  using rendering_is_substitution [of "\<lambda>keys. keys" "[''-t:${password}'', ''${userId}'']" ex_values "[''-t:a ${userId}'', ''me'']"] ex_rendered
  by (auto simp: render_args_def ex_launch_def launch_default_def active_args_def and_then_Inr_iff)

end
