(* ===== verification/ServerConfigs.thy ===== *)
theory ServerConfigs
  imports Autopot Spammer Autobuff InstallationDrafts PrefixPaths LaunchTemplates
begin

text \<open>
  The servers of the launcher (\<open>src-tauri/src/models/server.rs\<close>): a configuration, its validation and that of a list.  The
  environment variable \<open>HOME\<close> and the parser of UUIDs are arguments.
\<close>

record server_config =
  sr_id :: string
  sr_name :: string
  sr_executable_path :: string
  sr_patcher_path :: "string option"
  sr_wine_prefix :: "string option"
  sr_prefix_mode :: "prefix_mode option"
  sr_runner :: "string option"
  sr_installation :: "installation_binding option"
  sr_launch :: launch_config
  sr_autopot :: autopot_config
  sr_spammer :: spammer_config
  sr_autobuff :: autobuff_config

datatype server_error =
    EmptyText string
  | TextTooLong string nat
  | MustBeExe string
  | BindingError draft_error
  | RunnerRequired
  | PrefixNotAbsolute
  | PrefixIsRoot
  | PrefixIsHome
  | CustomWithoutPrefix
  | PrefixWithoutCustom
  | RunnerInShared
  | LaunchError launch_error
  | PatcherMissing
  | ToolError tools_error
  | DuplicateServer string
  | ExecutableMissing string
  | PatcherFileMissing string

definition validate_non_empty :: "string \<Rightarrow> string \<Rightarrow> (server_error, unit) result" where
  "validate_non_empty label value = check (trim value \<noteq> []) (EmptyText label)"

definition validate_required :: "string \<Rightarrow> string \<Rightarrow> nat \<Rightarrow> (server_error, unit) result" where
  "validate_required label value max_len =
     and_then (validate_non_empty label value) (\<lambda>_. check (length value \<le> max_len) (TextTooLong label max_len))"

definition validate_exe_path :: "string \<Rightarrow> string \<Rightarrow> (server_error, unit) result" where
  "validate_exe_path label path =
     and_then (validate_non_empty label path) (\<lambda>_. check (suffix ''.exe'' (to_ascii_lowercase path)) (MustBeExe label))"

text \<open>Paths are compared by their components; an absolute path without a component has no parent.\<close>

definition rooted :: "string \<Rightarrow> bool" where "rooted path \<longleftrightarrow> prefix ''/'' path"

definition same_path :: "string \<Rightarrow> string \<Rightarrow> bool" where
  "same_path a b \<longleftrightarrow> rooted a = rooted b \<and> path_components a = path_components b"

definition validate_custom_prefix_path :: "string option \<Rightarrow> string \<Rightarrow> (server_error, unit) result" where
  "validate_custom_prefix_path home value =
     (let path = trim value
      in and_then (check (rooted path) PrefixNotAbsolute) (\<lambda>_.
         and_then (check (path_components path \<noteq> []) PrefixIsRoot) (\<lambda>_.
         check (case home of None \<Rightarrow> True | Some h \<Rightarrow> \<not> same_path path h) PrefixIsHome)))"

definition validate_prefix_mode :: "server_config \<Rightarrow> (server_error, unit) result" where
  "validate_prefix_mode s =
     (case sr_prefix_mode s of
        Some CustomMode \<Rightarrow> check (sr_wine_prefix s \<noteq> None) CustomWithoutPrefix
      | Some _ \<Rightarrow> check (sr_wine_prefix s = None) PrefixWithoutCustom
      | None \<Rightarrow> Inr ())"

definition validate_server :: "string option \<Rightarrow> (string \<Rightarrow> bool) \<Rightarrow> server_config \<Rightarrow> (server_error, unit) result" where
  "validate_server home uuid s =
     and_then (validate_required ''El identificador del servidor'' (sr_id s) 128) (\<lambda>_.
     and_then (validate_required ''El nombre del servidor'' (sr_name s) 80) (\<lambda>_.
     and_then (validate_exe_path ''El ejecutable del cliente'' (sr_executable_path s)) (\<lambda>_.
     and_then (optional (sr_installation s) (\<lambda>b.
       and_then (map_err BindingError (validate_binding uuid b)) (\<lambda>_.
       check (case sr_runner s of None \<Rightarrow> False | Some r \<Rightarrow> trim r \<noteq> []) RunnerRequired))) (\<lambda>_.
     and_then (optional (sr_patcher_path s) (validate_exe_path ''El patcher'')) (\<lambda>_.
     and_then (optional (sr_wine_prefix s) (\<lambda>p.
       and_then (validate_non_empty ''El WINEPREFIX'' p) (\<lambda>_. validate_custom_prefix_path home p))) (\<lambda>_.
     and_then (validate_prefix_mode s) (\<lambda>_.
     and_then (optional (sr_runner s) (\<lambda>r.
       and_then (validate_non_empty ''El runner'' r) (\<lambda>_. check (sr_prefix_mode s \<noteq> Some SharedMode) RunnerInShared))) (\<lambda>_.
     and_then (map_err LaunchError (validate_launch (sr_launch s))) (\<lambda>_.
     and_then (check (\<not> (lc_strategy (sr_launch s) = Patcher \<and> sr_patcher_path s = None)) PatcherMissing) (\<lambda>_.
     and_then (map_err ToolError (autopot_validate (sr_autopot s))) (\<lambda>_.
     and_then (map_err ToolError (validate_for_start (sr_spammer s))) (\<lambda>_.
     map_err ToolError (autobuff_validate (sr_autobuff s))))))))))))))"

text \<open>\<open>is_file\<close>: what the file system answers.\<close>

definition validate_executable_available :: "string option \<Rightarrow> (string \<Rightarrow> bool) \<Rightarrow> (string \<Rightarrow> bool) \<Rightarrow> server_config \<Rightarrow> (server_error, unit) result" where
  "validate_executable_available home uuid is_file s =
     and_then (validate_server home uuid s) (\<lambda>_.
     if \<not> is_file (sr_executable_path s) then Inl (ExecutableMissing (sr_executable_path s))
     else if lc_strategy (sr_launch s) = Patcher then
       (case sr_patcher_path s of
          None \<Rightarrow> Inl PatcherMissing
        | Some p \<Rightarrow> check (is_file p) (PatcherFileMissing p))
     else Inr ())"

text \<open>What the resolution of its prefix reads of a server.\<close>

definition server_prefix_of :: "server_config \<Rightarrow> server_prefix" where
  "server_prefix_of s =
     \<lparr>sv_id = sr_id s, sv_wine_prefix = sr_wine_prefix s, sv_prefix_mode = sr_prefix_mode s, sv_runner = sr_runner s\<rparr>"

definition validate_servers :: "string option \<Rightarrow> (string \<Rightarrow> bool) \<Rightarrow> server_config list \<Rightarrow> (server_error, unit) result" where
  "validate_servers home uuid ss = check_unique (validate_server home uuid) sr_id (\<lambda>s. DuplicateServer (sr_id s)) {} ss"

lemma validate_servers_ok:
  "validate_servers home uuid ss = Inr () \<longleftrightarrow> (\<forall>s \<in> set ss. validate_server home uuid s = Inr ()) \<and> distinct (map sr_id ss)"
  by (simp add: validate_servers_def check_unique_ok)

lemma available_valid: "validate_executable_available home uuid is_file s = Inr () \<Longrightarrow> validate_server home uuid s = Inr ()"
  by (auto simp: validate_executable_available_def and_then_Inr_iff)

text \<open>A valid server can be started: a patcher strategy has its patcher, its launch arguments are valid.\<close>

lemma valid_server_launch:
  "validate_server home uuid s = Inr () \<Longrightarrow>
   validate_launch (sr_launch s) = Inr () \<and> (lc_strategy (sr_launch s) = Patcher \<longrightarrow> sr_patcher_path s \<noteq> None)"
  by (auto simp: validate_server_def and_then_Inr_iff map_err_def split: sum.splits)

text \<open>Whatever prefix its fields name, a server runs in a managed prefix of its own.\<close>

lemma server_is_isolated:
  assumes "clean_path (pe_app_data pe)" "resolve_server_prefix_with_runner pe fs (Some (server_prefix_of s)) runner = Inr loc"
  shows "pl_managed loc \<and> pl_scope loc = Isolated \<and> pl_server_id loc = Some (sr_id s) \<and> expected_path pe loc = Inr (path_of (pl_path loc))"
  using managed_expected [OF assms] assms(2)
  by (auto simp: resolve_server_prefix_with_runner_def effective_prefix_mode_def server_prefix_of_def)

end
