(* ===== verification/Repositories.thy ===== *)
theory Repositories
  imports ServerConfigs
begin

text \<open>
  The stored servers and settings (\<open>src-tauri/src/state/mod.rs\<close>, \<open>utils/settings.rs\<close>, \<open>models/settings.rs\<close>,
  \<open>models/storage.rs\<close>) over the contract of a stored document.  The lock of a repository makes an operation one critical
  section; it is never poisoned.  The text of a notice is fixed by its source and kind.
\<close>

section \<open>Notices\<close>

datatype notice_source = ServersSource | SettingsSource

datatype notice_kind = MigratedNotice | RecoveredNotice

record storage_notice =
  sn_source :: notice_source
  sn_kind :: notice_kind

definition record_status :: "load_status \<Rightarrow> notice_source \<Rightarrow> storage_notice list \<Rightarrow> storage_notice list" where
  "record_status status source ns =
     (case status of
        Unchanged \<Rightarrow> ns
      | Migrated \<Rightarrow> ns @ [\<lparr>sn_source = source, sn_kind = MigratedNotice\<rparr>]
      | Recovered \<Rightarrow> ns @ [\<lparr>sn_source = source, sn_kind = RecoveredNotice\<rparr>])"

definition take_notices :: "storage_notice list \<Rightarrow> storage_notice list \<times> storage_notice list" where
  "take_notices ns = (ns, [])"

section \<open>Servers\<close>

record 'v repository_env =
  re_servers :: "('v, server_config list) document"
  re_home :: "string option"
  re_uuid :: "string \<Rightarrow> bool"
  re_is_file :: "string \<Rightarrow> bool"

definition SERVERS_FILE :: string where "SERVERS_FILE = ''servers.json''"

definition servers_document :: "'v repository_env \<Rightarrow> ('v, server_config list) document" where
  "servers_document env = (re_servers env)\<lparr>dc_default := [], dc_valid := (\<lambda>ss. validate_servers (re_home env) (re_uuid env) ss = Inr ())\<rparr>"

datatype repository_error =
    JsonFailed json_error
  | ServerInvalid server_error
  | NotInstalled
  | IdentifierTaken
  | EmptyRunner

definition lifted :: "('e \<Rightarrow> 'f) \<Rightarrow> ('e, 'a) run \<Rightarrow> ('f, 'a) run" where
  "lifted h m = chain (attempt m) (\<lambda>r. case r of Inl e \<Rightarrow> throw (h e) | Inr x \<Rightarrow> ret x)"

definition list_servers ::
  "'v repository_env \<Rightarrow> (nat \<Rightarrow> stamp) \<Rightarrow> storage_notice list \<Rightarrow>
   (repository_error \<times> storage_notice list, server_config list \<times> storage_notice list) run" where
  "list_servers env st ns =
     chain (lifted (\<lambda>e. (JsonFailed e, ns)) (load_json_recovering (servers_document env) (st 0) (st 1) SERVERS_FILE))
       (\<lambda>(ss, status). ret (ss, record_status status ServersSource ns))"

definition save_servers :: "'v repository_env \<Rightarrow> (nat \<Rightarrow> stamp) \<Rightarrow> server_config list \<Rightarrow> (repository_error, unit) run" where
  "save_servers env st ss =
     (case validate_servers (re_home env) (re_uuid env) ss of
        Inl e \<Rightarrow> throw (ServerInvalid e)
      | Inr _ \<Rightarrow> lifted JsonFailed (write_json (servers_document env) (st 0) SERVERS_FILE ss))"

definition server_of :: "string \<Rightarrow> server_config list \<Rightarrow> server_config option" where
  "server_of i ss = find (\<lambda>s. sr_id s = i) ss"

text \<open>The insertion of an installed server into the loaded list: it may be there already, from an earlier attempt.\<close>

definition insert_loaded ::
  "'v repository_env \<Rightarrow> stamp \<Rightarrow> server_config \<Rightarrow> storage_notice list \<Rightarrow> server_config list \<Rightarrow>
   (repository_error \<times> storage_notice list, server_config \<times> storage_notice list) run" where
  "insert_loaded env st server ns ss =
     (case server_of (sr_id server) ss of
        Some existing \<Rightarrow>
          if sr_installation existing = sr_installation server then ret (existing, ns) else throw (IdentifierTaken, ns)
      | None \<Rightarrow>
          chain (lifted (\<lambda>e. (JsonFailed e, ns)) (write_json (servers_document env) st SERVERS_FILE (ss @ [server])))
            (\<lambda>_. ret (server, ns)))"

definition insert_installed ::
  "'v repository_env \<Rightarrow> (nat \<Rightarrow> stamp) \<Rightarrow> server_config \<Rightarrow> storage_notice list \<Rightarrow>
   (repository_error \<times> storage_notice list, server_config \<times> storage_notice list) run" where
  "insert_installed env st server ns =
     (if sr_installation server = None then throw (NotInstalled, ns)
      else case validate_executable_available (re_home env) (re_uuid env) (re_is_file env) server of
        Inl e \<Rightarrow> throw (ServerInvalid e, ns)
      | Inr _ \<Rightarrow> chain (list_servers env st ns) (\<lambda>(ss, ns). insert_loaded env (st 2) server ns ss))"

section \<open>Settings\<close>

record app_settings =
  as_default_runner :: string
  as_rich_presence_enabled :: bool

record 'v settings_env =
  se_document :: "('v, app_settings) document"
  se_system_wine :: string
  se_managed_proton :: string

definition SETTINGS_FILE :: string where "SETTINGS_FILE = ''settings.json''"

definition settings_default :: "'v settings_env \<Rightarrow> app_settings" where
  "settings_default env = \<lparr>as_default_runner = se_system_wine env, as_rich_presence_enabled = False\<rparr>"

definition settings_valid :: "app_settings \<Rightarrow> bool" where
  "settings_valid s \<longleftrightarrow> trim (as_default_runner s) \<noteq> []"

definition settings_document :: "'v settings_env \<Rightarrow> ('v, app_settings) document" where
  "settings_document env = (se_document env)\<lparr>dc_default := settings_default env, dc_valid := settings_valid\<rparr>"

datatype document_origin = MissingDocument | PersistedDocument | RecoveredDocument

definition load_settings_document ::
  "'v settings_env \<Rightarrow> (nat \<Rightarrow> stamp) \<Rightarrow> (repository_error, app_settings \<times> load_status \<times> document_origin) run" where
  "load_settings_document env st =
     lifted JsonFailed (chain (path_exists SETTINGS_FILE (ret True) (ret False)) (\<lambda>existed.
     chain (load_json_recovering (settings_document env) (st 0) (st 1) SETTINGS_FILE) (\<lambda>(s, status).
     ret (s, status,
       if \<not> existed then MissingDocument else if status = Recovered then RecoveredDocument else PersistedDocument))))"

definition apply_product_default :: "'v settings_env \<Rightarrow> app_settings \<Rightarrow> document_origin \<Rightarrow> app_settings" where
  "apply_product_default env s origin =
     (if origin = MissingDocument then s\<lparr>as_default_runner := se_managed_proton env\<rparr> else s)"

definition load_settings :: "'v settings_env \<Rightarrow> (nat \<Rightarrow> stamp) \<Rightarrow> storage_notice list \<Rightarrow> (repository_error, app_settings \<times> storage_notice list) run" where
  "load_settings env st ns =
     chain (load_settings_document env st) (\<lambda>(s, status, origin).
     ret (apply_product_default env s origin, record_status status SettingsSource ns))"

definition save_settings :: "'v settings_env \<Rightarrow> (nat \<Rightarrow> stamp) \<Rightarrow> app_settings \<Rightarrow> (repository_error, unit) run" where
  "save_settings env st s =
     (if settings_valid s then lifted JsonFailed (write_json (settings_document env) (st 0) SETTINGS_FILE s) else throw EmptyRunner)"

section \<open>The stored list\<close>

lemma lifted_run:
  "lifted h m w = (case m w of (Done x, w1) \<Rightarrow> (Done x, w1) | (Failed e, w1) \<Rightarrow> (Failed (h e), w1) | (Killed, w1) \<Rightarrow> (Killed, w1))"
  by (auto simp: lifted_def attempt_def chain_def throw_def ret_def split: prod.split outcome.split)

abbreviation servers_stored :: "'v repository_env \<Rightarrow> disk \<Rightarrow> server_config list option" where
  "servers_stored env d \<equiv> value_of (servers_document env) SERVERS_FILE d"

abbreviation servers_settled :: "'v repository_env \<Rightarrow> server_config list \<Rightarrow> disk \<Rightarrow> bool" where
  "servers_settled env ss d \<equiv> settled (servers_document env) SERVERS_FILE ss d"

lemma stored_servers_valid: "servers_stored env d = Some ss \<Longrightarrow> validate_servers (re_home env) (re_uuid env) ss = Inr ()"
  by (auto simp: value_of_def content_of_def servers_document_def validate_servers_ok
      split: if_splits option.splits node.splits sum.splits dest!: check_valid)

lemma servers_load:
  assumes "lawful (servers_document env)" "servers_stored env (wd_disk w) = Some ss" "reads_ok SERVERS_FILE w"
    and "list_servers env st ns w = (r, w1)"
  shows "case r of Done (ss', _) \<Rightarrow> ss' = ss \<and> servers_settled env ss (wd_disk w1) | _ \<Rightarrow> servers_stored env (wd_disk w1) = Some ss"
proof -
  obtain q w2 where l: "load_json_recovering (servers_document env) (st 0) (st 1) SERVERS_FILE w = (q, w2)" by fastforce
  have "case q of Done (y, _) \<Rightarrow> y = ss \<and> lawful (servers_document env) \<and> servers_settled env ss (wd_disk w2)
      | _ \<Rightarrow> (if lawful (servers_document env) then servers_stored env (wd_disk w2) else None) = Some ss"
    using json.load_law [of "servers_document env" SERVERS_FILE w ss "st 0" "st 1" q w2] assms(1-3) l by simp
  with assms(1,4) l show ?thesis by (cases q) (auto simp: list_servers_def lifted_run chain_def ret_def)
qed

lemma servers_write:
  assumes "lawful (servers_document env)" "validate_servers (re_home env) (re_uuid env) new = Inr ()" "servers_settled env ss (wd_disk w)"
    and "lifted h (write_json (servers_document env) st SERVERS_FILE new) w = (r, w1)"
  shows "case r of Done _ \<Rightarrow> servers_settled env new (wd_disk w1) | _ \<Rightarrow> servers_stored env (wd_disk w1) \<in> {Some ss, Some new}"
proof -
  obtain q w2 where l: "write_json (servers_document env) st SERVERS_FILE new w = (q, w2)" by fastforce
  have p: "prints_back (servers_document env) new" using assms(1,2) by (simp add: lawful_def servers_document_def)
  note saved = json.saved_or_kept [where dc = "servers_document env" and name = SERVERS_FILE, OF p _ l, of ss]
  show ?thesis using saved assms(1,3,4) l by (cases q) (auto simp: lifted_run)
qed

lemma server_of_None: "server_of i ss = None \<longleftrightarrow> i \<notin> sr_id ` set ss"
  by (auto simp: server_of_def find_None_iff)

lemma server_of_append: "server_of i (ss @ [s]) = (case server_of i ss of None \<Rightarrow> if sr_id s = i then Some s else None | Some x \<Rightarrow> Some x)"
  by (induction ss) (auto simp: server_of_def)

definition with_server :: "server_config \<Rightarrow> server_config list \<Rightarrow> server_config list" where
  "with_server s ss = (if server_of (sr_id s) ss = None then ss @ [s] else ss)"

lemma with_server_again: "with_server s (with_server s ss) = with_server s ss"
  by (auto simp: with_server_def server_of_append split: option.splits)

fun inserted :: "'v repository_env \<Rightarrow> server_config \<Rightarrow> server_config list \<Rightarrow> (repository_error \<times> storage_notice list, server_config \<times> storage_notice list) outcome \<Rightarrow> disk \<Rightarrow> bool" where
  "inserted env server ss (Done (s, _)) d \<longleftrightarrow>
     servers_stored env d = Some (with_server server ss) \<and>
     server_of (sr_id server) (with_server server ss) = Some s \<and> sr_installation s = sr_installation server"
| "inserted env server ss _ d \<longleftrightarrow> servers_stored env d \<in> {Some ss, Some (with_server server ss)}"

lemma insert_loaded_ok:
  assumes law: "lawful (servers_document env)" and valid: "validate_server (re_home env) (re_uuid env) server = Inr ()"
    and ss: "servers_settled env ss (wd_disk w)" and run: "insert_loaded env st server ns ss w = (r, w1)"
  shows "inserted env server ss r (wd_disk w1)"
proof (cases "server_of (sr_id server) ss")
  case (Some existing)
  then have same: "with_server server ss = ss" by (simp add: with_server_def)
  show ?thesis using Some run ss by (auto simp: insert_loaded_def ret_def throw_def same settled_value split: if_splits)
next
  case None
  then have new: "with_server server ss = ss @ [server]" "server_of (sr_id server) (ss @ [server]) = Some server"
    by (simp_all add: with_server_def server_of_append)
  have "validate_servers (re_home env) (re_uuid env) (ss @ [server]) = Inr ()"
    using stored_servers_valid [OF settled_value [OF ss]] valid None by (auto simp: validate_servers_ok server_of_None)
  obtain q w2 where l: "lifted (\<lambda>e. (JsonFailed e, ns)) (write_json (servers_document env) st SERVERS_FILE (ss @ [server])) w = (q, w2)" by fastforce
  from servers_write [OF law \<open>validate_servers _ _ (ss @ [server]) = Inr ()\<close> ss l] run None l new show ?thesis
    by (cases q) (auto simp: insert_loaded_def chain_def ret_def settled_value)
qed

lemma insert_ok:
  assumes law: "lawful (servers_document env)" and ss: "servers_stored env (wd_disk w) = Some ss"
    and dir: "reads_ok SERVERS_FILE w" and run: "insert_installed env st server ns w = (r, w1)"
  shows "inserted env server ss r (wd_disk w1)"
proof (cases "sr_installation server = None \<or> validate_executable_available (re_home env) (re_uuid env) (re_is_file env) server \<noteq> Inr ()")
  case True
  then show ?thesis using run ss by (auto simp: insert_installed_def throw_def split: sum.splits if_splits)
next
  case False
  then have valid: "validate_server (re_home env) (re_uuid env) server = Inr ()" by (auto intro: available_valid)
  obtain q w2 where l: "list_servers env st ns w = (q, w2)" by fastforce
  note loaded = servers_load [OF law ss dir l]
  show ?thesis
  proof (cases q)
    case (Done p)
    then obtain ns' where q: "q = Done (ss, ns')" "servers_settled env ss (wd_disk w2)" using loaded by (cases p) auto
    have "insert_loaded env (st 2) server ns' ss w2 = (r, w1)"
      using run False l q by (auto simp: insert_installed_def chain_def)
    then show ?thesis by (rule insert_loaded_ok [OF law valid q(2)])
  qed (use run False l loaded in \<open>auto simp: insert_installed_def chain_def\<close>)
qed

text \<open>Attempts to insert the same server, each in a world of its own, in which any change may fail or be the one that it is killed
  at, and the two reads a load starts with do not fail.\<close>

inductive attempts :: "'v repository_env \<Rightarrow> server_config \<Rightarrow> disk \<Rightarrow> disk \<Rightarrow> bool" for env server d where
  none_yet: "attempts env server d d"
| one_more: "attempts env server d (wd_disk w) \<Longrightarrow> reads_ok SERVERS_FILE w \<Longrightarrow>
    insert_installed env st server ns w = (r, w1) \<Longrightarrow> attempts env server d (wd_disk w1)"

lemma attempts_stored:
  assumes "lawful (servers_document env)" "servers_stored env d = Some ss" "attempts env server d d'"
  shows "servers_stored env d' \<in> {Some ss, Some (with_server server ss)}"
  using assms(3)
proof induction
  case (one_more w st ns r w1)
  have "inserted env server ss r (wd_disk w1) \<or> inserted env server (with_server server ss) r (wd_disk w1)"
    using one_more.IH insert_ok [OF assms(1) _ one_more.hyps(2,3)] by auto
  then show ?case by (cases r) (auto simp: with_server_again)
qed (use assms(2) in simp)

section \<open>Results\<close>

text \<open>C16: An installed server is added once, provided that in no attempt the question whether the stored list exists or the
  first read of it fails (\<open>reads_ok\<close>; a failed question is taken for an empty list, which the next save would store in place
  of the other servers).  However many attempts to add it fail in a change or are killed, the stored list is the one before
  or the one with the server at its end, never with two of it; the attempt that answers Ok leaves the second and returns
  what is stored under its identifier.  A server of another installation under that identifier is never replaced.\<close>

theorem installed_server_added_once:
  assumes "lawful (servers_document env)" "servers_stored env d = Some ss" "attempts env server d (wd_disk w)"
    and "reads_ok SERVERS_FILE w" "insert_installed env st server ns w = (r, w1)"
  shows "servers_stored env (wd_disk w1) \<in> {Some ss, Some (with_server server ss)} \<and>
    (\<forall>s ns'. r = Done (s, ns') \<longrightarrow> servers_stored env (wd_disk w1) = Some (with_server server ss) \<and>
       server_of (sr_id server) (with_server server ss) = Some s \<and> sr_installation s = sr_installation server)"
proof -
  have "inserted env server ss r (wd_disk w1) \<or> inserted env server (with_server server ss) r (wd_disk w1)"
    using attempts_stored [OF assms(1-3)] insert_ok [OF assms(1) _ assms(4,5)] by auto
  then show ?thesis by (cases r) (auto simp: with_server_again)
qed


definition ex_installed :: server_config where
  "ex_installed = \<lparr>sr_id = ''one'', sr_name = ''One RO'', sr_executable_path = ''/games/one/Ragexe.exe'', sr_patcher_path = None,
     sr_wine_prefix = None, sr_prefix_mode = None, sr_runner = Some ''proton'',
     sr_installation = Some \<lparr>ib_installation_id = ''uuid'', ib_prefix_path = ''/prefixes/one'', ib_prefix_fingerprint = replicate 64 (CHR ''a'')\<rparr>,
     sr_launch = launch_default, sr_autopot = autopot_default_config,
     sr_spammer = spammer_default_config, sr_autobuff = autobuff_default_config\<rparr>"

text \<open>The empty list is stored as the byte 0, the list of that server as 1.\<close>

definition ex_repository :: "nat repository_env" where
  "ex_repository = \<lparr>re_servers = \<lparr>dc_parse = (\<lambda>bs. case bs of [b] \<Rightarrow> Some (unat b) | _ \<Rightarrow> None),
       dc_decode = (\<lambda>n. Some (if n = 0 then [] else [ex_installed])), dc_encode = (\<lambda>ss. Some (length ss)),
       dc_print = (\<lambda>ss. if ss = [] then Some [0] else if ss = [ex_installed] then Some [1] else None), dc_default = [], dc_valid = (\<lambda>_. True)\<rparr>,
     re_home = Some ''/home/me'', re_uuid = (\<lambda>_. True), re_is_file = (\<lambda>_. True)\<rparr>"

lemma ex_repository_lawful: "lawful (servers_document ex_repository)"
  by (auto simp: lawful_def prints_back_def servers_document_def ex_repository_def check_content_def)

theorem installed_server_added_once_witness:
  "servers_stored ex_repository (wd_disk (snd (insert_installed ex_repository ex_stamp ex_installed [] (ex_directory [] (\<lambda>_. Proceed)))))
     \<in> {Some [], Some (with_server ex_installed [])}"
proof (rule conjunct1 [OF installed_server_added_once [OF ex_repository_lawful]])
  show "attempts ex_repository ex_installed (wd_disk (ex_directory [] (\<lambda>_. Proceed))) (wd_disk (ex_directory [] (\<lambda>_. Proceed)))"
    by (rule none_yet)
  show "insert_installed ex_repository ex_stamp ex_installed [] (ex_directory [] (\<lambda>_. Proceed)) =
    (fst (insert_installed ex_repository ex_stamp ex_installed [] (ex_directory [] (\<lambda>_. Proceed))),
     snd (insert_installed ex_repository ex_stamp ex_installed [] (ex_directory [] (\<lambda>_. Proceed))))" by simp
qed (simp_all add: reads_ok_def value_of_def entry_def ex_directory_def servers_document_def)

end
