(* ===== verification/UpdateActivation.thy ===== *)
theory UpdateActivation
  imports JsonStore PrefixManifest
begin

text \<open>
  The activation of a downloaded launcher (\<open>src-tauri/src/tools/updater/activate.rs\<close>) over the disk of \<open>CrashDisk\<close>, whose root
  is the directory of the AppImage.  Permission bits, links and owners are answers of the host; that the mode of a file is
  set changes nothing else.
\<close>

section \<open>The payload and its place\<close>

datatype activation_error =
    GzipPayload
  | NotAnAppImage
  | BadTarget
  | CannotInspectTarget
  | NotExecutable
  | CannotOpenParent
  | ForeignTemporary
  | CannotRemoveTemporary
  | CannotInspectTemporary
  | CannotCreateTemporary
  | RejectedBeforeRename bool
  | ActivatedUnsynced

definition slice :: "nat \<Rightarrow> nat \<Rightarrow> u8 list \<Rightarrow> u8 list" where
  "slice i j bytes = take (j - i) (drop i bytes)"

definition validate_payload :: "u8 list \<Rightarrow> (activation_error, unit) result" where
  "validate_payload bytes =
     (if prefix [0x1f, 0x8b] bytes then Inl GzipPayload
      else if length bytes \<le> 64 \<or> slice 0 7 bytes \<noteq> [0x7f, 0x45, 0x4c, 0x46, 2, 1, 1] \<or> slice 8 11 bytes \<noteq> [0x41, 0x49, 2] \<or>
        \<not> (slice 16 18 bytes = [2, 0] \<or> slice 16 18 bytes = [3, 0]) \<or> slice 20 24 bytes \<noteq> [1, 0, 0, 0] \<or> slice 52 54 bytes \<noteq> [64, 0]
      then Inl NotAnAppImage
      else Inr ())"

text \<open>The name of the target and that of the temporary file beside it.\<close>

definition temporary_path :: "path \<Rightarrow> (activation_error, string \<times> string) result" where
  "temporary_path target =
     (case file_name target of
        Some name \<Rightarrow> if is_absolute target then Inr (name, ''.'' @ name @ ''.update-tmp'') else Inl BadTarget
      | None \<Rightarrow> Inl BadTarget)"

section \<open>Activation\<close>

text \<open>\<open>ae_executable\<close>: a mode with an executable bit.  \<open>ae_ours\<close>: one link, and the owner of the launcher.\<close>

record activation_env =
  ae_executable :: "node \<Rightarrow> bool"
  ae_ours :: "node \<Rightarrow> bool"

type_synonym 'a activation = "(activation_error, 'a) run"

definition symlink_metadata :: "string \<Rightarrow> world \<Rightarrow> (unit, node option) result" where
  "symlink_metadata name w =
     (if wd_unreadable w (wd_clock w) AtRoot name then Inl () else Inr (entry AtRoot name (wd_disk w)))"

definition opens_directory :: "world \<Rightarrow> bool" where
  "opens_directory w \<longleftrightarrow> kind_of (dk_root (wd_disk w)) = Directory \<and> \<not> wd_unreadable w (wd_clock w) AtRoot ''''"

definition clear_residue :: "activation_env \<Rightarrow> string \<Rightarrow> unit activation" where
  "clear_residue env temporary =
     chain (observe (symlink_metadata temporary)) (\<lambda>m.
     case m of
       Inl _ \<Rightarrow> throw CannotInspectTemporary
     | Inr None \<Rightarrow> ret ()
     | Inr (Some stale) \<Rightarrow>
         if kind_of (Some stale) \<noteq> Regular \<or> \<not> ae_ours env stale then throw ForeignTemporary
         else atomic CannotRemoveTemporary (in_dir AtRoot (unlink_in temporary)))"

text \<open>Write, set the mode, sync, and the rename that commits.\<close>

definition prepare_and_rename :: "string \<Rightarrow> string \<Rightarrow> u8 list \<Rightarrow> unit activation" where
  "prepare_and_rename temporary name bytes =
     chain (effect (RejectedBeforeRename True) (in_dir AtRoot (write_in temporary bytes)) (partly_written AtRoot temporary bytes)) (\<lambda>_.
     chain (sync (RejectedBeforeRename True)) (\<lambda>_.
     chain (sync (RejectedBeforeRename True)) (\<lambda>_.
     atomic (RejectedBeforeRename True) (in_dir AtRoot (rename_over temporary name)))))"

definition install_prepared :: "string \<Rightarrow> string \<Rightarrow> u8 list \<Rightarrow> unit activation" where
  "install_prepared temporary name bytes =
     chain (attempt (prepare_and_rename temporary name bytes)) (\<lambda>prepared.
     case prepared of
       Inl _ \<Rightarrow>
         chain (attempt (atomic CannotRemoveTemporary (in_dir AtRoot (unlink_in temporary)))) (\<lambda>cleanup.
         throw (RejectedBeforeRename (case cleanup of Inl (_ :: activation_error) \<Rightarrow> False | Inr _ \<Rightarrow> True)))
     | Inr _ \<Rightarrow> sync ActivatedUnsynced)"

definition activate_checked :: "activation_env \<Rightarrow> string \<Rightarrow> string \<Rightarrow> u8 list \<Rightarrow> unit activation" where
  "activate_checked env name temporary bytes =
     chain (observe (symlink_metadata name)) (\<lambda>m.
     case m of
       Inr (Some n) \<Rightarrow>
         if kind_of (Some n) \<noteq> Regular \<or> \<not> ae_executable env n then throw NotExecutable
         else chain (observe opens_directory) (\<lambda>ok.
           if \<not> ok then throw CannotOpenParent
           else chain (clear_residue env temporary) (\<lambda>_.
             chain (atomic CannotCreateTemporary (in_dir AtRoot (create_in temporary))) (\<lambda>_.
             install_prepared temporary name bytes)))
     | _ \<Rightarrow> throw CannotInspectTarget)"

definition activate_appimage :: "activation_env \<Rightarrow> path \<Rightarrow> u8 list \<Rightarrow> unit activation" where
  "activate_appimage env target bytes =
     chain (from_result (validate_payload bytes)) (\<lambda>_.
     chain (from_result (temporary_path target)) (\<lambda>(name, temporary).
     activate_checked env name temporary bytes))"

section \<open>All or nothing\<close>

lemma temporary_apart: "temporary_path target = Inr (name, temporary) \<Longrightarrow> temporary \<noteq> name"
proof -
  assume "temporary_path target = Inr (name, temporary)"
  then have "temporary = ''.'' @ name @ ''.update-tmp''" by (auto simp: temporary_path_def split: option.splits if_splits)
  then have "length name < length temporary" by simp
  then show ?thesis by auto
qed

text \<open>The entries but the temporary one are those of \<open>d0\<close>, except the target, which is \<open>m\<close>.\<close>

definition target_is :: "string \<Rightarrow> string \<Rightarrow> disk \<Rightarrow> node option \<Rightarrow> disk \<Rightarrow> bool" where
  "target_is name temporary d0 m d \<longleftrightarrow>
     entry AtRoot name d = m \<and> (\<forall>n. n \<noteq> name \<longrightarrow> n \<noteq> temporary \<longrightarrow> entry AtRoot n d = entry AtRoot n d0)"

lemma target_blind: "temporary \<noteq> name \<Longrightarrow> blind temporary (target_is name temporary d0 m)"
  by (auto simp: blind_def target_is_def)

lemma prepared:
  assumes "temporary \<noteq> name"
  shows "triple (\<lambda>d. target_is name temporary d0 m d \<and> entry AtRoot temporary d \<noteq> None) (prepare_and_rename temporary name bytes)
    (\<lambda>_. target_is name temporary d0 (Some (File bytes))) (\<lambda>_. target_is name temporary d0 m)
    (\<lambda>d. target_is name temporary d0 m d \<or> target_is name temporary d0 (Some (File bytes)) d)"
proof -
  let ?I = "target_is name temporary d0 m" and ?R = "target_is name temporary d0 (Some (File bytes))"
  let ?K = "\<lambda>d. ?I d \<or> ?R d" and ?J = "\<lambda>d. ?I d \<and> entry AtRoot temporary d = Some (File bytes)"
  note b = target_blind [OF assms]
  have fill: "triple (\<lambda>d. ?I d \<and> entry AtRoot temporary d \<noteq> None)
      (effect e (in_dir AtRoot (write_in temporary bytes)) (partly_written AtRoot temporary bytes)) (\<lambda>_. ?J) (\<lambda>_. ?I) ?K" for e :: activation_error
    by (rule triple_effect) (auto intro: blindD [OF b] blind_part [OF b] only_at_simps dest: write_entry)
  have rename: "triple ?J (atomic e (in_dir AtRoot (rename_over temporary name))) (\<lambda>_. ?R) (\<lambda>_. ?I) ?K" for e :: activation_error
    by (rule triple_atomic)
      (use assms in \<open>auto simp: target_is_def renamed_entry [OF _ assms] renamed_other rename_refused\<close>)
  show ?thesis unfolding prepare_and_rename_def
    by (rule triple_chain [OF fill], rule triple_chain [where R = "\<lambda>_. ?J"], rule triple_sync, blast,
        rule triple_chain [where R = "\<lambda>_. ?J"], rule triple_sync, blast, rule rename)
qed

fun committed :: "(activation_error, unit) outcome \<Rightarrow> bool" where
  "committed (Done _) \<longleftrightarrow> True"
| "committed (Failed e) \<longleftrightarrow> e = ActivatedUnsynced"
| "committed Killed \<longleftrightarrow> False"

abbreviation (input) settles :: "string \<Rightarrow> string \<Rightarrow> u8 list \<Rightarrow> disk \<Rightarrow> node option \<Rightarrow> (disk \<Rightarrow> bool) \<Rightarrow> unit activation \<Rightarrow> bool" where
  "settles name temporary bytes d0 m P run \<equiv>
     triple P run (\<lambda>_. target_is name temporary d0 (Some (File bytes)))
       (\<lambda>e. target_is name temporary d0 (if e = ActivatedUnsynced then Some (File bytes) else m))
       (\<lambda>d. target_is name temporary d0 m d \<or> target_is name temporary d0 (Some (File bytes)) d)"

lemma installs_prepared:
  assumes "temporary \<noteq> name"
  shows "settles name temporary bytes d0 m (\<lambda>d. target_is name temporary d0 m d \<and> entry AtRoot temporary d \<noteq> None)
    (install_prepared temporary name bytes)"
proof -
  let ?I = "target_is name temporary d0 m" and ?R = "target_is name temporary d0 (Some (File bytes))"
  have cleanup: "triple ?I (atomic e (in_dir AtRoot (unlink_in temporary))) (\<lambda>_. ?I) (\<lambda>_. ?I) (\<lambda>d. ?I d \<or> ?R d)" for e :: activation_error
    by (rule triple_weaken [OF stays_at [OF target_blind [OF assms]]]) (auto intro: only_at_simps)
  show ?thesis unfolding install_prepared_def
    by (rule triple_chain [where R = "\<lambda>q. case q of Inl _ \<Rightarrow> ?I | Inr _ \<Rightarrow> ?R"], rule triple_attempt)
      (auto intro!: triple_weaken [OF prepared [OF assms]] triple_chain [OF triple_attempt [OF cleanup]] triple_sync triple_throw split: sum.split)
qed

lemma checked_all_or_nothing:
  assumes "temporary \<noteq> name"
  shows "settles name temporary bytes d0 m (target_is name temporary d0 m) (activate_checked env name temporary bytes)"
proof -
  let ?I = "target_is name temporary d0 m" and ?R = "target_is name temporary d0 (Some (File bytes))"
  have creates: "triple ?I (atomic CannotCreateTemporary (in_dir AtRoot (create_in temporary))) (\<lambda>_ d. ?I d \<and> entry AtRoot temporary d \<noteq> None)
      (\<lambda>e. target_is name temporary d0 (if e = ActivatedUnsynced then Some (File bytes) else m)) (\<lambda>d. ?I d \<or> ?R d)"
    by (rule triple_atomic) (auto intro: blindD [OF target_blind [OF assms]] only_at_simps dest: create_entry)
  have cleared: "triple ?I (clear_residue env temporary) (\<lambda>_. ?I)
      (\<lambda>e. target_is name temporary d0 (if e = ActivatedUnsynced then Some (File bytes) else m)) (\<lambda>d. ?I d \<or> ?R d)"
    unfolding clear_residue_def
    by (rule triple_skip)
      (auto intro!: triple_throw triple_ret triple_atomic intro: blindD [OF target_blind [OF assms]] only_at_simps split: sum.split option.split)
  show ?thesis unfolding activate_checked_def
    by (rule triple_skip)
      (auto intro!: triple_throw triple_skip triple_chain [OF cleared] triple_chain [OF creates] installs_prepared [OF assms]
        split: sum.split option.split)
qed


lemma activation_run:
  "temporary_path target = Inr (name, temporary) \<Longrightarrow>
   activate_appimage env target bytes =
     (case validate_payload bytes of Inl e \<Rightarrow> throw e | Inr _ \<Rightarrow> activate_checked env name temporary bytes)"
  by (rule ext) (auto simp: activate_appimage_def from_result_def chain_def ret_def throw_def split: sum.split)

lemma refused_error: "validate_payload bytes = Inl e \<Longrightarrow> e \<noteq> ActivatedUnsynced"
  by (auto simp: validate_payload_def split: if_splits)

section \<open>After an interruption\<close>








lemma activation_outcome:
  assumes "temporary_path target = Inr (name, temporary)" "activate_appimage env target bytes w = (r, w1)"
  shows "(\<forall>n. n \<noteq> name \<longrightarrow> n \<noteq> temporary \<longrightarrow> entry AtRoot n (wd_disk w1) = entry AtRoot n (wd_disk w)) \<and>
    entry AtRoot name (wd_disk w1) \<in> {entry AtRoot name (wd_disk w), Some (File bytes)} \<and>
    (r \<noteq> Killed \<longrightarrow> entry AtRoot name (wd_disk w1) = (if committed r then Some (File bytes) else entry AtRoot name (wd_disk w))) \<and>
    (committed r \<or> entry AtRoot name (wd_disk w1) \<noteq> entry AtRoot name (wd_disk w) \<longrightarrow> validate_payload bytes = Inr ())"
proof (cases "validate_payload bytes")
  case (Inl e)
  then show ?thesis using assms(2) refused_error [OF Inl] by (auto simp: activation_run [OF assms(1)] throw_def)
next
  case (Inr u)
  have "target_is name temporary (wd_disk w) (entry AtRoot name (wd_disk w)) (wd_disk w)" by (simp add: target_is_def)
  from tripleD [OF checked_all_or_nothing [OF temporary_apart [OF assms(1)]] this, of env bytes r w1] assms(2) Inr
  show ?thesis by (cases r) (auto simp: activation_run [OF assms(1)] target_is_def split: if_splits)
qed

section \<open>Results\<close>

text \<open>The activation of a new launcher is all or nothing.  Whatever fails and wherever it is killed, the AppImage is the old
  file or the whole new payload, and every entry but it and the temporary file is as before; an answer says which of the two it
  is, and only a payload with the header of an AppImage is ever put in place.\<close>

theorem activation_is_all_or_nothing:
  assumes "temporary_path target = Inr (name, temporary)" "activate_appimage env target bytes w = (r, w1)"
  shows "(\<forall>n. n \<noteq> name \<longrightarrow> n \<noteq> temporary \<longrightarrow> entry AtRoot n (wd_disk w1) = entry AtRoot n (wd_disk w)) \<and>
    entry AtRoot name (wd_disk w1) \<in> {entry AtRoot name (wd_disk w), Some (File bytes)} \<and>
    (r \<noteq> Killed \<longrightarrow> entry AtRoot name (wd_disk w1) = (if committed r then Some (File bytes) else entry AtRoot name (wd_disk w))) \<and>
    (committed r \<or> entry AtRoot name (wd_disk w1) \<noteq> entry AtRoot name (wd_disk w) \<longrightarrow> validate_payload bytes = Inr ())"
  by (rule activation_outcome [OF assms])







section \<open>The hypotheses can hold\<close>

definition ex_payload :: "u8 list" where
  "ex_payload = [0x7f, 0x45, 0x4c, 0x46, 2, 1, 1, 0, 0x41, 0x49, 2, 0, 0, 0, 0, 0, 2, 0, 0x3e, 0, 1, 0, 0, 0] @ replicate 28 0 @ [64, 0] @ replicate 12 0"

definition ex_appimage :: path where "ex_appimage = [RootDir, Normal ''opt'', Normal ''ro'']"

definition ex_host :: activation_env where "ex_host = \<lparr>ae_executable = (\<lambda>_. True), ae_ours = (\<lambda>_. True)\<rparr>"

lemma ex_temporary: "temporary_path ex_appimage = Inr (''ro'', ''.ro.update-tmp'')"
  by (simp add: temporary_path_def ex_appimage_def file_name_def is_absolute_def)


theorem activation_is_all_or_nothing_witness:
  "entry AtRoot ''ro'' (wd_disk (snd (activate_appimage ex_host ex_appimage ex_payload
      (ex_directory [(''ro'', File [7])] (\<lambda>k. if k = 4 then Kill None else Proceed))))) \<in> {Some (File [7]), Some (File ex_payload)}"
  using activation_is_all_or_nothing [OF ex_temporary surjective_pairing, of ex_host ex_payload
      "ex_directory [(''ro'', File [7])] (\<lambda>k. if k = 4 then Kill None else Proceed)"]
  by (simp add: entry_def ex_directory_def)


end
