(* ===== verification/Updater.thy ===== *)
theory Updater
  imports UpdateActivation GameClients Installations
begin

text \<open>
  The updater (\<open>src-tauri/src/tools/updater\<close>, \<open>models/update.rs\<close>): the lease that owns one operation at a time, the slot of
  the checked update, and the admission of a relaunch.  The updater plugin and the census of game clients are answers, a
  task steps at its lock sections, and the launcher may be killed and started again at any step.  Locks are never poisoned.
\<close>

section \<open>Releases and failures\<close>

text \<open>The flag of the notes: they were cut and end in an ellipsis.\<close>

record release_summary =
  rs_version :: string
  rs_published_at :: "string option"
  rs_notes :: "(string \<times> bool) option"

datatype failure_class = Unauthentic | Unreachable | InstallFailure | ClientsActive | NothingPending

datatype unavailable_reason = NotPackaged | UnsupportedOs

datatype failure_message =
    PluginMessage string
  | ActivationMessage activation_error
  | AppImageMissing unavailable_reason
  | NoArtifact
  | SlotOccupied
  | NothingChecked
  | CloseTheClients
  | CensusMessage string

datatype update_phase =
    UpdateIdle
  | UpdateChecking
  | UpdateCurrent
  | UpdateAvailable release_summary
  | UpdateDownloading release_summary u64 "u64 option"
  | ReadyToRestart string
  | UpdateFailed failure_class failure_message
  | UpdateUnavailable unavailable_reason

record update_snapshot =
  us_version :: string
  us_phase :: update_phase

definition MAX_RELEASE_NOTES_CHARS :: nat where "MAX_RELEASE_NOTES_CHARS = 480"

definition truncate_release_notes :: "string option \<Rightarrow> (string \<times> bool) option" where
  "truncate_release_notes raw =
     (case raw of
        None \<Rightarrow> None
      | Some raw \<Rightarrow>
          let text' = trim raw
          in if text' = [] then None
             else let plain = trim (map (\<lambda>ch. if is_control ch \<and> ch \<noteq> CHR 0x0A then CHR '' '' else ch) text')
               in if plain = [] then None
                  else if length plain \<le> MAX_RELEASE_NOTES_CHARS then Some (plain, False)
                  else Some (take MAX_RELEASE_NOTES_CHARS plain, True))"

text \<open>An update of the plugin; the date is the text it prints, the handle stands for the rest.\<close>

record plugin_update =
  pu_version :: string
  pu_date :: "string option"
  pu_body :: "string option"
  pu_handle :: nat

definition summary_of :: "plugin_update \<Rightarrow> release_summary" where
  "summary_of u = \<lparr>rs_version = pu_version u, rs_published_at = pu_date u, rs_notes = truncate_release_notes (pu_body u)\<rparr>"

datatype plugin_error =
    AuthenticationFailed | Minisign | SignatureUtf8 | Base64 | SignedVersionMismatch | MissingSignedVersion
  | Network | Reqwest | ReleaseNotFound | TargetNotFound | TargetsNotFound | EmptyEndpoints | InsecureTransportProtocol
  | Http | InvalidHeaderValue | InvalidHeaderName | UrlParse
  | PluginUnsupportedOs
  | OtherPluginError

datatype backend_error =
    UnauthenticError failure_message
  | UnreachableError failure_message
  | InstallingError failure_message
  | OtherError failure_message

definition classify_plugin_error :: "plugin_error \<Rightarrow> string \<Rightarrow> backend_error" where
  "classify_plugin_error error message =
     (if error \<in> {AuthenticationFailed, Minisign, SignatureUtf8, Base64, SignedVersionMismatch, MissingSignedVersion}
      then UnauthenticError (PluginMessage message)
      else if error \<in> {Network, Reqwest, ReleaseNotFound, TargetNotFound, TargetsNotFound, EmptyEndpoints,
        InsecureTransportProtocol, Http, InvalidHeaderValue, InvalidHeaderName, UrlParse}
      then UnreachableError (PluginMessage message)
      else if error = PluginUnsupportedOs then OtherError (PluginMessage message)
      else InstallingError (PluginMessage message))"

fun classify_backend_error :: "backend_error \<Rightarrow> failure_class \<times> failure_message" where
  "classify_backend_error (UnauthenticError m) = (Unauthentic, m)"
| "classify_backend_error (UnreachableError m) = (Unreachable, m)"
| "classify_backend_error (InstallingError m) = (InstallFailure, m)"
| "classify_backend_error (OtherError m) = (InstallFailure, m)"

definition packaged_appimage :: "path option \<Rightarrow> (unavailable_reason, path) result" where
  "packaged_appimage appimage = (case appimage of None \<Rightarrow> Inl NotPackaged | Some p \<Rightarrow> Inr p)"

definition attest_idle :: "nat \<Rightarrow> (nat, unit) result" where
  "attest_idle active = (if active = 0 then Inr () else Inl active)"

section \<open>The lease and its task\<close>

datatype update_task =
    CheckBegins
  | CheckAsks
  | CheckAnswered "(backend_error, release_summary option) result"
  | InstallBegins
  | CountsClients
  | TakesCandidate
  | StartsDownload plugin_update
  | Downloads plugin_update u64 u64
  | CountsAgain plugin_update "u8 list"
  | ReturnsCandidate plugin_update
  | Activates plugin_update "u8 list"
  | InstallEnds string
  | UpdateFails failure_class failure_message

text \<open>\<open>ud_events\<close>: what the web view was told.  \<open>ud_downloads\<close>: every finished download, of all runs of the launcher.\<close>

record updater =
  ud_version :: string
  ud_phase :: update_phase
  ud_slot :: "plugin_update option"
  ud_task :: "update_task option"
  ud_events :: "update_snapshot list"
  ud_world :: world
  ud_downloads :: "(plugin_update \<times> u8 list) list"

record update_host =
  uh_activation :: activation_env
  uh_appimage :: "path option"

definition lease_new :: "string \<Rightarrow> world \<Rightarrow> (plugin_update \<times> u8 list) list \<Rightarrow> updater" where
  "lease_new version w downloads =
     \<lparr>ud_version = version, ud_phase = UpdateIdle, ud_slot = None, ud_task = None, ud_events = [], ud_world = w, ud_downloads = downloads\<rparr>"

definition lease_snapshot :: "updater \<Rightarrow> update_snapshot" where
  "lease_snapshot s = \<lparr>us_version = ud_version s, us_phase = ud_phase s\<rparr>"

definition emits :: "update_snapshot \<Rightarrow> updater \<Rightarrow> updater" where
  "emits e s = s\<lparr>ud_events := ud_events s @ [e]\<rparr>"

text \<open>A section that sets the phase, and the publication that follows it.\<close>

definition publishes :: "update_phase \<Rightarrow> updater \<Rightarrow> updater" where
  "publishes p s = (let s1 = s\<lparr>ud_phase := p\<rparr> in emits (lease_snapshot s1) s1)"

definition continues_with :: "update_task \<Rightarrow> updater \<Rightarrow> updater" where
  "continues_with t s = s\<lparr>ud_task := Some t\<rparr>"

definition ends_operation :: "updater \<Rightarrow> updater" where
  "ends_operation s = s\<lparr>ud_task := None\<rparr>"

definition clear_pending :: "updater \<Rightarrow> updater" where
  "clear_pending s = s\<lparr>ud_slot := None\<rparr>"

fun is_ready :: "update_phase \<Rightarrow> bool" where
  "is_ready (ReadyToRestart _) = True"
| "is_ready _ = False"

section \<open>Checking\<close>

definition check_begins :: "update_host \<Rightarrow> updater \<Rightarrow> updater" where
  "check_begins host s =
     (if is_ready (ud_phase s) then ends_operation s
      else let s1 = clear_pending s
        in case packaged_appimage (uh_appimage host) of
             Inr _ \<Rightarrow> continues_with CheckAsks (publishes UpdateChecking s1)
           | Inl reason \<Rightarrow> ends_operation (publishes (UpdateUnavailable reason) s1))"

text \<open>\<open>OfficialUpdaterBackend::check\<close>: the slot holds what the plugin found.\<close>

definition check_asks :: "(plugin_error \<times> string, plugin_update option) result \<Rightarrow> updater \<Rightarrow> updater" where
  "check_asks found s =
     (case found of
        Inl (error, message) \<Rightarrow> continues_with (CheckAnswered (Inl (classify_plugin_error error message))) s
      | Inr None \<Rightarrow> continues_with (CheckAnswered (Inr None)) (s\<lparr>ud_slot := None\<rparr>)
      | Inr (Some u) \<Rightarrow> continues_with (CheckAnswered (Inr (Some (summary_of u)))) (s\<lparr>ud_slot := Some u\<rparr>))"

definition check_ends :: "(backend_error, release_summary option) result \<Rightarrow> updater \<Rightarrow> updater" where
  "check_ends outcome s =
     ends_operation (case outcome of
       Inr None \<Rightarrow> publishes UpdateCurrent (clear_pending s)
     | Inr (Some release) \<Rightarrow> publishes (UpdateAvailable release) s
     | Inl error \<Rightarrow> (let (class, message) = classify_backend_error error in publishes (UpdateFailed class message) (clear_pending s)))"

section \<open>Installing\<close>

definition installing_begins :: "updater \<Rightarrow> updater" where
  "installing_begins s =
     (case ud_phase s of
        ReadyToRestart _ \<Rightarrow> ends_operation s
      | UpdateAvailable _ \<Rightarrow> continues_with CountsClients s
      | UpdateFailed ClientsActive _ \<Rightarrow> continues_with CountsClients s
      | _ \<Rightarrow> ends_operation (publishes (UpdateFailed NothingPending NothingChecked) (clear_pending s)))"

definition counts_clients :: "(string, nat) result \<Rightarrow> updater \<Rightarrow> updater" where
  "counts_clients census s =
     (case census of
        Inl message \<Rightarrow> continues_with (UpdateFails InstallFailure (CensusMessage message)) (clear_pending s)
      | Inr active \<Rightarrow>
          (case attest_idle active of
             Inl _ \<Rightarrow> continues_with (UpdateFails ClientsActive CloseTheClients) s
           | Inr _ \<Rightarrow> continues_with TakesCandidate s))"

definition takes_candidate :: "updater \<Rightarrow> updater" where
  "takes_candidate s =
     (case ud_slot s of
        None \<Rightarrow> (let (class, message) = classify_backend_error (OtherError NoArtifact) in continues_with (UpdateFails class message) s)
      | Some u \<Rightarrow> continues_with (StartsDownload u) (s\<lparr>ud_slot := None\<rparr>))"

definition starts_download :: "plugin_update \<Rightarrow> updater \<Rightarrow> updater" where
  "starts_download u s = continues_with (Downloads u 0 0) (publishes (UpdateDownloading (summary_of u) 0 None) s)"

definition should_emit :: "u64 \<Rightarrow> u64 option \<Rightarrow> u64 \<Rightarrow> bool" where
  "should_emit downloaded whole last_emit \<longleftrightarrow>
     downloaded = 0 \<or> (case whole of None \<Rightarrow> False | Some t \<Rightarrow> t \<le> downloaded) \<or>
     256 * 1024 \<le> (if last_emit \<le> downloaded then downloaded - last_emit else 0)"

text \<open>One chunk of the download.  \<open>free\<close>: nobody else is inside the lease, so that the phase can be set.\<close>

definition download_chunk :: "plugin_update \<Rightarrow> u64 \<Rightarrow> u64 \<Rightarrow> u64 \<Rightarrow> u64 option \<Rightarrow> bool \<Rightarrow> updater \<Rightarrow> updater" where
  "download_chunk u downloaded last_emit chunk whole free s =
     (let downloaded = saturating_add downloaded chunk
      in if \<not> should_emit downloaded whole last_emit then continues_with (Downloads u downloaded last_emit) s
         else let p = UpdateDownloading (summary_of u) downloaded whole
           in continues_with (Downloads u downloaded downloaded)
                (emits \<lparr>us_version = ud_version s, us_phase = p\<rparr> (if free then s\<lparr>ud_phase := p\<rparr> else s)))"

definition download_ends :: "plugin_update \<Rightarrow> (plugin_error \<times> string, u8 list) result \<Rightarrow> updater \<Rightarrow> updater" where
  "download_ends u r s =
     (case r of
        Inl (error, message) \<Rightarrow>
          (let (class, message) = classify_backend_error (classify_plugin_error error message) in continues_with (UpdateFails class message) s)
      | Inr bytes \<Rightarrow> continues_with (CountsAgain u bytes) (s\<lparr>ud_downloads := ud_downloads s @ [(u, bytes)]\<rparr>))"

definition counts_again :: "plugin_update \<Rightarrow> u8 list \<Rightarrow> (string, nat) result \<Rightarrow> updater \<Rightarrow> updater" where
  "counts_again u bytes census s =
     (case census of
        Inl message \<Rightarrow> continues_with (UpdateFails InstallFailure (CensusMessage message)) s
      | Inr active \<Rightarrow>
          (case attest_idle active of
             Inl _ \<Rightarrow> continues_with (ReturnsCandidate u) s
           | Inr _ \<Rightarrow> continues_with (Activates u bytes) s))"

definition returns_candidate :: "plugin_update \<Rightarrow> updater \<Rightarrow> updater" where
  "returns_candidate u s =
     (case ud_slot s of
        None \<Rightarrow> ends_operation (publishes (UpdateFailed ClientsActive CloseTheClients) (s\<lparr>ud_slot := Some u\<rparr>))
      | Some _ \<Rightarrow>
          (let (class, message) = classify_backend_error (OtherError SlotOccupied) in ends_operation (publishes (UpdateFailed class message) s)))"

text \<open>\<open>OfficialCandidate::install\<close>; a launcher that is killed comes back with the disk it left.\<close>

definition activates_update :: "update_host \<Rightarrow> plugin_update \<Rightarrow> u8 list \<Rightarrow> updater \<Rightarrow> updater" where
  "activates_update host u bytes s =
     (case packaged_appimage (uh_appimage host) of
        Inl reason \<Rightarrow>
          (let (class, message) = classify_backend_error (InstallingError (AppImageMissing reason)) in continues_with (UpdateFails class message) s)
      | Inr target \<Rightarrow>
          (case activate_appimage (uh_activation host) target bytes (ud_world s) of
             (Done _, w) \<Rightarrow> continues_with (InstallEnds (rs_version (summary_of u))) (s\<lparr>ud_world := w\<rparr>)
           | (Failed e, w) \<Rightarrow>
               (let (class, message) = classify_backend_error (InstallingError (ActivationMessage e))
                in continues_with (UpdateFails class message) (s\<lparr>ud_world := w\<rparr>))
           | (Killed, w) \<Rightarrow> lease_new (ud_version s) w (ud_downloads s)))"

definition install_ends :: "string \<Rightarrow> updater \<Rightarrow> updater" where
  "install_ends version s = ends_operation (publishes (ReadyToRestart version) (clear_pending s))"

definition update_fails :: "failure_class \<Rightarrow> failure_message \<Rightarrow> updater \<Rightarrow> updater" where
  "update_fails class message s = ends_operation (publishes (UpdateFailed class message) s)"

section \<open>The machine\<close>

datatype download_event = Chunk u64 "u64 option" bool | DownloadFinished "(plugin_error \<times> string, u8 list) result"

record update_answers =
  ua_found :: "(plugin_error \<times> string, plugin_update option) result"
  ua_census :: "(string, nat) result"
  ua_download :: download_event

fun update_advance :: "update_host \<Rightarrow> update_answers \<Rightarrow> update_task \<Rightarrow> updater \<Rightarrow> updater" where
  "update_advance host an CheckBegins s = check_begins host s"
| "update_advance host an CheckAsks s = check_asks (ua_found an) s"
| "update_advance host an (CheckAnswered outcome) s = check_ends outcome s"
| "update_advance host an InstallBegins s = installing_begins s"
| "update_advance host an CountsClients s = counts_clients (ua_census an) s"
| "update_advance host an TakesCandidate s = takes_candidate s"
| "update_advance host an (StartsDownload u) s = starts_download u s"
| "update_advance host an (Downloads u downloaded last_emit) s =
     (case ua_download an of
        Chunk chunk whole free \<Rightarrow> download_chunk u downloaded last_emit chunk whole free s
      | DownloadFinished r \<Rightarrow> download_ends u r s)"
| "update_advance host an (CountsAgain u bytes) s = counts_again u bytes (ua_census an) s"
| "update_advance host an (ReturnsCandidate u) s = returns_candidate u s"
| "update_advance host an (Activates u bytes) s = activates_update host u bytes s"
| "update_advance host an (InstallEnds version) s = install_ends version s"
| "update_advance host an (UpdateFails class message) s = update_fails class message s"

text \<open>\<open>run_owned\<close>: a request is admitted when no operation runs; otherwise it only answers with a snapshot.\<close>

definition run_owned :: "update_task \<Rightarrow> updater \<Rightarrow> updater" where
  "run_owned t s = (if ud_task s = None then continues_with t s else s)"

inductive update_step :: "update_host \<Rightarrow> updater \<Rightarrow> updater \<Rightarrow> bool" for host where
  check_requested: "update_step host s (run_owned CheckBegins s)"
| install_requested: "update_step host s (run_owned InstallBegins s)"
| advances: "ud_task s = Some t \<Longrightarrow> update_step host s (update_advance host an t s)"
| launcher_restarts: "update_step host s (lease_new version (ud_world s) (ud_downloads s))"

inductive update_reachable :: "update_host \<Rightarrow> updater \<Rightarrow> updater \<Rightarrow> bool" for host s0 where
  update_start: "update_reachable host s0 s0"
| update_next: "update_reachable host s0 s \<Longrightarrow> update_step host s s' \<Longrightarrow> update_reachable host s0 s'"

section \<open>Relaunch\<close>

datatype relaunch_error = NothingInstalled | GameRefuses game_error | InstallationsRefuse install_error

text \<open>The drop of the first admission reopens the game when the installations refuse.\<close>

definition reserve_relaunch :: "updater \<Rightarrow> game_clients \<Rightarrow> manager \<Rightarrow> (relaunch_error, unit) result \<times> game_clients \<times> manager" where
  "reserve_relaunch s game installations =
     (if \<not> is_ready (ud_phase s) then (Inl NothingInstalled, game, installations)
      else case close_admission_if_idle game of
        (Inl e, game1) \<Rightarrow> (Inl (GameRefuses e), game1, installations)
      | (Inr _, game1) \<Rightarrow>
          (case close_installs_if_idle installations of
             (Inl e, installations1) \<Rightarrow> (Inl (InstallationsRefuse e), reopen_admission game1, installations1)
           | (Inr _, installations1) \<Rightarrow> (Inr (), game1, installations1)))"


section \<open>The candidate\<close>

fun offers :: "update_phase \<Rightarrow> plugin_update option \<Rightarrow> bool" where
  "offers (UpdateAvailable r) slot \<longleftrightarrow> (\<exists>u. slot = Some u \<and> r = summary_of u)"
| "offers (UpdateFailed c _) slot \<longleftrightarrow> (slot \<noteq> None \<longleftrightarrow> c = ClientsActive)"
| "offers _ slot \<longleftrightarrow> slot = None"

text \<open>Where the checked update is at each point of a task: in the slot, or owned by the task.\<close>

fun slot_ok :: "update_task option \<Rightarrow> update_phase \<Rightarrow> plugin_update option \<Rightarrow> bool" where
  "slot_ok None phase slot \<longleftrightarrow> offers phase slot"
| "slot_ok (Some CheckBegins) phase slot \<longleftrightarrow> offers phase slot"
| "slot_ok (Some InstallBegins) phase slot \<longleftrightarrow> offers phase slot"
| "slot_ok (Some CheckAsks) phase slot \<longleftrightarrow> slot = None \<and> \<not> is_ready phase"
| "slot_ok (Some (CheckAnswered r)) phase slot \<longleftrightarrow> (case r of Inr o_r \<Rightarrow> o_r = map_option summary_of slot | Inl _ \<Rightarrow> slot = None) \<and> \<not> is_ready phase"
| "slot_ok (Some CountsClients) phase slot \<longleftrightarrow> slot \<noteq> None \<and> \<not> is_ready phase"
| "slot_ok (Some TakesCandidate) phase slot \<longleftrightarrow> slot \<noteq> None \<and> \<not> is_ready phase"
| "slot_ok (Some (UpdateFails c _)) phase slot \<longleftrightarrow> (slot \<noteq> None \<longleftrightarrow> c = ClientsActive) \<and> \<not> is_ready phase"
| "slot_ok (Some _) phase slot \<longleftrightarrow> slot = None \<and> \<not> is_ready phase"

text \<open>What the web view was told last is the phase, unless an operation runs.\<close>

definition told :: "updater \<Rightarrow> bool" where
  "told s \<longleftrightarrow> (if ud_events s = [] then ud_phase s = UpdateIdle else last (ud_events s) = lease_snapshot s)"

fun told_ok :: "update_task option \<Rightarrow> updater \<Rightarrow> bool" where
  "told_ok None s \<longleftrightarrow> told s"
| "told_ok (Some CheckBegins) s \<longleftrightarrow> told s"
| "told_ok (Some InstallBegins) s \<longleftrightarrow> told s"
| "told_ok (Some _) s \<longleftrightarrow> True"

definition update_ok :: "updater \<Rightarrow> bool" where
  "update_ok s \<longleftrightarrow> slot_ok (ud_task s) (ud_phase s) (ud_slot s) \<and> told_ok (ud_task s) s"

lemmas lease_defs = publishes_def emits_def lease_snapshot_def continues_with_def ends_operation_def clear_pending_def Let_def

lemma backend_class [simp]: "classify_backend_error e \<noteq> (ClientsActive, m)"
  by (cases e) auto

lemma lease_new_ok: "update_ok (lease_new version w downloads)"
  by (simp add: update_ok_def lease_new_def told_def)

lemma advance_ok:
  assumes "update_ok s" "ud_task s = Some t"
  shows "update_ok (update_advance host an t s)"
proof (cases t)
  case CheckBegins
  then show ?thesis using assms
    by (auto simp: check_begins_def update_ok_def lease_defs told_def packaged_appimage_def split: option.splits)
next
  case CheckAsks
  then show ?thesis using assms
    by (auto simp: check_asks_def update_ok_def lease_defs split: sum.splits option.splits prod.splits)
next
  case (CheckAnswered r)
  then show ?thesis using assms
    by (auto simp: check_ends_def update_ok_def lease_defs told_def split: sum.splits option.splits prod.splits)
next
  case InstallBegins
  then show ?thesis using assms
    by (auto simp: installing_begins_def update_ok_def lease_defs told_def split: update_phase.splits failure_class.splits)
next
  case CountsClients
  then show ?thesis using assms
    by (auto simp: counts_clients_def attest_idle_def update_ok_def lease_defs split: sum.splits)
next
  case TakesCandidate
  then show ?thesis using assms
    by (auto simp: takes_candidate_def update_ok_def lease_defs split: option.splits)
next
  case (StartsDownload u)
  then show ?thesis using assms by (auto simp: starts_download_def update_ok_def lease_defs)
next
  case (Downloads u d l)
  then show ?thesis using assms
    by (auto simp: download_chunk_def download_ends_def update_ok_def lease_defs split: download_event.splits sum.splits prod.splits)
next
  case (CountsAgain u bs)
  then show ?thesis using assms by (auto simp: counts_again_def attest_idle_def update_ok_def lease_defs split: sum.splits)
next
  case (ReturnsCandidate u)
  then show ?thesis using assms by (auto simp: returns_candidate_def update_ok_def lease_defs told_def split: option.splits)
next
  case (Activates u bs)
  then show ?thesis using assms
    by (auto simp: activates_update_def packaged_appimage_def update_ok_def lease_defs lease_new_def told_def split: option.splits outcome.splits prod.splits)
next
  case (InstallEnds v)
  then show ?thesis using assms by (auto simp: install_ends_def update_ok_def lease_defs told_def)
next
  case (UpdateFails c m)
  then show ?thesis using assms by (auto simp: update_fails_def update_ok_def lease_defs told_def)
qed

lemma requested_ok: "update_ok s \<Longrightarrow> t = CheckBegins \<or> t = InstallBegins \<Longrightarrow> update_ok (run_owned t s)"
  by (auto simp: run_owned_def update_ok_def continues_with_def told_def lease_snapshot_def)

lemma reachable_update_ok:
  assumes "update_reachable host (lease_new version w downloads) s"
  shows "update_ok s"
  using assms
proof induction
  case (update_next s s')
  from update_next.hyps(2) update_next.IH show ?case by cases (auto intro: advance_ok requested_ok lease_new_ok)
qed (rule lease_new_ok)


section \<open>The AppImage\<close>

text \<open>The AppImage is the one of the start or a whole payload that was downloaded; everything beside it is as at the start.\<close>

definition downloaded :: "updater \<Rightarrow> string \<Rightarrow> string \<Rightarrow> bool" where
  "downloaded s name version \<longleftrightarrow>
     (\<exists>(u, bytes) \<in> set (ud_downloads s). pu_version u = version \<and> validate_payload bytes = Inr () \<and>
        entry AtRoot name (wd_disk (ud_world s)) = Some (File bytes))"

definition appimage_ok :: "string \<Rightarrow> string \<Rightarrow> disk \<Rightarrow> updater \<Rightarrow> bool" where
  "appimage_ok name temporary d0 s \<longleftrightarrow>
     (\<forall>n. n \<noteq> name \<longrightarrow> n \<noteq> temporary \<longrightarrow> entry AtRoot n (wd_disk (ud_world s)) = entry AtRoot n d0) \<and>
     (entry AtRoot name (wd_disk (ud_world s)) = entry AtRoot name d0 \<or> (\<exists>version. downloaded s name version)) \<and>
     (\<forall>version. ud_phase s = ReadyToRestart version \<or> ud_task s = Some (InstallEnds version) \<longrightarrow> downloaded s name version) \<and>
     (\<forall>u bytes. ud_task s = Some (CountsAgain u bytes) \<or> ud_task s = Some (Activates u bytes) \<longrightarrow> (u, bytes) \<in> set (ud_downloads s))"

lemmas operation_defs = check_begins_def check_asks_def check_ends_def installing_begins_def counts_clients_def takes_candidate_def
  starts_download_def download_chunk_def download_ends_def counts_again_def returns_candidate_def install_ends_def update_fails_def

lemmas operation_splits = option.splits sum.splits prod.splits update_phase.splits failure_class.splits download_event.splits if_splits

text \<open>Only an activation touches the disk, and only the end of an installation makes the phase ready.\<close>

lemma advance_world:
  assumes "\<And>u bytes. t \<noteq> Activates u bytes"
  shows "ud_world (update_advance host an t s) = ud_world s" "set (ud_downloads s) \<subseteq> set (ud_downloads (update_advance host an t s))"
  by (cases t; use assms in \<open>auto simp: operation_defs lease_defs split: operation_splits\<close>)+

lemma advance_ready: "ud_phase (update_advance host an t s) = ReadyToRestart version \<Longrightarrow> ud_phase s = ReadyToRestart version \<or> t = InstallEnds version"
  by (cases t) (auto simp: operation_defs activates_update_def lease_new_def lease_defs split: operation_splits outcome.splits)

lemma advance_task:
  "ud_task (update_advance host an t s) = Some (InstallEnds version) \<Longrightarrow> \<exists>u bytes. t = Activates u bytes"
  "ud_task (update_advance host an t s) = Some (CountsAgain u bytes) \<Longrightarrow> (u, bytes) \<in> set (ud_downloads (update_advance host an t s))"
  "ud_task (update_advance host an t s) = Some (Activates u bytes) \<Longrightarrow> t = CountsAgain u bytes \<and> ua_census an = Inr 0"
  by (cases t; auto simp: operation_defs activates_update_def lease_new_def attest_idle_def lease_defs split: operation_splits outcome.splits)+

lemma downloaded_kept:
  "downloaded s name version \<Longrightarrow> ud_world s' = ud_world s \<Longrightarrow> set (ud_downloads s) \<subseteq> set (ud_downloads s') \<Longrightarrow> downloaded s' name version"
  by (auto simp: downloaded_def)


lemma activated_appimage:
  assumes "uh_appimage host = Some target" "temporary_path target = Inr (name, temporary)"
    and ok: "appimage_ok name temporary d0 s" "\<not> is_ready (ud_phase s)" "(u, bytes) \<in> set (ud_downloads s)"
  shows "appimage_ok name temporary d0 (activates_update host u bytes s)"
proof -
  obtain r w where run: "activate_appimage (uh_activation host) target bytes (ud_world s) = (r, w)" by fastforce
  let ?s = "activates_update host u bytes s"
  have world: "ud_world ?s = w" "ud_downloads ?s = ud_downloads s"
    using run by (cases r; simp add: activates_update_def packaged_appimage_def assms(1) lease_new_def lease_defs)+
  have phase: "\<not> is_ready (ud_phase ?s)"
    using run ok(2) by (cases r) (simp_all add: activates_update_def packaged_appimage_def assms(1) lease_new_def lease_defs)
  have task: "ud_task ?s = Some (InstallEnds version) \<Longrightarrow> committed r \<and> version = pu_version u"
      "ud_task ?s \<noteq> Some (CountsAgain v bs) \<and> ud_task ?s \<noteq> Some (Activates v bs)" for version v bs
    using run by (cases r; auto simp: activates_update_def packaged_appimage_def assms(1) lease_new_def lease_defs summary_of_def)+
  note out = activation_outcome [OF assms(2) run]
  have new: "downloaded ?s name (pu_version u)" if "entry AtRoot name (wd_disk w) = Some (File bytes)" "validate_payload bytes = Inr ()"
    using that ok(3) world by (auto simp: downloaded_def)
  have kept: "downloaded ?s name version = downloaded s name version" if "entry AtRoot name (wd_disk w) = entry AtRoot name (wd_disk (ud_world s))" for version
    using that world by (simp add: downloaded_def)
  have "entry AtRoot name (wd_disk w) = entry AtRoot name d0 \<or> (\<exists>version. downloaded ?s name version)"
    using out ok(1) new kept unfolding appimage_ok_def by (cases "entry AtRoot name (wd_disk w) = entry AtRoot name (wd_disk (ud_world s))") auto
  moreover have "downloaded ?s name version" if "ud_task ?s = Some (InstallEnds version)" for version
    using task(1) [OF that] out new by (cases r) auto
  ultimately show ?thesis
    using out ok(1) phase task(2) world(1) unfolding appimage_ok_def by auto
qed

lemma advance_appimage:
  assumes "uh_appimage host = Some target" "temporary_path target = Inr (name, temporary)"
    and ok: "appimage_ok name temporary d0 s" "update_ok s" "ud_task s = Some t"
  shows "appimage_ok name temporary d0 (update_advance host an t s)"
proof (cases "\<exists>u bytes. t = Activates u bytes")
  case True
  then obtain u bytes where t: "t = Activates u bytes" by auto
  have "\<not> is_ready (ud_phase s)" "(u, bytes) \<in> set (ud_downloads s)" using ok t by (auto simp: update_ok_def appimage_ok_def)
  then show ?thesis unfolding t update_advance.simps by (rule activated_appimage [OF assms(1,2) ok(1)])
next
  case False
  then have t: "t \<noteq> Activates u bytes" for u bytes by auto
  note kept = downloaded_kept [OF _ advance_world [OF t]]
  have "downloaded (update_advance host an t s) name version"
    if "ud_phase (update_advance host an t s) = ReadyToRestart version \<or> ud_task (update_advance host an t s) = Some (InstallEnds version)" for version
  proof -
    have "ud_phase s = ReadyToRestart version \<or> ud_task s = Some (InstallEnds version)"
      using that advance_ready [of host an t s version] advance_task(1) [of host an t s version] False ok(3) by auto
    then have "downloaded s name version" using ok(1) unfolding appimage_ok_def by blast
    then show ?thesis by (rule kept)
  qed
  moreover have "(u, bytes) \<in> set (ud_downloads (update_advance host an t s))"
    if "ud_task (update_advance host an t s) = Some (CountsAgain u bytes) \<or> ud_task (update_advance host an t s) = Some (Activates u bytes)" for u bytes
    using that advance_task(2,3) [of host an t s u bytes] ok(1,3) advance_world(2) [OF t, of s host an] unfolding appimage_ok_def by blast
  moreover have "entry AtRoot name (wd_disk (ud_world s)) = entry AtRoot name d0 \<or> (\<exists>version. downloaded (update_advance host an t s) name version)"
    using ok(1) kept unfolding appimage_ok_def by blast
  ultimately show ?thesis using ok(1) unfolding appimage_ok_def advance_world(1) [OF t] by simp
qed

lemma reachable_appimage:
  assumes "uh_appimage host = Some target" "temporary_path target = Inr (name, temporary)"
    and "update_reachable host (lease_new version w []) s"
  shows "appimage_ok name temporary (wd_disk w) s"
  using assms(3)
proof induction
  case update_start
  show ?case by (simp add: appimage_ok_def lease_new_def)
next
  case (update_next s s')
  from update_next.hyps(2) show ?case
  proof cases
    case (advances t an)
    then show ?thesis using advance_appimage [OF assms(1,2) update_next.IH reachable_update_ok [OF update_next.hyps(1)]] by blast
  qed (use update_next.IH in \<open>auto simp: appimage_ok_def downloaded_def run_owned_def continues_with_def lease_new_def\<close>)
qed


section \<open>Results\<close>

text \<open>C14: The launcher's AppImage is never half updated and never announced wrongly.  Whatever fails, wherever the launcher is
  killed and however often it starts again, the file is the one from the start or the whole payload of a finished download, and
  the rest of its directory is as before; when a restart is offered, the file is the payload of that version.\<close>

theorem restart_offers_what_is_installed:
  assumes "uh_appimage host = Some target" "temporary_path target = Inr (name, temporary)"
    and "update_reachable host (lease_new version w []) s"
  shows "(\<forall>n. n \<noteq> name \<longrightarrow> n \<noteq> temporary \<longrightarrow> entry AtRoot n (wd_disk (ud_world s)) = entry AtRoot n (wd_disk w)) \<and>
    (entry AtRoot name (wd_disk (ud_world s)) = entry AtRoot name (wd_disk w) \<or> (\<exists>v. downloaded s name v)) \<and>
    (\<forall>v. ud_phase s = ReadyToRestart v \<longrightarrow> downloaded s name v)"
  using reachable_appimage [OF assms] unfolding appimage_ok_def by auto

text \<open>C15: A checked update has one owner.  While no operation runs, the slot is full exactly when the phase offers an
  installation, with the release of what it holds, and the last event published is the phase; so an installation
  that is admitted finds its update, and one that gives it back finds the slot empty.\<close>

theorem checked_update_has_one_owner:
  assumes "update_reachable host (lease_new version w downloads) s"
  shows "(ud_task s = None \<longrightarrow> offers (ud_phase s) (ud_slot s) \<and> told s) \<and>
    (ud_task s = Some TakesCandidate \<longrightarrow> (\<exists>u. ud_slot s = Some u \<and> update_advance host an TakesCandidate s = s\<lparr>ud_slot := None, ud_task := Some (StartsDownload u)\<rparr>)) \<and>
    (\<forall>u. ud_task s = Some (ReturnsCandidate u) \<longrightarrow> ud_slot (update_advance host an (ReturnsCandidate u) s) = Some u)"
  using reachable_update_ok [OF assms]
  by (auto simp: update_ok_def takes_candidate_def returns_candidate_def lease_defs)

text \<open>No installation starts: a reservation or a creation is never answered with Ok and registers nobody; once the list is in
  memory, an admitted reservation is told that the launcher is closing, and neither changes anything.\<close>

definition installs_refused :: "'v install_env \<Rightarrow> manager \<Rightarrow> bool" where
  "installs_refused env m \<longleftrightarrow>
     (\<forall>st a i w r m' w'. reserve env st a i m w = (Done (r, m'), w') \<longrightarrow>
        \<not> is_ok r \<and> im_active m' = im_active m \<and> im_relaunch_closed m') \<and>
     (\<forall>st runners i is_file input w r m' w'. create_draft env st runners i is_file input m w = (Done (r, m'), w') \<longrightarrow>
        \<not> is_ok r \<and> im_active m' = im_active m \<and> im_relaunch_closed m') \<and>
     (im_drafts m \<noteq> None \<longrightarrow>
        (\<forall>st i w. reserve env st True i m w = (Done (Inl LauncherClosing, m), w)) \<and>
        (\<forall>st runners i is_file input w. \<exists>e. create_draft env st runners i is_file input m w = (Done (Inl e, m), w)))"

lemma closed_transaction:
  assumes "im_relaunch_closed m" "\<And>ds m1. im_relaunch_closed m1 \<Longrightarrow> mutate ds m1 = reply_now (Inl LauncherClosing) m1"
  shows "ends (install_transaction env st mutate m w)
    (\<lambda>r m' _. \<not> is_ok r \<and> im_active m' = im_active m \<and> im_relaunch_closed m') (\<lambda>_. True)"
  unfolding install_transaction_def
proof (rule ends_chain, rule load_shape)
  fix r :: "(install_error, unit) result" and m1 w1
  assume "loaded m m1 \<and> (case r of Inl _ \<Rightarrow> m1 = m \<and> im_drafts m = None | Inr _ \<Rightarrow> im_drafts m1 \<noteq> None)"
  then have m1: "im_active m1 = im_active m" "im_relaunch_closed m1" using assms(1) by (auto simp: loaded_def)
  then show "ends ((\<lambda>(r, m1). case r of Inl e \<Rightarrow> ret (Inl e, m1) | Inr _ \<Rightarrow> mutate (the (im_drafts m1)) m1) (r, m1) w1)
      (\<lambda>r m' _. \<not> is_ok r \<and> im_active m' = im_active m \<and> im_relaunch_closed m') (\<lambda>_. True)"
    by (cases r) (simp_all add: assms(2) [OF m1(2)] ends_answer ends_ret is_ok_def)
qed

lemma loaded_transaction: "im_drafts m = Some ds \<Longrightarrow> install_transaction env st mutate m w = mutate ds m w"
  by (simp add: install_transaction_def load_drafts_def chain_def ret_def)

lemma endsD: "ends res Q X \<Longrightarrow> res = (Done (r, m), w) \<Longrightarrow> Q r m w"
  by (simp add: ends_def)

lemma closed_refuses:
  assumes "im_relaunch_closed m"
  shows "installs_refused env m"
proof -
  let ?Q = "\<lambda>r m' _. \<not> is_ok r \<and> im_active m' = im_active m \<and> im_relaunch_closed m'"
  have busy: "ends (reply_now (Inl e) m w) ?Q (\<lambda>_. True)" for e w using assms by (intro ends_answer) (simp add: is_ok_def)
  have r: "ends (reserve env st a i m w) ?Q (\<lambda>_. True)" for st a i w
    unfolding reserve_def by (cases a) (auto intro!: busy closed_transaction [OF assms])
  have c: "ends (create_draft env st runners i is_file input m w) ?Q (\<lambda>_. True)" for st runners i is_file input w
    unfolding create_draft_def Let_def by (auto intro!: busy closed_transaction [OF assms] split: sum.split)
  have r': "reserve env st True i m w = (Done (Inl LauncherClosing, m), w)" if "im_drafts m = Some ds" for ds st i w
    using assms by (simp add: reserve_def loaded_transaction [OF that] reply_now_def ret_def)
  have c': "\<exists>e. create_draft env st runners i is_file input m w = (Done (Inl e, m), w)"
    if "im_drafts m = Some ds" for ds st runners i is_file input w
    using assms by (auto simp: create_draft_def Let_def loaded_transaction [OF that] reply_now_def ret_def split: sum.split)
  show ?thesis unfolding installs_refused_def
  proof (intro conjI impI allI)
    fix st a i w q m' w'
    assume "reserve env st a i m w = (Done (q, m'), w')"
    with endsD [OF r, of st a i w q m' w'] show "\<not> is_ok q" "im_active m' = im_active m" "im_relaunch_closed m'" by simp_all
  next
    fix st runners i is_file input w q m' w'
    assume "create_draft env st runners i is_file input m w = (Done (q, m'), w')"
    with endsD [OF c, of st runners i is_file input w q m' w']
    show "\<not> is_ok q" "im_active m' = im_active m" "im_relaunch_closed m'" by simp_all
  qed (use r' c' in auto)
qed

text \<open>C40: A relaunch is reserved exactly when an installed update waits and neither a game client nor an installation is active;
  then neither can start: a launch is refused without changing anything, and no reservation or creation of an installation is
  accepted or registers anyone.  When the relaunch is refused both are as before.\<close>

theorem relaunch_is_exclusive:
  "case reserve_relaunch s game installations of
     (Inr _, game1, installations1) \<Rightarrow>
       is_ready (ud_phase s) \<and> active_count game = 0 \<and> im_active installations = Map.empty \<and>
       (\<forall>m. begin_launch m game1 = (Inl Restarting, game1)) \<and> im_relaunch_closed installations1 \<and> installs_refused env installations1 \<and>
       reopen_admission game1 = game \<and> reopen_installs installations1 = installations
   | (Inl _, game1, installations1) \<Rightarrow>
       game1 = game \<and> installations1 = installations \<and>
       (is_ready (ud_phase s) \<longrightarrow> 0 < active_count game \<or> gm_closed game \<or> im_active installations \<noteq> Map.empty \<or>
          im_closing installations \<or> im_relaunch_closed installations)"
  by (auto simp: reserve_relaunch_def close_admission_if_idle_def close_installs_if_idle_def reopen_admission_def reopen_installs_def
      active_count_def begin_launch_def intro!: closed_refuses split: prod.split sum.split)

section \<open>The hypotheses can hold\<close>

definition ex_update_host :: update_host where
  "ex_update_host = \<lparr>uh_activation = ex_host, uh_appimage = Some ex_appimage\<rparr>"

definition ex_update :: plugin_update where
  "ex_update = \<lparr>pu_version = ''2'', pu_date = None, pu_body = None, pu_handle = 0\<rparr>"

definition ex_answers :: update_answers where
  "ex_answers = \<lparr>ua_found = Inr (Some ex_update), ua_census = Inr 0, ua_download = DownloadFinished (Inr ex_payload)\<rparr>"

text \<open>The operation that runs takes as many steps.\<close>

fun steps_on :: "nat \<Rightarrow> updater \<Rightarrow> updater" where
  "steps_on 0 s = s"
| "steps_on (Suc n) s = (case ud_task s of None \<Rightarrow> s | Some t \<Rightarrow> steps_on n (update_advance ex_update_host ex_answers t s))"

lemma reachable_steps: "update_reachable ex_update_host s0 s \<Longrightarrow> update_reachable ex_update_host s0 (steps_on n s)"
  by (induction n s rule: steps_on.induct) (auto split: option.split intro: update_next advances)

definition ex_updated :: updater where
  "ex_updated = steps_on 8 (run_owned InstallBegins (steps_on 3 (run_owned CheckBegins
     (lease_new ''1'' (ex_directory [(''ro'', File [7])] (\<lambda>_. Proceed)) []))))"

lemma ex_updated_reachable:
  "update_reachable ex_update_host (lease_new ''1'' (ex_directory [(''ro'', File [7])] (\<lambda>_. Proceed)) []) ex_updated"
  unfolding ex_updated_def by (intro reachable_steps update_next [OF _ install_requested] update_next [OF _ check_requested] update_start)


theorem restart_offers_what_is_installed_witness:
  "ud_phase ex_updated = ReadyToRestart ''2'' \<and> downloaded ex_updated ''ro'' ''2''"
proof -
  have ready: "ud_phase ex_updated = ReadyToRestart ''2''" by code_simp
  then show ?thesis
    using restart_offers_what_is_installed [OF _ ex_temporary ex_updated_reachable] by (simp add: ex_update_host_def)
qed

theorem checked_update_has_one_owner_witness: "told ex_updated"
proof -
  have "ud_task ex_updated = None" by code_simp
  then show ?thesis using checked_update_has_one_owner [OF ex_updated_reachable] by simp
qed


theorem relaunch_is_exclusive_witness:
  "(\<forall>m. begin_launch m (game_new\<lparr>gm_closed := True\<rparr>) = (Inl Restarting, game_new\<lparr>gm_closed := True\<rparr>)) \<and>
   installs_refused ex_install_env (new_manager\<lparr>im_relaunch_closed := True\<rparr>)"
proof -
  have "ud_phase ex_updated = ReadyToRestart ''2''" by code_simp
  then have "reserve_relaunch ex_updated game_new new_manager = (Inr (), game_new\<lparr>gm_closed := True\<rparr>, new_manager\<lparr>im_relaunch_closed := True\<rparr>)"
    by (simp add: reserve_relaunch_def close_admission_if_idle_def close_installs_if_idle_def game_new_def new_manager_def)
  then show ?thesis using relaunch_is_exclusive [where env = ex_install_env and s = ex_updated and game = game_new and installations = new_manager] by simp
qed

end
