(* ===== verification/ClientBinaries.thy ===== *)
theory ClientBinaries
  imports ServerConfigs Utf8 "HOL-Library.List_Lexorder"
begin

text \<open>
  What the launcher reads of a client's files (\<open>tools/server_tools/pe.rs\<close>, \<open>scan.rs\<close>, the searches of \<open>utils/fs.rs\<close>): the
  imports of a PE file, those of the local libraries it needs, and what they decide.  A path is its list of names, texts
  are code points, and the file system is a record of its answers.  Offsets are below \<open>2 ^ 34\<close> and are kept as naturals.
\<close>

section \<open>Files\<close>

type_synonym file_path = "text_points list"

record dir_entry =
  de_name :: "text_points option"
  de_file :: bool

text \<open>\<open>ch_plain\<close>: a file that is not a link.\<close>

record client_host =
  ch_list :: "file_path \<Rightarrow> dir_entry list option"
  ch_file :: "file_path \<Rightarrow> bool"
  ch_plain :: "file_path \<Rightarrow> bool"
  ch_read :: "file_path \<Rightarrow> u8 list option"

abbreviation lower_text :: "text_points \<Rightarrow> text_points" where "lower_text t \<equiv> map lower_point t"

definition file_path_of :: "text_points \<Rightarrow> file_path" where
  "file_path_of t = filter (\<lambda>c. c \<noteq> [] \<and> c \<noteq> points ''.'') (split_by (\<lambda>p. p = 47) t)"

definition parent_of :: "file_path \<Rightarrow> file_path option" where
  "parent_of p = (if p = [] then None else Some (butlast p))"

definition base_name :: "file_path \<Rightarrow> text_points option" where
  "base_name p = (if p = [] \<or> last p = points ''..'' then None else Some (last p))"

text \<open>The stem and the extension of a file name.\<close>

definition name_parts :: "text_points \<Rightarrow> text_points \<times> text_points option" where
  "name_parts n =
     (let ext = after_last (\<lambda>p. p = 46) n; stem = take (length n - length ext - 1) n
      in if 46 \<in> set n \<and> stem \<noteq> [] then (stem, Some ext) else (n, None))"

definition find_file_case_insensitive :: "client_host \<Rightarrow> file_path \<Rightarrow> text_points \<Rightarrow> file_path option" where
  "find_file_case_insensitive h dir filename =
     (case ch_list h dir of
        None \<Rightarrow> None
      | Some es \<Rightarrow>
          (case find (\<lambda>e. de_file e \<and> (case de_name e of None \<Rightarrow> False | Some n \<Rightarrow> same_ignoring_case n filename)) es of
             None \<Rightarrow> None
           | Some e \<Rightarrow> map_option (\<lambda>n. dir @ [n]) (de_name e)))"

definition find_matching_exe :: "client_host \<Rightarrow> file_path \<Rightarrow> (text_points \<Rightarrow> bool) \<Rightarrow> file_path option" where
  "find_matching_exe h dir P =
     (case ch_list h dir of
        None \<Rightarrow> None
      | Some es \<Rightarrow>
          let names = concat (map (\<lambda>e. case de_name e of
                  Some n \<Rightarrow> if de_file e \<and> (case snd (name_parts n) of None \<Rightarrow> False | Some ext \<Rightarrow> same_ignoring_case ext (points ''exe'')) \<and>
                      P (lower_text n) then [n] else []
                | None \<Rightarrow> []) es)
          in (case sort_by_key lower_text names of [] \<Rightarrow> None | n # _ \<Rightarrow> Some (dir @ [n])))"

definition normalize_token :: "text_points \<Rightarrow> text_points" where
  "normalize_token t = lower_text (filter (\<lambda>p. 48 \<le> p \<and> p \<le> 57 \<or> 65 \<le> p \<and> p \<le> 90 \<or> 97 \<le> p \<and> p \<le> 122) t)"

definition file_label :: "file_path \<Rightarrow> text_points" where
  "file_label p = (case base_name p of None \<Rightarrow> points ''desconocido'' | Some n \<Rightarrow> n)"

section \<open>Tools beside the client\<close>

record tool_info =
  ti_found :: bool
  ti_path :: "file_path option"
  ti_label :: "text_points option"

definition tool_found :: "file_path \<Rightarrow> text_points option \<Rightarrow> tool_info" where
  "tool_found path label = \<lparr>ti_found = True, ti_path = Some path, ti_label = label\<rparr>"

definition tool_missing :: tool_info where
  "tool_missing = \<lparr>ti_found = False, ti_path = None, ti_label = None\<rparr>"

definition detect_open_setup :: "client_host \<Rightarrow> file_path \<Rightarrow> tool_info" where
  "detect_open_setup h dir =
     (let opensetup = find_file_case_insensitive h dir (points ''opensetup.exe'');
          setup = find_file_case_insensitive h dir (points ''setup.exe'')
      in case opensetup of
           Some path \<Rightarrow> tool_found path (Some (if setup \<noteq> None then file_label path @ points '' (+ setup.exe)'' else file_label path))
         | None \<Rightarrow> (case setup of Some path \<Rightarrow> tool_found path (Some (file_label path)) | None \<Rightarrow> tool_missing))"

definition patcher_candidates :: "server_config \<Rightarrow> text_points list" where
  "patcher_candidates server =
     (let name_norm = normalize_token (points (sr_name server));
          by_name = (if name_norm = [] then [] else [name_norm @ points ''patcher.exe'', name_norm @ points ''_patcher.exe'']);
          by_stem = (case base_name (file_path_of (points (sr_executable_path server))) of
            None \<Rightarrow> []
          | Some n \<Rightarrow>
              let stem_norm = normalize_token (fst (name_parts n))
              in if stem_norm = [] \<or> stem_norm = name_norm then []
                 else [stem_norm @ points ''patcher.exe'', stem_norm @ points ''_patcher.exe''])
      in by_name @ by_stem)"

fun first_some :: "('a \<Rightarrow> 'b option) \<Rightarrow> 'a list \<Rightarrow> 'b option" where
  "first_some f [] = None"
| "first_some f (x # xs) = (case f x of None \<Rightarrow> first_some f xs | Some y \<Rightarrow> Some y)"

definition patcher_keyword :: "client_host \<Rightarrow> file_path \<Rightarrow> server_config \<Rightarrow> string \<Rightarrow> file_path option" where
  "patcher_keyword h dir server keyword =
     (let game = (case base_name (file_path_of (points (sr_executable_path server))) of None \<Rightarrow> [] | Some n \<Rightarrow> lower_text n)
      in find_matching_exe h dir (\<lambda>name.
           find_sub (points keyword) name \<noteq> None \<and> \<not> suffix (points ''.tmp'') name \<and> name \<noteq> game))"

definition detect_patcher :: "client_host \<Rightarrow> file_path \<Rightarrow> server_config \<Rightarrow> tool_info" where
  "detect_patcher h dir server =
     (let saved = (case sr_patcher_path server of
            None \<Rightarrow> None
          | Some p \<Rightarrow> let path = file_path_of (points p) in if ch_file h path then Some path else None);
          found = (case saved of
            Some path \<Rightarrow> Some path
          | None \<Rightarrow>
              (case first_some (find_file_case_insensitive h dir) (patcher_candidates server) of
                 Some path \<Rightarrow> Some path
               | None \<Rightarrow> first_some (patcher_keyword h dir server) [''patcher'', ''updater'', ''update'', ''launcher'']))
      in case found of Some path \<Rightarrow> tool_found path (Some (file_label path)) | None \<Rightarrow> tool_missing)"

section \<open>PE files\<close>

definition MAX_PE_SIZE :: nat where "MAX_PE_SIZE = 128 * 1024 * 1024"
definition MAX_DEPENDENCIES :: nat where "MAX_DEPENDENCIES = 96"

record pe_info =
  pe_architecture :: "string option"
  pe_imports :: "text_points list"
  pe_managed :: bool

record pe_section =
  px_virtual_address :: u32
  px_virtual_size :: u32
  px_raw_offset :: u32
  px_raw_size :: u32

text \<open>\<open>bytes.get(offset..offset + n)\<close>\<close>

definition get_range :: "u8 list \<Rightarrow> nat \<Rightarrow> nat \<Rightarrow> u8 list option" where
  "get_range bytes offset n = (if offset + n \<le> length bytes then Some (take n (drop offset bytes)) else None)"

definition le_value :: "u8 list \<Rightarrow> nat" where
  "le_value bs = foldr (\<lambda>b v. unat b + 256 * v) bs 0"

definition read_le16 :: "u8 list \<Rightarrow> nat \<Rightarrow> u16 option" where
  "read_le16 bytes offset = map_option (\<lambda>bs. of_nat (le_value bs)) (get_range bytes offset 2)"

definition read_le32 :: "u8 list \<Rightarrow> nat \<Rightarrow> u32 option" where
  "read_le32 bytes offset = map_option (\<lambda>bs. of_nat (le_value bs)) (get_range bytes offset 4)"

definition read_le64 :: "u8 list \<Rightarrow> nat \<Rightarrow> u64 option" where
  "read_le64 bytes offset = map_option (\<lambda>bs. of_nat (le_value bs)) (get_range bytes offset 8)"

definition checked_add :: "u32 \<Rightarrow> u32 \<Rightarrow> u32 option" where
  "checked_add a b = (if unat a + unat b < 2 ^ 32 then Some (a + b) else None)"

definition read_c_string :: "u8 list \<Rightarrow> nat \<Rightarrow> text_points option" where
  "read_c_string bytes offset =
     (if length bytes < offset then None
      else case position (\<lambda>b. b = 0) (drop offset bytes) of
        None \<Rightarrow> None
      | Some stop \<Rightarrow> if stop = 0 \<or> 260 < stop then None else Some (decode_lossy (take stop (drop offset bytes))))"

fun rva_to_offset :: "u32 \<Rightarrow> pe_section list \<Rightarrow> nat option" where
  "rva_to_offset rva [] = Some (unat rva)"
| "rva_to_offset rva (x # xs) =
     (case checked_add (px_virtual_address x) (max (px_virtual_size x) (px_raw_size x)) of
        None \<Rightarrow> None
      | Some stop \<Rightarrow>
          if px_virtual_address x \<le> rva \<and> rva < stop then
            (let relative = rva - px_virtual_address x
             in if px_raw_size x \<le> relative then None else map_option unat (checked_add (px_raw_offset x) relative))
          else rva_to_offset rva xs)"

definition parse_section :: "u8 list \<Rightarrow> nat \<Rightarrow> pe_section option" where
  "parse_section bytes offset =
     (case (read_le32 bytes (offset + 8), read_le32 bytes (offset + 12), read_le32 bytes (offset + 16), read_le32 bytes (offset + 20)) of
        (Some vs, Some va, Some rs, Some ro) \<Rightarrow>
          Some \<lparr>px_virtual_address = va, px_virtual_size = vs, px_raw_offset = ro, px_raw_size = rs\<rparr>
      | _ \<Rightarrow> None)"

fun parse_sections_from :: "u8 list \<Rightarrow> nat \<Rightarrow> nat \<Rightarrow> pe_section list option" where
  "parse_sections_from bytes offset 0 = Some []"
| "parse_sections_from bytes offset (Suc n) =
     (case parse_section bytes offset of
        None \<Rightarrow> None
      | Some x \<Rightarrow> map_option (\<lambda>xs. x # xs) (parse_sections_from bytes (offset + 40) n))"

definition parse_sections :: "u8 list \<Rightarrow> nat \<Rightarrow> nat \<Rightarrow> pe_section list option" where
  "parse_sections bytes offset n = (if 96 < n then None else parse_sections_from bytes offset n)"

text \<open>The name an address stands for, if it can be read.\<close>

definition name_at :: "u8 list \<Rightarrow> pe_section list \<Rightarrow> u32 \<Rightarrow> text_points list" where
  "name_at bytes sections rva =
     (case rva_to_offset rva sections of
        None \<Rightarrow> []
      | Some offset \<Rightarrow> (case read_c_string bytes offset of None \<Rightarrow> [] | Some n \<Rightarrow> [lower_text n]))"

definition delayed_rva :: "u64 \<Rightarrow> u8 list \<Rightarrow> u32 option" where
  "delayed_rva image_base e =
     (let attributes = (of_nat (le_value (take 4 e)) :: u32); raw = (of_nat (le_value (take 4 (drop 4 e))) :: u32)
      in if attributes AND 1 \<noteq> 0 then Some raw
         else if unat image_base \<le> unat raw then Some (of_nat (unat raw - unat image_base)) else None)"

fun import_names :: "u8 list \<Rightarrow> pe_section list \<Rightarrow> nat \<Rightarrow> nat \<Rightarrow> text_points list option" where
  "import_names bytes sections 0 descriptor = Some []"
| "import_names bytes sections (Suc n) descriptor =
     (case get_range bytes descriptor 20 of
        None \<Rightarrow> None
      | Some e \<Rightarrow>
          if list_all (\<lambda>b. b = 0) e then Some []
          else map_option (\<lambda>names. name_at bytes sections (of_nat (le_value (take 4 (drop 12 e)))) @ names)
            (import_names bytes sections n (descriptor + 20)))"

fun delayed_names :: "u8 list \<Rightarrow> pe_section list \<Rightarrow> u64 \<Rightarrow> nat \<Rightarrow> nat \<Rightarrow> text_points list option" where
  "delayed_names bytes sections image_base 0 descriptor = Some []"
| "delayed_names bytes sections image_base (Suc n) descriptor =
     (case get_range bytes descriptor 32 of
        None \<Rightarrow> None
      | Some e \<Rightarrow>
          if list_all (\<lambda>b. b = 0) e then Some []
          else map_option (\<lambda>names. (case delayed_rva image_base e of None \<Rightarrow> [] | Some rva \<Rightarrow> name_at bytes sections rva) @ names)
            (delayed_names bytes sections image_base n (descriptor + 32)))"

text \<open>A table of names that starts at an address, or none when the address is 0.\<close>

definition table_at :: "pe_section list \<Rightarrow> u32 \<Rightarrow> (nat \<Rightarrow> text_points list option) \<Rightarrow> text_points list option" where
  "table_at sections rva names_from =
     (if rva = 0 then Some [] else case rva_to_offset rva sections of None \<Rightarrow> None | Some descriptor \<Rightarrow> names_from descriptor)"

definition architecture_of :: "u16 \<Rightarrow> string \<Rightarrow> string" where
  "architecture_of machine fallback = (if machine = 0x14c then ''x86'' else if machine = 0x8664 then ''x86_64'' else fallback)"

text \<open>Where the data directories start, the architecture of the format and the base of the image.\<close>

definition optional_header :: "u8 list \<Rightarrow> nat \<Rightarrow> (nat \<times> string \<times> u64) option" where
  "optional_header bytes optional_at =
     (case read_le16 bytes optional_at of
        None \<Rightarrow> None
      | Some magic \<Rightarrow>
          if magic = 0x10b then map_option (\<lambda>base. (optional_at + 96, ''x86'', ucast base)) (read_le32 bytes (optional_at + 28))
          else if magic = 0x20b then map_option (\<lambda>base. (optional_at + 112, ''x86_64'', base)) (read_le64 bytes (optional_at + 24))
          else None)"

definition parse_directories :: "u8 list \<Rightarrow> u16 \<Rightarrow> pe_section list \<Rightarrow> nat \<Rightarrow> string \<Rightarrow> u64 \<Rightarrow> u32 \<Rightarrow> pe_info option" where
  "parse_directories bytes machine sections directory fallback image_base import_rva =
     (let delay_rva = (case read_le32 bytes (directory + 13 * 8) of None \<Rightarrow> 0 | Some x \<Rightarrow> x);
          clr_rva = (case read_le32 bytes (directory + 14 * 8) of None \<Rightarrow> 0 | Some x \<Rightarrow> x)
      in case table_at sections import_rva (import_names bytes sections MAX_DEPENDENCIES) of
           None \<Rightarrow> None
         | Some names \<Rightarrow>
             (case table_at sections delay_rva (delayed_names bytes sections image_base MAX_DEPENDENCIES) of
                None \<Rightarrow> None
              | Some delayed \<Rightarrow>
                  Some \<lparr>pe_architecture = Some (architecture_of machine fallback), pe_imports = names @ delayed, pe_managed = (clr_rva \<noteq> 0)\<rparr>))"

definition parse_pe_bytes :: "u8 list \<Rightarrow> pe_info option" where
  "parse_pe_bytes bytes =
     (if get_range bytes 0 2 \<noteq> Some [0x4d, 0x5a] then None
      else case read_le32 bytes 0x3c of
        None \<Rightarrow> None
      | Some e_lfanew \<Rightarrow>
          let pe = unat e_lfanew; coff = pe + 4; optional_at = coff + 20
          in if get_range bytes pe 4 \<noteq> Some [0x50, 0x45, 0, 0] then None
             else case (read_le16 bytes coff, read_le16 bytes (coff + 2), read_le16 bytes (coff + 16), optional_header bytes optional_at) of
               (Some machine, Some section_count, Some optional_size, Some (directory, fallback, image_base)) \<Rightarrow>
                 (case (read_le32 bytes (directory + 8), parse_sections bytes (optional_at + unat optional_size) (unat section_count)) of
                    (Some import_rva, Some sections) \<Rightarrow> parse_directories bytes machine sections directory fallback image_base import_rva
                  | _ \<Rightarrow> None)
             | _ \<Rightarrow> None)"

definition parse_pe :: "client_host \<Rightarrow> file_path \<Rightarrow> pe_info option" where
  "parse_pe h path =
     (case ch_read h path of
        None \<Rightarrow> None
      | Some bytes \<Rightarrow> if MAX_PE_SIZE < length bytes then None else parse_pe_bytes bytes)"


section \<open>Local libraries\<close>

text \<open>\<open>collect_local_imports\<close>: the names seen, the files read and the queue of names to look at.\<close>

function collect_loop :: "client_host \<Rightarrow> file_path \<Rightarrow> text_points set \<Rightarrow> file_path list \<Rightarrow> text_points list \<Rightarrow> text_points set \<times> file_path list" where
  "collect_loop h dir known parsed [] = (known, parsed)"
| "collect_loop h dir known parsed (n # queue) =
     (let name = lower_text n; seen = insert name known
      in if name \<in> known \<or> MAX_DEPENDENCIES \<le> length parsed then collect_loop h dir seen parsed queue
         else case find_file_case_insensitive h dir name of
           None \<Rightarrow> collect_loop h dir seen parsed queue
         | Some file \<Rightarrow>
             if file \<in> set parsed then collect_loop h dir seen parsed queue
             else (case parse_pe h file of
               None \<Rightarrow> collect_loop h dir seen (file # parsed) queue
             | Some info \<Rightarrow> collect_loop h dir seen (file # parsed) (queue @ pe_imports info)))"
  by pat_completeness auto

termination
  by (relation "measures [\<lambda>(h, dir, known, parsed, queue). MAX_DEPENDENCIES - length parsed, \<lambda>(h, dir, known, parsed, queue). length queue]") auto

definition collect_local_imports :: "client_host \<Rightarrow> file_path \<Rightarrow> text_points list \<Rightarrow> text_points set" where
  "collect_local_imports h dir known = fst (collect_loop h dir {} [] known)"

definition webview2_loader :: text_points where "webview2_loader = points ''webview2loader.dll''"

definition executable_requires_webview2 :: "client_host \<Rightarrow> file_path \<Rightarrow> bool" where
  "executable_requires_webview2 h executable =
     (case parent_of executable of
        None \<Rightarrow> False
      | Some dir \<Rightarrow>
          (case parse_pe h executable of
             None \<Rightarrow> False
           | Some root \<Rightarrow> webview2_loader \<in> collect_local_imports h dir (pe_imports root)))"

definition detected_patcher_path :: "client_host \<Rightarrow> server_config \<Rightarrow> file_path option" where
  "detected_patcher_path h server =
     (case sr_patcher_path server of
        Some p \<Rightarrow>
          if ch_file h (file_path_of (points p)) then Some (file_path_of (points p))
          else (case parent_of (file_path_of (points (sr_executable_path server))) of
            None \<Rightarrow> None | Some dir \<Rightarrow> ti_path (detect_patcher h dir server))
      | None \<Rightarrow>
          (case parent_of (file_path_of (points (sr_executable_path server))) of
            None \<Rightarrow> None | Some dir \<Rightarrow> ti_path (detect_patcher h dir server)))"

definition requires_webview2 :: "client_host \<Rightarrow> server_config \<Rightarrow> bool" where
  "requires_webview2 h server \<longleftrightarrow>
     lc_require_webview2 (sr_launch server) \<or>
     executable_requires_webview2 h (file_path_of (points (sr_executable_path server))) \<or>
     lc_strategy (sr_launch server) = Patcher \<and>
       (case detected_patcher_path h server of None \<Rightarrow> False | Some p \<Rightarrow> executable_requires_webview2 h p)"

definition webview2_runtime_present :: "client_host \<Rightarrow> file_path \<Rightarrow> bool" where
  "webview2_runtime_present h prefix_dir =
     list_ex (\<lambda>program_files. ch_plain h (prefix_dir @
       [points ''drive_c'', points program_files, points ''Microsoft'', points ''EdgeUpdate'', points ''MicrosoftEdgeUpdate.exe'']))
       [''Program Files (x86)'', ''Program Files'']"

datatype missing_component = ClientNeedsWebView2 | ToolNeedsWebView2

definition missing_runtime_components :: "client_host \<Rightarrow> server_config \<Rightarrow> file_path \<Rightarrow> missing_component list" where
  "missing_runtime_components h server prefix_dir =
     (if requires_webview2 h server \<and> \<not> webview2_runtime_present h prefix_dir then [ClientNeedsWebView2] else [])"

definition missing_runtime_components_for_executable :: "client_host \<Rightarrow> file_path \<Rightarrow> file_path \<Rightarrow> bool \<Rightarrow> missing_component list" where
  "missing_runtime_components_for_executable h executable prefix_dir manual =
     (if (manual \<or> executable_requires_webview2 h executable) \<and> \<not> webview2_runtime_present h prefix_dir
      then [ToolNeedsWebView2] else [])"

section \<open>The diagnosis of a client\<close>

datatype client_warning =
    BothGraphicsChains
  | WebView2Needed
  | OptionalPatcherUsesWebView2
  | WebView2ByHand
  | InconclusiveAnalysis
  | ManagedPatcher
  | AntiCheatFound
  | GepardWarning string

record client_diagnostics =
  cd_architecture :: "string option"
  cd_graphics_apis :: "string list"
  cd_managed_patcher :: bool
  cd_webview2_required :: bool
  cd_conclusive :: bool
  cd_gepard_present :: bool
  cd_gameguard_present :: bool
  cd_warnings :: "client_warning list"

definition graphics_apis :: "text_points set \<Rightarrow> string list" where
  "graphics_apis known =
     (let uses = (\<lambda>n. points n \<in> known)
      in (if uses ''ddraw.dll'' \<or> uses ''d3dimm.dll'' then [''DirectDraw / DirectX 1-7''] else []) @
         (if uses ''d3d8.dll'' then [''Direct3D 8''] else []) @
         (if uses ''d3d9.dll'' \<or> (\<exists>n \<in> known. prefix (points ''d3dx9_'') n) then [''Direct3D 9''] else []) @
         (if uses ''d3d11.dll'' \<or> uses ''dxgi.dll'' then [''Direct3D 11''] else []))"

text \<open>\<open>gepard\<close>: the warnings of the compatibility records for the \<open>gepard.dll\<close> that was found.\<close>

definition inspect_client ::
  "client_host \<Rightarrow> (file_path \<Rightarrow> string list) \<Rightarrow> server_config \<Rightarrow> file_path \<Rightarrow> tool_info \<Rightarrow> client_diagnostics" where
  "inspect_client h gepard server game_dir patcher =
     (let parsed = parse_pe h (file_path_of (points (sr_executable_path server)));
          known = collect_local_imports h game_dir (case parsed of None \<Rightarrow> [] | Some root \<Rightarrow> pe_imports root);
          graphics = graphics_apis known;
          patcher_info = (case ti_path patcher of None \<Rightarrow> None | Some p \<Rightarrow> parse_pe h p);
          managed = (case patcher_info of None \<Rightarrow> False | Some info \<Rightarrow> pe_managed info);
          patcher_requires = (case ti_path patcher of None \<Rightarrow> False | Some p \<Rightarrow> executable_requires_webview2 h p);
          through_patcher = (lc_strategy (sr_launch server) = Patcher);
          by_hand = lc_require_webview2 (sr_launch server);
          required = (by_hand \<or> webview2_loader \<in> known \<or> through_patcher \<and> patcher_requires);
          conclusive = (parsed \<noteq> None \<and> (\<not> through_patcher \<or> patcher_info \<noteq> None));
          gepard_dll = find_file_case_insensitive h game_dir (points ''gepard.dll'');
          gameguard = (find_file_case_insensitive h game_dir (points ''gameguard.des'') \<noteq> None)
      in \<lparr>cd_architecture = (case parsed of None \<Rightarrow> None | Some root \<Rightarrow> pe_architecture root), cd_graphics_apis = graphics,
          cd_managed_patcher = managed, cd_webview2_required = required, cd_conclusive = conclusive,
          cd_gepard_present = (gepard_dll \<noteq> None), cd_gameguard_present = gameguard,
          cd_warnings =
            (if ''Direct3D 9'' \<in> set graphics \<and> ''DirectDraw / DirectX 1-7'' \<in> set graphics then [BothGraphicsChains] else []) @
            (if required then [WebView2Needed] else []) @
            (if patcher_requires \<and> \<not> through_patcher then [OptionalPatcherUsesWebView2] else []) @
            (if by_hand then [WebView2ByHand] else if \<not> conclusive then [InconclusiveAnalysis] else []) @
            (if managed then [ManagedPatcher] else []) @
            (if gepard_dll \<noteq> None \<or> gameguard then [AntiCheatFound] else []) @
            (case gepard_dll of None \<Rightarrow> [] | Some p \<Rightarrow> map GepardWarning (gepard p))\<rparr>)"

section \<open>Which libraries are needed\<close>

text \<open>The names a client needs: those it asks for and those that a local library it needs asks for.\<close>

inductive_set needed :: "client_host \<Rightarrow> file_path \<Rightarrow> text_points list \<Rightarrow> text_points set" for h dir roots where
  imported: "n \<in> set roots \<Longrightarrow> lower_text n \<in> needed h dir roots"
| through: "m \<in> needed h dir roots \<Longrightarrow> find_file_case_insensitive h dir m = Some file \<Longrightarrow> parse_pe h file = Some info \<Longrightarrow>
    n \<in> set (pe_imports info) \<Longrightarrow> lower_text n \<in> needed h dir roots"

abbreviation imports_at :: "client_host \<Rightarrow> file_path \<Rightarrow> text_points list" where
  "imports_at h p \<equiv> (case parse_pe h p of None \<Rightarrow> [] | Some info \<Rightarrow> pe_imports info)"

text \<open>A condition that survives a name that is passed over and a file that is read holds at the end.\<close>

lemma collect_invariant:
  assumes "collect_loop h dir known parsed queue = (I, P)" "Inv known parsed queue"
    and skip: "\<And>K L n q. Inv K L (n # q) \<Longrightarrow>
      lower_text n \<in> K \<or> MAX_DEPENDENCIES \<le> length L \<or> (\<forall>p. find_file_case_insensitive h dir (lower_text n) = Some p \<longrightarrow> p \<in> set L) \<Longrightarrow>
      Inv (insert (lower_text n) K) L q"
    and reads: "\<And>K L n q p. Inv K L (n # q) \<Longrightarrow> lower_text n \<notin> K \<Longrightarrow> length L < MAX_DEPENDENCIES \<Longrightarrow>
      find_file_case_insensitive h dir (lower_text n) = Some p \<Longrightarrow> p \<notin> set L \<Longrightarrow>
      Inv (insert (lower_text n) K) (p # L) (q @ imports_at h p)"
  shows "Inv I P []"
  using assms(1,2) skip reads
proof (induction h dir known parsed queue rule: collect_loop.induct)
  case (2 h dir known parsed n queue)
  note run = "2.prems"(1) and start = "2.prems"(2) and skip = "2.prems"(3) and reads = "2.prems"(4)
  let ?name = "lower_text n"
  show ?case
  proof (cases "?name \<in> known \<or> MAX_DEPENDENCIES \<le> length parsed")
    case True
    have "Inv (insert ?name known) parsed queue" by (rule skip [OF start]) (use True in auto)
    moreover have "collect_loop h dir (insert ?name known) parsed queue = (I, P)" using run True by (simp add: Let_def)
    ultimately show ?thesis by (intro "2.IH"(1) [OF refl refl True _ _ skip reads])
  next
    case False
    note IH = "2.IH"(2-5) [OF refl refl False]
    show ?thesis
    proof (cases "find_file_case_insensitive h dir ?name")
      case None
      have "Inv (insert ?name known) parsed queue" by (rule skip [OF start]) (use None in auto)
      moreover have "collect_loop h dir (insert ?name known) parsed queue = (I, P)" using run False None by (simp add: Let_def)
      ultimately show ?thesis by (intro IH(1) [OF None _ _ skip reads])
    next
      case (Some p)
      show ?thesis
      proof (cases "p \<in> set parsed")
        case True
        have "Inv (insert ?name known) parsed queue" by (rule skip [OF start]) (use Some True in auto)
        moreover have "collect_loop h dir (insert ?name known) parsed queue = (I, P)" using run False Some True by (simp add: Let_def)
        ultimately show ?thesis by (intro IH(2) [OF Some True _ _ skip reads])
      next
        case fresh: False
        have step: "Inv (insert ?name known) (p # parsed) (queue @ imports_at h p)"
          by (rule reads [OF start _ _ Some fresh]) (use False in auto)
        show ?thesis
        proof (cases "parse_pe h p")
          case None
          have "collect_loop h dir (insert ?name known) (p # parsed) queue = (I, P)" using run False Some fresh None by (simp add: Let_def)
          then show ?thesis using step None by (intro IH(3) [OF Some fresh None _ _ skip reads]) auto
        next
          case info: (Some info)
          have "collect_loop h dir (insert ?name known) (p # parsed) (queue @ pe_imports info) = (I, P)" using run False Some fresh info by (simp add: Let_def)
          then show ?thesis using step info by (intro IH(4) [OF Some fresh info _ _ skip reads]) auto
        qed
      qed
    qed
  qed
qed simp

lemma collect_sound:
  assumes "collect_loop h dir {} [] roots = (I, P)"
  shows "I \<subseteq> needed h dir roots \<and> lower_text ` set roots \<subseteq> I"
proof -
  let ?Inv = "\<lambda>K (L :: file_path list) q. K \<union> lower_text ` set q \<subseteq> needed h dir roots \<and> lower_text ` set roots \<subseteq> K \<union> lower_text ` set q"
  have "?Inv I P []"
  proof (rule collect_invariant [where Inv = ?Inv, OF assms])
    fix K L n q p
    assume Inv: "?Inv K L (n # q)" and p: "find_file_case_insensitive h dir (lower_text n) = Some p"
    then have name: "lower_text n \<in> needed h dir roots" by simp
    have "lower_text ` set (imports_at h p) \<subseteq> needed h dir roots"
      using through [OF name p] by (cases "parse_pe h p") auto
    with Inv show "?Inv (insert (lower_text n) K) (p # L) (q @ imports_at h p)" by (auto simp: image_Un)
  qed (auto intro: imported)
  then show ?thesis by simp
qed

definition settled_imports :: "client_host \<Rightarrow> file_path \<Rightarrow> text_points set \<Rightarrow> file_path list \<Rightarrow> text_points list \<Rightarrow> bool" where
  "settled_imports h dir known parsed queue \<longleftrightarrow>
     (\<forall>m \<in> known. \<forall>p. find_file_case_insensitive h dir m = Some p \<longrightarrow> p \<in> set parsed) \<and>
     (\<forall>p \<in> set parsed. \<forall>info. parse_pe h p = Some info \<longrightarrow> lower_text ` set (pe_imports info) \<subseteq> known \<union> lower_text ` set queue)"

lemma collect_settles:
  assumes "collect_loop h dir {} [] roots = (I, P)" "length P < MAX_DEPENDENCIES"
  shows "settled_imports h dir I P []"
proof -
  let ?Inv = "\<lambda>K L q. MAX_DEPENDENCIES \<le> length L \<or> settled_imports h dir K L q"
  have "?Inv I P []"
  proof (rule collect_invariant [where Inv = ?Inv, OF assms(1)])
    fix K L n q p
    assume "?Inv K L (n # q)" "length L < MAX_DEPENDENCIES" "find_file_case_insensitive h dir (lower_text n) = Some p" "p \<notin> set L"
    then show "?Inv (insert (lower_text n) K) (p # L) (q @ imports_at h p)" unfolding settled_imports_def by (auto 0 4)
  qed (auto simp: settled_imports_def)
  then show ?thesis using assms(2) by simp
qed

text \<open>The files read are different files of the directory.\<close>

definition listed_files :: "file_path \<Rightarrow> dir_entry list \<Rightarrow> file_path list" where
  "listed_files dir es = map (\<lambda>e. dir @ [case de_name e of None \<Rightarrow> [] | Some n \<Rightarrow> n]) (filter de_file es)"

lemma found_listed:
  assumes "ch_list h dir = Some es" "find_file_case_insensitive h dir n = Some p"
  shows "p \<in> set (listed_files dir es)"
proof -
  obtain e m where e: "find (\<lambda>e. de_file e \<and> (case de_name e of None \<Rightarrow> False | Some m \<Rightarrow> same_ignoring_case m n)) es = Some e"
      "de_name e = Some m" "p = dir @ [m]"
    using assms by (auto simp: find_file_case_insensitive_def split: option.splits)
  have "e \<in> set es" "de_file e" using find_SomeD [OF e(1)] by auto
  then show ?thesis using e(2,3) by (force simp: listed_files_def)
qed

lemma collect_reads:
  assumes "collect_loop h dir {} [] roots = (I, P)" "ch_list h dir = Some es"
  shows "distinct P \<and> set P \<subseteq> set (listed_files dir es)"
  by (rule collect_invariant [where Inv = "\<lambda>_ L _. distinct L \<and> set L \<subseteq> set (listed_files dir es)", OF assms(1)])
    (auto dest: found_listed [OF assms(2)])

lemma settled_complete:
  assumes "settled_imports h dir I P []" "lower_text ` set roots \<subseteq> I"
  shows "needed h dir roots \<subseteq> I"
proof
  fix n
  assume "n \<in> needed h dir roots"
  then show "n \<in> I"
  proof induction
    case (through m p info n)
    then have "p \<in> set P" using assms(1) unfolding settled_imports_def by blast
    then have "lower_text ` set (pe_imports info) \<subseteq> I \<union> lower_text ` set []"
      using assms(1) through unfolding settled_imports_def by blast
    then show ?case using through by auto
  qed (use assms(2) in auto)
qed

lemma imports_exact:
  assumes "ch_list h dir = Some es" "length (filter de_file es) < MAX_DEPENDENCIES"
  shows "collect_local_imports h dir roots = needed h dir roots"
proof -
  obtain I P where c: "collect_loop h dir {} [] roots = (I, P)" by fastforce
  have sound: "I \<subseteq> needed h dir roots" "lower_text ` set roots \<subseteq> I" using collect_sound [OF c] by auto
  have "distinct P" "set P \<subseteq> set (listed_files dir es)" using collect_reads [OF c assms(1)] by auto
  then have "length P \<le> length (filter de_file es)"
    using card_mono [of "set (listed_files dir es)" "set P"] card_length [of "listed_files dir es"] by (simp add: distinct_card listed_files_def)
  then have "settled_imports h dir I P []" using collect_settles [OF c] assms(2) by simp
  then show ?thesis using sound settled_complete by (simp add: collect_local_imports_def c subset_antisym)
qed

lemma collect_within: "collect_local_imports h dir roots \<subseteq> needed h dir roots" "lower_text ` set roots \<subseteq> collect_local_imports h dir roots"
  using collect_sound [of h dir roots] by (cases "collect_loop h dir {} [] roots"; force simp: collect_local_imports_def)+

section \<open>The names in a file\<close>

text \<open>A name of a file: between 1 and 260 bytes of it, none of them 0, with a 0 after them.\<close>

definition stands_in :: "u8 list \<Rightarrow> text_points \<Rightarrow> bool" where
  "stands_in bytes n \<longleftrightarrow>
     (\<exists>offset size. 1 \<le> size \<and> size \<le> 260 \<and> offset + size < length bytes \<and> bytes ! (offset + size) = 0 \<and>
        0 \<notin> set (take size (drop offset bytes)) \<and> n = lower_text (decode_lossy (take size (drop offset bytes))))"

lemma position_first_zero: "position P xs = Some k \<Longrightarrow> k < length xs \<and> P (xs ! k) \<and> (\<forall>x \<in> set (take k xs). \<not> P x)"
  by (induction xs arbitrary: k) (auto split: if_splits)

lemma c_string_stands:
  assumes "read_c_string bytes offset = Some n"
  shows "stands_in bytes (lower_text n)"
proof -
  obtain size where size: "position (\<lambda>b. b = 0) (drop offset bytes) = Some size" "1 \<le> size" "size \<le> 260"
      "n = decode_lossy (take size (drop offset bytes))"
    using assms by (auto simp: read_c_string_def split: if_splits option.splits)
  from position_first_zero [OF size(1)] have "offset + size < length bytes" "bytes ! (offset + size) = 0" "0 \<notin> set (take size (drop offset bytes))" by auto
  then show ?thesis unfolding stands_in_def using size by blast
qed

lemma name_at_stands: "n \<in> set (name_at bytes sections rva) \<Longrightarrow> stands_in bytes n" "length (name_at bytes sections rva) \<le> 1"
  by (cases "rva_to_offset rva sections"; cases "read_c_string bytes (the (rva_to_offset rva sections))"; simp add: name_at_def c_string_stands)+

abbreviation names_stand :: "u8 list \<Rightarrow> nat \<Rightarrow> text_points list \<Rightarrow> bool" where
  "names_stand bytes k names \<equiv> length names \<le> k \<and> (\<forall>n \<in> set names. stands_in bytes n)"

lemma names_stand_more: "names_stand bytes k names \<Longrightarrow> names_stand bytes (Suc k) (name_at bytes sections rva @ names)"
  using name_at_stands(1) [of _ bytes sections rva] name_at_stands(2) [of bytes sections rva] by auto

lemma import_names_stand: "import_names bytes sections k descriptor = Some names \<Longrightarrow> names_stand bytes k names"
proof (induction bytes sections k descriptor arbitrary: names rule: import_names.induct)
  case (2 bytes sections k descriptor)
  show ?case
  proof (cases "get_range bytes descriptor 20")
    case (Some e)
    with "2.prems" show ?thesis using "2.IH" [OF Some] names_stand_more [where bytes = bytes and k = k] by (auto split: if_splits)
  qed (use "2.prems" in simp)
qed simp

lemma delayed_names_stand: "delayed_names bytes sections base k descriptor = Some names \<Longrightarrow> names_stand bytes k names"
proof (induction bytes sections base k descriptor arbitrary: names rule: delayed_names.induct)
  case (2 bytes sections base k descriptor)
  show ?case
  proof (cases "get_range bytes descriptor 32")
    case (Some e)
    show ?thesis
    proof (cases "list_all (\<lambda>b. b = 0) e")
      case False
      with "2.prems" Some obtain more where more: "delayed_names bytes sections base k (descriptor + 32) = Some more"
        "names = (case delayed_rva base e of None \<Rightarrow> [] | Some rva \<Rightarrow> name_at bytes sections rva) @ more" by auto
      then show ?thesis using "2.IH" [OF Some False more(1)] names_stand_more [where bytes = bytes and k = k and names = more and sections = sections] by (cases "delayed_rva base e") auto
    qed (use "2.prems" Some in simp)
  qed (use "2.prems" in simp)
qed simp

lemma table_at_from: "table_at sections rva f = Some names \<Longrightarrow> names = [] \<or> (\<exists>d. f d = Some names)"
  by (auto simp: table_at_def split: if_splits option.splits)

lemma directories_names:
  assumes "parse_directories bytes machine sections directory fallback base rva = Some info"
  shows "names_stand bytes 192 (pe_imports info)"
proof -
  obtain names delayed delay_rva where n: "table_at sections rva (import_names bytes sections MAX_DEPENDENCIES) = Some names"
      "table_at sections delay_rva (delayed_names bytes sections base MAX_DEPENDENCIES) = Some delayed" "pe_imports info = names @ delayed"
    using assms unfolding parse_directories_def Let_def by (auto split: option.splits)
  have "names_stand bytes 96 names" "names_stand bytes 96 delayed"
    using table_at_from [OF n(1)] table_at_from [OF n(2)] import_names_stand delayed_names_stand unfolding MAX_DEPENDENCIES_def by fastforce+
  then show ?thesis unfolding n(3) by auto
qed

lemma parsed_names: "parse_pe_bytes bytes = Some info \<Longrightarrow> names_stand bytes 192 (pe_imports info)"
  unfolding parse_pe_bytes_def Let_def using directories_names by (auto split: if_splits option.splits)


section \<open>Results\<close>

text \<open>C18: The search for libraries is exact.  In a directory of fewer than 96 files it finds the names the client needs and no
  others: those it imports and those that a local library it needs imports, in any writing and whatever cycles there are; in a
  greater one it finds at least the imports of the client and nothing that is not needed.\<close>

theorem local_imports_exact:
  "collect_local_imports h dir roots \<subseteq> needed h dir roots \<and> lower_text ` set roots \<subseteq> collect_local_imports h dir roots \<and>
   (ch_list h dir = Some es \<and> length (filter de_file es) < 96 \<longrightarrow> collect_local_imports h dir roots = needed h dir roots)"
  using collect_within [where h = h and dir = dir and roots = roots] imports_exact [where h = h and dir = dir and es = es and roots = roots] by (auto simp: MAX_DEPENDENCIES_def)

text \<open>The names read from a PE file stand in it.  Whatever the bytes are, parsing ends with none or with at most 192 names, each
  the text of 1 to 260 bytes of the file that end in a zero.\<close>

theorem parsed_names_stand_in_file:
  assumes "parse_pe h path = Some info"
  shows "\<exists>bytes. ch_read h path = Some bytes \<and> length bytes \<le> MAX_PE_SIZE \<and> length (pe_imports info) \<le> 192 \<and>
    (\<forall>n \<in> set (pe_imports info). stands_in bytes n)"
  using assms parsed_names by (fastforce simp: parse_pe_def split: option.splits if_splits)

text \<open>C19: What the launcher tells about WebView2 is what it enforces: the diagnosis of a client requires it exactly when the check
  before a launch does, and that check refuses exactly a client whose diagnosis requires it without the runtime.\<close>

theorem diagnosis_agrees_with_launch:
  assumes "parent_of (file_path_of (points (sr_executable_path server))) = Some dir"
  shows "cd_webview2_required (inspect_client h gepard server dir (detect_patcher h dir server)) = requires_webview2 h server \<and>
    (missing_runtime_components h server prefix_dir = [] \<longleftrightarrow>
       \<not> (cd_webview2_required (inspect_client h gepard server dir (detect_patcher h dir server)) \<and> \<not> webview2_runtime_present h prefix_dir))"
proof -
  have patcher: "detected_patcher_path h server = ti_path (detect_patcher h dir server)"
    using assms by (auto simp: detected_patcher_path_def detect_patcher_def tool_found_def Let_def split: option.splits)
  have "collect_local_imports h dir [] = {}" by (simp add: collect_local_imports_def)
  then have "cd_webview2_required (inspect_client h gepard server dir (detect_patcher h dir server)) = requires_webview2 h server"
    using assms by (auto simp: inspect_client_def requires_webview2_def executable_requires_webview2_def Let_def patcher split: option.splits)
  then show ?thesis by (simp add: missing_runtime_components_def)
qed


section \<open>The hypotheses can hold\<close>

text \<open>A PE file without sections that imports \<open>a.dll\<close>.\<close>

definition ex_pe :: "u8 list" where
  "ex_pe = [0x4d, 0x5a] @ replicate 58 0 @ [0x40, 0, 0, 0] @ [0x50, 0x45, 0, 0] @ [0x4c, 0x01] @ replicate 18 0 @ [0x0b, 0x01] @
     replicate 102 0 @ [0xc4, 0, 0, 0] @ (replicate 12 0 @ [0xec, 0, 0, 0] @ replicate 4 0) @ replicate 20 0 @ [0x41, 0x2e, 0x64, 0x6c, 0x6c, 0]"

definition ex_files :: client_host where
  "ex_files = \<lparr>ch_list = (\<lambda>_. Some [\<lparr>de_name = Some (points ''A.DLL''), de_file = True\<rparr>]), ch_file = (\<lambda>_. True), ch_plain = (\<lambda>_. False), ch_read = (\<lambda>_. Some ex_pe)\<rparr>"

definition ex_client :: server_config where
  "ex_client = \<lparr>sr_id = ''one'', sr_name = ''One RO'', sr_executable_path = ''/games/one/Ragexe.exe'', sr_patcher_path = None,
     sr_wine_prefix = None, sr_prefix_mode = None, sr_runner = None, sr_installation = None,
     sr_launch = launch_default\<lparr>lc_require_webview2 := True\<rparr>, sr_autopot = autopot_default_config,
     sr_spammer = spammer_default_config, sr_autobuff = autobuff_default_config\<rparr>"

lemmas read_simps = get_range_def ex_pe_def read_le16_def read_le32_def read_le64_def le_value_def

lemma funpow_zero [simp]: "((*) 256 ^^ n) 0 = (0 :: nat)"
  by (induction n) auto

lemma ex_pe_headers:
  "get_range ex_pe 0 2 = Some [0x4d, 0x5a]" "read_le32 ex_pe 60 = Some 64" "get_range ex_pe 64 4 = Some [0x50, 0x45, 0, 0]"
  "read_le16 ex_pe 68 = Some 0x14c" "read_le16 ex_pe 70 = Some 0" "read_le16 ex_pe 84 = Some 0" "read_le16 ex_pe 88 = Some 0x10b"
  "read_le32 ex_pe 116 = Some 0" "read_le32 ex_pe 192 = Some 196" "read_le32 ex_pe 288 = None" "read_le32 ex_pe 296 = None"
  by (simp_all add: read_simps)

lemma ex_pe_names: "import_names ex_pe [] 96 196 = Some [points ''a.dll'']"
proof -
  have e: "get_range ex_pe 196 20 = Some (replicate 12 0 @ [0xec, 0, 0, 0] @ replicate 4 0)" "get_range ex_pe 216 20 = Some (replicate 20 0)"
    by (simp_all add: read_simps)
  have n: "read_c_string ex_pe 236 = Some (points ''A.dll'')" by (simp add: read_c_string_def ex_pe_def points_def)
  have "import_names ex_pe [] (Suc (Suc 94)) 196 = Some [points ''a.dll'']"
    by (simp only: import_names.simps) (simp add: e n name_at_def le_value_def points_def lower_point_def list_all_iff)
  moreover have "(96 :: nat) = Suc (Suc 94)" by simp
  ultimately show ?thesis by metis
qed

lemma ex_pe_parses: "parse_pe_bytes ex_pe = Some \<lparr>pe_architecture = Some ''x86'', pe_imports = [points ''a.dll''], pe_managed = False\<rparr>"
  by (simp add: parse_pe_bytes_def Let_def ex_pe_headers optional_header_def parse_sections_def parse_directories_def table_at_def
      MAX_DEPENDENCIES_def ex_pe_names architecture_of_def)

theorem parsed_names_stand_in_file_witness: "stands_in ex_pe (points ''a.dll'')"
proof -
  have "length ex_pe \<le> MAX_PE_SIZE" by (simp add: ex_pe_def MAX_PE_SIZE_def)
  then show ?thesis
    using parsed_names_stand_in_file [of ex_files "[]" "\<lparr>pe_architecture = Some ''x86'', pe_imports = [points ''a.dll''], pe_managed = False\<rparr>"]
    by (simp add: parse_pe_def ex_files_def ex_pe_parses)
qed

theorem local_imports_exact_witness:
  "collect_local_imports ex_files [] [points ''A.dll''] = needed ex_files [] [points ''A.dll'']"
  using local_imports_exact [where h = ex_files and dir = "[]" and es = "[\<lparr>de_name = Some (points ''A.DLL''), de_file = True\<rparr>]"]
  by (simp add: ex_files_def)

theorem diagnosis_agrees_with_launch_witness:
  "cd_webview2_required (inspect_client ex_files (\<lambda>_. []) ex_client (map points [''games'', ''one'']) (detect_patcher ex_files (map points [''games'', ''one'']) ex_client))"
proof -
  have "parent_of (file_path_of (points (sr_executable_path ex_client))) = Some (map points [''games'', ''one''])"
    by code_simp
  from diagnosis_agrees_with_launch [OF this, of ex_files "\<lambda>_. []" "[]"]
  show ?thesis by (simp add: requires_webview2_def ex_client_def)
qed

end
