(* ===== verification/Spec2Isabelle.thy ===== *)
theory Spec2Isabelle
  imports RoPrelude Ports Glob Domain Autopot Profiles Spammer Autobuff Presence DgVoodoo
    SessionProtocol Utf8 LineReader ProcInfo SessionProcess Supervisor SessionMain Keyboard Inputd
    ProcMemory ClientSelection OperationLock SessionClient RunnerRegistry RegistryInvariant RegistryGuarantees
    RunnerOutput SessionSpawn CrashDisk PrefixManifest PrefixPaths PrefixRecovery RecoverySafety PrefixGate
    MemorySessions GameClients ClientLifecycle UinputWorker UinputQueues JsonStore InstallationDrafts Installations
    LaunchTemplates ServerConfigs Repositories UpdateActivation Updater ClientBinaries
begin

text \<open>
  A verification library for RO-Launcher: the Rust crates that drive a Ragnarok Online client under
  Wine, its automation tools, its input devices and its supervised runner sessions.

  \<^bold>\<open>The program.\<close>  The launcher (\<open>src-tauri\<close>) starts one \<open>ro-sessiond\<close> sidecar per Wine prefix and
  speaks newline-delimited JSON with it: requests on its standard input, events on its standard output
  (\<open>ro-session-protocol\<close>).  The sidecar launches controllers, forwards what they print, reaps every
  descendant, and on shutdown escalates from a grace period to SIGTERM and SIGKILL.  A second
  sidecar, \<open>ro-inputd\<close>, grabs the keyboards, reports when a trigger key is held and passes everything
  else on through a virtual keyboard.  The tools (AutoPot, spammer, AutoBuff, presence) are engines of
  \<open>ro-tools-core\<close> behind ports for memory and input; \<open>ro-tools-linux\<close> implements the ports and
  identifies processes, reads their memory and selects the game client.  The launcher holds a per-prefix
  operation lock around everything that touches a prefix, and its session client turns the sidecar's
  events into answers for the tasks that wait for them.

  \<^bold>\<open>Theories and sources.\<close>
  \<^item> \<open>RoPrelude\<close>: Rust integers, results, \<open>str\<close> and slice operations; the contracts shared by several
    components as locales: \<open>clamped_config\<close> (a stored configuration), \<open>guarded_machine\<close>,
    \<open>refined_machine\<close> and \<open>forward_machine\<close> (state machines, and their abstract counterparts).
  \<^item> \<open>Ports\<close>: \<open>ro-tools-core/src/ports.rs\<close>, \<open>error.rs\<close>.
  \<^item> \<open>Glob\<close>, \<open>Domain\<close>, \<open>Profiles\<close>: \<open>domain.rs\<close>, \<open>profiles.rs\<close> and the address texts of
    \<open>src-tauri/src/tools/autopot/scanner.rs\<close>.  The locale \<open>glob_matcher\<close> states what a matcher promises;
    both copies of the matcher are its interpretations.
  \<^item> \<open>Autopot\<close>, \<open>Spammer\<close>, \<open>Autobuff\<close>, \<open>Presence\<close>, \<open>DgVoodoo\<close>: the modules of the same names.
  \<^item> \<open>SessionProtocol\<close>: \<open>ro-session-protocol/src/lib.rs\<close> and the launch checks of
    \<open>ro-sessiond/src/process.rs\<close>.
  \<^item> \<open>Utf8\<close>: strict and lossy decoding, and text as code points where it comes from bytes.
  \<^item> \<open>LineReader\<close>: \<open>BoundedLineReader\<close> of \<open>ro-sessiond/src/protocol.rs\<close>; the locale \<open>framed_reader\<close> states that a
    reader refines the framing of its byte stream.
  \<^item> \<open>ProcInfo\<close>: \<open>ro-tools-linux/src/wine_process.rs\<close>.
  \<^item> \<open>SessionProcess\<close>: the rest of \<open>ro-sessiond/src/process.rs\<close>.
  \<^item> \<open>Supervisor\<close>: \<open>ro-sessiond/src/supervisor.rs\<close>.
  \<^item> \<open>SessionMain\<close>: \<open>ro-sessiond/src/main.rs\<close>.
  \<^item> \<open>Keyboard\<close>: the label table and event splitting of \<open>ro-tools-linux/src/keyboard.rs\<close>, and
    \<open>combat_uinput.rs\<close>.
  \<^item> \<open>Inputd\<close>: \<open>ro-inputd/src/main.rs\<close>.
  \<^item> \<open>ProcMemory\<close>: \<open>ro-tools-linux/src/proc_memory.rs\<close>.
  \<^item> \<open>ClientSelection\<close>: \<open>ro-tools-linux/src/resolve_pid.rs\<close>, \<open>input_perms.rs\<close>.
  \<^item> \<open>OperationLock\<close>: \<open>src-tauri/src/utils/operation_lock.rs\<close> over POSIX record locks; several launcher
    processes step together.
  \<^item> \<open>SessionClient\<close>: \<open>src-tauri/src/tools/runner_sessions/protocol.rs\<close>; its tasks interleave at their lock
    sections.
  \<^item> \<open>RunnerRegistry\<close>: \<open>src-tauri/src/tools/runner_sessions/registry.rs\<close>: startup, leases, idle timers and shutdown as
    tasks that interleave at every shared access.  \<open>RegistryInvariant\<close> holds the assertion each task relies on and
    the proof that no step of another task breaks it; \<open>RegistryGuarantees\<close> what follows for sessions.
  \<^item> \<open>RunnerOutput\<close>: \<open>utils/process.rs\<close> and \<open>runner_sessions/diagnostics.rs\<close>: redaction and the output kept for errors.
  \<^item> \<open>SessionSpawn\<close>: \<open>runner_sessions/client.rs\<close> and \<open>exec.rs\<close>, the supervised processes of \<open>registry.rs\<close> and the sidecar
    lookup of \<open>utils/fs.rs\<close>.
  \<^item> \<open>CrashDisk\<close>: programs over a few directory entries that may fail or be killed at every change, and triples for them.
  \<^item> \<open>PrefixManifest\<close>, \<open>PrefixPaths\<close>: \<open>utils/prefix.rs\<close>: manifests and their commit; managed paths and the checks before use.
  \<^item> \<open>PrefixRecovery\<close>: \<open>src-tauri/src/tools/prefix/recovery.rs\<close>: classification, the recovery table, its execution and the
    transaction.  \<open>RecoverySafety\<close> holds what they cannot lose; \<open>PrefixGate\<close> what is read of a prefix before recovery, and
    \<open>tools/prefix/mod.rs\<close>.
  \<^item> \<open>MemorySessions\<close>: \<open>tools/memory_sessions\<close>; the locale \<open>lease_registry\<close> states what a registry whose entries belong to
    leases promises.  \<open>GameClients\<close>: \<open>state/game_process.rs\<close>.  \<open>ClientLifecycle\<close>: the operations of both as one step relation.
  \<^item> \<open>UinputWorker\<close>: \<open>tools/input/uinput_worker.rs\<close>: metrics and the execution of one command on the combat device of
    \<open>Keyboard\<close>.  \<open>UinputQueues\<close>: its writers, queues, generations and loop as one step relation.
  \<^item> \<open>JsonStore\<close>: \<open>utils/json.rs\<close> over \<open>CrashDisk\<close>: documents, their backups, loading with recovery and saving; the locale
    \<open>document_store\<close> states what they promise to those who keep one.
  \<^item> \<open>InstallationDrafts\<close>, \<open>Installations\<close>: \<open>models/installation.rs\<close>, \<open>tools/installations/repository.rs\<close> and the changes that
    \<open>session.rs\<close> makes: the manager over its stored list, workers and restarts as one step relation.
  \<^item> \<open>LaunchTemplates\<close>: \<open>models/launch.rs\<close>: launch arguments with fields, their validation and rendering.
  \<^item> \<open>ServerConfigs\<close>: \<open>models/server.rs\<close>.  \<open>Repositories\<close>: the repositories of \<open>state/mod.rs\<close> and
    \<open>utils/settings.rs\<close> over the contract of \<open>JsonStore\<close>.
  \<^item> \<open>UpdateActivation\<close>: \<open>tools/updater/activate.rs\<close> over \<open>CrashDisk\<close>.  \<open>Updater\<close>: the rest of \<open>tools/updater\<close> and
    \<open>models/update.rs\<close>: the lease, its tasks at every lock section and restarts of the launcher as one step relation.
  \<^item> \<open>ClientBinaries\<close>: \<open>tools/server_tools/pe.rs\<close>, \<open>scan.rs\<close> and the searches of \<open>utils/fs.rs\<close>: PE files, local libraries,
    the detection of tools and the diagnosis of a client.

  \<^bold>\<open>How the code is modelled.\<close>  A struct is a record, an enum a datatype, a method a function from the state
  and the answers of the outside world to the new state and the result; every error and early return
  is a value of a sum type.  What is assumed of the outside world is stated as a hypothesis: file systems, \<open>/proc\<close>, clocks,
  \<open>waitpid\<close>, \<open>fork\<close>, pipes, polls, input devices and memory are records or lists of answers.  JSON
  decoding (serde) is an argument.  Unsigned integers are words and wrap as in a release build, where
  that matters; message texts are kept where another component reads them, elsewhere an error is a constructor.  A file descriptor is a number, and a thread that forwards
  output is named by the descriptor it reads.  Iteration orders of hash maps and sets are arguments.

  \<^bold>\<open>What is proved.\<close>
  \<^item> Supervisor: the tables, the counter of launches in flight and the events on standard output agree
    in every reachable state; phases only move forward; signals and the stop come only when due; a due
    shutdown reaches SIGKILL and ends.  The only assumption about the kernel is that \<open>fork\<close> does not
    return the PID of a child that has not been waited for.
  \<^item> Main loop: every state of it holds a reachable supervisor, and it ends only with no children left.
  \<^item> Line reader: on a source that does not block, and on one that does while no message is oversized, the outcomes are
    the frames of the stream however the bytes arrive; on a non-blocking source the tail of an oversized line comes back as
    a message.
  \<^item> Session processes: forwarded output is complete and bounded up to the lossy decoding of each entry, which is exact for
    UTF-8 lines within the limit; the descriptors left open by a launch,
    on every path, including those that leak; only verified descendants are signalled.
  \<^item> Protocol: what a valid process specification is, what a canonical prefix path is, and that the
    environment of a launch names only the owned prefix.
  \<^item> Processes: the bounded parent walk decides descent; opening a pidfd, verifying the identity and signalling, in this
    order and with the PID possibly reused between any two calls, reaches only the captured instance; the game client found is a verified candidate of maximal rank.
  \<^item> Process memory: the chunked scans find exactly the matches a scan of the whole region finds, reads go to
    the process that was opened, and one short chunk yields a match that the memory does not have.
  \<^item> Operation locks: guards exclude each other across tasks and processes, the registry is exact, the
    machine refines a readers-writer lock, and \<open>acquire_for\<close> returns.  The digests of the keys in use are taken to differ.
  \<^item> Session client: no waiter is left without an answer, and the specifications it builds are the ones the
    sidecar accepts.
  \<^item> Session registry: at most one supervisor per prefix and none orphaned; a leased session stays up; the
    shutdown of everything is complete; a lease fits its request.
  \<^item> Runner output: redacted lines are free of the sensitive values that have no \<open><\<close> or \<open>>\<close>, and the diagnostic window is exact.
  \<^item> Supervisor start: the launcher and the sidecar agree on arguments and handshake; the probe for active programs is exact.
  \<^item> Prefixes: a reset, however interrupted and however often recovered, leaves the previous prefix whole at its root or in its
    backup unless a manifest was committed, and an undisturbed recovery puts it back; what is read before recovery agrees with
    recovery; resolved paths are managed, and a path with a fingerprint gives it back.
  \<^item> Clients: no two clients have a launch, an identifier or a process in common; a stopped client stays stopped; memory sessions
    belong to live leases, and what is read through one comes from its process.
  \<^item> Input: the virtual keyboard follows the physical ones while it takes every batch and no key is held on two of them (two
    lemmas show what happens otherwise), the launcher's view of held triggers is
    sound, and dropping the combat device releases everything.  The worker of that device obeys a release of the spammer at once
    and for good, knows what it has pressed although events may be refused, and performs its cycles as documented.
  \<^item> Documents: a save is all or nothing wherever it fails or the launcher is killed.  A load never loses the bytes of a
    document, and never its value unless a first read of the file fails; \<open>unreadable_moment_restores_backup\<close> shows that case.
    Installations: a created one is never lost while the list can be read, at most one worker owns it, and the one interleaving that strands a draft.
    Servers: an installed one is added once and never replaces another.  Launch arguments: rendering is one substitution of
    the fields, argument by argument, and its results are bounded and free of control characters.
  \<^item> Updates: the AppImage is the old one or a whole payload at any time, an interrupted activation can be repeated, a restart is
    offered only for what is in place, a checked update has one owner, and a relaunch excludes launches and installations.
    Client files: the search for needed libraries is exact, names stand in the file, and the diagnosis agrees with the launch.
  \<^item> Tools: AutoPot's cycle refines a plan of key presses, its thresholds are exact below a bound and wrap
    above it; AutoBuff picks the right rule and keeps cooldowns; spammer keys, gear rules and migrated
    documents are canonical; presence publishes only clean fields; configuration texts are read and
    validated as specified.

  \<^bold>\<open>Loops and bounds.\<close>  There is no fuel.  Loops over the outside world recurse on the list of its answers and
  are total: the reader on the bytes its source will still deliver, \<open>waitpid\<close> on the answers to come
  (after which no child changes state), the session loop and the input loop on their iterations.  The
  parent walk has the 64 iterations of the source.  A region scan decreases the bytes left in the region;
  \<open>acquire_for\<close> recurses on what each of its rounds finds.

  \<^bold>\<open>Not modelled.\<close>  The creation of virtual devices, the JSON text of messages, signal handlers, the Tauri
  commands and the web interface.  Of a prefix on disk, the contents below the first level of its directory are one
  value, and the work of the provisioning engine is one change.  A file that is synced may still be lost with the power: the
  failures are those of the launcher and of its calls.  Runtime resolution, the run of an installer and the
  loops around the engines are left out: they are decisions over the host's files and other programs, or a thread around a
  modelled engine.
\<close>

end
